(* ===== verification/Prelude.thy ===== *)
theory Prelude
  imports Main "HOL-Library.Word" "HOL-Library.Monad_Syntax"
begin

text \<open>
  What the components share: names for Rust's machine integers, panics and vectors, the
  loop combinators the handlers are written with, and the word lemmas their proofs use.

  A Rust function is a HOL function. A \<^emph>\<open>panic\<close> (an out-of-range index, a failed
  \<^verbatim>\<open>assert!\<close>, an \<^verbatim>\<open>unwrap\<close> of an error, an explicit \<^verbatim>\<open>panic!\<close>) is the value \<open>None\<close>, so
  the \<open>do\<close> notation of \<open>option\<close> reads as straight-line Rust. A \<^verbatim>\<open>Result\<close> is a sum,
  \<open>Inl\<close> for \<^verbatim>\<open>Err\<close> and \<open>Inr\<close> for \<^verbatim>\<open>Ok\<close>. A method on \<^verbatim>\<open>&mut self\<close> returns its result
  paired with the new state. An error keeps the state reached when it was raised, because a
  Rust method that returns \<^verbatim>\<open>Err\<close> keeps the writes it has already made.

  The components are built with Cargo's release profile (\<^verbatim>\<open>src/src/rust/Cargo.toml\<close>), which
  leaves \<^verbatim>\<open>debug_assert!\<close> and the overflow checks out: fixed-width arithmetic wraps and a
  shift takes its amount modulo the width.
\<close>

unbundle bit_operations_syntax

named_theorems panic_simps "rewrite rules for the panicking primitives"

type_synonym u8 = "8 word"
type_synonym u16 = "16 word"
type_synonym u32 = "32 word"
type_synonym u64 = "64 word"

text \<open>\<^verbatim>\<open>Result<(), E>\<close> of a method on \<^verbatim>\<open>&mut self\<close> that may panic.\<close>

type_synonym ('e, 'a, 's) fallible = "(('e + 'a) \<times> 's) option"

section \<open>Panicking primitives\<close>

definition rust_assert :: "bool \<Rightarrow> unit option" where
  "rust_assert b = (if b then Some () else None)"

definition vec_get :: "'a list \<Rightarrow> nat \<Rightarrow> 'a option" where
  "vec_get xs i = (if i < length xs then Some (xs ! i) else None)"

definition vec_set :: "'a list \<Rightarrow> nat \<Rightarrow> 'a \<Rightarrow> 'a list option" where
  "vec_set xs i v = (if i < length xs then Some (xs[i := v]) else None)"

text \<open>Rust's \<^verbatim>\<open>&&\<close>: the right operand runs, and may panic, only if the left one is true.\<close>

definition and_also :: "bool \<Rightarrow> bool option \<Rightarrow> bool option" where
  "and_also a b = (if a then b else Some False)"

text \<open>\<^verbatim>\<open>r.unwrap()\<close> on the result of a method: an error panics.\<close>

definition unwrap_method :: "('e, 'a, 's) fallible \<Rightarrow> ('a \<times> 's) option" where
  "unwrap_method m = (case m of Some (Inr a, s) \<Rightarrow> Some (a, s) | _ \<Rightarrow> None)"

text \<open>The \<^verbatim>\<open>?\<close> operator between two methods: an error returns early.\<close>

definition try_method ::
  "('e, 'a, 's) fallible \<Rightarrow> ('a \<Rightarrow> 's \<Rightarrow> ('e, 'b, 's) fallible) \<Rightarrow> ('e, 'b, 's) fallible" where
  "try_method m k = (case m of
     None \<Rightarrow> None
   | Some (Inl e, s) \<Rightarrow> Some (Inl e, s)
   | Some (Inr a, s) \<Rightarrow> k a s)"

text \<open>\<^verbatim>\<open>for x in xs { .. }\<close> with a body that updates state and may panic.\<close>

primrec for_each :: "'a list \<Rightarrow> ('a \<Rightarrow> 's \<Rightarrow> 's option) \<Rightarrow> 's \<Rightarrow> 's option" where
  "for_each [] f s = Some s"
| "for_each (x # xs) f s = (case f x s of None \<Rightarrow> None | Some s' \<Rightarrow> for_each xs f s')"

text \<open>The same loop with \<^verbatim>\<open>?\<close> in its body: the first error leaves the function.\<close>

primrec try_for_each ::
  "'a list \<Rightarrow> ('a \<Rightarrow> 's \<Rightarrow> ('e, unit, 's) fallible) \<Rightarrow> 's \<Rightarrow> ('e, unit, 's) fallible" where
  "try_for_each [] f s = Some (Inr (), s)"
| "try_for_each (x # xs) f s = try_method (f x s) (\<lambda>_ s'. try_for_each xs f s')"

lemma rust_assert_simps [simp]:
  "rust_assert b = Some u \<longleftrightarrow> b" "rust_assert b = None \<longleftrightarrow> \<not> b"
  by (auto simp: rust_assert_def)

lemma vec_get_in [simp]: "i < length xs \<Longrightarrow> vec_get xs i = Some (xs ! i)"
  by (simp add: vec_get_def)

lemma vec_set_in [simp]: "i < length xs \<Longrightarrow> vec_set xs i v = Some (xs[i := v])"
  by (simp add: vec_set_def)

lemma vec_get_None [panic_simps]: "vec_get xs i = None \<longleftrightarrow> length xs \<le> i"
  by (auto simp: vec_get_def)

lemma vec_set_None [panic_simps]: "vec_set xs i v = None \<longleftrightarrow> length xs \<le> i"
  by (auto simp: vec_set_def)

lemma vec_get_Some: "vec_get xs i = Some x \<longleftrightarrow> i < length xs \<and> x = xs ! i"
  by (auto simp: vec_get_def)

lemma vec_set_Some: "vec_set xs i v = Some ys \<longleftrightarrow> i < length xs \<and> ys = xs[i := v]"
  by (auto simp: vec_set_def)

lemma and_also_simps [simp]: "and_also True b = b" "and_also False b = Some False"
  by (simp_all add: and_also_def)

lemma unwrap_method_simps [simp]:
  "unwrap_method (Some (Inr a, s)) = Some (a, s)"
  "unwrap_method (Some (Inl e, s)) = None"
  "unwrap_method None = None"
  by (simp_all add: unwrap_method_def)

lemma try_method_simps [simp]:
  "try_method (Some (Inr a, s)) k = k a s"
  "try_method (Some (Inl e, s)) k = Some (Inl e, s)"
  "try_method None k = None"
  by (simp_all add: try_method_def)

lemma try_method_ok:
  "try_method m k = Some (Inr b, s') \<longleftrightarrow> (\<exists>a s. m = Some (Inr a, s) \<and> k a s = Some (Inr b, s'))"
  by (auto simp: try_method_def split: option.splits sum.splits)

lemma try_method_result:
  "try_method m k = Some r \<longleftrightarrow>
     (\<exists>e s. m = Some (Inl e, s) \<and> r = (Inl e, s)) \<or> (\<exists>a s. m = Some (Inr a, s) \<and> k a s = Some r)"
  by (auto simp: try_method_def split: option.splits sum.splits prod.splits)

text \<open>Invariant rules of the loops.\<close>

lemma for_each_inv:
  assumes "for_each xs f s = Some s'" and "P s"
    and "\<And>x s s'. x \<in> set xs \<Longrightarrow> P s \<Longrightarrow> f x s = Some s' \<Longrightarrow> P s'"
  shows "P s'"
  using assms
proof (induction xs arbitrary: s)
  case Nil
  then show ?case by simp
next
  case (Cons x xs)
  from Cons.prems(1) obtain t where t: "f x s = Some t" "for_each xs f t = Some s'"
    by (auto split: option.splits)
  from t(1) Cons.prems(2,3) have "P t" by auto
  with t(2) Cons.prems(3) show ?case by (intro Cons.IH) auto
qed

lemma for_each_total:
  assumes "P s" and "\<And>x s. x \<in> set xs \<Longrightarrow> P s \<Longrightarrow> \<exists>s'. f x s = Some s' \<and> P s'"
  shows "\<exists>s'. for_each xs f s = Some s' \<and> P s'"
  using assms
proof (induction xs arbitrary: s)
  case Nil
  then show ?case by simp
next
  case (Cons x xs)
  from Cons.prems(1) Cons.prems(2) [of x s] obtain t where "f x s = Some t" "P t" by auto
  with Cons show ?case by simp
qed

lemma try_for_each_inv:
  assumes "try_for_each xs f s = Some (r, s')" and "P s"
    and "\<And>x s r s'. x \<in> set xs \<Longrightarrow> P s \<Longrightarrow> f x s = Some (r, s') \<Longrightarrow> P s'"
  shows "P s'"
  using assms
proof (induction xs arbitrary: s)
  case Nil
  then show ?case by simp
next
  case (Cons x xs)
  from Cons.prems(1) consider e where "f x s = Some (Inl e, s')"
    | u t where "f x s = Some (Inr u, t)" "try_for_each xs f t = Some (r, s')"
    by (auto simp: try_method_result)
  then show ?case
  proof cases
    case 1
    with Cons.prems(2,3) show ?thesis by auto
  next
    case (2 u t)
    with Cons.prems(2,3) have "P t" by auto
    with 2(2) Cons.prems(3) show ?thesis by (intro Cons.IH) auto
  qed
qed

lemma for_each_append:
  "for_each (xs @ ys) f s = (case for_each xs f s of None \<Rightarrow> None | Some s' \<Rightarrow> for_each ys f s')"
  by (induction xs arbitrary: s) (auto split: option.splits)

section \<open>Shifts and single bits\<close>

text \<open>\<^verbatim>\<open><<\<close> and \<^verbatim>\<open>>>\<close> of the release profile: the amount is taken modulo the width.\<close>

definition shl :: "'a::len word \<Rightarrow> nat \<Rightarrow> 'a word" where
  "shl w n = push_bit (n mod LENGTH('a)) w"

definition shr :: "'a::len word \<Rightarrow> nat \<Rightarrow> 'a word" where
  "shr w n = drop_bit (n mod LENGTH('a)) w"

lemma shl_in: "n < LENGTH('a::len) \<Longrightarrow> shl (w :: 'a word) n = push_bit n w"
  by (simp add: shl_def)

lemma shr_in: "n < LENGTH('a::len) \<Longrightarrow> shr (w :: 'a word) n = drop_bit n w"
  by (simp add: shr_def)

lemma bit_word_lt: "bit (w :: 'a::len word) n \<Longrightarrow> n < LENGTH('a)"
  by (meson bit_imp_le_length)

text \<open>\<^verbatim>\<open>(w >> n) & 1 == 1\<close> tests bit \<open>n\<close>, and \<^verbatim>\<open>1 << n\<close> is the word with bit \<open>n\<close> alone.\<close>

lemma and_1_eq_1_iff: "w AND 1 = 1 \<longleftrightarrow> bit (w :: 'a::len word) 0"
  by (simp add: and_one_eq odd_iff_mod_2_eq_one bit_0)

lemma shr_test_bit:
  "n < LENGTH('a::len) \<Longrightarrow> shr (w :: 'a word) n AND 1 = 1 \<longleftrightarrow> bit w n"
  by (simp add: shr_in and_1_eq_1_iff bit_drop_bit_eq)

lemma bit_shl_1:
  "n < LENGTH('a::len) \<Longrightarrow> bit (shl (1 :: 'a word) n) i \<longleftrightarrow> i = n"
  by (auto simp: shl_in bit_exp_iff)

lemma bit_or_shl_1:
  "n < LENGTH('a::len) \<Longrightarrow> bit (w OR shl (1 :: 'a word) n) i \<longleftrightarrow> bit w i \<or> i = n"
  by (simp add: bit_or_iff bit_shl_1)

lemma bit_and_not_shl_1:
  "n < LENGTH('a::len) \<Longrightarrow> bit (w AND NOT (shl (1 :: 'a word) n)) i \<longleftrightarrow> bit w i \<and> i \<noteq> n"
  by (auto simp: bit_and_iff bit_not_iff bit_shl_1 dest: bit_word_lt)

lemma and_shl_1_eq_0:
  fixes w :: "'a::len word"
  assumes "n < LENGTH('a)"
  shows "w AND shl 1 n = 0 \<longleftrightarrow> \<not> bit w n"
proof
  assume "w AND shl 1 n = 0"
  then have "\<not> bit (w AND shl 1 n) n" by simp
  then show "\<not> bit w n" using assms by (simp add: bit_and_iff bit_shl_1)
next
  assume "\<not> bit w n"
  then show "w AND shl 1 n = 0" using assms by (intro bit_word_eqI) (auto simp: bit_and_iff bit_shl_1)
qed

lemma or_shl_1_absorb: "n < LENGTH('a::len) \<Longrightarrow> bit (w :: 'a word) n \<Longrightarrow> w OR shl 1 n = w"
  by (intro bit_word_eqI) (auto simp: bit_or_shl_1)

lemma div_mod_less: "(n::nat) < a * b \<Longrightarrow> n div b < a"
  by (simp add: less_mult_imp_div_less)

lemma same_word_and_bit: "(i::nat) div w = j div w \<and> i mod w = j mod w \<longleftrightarrow> i = j"
  by (metis div_mult_mod_eq)

section \<open>Signed integers\<close>

text \<open>\<^verbatim>\<open>i64\<close> and \<^verbatim>\<open>isize\<close> as integers: the value an operation wraps to, and the range.\<close>

definition i64 :: "int \<Rightarrow> int" where
  "i64 x = (x + 2 ^ 63) mod 2 ^ 64 - 2 ^ 63"

definition i64_ok :: "int \<Rightarrow> bool" where
  "i64_ok x \<longleftrightarrow> - (2 ^ 63) \<le> x \<and> x < 2 ^ 63"

lemma i64_id [simp]: "i64_ok x \<Longrightarrow> i64 x = x"
  by (simp add: i64_ok_def i64_def)

lemma i64_range [simp]: "i64_ok (i64 x)"
  using pos_mod_bound [of "2 ^ 64" "x + 2 ^ 63"] pos_mod_sign [of "2 ^ 64" "x + 2 ^ 63"] by (simp add: i64_ok_def i64_def)

end
