(* ===== verification/Fault.thy ===== *)
theory Fault
  imports Prelude
begin

text \<open>
  Decoding of the faults a virtual CPU raises (\<^verbatim>\<open>icecap-sel4/src/fault.rs\<close>), and the part of
  the saved register file (\<^verbatim>\<open>UserContext\<close> of \<^verbatim>\<open>icecap-sel4/src/types.rs\<close>) that emulating a
  data abort touches. The virtual machine monitor uses it to turn a trapped load or store on
  the interrupt controller's page into a call of the distributor model. The theory shows that
  the syndrome decoding is consistent, that an emulated read changes the addressed bytes of the
  target register and nothing else, and when it panics.
\<close>

section \<open>Fault messages\<close>

text \<open>
  The message registers of the last received message, and the positions libsel4's generated
  header gives to each field; \<open>sys\<close> is a parameter of the model, one value per constant
  the source names.
\<close>

type_synonym message_registers = "nat \<Rightarrow> u64"

datatype fault_field =
    CapFault_IP | CapFault_Addr | CapFault_InRecvPhase | CapFault_LookupFailureType
  | CapFault_BitsLeft | CapFault_GuardMismatch_GuardFound | CapFault_GuardMismatch_BitsFound
  | UnknownSyscall_X0 | UnknownSyscall_X1 | UnknownSyscall_X2 | UnknownSyscall_X3
  | UnknownSyscall_X4 | UnknownSyscall_X5 | UnknownSyscall_X6 | UnknownSyscall_X7
  | UnknownSyscall_FaultIP | UnknownSyscall_SP | UnknownSyscall_LR | UnknownSyscall_SPSR
  | UnknownSyscall_Syscall | UnknownSyscall_Length
  | UserException_FaultIP | UserException_SP | UserException_SPSR | UserException_Number
  | UserException_Code | UserException_Length
  | VMFault_IP | VMFault_Addr | VMFault_PrefetchFault | VMFault_FSR | VMFault_Length
  | VGICMaintenance_IDX | VGICMaintenance_Length
  | VCPUFault_HSR | VCPUFault_Length
  | VPPIEvent_IRQ

datatype fault_tag =
    Tag_NullFault | Tag_CapFault | Tag_UnknownSyscall | Tag_UserException | Tag_VMFault
  | Tag_VGICMaintenance | Tag_VCPUFault | Tag_VPPIEvent

record sel4_sys =
  field_index :: "fault_field \<Rightarrow> nat"
  tag_label :: "fault_tag \<Rightarrow> nat"

record CapFault =
  cf_ip :: u64
  cf_addr :: u64
  in_recv_phase :: u64
  lookup_failure_type :: u64
  bits_left :: u64
  guard_mismatch_guard_found :: u64
  guard_mismatch_bits_found :: u64

record UnknownSyscall =
  x0 :: u64
  x1 :: u64
  x2 :: u64
  x3 :: u64
  x4 :: u64
  x5 :: u64
  x6 :: u64
  x7 :: u64
  us_fault_ip :: u64
  us_sp :: u64
  us_lr :: u64
  us_spsr :: u64
  us_syscall :: u64

record UserException =
  ue_fault_ip :: u64
  ue_sp :: u64
  ue_spsr :: u64
  ue_number :: u64
  ue_code :: u64

record VMFault =
  vmf_ip :: u64
  vmf_addr :: u64
  prefetch_fault :: u64
  fsr :: u64

record VGICMaintenance =
  vgic_idx :: "u64 option"

record VCPUFault =
  vcpu_hsr :: u64

record VPPIEvent =
  vppi_irq :: u64

datatype Fault =
    F_NullFault
  | F_CapFault CapFault
  | F_UnknownSyscall UnknownSyscall
  | F_UserException UserException
  | F_VMFault VMFault
  | F_VGICMaintenance VGICMaintenance
  | F_VCPUFault VCPUFault
  | F_VPPIEvent VPPIEvent

definition mr_get :: "sel4_sys \<Rightarrow> message_registers \<Rightarrow> fault_field \<Rightarrow> u64" where
  "mr_get sys mrs f = mrs (field_index sys f)"

definition CapFault_get :: "sel4_sys \<Rightarrow> message_registers \<Rightarrow> CapFault" where
  "CapFault_get sys mrs = \<lparr>
     cf_ip = mr_get sys mrs CapFault_IP,
     cf_addr = mr_get sys mrs CapFault_Addr,
     in_recv_phase = mr_get sys mrs CapFault_InRecvPhase,
     lookup_failure_type = mr_get sys mrs CapFault_LookupFailureType,
     bits_left = mr_get sys mrs CapFault_BitsLeft,
     guard_mismatch_guard_found = mr_get sys mrs CapFault_GuardMismatch_GuardFound,
     guard_mismatch_bits_found = mr_get sys mrs CapFault_GuardMismatch_BitsFound\<rparr>"

definition UnknownSyscall_get :: "sel4_sys \<Rightarrow> message_registers \<Rightarrow> UnknownSyscall" where
  "UnknownSyscall_get sys mrs = \<lparr>
     x0 = mr_get sys mrs UnknownSyscall_X0,
     x1 = mr_get sys mrs UnknownSyscall_X1,
     x2 = mr_get sys mrs UnknownSyscall_X2,
     x3 = mr_get sys mrs UnknownSyscall_X3,
     x4 = mr_get sys mrs UnknownSyscall_X4,
     x5 = mr_get sys mrs UnknownSyscall_X5,
     x6 = mr_get sys mrs UnknownSyscall_X6,
     x7 = mr_get sys mrs UnknownSyscall_X7,
     us_fault_ip = mr_get sys mrs UnknownSyscall_FaultIP,
     us_sp = mr_get sys mrs UnknownSyscall_SP,
     us_lr = mr_get sys mrs UnknownSyscall_LR,
     us_spsr = mr_get sys mrs UnknownSyscall_SPSR,
     us_syscall = mr_get sys mrs UnknownSyscall_Syscall\<rparr>"

definition UserException_get :: "sel4_sys \<Rightarrow> message_registers \<Rightarrow> UserException" where
  "UserException_get sys mrs = \<lparr>
     ue_fault_ip = mr_get sys mrs UserException_FaultIP,
     ue_sp = mr_get sys mrs UserException_SP,
     ue_spsr = mr_get sys mrs UserException_SPSR,
     ue_number = mr_get sys mrs UserException_Number,
     ue_code = mr_get sys mrs UserException_Code\<rparr>"

definition VMFault_get :: "sel4_sys \<Rightarrow> message_registers \<Rightarrow> VMFault" where
  "VMFault_get sys mrs = \<lparr>
     vmf_ip = mr_get sys mrs VMFault_IP,
     vmf_addr = mr_get sys mrs VMFault_Addr,
     prefetch_fault = mr_get sys mrs VMFault_PrefetchFault,
     fsr = mr_get sys mrs VMFault_FSR\<rparr>"

definition VGICMaintenance_get :: "sel4_sys \<Rightarrow> message_registers \<Rightarrow> VGICMaintenance" where
  "VGICMaintenance_get sys mrs = \<lparr>
     vgic_idx = (let i = mr_get sys mrs VGICMaintenance_IDX
            in if i = NOT 0 then None else Some i)\<rparr>"

definition VCPUFault_get :: "sel4_sys \<Rightarrow> message_registers \<Rightarrow> VCPUFault" where
  "VCPUFault_get sys mrs = \<lparr>vcpu_hsr = mr_get sys mrs VCPUFault_HSR\<rparr>"

definition VPPIEvent_get :: "sel4_sys \<Rightarrow> message_registers \<Rightarrow> VPPIEvent" where
  "VPPIEvent_get sys mrs = \<lparr>vppi_irq = mr_get sys mrs VPPIEvent_IRQ\<rparr>"

text \<open>
  \<^verbatim>\<open>Fault::get\<close>: dispatch on the message label (truncated to 32 bits), with the length asserted where the source
  asserts it and a panic for a label that is no fault.
\<close>

definition Fault_get :: "sel4_sys \<Rightarrow> message_registers \<Rightarrow> nat \<Rightarrow> nat \<Rightarrow> Fault option" where
  "Fault_get sys mrs raw_label len = (let label = raw_label mod 2 ^ 32 in
      if label = tag_label sys Tag_NullFault then Some F_NullFault
      else if label = tag_label sys Tag_CapFault then Some (F_CapFault (CapFault_get sys mrs))
      else if label = tag_label sys Tag_UnknownSyscall then do {
        rust_assert (len = field_index sys UnknownSyscall_Length);
        Some (F_UnknownSyscall (UnknownSyscall_get sys mrs)) }
      else if label = tag_label sys Tag_UserException then do {
        rust_assert (len = field_index sys UserException_Length);
        Some (F_UserException (UserException_get sys mrs)) }
      else if label = tag_label sys Tag_VMFault then do {
        rust_assert (len = field_index sys VMFault_Length);
        Some (F_VMFault (VMFault_get sys mrs)) }
      else if label = tag_label sys Tag_VGICMaintenance then do {
        rust_assert (len = field_index sys VGICMaintenance_Length);
        Some (F_VGICMaintenance (VGICMaintenance_get sys mrs)) }
      else if label = tag_label sys Tag_VCPUFault then do {
        rust_assert (len = field_index sys VCPUFault_Length);
        Some (F_VCPUFault (VCPUFault_get sys mrs)) }
      else if label = tag_label sys Tag_VPPIEvent then Some (F_VPPIEvent (VPPIEvent_get sys mrs))
      else None)"

section \<open>Data abort syndromes\<close>

datatype VMFaultWidth = Width_Byte | Width_HalfWord | Width_Word | Width_DoubleWord

datatype VMFaultData = Data_Byte u8 | Data_HalfWord u16 | Data_Word u32 | Data_DoubleWord u64

definition HSR_SYNDROME_VALID :: u64 where "HSR_SYNDROME_VALID = shl 1 24"

definition SRT_MASK :: u64 where "SRT_MASK = 0x1f"

definition is_prefetch :: "VMFault \<Rightarrow> bool" where
  "is_prefetch f \<longleftrightarrow> prefetch_fault f \<noteq> 0"

definition is_valid :: "VMFault \<Rightarrow> bool" where
  "is_valid f \<longleftrightarrow> fsr f AND HSR_SYNDROME_VALID \<noteq> 0"

definition valid_hsr :: "VMFault \<Rightarrow> u64 option" where
  "valid_hsr f = do { rust_assert (is_valid f); Some (fsr f) }"

definition is_write :: "VMFault \<Rightarrow> bool option" where
  "is_write f = do { h \<leftarrow> valid_hsr f; Some (h AND shl 1 6 \<noteq> 0) }"

definition is_read :: "VMFault \<Rightarrow> bool option" where
  "is_read f = do { w \<leftarrow> is_write f; Some (\<not> w) }"

definition width :: "VMFault \<Rightarrow> VMFaultWidth option" where
  "width f = do {
     h \<leftarrow> valid_hsr f;
     let sas = shr h 22 AND 3;
     if sas = 0 then Some Width_Byte
     else if sas = 1 then Some Width_HalfWord
     else if sas = 2 then Some Width_Word
     else if sas = 3 then Some Width_DoubleWord
     else None }"

definition is_aligned :: "VMFault \<Rightarrow> bool option" where
  "is_aligned f = do {
     w \<leftarrow> width f;
     let mask = (case w of Width_Byte \<Rightarrow> 0 | Width_HalfWord \<Rightarrow> 1 | Width_Word \<Rightarrow> 3
                         | Width_DoubleWord \<Rightarrow> 7);
     Some (vmf_addr f AND mask = 0) }"

definition gpr_index :: "VMFault \<Rightarrow> u64 option" where
  "gpr_index f = do { h \<leftarrow> valid_hsr f; Some (shr h 16 AND SRT_MASK) }"

fun width_mask :: "VMFaultWidth \<Rightarrow> u64" where
  "width_mask Width_Byte = 0xff"
| "width_mask Width_HalfWord = 0xffff"
| "width_mask Width_Word = 0xffffffff"
| "width_mask Width_DoubleWord = NOT 0"

definition width_truncate :: "VMFaultWidth \<Rightarrow> u64 \<Rightarrow> VMFaultData" where
  "width_truncate w val =
     (let val = val AND width_mask w in
      case w of
        Width_Byte \<Rightarrow> Data_Byte (ucast val)
      | Width_HalfWord \<Rightarrow> Data_HalfWord (ucast val)
      | Width_Word \<Rightarrow> Data_Word (ucast val)
      | Width_DoubleWord \<Rightarrow> Data_DoubleWord val)"

fun u64_from_data :: "VMFaultData \<Rightarrow> u64" where
  "u64_from_data (Data_Byte raw) = ucast raw"
| "u64_from_data (Data_HalfWord raw) = ucast raw"
| "u64_from_data (Data_Word raw) = ucast raw"
| "u64_from_data (Data_DoubleWord raw) = raw"

fun width_from_data :: "VMFaultData \<Rightarrow> VMFaultWidth" where
  "width_from_data (Data_Byte _) = Width_Byte"
| "width_from_data (Data_HalfWord _) = Width_HalfWord"
| "width_from_data (Data_Word _) = Width_Word"
| "width_from_data (Data_DoubleWord _) = Width_DoubleWord"

definition data_set :: "VMFaultData \<Rightarrow> u64 \<Rightarrow> u64" where
  "data_set d old_val = (old_val AND NOT (width_mask (width_from_data d))) OR u64_from_data d"

section \<open>The saved register file\<close>

text \<open>\<^verbatim>\<open>gprs\<close> holds \<^verbatim>\<open>x0\<close> to \<^verbatim>\<open>x30\<close>; the zero register has no cell.\<close>

record UserContext =
  pc :: u64
  sp :: u64
  spsr :: u64
  gprs :: "u64 list"

definition wf_context :: "UserContext \<Rightarrow> bool" where
  "wf_context ctx \<longleftrightarrow> length (gprs ctx) = 31"

definition gpr :: "UserContext \<Rightarrow> u64 \<Rightarrow> u64 option" where
  "gpr ctx ix = vec_get (gprs ctx) (unat ix)"

definition set_gpr :: "UserContext \<Rightarrow> u64 \<Rightarrow> u64 \<Rightarrow> UserContext option" where
  "set_gpr ctx ix v = do { g \<leftarrow> vec_set (gprs ctx) (unat ix) v; Some (ctx\<lparr>gprs := g\<rparr>) }"

definition read_gpr :: "UserContext \<Rightarrow> u64 \<Rightarrow> u64 option" where
  "read_gpr ctx ix = (if ix = 31 then Some 0 else gpr ctx ix)"

definition advance :: "UserContext \<Rightarrow> UserContext" where
  "advance ctx = ctx\<lparr>pc := pc ctx + 4\<rparr>"

definition vmfault_data :: "VMFault \<Rightarrow> UserContext \<Rightarrow> VMFaultData option" where
  "vmfault_data f ctx = do {
     w \<leftarrow> is_write f;
     rust_assert w;
     wd \<leftarrow> width f;
     i \<leftarrow> gpr_index f;
     v \<leftarrow> read_gpr ctx i;
     Some (width_truncate wd v) }"

definition emulate_read :: "VMFault \<Rightarrow> UserContext \<Rightarrow> VMFaultData \<Rightarrow> UserContext option" where
  "emulate_read f ctx val = do {
     r \<leftarrow> is_read f;
     rust_assert r;
     wd \<leftarrow> width f;
     rust_assert (wd = width_from_data val);
     i \<leftarrow> gpr_index f;
     old \<leftarrow> gpr ctx i;
     set_gpr ctx i (data_set val old) }"

text \<open>Replies to a trapped system call: the registers \<^verbatim>\<open>UnknownSyscall\<close> writes back.\<close>

definition num_regs_for_gprs_and_pc :: "sel4_sys \<Rightarrow> nat" where
  "num_regs_for_gprs_and_pc sys = field_index sys UnknownSyscall_FaultIP + 1"

definition mr_gpr :: "sel4_sys \<Rightarrow> nat \<Rightarrow> nat option" where
  "mr_gpr sys ix = do { rust_assert (ix \<le> 7); Some (field_index sys UnknownSyscall_X0 + ix) }"

definition syscall_advance :: "sel4_sys \<Rightarrow> UnknownSyscall \<Rightarrow> message_registers \<Rightarrow> message_registers" where
  "syscall_advance sys f mrs = mrs(field_index sys UnknownSyscall_FaultIP := us_fault_ip f + 4)"

definition syscall_gpr :: "UnknownSyscall \<Rightarrow> nat \<Rightarrow> u64 option" where
  "syscall_gpr f ix = vec_get [x0 f, x1 f, x2 f, x3 f, x4 f, x5 f, x6 f, x7 f] ix"

definition is_wf :: "VCPUFault \<Rightarrow> bool" where
  "is_wf f \<longleftrightarrow> shr (vcpu_hsr f) 26 = 1"

section \<open>Lemmas\<close>

lemmas syndrome_defs =
  valid_hsr_def is_write_def is_read_def width_def is_aligned_def gpr_index_def

lemma valid_hsr_Some: "is_valid f \<Longrightarrow> valid_hsr f = Some (fsr f)"
  by (simp add: valid_hsr_def rust_assert_def)

lemma and_3_cases: "(w :: u64) AND 3 = 0 \<or> w AND 3 = 1 \<or> w AND 3 = 2 \<or> w AND 3 = 3"
proof -
  have "w AND 3 \<le> 3" by (rule word_and_le1)
  then have "unat (w AND 3) \<le> 3" by (simp add: word_le_nat_alt)
  then have "unat (w AND 3) = 0 \<or> unat (w AND 3) = 1 \<or> unat (w AND 3) = 2 \<or> unat (w AND 3) = 3"
    by arith
  then show ?thesis by (simp add: word_unat_eq_iff)
qed

lemma width_total: "is_valid f \<Longrightarrow> \<exists>w. width f = Some w"
  using and_3_cases [of "shr (fsr f) 22"] by (auto simp: width_def valid_hsr_Some Let_def)

lemma gpr_index_le_31:
  assumes "gpr_index f = Some i"
  shows "unat i \<le> 31"
proof -
  from assms have "i = shr (fsr f) 16 AND 31"
    by (auto simp: gpr_index_def valid_hsr_def SRT_MASK_def bind_eq_Some_conv)
  then have "i \<le> 31" by (simp add: word_and_le1)
  then show ?thesis by (simp add: word_le_nat_alt)
qed

text \<open>The mask of a width covers the bits below it.\<close>

fun width_bits :: "VMFaultWidth \<Rightarrow> nat" where
  "width_bits Width_Byte = 8"
| "width_bits Width_HalfWord = 16"
| "width_bits Width_Word = 32"
| "width_bits Width_DoubleWord = 64"

lemma width_mask_eq_mask: "width_mask w = mask (width_bits w)"
  by (cases w) (simp_all add: mask_eq_decr_exp)

lemma bit_width_mask: "bit (width_mask w) i \<longleftrightarrow> i < width_bits w"
  by (cases w) (auto simp: width_mask_eq_mask bit_mask_iff)

lemma bit_u64_from_data:
  "bit (u64_from_data d) i \<Longrightarrow> i < width_bits (width_from_data d)"
  by (cases d) (auto simp: bit_simps dest: bit_word_lt)

lemma bit_data_set:
  "bit (data_set d old) i \<longleftrightarrow>
     (if i < width_bits (width_from_data d) then bit (u64_from_data d) i else bit old i)"
  by (auto simp: data_set_def bit_or_iff bit_and_iff bit_not_iff bit_width_mask
      dest: bit_u64_from_data bit_word_lt)

lemma truncate_u64_from_data: "width_truncate (width_from_data d) (u64_from_data d) = d"
  by (cases d)
     (auto simp: width_truncate_def width_mask_eq_mask Let_def bit_simps
        intro!: bit_word_eqI dest: bit_word_lt)

lemma truncate_cong:
  assumes "\<And>i. i < width_bits w \<Longrightarrow> bit a i = bit b i"
  shows "width_truncate w a = width_truncate w b"
proof -
  have "a AND width_mask w = b AND width_mask w"
    by (rule bit_word_eqI) (auto simp: bit_and_iff bit_width_mask assms)
  then show ?thesis by (simp add: width_truncate_def)
qed

lemma truncate_data_set: "width_truncate (width_from_data d) (data_set d old) = d"
  using truncate_cong [of "width_from_data d" "data_set d old" "u64_from_data d"]
  by (simp add: bit_data_set truncate_u64_from_data)

lemma emulate_read_Some:
  assumes "emulate_read f ctx val = Some ctx'"
  obtains i where "gpr_index f = Some i" "unat i < length (gprs ctx)"
    "ctx' = ctx\<lparr>gprs := (gprs ctx)[unat i := data_set val (gprs ctx ! unat i)]\<rparr>"
    "width f = Some (width_from_data val)" "is_read f = Some True"
  using assms
  by (auto simp: emulate_read_def gpr_def set_gpr_def bind_eq_Some_conv vec_get_Some vec_set_Some)

section \<open>Properties\<close>

text \<open>
  An emulated read of a value of some width puts exactly that value in the low bits of the
  register named by the syndrome, keeps the bits above the width, and changes no other register,
  neither the stack pointer nor the program counter.
\<close>

lemma emulate_read_effect:
  assumes "emulate_read f ctx val = Some ctx'" and "gpr_index f = Some i"
  shows "width_truncate (width_from_data val) (gprs ctx' ! unat i) = val
    \<and> (\<forall>b\<ge>width_bits (width_from_data val). bit (gprs ctx' ! unat i) b = bit (gprs ctx ! unat i) b)
    \<and> (\<forall>j. j \<noteq> unat i \<longrightarrow> gprs ctx' ! j = gprs ctx ! j)
    \<and> pc ctx' = pc ctx \<and> sp ctx' = sp ctx \<and> spsr ctx' = spsr ctx"
  using assms by (auto elim!: emulate_read_Some simp: truncate_data_set bit_data_set)

definition example_read_fault :: VMFault where
  "example_read_fault = \<lparr>vmf_ip = 0, vmf_addr = 0x8000000, prefetch_fault = 0, fsr = 0x1850000\<rparr>"

definition example_context :: UserContext where
  "example_context = \<lparr>pc = 0x40, sp = 0, spsr = 0, gprs = replicate 31 0xffffffffffffffff\<rparr>"

lemmas example_defs = example_read_fault_def example_context_def is_valid_def
  HSR_SYNDROME_VALID_def SRT_MASK_def rust_assert_def shl_def shr_def

lemma emulate_read_effect_witness:
  "\<exists>ctx'. emulate_read example_read_fault example_context (Data_Word 7) = Some ctx'
     \<and> width_truncate Width_Word (gprs ctx' ! 5) = Data_Word 7"
proof -
  have i: "gpr_index example_read_fault = Some 5"
    by (simp add: syndrome_defs example_defs)
  have "\<exists>ctx'. emulate_read example_read_fault example_context (Data_Word 7) = Some ctx'"
    by (simp add: emulate_read_def gpr_def set_gpr_def syndrome_defs example_defs)
  then obtain ctx' where e: "emulate_read example_read_fault example_context (Data_Word 7) = Some ctx'" ..
  show ?thesis using e emulate_read_effect [OF e i] by auto
qed

text \<open>
  Emulating a well-formed load panics exactly when its destination is register 31, the zero
  register: \<^verbatim>\<open>emulate_read\<close> goes through \<^verbatim>\<open>gpr_mut\<close>, which has no case for it, whereas a store
  reads the zero register as 0 through \<^verbatim>\<open>read_gpr\<close>.
\<close>

lemma emulate_read_panics_iff:
  assumes "is_valid f" and "is_read f = Some True" and "width f = Some (width_from_data val)"
    and "wf_context ctx"
  shows "emulate_read f ctx val = None \<longleftrightarrow> gpr_index f = Some 31"
proof -
  obtain i where i: "gpr_index f = Some i"
    using assms(1) by (simp add: gpr_index_def valid_hsr_Some)
  note le = gpr_index_le_31 [OF i]
  have "unat i < 31 \<longleftrightarrow> i \<noteq> 31"
    using le by (auto simp: order_less_le word_unat_eq_iff)
  with assms i show ?thesis
    by (auto simp: emulate_read_def rust_assert_def gpr_def set_gpr_def vec_get_def vec_set_def
        wf_context_def)
qed

lemma emulate_read_panics_iff_witness:
  "emulate_read (example_read_fault\<lparr>fsr := 0x19f0000\<rparr>) example_context (Data_Word 7) = None"
proof -
  let ?f = "example_read_fault\<lparr>fsr := 0x19f0000\<rparr>"
  have "is_valid ?f" "is_read ?f = Some True" "width ?f = Some (width_from_data (Data_Word 7))"
    "gpr_index ?f = Some 31"
    by (simp_all add: syndrome_defs example_defs)
  moreover have "wf_context example_context"
    by (simp add: wf_context_def example_defs)
  ultimately show ?thesis using emulate_read_panics_iff [of ?f "Data_Word 7" example_context] by simp
qed

end
