(* ===== verification/GicRegisters.thy ===== *)
theory GicRegisters
  imports Prelude Fault
begin

text \<open>
  The register cells, the register map and the errors of the virtual GIC distributor
  (\<^verbatim>\<open>vmm/gic/src/distributor/register.rs\<close>, \<^verbatim>\<open>registers.rs\<close> and \<^verbatim>\<open>vmm/gic/src/error.rs\<close>).
  The lemmas say which offsets decode, that a decoded register number stays within its
  architectural range, and how a byte store into a register acts on its bytes.
\<close>

type_synonym IRQ = nat
type_synonym CPU = nat

section \<open>Errors\<close>

datatype IRQErrorType =
    InvalidCPU CPU
  | InvalidIRQ IRQ
  | InvalidIrqCpu "IRQ \<times> CPU"
  | InvalidRegisterWrite
  | InvalidRegisterRead

record IRQError =
  irq_error_type :: IRQErrorType

definition IRQError_new :: "IRQErrorType \<Rightarrow> IRQError" where
  "IRQError_new t = \<lparr>irq_error_type = t\<rparr>"

section \<open>Register cells\<close>

text \<open>
  \<^verbatim>\<open>Register32\<close> wraps one \<^verbatim>\<open>u32\<close>. The read-modify-write methods return the old value; here
  each is the pair of the old value and the new cell.
\<close>

type_synonym Register32 = u32

definition Register32_new :: "u32 \<Rightarrow> Register32" where
  "Register32_new v = v"

definition load :: "Register32 \<Rightarrow> u32" where
  "load r = r"

definition store :: "Register32 \<Rightarrow> u32 \<Rightarrow> Register32" where
  "store r v = v"

definition swap :: "Register32 \<Rightarrow> u32 \<Rightarrow> u32 \<times> Register32" where
  "swap r v = (r, v)"

definition fetch_and :: "Register32 \<Rightarrow> u32 \<Rightarrow> u32 \<times> Register32" where
  "fetch_and r v = (r, r AND v)"

definition fetch_or :: "Register32 \<Rightarrow> u32 \<Rightarrow> u32 \<times> Register32" where
  "fetch_or r v = (r, r OR v)"

definition set_byte :: "Register32 \<Rightarrow> nat \<Rightarrow> u8 \<Rightarrow> u32 \<times> Register32" where
  "set_byte r byte_index v =
     (let mask = shl 0xff (byte_index * 8)
      in (r, (r AND NOT mask) OR shl (ucast v) (byte_index * 8)))"

lemmas register_defs [simp] =
  Register32_new_def load_def store_def swap_def fetch_and_def fetch_or_def

text \<open>Byte \<open>k\<close> of a register, as \<^verbatim>\<open>(val >> (8 * k)) & 0xff\<close> reads it.\<close>

definition reg_byte :: "u32 \<Rightarrow> nat \<Rightarrow> u32" where
  "reg_byte r k = shr r (k * 8) AND 0xff"

lemma bit_0xff [simp]: "bit (0xff :: int) i \<longleftrightarrow> i < 8"
proof -
  have "(0xff :: int) = mask 8" by (simp add: mask_eq_exp_minus_1)
  then show ?thesis by (simp only: bit_mask_iff) simp
qed

lemma bit_reg_byte: "k < 4 \<Longrightarrow> bit (reg_byte r k) i \<longleftrightarrow> i < 8 \<and> bit r (k * 8 + i)"
  by (auto simp: reg_byte_def shr_in bit_and_iff bit_drop_bit_eq dest: bit_word_lt)

lemma set_byte_bytes:
  assumes "b < 4" and "k < 4"
  shows "reg_byte (snd (set_byte r b v)) k = (if k = b then ucast v else reg_byte r k)"
proof (rule bit_word_eqI)
  fix i assume "i < LENGTH(32)"
  have kb: "k * 8 + i < b * 8 \<or> b * 8 + 8 \<le> k * 8 + i \<or> k = b" if "i < 8"
    using that by arith
  show "bit (reg_byte (snd (set_byte r b v)) k) i = bit (if k = b then ucast v else reg_byte r k) i"
    using assms kb
    by (auto simp: set_byte_def Let_def shl_in bit_reg_byte bit_or_iff bit_and_iff bit_not_iff
        bit_push_bit_iff bit_ucast_iff dest: bit_word_lt)
qed

section \<open>The register map\<close>

type_synonym IRQRegNum = nat
type_synonym IRQRegByte = nat

datatype GICDistRegWord =
    GICD_CTLR
  | GICD_TYPER
  | GICD_IIDR
  | GICD_IGROUPRn IRQRegNum
  | GICD_ISENABLERn IRQRegNum
  | GICD_ICENABLERn IRQRegNum
  | GICD_ISPENDRn IRQRegNum
  | GICD_ICPENDRn IRQRegNum
  | GICD_ISACTIVERn IRQRegNum
  | GICD_ICACTIVERn IRQRegNum
  | GICD_IPRIORITYRn IRQRegNum
  | GICD_ITARGETSRn IRQRegNum
  | GICD_ICFGRn IRQRegNum
  | GICD_NSACRn IRQRegNum
  | GICD_SGIR
  | GICD_CPENDSGIRn IRQRegNum
  | GICD_SPENDSGIRn IRQRegNum
  | ICCIDRn IRQRegNum
  | ICPIDRn IRQRegNum

datatype GICDistRegByte =
    GICDB_IPRIORITYRn IRQRegNum IRQRegByte
  | GICDB_ITARGETSRn IRQRegNum IRQRegByte
  | GICDB_CPENDSGIRn IRQRegNum IRQRegByte
  | GICDB_SPENDSGIRn IRQRegNum IRQRegByte

text \<open>
  The subtraction is of \<^verbatim>\<open>usize\<close>s; every caller has \<open>base \<le> offset\<close> from the arm it is in.
\<close>

definition calc_reg_num :: "nat \<Rightarrow> nat \<Rightarrow> IRQRegNum option" where
  "calc_reg_num offset base = do {
     let reg_num = (offset - base) div 4;
     rust_assert (reg_num < 256);
     Some reg_num }"

definition calc_reg_byte_offset :: "nat \<Rightarrow> nat \<Rightarrow> IRQRegByte option" where
  "calc_reg_byte_offset offset base = do {
     let reg_byte = (offset - base) mod 4;
     rust_assert (reg_byte < 4);
     Some reg_byte }"

definition in_range :: "nat \<Rightarrow> nat \<Rightarrow> nat \<Rightarrow> bool" where
  "in_range offset lo hi \<longleftrightarrow> lo \<le> offset \<and> offset \<le> hi"

definition word_from_offset :: "nat \<Rightarrow> GICDistRegWord option" where
  "word_from_offset offset =
     (if offset = 0x000 then Some GICD_CTLR
      else if offset = 0x004 then Some GICD_TYPER
      else if offset = 0x008 then Some GICD_IIDR
      else if in_range offset 0x080 0x0FC then map_option GICD_IGROUPRn (calc_reg_num offset 0x080)
      else if in_range offset 0x100 0x17C then map_option GICD_ISENABLERn (calc_reg_num offset 0x100)
      else if in_range offset 0x180 0x1FC then map_option GICD_ICENABLERn (calc_reg_num offset 0x180)
      else if in_range offset 0x200 0x27C then map_option GICD_ISPENDRn (calc_reg_num offset 0x200)
      else if in_range offset 0x280 0x2FC then map_option GICD_ICPENDRn (calc_reg_num offset 0x280)
      else if in_range offset 0x300 0x37C then map_option GICD_ISACTIVERn (calc_reg_num offset 0x300)
      else if in_range offset 0x380 0x3FC then map_option GICD_ICACTIVERn (calc_reg_num offset 0x380)
      else if in_range offset 0x400 0x7F8 then map_option GICD_IPRIORITYRn (calc_reg_num offset 0x400)
      else if in_range offset 0x800 0xBF8 then map_option GICD_ITARGETSRn (calc_reg_num offset 0x800)
      else if in_range offset 0xC00 0xCFC then map_option GICD_ICFGRn (calc_reg_num offset 0xC00)
      else if in_range offset 0xE00 0xEFC then map_option GICD_NSACRn (calc_reg_num offset 0xE00)
      else if offset = 0xF00 then Some GICD_SGIR
      else if in_range offset 0xF10 0xF1C then map_option GICD_CPENDSGIRn (calc_reg_num offset 0xF10)
      else if in_range offset 0xF20 0xF2C then map_option GICD_SPENDSGIRn (calc_reg_num offset 0xF20)
      else if in_range offset 0xFD0 0xFEC then map_option ICPIDRn (calc_reg_num offset 0xFD0)
      else if in_range offset 0xFF0 0xFFC then map_option ICCIDRn (calc_reg_num offset 0xFF0)
      else None)"

definition byte_reg ::
  "(IRQRegNum \<Rightarrow> IRQRegByte \<Rightarrow> GICDistRegByte) \<Rightarrow> nat \<Rightarrow> nat \<Rightarrow> GICDistRegByte option" where
  "byte_reg c offset base = do {
     n \<leftarrow> calc_reg_num offset base;
     b \<leftarrow> calc_reg_byte_offset offset base;
     Some (c n b) }"

definition byte_from_offset :: "nat \<Rightarrow> GICDistRegByte option" where
  "byte_from_offset offset =
     (if in_range offset 0x400 0x7F8 then byte_reg GICDB_IPRIORITYRn offset 0x400
      else if in_range offset 0x800 0xBF8 then byte_reg GICDB_ITARGETSRn offset 0x800
      else if in_range offset 0xF10 0xF1C then byte_reg GICDB_CPENDSGIRn offset 0xF10
      else if in_range offset 0xF20 0xF2C then byte_reg GICDB_SPENDSGIRn offset 0xF20
      else None)"

text \<open>The architectural range of each register's index.\<close>

fun reg_in_range :: "GICDistRegWord \<Rightarrow> bool" where
  "reg_in_range (GICD_IGROUPRn n) \<longleftrightarrow> n < 32"
| "reg_in_range (GICD_ISENABLERn n) \<longleftrightarrow> n < 32"
| "reg_in_range (GICD_ICENABLERn n) \<longleftrightarrow> n < 32"
| "reg_in_range (GICD_ISPENDRn n) \<longleftrightarrow> n < 32"
| "reg_in_range (GICD_ICPENDRn n) \<longleftrightarrow> n < 32"
| "reg_in_range (GICD_ISACTIVERn n) \<longleftrightarrow> n < 32"
| "reg_in_range (GICD_ICACTIVERn n) \<longleftrightarrow> n < 32"
| "reg_in_range (GICD_IPRIORITYRn n) \<longleftrightarrow> n < 255"
| "reg_in_range (GICD_ITARGETSRn n) \<longleftrightarrow> n < 255"
| "reg_in_range (GICD_ICFGRn n) \<longleftrightarrow> n < 64"
| "reg_in_range (GICD_NSACRn n) \<longleftrightarrow> n < 64"
| "reg_in_range (GICD_CPENDSGIRn n) \<longleftrightarrow> n < 4"
| "reg_in_range (GICD_SPENDSGIRn n) \<longleftrightarrow> n < 4"
| "reg_in_range (ICPIDRn n) \<longleftrightarrow> n < 8"
| "reg_in_range (ICCIDRn n) \<longleftrightarrow> n < 4"
| "reg_in_range _ \<longleftrightarrow> True"

text \<open>The offset at which a register is mapped.\<close>

fun reg_offset :: "GICDistRegWord \<Rightarrow> nat" where
  "reg_offset GICD_CTLR = 0x000"
| "reg_offset GICD_TYPER = 0x004"
| "reg_offset GICD_IIDR = 0x008"
| "reg_offset (GICD_IGROUPRn n) = 0x080 + 4 * n"
| "reg_offset (GICD_ISENABLERn n) = 0x100 + 4 * n"
| "reg_offset (GICD_ICENABLERn n) = 0x180 + 4 * n"
| "reg_offset (GICD_ISPENDRn n) = 0x200 + 4 * n"
| "reg_offset (GICD_ICPENDRn n) = 0x280 + 4 * n"
| "reg_offset (GICD_ISACTIVERn n) = 0x300 + 4 * n"
| "reg_offset (GICD_ICACTIVERn n) = 0x380 + 4 * n"
| "reg_offset (GICD_IPRIORITYRn n) = 0x400 + 4 * n"
| "reg_offset (GICD_ITARGETSRn n) = 0x800 + 4 * n"
| "reg_offset (GICD_ICFGRn n) = 0xC00 + 4 * n"
| "reg_offset (GICD_NSACRn n) = 0xE00 + 4 * n"
| "reg_offset GICD_SGIR = 0xF00"
| "reg_offset (GICD_CPENDSGIRn n) = 0xF10 + 4 * n"
| "reg_offset (GICD_SPENDSGIRn n) = 0xF20 + 4 * n"
| "reg_offset (ICPIDRn n) = 0xFD0 + 4 * n"
| "reg_offset (ICCIDRn n) = 0xFF0 + 4 * n"

lemma calc_reg_num_Some: "calc_reg_num a b = Some n \<longleftrightarrow> n = (a - b) div 4 \<and> n < 256"
  by (auto simp: calc_reg_num_def rust_assert_def Let_def)

lemma calc_reg_num_in: "(a - b) div 4 < 256 \<Longrightarrow> calc_reg_num a b = Some ((a - b) div 4)"
  by (simp add: calc_reg_num_Some)

lemma offset_of_reg_num:
  fixes offset base :: nat
  assumes "4 dvd offset" and "4 dvd base" and "base \<le> offset"
  shows "base + 4 * ((offset - base) div 4) = offset"
  using assms by (simp add: dvd_diff_nat)

lemma word_from_offset_range:
  "word_from_offset offset = Some reg \<Longrightarrow> reg_in_range reg"
  by (auto simp: word_from_offset_def in_range_def calc_reg_num_Some split: if_splits)

lemma word_from_offset_reg_offset:
  "reg_in_range reg \<Longrightarrow> word_from_offset (reg_offset reg) = Some reg"
  by (cases reg) (auto simp: word_from_offset_def in_range_def calc_reg_num_Some)

text \<open>
  Offsets and registers correspond: every register of the GICv2 map is the decoding of its
  own offset, an offset never decodes to an index beyond its architectural range, and a
  word-aligned offset that decodes is the offset of the register it decodes to.
\<close>

lemma register_map_roundtrip:
  "(reg_in_range reg \<longrightarrow> word_from_offset (reg_offset reg) = Some reg)
   \<and> (\<forall>r. word_from_offset offset = Some r \<longrightarrow>
        reg_in_range r \<and> (4 dvd offset \<longrightarrow> reg_offset r = offset))"
proof -
  have "reg_offset r = offset" if "word_from_offset offset = Some r" "4 dvd offset" for r
    using that
    by (auto simp: word_from_offset_def in_range_def calc_reg_num_Some offset_of_reg_num
        split: if_splits)
  then show ?thesis
    using word_from_offset_reg_offset word_from_offset_range by blast
qed

lemma register_map_roundtrip_witness:
  "word_from_offset 0x104 = Some (GICD_ISENABLERn 1)"
  using register_map_roundtrip [of "GICD_ISENABLERn 1" 0] by simp

end
