(* ===== verification/Biterate.thy ===== *)
theory Biterate
  imports Prelude
begin

text \<open>
  The bit iterator of \<^verbatim>\<open>helpers/biterate\<close>: \<^verbatim>\<open>Biterator::next\<close> takes the lowest set bit off
  its word. The GIC distributor, the event server's bitfields and the IRQ threads all drive
  their loops with it. The theory shows that iterating it visits exactly the set bits, in
  increasing order.
\<close>

text \<open>\<^verbatim>\<open>PrimInt::trailing_zeros\<close>: the index of the lowest set bit, the width for zero.\<close>

definition trailing_zeros :: "'a::len word \<Rightarrow> nat" where
  "trailing_zeros w = length (takeWhile (\<lambda>i. \<not> bit w i) [0..<LENGTH('a)])"

definition Biterator_next :: "'a::len word \<Rightarrow> (nat \<times> 'a word) option" where
  "Biterator_next w =
     (if w = 0 then None
      else (let r = trailing_zeros w in Some (r, w XOR shl 1 r)))"

lemma takeWhile_upt_first:
  assumes "P n" and "\<And>i. i < n \<Longrightarrow> \<not> P i" and "n < m"
  shows "takeWhile (\<lambda>i. \<not> P i) [0..<m] = [0..<n]"
proof -
  from \<open>n < m\<close> have "[0..<m] = [0..<n] @ [n..<m]"
    using upt_add_eq_append [of 0 n "m - n"] by simp
  moreover have "[n..<m] = n # [Suc n..<m]"
    using \<open>n < m\<close> by (simp add: upt_conv_Cons)
  ultimately show ?thesis
    using assms by (simp add: takeWhile_append)
qed

lemma trailing_zeros_least:
  fixes w :: "'a::len word"
  assumes "w \<noteq> 0"
  shows "bit w (trailing_zeros w)" and "\<And>i. i < trailing_zeros w \<Longrightarrow> \<not> bit w i"
proof -
  from assms have ex: "\<exists>n. bit w n" by (auto simp: bit_eq_iff)
  define n where "n = (LEAST n. bit w n)"
  have n: "bit w n" unfolding n_def by (rule LeastI_ex [OF ex])
  have below: "\<And>i. i < n \<Longrightarrow> \<not> bit w i" unfolding n_def by (rule not_less_Least)
  have "trailing_zeros w = n"
    using n below bit_word_lt [OF n] by (simp add: trailing_zeros_def takeWhile_upt_first)
  with n below show "bit w (trailing_zeros w)" "\<And>i. i < trailing_zeros w \<Longrightarrow> \<not> bit w i"
    by simp_all
qed

lemma bit_xor_lowest:
  fixes w :: "'a::len word"
  assumes "w \<noteq> 0"
  shows "bit (w XOR shl 1 (trailing_zeros w)) i \<longleftrightarrow> bit w i \<and> i \<noteq> trailing_zeros w"
  using trailing_zeros_least(1) [OF assms] bit_word_lt [OF trailing_zeros_least(1) [OF assms]]
  by (auto simp: bit_xor_iff bit_shl_1)

text \<open>The elements the iterator yields before it ends, a loop of \<^verbatim>\<open>for i in biterate(w)\<close>.\<close>

definition set_bits_upto :: "'a::len word \<Rightarrow> nat list" where
  "set_bits_upto w = filter (bit w) [0..<LENGTH('a)]"

lemma set_bits_upto_step:
  fixes w :: "'a::len word"
  assumes "w \<noteq> 0"
  shows "set_bits_upto w =
    trailing_zeros w # set_bits_upto (w XOR shl 1 (trailing_zeros w))"
proof -
  let ?r = "trailing_zeros w" and ?N = "LENGTH('a)"
  note least = trailing_zeros_least [OF assms]
  from bit_word_lt [OF least(1)] have r: "?r < ?N" .
  then have split: "[0..<?N] = [0..<?r] @ ?r # [Suc ?r..<?N]"
    using upt_add_eq_append [of 0 ?r "?N - ?r"] by (simp add: upt_conv_Cons)
  have low: "filter (bit w) [0..<?r] = []"
    using least(2) by (simp add: filter_empty_conv)
  have low': "filter (bit (w XOR shl 1 ?r)) [0..<?r] = []"
    using least(2) by (simp add: filter_empty_conv bit_xor_lowest [OF assms])
  have high: "filter (bit (w XOR shl 1 ?r)) [Suc ?r..<?N] = filter (bit w) [Suc ?r..<?N]"
    by (rule filter_cong) (auto simp: bit_xor_lowest [OF assms])
  show ?thesis
    using least(1) by (simp add: set_bits_upto_def split low low' high bit_xor_lowest [OF assms])
qed

function biterate :: "'a::len word \<Rightarrow> nat list" where
  "biterate w = (case Biterator_next w of None \<Rightarrow> [] | Some (r, w') \<Rightarrow> r # biterate w')"
  by pat_completeness auto
termination
proof (relation "measure (\<lambda>w. length (set_bits_upto w))")
  fix w :: "'a word" and p r w'
  assume "Biterator_next w = Some p" "(r, w') = p"
  then have "w \<noteq> 0" "w' = w XOR shl 1 (trailing_zeros w)"
    by (auto simp: Biterator_next_def Let_def split: if_splits)
  then show "(w', w) \<in> measure (\<lambda>w. length (set_bits_upto w))"
    by (simp add: set_bits_upto_step [of w])
qed auto

declare biterate.simps [simp del]

lemma biterate_eq_set_bits: "biterate w = set_bits_upto w"
proof (induction w rule: biterate.induct)
  case (1 w)
  show ?case
  proof (cases "w = 0")
    case True
    then show ?thesis by (simp add: biterate.simps Biterator_next_def set_bits_upto_def)
  next
    case False
    then have nxt: "Biterator_next w = Some (trailing_zeros w, w XOR shl 1 (trailing_zeros w))"
      by (simp add: Biterator_next_def Let_def)
    show ?thesis
      using "1" [OF nxt refl]
      by (simp add: biterate.simps [of w] nxt set_bits_upto_step [OF False])
  qed
qed

lemma set_biterate [simp]: "set (biterate w) = {i. bit w i}"
  by (auto simp: biterate_eq_set_bits set_bits_upto_def dest: bit_word_lt)

lemma distinct_biterate [simp]: "distinct (biterate w)"
  by (simp add: biterate_eq_set_bits set_bits_upto_def)

lemma biterate_0 [simp]: "biterate 0 = []"
  by (simp add: biterate_eq_set_bits set_bits_upto_def)

text \<open>
  A loop over \<^verbatim>\<open>biterate(w)\<close> ends after visiting each set bit of \<open>w\<close> exactly once, in
  increasing order, and no other bit.
\<close>

lemma biterate_visits_set_bits:
  "set (biterate w) = {i. bit w i} \<and> distinct (biterate w) \<and> sorted (biterate (w :: 'a::len word))"
  by (simp add: biterate_eq_set_bits [of w] set_bits_upto_def sorted_filter [where f = id, simplified])
     (auto dest: bit_word_lt)

end
