(* ===== verification/GicDistributor.thy ===== *)
theory GicDistributor
  imports GicRegisters Biterate
begin

text \<open>
  The state of the virtual GIC distributor and the operations on single interrupt lines
  (\<^verbatim>\<open>vmm/gic/src/distributor/mod.rs\<close>): construction and reset, the enabled, target, pending and
  active tests, setting and clearing them, \<^verbatim>\<open>ack\<close>, and the sweeps that collect the lines to
  inject or acknowledge. Register accesses by the guest are in \<open>GicWrite\<close> and \<open>GicRead\<close>.

  SGIs and PPIs (below 32) are banked per node, SPIs (from 32) share one set of registers. The
  well-formedness invariant \<open>wf_dist\<close> fixes the size of every register bank; under it the
  operations below do not panic for line numbers the banks can hold.
\<close>

section \<open>State\<close>

record Distributor =
  num_nodes :: nat
  control :: Register32
  ic_type :: Register32
  dist_ident :: Register32
  irq_group0 :: "Register32 list"
  irq_group :: "Register32 list"
  enable0 :: "Register32 list"
  enable :: "Register32 list"
  pending0 :: "Register32 list"
  pending :: "Register32 list"
  active0 :: "Register32 list"
  active :: "Register32 list"
  priority0 :: "Register32 list list"
  priority :: "Register32 list"
  targets0 :: "Register32 list list"
  targets :: "Register32 list"
  config0 :: Register32
  config1 :: "Register32 list"
  config :: "Register32 list"
  sgi_pending :: "Register32 list list"
  periph_id :: "Register32 list"
  component_id :: "Register32 list"

datatype WriteAction =
    WriteNoAction
  | InjectAndAckIRQs "(IRQ \<times> CPU) list option" "(IRQ \<times> CPU) list option"

datatype ReadAction = ReadNoAction

definition wf_dist :: "Distributor \<Rightarrow> bool" where
  "wf_dist d \<longleftrightarrow>
     length (irq_group0 d) = num_nodes d \<and> length (irq_group d) = 31
   \<and> length (enable0 d) = num_nodes d \<and> length (enable d) = 31
   \<and> length (pending0 d) = num_nodes d \<and> length (pending d) = 31
   \<and> length (active0 d) = num_nodes d \<and> length (active d) = 31
   \<and> length (priority0 d) = num_nodes d \<and> list_all (\<lambda>b. length b = 8) (priority0 d)
   \<and> length (priority d) = 247
   \<and> length (targets0 d) = num_nodes d \<and> list_all (\<lambda>b. length b = 8) (targets0 d)
   \<and> length (targets d) = 247
   \<and> length (config1 d) = num_nodes d \<and> length (config d) = 62
   \<and> length (sgi_pending d) = num_nodes d \<and> list_all (\<lambda>b. length b = 4) (sgi_pending d)
   \<and> length (periph_id d) = 12 \<and> length (component_id d) = 4"

section \<open>Construction and reset\<close>

definition store_at :: "u32 \<Rightarrow> nat \<Rightarrow> Register32 list \<Rightarrow> Register32 list option" where
  "store_at v i regs = do { r \<leftarrow> vec_get regs i; vec_set regs i (store r v) }"

definition reset_target_bank :: "nat \<Rightarrow> Register32 list \<Rightarrow> Register32 list" where
  "reset_target_bank idx bank =
     map (\<lambda>target. fold (\<lambda>irq t. snd (fetch_or t (shl (shl 1 idx) (irq * 8)))) [0..<4]
            (store target 0)) bank"

definition reset :: "Distributor \<Rightarrow> Distributor option" where
  "reset d = do {
     let d = d\<lparr>ic_type := store (ic_type d) 0x0000fce7,
               dist_ident := store (dist_ident d) 0x0200043b\<rparr>;
     e0 \<leftarrow> for_each [0..<num_nodes d] (store_at 0x0000ffff) (enable0 d);
     let d = d\<lparr>enable0 := e0, config0 := store (config0 d) 0xaaaaaaaa\<rparr>;
     c1 \<leftarrow> for_each [0..<num_nodes d] (store_at 0x55540000) (config1 d);
     c \<leftarrow> for_each [0..<14] (store_at 0x55555555) (config d);
     let d = d\<lparr>config1 := c1, config := c\<rparr>;
     let d = d\<lparr>targets0 := map (\<lambda>(idx, bank). reset_target_bank idx bank) (enumerate 0 (targets0 d))\<rparr>;
     let d = d\<lparr>targets := map (\<lambda>target. store target 0x01010101) (targets d)\<rparr>;
     p \<leftarrow> store_at 0x04 4 (periph_id d);
     p \<leftarrow> store_at 0x90 8 p;
     p \<leftarrow> store_at 0xb4 9 p;
     p \<leftarrow> store_at 0x2b 10 p;
     c \<leftarrow> store_at 0x0d 0 (component_id d);
     c \<leftarrow> store_at 0xf0 1 c;
     c \<leftarrow> store_at 0x05 2 c;
     c \<leftarrow> store_at 0xb1 3 c;
     Some (d\<lparr>periph_id := p, component_id := c\<rparr>) }"

definition Distributor_zeroed :: "nat \<Rightarrow> Distributor" where
  "Distributor_zeroed n = \<lparr>
     num_nodes = n,
     control = Register32_new 0,
     ic_type = Register32_new 0,
     dist_ident = Register32_new 0,
     irq_group0 = replicate n (Register32_new 0),
     irq_group = replicate 31 (Register32_new 0),
     enable0 = replicate n (Register32_new 0),
     enable = replicate 31 (Register32_new 0),
     pending0 = replicate n (Register32_new 0),
     pending = replicate 31 (Register32_new 0),
     active0 = replicate n (Register32_new 0),
     active = replicate 31 (Register32_new 0),
     priority0 = replicate n (replicate 8 (Register32_new 0)),
     priority = replicate 247 (Register32_new 0),
     targets0 = replicate n (replicate 8 (Register32_new 0)),
     targets = replicate 247 (Register32_new 0),
     config0 = Register32_new 0,
     config1 = replicate n (Register32_new 0),
     config = replicate 62 (Register32_new 0),
     sgi_pending = replicate n (replicate 4 (Register32_new 0)),
     periph_id = replicate 12 (Register32_new 0),
     component_id = replicate 4 (Register32_new 0)\<rparr>"

definition Distributor_new :: "nat \<Rightarrow> Distributor option" where
  "Distributor_new n = reset (Distributor_zeroed n)"

section \<open>Tests on one interrupt line\<close>

text \<open>
  The register that holds the flag of a line: the node's own bank for SGIs and PPIs, the shared
  registers for SPIs. \<^verbatim>\<open>is_enabled\<close>, \<^verbatim>\<open>is_pending\<close>, \<^verbatim>\<open>is_active\<close> and their updates all select
  it the same way.
\<close>

definition flag_reg :: "Register32 list \<Rightarrow> Register32 list \<Rightarrow> IRQ \<Rightarrow> CPU \<Rightarrow> Register32 option" where
  "flag_reg bank0 bank irq cpu =
     (if irq < 32 then vec_get bank0 cpu else vec_get bank (irq div 32 - 1))"

definition flag_update ::
  "(Register32 \<Rightarrow> Register32) \<Rightarrow> Register32 list \<Rightarrow> Register32 list \<Rightarrow> IRQ \<Rightarrow> CPU \<Rightarrow>
     (Register32 list \<times> Register32 list) option" where
  "flag_update f bank0 bank irq cpu =
     (if irq < 32 then do {
        r \<leftarrow> vec_get bank0 cpu; bank0' \<leftarrow> vec_set bank0 cpu (f r); Some (bank0', bank) }
      else do {
        r \<leftarrow> vec_get bank (irq div 32 - 1);
        bank' \<leftarrow> vec_set bank (irq div 32 - 1) (f r); Some (bank0, bank') })"

definition flag_test :: "Register32 \<Rightarrow> IRQ \<Rightarrow> bool" where
  "flag_test reg irq \<longleftrightarrow> shr (load reg) (irq mod 32) AND 1 = 1"

definition irq_bit :: "IRQ \<Rightarrow> u32" where
  "irq_bit irq = shl 1 (irq mod 32)"

definition irq_idx :: "IRQ \<Rightarrow> nat" where
  "irq_idx irq = irq div 32"

definition is_gic_enabled :: "Distributor \<Rightarrow> bool" where
  "is_gic_enabled d \<longleftrightarrow> load (control d) = 1"

definition is_enabled :: "Distributor \<Rightarrow> IRQ \<Rightarrow> CPU \<Rightarrow> bool option" where
  "is_enabled d irq cpu =
     (if cpu \<ge> num_nodes d then Some False
      else do { reg \<leftarrow> flag_reg (enable0 d) (enable d) irq cpu; Some (flag_test reg irq) })"

definition is_pending :: "Distributor \<Rightarrow> IRQ \<Rightarrow> CPU \<Rightarrow> bool option" where
  "is_pending d irq cpu =
     (if cpu \<ge> num_nodes d then Some False
      else do { reg \<leftarrow> flag_reg (pending0 d) (pending d) irq cpu; Some (flag_test reg irq) })"

definition is_active :: "Distributor \<Rightarrow> IRQ \<Rightarrow> CPU \<Rightarrow> bool option" where
  "is_active d irq cpu =
     (if cpu \<ge> num_nodes d then Some False
      else do { reg \<leftarrow> flag_reg (active0 d) (active d) irq cpu; Some (flag_test reg irq) })"

definition get_spi_targets :: "Distributor \<Rightarrow> IRQ \<Rightarrow> u32 option" where
  "get_spi_targets d irq = do {
     rust_assert (irq \<ge> 32);
     reg \<leftarrow> vec_get (targets d) (irq div 4 - 8);
     let cpus = shr (load reg) ((irq mod 4) * 8) AND 0xff;
     Some cpus }"

definition is_target :: "Distributor \<Rightarrow> IRQ \<Rightarrow> CPU \<Rightarrow> bool option" where
  "is_target d irq cpu =
     (if cpu \<ge> num_nodes d then Some False
      else do {
        reg \<leftarrow> (if irq < 32 then do { bank \<leftarrow> vec_get (targets0 d) cpu; vec_get bank (irq div 4) }
               else vec_get (targets d) (irq div 4 - 8));
        let cpus = shr (load reg) ((irq mod 4) * 8) AND 0xff;
        Some (shr cpus cpu AND 1 = 1) })"

definition get_priority :: "Distributor \<Rightarrow> IRQ \<Rightarrow> CPU \<Rightarrow> (IRQError + u32) option" where
  "get_priority d irq cpu =
     (if cpu \<ge> num_nodes d then Some (Inl (IRQError_new (InvalidCPU cpu)))
      else do {
        let reg_num = irq div 4;
        reg \<leftarrow> (if reg_num < 8 then do { bank \<leftarrow> vec_get (priority0 d) cpu; vec_get bank reg_num }
               else vec_get (priority d) (reg_num - 8));
        let mask = shl 0xff ((irq mod 4) * 8);
        Some (Inr (shr (load reg AND mask) ((irq mod 4) * 8))) })"

definition should_inject :: "Distributor \<Rightarrow> IRQ \<Rightarrow> CPU \<Rightarrow> bool option" where
  "should_inject d irq cpu =
     and_also (is_gic_enabled d) (do {
       e \<leftarrow> is_enabled d irq cpu;
       and_also e (do {
         t \<leftarrow> is_target d irq cpu;
         and_also t (do {
           p \<leftarrow> is_pending d irq cpu;
           and_also p (do {
             a \<leftarrow> is_active d irq cpu;
             Some (\<not> a) }) }) }) })"

section \<open>Updates of one interrupt line\<close>

definition clear_pending :: "Distributor \<Rightarrow> IRQ \<Rightarrow> CPU \<Rightarrow> (IRQError, unit, Distributor) fallible" where
  "clear_pending d irq cpu =
     (if cpu \<ge> num_nodes d then Some (Inl (IRQError_new (InvalidCPU cpu)), d)
      else do {
        (b0, b) \<leftarrow> flag_update (\<lambda>r. snd (fetch_and r (NOT (irq_bit irq)))) (pending0 d) (pending d) irq cpu;
        Some (Inr (), d\<lparr>pending0 := b0, pending := b\<rparr>) })"

definition set_pending :: "Distributor \<Rightarrow> IRQ \<Rightarrow> CPU \<Rightarrow> (IRQError, unit, Distributor) fallible" where
  "set_pending d irq cpu =
     (if cpu \<ge> num_nodes d then Some (Inl (IRQError_new (InvalidCPU cpu)), d)
      else do {
        (b0, b) \<leftarrow> flag_update (\<lambda>r. snd (fetch_or r (irq_bit irq))) (pending0 d) (pending d) irq cpu;
        Some (Inr (), d\<lparr>pending0 := b0, pending := b\<rparr>) })"

definition clear_active :: "Distributor \<Rightarrow> IRQ \<Rightarrow> CPU \<Rightarrow> (IRQError, unit, Distributor) fallible" where
  "clear_active d irq cpu =
     (if cpu \<ge> num_nodes d then Some (Inl (IRQError_new (InvalidCPU cpu)), d)
      else do {
        (b0, b) \<leftarrow> flag_update (\<lambda>r. snd (fetch_and r (NOT (irq_bit irq)))) (active0 d) (active d) irq cpu;
        Some (Inr (), d\<lparr>active0 := b0, active := b\<rparr>) })"

definition set_active :: "Distributor \<Rightarrow> IRQ \<Rightarrow> CPU \<Rightarrow> (IRQError, unit, Distributor) fallible" where
  "set_active d irq cpu =
     (if cpu \<ge> num_nodes d then Some (Inl (IRQError_new (InvalidCPU cpu)), d)
      else do {
        (b0, b) \<leftarrow> flag_update (\<lambda>r. snd (fetch_or r (irq_bit irq))) (active0 d) (active d) irq cpu;
        Some (Inr (), d\<lparr>active0 := b0, active := b\<rparr>) })"

text \<open>The bit of a source node in the SGI register of a target node.\<close>

definition sgi_source_bit :: "IRQ \<Rightarrow> CPU \<Rightarrow> u32" where
  "sgi_source_bit irq source_cpu = shl 1 (source_cpu + (irq mod 4) * 8)"

definition set_sgi_reg :: "Distributor \<Rightarrow> CPU \<Rightarrow> nat \<Rightarrow> Register32 \<Rightarrow> Distributor option" where
  "set_sgi_reg d cpu reg_num v = do {
     bank \<leftarrow> vec_get (sgi_pending d) cpu;
     bank' \<leftarrow> vec_set bank reg_num v;
     banks \<leftarrow> vec_set (sgi_pending d) cpu bank';
     Some (d\<lparr>sgi_pending := banks\<rparr>) }"

definition get_sgi_reg :: "Distributor \<Rightarrow> CPU \<Rightarrow> nat \<Rightarrow> Register32 option" where
  "get_sgi_reg d cpu reg_num = do { bank \<leftarrow> vec_get (sgi_pending d) cpu; vec_get bank reg_num }"

definition set_sgi_pending ::
  "Distributor \<Rightarrow> IRQ \<Rightarrow> CPU \<Rightarrow> CPU \<Rightarrow> (IRQError, unit, Distributor) fallible" where
  "set_sgi_pending d irq source_cpu target_cpu =
     (if source_cpu \<ge> num_nodes d then Some (Inl (IRQError_new (InvalidCPU source_cpu)), d)
      else if target_cpu \<ge> num_nodes d then Some (Inl (IRQError_new (InvalidCPU target_cpu)), d)
      else if irq > 16 then Some (Inl (IRQError_new (InvalidIRQ irq)), d)
      else do {
        let reg_num = irq div 4;
        r \<leftarrow> get_sgi_reg d target_cpu reg_num;
        d \<leftarrow> set_sgi_reg d target_cpu reg_num (snd (fetch_or r (sgi_source_bit irq source_cpu)));
        p \<leftarrow> is_pending d irq target_cpu;
        if \<not> p then do {
          (_, d) \<leftarrow> unwrap_method (set_pending d irq target_cpu);
          Some (Inr (), d) }
        else Some (Inr (), d) })"

definition clear_sgi_pending ::
  "Distributor \<Rightarrow> IRQ \<Rightarrow> CPU \<Rightarrow> CPU \<Rightarrow> (IRQError, unit, Distributor) fallible" where
  "clear_sgi_pending d irq source_cpu target_cpu =
     (if source_cpu \<ge> num_nodes d then Some (Inl (IRQError_new (InvalidCPU source_cpu)), d)
      else if target_cpu \<ge> num_nodes d then Some (Inl (IRQError_new (InvalidCPU target_cpu)), d)
      else if irq > 16 then Some (Inl (IRQError_new (InvalidIRQ irq)), d)
      else do {
        let reg_num = irq div 4;
        r \<leftarrow> get_sgi_reg d target_cpu reg_num;
        let (prev, r') = fetch_and r (NOT (sgi_source_bit irq source_cpu));
        d \<leftarrow> set_sgi_reg d target_cpu reg_num r';
        let still_pending = prev AND NOT (sgi_source_bit irq source_cpu);
        let mask = shl 0xff ((irq mod 4) * 8);
        if still_pending AND mask = 0 then do {
          (_, d) \<leftarrow> unwrap_method (clear_pending d irq target_cpu);
          Some (Inr (), d) }
        else Some (Inr (), d) })"

definition ack :: "Distributor \<Rightarrow> IRQ \<Rightarrow> nat \<Rightarrow> (IRQError, unit, Distributor) fallible" where
  "ack d irq node_index =
     (let cpu = node_index in
      if cpu \<ge> num_nodes d then Some (Inl (IRQError_new (InvalidCPU cpu)), d)
      else try_method
             (if irq < 16 then clear_sgi_pending d irq 0 cpu else clear_pending d irq cpu)
             (\<lambda>_ d. try_method (clear_active d irq cpu) (\<lambda>_ d. Some (Inr (), d))))"

section \<open>Sweeps\<close>

text \<open>
  The inner loop of a sweep: the nodes for which the test holds, but only the first one for an
  SPI, where the loop breaks.
\<close>

fun sweep_nodes ::
  "(IRQ \<Rightarrow> CPU \<Rightarrow> bool option) \<Rightarrow> IRQ \<Rightarrow> CPU list \<Rightarrow> (IRQ \<times> CPU) list option" where
  "sweep_nodes p irq [] = Some []"
| "sweep_nodes p irq (node_index # rest) = do {
     b \<leftarrow> p irq node_index;
     if b then
       (if irq \<ge> 32 then Some [(irq, node_index)]
        else do { r \<leftarrow> sweep_nodes p irq rest; Some ((irq, node_index) # r) })
     else sweep_nodes p irq rest }"

fun sweep_irqs ::
  "(IRQ \<Rightarrow> CPU \<Rightarrow> bool option) \<Rightarrow> IRQ list \<Rightarrow> CPU list \<Rightarrow> (IRQ \<times> CPU) list option" where
  "sweep_irqs p [] nodes = Some []"
| "sweep_irqs p (irq # irqs) nodes = do {
     xs \<leftarrow> sweep_nodes p irq nodes;
     ys \<leftarrow> sweep_irqs p irqs nodes;
     Some (xs @ ys) }"

definition sweep_irqs_to_inject :: "Distributor \<Rightarrow> IRQ \<Rightarrow> nat \<Rightarrow> (IRQ \<times> CPU) list option" where
  "sweep_irqs_to_inject d base_irq num_irqs =
     sweep_irqs (should_inject d) [base_irq..<base_irq + num_irqs] [0..<num_nodes d]"

definition should_ack :: "Distributor \<Rightarrow> IRQ \<Rightarrow> CPU \<Rightarrow> bool option" where
  "should_ack d irq node_index = do {
     i \<leftarrow> should_inject d irq node_index;
     and_also (\<not> i) (is_enabled d irq node_index) }"

definition sweep_irqs_to_ack :: "Distributor \<Rightarrow> IRQ \<Rightarrow> nat \<Rightarrow> (IRQ \<times> CPU) list option" where
  "sweep_irqs_to_ack d base_irq num_irqs =
     sweep_irqs (should_ack d) [base_irq..<base_irq + num_irqs] [0..<num_nodes d]"

definition get_vcpu_targets :: "Distributor \<Rightarrow> IRQ \<Rightarrow> nat list option" where
  "get_vcpu_targets d irq =
     for_each [0..<8] (\<lambda>cpu acc. do { t \<leftarrow> is_target d irq cpu; Some (if t then acc @ [cpu] else acc) }) []"

end
