(* ===== verification/GicLines.thy ===== *)
theory GicLines
  imports GicDistributor
begin

text \<open>
  Lemmas on the single interrupt lines of the distributor. The pending and the active flag are
  stored and updated the same way; \<open>irq_flag\<close> is the contract they share: a test, an operation
  that marks the line and one that unmarks it, on banked lines (SGIs, PPIs) and shared ones
  (SPIs). Both flags interpret it. The sweeps are characterised by what they collect.
\<close>

section \<open>Bits of a flag bank\<close>

definition flag_bit :: "Register32 list \<Rightarrow> Register32 list \<Rightarrow> IRQ \<Rightarrow> CPU \<Rightarrow> bool" where
  "flag_bit bank0 bank irq cpu =
     bit (if irq < 32 then bank0 ! cpu else bank ! (irq div 32 - 1)) (irq mod 32)"

text \<open>Two names of one line: an SPI is the same line on every node.\<close>

definition same_line :: "IRQ \<Rightarrow> CPU \<Rightarrow> IRQ \<Rightarrow> CPU \<Rightarrow> bool" where
  "same_line irq cpu j c \<longleftrightarrow> j = irq \<and> (32 \<le> irq \<or> c = cpu)"

lemma flag_test_bit: "flag_test reg irq = bit reg (irq mod 32)"
  by (simp add: flag_test_def shr_test_bit)

lemma bank_index: "32 \<le> (irq::nat) \<Longrightarrow> irq < 1024 \<Longrightarrow> irq div 32 - 1 < 31"
  by auto

lemma flag_reg_Some:
  assumes "length b0 = n" "length b = 31" "cpu < n" "irq < 1024"
  shows "flag_reg b0 b irq cpu = Some (if irq < 32 then b0 ! cpu else b ! (irq div 32 - 1))"
  using assms bank_index [of irq] by (auto simp: flag_reg_def)

lemma flag_update_Some:
  assumes "length b0 = n" "length b = 31" "cpu < n" "irq < 1024"
  shows "flag_update f b0 b irq cpu =
    Some (if irq < 32 then (b0[cpu := f (b0 ! cpu)], b)
          else (b0, b[irq div 32 - 1 := f (b ! (irq div 32 - 1))]))"
  using assms bank_index [of irq] by (auto simp: flag_update_def)

lemma same_bank_iff:
  "32 \<le> (irq::nat) \<Longrightarrow> 32 \<le> j \<Longrightarrow> irq div 32 - 1 = j div 32 - 1 \<longleftrightarrow> irq div 32 = j div 32"
  by auto

text \<open>Updating one line's register changes that line's bit and no other.\<close>

lemma flag_bit_banked:
  assumes "irq < 32" "cpu < length b0" "c < length b0"
    and f: "\<And>r i. i < 32 \<Longrightarrow> bit (f r) i = (if i = irq mod 32 then v else bit r i)"
  shows "flag_bit (b0[cpu := f (b0 ! cpu)]) b j c =
    (if same_line irq cpu j c then v else flag_bit b0 b j c)"
  using assms by (cases "j < 32"; cases "c = cpu") (auto simp: flag_bit_def same_line_def f)

lemma flag_bit_shared:
  assumes "32 \<le> irq" "irq < 1024" "length b = 31"
    and f: "\<And>r i. i < 32 \<Longrightarrow> bit (f r) i = (if i = irq mod 32 then v else bit r i)"
  shows "flag_bit b0 (b[irq div 32 - 1 := f (b ! (irq div 32 - 1))]) j c =
    (if same_line irq cpu j c then v else flag_bit b0 b j c)"
proof (cases "j < 32")
  case True
  then show ?thesis using assms(1) by (auto simp: flag_bit_def same_line_def)
next
  case False
  have idx: "irq div 32 - 1 < length b"
    using assms(1-3) bank_index [of irq] by simp
  show ?thesis
  proof (cases "j div 32 = irq div 32")
    case True
    then have "j = irq \<longleftrightarrow> j mod 32 = irq mod 32"
      using same_word_and_bit [of j 32 irq] by blast
    with True False idx assms(1) show ?thesis
      by (simp add: flag_bit_def same_line_def f)
  next
    case other: False
    then have "irq div 32 - 1 \<noteq> j div 32 - 1"
      using same_bank_iff [of irq j] assms(1) False by simp
    with other False show ?thesis by (auto simp: flag_bit_def same_line_def)
  qed
qed

lemma flag_update_bits:
  assumes len: "length b0 = n" "length b = 31" and bounds: "cpu < n" "irq < 1024"
    and f: "\<And>r i. i < 32 \<Longrightarrow> bit (f r) i = (if i = irq mod 32 then v else bit r i)"
  obtains b0' b' where "flag_update f b0 b irq cpu = Some (b0', b')"
    "length b0' = n" "length b' = 31"
    "\<And>j c. c < n \<Longrightarrow> flag_bit b0' b' j c = (if same_line irq cpu j c then v else flag_bit b0 b j c)"
proof (cases "irq < 32")
  case True
  show ?thesis
    by (rule that [of "b0[cpu := f (b0 ! cpu)]" b])
       (use True len bounds f in \<open>simp_all add: flag_update_Some flag_bit_banked\<close>)
next
  case False
  show ?thesis
    by (rule that [of b0 "b[irq div 32 - 1 := f (b ! (irq div 32 - 1))]"])
       (use False len bounds f in \<open>simp_all add: flag_update_Some flag_bit_shared del: One_nat_def\<close>)
qed

lemma bit_set_irq: "i < 32 \<Longrightarrow> bit (snd (fetch_or r (irq_bit irq))) i = (if i = irq mod 32 then True else bit r i)"
  by (auto simp: irq_bit_def bit_or_shl_1)

lemma bit_clear_irq: "i < 32 \<Longrightarrow> bit (snd (fetch_and r (NOT (irq_bit irq)))) i = (if i = irq mod 32 then False else bit r i)"
  by (auto simp: irq_bit_def bit_and_not_shl_1)

section \<open>The flags under the invariant\<close>

lemma is_pending_eq:
  "wf_dist d \<Longrightarrow> irq < 1024 \<Longrightarrow>
     is_pending d irq cpu = Some (cpu < num_nodes d \<and> flag_bit (pending0 d) (pending d) irq cpu)"
  by (auto simp: is_pending_def wf_dist_def flag_reg_Some flag_test_bit flag_bit_def)

lemma is_active_eq:
  "wf_dist d \<Longrightarrow> irq < 1024 \<Longrightarrow>
     is_active d irq cpu = Some (cpu < num_nodes d \<and> flag_bit (active0 d) (active d) irq cpu)"
  by (auto simp: is_active_def wf_dist_def flag_reg_Some flag_test_bit flag_bit_def)

lemma is_enabled_eq:
  "wf_dist d \<Longrightarrow> irq < 1024 \<Longrightarrow>
     is_enabled d irq cpu = Some (cpu < num_nodes d \<and> flag_bit (enable0 d) (enable d) irq cpu)"
  by (auto simp: is_enabled_def wf_dist_def flag_reg_Some flag_test_bit flag_bit_def)

text \<open>The byte of a line in the target registers; a bit per node.\<close>

definition target_byte :: "Distributor \<Rightarrow> IRQ \<Rightarrow> CPU \<Rightarrow> u32" where
  "target_byte d irq cpu =
     reg_byte (if irq < 32 then targets0 d ! cpu ! (irq div 4) else targets d ! (irq div 4 - 8)) (irq mod 4)"

lemma is_target_eq:
  assumes "wf_dist d" and "irq < 1020"
  shows "is_target d irq cpu =
    Some (cpu < num_nodes d \<and> shr (target_byte d irq cpu) cpu AND 1 = 1)"
proof -
  have "irq div 4 < 8" if "irq < 32" using that by auto
  moreover have "irq div 4 - 8 < 247" if "\<not> irq < 32" using that assms(2) by auto
  ultimately show ?thesis
    using assms by (auto simp: is_target_def wf_dist_def list_all_length target_byte_def reg_byte_def)
qed

lemma should_inject_eq:
  assumes "wf_dist d" and "irq < 1020"
  shows "should_inject d irq cpu =
    Some (is_gic_enabled d \<and> is_enabled d irq cpu = Some True \<and> is_target d irq cpu = Some True
          \<and> is_pending d irq cpu = Some True \<and> is_active d irq cpu = Some False)"
  using assms
  by (auto simp: should_inject_def is_enabled_eq is_pending_eq is_active_eq is_target_eq and_also_def)

text \<open>With the GIC disabled, or the line disabled, the target registers are not read.\<close>

lemma should_inject_disabled [simp]: "\<not> is_gic_enabled d \<Longrightarrow> should_inject d irq cpu = Some False"
  by (simp add: should_inject_def)

lemma should_inject_line_disabled:
  "is_enabled d irq cpu = Some False \<Longrightarrow> should_inject d irq cpu = Some False"
  by (simp add: should_inject_def and_also_def)

lemma should_inject_out [simp]: "num_nodes d \<le> cpu \<Longrightarrow> should_inject d irq cpu = Some False"
  by (simp add: should_inject_def is_enabled_def and_also_def)

lemma should_ack_eq:
  assumes "wf_dist d" and "irq < 1020"
  shows "should_ack d irq cpu =
    Some (should_inject d irq cpu = Some False \<and> is_enabled d irq cpu = Some True)"
  using assms by (auto simp: should_ack_def should_inject_eq is_enabled_eq and_also_def)

section \<open>The contract of a flag\<close>

locale irq_flag =
  fixes test :: "'d \<Rightarrow> IRQ \<Rightarrow> CPU \<Rightarrow> bool option"
    and mark :: "'d \<Rightarrow> IRQ \<Rightarrow> CPU \<Rightarrow> (IRQError, unit, 'd) fallible"
    and unmark :: "'d \<Rightarrow> IRQ \<Rightarrow> CPU \<Rightarrow> (IRQError, unit, 'd) fallible"
    and nodes :: "'d \<Rightarrow> nat"
    and inv :: "'d \<Rightarrow> bool"
  assumes test_total: "inv d \<Longrightarrow> irq < 1024 \<Longrightarrow> test d irq cpu \<noteq> None"
    and test_out: "nodes d \<le> cpu \<Longrightarrow> test d irq cpu = Some False"
    and mark_out: "nodes d \<le> cpu \<Longrightarrow> mark d irq cpu = Some (Inl (IRQError_new (InvalidCPU cpu)), d)"
    and unmark_out: "nodes d \<le> cpu \<Longrightarrow> unmark d irq cpu = Some (Inl (IRQError_new (InvalidCPU cpu)), d)"
    and mark_in: "inv d \<Longrightarrow> irq < 1024 \<Longrightarrow> cpu < nodes d \<Longrightarrow>
      \<exists>d'. mark d irq cpu = Some (Inr (), d') \<and> inv d' \<and> nodes d' = nodes d
        \<and> (\<forall>j<1024. \<forall>c<nodes d. test d' j c = (if same_line irq cpu j c then Some True else test d j c))"
    and unmark_in: "inv d \<Longrightarrow> irq < 1024 \<Longrightarrow> cpu < nodes d \<Longrightarrow>
      \<exists>d'. unmark d irq cpu = Some (Inr (), d') \<and> inv d' \<and> nodes d' = nodes d
        \<and> (\<forall>j<1024. \<forall>c<nodes d. test d' j c = (if same_line irq cpu j c then Some False else test d j c))"
begin

lemma mark_result:
  assumes "inv d" "irq < 1024" "mark d irq cpu = Some (Inr u, d')"
  shows "cpu < nodes d \<and> inv d' \<and> nodes d' = nodes d
    \<and> (\<forall>j<1024. \<forall>c. test d' j c = (if same_line irq cpu j c \<and> c < nodes d then Some True else test d j c))"
proof -
  have cpu: "cpu < nodes d"
    using assms(3) mark_out [of d cpu irq] by (metis Inl_Inr_False linorder_not_less option.inject prod.inject)
  from mark_in [OF assms(1,2) cpu] assms(3) have d':
    "inv d'" "nodes d' = nodes d"
    "\<forall>j<1024. \<forall>c<nodes d. test d' j c = (if same_line irq cpu j c then Some True else test d j c)"
    by auto
  have "test d' j c = (if same_line irq cpu j c \<and> c < nodes d then Some True else test d j c)"
    if "j < 1024" for j c
    using d' that by (cases "c < nodes d") (auto simp: test_out)
  with cpu d' show ?thesis by blast
qed

lemma unmark_result:
  assumes "inv d" "irq < 1024" "unmark d irq cpu = Some (Inr u, d')"
  shows "cpu < nodes d \<and> inv d' \<and> nodes d' = nodes d
    \<and> (\<forall>j<1024. \<forall>c. test d' j c = (if same_line irq cpu j c \<and> c < nodes d then Some False else test d j c))"
proof -
  have cpu: "cpu < nodes d"
    using assms(3) unmark_out [of d cpu irq] by (metis Inl_Inr_False linorder_not_less option.inject prod.inject)
  from unmark_in [OF assms(1,2) cpu] assms(3) have d':
    "inv d'" "nodes d' = nodes d"
    "\<forall>j<1024. \<forall>c<nodes d. test d' j c = (if same_line irq cpu j c then Some False else test d j c)"
    by auto
  have "test d' j c = (if same_line irq cpu j c \<and> c < nodes d then Some False else test d j c)"
    if "j < 1024" for j c
    using d' that by (cases "c < nodes d") (auto simp: test_out)
  with cpu d' show ?thesis by blast
qed

text \<open>No operation panics on a line the banks hold; an unknown node is an error.\<close>

lemma mark_total: "inv d \<Longrightarrow> irq < 1024 \<Longrightarrow> mark d irq cpu \<noteq> None"
  using mark_in mark_out by (metis linorder_not_less option.distinct(1))

lemma unmark_total: "inv d \<Longrightarrow> irq < 1024 \<Longrightarrow> unmark d irq cpu \<noteq> None"
  using unmark_in unmark_out by (metis linorder_not_less option.distinct(1))

text \<open>Marking a line on a list of nodes, as the SGI register does.\<close>

lemma mark_all:
  assumes "inv d" "irq < 1024" "\<forall>c\<in>set cpus. c < nodes d"
  shows "\<exists>d'. for_each cpus (\<lambda>cpu d. map_option snd (unwrap_method (mark d irq cpu))) d = Some d'
    \<and> inv d' \<and> nodes d' = nodes d
    \<and> (\<forall>j<1024. \<forall>c. test d' j c =
         (if c < nodes d \<and> (\<exists>cpu\<in>set cpus. same_line irq cpu j c) then Some True else test d j c))"
  using assms
proof (induction cpus arbitrary: d)
  case Nil
  then show ?case by simp
next
  case (Cons cpu cpus)
  from Cons.prems obtain d1 where m: "mark d irq cpu = Some (Inr (), d1)"
    using mark_in [of d irq cpu] by auto
  note r = mark_result [OF Cons.prems(1,2) m]
  from r Cons.prems obtain d' where d':
    "for_each cpus (\<lambda>cpu d. map_option snd (unwrap_method (mark d irq cpu))) d1 = Some d'"
    "inv d'" "nodes d' = nodes d1"
    "\<forall>j<1024. \<forall>c. test d' j c =
       (if c < nodes d1 \<and> (\<exists>cpu\<in>set cpus. same_line irq cpu j c) then Some True else test d1 j c)"
    using Cons.IH [of d1] by auto
  show ?case
    using m r d' by (intro exI [of _ d']) auto
qed

end

section \<open>Both flags meet the contract\<close>

lemma set_pending_in:
  assumes "wf_dist d" "irq < 1024" "cpu < num_nodes d"
  obtains b0 b where "set_pending d irq cpu = Some (Inr (), d\<lparr>pending0 := b0, pending := b\<rparr>)"
    "length b0 = num_nodes d" "length b = 31"
    "\<And>j c. c < num_nodes d \<Longrightarrow>
       flag_bit b0 b j c = (if same_line irq cpu j c then True else flag_bit (pending0 d) (pending d) j c)"
  by (rule flag_update_bits [OF _ _ assms(3,2) bit_set_irq [of _ _ irq], of "pending0 d" "pending d"])
     (use assms in \<open>auto simp: set_pending_def wf_dist_def\<close>)

lemma clear_pending_in:
  assumes "wf_dist d" "irq < 1024" "cpu < num_nodes d"
  obtains b0 b where "clear_pending d irq cpu = Some (Inr (), d\<lparr>pending0 := b0, pending := b\<rparr>)"
    "length b0 = num_nodes d" "length b = 31"
    "\<And>j c. c < num_nodes d \<Longrightarrow>
       flag_bit b0 b j c = (if same_line irq cpu j c then False else flag_bit (pending0 d) (pending d) j c)"
  by (rule flag_update_bits [OF _ _ assms(3,2) bit_clear_irq [of _ _ irq], of "pending0 d" "pending d"])
     (use assms in \<open>auto simp: clear_pending_def wf_dist_def\<close>)

lemma set_active_in:
  assumes "wf_dist d" "irq < 1024" "cpu < num_nodes d"
  obtains b0 b where "set_active d irq cpu = Some (Inr (), d\<lparr>active0 := b0, active := b\<rparr>)"
    "length b0 = num_nodes d" "length b = 31"
    "\<And>j c. c < num_nodes d \<Longrightarrow>
       flag_bit b0 b j c = (if same_line irq cpu j c then True else flag_bit (active0 d) (active d) j c)"
  by (rule flag_update_bits [OF _ _ assms(3,2) bit_set_irq [of _ _ irq], of "active0 d" "active d"])
     (use assms in \<open>auto simp: set_active_def wf_dist_def\<close>)

lemma clear_active_in:
  assumes "wf_dist d" "irq < 1024" "cpu < num_nodes d"
  obtains b0 b where "clear_active d irq cpu = Some (Inr (), d\<lparr>active0 := b0, active := b\<rparr>)"
    "length b0 = num_nodes d" "length b = 31"
    "\<And>j c. c < num_nodes d \<Longrightarrow>
       flag_bit b0 b j c = (if same_line irq cpu j c then False else flag_bit (active0 d) (active d) j c)"
  by (rule flag_update_bits [OF _ _ assms(3,2) bit_clear_irq [of _ _ irq], of "active0 d" "active d"])
     (use assms in \<open>auto simp: clear_active_def wf_dist_def\<close>)

text \<open>The banks of one flag can be exchanged without touching the rest of the invariant.\<close>

lemma wf_dist_pending [simp]:
  "wf_dist d \<Longrightarrow> length b0 = num_nodes d \<Longrightarrow> length b = 31 \<Longrightarrow> wf_dist (d\<lparr>pending0 := b0, pending := b\<rparr>)"
  by (simp add: wf_dist_def)

lemma wf_dist_active [simp]:
  "wf_dist d \<Longrightarrow> length b0 = num_nodes d \<Longrightarrow> length b = 31 \<Longrightarrow> wf_dist (d\<lparr>active0 := b0, active := b\<rparr>)"
  by (simp add: wf_dist_def)

interpretation pend: irq_flag is_pending set_pending clear_pending num_nodes wf_dist
proof (unfold_locales, goal_cases)
  case (1 d irq cpu)
  then show ?case by (simp add: is_pending_eq)
next
  case (5 d irq cpu)
  show ?case by (rule set_pending_in [OF 5]) (use 5 in \<open>simp add: is_pending_eq\<close>)
next
  case (6 d irq cpu)
  show ?case by (rule clear_pending_in [OF 6]) (use 6 in \<open>simp add: is_pending_eq\<close>)
qed (simp_all add: is_pending_def set_pending_def clear_pending_def)

interpretation act: irq_flag is_active set_active clear_active num_nodes wf_dist
proof (unfold_locales, goal_cases)
  case (1 d irq cpu)
  then show ?case by (simp add: is_active_eq)
next
  case (5 d irq cpu)
  show ?case by (rule set_active_in [OF 5]) (use 5 in \<open>simp add: is_active_eq\<close>)
next
  case (6 d irq cpu)
  show ?case by (rule clear_active_in [OF 6]) (use 6 in \<open>simp add: is_active_eq\<close>)
qed (simp_all add: is_active_def set_active_def clear_active_def)

section \<open>What an update leaves alone\<close>

text \<open>
  Each line operation changes the banks of its own flag (or, for SGIs, the source bits) only. The
  frame is stated as one record equation; every test on another flag follows from it by \<open>simp\<close>.
\<close>

lemma set_pending_frame:
  "set_pending d irq cpu = Some (r, d') \<Longrightarrow> d' = d\<lparr>pending0 := pending0 d', pending := pending d'\<rparr>"
  by (auto simp: set_pending_def split: if_splits Option.bind_splits)

lemma clear_pending_frame:
  "clear_pending d irq cpu = Some (r, d') \<Longrightarrow> d' = d\<lparr>pending0 := pending0 d', pending := pending d'\<rparr>"
  by (auto simp: clear_pending_def split: if_splits Option.bind_splits)

lemma set_active_frame:
  "set_active d irq cpu = Some (r, d') \<Longrightarrow> d' = d\<lparr>active0 := active0 d', active := active d'\<rparr>"
  by (auto simp: set_active_def split: if_splits Option.bind_splits)

lemma clear_active_frame:
  "clear_active d irq cpu = Some (r, d') \<Longrightarrow> d' = d\<lparr>active0 := active0 d', active := active d'\<rparr>"
  by (auto simp: clear_active_def split: if_splits Option.bind_splits)

lemma wf_dist_frame_pending:
  "wf_dist d' \<Longrightarrow> d' = d\<lparr>pending0 := pending0 d', pending := pending d'\<rparr> \<Longrightarrow>
     num_nodes d' = num_nodes d \<and> is_active d' = is_active d \<and> is_enabled d' = is_enabled d
     \<and> is_target d' = is_target d \<and> is_gic_enabled d' = is_gic_enabled d"
  by (cases d; cases d') (auto simp: fun_eq_iff is_active_def is_enabled_def is_target_def is_gic_enabled_def)

lemma wf_dist_frame_active:
  "wf_dist d' \<Longrightarrow> d' = d\<lparr>active0 := active0 d', active := active d'\<rparr> \<Longrightarrow>
     num_nodes d' = num_nodes d \<and> is_pending d' = is_pending d \<and> is_enabled d' = is_enabled d
     \<and> is_target d' = is_target d \<and> is_gic_enabled d' = is_gic_enabled d"
  by (cases d; cases d') (auto simp: fun_eq_iff is_pending_def is_enabled_def is_target_def is_gic_enabled_def)

section \<open>Software generated interrupts\<close>

text \<open>Whether node \<open>s\<close> has an SGI outstanding at node \<open>cpu\<close>: the source bit in \<open>cpu\<close>'s bank.\<close>

definition sgi_source :: "Distributor \<Rightarrow> IRQ \<Rightarrow> CPU \<Rightarrow> CPU \<Rightarrow> bool" where
  "sgi_source d irq cpu s = bit (sgi_pending d ! cpu ! (irq div 4)) ((irq mod 4) * 8 + s)"

lemma sgi_regs:
  assumes "wf_dist d" "irq < 16" "cpu < num_nodes d"
  shows "get_sgi_reg d cpu (irq div 4) = Some (sgi_pending d ! cpu ! (irq div 4))"
    and "set_sgi_reg d cpu (irq div 4) v =
      Some (d\<lparr>sgi_pending := (sgi_pending d)[cpu := (sgi_pending d ! cpu)[irq div 4 := v]]\<rparr>)"
proof -
  have "cpu < length (sgi_pending d)" "length (sgi_pending d ! cpu) = 4" "irq div 4 < 4"
    using assms by (auto simp: wf_dist_def list_all_length)
  then show "get_sgi_reg d cpu (irq div 4) = Some (sgi_pending d ! cpu ! (irq div 4))"
    and "set_sgi_reg d cpu (irq div 4) v =
      Some (d\<lparr>sgi_pending := (sgi_pending d)[cpu := (sgi_pending d ! cpu)[irq div 4 := v]]\<rparr>)"
    by (simp_all add: get_sgi_reg_def set_sgi_reg_def)
qed

lemma list_all_update: "list_all P xs \<Longrightarrow> P x \<Longrightarrow> list_all P (xs[i := x])"
  by (cases "i < length xs") (auto simp: list_all_length nth_list_update)

lemma wf_dist_sgi:
  assumes "wf_dist d" "cpu < num_nodes d"
  shows "wf_dist (d\<lparr>sgi_pending := (sgi_pending d)[cpu := (sgi_pending d ! cpu)[k := v]]\<rparr>)"
proof -
  have "length (sgi_pending d ! cpu) = 4" using assms by (simp add: wf_dist_def list_all_length)
  with assms show ?thesis by (simp add: wf_dist_def list_all_update)
qed

lemma bit_sgi_source_bit:
  "irq < 16 \<Longrightarrow> s < 8 \<Longrightarrow> bit (sgi_source_bit irq s) i \<longleftrightarrow> i = (irq mod 4) * 8 + s"
  by (subst sgi_source_bit_def, subst bit_shl_1) auto

text \<open>After clearing one source, the mask test asks whether any other source of the line is left.\<close>

lemma sgi_still_pending:
  assumes "irq < 16" "s < 8"
  shows "(r AND NOT (sgi_source_bit irq s)) AND shl 0xff ((irq mod 4) * 8) = 0 \<longleftrightarrow>
    (\<forall>s'<8. s' \<noteq> s \<longrightarrow> \<not> bit r ((irq mod 4) * 8 + s'))"
proof -
  have m: "(irq mod 4) * 8 < 32" by simp
  have "(r AND NOT (sgi_source_bit irq s)) AND shl 0xff ((irq mod 4) * 8) = 0 \<longleftrightarrow>
    (\<forall>i<32. \<not> (bit r i \<and> i \<noteq> (irq mod 4) * 8 + s \<and> (irq mod 4) * 8 \<le> i \<and> i < (irq mod 4) * 8 + 8))"
    using m assms
    by (auto simp: bit_eq_iff bit_and_iff bit_not_iff bit_sgi_source_bit shl_in bit_push_bit_iff)
  also have "\<dots> \<longleftrightarrow> (\<forall>s'<8. s' \<noteq> s \<longrightarrow> \<not> bit r ((irq mod 4) * 8 + s'))" (is "?L \<longleftrightarrow> ?R")
  proof
    assume L: ?L
    show ?R
    proof (intro allI impI)
      fix s' :: nat
      assume "s' < 8" "s' \<noteq> s"
      moreover have "(irq mod 4) * 8 + s' < 32" using \<open>s' < 8\<close> by (simp add: mod_less_divisor)
      ultimately show "\<not> bit r ((irq mod 4) * 8 + s')" using L by auto
    qed
  next
    assume R: ?R
    show ?L
    proof (intro allI impI notI, elim conjE)
      fix i
      assume "bit r i" "i \<noteq> (irq mod 4) * 8 + s" "(irq mod 4) * 8 \<le> i" "i < (irq mod 4) * 8 + 8"
      then obtain s' where "i = (irq mod 4) * 8 + s'" by (auto simp: le_iff_add)
      with R \<open>bit r i\<close> \<open>i \<noteq> (irq mod 4) * 8 + s\<close> \<open>i < (irq mod 4) * 8 + 8\<close> show False by simp
    qed
  qed
  finally show ?thesis .
qed

lemma sgi_frame [simp]:
  "is_pending (d\<lparr>sgi_pending := x\<rparr>) = is_pending d" "is_active (d\<lparr>sgi_pending := x\<rparr>) = is_active d"
  "is_enabled (d\<lparr>sgi_pending := x\<rparr>) = is_enabled d" "is_target (d\<lparr>sgi_pending := x\<rparr>) = is_target d"
  by (simp_all add: fun_eq_iff is_pending_def is_active_def is_enabled_def is_target_def)

lemma clear_sgi_pending_effect:
  assumes d: "wf_dist d" "num_nodes d \<le> 8" and irq: "irq < 16"
    and cpus: "s < num_nodes d" "cpu < num_nodes d"
  obtains d' where "clear_sgi_pending d irq s cpu = Some (Inr (), d')" "wf_dist d'"
    "num_nodes d' = num_nodes d" "is_active d' = is_active d"
    "\<And>j c. j < 1024 \<Longrightarrow> is_pending d' j c =
       (if j = irq \<and> c = cpu \<and> (\<forall>s'<8. s' \<noteq> s \<longrightarrow> \<not> sgi_source d irq cpu s')
        then Some False else is_pending d j c)"
proof -
  define r where "r = sgi_pending d ! cpu ! (irq div 4)"
  define d1 where "d1 = d\<lparr>sgi_pending := (sgi_pending d)[cpu := (sgi_pending d ! cpu)[irq div 4 :=
    r AND NOT (sgi_source_bit irq s)]]\<rparr>"
  have wf1: "wf_dist d1" and n1: "num_nodes d1 = num_nodes d"
    using wf_dist_sgi [OF d(1) cpus(2)] by (simp_all add: d1_def)
  have left: "(r AND NOT (sgi_source_bit irq s)) AND shl 0xff ((irq mod 4) * 8) = 0 \<longleftrightarrow>
      (\<forall>s'<8. s' \<noteq> s \<longrightarrow> \<not> sgi_source d irq cpu s')" (is "?c \<longleftrightarrow> _")
    using sgi_still_pending [OF irq, of s r] cpus(1) d(2) by (simp add: sgi_source_def r_def)
  have code: "clear_sgi_pending d irq s cpu =
      (if ?c then do { (_, d) \<leftarrow> unwrap_method (clear_pending d1 irq cpu); Some (Inr (), d) }
       else Some (Inr (), d1))"
    using cpus irq sgi_regs [OF d(1) irq cpus(2)]
    by (simp add: clear_sgi_pending_def r_def d1_def Let_def)
  show ?thesis
  proof (cases ?c)
    case True
    obtain d' where d': "clear_pending d1 irq cpu = Some (Inr (), d')" "wf_dist d'"
      using pend.unmark_in [OF wf1, of irq cpu] irq cpus(2) n1 by auto
    note eff = pend.unmark_result [OF wf1 _ d'(1)]
    have "is_active d' = is_active d"
      using wf_dist_frame_pending [OF d'(2) clear_pending_frame [OF d'(1)]] by (simp add: d1_def)
    then show ?thesis
      using True left code d' eff irq cpus(2) n1
      by (intro that [of d']) (auto simp: d1_def same_line_def)
  next
    case False
    then show ?thesis
      using left code wf1 n1 by (intro that [of d1]) (auto simp: d1_def)
  qed
qed

section \<open>What the sweeps collect\<close>

definition first_if :: "bool \<Rightarrow> 'a list \<Rightarrow> 'a list" where
  "first_if b xs = (if b then take 1 xs else xs)"

lemma sweep_nodes_eq:
  assumes "\<And>c. c \<in> set nodes \<Longrightarrow> p irq c = Some (q c)"
  shows "sweep_nodes p irq nodes = Some (map (Pair irq) (first_if (irq \<ge> 32) (filter q nodes)))"
  using assms by (induction nodes) (auto simp: first_if_def)

lemma sweep_irqs_eq:
  assumes "\<And>i c. i \<in> set irqs \<Longrightarrow> c \<in> set nodes \<Longrightarrow> p i c = Some (q i c)"
  shows "sweep_irqs p irqs nodes =
    Some (concat (map (\<lambda>i. map (Pair i) (first_if (i \<ge> 32) (filter (q i) nodes))) irqs))"
  using assms by (induction irqs) (auto simp: sweep_nodes_eq [where q = "q _"])

lemma take_1_filter_upt:
  "set (take 1 (filter q [0..<n])) = {c. c < n \<and> q c \<and> (\<forall>c'<c. \<not> q c')}"
proof (induction n)
  case 0
  then show ?case by simp
next
  case (Suc n)
  show ?case
  proof (cases "filter q [0..<n]")
    case Nil
    then show ?thesis by (auto simp: filter_empty_conv less_Suc_eq)
  next
    case (Cons c cs)
    then have "c \<in> set (filter q [0..<n])" by simp
    then have "c < n" "q c" by auto
    with Cons Suc show ?thesis by (auto simp: less_Suc_eq)
  qed
qed

lemma set_first_if_filter_upt:
  "set (first_if b (filter q [0..<n])) = {c. c < n \<and> q c \<and> (b \<longrightarrow> (\<forall>c'<c. \<not> q c'))}"
  using take_1_filter_upt [of q n] by (auto simp: first_if_def)

lemma distinct_first_if [simp]: "distinct xs \<Longrightarrow> distinct (first_if b xs)"
  by (simp add: first_if_def)

lemma distinct_sweep:
  "distinct irqs \<Longrightarrow> (\<And>i. distinct (f i)) \<Longrightarrow> distinct (concat (map (\<lambda>i. map (Pair i) (f i)) irqs))"
  by (induction irqs) (auto simp: distinct_map inj_on_def)

lemma sweep_spec:
  assumes "\<And>i c. i < base + k \<Longrightarrow> p i c = Some (q i c)"
  obtains r where "sweep_irqs p [base..<base + k] [0..<n] = Some r" "distinct r"
    "set r = {(i, c). base \<le> i \<and> i < base + k \<and> c < n \<and> q i c \<and> (32 \<le> i \<longrightarrow> (\<forall>c'<c. \<not> q i c'))}"
proof -
  let ?f = "\<lambda>i. first_if (i \<ge> 32) (filter (q i) [0..<n])"
  let ?r = "concat (map (\<lambda>i. map (Pair i) (?f i)) [base..<base + k])"
  have "sweep_irqs p [base..<base + k] [0..<n] = Some ?r"
    by (rule sweep_irqs_eq) (simp add: assms)
  moreover have "distinct ?r" by (rule distinct_sweep) simp_all
  moreover have "set ?r = {(i, c). base \<le> i \<and> i < base + k \<and> c < n \<and> q i c
      \<and> (32 \<le> i \<longrightarrow> (\<forall>c'<c. \<not> q i c'))}"
    by (auto simp: set_first_if_filter_upt)
  ultimately show ?thesis by (rule that)
qed

section \<open>Construction\<close>

lemma for_each_store_at:
  "n \<le> length regs \<Longrightarrow> for_each [0..<n] (store_at v) regs = Some (replicate n v @ drop n regs)"
proof (induction n)
  case 0
  then show ?case by simp
next
  case (Suc n)
  then have "drop n regs = regs ! n # drop (Suc n) regs" by (simp add: Cons_nth_drop_Suc)
  with Suc show ?case
    by (simp add: for_each_append store_at_def nth_append list_update_append replicate_append_same)
qed

lemma length_reset_target_bank [simp]: "length (reset_target_bank i b) = length b"
  by (simp add: reset_target_bank_def)

lemma Distributor_new_wf: "\<exists>d. Distributor_new n = Some d \<and> wf_dist d \<and> num_nodes d = n"
  by (auto simp: Distributor_new_def reset_def Distributor_zeroed_def for_each_store_at store_at_def
      wf_dist_def Let_def enumerate_eq_zip list_all_length)

lemma wf_dist_zeroed [simp]: "wf_dist (Distributor_zeroed n)" "num_nodes (Distributor_zeroed n) = n"
  by (simp_all add: wf_dist_def Distributor_zeroed_def list_all_length)

lemma ack_result:
  assumes d: "wf_dist d" "num_nodes d \<le> 8" and irq: "irq < 1024" and cpu: "cpu < num_nodes d"
  shows "\<exists>d'. ack d irq cpu = Some (Inr (), d') \<and> wf_dist d' \<and> num_nodes d' = num_nodes d
    \<and> (\<forall>j<1024. \<forall>c<num_nodes d.
         is_active d' j c = (if same_line irq cpu j c then Some False else is_active d j c))
    \<and> (\<forall>j<1024. \<forall>c<num_nodes d.
         is_pending d' j c =
           (if same_line irq cpu j c \<and> (irq < 16 \<longrightarrow> (\<forall>s<8. s \<noteq> 0 \<longrightarrow> \<not> sgi_source d irq cpu s))
            then Some False else is_pending d j c))"
proof -
  obtain d1 where d1: "(if irq < 16 then clear_sgi_pending d irq 0 cpu else clear_pending d irq cpu)
      = Some (Inr (), d1)" "wf_dist d1" "num_nodes d1 = num_nodes d" "is_active d1 = is_active d"
    and pending1: "\<And>j c. j < 1024 \<Longrightarrow> c < num_nodes d \<Longrightarrow> is_pending d1 j c =
      (if same_line irq cpu j c \<and> (irq < 16 \<longrightarrow> (\<forall>s<8. s \<noteq> 0 \<longrightarrow> \<not> sgi_source d irq cpu s))
       then Some False else is_pending d j c)"
  proof (cases "irq < 16")
    case True
    show ?thesis
      by (rule clear_sgi_pending_effect [OF d True _ cpu, of 0])
         (use cpu True in \<open>auto intro!: that simp: same_line_def\<close>)
  next
    case False
    obtain d1 where m: "clear_pending d irq cpu = Some (Inr (), d1)"
      using pend.unmark_in [OF d(1) irq cpu] by auto
    note eff = pend.unmark_result [OF d(1) irq m]
    have "is_active d1 = is_active d"
      using wf_dist_frame_pending [OF _ clear_pending_frame [OF m]] eff by simp
    then show ?thesis using m eff False by (intro that [of d1]) auto
  qed
  obtain d' where m: "clear_active d1 irq cpu = Some (Inr (), d')"
    using act.unmark_in [OF d1(2) irq, of cpu] cpu d1(3) by auto
  note eff = act.unmark_result [OF d1(2) irq m]
  have "is_pending d' = is_pending d1"
    using wf_dist_frame_active [OF _ clear_active_frame [OF m]] eff by simp
  moreover have "ack d irq cpu = Some (Inr (), d')"
    using d1(1) m cpu by (auto simp: ack_def split: if_splits)
  ultimately show ?thesis
    using eff d1(3,4) pending1 by (intro exI [of _ d']) auto
qed

section \<open>Properties\<close>

text \<open>
  Acknowledging an interrupt on an existing node succeeds, keeps the distributor well formed
  and clears the active flag of that line alone. For a PPI or SPI it also clears the pending flag of
  that line alone; for an SGI the pending flag goes only when node 0 was the last source
  outstanding, since the code always acknowledges source 0. An SPI is one line on all nodes.
\<close>

lemma ack_effect:
  assumes d: "wf_dist d" "num_nodes d \<le> 8" and irq: "irq < 1024" and cpu: "cpu < num_nodes d"
  shows "\<exists>d'. ack d irq cpu = Some (Inr (), d') \<and> wf_dist d' \<and> num_nodes d' = num_nodes d
    \<and> (\<forall>j<1024. \<forall>c<num_nodes d.
         is_active d' j c = (if same_line irq cpu j c then Some False else is_active d j c))
    \<and> (\<forall>j<1024. \<forall>c<num_nodes d.
         is_pending d' j c =
           (if same_line irq cpu j c \<and> (irq < 16 \<longrightarrow> (\<forall>s<8. s \<noteq> 0 \<longrightarrow> \<not> sgi_source d irq cpu s))
            then Some False else is_pending d j c))"
  by (rule ack_result [OF assms])

lemma ack_effect_witness:
  "\<exists>d'. ack (Distributor_zeroed 2) 40 1 = Some (Inr (), d') \<and> is_pending d' 40 0 = Some False"
proof -
  obtain d' where "ack (Distributor_zeroed 2) 40 1 = Some (Inr (), d')"
    and p: "\<forall>j<1024. \<forall>c<2. is_pending d' j c = (if same_line 40 1 j c then Some False
      else is_pending (Distributor_zeroed 2) j c)"
    using ack_effect [of "Distributor_zeroed 2" 40 1] by auto
  with p [rule_format, of 40 0] show ?thesis by (simp add: same_line_def)
qed

text \<open>
  C36. The injection sweep of a range of lines never panics and collects exactly the lines that
  are due: enabled, targeted, pending and not active with the GIC on. A banked line is collected for
  every node it is due on, an SPI once, for its first node.
\<close>

theorem sweep_irqs_to_inject_spec:
  assumes "wf_dist d" and "base + k \<le> 1020"
  shows "\<exists>r. sweep_irqs_to_inject d base k = Some r \<and> distinct r
    \<and> set r = {(irq, cpu). base \<le> irq \<and> irq < base + k \<and> cpu < num_nodes d
        \<and> should_inject d irq cpu = Some True
        \<and> (32 \<le> irq \<longrightarrow> (\<forall>c<cpu. should_inject d irq c = Some False))}"
proof -
  have tot: "should_inject d i c = Some (should_inject d i c = Some True)"
    "should_inject d i c = Some False \<longleftrightarrow> should_inject d i c \<noteq> Some True"
    if "i < base + k" for i c
    using that assms by (auto simp: should_inject_eq)
  show ?thesis
    by (rule sweep_spec [of base k "should_inject d" "\<lambda>i c. should_inject d i c = Some True"])
       (use tot in \<open>auto simp: sweep_irqs_to_inject_def\<close>)
qed

theorem sweep_irqs_to_inject_spec_witness:
  "\<exists>r. sweep_irqs_to_inject (Distributor_zeroed 2) 0 1020 = Some r \<and> distinct r"
  using sweep_irqs_to_inject_spec [of "Distributor_zeroed 2" 0 1020] by auto

text \<open>
  The acknowledgement sweep collects exactly the enabled lines that are not due, again an
  SPI only for the first such node. Together with the injection sweep every enabled banked line of
  the range is either injected or acknowledged, never both.
\<close>

lemma sweep_irqs_to_ack_spec:
  assumes "wf_dist d" and "base + k \<le> 1020"
  shows "\<exists>r. sweep_irqs_to_ack d base k = Some r \<and> distinct r
    \<and> set r = {(irq, cpu). base \<le> irq \<and> irq < base + k \<and> cpu < num_nodes d
        \<and> is_enabled d irq cpu = Some True \<and> should_inject d irq cpu = Some False
        \<and> (32 \<le> irq \<longrightarrow> (\<forall>c<cpu. \<not> (is_enabled d irq c = Some True \<and> should_inject d irq c = Some False)))}"
proof -
  have tot: "should_ack d i c = Some (is_enabled d i c = Some True \<and> should_inject d i c = Some False)"
    if "i < base + k" for i c
    using that assms by (auto simp: should_ack_eq)
  show ?thesis
    by (rule sweep_spec [OF tot, where n = "num_nodes d"]) (auto simp: sweep_irqs_to_ack_def)
qed

lemma sweep_irqs_to_ack_spec_witness:
  "\<exists>r. sweep_irqs_to_ack (Distributor_zeroed 2) 0 1020 = Some r \<and> distinct r"
  using sweep_irqs_to_ack_spec [of "Distributor_zeroed 2" 0 1020] by auto

end
