(* ===== verification/GicWrite.thy ===== *)
theory GicWrite
  imports GicLines
begin

text \<open>
  Guest writes to the distributor (\<^verbatim>\<open>Distributor::handle_write\<close> of
  \<^verbatim>\<open>vmm/gic/src/distributor/mod.rs\<close>), one definition per register of the \<^verbatim>\<open>match\<close>, in the
  order of the source, and the dispatch on width and register. The lemmas say which writes succeed,
  which are errors, which panic, and what each does to the interrupt lines.
\<close>

type_synonym dist_write = "(IRQError, WriteAction, Distributor) fallible"

section \<open>Shared steps of the register arms\<close>

text \<open>\<^verbatim>\<open>let r = &mut regs[i]; r.<method>(..)\<close> on a bank, and on the pair of a banked register 0 and
  the shared registers from 1.\<close>

definition reg_update :: "(Register32 \<Rightarrow> Register32) \<Rightarrow> Register32 list \<Rightarrow> nat \<Rightarrow> Register32 list option" where
  "reg_update f regs i = do { r \<leftarrow> vec_get regs i; vec_set regs i (f r) }"

definition bank_update ::
  "(Register32 \<Rightarrow> Register32) \<Rightarrow> nat \<Rightarrow> nat \<Rightarrow> Register32 list \<Rightarrow> Register32 list \<Rightarrow>
     (Register32 list \<times> Register32 list) option" where
  "bank_update f reg_num node_index bank0 bank =
     (if reg_num = 0 then do { b0 \<leftarrow> reg_update f bank0 node_index; Some (b0, bank) }
      else do { b \<leftarrow> reg_update f bank (reg_num - 1); Some (bank0, b) })"

text \<open>The end of an arm that injects: \<^verbatim>\<open>NoAction\<close> when nothing was collected.\<close>

definition inject_action :: "(IRQ \<times> CPU) list \<Rightarrow> WriteAction" where
  "inject_action to_inject =
     (if length to_inject = 0 then WriteNoAction else InjectAndAckIRQs (Some to_inject) None)"

definition inject_and_ack_action :: "(IRQ \<times> CPU) list \<Rightarrow> (IRQ \<times> CPU) list \<Rightarrow> WriteAction" where
  "inject_and_ack_action to_inject to_ack =
     (if length to_inject = 0 \<and> length to_ack = 0 then WriteNoAction
      else InjectAndAckIRQs (Some to_inject) (Some to_ack))"

definition sweep_both :: "Distributor \<Rightarrow> IRQ \<Rightarrow> nat \<Rightarrow> dist_write" where
  "sweep_both d base_irq num_irqs = do {
     to_inject \<leftarrow> sweep_irqs_to_inject d base_irq num_irqs;
     to_ack \<leftarrow> sweep_irqs_to_ack d base_irq num_irqs;
     Some (Inr (inject_and_ack_action to_inject to_ack), d) }"

definition sweep_inject :: "Distributor \<Rightarrow> IRQ \<Rightarrow> nat \<Rightarrow> dist_write" where
  "sweep_inject d base_irq num_irqs = do {
     to_inject \<leftarrow> sweep_irqs_to_inject d base_irq num_irqs;
     Some (Inr (inject_action to_inject), d) }"

definition invalid_write :: "Distributor \<Rightarrow> dist_write" where
  "invalid_write d = Some (Inl \<lparr>irq_error_type = InvalidRegisterWrite\<rparr>, d)"

section \<open>The register arms\<close>

definition write_ctlr :: "Distributor \<Rightarrow> u32 \<Rightarrow> dist_write" where
  "write_ctlr d val =
     (if val = 1 then
        (let (prev, r) = fetch_or (control d) val; d = d\<lparr>control := r\<rparr> in
         if prev = 0 then sweep_both d 0 1020 else Some (Inr WriteNoAction, d))
      else if val = 0 then
        (let (prev, r) = fetch_and (control d) val; d = d\<lparr>control := r\<rparr> in
         if prev = 1 then Some (Inr WriteNoAction, d) else Some (Inr WriteNoAction, d))
      else invalid_write d)"

definition write_igroupr :: "Distributor \<Rightarrow> nat \<Rightarrow> nat \<Rightarrow> u32 \<Rightarrow> dist_write" where
  "write_igroupr d node_index reg_num val = do {
     (b0, b) \<leftarrow> bank_update (\<lambda>r. store r val) reg_num node_index (irq_group0 d) (irq_group d);
     Some (Inr WriteNoAction, d\<lparr>irq_group0 := b0, irq_group := b\<rparr>) }"

definition write_isenabler :: "Distributor \<Rightarrow> nat \<Rightarrow> nat \<Rightarrow> u32 \<Rightarrow> dist_write" where
  "write_isenabler d node_index reg_num val =
     (if val = 0 then Some (Inr WriteNoAction, d)
      else do {
        (b0, b) \<leftarrow> bank_update (\<lambda>r. snd (fetch_or r val)) reg_num node_index (enable0 d) (enable d);
        let d = d\<lparr>enable0 := b0, enable := b\<rparr>;
        sweep_both d (reg_num * 32) 32 })"

text \<open>The shared registers are indexed with \<^verbatim>\<open>reg_num\<close> here, not with \<^verbatim>\<open>reg_num - 1\<close>.\<close>

definition write_icenabler :: "Distributor \<Rightarrow> nat \<Rightarrow> nat \<Rightarrow> u32 \<Rightarrow> dist_write" where
  "write_icenabler d node_index reg_num val =
     (if val = 0 then Some (Inr WriteNoAction, d)
      else if reg_num = 0 then do {
        b0 \<leftarrow> reg_update (\<lambda>r. snd (fetch_and r (NOT val))) (enable0 d) node_index;
        Some (Inr WriteNoAction, d\<lparr>enable0 := b0\<rparr>) }
      else do {
        b \<leftarrow> reg_update (\<lambda>r. snd (fetch_and r (NOT val))) (enable d) reg_num;
        Some (Inr WriteNoAction, d\<lparr>enable := b\<rparr>) })"

definition write_ispendr :: "Distributor \<Rightarrow> nat \<Rightarrow> nat \<Rightarrow> u32 \<Rightarrow> dist_write" where
  "write_ispendr d node_index reg_num val =
     (if val = 0 then Some (Inr WriteNoAction, d)
      else if reg_num = 0 \<and> val AND 0xFFFF \<noteq> 0 then Some (Inr WriteNoAction, d)
      else do {
        (b0, b) \<leftarrow> bank_update (\<lambda>r. snd (fetch_or r val)) reg_num node_index (pending0 d) (pending d);
        let d = d\<lparr>pending0 := b0, pending := b\<rparr>;
        sweep_inject d (reg_num * 32) 32 })"

definition write_icpendr :: "Distributor \<Rightarrow> nat \<Rightarrow> nat \<Rightarrow> u32 \<Rightarrow> dist_write" where
  "write_icpendr d node_index reg_num val =
     (if val = 0 then Some (Inr WriteNoAction, d)
      else if reg_num = 0 \<and> val AND 0xFFFF \<noteq> 0 then invalid_write d
      else do {
        (b0, b) \<leftarrow> bank_update (\<lambda>r. snd (fetch_and r (NOT val))) reg_num node_index (pending0 d) (pending d);
        Some (Inr WriteNoAction, d\<lparr>pending0 := b0, pending := b\<rparr>) })"

definition write_isactiver :: "Distributor \<Rightarrow> nat \<Rightarrow> nat \<Rightarrow> u32 \<Rightarrow> dist_write" where
  "write_isactiver d node_index reg_num val =
     (if val = 0 then Some (Inr WriteNoAction, d)
      else do {
        (b0, b) \<leftarrow> bank_update (\<lambda>r. snd (fetch_or r val)) reg_num node_index (active0 d) (active d);
        Some (Inr WriteNoAction, d\<lparr>active0 := b0, active := b\<rparr>) })"

definition write_icactiver :: "Distributor \<Rightarrow> nat \<Rightarrow> nat \<Rightarrow> u32 \<Rightarrow> dist_write" where
  "write_icactiver d node_index reg_num val =
     (if val = 0 then Some (Inr WriteNoAction, d)
      else do {
        (b0, b) \<leftarrow> bank_update (\<lambda>r. snd (fetch_and r (NOT val))) reg_num node_index (active0 d) (active d);
        Some (Inr WriteNoAction, d\<lparr>active0 := b0, active := b\<rparr>) })"

definition write_ipriorityr :: "Distributor \<Rightarrow> nat \<Rightarrow> nat \<Rightarrow> u32 \<Rightarrow> dist_write" where
  "write_ipriorityr d node_index reg_num val =
     (if reg_num < 8 then do {
        bank \<leftarrow> vec_get (priority0 d) node_index;
        bank' \<leftarrow> reg_update (\<lambda>r. store r val) bank reg_num;
        banks \<leftarrow> vec_set (priority0 d) node_index bank';
        Some (Inr WriteNoAction, d\<lparr>priority0 := banks\<rparr>) }
      else do {
        b \<leftarrow> reg_update (\<lambda>r. store r val) (priority d) (reg_num - 8);
        Some (Inr WriteNoAction, d\<lparr>priority := b\<rparr>) })"

definition write_itargetsr :: "Distributor \<Rightarrow> nat \<Rightarrow> u32 \<Rightarrow> dist_write" where
  "write_itargetsr d reg_num val =
     (if reg_num < 8 then invalid_write d
      else do {
        targets_reg \<leftarrow> vec_get (targets d) (reg_num - 8);
        let (prev, r) = swap targets_reg val;
        b \<leftarrow> vec_set (targets d) (reg_num - 8) r;
        let d = d\<lparr>targets := b\<rparr>;
        let new_cpus = val AND NOT prev;
        if new_cpus = 0 then Some (Inr WriteNoAction, d)
        else sweep_both d (reg_num * 4) 4 })"

definition write_icfgr :: "Distributor \<Rightarrow> nat \<Rightarrow> nat \<Rightarrow> u32 \<Rightarrow> dist_write" where
  "write_icfgr d node_index reg_num val =
     (if reg_num = 0 then Some (Inr WriteNoAction, d)
      else if reg_num = 1 then do {
        b \<leftarrow> reg_update (\<lambda>r. store r val) (config1 d) node_index;
        Some (Inr WriteNoAction, d\<lparr>config1 := b\<rparr>) }
      else do {
        b \<leftarrow> reg_update (\<lambda>r. store r val) (config d) (reg_num - 2);
        Some (Inr WriteNoAction, d\<lparr>config := b\<rparr>) })"

text \<open>One round of the SGI loop: mark the line pending on the node and collect it if it is due.\<close>

definition sgi_forward ::
  "IRQ \<Rightarrow> CPU \<Rightarrow> Distributor \<times> (IRQ \<times> CPU) list \<Rightarrow> (Distributor \<times> (IRQ \<times> CPU) list) option" where
  "sgi_forward irq cpu = (\<lambda>(d, to_inject). do {
     (_, d) \<leftarrow> unwrap_method (set_pending d irq cpu);
     i \<leftarrow> should_inject d irq cpu;
     Some (d, if i then to_inject @ [(irq, cpu)] else to_inject) })"

definition write_sgir :: "Distributor \<Rightarrow> nat \<Rightarrow> u32 \<Rightarrow> dist_write" where
  "write_sgir d node_index val = (
     let sgi_int_id = unat (val AND 0xFF);
         cpu_target_list = shr val 16 AND 0xFF;
         target_list_filter = shr val 24 AND 0x3;
         irq = sgi_int_id
     in if target_list_filter = 0b00 then do {
          (d, to_inject) \<leftarrow> for_each (biterate cpu_target_list) (sgi_forward irq) (d, []);
          Some (Inr (inject_action to_inject), d) }
        else if target_list_filter = 0b01 then do {
          rust_assert (node_index < 8);
          let cpu_target_list = 0b11111111 XOR shl (1::u32) node_index;
          (d, to_inject) \<leftarrow> for_each (biterate cpu_target_list) (sgi_forward irq) (d, []);
          Some (Inr (inject_action to_inject), d) }
        else if target_list_filter = 0b10 then do {
          (d, to_inject) \<leftarrow> sgi_forward irq node_index (d, []);
          Some (Inr (inject_action to_inject), d) }
        else Some (Inr WriteNoAction, d))"

text \<open>
  The byte masks of the two SGI pending arms: \<^verbatim>\<open>mask = mask << ((irq - base_irq) * 8)\<close> shifts the
  mask of the round before, so the rounds see \<open>0xFF\<close>, \<open>0xFF00\<close>, \<open>0xFF000000\<close> and \<open>0\<close>.
\<close>

definition sgi_mask_step ::
  "IRQ \<Rightarrow> (u32 \<Rightarrow> IRQ \<Rightarrow> Distributor \<Rightarrow> Distributor option) \<Rightarrow> IRQ \<Rightarrow> u32 \<times> Distributor \<Rightarrow>
     (u32 \<times> Distributor) option" where
  "sgi_mask_step base_irq body irq = (\<lambda>(mask, d). do {
     let mask = shl mask ((irq - base_irq) * 8);
     d \<leftarrow> body mask irq d;
     Some (mask, d) })"

definition write_cpendsgir :: "Distributor \<Rightarrow> nat \<Rightarrow> nat \<Rightarrow> u32 \<Rightarrow> dist_write" where
  "write_cpendsgir d node_index reg_num val =
     (if val = 0 then Some (Inr WriteNoAction, d)
      else do {
        r \<leftarrow> get_sgi_reg d node_index reg_num;
        let (prev, r') = fetch_and r (NOT val);
        d \<leftarrow> set_sgi_reg d node_index reg_num r';
        let still_pending = prev AND NOT val;
        let base_irq = reg_num * 4;
        (_, d) \<leftarrow> for_each [base_irq..<base_irq + 4]
          (sgi_mask_step base_irq (\<lambda>mask irq d.
             if still_pending AND mask = 0 then map_option snd (unwrap_method (clear_pending d irq node_index))
             else Some d)) (0xFF, d);
        Some (Inr WriteNoAction, d) })"

definition write_spendsgir :: "Distributor \<Rightarrow> nat \<Rightarrow> nat \<Rightarrow> u32 \<Rightarrow> dist_write" where
  "write_spendsgir d node_index reg_num val =
     (if val = 0 then Some (Inr WriteNoAction, d)
      else do {
        r \<leftarrow> get_sgi_reg d node_index reg_num;
        let (prev, r') = fetch_or r val;
        d \<leftarrow> set_sgi_reg d node_index reg_num r';
        let base_irq = reg_num * 4;
        let newly_pending = val AND NOT prev;
        (_, d) \<leftarrow> for_each [base_irq..<base_irq + 4]
          (sgi_mask_step base_irq (\<lambda>mask irq d.
             if newly_pending AND mask \<noteq> 0 then map_option snd (unwrap_method (set_pending d irq node_index))
             else Some d)) (0xFF, d);
        sweep_inject d base_irq 4 })"

definition write_itargetsr_byte :: "Distributor \<Rightarrow> nat \<Rightarrow> nat \<Rightarrow> u8 \<Rightarrow> dist_write" where
  "write_itargetsr_byte d reg_num byte_index val =
     (if reg_num < 8 then invalid_write d
      else do {
        targets_reg \<leftarrow> vec_get (targets d) (reg_num - 8);
        let (prev, r) = set_byte targets_reg byte_index val;
        b \<leftarrow> vec_set (targets d) (reg_num - 8) r;
        let d = d\<lparr>targets := b\<rparr>;
        let new_cpus = shl (ucast val) (byte_index * 8) AND NOT prev;
        if new_cpus = 0 then Some (Inr WriteNoAction, d)
        else sweep_both d (reg_num * 4) 4 })"

section \<open>Dispatch\<close>

fun handle_write_word :: "Distributor \<Rightarrow> nat \<Rightarrow> u32 \<Rightarrow> GICDistRegWord \<Rightarrow> dist_write" where
  "handle_write_word d node val GICD_CTLR = write_ctlr d val"
| "handle_write_word d node val GICD_IIDR = invalid_write d"
| "handle_write_word d node val GICD_TYPER = invalid_write d"
| "handle_write_word d node val (GICD_IGROUPRn n) = write_igroupr d node n val"
| "handle_write_word d node val (GICD_ISENABLERn n) = write_isenabler d node n val"
| "handle_write_word d node val (GICD_ICENABLERn n) = write_icenabler d node n val"
| "handle_write_word d node val (GICD_ISPENDRn n) = write_ispendr d node n val"
| "handle_write_word d node val (GICD_ICPENDRn n) = write_icpendr d node n val"
| "handle_write_word d node val (GICD_ISACTIVERn n) = write_isactiver d node n val"
| "handle_write_word d node val (GICD_ICACTIVERn n) = write_icactiver d node n val"
| "handle_write_word d node val (GICD_IPRIORITYRn n) = write_ipriorityr d node n val"
| "handle_write_word d node val (GICD_ITARGETSRn n) = write_itargetsr d n val"
| "handle_write_word d node val (GICD_ICFGRn n) = write_icfgr d node n val"
| "handle_write_word d node val (GICD_NSACRn n) = invalid_write d"
| "handle_write_word d node val GICD_SGIR = write_sgir d node val"
| "handle_write_word d node val (GICD_CPENDSGIRn n) = write_cpendsgir d node n val"
| "handle_write_word d node val (GICD_SPENDSGIRn n) = write_spendsgir d node n val"
| "handle_write_word d node val (ICPIDRn n) = invalid_write d"
| "handle_write_word d node val (ICCIDRn n) = invalid_write d"

fun handle_write_byte :: "Distributor \<Rightarrow> u8 \<Rightarrow> GICDistRegByte \<Rightarrow> dist_write" where
  "handle_write_byte d val (GICDB_ITARGETSRn n b) = write_itargetsr_byte d n b val"
| "handle_write_byte d val _ = None"

fun handle_write :: "Distributor \<Rightarrow> nat \<Rightarrow> nat \<Rightarrow> VMFaultData \<Rightarrow> dist_write" where
  "handle_write d offset node_index (Data_Word val) = do {
     reg \<leftarrow> word_from_offset offset;
     handle_write_word d node_index val reg }"
| "handle_write d offset node_index (Data_Byte val) = do {
     reg \<leftarrow> byte_from_offset offset;
     handle_write_byte d val reg }"
| "handle_write d offset node_index _ = None"

end
