(* ===== verification/GicWriteProps.thy ===== *)
theory GicWriteProps
  imports GicWrite
begin

text \<open>
  Properties of guest writes to the distributor: every write keeps the register banks well formed,
  an error leaves the state alone, exactly which word writes panic, and the effect of the enable,
  pending and SGI registers on the interrupt lines and on what is injected.
\<close>

section \<open>Every write keeps the invariant\<close>

lemma reg_update_length: "reg_update f regs i = Some regs' \<Longrightarrow> length regs' = length regs"
  by (auto simp: reg_update_def vec_get_Some vec_set_Some split: Option.bind_splits)

lemma bank_update_length:
  "bank_update f n node b0 b = Some (b0', b') \<Longrightarrow> length b0' = length b0 \<and> length b' = length b"
  by (auto simp: bank_update_def dest: reg_update_length split: if_splits Option.bind_splits)

lemma flag_update_length:
  "flag_update f b0 b irq cpu = Some (b0', b') \<Longrightarrow> length b0' = length b0 \<and> length b' = length b"
  by (auto simp: flag_update_def vec_get_Some vec_set_Some split: if_splits Option.bind_splits)

lemma sweep_both_state: "sweep_both d b n = Some (r, d') \<Longrightarrow> d' = d"
  by (auto simp: sweep_both_def split: Option.bind_splits)

lemma sweep_inject_state: "sweep_inject d b n = Some (r, d') \<Longrightarrow> d' = d"
  by (auto simp: sweep_inject_def split: Option.bind_splits)

text \<open>\<open>keeps d d'\<close>: the step from \<open>d\<close> to \<open>d'\<close> keeps the invariant and the number of nodes.\<close>

definition keeps :: "Distributor \<Rightarrow> Distributor \<Rightarrow> bool" where
  "keeps d d' \<longleftrightarrow> (wf_dist d \<longrightarrow> wf_dist d') \<and> num_nodes d' = num_nodes d"

lemma keeps_refl [simp]: "keeps d d"
  by (simp add: keeps_def)

lemma keeps_trans: "keeps d d' \<Longrightarrow> keeps d' d'' \<Longrightarrow> keeps d d''"
  by (simp add: keeps_def)

text \<open>A step that replaces a bank by one of the same size keeps the invariant.\<close>

lemma keeps_update:
  "keeps d (d\<lparr>control := r\<rparr>)"
  "length b0 = length (irq_group0 d) \<Longrightarrow> length b = length (irq_group d) \<Longrightarrow>
     keeps d (d\<lparr>irq_group0 := b0, irq_group := b\<rparr>)"
  "length b0 = length (enable0 d) \<Longrightarrow> length b = length (enable d) \<Longrightarrow>
     keeps d (d\<lparr>enable0 := b0, enable := b\<rparr>)"
  "length b0 = length (enable0 d) \<Longrightarrow> keeps d (d\<lparr>enable0 := b0\<rparr>)"
  "length b = length (enable d) \<Longrightarrow> keeps d (d\<lparr>enable := b\<rparr>)"
  "length b0 = length (pending0 d) \<Longrightarrow> length b = length (pending d) \<Longrightarrow>
     keeps d (d\<lparr>pending0 := b0, pending := b\<rparr>)"
  "length b0 = length (active0 d) \<Longrightarrow> length b = length (active d) \<Longrightarrow>
     keeps d (d\<lparr>active0 := b0, active := b\<rparr>)"
  "length b = length (priority d) \<Longrightarrow> keeps d (d\<lparr>priority := b\<rparr>)"
  "length b = length (targets d) \<Longrightarrow> keeps d (d\<lparr>targets := b\<rparr>)"
  "length b = length (config1 d) \<Longrightarrow> keeps d (d\<lparr>config1 := b\<rparr>)"
  "length b = length (config d) \<Longrightarrow> keeps d (d\<lparr>config := b\<rparr>)"
  by (simp_all add: keeps_def wf_dist_def)

lemma keeps_priority0:
  assumes "i < length (priority0 d)" and "length b = length (priority0 d ! i)"
  shows "keeps d (d\<lparr>priority0 := (priority0 d)[i := b]\<rparr>)"
proof -
  have "list_all (\<lambda>b. length b = 8) ((priority0 d)[i := b])" if "wf_dist d"
    using that assms by (intro list_all_update) (auto simp: wf_dist_def list_all_length)
  then show ?thesis by (auto simp: keeps_def wf_dist_def)
qed

lemma keeps_sgi_pending:
  assumes "i < length (sgi_pending d)" and "length b = length (sgi_pending d ! i)"
  shows "keeps d (d\<lparr>sgi_pending := (sgi_pending d)[i := b]\<rparr>)"
proof -
  have "list_all (\<lambda>b. length b = 4) ((sgi_pending d)[i := b])" if "wf_dist d"
    using that assms by (intro list_all_update) (auto simp: wf_dist_def list_all_length)
  then show ?thesis by (auto simp: keeps_def wf_dist_def)
qed

lemmas keeps_intros = keeps_refl keeps_update keeps_priority0 keeps_sgi_pending

lemma set_pending_keeps: "set_pending d irq cpu = Some (r, d') \<Longrightarrow> keeps d d'"
  by (auto simp: set_pending_def intro!: keeps_intros dest: flag_update_length
      split: if_splits Option.bind_splits)

lemma clear_pending_keeps: "clear_pending d irq cpu = Some (r, d') \<Longrightarrow> keeps d d'"
  by (auto simp: clear_pending_def intro!: keeps_intros dest: flag_update_length
      split: if_splits Option.bind_splits)

lemma unwrap_method_Some: "unwrap_method m = Some (a, s) \<longleftrightarrow> m = Some (Inr a, s)"
  by (auto simp: unwrap_method_def split: option.splits sum.splits)

lemma set_sgi_reg_keeps: "set_sgi_reg d cpu k v = Some d' \<Longrightarrow> keeps d d'"
  by (auto simp: set_sgi_reg_def vec_get_Some vec_set_Some intro!: keeps_intros split: Option.bind_splits)

lemma sgi_forward_keeps: "sgi_forward irq cpu (d, xs) = Some (d', ys) \<Longrightarrow> keeps d d'"
  by (auto simp: sgi_forward_def unwrap_method_Some dest: set_pending_keeps split: Option.bind_splits)

lemma sgi_forward_all_keeps:
  assumes "for_each cpus (sgi_forward irq) (d, xs) = Some (d', ys)"
  shows "keeps d d'"
proof -
  have step: "keeps (fst s) (fst s')" if "sgi_forward irq cpu s = Some s'" for cpu s s'
    using that sgi_forward_keeps by (cases s; cases s') auto
  have "keeps d (fst (d', ys))"
    by (rule for_each_inv [OF assms])
       (simp, blast intro: keeps_trans step)
  then show ?thesis by simp
qed

lemma sgi_mask_all_keeps:
  assumes "for_each irqs (sgi_mask_step base body) (m, d) = Some (m', d')"
    and body: "\<And>m irq d d'. body m irq d = Some d' \<Longrightarrow> keeps d d'"
  shows "keeps d d'"
proof -
  have step: "keeps (snd s) (snd s')" if "sgi_mask_step base body irq s = Some s'" for irq s s'
    using that body by (cases s) (auto simp: sgi_mask_step_def Let_def split: Option.bind_splits)
  have "keeps d (snd (m', d'))"
    by (rule for_each_inv [OF assms(1)]) (simp, blast intro: keeps_trans step)
  then show ?thesis by simp
qed

lemma write_sgir_keeps: "write_sgir d node val = Some (r, d') \<Longrightarrow> keeps d d'"
  by (auto simp: write_sgir_def Let_def dest: sgi_forward_keeps sgi_forward_all_keeps
      split: if_splits Option.bind_splits)

lemma write_cpendsgir_keeps:
  assumes "write_cpendsgir d node n val = Some (r, d')"
  shows "keeps d d'"
proof -
  have step: "keeps d d'"
    if "(if b then map_option snd (unwrap_method (clear_pending d irq node)) else Some d) = Some d'"
    for b irq d d'
    using that by (auto simp: unwrap_method_Some dest: clear_pending_keeps split: if_splits)
  show ?thesis
    using assms
    by (auto simp: write_cpendsgir_def Let_def split: if_splits Option.bind_splits
        dest!: set_sgi_reg_keeps sgi_mask_all_keeps [OF _ step] intro: keeps_trans)
qed

lemma write_spendsgir_keeps:
  assumes "write_spendsgir d node n val = Some (r, d')"
  shows "keeps d d'"
proof -
  have step: "keeps d d'"
    if "(if b then map_option snd (unwrap_method (set_pending d irq node)) else Some d) = Some d'"
    for b irq d d'
    using that by (auto simp: unwrap_method_Some dest: set_pending_keeps split: if_splits)
  show ?thesis
    using assms
    by (auto simp: write_spendsgir_def Let_def split: if_splits Option.bind_splits
        dest!: set_sgi_reg_keeps sgi_mask_all_keeps [OF _ step] sweep_inject_state intro: keeps_trans)
qed

lemmas write_plain_defs =
  write_ctlr_def write_igroupr_def write_isenabler_def write_icenabler_def write_ispendr_def
  write_icpendr_def write_isactiver_def write_icactiver_def write_ipriorityr_def write_itargetsr_def
  write_icfgr_def write_itargetsr_byte_def invalid_write_def

lemma handle_write_word_keeps: "handle_write_word d node val reg = Some (r, d') \<Longrightarrow> keeps d d'"
  by (cases reg)
     (auto simp: write_plain_defs Let_def vec_get_Some vec_set_Some
       dest!: sweep_both_state sweep_inject_state bank_update_length reg_update_length
       dest: write_sgir_keeps write_cpendsgir_keeps write_spendsgir_keeps intro!: keeps_intros
       split: if_splits Option.bind_splits)

lemma handle_write_byte_keeps: "handle_write_byte d val reg = Some (r, d') \<Longrightarrow> keeps d d'"
  by (cases reg)
     (auto simp: write_plain_defs set_byte_def Let_def vec_get_Some vec_set_Some
       dest!: sweep_both_state intro!: keeps_intros split: if_splits Option.bind_splits)



section \<open>Rejected writes\<close>

text \<open>The word writes the distributor answers with an error.\<close>

fun write_rejected :: "u32 \<Rightarrow> GICDistRegWord \<Rightarrow> bool" where
  "write_rejected val GICD_CTLR \<longleftrightarrow> val \<noteq> 0 \<and> val \<noteq> 1"
| "write_rejected val GICD_TYPER \<longleftrightarrow> True"
| "write_rejected val GICD_IIDR \<longleftrightarrow> True"
| "write_rejected val (GICD_ICPENDRn n) \<longleftrightarrow> n = 0 \<and> val AND 0xFFFF \<noteq> 0"
| "write_rejected val (GICD_ITARGETSRn n) \<longleftrightarrow> n < 8"
| "write_rejected val (GICD_NSACRn n) \<longleftrightarrow> True"
| "write_rejected val (ICPIDRn n) \<longleftrightarrow> True"
| "write_rejected val (ICCIDRn n) \<longleftrightarrow> True"
| "write_rejected val _ \<longleftrightarrow> False"

lemma sweep_not_error [simp]:
  "sweep_both d b n \<noteq> Some (Inl e, d')" "sweep_inject d b n \<noteq> Some (Inl e, d')"
  by (auto simp: sweep_both_def sweep_inject_def split: Option.bind_splits)

lemma write_sgi_not_error:
  "write_sgir d node val \<noteq> Some (Inl e, d')" "write_cpendsgir d node n val \<noteq> Some (Inl e, d')"
  "write_spendsgir d node n val \<noteq> Some (Inl e, d')"
  by (auto simp: write_sgir_def write_cpendsgir_def write_spendsgir_def Let_def
      split: if_splits Option.bind_splits)

lemma write_rejected_state:
  "write_rejected val reg \<Longrightarrow> handle_write_word d node val reg = invalid_write d"
  by (cases reg) (auto simp: write_ctlr_def write_icpendr_def write_itargetsr_def)

lemma write_accepted:
  "\<not> write_rejected val reg \<Longrightarrow> handle_write_word d node val reg \<noteq> Some (Inl e, d')"
  by (cases reg)
     (auto simp: write_plain_defs Let_def write_sgi_not_error split: if_splits Option.bind_splits)

text \<open>
  A word write returns an error exactly when it addresses a read-only or unimplemented
  register, gives \<^verbatim>\<open>GICD_CTLR\<close> a value other than 0 or 1, or tries to clear the pending bit of an SGI
  through \<^verbatim>\<open>GICD_ICPENDR0\<close>; the error is then \<^verbatim>\<open>InvalidRegisterWrite\<close> and the distributor is unchanged.
\<close>

lemma handle_write_error_iff:
  assumes "word_from_offset offset = Some reg"
  shows "handle_write d offset node (Data_Word val) = Some (Inl e, d') \<longleftrightarrow>
    write_rejected val reg \<and> e = IRQError_new InvalidRegisterWrite \<and> d' = d"
  using assms write_rejected_state [of val reg d node] write_accepted [of val reg d node e d']
  by (cases "write_rejected val reg") (auto simp: invalid_write_def IRQError_new_def)

lemma handle_write_error_iff_witness:
  "handle_write (Distributor_zeroed 1) 0x800 0 (Data_Word 5) =
     Some (Inl (IRQError_new InvalidRegisterWrite), Distributor_zeroed 1)"
  using handle_write_error_iff [of "0x800" "GICD_ITARGETSRn 0" "Distributor_zeroed 1" 0 5
      "IRQError_new InvalidRegisterWrite" "Distributor_zeroed 1"]
  by (simp add: word_from_offset_def in_range_def calc_reg_num_Some)

section \<open>Which word writes panic\<close>

text \<open>
  Lines 1020 to 1023 have flags but no target register. \<open>reserved_off\<close>: none of them is enabled.
\<close>

definition no_reserved :: "u32 \<Rightarrow> bool" where
  "no_reserved r \<longleftrightarrow> shr r 28 = 0"

definition reserved_off :: "Distributor \<Rightarrow> bool" where
  "reserved_off d \<longleftrightarrow> no_reserved (enable d ! 30)"

lemma no_reserved_bits: "no_reserved r \<longleftrightarrow> (\<forall>i. 28 \<le> i \<longrightarrow> \<not> bit r i)"
proof -
  have "no_reserved r \<longleftrightarrow> (\<forall>k. \<not> bit r (28 + k))"
    using bit_word_lt [of r] by (fastforce simp: no_reserved_def shr_in bit_eq_iff bit_drop_bit_eq)
  also have "\<dots> \<longleftrightarrow> (\<forall>i. 28 \<le> i \<longrightarrow> \<not> bit r i)"
    by (auto simp: le_iff_add)
  finally show ?thesis .
qed

lemma no_reserved_or: "no_reserved (a OR b) \<longleftrightarrow> no_reserved a \<and> no_reserved b"
  by (auto simp: no_reserved_bits bit_or_iff)

lemma reserved_disabled:
  assumes "wf_dist d" "reserved_off d" "1020 \<le> irq" "irq < 1024"
  shows "is_enabled d irq cpu = Some False"
proof -
  have "irq = 1020 \<or> irq = 1021 \<or> irq = 1022 \<or> irq = 1023" using assms(3,4) by arith
  then have "irq div 32 - 1 = 30" "28 \<le> irq mod 32" by auto
  with assms show ?thesis
    by (simp add: is_enabled_eq flag_bit_def reserved_off_def no_reserved_bits)
qed

lemma should_inject_total:
  assumes "wf_dist d" "reserved_off d \<or> \<not> is_gic_enabled d" "irq < 1024"
  obtains b where "should_inject d irq cpu = Some b"
proof (cases "irq < 1020")
  case True
  with assms(1) that show ?thesis by (simp add: should_inject_eq)
next
  case False
  then have "should_inject d irq cpu = Some False"
    using assms reserved_disabled [of d irq cpu] should_inject_line_disabled by force
  then show ?thesis by (rule that)
qed

lemma sweep_irqs_total:
  assumes "\<And>i c. i \<in> set irqs \<Longrightarrow> c \<in> set nodes \<Longrightarrow> p i c \<noteq> None"
  shows "sweep_irqs p irqs nodes \<noteq> None"
proof -
  have "p i c = Some (p i c = Some True)" if "i \<in> set irqs" "c \<in> set nodes" for i c
    using assms [OF that] by auto
  then show ?thesis by (simp add: sweep_irqs_eq [where q = "\<lambda>i c. p i c = Some True"])
qed

lemma sweeps_total:
  assumes "wf_dist d" "reserved_off d \<or> \<not> is_gic_enabled d" "base + k \<le> 1024"
  shows "sweep_irqs_to_inject d base k \<noteq> None" "sweep_irqs_to_ack d base k \<noteq> None"
proof -
  have i: "should_inject d irq c \<noteq> None" if "irq < base + k" for irq c
    using should_inject_total [OF assms(1,2), of irq c] that assms(3) by auto
  then show "sweep_irqs_to_inject d base k \<noteq> None"
    unfolding sweep_irqs_to_inject_def by (intro sweep_irqs_total) simp
  have "should_ack d irq c \<noteq> None" if "irq < base + k" for irq c
    using i [OF that, of c] that assms(1,3) by (auto simp: should_ack_def is_enabled_eq and_also_def)
  then show "sweep_irqs_to_ack d base k \<noteq> None"
    unfolding sweep_irqs_to_ack_def by (intro sweep_irqs_total) simp
qed

lemma sweep_irqs_None: "i \<in> set irqs \<Longrightarrow> sweep_nodes p i nodes = None \<Longrightarrow> sweep_irqs p irqs nodes = None"
  by (induction irqs) (auto split: Option.bind_splits)

text \<open>Enabling a reserved line while the GIC is on makes the injection sweep index past the targets.\<close>

lemma reserved_sweep_panics:
  assumes "wf_dist d" "is_gic_enabled d" "0 < num_nodes d" "\<not> reserved_off d"
  shows "sweep_irqs_to_inject d 992 32 = None"
proof -
  obtain i where i: "28 \<le> i" "bit (enable d ! 30) i"
    using assms(4) by (auto simp: reserved_off_def no_reserved_bits)
  then have "i = 28 \<or> i = 29 \<or> i = 30 \<or> i = 31" using bit_word_lt [of "enable d ! 30" i] by auto
  then have irq: "(992 + i) div 32 - 1 = 30" "(992 + i) mod 32 = i" "(992 + i) div 4 - 8 = 247" "i < 32"
    by auto
  then have "is_enabled d (992 + i) 0 = Some True"
    using assms i by (simp add: is_enabled_eq flag_bit_def)
  moreover have "is_target d (992 + i) 0 = None"
    using assms irq by (simp add: is_target_def wf_dist_def vec_get_def)
  ultimately have "should_inject d (992 + i) 0 = None"
    using assms(2) by (simp add: should_inject_def)
  then have "sweep_nodes (should_inject d) (992 + i) [0..<num_nodes d] = None"
    using assms(3) by (simp add: upt_conv_Cons)
  with irq(4) show ?thesis
    unfolding sweep_irqs_to_inject_def by (intro sweep_irqs_None [of "992 + i"]) (simp_all only: set_upt atLeastLessThan_iff, simp)
qed

text \<open>The nodes a write of \<^verbatim>\<open>GICD_SGIR\<close> addresses.\<close>

definition sgir_targets :: "nat \<Rightarrow> u32 \<Rightarrow> CPU list" where
  "sgir_targets node val = (
     let f = shr val 24 AND 0x3 in
     if f = 0 then biterate (shr val 16 AND 0xFF)
     else if f = 1 then biterate (0b11111111 XOR shl (1::u32) node)
     else if f = 2 then [node] else [])"

fun write_panics :: "Distributor \<Rightarrow> nat \<Rightarrow> u32 \<Rightarrow> GICDistRegWord \<Rightarrow> bool" where
  "write_panics d node val (GICD_ISENABLERn n) \<longleftrightarrow> n = 31 \<and> is_gic_enabled d \<and> \<not> no_reserved val"
| "write_panics d node val (GICD_ICENABLERn n) \<longleftrightarrow> n = 31 \<and> val \<noteq> 0"
| "write_panics d node val GICD_SGIR \<longleftrightarrow> (\<exists>c\<in>set (sgir_targets node val). num_nodes d \<le> c)"
| "write_panics d node val _ \<longleftrightarrow> False"

lemma reg_update_None: "reg_update f regs i = None \<longleftrightarrow> length regs \<le> i"
  by (auto simp: reg_update_def vec_get_def vec_set_def)

lemma bank_update_in:
  "length b0 = m \<Longrightarrow> length b = 31 \<Longrightarrow> node < m \<Longrightarrow> n < 32 \<Longrightarrow>
     bank_update f n node b0 b =
       Some (if n = 0 then (b0[node := f (b0 ! node)], b) else (b0, b[n - 1 := f (b ! (n - 1))]))"
  by (auto simp: bank_update_def reg_update_def)

lemma sweep_both_None:
  "sweep_both d b n = None \<longleftrightarrow> sweep_irqs_to_inject d b n = None \<or> sweep_irqs_to_ack d b n = None"
  by (auto simp: sweep_both_def split: Option.bind_splits)

lemma sweep_inject_None: "sweep_inject d b n = None \<longleftrightarrow> sweep_irqs_to_inject d b n = None"
  by (auto simp: sweep_inject_def split: Option.bind_splits)

section \<open>The SGI register\<close>

text \<open>A line that is due as soon as it is pending.\<close>

definition due_if_pending :: "Distributor \<Rightarrow> IRQ \<Rightarrow> CPU \<Rightarrow> bool" where
  "due_if_pending d irq cpu \<longleftrightarrow> is_gic_enabled d \<and> is_enabled d irq cpu = Some True
     \<and> is_target d irq cpu = Some True \<and> is_active d irq cpu = Some False"

lemma set_pending_due:
  assumes "wf_dist d" "irq < 1020" "cpu < num_nodes d"
  obtains d' where "set_pending d irq cpu = Some (Inr (), d')" "wf_dist d'" "num_nodes d' = num_nodes d"
    "should_inject d' irq cpu = Some (due_if_pending d irq cpu)"
    "due_if_pending d' = due_if_pending d" "is_active d' = is_active d"
    "\<And>j c. j < 1024 \<Longrightarrow> c < num_nodes d \<Longrightarrow>
       is_pending d' j c = (if same_line irq cpu j c then Some True else is_pending d j c)"
proof -
  have irq: "irq < 1024" using assms(2) by simp
  obtain d' where m: "set_pending d irq cpu = Some (Inr (), d')"
    using pend.mark_in [OF assms(1) irq assms(3)] by auto
  note eff = pend.mark_result [OF assms(1) irq m]
  note frame = wf_dist_frame_pending [OF _ set_pending_frame [OF m]]
  have "is_pending d' irq cpu = Some True"
    using eff irq by (simp add: same_line_def)
  then have "should_inject d' irq cpu = Some (due_if_pending d irq cpu)"
    using eff frame assms by (auto simp: should_inject_eq due_if_pending_def)
  moreover have "due_if_pending d' = due_if_pending d"
    using eff frame by (simp add: fun_eq_iff due_if_pending_def)
  ultimately show ?thesis
    using m eff frame by (intro that [of d']) auto
qed

lemma sgi_forward_effect:
  assumes "wf_dist d" "irq < 1020" "cpu < num_nodes d"
  obtains d' where "sgi_forward irq cpu (d, xs) =
      Some (d', xs @ (if due_if_pending d irq cpu then [(irq, cpu)] else []))"
    "wf_dist d'" "num_nodes d' = num_nodes d" "due_if_pending d' = due_if_pending d"
    "\<And>j c. j < 1024 \<Longrightarrow> c < num_nodes d \<Longrightarrow>
       is_pending d' j c = (if same_line irq cpu j c then Some True else is_pending d j c)"
    "is_active d' = is_active d"
proof (rule set_pending_due [OF assms], goal_cases)
  case (1 d')
  show ?thesis by (rule that [of d']) (use 1 in \<open>simp_all add: sgi_forward_def\<close>)
qed

lemma sgi_forward_all_effect:
  assumes "wf_dist d" "irq < 1020" "\<forall>c\<in>set cpus. c < num_nodes d"
  shows "\<exists>d'. for_each cpus (sgi_forward irq) (d, xs) =
      Some (d', xs @ map (Pair irq) (filter (due_if_pending d irq) cpus))
    \<and> wf_dist d' \<and> num_nodes d' = num_nodes d \<and> is_active d' = is_active d
    \<and> (\<forall>j<1024. \<forall>c<num_nodes d. is_pending d' j c =
         (if \<exists>cpu\<in>set cpus. same_line irq cpu j c then Some True else is_pending d j c))"
  using assms
proof (induction cpus arbitrary: d xs)
  case Nil
  then show ?case by simp
next
  case (Cons cpu cpus)
  obtain d1 where d1: "sgi_forward irq cpu (d, xs) =
      Some (d1, xs @ (if due_if_pending d irq cpu then [(irq, cpu)] else []))"
    "wf_dist d1" "num_nodes d1 = num_nodes d" "due_if_pending d1 = due_if_pending d"
    "\<And>j c. j < 1024 \<Longrightarrow> c < num_nodes d \<Longrightarrow>
       is_pending d1 j c = (if same_line irq cpu j c then Some True else is_pending d j c)"
    "is_active d1 = is_active d"
    using sgi_forward_effect [of d irq cpu] Cons.prems by (metis list.set_intros(1))
  obtain d' where d': "for_each cpus (sgi_forward irq)
        (d1, xs @ (if due_if_pending d irq cpu then [(irq, cpu)] else [])) =
      Some (d', (xs @ (if due_if_pending d irq cpu then [(irq, cpu)] else []))
                 @ map (Pair irq) (filter (due_if_pending d irq) cpus))"
    "wf_dist d'" "num_nodes d' = num_nodes d" "is_active d' = is_active d"
    "\<forall>j<1024. \<forall>c<num_nodes d. is_pending d' j c =
       (if \<exists>cpu\<in>set cpus. same_line irq cpu j c then Some True else is_pending d1 j c)"
    using Cons.IH [OF d1(2), of "xs @ (if due_if_pending d irq cpu then [(irq, cpu)] else [])"]
      Cons.prems d1(3,4,6) by auto
  show ?case
    using d1(1,5) d' by (intro exI [of _ d']) simp
qed

lemma write_sgir_eq:
  "node < 8 \<Longrightarrow> write_sgir d node val = do {
     (d, to_inject) \<leftarrow> for_each (sgir_targets node val) (sgi_forward (unat (val AND 0xFF))) (d, []);
     Some (Inr (inject_action to_inject), d) }"
  by (auto simp: write_sgir_def sgir_targets_def Let_def inject_action_def rust_assert_def
      split: option.splits)

lemma sgi_id_range: "unat (val AND 0xFF :: u32) < 256"
proof -
  have "val AND 0xFF \<le> (0xFF :: u32)" by (rule word_and_le1)
  then show ?thesis by (simp add: word_le_nat_alt)
qed

lemma for_each_None:
  assumes "x \<in> set xs" and "P s" and "\<And>s. P s \<Longrightarrow> f x s = None"
    and "\<And>y s s'. y \<in> set xs \<Longrightarrow> P s \<Longrightarrow> f y s = Some s' \<Longrightarrow> P s'"
  shows "for_each xs f s = None"
  using assms
proof (induction xs arbitrary: s)
  case Nil
  then show ?case by simp
next
  case (Cons y ys)
  show ?case
  proof (cases "f y s")
    case None
    then show ?thesis by simp
  next
    case (Some t)
    then have "y \<noteq> x" using Cons.prems(2,3) by auto
    then have x: "x \<in> set ys" using Cons.prems(1) by simp
    have "P t" using Cons.prems(2,4) Some by auto
    then have "for_each ys f t = None"
      by (rule Cons.IH [OF x _ Cons.prems(3)]) (use Cons.prems(4) in auto)
    with Some show ?thesis by simp
  qed
qed

lemma write_sgir_None:
  assumes "wf_dist d" "node < num_nodes d" "num_nodes d \<le> 8"
  shows "write_sgir d node val = None \<longleftrightarrow> (\<exists>c\<in>set (sgir_targets node val). num_nodes d \<le> c)"
proof -
  let ?irq = "unat (val AND 0xFF)"
  have code: "write_sgir d node val = do {
     (d, to_inject) \<leftarrow> for_each (sgir_targets node val) (sgi_forward ?irq) (d, []);
     Some (Inr (inject_action to_inject), d) }"
    using assms by (simp add: write_sgir_eq)
  show ?thesis
  proof (cases "\<exists>c\<in>set (sgir_targets node val). num_nodes d \<le> c")
    case True
    then obtain c where c: "c \<in> set (sgir_targets node val)" "num_nodes d \<le> c" by auto
    have "for_each (sgir_targets node val) (sgi_forward ?irq) (d, []) = None"
    proof (rule for_each_None [OF c(1), where P = "\<lambda>s. num_nodes (fst s) = num_nodes d"])
      fix s :: "Distributor \<times> (IRQ \<times> CPU) list"
      assume "num_nodes (fst s) = num_nodes d"
      with c(2) show "sgi_forward ?irq c s = None"
        by (cases s) (simp add: sgi_forward_def pend.mark_out)
    next
      fix y s s'
      assume "num_nodes (fst s) = num_nodes d" "sgi_forward ?irq y s = Some s'"
      then show "num_nodes (fst s') = num_nodes d"
        by (cases s; cases s') (auto dest: sgi_forward_keeps simp: keeps_def)
    qed simp
    with code True show ?thesis by simp
  next
    case False
    then have "\<forall>c\<in>set (sgir_targets node val). c < num_nodes d" by (auto simp: not_le)
    from sgi_forward_all_effect [OF assms(1) _ this, of ?irq "[]"] sgi_id_range [of val] False code
    show ?thesis by auto
  qed
qed

text \<open>
  C33. A write to \<^verbatim>\<open>GICD_SGIR\<close> whose target nodes all exist marks the interrupt pending on exactly
  those nodes and asks for the injection, in node order, of those on which it is enabled, targeted
  and not active while the GIC is on. The identifier is the low byte of the value, so the write also
  reaches PPIs and SPIs below 256, which are marked the same way.
\<close>

theorem sgir_effect:
  assumes d: "wf_dist d" and node: "node < num_nodes d" "num_nodes d \<le> 8"
    and cpus: "\<forall>c\<in>set (sgir_targets node val). c < num_nodes d"
  shows "\<exists>d'. handle_write d 0xF00 node (Data_Word val) =
      Some (Inr (inject_action (map (Pair (unat (val AND 0xFF)))
        (filter (due_if_pending d (unat (val AND 0xFF))) (sgir_targets node val)))), d')
    \<and> wf_dist d' \<and> is_active d' = is_active d
    \<and> (\<forall>j<1024. \<forall>c<num_nodes d. is_pending d' j c =
         (if \<exists>cpu\<in>set (sgir_targets node val). same_line (unat (val AND 0xFF)) cpu j c
          then Some True else is_pending d j c))"
  using sgi_forward_all_effect [OF d _ cpus, of "unat (val AND 0xFF)" "[]"] sgi_id_range [of val] node
  by (auto simp: word_from_offset_def in_range_def write_sgir_eq)

theorem sgir_effect_witness:
  "handle_write (Distributor_zeroed 2) 0xF00 0 (Data_Word 0x02000005) \<noteq> None"
proof -
  have wf: "wf_dist (Distributor_zeroed 2)"
    by (simp add: wf_dist_def Distributor_zeroed_def list_all_length)
  have n: "num_nodes (Distributor_zeroed 2) = 2" by (simp add: Distributor_zeroed_def)
  have "shr (0x02000005 :: u32) 24 AND 0x3 = 2"
    by (simp add: shr_def)
  then have "sgir_targets 0 0x02000005 = [0]" by (simp add: sgir_targets_def)
  with sgir_effect [OF wf, of 0 "0x02000005"] n show ?thesis by auto
qed

section \<open>Panics of the other registers\<close>

lemma write_isenabler_None:
  assumes "wf_dist d" "reserved_off d" "node < num_nodes d" "n < 32"
  shows "write_isenabler d node n val = None \<longleftrightarrow> n = 31 \<and> is_gic_enabled d \<and> \<not> no_reserved val"
proof (cases "val = 0")
  case True
  then show ?thesis by (simp add: write_isenabler_def no_reserved_def shr_def)
next
  case False
  obtain b0 b where u:
    "bank_update (\<lambda>r. snd (fetch_or r val)) n node (enable0 d) (enable d) = Some (b0, b)"
    using assms bank_update_in [of "enable0 d" "num_nodes d" "enable d" node n "\<lambda>r. snd (fetch_or r val)"]
    by (auto simp: wf_dist_def split: if_splits)
  define d' where "d' = d\<lparr>enable0 := b0, enable := b\<rparr>"
  have wf: "wf_dist d'" and n: "num_nodes d' = num_nodes d"
    using keeps_update(3) [of b0 d b] bank_update_length [OF u] assms(1) by (simp_all add: d'_def keeps_def)
  have "b ! 30 = (if n = 31 then enable d ! 30 OR val else enable d ! 30)"
    using u assms bank_update_in [of "enable0 d" "num_nodes d" "enable d" node n "\<lambda>r. snd (fetch_or r val)"]
    by (auto simp: wf_dist_def nth_list_update split: if_splits)
  then have res: "reserved_off d' \<longleftrightarrow> n = 31 \<longrightarrow> no_reserved val"
    using assms(2) by (simp add: d'_def reserved_off_def no_reserved_or)
  have gic: "is_gic_enabled d' = is_gic_enabled d" by (simp add: d'_def is_gic_enabled_def)
  have "write_isenabler d node n val = sweep_both d' (n * 32) 32"
    using False u by (simp add: write_isenabler_def d'_def)
  moreover have "sweep_both d' (n * 32) 32 = None \<longleftrightarrow> n = 31 \<and> is_gic_enabled d \<and> \<not> no_reserved val"
  proof (cases "n = 31 \<and> is_gic_enabled d \<and> \<not> no_reserved val")
    case True
    then show ?thesis
      using reserved_sweep_panics [OF wf] gic res n assms(3) by (simp add: sweep_both_None)
  next
    case False
    have "reserved_off d' \<or> \<not> is_gic_enabled d'" using False gic res by blast
    moreover have "n * 32 + 32 \<le> 1024" using assms(4) by simp
    ultimately have "sweep_both d' (n * 32) 32 \<noteq> None"
      using sweeps_total [OF wf, of "n * 32" 32] by (simp add: sweep_both_None)
    with False show ?thesis by auto
  qed
  ultimately show ?thesis by simp
qed

text \<open>A step that leaves \<open>enable\<close> alone keeps the reserved lines off, so its sweeps are total.\<close>

lemma sweeps_after:
  assumes "keeps d d'" "enable d' = enable d" "wf_dist d" "reserved_off d" "base + k \<le> 1024"
  shows "sweep_both d' base k \<noteq> None" "sweep_inject d' base k \<noteq> None"
  using assms sweeps_total [of d' base k]
  by (auto simp: keeps_def reserved_off_def sweep_both_None sweep_inject_None)

lemma write_ctlr_total: "wf_dist d \<Longrightarrow> reserved_off d \<Longrightarrow> write_ctlr d val \<noteq> None"
  using sweeps_after(1) [of d "d\<lparr>control := 1\<rparr>" 0 1020] keeps_update(1) [of d 1]
  by (auto simp: write_ctlr_def invalid_write_def Let_def)

lemma write_ispendr_total:
  assumes "wf_dist d" "reserved_off d" "node < num_nodes d" "n < 32"
  shows "write_ispendr d node n val \<noteq> None"
proof -
  obtain b0 b where u:
    "bank_update (\<lambda>r. snd (fetch_or r val)) n node (pending0 d) (pending d) = Some (b0, b)"
    using assms bank_update_in [of "pending0 d" "num_nodes d" "pending d" node n "\<lambda>r. snd (fetch_or r val)"]
    by (auto simp: wf_dist_def split: if_splits)
  have "n * 32 + 32 \<le> 1024" using assms(4) by simp
  then have "sweep_inject (d\<lparr>pending0 := b0, pending := b\<rparr>) (n * 32) 32 \<noteq> None"
    using bank_update_length [OF u] assms(1,2) by (intro sweeps_after(2) [of d]) (auto intro: keeps_update)
  then show ?thesis using u by (simp add: write_ispendr_def)
qed

lemma write_itargetsr_total:
  assumes "wf_dist d" "reserved_off d" "n < 255"
  shows "write_itargetsr d n val \<noteq> None"
proof -
  have "n * 4 + 4 \<le> 1024" using assms(3) by simp
  then have "sweep_both (d\<lparr>targets := (targets d)[n - 8 := val]\<rparr>) (n * 4) 4 \<noteq> None"
    using assms(1,2) by (intro sweeps_after(1) [of d]) (auto intro: keeps_update)
  then show ?thesis
    using assms by (auto simp: write_itargetsr_def wf_dist_def vec_get_def vec_set_def invalid_write_def Let_def)
qed

lemma sgi_mask_all_total:
  assumes "wf_dist d" "node < num_nodes d" "base + 4 \<le> 1024"
    and body: "\<And>m irq d'. irq < 1024 \<Longrightarrow> wf_dist d' \<Longrightarrow> node < num_nodes d' \<Longrightarrow>
      \<exists>d''. body m irq d' = Some d'' \<and> keeps d' d'' \<and> enable d'' = enable d'"
  shows "\<exists>m' d'. for_each [base..<base + 4] (sgi_mask_step base body) (m, d) = Some (m', d')
    \<and> keeps d d' \<and> enable d' = enable d"
proof -
  let ?P = "\<lambda>s. keeps d (snd s) \<and> enable (snd s) = enable d"
  have "\<exists>s'. for_each [base..<base + 4] (sgi_mask_step base body) (m, d) = Some s' \<and> ?P s'"
  proof (rule for_each_total)
    fix irq and s :: "u32 \<times> Distributor"
    assume irq: "irq \<in> set [base..<base + 4]" and P: "?P s"
    obtain m0 d0 where s: "s = (m0, d0)" by (cases s)
    have "irq < 1024" using irq assms(3) by (simp only: set_upt atLeastLessThan_iff) linarith
    moreover have "wf_dist d0" "node < num_nodes d0" using P s assms(1,2) by (simp_all add: keeps_def)
    ultimately obtain d'' where "body (shl m0 ((irq - base) * 8)) irq d0 = Some d''"
      "keeps d0 d''" "enable d'' = enable d0" using body by blast
    then show "\<exists>s'. sgi_mask_step base body irq s = Some s' \<and> ?P s'"
      using P s by (auto simp: sgi_mask_step_def intro: keeps_trans)
  qed simp
  then show ?thesis by auto
qed

lemma unwrap_pending_total:
  assumes "wf_dist d" "irq < 1024" "node < num_nodes d"
  shows "\<exists>d'. map_option snd (unwrap_method (set_pending d irq node)) = Some d' \<and> keeps d d' \<and> enable d' = enable d"
    and "\<exists>d'. map_option snd (unwrap_method (clear_pending d irq node)) = Some d' \<and> keeps d d' \<and> enable d' = enable d"
proof -
  obtain d1 where d1: "set_pending d irq node = Some (Inr (), d1)"
    using pend.mark_in [OF assms] by auto
  show "\<exists>d'. map_option snd (unwrap_method (set_pending d irq node)) = Some d' \<and> keeps d d' \<and> enable d' = enable d"
    using d1 set_pending_keeps [OF d1] arg_cong [OF set_pending_frame [OF d1], of enable] by simp
  obtain d2 where d2: "clear_pending d irq node = Some (Inr (), d2)"
    using pend.unmark_in [OF assms] by auto
  show "\<exists>d'. map_option snd (unwrap_method (clear_pending d irq node)) = Some d' \<and> keeps d d' \<and> enable d' = enable d"
    using d2 clear_pending_keeps [OF d2] arg_cong [OF clear_pending_frame [OF d2], of enable] by simp
qed

lemma sgi_reg_total:
  assumes "wf_dist d" "node < num_nodes d" "n < 4"
  obtains r where "get_sgi_reg d node n = Some r" "\<forall>v. \<exists>d'. set_sgi_reg d node n v = Some d'
    \<and> keeps d d' \<and> enable d' = enable d"
proof -
  have "(n * 4) div 4 = n" by simp
  with sgi_regs [OF assms(1) _ assms(2), of "n * 4"] assms(3)
  have "get_sgi_reg d node n = Some (sgi_pending d ! node ! n)"
    "\<And>v. set_sgi_reg d node n v =
      Some (d\<lparr>sgi_pending := (sgi_pending d)[node := (sgi_pending d ! node)[n := v]]\<rparr>)"
    by simp_all
  moreover have "keeps d (d\<lparr>sgi_pending := (sgi_pending d)[node := (sgi_pending d ! node)[n := v]]\<rparr>)" for v
    using assms by (intro keeps_sgi_pending) (simp_all add: wf_dist_def)
  ultimately show ?thesis by (intro that) auto
qed

lemma write_cpendsgir_total:
  assumes "wf_dist d" "node < num_nodes d" "n < 4"
  shows "write_cpendsgir d node n val \<noteq> None"
proof -
  obtain r where r: "get_sgi_reg d node n = Some r" "\<forall>v. \<exists>d'. set_sgi_reg d node n v = Some d'
    \<and> keeps d d' \<and> enable d' = enable d" by (rule sgi_reg_total [OF assms])
  obtain d1 where d1: "set_sgi_reg d node n (r AND NOT val) = Some d1" "keeps d d1" using r(2) by blast
  let ?body = "\<lambda>mask irq d. if (r AND NOT val) AND mask = 0
    then map_option snd (unwrap_method (clear_pending d irq node)) else Some d"
  have "\<exists>m' d'. for_each [n * 4..<n * 4 + 4] (sgi_mask_step (n * 4) ?body) (0xFF, d1) = Some (m', d')
      \<and> keeps d1 d' \<and> enable d' = enable d1"
    using assms d1 unwrap_pending_total(2) by (intro sgi_mask_all_total [of _ node]) (simp_all add: keeps_def)
  with r(1) d1(1) show ?thesis by (auto simp: write_cpendsgir_def Let_def)
qed

lemma write_spendsgir_total:
  assumes "wf_dist d" "reserved_off d" "node < num_nodes d" "n < 4"
  shows "write_spendsgir d node n val \<noteq> None"
proof -
  obtain r where r: "get_sgi_reg d node n = Some r" "\<forall>v. \<exists>d'. set_sgi_reg d node n v = Some d'
    \<and> keeps d d' \<and> enable d' = enable d" by (rule sgi_reg_total [OF assms(1,3,4)])
  obtain d1 where d1: "set_sgi_reg d node n (r OR val) = Some d1" "keeps d d1" "enable d1 = enable d"
    using r(2) by blast
  let ?body = "\<lambda>mask irq d. if (val AND NOT r) AND mask \<noteq> 0
    then map_option snd (unwrap_method (set_pending d irq node)) else Some d"
  have "\<exists>m' d'. for_each [n * 4..<n * 4 + 4] (sgi_mask_step (n * 4) ?body) (0xFF, d1) = Some (m', d')
      \<and> keeps d1 d' \<and> enable d' = enable d1"
    using assms d1 unwrap_pending_total(1) by (intro sgi_mask_all_total [of _ node]) (simp_all add: keeps_def)
  then obtain m' d' where l: "for_each [n * 4..<n * 4 + 4] (sgi_mask_step (n * 4) ?body) (0xFF, d1) = Some (m', d')"
    and d': "keeps d1 d'" "enable d' = enable d1" by blast
  have "sweep_inject d' (n * 4) 4 \<noteq> None"
    using d1 d' assms by (intro sweeps_after(2) [of d]) (auto intro: keeps_trans)
  with r(1) d1(1) l show ?thesis by (auto simp: write_spendsgir_def Let_def)
qed

lemma write_bank_total:
  assumes "wf_dist d" "node < num_nodes d" "n < 32"
  shows "write_igroupr d node n val \<noteq> None" "write_icpendr d node n val \<noteq> None"
    "write_isactiver d node n val \<noteq> None" "write_icactiver d node n val \<noteq> None"
    "write_icenabler d node n val = None \<longleftrightarrow> n = 31 \<and> val \<noteq> 0"
  using assms
  by (auto simp: write_igroupr_def write_icpendr_def write_isactiver_def write_icactiver_def
      write_icenabler_def invalid_write_def bank_update_in wf_dist_def reg_update_def vec_get_def)

lemma write_store_total:
  assumes "wf_dist d" "node < num_nodes d"
  shows "n < 255 \<Longrightarrow> write_ipriorityr d node n val \<noteq> None" "n < 64 \<Longrightarrow> write_icfgr d node n val \<noteq> None"
  using assms
  by (auto simp: write_ipriorityr_def write_icfgr_def wf_dist_def list_all_length reg_update_def)

text \<open>
  C32. Which word writes of a guest make the distributor panic, when every register bank is well
  formed, no reserved line is enabled and the writing node exists among at most eight: exactly
  enabling a reserved line (1020 to 1023) while the GIC is on, writing a non-zero value to
  \<^verbatim>\<open>GICD_ICENABLER31\<close>, and an SGI whose targets include a node the machine does not have. Every other
  write to a mapped register returns.
\<close>

theorem handle_write_panics_iff:
  assumes "wf_dist d" "reserved_off d" "node < num_nodes d" "num_nodes d \<le> 8"
    and reg: "word_from_offset offset = Some reg"
  shows "handle_write d offset node (Data_Word val) = None \<longleftrightarrow> write_panics d node val reg"
proof -
  have "reg_in_range reg" using reg by (rule word_from_offset_range)
  then have "handle_write_word d node val reg = None \<longleftrightarrow> write_panics d node val reg"
    using assms write_ctlr_total [of d val]
    by (cases reg)
       (simp_all add: invalid_write_def write_bank_total write_store_total write_isenabler_None
         write_sgir_None write_ispendr_total [simplified] write_itargetsr_total [simplified]
         write_cpendsgir_total [simplified] write_spendsgir_total [simplified])
  with reg show ?thesis by simp
qed

theorem handle_write_panics_iff_witness:
  "handle_write (Distributor_zeroed 2) 0x1FC 1 (Data_Word 1) = None"
proof -
  have d: "wf_dist (Distributor_zeroed 2)" "reserved_off (Distributor_zeroed 2)"
    "num_nodes (Distributor_zeroed 2) = 2"
    by (simp_all add: wf_dist_def Distributor_zeroed_def list_all_length reserved_off_def
        no_reserved_def shr_def)
  have "word_from_offset 0x1FC = Some (GICD_ICENABLERn 31)"
    by (simp add: word_from_offset_def in_range_def calc_reg_num_Some)
  from handle_write_panics_iff [OF d(1,2) _ _ this, of 1 1] d(3) show ?thesis by simp
qed

end
