(* ===== verification/GicRead.thy ===== *)
theory GicRead
  imports GicWriteProps
begin

text \<open>
  Guest reads of the distributor (\<^verbatim>\<open>Distributor::handle_read\<close> of
  \<^verbatim>\<open>vmm/gic/src/distributor/mod.rs\<close>) and the properties that relate reads, writes and the interrupt
  lines: which reads panic or fail, that a stored register reads back, that the pending and active
  registers read as the flags of their lines, and what the enable registers do.
\<close>

section \<open>Reads\<close>

type_synonym dist_read = "(IRQError + VMFaultData \<times> ReadAction) option"

definition read_ok :: "Register32 \<Rightarrow> dist_read" where
  "read_ok r = (let val = load r in Some (Inr (Data_Word val, ReadNoAction)))"

definition invalid_read :: dist_read where
  "invalid_read = Some (Inl \<lparr>irq_error_type = InvalidRegisterRead\<rparr>)"

text \<open>The enable arms index the shared registers with \<^verbatim>\<open>reg_num\<close>, the others with \<^verbatim>\<open>reg_num - 1\<close>.\<close>

definition read_enabler :: "Distributor \<Rightarrow> nat \<Rightarrow> nat \<Rightarrow> dist_read" where
  "read_enabler d node_index reg_num = do {
     enable_reg \<leftarrow> (if reg_num = 0 then vec_get (enable0 d) node_index else vec_get (enable d) reg_num);
     read_ok enable_reg }"

definition read_pendr :: "Distributor \<Rightarrow> nat \<Rightarrow> nat \<Rightarrow> dist_read" where
  "read_pendr d node_index reg_num = do {
     pending_reg \<leftarrow> (if reg_num = 0 then vec_get (pending0 d) node_index
                    else vec_get (pending d) (reg_num - 1));
     read_ok pending_reg }"

definition read_activer :: "Distributor \<Rightarrow> nat \<Rightarrow> nat \<Rightarrow> dist_read" where
  "read_activer d node_index reg_num = do {
     active_reg \<leftarrow> (if reg_num = 0 then vec_get (active0 d) node_index
                   else vec_get (active d) (reg_num - 1));
     read_ok active_reg }"

definition read_sgi_pending :: "Distributor \<Rightarrow> nat \<Rightarrow> nat \<Rightarrow> dist_read" where
  "read_sgi_pending d node_index reg_num = do {
     sgi_pending_reg \<leftarrow> get_sgi_reg d node_index reg_num;
     read_ok sgi_pending_reg }"

fun handle_read_word :: "Distributor \<Rightarrow> nat \<Rightarrow> GICDistRegWord \<Rightarrow> dist_read" where
  "handle_read_word d node_index GICD_CTLR = read_ok (control d)"
| "handle_read_word d node_index GICD_TYPER = read_ok (ic_type d)"
| "handle_read_word d node_index GICD_IIDR = read_ok (dist_ident d)"
| "handle_read_word d node_index (GICD_IGROUPRn reg_num) = do {
     group_reg \<leftarrow> (if reg_num = 0 then vec_get (irq_group0 d) node_index
                  else vec_get (irq_group d) (reg_num - 1));
     read_ok group_reg }"
| "handle_read_word d node_index (GICD_ISENABLERn reg_num) = read_enabler d node_index reg_num"
| "handle_read_word d node_index (GICD_ICENABLERn reg_num) = read_enabler d node_index reg_num"
| "handle_read_word d node_index (GICD_ISPENDRn reg_num) = read_pendr d node_index reg_num"
| "handle_read_word d node_index (GICD_ICPENDRn reg_num) = read_pendr d node_index reg_num"
| "handle_read_word d node_index (GICD_ISACTIVERn reg_num) = read_activer d node_index reg_num"
| "handle_read_word d node_index (GICD_ICACTIVERn reg_num) = read_activer d node_index reg_num"
| "handle_read_word d node_index (GICD_IPRIORITYRn reg_num) = do {
     priority_reg \<leftarrow> (if reg_num < 8 then do { bank \<leftarrow> vec_get (priority0 d) node_index; vec_get bank reg_num }
                     else vec_get (priority d) (reg_num - 8));
     read_ok priority_reg }"
| "handle_read_word d node_index (GICD_ITARGETSRn reg_num) = do {
     targets_reg \<leftarrow> (if reg_num < 8 then do { bank \<leftarrow> vec_get (targets0 d) node_index; vec_get bank reg_num }
                    else vec_get (targets d) (reg_num - 8));
     read_ok targets_reg }"
| "handle_read_word d node_index (GICD_ICFGRn reg_num) = do {
     c \<leftarrow> (if reg_num = 0 then Some (config0 d)
          else if reg_num = 1 then vec_get (config1 d) node_index
          else vec_get (config d) (reg_num - 2));
     read_ok c }"
| "handle_read_word d node_index (GICD_NSACRn reg_num) = invalid_read"
| "handle_read_word d node_index GICD_SGIR = invalid_read"
| "handle_read_word d node_index (GICD_CPENDSGIRn reg_num) = read_sgi_pending d node_index reg_num"
| "handle_read_word d node_index (GICD_SPENDSGIRn reg_num) = read_sgi_pending d node_index reg_num"
| "handle_read_word d node_index (ICPIDRn reg_num) = do {
     periph_id_reg \<leftarrow> vec_get (periph_id d) reg_num;
     read_ok periph_id_reg }"
| "handle_read_word d node_index (ICCIDRn reg_num) = do {
     component_id_reg \<leftarrow> vec_get (component_id d) reg_num;
     read_ok component_id_reg }"

fun handle_read :: "Distributor \<Rightarrow> nat \<Rightarrow> nat \<Rightarrow> VMFaultWidth \<Rightarrow> dist_read" where
  "handle_read d offset node_index Width_Word = do {
     reg \<leftarrow> word_from_offset offset;
     handle_read_word d node_index reg }"
| "handle_read d offset node_index Width_Byte = do {
     reg \<leftarrow> byte_from_offset offset;
     None }"
| "handle_read d offset node_index _ = None"

section \<open>Reads return\<close>

lemma handle_read_word_in:
  assumes "wf_dist d" "node < num_nodes d" "reg_in_range reg"
  shows "handle_read_word d node reg = None \<longleftrightarrow> reg = GICD_ISENABLERn 31 \<or> reg = GICD_ICENABLERn 31"
  using assms
  by (cases reg)
     (auto simp: read_ok_def invalid_read_def read_enabler_def read_pendr_def read_activer_def
       read_sgi_pending_def get_sgi_reg_def wf_dist_def list_all_length vec_get_def)

text \<open>
  Which word reads panic on a well-formed distributor: exactly those of
  \<^verbatim>\<open>GICD_ISENABLER31\<close> and \<^verbatim>\<open>GICD_ICENABLER31\<close>, whose arm indexes one register past the bank.
\<close>

lemma handle_read_panics_iff:
  assumes "wf_dist d" "node < num_nodes d" "word_from_offset offset = Some reg"
  shows "handle_read d offset node Width_Word = None \<longleftrightarrow>
    reg = GICD_ISENABLERn 31 \<or> reg = GICD_ICENABLERn 31"
  using handle_read_word_in [OF assms(1,2) word_from_offset_range [OF assms(3)]] assms(3) by simp

lemma handle_read_panics_iff_witness:
  "handle_read (Distributor_zeroed 1) 0x17C 0 Width_Word = None"
  using handle_read_panics_iff [of "Distributor_zeroed 1" 0 "0x17C" "GICD_ISENABLERn 31"]
  by (simp add: word_from_offset_def in_range_def calc_reg_num_Some)

section \<open>Reading back\<close>

text \<open>The registers a guest can store a whole word to.\<close>

fun reg_stored :: "GICDistRegWord \<Rightarrow> bool" where
  "reg_stored (GICD_IGROUPRn n) \<longleftrightarrow> True"
| "reg_stored (GICD_IPRIORITYRn n) \<longleftrightarrow> True"
| "reg_stored (GICD_ITARGETSRn n) \<longleftrightarrow> 8 \<le> n"
| "reg_stored (GICD_ICFGRn n) \<longleftrightarrow> 1 \<le> n"
| "reg_stored _ \<longleftrightarrow> False"

lemma write_itargetsr_state:
  assumes "write_itargetsr d n val = Some (r, d')" "8 \<le> n"
  shows "n - 8 < length (targets d) \<and> d' = d\<lparr>targets := (targets d)[n - 8 := val]\<rparr>"
  using assms
  by (auto simp: write_itargetsr_def Let_def vec_get_Some vec_set_Some dest: sweep_both_state
      split: if_splits Option.bind_splits)

text \<open>
  A word stored to a group, priority, target or configuration register reads back as
  written, on the node that wrote it.
\<close>

lemma read_after_write:
  assumes "word_from_offset offset = Some reg" and "reg_stored reg"
    and w: "handle_write d offset node (Data_Word val) = Some (r, d')"
  shows "handle_read d' offset node Width_Word = Some (Inr (Data_Word val, ReadNoAction))"
proof -
  have "handle_write_word d node val reg = Some (r, d')" using assms(1) w by simp
  then have "handle_read_word d' node reg = Some (Inr (Data_Word val, ReadNoAction))"
    using assms(2)
    by (cases reg)
       (auto simp: write_igroupr_def write_ipriorityr_def write_icfgr_def bank_update_def
         reg_update_def vec_get_Some vec_set_Some read_ok_def dest!: write_itargetsr_state
         split: if_splits Option.bind_splits)
  with assms(1) show ?thesis by simp
qed

lemma read_after_write_witness:
  "\<exists>r d'. handle_write (Distributor_zeroed 1) 0x400 0 (Data_Word 0xa0) = Some (r, d')
     \<and> handle_read d' 0x400 0 Width_Word = Some (Inr (Data_Word 0xa0, ReadNoAction))"
proof -
  have o: "word_from_offset 0x400 = Some (GICD_IPRIORITYRn 0)"
    by (simp add: word_from_offset_def in_range_def calc_reg_num_Some)
  obtain r d' where w: "handle_write (Distributor_zeroed 1) 0x400 0 (Data_Word 0xa0) = Some (r, d')"
    using o by (simp add: write_ipriorityr_def Distributor_zeroed_def reg_update_def)
  show ?thesis using w read_after_write [OF o _ w] by auto
qed

text \<open>
  The pending and the active registers read as the flags of their lines: bit \<open>i\<close> of
  register \<open>n\<close> read by a node is the flag of line \<open>32 * n + i\<close> on that node.
\<close>

lemma read_flag_registers:
  assumes "wf_dist d" "node < num_nodes d" "n < 32" "i < 32"
  shows "\<exists>p a. handle_read d (0x200 + 4 * n) node Width_Word = Some (Inr (Data_Word p, ReadNoAction))
    \<and> handle_read d (0x300 + 4 * n) node Width_Word = Some (Inr (Data_Word a, ReadNoAction))
    \<and> is_pending d (32 * n + i) node = Some (bit p i)
    \<and> is_active d (32 * n + i) node = Some (bit a i)"
proof -
  have reg: "word_from_offset (0x200 + 4 * n) = Some (GICD_ISPENDRn n)"
    "word_from_offset (0x300 + 4 * n) = Some (GICD_ISACTIVERn n)"
    using word_from_offset_reg_offset [of "GICD_ISPENDRn n"]
      word_from_offset_reg_offset [of "GICD_ISACTIVERn n"] assms(3) by simp_all
  have irq: "32 * n + i < 1024" "(32 * n + i) div 32 = n" "(32 * n + i) mod 32 = i"
    "32 * n + i < 32 \<longleftrightarrow> n = 0" using assms(3,4) by auto
  show ?thesis
    using assms irq reg
    by (auto simp: read_pendr_def read_activer_def read_ok_def wf_dist_def
        is_pending_eq [OF assms(1)] is_active_eq [OF assms(1)] flag_bit_def)
qed

lemma read_flag_registers_witness:
  "\<exists>p a. handle_read (Distributor_zeroed 2) (0x200 + 4 * 1) 1 Width_Word = Some (Inr (Data_Word p, ReadNoAction))
    \<and> handle_read (Distributor_zeroed 2) (0x300 + 4 * 1) 1 Width_Word = Some (Inr (Data_Word a, ReadNoAction))
    \<and> is_pending (Distributor_zeroed 2) (32 * 1 + 5) 1 = Some (bit p 5)
    \<and> is_active (Distributor_zeroed 2) (32 * 1 + 5) 1 = Some (bit a 5)"
  by (rule read_flag_registers) simp_all

section \<open>The enable registers\<close>

text \<open>Setting bits of one register of a bank sets the flags of its lines.\<close>

lemma bank_or_bits:
  assumes "length b0 = m" "length b = 31" "node < m" "n < 32"
    and u: "bank_update (\<lambda>r. snd (fetch_or r val)) n node b0 b = Some (b0', b')"
    and jc: "j < 1024" "c < m"
  shows "flag_bit b0' b' j c \<longleftrightarrow>
    flag_bit b0 b j c \<or> (j div 32 = n \<and> (n = 0 \<longrightarrow> c = node) \<and> bit val (j mod 32))"
proof (cases "n = 0")
  case True
  then have "b0' = b0[node := b0 ! node OR val]" "b' = b"
    using u assms(1-4) by (simp_all add: bank_update_in)
  moreover have "j div 32 = 0 \<longleftrightarrow> j < 32" by auto
  ultimately show ?thesis
    using True assms by (cases "c = node") (auto simp: flag_bit_def bit_or_iff)
next
  case False
  then have b': "b0' = b0" "b' = b[n - 1 := b ! (n - 1) OR val]"
    using u assms(1-4) by (simp_all add: bank_update_in)
  show ?thesis
  proof (cases "j < 32")
    case True
    with False b' show ?thesis by (simp add: flag_bit_def)
  next
    case j: False
    then have "1 \<le> j div 32" "j div 32 - 1 = n - 1 \<longleftrightarrow> j div 32 = n" using False by auto
    moreover have "n - 1 < length b" using assms(2,4) by simp
    ultimately show ?thesis
      using j False b' by (cases "j div 32 = n") (auto simp: flag_bit_def bit_or_iff)
  qed
qed

text \<open>
  Writing \<^verbatim>\<open>GICD_ISENABLERn\<close> (but the last) enables exactly the lines whose bits are set,
  only on the writing node for the banked register 0, and then asks for the injection of the lines
  of the register that are due and the acknowledgement of those that are enabled but not due.
\<close>

lemma isenabler_effect:
  assumes "wf_dist d" "node < num_nodes d" "n < 31" "val \<noteq> 0"
  shows "\<exists>d' to_inject to_ack.
    handle_write d (0x100 + 4 * n) node (Data_Word val) =
      Some (Inr (inject_and_ack_action to_inject to_ack), d')
    \<and> (\<forall>j<1024. \<forall>c<num_nodes d. is_enabled d' j c =
         (if j div 32 = n \<and> (n = 0 \<longrightarrow> c = node) \<and> bit val (j mod 32) then Some True
          else is_enabled d j c))
    \<and> sweep_irqs_to_inject d' (n * 32) 32 = Some to_inject
    \<and> sweep_irqs_to_ack d' (n * 32) 32 = Some to_ack"
proof -
  have reg: "word_from_offset (0x100 + 4 * n) = Some (GICD_ISENABLERn n)"
    using word_from_offset_reg_offset [of "GICD_ISENABLERn n"] assms(3) by simp
  have len: "length (enable0 d) = num_nodes d" "length (enable d) = 31"
    using assms(1) by (simp_all add: wf_dist_def)
  obtain b0 b where u:
    "bank_update (\<lambda>r. snd (fetch_or r val)) n node (enable0 d) (enable d) = Some (b0, b)"
    using bank_update_in [OF len assms(2), of n "\<lambda>r. snd (fetch_or r val)"] assms(3)
    by (auto split: if_splits)
  define d' where "d' = d\<lparr>enable0 := b0, enable := b\<rparr>"
  have wf: "wf_dist d'"
    using keeps_update(3) [of b0 d b] bank_update_length [OF u] assms(1) by (simp add: d'_def keeps_def)
  have "n * 32 + 32 \<le> 1020" using assms(3) by simp
  then obtain ti ta where "sweep_irqs_to_inject d' (n * 32) 32 = Some ti"
    "sweep_irqs_to_ack d' (n * 32) 32 = Some ta"
    using sweep_irqs_total [of "[n * 32..<n * 32 + 32]" "[0..<num_nodes d']" "should_inject d'"]
      sweep_irqs_total [of "[n * 32..<n * 32 + 32]" "[0..<num_nodes d']" "should_ack d'"] wf
    by (auto simp: sweep_irqs_to_inject_def sweep_irqs_to_ack_def should_inject_eq should_ack_eq)
  moreover have "is_enabled d' j c =
      (if j div 32 = n \<and> (n = 0 \<longrightarrow> c = node) \<and> bit val (j mod 32) then Some True else is_enabled d j c)"
    if "j < 1024" "c < num_nodes d" for j c
  proof -
    have "is_enabled d' j c = Some (flag_bit b0 b j c)"
      using is_enabled_eq [OF wf that(1), of c] that(2) by (simp add: d'_def)
    then show ?thesis
      using bank_or_bits [OF len assms(2) _ u that] that assms(3)
      by (cases "j div 32 = n \<and> (n = 0 \<longrightarrow> c = node) \<and> bit val (j mod 32)")
         (auto simp: is_enabled_eq [OF assms(1)])
  qed
  ultimately show ?thesis
    using assms(4) u reg by (auto simp: write_isenabler_def sweep_both_def d'_def)
qed

lemma isenabler_effect_witness:
  "\<exists>r d'. handle_write (Distributor_zeroed 1) (0x100 + 4 * 1) 0 (Data_Word 0x100) = Some (r, d')
     \<and> is_enabled d' 40 0 = Some True"
proof -
  obtain d' ti ta where w: "handle_write (Distributor_zeroed 1) (0x100 + 4 * 1) 0 (Data_Word 0x100) =
      Some (Inr (inject_and_ack_action ti ta), d')"
    and e: "\<forall>j<1024. \<forall>c<1. is_enabled d' j c =
      (if j div 32 = 1 \<and> (1 = (0::nat) \<longrightarrow> c = 0) \<and> bit (0x100 :: u32) (j mod 32) then Some True
       else is_enabled (Distributor_zeroed 1) j c)"
    using isenabler_effect [of "Distributor_zeroed 1" 0 1 "0x100"] by auto
  have "bit (0x100 :: u32) 8" by (simp add: bit_numeral_rec)
  with e [rule_format, of 40 0] have "is_enabled d' 40 0 = Some True" by simp
  with w show ?thesis by blast
qed

text \<open>
  \<^verbatim>\<open>GICD_ICENABLERn\<close> with \<open>1 \<le> n < 31\<close> disables the lines of register \<open>n + 1\<close>, and none of the
  lines \<open>32 * n\<close> to \<open>32 * n + 31\<close> it names: the arm indexes the shared bank with \<^verbatim>\<open>reg_num\<close> where the
  set-enable arm uses \<^verbatim>\<open>reg_num - 1\<close>.
\<close>

lemma icenabler_clears_next_register:
  assumes "wf_dist d" "1 \<le> n" "n < 31"
  shows "\<exists>d'. handle_write d (0x180 + 4 * n) node (Data_Word val) = Some (Inr WriteNoAction, d')
    \<and> (\<forall>j<1024. \<forall>c<num_nodes d. is_enabled d' j c =
         (if j div 32 = n + 1 \<and> bit val (j mod 32) then Some False else is_enabled d j c))"
proof -
  have reg: "word_from_offset (0x180 + 4 * n) = Some (GICD_ICENABLERn n)"
    using word_from_offset_reg_offset [of "GICD_ICENABLERn n"] assms(3) by simp
  have len: "length (enable d) = 31" using assms(1) by (simp add: wf_dist_def)
  define d' where "d' = d\<lparr>enable := (enable d)[n := enable d ! n AND NOT val]\<rparr>"
  have wf: "wf_dist d'" using assms(1) by (simp add: d'_def wf_dist_def)
  have "is_enabled d' j c = (if j div 32 = n + 1 \<and> bit val (j mod 32) then Some False else is_enabled d j c)"
    if "j < 1024" "c < num_nodes d" for j c
  proof -
    have "is_enabled d' j c = Some (flag_bit (enable0 d) ((enable d)[n := enable d ! n AND NOT val]) j c)"
      using is_enabled_eq [OF wf that(1), of c] that(2) by (simp add: d'_def)
    moreover have "j div 32 - 1 = n \<longleftrightarrow> j div 32 = n + 1" if "\<not> j < 32" using that by auto
    moreover have "j div 32 = 0" if "j < 32" using that by simp
    ultimately show ?thesis
      using that assms len
      by (cases "j < 32"; cases "j div 32 = n + 1")
         (auto simp: is_enabled_eq [OF assms(1)] flag_bit_def bit_and_iff bit_not_iff)
  qed
  moreover have "val = 0 \<Longrightarrow> d' = d" by (simp add: d'_def)
  ultimately show ?thesis
    using reg assms len
    by (intro exI [of _ d']) (auto simp: write_icenabler_def reg_update_def d'_def)
qed

lemma icenabler_clears_next_register_witness:
  "\<exists>d'. handle_write (Distributor_zeroed 1) (0x180 + 4 * 1) 0 (Data_Word 1) = Some (Inr WriteNoAction, d')"
  using icenabler_clears_next_register [of "Distributor_zeroed 1" 1 0 1] by auto

section \<open>The SGI pending registers\<close>

lemma upt_4: "[b..<b + 4] = [b, Suc b, Suc (Suc b), Suc (Suc (Suc b))]"
  by (simp add: upt_rec numeral_eq_Suc)

text \<open>The fourth round of the mask loop runs with mask 0.\<close>

lemma sgi_mask_fourth:
  assumes "for_each [b..<b + 4] (sgi_mask_step b body) (0xFF, d) = Some (m, d')"
  obtains d3 where "body 0 (b + 3) d3 = Some d'"
    "\<exists>m3. for_each [b, Suc b, Suc (Suc b)] (sgi_mask_step b body) (0xFF, d) = Some (m3, d3)"
proof -
  have "shl (shl (shl (0xFF :: u32) 8) 16) 24 = 0" "shl (0xFF :: u32) 0 = 0xFF"
    by (simp_all add: shl_def)
  then show ?thesis
    using assms that
    by (auto simp: upt_4 sgi_mask_step_def Let_def numeral_3_eq_3 split: option.splits Option.bind_splits)
qed

text \<open>
  Writing any non-zero value to \<^verbatim>\<open>GICD_CPENDSGIRn\<close> clears the pending flag of the register's
  fourth SGI, whatever sources it still has: the byte mask is shifted cumulatively and is 0 in the
  last round, so the test that no source is left succeeds there.
\<close>

lemma cpendsgir_clears_fourth:
  assumes "wf_dist d" "node < num_nodes d" "n < 4" "val \<noteq> 0"
  shows "\<exists>d'. handle_write d (0xF10 + 4 * n) node (Data_Word val) = Some (Inr WriteNoAction, d')
    \<and> is_pending d' (4 * n + 3) node = Some False"
proof -
  have reg: "word_from_offset (0xF10 + 4 * n) = Some (GICD_CPENDSGIRn n)"
    using word_from_offset_reg_offset [of "GICD_CPENDSGIRn n"] assms(3) by simp
  obtain r where w: "write_cpendsgir d node n val = Some r"
    using write_cpendsgir_total [OF assms(1-3), of val] by auto
  then obtain s d1 m d' where s: "get_sgi_reg d node n = Some s"
    and d1: "set_sgi_reg d node n (s AND NOT val) = Some d1"
    and l: "for_each [n * 4..<n * 4 + 4] (sgi_mask_step (n * 4) (\<lambda>mask irq d.
      if (s AND NOT val) AND mask = 0 then map_option snd (unwrap_method (clear_pending d irq node))
      else Some d)) (0xFF, d1) = Some (m, d')" and r: "r = (Inr WriteNoAction, d')"
    using assms(4) by (auto simp: write_cpendsgir_def Let_def split: Option.bind_splits)
  define body where "body = (\<lambda>mask irq d. if (s AND NOT val) AND mask = 0
    then map_option snd (unwrap_method (clear_pending d irq node)) else Some d)"
  note l = l [folded body_def]
  obtain d3 m3 where d3: "body 0 (n * 4 + 3) d3 = Some d'"
    and l3: "for_each [n * 4, Suc (n * 4), Suc (Suc (n * 4))] (sgi_mask_step (n * 4) body) (0xFF, d1)
      = Some (m3, d3)"
    using sgi_mask_fourth [OF l] by blast
  have "keeps d1 d3"
    by (rule sgi_mask_all_keeps [OF l3])
       (auto simp: body_def unwrap_method_Some dest: clear_pending_keeps split: if_splits)
  then have wf: "wf_dist d3" "num_nodes d3 = num_nodes d"
    using set_sgi_reg_keeps [OF d1] assms(1) by (auto simp: keeps_def)
  obtain u where "clear_pending d3 (n * 4 + 3) node = Some (Inr u, d')"
    using d3 by (auto simp: body_def unwrap_method_Some)
  from pend.unmark_result [OF wf(1) _ this] have "is_pending d' (n * 4 + 3) node = Some False"
    using assms(2,3) wf(2) by (simp add: same_line_def)
  then show ?thesis using reg w r by (simp add: mult.commute)
qed

lemma cpendsgir_clears_fourth_witness:
  "\<exists>d'. handle_write (Distributor_zeroed 1) (0xF10 + 4 * 0) 0 (Data_Word 1) = Some (Inr WriteNoAction, d')
    \<and> is_pending d' (4 * 0 + 3) 0 = Some False"
  by (rule cpendsgir_clears_fourth) simp_all

end
