(* ===== verification/Gic.thy ===== *)
theory Gic
  imports GicRead
begin

text \<open>
  The interrupt controller of a virtual machine (\<^verbatim>\<open>vmm/gic/src/gic.rs\<close>): the distributor together
  with, per node, a mirror of the four list registers of the virtual CPU interface and a queue of
  interrupts that found them full. Its environment is the \<^verbatim>\<open>GICCallbacks\<close> trait, here a record of
  functions on a callback state, which \<open>Vmm\<close> instantiates with the monitor's implementation.
\<close>

section \<open>State and environment\<close>

type_synonym NodeIndex = nat

definition NUM_LRS :: nat where "NUM_LRS = 4"

datatype QualifiedIRQ =
    QualifiedPPI NodeIndex IRQ
  | SPI IRQ

datatype 'f gic_error = DistError IRQError | CallbackError 'f

type_synonym ('f, 'a, 'c) callback = "('f, 'a, 'c) fallible"

record ('c, 'f) GICCallbacks =
  cb_ack :: "'c \<Rightarrow> NodeIndex \<Rightarrow> QualifiedIRQ \<Rightarrow> ('f, unit, 'c) callback"
  cb_vcpu_inject_irq ::
    "'c \<Rightarrow> NodeIndex \<Rightarrow> NodeIndex \<Rightarrow> nat \<Rightarrow> IRQ \<Rightarrow> nat \<Rightarrow> ('f, unit, 'c) callback"
  cb_set_affinity :: "'c \<Rightarrow> NodeIndex \<Rightarrow> IRQ \<Rightarrow> NodeIndex \<Rightarrow> ('f, unit, 'c) callback"
  cb_set_priority :: "'c \<Rightarrow> NodeIndex \<Rightarrow> QualifiedIRQ \<Rightarrow> nat \<Rightarrow> ('f, unit, 'c) callback"
  cb_set_enabled :: "'c \<Rightarrow> NodeIndex \<Rightarrow> QualifiedIRQ \<Rightarrow> bool \<Rightarrow> ('f, unit, 'c) callback"

record LR =
  mirror :: "IRQ option list"
  overflow :: "IRQ list"

record 'c GIC =
  gic_num_nodes :: nat
  callbacks :: 'c
  dist :: Distributor
  lrs :: "LR list"

type_synonym ('f, 'a, 'c) gic_method = "('f gic_error, 'a, 'c GIC) fallible"

definition GIC_new :: "nat \<Rightarrow> 'c \<Rightarrow> 'c GIC option" where
  "GIC_new n cbs = do {
     d \<leftarrow> Distributor_new n;
     Some \<lparr>gic_num_nodes = n, callbacks = cbs, dist = d,
           lrs = map (\<lambda>_. \<lparr>mirror = replicate NUM_LRS None, overflow = []\<rparr>) [0..<n]\<rparr> }"

text \<open>Calls into the distributor and out to the callbacks; an error is converted by \<^verbatim>\<open>?\<close>.\<close>

definition on_dist :: "'c GIC \<Rightarrow> (IRQError, 'a, Distributor) fallible \<Rightarrow> ('f, 'a, 'c) gic_method" where
  "on_dist g m = (case m of
     None \<Rightarrow> None
   | Some (Inl e, d) \<Rightarrow> Some (Inl (DistError e), g\<lparr>dist := d\<rparr>)
   | Some (Inr a, d) \<Rightarrow> Some (Inr a, g\<lparr>dist := d\<rparr>))"

definition on_callback :: "'c GIC \<Rightarrow> ('f, 'a, 'c) callback \<Rightarrow> ('f, 'a, 'c) gic_method" where
  "on_callback g m = (case m of
     None \<Rightarrow> None
   | Some (Inl e, c) \<Rightarrow> Some (Inl (CallbackError e), g\<lparr>callbacks := c\<rparr>)
   | Some (Inr a, c) \<Rightarrow> Some (Inr a, g\<lparr>callbacks := c\<rparr>))"

section \<open>Injection\<close>

definition set_mirror :: "'c GIC \<Rightarrow> NodeIndex \<Rightarrow> nat \<Rightarrow> IRQ option \<Rightarrow> 'c GIC option" where
  "set_mirror g node index v = do {
     lr \<leftarrow> vec_get (lrs g) node;
     m \<leftarrow> vec_set (mirror lr) index v;
     ls \<leftarrow> vec_set (lrs g) node (lr\<lparr>mirror := m\<rparr>);
     Some (g\<lparr>lrs := ls\<rparr>) }"

definition set_overflow :: "'c GIC \<Rightarrow> NodeIndex \<Rightarrow> IRQ list \<Rightarrow> 'c GIC option" where
  "set_overflow g node q = do {
     lr \<leftarrow> vec_get (lrs g) node;
     ls \<leftarrow> vec_set (lrs g) node (lr\<lparr>overflow := q\<rparr>);
     Some (g\<lparr>lrs := ls\<rparr>) }"

definition inject_irq ::
  "('c, 'f) GICCallbacks \<Rightarrow> 'c GIC \<Rightarrow> NodeIndex \<Rightarrow> NodeIndex \<Rightarrow> nat \<Rightarrow> IRQ \<Rightarrow> ('f, unit, 'c) gic_method" where
  "inject_irq cb g calling_node target_node index irq =
     (case get_priority (dist g) irq target_node of
        None \<Rightarrow> None
      | Some (Inl e) \<Rightarrow> Some (Inl (DistError e), g)
      | Some (Inr p) \<Rightarrow>
          (let priority = drop_bit 3 (unat p) in
           try_method (on_dist g (set_pending (dist g) irq target_node)) (\<lambda>_ g. do {
             i \<leftarrow> should_inject (dist g) irq target_node;
             if i then
               try_method (on_dist g (set_active (dist g) irq target_node)) (\<lambda>_ g. do {
                 g \<leftarrow> set_mirror g target_node index (Some irq);
                 on_callback g (cb_vcpu_inject_irq cb (callbacks g) calling_node target_node index irq priority) })
             else Some (Inr (), g) })))"

definition irq_in_lrs_overflow :: "'c GIC \<Rightarrow> NodeIndex \<Rightarrow> IRQ \<Rightarrow> bool option" where
  "irq_in_lrs_overflow g node irq = do {
     lr \<leftarrow> vec_get (lrs g) node;
     Some (list_ex (\<lambda>x. x = irq) (overflow lr)) }"

text \<open>The first empty slot of a mirror.\<close>

fun first_free :: "nat \<Rightarrow> IRQ option list \<Rightarrow> nat option" where
  "first_free i [] = None"
| "first_free i (None # xs) = Some i"
| "first_free i (Some x # xs) = first_free (Suc i) xs"

definition forward_irq ::
  "('c, 'f) GICCallbacks \<Rightarrow> 'c GIC \<Rightarrow> NodeIndex \<Rightarrow> NodeIndex \<Rightarrow> IRQ \<Rightarrow> ('f, unit, 'c) gic_method" where
  "forward_irq cb g calling_node target_node irq = do {
     lr \<leftarrow> vec_get (lrs g) target_node;
     case first_free 0 (mirror lr) of
       Some index \<Rightarrow> inject_irq cb g calling_node target_node index irq
     | None \<Rightarrow> do {
         b \<leftarrow> irq_in_lrs_overflow g target_node irq;
         if \<not> b then do {
           g \<leftarrow> set_overflow g target_node (overflow lr @ [irq]);
           Some (Inr (), g) }
         else Some (Inr (), g) } }"

section \<open>Entry points\<close>

fun handle_irq ::
  "('c, 'f) GICCallbacks \<Rightarrow> 'c GIC \<Rightarrow> NodeIndex \<Rightarrow> QualifiedIRQ \<Rightarrow> ('f, unit, 'c) gic_method" where
  "handle_irq cb g calling_node (QualifiedPPI node irq) = forward_irq cb g calling_node node irq"
| "handle_irq cb g calling_node (SPI irq) = do {
     t \<leftarrow> is_target (dist g) irq calling_node;
     if t then forward_irq cb g calling_node calling_node irq
     else do {
       ts \<leftarrow> get_spi_targets (dist g) irq;
       case biterate ts of
         [] \<Rightarrow> Some (Inr (), g)
       | target_node # _ \<Rightarrow> forward_irq cb g calling_node target_node irq } }"

definition maintenance_irq :: "NodeIndex \<Rightarrow> IRQ \<Rightarrow> QualifiedIRQ" where
  "maintenance_irq node irq = (if irq \<ge> 16 \<and> irq < 32 then QualifiedPPI node irq else SPI irq)"

definition handle_maintenance ::
  "('c, 'f) GICCallbacks \<Rightarrow> 'c GIC \<Rightarrow> NodeIndex \<Rightarrow> nat \<Rightarrow> ('f, unit, 'c) gic_method" where
  "handle_maintenance cb g node index = do {
     lr \<leftarrow> vec_get (lrs g) node;
     slot \<leftarrow> vec_get (mirror lr) index;
     irq \<leftarrow> slot;
     g \<leftarrow> set_mirror g node index None;
     try_method (on_dist g (ack (dist g) irq node)) (\<lambda>_ g.
       try_method (on_callback g (cb_ack cb (callbacks g) node (maintenance_irq node irq))) (\<lambda>_ g. do {
         lr \<leftarrow> vec_get (lrs g) node;
         case overflow lr of
           [] \<Rightarrow> Some (Inr (), g)
         | irq # rest \<Rightarrow> do {
             g \<leftarrow> set_overflow g node rest;
             inject_irq cb g node node index irq } })) }"

definition GIC_handle_read ::
  "'c GIC \<Rightarrow> NodeIndex \<Rightarrow> nat \<Rightarrow> VMFaultWidth \<Rightarrow> ('f, VMFaultData, 'c) gic_method" where
  "GIC_handle_read g node offset w = (case handle_read (dist g) offset node w of
     None \<Rightarrow> None
   | Some (Inl e) \<Rightarrow> Some (Inl (DistError e), g)
   | Some (Inr (data, ReadNoAction)) \<Rightarrow> Some (Inr data, g))"

text \<open>One round of the acknowledgement loop of a write.\<close>

definition ack_one ::
  "('c, 'f) GICCallbacks \<Rightarrow> NodeIndex \<Rightarrow> IRQ \<times> NodeIndex \<Rightarrow> 'c GIC \<Rightarrow> ('f, unit, 'c) gic_method" where
  "ack_one cb calling_node = (\<lambda>(irq, target_node) g.
     try_method (on_dist g (ack (dist g) irq target_node)) (\<lambda>_ g.
       if irq \<ge> 16 then
         (let qualified_irq = (if irq < 32 then QualifiedPPI target_node irq else SPI irq) in
          on_callback g (cb_ack cb (callbacks g) calling_node qualified_irq))
       else Some (Inr (), g)))"

definition GIC_handle_write ::
  "('c, 'f) GICCallbacks \<Rightarrow> 'c GIC \<Rightarrow> NodeIndex \<Rightarrow> nat \<Rightarrow> VMFaultData \<Rightarrow> ('f, unit, 'c) gic_method" where
  "GIC_handle_write cb g calling_node offset data =
     try_method (on_dist g (handle_write (dist g) offset calling_node data)) (\<lambda>write_action g.
       case write_action of
         WriteNoAction \<Rightarrow> Some (Inr (), g)
       | InjectAndAckIRQs to_inject to_ack \<Rightarrow>
           try_method
             (case to_ack of
                None \<Rightarrow> Some (Inr (), g)
              | Some to_ack \<Rightarrow> try_for_each to_ack (ack_one cb calling_node) g)
             (\<lambda>_ g. case to_inject of
                None \<Rightarrow> Some (Inr (), g)
              | Some to_inject \<Rightarrow>
                  try_for_each to_inject (\<lambda>(irq, target_node) g. forward_irq cb g calling_node target_node irq) g))"

section \<open>The invariant\<close>

definition wf_lr :: "LR \<Rightarrow> bool" where
  "wf_lr lr \<longleftrightarrow> length (mirror lr) = NUM_LRS \<and> distinct (overflow lr)"

definition wf_gic :: "'c GIC \<Rightarrow> bool" where
  "wf_gic g \<longleftrightarrow> wf_dist (dist g) \<and> num_nodes (dist g) = gic_num_nodes g
     \<and> length (lrs g) = gic_num_nodes g \<and> list_all wf_lr (lrs g)"

text \<open>\<open>gkeeps g g'\<close>: the step from \<open>g\<close> to \<open>g'\<close> keeps the invariant and the number of nodes.\<close>

definition gkeeps :: "'c GIC \<Rightarrow> 'c GIC \<Rightarrow> bool" where
  "gkeeps g g' \<longleftrightarrow> (wf_gic g \<longrightarrow> wf_gic g') \<and> gic_num_nodes g' = gic_num_nodes g"

lemma gkeeps_refl [simp]: "gkeeps g g"
  by (simp add: gkeeps_def)

lemma gkeeps_trans: "gkeeps g g' \<Longrightarrow> gkeeps g' g'' \<Longrightarrow> gkeeps g g''"
  by (simp add: gkeeps_def)

lemma gkeeps_dist: "keeps (dist g) d \<Longrightarrow> gkeeps g (g\<lparr>dist := d\<rparr>)"
  by (simp add: gkeeps_def keeps_def wf_gic_def)

lemma gkeeps_callbacks [simp]: "gkeeps g (g\<lparr>callbacks := c\<rparr>)"
  by (simp add: gkeeps_def wf_gic_def)

lemma gkeeps_lrs: "(wf_gic g \<Longrightarrow> list_all wf_lr ls) \<Longrightarrow> length ls = length (lrs g) \<Longrightarrow> gkeeps g (g\<lparr>lrs := ls\<rparr>)"
  by (auto simp: gkeeps_def wf_gic_def)

lemma set_active_keeps: "set_active d irq cpu = Some (r, d') \<Longrightarrow> keeps d d'"
  by (auto simp: set_active_def intro!: keeps_intros dest: flag_update_length
      split: if_splits Option.bind_splits)

lemma clear_active_keeps: "clear_active d irq cpu = Some (r, d') \<Longrightarrow> keeps d d'"
  by (auto simp: clear_active_def intro!: keeps_intros dest: flag_update_length
      split: if_splits Option.bind_splits)

lemma clear_sgi_pending_keeps: "clear_sgi_pending d irq s cpu = Some (r, d') \<Longrightarrow> keeps d d'"
  by (auto simp: clear_sgi_pending_def Let_def unwrap_method_Some split: if_splits Option.bind_splits
      dest!: set_sgi_reg_keeps clear_pending_keeps intro: keeps_trans)

lemma ack_keeps: "ack d irq cpu = Some (r, d') \<Longrightarrow> keeps d d'"
  by (auto simp: ack_def Let_def try_method_result split: if_splits
      dest!: clear_sgi_pending_keeps clear_pending_keeps clear_active_keeps intro: keeps_trans)

lemma on_dist_keeps:
  assumes "on_dist g m = Some (r, g')" and "\<And>x d. m = Some (x, d) \<Longrightarrow> keeps (dist g) d"
  shows "gkeeps g g'"
  using assms by (auto simp: on_dist_def intro!: gkeeps_dist split: option.splits sum.splits)

lemma on_callback_keeps: "on_callback g m = Some (r, g') \<Longrightarrow> gkeeps g g'"
  by (auto simp: on_callback_def split: option.splits sum.splits)

lemma set_mirror_Some:
  "set_mirror g node index v = Some g' \<longleftrightarrow>
     node < length (lrs g) \<and> index < length (mirror (lrs g ! node))
     \<and> g' = g\<lparr>lrs := (lrs g)[node := (lrs g ! node)\<lparr>mirror := (mirror (lrs g ! node))[index := v]\<rparr>]\<rparr>"
  by (auto simp: set_mirror_def vec_get_def vec_set_def)

lemma set_overflow_Some:
  "set_overflow g node q = Some g' \<longleftrightarrow>
     node < length (lrs g) \<and> g' = g\<lparr>lrs := (lrs g)[node := (lrs g ! node)\<lparr>overflow := q\<rparr>]\<rparr>"
  by (auto simp: set_overflow_def vec_get_def vec_set_def)

lemma wf_lr_nth: "wf_gic g \<Longrightarrow> node < length (lrs g) \<Longrightarrow> wf_lr (lrs g ! node)"
  by (simp add: wf_gic_def list_all_length)

lemma set_mirror_keeps:
  assumes "set_mirror g node index v = Some g'"
  shows "gkeeps g g'"
proof -
  note m = assms [unfolded set_mirror_Some]
  have "list_all wf_lr ((lrs g)[node := (lrs g ! node)\<lparr>mirror := (mirror (lrs g ! node))[index := v]\<rparr>])"
    if "wf_gic g"
    using that m wf_lr_nth [OF that, of node]
    by (intro list_all_update) (simp_all add: wf_gic_def wf_lr_def)
  with m show ?thesis by (auto intro: gkeeps_lrs)
qed

lemma set_overflow_keeps:
  assumes "set_overflow g node q = Some g'" and "wf_gic g \<Longrightarrow> distinct q"
  shows "gkeeps g g'"
proof -
  note m = assms(1) [unfolded set_overflow_Some]
  have "list_all wf_lr ((lrs g)[node := (lrs g ! node)\<lparr>overflow := q\<rparr>])" if "wf_gic g"
    using that m wf_lr_nth [OF that, of node] assms(2)
    by (intro list_all_update) (simp_all add: wf_gic_def wf_lr_def)
  with m show ?thesis by (auto intro: gkeeps_lrs)
qed

text \<open>Sequencing with \<^verbatim>\<open>?\<close>: each part keeps the invariant, so the whole does.\<close>

lemma try_method_gkeeps:
  assumes "try_method m k = Some (r, g')"
    and "\<And>x g1. m = Some (x, g1) \<Longrightarrow> gkeeps g g1"
    and "\<And>a g1 r g2. k a g1 = Some (r, g2) \<Longrightarrow> gkeeps g1 g2"
  shows "gkeeps g g'"
  using assms by (auto simp: try_method_result intro: gkeeps_trans)

lemma inject_tail_keeps:
  assumes "do { i \<leftarrow> should_inject (dist g) irq t;
     if i then try_method (on_dist g (set_active (dist g) irq t)) (\<lambda>_ g. do {
       g \<leftarrow> set_mirror g t index (Some irq);
       on_callback g (cb_vcpu_inject_irq cb (callbacks g) c t index irq p) })
     else Some (Inr (), g) } = Some (r, g')"
  shows "gkeeps g g'"
proof -
  have k: "gkeeps g1 g2" if "do { g \<leftarrow> set_mirror g1 t index (Some irq);
      on_callback g (cb_vcpu_inject_irq cb (callbacks g) c t index irq p) } = Some (r, g2)" for g1 r g2
    using that by (auto split: Option.bind_splits dest!: set_mirror_keeps on_callback_keeps intro: gkeeps_trans)
  from assms obtain b where b: "should_inject (dist g) irq t = Some b" by (auto split: Option.bind_splits)
  show ?thesis
  proof (cases b)
    case True
    with assms b have "try_method (on_dist g (set_active (dist g) irq t)) (\<lambda>_ g. do {
       g \<leftarrow> set_mirror g t index (Some irq);
       on_callback g (cb_vcpu_inject_irq cb (callbacks g) c t index irq p) }) = Some (r, g')" by simp
    then show ?thesis
      by (rule try_method_gkeeps) (auto intro: on_dist_keeps [OF _ set_active_keeps] k)
  next
    case False
    with assms b show ?thesis by simp
  qed
qed

lemma inject_irq_keeps:
  assumes "inject_irq cb g c t i irq = Some (r, g')"
  shows "gkeeps g g'"
proof (cases "get_priority (dist g) irq t")
  case None
  with assms show ?thesis by (simp add: inject_irq_def)
next
  case (Some x)
  show ?thesis
  proof (cases x)
    case (Inl e)
    with assms Some show ?thesis by (simp add: inject_irq_def)
  next
    case (Inr p)
    from assms [unfolded inject_irq_def] Some Inr show ?thesis
      by (simp add: Let_def)
         (erule try_method_gkeeps, erule on_dist_keeps [OF _ set_pending_keeps], assumption,
          erule inject_tail_keeps)
  qed
qed

lemma forward_irq_keeps:
  assumes "forward_irq cb g c t irq = Some (r, g')"
  shows "gkeeps g g'"
proof (cases "t < length (lrs g)")
  case True
  show ?thesis
  proof (cases "first_free 0 (mirror (lrs g ! t))")
    case None
    have "distinct (overflow (lrs g ! t) @ [irq])" if "wf_gic g" "irq \<notin> set (overflow (lrs g ! t))"
      using wf_lr_nth [OF that(1) True] that(2) by (simp add: wf_lr_def)
    with assms True None show ?thesis
      by (auto simp: forward_irq_def irq_in_lrs_overflow_def list_ex_iff
          split: if_splits Option.bind_splits intro: set_overflow_keeps)
  next
    case (Some i)
    with assms True show ?thesis by (auto simp: forward_irq_def intro: inject_irq_keeps)
  qed
next
  case False
  with assms show ?thesis by (simp add: forward_irq_def vec_get_def)
qed

lemma handle_irq_keeps: "handle_irq cb g c q = Some (r, g') \<Longrightarrow> gkeeps g g'"
  by (cases q) (auto split: if_splits Option.bind_splits list.splits dest: forward_irq_keeps)

lemma maintenance_tail_keeps:
  assumes "do { lr \<leftarrow> vec_get (lrs g) node;
     case overflow lr of [] \<Rightarrow> Some (Inr (), g)
     | irq # rest \<Rightarrow> do { g \<leftarrow> set_overflow g node rest; inject_irq cb g node node index irq } } = Some (r, g')"
  shows "gkeeps g g'"
proof -
  have "distinct rest" if "wf_gic g" "node < length (lrs g)" "overflow (lrs g ! node) = irq # rest" for irq rest
    using wf_lr_nth [OF that(1,2)] that(3) by (simp add: wf_lr_def)
  with assms show ?thesis
    by (auto simp: vec_get_Some split: list.splits Option.bind_splits
        dest!: inject_irq_keeps intro: set_overflow_keeps gkeeps_trans)
qed

lemma handle_maintenance_keeps:
  assumes "handle_maintenance cb g node index = Some (r, g')"
  shows "gkeeps g g'"
proof -
  from assms obtain irq g1 where g1: "set_mirror g node index None = Some g1"
    and m: "try_method (on_dist g1 (ack (dist g1) irq node)) (\<lambda>_ g.
       try_method (on_callback g (cb_ack cb (callbacks g) node (maintenance_irq node irq))) (\<lambda>_ g. do {
         lr \<leftarrow> vec_get (lrs g) node;
         case overflow lr of [] \<Rightarrow> Some (Inr (), g)
         | irq # rest \<Rightarrow> do { g \<leftarrow> set_overflow g node rest; inject_irq cb g node node index irq } })) = Some (r, g')"
    by (auto simp: handle_maintenance_def split: Option.bind_splits)
  have "gkeeps g1 g'"
    using m
  proof (rule try_method_gkeeps)
    fix x g2
    assume "on_dist g1 (ack (dist g1) irq node) = Some (x, g2)"
    then show "gkeeps g1 g2" by (rule on_dist_keeps) (rule ack_keeps)
  next
    fix g2 r g3
    assume "try_method (on_callback g2 (cb_ack cb (callbacks g2) node (maintenance_irq node irq))) (\<lambda>_ g. do {
         lr \<leftarrow> vec_get (lrs g) node;
         case overflow lr of [] \<Rightarrow> Some (Inr (), g)
         | irq # rest \<Rightarrow> do { g \<leftarrow> set_overflow g node rest; inject_irq cb g node node index irq } }) = Some (r, g3)"
    then show "gkeeps g2 g3"
      by (rule try_method_gkeeps) (erule on_callback_keeps, erule maintenance_tail_keeps)
  qed
  with set_mirror_keeps [OF g1] show ?thesis by (rule gkeeps_trans)
qed

lemma ack_one_keeps: "ack_one cb c p g = Some (r, g') \<Longrightarrow> gkeeps g g'"
  by (cases p, simp only: ack_one_def prod.case, erule try_method_gkeeps,
      erule on_dist_keeps [OF _ ack_keeps], assumption)
     (auto simp: Let_def split: if_splits dest: on_callback_keeps)

lemma try_for_each_gkeeps:
  assumes "try_for_each xs f g = Some (r, g')"
    and "\<And>x g r g'. f x g = Some (r, g') \<Longrightarrow> gkeeps g g'"
  shows "gkeeps g g'"
  using assms(1) by (rule try_for_each_inv) (auto intro: gkeeps_trans assms(2))

lemma write_actions_keep:
  assumes "(case write_action of
         WriteNoAction \<Rightarrow> Some (Inr (), g)
       | InjectAndAckIRQs to_inject to_ack \<Rightarrow>
           try_method
             (case to_ack of
                None \<Rightarrow> Some (Inr (), g)
              | Some to_ack \<Rightarrow> try_for_each to_ack (ack_one cb calling_node) g)
             (\<lambda>_ g. case to_inject of
                None \<Rightarrow> Some (Inr (), g)
              | Some to_inject \<Rightarrow>
                  try_for_each to_inject (\<lambda>(irq, target_node) g. forward_irq cb g calling_node target_node irq) g))
     = Some (r, g')"
  shows "gkeeps g g'"
proof (cases write_action)
  case WriteNoAction
  with assms show ?thesis by simp
next
  case (InjectAndAckIRQs ti ta)
  show ?thesis
    by (rule try_method_gkeeps [OF assms [unfolded InjectAndAckIRQs WriteAction.case]])
       (auto split: option.splits dest!: try_for_each_gkeeps [OF _ ack_one_keeps]
          try_for_each_gkeeps [where f = "\<lambda>(irq, t) g. forward_irq cb g calling_node t irq"]
          intro: forward_irq_keeps)
qed

lemma handle_write_keeps: "handle_write d offset node val = Some (r, d') \<Longrightarrow> keeps d d'"
  by (cases val) (auto split: Option.bind_splits dest: handle_write_word_keeps handle_write_byte_keeps)

lemma GIC_handle_write_keeps:
  assumes "GIC_handle_write cb g c offset v = Some (r, g')"
  shows "gkeeps g g'"
  using assms unfolding GIC_handle_write_def
  by (rule try_method_gkeeps) (erule on_dist_keeps, erule handle_write_keeps, erule write_actions_keep)

lemma GIC_handle_read_state: "GIC_handle_read g node offset w = Some (r, g') \<Longrightarrow> g' = g"
  by (auto simp: GIC_handle_read_def split: option.splits sum.splits ReadAction.splits prod.splits)

section \<open>Reachable states\<close>

text \<open>The entry points the monitor calls, in any order and with any results of the callbacks.\<close>

inductive gic_reach :: "('c, 'f) GICCallbacks \<Rightarrow> nat \<Rightarrow> 'c GIC \<Rightarrow> bool" for cb n where
  reach_new: "GIC_new n c = Some g \<Longrightarrow> gic_reach cb n g"
| reach_irq: "gic_reach cb n g \<Longrightarrow> handle_irq cb g node q = Some (r, g') \<Longrightarrow> gic_reach cb n g'"
| reach_maintenance: "gic_reach cb n g \<Longrightarrow> handle_maintenance cb g node i = Some (r, g') \<Longrightarrow> gic_reach cb n g'"
| reach_write: "gic_reach cb n g \<Longrightarrow> GIC_handle_write cb g node offset v = Some (r, g') \<Longrightarrow> gic_reach cb n g'"

lemma GIC_new_wf:
  assumes "GIC_new n c = Some g"
  shows "wf_gic g \<and> gic_num_nodes g = n"
proof -
  obtain d where "Distributor_new n = Some d" "wf_dist d" "num_nodes d = n"
    using Distributor_new_wf by blast
  with assms show ?thesis
    by (auto simp: GIC_new_def wf_gic_def wf_lr_def list_all_length)
qed

text \<open>
  C37. In every reachable state of the interrupt controller, whatever the guest writes,
  whichever interrupts and maintenance faults arrive and whatever the callbacks answer, the
  distributor's banks have their sizes, every node has a list register mirror of four slots, and no
  interrupt waits twice in an overflow queue.
\<close>

theorem gic_reach_invariant:
  assumes "gic_reach cb n g"
  shows "wf_gic g \<and> gic_num_nodes g = n"
  using assms
proof induction
  case (reach_new c g)
  then show ?case by (rule GIC_new_wf)
next
  case (reach_irq g node q r g')
  then show ?case by (auto dest: handle_irq_keeps simp: gkeeps_def)
next
  case (reach_maintenance g node i r g')
  then show ?case by (auto dest: handle_maintenance_keeps simp: gkeeps_def)
next
  case (reach_write g node offset v r g')
  then show ?case by (auto dest: GIC_handle_write_keeps simp: gkeeps_def)
qed

theorem gic_reach_invariant_witness:
  "\<exists>g. GIC_new 2 () = Some g \<and> wf_gic g \<and> gic_num_nodes g = 2"
proof -
  obtain d where "Distributor_new 2 = Some d" using Distributor_new_wf by blast
  then obtain g where g: "GIC_new 2 () = Some g" by (simp add: GIC_new_def)
  let ?nop = "\<lambda>c. Some (Inr (), c)"
  let ?cb = "\<lparr>cb_ack = \<lambda>c _ _. ?nop c, cb_vcpu_inject_irq = \<lambda>c _ _ _ _ _. ?nop c,
    cb_set_affinity = \<lambda>c _ _ _. ?nop c, cb_set_priority = \<lambda>c _ _ _. ?nop c,
    cb_set_enabled = \<lambda>c _ _ _. ?nop c\<rparr> :: (unit, unit) GICCallbacks"
  have "gic_reach ?cb 2 g" using g by (rule reach_new)
  with g gic_reach_invariant [OF this] show ?thesis by blast
qed

end
