(* ===== verification/GicDelivery.thy ===== *)
theory GicDelivery
  imports Gic
begin

text \<open>
  What the interrupt controller does with an interrupt: it is injected into the first free list
  register when it is due, stays pending otherwise, or waits in the overflow queue when the list
  registers are full. The list register mirror and the active flags stay in step while interrupts
  are delivered and ended.
\<close>

section \<open>One injection\<close>

text \<open>Line \<open>irq\<close> of node \<open>t\<close> becomes pending, and active if \<open>a\<close>; no other flag changes.\<close>

definition line_effect :: "Distributor \<Rightarrow> Distributor \<Rightarrow> IRQ \<Rightarrow> CPU \<Rightarrow> bool \<Rightarrow> bool" where
  "line_effect d d' irq t a \<longleftrightarrow> wf_dist d' \<and> num_nodes d' = num_nodes d
     \<and> (\<forall>j<1024. \<forall>c<num_nodes d.
          is_pending d' j c = (if same_line irq t j c then Some True else is_pending d j c))
     \<and> (\<forall>j<1024. \<forall>c<num_nodes d.
          is_active d' j c = (if a \<and> same_line irq t j c then Some True else is_active d j c))"

text \<open>The priority handed to the kernel: the top five bits of the line's priority byte.\<close>

definition lr_priority :: "Distributor \<Rightarrow> IRQ \<Rightarrow> CPU \<Rightarrow> nat" where
  "lr_priority d irq cpu = (case get_priority d irq cpu of Some (Inr p) \<Rightarrow> drop_bit 3 (unat p) | _ \<Rightarrow> 0)"

lemma get_priority_total:
  assumes "wf_dist d" "irq < 1020" "cpu < num_nodes d"
  obtains p where "get_priority d irq cpu = Some (Inr p)"
proof -
  have "irq div 4 < 255" using assms(2) by auto
  then show ?thesis
    using assms that by (cases "irq div 4 < 8") (simp_all add: get_priority_def wf_dist_def list_all_length)
qed

definition with_slot :: "'c GIC \<Rightarrow> NodeIndex \<Rightarrow> nat \<Rightarrow> IRQ option \<Rightarrow> 'c GIC" where
  "with_slot g node i v =
     g\<lparr>lrs := (lrs g)[node := (lrs g ! node)\<lparr>mirror := (mirror (lrs g ! node))[i := v]\<rparr>]\<rparr>"

lemma inject_irq_due:
  assumes g: "wf_gic g" "irq < 1020" "t < gic_num_nodes g" "i < NUM_LRS"
    and due: "due_if_pending (dist g) irq t"
  obtains d' where "line_effect (dist g) d' irq t True"
    "inject_irq cb g c t i irq =
       on_callback (with_slot (g\<lparr>dist := d'\<rparr>) t i (Some irq))
         (cb_vcpu_inject_irq cb (callbacks g) c t i irq (lr_priority (dist g) irq t))"
proof -
  have d: "wf_dist (dist g)" "t < num_nodes (dist g)" "t < length (lrs g)" "i < length (mirror (lrs g ! t))"
    using g wf_lr_nth [OF g(1), of t] by (simp_all add: wf_gic_def wf_lr_def)
  obtain p where p: "get_priority (dist g) irq t = Some (Inr p)"
    by (rule get_priority_total [OF d(1) g(2) d(2)])
  obtain d1 where d1: "set_pending (dist g) irq t = Some (Inr (), d1)" "wf_dist d1"
    "num_nodes d1 = num_nodes (dist g)" "should_inject d1 irq t = Some (due_if_pending (dist g) irq t)"
    "is_active d1 = is_active (dist g)"
    "\<And>j c. j < 1024 \<Longrightarrow> c < num_nodes (dist g) \<Longrightarrow>
       is_pending d1 j c = (if same_line irq t j c then Some True else is_pending (dist g) j c)"
    by (rule set_pending_due [OF d(1) g(2) d(2)]) blast
  have irq: "irq < 1024" using g(2) by simp
  obtain d2 where d2: "set_active d1 irq t = Some (Inr (), d2)"
    using act.mark_in [OF d1(2) irq, of t] d(2) d1(3) by auto
  note eff = act.mark_result [OF d1(2) irq d2]
  have "is_pending d2 = is_pending d1"
    using wf_dist_frame_active [OF _ set_active_frame [OF d2]] eff by simp
  then have "line_effect (dist g) d2 irq t True"
    using eff d1(3,5,6) by (auto simp: line_effect_def)
  moreover have "inject_irq cb g c t i irq =
       on_callback (with_slot (g\<lparr>dist := d2\<rparr>) t i (Some irq))
         (cb_vcpu_inject_irq cb (callbacks g) c t i irq (lr_priority (dist g) irq t))"
    using p d1(1,4) d2 d due
    by (simp add: inject_irq_def on_dist_def set_mirror_def with_slot_def lr_priority_def Let_def)
  ultimately show ?thesis by (rule that)
qed

lemma inject_irq_not_due:
  assumes g: "wf_gic g" "irq < 1020" "t < gic_num_nodes g" and due: "\<not> due_if_pending (dist g) irq t"
  obtains d' where "line_effect (dist g) d' irq t False"
    "inject_irq cb g c t i irq = Some (Inr (), g\<lparr>dist := d'\<rparr>)"
proof -
  have d: "wf_dist (dist g)" "t < num_nodes (dist g)" using g by (simp_all add: wf_gic_def)
  obtain p where p: "get_priority (dist g) irq t = Some (Inr p)"
    by (rule get_priority_total [OF d(1) g(2) d(2)])
  obtain d1 where d1: "set_pending (dist g) irq t = Some (Inr (), d1)" "wf_dist d1"
    "num_nodes d1 = num_nodes (dist g)" "should_inject d1 irq t = Some (due_if_pending (dist g) irq t)"
    "is_active d1 = is_active (dist g)"
    "\<And>j c. j < 1024 \<Longrightarrow> c < num_nodes (dist g) \<Longrightarrow>
       is_pending d1 j c = (if same_line irq t j c then Some True else is_pending (dist g) j c)"
    by (rule set_pending_due [OF d(1) g(2) d(2)]) blast
  show ?thesis
    by (rule that [of d1]) (use p d1 due in \<open>simp_all add: line_effect_def inject_irq_def on_dist_def Let_def\<close>)
qed

section \<open>Delivery\<close>

lemma first_free_bound: "first_free k xs = Some i \<Longrightarrow> k \<le> i \<and> i < k + length xs \<and> xs ! (i - k) = None"
  by (induction k xs rule: first_free.induct) (auto simp: nth_Cons diff_Suc split: nat.splits)

lemma first_free_None: "first_free k xs = None \<longleftrightarrow> None \<notin> set xs"
  by (induction k xs rule: first_free.induct) auto

definition with_queue :: "'c GIC \<Rightarrow> NodeIndex \<Rightarrow> IRQ list \<Rightarrow> 'c GIC" where
  "with_queue g node q = g\<lparr>lrs := (lrs g)[node := (lrs g ! node)\<lparr>overflow := q\<rparr>]\<rparr>"

text \<open>
  Delivery of an interrupt to a node. With a free list register, a line that is enabled,
  targeted and not active (and the GIC on) becomes pending and active, the first free slot records
  it, and the kernel is asked to inject it there with the top five bits of its priority; a line that
  is not due only becomes pending. With all four list registers in use the interrupt is appended to
  the node's overflow queue unless it already waits there. In no case is another line's flag changed.
\<close>

lemma forward_irq_spec:
  assumes "wf_gic g" "irq < 1020" "t < gic_num_nodes g"
  shows "case first_free 0 (mirror (lrs g ! t)) of
    Some i \<Rightarrow>
      (\<exists>d'. line_effect (dist g) d' irq t (due_if_pending (dist g) irq t)
        \<and> forward_irq cb g c t irq =
            (if due_if_pending (dist g) irq t
             then on_callback (with_slot (g\<lparr>dist := d'\<rparr>) t i (Some irq))
               (cb_vcpu_inject_irq cb (callbacks g) c t i irq (lr_priority (dist g) irq t))
             else Some (Inr (), g\<lparr>dist := d'\<rparr>)))
  | None \<Rightarrow>
      forward_irq cb g c t irq =
        Some (Inr (), if irq \<in> set (overflow (lrs g ! t)) then g
                      else with_queue g t (overflow (lrs g ! t) @ [irq]))"
proof -
  have t: "t < length (lrs g)" using assms by (simp add: wf_gic_def)
  show ?thesis
  proof (cases "first_free 0 (mirror (lrs g ! t))")
    case None
    then show ?thesis
      using t by (auto simp: forward_irq_def irq_in_lrs_overflow_def set_overflow_def with_queue_def list_ex_iff)
  next
    case (Some i)
    have i: "i < NUM_LRS"
      using first_free_bound [OF Some] wf_lr_nth [OF assms(1) t] by (simp add: wf_lr_def)
    have f: "forward_irq cb g c t irq = inject_irq cb g c t i irq"
      using Some t by (simp add: forward_irq_def)
    show ?thesis
    proof (cases "due_if_pending (dist g) irq t")
      case True
      with Some f show ?thesis by (auto intro: inject_irq_due [OF assms i True])
    next
      case False
      with Some f show ?thesis by (auto intro: inject_irq_not_due [OF assms False])
    qed
  qed
qed

text \<open>A controller whose callbacks record nothing, for concrete runs.\<close>

definition nop_callbacks :: "(unit, unit) GICCallbacks" where
  "nop_callbacks = \<lparr>cb_ack = \<lambda>c _ _. Some (Inr (), c), cb_vcpu_inject_irq = \<lambda>c _ _ _ _ _. Some (Inr (), c),
    cb_set_affinity = \<lambda>c _ _ _. Some (Inr (), c), cb_set_priority = \<lambda>c _ _ _. Some (Inr (), c),
    cb_set_enabled = \<lambda>c _ _ _. Some (Inr (), c)\<rparr>"

definition idle_gic :: "nat \<Rightarrow> unit GIC" where
  "idle_gic n = \<lparr>gic_num_nodes = n, callbacks = (), dist = Distributor_zeroed n,
     lrs = replicate n \<lparr>mirror = replicate NUM_LRS None, overflow = []\<rparr>\<rparr>"

lemma wf_idle_gic: "wf_gic (idle_gic n)"
  by (simp add: idle_gic_def wf_gic_def wf_lr_def list_all_length)

lemma forward_irq_spec_witness:
  "\<exists>d'. forward_irq nop_callbacks (idle_gic 1) 0 0 27 = Some (Inr (), (idle_gic 1)\<lparr>dist := d'\<rparr>)
     \<and> is_pending d' 27 0 = Some True"
proof -
  have free: "first_free 0 (mirror (lrs (idle_gic 1) ! 0)) = Some 0"
    by (simp add: idle_gic_def NUM_LRS_def numeral_eq_Suc)
  have due: "\<not> due_if_pending (dist (idle_gic 1)) 27 0"
    by (simp add: idle_gic_def due_if_pending_def is_gic_enabled_def Distributor_zeroed_def)
  obtain d' where "line_effect (dist (idle_gic 1)) d' 27 0 False"
    and f: "forward_irq nop_callbacks (idle_gic 1) 0 0 27 = Some (Inr (), (idle_gic 1)\<lparr>dist := d'\<rparr>)"
    using forward_irq_spec [OF wf_idle_gic, of 27 0 1 nop_callbacks 0] free due
    by (auto simp: idle_gic_def)
  then have "is_pending d' 27 0 = Some True"
    by (simp add: line_effect_def idle_gic_def same_line_def)
  with f show ?thesis by blast
qed

section \<open>List registers and active lines\<close>

text \<open>
  Every interrupt in a list register is active on its node, and no line is in two list registers.
\<close>

definition lr_sync :: "'c GIC \<Rightarrow> bool" where
  "lr_sync g \<longleftrightarrow>
     (\<forall>n<gic_num_nodes g. \<forall>i<NUM_LRS. \<forall>irq. mirror (lrs g ! n) ! i = Some irq \<longrightarrow>
        irq < 1020 \<and> is_active (dist g) irq n = Some True)
   \<and> (\<forall>n<gic_num_nodes g. \<forall>n'<gic_num_nodes g. \<forall>i<NUM_LRS. \<forall>i'<NUM_LRS. \<forall>irq.
        mirror (lrs g ! n) ! i = Some irq \<and> mirror (lrs g ! n') ! i' = Some irq
        \<and> (32 \<le> irq \<or> n = n') \<longrightarrow> n = n' \<and> i = i')"

lemma lr_syncI:
  assumes "\<And>n i irq. n < gic_num_nodes g \<Longrightarrow> i < NUM_LRS \<Longrightarrow> mirror (lrs g ! n) ! i = Some irq \<Longrightarrow>
      irq < 1020 \<and> is_active (dist g) irq n = Some True"
    and "\<And>n n' i i' irq. n < gic_num_nodes g \<Longrightarrow> n' < gic_num_nodes g \<Longrightarrow> i < NUM_LRS \<Longrightarrow> i' < NUM_LRS \<Longrightarrow>
      mirror (lrs g ! n) ! i = Some irq \<Longrightarrow> mirror (lrs g ! n') ! i' = Some irq \<Longrightarrow> 32 \<le> irq \<or> n = n' \<Longrightarrow>
      n = n' \<and> i = i'"
  shows "lr_sync g"
  using assms unfolding lr_sync_def by blast

lemma lr_sync_active:
  "lr_sync g \<Longrightarrow> n < gic_num_nodes g \<Longrightarrow> i < NUM_LRS \<Longrightarrow> mirror (lrs g ! n) ! i = Some irq \<Longrightarrow>
     irq < 1020 \<and> is_active (dist g) irq n = Some True"
  unfolding lr_sync_def by blast

lemma lr_sync_unique:
  "lr_sync g \<Longrightarrow> n < gic_num_nodes g \<Longrightarrow> n' < gic_num_nodes g \<Longrightarrow> i < NUM_LRS \<Longrightarrow> i' < NUM_LRS \<Longrightarrow>
     mirror (lrs g ! n) ! i = Some irq \<Longrightarrow> mirror (lrs g ! n') ! i' = Some irq \<Longrightarrow> 32 \<le> irq \<or> n = n' \<Longrightarrow>
     n = n' \<and> i = i'"
  unfolding lr_sync_def by blast

lemma is_active_shared:
  assumes "wf_dist d" "32 \<le> irq" "irq < 1024" "c < num_nodes d" "c' < num_nodes d"
  shows "is_active d irq c = is_active d irq c'"
  using assms by (simp add: is_active_eq flag_bit_def)

text \<open>The slots of a controller after one slot of node \<open>t\<close> was set.\<close>

lemma with_slot_mirror:
  assumes "wf_gic g" "t < gic_num_nodes g" "i < NUM_LRS" "n < gic_num_nodes g" "k < NUM_LRS"
  shows "mirror (lrs (with_slot g t i v) ! n) ! k =
    (if n = t \<and> k = i then v else mirror (lrs g ! n) ! k)"
  using assms wf_lr_nth [OF assms(1), of t]
  by (auto simp: with_slot_def wf_gic_def wf_lr_def nth_list_update)

lemma with_slot_simps [simp]:
  "dist (with_slot g t i v) = dist g" "gic_num_nodes (with_slot g t i v) = gic_num_nodes g"
  "callbacks (with_slot g t i v) = callbacks g"
  by (simp_all add: with_slot_def)

lemma lr_sync_callbacks [simp]: "lr_sync (g\<lparr>callbacks := c\<rparr>) \<longleftrightarrow> lr_sync g"
  by (simp add: lr_sync_def)

lemma on_callback_sync:
  "on_callback g m = Some (r, g') \<Longrightarrow> lr_sync g' \<longleftrightarrow> lr_sync g"
  unfolding on_callback_def by (cases m) (auto split: sum.splits)

text \<open>Changing only the distributor keeps the mirror in step if no active flag is lost.\<close>

lemma lr_sync_dist:
  assumes "lr_sync g"
    and "\<And>j c. j < 1024 \<Longrightarrow> c < gic_num_nodes g \<Longrightarrow> is_active (dist g) j c = Some True \<Longrightarrow> is_active d' j c = Some True"
  shows "lr_sync (g\<lparr>dist := d'\<rparr>)"
proof (rule lr_syncI)
  fix n i irq
  assume "n < gic_num_nodes (g\<lparr>dist := d'\<rparr>)" "i < NUM_LRS" "mirror (lrs (g\<lparr>dist := d'\<rparr>) ! n) ! i = Some irq"
  then show "irq < 1020 \<and> is_active (dist (g\<lparr>dist := d'\<rparr>)) irq n = Some True"
    using lr_sync_active [OF assms(1), of n i irq] assms(2) [of irq n] by simp
next
  fix n n' i i' irq
  assume "n < gic_num_nodes (g\<lparr>dist := d'\<rparr>)" "n' < gic_num_nodes (g\<lparr>dist := d'\<rparr>)" "i < NUM_LRS" "i' < NUM_LRS"
    "mirror (lrs (g\<lparr>dist := d'\<rparr>) ! n) ! i = Some irq" "mirror (lrs (g\<lparr>dist := d'\<rparr>) ! n') ! i' = Some irq"
    "32 \<le> irq \<or> n = n'"
  then show "n = n' \<and> i = i'" using lr_sync_unique [OF assms(1), of n n' i i' irq] by simp
qed

lemma line_effect_sync:
  "lr_sync g \<Longrightarrow> gic_num_nodes g = num_nodes (dist g) \<Longrightarrow> line_effect (dist g) d' irq t a \<Longrightarrow>
     lr_sync (g\<lparr>dist := d'\<rparr>)"
  by (rule lr_sync_dist) (auto simp: line_effect_def)

text \<open>Recording an active line that is in no list register keeps the mirror in step.\<close>

lemma with_slot_sync:
  assumes "lr_sync g" "wf_gic g" "t < gic_num_nodes g" "i < NUM_LRS"
    and "irq < 1020" "is_active (dist g) irq t = Some True"
    and fresh: "\<And>n k. n < gic_num_nodes g \<Longrightarrow> k < NUM_LRS \<Longrightarrow> 32 \<le> irq \<or> n = t \<Longrightarrow>
      mirror (lrs g ! n) ! k \<noteq> Some irq"
  shows "lr_sync (with_slot g t i (Some irq))"
proof (rule lr_syncI)
  fix n k j
  assume "n < gic_num_nodes (with_slot g t i (Some irq))" "k < NUM_LRS"
    "mirror (lrs (with_slot g t i (Some irq)) ! n) ! k = Some j"
  then show "j < 1020 \<and> is_active (dist (with_slot g t i (Some irq))) j n = Some True"
    using assms(5,6) lr_sync_active [OF assms(1), of n k j]
    by (auto simp: with_slot_mirror [OF assms(2,3,4)] split: if_splits)
next
  fix n n' k k' j
  assume b: "n < gic_num_nodes (with_slot g t i (Some irq))" "n' < gic_num_nodes (with_slot g t i (Some irq))"
    "k < NUM_LRS" "k' < NUM_LRS"
    and m: "mirror (lrs (with_slot g t i (Some irq)) ! n) ! k = Some j"
      "mirror (lrs (with_slot g t i (Some irq)) ! n') ! k' = Some j" and s: "32 \<le> j \<or> n = n'"
  show "n = n' \<and> k = k'"
    using b m s fresh [of n k] fresh [of n' k'] lr_sync_unique [OF assms(1), of n n' k k' j]
    by (auto simp: with_slot_mirror [OF assms(2,3,4)] split: if_splits)
qed

lemma inject_irq_sync:
  assumes "inject_irq cb g c t i irq = Some (r, g')" and g: "wf_gic g" "lr_sync g"
    and irq: "irq < 1020" "t < gic_num_nodes g" "i < NUM_LRS"
  shows "lr_sync g'"
proof (cases "due_if_pending (dist g) irq t")
  case False
  obtain d' where d': "line_effect (dist g) d' irq t False"
    "inject_irq cb g c t i irq = Some (Inr (), g\<lparr>dist := d'\<rparr>)"
    by (rule inject_irq_not_due [OF g(1) irq(1,2) False])
  with assms(1) line_effect_sync [OF g(2) _ d'(1)] g(1) show ?thesis by (simp add: wf_gic_def)
next
  case True
  obtain d' where d': "line_effect (dist g) d' irq t True"
    "inject_irq cb g c t i irq =
       on_callback (with_slot (g\<lparr>dist := d'\<rparr>) t i (Some irq))
         (cb_vcpu_inject_irq cb (callbacks g) c t i irq (lr_priority (dist g) irq t))"
    by (rule inject_irq_due [OF g(1) irq True])
  let ?g = "g\<lparr>dist := d'\<rparr>"
  have n: "gic_num_nodes g = num_nodes (dist g)" using g(1) by (simp add: wf_gic_def)
  have idle: "is_active (dist g) irq t = Some False" using True by (simp add: due_if_pending_def)
  have fresh: "mirror (lrs g ! n) ! k \<noteq> Some irq"
    if "n < gic_num_nodes g" "k < NUM_LRS" "32 \<le> irq \<or> n = t" for n k
  proof
    assume "mirror (lrs g ! n) ! k = Some irq"
    then have "is_active (dist g) irq n = Some True" using lr_sync_active [OF g(2) that(1,2)] by simp
    moreover have "is_active (dist g) irq n = is_active (dist g) irq t"
      using that irq n g(1) is_active_shared [of "dist g" irq n t] by (auto simp: wf_gic_def)
    ultimately show False using idle by simp
  qed
  have "lr_sync (with_slot ?g t i (Some irq))"
  proof (rule with_slot_sync)
    show "lr_sync ?g" by (rule line_effect_sync [OF g(2) n d'(1)])
    show "wf_gic ?g" using d'(1) g(1) by (simp add: line_effect_def wf_gic_def)
    show "is_active (dist ?g) irq t = Some True"
      using d'(1) irq n by (simp add: line_effect_def same_line_def)
  qed (use irq fresh in simp_all)
  with assms(1) d'(2) show ?thesis by (simp add: on_callback_sync)
qed

text \<open>Only lines with a target register ever wait in a queue.\<close>

definition queues_ok :: "'c GIC \<Rightarrow> bool" where
  "queues_ok g \<longleftrightarrow> list_all (\<lambda>lr. list_all (\<lambda>irq. irq < 1020) (overflow lr)) (lrs g)"

definition gic_sync :: "'c GIC \<Rightarrow> bool" where
  "gic_sync g \<longleftrightarrow> wf_gic g \<and> lr_sync g \<and> queues_ok g"

lemma queues_ok_with_slot [simp]: "queues_ok g \<Longrightarrow> queues_ok (with_slot g t i v)"
  by (cases "t < length (lrs g)") (auto simp: queues_ok_def with_slot_def list_all_length nth_list_update)

lemma queues_ok_with_queue:
  "queues_ok g \<Longrightarrow> list_all (\<lambda>irq. irq < 1020) q \<Longrightarrow> queues_ok (with_queue g t q)"
  unfolding queues_ok_def with_queue_def by (simp add: list_all_update)

lemma queues_ok_other [simp]:
  "queues_ok (g\<lparr>dist := d\<rparr>) = queues_ok g" "queues_ok (g\<lparr>callbacks := c\<rparr>) = queues_ok g"
  by (simp_all add: queues_ok_def)

lemma on_callback_queues: "on_callback g m = Some (r, g') \<Longrightarrow> queues_ok g' \<longleftrightarrow> queues_ok g"
  unfolding on_callback_def by (cases m) (auto split: sum.splits)

lemma with_queue_mirror [simp]: "mirror (lrs (with_queue g t q) ! n) = mirror (lrs g ! n)"
  by (cases "t < length (lrs g)"; cases "n = t") (auto simp: with_queue_def list_update_beyond)

lemma with_queue_simps [simp]:
  "dist (with_queue g t q) = dist g" "gic_num_nodes (with_queue g t q) = gic_num_nodes g"
  by (simp_all add: with_queue_def)

lemma lr_sync_with_queue [simp]: "lr_sync (with_queue g t q) \<longleftrightarrow> lr_sync g"
  by (simp add: lr_sync_def)

lemma inject_irq_gic_sync:
  assumes "inject_irq cb g c t i irq = Some (r, g')" and g: "gic_sync g"
    and irq: "irq < 1020" "t < gic_num_nodes g" "i < NUM_LRS"
  shows "gic_sync g'"
proof -
  have wf: "wf_gic g" "lr_sync g" "queues_ok g" using g by (simp_all add: gic_sync_def)
  have "queues_ok g'"
  proof (cases "due_if_pending (dist g) irq t")
    case True
    obtain d' where "inject_irq cb g c t i irq = on_callback (with_slot (g\<lparr>dist := d'\<rparr>) t i (Some irq))
         (cb_vcpu_inject_irq cb (callbacks g) c t i irq (lr_priority (dist g) irq t))"
      by (rule inject_irq_due [OF wf(1) irq True])
    with assms(1) have "on_callback (with_slot (g\<lparr>dist := d'\<rparr>) t i (Some irq))
         (cb_vcpu_inject_irq cb (callbacks g) c t i irq (lr_priority (dist g) irq t)) = Some (r, g')" by simp
    from on_callback_queues [OF this] wf(3) show ?thesis by simp
  next
    case False
    show ?thesis
      by (rule inject_irq_not_due [OF wf(1) irq(1,2) False, of cb c i])
         (use assms(1) wf(3) in auto)
  qed
  with inject_irq_keeps [OF assms(1)] inject_irq_sync [OF assms(1) wf(1,2) irq] wf(1)
  show ?thesis by (simp add: gic_sync_def gkeeps_def)
qed

lemma forward_irq_gic_sync:
  assumes f: "forward_irq cb g c t irq = Some (r, g')" and g: "gic_sync g" and irq: "irq < 1020"
  shows "gic_sync g'"
proof -
  have wf: "wf_gic g" "lr_sync g" "queues_ok g" using g by (simp_all add: gic_sync_def)
  have t: "t < length (lrs g)" using f by (auto simp: forward_irq_def vec_get_Some split: Option.bind_splits)
  then have tn: "t < gic_num_nodes g" using wf(1) by (simp add: wf_gic_def)
  show ?thesis
  proof (cases "first_free 0 (mirror (lrs g ! t))")
    case (Some i)
    then have "i < NUM_LRS" using first_free_bound [OF Some] wf_lr_nth [OF wf(1) t] by (simp add: wf_lr_def)
    moreover have "inject_irq cb g c t i irq = Some (r, g')" using f Some t by (simp add: forward_irq_def)
    ultimately show ?thesis using inject_irq_gic_sync [OF _ g irq tn] by blast
  next
    case None
    have q: "list_all (\<lambda>irq. irq < 1020) (overflow (lrs g ! t) @ [irq])"
      using wf(3) t irq by (auto simp: queues_ok_def list_all_iff)
    have "g' = g \<or> g' = with_queue g t (overflow (lrs g ! t) @ [irq])"
      using f t None
      by (auto simp: forward_irq_def irq_in_lrs_overflow_def set_overflow_def with_queue_def split: if_splits)
    with forward_irq_keeps [OF f] wf queues_ok_with_queue [OF wf(3) q] show ?thesis
      by (auto simp: gic_sync_def gkeeps_def)
  qed
qed

fun qualified_ok :: "QualifiedIRQ \<Rightarrow> bool" where
  "qualified_ok (QualifiedPPI node irq) \<longleftrightarrow> irq < 1020"
| "qualified_ok (SPI irq) \<longleftrightarrow> irq < 1020"

text \<open>
  Delivering an interrupt keeps the list register mirror in step with the distributor: every
  interrupt recorded in a list register is active on its node, and no line is recorded twice, neither
  in two slots of a node nor, for an SPI, on two nodes.
\<close>

lemma handle_irq_sync:
  assumes "handle_irq cb g c q = Some (r, g')" and "gic_sync g" and "qualified_ok q"
  shows "gic_sync g'"
  using assms by (cases q) (auto split: if_splits Option.bind_splits list.splits dest: forward_irq_gic_sync)

lemma gic_sync_idle: "gic_sync (idle_gic n)"
  by (simp add: gic_sync_def wf_idle_gic queues_ok_def list_all_length lr_sync_def)
     (simp add: idle_gic_def)

lemma handle_irq_sync_witness:
  "\<exists>r g'. handle_irq nop_callbacks (idle_gic 1) 0 (QualifiedPPI 0 27) = Some (r, g') \<and> gic_sync g'"
proof -
  have free: "first_free 0 (mirror (lrs (idle_gic 1) ! 0)) = Some 0"
    by (simp add: idle_gic_def NUM_LRS_def numeral_eq_Suc)
  have due: "\<not> due_if_pending (dist (idle_gic 1)) 27 0"
    by (simp add: idle_gic_def due_if_pending_def is_gic_enabled_def Distributor_zeroed_def)
  have n: "0 < gic_num_nodes (idle_gic 1)" "0 < length (lrs (idle_gic 1))" by (simp_all add: idle_gic_def)
  obtain d' where "inject_irq nop_callbacks (idle_gic 1) 0 0 0 27 = Some (Inr (), (idle_gic 1)\<lparr>dist := d'\<rparr>)"
    by (rule inject_irq_not_due [OF wf_idle_gic _ n(1) due, of nop_callbacks 0 0]) simp
  then have h: "handle_irq nop_callbacks (idle_gic 1) 0 (QualifiedPPI 0 27) =
      Some (Inr (), (idle_gic 1)\<lparr>dist := d'\<rparr>)"
    using free n by (simp add: forward_irq_def)
  with handle_irq_sync [OF h gic_sync_idle] show ?thesis by auto
qed

section \<open>Ending an interrupt\<close>

text \<open>Emptying a slot and acknowledging its line keeps the mirror in step.\<close>

lemma end_irq_sync:
  assumes g: "gic_sync g" "gic_num_nodes g \<le> 8" and b: "node < gic_num_nodes g" "i < NUM_LRS"
    and m: "mirror (lrs g ! node) ! i = Some irq"
    and a: "ack (dist g) irq node = Some (r, d')"
  shows "gic_sync ((with_slot g node i None)\<lparr>dist := d'\<rparr>)" and "r = Inr ()"
proof -
  have wf: "wf_gic g" "lr_sync g" "queues_ok g" using g(1) by (simp_all add: gic_sync_def)
  have d: "wf_dist (dist g)" "num_nodes (dist g) = gic_num_nodes g" using wf(1) by (simp_all add: wf_gic_def)
  have irq: "irq < 1020" using lr_sync_active [OF wf(2) b m] by simp
  obtain d'' where ack: "ack (dist g) irq node = Some (Inr (), d'')" "wf_dist d''" "num_nodes d'' = num_nodes (dist g)"
    and act: "\<forall>j<1024. \<forall>c<num_nodes (dist g).
      is_active d'' j c = (if same_line irq node j c then Some False else is_active (dist g) j c)"
    using ack_result [OF d(1), of irq node] d(2) g(2) irq b(1) by auto
  then have r: "r = Inr ()" "d'' = d'" using a by auto
  show "r = Inr ()" by fact
  let ?g = "(with_slot g node i None)\<lparr>dist := d'\<rparr>"
  have mir: "mirror (lrs ?g ! n) ! k = (if n = node \<and> k = i then None else mirror (lrs g ! n) ! k)"
    if "n < gic_num_nodes g" "k < NUM_LRS" for n k
    using with_slot_mirror [OF wf(1) b that, of None] by simp
  have "lr_sync ?g"
  proof (rule lr_syncI)
    fix n k j
    assume n: "n < gic_num_nodes ?g" and k: "k < NUM_LRS" and j: "mirror (lrs ?g ! n) ! k = Some j"
    then have old: "mirror (lrs g ! n) ! k = Some j" and "\<not> (n = node \<and> k = i)"
      using mir [of n k] by (auto split: if_splits)
    then have "\<not> same_line irq node j n"
      using lr_sync_unique [OF wf(2) _ b(1) k b(2) _ m, of n] n by (auto simp: same_line_def)
    with lr_sync_active [OF wf(2) _ k old] n act r(2) d(2)
    show "j < 1020 \<and> is_active (dist ?g) j n = Some True" by simp
  next
    fix n n' k k' j
    assume "n < gic_num_nodes ?g" "n' < gic_num_nodes ?g" "k < NUM_LRS" "k' < NUM_LRS"
      "mirror (lrs ?g ! n) ! k = Some j" "mirror (lrs ?g ! n') ! k' = Some j" "32 \<le> j \<or> n = n'"
    then show "n = n' \<and> k = k'"
      using mir [of n k] mir [of n' k'] lr_sync_unique [OF wf(2), of n n' k k' j] by (auto split: if_splits)
  qed
  moreover have "set_mirror g node i None = Some (with_slot g node i None)"
    using b wf_lr_nth [OF wf(1), of node] wf(1)
    by (simp add: set_mirror_Some with_slot_def wf_gic_def wf_lr_def)
  then have "gkeeps g (with_slot g node i None)" by (rule set_mirror_keeps)
  then have "wf_gic (with_slot g node i None)" using wf(1) by (simp add: gkeeps_def)
  then have "wf_gic ?g" using ack r(2) d(2) by (simp add: wf_gic_def)
  ultimately show "gic_sync ?g" using wf(3) by (simp add: gic_sync_def)
qed

lemma maintenance_tail_sync:
  assumes h: "try_method (on_callback g (cb_ack cb (callbacks g) node q)) (\<lambda>_ g. do {
         lr \<leftarrow> vec_get (lrs g) node;
         case overflow lr of [] \<Rightarrow> Some (Inr (), g)
         | irq # rest \<Rightarrow> do { g \<leftarrow> set_overflow g node rest; inject_irq cb g node node i irq } }) = Some (r, g')"
    and g: "gic_sync g" and b: "node < gic_num_nodes g" "i < NUM_LRS"
  shows "gic_sync g'"
proof -
  have cb: "gic_sync g2 \<and> gic_num_nodes g2 = gic_num_nodes g"
    if "on_callback g (cb_ack cb (callbacks g) node q) = Some (x, g2)" for x g2
    using that g on_callback_keeps [OF that] on_callback_sync [OF that] on_callback_queues [OF that]
    by (auto simp: gic_sync_def gkeeps_def)
  show ?thesis
  proof (cases "r = Inr () \<or> (\<exists>g2. on_callback g (cb_ack cb (callbacks g) node q) = Some (Inr (), g2))")
    case False
    with h cb show ?thesis by (auto simp: try_method_result)
  next
    case True
    then obtain g2 where g2: "on_callback g (cb_ack cb (callbacks g) node q) = Some (Inr (), g2)"
      using h by (auto simp: try_method_result)
    note s2 = cb [OF g2]
    then have n: "node < length (lrs g2)" using b by (simp add: gic_sync_def wf_gic_def)
    show ?thesis
    proof (cases "overflow (lrs g2 ! node)")
      case Nil
      with h g2 n s2 show ?thesis by simp
    next
      case (Cons irq rest)
      with h g2 n have inj: "inject_irq cb (with_queue g2 node rest) node node i irq = Some (r, g')"
        by (simp add: set_overflow_def with_queue_def)
      have "list_all (\<lambda>irq. irq < 1020) (overflow (lrs g2 ! node))"
        using s2 n by (simp add: gic_sync_def queues_ok_def list_all_length)
      then have q: "irq < 1020" "list_all (\<lambda>irq. irq < 1020) rest" using Cons by simp_all
      have "set_overflow g2 node rest = Some (with_queue g2 node rest)"
        using n by (simp add: set_overflow_Some with_queue_def)
      moreover have "distinct rest"
        using s2 wf_lr_nth [of g2 node] n Cons by (simp add: gic_sync_def wf_lr_def)
      ultimately have "gkeeps g2 (with_queue g2 node rest)" by (rule set_overflow_keeps)
      then have "gic_sync (with_queue g2 node rest)"
        using s2 queues_ok_with_queue [of g2 rest node] q(2) by (simp add: gic_sync_def gkeeps_def)
      from inject_irq_gic_sync [OF inj this q(1)] show ?thesis using s2 b by simp
    qed
  qed
qed

text \<open>
  A maintenance fault for a slot that holds an interrupt ends it: the mirror stays in step
  with the distributor, whether the callbacks succeed or fail, and the interrupt that waited longest
  takes the slot's place.
\<close>

lemma handle_maintenance_sync:
  assumes h: "handle_maintenance cb g node i = Some (r, g')"
    and g: "gic_sync g" "gic_num_nodes g \<le> 8"
  shows "gic_sync g'"
proof -
  have wf: "wf_gic g" using g(1) by (simp add: gic_sync_def)
  from h obtain irq where b: "node < length (lrs g)" "i < length (mirror (lrs g ! node))"
    and m: "mirror (lrs g ! node) ! i = Some irq"
    by (auto simp: handle_maintenance_def vec_get_Some split: Option.bind_splits)
  then have bounds: "node < gic_num_nodes g" "i < NUM_LRS"
    using wf wf_lr_nth [OF wf b(1)] by (simp_all add: wf_gic_def wf_lr_def)
  obtain ra d' where a: "ack (dist g) irq node = Some (ra, d')"
    using h b m by (auto simp: handle_maintenance_def set_mirror_def on_dist_def split: option.splits)
  define g1 where "g1 = (with_slot g node i None)\<lparr>dist := d'\<rparr>"
  have s1: "gic_sync g1" and ra: "ra = Inr ()"
    using end_irq_sync [OF g bounds m a] by (simp_all add: g1_def)
  have h1: "try_method (on_callback g1 (cb_ack cb (callbacks g1) node (maintenance_irq node irq))) (\<lambda>_ g. do {
         lr \<leftarrow> vec_get (lrs g) node;
         case overflow lr of [] \<Rightarrow> Some (Inr (), g)
         | irq # rest \<Rightarrow> do { g \<leftarrow> set_overflow g node rest; inject_irq cb g node node i irq } }) = Some (r, g')"
    using h b m a ra
    by (simp add: handle_maintenance_def set_mirror_def on_dist_def g1_def with_slot_def)
  have "node < gic_num_nodes g1" using bounds(1) by (simp add: g1_def)
  from maintenance_tail_sync [OF h1 s1 this bounds(2)] show ?thesis .
qed

text \<open>One node with PPI 27 active in its first list register.\<close>

lemma busy_gic:
  obtains g :: "unit GIC" where "gic_sync g" "gic_num_nodes g = 1" "mirror (lrs g ! 0) ! 0 = Some 27"
    "overflow (lrs g ! 0) = []"
proof -
  have wf: "wf_dist (Distributor_zeroed 1)" "0 < num_nodes (Distributor_zeroed 1)" by simp_all
  obtain d where d: "set_active (Distributor_zeroed 1) 27 0 = Some (Inr (), d)"
    using act.mark_in [OF wf(1) _ wf(2), of 27] by auto
  note eff = act.mark_result [OF wf(1) _ d]
  let ?g = "(idle_gic 1)\<lparr>dist := d\<rparr>"
  have a: "is_active d 27 0 = Some True" using eff by (simp add: same_line_def)
  have g: "wf_gic ?g" using wf_idle_gic [of 1] eff by (simp add: wf_gic_def idle_gic_def)
  have "lr_sync ?g" by (rule lr_syncI) (simp_all add: idle_gic_def)
  then have s: "lr_sync (with_slot ?g 0 0 (Some 27))"
    by (rule with_slot_sync [OF _ g]) (use a in \<open>simp_all add: idle_gic_def NUM_LRS_def\<close>)
  have "set_mirror ?g 0 0 (Some 27) = Some (with_slot ?g 0 0 (Some 27))"
    by (simp add: set_mirror_Some with_slot_def idle_gic_def NUM_LRS_def)
  from set_mirror_keeps [OF this] g have "wf_gic (with_slot ?g 0 0 (Some 27))" by (simp add: gkeeps_def)
  moreover have "queues_ok (with_slot ?g 0 0 (Some 27))"
    by (rule queues_ok_with_slot) (simp add: queues_ok_def idle_gic_def)
  ultimately show ?thesis
    by (intro that [of "with_slot ?g 0 0 (Some 27)"])
       (use s in \<open>simp_all add: gic_sync_def\<close>, simp_all add: with_slot_def idle_gic_def NUM_LRS_def)
qed

lemma handle_maintenance_sync_witness:
  "\<exists>(g :: unit GIC) r g'. handle_maintenance nop_callbacks g 0 0 = Some (r, g') \<and> gic_sync g'"
proof -
  obtain g :: "unit GIC" where g: "gic_sync g" "gic_num_nodes g = 1" "mirror (lrs g ! 0) ! 0 = Some 27"
    "overflow (lrs g ! 0) = []" by (rule busy_gic)
  have l: "0 < length (lrs g)" "0 < length (mirror (lrs g ! 0))" and wf: "wf_dist (dist g)" "num_nodes (dist g) = 1"
    using g(1,2) wf_lr_nth [of g 0] by (simp_all add: gic_sync_def wf_gic_def wf_lr_def NUM_LRS_def)
  obtain d' where "ack (dist g) 27 0 = Some (Inr (), d')"
    using ack_result [OF wf(1), of 27 0] wf(2) by auto
  then obtain r g' where h: "handle_maintenance nop_callbacks g 0 0 = Some (r, g')"
    using l g(3,4)
    by (simp add: handle_maintenance_def set_mirror_def on_dist_def on_callback_def nop_callbacks_def)
  with handle_maintenance_sync [OF h g(1)] g(2) show ?thesis by auto
qed

end
