(* ===== verification/FiniteSet.thy ===== *)
theory FiniteSet
  imports Prelude
begin

text \<open>
  Finite types as index ranges (\<^verbatim>\<open>helpers/finite-set\<close>): the contract of the \<^verbatim>\<open>Finite\<close> trait as a
  locale, and the code its derive macro generates, generically over the shape of an enum, given as
  the list of its variants' field cardinalities. The generated numbering is a mixed-radix code and
  meets the contract; the enums of the event server interpret the locale in \<open>EventTypes\<close>.
\<close>

section \<open>The contract\<close>

text \<open>\<open>ok\<close> singles out the values the type is meant to hold; \<^verbatim>\<open>from_nat\<close> may panic.\<close>

locale finite_index =
  fixes card :: nat
    and to_nat :: "'a \<Rightarrow> nat"
    and from_nat :: "nat \<Rightarrow> 'a option"
    and ok :: "'a \<Rightarrow> bool"
  assumes to_nat_bound: "ok x \<Longrightarrow> to_nat x < card"
    and from_to: "ok x \<Longrightarrow> from_nat (to_nat x) = Some x"
    and to_from: "n < card \<Longrightarrow> \<exists>x. from_nat n = Some x \<and> ok x \<and> to_nat x = n"
begin

lemma to_nat_inj: "ok x \<Longrightarrow> ok y \<Longrightarrow> to_nat x = to_nat y \<Longrightarrow> x = y"
  by (metis from_to option.inject)

lemma to_nat_image: "to_nat ` Collect ok = {..<card}"
  using to_nat_bound to_from by (fastforce simp: image_iff)

text \<open>What \<^verbatim>\<open>test_exhaustively_and_slowly\<close> checks: the values below an index are all different.\<close>

lemma from_nat_distinct: "i < card \<Longrightarrow> j < i \<Longrightarrow> from_nat i \<noteq> from_nat j"
  by (metis less_imp_neq less_trans option.inject to_from)

end

section \<open>The derived code\<close>

definition cardinality_of_variant :: "nat list \<Rightarrow> nat" where
  "cardinality_of_variant fields = foldl (*) 1 fields"

definition cardinality_of_structure :: "nat list list \<Rightarrow> nat" where
  "cardinality_of_structure variants = foldl (\<lambda>s v. s + cardinality_of_variant v) 0 variants"

text \<open>The sum over the fields of a variant; the first argument is the product of the fields before.\<close>

fun fields_to_nat :: "nat \<Rightarrow> nat list \<Rightarrow> nat list \<Rightarrow> nat" where
  "fields_to_nat past (c # cs) (i # is) = past * i + fields_to_nat (past * c) cs is"
| "fields_to_nat past _ _ = 0"

definition derive_to_nat :: "nat list list \<Rightarrow> nat \<Rightarrow> nat list \<Rightarrow> nat" where
  "derive_to_nat variants k is =
     cardinality_of_structure (take k variants) + fields_to_nat 1 (variants ! k) is"

text \<open>Division and remainder by zero panic.\<close>

fun fields_from_nat :: "nat \<Rightarrow> nat list \<Rightarrow> nat \<Rightarrow> nat list option" where
  "fields_from_nat past [] m = Some []"
| "fields_from_nat past (c # cs) m =
     (if past = 0 \<or> c = 0 then None
      else do { is \<leftarrow> fields_from_nat (past * c) cs m; Some (m div past mod c # is) })"

fun derive_from_nat :: "nat \<Rightarrow> nat \<Rightarrow> nat list list \<Rightarrow> nat \<Rightarrow> (nat \<times> nat list) option" where
  "derive_from_nat k past [] n = None"
| "derive_from_nat k past (v # vs) n =
     (if n < past + cardinality_of_variant v
      then map_option (Pair k) (fields_from_nat 1 v (n - past))
      else derive_from_nat (Suc k) (past + cardinality_of_variant v) vs n)"

section \<open>The numbering of fields\<close>

lemma foldl_mult: "foldl (*) a xs = a * prod_list xs" for a :: nat
  by (induction xs arbitrary: a) simp_all

lemma cardinality_of_variant_eq: "cardinality_of_variant v = prod_list v"
  by (simp add: cardinality_of_variant_def foldl_mult)

lemma foldl_variants:
  "foldl (\<lambda>s v. s + cardinality_of_variant v) a vs = a + sum_list (map prod_list vs)"
  by (induction vs arbitrary: a) (simp_all add: cardinality_of_variant_eq)

lemma cardinality_of_structure_eq: "cardinality_of_structure vs = sum_list (map prod_list vs)"
  by (simp add: cardinality_of_structure_def foldl_variants)

definition fields_ok :: "nat list \<Rightarrow> nat list \<Rightarrow> bool" where
  "fields_ok cs is = list_all2 (\<lambda>c i. i < c) cs is"

lemma fields_to_nat_scale: "fields_to_nat (a * b) cs is = a * fields_to_nat b cs is"
  by (induction b cs "is" rule: fields_to_nat.induct)
     (simp_all add: algebra_simps)

lemma fields_to_nat_bound: "fields_ok cs is \<Longrightarrow> fields_to_nat 1 cs is < prod_list cs"
proof (induction cs arbitrary: "is")
  case Nil
  then show ?case by (simp add: fields_ok_def)
next
  case (Cons c cs)
  then obtain i js where "is": "is = i # js" "i < c" "fields_ok cs js"
    by (auto simp: fields_ok_def list_all2_Cons1)
  have "fields_to_nat 1 (c # cs) is = i + c * fields_to_nat 1 cs js"
    using fields_to_nat_scale [of c 1] "is"(1) by simp
  also have "\<dots> < c + c * fields_to_nat 1 cs js" using "is"(2) by simp
  also have "\<dots> = c * Suc (fields_to_nat 1 cs js)" by simp
  also have "\<dots> \<le> c * prod_list cs" using Cons.IH [OF "is"(3)] by (intro mult_le_mono2) simp
  finally show ?case by simp
qed

lemma fields_from_nat_scale:
  "b > 0 \<Longrightarrow> fields_from_nat (b * a) cs m = fields_from_nat a cs (m div b)"
  by (induction a cs "m div b" arbitrary: b m rule: fields_from_nat.induct)
     (simp_all add: div_mult2_eq mult.assoc)

lemma fields_from_to:
  "fields_ok cs is \<Longrightarrow> fields_from_nat 1 cs (fields_to_nat 1 cs is) = Some is"
proof (induction cs arbitrary: "is")
  case Nil
  then show ?case by (simp add: fields_ok_def)
next
  case (Cons c cs)
  then obtain i js where "is": "is = i # js" "i < c" "fields_ok cs js"
    by (auto simp: fields_ok_def list_all2_Cons1)
  have n: "fields_to_nat 1 (c # cs) is = i + c * fields_to_nat 1 cs js"
    using fields_to_nat_scale [of c 1] "is"(1) by simp
  then have "fields_to_nat 1 (c # cs) is div c = fields_to_nat 1 cs js"
    "fields_to_nat 1 (c # cs) is mod c = i" using "is"(2) by simp_all
  with Cons.IH [OF "is"(3)] fields_from_nat_scale [of c 1 cs] "is"(1,2) show ?case
    by (simp del: fields_to_nat.simps)
qed

lemma fields_to_from:
  "m < prod_list cs \<Longrightarrow> \<exists>is. fields_from_nat 1 cs m = Some is \<and> fields_ok cs is \<and> fields_to_nat 1 cs is = m"
proof (induction cs arbitrary: m)
  case Nil
  then show ?case by (simp add: fields_ok_def)
next
  case (Cons c cs)
  have c: "0 < c" using Cons.prems by (cases "c = 0") simp_all
  have "m div c < prod_list cs" using Cons.prems by (simp add: less_mult_imp_div_less mult.commute)
  then obtain js where js: "fields_from_nat 1 cs (m div c) = Some js" "fields_ok cs js"
    "fields_to_nat 1 cs js = m div c" using Cons.IH by blast
  have "fields_from_nat 1 (c # cs) m = Some (m mod c # js)"
    using c js(1) fields_from_nat_scale [of c 1 cs m] by simp
  moreover have "fields_ok (c # cs) (m mod c # js)" using c js(2) by (simp add: fields_ok_def)
  moreover have "fields_to_nat 1 (c # cs) (m mod c # js) = m"
    using fields_to_nat_scale [of c 1 cs js] js(3) by simp
  ultimately show ?case by blast
qed

section \<open>The numbering of variants\<close>

definition value_ok :: "nat list list \<Rightarrow> nat \<times> nat list \<Rightarrow> bool" where
  "value_ok vs x \<longleftrightarrow> fst x < length vs \<and> fields_ok (vs ! fst x) (snd x)"

lemma derive_from_nat_take:
  assumes "k < length vs" "n < prod_list (vs ! k)"
  shows "derive_from_nat b past vs (past + cardinality_of_structure (take k vs) + n) =
    map_option (Pair (b + k)) (fields_from_nat 1 (vs ! k) n)"
  using assms
proof (induction vs arbitrary: b past k)
  case Nil
  then show ?case by simp
next
  case (Cons v vs)
  show ?case
  proof (cases k)
    case 0
    with Cons.prems show ?thesis by (simp add: cardinality_of_structure_eq cardinality_of_variant_eq)
  next
    case (Suc k')
    with Cons.prems Cons.IH [of k' "Suc b" "past + prod_list v"] show ?thesis
      by (simp add: cardinality_of_structure_eq cardinality_of_variant_eq add.assoc)
  qed
qed

lemma sum_list_take_nth:
  "k < length xs \<Longrightarrow> sum_list (take k xs) + xs ! k \<le> sum_list xs" for xs :: "nat list"
proof -
  assume "k < length xs"
  then have "sum_list xs = sum_list (take k xs) + (xs ! k + sum_list (drop (Suc k) xs))"
    by (metis append_take_drop_id Cons_nth_drop_Suc sum_list.Cons sum_list.append)
  then show ?thesis by simp
qed

lemma structure_split:
  "n < cardinality_of_structure vs \<Longrightarrow>
     \<exists>k m. k < length vs \<and> m < prod_list (vs ! k) \<and> n = cardinality_of_structure (take k vs) + m"
proof (induction vs arbitrary: n)
  case Nil
  then show ?case by (simp add: cardinality_of_structure_eq)
next
  case (Cons v vs)
  show ?case
  proof (cases "n < prod_list v")
    case True
    then show ?thesis by (intro exI [of _ 0] exI [of _ n]) (simp add: cardinality_of_structure_eq)
  next
    case False
    then have "n - prod_list v < cardinality_of_structure vs"
      using Cons.prems by (simp add: cardinality_of_structure_eq)
    then obtain k m where
      "k < length vs" "m < prod_list (vs ! k)" "n - prod_list v = cardinality_of_structure (take k vs) + m"
      using Cons.IH by blast
    with False show ?thesis
      by (intro exI [of _ "Suc k"] exI [of _ m]) (simp add: cardinality_of_structure_eq)
  qed
qed

lemma derive_to_nat_bound: "value_ok vs (k, is) \<Longrightarrow> derive_to_nat vs k is < cardinality_of_structure vs"
  using fields_to_nat_bound [of "vs ! k" "is"] sum_list_take_nth [of k "map prod_list vs"]
  by (simp add: value_ok_def derive_to_nat_def cardinality_of_structure_eq take_map)

lemma derive_from_to:
  assumes "value_ok vs (k, is)"
  shows "derive_from_nat 0 0 vs (derive_to_nat vs k is) = Some (k, is)"
proof -
  have k: "k < length vs" "fields_ok (vs ! k) is" using assms by (simp_all add: value_ok_def)
  show ?thesis
    using derive_from_nat_take [OF k(1) fields_to_nat_bound [OF k(2)], of 0 0] fields_from_to [OF k(2)]
    by (simp add: derive_to_nat_def)
qed

lemma derive_to_from:
  assumes "n < cardinality_of_structure vs"
  shows "\<exists>k is. derive_from_nat 0 0 vs n = Some (k, is) \<and> value_ok vs (k, is) \<and> derive_to_nat vs k is = n"
proof -
  obtain k m where k: "k < length vs" "m < prod_list (vs ! k)"
    and n: "n = cardinality_of_structure (take k vs) + m" using structure_split [OF assms] by blast
  obtain "is" where "is": "fields_from_nat 1 (vs ! k) m = Some is" "fields_ok (vs ! k) is"
    "fields_to_nat 1 (vs ! k) is = m" using fields_to_from [OF k(2)] by blast
  have "derive_from_nat 0 0 vs n = Some (k, is)"
    using derive_from_nat_take [OF k, of 0 0] n "is"(1) by simp
  moreover have "value_ok vs (k, is)" using k(1) "is"(2) by (simp add: value_ok_def)
  moreover have "derive_to_nat vs k is = n" using n "is"(3) by (simp add: derive_to_nat_def)
  ultimately show ?thesis by blast
qed

text \<open>The derived code meets the contract, on pairs of a variant and its fields' indices.\<close>

interpretation derived: finite_index "cardinality_of_structure vs" "\<lambda>(k, is). derive_to_nat vs k is"
  "derive_from_nat 0 0 vs" "value_ok vs"
proof (unfold_locales, goal_cases)
  case (1 x)
  then show ?case by (cases x) (simp add: derive_to_nat_bound)
next
  case (2 x)
  then show ?case by (cases x) (simp add: derive_from_to)
next
  case (3 n)
  then show ?case using derive_to_from [of n vs] by auto
qed

text \<open>
  The contract of a type whose \<^verbatim>\<open>Finite\<close> instance is derived: its constructors correspond to variants
  and its fields to indices. It gives the contract of \<^verbatim>\<open>Finite\<close> for the type itself.
\<close>

locale derived_enum =
  fixes shape :: "nat list list"
    and enc :: "'a \<Rightarrow> nat \<times> nat list"
    and dec :: "nat \<times> nat list \<Rightarrow> 'a option"
    and ok :: "'a \<Rightarrow> bool"
  assumes enc_ok: "ok x \<Longrightarrow> value_ok shape (enc x)"
    and dec_enc: "ok x \<Longrightarrow> dec (enc x) = Some x"
    and enc_dec: "value_ok shape v \<Longrightarrow> \<exists>x. dec v = Some x \<and> ok x \<and> enc x = v"

sublocale derived_enum \<subseteq> fin: finite_index "cardinality_of_structure shape"
  "\<lambda>x. derive_to_nat shape (fst (enc x)) (snd (enc x))"
  "\<lambda>n. Option.bind (derive_from_nat 0 0 shape n) dec" ok
proof (unfold_locales, goal_cases)
  case (1 x)
  then show ?case using enc_ok [of x] derive_to_nat_bound [of shape "fst (enc x)" "snd (enc x)"] by simp
next
  case (2 x)
  then show ?case
    using enc_ok [of x] dec_enc [of x] derive_from_to [of shape "fst (enc x)" "snd (enc x)"] by simp
next
  case (3 n)
  then obtain k "is" where d: "derive_from_nat 0 0 shape n = Some (k, is)" "value_ok shape (k, is)"
    "derive_to_nat shape k is = n" using derive_to_from by blast
  with enc_dec [OF d(2)] show ?case by auto
qed

text \<open>
  The code the derive macro generates for an enum numbers its values bijectively by the
  indices below its cardinality, for any number of variants and fields: a value's index is in range
  and decodes to the value, and every index in range is the index of the value it decodes to.
\<close>

lemma derive_finite_bijective:
  "(value_ok vs (k, is) \<longrightarrow>
      derive_to_nat vs k is < cardinality_of_structure vs
      \<and> derive_from_nat 0 0 vs (derive_to_nat vs k is) = Some (k, is))
   \<and> (n < cardinality_of_structure vs \<longrightarrow>
      (\<exists>k is. derive_from_nat 0 0 vs n = Some (k, is) \<and> value_ok vs (k, is) \<and> derive_to_nat vs k is = n))"
  using derive_to_nat_bound [of vs k "is"] derive_from_to [of vs k "is"] derive_to_from [of n vs] by blast

lemma derive_finite_bijective_witness:
  "derive_from_nat 0 0 [[2, 3], [2, 3]] (derive_to_nat [[2, 3], [2, 3]] 1 [1, 2]) = Some (1, [1, 2])"
  using derive_finite_bijective [of "[[2, 3], [2, 3]]" 1 "[1, 2]"]
  by (simp add: value_ok_def fields_ok_def)

end
