(* ===== verification/EventTypes.thy ===== *)
theory EventTypes
  imports FiniteSet Biterate
begin

text \<open>
  The types the event server shares with its clients
  (\<^verbatim>\<open>hypervisor/components/event-server/types/src/lib.rs\<close>): the bitfield through which events are
  signalled, the calls, and the enums that number the events of each client. The enums derive
  \<^verbatim>\<open>Finite\<close>; each interprets \<open>derived_enum\<close>. \<^verbatim>\<open>HostIn\<close> does not meet the contract, because the
  hand-written numbering of SPIs is off, and \<open>HostIn_collision\<close> shows the consequence.
\<close>

section \<open>Event numbering\<close>

definition NUM_REALMS :: nat where "NUM_REALMS = 2"

datatype EventRealmId = EventRealmId nat

definition EventRealmId_CARDINALITY :: nat where "EventRealmId_CARDINALITY = NUM_REALMS"

fun EventRealmId_to_nat :: "EventRealmId \<Rightarrow> nat" where "EventRealmId_to_nat (EventRealmId n) = n"

definition EventRealmId_from_nat :: "nat \<Rightarrow> EventRealmId option" where
  "EventRealmId_from_nat n = Some (EventRealmId n)"

fun EventRealmId_ok :: "EventRealmId \<Rightarrow> bool" where "EventRealmId_ok (EventRealmId n) \<longleftrightarrow> n < NUM_REALMS"

interpretation EventRealmId_fin: finite_index EventRealmId_CARDINALITY EventRealmId_to_nat
  EventRealmId_from_nat EventRealmId_ok
proof (unfold_locales, goal_cases)
  case (1 x)
  then show ?case by (cases x) (simp add: EventRealmId_CARDINALITY_def)
next
  case (2 x)
  then show ?case by (cases x) (simp add: EventRealmId_from_nat_def)
next
  case (3 n)
  then show ?case by (simp add: EventRealmId_from_nat_def EventRealmId_CARDINALITY_def)
qed

lemmas EventRealmId_laws = EventRealmId_fin.to_nat_bound EventRealmId_fin.from_to
lemmas EventRealmId_cover = EventRealmId_fin.to_from

subsection \<open>RealmRingBufferId\<close>

datatype RealmRingBufferId = Net | Channel

definition RealmRingBufferId_shape :: "nat list list" where
  "RealmRingBufferId_shape = [[], []]"

definition RealmRingBufferId_CARDINALITY :: nat where
  "RealmRingBufferId_CARDINALITY = cardinality_of_structure RealmRingBufferId_shape"

fun RealmRingBufferId_enc :: "RealmRingBufferId \<Rightarrow> nat \<times> nat list" where
  "RealmRingBufferId_enc Net = (0, [])"
| "RealmRingBufferId_enc Channel = (Suc 0, [])"

fun RealmRingBufferId_dec :: "nat \<times> nat list \<Rightarrow> RealmRingBufferId option" where
  "RealmRingBufferId_dec (0, []) = Some Net"
| "RealmRingBufferId_dec (Suc 0, []) = Some Channel"
| "RealmRingBufferId_dec _ = None"

definition RealmRingBufferId_to_nat :: "RealmRingBufferId \<Rightarrow> nat" where
  "RealmRingBufferId_to_nat x = derive_to_nat RealmRingBufferId_shape (fst (RealmRingBufferId_enc x)) (snd (RealmRingBufferId_enc x))"

definition RealmRingBufferId_from_nat :: "nat \<Rightarrow> RealmRingBufferId option" where
  "RealmRingBufferId_from_nat n = Option.bind (derive_from_nat 0 0 RealmRingBufferId_shape n) RealmRingBufferId_dec"

interpretation RealmRingBufferId_enum: derived_enum RealmRingBufferId_shape RealmRingBufferId_enc RealmRingBufferId_dec "\<lambda>_. True"
proof (unfold_locales, goal_cases)
  case (1 x)
  then show ?case
    by (cases x) (auto simp: value_ok_def RealmRingBufferId_shape_def fields_ok_def)
next
  case (2 x)
  then show ?case by (cases x) auto
next
  case (3 v)
  then show ?case
    by (cases v) (auto simp: value_ok_def RealmRingBufferId_shape_def fields_ok_def less_Suc_eq numeral_eq_Suc
        list_all2_Cons1)
qed

lemma RealmRingBufferId_laws:
  "RealmRingBufferId_to_nat x < RealmRingBufferId_CARDINALITY"
  "RealmRingBufferId_from_nat (RealmRingBufferId_to_nat x) = Some x"
  using RealmRingBufferId_enum.fin.to_nat_bound [of x] RealmRingBufferId_enum.fin.from_to [of x]
  by (simp_all add: RealmRingBufferId_CARDINALITY_def RealmRingBufferId_to_nat_def RealmRingBufferId_from_nat_def)

lemma RealmRingBufferId_cover:
  "n < RealmRingBufferId_CARDINALITY \<Longrightarrow> \<exists>x. RealmRingBufferId_from_nat n = Some x \<and> RealmRingBufferId_to_nat x = n"
  using RealmRingBufferId_enum.fin.to_from [of n]
  by (simp add: RealmRingBufferId_CARDINALITY_def RealmRingBufferId_to_nat_def RealmRingBufferId_from_nat_def)

subsection \<open>HostRingBufferIn\<close>

datatype HostRingBufferIn = HostRB_ResourceServer | HostRB_SerialServer | HostRB_Realm EventRealmId RealmRingBufferId

definition HostRingBufferIn_shape :: "nat list list" where
  "HostRingBufferIn_shape = [[], [], [EventRealmId_CARDINALITY, RealmRingBufferId_CARDINALITY]]"

definition HostRingBufferIn_CARDINALITY :: nat where
  "HostRingBufferIn_CARDINALITY = cardinality_of_structure HostRingBufferIn_shape"

fun HostRingBufferIn_enc :: "HostRingBufferIn \<Rightarrow> nat \<times> nat list" where
  "HostRingBufferIn_enc HostRB_ResourceServer = (0, [])"
| "HostRingBufferIn_enc HostRB_SerialServer = (Suc 0, [])"
| "HostRingBufferIn_enc (HostRB_Realm a b) = (Suc (Suc 0), [EventRealmId_to_nat a, RealmRingBufferId_to_nat b])"

fun HostRingBufferIn_dec :: "nat \<times> nat list \<Rightarrow> HostRingBufferIn option" where
  "HostRingBufferIn_dec (0, []) = Some HostRB_ResourceServer"
| "HostRingBufferIn_dec (Suc 0, []) = Some HostRB_SerialServer"
| "HostRingBufferIn_dec (Suc (Suc 0), [a, b]) = do { a \<leftarrow> EventRealmId_from_nat a; b \<leftarrow> RealmRingBufferId_from_nat b; Some (HostRB_Realm a b) }"
| "HostRingBufferIn_dec _ = None"

definition HostRingBufferIn_to_nat :: "HostRingBufferIn \<Rightarrow> nat" where
  "HostRingBufferIn_to_nat x = derive_to_nat HostRingBufferIn_shape (fst (HostRingBufferIn_enc x)) (snd (HostRingBufferIn_enc x))"

definition HostRingBufferIn_from_nat :: "nat \<Rightarrow> HostRingBufferIn option" where
  "HostRingBufferIn_from_nat n = Option.bind (derive_from_nat 0 0 HostRingBufferIn_shape n) HostRingBufferIn_dec"

fun HostRingBufferIn_ok :: "HostRingBufferIn \<Rightarrow> bool" where
  "HostRingBufferIn_ok HostRB_ResourceServer \<longleftrightarrow> True"
| "HostRingBufferIn_ok HostRB_SerialServer \<longleftrightarrow> True"
| "HostRingBufferIn_ok (HostRB_Realm a b) \<longleftrightarrow> EventRealmId_ok a"

interpretation HostRingBufferIn_enum: derived_enum HostRingBufferIn_shape HostRingBufferIn_enc HostRingBufferIn_dec "HostRingBufferIn_ok"
proof (unfold_locales, goal_cases)
  case (1 x)
  then show ?case
    by (cases x) (auto simp: value_ok_def HostRingBufferIn_shape_def fields_ok_def EventRealmId_laws RealmRingBufferId_laws)
next
  case (2 x)
  then show ?case by (cases x) (auto simp: EventRealmId_laws RealmRingBufferId_laws)
next
  case (3 v)
  then show ?case
    by (cases v) (auto simp: value_ok_def HostRingBufferIn_shape_def fields_ok_def less_Suc_eq numeral_eq_Suc
        list_all2_Cons1 dest!: EventRealmId_cover RealmRingBufferId_cover)
qed

lemma HostRingBufferIn_laws:
  "HostRingBufferIn_ok x \<Longrightarrow> HostRingBufferIn_to_nat x < HostRingBufferIn_CARDINALITY"
  "HostRingBufferIn_ok x \<Longrightarrow> HostRingBufferIn_from_nat (HostRingBufferIn_to_nat x) = Some x"
  using HostRingBufferIn_enum.fin.to_nat_bound [of x] HostRingBufferIn_enum.fin.from_to [of x]
  by (simp_all add: HostRingBufferIn_CARDINALITY_def HostRingBufferIn_to_nat_def HostRingBufferIn_from_nat_def)

lemma HostRingBufferIn_cover:
  "n < HostRingBufferIn_CARDINALITY \<Longrightarrow> \<exists>x. HostRingBufferIn_from_nat n = Some x \<and> HostRingBufferIn_ok x \<and> HostRingBufferIn_to_nat x = n"
  using HostRingBufferIn_enum.fin.to_from [of n]
  by (simp add: HostRingBufferIn_CARDINALITY_def HostRingBufferIn_to_nat_def HostRingBufferIn_from_nat_def)

subsection \<open>HostRingBufferOut\<close>

datatype HostRingBufferOut = HostOutRB_Realm EventRealmId RealmRingBufferId

definition HostRingBufferOut_shape :: "nat list list" where
  "HostRingBufferOut_shape = [[EventRealmId_CARDINALITY, RealmRingBufferId_CARDINALITY]]"

definition HostRingBufferOut_CARDINALITY :: nat where
  "HostRingBufferOut_CARDINALITY = cardinality_of_structure HostRingBufferOut_shape"

fun HostRingBufferOut_enc :: "HostRingBufferOut \<Rightarrow> nat \<times> nat list" where
  "HostRingBufferOut_enc (HostOutRB_Realm a b) = (0, [EventRealmId_to_nat a, RealmRingBufferId_to_nat b])"

fun HostRingBufferOut_dec :: "nat \<times> nat list \<Rightarrow> HostRingBufferOut option" where
  "HostRingBufferOut_dec (0, [a, b]) = do { a \<leftarrow> EventRealmId_from_nat a; b \<leftarrow> RealmRingBufferId_from_nat b; Some (HostOutRB_Realm a b) }"
| "HostRingBufferOut_dec _ = None"

definition HostRingBufferOut_to_nat :: "HostRingBufferOut \<Rightarrow> nat" where
  "HostRingBufferOut_to_nat x = derive_to_nat HostRingBufferOut_shape (fst (HostRingBufferOut_enc x)) (snd (HostRingBufferOut_enc x))"

definition HostRingBufferOut_from_nat :: "nat \<Rightarrow> HostRingBufferOut option" where
  "HostRingBufferOut_from_nat n = Option.bind (derive_from_nat 0 0 HostRingBufferOut_shape n) HostRingBufferOut_dec"

fun HostRingBufferOut_ok :: "HostRingBufferOut \<Rightarrow> bool" where
  "HostRingBufferOut_ok (HostOutRB_Realm a b) \<longleftrightarrow> EventRealmId_ok a"

interpretation HostRingBufferOut_enum: derived_enum HostRingBufferOut_shape HostRingBufferOut_enc HostRingBufferOut_dec "HostRingBufferOut_ok"
proof (unfold_locales, goal_cases)
  case (1 x)
  then show ?case
    by (cases x) (auto simp: value_ok_def HostRingBufferOut_shape_def fields_ok_def EventRealmId_laws RealmRingBufferId_laws)
next
  case (2 x)
  then show ?case by (cases x) (auto simp: EventRealmId_laws RealmRingBufferId_laws)
next
  case (3 v)
  then show ?case
    by (cases v) (auto simp: value_ok_def HostRingBufferOut_shape_def fields_ok_def less_Suc_eq numeral_eq_Suc
        list_all2_Cons1 dest!: EventRealmId_cover RealmRingBufferId_cover)
qed

lemma HostRingBufferOut_laws:
  "HostRingBufferOut_ok x \<Longrightarrow> HostRingBufferOut_to_nat x < HostRingBufferOut_CARDINALITY"
  "HostRingBufferOut_ok x \<Longrightarrow> HostRingBufferOut_from_nat (HostRingBufferOut_to_nat x) = Some x"
  using HostRingBufferOut_enum.fin.to_nat_bound [of x] HostRingBufferOut_enum.fin.from_to [of x]
  by (simp_all add: HostRingBufferOut_CARDINALITY_def HostRingBufferOut_to_nat_def HostRingBufferOut_from_nat_def)

lemma HostRingBufferOut_cover:
  "n < HostRingBufferOut_CARDINALITY \<Longrightarrow> \<exists>x. HostRingBufferOut_from_nat n = Some x \<and> HostRingBufferOut_ok x \<and> HostRingBufferOut_to_nat x = n"
  using HostRingBufferOut_enum.fin.to_from [of n]
  by (simp add: HostRingBufferOut_CARDINALITY_def HostRingBufferOut_to_nat_def HostRingBufferOut_from_nat_def)

subsection \<open>HostOut\<close>

datatype HostOut = HostOut_RingBuffer HostRingBufferOut

definition HostOut_shape :: "nat list list" where
  "HostOut_shape = [[HostRingBufferOut_CARDINALITY]]"

definition HostOut_CARDINALITY :: nat where
  "HostOut_CARDINALITY = cardinality_of_structure HostOut_shape"

fun HostOut_enc :: "HostOut \<Rightarrow> nat \<times> nat list" where
  "HostOut_enc (HostOut_RingBuffer a) = (0, [HostRingBufferOut_to_nat a])"

fun HostOut_dec :: "nat \<times> nat list \<Rightarrow> HostOut option" where
  "HostOut_dec (0, [a]) = do { a \<leftarrow> HostRingBufferOut_from_nat a; Some (HostOut_RingBuffer a) }"
| "HostOut_dec _ = None"

definition HostOut_to_nat :: "HostOut \<Rightarrow> nat" where
  "HostOut_to_nat x = derive_to_nat HostOut_shape (fst (HostOut_enc x)) (snd (HostOut_enc x))"

definition HostOut_from_nat :: "nat \<Rightarrow> HostOut option" where
  "HostOut_from_nat n = Option.bind (derive_from_nat 0 0 HostOut_shape n) HostOut_dec"

fun HostOut_ok :: "HostOut \<Rightarrow> bool" where
  "HostOut_ok (HostOut_RingBuffer a) \<longleftrightarrow> HostRingBufferOut_ok a"

interpretation HostOut_enum: derived_enum HostOut_shape HostOut_enc HostOut_dec "HostOut_ok"
proof (unfold_locales, goal_cases)
  case (1 x)
  then show ?case
    by (cases x) (auto simp: value_ok_def HostOut_shape_def fields_ok_def HostRingBufferOut_laws)
next
  case (2 x)
  then show ?case by (cases x) (auto simp: HostRingBufferOut_laws)
next
  case (3 v)
  then show ?case
    by (cases v) (auto simp: value_ok_def HostOut_shape_def fields_ok_def less_Suc_eq numeral_eq_Suc
        list_all2_Cons1 dest!: HostRingBufferOut_cover)
qed

lemma HostOut_laws:
  "HostOut_ok x \<Longrightarrow> HostOut_to_nat x < HostOut_CARDINALITY"
  "HostOut_ok x \<Longrightarrow> HostOut_from_nat (HostOut_to_nat x) = Some x"
  using HostOut_enum.fin.to_nat_bound [of x] HostOut_enum.fin.from_to [of x]
  by (simp_all add: HostOut_CARDINALITY_def HostOut_to_nat_def HostOut_from_nat_def)

lemma HostOut_cover:
  "n < HostOut_CARDINALITY \<Longrightarrow> \<exists>x. HostOut_from_nat n = Some x \<and> HostOut_ok x \<and> HostOut_to_nat x = n"
  using HostOut_enum.fin.to_from [of n]
  by (simp add: HostOut_CARDINALITY_def HostOut_to_nat_def HostOut_from_nat_def)

subsection \<open>RealmRingBufferIn\<close>

datatype RealmRingBufferIn = RealmRB_Host RealmRingBufferId | RealmRB_SerialServer

definition RealmRingBufferIn_shape :: "nat list list" where
  "RealmRingBufferIn_shape = [[RealmRingBufferId_CARDINALITY], []]"

definition RealmRingBufferIn_CARDINALITY :: nat where
  "RealmRingBufferIn_CARDINALITY = cardinality_of_structure RealmRingBufferIn_shape"

fun RealmRingBufferIn_enc :: "RealmRingBufferIn \<Rightarrow> nat \<times> nat list" where
  "RealmRingBufferIn_enc (RealmRB_Host a) = (0, [RealmRingBufferId_to_nat a])"
| "RealmRingBufferIn_enc RealmRB_SerialServer = (Suc 0, [])"

fun RealmRingBufferIn_dec :: "nat \<times> nat list \<Rightarrow> RealmRingBufferIn option" where
  "RealmRingBufferIn_dec (0, [a]) = do { a \<leftarrow> RealmRingBufferId_from_nat a; Some (RealmRB_Host a) }"
| "RealmRingBufferIn_dec (Suc 0, []) = Some RealmRB_SerialServer"
| "RealmRingBufferIn_dec _ = None"

definition RealmRingBufferIn_to_nat :: "RealmRingBufferIn \<Rightarrow> nat" where
  "RealmRingBufferIn_to_nat x = derive_to_nat RealmRingBufferIn_shape (fst (RealmRingBufferIn_enc x)) (snd (RealmRingBufferIn_enc x))"

definition RealmRingBufferIn_from_nat :: "nat \<Rightarrow> RealmRingBufferIn option" where
  "RealmRingBufferIn_from_nat n = Option.bind (derive_from_nat 0 0 RealmRingBufferIn_shape n) RealmRingBufferIn_dec"

interpretation RealmRingBufferIn_enum: derived_enum RealmRingBufferIn_shape RealmRingBufferIn_enc RealmRingBufferIn_dec "\<lambda>_. True"
proof (unfold_locales, goal_cases)
  case (1 x)
  then show ?case
    by (cases x) (auto simp: value_ok_def RealmRingBufferIn_shape_def fields_ok_def RealmRingBufferId_laws)
next
  case (2 x)
  then show ?case by (cases x) (auto simp: RealmRingBufferId_laws)
next
  case (3 v)
  then show ?case
    by (cases v) (auto simp: value_ok_def RealmRingBufferIn_shape_def fields_ok_def less_Suc_eq numeral_eq_Suc
        list_all2_Cons1 dest!: RealmRingBufferId_cover)
qed

lemma RealmRingBufferIn_laws:
  "RealmRingBufferIn_to_nat x < RealmRingBufferIn_CARDINALITY"
  "RealmRingBufferIn_from_nat (RealmRingBufferIn_to_nat x) = Some x"
  using RealmRingBufferIn_enum.fin.to_nat_bound [of x] RealmRingBufferIn_enum.fin.from_to [of x]
  by (simp_all add: RealmRingBufferIn_CARDINALITY_def RealmRingBufferIn_to_nat_def RealmRingBufferIn_from_nat_def)

lemma RealmRingBufferIn_cover:
  "n < RealmRingBufferIn_CARDINALITY \<Longrightarrow> \<exists>x. RealmRingBufferIn_from_nat n = Some x \<and> RealmRingBufferIn_to_nat x = n"
  using RealmRingBufferIn_enum.fin.to_from [of n]
  by (simp add: RealmRingBufferIn_CARDINALITY_def RealmRingBufferIn_to_nat_def RealmRingBufferIn_from_nat_def)

subsection \<open>RealmRingBufferOut\<close>

datatype RealmRingBufferOut = RealmOutRB_Host RealmRingBufferId

definition RealmRingBufferOut_shape :: "nat list list" where
  "RealmRingBufferOut_shape = [[RealmRingBufferId_CARDINALITY]]"

definition RealmRingBufferOut_CARDINALITY :: nat where
  "RealmRingBufferOut_CARDINALITY = cardinality_of_structure RealmRingBufferOut_shape"

fun RealmRingBufferOut_enc :: "RealmRingBufferOut \<Rightarrow> nat \<times> nat list" where
  "RealmRingBufferOut_enc (RealmOutRB_Host a) = (0, [RealmRingBufferId_to_nat a])"

fun RealmRingBufferOut_dec :: "nat \<times> nat list \<Rightarrow> RealmRingBufferOut option" where
  "RealmRingBufferOut_dec (0, [a]) = do { a \<leftarrow> RealmRingBufferId_from_nat a; Some (RealmOutRB_Host a) }"
| "RealmRingBufferOut_dec _ = None"

definition RealmRingBufferOut_to_nat :: "RealmRingBufferOut \<Rightarrow> nat" where
  "RealmRingBufferOut_to_nat x = derive_to_nat RealmRingBufferOut_shape (fst (RealmRingBufferOut_enc x)) (snd (RealmRingBufferOut_enc x))"

definition RealmRingBufferOut_from_nat :: "nat \<Rightarrow> RealmRingBufferOut option" where
  "RealmRingBufferOut_from_nat n = Option.bind (derive_from_nat 0 0 RealmRingBufferOut_shape n) RealmRingBufferOut_dec"

interpretation RealmRingBufferOut_enum: derived_enum RealmRingBufferOut_shape RealmRingBufferOut_enc RealmRingBufferOut_dec "\<lambda>_. True"
proof (unfold_locales, goal_cases)
  case (1 x)
  then show ?case
    by (cases x) (auto simp: value_ok_def RealmRingBufferOut_shape_def fields_ok_def RealmRingBufferId_laws)
next
  case (2 x)
  then show ?case by (cases x) (auto simp: RealmRingBufferId_laws)
next
  case (3 v)
  then show ?case
    by (cases v) (auto simp: value_ok_def RealmRingBufferOut_shape_def fields_ok_def less_Suc_eq numeral_eq_Suc
        list_all2_Cons1 dest!: RealmRingBufferId_cover)
qed

lemma RealmRingBufferOut_laws:
  "RealmRingBufferOut_to_nat x < RealmRingBufferOut_CARDINALITY"
  "RealmRingBufferOut_from_nat (RealmRingBufferOut_to_nat x) = Some x"
  using RealmRingBufferOut_enum.fin.to_nat_bound [of x] RealmRingBufferOut_enum.fin.from_to [of x]
  by (simp_all add: RealmRingBufferOut_CARDINALITY_def RealmRingBufferOut_to_nat_def RealmRingBufferOut_from_nat_def)

lemma RealmRingBufferOut_cover:
  "n < RealmRingBufferOut_CARDINALITY \<Longrightarrow> \<exists>x. RealmRingBufferOut_from_nat n = Some x \<and> RealmRingBufferOut_to_nat x = n"
  using RealmRingBufferOut_enum.fin.to_from [of n]
  by (simp add: RealmRingBufferOut_CARDINALITY_def RealmRingBufferOut_to_nat_def RealmRingBufferOut_from_nat_def)

subsection \<open>RealmIn\<close>

datatype RealmIn = RealmIn_RingBuffer RealmRingBufferIn

definition RealmIn_shape :: "nat list list" where
  "RealmIn_shape = [[RealmRingBufferIn_CARDINALITY]]"

definition RealmIn_CARDINALITY :: nat where
  "RealmIn_CARDINALITY = cardinality_of_structure RealmIn_shape"

fun RealmIn_enc :: "RealmIn \<Rightarrow> nat \<times> nat list" where
  "RealmIn_enc (RealmIn_RingBuffer a) = (0, [RealmRingBufferIn_to_nat a])"

fun RealmIn_dec :: "nat \<times> nat list \<Rightarrow> RealmIn option" where
  "RealmIn_dec (0, [a]) = do { a \<leftarrow> RealmRingBufferIn_from_nat a; Some (RealmIn_RingBuffer a) }"
| "RealmIn_dec _ = None"

definition RealmIn_to_nat :: "RealmIn \<Rightarrow> nat" where
  "RealmIn_to_nat x = derive_to_nat RealmIn_shape (fst (RealmIn_enc x)) (snd (RealmIn_enc x))"

definition RealmIn_from_nat :: "nat \<Rightarrow> RealmIn option" where
  "RealmIn_from_nat n = Option.bind (derive_from_nat 0 0 RealmIn_shape n) RealmIn_dec"

interpretation RealmIn_enum: derived_enum RealmIn_shape RealmIn_enc RealmIn_dec "\<lambda>_. True"
proof (unfold_locales, goal_cases)
  case (1 x)
  then show ?case
    by (cases x) (auto simp: value_ok_def RealmIn_shape_def fields_ok_def RealmRingBufferIn_laws)
next
  case (2 x)
  then show ?case by (cases x) (auto simp: RealmRingBufferIn_laws)
next
  case (3 v)
  then show ?case
    by (cases v) (auto simp: value_ok_def RealmIn_shape_def fields_ok_def less_Suc_eq numeral_eq_Suc
        list_all2_Cons1 dest!: RealmRingBufferIn_cover)
qed

lemma RealmIn_laws:
  "RealmIn_to_nat x < RealmIn_CARDINALITY"
  "RealmIn_from_nat (RealmIn_to_nat x) = Some x"
  using RealmIn_enum.fin.to_nat_bound [of x] RealmIn_enum.fin.from_to [of x]
  by (simp_all add: RealmIn_CARDINALITY_def RealmIn_to_nat_def RealmIn_from_nat_def)

lemma RealmIn_cover:
  "n < RealmIn_CARDINALITY \<Longrightarrow> \<exists>x. RealmIn_from_nat n = Some x \<and> RealmIn_to_nat x = n"
  using RealmIn_enum.fin.to_from [of n]
  by (simp add: RealmIn_CARDINALITY_def RealmIn_to_nat_def RealmIn_from_nat_def)

subsection \<open>RealmOut\<close>

datatype RealmOut = RealmOut_RingBuffer RealmRingBufferOut

definition RealmOut_shape :: "nat list list" where
  "RealmOut_shape = [[RealmRingBufferOut_CARDINALITY]]"

definition RealmOut_CARDINALITY :: nat where
  "RealmOut_CARDINALITY = cardinality_of_structure RealmOut_shape"

fun RealmOut_enc :: "RealmOut \<Rightarrow> nat \<times> nat list" where
  "RealmOut_enc (RealmOut_RingBuffer a) = (0, [RealmRingBufferOut_to_nat a])"

fun RealmOut_dec :: "nat \<times> nat list \<Rightarrow> RealmOut option" where
  "RealmOut_dec (0, [a]) = do { a \<leftarrow> RealmRingBufferOut_from_nat a; Some (RealmOut_RingBuffer a) }"
| "RealmOut_dec _ = None"

definition RealmOut_to_nat :: "RealmOut \<Rightarrow> nat" where
  "RealmOut_to_nat x = derive_to_nat RealmOut_shape (fst (RealmOut_enc x)) (snd (RealmOut_enc x))"

definition RealmOut_from_nat :: "nat \<Rightarrow> RealmOut option" where
  "RealmOut_from_nat n = Option.bind (derive_from_nat 0 0 RealmOut_shape n) RealmOut_dec"

interpretation RealmOut_enum: derived_enum RealmOut_shape RealmOut_enc RealmOut_dec "\<lambda>_. True"
proof (unfold_locales, goal_cases)
  case (1 x)
  then show ?case
    by (cases x) (auto simp: value_ok_def RealmOut_shape_def fields_ok_def RealmRingBufferOut_laws)
next
  case (2 x)
  then show ?case by (cases x) (auto simp: RealmRingBufferOut_laws)
next
  case (3 v)
  then show ?case
    by (cases v) (auto simp: value_ok_def RealmOut_shape_def fields_ok_def less_Suc_eq numeral_eq_Suc
        list_all2_Cons1 dest!: RealmRingBufferOut_cover)
qed

lemma RealmOut_laws:
  "RealmOut_to_nat x < RealmOut_CARDINALITY"
  "RealmOut_from_nat (RealmOut_to_nat x) = Some x"
  using RealmOut_enum.fin.to_nat_bound [of x] RealmOut_enum.fin.from_to [of x]
  by (simp_all add: RealmOut_CARDINALITY_def RealmOut_to_nat_def RealmOut_from_nat_def)

lemma RealmOut_cover:
  "n < RealmOut_CARDINALITY \<Longrightarrow> \<exists>x. RealmOut_from_nat n = Some x \<and> RealmOut_to_nat x = n"
  using RealmOut_enum.fin.to_from [of n]
  by (simp add: RealmOut_CARDINALITY_def RealmOut_to_nat_def RealmOut_from_nat_def)

subsection \<open>SerialServerRingBuffer\<close>

datatype SerialServerRingBuffer = SerialRB_Host | SerialRB_Realm EventRealmId

definition SerialServerRingBuffer_shape :: "nat list list" where
  "SerialServerRingBuffer_shape = [[], [EventRealmId_CARDINALITY]]"

definition SerialServerRingBuffer_CARDINALITY :: nat where
  "SerialServerRingBuffer_CARDINALITY = cardinality_of_structure SerialServerRingBuffer_shape"

fun SerialServerRingBuffer_enc :: "SerialServerRingBuffer \<Rightarrow> nat \<times> nat list" where
  "SerialServerRingBuffer_enc SerialRB_Host = (0, [])"
| "SerialServerRingBuffer_enc (SerialRB_Realm a) = (Suc 0, [EventRealmId_to_nat a])"

fun SerialServerRingBuffer_dec :: "nat \<times> nat list \<Rightarrow> SerialServerRingBuffer option" where
  "SerialServerRingBuffer_dec (0, []) = Some SerialRB_Host"
| "SerialServerRingBuffer_dec (Suc 0, [a]) = do { a \<leftarrow> EventRealmId_from_nat a; Some (SerialRB_Realm a) }"
| "SerialServerRingBuffer_dec _ = None"

definition SerialServerRingBuffer_to_nat :: "SerialServerRingBuffer \<Rightarrow> nat" where
  "SerialServerRingBuffer_to_nat x = derive_to_nat SerialServerRingBuffer_shape (fst (SerialServerRingBuffer_enc x)) (snd (SerialServerRingBuffer_enc x))"

definition SerialServerRingBuffer_from_nat :: "nat \<Rightarrow> SerialServerRingBuffer option" where
  "SerialServerRingBuffer_from_nat n = Option.bind (derive_from_nat 0 0 SerialServerRingBuffer_shape n) SerialServerRingBuffer_dec"

fun SerialServerRingBuffer_ok :: "SerialServerRingBuffer \<Rightarrow> bool" where
  "SerialServerRingBuffer_ok SerialRB_Host \<longleftrightarrow> True"
| "SerialServerRingBuffer_ok (SerialRB_Realm a) \<longleftrightarrow> EventRealmId_ok a"

interpretation SerialServerRingBuffer_enum: derived_enum SerialServerRingBuffer_shape SerialServerRingBuffer_enc SerialServerRingBuffer_dec "SerialServerRingBuffer_ok"
proof (unfold_locales, goal_cases)
  case (1 x)
  then show ?case
    by (cases x) (auto simp: value_ok_def SerialServerRingBuffer_shape_def fields_ok_def EventRealmId_laws)
next
  case (2 x)
  then show ?case by (cases x) (auto simp: EventRealmId_laws)
next
  case (3 v)
  then show ?case
    by (cases v) (auto simp: value_ok_def SerialServerRingBuffer_shape_def fields_ok_def less_Suc_eq numeral_eq_Suc
        list_all2_Cons1 dest!: EventRealmId_cover)
qed

lemma SerialServerRingBuffer_laws:
  "SerialServerRingBuffer_ok x \<Longrightarrow> SerialServerRingBuffer_to_nat x < SerialServerRingBuffer_CARDINALITY"
  "SerialServerRingBuffer_ok x \<Longrightarrow> SerialServerRingBuffer_from_nat (SerialServerRingBuffer_to_nat x) = Some x"
  using SerialServerRingBuffer_enum.fin.to_nat_bound [of x] SerialServerRingBuffer_enum.fin.from_to [of x]
  by (simp_all add: SerialServerRingBuffer_CARDINALITY_def SerialServerRingBuffer_to_nat_def SerialServerRingBuffer_from_nat_def)

lemma SerialServerRingBuffer_cover:
  "n < SerialServerRingBuffer_CARDINALITY \<Longrightarrow> \<exists>x. SerialServerRingBuffer_from_nat n = Some x \<and> SerialServerRingBuffer_ok x \<and> SerialServerRingBuffer_to_nat x = n"
  using SerialServerRingBuffer_enum.fin.to_from [of n]
  by (simp add: SerialServerRingBuffer_CARDINALITY_def SerialServerRingBuffer_to_nat_def SerialServerRingBuffer_from_nat_def)

subsection \<open>SerialServerOut\<close>

datatype SerialServerOut = SerialOut_RingBuffer SerialServerRingBuffer

definition SerialServerOut_shape :: "nat list list" where
  "SerialServerOut_shape = [[SerialServerRingBuffer_CARDINALITY]]"

definition SerialServerOut_CARDINALITY :: nat where
  "SerialServerOut_CARDINALITY = cardinality_of_structure SerialServerOut_shape"

fun SerialServerOut_enc :: "SerialServerOut \<Rightarrow> nat \<times> nat list" where
  "SerialServerOut_enc (SerialOut_RingBuffer a) = (0, [SerialServerRingBuffer_to_nat a])"

fun SerialServerOut_dec :: "nat \<times> nat list \<Rightarrow> SerialServerOut option" where
  "SerialServerOut_dec (0, [a]) = do { a \<leftarrow> SerialServerRingBuffer_from_nat a; Some (SerialOut_RingBuffer a) }"
| "SerialServerOut_dec _ = None"

definition SerialServerOut_to_nat :: "SerialServerOut \<Rightarrow> nat" where
  "SerialServerOut_to_nat x = derive_to_nat SerialServerOut_shape (fst (SerialServerOut_enc x)) (snd (SerialServerOut_enc x))"

definition SerialServerOut_from_nat :: "nat \<Rightarrow> SerialServerOut option" where
  "SerialServerOut_from_nat n = Option.bind (derive_from_nat 0 0 SerialServerOut_shape n) SerialServerOut_dec"

fun SerialServerOut_ok :: "SerialServerOut \<Rightarrow> bool" where
  "SerialServerOut_ok (SerialOut_RingBuffer a) \<longleftrightarrow> SerialServerRingBuffer_ok a"

interpretation SerialServerOut_enum: derived_enum SerialServerOut_shape SerialServerOut_enc SerialServerOut_dec "SerialServerOut_ok"
proof (unfold_locales, goal_cases)
  case (1 x)
  then show ?case
    by (cases x) (auto simp: value_ok_def SerialServerOut_shape_def fields_ok_def SerialServerRingBuffer_laws)
next
  case (2 x)
  then show ?case by (cases x) (auto simp: SerialServerRingBuffer_laws)
next
  case (3 v)
  then show ?case
    by (cases v) (auto simp: value_ok_def SerialServerOut_shape_def fields_ok_def less_Suc_eq numeral_eq_Suc
        list_all2_Cons1 dest!: SerialServerRingBuffer_cover)
qed

lemma SerialServerOut_laws:
  "SerialServerOut_ok x \<Longrightarrow> SerialServerOut_to_nat x < SerialServerOut_CARDINALITY"
  "SerialServerOut_ok x \<Longrightarrow> SerialServerOut_from_nat (SerialServerOut_to_nat x) = Some x"
  using SerialServerOut_enum.fin.to_nat_bound [of x] SerialServerOut_enum.fin.from_to [of x]
  by (simp_all add: SerialServerOut_CARDINALITY_def SerialServerOut_to_nat_def SerialServerOut_from_nat_def)

lemma SerialServerOut_cover:
  "n < SerialServerOut_CARDINALITY \<Longrightarrow> \<exists>x. SerialServerOut_from_nat n = Some x \<and> SerialServerOut_ok x \<and> SerialServerOut_to_nat x = n"
  using SerialServerOut_enum.fin.to_from [of n]
  by (simp add: SerialServerOut_CARDINALITY_def SerialServerOut_to_nat_def SerialServerOut_from_nat_def)

subsection \<open>ResourceServerOut\<close>

datatype ResourceServerOut = ResourceOut_HostRingBuffer

definition ResourceServerOut_shape :: "nat list list" where
  "ResourceServerOut_shape = [[]]"

definition ResourceServerOut_CARDINALITY :: nat where
  "ResourceServerOut_CARDINALITY = cardinality_of_structure ResourceServerOut_shape"

fun ResourceServerOut_enc :: "ResourceServerOut \<Rightarrow> nat \<times> nat list" where
  "ResourceServerOut_enc ResourceOut_HostRingBuffer = (0, [])"

fun ResourceServerOut_dec :: "nat \<times> nat list \<Rightarrow> ResourceServerOut option" where
  "ResourceServerOut_dec (0, []) = Some ResourceOut_HostRingBuffer"
| "ResourceServerOut_dec _ = None"

definition ResourceServerOut_to_nat :: "ResourceServerOut \<Rightarrow> nat" where
  "ResourceServerOut_to_nat x = derive_to_nat ResourceServerOut_shape (fst (ResourceServerOut_enc x)) (snd (ResourceServerOut_enc x))"

definition ResourceServerOut_from_nat :: "nat \<Rightarrow> ResourceServerOut option" where
  "ResourceServerOut_from_nat n = Option.bind (derive_from_nat 0 0 ResourceServerOut_shape n) ResourceServerOut_dec"

interpretation ResourceServerOut_enum: derived_enum ResourceServerOut_shape ResourceServerOut_enc ResourceServerOut_dec "\<lambda>_. True"
proof (unfold_locales, goal_cases)
  case (1 x)
  then show ?case
    by (cases x) (auto simp: value_ok_def ResourceServerOut_shape_def fields_ok_def)
next
  case (2 x)
  then show ?case by (cases x) auto
next
  case (3 v)
  then show ?case
    by (cases v) (auto simp: value_ok_def ResourceServerOut_shape_def fields_ok_def less_Suc_eq numeral_eq_Suc
        list_all2_Cons1)
qed

lemma ResourceServerOut_laws:
  "ResourceServerOut_to_nat x < ResourceServerOut_CARDINALITY"
  "ResourceServerOut_from_nat (ResourceServerOut_to_nat x) = Some x"
  using ResourceServerOut_enum.fin.to_nat_bound [of x] ResourceServerOut_enum.fin.from_to [of x]
  by (simp_all add: ResourceServerOut_CARDINALITY_def ResourceServerOut_to_nat_def ResourceServerOut_from_nat_def)

lemma ResourceServerOut_cover:
  "n < ResourceServerOut_CARDINALITY \<Longrightarrow> \<exists>x. ResourceServerOut_from_nat n = Some x \<and> ResourceServerOut_to_nat x = n"
  using ResourceServerOut_enum.fin.to_from [of n]
  by (simp add: ResourceServerOut_CARDINALITY_def ResourceServerOut_to_nat_def ResourceServerOut_from_nat_def)

subsection \<open>SPIs and the events of the host\<close>

text \<open>
  \<^verbatim>\<open>SPI\<close> has a hand-written \<^verbatim>\<open>Finite\<close> instance: \<^verbatim>\<open>to_nat\<close> adds the first SPI number and \<^verbatim>\<open>from_nat\<close>
  subtracts it, wrapping as \<^verbatim>\<open>usize\<close> does.
\<close>

datatype EventSPI = EventSPI nat

definition SPI_START :: nat where "SPI_START = 32"

definition SPI_END :: nat where "SPI_END = 1020"

definition EventSPI_CARDINALITY :: nat where "EventSPI_CARDINALITY = SPI_END - SPI_START"

fun EventSPI_to_nat :: "EventSPI \<Rightarrow> nat" where
  "EventSPI_to_nat (EventSPI n) = (n + SPI_START) mod 2 ^ 64"

definition EventSPI_from_nat :: "nat \<Rightarrow> EventSPI option" where
  "EventSPI_from_nat n = Some (EventSPI ((n + (2 ^ 64 - SPI_START)) mod 2 ^ 64))"

datatype HostIn = HostIn_RealmEvent | HostIn_SPI EventSPI | HostIn_RingBuffer HostRingBufferIn

definition HostIn_shape :: "nat list list" where
  "HostIn_shape = [[], [EventSPI_CARDINALITY], [HostRingBufferIn_CARDINALITY]]"

definition HostIn_CARDINALITY :: nat where
  "HostIn_CARDINALITY = cardinality_of_structure HostIn_shape"

fun HostIn_enc :: "HostIn \<Rightarrow> nat \<times> nat list" where
  "HostIn_enc HostIn_RealmEvent = (0, [])"
| "HostIn_enc (HostIn_SPI a) = (1, [EventSPI_to_nat a])"
| "HostIn_enc (HostIn_RingBuffer a) = (2, [HostRingBufferIn_to_nat a])"

fun HostIn_dec :: "nat \<times> nat list \<Rightarrow> HostIn option" where
  "HostIn_dec (0, []) = Some HostIn_RealmEvent"
| "HostIn_dec (Suc 0, [a]) = do { a \<leftarrow> EventSPI_from_nat a; Some (HostIn_SPI a) }"
| "HostIn_dec (Suc (Suc 0), [a]) = do { a \<leftarrow> HostRingBufferIn_from_nat a; Some (HostIn_RingBuffer a) }"
| "HostIn_dec _ = None"

definition HostIn_to_nat :: "HostIn \<Rightarrow> nat" where
  "HostIn_to_nat x = derive_to_nat HostIn_shape (fst (HostIn_enc x)) (snd (HostIn_enc x))"

definition HostIn_from_nat :: "nat \<Rightarrow> HostIn option" where
  "HostIn_from_nat n = Option.bind (derive_from_nat 0 0 HostIn_shape n) HostIn_dec"

section \<open>Calls\<close>

datatype ConfigureAction = SetEnabled bool | SetPriority nat

datatype ClientCall =
    Client_Signal nat
  | Client_SEV nat
  | Client_Poll nat
  | Client_End nat nat
  | Client_Configure nat nat ConfigureAction
  | Client_Move nat nat nat nat

datatype ResourceServerCall =
    RS_Subscribe nat nat
  | RS_Unsubscribe nat nat
  | RS_CreateRealm nat nat
  | RS_DestroyRealm nat

datatype HostCall = Host_Subscribe nat nat nat

section \<open>The event bitfield\<close>

text \<open>The shared memory behind a \<^verbatim>\<open>Bitfield\<close>: a 64-bit word per group.\<close>

type_synonym bitfield = "nat \<Rightarrow> u64"

definition GROUP_BITS :: nat where "GROUP_BITS = 64"

definition bitfield_set :: "bitfield \<Rightarrow> nat \<Rightarrow> bool \<times> bitfield" where
  "bitfield_set bf n = (
     let group_index = n div GROUP_BITS;
         member_index = n mod GROUP_BITS;
         member = shl 1 member_index;
         old = bf group_index
     in (old AND member = 0, bf(group_index := old OR member)))"

text \<open>One group of \<^verbatim>\<open>clear\<close>: the word is swapped out, then its bits are handed to the callback.\<close>

definition clear_group ::
  "(nat \<Rightarrow> 's \<Rightarrow> ('e, unit, 's) fallible) \<Rightarrow> nat \<Rightarrow> bitfield \<times> 's \<Rightarrow> ('e, unit, bitfield \<times> 's) fallible" where
  "clear_group f group_index = (\<lambda>(bf, s).
     let members = bf group_index;
         bf = bf(group_index := 0)
     in case try_for_each (biterate members) (\<lambda>member_index. f (group_index * GROUP_BITS + member_index)) s of
          None \<Rightarrow> None
        | Some (r, s) \<Rightarrow> Some (r, (bf, s)))"

definition bitfield_clear ::
  "u64 \<Rightarrow> (nat \<Rightarrow> 's \<Rightarrow> ('e, unit, 's) fallible) \<Rightarrow> bitfield \<times> 's \<Rightarrow> ('e, unit, bitfield \<times> 's) fallible" where
  "bitfield_clear badge f = try_for_each (biterate badge) (clear_group f)"

definition clear_ignore :: "u64 \<Rightarrow> bitfield \<Rightarrow> bitfield option" where
  "clear_ignore badge bf =
     map_option (fst \<circ> snd) (unwrap_method
       (bitfield_clear badge (\<lambda>_ _. Some (Inr (), ())) (bf, ()) :: (unit, unit, bitfield \<times> unit) fallible))"

definition clear_ignore_all :: "bitfield \<Rightarrow> bitfield option" where
  "clear_ignore_all = clear_ignore (NOT 0)"

section \<open>Properties\<close>

text \<open>
  The input events of a realm and the output events of every component are numbered
  bijectively: an event's index is below the cardinality of its space and decodes to the event. (The
  realm identifiers inside the host's and the serial server's events have to name one of the two
  realms.)
\<close>

lemma event_numbering:
  "RealmIn_to_nat ri < RealmIn_CARDINALITY \<and> RealmIn_from_nat (RealmIn_to_nat ri) = Some ri
   \<and> RealmOut_to_nat ro < RealmOut_CARDINALITY \<and> RealmOut_from_nat (RealmOut_to_nat ro) = Some ro
   \<and> ResourceServerOut_to_nat rso < ResourceServerOut_CARDINALITY
   \<and> ResourceServerOut_from_nat (ResourceServerOut_to_nat rso) = Some rso
   \<and> (HostOut_ok ho \<longrightarrow> HostOut_to_nat ho < HostOut_CARDINALITY \<and> HostOut_from_nat (HostOut_to_nat ho) = Some ho)
   \<and> (SerialServerOut_ok so \<longrightarrow>
        SerialServerOut_to_nat so < SerialServerOut_CARDINALITY
        \<and> SerialServerOut_from_nat (SerialServerOut_to_nat so) = Some so)"
  by (simp add: RealmIn_laws RealmOut_laws ResourceServerOut_laws HostOut_laws SerialServerOut_laws)

lemma event_numbering_witness:
  "HostOut_from_nat (HostOut_to_nat (HostOut_RingBuffer (HostOutRB_Realm (EventRealmId 1) Channel))) =
     Some (HostOut_RingBuffer (HostOutRB_Realm (EventRealmId 1) Channel))"
  using event_numbering [of _ _ _ "HostOut_RingBuffer (HostOutRB_Realm (EventRealmId 1) Channel)"]
  by (simp add: NUM_REALMS_def)

text \<open>
  The input events of the host are not numbered injectively, nor within their cardinality:
  SPI 956 and the resource server's ring buffer have the same index, and SPI 1019 has an index
  beyond the last one, because \<^verbatim>\<open>SPI::to_nat\<close> adds the number of the first SPI instead of subtracting it.
\<close>

lemma HostIn_collision:
  "HostIn_to_nat (HostIn_SPI (EventSPI 956)) = HostIn_to_nat (HostIn_RingBuffer HostRB_ResourceServer)
   \<and> HostIn_CARDINALITY \<le> HostIn_to_nat (HostIn_SPI (EventSPI 1019))"
  by (simp add: HostIn_to_nat_def HostIn_CARDINALITY_def HostIn_shape_def derive_to_nat_def
      cardinality_of_structure_eq EventSPI_CARDINALITY_def SPI_START_def SPI_END_def
      HostRingBufferIn_to_nat_def HostRingBufferIn_CARDINALITY_def HostRingBufferIn_shape_def
      EventRealmId_CARDINALITY_def NUM_REALMS_def RealmRingBufferId_CARDINALITY_def
      RealmRingBufferId_shape_def)

text \<open>The bits of the groups named by a badge, in the order they are delivered.\<close>

definition bitfield_bits :: "u64 \<Rightarrow> bitfield \<Rightarrow> nat list" where
  "bitfield_bits badge bf =
     concat (map (\<lambda>g. map (\<lambda>m. g * GROUP_BITS + m) (biterate (bf g))) (biterate badge))"

lemma try_for_each_append:
  "try_for_each (xs @ ys) f s = try_method (try_for_each xs f s) (\<lambda>_ s. try_for_each ys f s)"
proof (induction xs arbitrary: s)
  case Nil
  then show ?case by simp
next
  case (Cons x xs)
  show ?case
    by (cases "f x s") (auto simp: Cons.IH try_method_def split: option.splits sum.splits prod.splits)
qed

lemma try_for_each_map: "try_for_each (map h xs) f s = try_for_each xs (\<lambda>x. f (h x)) s"
  by (induction xs arbitrary: s) simp_all

lemma clear_groups_ok:
  assumes "distinct gs"
    and "try_for_each (concat (map (\<lambda>g. map (\<lambda>m. g * GROUP_BITS + m) (biterate (bf g))) gs)) f s = Some (Inr (), s')"
  shows "try_for_each gs (clear_group f) (bf, s) = Some (Inr (), ((\<lambda>g. if g \<in> set gs then 0 else bf g), s'))"
  using assms
proof (induction gs arbitrary: bf s)
  case Nil
  then show ?case by simp
next
  case (Cons g gs)
  from Cons.prems(2) obtain u s1 where s1:
    "try_for_each (biterate (bf g)) (\<lambda>m. f (g * GROUP_BITS + m)) s = Some (Inr u, s1)"
    "try_for_each (concat (map (\<lambda>g. map (\<lambda>m. g * GROUP_BITS + m) (biterate (bf g))) gs)) f s1 = Some (Inr (), s')"
    by (auto simp: try_for_each_append try_for_each_map try_method_ok)
  let ?bf = "bf(g := 0)"
  have "map (\<lambda>g. map (\<lambda>m. g * GROUP_BITS + m) (biterate (?bf g))) gs =
      map (\<lambda>g. map (\<lambda>m. g * GROUP_BITS + m) (biterate (bf g))) gs"
    using Cons.prems(1) by (intro map_cong) auto
  with s1(2) have "try_for_each (concat (map (\<lambda>g. map (\<lambda>m. g * GROUP_BITS + m) (biterate (?bf g))) gs)) f s1 =
      Some (Inr (), s')" by (simp only:)
  then have "try_for_each gs (clear_group f) (?bf, s1) =
      Some (Inr (), ((\<lambda>h. if h \<in> set gs then 0 else ?bf h), s'))"
    by (rule Cons.IH [rotated]) (use Cons.prems(1) in simp)
  moreover have "(\<lambda>h. if h \<in> set gs then 0 else ?bf h) = (\<lambda>h. if h \<in> set (g # gs) then 0 else bf h)"
    by auto
  moreover have "clear_group f g (bf, s) = Some (Inr u, (?bf, s1))"
    using s1(1) by (simp add: clear_group_def Let_def)
  ultimately show ?case by simp
qed

lemma set_bitfield_bits:
  "n \<in> set (bitfield_bits badge bf) \<longleftrightarrow> bit badge (n div 64) \<and> bit (bf (n div 64)) (n mod 64)"
proof
  assume "n \<in> set (bitfield_bits badge bf)"
  then obtain g m where "n = g * 64 + m" "bit badge g" "bit (bf g) m"
    by (auto simp: bitfield_bits_def GROUP_BITS_def)
  moreover from \<open>bit (bf g) m\<close> have "m < 64" using bit_word_lt [of "bf g" m] by simp
  ultimately show "bit badge (n div 64) \<and> bit (bf (n div 64)) (n mod 64)" by simp
next
  assume "bit badge (n div 64) \<and> bit (bf (n div 64)) (n mod 64)"
  then show "n \<in> set (bitfield_bits badge bf)"
    unfolding bitfield_bits_def GROUP_BITS_def
    by (auto intro!: bexI [of _ "n div 64"] image_eqI [of _ _ "n mod 64"])
qed

text \<open>
  Clearing the groups named by a badge hands every bit set in them to the callback, and, when
  no call fails, leaves those groups empty and the others as they were. The callback runs on the bits
  in ascending order within a group.
\<close>

lemma bitfield_clear_delivers:
  assumes "try_for_each (bitfield_bits badge bf) f s = Some (Inr (), s')"
  shows "bitfield_clear badge f (bf, s) = Some (Inr (), ((\<lambda>g. if bit badge g then 0 else bf g), s'))
    \<and> (\<forall>n. n \<in> set (bitfield_bits badge bf) \<longleftrightarrow> bit badge (n div 64) \<and> bit (bf (n div 64)) (n mod 64))"
  using clear_groups_ok [of "biterate badge" bf f s s'] assms set_bitfield_bits
  by (auto simp: bitfield_clear_def bitfield_bits_def)

lemma bitfield_clear_delivers_witness:
  "bitfield_clear 2 (\<lambda>b s. Some (Inr (), s @ [b]) :: (unit, unit, nat list) fallible) ((\<lambda>_. 5), []) =
     Some (Inr (), ((\<lambda>g. if bit (2 :: u64) g then 0 else 5), [64, 66]))"
proof -
  have "biterate (2 :: u64) = [1]" "biterate (5 :: u64) = [0, 2]"
    by (simp_all add: biterate_eq_set_bits set_bits_upto_def upt_rec bit_numeral_rec)
  then have "try_for_each (bitfield_bits 2 (\<lambda>_. 5)) (\<lambda>b s. Some (Inr (), s @ [b]) :: (unit, unit, nat list) fallible) [] =
      Some (Inr (), [64, 66])"
    by (simp add: bitfield_bits_def GROUP_BITS_def)
  from bitfield_clear_delivers [OF this] show ?thesis by blast
qed

end
