(* ===== verification/Psci.thy ===== *)
theory Psci
  imports Fault
begin

text \<open>
  The subset of ARM's Power State Coordination Interface a virtual machine is offered
  (\<^verbatim>\<open>vmm/psci/src/lib.rs\<close>): its identifiers and the parsing of a trapped call.
\<close>

type_synonym i32 = "32 word"

definition SYS_PSCI :: u64 where "SYS_PSCI = 0"

definition PSCI_VERSION :: i32 where "PSCI_VERSION = 0x00010001"

definition FID_PSCI_VERSION :: u32 where "FID_PSCI_VERSION = 0x84000000"

definition FID_CPU_ON :: u32 where "FID_CPU_ON = 0xC4000003"

definition FID_MIGRATE_INFO_TYPE :: u32 where "FID_MIGRATE_INFO_TYPE = 0x84000006"

definition FID_PSCI_FEATURES :: u32 where "FID_PSCI_FEATURES = 0x8400000a"

definition RET_SUCCESS :: i32 where "RET_SUCCESS = 0"

definition RET_NOT_SUPPORTED :: i32 where "RET_NOT_SUPPORTED = -1"

datatype PsciCall =
    Call_Version
  | Call_Features u32
  | Call_CpuOn nat u64 u64
  | Call_MigrateInfoType

datatype CallParseError = UnrecognizedFid u32

definition psci_parse :: "UnknownSyscall \<Rightarrow> CallParseError + PsciCall" where
  "psci_parse fault = (
     let fid = ucast (x0 fault) in
     if fid = FID_PSCI_VERSION then Inr Call_Version
     else if fid = FID_PSCI_FEATURES then Inr (Call_Features (ucast (x1 fault)))
     else if fid = FID_CPU_ON then Inr (Call_CpuOn (unat (x1 fault)) (x2 fault) (x3 fault))
     else if fid = FID_MIGRATE_INFO_TYPE then Inr Call_MigrateInfoType
     else Inl (UnrecognizedFid fid))"

lemmas psci_fids = FID_PSCI_VERSION_def FID_CPU_ON_def FID_MIGRATE_INFO_TYPE_def FID_PSCI_FEATURES_def

text \<open>The function identifier and the arguments a guest passes for a call.\<close>

fun psci_fid :: "PsciCall \<Rightarrow> u32" where
  "psci_fid Call_Version = FID_PSCI_VERSION"
| "psci_fid (Call_Features q) = FID_PSCI_FEATURES"
| "psci_fid (Call_CpuOn t e c) = FID_CPU_ON"
| "psci_fid Call_MigrateInfoType = FID_MIGRATE_INFO_TYPE"

fun psci_args :: "PsciCall \<Rightarrow> UnknownSyscall \<Rightarrow> UnknownSyscall" where
  "psci_args (Call_Features q) f = f\<lparr>x1 := ucast q\<rparr>"
| "psci_args (Call_CpuOn t e c) f = f\<lparr>x1 := of_nat t, x2 := e, x3 := c\<rparr>"
| "psci_args _ f = f"

fun psci_wf :: "PsciCall \<Rightarrow> bool" where
  "psci_wf (Call_CpuOn t e c) \<longleftrightarrow> t < 2 ^ 64"
| "psci_wf _ \<longleftrightarrow> True"

definition psci_encode :: "PsciCall \<Rightarrow> UnknownSyscall \<Rightarrow> UnknownSyscall" where
  "psci_encode call f = psci_args call (f\<lparr>x0 := ucast (psci_fid call)\<rparr>)"

lemma ucast_fid [simp]: "ucast (ucast (w :: u32) :: u64) = w"
  by (rule bit_word_eqI) (auto simp: bit_ucast_iff)

text \<open>
  The parser recognises exactly the four calls of the interface: a call encoded in the
  argument registers is parsed back, and a call is parsed only from its own function identifier in
  the low word of the first register.
\<close>

lemma psci_parse_roundtrip:
  "(psci_wf call \<longrightarrow> psci_parse (psci_encode call f) = Inr call)
   \<and> (\<forall>g c. psci_parse g = Inr c \<longrightarrow> ucast (x0 g) = psci_fid c)"
proof -
  have "psci_parse (psci_encode call f) = Inr call" if "psci_wf call"
    using that by (cases call) (simp_all add: psci_parse_def psci_encode_def Let_def psci_fids unat_of_nat)
  moreover have "ucast (x0 g) = psci_fid c" if "psci_parse g = Inr c" for g c
    using that by (auto simp: psci_parse_def Let_def split: if_splits)
  ultimately show ?thesis by blast
qed

definition blank_syscall :: UnknownSyscall where
  "blank_syscall = \<lparr>x0 = 0, x1 = 0, x2 = 0, x3 = 0, x4 = 0, x5 = 0, x6 = 0, x7 = 0,
     us_fault_ip = 0x1000, us_sp = 0, us_lr = 0, us_spsr = 0, us_syscall = SYS_PSCI\<rparr>"

lemma psci_parse_roundtrip_witness:
  "psci_parse (psci_encode (Call_CpuOn 1 0x4000 7) blank_syscall) = Inr (Call_CpuOn 1 0x4000 7)"
  using psci_parse_roundtrip [of "Call_CpuOn 1 0x4000 7" blank_syscall] by simp

end
