(* ===== verification/Vmm.thy ===== *)
theory Vmm
  imports GicDelivery EventTypes Psci
begin

text \<open>
  The virtual machine monitor (\<^verbatim>\<open>vmm/utils/src/lib.rs\<close> and \<^verbatim>\<open>hypervisor/components/vmm/core/src/vmm.rs\<close>):
  its implementation of the interrupt controller's callbacks, the emulation of trapped accesses to
  the distributor page, the PSCI calls, and one round of a node's event loop.

  The seL4 kernel and the event server behind its endpoint are parameters: \<open>sel4_kernel\<close> collects
  the invocations the monitor makes, as functions on a world \<open>'w\<close> that they may change. The world is
  kept in the callback state, because the monitor's callbacks and its other handlers share it.
\<close>

section \<open>The environment\<close>

type_synonym TCB = nat
type_synonym VCPU = nat
type_synonym Endpoint = nat

record ('w, 'e) sel4_kernel =
  k_read_all_registers :: "'w \<Rightarrow> TCB \<Rightarrow> 'e + UserContext"
  k_write_all_registers :: "'w \<Rightarrow> TCB \<Rightarrow> UserContext \<Rightarrow> ('e + unit) \<times> 'w"
  k_inject_irq :: "'w \<Rightarrow> VCPU \<Rightarrow> u16 \<Rightarrow> u8 \<Rightarrow> u8 \<Rightarrow> u8 \<Rightarrow> ('e + unit) \<times> 'w"
  k_ack_vppi :: "'w \<Rightarrow> VCPU \<Rightarrow> u64 \<Rightarrow> ('e + unit) \<times> 'w"
  k_call :: "'w \<Rightarrow> Endpoint \<Rightarrow> ClientCall \<Rightarrow> 'w"
  k_reply :: "'w \<Rightarrow> nat \<Rightarrow> message_registers \<Rightarrow> 'w"

text \<open>\<^verbatim>\<open>BTreeMap\<close>s are association lists in ascending order of their keys.\<close>

record IRQMap =
  ppi_map :: "(IRQ \<times> nat \<times> bool) list"
  spi_map :: "(IRQ \<times> nat \<times> nat \<times> bool) list"

record 'w VMMGICCallbacks =
  vcpus :: "VCPU list"
  event_server_client :: "Endpoint list"
  irq_map :: IRQMap
  world :: 'w

section \<open>The callbacks\<close>

fun vmm_ack ::
  "('w, 'e) sel4_kernel \<Rightarrow> 'w VMMGICCallbacks \<Rightarrow> NodeIndex \<Rightarrow> QualifiedIRQ \<Rightarrow>
     ('e, unit, 'w VMMGICCallbacks) callback" where
  "vmm_ack K c calling_node (QualifiedPPI node irq) =
     (case map_of (ppi_map (irq_map c)) irq of
        Some (in_index, must_ack) \<Rightarrow>
          if must_ack then do {
            ep \<leftarrow> vec_get (event_server_client c) calling_node;
            Some (Inr (), c\<lparr>world := k_call K (world c) ep (Client_End calling_node in_index)\<rparr>) }
          else Some (Inr (), c)
      | None \<Rightarrow> do {
          v \<leftarrow> vec_get (vcpus c) node;
          let (r, w) = k_ack_vppi K (world c) v (of_nat irq);
          Some (r, c\<lparr>world := w\<rparr>) })"
| "vmm_ack K c calling_node (SPI irq) =
     (case map_of (spi_map (irq_map c)) irq of
        Some (in_index, nid, must_ack) \<Rightarrow>
          if must_ack then do {
            ep \<leftarrow> vec_get (event_server_client c) calling_node;
            Some (Inr (), c\<lparr>world := k_call K (world c) ep (Client_End nid in_index)\<rparr>) }
          else Some (Inr (), c)
      | None \<Rightarrow> Some (Inr (), c))"

definition vmm_vcpu_inject_irq ::
  "('w, 'e) sel4_kernel \<Rightarrow> 'w VMMGICCallbacks \<Rightarrow> NodeIndex \<Rightarrow> NodeIndex \<Rightarrow> nat \<Rightarrow> IRQ \<Rightarrow> nat \<Rightarrow>
     ('e, unit, 'w VMMGICCallbacks) callback" where
  "vmm_vcpu_inject_irq K c calling_node target_node index irq p = do {
     v \<leftarrow> vec_get (vcpus c) target_node;
     let (r, w) = k_inject_irq K (world c) v (of_nat irq) (of_nat p) 0 (of_nat index);
     Some (r, c\<lparr>world := w\<rparr>) }"

fun vmm_configure ::
  "('w, 'e) sel4_kernel \<Rightarrow> 'w VMMGICCallbacks \<Rightarrow> NodeIndex \<Rightarrow> QualifiedIRQ \<Rightarrow> ConfigureAction \<Rightarrow>
     ('e, unit, 'w VMMGICCallbacks) callback" where
  "vmm_configure K c calling_node (QualifiedPPI node irq) action =
     (case map_of (ppi_map (irq_map c)) irq of
        Some (in_index, must_ack) \<Rightarrow> do {
          ep \<leftarrow> vec_get (event_server_client c) calling_node;
          Some (Inr (), c\<lparr>world := k_call K (world c) ep (Client_Configure calling_node in_index action)\<rparr>) }
      | None \<Rightarrow> do {
          v \<leftarrow> vec_get (vcpus c) node;
          let (r, w) = k_ack_vppi K (world c) v (of_nat irq);
          Some (r, c\<lparr>world := w\<rparr>) })"
| "vmm_configure K c calling_node (SPI irq) action =
     (case map_of (spi_map (irq_map c)) irq of
        Some (in_index, nid, must_ack) \<Rightarrow> do {
          ep \<leftarrow> vec_get (event_server_client c) calling_node;
          Some (Inr (), c\<lparr>world := k_call K (world c) ep (Client_Configure nid in_index action)\<rparr>) }
      | None \<Rightarrow> None)"

definition vmm_callbacks :: "('w, 'e) sel4_kernel \<Rightarrow> ('w VMMGICCallbacks, 'e) GICCallbacks" where
  "vmm_callbacks K = \<lparr>
     cb_ack = vmm_ack K,
     cb_vcpu_inject_irq = vmm_vcpu_inject_irq K,
     cb_set_affinity = \<lambda>c _ _ _. Some (Inr (), c),
     cb_set_priority = \<lambda>c calling_node irq p. vmm_configure K c calling_node irq (SetPriority p),
     cb_set_enabled = \<lambda>c calling_node irq e. vmm_configure K c calling_node irq (SetEnabled e)\<rparr>"

section \<open>Trapped accesses to the distributor\<close>

definition SYS_PUTCHAR :: u64 where "SYS_PUTCHAR = 1337"

definition DISTRIBUTOR_SIZE :: u64 where "DISTRIBUTOR_SIZE = 4096"

definition offset_in_region :: "u64 \<Rightarrow> u64 \<Rightarrow> u64 \<Rightarrow> u64 option" where
  "offset_in_region addr region_start region_size =
     (if region_start \<le> addr \<and> addr < region_start + region_size then Some (addr - region_start) else None)"

text \<open>The register access of a TCB, as functions on the state the callbacks carry.\<close>

record ('c, 'e) tcb_ops =
  t_read :: "'c \<Rightarrow> TCB \<Rightarrow> 'e + UserContext"
  t_write :: "'c \<Rightarrow> TCB \<Rightarrow> UserContext \<Rightarrow> ('e + unit) \<times> 'c"

definition unwrap_sum :: "'e + 'a \<Rightarrow> 'a option" where
  "unwrap_sum r = (case r of Inl _ \<Rightarrow> None | Inr a \<Rightarrow> Some a)"

definition read_registers :: "('c, 'e) tcb_ops \<Rightarrow> 'c GIC \<Rightarrow> TCB \<Rightarrow> UserContext option" where
  "read_registers ops g tcb = unwrap_sum (t_read ops (callbacks g) tcb)"

definition write_registers :: "('c, 'e) tcb_ops \<Rightarrow> 'c GIC \<Rightarrow> TCB \<Rightarrow> UserContext \<Rightarrow> 'c GIC option" where
  "write_registers ops g tcb ctx = (
     let (r, c) = t_write ops (callbacks g) tcb ctx
     in map_option (\<lambda>_. g\<lparr>callbacks := c\<rparr>) (unwrap_sum r))"

definition handle_gic_distributor_fault ::
  "('c, 'e) tcb_ops \<Rightarrow> ('c, 'f) GICCallbacks \<Rightarrow> 'c GIC \<Rightarrow> NodeIndex \<Rightarrow> TCB \<Rightarrow> VMFault \<Rightarrow> nat \<Rightarrow>
     ('f, unit, 'c) gic_method" where
  "handle_gic_distributor_fault ops cb g node tcb fault offset = do {
     rust_assert (is_valid fault);
     al \<leftarrow> is_aligned fault;
     rust_assert al;
     w \<leftarrow> is_write fault;
     if w then do {
       ctx \<leftarrow> read_registers ops g tcb;
       data \<leftarrow> vmfault_data fault ctx;
       try_method (GIC_handle_write cb g node offset data) (\<lambda>_ g. do {
         g \<leftarrow> write_registers ops g tcb (advance ctx);
         Some (Inr (), g) }) }
     else do {
       r \<leftarrow> is_read fault;
       if r then do {
         wd \<leftarrow> width fault;
         try_method (GIC_handle_read g node offset wd) (\<lambda>data g. do {
           ctx \<leftarrow> read_registers ops g tcb;
           ctx \<leftarrow> emulate_read fault ctx data;
           g \<leftarrow> write_registers ops g tcb (advance ctx);
           Some (Inr (), g) }) }
       else None } }"

definition vmm_tcb_ops :: "('w, 'e) sel4_kernel \<Rightarrow> ('w VMMGICCallbacks, 'e) tcb_ops" where
  "vmm_tcb_ops K = \<lparr>
     t_read = \<lambda>c tcb. k_read_all_registers K (world c) tcb,
     t_write = \<lambda>c tcb ctx. let (r, w) = k_write_all_registers K (world c) tcb ctx in (r, c\<lparr>world := w\<rparr>)\<rparr>"

section \<open>The nodes of a virtual machine\<close>

record 'x VMMNode =
  node_index :: NodeIndex
  tcb :: TCB
  vcpu :: VCPU
  ep :: Endpoint
  fault_reply_slot :: Endpoint
  gic_dist_paddr :: u64
  extension :: 'x

text \<open>
  The state the nodes share, and the message registers of the node that runs. \<open>started\<close> lists the
  closures handed to \<^verbatim>\<open>Thread::start\<close>: a node with the entry point and context it is to begin with.
\<close>

record ('w, 'x) VMM =
  gic :: "'w VMMGICCallbacks GIC"
  nodes :: "'x VMMNode option list"
  started :: "('x VMMNode \<times> u64 \<times> u64) list"
  bitfields :: "NodeIndex \<Rightarrow> bitfield"

type_synonym ('w, 'x, 'e) vmm_method = "('e gic_error, unit, ('w, 'x) VMM) fallible"

record ('w, 'x, 'e) VMMExtension =
  ext_handle_wf :: "'x VMMNode \<Rightarrow> ('w, 'x) VMM \<Rightarrow> ('w, 'x, 'e) vmm_method"
  ext_handle_syscall ::
    "'x VMMNode \<Rightarrow> UnknownSyscall \<Rightarrow> message_registers \<Rightarrow> ('w, 'x) VMM \<Rightarrow> ('w, 'x, 'e) vmm_method"
  ext_handle_putchar :: "'x VMMNode \<Rightarrow> u8 \<Rightarrow> ('w, 'x) VMM \<Rightarrow> ('w, 'x, 'e) vmm_method"

definition on_gic :: "('w, 'x) VMM \<Rightarrow> ('e, unit, 'w VMMGICCallbacks) gic_method \<Rightarrow> ('w, 'x, 'e) vmm_method" where
  "on_gic st m = map_option (\<lambda>(r, g). (r, st\<lparr>gic := g\<rparr>)) m"

definition do_reply :: "('w, 'e) sel4_kernel \<Rightarrow> nat \<Rightarrow> message_registers \<Rightarrow> ('w, 'x) VMM \<Rightarrow> ('w, 'x) VMM" where
  "do_reply K len mrs st = (
     let g = gic st; c = callbacks g
     in st\<lparr>gic := g\<lparr>callbacks := c\<lparr>world := k_reply K (world c) len mrs\<rparr>\<rparr>\<rparr>)"

definition advance_and_reply ::
  "('w, 'e) sel4_kernel \<Rightarrow> sel4_sys \<Rightarrow> UnknownSyscall \<Rightarrow> message_registers \<Rightarrow> ('w, 'x) VMM \<Rightarrow> ('w, 'x) VMM" where
  "advance_and_reply K sys fault mrs st =
     do_reply K (num_regs_for_gprs_and_pc sys) (syscall_advance sys fault mrs) st"

definition handle_page_fault ::
  "('w, 'e) sel4_kernel \<Rightarrow> 'x VMMNode \<Rightarrow> VMFault \<Rightarrow> ('w, 'x) VMM \<Rightarrow> ('w, 'x, 'e) vmm_method" where
  "handle_page_fault K node fault st =
     (case offset_in_region (vmf_addr fault) (gic_dist_paddr node) DISTRIBUTOR_SIZE of
        None \<Rightarrow> None
      | Some offset \<Rightarrow>
          on_gic st (handle_gic_distributor_fault (vmm_tcb_ops K) (vmm_callbacks K) (gic st)
            (node_index node) (tcb node) fault (unat offset)))"

definition sys_putchar ::
  "('w, 'e) sel4_kernel \<Rightarrow> sel4_sys \<Rightarrow> ('w, 'x, 'e) VMMExtension \<Rightarrow> 'x VMMNode \<Rightarrow> UnknownSyscall \<Rightarrow>
     message_registers \<Rightarrow> ('w, 'x) VMM \<Rightarrow> ('w, 'x, 'e) vmm_method" where
  "sys_putchar K sys ext node fault mrs st =
     try_method (ext_handle_putchar ext node (ucast (x0 fault)) st) (\<lambda>_ st.
       Some (Inr (), advance_and_reply K sys fault mrs st))"

definition take_node :: "nat \<Rightarrow> ('w, 'x) VMM \<Rightarrow> ('x VMMNode \<times> ('w, 'x) VMM) option" where
  "take_node target st = do {
     this \<leftarrow> vec_get (nodes st) target;
     ns \<leftarrow> vec_set (nodes st) target None;
     n \<leftarrow> this;
     Some (n, st\<lparr>nodes := ns\<rparr>) }"

definition sys_psci ::
  "('w, 'e) sel4_kernel \<Rightarrow> sel4_sys \<Rightarrow> UnknownSyscall \<Rightarrow> message_registers \<Rightarrow> ('w, 'x) VMM \<Rightarrow>
     ('w, 'x, 'e) vmm_method" where
  "sys_psci K sys fault mrs st = do {
     call \<leftarrow> unwrap_sum (psci_parse fault);
     (ret, st) \<leftarrow> (case call of
        Call_Version \<Rightarrow> Some (PSCI_VERSION, st)
      | Call_Features qfid \<Rightarrow> Some (if qfid = FID_CPU_ON then 0 else RET_NOT_SUPPORTED, st)
      | Call_CpuOn target entry ctx_id \<Rightarrow> do {
          (node, st) \<leftarrow> take_node target st;
          Some (RET_SUCCESS, st\<lparr>started := started st @ [(node, entry, ctx_id)]\<rparr>) }
      | Call_MigrateInfoType \<Rightarrow> Some (RET_NOT_SUPPORTED, st));
     i \<leftarrow> mr_gpr sys 0;
     Some (Inr (), advance_and_reply K sys fault (mrs(i := scast ret)) st) }"

text \<open>What a started closure does before it enters the node's event loop.\<close>

definition cpu_on_entry ::
  "('w, 'e) sel4_kernel \<Rightarrow> 'x VMMNode \<times> u64 \<times> u64 \<Rightarrow> ('w, 'x) VMM \<Rightarrow> ('w, 'x) VMM option" where
  "cpu_on_entry K = (\<lambda>(node, entry, ctx_id) st. do {
     ctx \<leftarrow> read_registers (vmm_tcb_ops K) (gic st) (tcb node);
     ctx \<leftarrow> set_gpr (ctx\<lparr>pc := entry\<rparr>) 0 ctx_id;
     g \<leftarrow> write_registers (vmm_tcb_ops K) (gic st) (tcb node) ctx;
     Some (st\<lparr>gic := g\<rparr>) })"

definition handle_syscall ::
  "('w, 'e) sel4_kernel \<Rightarrow> sel4_sys \<Rightarrow> ('w, 'x, 'e) VMMExtension \<Rightarrow> 'x VMMNode \<Rightarrow> UnknownSyscall \<Rightarrow>
     message_registers \<Rightarrow> ('w, 'x) VMM \<Rightarrow> ('w, 'x, 'e) vmm_method" where
  "handle_syscall K sys ext node fault mrs st =
     (if us_syscall fault = SYS_PSCI then sys_psci K sys fault mrs st
      else if us_syscall fault = SYS_PUTCHAR then sys_putchar K sys ext node fault mrs st
      else ext_handle_syscall ext node fault mrs st)"

section \<open>The event loop\<close>

text \<open>The interrupt an event stands for: the loops over the two interrupt maps.\<close>

fun find_ppi :: "NodeIndex \<Rightarrow> nat \<Rightarrow> (IRQ \<times> nat \<times> bool) list \<Rightarrow> QualifiedIRQ option" where
  "find_ppi node in_index [] = None"
| "find_ppi node in_index ((ppi, ppi_in_index, _) # rest) =
     (if ppi_in_index = in_index then Some (QualifiedPPI node ppi) else find_ppi node in_index rest)"

fun find_spi :: "NodeIndex \<Rightarrow> nat \<Rightarrow> (IRQ \<times> nat \<times> nat \<times> bool) list \<Rightarrow> QualifiedIRQ option option" where
  "find_spi node in_index [] = Some None"
| "find_spi node in_index ((spi, spi_in_index, nid, _) # rest) = do {
     rust_assert (nid = node);
     if spi_in_index = in_index then Some (Some (SPI spi)) else find_spi node in_index rest }"

definition event_irq :: "IRQMap \<Rightarrow> NodeIndex \<Rightarrow> nat \<Rightarrow> QualifiedIRQ option" where
  "event_irq m node in_index =
     (case find_ppi node in_index (ppi_map m) of
        Some q \<Rightarrow> Some q
      | None \<Rightarrow> do { q \<leftarrow> find_spi node in_index (spi_map m); q })"

definition handle_event_bit ::
  "('w, 'e) sel4_kernel \<Rightarrow> 'x VMMNode \<Rightarrow> nat \<Rightarrow> 'w VMMGICCallbacks GIC \<Rightarrow>
     ('e gic_error, unit, 'w VMMGICCallbacks GIC) fallible" where
  "handle_event_bit K node in_index g = do {
     irq \<leftarrow> event_irq (irq_map (callbacks g)) (node_index node) in_index;
     handle_irq (vmm_callbacks K) g (node_index node) irq }"

definition handle_events ::
  "('w, 'e) sel4_kernel \<Rightarrow> 'x VMMNode \<Rightarrow> u64 \<Rightarrow> ('w, 'x) VMM \<Rightarrow> ('w, 'x, 'e) vmm_method" where
  "handle_events K node badge st =
     map_option (\<lambda>(r, bf, g). (r, st\<lparr>gic := g, bitfields := (bitfields st)(node_index node := bf)\<rparr>))
       (bitfield_clear badge (handle_event_bit K node) (bitfields st (node_index node), gic st))"

definition handle_fault ::
  "('w, 'e) sel4_kernel \<Rightarrow> sel4_sys \<Rightarrow> ('w, 'x, 'e) VMMExtension \<Rightarrow> 'x VMMNode \<Rightarrow> Fault \<Rightarrow>
     message_registers \<Rightarrow> ('w, 'x) VMM \<Rightarrow> ('w, 'x, 'e) vmm_method" where
  "handle_fault K sys ext node fault mrs st = (case fault of
     F_VMFault f \<Rightarrow>
       try_method (handle_page_fault K node f st) (\<lambda>_ st. Some (Inr (), do_reply K 0 mrs st))
   | F_UnknownSyscall f \<Rightarrow> handle_syscall K sys ext node f mrs st
   | F_VGICMaintenance f \<Rightarrow> do {
       idx \<leftarrow> vgic_idx f;
       try_method (on_gic st (handle_maintenance (vmm_callbacks K) (gic st) (node_index node) (unat idx)))
         (\<lambda>_ st. Some (Inr (), do_reply K 0 mrs st)) }
   | F_VCPUFault f \<Rightarrow> if is_wf f then ext_handle_wf ext node st else None
   | F_VPPIEvent f \<Rightarrow>
       try_method (on_gic st (handle_irq (vmm_callbacks K) (gic st) (node_index node)
           (QualifiedPPI (node_index node) (unat (vppi_irq f)))))
         (\<lambda>_ st. Some (Inr (), do_reply K 0 mrs st))
   | _ \<Rightarrow> None)"

text \<open>
  One round of \<^verbatim>\<open>VMMNode::run\<close> on a received message: badge 0 is a fault of the virtual CPU, any
  other badge names groups of events.
\<close>

definition run_step ::
  "('w, 'e) sel4_kernel \<Rightarrow> sel4_sys \<Rightarrow> ('w, 'x, 'e) VMMExtension \<Rightarrow> 'x VMMNode \<Rightarrow>
     u64 \<Rightarrow> nat \<Rightarrow> nat \<Rightarrow> message_registers \<Rightarrow> ('w, 'x) VMM \<Rightarrow> ('w, 'x, 'e) vmm_method" where
  "run_step K sys ext node badge label len mrs st =
     (if badge = 0 then do {
        fault \<leftarrow> Fault_get sys mrs label len;
        handle_fault K sys ext node fault mrs st }
      else handle_events K node badge st)"

section \<open>Start-up\<close>

record 'x VMMNodeConfig =
  nc_tcb :: TCB
  nc_vcpu :: VCPU
  nc_ep :: Endpoint
  nc_fault_reply_slot :: Endpoint
  nc_extension :: 'x

text \<open>\<^verbatim>\<open>VMMConfig::run\<close> up to entering node 0's event loop.\<close>

definition VMMConfig_run ::
  "'w \<Rightarrow> Endpoint list \<Rightarrow> IRQMap \<Rightarrow> u64 \<Rightarrow> 'x VMMNodeConfig list \<Rightarrow> (NodeIndex \<Rightarrow> bitfield) \<Rightarrow>
     ('x VMMNode \<times> ('w, 'x) VMM) option" where
  "VMMConfig_run w eps m paddr cfgs bfs = do {
     g \<leftarrow> GIC_new (length cfgs)
       \<lparr>vcpus = map nc_vcpu cfgs, event_server_client = eps, irq_map = m, world = w\<rparr>;
     rust_assert (length cfgs \<le> length eps);
     let ns = map (\<lambda>(i, c). Some \<lparr>node_index = i, tcb = nc_tcb c, vcpu = nc_vcpu c, ep = nc_ep c,
                     fault_reply_slot = nc_fault_reply_slot c, gic_dist_paddr = paddr,
                     extension = nc_extension c\<rparr>) (enumerate 0 cfgs);
     take_node 0 \<lparr>gic = g, nodes = ns, started = [], bitfields = bfs\<rparr> }"

end
