(* ===== verification/VmmExt.thy ===== *)
theory VmmExt
  imports Vmm
begin

text \<open>
  The two instances of the monitor: the extension of a realm's monitor
  (\<^verbatim>\<open>hypervisor/components/vmm/realm/src/main.rs\<close>), which offers nothing beyond the core, and the
  extension of the host's (\<^verbatim>\<open>hypervisor/components/vmm/host/src/main.rs\<close>), which passes system calls
  through to the resource server. Debug output has no effect on the state.
\<close>

section \<open>Realms\<close>

definition realm_extension :: "('w, 'x, 'e) VMMExtension" where
  "realm_extension = \<lparr>
     ext_handle_wf = \<lambda>_ _. None,
     ext_handle_syscall = \<lambda>_ _ _ _. None,
     ext_handle_putchar = \<lambda>_ _ st. Some (Inr (), st)\<rparr>"

section \<open>The host\<close>

record HostExtension =
  resource_server_ep :: Endpoint
  event_server_control_ep :: Endpoint
  benchmark_server_ep :: Endpoint

definition RESOURCE_SERVER_PASSTHRU :: u64 where "RESOURCE_SERVER_PASSTHRU = 1338"

definition SYS_DIRECT :: u64 where "SYS_DIRECT = 1538"

text \<open>\<^verbatim>\<open>(0..length).map(|i| fault.gpr(i + 1)).collect()\<close>: an index above 7 panics.\<close>

fun collect_gprs :: "UnknownSyscall \<Rightarrow> nat \<Rightarrow> nat \<Rightarrow> u64 list option" where
  "collect_gprs fault i 0 = Some []"
| "collect_gprs fault i (Suc n) = do {
     v \<leftarrow> syscall_gpr fault (i + 1);
     vs \<leftarrow> collect_gprs fault (i + 1) n;
     Some (v # vs) }"

text \<open>\<^verbatim>\<open>for i in 0..6 { mr_gpr(i + 1).set(r[i]) }\<close>\<close>

definition set_result_mrs :: "sel4_sys \<Rightarrow> u64 list \<Rightarrow> message_registers \<Rightarrow> message_registers option" where
  "set_result_mrs sys r mrs =
     for_each [0..<6] (\<lambda>i mrs. do {
       k \<leftarrow> mr_gpr sys (i + 1);
       v \<leftarrow> vec_get r i;
       Some (mrs(k := v)) }) mrs"

definition userspace_syscall ::
  "('w, 'e) sel4_kernel \<Rightarrow> sel4_sys \<Rightarrow> 'x VMMNode \<Rightarrow> UnknownSyscall \<Rightarrow> message_registers \<Rightarrow>
     ('x VMMNode \<Rightarrow> u64 list \<Rightarrow> ('w, 'x) VMM \<Rightarrow> ('e gic_error, u64 list, ('w, 'x) VMM) fallible) \<Rightarrow>
     ('w, 'x) VMM \<Rightarrow> ('w, 'x, 'e) vmm_method" where
  "userspace_syscall K sys node fault mrs f st = do {
     let len = unat (x0 fault);
     parameters \<leftarrow> collect_gprs fault 0 len;
     try_method (f node parameters st) (\<lambda>r st. do {
       rust_assert (length r \<le> 6);
       k \<leftarrow> mr_gpr sys 0;
       mrs \<leftarrow> set_result_mrs sys (r @ replicate (6 - length r) 0) (mrs(k := of_nat (length r)));
       Some (Inr (), advance_and_reply K sys fault mrs st) }) }"

text \<open>\<open>passthru\<close> is the call of the resource server's endpoint with a proxied message.\<close>

definition sys_resource_server_passthru ::
  "('w, 'e) sel4_kernel \<Rightarrow> ('w \<Rightarrow> Endpoint \<Rightarrow> u64 list \<Rightarrow> u64 list \<times> 'w) \<Rightarrow> sel4_sys \<Rightarrow>
     HostExtension VMMNode \<Rightarrow> UnknownSyscall \<Rightarrow> message_registers \<Rightarrow>
     ('w, HostExtension) VMM \<Rightarrow> ('w, HostExtension, 'e) vmm_method" where
  "sys_resource_server_passthru K passthru sys node fault mrs st =
     userspace_syscall K sys node fault mrs (\<lambda>node values st.
       (let g = gic st; c = callbacks g;
            (resp, w) = passthru (world c) (resource_server_ep (extension node)) values
        in Some (Inr resp, st\<lparr>gic := g\<lparr>callbacks := c\<lparr>world := w\<rparr>\<rparr>\<rparr>))) st"

text \<open>Outside the benchmark build \<^verbatim>\<open>direct\<close> panics.\<close>

definition sys_direct ::
  "('w, 'e) sel4_kernel \<Rightarrow> sel4_sys \<Rightarrow> HostExtension VMMNode \<Rightarrow> UnknownSyscall \<Rightarrow> message_registers \<Rightarrow>
     ('w, HostExtension) VMM \<Rightarrow> ('w, HostExtension, 'e) vmm_method" where
  "sys_direct K sys node fault mrs st = userspace_syscall K sys node fault mrs (\<lambda>_ _ _. None) st"

definition host_extension ::
  "('w, 'e) sel4_kernel \<Rightarrow> ('w \<Rightarrow> Endpoint \<Rightarrow> u64 list \<Rightarrow> u64 list \<times> 'w) \<Rightarrow> sel4_sys \<Rightarrow>
     ('w, HostExtension, 'e) VMMExtension" where
  "host_extension K passthru sys = \<lparr>
     ext_handle_wf = \<lambda>_ _. None,
     ext_handle_syscall = \<lambda>node fault mrs st.
       (if us_syscall fault = RESOURCE_SERVER_PASSTHRU
        then sys_resource_server_passthru K passthru sys node fault mrs st
        else if us_syscall fault = SYS_DIRECT then sys_direct K sys node fault mrs st
        else None),
     ext_handle_putchar = \<lambda>_ _ st. Some (Inr (), st)\<rparr>"

end
