(* ===== verification/GicTotal.thy ===== *)
theory GicTotal
  imports GicDelivery
begin

text \<open>
  The interrupt controller and its environment: the contract \<open>gic_client\<close> says that the callbacks do
  not panic on nodes that exist and keep an invariant of their own state. Under it delivering and
  ending an interrupt returns. The monitor's callbacks interpret the contract in \<open>VmmProps\<close>.
\<close>

fun qualified_node :: "nat \<Rightarrow> QualifiedIRQ \<Rightarrow> bool" where
  "qualified_node n (QualifiedPPI node irq) \<longleftrightarrow> node < n"
| "qualified_node n (SPI irq) \<longleftrightarrow> True"

text \<open>The nodes an SPI may go to all exist.\<close>

definition spi_targets_ok :: "Distributor \<Rightarrow> IRQ \<Rightarrow> bool" where
  "spi_targets_ok d irq \<longleftrightarrow>
     (case get_spi_targets d irq of None \<Rightarrow> False | Some ts \<Rightarrow> list_all (\<lambda>t. t < num_nodes d) (biterate ts))"

fun deliverable :: "'c GIC \<Rightarrow> QualifiedIRQ \<Rightarrow> bool" where
  "deliverable g (QualifiedPPI node irq) \<longleftrightarrow> node < gic_num_nodes g \<and> irq < 1020"
| "deliverable g (SPI irq) \<longleftrightarrow> 32 \<le> irq \<and> irq < 1020 \<and> spi_targets_ok (dist g) irq"

locale gic_client =
  fixes cb :: "('c, 'f) GICCallbacks"
    and cinv :: "nat \<Rightarrow> 'c \<Rightarrow> bool"
  assumes ack_total: "cinv n c \<Longrightarrow> calling < n \<Longrightarrow> qualified_node n q \<Longrightarrow>
      \<exists>r c'. cb_ack cb c calling q = Some (r, c') \<and> cinv n c'"
    and inject_total: "cinv n c \<Longrightarrow> calling < n \<Longrightarrow> target < n \<Longrightarrow>
      \<exists>r c'. cb_vcpu_inject_irq cb c calling target index irq p = Some (r, c') \<and> cinv n c'"
begin

lemma on_callback_total:
  assumes "m = Some (r, c)" "cinv (gic_num_nodes g) c"
  shows "\<exists>r g'. on_callback g m = Some (r, g') \<and> cinv (gic_num_nodes g) (callbacks g')"
  using assms by (cases r) (simp_all add: on_callback_def)

lemma inject_irq_total:
  assumes g: "wf_gic g" "cinv (gic_num_nodes g) (callbacks g)"
    and b: "calling < gic_num_nodes g" "t < gic_num_nodes g" "i < NUM_LRS" "irq < 1020"
  shows "\<exists>r g'. inject_irq cb g calling t i irq = Some (r, g') \<and> cinv (gic_num_nodes g) (callbacks g')"
proof (cases "due_if_pending (dist g) irq t")
  case True
  obtain d' where j: "inject_irq cb g calling t i irq =
      on_callback (with_slot (g\<lparr>dist := d'\<rparr>) t i (Some irq))
        (cb_vcpu_inject_irq cb (callbacks g) calling t i irq (lr_priority (dist g) irq t))"
    by (rule inject_irq_due [OF g(1) b(4,2,3) True])
  obtain r c where "cb_vcpu_inject_irq cb (callbacks g) calling t i irq (lr_priority (dist g) irq t) = Some (r, c)"
    "cinv (gic_num_nodes g) c" using inject_total [OF g(2) b(1,2)] by blast
  with j on_callback_total [of _ r c "with_slot (g\<lparr>dist := d'\<rparr>) t i (Some irq)"] show ?thesis by simp
next
  case False
  show ?thesis by (rule inject_irq_not_due [OF g(1) b(4,2) False, of cb calling i]) (use g(2) in simp)
qed

lemma forward_irq_total:
  assumes g: "wf_gic g" "cinv (gic_num_nodes g) (callbacks g)"
    and b: "calling < gic_num_nodes g" "t < gic_num_nodes g" "irq < 1020"
  shows "\<exists>r g'. forward_irq cb g calling t irq = Some (r, g') \<and> cinv (gic_num_nodes g) (callbacks g')"
proof -
  have t: "t < length (lrs g)" using g b by (simp add: wf_gic_def)
  show ?thesis
  proof (cases "first_free 0 (mirror (lrs g ! t))")
    case None
    with t g(2) show ?thesis by (auto simp: forward_irq_def irq_in_lrs_overflow_def set_overflow_def)
  next
    case (Some i)
    have "i < NUM_LRS" using first_free_bound [OF Some] wf_lr_nth [OF g(1) t] by (simp add: wf_lr_def)
    from inject_irq_total [OF g b(1,2) this b(3)] Some t show ?thesis by (simp add: forward_irq_def)
  qed
qed

lemma handle_irq_total:
  assumes g: "wf_gic g" "cinv (gic_num_nodes g) (callbacks g)"
    and q: "deliverable g q" and c: "calling < gic_num_nodes g"
  shows "\<exists>r g'. handle_irq cb g calling q = Some (r, g') \<and> cinv (gic_num_nodes g) (callbacks g')"
proof (cases q)
  case (QualifiedPPI node irq)
  with q forward_irq_total [OF g c, of node irq] show ?thesis by simp
next
  case (SPI irq)
  have d: "wf_dist (dist g)" "num_nodes (dist g) = gic_num_nodes g" using g(1) by (simp_all add: wf_gic_def)
  have irq: "irq < 1020" and ts: "spi_targets_ok (dist g) irq" using q SPI by simp_all
  obtain b where b: "is_target (dist g) irq calling = Some b" using is_target_eq [OF d(1) irq] by blast
  show ?thesis
  proof (cases b)
    case True
    with b SPI forward_irq_total [OF g c c irq] show ?thesis by simp
  next
    case False
    obtain ts where "get_spi_targets (dist g) irq = Some ts" "list_all (\<lambda>t. t < gic_num_nodes g) (biterate ts)"
      using ts d(2) by (auto simp: spi_targets_ok_def split: option.splits)
    with b False SPI forward_irq_total [OF g c, of _ irq] irq g(2) show ?thesis
      by (auto split: list.splits)
  qed
qed

lemma handle_maintenance_total:
  assumes g: "gic_sync g" "gic_num_nodes g \<le> 8" "cinv (gic_num_nodes g) (callbacks g)"
    and b: "node < gic_num_nodes g" "i < NUM_LRS" and m: "mirror (lrs g ! node) ! i = Some irq"
  shows "\<exists>r g'. handle_maintenance cb g node i = Some (r, g') \<and> cinv (gic_num_nodes g) (callbacks g')"
proof -
  have wf: "wf_gic g" "lr_sync g" using g(1) by (simp_all add: gic_sync_def)
  have l: "node < length (lrs g)" "i < length (mirror (lrs g ! node))"
    using wf(1) b wf_lr_nth [OF wf(1), of node] by (simp_all add: wf_gic_def wf_lr_def)
  have d: "wf_dist (dist g)" "num_nodes (dist g) = gic_num_nodes g" using wf(1) by (simp_all add: wf_gic_def)
  have "irq < 1024" using lr_sync_active [OF wf(2) b m] by simp
  then obtain d' where a: "ack (dist g) irq node = Some (Inr (), d')"
    using ack_result [OF d(1), of irq node] d(2) g(2) b(1) by auto
  define g1 where "g1 = (with_slot g node i None)\<lparr>dist := d'\<rparr>"
  have s1: "gic_sync g1" using end_irq_sync(1) [OF g(1,2) b m a] by (simp add: g1_def)
  have n1: "gic_num_nodes g1 = gic_num_nodes g" "callbacks g1 = callbacks g" by (simp_all add: g1_def)
  let ?q = "maintenance_irq node irq"
  have "qualified_node (gic_num_nodes g) ?q" using b(1) by (simp add: maintenance_irq_def)
  from ack_total [OF g(3) b(1) this] n1(2)
  obtain r c where cb1: "cb_ack cb (callbacks g1) node ?q = Some (r, c)" "cinv (gic_num_nodes g) c" by auto
  let ?k = "\<lambda>g. do { lr \<leftarrow> vec_get (lrs g) node;
     case overflow lr of [] \<Rightarrow> Some (Inr (), g)
     | irq # rest \<Rightarrow> do { g \<leftarrow> set_overflow g node rest; inject_irq cb g node node i irq } }"
  have h: "handle_maintenance cb g node i = try_method (on_callback g1 (Some (r, c))) (\<lambda>_. ?k)"
    using l m a cb1(1) by (simp add: handle_maintenance_def set_mirror_def on_dist_def g1_def with_slot_def)
  show ?thesis
  proof (cases r)
    case (Inl e)
    with h cb1(2) show ?thesis by (simp add: on_callback_def)
  next
    case (Inr u)
    let ?g2 = "g1\<lparr>callbacks := c\<rparr>"
    have s2: "gic_sync ?g2" using s1 by (simp add: gic_sync_def wf_gic_def)
    have l2: "node < length (lrs ?g2)" using s2 b(1) n1 by (simp add: gic_sync_def wf_gic_def)
    show ?thesis
    proof (cases "overflow (lrs ?g2 ! node)")
      case Nil
      with h Inr l2 cb1(2) show ?thesis by (simp add: on_callback_def)
    next
      case (Cons j rest)
      let ?g3 = "with_queue ?g2 node rest"
      have "list_all (\<lambda>irq. irq < 1020) (overflow (lrs ?g2 ! node))"
        using s2 l2 unfolding gic_sync_def queues_ok_def list_all_length by simp
      then have j: "j < 1020" using Cons by simp
      have "distinct rest" using s2 wf_lr_nth [of ?g2 node] l2 Cons by (simp add: gic_sync_def wf_lr_def)
      moreover have "set_overflow ?g2 node rest = Some ?g3" using l2 by (simp add: set_overflow_Some with_queue_def)
      ultimately have "wf_gic ?g3" using set_overflow_keeps [of ?g2 node rest ?g3] s2
        by (simp add: gkeeps_def gic_sync_def)
      moreover have "handle_maintenance cb g node i = inject_irq cb ?g3 node node i j"
        using h Inr l2 Cons by (simp add: on_callback_def set_overflow_def with_queue_def)
      ultimately show ?thesis
        using inject_irq_total [of ?g3 node node i j] cb1(2) b n1 j by (simp add: with_queue_def)
    qed
  qed
qed

end

end
