(* ===== verification/VmmProps.thy ===== *)
theory VmmProps
  imports VmmExt GicTotal
begin

text \<open>
  Properties of the virtual machine monitor: its callbacks meet the contract of the interrupt
  controller, so delivering interrupts does not panic; a trapped access to the distributor page acts
  on the addressed register and resumes the guest after the instruction; PSCI starts each virtual
  CPU at most once; and every round of the event loop keeps the monitor's invariant.
\<close>

section \<open>The monitor as the controller's client\<close>

definition vmm_cinv :: "nat \<Rightarrow> 'w VMMGICCallbacks \<Rightarrow> bool" where
  "vmm_cinv n c \<longleftrightarrow> n \<le> length (vcpus c) \<and> n \<le> length (event_server_client c)"

lemma vmm_cinv_world [simp]: "vmm_cinv n (c\<lparr>world := w\<rparr>) = vmm_cinv n c"
  by (simp add: vmm_cinv_def)

interpretation vmm: gic_client "vmm_callbacks K" vmm_cinv
proof (unfold_locales, goal_cases)
  case (1 n c calling q)
  then have "calling < length (event_server_client c)" by (simp add: vmm_cinv_def)
  moreover have "node < length (vcpus c)" if "q = QualifiedPPI node irq" for node irq
    using that 1 by (simp add: vmm_cinv_def)
  ultimately show ?case
    using 1(1) by (cases q) (auto simp: vmm_callbacks_def Let_def split: option.splits prod.splits)
next
  case (2 n c calling target index irq p)
  then have "target < length (vcpus c)" by (simp add: vmm_cinv_def)
  then show ?case
    using 2(1) by (auto simp: vmm_callbacks_def vmm_vcpu_inject_irq_def Let_def split: prod.splits)
qed

text \<open>
  Delivering an interrupt never panics in the monitor: on a well-formed controller, an event
  whose line has a target register and whose target nodes exist is handled, with success or with an
  error the kernel reported, and the monitor still has a virtual CPU and a client endpoint per node.
\<close>

lemma vmm_handle_irq_total:
  assumes "wf_gic g" "vmm_cinv (gic_num_nodes g) (callbacks g)"
    and "deliverable g q" "calling < gic_num_nodes g"
  shows "\<exists>r g'. handle_irq (vmm_callbacks K) g calling q = Some (r, g')
    \<and> vmm_cinv (gic_num_nodes g) (callbacks g') \<and> wf_gic g'"
proof -
  obtain r g' where h: "handle_irq (vmm_callbacks K) g calling q = Some (r, g')"
    "vmm_cinv (gic_num_nodes g) (callbacks g')" using vmm.handle_irq_total [OF assms, of K] by blast
  with handle_irq_keeps [OF h(1)] assms(1) show ?thesis by (auto simp: gkeeps_def)
qed

text \<open>A kernel that accepts every invocation, and a monitor with one node on it.\<close>

definition unit_kernel :: "(UserContext, unit) sel4_kernel" where
  "unit_kernel = \<lparr>k_read_all_registers = \<lambda>w _. Inr w, k_write_all_registers = \<lambda>_ _ c. (Inr (), c),
     k_inject_irq = \<lambda>w _ _ _ _ _. (Inr (), w), k_ack_vppi = \<lambda>w _ _. (Inr (), w),
     k_call = \<lambda>w _ _. w, k_reply = \<lambda>w _ _. w\<rparr>"

definition unit_callbacks :: "UserContext VMMGICCallbacks" where
  "unit_callbacks = \<lparr>vcpus = [1], event_server_client = [2], irq_map = \<lparr>ppi_map = [], spi_map = []\<rparr>,
     world = example_context\<rparr>"

definition unit_gic :: "UserContext VMMGICCallbacks GIC" where
  "unit_gic = \<lparr>gic_num_nodes = 1, callbacks = unit_callbacks, dist = Distributor_zeroed 1,
     lrs = [\<lparr>mirror = replicate NUM_LRS None, overflow = []\<rparr>]\<rparr>"

lemma wf_unit_gic: "wf_gic unit_gic" "vmm_cinv (gic_num_nodes unit_gic) (callbacks unit_gic)"
  by (simp_all add: unit_gic_def wf_gic_def wf_lr_def vmm_cinv_def unit_callbacks_def)

lemma vmm_handle_irq_total_witness:
  "\<exists>r g'. handle_irq (vmm_callbacks unit_kernel) unit_gic 0 (QualifiedPPI 0 27) = Some (r, g')"
  using vmm_handle_irq_total [OF wf_unit_gic, of "QualifiedPPI 0 27" 0 unit_kernel]
  by (auto simp: unit_gic_def)

section \<open>Trapped accesses\<close>

lemma offset_in_region_Some:
  assumes "unat start + unat sz < 2 ^ 64"
  shows "offset_in_region addr start sz = Some off \<longleftrightarrow>
    unat addr = unat start + unat off \<and> unat off < unat sz"
proof -
  have sum: "unat (start + sz) = unat start + unat sz"
    using assms by (simp add: unat_word_ariths)
  show ?thesis
  proof
    assume "offset_in_region addr start sz = Some off"
    then have le: "start \<le> addr" "addr < start + sz" and off: "off = addr - start"
      by (auto simp: offset_in_region_def split: if_splits)
    have "unat off = unat addr - unat start" using le(1) off by (simp add: unat_sub)
    then show "unat addr = unat start + unat off \<and> unat off < unat sz"
      using le sum by (simp add: word_le_nat_alt word_less_nat_alt)
  next
    assume a: "unat addr = unat start + unat off \<and> unat off < unat sz"
    then have le: "start \<le> addr" "addr < start + sz"
      using sum by (simp_all add: word_le_nat_alt word_less_nat_alt)
    then have "unat (addr - start) = unat off" using a by (simp add: unat_sub)
    then have "addr - start = off" by (simp add: word_unat_eq_iff)
    with le show "offset_in_region addr start sz = Some off" by (simp add: offset_in_region_def)
  qed
qed

text \<open>
  Emulating a trapped word load from the distributor page: when the distributor answers the
  read with a value, the saved context that is written back holds the value in the low word of the
  destination register, keeps its upper word and all other registers, and has its program counter
  after the load; the interrupt controller itself is unchanged but for the register write-back.
\<close>

lemma trapped_read_emulated:
  assumes f: "is_valid f" "is_aligned f = Some True" "is_read f = Some True" "width f = Some Width_Word"
    and i: "gpr_index f = Some i" "i \<noteq> 31"
    and ctx: "read_registers ops g t = Some ctx" "wf_context ctx"
    and r: "handle_read (dist g) offset node Width_Word = Some (Inr (Data_Word v, ReadNoAction))"
  shows "\<exists>ctx'. handle_gic_distributor_fault ops cb g node t f offset =
      map_option (Pair (Inr ())) (write_registers ops g t ctx')
    \<and> pc ctx' = pc ctx + 4 \<and> sp ctx' = sp ctx \<and> spsr ctx' = spsr ctx
    \<and> width_truncate Width_Word (gprs ctx' ! unat i) = Data_Word v
    \<and> (\<forall>b\<ge>32. bit (gprs ctx' ! unat i) b = bit (gprs ctx ! unat i) b)
    \<and> (\<forall>j. j \<noteq> unat i \<longrightarrow> gprs ctx' ! j = gprs ctx ! j)"
proof -
  have w: "is_write f = Some False" using f(3) by (auto simp: is_read_def split: Option.bind_splits)
  have bound: "unat i < length (gprs ctx)"
    using gpr_index_le_31 [OF i(1)] i(2) ctx(2) by (auto simp: wf_context_def order_less_le word_unat_eq_iff)
  define ctx1 where "ctx1 = ctx\<lparr>gprs := (gprs ctx)[unat i := data_set (Data_Word v) (gprs ctx ! unat i)]\<rparr>"
  have e: "emulate_read f ctx (Data_Word v) = Some ctx1"
    using f i bound by (simp add: emulate_read_def rust_assert_def gpr_def set_gpr_def ctx1_def)
  have "handle_gic_distributor_fault ops cb g node t f offset =
      map_option (Pair (Inr ())) (write_registers ops g t (advance ctx1))"
    using f w r ctx(1) e
    by (cases "write_registers ops g t (advance ctx1)")
       (simp_all add: handle_gic_distributor_fault_def rust_assert_def GIC_handle_read_def)
  moreover have "width_truncate Width_Word (gprs ctx1 ! unat i) = Data_Word v"
    using bound truncate_data_set [of "Data_Word v" "gprs ctx ! unat i"] by (simp add: ctx1_def)
  ultimately show ?thesis
    using bound by (intro exI [of _ "advance ctx1"]) (auto simp: advance_def ctx1_def bit_data_set)
qed

lemma trapped_read_emulated_witness:
  "\<exists>ctx'. handle_gic_distributor_fault (vmm_tcb_ops unit_kernel) (vmm_callbacks unit_kernel) unit_gic 0 0
      example_read_fault 0x400 = map_option (Pair (Inr ())) (write_registers (vmm_tcb_ops unit_kernel) unit_gic 0 ctx')
    \<and> pc ctx' = 0x44 \<and> width_truncate Width_Word (gprs ctx' ! 5) = Data_Word 0"
proof -
  have f: "is_valid example_read_fault" "is_aligned example_read_fault = Some True"
    "is_read example_read_fault = Some True" "width example_read_fault = Some Width_Word"
    "gpr_index example_read_fault = Some 5"
    by (simp_all add: syndrome_defs example_defs)
  have c: "read_registers (vmm_tcb_ops unit_kernel) unit_gic 0 = Some example_context" "wf_context example_context"
    by (simp_all add: read_registers_def vmm_tcb_ops_def unit_kernel_def unit_gic_def unit_callbacks_def
        unwrap_sum_def wf_context_def example_context_def)
  have r: "handle_read (dist unit_gic) 0x400 0 Width_Word = Some (Inr (Data_Word 0, ReadNoAction))"
    by (simp add: word_from_offset_def in_range_def calc_reg_num_def rust_assert_def unit_gic_def
        Distributor_zeroed_def read_ok_def)
  from trapped_read_emulated [OF f _ c r, of "vmm_callbacks unit_kernel"] show ?thesis
    by (auto simp: example_context_def)
qed

section \<open>The monitor's invariant\<close>

text \<open>
  The controller is well formed, a node that is still waiting sits at its own index, and the nodes
  that were started are different and no longer waiting.
\<close>

definition vmm_ok :: "('w, 'x) VMM \<Rightarrow> bool" where
  "vmm_ok st \<longleftrightarrow> wf_gic (gic st)
     \<and> (\<forall>i<length (nodes st). \<forall>n. nodes st ! i = Some n \<longrightarrow> node_index n = i)
     \<and> distinct (map (\<lambda>(n, _). node_index n) (started st))
     \<and> list_all (\<lambda>(n, _). node_index n < length (nodes st) \<and> nodes st ! node_index n = None) (started st)"

text \<open>What an extension may do to the shared state.\<close>

locale vmm_extension =
  fixes ext :: "('w, 'x, 'e) VMMExtension"
  assumes wf_keeps: "vmm_ok st \<Longrightarrow> ext_handle_wf ext node st = Some (r, st') \<Longrightarrow> vmm_ok st'"
    and syscall_keeps: "vmm_ok st \<Longrightarrow> ext_handle_syscall ext node f mrs st = Some (r, st') \<Longrightarrow> vmm_ok st'"
    and putchar_keeps: "vmm_ok st \<Longrightarrow> ext_handle_putchar ext node c st = Some (r, st') \<Longrightarrow> vmm_ok st'"

lemma vmm_ok_gic: "vmm_ok st \<Longrightarrow> gkeeps (gic st) g \<Longrightarrow> vmm_ok (st\<lparr>gic := g\<rparr>)"
  by (simp add: vmm_ok_def gkeeps_def)

lemma vmm_ok_bitfields [simp]: "vmm_ok (st\<lparr>bitfields := b\<rparr>) = vmm_ok st"
  by (simp add: vmm_ok_def)

lemma on_gic_ok:
  assumes "on_gic st m = Some (r, st')" "vmm_ok st" "\<And>x g. m = Some (x, g) \<Longrightarrow> gkeeps (gic st) g"
  shows "vmm_ok st'"
  using assms by (auto simp: on_gic_def intro: vmm_ok_gic)

lemma do_reply_ok [simp]: "vmm_ok st \<Longrightarrow> vmm_ok (do_reply K len mrs st)"
  by (simp add: do_reply_def Let_def vmm_ok_gic)

lemma write_registers_keeps: "write_registers ops g t ctx = Some g' \<Longrightarrow> gkeeps g g'"
  by (auto simp: write_registers_def split: prod.splits)

lemma distributor_fault_keeps:
  assumes "handle_gic_distributor_fault ops cb g node t f offset = Some (r, g')"
  shows "gkeeps g g'"
proof -
  have tail: "gkeeps g1 g2" if "do { g \<leftarrow> write_registers ops g1 t ctx; Some (Inr (), g) } = Some (r, g2)"
    for ctx g1 r g2 using that by (auto dest: write_registers_keeps split: Option.bind_splits)
  have rd: "gkeeps g1 g2" if "do { ctx \<leftarrow> read_registers ops g1 t; ctx \<leftarrow> emulate_read f ctx d;
      g \<leftarrow> write_registers ops g1 t (advance ctx); Some (Inr (), g) } = Some (r, g2)" for d g1 r g2
    using that by (auto dest: write_registers_keeps split: Option.bind_splits)
  obtain w where w: "is_write f = Some w"
    using assms by (auto simp: handle_gic_distributor_fault_def split: Option.bind_splits)
  show ?thesis
  proof (cases w)
    case True
    with assms w obtain ctx v where "try_method (GIC_handle_write cb g node offset v) (\<lambda>_ g. do {
        g \<leftarrow> write_registers ops g t (advance ctx); Some (Inr (), g) }) = Some (r, g')"
      by (auto simp: handle_gic_distributor_fault_def split: Option.bind_splits)
    then show ?thesis by (rule try_method_gkeeps) (erule GIC_handle_write_keeps, erule tail)
  next
    case False
    with assms w obtain wd where "try_method (GIC_handle_read g node offset wd) (\<lambda>data g. do {
        ctx \<leftarrow> read_registers ops g t; ctx \<leftarrow> emulate_read f ctx data;
        g \<leftarrow> write_registers ops g t (advance ctx); Some (Inr (), g) }) = Some (r, g')"
      by (auto simp: handle_gic_distributor_fault_def split: Option.bind_splits if_splits)
    then show ?thesis
      by (rule try_method_gkeeps) (auto dest: GIC_handle_read_state intro: rd)
  qed
qed

lemma handle_page_fault_ok:
  assumes "handle_page_fault K node f st = Some (r, st')" "vmm_ok st"
  shows "vmm_ok st'"
proof (cases "offset_in_region (vmf_addr f) (gic_dist_paddr node) DISTRIBUTOR_SIZE")
  case None
  with assms(1) show ?thesis by (simp add: handle_page_fault_def)
next
  case (Some offset)
  with assms(1) have "on_gic st (handle_gic_distributor_fault (vmm_tcb_ops K) (vmm_callbacks K) (gic st)
      (node_index node) (tcb node) f (unat offset)) = Some (r, st')" by (simp add: handle_page_fault_def)
  then show ?thesis by (rule on_gic_ok [OF _ assms(2)]) (rule distributor_fault_keeps)
qed

lemma take_node_ok:
  assumes "take_node target st = Some (n, st')" "vmm_ok st"
  shows "vmm_ok st' \<and> node_index n = target \<and> target < length (nodes st') \<and> nodes st' ! target = None
    \<and> (\<forall>p\<in>set (started st'). node_index (fst p) \<noteq> target) \<and> started st' = started st"
proof -
  have t: "target < length (nodes st)" "nodes st ! target = Some n" "st' = st\<lparr>nodes := (nodes st)[target := None]\<rparr>"
    using assms(1) by (auto simp: take_node_def vec_get_Some vec_set_Some split: Option.bind_splits)
  have n: "node_index n = target" using assms(2) t by (simp add: vmm_ok_def)
  have gone: "node_index (fst p) < length (nodes st)" "nodes st ! node_index (fst p) = None"
    if "p \<in> set (started st)" for p
    using assms(2) that by (simp_all add: vmm_ok_def list_all_iff case_prod_beta)
  have fresh: "node_index (fst p) \<noteq> target" if "p \<in> set (started st)" for p
    using gone(2) [OF that] t(2) by auto
  have "nodes st' ! i = Some m \<longrightarrow> node_index m = i" if "i < length (nodes st)" for i m
    using assms(2) t that by (cases "i = target") (auto simp: vmm_ok_def)
  moreover have "list_all (\<lambda>(n, _). node_index n < length (nodes st') \<and> nodes st' ! node_index n = None) (started st')"
    unfolding list_all_iff case_prod_beta using t gone fresh by (simp add: nth_list_update)
  ultimately have "vmm_ok st'" using assms(2) t by (simp add: vmm_ok_def)
  moreover have "\<forall>p\<in>set (started st'). node_index (fst p) \<noteq> target" using t(3) fresh by simp
  ultimately show ?thesis using n t by simp
qed

lemma start_node_ok:
  assumes "take_node target st = Some (n, st')" "vmm_ok st"
  shows "vmm_ok (st'\<lparr>started := started st' @ [(n, entry, ctx_id)]\<rparr>)"
proof -
  note t = take_node_ok [OF assms]
  then have "target \<notin> (\<lambda>(n, _). node_index n) ` set (started st')" by (force simp: case_prod_beta)
  with t show ?thesis by (auto simp: vmm_ok_def)
qed

lemma advance_and_reply_ok [simp]: "vmm_ok st \<Longrightarrow> vmm_ok (advance_and_reply K sys f mrs st)"
  by (simp add: advance_and_reply_def)

lemma sys_psci_ok:
  assumes "sys_psci K sys f mrs st = Some (r, st')" "vmm_ok st"
  shows "vmm_ok st'"
  using assms
  by (auto simp: sys_psci_def split: Option.bind_splits PsciCall.splits if_splits
      intro!: advance_and_reply_ok elim: start_node_ok)

lemma bitfield_clear_rel:
  assumes c: "bitfield_clear badge f (bf, s) = Some (r, (bf', s'))"
    and f: "\<And>b s r s'. f b s = Some (r, s') \<Longrightarrow> R s s'" and R: "\<And>s. R s s" "\<And>a b c. R a b \<Longrightarrow> R b c \<Longrightarrow> R a c"
  shows "R s s'"
proof -
  have inner: "R t t'" if "try_for_each bits (\<lambda>m. f (g * GROUP_BITS + m)) t = Some (r, t')" for bits g t r t'
    using that by (rule try_for_each_inv) (auto intro: R f)
  have "R s (snd (bf', s'))"
    using c unfolding bitfield_clear_def
  proof (rule try_for_each_inv)
    fix g p r p'
    assume "R s (snd p)" "clear_group f g p = Some (r, p')"
    then show "R s (snd p')"
      by (cases p) (auto simp: clear_group_def Let_def split: option.splits dest!: inner intro: R(2))
  qed (simp add: R)
  then show ?thesis by simp
qed

lemma handle_events_ok:
  assumes "handle_events K node badge st = Some (r, st')" "vmm_ok st"
  shows "vmm_ok st'"
proof -
  from assms(1) obtain bf g where
    c: "bitfield_clear badge (handle_event_bit K node) (bitfields st (node_index node), gic st) = Some (r, (bf, g))"
    and st': "st' = st\<lparr>gic := g, bitfields := (bitfields st)(node_index node := bf)\<rparr>"
    by (auto simp: handle_events_def)
  have "gkeeps (gic st) g"
    using c by (rule bitfield_clear_rel)
      (auto simp: handle_event_bit_def split: Option.bind_splits dest: handle_irq_keeps intro: gkeeps_trans)
  then show ?thesis using vmm_ok_gic [OF assms(2)] st' by simp
qed

lemma reply_after_ok:
  assumes "try_method m (\<lambda>_ st. Some (Inr (), do_reply K len mrs st)) = Some (r, st')"
    and "\<And>x st1. m = Some (x, st1) \<Longrightarrow> vmm_ok st1"
  shows "vmm_ok st'"
  using assms by (auto simp: try_method_result)

context vmm_extension
begin

lemma handle_syscall_ok:
  assumes "handle_syscall K sys ext node f mrs st = Some (r, st')" "vmm_ok st"
  shows "vmm_ok st'"
  using assms
  by (auto simp: handle_syscall_def sys_putchar_def try_method_result split: if_splits
      dest: sys_psci_ok putchar_keeps syscall_keeps)

lemma handle_fault_ok:
  assumes h: "handle_fault K sys ext node fault mrs st = Some (r, st')" and ok: "vmm_ok st"
  shows "vmm_ok st'"
proof (cases fault)
  case (F_VMFault f)
  with h have "try_method (handle_page_fault K node f st) (\<lambda>_ st. Some (Inr (), do_reply K 0 mrs st)) = Some (r, st')"
    by (simp add: handle_fault_def)
  then show ?thesis by (rule reply_after_ok) (rule handle_page_fault_ok [OF _ ok])
next
  case (F_UnknownSyscall f)
  with h ok show ?thesis by (auto simp: handle_fault_def intro: handle_syscall_ok)
next
  case (F_VGICMaintenance f)
  with h obtain idx :: u64 where
    "try_method (on_gic st (handle_maintenance (vmm_callbacks K) (gic st) (node_index node) (unat idx)))
       (\<lambda>_ st. Some (Inr (), do_reply K 0 mrs st)) = Some (r, st')"
    by (auto simp: handle_fault_def split: Option.bind_splits)
  then show ?thesis
    by (rule reply_after_ok) (erule on_gic_ok [OF _ ok], erule handle_maintenance_keeps)
next
  case (F_VCPUFault f)
  with h ok show ?thesis by (auto simp: handle_fault_def split: if_splits intro: wf_keeps)
next
  case (F_VPPIEvent f)
  with h have "try_method (on_gic st (handle_irq (vmm_callbacks K) (gic st) (node_index node)
       (QualifiedPPI (node_index node) (unat (vppi_irq f))))) (\<lambda>_ st. Some (Inr (), do_reply K 0 mrs st)) = Some (r, st')"
    by (simp add: handle_fault_def del: handle_irq.simps)
  then show ?thesis
    by (rule reply_after_ok) (erule on_gic_ok [OF _ ok], erule handle_irq_keeps)
qed (use h in \<open>simp_all add: handle_fault_def\<close>)

lemma run_step_ok:
  assumes "run_step K sys ext node badge label len mrs st = Some (r, st')" "vmm_ok st"
  shows "vmm_ok st'"
  using assms
  by (auto simp: run_step_def split: if_splits Option.bind_splits intro: handle_fault_ok handle_events_ok)

end

section \<open>Both instances of the monitor\<close>

interpretation realm: vmm_extension realm_extension
  by unfold_locales (simp_all add: realm_extension_def)

lemma userspace_syscall_ok:
  assumes "userspace_syscall K sys node fault mrs f st = Some (r, st')"
    and "\<And>vs x st1. f node vs st = Some (x, st1) \<Longrightarrow> vmm_ok st1"
  shows "vmm_ok st'"
  using assms
  by (auto simp: userspace_syscall_def Let_def try_method_result split: Option.bind_splits)

interpretation host: vmm_extension "host_extension K passthru sys"
proof (unfold_locales, goal_cases)
  case (2 st node f mrs r st')
  have "vmm_ok st'" if "sys_resource_server_passthru K passthru sys node f mrs st = Some (r, st')"
    using that unfolding sys_resource_server_passthru_def
    by (rule userspace_syscall_ok)
       (use 2(1) in \<open>auto simp: Let_def vmm_ok_gic split: prod.splits\<close>)
  moreover have "vmm_ok st'" if "sys_direct K sys node f mrs st = Some (r, st')"
    using that unfolding sys_direct_def by (rule userspace_syscall_ok) simp
  ultimately show ?case using 2(2) by (auto simp: host_extension_def split: if_splits)
qed (simp_all add: host_extension_def)

section \<open>Reachable states of a monitor\<close>

text \<open>
  The states a monitor reaches from its configuration: rounds of the event loops of its nodes, in
  any interleaving the locks allow, and the start of nodes that were switched on.
\<close>

inductive vmm_reach ::
  "('w, 'e) sel4_kernel \<Rightarrow> sel4_sys \<Rightarrow> ('w, 'x, 'e) VMMExtension \<Rightarrow> ('w, 'x) VMM \<Rightarrow> bool"
  for K sys ext where
  vmm_init: "VMMConfig_run w eps m paddr cfgs bfs = Some (node, st) \<Longrightarrow> vmm_reach K sys ext st"
| vmm_step: "vmm_reach K sys ext st \<Longrightarrow>
    run_step K sys ext node badge label len mrs st = Some (r, st') \<Longrightarrow> vmm_reach K sys ext st'"
| vmm_boot: "vmm_reach K sys ext st \<Longrightarrow> p \<in> set (started st) \<Longrightarrow>
    cpu_on_entry K p st = Some st' \<Longrightarrow> vmm_reach K sys ext st'"

lemma VMMConfig_run_ok:
  assumes "VMMConfig_run w eps m paddr cfgs bfs = Some (node, st)"
  shows "vmm_ok st"
proof -
  from assms obtain g ns where g: "GIC_new (length cfgs)
      \<lparr>vcpus = map nc_vcpu cfgs, event_server_client = eps, irq_map = m, world = w\<rparr> = Some g"
    and t: "take_node 0 \<lparr>gic = g, nodes = ns, started = [], bitfields = bfs\<rparr> = Some (node, st)"
    and ns: "ns = map (\<lambda>(i, c). Some \<lparr>node_index = i, tcb = nc_tcb c, vcpu = nc_vcpu c, ep = nc_ep c,
                     fault_reply_slot = nc_fault_reply_slot c, gic_dist_paddr = paddr,
                     extension = nc_extension c\<rparr>) (enumerate 0 cfgs)"
    by (auto simp: VMMConfig_run_def Let_def split: Option.bind_splits)
  have "vmm_ok \<lparr>gic = g, nodes = ns, started = [], bitfields = bfs\<rparr>"
    using GIC_new_wf [OF g] ns by (auto simp: vmm_ok_def nth_enumerate_eq)
  then show ?thesis using take_node_ok [OF t] by simp
qed

lemma cpu_on_entry_ok: "cpu_on_entry K p st = Some st' \<Longrightarrow> vmm_ok st \<Longrightarrow> vmm_ok st'"
  by (auto simp: cpu_on_entry_def split: Option.bind_splits prod.splits
      dest: write_registers_keeps intro: vmm_ok_gic)

context vmm_extension
begin

lemma vmm_reach_ok: "vmm_reach K sys ext st \<Longrightarrow> vmm_ok st"
  by (induction rule: vmm_reach.induct) (auto intro: VMMConfig_run_ok run_step_ok cpu_on_entry_ok)

end

text \<open>
  C34. In every reachable state of a realm's or the host's monitor, whatever the guest does, the
  interrupt controller is well formed, the nodes that still wait are at their own indices, and every
  node that was started is gone from the waiting nodes and was started only once.
\<close>

theorem monitor_reach_invariant:
  "(vmm_reach K sys realm_extension st \<longrightarrow> vmm_ok st)
   \<and> (vmm_reach K' sys' (host_extension K' passthru sys') st' \<longrightarrow> vmm_ok st')"
  using realm.vmm_reach_ok host.vmm_reach_ok by blast

definition one_node :: "unit VMMNodeConfig" where
  "one_node = \<lparr>nc_tcb = 1, nc_vcpu = 2, nc_ep = 3, nc_fault_reply_slot = 4, nc_extension = ()\<rparr>"

theorem monitor_reach_invariant_witness:
  "\<exists>node st. VMMConfig_run example_context [9, 9] \<lparr>ppi_map = [], spi_map = []\<rparr> 0x8000000
     [one_node, one_node] (\<lambda>_ _. 0) = Some (node, st) \<and> vmm_ok st"
proof -
  obtain d where "Distributor_new 2 = Some d" using Distributor_new_wf by blast
  then obtain node st where c: "VMMConfig_run example_context [9, 9] \<lparr>ppi_map = [], spi_map = []\<rparr> 0x8000000
     [one_node, one_node] (\<lambda>_ _. 0) = Some (node, st)"
    by (auto simp: VMMConfig_run_def GIC_new_def take_node_def rust_assert_def numeral_2_eq_2)
  then have "vmm_reach unit_kernel \<lparr>field_index = \<lambda>_. 0, tag_label = \<lambda>_. 0\<rparr> realm_extension st" by (rule vmm_init)
  with c monitor_reach_invariant show ?thesis by blast
qed

section \<open>Switching on a processor\<close>

text \<open>
  A PSCI call panics the monitor exactly when its function is not one of the four it knows or
  when it switches on a node that does not exist or was taken before. A \<^verbatim>\<open>CPU_ON\<close> that returns hands
  exactly that node, with the entry point and context of the call, to a new thread.
\<close>

lemma sys_psci_spec:
  fixes st :: "('w, 'x) VMM"
  shows "((sys_psci K sys f mrs st :: ('w, 'x, 'e) vmm_method) = None \<longleftrightarrow>
      (case psci_parse f of
         Inl _ \<Rightarrow> True
       | Inr (Call_CpuOn t _ _) \<Rightarrow> length (nodes st) \<le> t \<or> nodes st ! t = None
       | Inr _ \<Rightarrow> False))
    \<and> (\<forall>r st'. sys_psci K sys f mrs st = Some (r, st') \<longrightarrow> r = Inr ()
      \<and> (case psci_parse f of
           Inr (Call_CpuOn t e c) \<Rightarrow>
             (\<exists>n. nodes st ! t = Some n \<and> nodes st' = (nodes st)[t := None]
               \<and> started st' = started st @ [(n, e, c)])
         | _ \<Rightarrow> nodes st' = nodes st \<and> started st' = started st))"
proof -
  have m: "mr_gpr sys 0 = Some (field_index sys UnknownSyscall_X0)" by (simp add: mr_gpr_def rust_assert_def)
  have keep: "nodes (advance_and_reply K sys f mrs s) = nodes s"
    "started (advance_and_reply K sys f mrs s) = started s" for mrs s
    by (simp_all add: advance_and_reply_def do_reply_def Let_def)
  show ?thesis
  proof (cases "psci_parse f")
    case (Inl e)
    then show ?thesis by (simp add: sys_psci_def unwrap_sum_def)
  next
    case (Inr call)
    with m keep show ?thesis
      by (cases call)
         (auto simp: sys_psci_def unwrap_sum_def take_node_def vec_get_def vec_set_def
           split: if_splits Option.bind_splits option.splits)
  qed
qed


lemma sys_psci_spec_witness:
  "\<exists>r st'. (sys_psci unit_kernel \<lparr>field_index = \<lambda>_. 0, tag_label = \<lambda>_. 0\<rparr>
      (psci_encode Call_Version blank_syscall) (\<lambda>_. 0)
      \<lparr>gic = unit_gic, nodes = [], started = [], bitfields = \<lambda>_ _. 0\<rparr> :: (UserContext, unit, unit) vmm_method)
    = Some (r, st') \<and> r = Inr () \<and> nodes st' = ([] :: unit VMMNode option list)"
proof -
  have p: "psci_parse (psci_encode Call_Version blank_syscall) = Inr Call_Version"
    by (simp add: psci_parse_def psci_encode_def Let_def)
  let ?f = "psci_encode Call_Version blank_syscall"
  let ?st = "\<lparr>gic = unit_gic, nodes = [] :: unit VMMNode option list, started = [], bitfields = \<lambda>_ _. 0\<rparr>"
  let ?sys = "\<lparr>field_index = \<lambda>_. 0, tag_label = \<lambda>_. 0\<rparr>"
  obtain r st' where s: "(sys_psci unit_kernel ?sys ?f (\<lambda>_. 0) ?st :: (UserContext, unit, unit) vmm_method) = Some (r, st')"
    using p by (simp add: sys_psci_def unwrap_sum_def mr_gpr_def rust_assert_def)
  with sys_psci_spec [of unit_kernel ?sys ?f "\<lambda>_. 0" ?st] p show ?thesis by auto
qed

end
