(* ===== verification/RingBuffer.thy ===== *)
theory RingBuffer
  imports Prelude "HOL-Library.Sublist"
begin

text \<open>
  The shared-memory ring buffers (\<^verbatim>\<open>icecap-ring-buffer/src/ring_buffer.rs\<close> and
  \<^verbatim>\<open>buffered_ring_buffer.rs\<close>). Each end owns a \<^emph>\<open>write side\<close>, a control block and a buffer it stores to,
  and sees its peer's write side as its \<^emph>\<open>read side\<close>. A control block publishes how far its owner has
  written and how far it has read of the other direction. Offsets count bytes and wrap at
  \<open>2 ^ 64\<close>; indices into a buffer are taken modulo its size.

  The fences of the source order the accesses inside one method; every method is one step here. A
  copy outside the buffer, which the source leaves undefined, is the value \<open>None\<close> like a panic.
\<close>

section \<open>State\<close>

record CtrlBlock =
  offset_r :: u64
  offset_w :: u64
  status :: u64

record RingBufferSide =
  rbs_size :: nat
  ctrl :: CtrlBlock
  buf :: "u8 list"

datatype Kick = KickRead | KickWrite

record RingBuffer =
  rb_read :: RingBufferSide
  rb_write :: RingBufferSide
  private_offset_r :: nat
  private_offset_w :: nat
  kicks :: "Kick list"

definition NOTIFY_READ :: nat where "NOTIFY_READ = 0"

definition NOTIFY_WRITE :: nat where "NOTIFY_WRITE = 1"

definition status_read :: "CtrlBlock \<Rightarrow> nat \<Rightarrow> u64" where
  "status_read c field = shr (status c) field AND 1"

definition status_modify :: "nat \<Rightarrow> bool \<Rightarrow> CtrlBlock \<Rightarrow> CtrlBlock" where
  "status_modify field v c =
     c\<lparr>status := (if v then status c OR shl 1 field else status c AND NOT (shl 1 field))\<rparr>"

definition RingBuffer_new :: "RingBufferSide \<Rightarrow> RingBufferSide \<Rightarrow> RingBuffer" where
  "RingBuffer_new r w = \<lparr>rb_read = r, rb_write = w, private_offset_r = 0, private_offset_w = 0, kicks = []\<rparr>"

definition RingBuffer_resume :: "RingBufferSide \<Rightarrow> RingBufferSide \<Rightarrow> RingBuffer" where
  "RingBuffer_resume r w = \<lparr>rb_read = r, rb_write = w,
     private_offset_r = unat (offset_r (ctrl w)), private_offset_w = unat (offset_w (ctrl w)), kicks = []\<rparr>"

section \<open>Bytes\<close>

definition copy_from :: "u8 list \<Rightarrow> nat \<Rightarrow> nat \<Rightarrow> u8 list option" where
  "copy_from b off n = (if off + n \<le> length b then Some (take n (drop off b)) else None)"

definition copy_to :: "u8 list \<Rightarrow> nat \<Rightarrow> u8 list \<Rightarrow> u8 list option" where
  "copy_to b off xs =
     (if off + length xs \<le> length b then Some (take off b @ xs @ drop (off + length xs) b) else None)"

definition poll_read :: "RingBuffer \<Rightarrow> nat option" where
  "poll_read rb = do {
     let off_r = private_offset_r rb;
     let off_w = unat (offset_w (ctrl (rb_read rb)));
     rust_assert (off_r \<le> off_w);
     rust_assert (off_w - off_r \<le> rbs_size (rb_read rb));
     Some (off_w - off_r) }"

definition poll_write :: "RingBuffer \<Rightarrow> nat option" where
  "poll_write rb = do {
     let off_r = unat (offset_r (ctrl (rb_read rb)));
     let off_w = private_offset_w rb;
     rust_assert (off_r \<le> off_w);
     rust_assert (off_w - off_r \<le> rbs_size (rb_write rb));
     Some (max 0 ((rbs_size (rb_write rb) - (off_w - off_r) + (2 ^ 64 - 1)) mod 2 ^ 64)) }"

definition peek :: "RingBuffer \<Rightarrow> nat \<Rightarrow> u8 list option" where
  "peek rb n = do {
     rust_assert (rbs_size (rb_read rb) \<noteq> 0);
     let offset = private_offset_r rb mod rbs_size (rb_read rb);
     let n1 = rbs_size (rb_read rb) - offset;
     let src = buf (rb_read rb);
     if n \<le> n1 then copy_from src offset n
     else do {
       a \<leftarrow> copy_from src offset n1;
       b \<leftarrow> copy_from src 0 (n - n1);
       Some (a @ b) } }"

definition skip :: "RingBuffer \<Rightarrow> nat \<Rightarrow> RingBuffer" where
  "skip rb n = rb\<lparr>private_offset_r := (private_offset_r rb + n) mod 2 ^ 64\<rparr>"

definition rb_read_bytes :: "RingBuffer \<Rightarrow> nat \<Rightarrow> (u8 list \<times> RingBuffer) option" where
  "rb_read_bytes rb n = do { xs \<leftarrow> peek rb n; Some (xs, skip rb n) }"

definition rb_write_bytes :: "RingBuffer \<Rightarrow> u8 list \<Rightarrow> RingBuffer option" where
  "rb_write_bytes rb xs = do {
     let side = rb_write rb;
     rust_assert (rbs_size side \<noteq> 0);
     let offset = private_offset_w rb mod rbs_size side;
     let n1 = rbs_size side - offset;
     let n = length xs;
     dst \<leftarrow> (if n \<le> n1 then copy_to (buf side) offset xs
            else do {
              b \<leftarrow> copy_to (buf side) offset (take n1 xs);
              copy_to b 0 (drop n1 xs) });
     Some (rb\<lparr>rb_write := side\<lparr>buf := dst\<rparr>, private_offset_w := (private_offset_w rb + n) mod 2 ^ 64\<rparr>) }"

section \<open>Notification\<close>

definition kick_read :: "RingBuffer \<Rightarrow> RingBuffer" where
  "kick_read rb = rb\<lparr>kicks := kicks rb @ [KickRead]\<rparr>"

definition kick_write :: "RingBuffer \<Rightarrow> RingBuffer" where
  "kick_write rb = rb\<lparr>kicks := kicks rb @ [KickWrite]\<rparr>"

definition map_write_ctrl :: "(CtrlBlock \<Rightarrow> CtrlBlock) \<Rightarrow> RingBuffer \<Rightarrow> RingBuffer" where
  "map_write_ctrl f rb = rb\<lparr>rb_write := (rb_write rb)\<lparr>ctrl := f (ctrl (rb_write rb))\<rparr>\<rparr>"

definition map_read_ctrl :: "(CtrlBlock \<Rightarrow> CtrlBlock) \<Rightarrow> RingBuffer \<Rightarrow> RingBuffer" where
  "map_read_ctrl f rb = rb\<lparr>rb_read := (rb_read rb)\<lparr>ctrl := f (ctrl (rb_read rb))\<rparr>\<rparr>"

definition notify_read :: "RingBuffer \<Rightarrow> RingBuffer" where
  "notify_read rb = (
     let rb = map_write_ctrl (\<lambda>c. c\<lparr>offset_r := of_nat (private_offset_r rb)\<rparr>) rb
     in if status_read (ctrl (rb_read rb)) NOTIFY_WRITE = 1
        then kick_read (map_read_ctrl (status_modify NOTIFY_WRITE False) rb)
        else rb)"

definition notify_write :: "RingBuffer \<Rightarrow> RingBuffer" where
  "notify_write rb = (
     let rb = map_write_ctrl (\<lambda>c. c\<lparr>offset_w := of_nat (private_offset_w rb)\<rparr>) rb
     in if status_read (ctrl (rb_read rb)) NOTIFY_READ = 1
        then kick_write (map_read_ctrl (status_modify NOTIFY_READ False) rb)
        else rb)"

definition enable_notify_read :: "RingBuffer \<Rightarrow> RingBuffer" where
  "enable_notify_read = map_write_ctrl (status_modify NOTIFY_READ True)"

definition enable_notify_write :: "RingBuffer \<Rightarrow> RingBuffer" where
  "enable_notify_write = map_write_ctrl (status_modify NOTIFY_WRITE True)"

definition disable_notify_read :: "RingBuffer \<Rightarrow> RingBuffer" where
  "disable_notify_read = map_write_ctrl (status_modify NOTIFY_READ False)"

definition disable_notify_write :: "RingBuffer \<Rightarrow> RingBuffer" where
  "disable_notify_write = map_write_ctrl (status_modify NOTIFY_WRITE False)"

section \<open>Packets\<close>

definition HEADER_SIZE :: nat where "HEADER_SIZE = 4"

definition packet_size :: "u8 list \<Rightarrow> nat" where
  "packet_size xs = HEADER_SIZE + length xs"

definition to_le_bytes :: "u32 \<Rightarrow> u8 list" where
  "to_le_bytes w = map (\<lambda>k. ucast (drop_bit (8 * k) w)) [0..<4]"

definition from_le_bytes :: "u8 list \<Rightarrow> u32" where
  "from_le_bytes bs = foldr (\<lambda>b w. ucast b OR push_bit 8 w) bs 0"

definition serialize_header :: "nat \<Rightarrow> u8 list" where
  "serialize_header n = to_le_bytes (of_nat n)"

definition packet_poll :: "RingBuffer \<Rightarrow> nat option option" where
  "packet_poll rb = do {
     avail \<leftarrow> poll_read rb;
     if avail < HEADER_SIZE then Some None
     else do {
       header \<leftarrow> peek rb HEADER_SIZE;
       let n = unat (from_le_bytes header);
       avail \<leftarrow> poll_read rb;
       if n > avail - HEADER_SIZE then Some None else Some (Some n) } }"

definition packet_read_into :: "RingBuffer \<Rightarrow> nat \<Rightarrow> (u8 list \<times> RingBuffer) option" where
  "packet_read_into rb n = rb_read_bytes (skip rb HEADER_SIZE) n"

definition packet_read :: "RingBuffer \<Rightarrow> (u8 list option \<times> RingBuffer) option" where
  "packet_read rb = do {
     p \<leftarrow> packet_poll rb;
     case p of
       None \<Rightarrow> Some (None, rb)
     | Some n \<Rightarrow> do { (xs, rb) \<leftarrow> packet_read_into rb n; Some (Some xs, rb) } }"

definition packet_write :: "RingBuffer \<Rightarrow> u8 list \<Rightarrow> (bool \<times> RingBuffer) option" where
  "packet_write rb xs = do {
     room \<leftarrow> poll_write rb;
     if room < packet_size xs then Some (False, rb)
     else do {
       rb \<leftarrow> rb_write_bytes rb (serialize_header (length xs));
       rb \<leftarrow> rb_write_bytes rb xs;
       Some (True, rb) } }"

section \<open>Buffered ends\<close>

text \<open>\<^verbatim>\<open>flush_tx\<close> sends queued chunks while they fit; it recurses on the queue.\<close>

fun flush_tx :: "u8 list list \<Rightarrow> RingBuffer \<Rightarrow> bool \<Rightarrow> (bool \<times> u8 list list \<times> RingBuffer) option" where
  "flush_tx [] rb notify = Some (notify, [], rb)"
| "flush_tx (x # q) rb notify = do {
     room \<leftarrow> poll_write rb;
     if room < length x then Some (notify, x # q, rb)
     else do {
       rb \<leftarrow> rb_write_bytes rb x;
       flush_tx q rb True } }"

record BufferedRingBuffer =
  brb :: RingBuffer
  brb_q :: "u8 list list"

definition brb_tx_callback :: "BufferedRingBuffer \<Rightarrow> (bool \<times> BufferedRingBuffer) option" where
  "brb_tx_callback b = do {
     (notify, q, rb) \<leftarrow> flush_tx (brb_q b) (brb b) False;
     Some (notify, b\<lparr>brb := (if notify then notify_write rb else rb), brb_q := q\<rparr>) }"

definition brb_rx_into :: "BufferedRingBuffer \<Rightarrow> nat \<Rightarrow> (u8 list \<times> BufferedRingBuffer) option" where
  "brb_rx_into b len = do {
     n \<leftarrow> poll_read (brb b);
     let n_real = min len n;
     if n_real > 0 then do {
       (xs, rb) \<leftarrow> rb_read_bytes (brb b) n_real;
       Some (xs, b\<lparr>brb := notify_read rb\<rparr>) }
     else Some ([], b) }"

definition brb_rx :: "BufferedRingBuffer \<Rightarrow> (u8 list option \<times> BufferedRingBuffer) option" where
  "brb_rx b = do {
     n \<leftarrow> poll_read (brb b);
     if n > 0 then do {
       (xs, rb) \<leftarrow> rb_read_bytes (brb b) n;
       Some (Some xs, b\<lparr>brb := notify_read rb\<rparr>) }
     else Some (None, b) }"

definition brb_tx :: "BufferedRingBuffer \<Rightarrow> u8 list \<Rightarrow> (bool \<times> BufferedRingBuffer) option" where
  "brb_tx b xs = do {
     (notify, q, rb) \<leftarrow> flush_tx (brb_q b) (brb b) False;
     queue \<leftarrow> (if q \<noteq> [] then Some True
              else do { room \<leftarrow> poll_write rb; Some (room < length xs) });
     if queue then
       Some (notify, b\<lparr>brb := (if notify then notify_write rb else rb), brb_q := q @ [xs]\<rparr>)
     else do {
       rb \<leftarrow> rb_write_bytes rb xs;
       Some (True, b\<lparr>brb := notify_write rb, brb_q := q\<rparr>) } }"

fun packet_flush_tx :: "u8 list list \<Rightarrow> RingBuffer \<Rightarrow> bool \<Rightarrow> (bool \<times> u8 list list \<times> RingBuffer) option" where
  "packet_flush_tx [] rb notify = Some (notify, [], rb)"
| "packet_flush_tx (x # q) rb notify = do {
     (sent, rb) \<leftarrow> packet_write rb x;
     if \<not> sent then Some (notify, x # q, rb) else packet_flush_tx q rb True }"

definition bprb_tx_callback :: "BufferedRingBuffer \<Rightarrow> (bool \<times> BufferedRingBuffer) option" where
  "bprb_tx_callback b = do {
     (notify, q, rb) \<leftarrow> packet_flush_tx (brb_q b) (brb b) False;
     Some (notify, b\<lparr>brb := (if notify then notify_write rb else rb), brb_q := q\<rparr>) }"

definition bprb_rx :: "BufferedRingBuffer \<Rightarrow> (u8 list option \<times> BufferedRingBuffer) option" where
  "bprb_rx b = do {
     (r, rb) \<leftarrow> packet_read (brb b);
     Some (r, b\<lparr>brb := (if r \<noteq> None then notify_read rb else rb)\<rparr>) }"

definition bprb_tx :: "BufferedRingBuffer \<Rightarrow> u8 list \<Rightarrow> (bool \<times> BufferedRingBuffer) option" where
  "bprb_tx b xs = do {
     (notify, q, rb) \<leftarrow> packet_flush_tx (brb_q b) (brb b) False;
     (sent, rb) \<leftarrow> (if q = [] then packet_write rb xs else Some (False, rb));
     let notify = (notify \<or> sent);
     let q = (if sent then q else q @ [xs]);
     Some (notify, b\<lparr>brb := (if notify then notify_write rb else rb), brb_q := q\<rparr>) }"

section \<open>Ring arithmetic\<close>

text \<open>The bytes of a ring between two offsets.\<close>

definition ring_slice :: "u8 list \<Rightarrow> nat \<Rightarrow> nat \<Rightarrow> u8 list" where
  "ring_slice b from to = map (\<lambda>k. b ! (k mod length b)) [from..<to]"

lemma length_ring_slice [simp]: "length (ring_slice b from to) = to - from"
  by (simp add: ring_slice_def)

lemma nth_ring_slice: "k < to - from \<Longrightarrow> ring_slice b from to ! k = b ! ((from + k) mod length b)"
  by (simp add: ring_slice_def)

lemma mod_add_cases:
  fixes off k N :: nat
  assumes "0 < N" "k < N"
  shows "(off + k) mod N = (if off mod N + k < N then off mod N + k else off mod N + k - N)"
proof -
  have "(off + k) mod N = (off mod N + k) mod N" by (simp add: mod_add_left_eq)
  moreover have "off mod N < N" using assms(1) by simp
  ultimately show ?thesis
    using assms(2) by (cases "off mod N + k < N") (simp_all add: le_mod_geq)
qed

text \<open>The two copies of \<^verbatim>\<open>peek\<close> read the slice that starts at the reader's offset.\<close>

lemma ring_slice_copies:
  fixes b :: "u8 list" and off n :: nat
  defines "N \<equiv> length b" and "o' \<equiv> off mod length b"
  assumes "0 < length b" "n \<le> length b"
  shows "ring_slice b off (off + n) =
    (if n \<le> N - o' then take n (drop o' b) else take (N - o') (drop o' b) @ take (n - (N - o')) b)"
proof (rule nth_equalityI)
  have o': "o' < N" using assms by simp
  show "length (ring_slice b off (off + n)) =
      length (if n \<le> N - o' then take n (drop o' b) else take (N - o') (drop o' b) @ take (n - (N - o')) b)"
    using o' assms(4) by (simp add: N_def)
  fix k
  assume "k < length (ring_slice b off (off + n))"
  then have k: "k < n" by simp
  have "(off + k) mod N = (if o' + k < N then o' + k else o' + k - N)"
    using mod_add_cases [of N k off] assms k by (simp add: N_def)
  then show "ring_slice b off (off + n) ! k =
      (if n \<le> N - o' then take n (drop o' b) else take (N - o') (drop o' b) @ take (n - (N - o')) b) ! k"
    using k o' assms(4) by (auto simp: nth_ring_slice N_def nth_append add.commute)
qed

end
