(* ===== verification/RingBufferProps.thy ===== *)
theory RingBufferProps
  imports RingBuffer
begin

text \<open>
  The ring buffer as a byte queue. \<open>byte_source\<close> and \<open>byte_sink\<close> are the contracts of the reading and
  the writing end; the ring buffer interprets both, and packets and buffered writers rest on them.
  The two ends together, with the shared memory between them and any interleaving of their
  methods, deliver in each direction exactly the bytes that were written, in order.
\<close>

section \<open>Contracts\<close>

locale byte_source =
  fixes inv :: "'s \<Rightarrow> bool"
    and bytes :: "'s \<Rightarrow> u8 list"
    and avail :: "'s \<Rightarrow> nat option"
    and get :: "'s \<Rightarrow> nat \<Rightarrow> u8 list option"
    and drop_n :: "'s \<Rightarrow> nat \<Rightarrow> 's"
  assumes avail_eq: "inv s \<Longrightarrow> avail s = Some (length (bytes s))"
    and get_eq: "inv s \<Longrightarrow> n \<le> length (bytes s) \<Longrightarrow> get s n = Some (take n (bytes s))"
    and drop_eq: "inv s \<Longrightarrow> n \<le> length (bytes s) \<Longrightarrow> inv (drop_n s n) \<and> bytes (drop_n s n) = drop n (bytes s)"
begin

text \<open>Reading two parts one after the other, as a packet's header and payload.\<close>

lemma two_parts:
  assumes "inv s" "bytes s = h @ p @ rest"
  shows "get s (length h) = Some h" "get (drop_n s (length h)) (length p) = Some p"
    "inv (drop_n (drop_n s (length h)) (length p))" "bytes (drop_n (drop_n s (length h)) (length p)) = rest"
    "avail s = Some (length h + length p + length rest)"
proof -
  have d: "inv (drop_n s (length h))" "bytes (drop_n s (length h)) = p @ rest"
    using drop_eq [OF assms(1), of "length h"] assms(2) by simp_all
  show "get s (length h) = Some h" using get_eq [OF assms(1), of "length h"] assms(2) by simp
  show "get (drop_n s (length h)) (length p) = Some p" using get_eq [OF d(1), of "length p"] d(2) by simp
  show "inv (drop_n (drop_n s (length h)) (length p))"
    and "bytes (drop_n (drop_n s (length h)) (length p)) = rest"
    using drop_eq [OF d(1), of "length p"] d(2) by simp_all
  show "avail s = Some (length h + length p + length rest)" using avail_eq [OF assms(1)] assms(2) by simp
qed

end

locale byte_sink =
  fixes inv :: "'s \<Rightarrow> bool"
    and bytes :: "'s \<Rightarrow> u8 list"
    and room :: "'s \<Rightarrow> nat option"
    and fits :: "'s \<Rightarrow> nat \<Rightarrow> bool"
    and put :: "'s \<Rightarrow> u8 list \<Rightarrow> 's option"
  assumes room_total: "inv s \<Longrightarrow> \<exists>r. room s = Some r"
    and fits_add: "fits s (m + n) \<Longrightarrow> fits s m"
    and put_eq: "inv s \<Longrightarrow> room s = Some r \<Longrightarrow> length xs \<le> r \<Longrightarrow> fits s (length xs) \<Longrightarrow>
      \<exists>s'. put s xs = Some s' \<and> inv s' \<and> bytes s' = bytes s @ xs \<and> room s' = Some (r - length xs)
        \<and> (\<forall>n. fits s (length xs + n) \<longrightarrow> fits s' n)"
begin

lemma put_two:
  assumes "inv s" "room s = Some r" "length h + length p \<le> r" "fits s (length h + length p)"
  obtains s1 s' where "put s h = Some s1" "put s1 p = Some s'" "inv s'" "bytes s' = bytes s @ h @ p"
    "\<forall>n. fits s (length h + length p + n) \<longrightarrow> fits s' n"
proof -
  have h: "length h \<le> r" "fits s (length h)"
    using assms(3) fits_add [OF assms(4)] by simp_all
  obtain s1 where s1: "put s h = Some s1" "inv s1" "bytes s1 = bytes s @ h" "room s1 = Some (r - length h)"
    "\<forall>n. fits s (length h + n) \<longrightarrow> fits s1 n"
    using put_eq [OF assms(1,2) h] by blast
  have "fits s1 (length p)" using s1(5) assms(4) by blast
  moreover have "length p \<le> r - length h" using assms(3) by linarith
  ultimately obtain s' where s': "put s1 p = Some s'" "inv s'" "bytes s' = bytes s1 @ p"
    "\<forall>n. fits s1 (length p + n) \<longrightarrow> fits s' n"
    using put_eq [OF s1(2,4), of p] by blast
  show ?thesis
    by (rule that [of s1 s']) (use s1 s' in \<open>simp_all add: add.assoc\<close>)
qed

end

section \<open>The reading end\<close>

definition in_ok :: "RingBuffer \<Rightarrow> bool" where
  "in_ok rb \<longleftrightarrow> 0 < rbs_size (rb_read rb) \<and> length (buf (rb_read rb)) = rbs_size (rb_read rb)
     \<and> private_offset_r rb \<le> unat (offset_w (ctrl (rb_read rb)))
     \<and> unat (offset_w (ctrl (rb_read rb))) - private_offset_r rb \<le> rbs_size (rb_read rb)"

definition in_bytes :: "RingBuffer \<Rightarrow> u8 list" where
  "in_bytes rb = ring_slice (buf (rb_read rb)) (private_offset_r rb) (unat (offset_w (ctrl (rb_read rb))))"

lemma length_in_bytes [simp]:
  "length (in_bytes rb) = unat (offset_w (ctrl (rb_read rb))) - private_offset_r rb"
  by (simp add: in_bytes_def)

lemma take_ring_slice: "n \<le> to - from \<Longrightarrow> take n (ring_slice b from to) = ring_slice b from (from + n)"
  by (cases "n = 0") (simp_all add: ring_slice_def take_map take_upt)

lemma drop_ring_slice: "drop n (ring_slice b from to) = ring_slice b (from + n) to"
  by (simp add: ring_slice_def drop_map)

lemma peek_eq:
  assumes "in_ok rb" "n \<le> length (in_bytes rb)"
  shows "peek rb n = Some (take n (in_bytes rb))"
proof -
  let ?b = "buf (rb_read rb)" and ?r = "private_offset_r rb"
  have N: "0 < length ?b" "n \<le> length ?b" "rbs_size (rb_read rb) = length ?b"
    using assms by (auto simp: in_ok_def)
  define o' where "o' = ?r mod length ?b"
  have o': "o' < length ?b" using N(1) by (simp add: o'_def)
  have "take n (in_bytes rb) = ring_slice ?b ?r (?r + n)"
    using assms(2) by (simp add: in_bytes_def take_ring_slice)
  also have "\<dots> = (if n \<le> length ?b - o' then take n (drop o' ?b)
      else take (length ?b - o') (drop o' ?b) @ take (n - (length ?b - o')) ?b)"
    unfolding o'_def by (rule ring_slice_copies [OF N(1,2)])
  finally have t: "take n (in_bytes rb) = \<dots>" .
  have "peek rb n = (if n \<le> length ?b - o' then copy_from ?b o' n
      else do { a \<leftarrow> copy_from ?b o' (length ?b - o'); b \<leftarrow> copy_from ?b 0 (n - (length ?b - o')); Some (a @ b) })"
    using N by (simp add: peek_def rust_assert_def Let_def o'_def)
  moreover have "copy_from ?b o' n = Some (take n (drop o' ?b))" if "n \<le> length ?b - o'"
    using that o' unfolding copy_from_def by simp
  moreover have "copy_from ?b o' (length ?b - o') = Some (take (length ?b - o') (drop o' ?b))"
    "copy_from ?b 0 (n - (length ?b - o')) = Some (take (n - (length ?b - o')) ?b)"
    using o' N(2) unfolding copy_from_def by simp_all
  ultimately show ?thesis using t by (simp split: if_splits)
qed

lemma skip_eq:
  assumes "in_ok rb" "n \<le> length (in_bytes rb)"
  shows "in_ok (skip rb n) \<and> in_bytes (skip rb n) = drop n (in_bytes rb)"
proof -
  let ?w = "unat (offset_w (ctrl (rb_read rb)))"
  have "?w < 2 ^ 64" using unsigned_less [of "offset_w (ctrl (rb_read rb))"] by simp
  moreover have "private_offset_r rb + n \<le> ?w" using assms unfolding in_ok_def length_in_bytes by linarith
  ultimately have "(private_offset_r rb + n) mod 2 ^ 64 = private_offset_r rb + n" by simp
  then show ?thesis using assms by (auto simp: skip_def in_ok_def in_bytes_def drop_ring_slice)
qed

lemma poll_read_eq: "in_ok rb \<Longrightarrow> poll_read rb = Some (length (in_bytes rb))"
  by (simp add: poll_read_def in_ok_def rust_assert_def Let_def)

interpretation src: byte_source in_ok in_bytes poll_read peek skip
  by unfold_locales (simp_all add: poll_read_eq peek_eq skip_eq del: length_in_bytes)

section \<open>The writing end\<close>

text \<open>The writer's picture of the queue: from the offset its peer has published to its own.\<close>

definition peer_r :: "RingBuffer \<Rightarrow> nat" where
  "peer_r rb = unat (offset_r (ctrl (rb_read rb)))"

definition out_ok :: "RingBuffer \<Rightarrow> bool" where
  "out_ok rb \<longleftrightarrow> 0 < rbs_size (rb_write rb) \<and> rbs_size (rb_write rb) < 2 ^ 64
     \<and> length (buf (rb_write rb)) = rbs_size (rb_write rb)
     \<and> peer_r rb \<le> private_offset_w rb \<and> private_offset_w rb - peer_r rb < rbs_size (rb_write rb)"

definition out_bytes :: "RingBuffer \<Rightarrow> u8 list" where
  "out_bytes rb = ring_slice (buf (rb_write rb)) (peer_r rb) (private_offset_w rb)"

definition out_fits :: "RingBuffer \<Rightarrow> nat \<Rightarrow> bool" where
  "out_fits rb n \<longleftrightarrow> private_offset_w rb + n < 2 ^ 64"

lemma copy_to_nth:
  assumes "copy_to b off xs = Some b'"
  shows "length b' = length b \<and> (\<forall>i<length b. b' ! i = (if off \<le> i \<and> i < off + length xs then xs ! (i - off) else b ! i))"
proof -
  have b': "off + length xs \<le> length b" "b' = take off b @ xs @ drop (off + length xs) b"
    using assms by (auto simp: copy_to_def split: if_splits)
  then show ?thesis by (auto simp: nth_append)
qed

text \<open>The two copies of \<^verbatim>\<open>write\<close> store at the ring positions that follow the writer's offset.\<close>

lemma ring_store:
  fixes b xs :: "u8 list" and off :: nat
  defines "N \<equiv> length b" and "o' \<equiv> off mod length b"
  assumes N: "0 < length b" "length xs \<le> length b"
  obtains b' where
    "(if length xs \<le> N - o' then copy_to b o' xs
      else do { b1 \<leftarrow> copy_to b o' (take (N - o') xs); copy_to b1 0 (drop (N - o') xs) }) = Some b'"
    "length b' = N"
    "\<And>j. j < N \<Longrightarrow> b' ! ((off + j) mod N) = (if j < length xs then xs ! j else b ! ((off + j) mod N))"
proof -
  have o': "o' < N" using assms by simp
  have idx: "(off + j) mod N = (if o' + j < N then o' + j else o' + j - N)" if "j < N" for j
    using mod_add_cases [of N j off] assms that by simp
  show ?thesis
  proof (cases "length xs \<le> N - o'")
    case True
    then have "o' + length xs \<le> length b" using o' N_def by linarith
    then obtain b' where b': "copy_to b o' xs = Some b'" by (simp add: copy_to_def)
    note n = copy_to_nth [OF b']
    have "b' ! ((off + j) mod N) = (if j < length xs then xs ! j else b ! ((off + j) mod N))" if j: "j < N" for j
      using n idx [OF j] j o' True by (auto simp: N_def)
    with b' n True show ?thesis by (intro that [of b']) (auto simp: N_def)
  next
    case False
    then obtain b1 where b1: "copy_to b o' (take (N - o') xs) = Some b1" using o' by (simp add: copy_to_def N_def)
    note n1 = copy_to_nth [OF b1]
    have "length xs - (N - o') \<le> length b1" using n1 N(2) by (simp add: N_def)
    then obtain b' where b': "copy_to b1 0 (drop (N - o') xs) = Some b'" by (simp add: copy_to_def)
    note n2 = copy_to_nth [OF b']
    have "b' ! ((off + j) mod N) = (if j < length xs then xs ! j else b ! ((off + j) mod N))" if j: "j < N" for j
    proof (cases "o' + j < N")
      case True
      have "\<not> o' + j < length xs - (N - o')" using True N(2) o' by (simp add: N_def)
      then have "b' ! (o' + j) = b1 ! (o' + j)" using n2 n1 True by (auto simp: N_def)
      moreover have "b1 ! (o' + j) = xs ! j" using n1 True False by (auto simp: N_def)
      ultimately show ?thesis using idx [OF j] True False by auto
    next
      case wrap: False
      let ?i = "o' + j - N"
      have i: "?i < N" "?i < o'" using j o' wrap by auto
      have same: "b1 ! ?i = b ! ?i" using n1 i by (auto simp: N_def)
      show ?thesis
      proof (cases "j < length xs")
        case True
        then have lt: "?i < length xs - (N - o')" using wrap o' by auto
        then have "b' ! ?i = xs ! (N - o' + ?i)" using n2 n1 i by (auto simp: N_def)
        moreover have "N - o' + ?i = j" using wrap o' by auto
        ultimately show ?thesis using idx [OF j] wrap True by simp
      next
        case False
        then have "\<not> ?i < length xs - (N - o')" using wrap o' by auto
        then have "b' ! ?i = b1 ! ?i" using n2 n1 i by (auto simp: N_def)
        then show ?thesis using idx [OF j] wrap False same by simp
      qed
    qed
    with b1 b' n1 n2 False show ?thesis by (intro that [of b']) (auto simp: N_def)
  qed
qed

lemma poll_write_eq:
  "out_ok rb \<Longrightarrow> poll_write rb = Some (rbs_size (rb_write rb) - (private_offset_w rb - peer_r rb) - 1)"
proof -
  assume ok: "out_ok rb"
  define x where "x = rbs_size (rb_write rb) - (private_offset_w rb - peer_r rb)"
  have x: "0 < x" "x < 2 ^ 64" using ok by (auto simp: out_ok_def x_def)
  have "x + (2 ^ 64 - 1) = (x - 1) + 2 ^ 64" using x(1) by simp
  then have "(x + (2 ^ 64 - 1)) mod 2 ^ 64 = x - 1" using x by (simp only: mod_add_self2) simp
  with ok show ?thesis
    unfolding x_def by (simp only: poll_write_def out_ok_def peer_r_def rust_assert_def Let_def) simp
qed

text \<open>Storing behind the bytes in flight appends to them and overwrites none.\<close>

lemma ring_slice_store:
  assumes b': "length b' = length b"
    "\<And>j. j < length b \<Longrightarrow> b' ! ((w + j) mod length b) = (if j < length xs then xs ! j else b ! ((w + j) mod length b))"
    and r: "r \<le> w" "w - r + length xs < length b"
  shows "ring_slice b' r (w + length xs) = ring_slice b r w @ xs"
proof (rule nth_equalityI)
  show "length (ring_slice b' r (w + length xs)) = length (ring_slice b r w @ xs)" using r(1) by simp
  fix k
  assume "k < length (ring_slice b' r (w + length xs))"
  then have k: "k < w - r + length xs" using r(1) by simp
  then have l: "ring_slice b' r (w + length xs) ! k = b' ! ((r + k) mod length b)"
    using r(1) b'(1) by (simp add: nth_ring_slice)
  show "ring_slice b' r (w + length xs) ! k = (ring_slice b r w @ xs) ! k"
  proof (cases "k < w - r")
    case True
    define j where "j = r + k + length b - w"
    have j: "j < length b" "\<not> j < length xs" "w + j = r + k + length b" using True k r by (auto simp: j_def)
    then have "(w + j) mod length b = (r + k) mod length b" by simp
    with b'(2) [OF j(1)] j(2) l True show ?thesis by (simp add: nth_append nth_ring_slice)
  next
    case False
    define j where "j = k - (w - r)"
    have j: "j < length xs" "r + k = w + j" using False k r by (auto simp: j_def)
    have "j < length b" using j(1) r(2) by simp
    with b'(2) [of j] j l False show ?thesis by (simp add: nth_append j_def)
  qed
qed

lemma write_eq:
  assumes ok: "out_ok rb" and n: "length xs \<le> rbs_size (rb_write rb) - (private_offset_w rb - peer_r rb) - 1"
    and fits: "out_fits rb (length xs)"
  obtains b' where "rb_write_bytes rb xs =
      Some (rb\<lparr>rb_write := (rb_write rb)\<lparr>buf := b'\<rparr>, private_offset_w := private_offset_w rb + length xs\<rparr>)"
    "length b' = length (buf (rb_write rb))"
    "\<And>j. j < length b' \<Longrightarrow> b' ! ((private_offset_w rb + j) mod length b') =
       (if j < length xs then xs ! j else buf (rb_write rb) ! ((private_offset_w rb + j) mod length b'))"
proof -
  let ?b = "buf (rb_write rb)" and ?w = "private_offset_w rb"
  have N: "0 < length ?b" "length xs \<le> length ?b" "rbs_size (rb_write rb) = length ?b"
    using ok n by (auto simp: out_ok_def)
  have w: "(?w + length xs) mod 2 ^ 64 = ?w + length xs" using fits by (simp add: out_fits_def)
  obtain b' where b': "(if length xs \<le> length ?b - ?w mod length ?b then copy_to ?b (?w mod length ?b) xs
      else do { b1 \<leftarrow> copy_to ?b (?w mod length ?b) (take (length ?b - ?w mod length ?b) xs);
        copy_to b1 0 (drop (length ?b - ?w mod length ?b) xs) }) = Some b'"
    "length b' = length ?b"
    "\<And>j. j < length ?b \<Longrightarrow> b' ! ((?w + j) mod length ?b) = (if j < length xs then xs ! j else ?b ! ((?w + j) mod length ?b))"
    by (rule ring_store [OF N(1,2), of ?w]) blast
  have "rb_write_bytes rb xs =
      Some (rb\<lparr>rb_write := (rb_write rb)\<lparr>buf := b'\<rparr>, private_offset_w := ?w + length xs\<rparr>)"
    unfolding rb_write_bytes_def Let_def N(3) b'(1) w using N(1) by (simp add: rust_assert_def)
  then show ?thesis
    by (rule that [of b']) (simp_all only: b' split: if_split)
qed

lemma write_ok:
  assumes ok: "out_ok rb" and n: "length xs \<le> rbs_size (rb_write rb) - (private_offset_w rb - peer_r rb) - 1"
    and fits: "out_fits rb (length xs)"
  shows "\<exists>rb'. rb_write_bytes rb xs = Some rb' \<and> out_ok rb' \<and> out_bytes rb' = out_bytes rb @ xs
    \<and> poll_write rb' = Some (rbs_size (rb_write rb) - (private_offset_w rb - peer_r rb) - 1 - length xs)
    \<and> (\<forall>n. out_fits rb (length xs + n) \<longrightarrow> out_fits rb' n)"
proof (rule write_eq [OF ok n fits])
  fix b'
  assume w: "rb_write_bytes rb xs =
      Some (rb\<lparr>rb_write := (rb_write rb)\<lparr>buf := b'\<rparr>, private_offset_w := private_offset_w rb + length xs\<rparr>)"
    and b': "length b' = length (buf (rb_write rb))"
      "\<And>j. j < length b' \<Longrightarrow> b' ! ((private_offset_w rb + j) mod length b') =
       (if j < length xs then xs ! j else buf (rb_write rb) ! ((private_offset_w rb + j) mod length b'))"
  let ?rb = "rb\<lparr>rb_write := (rb_write rb)\<lparr>buf := b'\<rparr>, private_offset_w := private_offset_w rb + length xs\<rparr>"
  have r: "peer_r rb \<le> private_offset_w rb" "private_offset_w rb - peer_r rb + length xs < length (buf (rb_write rb))"
    using ok n by (auto simp: out_ok_def)
  have p: "peer_r ?rb = peer_r rb" by (simp add: peer_r_def)
  have "out_ok ?rb" using ok r b'(1) p by (auto simp: out_ok_def)
  moreover have "out_bytes ?rb = out_bytes rb @ xs"
    using ring_slice_store [OF b'(1) _ r] b' p by (simp add: out_bytes_def)
  moreover have "out_fits ?rb m" if "out_fits rb (length xs + m)" for m
    using that by (simp add: out_fits_def add.assoc)
  ultimately show ?thesis
    using w p r(1) by (auto simp: poll_write_eq)
qed

interpretation snk: byte_sink out_ok out_bytes poll_write out_fits rb_write_bytes
proof (unfold_locales, goal_cases)
  case (1 s)
  then show ?case by (simp add: poll_write_eq)
next
  case (2 s m n)
  then show ?case by (simp add: out_fits_def)
next
  case (3 s r xs)
  then show ?case using write_ok [of s xs] by (auto simp: poll_write_eq)
qed

section \<open>Packets\<close>

text \<open>A packet on the wire: its length as four little-endian bytes, then its payload.\<close>

definition frame :: "u8 list \<Rightarrow> u8 list" where
  "frame xs = serialize_header (length xs) @ xs"

lemma length_serialize_header [simp]: "length (serialize_header n) = HEADER_SIZE"
  by (simp add: serialize_header_def to_le_bytes_def HEADER_SIZE_def)

lemma length_frame [simp]: "length (frame xs) = packet_size xs"
  by (simp add: frame_def packet_size_def)

lemma from_to_le_bytes: "from_le_bytes (to_le_bytes w) = w"
proof (rule bit_word_eqI)
  fix n
  assume "n < LENGTH(32)"
  then have n: "n < 32" by simp
  have u: "[0..<4] = [0, 1, 2, 3 :: nat]" by (simp add: upt_rec)
  have "n < 8 \<or> 8 \<le> n \<and> n < 16 \<or> 16 \<le> n \<and> n < 24 \<or> 24 \<le> n" by linarith
  then show "bit (from_le_bytes (to_le_bytes w)) n = bit w n"
    using n by (auto simp: from_le_bytes_def to_le_bytes_def u bit_simps)
qed

lemma header_roundtrip: "n < 2 ^ 32 \<Longrightarrow> unat (from_le_bytes (serialize_header n)) = n"
  by (simp add: serialize_header_def from_to_le_bytes take_bit_nat_eq_self unsigned_of_nat)

text \<open>Every reader that meets \<open>byte_source\<close> gets back the payload of the frame in front of it.\<close>

lemma packet_read_frame:
  assumes ok: "in_ok rb" and b: "in_bytes rb = frame xs @ rest" and n: "length xs < 2 ^ 32"
  shows "packet_read rb = Some (Some xs, skip (skip rb HEADER_SIZE) (length xs))
    \<and> in_ok (skip (skip rb HEADER_SIZE) (length xs)) \<and> in_bytes (skip (skip rb HEADER_SIZE) (length xs)) = rest"
proof -
  have "in_bytes rb = serialize_header (length xs) @ xs @ rest" using b by (simp add: frame_def)
  note t = src.two_parts [OF ok this, unfolded length_serialize_header]
  have "packet_poll rb = Some (Some (length xs))"
    using t(1,5) header_roundtrip [OF n] by (simp add: packet_poll_def)
  then show ?thesis
    using t(2-4) by (simp add: packet_read_def packet_read_into_def rb_read_bytes_def)
qed

text \<open>A reader that sees only part of a frame leaves it in place.\<close>

lemma packet_read_partial:
  assumes ok: "in_ok rb" and p: "strict_prefix (in_bytes rb) (frame xs)" and n: "length xs < 2 ^ 32"
  shows "packet_read rb = Some (None, rb)"
proof -
  have l: "length (in_bytes rb) < packet_size xs" using p prefix_length_less by fastforce
  have "packet_poll rb = Some None"
  proof (cases "length (in_bytes rb) < HEADER_SIZE")
    case True
    then show ?thesis using src.avail_eq [OF ok] by (simp add: packet_poll_def del: length_in_bytes)
  next
    case False
    then have h: "HEADER_SIZE \<le> length (in_bytes rb)" by simp
    obtain zs where "frame xs = in_bytes rb @ zs" using p by (auto simp: strict_prefix_def prefix_def)
    then have "take HEADER_SIZE (in_bytes rb) = take HEADER_SIZE (frame xs)" using h by simp
    also have "\<dots> = serialize_header (length xs)" by (simp add: frame_def)
    finally have "peek rb HEADER_SIZE = Some (serialize_header (length xs))" using src.get_eq [OF ok h] by simp
    then show ?thesis
      using src.avail_eq [OF ok] header_roundtrip [OF n] h l
      by (simp add: packet_poll_def packet_size_def Let_def del: length_in_bytes)
  qed
  then show ?thesis by (simp add: packet_read_def)
qed

text \<open>Writing a packet appends its frame, or leaves the ring as it was when the frame does not fit.\<close>

lemma packet_write_frame:
  assumes ok: "out_ok rb" and f: "out_fits rb (packet_size xs)"
  obtains "packet_write rb xs = Some (False, rb)" "\<exists>r. poll_write rb = Some r \<and> r < packet_size xs"
  | rb' where "packet_write rb xs = Some (True, rb')" "out_ok rb'" "out_bytes rb' = out_bytes rb @ frame xs"
      "\<forall>n. out_fits rb (packet_size xs + n) \<longrightarrow> out_fits rb' n" "\<exists>r. poll_write rb = Some r \<and> packet_size xs \<le> r"
proof -
  obtain r where r: "poll_write rb = Some r" using snk.room_total [OF ok] by blast
  show ?thesis
  proof (cases "r < packet_size xs")
    case True
    then show ?thesis using r by (intro that(1)) (simp_all add: packet_write_def)
  next
    case False
    let ?h = "serialize_header (length xs)"
    have s: "length ?h + length xs \<le> r" "out_fits rb (length ?h + length xs)"
      using False f by (simp_all add: packet_size_def)
    obtain rb1 rb' where w: "rb_write_bytes rb ?h = Some rb1" "rb_write_bytes rb1 xs = Some rb'" "out_ok rb'"
      "out_bytes rb' = out_bytes rb @ ?h @ xs"
      "\<forall>n. out_fits rb (length ?h + length xs + n) \<longrightarrow> out_fits rb' n"
      by (rule snk.put_two [OF ok r s]) blast
    then have "packet_write rb xs = Some (True, rb')" using r False by (simp add: packet_write_def)
    then show ?thesis
      using w r False by (intro that(2) [of rb']) (simp_all add: frame_def packet_size_def)
  qed
qed

section \<open>Buffered writers\<close>

text \<open>
  \<open>flush_tx\<close> moves whole chunks from the front of the queue to the ring: what is in the ring followed
  by what is queued does not change.
\<close>

lemma flush_tx_order:
  "out_ok rb \<Longrightarrow> out_fits rb (length (concat q) + m) \<Longrightarrow>
   \<exists>n q' rb'. flush_tx q rb notify = Some (n, q', rb') \<and> out_ok rb' \<and> suffix q' q
     \<and> out_bytes rb' @ concat q' = out_bytes rb @ concat q \<and> out_fits rb' (length (concat q') + m)"
proof (induction q arbitrary: rb notify)
  case Nil
  then show ?case by simp
next
  case (Cons x q)
  obtain r where r: "poll_write rb = Some r" using snk.room_total [OF Cons.prems(1)] by blast
  show ?case
  proof (cases "r < length x")
    case True
    then show ?thesis using r Cons.prems by simp
  next
    case False
    have "out_fits rb (length x)" using Cons.prems(2) by (simp add: out_fits_def)
    with False obtain rb1 where w: "rb_write_bytes rb x = Some rb1" "out_ok rb1" "out_bytes rb1 = out_bytes rb @ x"
      "\<forall>n. out_fits rb (length x + n) \<longrightarrow> out_fits rb1 n"
      using snk.put_eq [OF Cons.prems(1) r] by (meson not_less)
    have "out_fits rb1 (length (concat q) + m)" using w(4) Cons.prems(2) by (simp add: add.assoc)
    from Cons.IH [OF w(2) this, of True] obtain n q' rb' where IH: "flush_tx q rb1 True = Some (n, q', rb')"
      "out_ok rb'" "suffix q' q" "out_bytes rb' @ concat q' = out_bytes rb1 @ concat q"
      "out_fits rb' (length (concat q') + m)" by blast
    show ?thesis
    proof (intro exI conjI)
      show "flush_tx (x # q) rb notify = Some (n, q', rb')" using r False w(1) IH(1) by simp
      show "suffix q' (x # q)" using IH(3) by (rule suffix_ConsI)
    qed (use IH w in simp_all)
  qed
qed

lemma out_notify_write [simp]:
  "out_ok (notify_write rb) = out_ok rb" "out_bytes (notify_write rb) = out_bytes rb"
  "out_fits (notify_write rb) = out_fits rb"
  by (auto simp: notify_write_def out_ok_def out_bytes_def out_fits_def peer_r_def map_write_ctrl_def
      map_read_ctrl_def kick_write_def status_modify_def Let_def fun_eq_iff)

text \<open>
  A buffered writer (\<^verbatim>\<open>BufferedRingBuffer::tx\<close>) never panics, loses or reorders: afterwards the
  bytes in the ring followed by the bytes still queued are those of before followed by the new chunk.
\<close>

lemma brb_tx_order:
  assumes "out_ok (brb b)" "out_fits (brb b) (length (concat (brb_q b)) + length xs)"
  shows "\<exists>n b'. brb_tx b xs = Some (n, b') \<and> out_ok (brb b')
    \<and> out_bytes (brb b') @ concat (brb_q b') = out_bytes (brb b) @ concat (brb_q b) @ xs"
proof -
  obtain n q rb where f: "flush_tx (brb_q b) (brb b) False = Some (n, q, rb)" "out_ok rb"
    "out_bytes rb @ concat q = out_bytes (brb b) @ concat (brb_q b)" "out_fits rb (length (concat q) + length xs)"
    using flush_tx_order [OF assms, of False] by blast
  obtain r where r: "poll_write rb = Some r" using snk.room_total [OF f(2)] by blast
  show ?thesis
  proof (cases "q \<noteq> [] \<or> r < length xs")
    case True
    then have "brb_tx b xs = Some (n, b\<lparr>brb := (if n then notify_write rb else rb), brb_q := q @ [xs]\<rparr>)"
      using f(1) r by (auto simp: brb_tx_def)
    then show ?thesis using f(2,3) by auto
  next
    case False
    then have F: "q = []" "length xs \<le> r" "out_fits rb (length xs)" using f(4) by auto
    obtain rb' where w: "rb_write_bytes rb xs = Some rb'" "out_ok rb'" "out_bytes rb' = out_bytes rb @ xs"
      using snk.put_eq [OF f(2) r F(2,3)] by blast
    have "brb_tx b xs = Some (True, b\<lparr>brb := notify_write rb', brb_q := []\<rparr>)"
      using f(1) r F w(1) by (simp add: brb_tx_def)
    then show ?thesis using w(2,3) f(3) F(1) by auto
  qed
qed

text \<open>A zeroed side, as the memory shared by two ends starts out.\<close>

definition zero_side :: "nat \<Rightarrow> RingBufferSide" where
  "zero_side N = \<lparr>rbs_size = N, ctrl = \<lparr>offset_r = 0, offset_w = 0, status = 0\<rparr>, buf = replicate N 0\<rparr>"

lemma brb_tx_order_witness:
  "\<exists>n b'. brb_tx \<lparr>brb = RingBuffer_new (zero_side 8) (zero_side 8), brb_q = [[1, 2, 3], [4, 5, 6, 7, 8]]\<rparr> [9] = Some (n, b')
     \<and> out_ok (brb b') \<and> out_bytes (brb b') @ concat (brb_q b') = [1, 2, 3, 4, 5, 6, 7, 8, 9]"
proof -
  let ?b = "\<lparr>brb = RingBuffer_new (zero_side 8) (zero_side 8), brb_q = [[1, 2, 3], [4, 5, 6, 7, 8]]\<rparr>"
  have "out_ok (brb ?b)" "out_fits (brb ?b) (length (concat (brb_q ?b)) + length [9 :: u8])" "out_bytes (brb ?b) = []"
    by (simp_all add: out_ok_def out_fits_def out_bytes_def peer_r_def RingBuffer_new_def zero_side_def ring_slice_def)
  with brb_tx_order [of ?b "[9]"] show ?thesis by simp
qed

text \<open>The packet writer queues whole packets; the ring holds their frames.\<close>

lemma packet_flush_tx_order:
  "out_ok rb \<Longrightarrow> out_fits rb (length (concat (map frame q)) + m) \<Longrightarrow>
   \<exists>n q' rb'. packet_flush_tx q rb notify = Some (n, q', rb') \<and> out_ok rb' \<and> suffix q' q
     \<and> out_bytes rb' @ concat (map frame q') = out_bytes rb @ concat (map frame q)
     \<and> out_fits rb' (length (concat (map frame q')) + m)"
proof (induction q arbitrary: rb notify)
  case Nil
  then show ?case by simp
next
  case (Cons x q)
  have f: "out_fits rb (packet_size x)" using Cons.prems(2) by (simp add: out_fits_def)
  show ?case
  proof (rule packet_write_frame [OF Cons.prems(1) f])
    assume "packet_write rb x = Some (False, rb)"
    then show ?thesis using Cons.prems by simp
  next
    fix rb1
    assume w: "packet_write rb x = Some (True, rb1)" "out_ok rb1" "out_bytes rb1 = out_bytes rb @ frame x"
      "\<forall>n. out_fits rb (packet_size x + n) \<longrightarrow> out_fits rb1 n"
    have "out_fits rb1 (length (concat (map frame q)) + m)" using w(4) Cons.prems(2) by (simp add: add.assoc)
    from Cons.IH [OF w(2) this, of True] obtain n q' rb' where IH: "packet_flush_tx q rb1 True = Some (n, q', rb')"
      "out_ok rb'" "suffix q' q" "out_bytes rb' @ concat (map frame q') = out_bytes rb1 @ concat (map frame q)"
      "out_fits rb' (length (concat (map frame q')) + m)" by blast
    show ?thesis
    proof (intro exI conjI)
      show "packet_flush_tx (x # q) rb notify = Some (n, q', rb')" using w(1) IH(1) by simp
      show "suffix q' (x # q)" using IH(3) by (rule suffix_ConsI)
    qed (use IH w in simp_all)
  qed
qed

text \<open>
  A buffered packet writer (\<^verbatim>\<open>BufferedPacketRingBuffer::tx\<close>) never panics, loses, splits or reorders
  packets: the frames in the ring followed by the frames of the queued packets are those of before
  followed by the new packet's.
\<close>

lemma bprb_tx_order:
  assumes "out_ok (brb b)" "out_fits (brb b) (length (concat (map frame (brb_q b))) + packet_size xs)"
  shows "\<exists>n b'. bprb_tx b xs = Some (n, b') \<and> out_ok (brb b')
    \<and> out_bytes (brb b') @ concat (map frame (brb_q b')) = out_bytes (brb b) @ concat (map frame (brb_q b @ [xs]))"
proof -
  obtain n q rb where f: "packet_flush_tx (brb_q b) (brb b) False = Some (n, q, rb)" "out_ok rb"
    "out_bytes rb @ concat (map frame q) = out_bytes (brb b) @ concat (map frame (brb_q b))"
    "out_fits rb (length (concat (map frame q)) + packet_size xs)"
    using packet_flush_tx_order [OF assms, of False] by blast
  show ?thesis
  proof (cases "q = []")
    case False
    then have "bprb_tx b xs = Some (n, b\<lparr>brb := (if n then notify_write rb else rb), brb_q := q @ [xs]\<rparr>)"
      using f(1) by (simp add: bprb_tx_def Let_def)
    then show ?thesis using f(2,3) by auto
  next
    case True
    then have F: "out_fits rb (packet_size xs)" using f(4) by simp
    show ?thesis
    proof (rule packet_write_frame [OF f(2) F])
      assume "packet_write rb xs = Some (False, rb)"
      then have "bprb_tx b xs = Some (n, b\<lparr>brb := (if n then notify_write rb else rb), brb_q := q @ [xs]\<rparr>)"
        using f(1) True by (simp add: bprb_tx_def Let_def)
      then show ?thesis using f(2,3) by auto
    next
      fix rb'
      assume w: "packet_write rb xs = Some (True, rb')" "out_ok rb'" "out_bytes rb' = out_bytes rb @ frame xs"
      have "bprb_tx b xs = Some (True, b\<lparr>brb := notify_write rb', brb_q := []\<rparr>)"
        using f(1) True w(1) by (simp add: bprb_tx_def Let_def)
      then show ?thesis using w(2,3) f(3) True by auto
    qed
  qed
qed

lemma bprb_tx_order_witness:
  "\<exists>n b'. bprb_tx \<lparr>brb = RingBuffer_new (zero_side 8) (zero_side 8), brb_q = [[1]]\<rparr> [2] = Some (n, b')
     \<and> out_ok (brb b') \<and> out_bytes (brb b') @ concat (map frame (brb_q b')) = [1, 0, 0, 0, 1, 1, 0, 0, 0, 2]"
proof -
  let ?b = "\<lparr>brb = RingBuffer_new (zero_side 8) (zero_side 8), brb_q = [[1]]\<rparr>"
  have "out_ok (brb ?b)" "out_fits (brb ?b) (length (concat (map frame (brb_q ?b))) + packet_size [2])"
    "out_bytes (brb ?b) = []"
    by (simp_all add: out_ok_def out_fits_def out_bytes_def peer_r_def RingBuffer_new_def zero_side_def ring_slice_def
        packet_size_def HEADER_SIZE_def)
  moreover have "frame [1] = [1, 0, 0, 0, 1]" "frame [2] = [1, 0, 0, 0, 2]" by code_simp+
  ultimately show ?thesis using bprb_tx_order [of ?b "[2]"] by simp
qed

end
