(* ===== verification/RingBufferLink.thy ===== *)
theory RingBufferLink
  imports RingBufferProps
begin

text \<open>
  Two ends of one ring buffer pair. The write side of each end is the read side of the other: a
  method of one end changes the memory both see. Any interleaving of the methods of the two ends, in
  which each end reads and writes no more than its polls allow, delivers in both directions exactly
  the bytes written.
\<close>

section \<open>The shared memory and the steps\<close>

text \<open>\<open>share x y\<close> is the end \<open>y\<close> after its peer has become \<open>x\<close>: the two sides are the same memory.\<close>

definition share :: "RingBuffer \<Rightarrow> RingBuffer \<Rightarrow> RingBuffer" where
  "share x y = y\<lparr>rb_read := rb_write x, rb_write := rb_read x\<rparr>"

definition coherent :: "RingBuffer \<Rightarrow> RingBuffer \<Rightarrow> bool" where
  "coherent x y \<longleftrightarrow> rb_read y = rb_write x \<and> rb_read x = rb_write y"

text \<open>One method call of an end, with the bytes it wrote and the bytes it read.\<close>

inductive end_step :: "RingBuffer \<Rightarrow> RingBuffer \<Rightarrow> u8 list \<Rightarrow> u8 list \<Rightarrow> bool" where
  do_write: "poll_write x = Some room \<Longrightarrow> length xs \<le> room \<Longrightarrow> rb_write_bytes x xs = Some x' \<Longrightarrow> end_step x x' xs []"
| do_read: "poll_read x = Some avail \<Longrightarrow> n \<le> avail \<Longrightarrow> rb_read_bytes x n = Some (xs, x') \<Longrightarrow> end_step x x' [] xs"
| do_notify_read: "end_step x (notify_read x) [] []"
| do_notify_write: "end_step x (notify_write x) [] []"
| do_enable_notify_read: "end_step x (enable_notify_read x) [] []"
| do_enable_notify_write: "end_step x (enable_notify_write x) [] []"
| do_disable_notify_read: "end_step x (disable_notify_read x) [] []"
| do_disable_notify_write: "end_step x (disable_notify_write x) [] []"

text \<open>The two ends and, for each direction, all bytes written and all bytes read so far.\<close>

record link =
  lk_a :: RingBuffer
  lk_b :: RingBuffer
  sent_ab :: "u8 list"
  got_ab :: "u8 list"
  sent_ba :: "u8 list"
  got_ba :: "u8 list"

definition link_new :: "nat \<Rightarrow> nat \<Rightarrow> link" where
  "link_new n m = \<lparr>lk_a = RingBuffer_new (zero_side m) (zero_side n), lk_b = RingBuffer_new (zero_side n) (zero_side m),
     sent_ab = [], got_ab = [], sent_ba = [], got_ba = []\<rparr>"

text \<open>The offsets count every byte ever sent; the steps stop short of \<open>2 ^ 64\<close> bytes, where they wrap.\<close>

inductive link_reach :: "nat \<Rightarrow> nat \<Rightarrow> link \<Rightarrow> bool" for n m where
  link_init: "0 < n \<Longrightarrow> n < 2 ^ 64 \<Longrightarrow> 0 < m \<Longrightarrow> m < 2 ^ 64 \<Longrightarrow> link_reach n m (link_new n m)"
| link_a: "link_reach n m l \<Longrightarrow> end_step (lk_a l) x w g \<Longrightarrow> length (sent_ab l @ w) < 2 ^ 64 \<Longrightarrow>
    link_reach n m (l\<lparr>lk_a := x, lk_b := share x (lk_b l), sent_ab := sent_ab l @ w, got_ba := got_ba l @ g\<rparr>)"
| link_b: "link_reach n m l \<Longrightarrow> end_step (lk_b l) x w g \<Longrightarrow> length (sent_ba l @ w) < 2 ^ 64 \<Longrightarrow>
    link_reach n m (l\<lparr>lk_b := x, lk_a := share x (lk_a l), sent_ba := sent_ba l @ w, got_ab := got_ab l @ g\<rparr>)"

section \<open>The invariant of one direction\<close>

text \<open>
  From \<open>x\<close> to \<open>y\<close>, with \<open>S\<close> written and \<open>G\<close> read: the published and the private offsets of both ends
  are ordered, and the ring holds what the reader has not given back.
\<close>

definition dir_inv :: "RingBuffer \<Rightarrow> RingBuffer \<Rightarrow> u8 list \<Rightarrow> u8 list \<Rightarrow> bool" where
  "dir_inv x y S G \<longleftrightarrow>
     0 < rbs_size (rb_write x) \<and> rbs_size (rb_write x) < 2 ^ 64 \<and> length (buf (rb_write x)) = rbs_size (rb_write x)
   \<and> private_offset_w x = length S \<and> length S < 2 ^ 64 \<and> private_offset_r y = length G
   \<and> unat (offset_r (ctrl (rb_write y))) \<le> length G \<and> length G \<le> unat (offset_w (ctrl (rb_write x)))
   \<and> unat (offset_w (ctrl (rb_write x))) \<le> length S
   \<and> length S - unat (offset_r (ctrl (rb_write y))) < rbs_size (rb_write x)
   \<and> ring_slice (buf (rb_write x)) (unat (offset_r (ctrl (rb_write y)))) (length S) = drop (unat (offset_r (ctrl (rb_write y)))) S
   \<and> G = take (length G) S"

lemma dir_writer:
  assumes "coherent x y" "dir_inv x y S G"
  shows "out_ok x" "out_bytes x = drop (peer_r x) S" "peer_r x = unat (offset_r (ctrl (rb_write y)))"
    "out_fits x k \<longleftrightarrow> length S + k < 2 ^ 64"
  using assms by (auto simp: coherent_def dir_inv_def out_ok_def out_bytes_def peer_r_def out_fits_def)

lemma dir_reader:
  assumes "coherent x y" "dir_inv x y S G"
  shows "in_ok y" "G @ in_bytes y = take (unat (offset_w (ctrl (rb_write x)))) S"
proof -
  let ?r = "unat (offset_r (ctrl (rb_write y)))" and ?w = "unat (offset_w (ctrl (rb_write x)))"
  have d: "?r \<le> length G" "length G \<le> ?w" "?w \<le> length S" "G = take (length G) S"
    "ring_slice (buf (rb_write x)) ?r (length S) = drop ?r S"
    using assms(2) by (simp_all add: dir_inv_def)
  show "in_ok y" using assms by (auto simp: coherent_def dir_inv_def in_ok_def)
  have "in_bytes y = ring_slice (buf (rb_write x)) (length G) ?w"
    using assms by (simp add: coherent_def dir_inv_def in_bytes_def)
  also have "\<dots> = take (?w - length G) (ring_slice (buf (rb_write x)) (length G) (length S))"
    using d(2,3) by (simp add: take_ring_slice)
  also have "ring_slice (buf (rb_write x)) (length G) (length S) = drop (length G) S"
    using d(1) arg_cong [OF d(5), of "drop (length G - ?r)"] by (simp add: drop_ring_slice)
  finally have "in_bytes y = take (?w - length G) (drop (length G) S)" .
  then have "G @ in_bytes y = take (length G) S @ take (?w - length G) (drop (length G) S)" using d(4) by simp
  then show "G @ in_bytes y = take ?w S"
    using d(2) take_add [of "length G" "?w - length G" S] by simp
qed

section \<open>Every step keeps it\<close>

text \<open>A step of the writing end \<open>x\<close>, seen in the direction it writes.\<close>

lemma dir_step_out:
  assumes co: "coherent x y" and d: "dir_inv x y S G" and st: "end_step x x' w g" and f: "length (S @ w) < 2 ^ 64"
  shows "dir_inv x' (share x' y) (S @ w) G"
  using st
proof cases
  case (do_write room)
  note o = dir_writer [OF co d]
  have r: "length w \<le> rbs_size (rb_write x) - (private_offset_w x - peer_r x) - 1"
    using do_write(2,3) poll_write_eq [OF o(1)] by simp
  have "out_fits x (length w)" using o(4) f by simp
  then obtain b where b: "rb_write_bytes x w = Some (x\<lparr>rb_write := (rb_write x)\<lparr>buf := b\<rparr>, private_offset_w := private_offset_w x + length w\<rparr>)"
    "length b = length (buf (rb_write x))"
    "\<forall>j<length b. b ! ((private_offset_w x + j) mod length b) =
       (if j < length w then w ! j else buf (rb_write x) ! ((private_offset_w x + j) mod length b))"
    by (rule write_eq [OF o(1) r]) blast
  have len: "peer_r x \<le> length S" "length S - peer_r x + length w < length (buf (rb_write x))"
    "private_offset_w x = length S" "G = take (length G) S" "length G \<le> length S"
    using d r o(3) by (auto simp: dir_inv_def)
  have "ring_slice b (peer_r x) (length S + length w) = ring_slice (buf (rb_write x)) (peer_r x) (length S) @ w"
    using b(3) len by (intro ring_slice_store [OF b(2)]) (simp_all add: b(2))
  also have "\<dots> = drop (peer_r x) (S @ w)" using d o(3) len(1) by (simp add: dir_inv_def)
  finally have sl: "ring_slice b (peer_r x) (length S + length w) = drop (peer_r x) (S @ w)" .
  have x': "x' = x\<lparr>rb_write := (rb_write x)\<lparr>buf := b\<rparr>, private_offset_w := length S + length w\<rparr>"
    using do_write(4) b(1) len(3) by simp
  show ?thesis
    unfolding dir_inv_def x' using d co sl len b(2) f o(3) by (auto simp: dir_inv_def coherent_def share_def)
next
  case (do_read avail n)
  then show ?thesis using d co
    by (auto simp: rb_read_bytes_def dir_inv_def share_def coherent_def skip_def split: Option.bind_splits)
next
  case do_notify_read
  then show ?thesis using d co
    by (simp add: dir_inv_def share_def coherent_def notify_read_def map_write_ctrl_def map_read_ctrl_def
        kick_read_def status_modify_def Let_def)
next
  case do_notify_write
  have "unat (of_nat (length S) :: u64) = length S" using d by (simp add: dir_inv_def unsigned_of_nat take_bit_nat_eq_self)
  then show ?thesis using d co do_notify_write
    by (auto simp add: dir_inv_def share_def coherent_def notify_write_def map_write_ctrl_def map_read_ctrl_def
        kick_write_def status_modify_def Let_def)
qed (use d co in \<open>simp_all add: dir_inv_def share_def coherent_def map_write_ctrl_def status_modify_def
    enable_notify_read_def enable_notify_write_def disable_notify_read_def disable_notify_write_def\<close>)

text \<open>The same step, seen in the direction it reads.\<close>

lemma dir_step_in:
  assumes co: "coherent y x" and d: "dir_inv y x S G" and st: "end_step x x' w g"
  shows "dir_inv (share x' y) x' S (G @ g)"
  using st
proof cases
  case (do_write room)
  then show ?thesis using d co
    by (auto simp: rb_write_bytes_def dir_inv_def share_def coherent_def Let_def split: Option.bind_splits)
next
  case (do_read avail n)
  note i = dir_reader [OF co d]
  have n: "n \<le> length (in_bytes x)" using do_read(2,3) src.avail_eq [OF i(1)] by simp
  have x': "g = take n (in_bytes x)" "x' = skip x n"
    using do_read(4) src.get_eq [OF i(1) n] by (simp_all add: rb_read_bytes_def)
  have len: "length g = n" using n x'(1) by simp
  have bound: "length G + n \<le> unat (offset_w (ctrl (rb_write y)))" "unat (offset_w (ctrl (rb_write y))) \<le> length S"
    "length S < 2 ^ 64" "private_offset_r x = length G" "rb_read x = rb_write y"
    using n d co by (auto simp: coherent_def dir_inv_def)
  have "G @ g = take (length G + n) (G @ in_bytes x)" using x'(1) by simp
  also have "\<dots> = take (length (G @ g)) S" using i(2) bound(1) len by simp
  finally have "G @ g = take (length (G @ g)) S" .
  moreover have "private_offset_r x' = length (G @ g)" using x'(2) bound len by (simp add: skip_def)
  moreover have "rb_write x' = rb_write x" "rb_read x' = rb_read x" using x'(2) by (simp_all add: skip_def)
  ultimately show ?thesis
    using d bound len co unfolding dir_inv_def by (auto simp: share_def coherent_def)
next
  case do_notify_read
  let ?r = "unat (offset_r (ctrl (rb_write x)))"
  have b: "length G \<le> length S" "length S < 2 ^ 64" "?r \<le> length G" using d by (simp_all add: dir_inv_def)
  then have u: "unat (of_nat (length G) :: u64) = length G" by (simp add: unsigned_of_nat take_bit_nat_eq_self)
  have "ring_slice (buf (rb_write y)) ?r (length S) = drop ?r S" using d by (simp add: dir_inv_def)
  from arg_cong [OF this, of "drop (length G - ?r)"]
  have sl: "ring_slice (buf (rb_write y)) (length G) (length S) = drop (length G) S" using b(3) by (simp add: drop_ring_slice)
  have x': "private_offset_r x' = length G" "rb_write x' = (rb_write x)\<lparr>ctrl := (ctrl (rb_write x))\<lparr>offset_r := of_nat (length G)\<rparr>\<rparr>"
    "\<exists>s. rb_read x' = (rb_read x)\<lparr>ctrl := (ctrl (rb_read x))\<lparr>status := s\<rparr>\<rparr>"
    using do_notify_read d by (auto simp: dir_inv_def notify_read_def map_write_ctrl_def map_read_ctrl_def kick_read_def
        status_modify_def Let_def intro: exI [of _ "status (ctrl (rb_read x))"])
  then obtain s where s: "rb_read x' = (rb_write y)\<lparr>ctrl := (ctrl (rb_write y))\<lparr>status := s\<rparr>\<rparr>"
    using co by (auto simp: coherent_def)
  show ?thesis
    using d u sl x'(1,2) s do_notify_read(3) b by (auto simp: dir_inv_def share_def)
next
  case do_notify_write
  then show ?thesis using d co
    by (simp add: dir_inv_def share_def coherent_def notify_write_def map_write_ctrl_def map_read_ctrl_def
        kick_write_def status_modify_def Let_def)
qed (use d co in \<open>simp_all add: dir_inv_def share_def coherent_def map_write_ctrl_def status_modify_def
    enable_notify_read_def enable_notify_write_def disable_notify_read_def disable_notify_write_def\<close>)

lemma coherent_sym: "coherent x y \<longleftrightarrow> coherent y x"
  by (auto simp: coherent_def)

lemma coherent_share [simp]: "coherent x (share x y)" "coherent (share x y) x"
  by (simp_all add: coherent_def share_def)

definition link_ok :: "link \<Rightarrow> bool" where
  "link_ok l \<longleftrightarrow> coherent (lk_a l) (lk_b l) \<and> dir_inv (lk_a l) (lk_b l) (sent_ab l) (got_ab l)
     \<and> dir_inv (lk_b l) (lk_a l) (sent_ba l) (got_ba l)"

lemma dir_new: "0 < n \<Longrightarrow> n < 2 ^ 64 \<Longrightarrow> dir_inv (RingBuffer_new (zero_side m) (zero_side n)) (RingBuffer_new (zero_side n) (zero_side m)) [] []"
  by (simp add: dir_inv_def RingBuffer_new_def zero_side_def ring_slice_def)

lemma link_reach_ok: "link_reach n m l \<Longrightarrow> link_ok l"
proof (induction rule: link_reach.induct)
  case link_init
  then show ?case by (simp add: link_ok_def link_new_def dir_new) (simp add: coherent_def RingBuffer_new_def)
next
  case (link_a l x w g)
  then have "coherent (lk_a l) (lk_b l)" "coherent (lk_b l) (lk_a l)"
    "dir_inv (lk_a l) (lk_b l) (sent_ab l) (got_ab l)" "dir_inv (lk_b l) (lk_a l) (sent_ba l) (got_ba l)"
    using coherent_sym by (simp_all add: link_ok_def)
  with dir_step_out [OF this(1,3) link_a(2,3)] dir_step_in [OF this(2,4) link_a(2)]
  show ?case by (simp add: link_ok_def)
next
  case (link_b l x w g)
  then have "coherent (lk_a l) (lk_b l)" "coherent (lk_b l) (lk_a l)"
    "dir_inv (lk_a l) (lk_b l) (sent_ab l) (got_ab l)" "dir_inv (lk_b l) (lk_a l) (sent_ba l) (got_ba l)"
    using coherent_sym by (simp_all add: link_ok_def)
  with dir_step_out [OF this(2,4) link_b(2,3)] dir_step_in [OF this(1,3) link_b(2)]
  show ?case by (simp add: link_ok_def)
qed

lemma dir_published:
  assumes co: "coherent x y" and d: "dir_inv x y S G"
  shows "in_ok (share (notify_write x) y)" "G @ in_bytes (share (notify_write x) y) = S"
proof -
  have n: "dir_inv (notify_write x) (share (notify_write x) y) S G"
    using dir_step_out [OF co d end_step.do_notify_write] d by (simp add: dir_inv_def)
  have "unat (of_nat (length S) :: u64) = length S" using d by (simp add: dir_inv_def unsigned_of_nat take_bit_nat_eq_self)
  then have "unat (offset_w (ctrl (rb_write (notify_write x)))) = length S"
    using d by (simp add: dir_inv_def notify_write_def map_write_ctrl_def map_read_ctrl_def kick_write_def Let_def)
  with dir_reader [OF _ n] show "in_ok (share (notify_write x) y)" "G @ in_bytes (share (notify_write x) y) = S" by simp_all
qed

section \<open>Delivery\<close>

text \<open>
  C35. The ring buffer is a pair of FIFO channels: in every reachable state, with the methods of the two
  ends interleaved in any way, what an end has read is a prefix of what its peer has written, and once
  the writer has published its offset (\<^verbatim>\<open>notify_write\<close>) the reader can read exactly the rest.
\<close>

theorem link_fifo:
  assumes "link_reach n m l"
  shows "prefix (got_ab l) (sent_ab l) \<and> prefix (got_ba l) (sent_ba l)
    \<and> got_ab l @ in_bytes (share (notify_write (lk_a l)) (lk_b l)) = sent_ab l
    \<and> got_ba l @ in_bytes (share (notify_write (lk_b l)) (lk_a l)) = sent_ba l"
proof -
  have ok: "coherent (lk_a l) (lk_b l)" "coherent (lk_b l) (lk_a l)"
    "dir_inv (lk_a l) (lk_b l) (sent_ab l) (got_ab l)" "dir_inv (lk_b l) (lk_a l) (sent_ba l) (got_ba l)"
    using link_reach_ok [OF assms] coherent_sym by (simp_all add: link_ok_def)
  from dir_published(2) [OF ok(1,3)] dir_published(2) [OF ok(2,4)] show ?thesis
    by (metis prefixI)
qed

text \<open>Concrete steps of an end, for the examples: their results are computed.\<close>

lemma link_write_a:
  "link_reach n m l \<Longrightarrow> poll_write (lk_a l) = Some room \<Longrightarrow> length xs \<le> room \<Longrightarrow> rb_write_bytes (lk_a l) xs = Some x \<Longrightarrow>
   length (sent_ab l @ xs) < 2 ^ 64 \<Longrightarrow> link_reach n m (l\<lparr>lk_a := x, lk_b := share x (lk_b l), sent_ab := sent_ab l @ xs\<rparr>)"
  using link_a [of n m l x xs "[]"] do_write by simp

lemma link_publish_a:
  assumes "link_reach n m l"
  shows "link_reach n m (l\<lparr>lk_a := notify_write (lk_a l), lk_b := share (notify_write (lk_a l)) (lk_b l)\<rparr>)"
proof -
  have "length (sent_ab l @ []) < 2 ^ 64" using link_reach_ok [OF assms] by (simp add: link_ok_def dir_inv_def)
  from link_a [OF assms do_notify_write this] show ?thesis by simp
qed

lemma link_read_b:
  assumes "link_reach n m l" "poll_read (lk_b l) = Some avail" "k \<le> avail" "rb_read_bytes (lk_b l) k = Some (xs, x)"
  shows "link_reach n m (l\<lparr>lk_b := x, lk_a := share x (lk_a l), got_ab := got_ab l @ xs\<rparr>)"
proof -
  have "length (sent_ba l @ []) < 2 ^ 64" using link_reach_ok [OF assms(1)] by (simp add: link_ok_def dir_inv_def)
  from link_b [OF assms(1) do_read [OF assms(2-4)] this] show ?thesis by simp
qed

text \<open>Three bytes written and published by one end, two of them read by the other.\<close>

definition sample_write :: link where
  "sample_write = (let l = link_new 4 4; x = the (rb_write_bytes (lk_a l) [1, 2, 3])
     in l\<lparr>lk_a := x, lk_b := share x (lk_b l), sent_ab := [1, 2, 3]\<rparr>)"

definition sample_link :: link where
  "sample_link = (let l = sample_write; x = notify_write (lk_a l); y = share x (lk_b l); z = skip y 2
     in l\<lparr>lk_b := z, lk_a := share z x, got_ab := [1, 2]\<rparr>)"

lemma sample_write_reach: "link_reach 4 4 sample_write"
proof -
  let ?l = "link_new 4 4"
  have l: "link_reach 4 4 ?l" by (rule link_init) simp_all
  have "poll_write (lk_a ?l) = Some 3" "rb_write_bytes (lk_a ?l) [1, 2, 3] = Some (the (rb_write_bytes (lk_a ?l) [1, 2, 3]))"
    "sent_ab ?l = []"
    by (simp_all add: link_new_def RingBuffer_new_def zero_side_def poll_write_def rb_write_bytes_def copy_to_def
        rust_assert_def Let_def)
  then show ?thesis using link_write_a [OF l, of 3 "[1, 2, 3]"] by (simp add: sample_write_def Let_def)
qed

lemma sample_link_reach: "link_reach 4 4 sample_link"
proof -
  define x where "x = notify_write (lk_a sample_write)"
  define l where "l = sample_write\<lparr>lk_a := x, lk_b := share x (lk_b sample_write)\<rparr>"
  have l: "link_reach 4 4 l" unfolding l_def x_def by (rule link_publish_a [OF sample_write_reach])
  have "coherent (lk_a sample_write) (lk_b sample_write)"
    "dir_inv (lk_a sample_write) (lk_b sample_write) (sent_ab sample_write) (got_ab sample_write)"
    using link_reach_ok [OF sample_write_reach] by (simp_all add: link_ok_def)
  note p = dir_published [OF this]
  have s: "sent_ab sample_write = [1, 2, 3]" "got_ab sample_write = []"
    by (simp_all add: sample_write_def link_new_def Let_def)
  have b: "in_ok (lk_b l)" "in_bytes (lk_b l) = [1, 2, 3]" using p s by (simp_all add: l_def x_def)
  have "poll_read (lk_b l) = Some 3" "peek (lk_b l) 2 = Some [1, 2]" "got_ab l = []"
    using src.avail_eq [OF b(1)] src.get_eq [OF b(1), of 2] b(2) s(2) by (simp_all add: l_def del: length_in_bytes)
  then have "link_reach 4 4 (l\<lparr>lk_b := skip (lk_b l) 2, lk_a := share (skip (lk_b l) 2) (lk_a l), got_ab := [1, 2]\<rparr>)"
    using link_read_b [OF l, of 3 2 "[1, 2]"] by (simp add: rb_read_bytes_def)
  then show ?thesis by (simp add: sample_link_def l_def x_def Let_def)
qed

theorem link_fifo_witness:
  "link_reach 4 4 sample_link \<and> sent_ab sample_link = [1, 2, 3] \<and> prefix [1, 2] (sent_ab sample_link)
   \<and> [1, 2] @ in_bytes (share (notify_write (lk_a sample_link)) (lk_b sample_link)) = [1, 2, 3]"
proof -
  have "sent_ab sample_link = [1, 2, 3]" "got_ab sample_link = [1, 2]"
    by (simp_all add: sample_link_def sample_write_def Let_def)
  with link_fifo [OF sample_link_reach] sample_link_reach show ?thesis by simp
qed

text \<open>An end that can go on: both polls answer, and every transfer they allow completes.\<close>

definition end_ready :: "RingBuffer \<Rightarrow> bool" where
  "end_ready x \<longleftrightarrow> (\<exists>room avail. poll_write x = Some room \<and> poll_read x = Some avail \<and> room < rbs_size (rb_write x)
     \<and> (\<forall>xs. length xs \<le> room \<and> private_offset_w x + length xs < 2 ^ 64 \<longrightarrow> rb_write_bytes x xs \<noteq> None)
     \<and> (\<forall>k\<le>avail. rb_read_bytes x k \<noteq> None))"

lemma end_ready_if:
  assumes o: "out_ok x" and i: "in_ok x"
  shows "end_ready x"
proof -
  obtain room where r: "poll_write x = Some room" using snk.room_total [OF o] by blast
  have "room < rbs_size (rb_write x)" using r poll_write_eq [OF o] o by (auto simp: out_ok_def)
  moreover have "rb_write_bytes x xs \<noteq> None" if "length xs \<le> room" "private_offset_w x + length xs < 2 ^ 64" for xs
    using snk.put_eq [OF o r that(1)] that(2) by (auto simp: out_fits_def)
  moreover have "rb_read_bytes x k \<noteq> None" if "k \<le> length (in_bytes x)" for k
    using src.get_eq [OF i that] by (simp add: rb_read_bytes_def)
  ultimately show ?thesis
    unfolding end_ready_def using r src.avail_eq [OF i] by blast
qed

text \<open>
  C38. Neither end of a ring buffer ever panics or steps outside its buffers: in every reachable state the
  assertions of both polls hold, a write of at most the polled room completes, so does a read of at most
  the polled count, and the room is always less than the buffer's size.
\<close>

theorem link_progress:
  assumes "link_reach n m l"
  shows "end_ready (lk_a l) \<and> end_ready (lk_b l)"
proof -
  have ok: "coherent (lk_a l) (lk_b l)" "coherent (lk_b l) (lk_a l)"
    "dir_inv (lk_a l) (lk_b l) (sent_ab l) (got_ab l)" "dir_inv (lk_b l) (lk_a l) (sent_ba l) (got_ba l)"
    using link_reach_ok [OF assms] coherent_sym by (simp_all add: link_ok_def)
  note o = dir_writer(1) [OF ok(1,3)] dir_writer(1) [OF ok(2,4)] and i = dir_reader(1) [OF ok(2,4)] dir_reader(1) [OF ok(1,3)]
  from end_ready_if [OF o(1) i(1)] end_ready_if [OF o(2) i(2)] show ?thesis ..
qed

theorem link_progress_witness: "link_reach 4 4 sample_link \<and> end_ready (lk_a sample_link) \<and> end_ready (lk_b sample_link)"
  using link_progress [OF sample_link_reach] sample_link_reach by simp

text \<open>Writing a packet is two steps of the writer.\<close>

lemma share_share [simp]: "share x (share x1 y) = share x y"
  by (simp add: share_def)

lemma dir_packet:
  assumes co: "coherent x y" and d: "dir_inv x y S G" and w: "packet_write x xs = Some (True, x')"
    and f: "length S + packet_size xs < 2 ^ 64"
  shows "dir_inv x' (share x' y) (S @ frame xs) G"
proof -
  let ?h = "serialize_header (length xs)"
  note o = dir_writer [OF co d]
  obtain r x1 where s: "rb_write_bytes x ?h = Some x1" "rb_write_bytes x1 xs = Some x'"
    "poll_write x = Some r" "\<not> r < packet_size xs"
    using w by (auto simp: packet_write_def split: Option.bind_splits if_splits)
  have h: "length ?h \<le> r" "out_fits x (length ?h)" "length (S @ ?h) < 2 ^ 64"
    using s(4) f o(4) [of HEADER_SIZE] by (simp_all add: packet_size_def)
  have d1: "dir_inv x1 (share x1 y) (S @ ?h) G"
    by (rule dir_step_out [OF co d do_write [OF s(3) h(1) s(1)] h(3)])
  have "poll_write x1 = Some (r - length ?h)" using snk.put_eq [OF o(1) s(3) h(1,2)] s(1) by auto
  moreover have "length xs \<le> r - length ?h" using s(4) by (simp add: packet_size_def)
  moreover have "length ((S @ ?h) @ xs) < 2 ^ 64" using f by (simp add: packet_size_def)
  ultimately have "dir_inv x' (share x' (share x1 y)) ((S @ ?h) @ xs) G"
    using dir_step_out [OF _ d1 do_write [OF _ _ s(2)]] by simp
  then show ?thesis by (simp add: frame_def)
qed

text \<open>
  C39. Packets survive the link: when one end has read everything, a packet its peer writes and
  publishes is the packet it reads next, and the buffer is then empty again; a packet that does not
  fit is refused and nothing is written.
\<close>

theorem link_packet_roundtrip:
  assumes l: "link_reach n m l" and e: "got_ab l = sent_ab l"
    and xs: "length xs < 2 ^ 32" "length (sent_ab l) + packet_size xs < 2 ^ 64"
    and room: "poll_write (lk_a l) = Some room"
  shows "if packet_size xs \<le> room
    then \<exists>x y. packet_write (lk_a l) xs = Some (True, x)
      \<and> packet_read (share (notify_write x) (lk_b l)) = Some (Some xs, y) \<and> in_bytes y = []
    else packet_write (lk_a l) xs = Some (False, lk_a l)"
proof -
  have ok: "coherent (lk_a l) (lk_b l)" "dir_inv (lk_a l) (lk_b l) (sent_ab l) (got_ab l)"
    using link_reach_ok [OF l] by (simp_all add: link_ok_def)
  note o = dir_writer [OF ok]
  have f: "out_fits (lk_a l) (packet_size xs)" using o(4) xs(2) by simp
  show ?thesis
  proof (rule packet_write_frame [OF o(1) f])
    assume "packet_write (lk_a l) xs = Some (False, lk_a l)" "\<exists>r. poll_write (lk_a l) = Some r \<and> r < packet_size xs"
    then show ?thesis using room by auto
  next
    fix x
    assume w: "packet_write (lk_a l) xs = Some (True, x)" and r: "\<exists>r. poll_write (lk_a l) = Some r \<and> packet_size xs \<le> r"
    have "dir_inv x (share x (lk_b l)) (sent_ab l @ frame xs) (got_ab l)"
      by (rule dir_packet [OF ok w xs(2)])
    from dir_published [OF coherent_share(1) this] e
    have i: "in_ok (share (notify_write x) (lk_b l))" "in_bytes (share (notify_write x) (lk_b l)) = frame xs @ []"
      by simp_all
    from packet_read_frame [OF i xs(1)] w r room show ?thesis by auto
  qed
qed

theorem link_packet_roundtrip_witness:
  "\<exists>x y. packet_write (lk_a (link_new 16 8)) [7, 8, 9] = Some (True, x)
     \<and> packet_read (share (notify_write x) (lk_b (link_new 16 8))) = Some (Some [7, 8, 9], y) \<and> in_bytes y = []"
proof -
  have l: "link_reach 16 8 (link_new 16 8)" by (rule link_init) simp_all
  have "poll_write (lk_a (link_new 16 8)) = Some 15"
    by (simp add: link_new_def RingBuffer_new_def zero_side_def poll_write_def rust_assert_def Let_def)
  from link_packet_roundtrip [OF l _ _ _ this, of "[7, 8, 9]"] show ?thesis
    by (simp add: link_new_def packet_size_def HEADER_SIZE_def)
qed

end
