(* ===== verification/EventServer.thy ===== *)
theory EventServer
  imports EventTypes
begin

text \<open>
  The event server (\<^verbatim>\<open>hypervisor/components/event-server/src\<close>): it routes the events of the host, the
  realms, the resource server, the serial server and the hardware to the input spaces of their
  targets. The source shares events, input spaces and subscription slots through
  \<^verbatim>\<open>Arc<RefCell<_>>\<close>; here they are cells of a store, addressed by their position, because what an
  operation does depends on who else holds the same cell. A \<^verbatim>\<open>RefCell\<close> that is mutably borrowed twice
  panics: \<open>in_space_signal\<close> carries the input spaces on the call stack and fails on one of them.

  The kernel's notifications and interrupt handlers are parameters (\<open>es_kernel\<close>) on a world \<open>'w\<close>. The
  server's mutex makes every message one step.
\<close>

section \<open>State\<close>

record ('w, 'e) es_kernel =
  k_signal :: "'w \<Rightarrow> nat \<Rightarrow> 'w"
  k_irq_ack :: "'w \<Rightarrow> nat \<Rightarrow> ('e + unit) \<times> 'w"
  k_irq_set_notification :: "'w \<Rightarrow> nat \<Rightarrow> nat \<Rightarrow> ('e + unit) \<times> 'w"

record EventTarget =
  et_in_space :: nat
  et_index :: nat

record EventIRQ =
  irq_handler :: nat
  irq_notifications :: "nat list"

record Event =
  ev_target :: "EventTarget option"
  ev_irq :: "EventIRQ option"

record InSpaceEntry =
  ent_event :: nat
  ent_enabled :: bool

record ClientNode =
  cn_nfn :: "nat list"
  cn_bitfield :: nat

record InSpace =
  sp_entries :: "InSpaceEntry option list"
  sp_notification :: ClientNode
  sp_slot :: nat

datatype Subscriber = Sub_Event nat | Sub_Notification nat

record SubscriptionEntry =
  sub_subscriber :: Subscriber
  sub_slot :: "nat option"

record Client =
  out_space :: "nat list"
  in_spaces :: "nat list"

record InactiveRealm =
  ir_out_space :: "nat list"
  in_notifications :: "ClientNode list"
  in_entries :: "nat option list"

text \<open>The store, the shared memory of the bitfields (by address) and the world, then the server.\<close>

record 'w EventServer =
  st_events :: "Event list"
  st_spaces :: "InSpace list"
  st_slots :: "Subscriber option list"
  st_bitfields :: "nat \<Rightarrow> bitfield"
  st_world :: 'w
  resource_server :: Client
  serial_server :: Client
  host :: Client
  realms :: "nat \<rightharpoonup> Client"
  inactive_realms :: "nat \<rightharpoonup> InactiveRealm"
  resource_server_subscriptions :: "SubscriptionEntry list"
  host_subscriptions :: "SubscriptionEntry list"
  irq_events :: "nat \<rightharpoonup> nat"

type_synonym ('w, 'e) es_method = "('e, unit, 'w EventServer) fallible"

section \<open>Cells\<close>

definition new_event :: "Event \<Rightarrow> 'w EventServer \<Rightarrow> nat \<times> 'w EventServer" where
  "new_event ev st = (length (st_events st), st\<lparr>st_events := st_events st @ [ev]\<rparr>)"

definition new_slot :: "'w EventServer \<Rightarrow> nat \<times> 'w EventServer" where
  "new_slot st = (length (st_slots st), st\<lparr>st_slots := st_slots st @ [None]\<rparr>)"

definition new_space :: "InSpace \<Rightarrow> 'w EventServer \<Rightarrow> nat \<times> 'w EventServer" where
  "new_space sp st = (length (st_spaces st), st\<lparr>st_spaces := st_spaces st @ [sp]\<rparr>)"

definition set_event :: "nat \<Rightarrow> Event \<Rightarrow> 'w EventServer \<Rightarrow> 'w EventServer" where
  "set_event e ev st = st\<lparr>st_events := (st_events st)[e := ev]\<rparr>"

definition set_slot :: "nat \<Rightarrow> Subscriber option \<Rightarrow> 'w EventServer \<Rightarrow> 'w EventServer" where
  "set_slot i sub st = st\<lparr>st_slots := (st_slots st)[i := sub]\<rparr>"

definition get_entry :: "nat \<Rightarrow> nat \<Rightarrow> 'w EventServer \<Rightarrow> InSpaceEntry option option" where
  "get_entry s i st = do { sp \<leftarrow> vec_get (st_spaces st) s; vec_get (sp_entries sp) i }"

definition set_entry :: "nat \<Rightarrow> nat \<Rightarrow> InSpaceEntry option \<Rightarrow> 'w EventServer \<Rightarrow> 'w EventServer option" where
  "set_entry s i ent st = do {
     sp \<leftarrow> vec_get (st_spaces st) s;
     es \<leftarrow> vec_set (sp_entries sp) i ent;
     Some (st\<lparr>st_spaces := (st_spaces st)[s := sp\<lparr>sp_entries := es\<rparr>]\<rparr>) }"

definition es_signal :: "('w, 'e) es_kernel \<Rightarrow> nat \<Rightarrow> 'w EventServer \<Rightarrow> 'w EventServer" where
  "es_signal K nfn st = st\<lparr>st_world := k_signal K (st_world st) nfn\<rparr>"

section \<open>Signalling\<close>

text \<open>
  The body of \<^verbatim>\<open>InSpace::signal\<close> up to the notification of the subscriber: set the event's bit and, if it
  was clear, signal the notification of its group. \<^verbatim>\<open>index as u32\<close> truncates.
\<close>

definition post_event :: "('w, 'e) es_kernel \<Rightarrow> nat \<Rightarrow> nat \<Rightarrow> 'w EventServer \<Rightarrow> (bool \<times> 'w EventServer) option" where
  "post_event K s index st = do {
     sp \<leftarrow> vec_get (st_spaces st) s;
     ent \<leftarrow> vec_get (sp_entries sp) index;
     entry \<leftarrow> ent;
     let addr = cn_bitfield (sp_notification sp);
     let (fresh, bf) = bitfield_set (st_bitfields st addr) (index mod 2 ^ 32);
     let st = st\<lparr>st_bitfields := (st_bitfields st)(addr := bf)\<rparr>;
     if fresh then do {
       nfn \<leftarrow> vec_get (cn_nfn (sp_notification sp)) (index div 64);
       Some (True, es_signal K nfn st) }
     else Some (False, st) }"

text \<open>\<^verbatim>\<open>self.subscription_slot.replace(None)\<close>\<close>

definition take_subscriber :: "nat \<Rightarrow> 'w EventServer \<Rightarrow> (Subscriber option \<times> 'w EventServer) option" where
  "take_subscriber s st = do {
     sp \<leftarrow> vec_get (st_spaces st) s;
     sub \<leftarrow> vec_get (st_slots st) (sp_slot sp);
     Some (sub, set_slot (sp_slot sp) None st) }"

lemma post_event_spaces: "post_event K s i st = Some (b, st') \<Longrightarrow>
    st_spaces st' = st_spaces st \<and> st_events st' = st_events st \<and> st_slots st' = st_slots st \<and> s < length (st_spaces st)"
  by (auto simp: post_event_def es_signal_def Let_def vec_get_Some split: Option.bind_splits prod.splits if_splits)

lemma take_subscriber_spaces: "take_subscriber s st = Some (sub, st') \<Longrightarrow> st_spaces st' = st_spaces st \<and> st_events st' = st_events st"
  by (auto simp: take_subscriber_def set_slot_def split: Option.bind_splits)

text \<open>
  \<^verbatim>\<open>InSpace::signal\<close>, \<^verbatim>\<open>notify_subscriber\<close>, \<^verbatim>\<open>Subscriber::signal\<close> and \<^verbatim>\<open>Event::signal\<close> call each other. Each
  level borrows one more input space, so the recursion ends.
\<close>

function in_space_signal ::
  "('w, 'e) es_kernel \<Rightarrow> nat list \<Rightarrow> nat \<Rightarrow> nat \<Rightarrow> 'w EventServer \<Rightarrow> 'w EventServer option" where
  "in_space_signal K borrowed s index st =
     (if s \<in> set borrowed then None
      else do {
        (fresh, st) \<leftarrow> post_event K s index st;
        if fresh then do {
          (sub, st) \<leftarrow> take_subscriber s st;
          case sub of
            None \<Rightarrow> Some st
          | Some (Sub_Notification nfn) \<Rightarrow> Some (es_signal K nfn st)
          | Some (Sub_Event e) \<Rightarrow> do {
              ev \<leftarrow> vec_get (st_events st) e;
              case ev_target ev of
                None \<Rightarrow> Some st
              | Some t \<Rightarrow> in_space_signal K (s # borrowed) (et_in_space t) (et_index t) st } }
        else Some st })"
  by pat_completeness auto
termination
proof (relation "measure (\<lambda>(K, borrowed, s, index, st). card ({..<length (st_spaces st)} - set borrowed))", goal_cases)
  case 1
  then show ?case by simp
next
  case (2 K borrowed s index st p fresh st1 q sub st2 sub' e ev t)
  have "st_spaces st2 = st_spaces st" "s < length (st_spaces st)"
    using 2 post_event_spaces [of K s index st fresh st1] take_subscriber_spaces [of s st1 sub st2] by auto
  moreover from this 2(1) have "{..<length (st_spaces st)} - set (s # borrowed) \<subset> {..<length (st_spaces st)} - set borrowed"
    by auto
  ultimately show ?case by (auto simp only: in_measure prod.case intro!: psubset_card_mono)
qed

declare in_space_signal.simps [simp del]

definition event_signal :: "('w, 'e) es_kernel \<Rightarrow> nat \<Rightarrow> 'w EventServer \<Rightarrow> 'w EventServer option" where
  "event_signal K e st = do {
     ev \<leftarrow> vec_get (st_events st) e;
     case ev_target ev of
       None \<Rightarrow> Some st
     | Some t \<Rightarrow> in_space_signal K [] (et_in_space t) (et_index t) st }"

section \<open>Events and input spaces\<close>

definition connect :: "nat \<Rightarrow> nat \<Rightarrow> nat \<Rightarrow> 'w EventServer \<Rightarrow> 'w EventServer option" where
  "connect e s in_index st = do {
     ent \<leftarrow> get_entry s in_index st;
     rust_assert (ent = None);
     ev \<leftarrow> vec_get (st_events st) e;
     rust_assert (ev_target ev = None);
     st \<leftarrow> set_entry s in_index (Some \<lparr>ent_event = e, ent_enabled = True\<rparr>) st;
     Some (set_event e (ev\<lparr>ev_target := Some \<lparr>et_in_space = s, et_index = in_index\<rparr>\<rparr>) st) }"

definition disconnect :: "nat \<Rightarrow> 'w EventServer \<Rightarrow> 'w EventServer option" where
  "disconnect e st = do {
     ev \<leftarrow> vec_get (st_events st) e;
     Some (set_event e (ev\<lparr>ev_target := None\<rparr>) st) }"

definition in_space_end :: "('w, 'e) es_kernel \<Rightarrow> nat \<Rightarrow> nat \<Rightarrow> 'w EventServer \<Rightarrow> ('w, 'e) es_method" where
  "in_space_end K s index st = do {
     ent \<leftarrow> get_entry s index st;
     entry \<leftarrow> ent;
     ev \<leftarrow> vec_get (st_events st) (ent_event entry);
     irq \<leftarrow> ev_irq ev;
     let (r, w) = k_irq_ack K (st_world st) (irq_handler irq);
     Some (r, st\<lparr>st_world := w\<rparr>) }"

fun in_space_configure :: "nat \<Rightarrow> nat \<Rightarrow> ConfigureAction \<Rightarrow> 'w EventServer \<Rightarrow> 'w EventServer option" where
  "in_space_configure s index (SetPriority p) st = None"
| "in_space_configure s index (SetEnabled e) st = do {
     ent \<leftarrow> get_entry s index st;
     entry \<leftarrow> ent;
     set_entry s index (Some (entry\<lparr>ent_enabled := e\<rparr>)) st }"

section \<open>Clients\<close>

definition client_signal :: "('w, 'e) es_kernel \<Rightarrow> Client \<Rightarrow> nat \<Rightarrow> 'w EventServer \<Rightarrow> 'w EventServer option" where
  "client_signal K c index st = do { e \<leftarrow> vec_get (out_space c) index; event_signal K e st }"

definition client_end :: "('w, 'e) es_kernel \<Rightarrow> Client \<Rightarrow> nat \<Rightarrow> nat \<Rightarrow> 'w EventServer \<Rightarrow> ('w, 'e) es_method" where
  "client_end K c nid index st = do { s \<leftarrow> vec_get (in_spaces c) nid; in_space_end K s index st }"

definition client_configure ::
  "Client \<Rightarrow> nat \<Rightarrow> nat \<Rightarrow> ConfigureAction \<Rightarrow> 'w EventServer \<Rightarrow> 'w EventServer option" where
  "client_configure c nid index action st = do { s \<leftarrow> vec_get (in_spaces c) nid; in_space_configure s index action st }"

text \<open>
  \<^verbatim>\<open>move_\<close> exchanges two entries, retargets the event that arrives at the destination and, if an
  interrupt backs it, binds \<^verbatim>\<open>irq.notifications[dst_index]\<close>.
\<close>

definition client_move ::
  "('w, 'e) es_kernel \<Rightarrow> Client \<Rightarrow> nat \<Rightarrow> nat \<Rightarrow> nat \<Rightarrow> nat \<Rightarrow> 'w EventServer \<Rightarrow> ('w, 'e) es_method" where
  "client_move K c src_nid src_index dst_nid dst_index st =
     (if (src_nid, src_index) \<noteq> (dst_nid, dst_index) then do {
        src \<leftarrow> vec_get (in_spaces c) src_nid;
        a \<leftarrow> get_entry src src_index st;
        st \<leftarrow> set_entry src src_index None st;
        dst \<leftarrow> vec_get (in_spaces c) dst_nid;
        b \<leftarrow> get_entry dst dst_index st;
        st \<leftarrow> set_entry dst dst_index a st;
        st \<leftarrow> set_entry src src_index b st;
        ent \<leftarrow> get_entry dst dst_index st;
        case ent of
          None \<Rightarrow> Some (Inr (), st)
        | Some entry \<Rightarrow> do {
            ev \<leftarrow> vec_get (st_events st) (ent_event entry);
            let st = set_event (ent_event entry) (ev\<lparr>ev_target := Some \<lparr>et_in_space = dst, et_index = dst_index\<rparr>\<rparr>) st;
            case ev_irq ev of
              None \<Rightarrow> Some (Inr (), st)
            | Some irq \<Rightarrow> do {
                nfn \<leftarrow> vec_get (irq_notifications irq) dst_index;
                let (r, w) = k_irq_set_notification K (st_world st) (irq_handler irq) nfn;
                Some (r, st\<lparr>st_world := w\<rparr>) } } }
      else Some (Inr (), st))"

section \<open>Realms and subscriptions\<close>

text \<open>The input spaces of a new client: one per node, all entries empty.\<close>

definition create_in_space :: "nat \<Rightarrow> ClientNode \<Rightarrow> nat list \<times> 'w EventServer \<Rightarrow> nat list \<times> 'w EventServer" where
  "create_in_space n node = (\<lambda>(acc, st).
     let (slot, st) = new_slot st;
         (s, st) = new_space \<lparr>sp_entries = replicate n None, sp_notification = node, sp_slot = slot\<rparr> st
     in (acc @ [s], st))"

fun create_in_spaces :: "nat \<Rightarrow> ClientNode list \<Rightarrow> 'w EventServer \<Rightarrow> nat list \<times> 'w EventServer" where
  "create_in_spaces n [] st = ([], st)"
| "create_in_spaces n (node # nodes) st =
     (let (acc, st) = create_in_space n node ([], st);
          (rest, st) = create_in_spaces n nodes st
      in (acc @ rest, st))"

definition connect_entries :: "Client \<Rightarrow> nat option list \<Rightarrow> 'w EventServer \<Rightarrow> 'w EventServer option" where
  "connect_entries c es = for_each (enumerate 0 es) (\<lambda>(in_index, entry) st. case entry of
     None \<Rightarrow> Some st
   | Some e \<Rightarrow> do { s \<leftarrow> vec_get (in_spaces c) 0; connect e s in_index st })"

definition create_client :: "InactiveRealm \<Rightarrow> nat \<Rightarrow> 'w EventServer \<Rightarrow> (Client \<times> 'w EventServer) option" where
  "create_client ir num_nodes st = do {
     rust_assert (num_nodes \<le> length (in_notifications ir));
     let (spaces, st) = create_in_spaces RealmIn_CARDINALITY (take num_nodes (in_notifications ir)) st;
     let client = \<lparr>out_space = ir_out_space ir, in_spaces = spaces\<rparr>;
     st \<leftarrow> connect_entries client (in_entries ir) st;
     Some (client, st) }"

definition destroy :: "InactiveRealm \<Rightarrow> 'w EventServer \<Rightarrow> 'w EventServer option" where
  "destroy ir = for_each (in_entries ir) (\<lambda>entry st. case entry of None \<Rightarrow> Some st | Some e \<Rightarrow> disconnect e st)"

definition create_realm :: "nat \<Rightarrow> nat \<Rightarrow> 'w EventServer \<Rightarrow> 'w EventServer option" where
  "create_realm rid num_nodes st = do {
     rust_assert (rid \<notin> dom (realms st));
     inactive \<leftarrow> inactive_realms st rid;
     (client, st) \<leftarrow> create_client inactive num_nodes st;
     Some (st\<lparr>realms := (realms st)(rid \<mapsto> client)\<rparr>) }"

definition destroy_realm :: "nat \<Rightarrow> 'w EventServer \<Rightarrow> 'w EventServer option" where
  "destroy_realm rid st = do {
     rust_assert (rid \<in> dom (realms st));
     let st = st\<lparr>realms := (realms st)(rid := None)\<rparr>;
     inactive \<leftarrow> inactive_realms st rid;
     destroy inactive st }"

definition host_subscribe :: "nat \<Rightarrow> nat \<Rightarrow> nat \<Rightarrow> 'w EventServer \<Rightarrow> 'w EventServer option" where
  "host_subscribe nid rid realm_nid st = do {
     c \<leftarrow> realms st rid;
     s \<leftarrow> vec_get (in_spaces c) realm_nid;
     sp \<leftarrow> vec_get (st_spaces st) s;
     let slot = sp_slot sp;
     sub \<leftarrow> vec_get (host_subscriptions st) nid;
     old \<leftarrow> vec_get (st_slots st) slot;
     let st = set_slot slot (Some (sub_subscriber sub)) st;
     rust_assert (old = None);
     rust_assert (sub_slot sub = None);
     Some (st\<lparr>host_subscriptions := (host_subscriptions st)[nid := sub\<lparr>sub_slot := Some slot\<rparr>]\<rparr>) }"

definition resource_server_subscribe :: "nat \<Rightarrow> nat \<Rightarrow> 'w EventServer \<Rightarrow> 'w EventServer option" where
  "resource_server_subscribe nid host_nid st = do {
     s \<leftarrow> vec_get (in_spaces (host st)) host_nid;
     sp \<leftarrow> vec_get (st_spaces st) s;
     let slot = sp_slot sp;
     sub \<leftarrow> vec_get (resource_server_subscriptions st) nid;
     old \<leftarrow> vec_get (st_slots st) slot;
     let st = set_slot slot (Some (sub_subscriber sub)) st;
     rust_assert (old = None);
     rust_assert (sub_slot sub = None);
     Some (st\<lparr>resource_server_subscriptions :=
       (resource_server_subscriptions st)[nid := sub\<lparr>sub_slot := Some slot\<rparr>]\<rparr>) }"

definition resource_server_unsubscribe :: "nat \<Rightarrow> nat \<Rightarrow> 'w EventServer \<Rightarrow> 'w EventServer option" where
  "resource_server_unsubscribe nid host_nid st = do {
     s \<leftarrow> vec_get (in_spaces (host st)) host_nid;
     sp \<leftarrow> vec_get (st_spaces st) s;
     let st = set_slot (sp_slot sp) None st;
     sub \<leftarrow> vec_get (resource_server_subscriptions st) nid;
     Some (st\<lparr>resource_server_subscriptions := (resource_server_subscriptions st)[nid := sub\<lparr>sub_slot := None\<rparr>]\<rparr>) }"

section \<open>Messages\<close>

text \<open>
  The dispatch of \<^verbatim>\<open>main.rs\<close>. The message is a parameter: what its registers hold, and what the calls
  of the three interfaces decode to.
\<close>

record es_message =
  msg_mr0 :: u64
  msg_client :: ClientCall
  msg_resource_server :: ResourceServerCall
  msg_host :: HostCall

datatype ClientId = CID_ResourceServer | CID_SerialServer | CID_Host | CID_Realm nat

record Badges =
  client_badges :: "ClientId list"
  resource_server_badge :: u64
  host_badge :: u64

fun client_of :: "ClientId \<Rightarrow> 'w EventServer \<Rightarrow> Client option" where
  "client_of CID_ResourceServer st = Some (resource_server st)"
| "client_of CID_SerialServer st = Some (serial_server st)"
| "client_of CID_Host st = Some (host st)"
| "client_of (CID_Realm rid) st = realms st rid"

definition es_ok_unit :: "'w EventServer option \<Rightarrow> ('w, 'e) es_method" where
  "es_ok_unit m = map_option (\<lambda>st. (Inr (), st)) m"

fun handle_client :: "('w, 'e) es_kernel \<Rightarrow> Client \<Rightarrow> ClientCall \<Rightarrow> 'w EventServer \<Rightarrow> ('w, 'e) es_method" where
  "handle_client K c (Client_Signal index) st = es_ok_unit (client_signal K c index st)"
| "handle_client K c (Client_SEV nid) st = None"
| "handle_client K c (Client_Poll nid) st = None"
| "handle_client K c (Client_End nid index) st = client_end K c nid index st"
| "handle_client K c (Client_Configure nid index action) st = es_ok_unit (client_configure c nid index action st)"
| "handle_client K c (Client_Move src_nid src_index dst_nid dst_index) st =
     client_move K c src_nid src_index dst_nid dst_index st"

fun handle_resource_server :: "ResourceServerCall \<Rightarrow> 'w EventServer \<Rightarrow> 'w EventServer option" where
  "handle_resource_server (RS_Subscribe nid host_nid) st = resource_server_subscribe nid host_nid st"
| "handle_resource_server (RS_Unsubscribe nid host_nid) st = resource_server_unsubscribe nid host_nid st"
| "handle_resource_server (RS_CreateRealm realm_id num_nodes) st = create_realm realm_id num_nodes st"
| "handle_resource_server (RS_DestroyRealm realm_id) st = destroy_realm realm_id st"

fun handle_host :: "HostCall \<Rightarrow> 'w EventServer \<Rightarrow> 'w EventServer option" where
  "handle_host (Host_Subscribe nid realm_id realm_nid) st = host_subscribe nid realm_id realm_nid st"

definition BADGE_TYPE_MASK :: u64 where "BADGE_TYPE_MASK = shl 3 11"
definition BADGE_TYPE_CLIENT :: u64 where "BADGE_TYPE_CLIENT = 3"
definition BADGE_TYPE_CLIENT_OUT :: u64 where "BADGE_TYPE_CLIENT_OUT = 2"
definition BADGE_TYPE_CONTROL :: u64 where "BADGE_TYPE_CONTROL = 1"

definition es_run_step ::
  "('w, 'e) es_kernel \<Rightarrow> Badges \<Rightarrow> u64 \<Rightarrow> es_message \<Rightarrow> 'w EventServer \<Rightarrow> ('w, 'e) es_method" where
  "es_run_step K badges badge msg st = (
     let badge_type = shr badge 11;
         badge_value = badge AND NOT BADGE_TYPE_MASK
     in if badge_type = BADGE_TYPE_CLIENT_OUT then do {
          cid \<leftarrow> vec_get (client_badges badges) (unat badge_value);
          c \<leftarrow> client_of cid st;
          es_ok_unit (client_signal K c (unat (msg_mr0 msg)) st) }
        else if badge_type = BADGE_TYPE_CLIENT then do {
          cid \<leftarrow> vec_get (client_badges badges) (unat badge_value);
          c \<leftarrow> client_of cid st;
          handle_client K c (msg_client msg) st }
        else if badge_type = BADGE_TYPE_CONTROL then
          (if badge_value = resource_server_badge badges then
             es_ok_unit (handle_resource_server (msg_resource_server msg) st)
           else if badge_value = host_badge badges then es_ok_unit (handle_host (msg_host msg) st)
           else None)
        else None)"

text \<open>One round of an interrupt thread: the bits of its badge name interrupts.\<close>

definition irq_thread_step :: "('w, 'e) es_kernel \<Rightarrow> nat list \<Rightarrow> u64 \<Rightarrow> 'w EventServer \<Rightarrow> 'w EventServer option" where
  "irq_thread_step K irqs badge = for_each (biterate badge) (\<lambda>i st. do {
     irq \<leftarrow> vec_get irqs i;
     e \<leftarrow> irq_events st irq;
     event_signal K e st })"

section \<open>Start-up\<close>

record EventServerConfig =
  cfg_host_notifications :: "ClientNode list"
  cfg_realm_notifications :: "ClientNode list list"
  cfg_resource_server_subscriptions :: "nat list"
  cfg_irqs :: "(nat \<times> nat \<times> nat list) list"

fun mk_out_space :: "nat \<Rightarrow> 'w EventServer \<Rightarrow> nat list \<times> 'w EventServer" where
  "mk_out_space 0 st = ([], st)"
| "mk_out_space (Suc n) st =
     (let (e, st) = new_event \<lparr>ev_target = None, ev_irq = None\<rparr> st;
          (es, st) = mk_out_space n st
      in (e # es, st))"

definition mk_inactive :: "EventServerConfig \<Rightarrow> nat \<Rightarrow> 'w EventServer \<Rightarrow> 'w EventServer option" where
  "mk_inactive cfg realm_id st = do {
     nodes \<leftarrow> vec_get (cfg_realm_notifications cfg) realm_id;
     let (es, st) = mk_out_space RealmOut_CARDINALITY st;
     Some (st\<lparr>inactive_realms := (inactive_realms st)(realm_id \<mapsto>
       \<lparr>ir_out_space = es, in_notifications = nodes, in_entries = replicate RealmIn_CARDINALITY None\<rparr>)\<rparr>) }"

definition set_in_entry :: "nat \<Rightarrow> nat \<Rightarrow> nat \<Rightarrow> 'w EventServer \<Rightarrow> 'w EventServer option" where
  "set_in_entry rid i e st = do {
     ir \<leftarrow> inactive_realms st rid;
     es \<leftarrow> vec_set (in_entries ir) i (Some e);
     Some (st\<lparr>inactive_realms := (inactive_realms st)(rid \<mapsto> ir\<lparr>in_entries := es\<rparr>)\<rparr>) }"

definition PRIMARY_HOST_NODE :: nat where "PRIMARY_HOST_NODE = 0"

definition connect_host :: "nat \<Rightarrow> HostIn \<Rightarrow> 'w EventServer \<Rightarrow> 'w EventServer option" where
  "connect_host e x st = do {
     s \<leftarrow> vec_get (in_spaces (host st)) PRIMARY_HOST_NODE;
     connect e s (HostIn_to_nat x) st }"

definition wire_resource_server :: "'w EventServer \<Rightarrow> 'w EventServer option" where
  "wire_resource_server st = for_each (enumerate 0 (out_space (resource_server st))) (\<lambda>(out_index, e) st. do {
     x \<leftarrow> ResourceServerOut_from_nat out_index;
     case x of ResourceOut_HostRingBuffer \<Rightarrow> connect_host e (HostIn_RingBuffer HostRB_ResourceServer) st }) st"

definition wire_serial_server :: "'w EventServer \<Rightarrow> 'w EventServer option" where
  "wire_serial_server st = for_each (enumerate 0 (out_space (serial_server st))) (\<lambda>(out_index, e) st. do {
     x \<leftarrow> SerialServerOut_from_nat out_index;
     case x of
       SerialOut_RingBuffer SerialRB_Host \<Rightarrow> connect_host e (HostIn_RingBuffer HostRB_SerialServer) st
     | SerialOut_RingBuffer (SerialRB_Realm (EventRealmId rid)) \<Rightarrow>
         set_in_entry rid (RealmIn_to_nat (RealmIn_RingBuffer RealmRB_SerialServer)) e st }) st"

definition wire_host :: "'w EventServer \<Rightarrow> 'w EventServer option" where
  "wire_host st = for_each (enumerate 0 (out_space (host st))) (\<lambda>(out_index, e) st. do {
     x \<leftarrow> HostOut_from_nat out_index;
     case x of HostOut_RingBuffer (HostOutRB_Realm (EventRealmId rid) rb) \<Rightarrow>
       set_in_entry rid (RealmIn_to_nat (RealmIn_RingBuffer (RealmRB_Host rb))) e st }) st"

definition wire_realm :: "nat \<Rightarrow> 'w EventServer \<Rightarrow> 'w EventServer option" where
  "wire_realm realm_id st = do {
     ir \<leftarrow> inactive_realms st realm_id;
     for_each (enumerate 0 (ir_out_space ir)) (\<lambda>(out_index, e) st. do {
       x \<leftarrow> RealmOut_from_nat out_index;
       case x of RealmOut_RingBuffer (RealmOutRB_Host rb) \<Rightarrow> do {
         r \<leftarrow> EventRealmId_from_nat realm_id;
         connect_host e (HostIn_RingBuffer (HostRB_Realm r rb)) st } }) st }"

definition mk_host_subscription :: "nat \<Rightarrow> 'w EventServer \<Rightarrow> 'w EventServer option" where
  "mk_host_subscription node_index st = do {
     let (e, st) = new_event \<lparr>ev_target = None, ev_irq = None\<rparr> st;
     s \<leftarrow> vec_get (in_spaces (host st)) node_index;
     st \<leftarrow> connect e s (HostIn_to_nat HostIn_RealmEvent) st;
     Some (st\<lparr>host_subscriptions := host_subscriptions st @ [\<lparr>sub_subscriber = Sub_Event e, sub_slot = None\<rparr>]\<rparr>) }"

definition mk_irq :: "('w, 'e) es_kernel \<Rightarrow> nat \<times> nat \<times> nat list \<Rightarrow> 'w EventServer \<Rightarrow> 'w EventServer option" where
  "mk_irq K = (\<lambda>(irq, handler, nfns) st. do {
     let (r, w) = k_irq_ack K (st_world st) handler;
     case r of
       Inl _ \<Rightarrow> None
     | Inr _ \<Rightarrow> do {
         let (e, st) = new_event \<lparr>ev_target = None, ev_irq = Some \<lparr>irq_handler = handler, irq_notifications = nfns\<rparr>\<rparr>
               (st\<lparr>st_world := w\<rparr>);
         st \<leftarrow> connect_host e (HostIn_SPI (EventSPI irq)) st;
         Some (st\<lparr>irq_events := (irq_events st)(irq \<mapsto> e)\<rparr>) } })"

definition empty_client :: Client where "empty_client = \<lparr>out_space = [], in_spaces = []\<rparr>"

definition empty_server :: "'w \<Rightarrow> (nat \<Rightarrow> bitfield) \<Rightarrow> 'w EventServer" where
  "empty_server w bfs = \<lparr>st_events = [], st_spaces = [], st_slots = [], st_bitfields = bfs, st_world = w,
     resource_server = empty_client, serial_server = empty_client, host = empty_client,
     realms = Map.empty, inactive_realms = Map.empty, resource_server_subscriptions = [],
     host_subscriptions = [], irq_events = Map.empty\<rparr>"

text \<open>
  \<^verbatim>\<open>EventServerConfig::realize\<close>, statement by statement; \<open>cores\<close> is the platform's number of active
  cores. A core without a notification panics.
\<close>

definition realize ::
  "('w, 'e) es_kernel \<Rightarrow> nat \<Rightarrow> EventServerConfig \<Rightarrow> 'w EventServer \<Rightarrow> 'w EventServer option" where
  "realize K cores cfg st = do {
     let (es, st) = mk_out_space ResourceServerOut_CARDINALITY st;
     let st = st\<lparr>resource_server := \<lparr>out_space = es, in_spaces = []\<rparr>\<rparr>;
     let (es, st) = mk_out_space SerialServerOut_CARDINALITY st;
     let st = st\<lparr>serial_server := \<lparr>out_space = es, in_spaces = []\<rparr>\<rparr>;
     let (es, st) = mk_out_space HostOut_CARDINALITY st;
     rust_assert (cores \<le> length (cfg_host_notifications cfg));
     let (ss, st) = create_in_spaces HostIn_CARDINALITY (take cores (cfg_host_notifications cfg)) st;
     let st = st\<lparr>host := \<lparr>out_space = es, in_spaces = ss\<rparr>\<rparr>;
     st \<leftarrow> for_each [0..<NUM_REALMS] (mk_inactive cfg) st;
     st \<leftarrow> wire_resource_server st;
     st \<leftarrow> wire_serial_server st;
     st \<leftarrow> wire_host st;
     st \<leftarrow> for_each [0..<NUM_REALMS] wire_realm st;
     let st = st\<lparr>resource_server_subscriptions :=
       map (\<lambda>n. \<lparr>sub_subscriber = Sub_Notification n, sub_slot = None\<rparr>) (cfg_resource_server_subscriptions cfg)\<rparr>;
     st \<leftarrow> for_each [0..<cores] mk_host_subscription st;
     for_each (cfg_irqs cfg) (mk_irq K) st }"

end
