(* ===== verification/EventServerProps.thy ===== *)
theory EventServerProps
  imports EventServer
begin

text \<open>
  The routing invariant of the event server: the target of an event is the entry that names the event,
  in an input space that belongs to the event's owner, and subscriptions lead from a realm to the host
  and no further. Signals then never panic, whatever the borrows, and every operation but an unguarded
  \<^verbatim>\<open>move_\<close> keeps the invariant.
\<close>

section \<open>The invariant\<close>

named_theorems es_wf_defs "the parts of the routing invariant"

definition host_spaces :: "'w EventServer \<Rightarrow> nat set" where
  "host_spaces st = set (in_spaces (host st))"

definition realm_spaces :: "'w EventServer \<Rightarrow> nat \<Rightarrow> nat set" where
  "realm_spaces st rid = (case realms st rid of None \<Rightarrow> {} | Some c \<Rightarrow> set (in_spaces c))"

definition live :: "'w EventServer \<Rightarrow> nat \<Rightarrow> bool" where
  "live st s \<longleftrightarrow> s \<in> host_spaces st \<or> (\<exists>rid. s \<in> realm_spaces st rid)"

definition realm_input :: "'w EventServer \<Rightarrow> nat \<Rightarrow> nat \<Rightarrow> bool" where
  "realm_input st rid e \<longleftrightarrow> (\<exists>ir. inactive_realms st rid = Some ir \<and> Some e \<in> set (in_entries ir))"

definition target_of :: "'w EventServer \<Rightarrow> nat \<Rightarrow> (nat \<times> nat) option" where
  "target_of st e = (if e < length (st_events st)
     then map_option (\<lambda>t. (et_in_space t, et_index t)) (ev_target (st_events st ! e)) else None)"

definition entry_of :: "'w EventServer \<Rightarrow> nat \<times> nat \<Rightarrow> nat option" where
  "entry_of st p = (case get_entry (fst p) (snd p) st of Some (Some ent) \<Rightarrow> Some (ent_event ent) | _ \<Rightarrow> None)"

definition slot_of :: "'w EventServer \<Rightarrow> nat \<Rightarrow> Subscriber option" where
  "slot_of st s = st_slots st ! sp_slot (st_spaces st ! s)"

text \<open>Every input space has room for its notifications and a slot of its own.\<close>

definition wf_cells :: "'w EventServer \<Rightarrow> bool" where [es_wf_defs]:
  "wf_cells st \<longleftrightarrow> distinct (map sp_slot (st_spaces st)) \<and> (\<forall>s<length (st_spaces st). let sp = st_spaces st ! s in
     length (sp_entries sp) \<le> 64 * length (cn_nfn (sp_notification sp)) \<and> length (sp_entries sp) \<le> 2 ^ 32
     \<and> sp_slot sp < length (st_slots st))"

definition wf_routes :: "'w EventServer \<Rightarrow> bool" where [es_wf_defs]:
  "wf_routes st \<longleftrightarrow>
     (\<forall>e p. target_of st e = Some p \<longrightarrow> live st (fst p) \<and> entry_of st p = Some e)
   \<and> (\<forall>p e. live st (fst p) \<longrightarrow> entry_of st p = Some e \<longrightarrow> target_of st e = Some p)"

definition wf_clients :: "'w EventServer \<Rightarrow> bool" where [es_wf_defs]:
  "wf_clients st \<longleftrightarrow> (\<forall>s. live st s \<longrightarrow> s < length (st_spaces st))
   \<and> (\<forall>rid. host_spaces st \<inter> realm_spaces st rid = {})
   \<and> (\<forall>rid rid'. rid \<noteq> rid' \<longrightarrow> realm_spaces st rid \<inter> realm_spaces st rid' = {})
   \<and> distinct (in_spaces (host st)) \<and> in_spaces (resource_server st) = [] \<and> in_spaces (serial_server st) = []
   \<and> (\<forall>rid c. realms st rid = Some c \<longrightarrow> distinct (in_spaces c) \<and> inactive_realms st rid \<noteq> None)"

definition wf_outs :: "'w EventServer \<Rightarrow> bool" where [es_wf_defs]:
  "wf_outs st \<longleftrightarrow> (\<forall>c\<in>{resource_server st, serial_server st, host st} \<union> ran (realms st).
       \<forall>e\<in>set (out_space c). e < length (st_events st))
   \<and> (\<forall>ir\<in>ran (inactive_realms st). \<forall>e\<in>set (ir_out_space ir). e < length (st_events st))
   \<and> (\<forall>e\<in>ran (irq_events st). e < length (st_events st))"

text \<open>The input events of a realm lead to the realm's own spaces, all other events to the host's.\<close>

definition wf_owner :: "'w EventServer \<Rightarrow> bool" where [es_wf_defs]:
  "wf_owner st \<longleftrightarrow> (\<forall>e p. target_of st e = Some p \<longrightarrow>
     (\<forall>rid. realm_input st rid e \<longrightarrow> fst p \<in> realm_spaces st rid)
   \<and> ((\<forall>rid. \<not> realm_input st rid e) \<longrightarrow> fst p \<in> host_spaces st))"

definition wf_inputs :: "'w EventServer \<Rightarrow> bool" where [es_wf_defs]:
  "wf_inputs st \<longleftrightarrow> (\<forall>rid rid' e. realm_input st rid e \<longrightarrow> realm_input st rid' e \<longrightarrow> rid = rid')
   \<and> (\<forall>rid ir. inactive_realms st rid = Some ir \<longrightarrow> length (in_entries ir) = RealmIn_CARDINALITY
       \<and> distinct (filter (\<lambda>x. x \<noteq> None) (in_entries ir))
       \<and> (\<forall>e. Some e \<in> set (in_entries ir) \<longrightarrow> e < length (st_events st))
       \<and> (\<forall>node\<in>set (in_notifications ir). RealmIn_CARDINALITY \<le> 64 * length (cn_nfn node)))"

text \<open>No subscription of an input space of the host is an event, and no realm's event is subscribed.\<close>

definition wf_subs :: "'w EventServer \<Rightarrow> bool" where [es_wf_defs]:
  "wf_subs st \<longleftrightarrow> (\<forall>s e. s < length (st_spaces st) \<longrightarrow> slot_of st s = Some (Sub_Event e) \<longrightarrow>
       s \<notin> host_spaces st \<and> e < length (st_events st) \<and> (\<forall>rid. \<not> realm_input st rid e))
   \<and> (\<forall>x\<in>set (host_subscriptions st). \<exists>e<length (st_events st). sub_subscriber x = Sub_Event e \<and> (\<forall>rid. \<not> realm_input st rid e))
   \<and> (\<forall>x\<in>set (resource_server_subscriptions st). \<exists>n. sub_subscriber x = Sub_Notification n)"

definition es_wf :: "'w EventServer \<Rightarrow> bool" where
  "es_wf st \<longleftrightarrow> wf_cells st \<and> wf_routes st \<and> wf_clients st \<and> wf_outs st \<and> wf_owner st \<and> wf_inputs st \<and> wf_subs st"

lemmas es_wf_parts = es_wf_def es_wf_defs

section \<open>Signals\<close>

text \<open>What a signal may change: bitfields, the world, and subscriptions that are used up.\<close>

definition sig_rel :: "'w EventServer \<Rightarrow> 'w EventServer \<Rightarrow> bool" where
  "sig_rel st st' \<longleftrightarrow> st' = st\<lparr>st_bitfields := st_bitfields st', st_world := st_world st', st_slots := st_slots st'\<rparr>
     \<and> length (st_slots st') = length (st_slots st)
     \<and> (\<forall>i<length (st_slots st). st_slots st' ! i = None \<or> st_slots st' ! i = st_slots st ! i)"

lemma sig_rel_refl: "sig_rel st st"
  by (simp add: sig_rel_def)

lemma sig_rel_trans:
  assumes "sig_rel a b" "sig_rel b c"
  shows "sig_rel a c"
proof -
  obtain bf w sl where b: "b = a\<lparr>st_bitfields := bf, st_world := w, st_slots := sl\<rparr>" using assms(1) unfolding sig_rel_def by blast
  obtain bf' w' sl' where c: "c = b\<lparr>st_bitfields := bf', st_world := w', st_slots := sl'\<rparr>" using assms(2) unfolding sig_rel_def by blast
  have "\<forall>i<length (st_slots a). st_slots c ! i = None \<or> st_slots c ! i = st_slots a ! i"
    using assms unfolding sig_rel_def by metis
  then show ?thesis using assms b c unfolding sig_rel_def by simp
qed

lemma post_event_rel: "post_event K s i st = Some (b, st') \<Longrightarrow> sig_rel st st'"
  by (auto simp: post_event_def es_signal_def sig_rel_def Let_def split: Option.bind_splits prod.splits if_splits)

lemma take_subscriber_rel: "take_subscriber s st = Some (sub, st') \<Longrightarrow> sig_rel st st'"
  by (auto simp: take_subscriber_def set_slot_def sig_rel_def vec_get_Some nth_list_update split: Option.bind_splits)

lemma es_signal_rel: "sig_rel st (es_signal K n st)"
  by (auto simp: es_signal_def sig_rel_def)

lemma in_space_signal_rel: "in_space_signal K bs s i st = Some st' \<Longrightarrow> sig_rel st st'"
proof (induction K bs s i st arbitrary: st' rule: in_space_signal.induct)
  case (1 K bs s i st)
  from "1.prems" obtain b st1 where p: "s \<notin> set bs" "post_event K s i st = Some (b, st1)"
    by (subst (asm) in_space_signal.simps) (auto split: if_splits Option.bind_splits)
  note r1 = post_event_rel [OF p(2)]
  show ?case
  proof (cases b)
    case False
    then show ?thesis using "1.prems" p r1 by (subst (asm) in_space_signal.simps) simp
  next
    case True
    then obtain sub st2 where t: "take_subscriber s st1 = Some (sub, st2)"
      using "1.prems" p by (subst (asm) in_space_signal.simps) (auto split: Option.bind_splits)
    note r2 = sig_rel_trans [OF r1 take_subscriber_rel [OF t]]
    show ?thesis
    proof (cases sub)
      case None
      then show ?thesis using "1.prems" p t True r2 by (subst (asm) in_space_signal.simps) simp
    next
      case (Some x)
      show ?thesis
      proof (cases x)
        case (Sub_Notification n)
        then show ?thesis
          using "1.prems" p t True Some sig_rel_trans [OF r2 es_signal_rel] by (subst (asm) in_space_signal.simps) auto
      next
        case (Sub_Event e)
        then obtain ev where ev: "vec_get (st_events st2) e = Some ev"
          using "1.prems" p t True Some by (subst (asm) in_space_signal.simps) (auto split: Option.bind_splits)
        show ?thesis
        proof (cases "ev_target ev")
          case None
          then show ?thesis
            using "1.prems" p t True Some Sub_Event ev r2 by (subst (asm) in_space_signal.simps) simp
        next
          case (Some tg)
          then have "in_space_signal K (s # bs) (et_in_space tg) (et_index tg) st2 = Some st'"
            using "1.prems" p t True \<open>sub = Some x\<close> Sub_Event ev by (subst (asm) in_space_signal.simps) simp
          from "1.IH" [OF p(1,2) refl True t refl \<open>sub = Some x\<close> Sub_Event ev Some this] r2
          show ?thesis by (rule sig_rel_trans [rotated])
        qed
      qed
    qed
  qed
qed

lemma sig_rel_fields:
  assumes "sig_rel st st'"
  shows "st_events st' = st_events st" "st_spaces st' = st_spaces st" "host st' = host st" "realms st' = realms st"
    "inactive_realms st' = inactive_realms st" "resource_server st' = resource_server st" "serial_server st' = serial_server st"
    "host_subscriptions st' = host_subscriptions st" "resource_server_subscriptions st' = resource_server_subscriptions st"
    "irq_events st' = irq_events st"
proof -
  obtain bf w sl where "st' = st\<lparr>st_bitfields := bf, st_world := w, st_slots := sl\<rparr>"
    using assms unfolding sig_rel_def by blast
  then show "st_events st' = st_events st" "st_spaces st' = st_spaces st" "host st' = host st" "realms st' = realms st"
    "inactive_realms st' = inactive_realms st" "resource_server st' = resource_server st" "serial_server st' = serial_server st"
    "host_subscriptions st' = host_subscriptions st" "resource_server_subscriptions st' = resource_server_subscriptions st"
    "irq_events st' = irq_events st" by simp_all
qed

lemma sig_rel_views:
  assumes "sig_rel st st'"
  shows "host_spaces st' = host_spaces st" "realm_spaces st' = realm_spaces st" "live st' = live st"
    "realm_input st' = realm_input st" "target_of st' = target_of st" "entry_of st' = entry_of st"
  using sig_rel_fields [OF assms]
  by (simp_all add: fun_eq_iff host_spaces_def realm_spaces_def live_def realm_input_def target_of_def entry_of_def get_entry_def)

lemma sig_rel_slot:
  "sig_rel st st' \<Longrightarrow> wf_cells st \<Longrightarrow> s < length (st_spaces st) \<Longrightarrow> slot_of st' s = None \<or> slot_of st' s = slot_of st s"
  using sig_rel_fields [of st st'] by (auto simp: sig_rel_def slot_of_def wf_cells_def Let_def)

lemma sig_rel_wf:
  assumes r: "sig_rel st st'" and wf: "es_wf st"
  shows "es_wf st'"
proof -
  note f = sig_rel_fields [OF r] and v = sig_rel_views [OF r]
  have "wf_cells st'" using wf f r by (simp add: es_wf_def wf_cells_def sig_rel_def)
  moreover have "wf_routes st" "wf_clients st" "wf_outs st" "wf_owner st" "wf_inputs st"
    using wf by (simp_all add: es_wf_def)
  then have "wf_routes st'" "wf_clients st'" "wf_outs st'" "wf_owner st'" "wf_inputs st'"
    unfolding wf_routes_def wf_clients_def wf_outs_def wf_owner_def wf_inputs_def f v .
  moreover have "wf_subs st'"
    unfolding wf_subs_def f v
  proof (intro conjI allI impI)
    fix s e
    assume s: "s < length (st_spaces st)" "slot_of st' s = Some (Sub_Event e)"
    then have "slot_of st s = Some (Sub_Event e)" using sig_rel_slot [OF r _ s(1)] wf by (auto simp: es_wf_def)
    with s(1) wf show "s \<notin> host_spaces st" "e < length (st_events st)" "\<not> realm_input st rid e" for rid
      by (auto simp: es_wf_def wf_subs_def)
  qed (use wf in \<open>auto simp: es_wf_def wf_subs_def\<close>)
  ultimately show ?thesis by (simp add: es_wf_def)
qed

text \<open>The bit through which an input space tells its owner of an event.\<close>

definition event_bit :: "'w EventServer \<Rightarrow> nat \<Rightarrow> nat \<Rightarrow> bool" where
  "event_bit st s i \<longleftrightarrow> bit (st_bitfields st (cn_bitfield (sp_notification (st_spaces st ! s))) (i div 64)) (i mod 64)"

definition bits_grow :: "'w EventServer \<Rightarrow> 'w EventServer \<Rightarrow> bool" where
  "bits_grow st st' \<longleftrightarrow> (\<forall>a g k. bit (st_bitfields st a g) k \<longrightarrow> bit (st_bitfields st' a g) k)"

lemma bits_grow_trans: "bits_grow a b \<Longrightarrow> bits_grow b c \<Longrightarrow> bits_grow a c"
  by (simp add: bits_grow_def)

lemma bits_grow_bit: "bits_grow st st' \<Longrightarrow> st_spaces st' = st_spaces st \<Longrightarrow> event_bit st s i \<Longrightarrow> event_bit st' s i"
  by (simp add: bits_grow_def event_bit_def)

lemma bitfield_set_bit:
  "bitfield_set bf i = (\<not> bit (bf (i div 64)) (i mod 64), bf(i div 64 := bf (i div 64) OR shl 1 (i mod 64)))"
  by (simp add: bitfield_set_def GROUP_BITS_def Let_def and_shl_1_eq_0)

lemma entry_of_bound: "entry_of st (s, i) = Some e \<Longrightarrow>
    s < length (st_spaces st) \<and> i < length (sp_entries (st_spaces st ! s))
    \<and> (\<exists>ent. sp_entries (st_spaces st ! s) ! i = Some ent \<and> ent_event ent = e)"
  by (auto simp: entry_of_def get_entry_def vec_get_def split: option.splits Option.bind_splits if_splits)

lemma post_event_in:
  assumes wf: "wf_cells st" and e: "entry_of st (s, i) = Some e"
  obtains (old) "event_bit st s i" "post_event K s i st = Some (False, st)"
  | (fresh) st' where "\<not> event_bit st s i" "post_event K s i st = Some (True, st')" "event_bit st' s i" "bits_grow st st'"
      "st_slots st' = st_slots st"
      "st_world st' = k_signal K (st_world st) (cn_nfn (sp_notification (st_spaces st ! s)) ! (i div 64))"
proof -
  let ?sp = "st_spaces st ! s" and ?a = "cn_bitfield (sp_notification (st_spaces st ! s))"
  obtain ent where b: "s < length (st_spaces st)" "i < length (sp_entries ?sp)" "sp_entries ?sp ! i = Some ent"
    using entry_of_bound [OF e] by blast
  have c: "length (sp_entries ?sp) \<le> 64 * length (cn_nfn (sp_notification ?sp))" "length (sp_entries ?sp) \<le> 2 ^ 32"
    using wf b(1) by (auto simp: wf_cells_def Let_def)
  have i: "i mod 2 ^ 32 = i" "i div 64 < length (cn_nfn (sp_notification ?sp))" using b(2) c by auto
  have p: "post_event K s i st = (let (fr, bf) = bitfield_set (st_bitfields st ?a) i;
      st1 = st\<lparr>st_bitfields := (st_bitfields st)(?a := bf)\<rparr>
      in if fr then Some (True, es_signal K (cn_nfn (sp_notification ?sp) ! (i div 64)) st1) else Some (False, st1))"
    unfolding post_event_def using b i by (simp add: Let_def split: prod.split)
  show ?thesis
  proof (cases "event_bit st s i")
    case True
    have o: "st_bitfields st ?a (i div 64) OR shl 1 (i mod 64) = st_bitfields st ?a (i div 64)"
      using True by (intro or_shl_1_absorb) (simp_all add: event_bit_def)
    show ?thesis
      using True by (intro that(1)) (simp_all add: p bitfield_set_bit event_bit_def o)
  next
    case False
    let ?st' = "es_signal K (cn_nfn (sp_notification ?sp) ! (i div 64)) (st\<lparr>st_bitfields := (st_bitfields st)(?a :=
      (st_bitfields st ?a)(i div 64 := st_bitfields st ?a (i div 64) OR shl 1 (i mod 64)))\<rparr>)"
    show ?thesis
      by (rule that(2) [of ?st'])
        (use False in \<open>simp_all add: p bitfield_set_bit event_bit_def bits_grow_def es_signal_def bit_or_shl_1\<close>)
  qed
qed

text \<open>A signal to an entry that exists, not on the stack, without an event as its subscriber.\<close>

lemma in_space_signal_leaf:
  assumes wf: "wf_cells st" and e: "entry_of st (s, i) = Some e" and b: "s \<notin> set bs"
    and sl: "\<And>e'. slot_of st s \<noteq> Some (Sub_Event e')"
  shows "\<exists>st' ns. in_space_signal K bs s i st = Some st' \<and> event_bit st' s i \<and> bits_grow st st'
    \<and> (event_bit st s i \<longrightarrow> st' = st)
    \<and> (\<not> event_bit st s i \<longrightarrow> slot_of st' s = None \<and> st_world st' =
         foldl (k_signal K) (st_world st) (cn_nfn (sp_notification (st_spaces st ! s)) ! (i div 64) # ns))"
proof (rule post_event_in [OF wf e, of K])
  assume o: "event_bit st s i" "post_event K s i st = Some (False, st)"
  then have "in_space_signal K bs s i st = Some st" using b by (subst in_space_signal.simps) simp
  then show ?thesis using o by (auto simp: bits_grow_def)
next
  fix st1
  assume f: "\<not> event_bit st s i" "post_event K s i st = Some (True, st1)" "event_bit st1 s i" "bits_grow st st1"
    "st_slots st1 = st_slots st"
    "st_world st1 = k_signal K (st_world st) (cn_nfn (sp_notification (st_spaces st ! s)) ! (i div 64))"
  have sp: "st_spaces st1 = st_spaces st" "s < length (st_spaces st)" using post_event_spaces [OF f(2)] by auto
  have k: "sp_slot (st_spaces st ! s) < length (st_slots st)" using wf sp(2) by (auto simp: wf_cells_def Let_def)
  let ?st2 = "set_slot (sp_slot (st_spaces st ! s)) None st1"
  have t: "take_subscriber s st1 = Some (slot_of st s, ?st2)"
    using sp k f(5) by (simp add: take_subscriber_def slot_of_def)
  have r: "slot_of ?st2 s = None" "event_bit ?st2 s i" "bits_grow st ?st2" "st_world ?st2 = st_world st1"
    using k f sp by (simp_all add: slot_of_def set_slot_def event_bit_def bits_grow_def)
  show ?thesis
  proof (cases "slot_of st s")
    case None
    then have "in_space_signal K bs s i st = Some ?st2" using b f(2) t by (subst in_space_signal.simps) simp
    then show ?thesis using r f(1,6) by (intro exI [of _ ?st2] exI [of _ "[]"]) simp
  next
    case (Some x)
    then obtain n where x: "x = Sub_Notification n" using sl by (cases x) auto
    then have "in_space_signal K bs s i st = Some (es_signal K n ?st2)"
      using b f(2) t Some by (subst in_space_signal.simps) simp
    then show ?thesis
      using r f(1,6) by (intro exI [of _ "es_signal K n ?st2"] exI [of _ "[n]"])
        (simp add: es_signal_def slot_of_def event_bit_def bits_grow_def)
  qed
qed

lemma es_wf_target:
  "es_wf st \<Longrightarrow> target_of st e = Some p \<Longrightarrow> live st (fst p) \<and> entry_of st p = Some e \<and> fst p < length (st_spaces st)"
  unfolding es_wf_def wf_routes_def wf_clients_def by blast

lemma es_wf_entry: "es_wf st \<Longrightarrow> live st (fst p) \<Longrightarrow> entry_of st p = Some e \<Longrightarrow> target_of st e = Some p"
  unfolding es_wf_def wf_routes_def by blast

text \<open>The first level of a signal whose subscriber is an event: the slot is emptied, the event is next.\<close>

lemma in_space_signal_event:
  assumes wf: "es_wf st" and e: "entry_of st (s, i) = Some e" and e2: "slot_of st s = Some (Sub_Event e2)"
    and n: "\<not> event_bit st s i"
  obtains st2 where "sig_rel st st2" "slot_of st2 s = None" "event_bit st2 s i" "bits_grow st st2"
    "st_world st2 = k_signal K (st_world st) (cn_nfn (sp_notification (st_spaces st ! s)) ! (i div 64))"
    "in_space_signal K [] s i st = (case ev_target (st_events st ! e2) of None \<Rightarrow> Some st2
          | Some t \<Rightarrow> in_space_signal K [s] (et_in_space t) (et_index t) st2)"
proof -
  have c: "wf_cells st" using wf by (simp add: es_wf_def)
  have s: "s < length (st_spaces st)" using entry_of_bound [OF e] by simp
  have h: "e2 < length (st_events st)" using wf e2 s by (auto simp: es_wf_def wf_subs_def)
  show ?thesis
  proof (rule post_event_in [OF c e, of K])
    fix st1
    assume f: "post_event K s i st = Some (True, st1)" "event_bit st1 s i" "bits_grow st st1" "st_slots st1 = st_slots st"
      "st_world st1 = k_signal K (st_world st) (cn_nfn (sp_notification (st_spaces st ! s)) ! (i div 64))"
    have sp: "st_spaces st1 = st_spaces st" "st_events st1 = st_events st" using post_event_spaces [OF f(1)] by auto
    have k: "sp_slot (st_spaces st ! s) < length (st_slots st)" using c s by (auto simp: wf_cells_def Let_def)
    define st2 where "st2 = set_slot (sp_slot (st_spaces st ! s)) None st1"
    have t2: "take_subscriber s st1 = Some (Some (Sub_Event e2), st2)"
      using sp k f(4) e2 s by (simp add: take_subscriber_def slot_of_def st2_def)
    have "sig_rel st st2" by (rule sig_rel_trans [OF post_event_rel [OF f(1)] take_subscriber_rel [OF t2]])
    moreover have "slot_of st2 s = None" "event_bit st2 s i" "bits_grow st st2" "st_world st2 = st_world st1"
      "st_events st2 = st_events st"
      using k f sp by (simp_all add: st2_def slot_of_def set_slot_def event_bit_def bits_grow_def)
    moreover from this(5) have "in_space_signal K [] s i st = (case ev_target (st_events st ! e2) of None \<Rightarrow> Some st2
          | Some t \<Rightarrow> in_space_signal K [s] (et_in_space t) (et_index t) st2)"
      using f(1) t2 h by (subst in_space_signal.simps) simp
    ultimately show ?thesis using f(5) by (intro that [of st2]) simp_all
  qed (use n in simp)
qed

text \<open>The whole signal, on a well-formed server.\<close>

lemma event_signal_in:
  assumes wf: "es_wf st" and t: "target_of st e = Some (s, i)"
  shows "\<exists>st' ns. event_signal K e st = Some st' \<and> es_wf st' \<and> event_bit st' s i \<and> bits_grow st st'
    \<and> (event_bit st s i \<longrightarrow> st' = st)
    \<and> (\<not> event_bit st s i \<longrightarrow> slot_of st' s = None
        \<and> st_world st' = foldl (k_signal K) (st_world st) (cn_nfn (sp_notification (st_spaces st ! s)) ! (i div 64) # ns)
        \<and> (\<forall>e2 s2 i2. slot_of st s = Some (Sub_Event e2) \<longrightarrow> target_of st e2 = Some (s2, i2) \<longrightarrow> event_bit st' s2 i2))"
proof -
  have r: "live st s" "entry_of st (s, i) = Some e" "s < length (st_spaces st)" using es_wf_target [OF wf t] by auto
  have c: "wf_cells st" using wf by (simp add: es_wf_def)
  have sig: "event_signal K e st = in_space_signal K [] s i st"
    using t by (auto simp: event_signal_def target_of_def split: if_splits)
  have wf': "es_wf st'" if "in_space_signal K [] s i st = Some st'" for st'
    using sig_rel_wf [OF in_space_signal_rel [OF that] wf] .
  show ?thesis
  proof (cases "\<exists>e2. slot_of st s = Some (Sub_Event e2)")
    case False
    then show ?thesis
      using in_space_signal_leaf [OF c r(2), of "[]" K] sig wf' by auto
  next
    case True
    then obtain e2 where e2: "slot_of st s = Some (Sub_Event e2)" by blast
    have h: "s \<notin> host_spaces st" "e2 < length (st_events st)" "\<And>rid. \<not> realm_input st rid e2"
      using wf e2 r(3) by (auto simp: es_wf_def wf_subs_def)
    show ?thesis
    proof (cases "event_bit st s i")
      case True
      have "post_event K s i st = Some (False, st)" by (rule post_event_in [OF c r(2), of K]) (simp_all add: True)
      then have "in_space_signal K [] s i st = Some st" by (subst in_space_signal.simps) simp
      then show ?thesis using True sig wf by (auto simp: bits_grow_def)
    next
      case False
      then obtain st2 where q: "sig_rel st st2" "slot_of st2 s = None" "event_bit st2 s i" "bits_grow st st2"
        "st_world st2 = k_signal K (st_world st) (cn_nfn (sp_notification (st_spaces st ! s)) ! (i div 64))"
        and step: "in_space_signal K [] s i st = (case ev_target (st_events st ! e2) of None \<Rightarrow> Some st2
          | Some t \<Rightarrow> in_space_signal K [s] (et_in_space t) (et_index t) st2)"
        by (rule in_space_signal_event [OF wf r(2) e2, of K]) blast
      have c2: "wf_cells st2" "st_spaces st2 = st_spaces st"
        using sig_rel_wf [OF q(1) wf] sig_rel_fields(2) [OF q(1)] by (simp_all add: es_wf_def)
      show ?thesis
      proof (cases "target_of st e2")
        case None
        then have "in_space_signal K [] s i st = Some st2" using step h(2) by (simp add: target_of_def)
        then show ?thesis using sig wf' False q None e2 by (intro exI [of _ st2] exI [of _ "[]"]) simp
      next
        case (Some p)
        then obtain s2 i2 where p: "target_of st e2 = Some (s2, i2)" by (cases p) auto
        have s2: "s2 \<in> host_spaces st" "s2 \<noteq> s" using wf p h by (auto simp: es_wf_def wf_owner_def)
        have e2': "entry_of st2 (s2, i2) = Some e2" "s2 < length (st_spaces st)"
          using es_wf_target [OF wf p] sig_rel_views(6) [OF q(1)] by auto
        have "slot_of st2 s2 \<noteq> Some (Sub_Event e')" for e'
          using sig_rel_slot [OF q(1) c e2'(2)] s2(1) e2'(2) wf by (auto simp: es_wf_def wf_subs_def)
        then obtain st' ns where l: "in_space_signal K [s] s2 i2 st2 = Some st'" "event_bit st' s2 i2" "bits_grow st2 st'"
          "event_bit st2 s2 i2 \<longrightarrow> st' = st2"
          "\<not> event_bit st2 s2 i2 \<longrightarrow> st_world st' = foldl (k_signal K) (st_world st2) (cn_nfn (sp_notification (st_spaces st2 ! s2)) ! (i2 div 64) # ns)"
          using in_space_signal_leaf [of st2 s2 i2 e2 "[s]" K] c2(1) e2'(1) s2(2) by auto
        have run: "in_space_signal K [] s i st = Some st'"
          using step p l(1) h(2) by (auto simp: target_of_def split: option.splits)
        have rel': "sig_rel st2 st'" by (rule in_space_signal_rel [OF l(1)])
        have b: "event_bit st' s i" "bits_grow st st'" "slot_of st' s = None"
          using bits_grow_bit [OF l(3) _ q(3)] sig_rel_fields(2) [OF rel'] bits_grow_trans [OF q(4) l(3)] q(2)
            sig_rel_slot [OF rel' c2(1), of s] r(3) c2(2) by auto
        obtain ms where "st_world st' = foldl (k_signal K) (st_world st2) ms" using l(4,5) by (metis foldl_Nil)
        then show ?thesis
          using sig wf' [OF run] run False q(5) b l(2) p e2 by (intro exI [of _ st'] exI [of _ ms]) simp
      qed
    qed
  qed
qed

text \<open>
  C4. Signalling an event of the event server delivers it and never panics: on a well-formed server the
  bit of the event's target is set afterwards and no bit of any bitfield is lost. If the bit was set
  already nothing else happens. Otherwise the notification of the bit's group is signalled first and the
  space's subscription, if any, is used up; a subscription that is an event is delivered in turn.
\<close>

theorem event_signal_delivers:
  assumes wf: "es_wf st" and t: "target_of st e = Some (s, i)"
  shows "\<exists>st' ns. event_signal K e st = Some st' \<and> es_wf st' \<and> event_bit st' s i \<and> bits_grow st st'
    \<and> (event_bit st s i \<longrightarrow> st' = st)
    \<and> (\<not> event_bit st s i \<longrightarrow> slot_of st' s = None
        \<and> st_world st' = foldl (k_signal K) (st_world st) (cn_nfn (sp_notification (st_spaces st ! s)) ! (i div 64) # ns)
        \<and> (\<forall>e2 s2 i2. slot_of st s = Some (Sub_Event e2) \<longrightarrow> target_of st e2 = Some (s2, i2) \<longrightarrow> event_bit st' s2 i2))"
  using assms by (rule event_signal_in)

section \<open>Changes of routes\<close>

text \<open>
  What connecting, disconnecting, moving and configuring leave alone: everything but the targets of
  events, the entries of input spaces and the world.
\<close>

definition same_shape :: "InSpace \<Rightarrow> InSpace \<Rightarrow> bool" where
  "same_shape a b \<longleftrightarrow> length (sp_entries b) = length (sp_entries a) \<and> sp_notification b = sp_notification a \<and> sp_slot b = sp_slot a"

definition frame_rel :: "'w EventServer \<Rightarrow> 'w EventServer \<Rightarrow> bool" where
  "frame_rel st st' \<longleftrightarrow>
     st' = st\<lparr>st_events := st_events st', st_spaces := st_spaces st', st_world := st_world st'\<rparr>
   \<and> length (st_events st') = length (st_events st)
   \<and> list_all2 same_shape (st_spaces st) (st_spaces st')"

lemma same_shape_refl [simp]: "same_shape a a"
  by (simp add: same_shape_def)

lemma frame_rel_refl: "frame_rel st st"
  by (simp add: frame_rel_def list_all2_refl)

lemma frame_rel_trans:
  assumes "frame_rel a b" "frame_rel b c"
  shows "frame_rel a c"
proof -
  obtain ev sp w where b: "b = a\<lparr>st_events := ev, st_spaces := sp, st_world := w\<rparr>" using assms(1) unfolding frame_rel_def by blast
  obtain ev' sp' w' where c: "c = b\<lparr>st_events := ev', st_spaces := sp', st_world := w'\<rparr>" using assms(2) unfolding frame_rel_def by blast
  have "list_all2 same_shape (st_spaces a) (st_spaces c)"
    using list_all2_trans [of same_shape same_shape same_shape] assms unfolding frame_rel_def same_shape_def by fastforce
  then show ?thesis using assms b c unfolding frame_rel_def by simp
qed

lemma frame_rel_fields:
  assumes "frame_rel st st'"
  shows "st_slots st' = st_slots st" "st_bitfields st' = st_bitfields st" "host st' = host st" "realms st' = realms st"
    "inactive_realms st' = inactive_realms st" "resource_server st' = resource_server st" "serial_server st' = serial_server st"
    "host_subscriptions st' = host_subscriptions st" "resource_server_subscriptions st' = resource_server_subscriptions st"
    "irq_events st' = irq_events st" "length (st_events st') = length (st_events st)" "length (st_spaces st') = length (st_spaces st)"
proof -
  obtain ev sp w where "st' = st\<lparr>st_events := ev, st_spaces := sp, st_world := w\<rparr>"
    using assms unfolding frame_rel_def by blast
  then show "st_slots st' = st_slots st" "st_bitfields st' = st_bitfields st" "host st' = host st" "realms st' = realms st"
    "inactive_realms st' = inactive_realms st" "resource_server st' = resource_server st" "serial_server st' = serial_server st"
    "host_subscriptions st' = host_subscriptions st" "resource_server_subscriptions st' = resource_server_subscriptions st"
    "irq_events st' = irq_events st" by simp_all
  show "length (st_events st') = length (st_events st)" "length (st_spaces st') = length (st_spaces st)"
    using assms by (auto simp: frame_rel_def list_all2_conv_all_nth)
qed

lemma frame_rel_space:
  "frame_rel st st' \<Longrightarrow> s < length (st_spaces st) \<Longrightarrow> same_shape (st_spaces st ! s) (st_spaces st' ! s)"
  by (simp add: frame_rel_def list_all2_conv_all_nth)

lemma frame_rel_views:
  assumes "frame_rel st st'"
  shows "host_spaces st' = host_spaces st" "realm_spaces st' = realm_spaces st" "live st' = live st"
    "realm_input st' = realm_input st"
  using frame_rel_fields [OF assms]
  by (simp_all add: fun_eq_iff host_spaces_def realm_spaces_def live_def realm_input_def)

lemma frame_rel_slot: "frame_rel st st' \<Longrightarrow> s < length (st_spaces st) \<Longrightarrow> slot_of st' s = slot_of st s"
  using frame_rel_space [of st st' s] frame_rel_fields(1) [of st st'] by (simp add: slot_of_def same_shape_def)

lemma frame_rel_cells:
  assumes r: "frame_rel st st'" and c: "wf_cells st"
  shows "wf_cells st'"
proof -
  have "map sp_slot (st_spaces st') = map sp_slot (st_spaces st)"
    using frame_rel_space [OF r] frame_rel_fields(12) [OF r] by (intro nth_equalityI) (auto simp: same_shape_def)
  then show ?thesis
    using c frame_rel_space [OF r] frame_rel_fields(1,12) [OF r] by (simp add: wf_cells_def Let_def same_shape_def)
qed

text \<open>The invariant after such a change: the new routes have to be consistent.\<close>

lemma frame_rel_wf:
  assumes r: "frame_rel st st'" and wf: "es_wf st" and n: "wf_routes st'" "wf_owner st'"
  shows "es_wf st'"
proof -
  note f = frame_rel_fields [OF r] and v = frame_rel_views [OF r]
  have "wf_clients st" "wf_outs st" "wf_inputs st" using wf by (simp_all add: es_wf_def)
  then have "wf_clients st'" "wf_outs st'" "wf_inputs st'"
    unfolding wf_clients_def wf_outs_def wf_inputs_def f v .
  moreover have "wf_subs st'"
    unfolding wf_subs_def f v
  proof (intro conjI allI impI)
    fix s e
    assume s: "s < length (st_spaces st)" "slot_of st' s = Some (Sub_Event e)"
    then have "slot_of st s = Some (Sub_Event e)" using frame_rel_slot [OF r s(1)] by simp
    with s(1) wf show "s \<notin> host_spaces st" "e < length (st_events st)" "\<not> realm_input st rid e" for rid
      by (auto simp: es_wf_def wf_subs_def)
  qed (use wf in \<open>auto simp: es_wf_def wf_subs_def\<close>)
  moreover have "wf_cells st'" using frame_rel_cells [OF r] wf by (simp add: es_wf_def)
  ultimately show ?thesis using n by (simp add: es_wf_def)
qed

lemma set_entry_views:
  assumes "set_entry s i ent st = Some st'"
  shows "frame_rel st st'" "target_of st' = target_of st" "st_events st' = st_events st"
    "entry_of st' = (entry_of st)((s, i) := map_option ent_event ent)"
    "get_entry s i st' = Some ent" "\<And>p. p \<noteq> (s, i) \<Longrightarrow> get_entry (fst p) (snd p) st' = get_entry (fst p) (snd p) st"
proof -
  obtain sp where s: "s < length (st_spaces st)" "sp = st_spaces st ! s" "i < length (sp_entries sp)"
    and st': "st' = st\<lparr>st_spaces := (st_spaces st)[s := sp\<lparr>sp_entries := (sp_entries sp)[i := ent]\<rparr>]\<rparr>"
    using assms by (auto simp: set_entry_def vec_get_Some vec_set_Some split: Option.bind_splits)
  show "frame_rel st st'"
    unfolding st' frame_rel_def using s by (auto simp: list_all2_conv_all_nth nth_list_update same_shape_def)
  show "target_of st' = target_of st" "st_events st' = st_events st" by (auto simp: st' target_of_def fun_eq_iff)
  show g: "get_entry s i st' = Some ent" using s by (simp add: get_entry_def st')
  show h: "get_entry (fst p) (snd p) st' = get_entry (fst p) (snd p) st" if "p \<noteq> (s, i)" for p
    using s that by (cases p) (auto simp: get_entry_def st' vec_get_def nth_list_update)
  show "entry_of st' = (entry_of st)((s, i) := map_option ent_event ent)"
  proof
    fix p
    show "entry_of st' p = ((entry_of st)((s, i) := map_option ent_event ent)) p"
      using g h [of p] by (cases "p = (s, i)") (auto simp: entry_of_def split: option.splits)
  qed
qed

lemma set_entry_total: "get_entry s i st = Some x \<Longrightarrow> \<exists>st'. set_entry s i ent st = Some st'"
  by (auto simp: set_entry_def get_entry_def vec_get_def vec_set_def split: Option.bind_splits if_splits)

lemma set_event_views:
  assumes "e < length (st_events st)"
  shows "frame_rel st (set_event e ev st)"
    "target_of (set_event e ev st) = (target_of st)(e := map_option (\<lambda>t. (et_in_space t, et_index t)) (ev_target ev))"
    "entry_of (set_event e ev st) = entry_of st" "get_entry s i (set_event e ev st) = get_entry s i st"
  using assms by (auto simp: frame_rel_def set_event_def list_all2_refl target_of_def entry_of_def get_entry_def fun_eq_iff nth_list_update)

lemma connect_views:
  assumes "e < length (st_events st)" "target_of st e = None" "get_entry s i st = Some None"
  obtains st' where "connect e s i st = Some st'" "frame_rel st st'" "target_of st' = (target_of st)(e := Some (s, i))"
    "entry_of st' = (entry_of st)((s, i) := Some e)" "\<And>p. p \<noteq> (s, i) \<Longrightarrow> get_entry (fst p) (snd p) st' = get_entry (fst p) (snd p) st"
proof -
  let ?ent = "Some \<lparr>ent_event = e, ent_enabled = True\<rparr>"
  let ?ev = "(st_events st ! e)\<lparr>ev_target := Some \<lparr>et_in_space = s, et_index = i\<rparr>\<rparr>"
  obtain st1 where s1: "set_entry s i ?ent st = Some st1" using set_entry_total [OF assms(3)] by blast
  note v = set_entry_views [OF s1]
  have e1: "e < length (st_events st1)" using v(3) assms(1) by simp
  note w = set_event_views [OF e1, where ev = ?ev]
  have "ev_target (st_events st ! e) = None" using assms(1,2) by (simp add: target_of_def)
  then have c: "connect e s i st = Some (set_event e ?ev st1)"
    using assms s1 by (simp add: connect_def rust_assert_def)
  show ?thesis
    by (rule that [OF c]) (use frame_rel_trans [OF v(1) w(1)] v w in \<open>simp_all add: fun_eq_iff\<close>)
qed

lemma connect_wf:
  assumes wf: "es_wf st" and c: "frame_rel st st'" "target_of st' = (target_of st)(e := Some (s, i))"
    "entry_of st' = (entry_of st)((s, i) := Some e)"
    and t: "target_of st e = None" "entry_of st (s, i) = None"
    and o: "live st s" "\<And>rid. realm_input st rid e \<Longrightarrow> s \<in> realm_spaces st rid"
      "(\<And>rid. \<not> realm_input st rid e) \<Longrightarrow> s \<in> host_spaces st"
  shows "es_wf st'"
proof (rule frame_rel_wf [OF c(1) wf])
  note v = frame_rel_views [OF c(1)]
  show "wf_routes st'"
    unfolding wf_routes_def v c(2,3)
  proof (intro conjI allI impI)
    fix e' p
    assume a: "((target_of st)(e := Some (s, i))) e' = Some p"
    then show "live st (fst p)" using o(1) es_wf_target [OF wf, of e' p] by (auto split: if_splits)
    show "((entry_of st)((s, i) := Some e)) p = Some e'"
      using a t es_wf_target [OF wf, of e' p] by (auto split: if_splits)
  next
    fix p e'
    assume l: "live st (fst p)" and a: "((entry_of st)((s, i) := Some e)) p = Some e'"
    then show "((target_of st)(e := Some (s, i))) e' = Some p"
      using t es_wf_entry [OF wf l, of e'] by (auto split: if_splits)
  qed
  show "wf_owner st'"
    using wf o unfolding es_wf_def wf_owner_def v c(2) by (auto split: if_splits)
qed

end
