(* ===== verification/EventServerOps.thy ===== *)
theory EventServerOps
  imports EventServerProps
begin

text \<open>
  The operations of the event server keep the routing invariant: configuration, subscriptions, moves
  to an empty entry, and the creation and destruction of realms. A move onto an entry in use does not,
  and the next signal panics.
\<close>

section \<open>Configuration and ends\<close>

lemma same_routes_wf:
  assumes wf: "es_wf st" and r: "frame_rel st st'" "target_of st' = target_of st" "entry_of st' = entry_of st"
  shows "es_wf st'"
proof (rule frame_rel_wf [OF r(1) wf])
  have "wf_routes st" "wf_owner st" using wf by (simp_all add: es_wf_def)
  then show "wf_routes st'" "wf_owner st'" unfolding wf_routes_def wf_owner_def frame_rel_views [OF r(1)] r(2,3) .
qed

lemma configure_wf:
  assumes "in_space_configure s i action st = Some st'" "es_wf st"
  shows "es_wf st'"
proof (cases action)
  case (SetEnabled b)
  then obtain ent where g: "get_entry s i st = Some (Some ent)"
    and s': "set_entry s i (Some (ent\<lparr>ent_enabled := b\<rparr>)) st = Some st'"
    using assms(1) by (auto split: Option.bind_splits)
  note v = set_entry_views [OF s']
  have "entry_of st' = entry_of st" using v(4) g by (auto simp: fun_eq_iff entry_of_def)
  then show ?thesis by (rule same_routes_wf [OF assms(2) v(1,2)])
qed (use assms in simp)

lemma in_space_end_rel: "in_space_end K s i st = Some (r, st') \<Longrightarrow> sig_rel st st'"
  by (auto simp: in_space_end_def sig_rel_def Let_def split: Option.bind_splits prod.splits)

section \<open>Moves\<close>

definition is_client :: "'w EventServer \<Rightarrow> Client \<Rightarrow> bool" where
  "is_client st c \<longleftrightarrow> c = host st \<or> (\<exists>rid. realms st rid = Some c)"

lemma is_client_spaces:
  assumes wf: "es_wf st" and c: "is_client st c" and s: "s \<in> set (in_spaces c)" "s' \<in> set (in_spaces c)"
  shows "live st s" "s \<in> host_spaces st \<Longrightarrow> s' \<in> host_spaces st" "s \<in> realm_spaces st rid \<Longrightarrow> s' \<in> realm_spaces st rid"
    "distinct (in_spaces c)"
proof -
  have d: "\<And>rid. host_spaces st \<inter> realm_spaces st rid = {}"
    "\<And>rid rid'. rid \<noteq> rid' \<Longrightarrow> realm_spaces st rid \<inter> realm_spaces st rid' = {}" "distinct (in_spaces (host st))"
    "\<And>rid c. realms st rid = Some c \<Longrightarrow> distinct (in_spaces c)"
    using wf unfolding es_wf_def wf_clients_def by blast+
  show "distinct (in_spaces c)" using c d(3,4) by (auto simp: is_client_def)
  have o: "set (in_spaces c) = host_spaces st \<or> (\<exists>r. set (in_spaces c) = realm_spaces st r)"
    using c unfolding is_client_def host_spaces_def realm_spaces_def by (metis option.simps(5))
  then show "live st s" using s(1) by (auto simp: live_def)
  show "s' \<in> host_spaces st" if "s \<in> host_spaces st" using o that s d(1) by blast
  show "s' \<in> realm_spaces st rid" if r: "s \<in> realm_spaces st rid"
    using o
  proof (elim disjE exE)
    assume "set (in_spaces c) = host_spaces st"
    then show ?thesis using s(1) r d(1) [of rid] by blast
  next
    fix r'
    assume a: "set (in_spaces c) = realm_spaces st r'"
    then have "r' = rid" using s(1) r d(2) [of r' rid] by blast
    then show ?thesis using a s(2) by simp
  qed
qed

lemma client_move_empty:
  assumes wf: "es_wf st" and c: "is_client st c" and d: "vec_get (in_spaces c) dst_nid = Some dst" "get_entry dst dst_index st = Some None"
    and ne: "(src_nid, src_index) \<noteq> (dst_nid, dst_index)"
    and m: "client_move K c src_nid src_index dst_nid dst_index st = Some (r, st')"
  shows "es_wf st'"
proof -
  obtain src a st1 b st2 st3 where s: "vec_get (in_spaces c) src_nid = Some src" "get_entry src src_index st = Some a"
    and s1: "set_entry src src_index None st = Some st1" and b: "get_entry dst dst_index st1 = Some b"
    and s2: "set_entry dst dst_index a st1 = Some st2" and s3: "set_entry src src_index b st2 = Some st3"
    using m d(1) ne unfolding client_move_def by (auto split: Option.bind_splits)
  have S: "src \<in> set (in_spaces c)" "dst \<in> set (in_spaces c)" using s(1) d(1) by (auto simp: vec_get_Some)
  note o = is_client_spaces [OF wf c]
  have np: "(src, src_index) \<noteq> (dst, dst_index)"
    using ne s(1) d(1) o(4) [OF S] by (auto simp: vec_get_Some nth_eq_iff_index_eq)
  note v1 = set_entry_views [OF s1] and v2 = set_entry_views [OF s2] and v3 = set_entry_views [OF s3]
  have bn: "b = None" using v1(6) [of "(dst, dst_index)"] np b d(2) by auto
  have rel: "frame_rel st st3" using frame_rel_trans [OF frame_rel_trans [OF v1(1) v2(1)] v3(1)] .
  have tg: "target_of st3 = target_of st" "st_events st3 = st_events st" using v1 v2 v3 by simp_all
  have en: "entry_of st3 = (entry_of st)((dst, dst_index) := map_option ent_event a, (src, src_index) := None)"
    using v1(4) v2(4) v3(4) bn by auto
  have g: "get_entry dst dst_index st3 = Some a" using v3(6) [of "(dst, dst_index)"] np v2(5) by auto
  show ?thesis
  proof (cases a)
    case None
    then have "entry_of st3 = entry_of st" using en s(2) d(2) by (auto simp: fun_eq_iff entry_of_def)
    moreover have "st' = st3" using m s s1 s2 s3 b d(1) ne g None unfolding client_move_def by simp
    ultimately show ?thesis using same_routes_wf [OF wf rel tg(1)] by simp
  next
    case (Some ent)
    let ?e = "ent_event ent"
    have es: "entry_of st (src, src_index) = Some ?e" using s(2) Some by (simp add: entry_of_def)
    have te: "target_of st ?e = Some (src, src_index)" using es_wf_entry [OF wf _ es] o(1) [OF S] by simp
    then have ev: "?e < length (st_events st)" by (auto simp: target_of_def split: if_splits)
    define st4 where "st4 = set_event ?e ((st_events st ! ?e)\<lparr>ev_target := Some \<lparr>et_in_space = dst, et_index = dst_index\<rparr>\<rparr>) st3"
    have e3: "?e < length (st_events st3)" using ev tg(2) by simp
    note w = set_event_views [OF e3, where ev = "(st_events st ! ?e)\<lparr>ev_target := Some \<lparr>et_in_space = dst, et_index = dst_index\<rparr>\<rparr>"]
    have r4: "frame_rel st st4" "target_of st4 = (target_of st)(?e := Some (dst, dst_index))"
      "entry_of st4 = (entry_of st)((dst, dst_index) := Some ?e, (src, src_index) := None)"
      using frame_rel_trans [OF rel w(1)] w(2,3) tg en Some by (simp_all add: st4_def)
    have "es_wf st4"
    proof (rule frame_rel_wf [OF r4(1) wf])
      note v = frame_rel_views [OF r4(1)]
      show "wf_owner st4"
        using wf te o(2,3) [OF S] unfolding es_wf_def wf_owner_def v r4(2) by (auto split: if_splits)
      show "wf_routes st4"
        unfolding wf_routes_def v r4(2,3)
      proof (intro conjI allI impI)
        fix e' p
        assume t: "((target_of st)(?e := Some (dst, dst_index))) e' = Some p"
        then show "live st (fst p)" using o(1) [OF S(2,1)] es_wf_target [OF wf, of e' p] by (auto split: if_splits)
        show "((entry_of st)((dst, dst_index) := Some ?e, (src, src_index) := None)) p = Some e'"
          using t np es es_wf_target [OF wf, of e' p] d(2) by (auto simp: entry_of_def split: if_splits)
      next
        fix p e'
        assume l: "live st (fst p)" and n: "((entry_of st)((dst, dst_index) := Some ?e, (src, src_index) := None)) p = Some e'"
        then show "((target_of st)(?e := Some (dst, dst_index))) e' = Some p"
          using te es_wf_entry [OF wf l, of e'] by (auto split: if_splits)
      qed
    qed
    moreover have "sig_rel st4 st'"
      using m s s1 s2 s3 b d(1) ne g Some ev tg(2) unfolding client_move_def st4_def
      by (auto simp: sig_rel_def Let_def split: option.splits Option.bind_splits prod.splits)
    ultimately show ?thesis by (rule sig_rel_wf [rotated])
  qed
qed

text \<open>
  C40. Moving an empty entry onto an entry in use breaks the event server: the move succeeds, the event of
  the destination keeps its target although the entry is now empty, and the next signal of that event
  panics. A realm can do this with the events other components send it.
\<close>

theorem move_empty_then_signal_panics:
  assumes c: "vec_get (in_spaces c) src_nid = Some src" "vec_get (in_spaces c) dst_nid = Some dst" "is_client st c" "es_wf st"
    and n: "(src_nid, src_index) \<noteq> (dst_nid, dst_index)"
    and e: "get_entry src src_index st = Some None" "entry_of st (dst, dst_index) = Some e"
  shows "\<exists>st'. client_move K c src_nid src_index dst_nid dst_index st = Some (Inr (), st') \<and> event_signal K e st' = None"
proof -
  have S: "src \<in> set (in_spaces c)" "dst \<in> set (in_spaces c)" using c by (auto simp: vec_get_Some)
  note o = is_client_spaces [OF c(4,3)]
  have np: "(src, src_index) \<noteq> (dst, dst_index)"
    using n c(1,2) o(4) [OF S] by (auto simp: vec_get_Some nth_eq_iff_index_eq)
  obtain ent where g: "get_entry dst dst_index st = Some (Some ent)"
    using e(2) by (auto simp: entry_of_def split: option.splits)
  obtain st1 where s1: "set_entry src src_index None st = Some st1" using set_entry_total [OF e(1)] by blast
  note v1 = set_entry_views [OF s1]
  have g1: "get_entry dst dst_index st1 = Some (Some ent)" using v1(6) [of "(dst, dst_index)"] np g by auto
  obtain st2 where s2: "set_entry dst dst_index None st1 = Some st2" using set_entry_total [OF g1] by blast
  note v2 = set_entry_views [OF s2]
  have g2: "get_entry src src_index st2 = Some None" using v2(6) [of "(src, src_index)"] np v1(5) by auto
  obtain st3 where s3: "set_entry src src_index (Some ent) st2 = Some st3" using set_entry_total [OF g2] by blast
  note v3 = set_entry_views [OF s3]
  have g3: "get_entry dst dst_index st3 = Some None" using v3(6) [of "(dst, dst_index)"] np v2(5) by auto
  have m: "client_move K c src_nid src_index dst_nid dst_index st = Some (Inr (), st3)"
    using n c(1,2) e(1) s1 g1 s2 s3 g3 by (simp add: client_move_def)
  have "target_of st e = Some (dst, dst_index)" using es_wf_entry [OF c(4) _ e(2)] o(1) [OF S(2,1)] by simp
  then have "target_of st3 e = Some (dst, dst_index)" using v1(2) v2(2) v3(2) by simp
  moreover have "post_event K dst dst_index st3 = None"
    using g3 by (auto simp: post_event_def get_entry_def split: Option.bind_splits)
  then have "in_space_signal K [] dst dst_index st3 = None" by (subst in_space_signal.simps) simp
  ultimately have "event_signal K e st3 = None"
    by (auto simp: event_signal_def target_of_def split: if_splits)
  with m show ?thesis by blast
qed

section \<open>Subscriptions\<close>

lemma slot_of_set_slot:
  assumes "wf_cells st" "s < length (st_spaces st)" "s' < length (st_spaces st)"
  shows "slot_of (set_slot (sp_slot (st_spaces st ! s)) x st) s' = (if s' = s then x else slot_of st s')"
proof -
  have "sp_slot (st_spaces st ! s) = sp_slot (st_spaces st ! s') \<longleftrightarrow> s = s'"
    using assms nth_eq_iff_index_eq [of "map sp_slot (st_spaces st)" s s'] by (simp add: wf_cells_def)
  moreover have "sp_slot (st_spaces st ! s) < length (st_slots st)" using assms by (auto simp: wf_cells_def Let_def)
  ultimately show ?thesis by (auto simp: slot_of_def set_slot_def)
qed

lemma subscription_wf:
  assumes wf: "es_wf st" and s: "s < length (st_spaces st)"
    and st': "st' = (set_slot (sp_slot (st_spaces st ! s)) x st)\<lparr>host_subscriptions := hs, resource_server_subscriptions := rs\<rparr>"
    and subs: "sub_subscriber ` set hs \<subseteq> sub_subscriber ` set (host_subscriptions st)"
      "sub_subscriber ` set rs \<subseteq> sub_subscriber ` set (resource_server_subscriptions st)"
    and x: "\<And>e. x = Some (Sub_Event e) \<Longrightarrow> s \<notin> host_spaces st \<and> x \<in> Some ` sub_subscriber ` set (host_subscriptions st)"
  shows "es_wf st'"
proof -
  have c: "wf_cells st" using wf by (simp add: es_wf_def)
  have f: "st_events st' = st_events st" "st_spaces st' = st_spaces st" "host st' = host st" "realms st' = realms st"
    "inactive_realms st' = inactive_realms st" "resource_server st' = resource_server st" "serial_server st' = serial_server st"
    "irq_events st' = irq_events st" "length (st_slots st') = length (st_slots st)"
    "host_subscriptions st' = hs" "resource_server_subscriptions st' = rs"
    by (simp_all add: st' set_slot_def)
  have v: "host_spaces st' = host_spaces st" "realm_spaces st' = realm_spaces st" "live st' = live st"
    "realm_input st' = realm_input st" "target_of st' = target_of st" "entry_of st' = entry_of st"
    by (simp_all add: fun_eq_iff f host_spaces_def realm_spaces_def live_def realm_input_def target_of_def entry_of_def get_entry_def)
  have h: "e < length (st_events st) \<and> (\<forall>rid. \<not> realm_input st rid e)"
    if "Sub_Event e \<in> sub_subscriber ` set (host_subscriptions st)" for e
    using wf that by (auto simp: es_wf_def wf_subs_def)
  have sl: "slot_of st' s' = (if s' = s then x else slot_of st s')" if "s' < length (st_spaces st)" for s'
    using slot_of_set_slot [OF c s that, of x] by (simp add: st' slot_of_def set_slot_def)
  have "wf_cells st'" using c f(2,9) by (simp add: wf_cells_def)
  moreover have "wf_routes st" "wf_clients st" "wf_outs st" "wf_owner st" "wf_inputs st" using wf by (simp_all add: es_wf_def)
  then have "wf_routes st'" "wf_clients st'" "wf_outs st'" "wf_owner st'" "wf_inputs st'"
    unfolding wf_routes_def wf_clients_def wf_outs_def wf_owner_def wf_inputs_def f v .
  moreover have "wf_subs st'"
    unfolding wf_subs_def f v
  proof (intro conjI allI impI)
    fix s' e
    assume a: "s' < length (st_spaces st)" "slot_of st' s' = Some (Sub_Event e)"
    consider "s' = s" "x = Some (Sub_Event e)" | "slot_of st s' = Some (Sub_Event e)"
      using a(2) sl [OF a(1)] by (auto split: if_splits)
    then have "s' \<notin> host_spaces st \<and> e < length (st_events st) \<and> (\<forall>rid. \<not> realm_input st rid e)"
    proof cases
      case 1
      then have "Sub_Event e \<in> sub_subscriber ` set (host_subscriptions st)" "s \<notin> host_spaces st" using x [of e] by auto
      then show ?thesis using h 1 by blast
    next
      case 2
      then show ?thesis using wf a(1) by (simp add: es_wf_def wf_subs_def)
    qed
    then show "s' \<notin> host_spaces st" "e < length (st_events st)" "\<not> realm_input st rid e" for rid by auto
  next
    show "\<forall>x\<in>set hs. \<exists>e<length (st_events st). sub_subscriber x = Sub_Event e \<and> (\<forall>rid. \<not> realm_input st rid e)"
      using wf subs(1) unfolding es_wf_def wf_subs_def by (metis (no_types, lifting) image_subset_iff imageE)
    show "\<forall>x\<in>set rs. \<exists>n. sub_subscriber x = Sub_Notification n"
      using wf subs(2) unfolding es_wf_def wf_subs_def by (metis (no_types, lifting) image_subset_iff imageE)
  qed
  ultimately show ?thesis by (simp add: es_wf_def)
qed

lemma update_subscribers: "i < length xs \<Longrightarrow> sub_subscriber ` set (xs[i := (xs ! i)\<lparr>sub_slot := y\<rparr>]) \<subseteq> sub_subscriber ` set xs"
  by (auto simp: in_set_conv_nth nth_list_update image_iff split: if_splits) force+

lemma live_bound: "es_wf st \<Longrightarrow> live st s \<Longrightarrow> s < length (st_spaces st)"
  unfolding es_wf_def wf_clients_def by blast

lemma host_not_realm: "es_wf st \<Longrightarrow> s \<in> realm_spaces st rid \<Longrightarrow> s \<notin> host_spaces st"
  unfolding es_wf_def wf_clients_def by blast

lemma host_subscribe_wf:
  assumes h: "host_subscribe nid rid realm_nid st = Some st'" and wf: "es_wf st"
  shows "es_wf st'"
proof -
  obtain c s where c: "realms st rid = Some c" "vec_get (in_spaces c) realm_nid = Some s" and s: "s < length (st_spaces st)"
    and n: "nid < length (host_subscriptions st)"
    and st': "st' = (set_slot (sp_slot (st_spaces st ! s)) (Some (sub_subscriber (host_subscriptions st ! nid))) st)
      \<lparr>host_subscriptions := (host_subscriptions st)[nid := (host_subscriptions st ! nid)\<lparr>sub_slot := Some (sp_slot (st_spaces st ! s))\<rparr>],
       resource_server_subscriptions := resource_server_subscriptions st\<rparr>"
    using h by (auto simp: host_subscribe_def Let_def vec_get_Some set_slot_def split: Option.bind_splits)
  have "s \<in> realm_spaces st rid" using c by (auto simp: realm_spaces_def vec_get_Some)
  then have "s \<notin> host_spaces st" by (rule host_not_realm [OF wf])
  then show ?thesis
    by (intro subscription_wf [OF wf s st' update_subscribers [OF n] subset_refl]) (use nth_mem [OF n] in \<open>auto intro!: image_eqI\<close>)
qed

lemma resource_server_subscribe_wf:
  assumes h: "resource_server_subscribe nid host_nid st = Some st'" and wf: "es_wf st"
  shows "es_wf st'"
proof -
  obtain s where s: "s < length (st_spaces st)" and n: "nid < length (resource_server_subscriptions st)"
    and st': "st' = (set_slot (sp_slot (st_spaces st ! s)) (Some (sub_subscriber (resource_server_subscriptions st ! nid))) st)
      \<lparr>host_subscriptions := host_subscriptions st, resource_server_subscriptions :=
        (resource_server_subscriptions st)[nid := (resource_server_subscriptions st ! nid)\<lparr>sub_slot := Some (sp_slot (st_spaces st ! s))\<rparr>]\<rparr>"
    using h by (auto simp: resource_server_subscribe_def Let_def vec_get_Some set_slot_def split: Option.bind_splits)
  obtain k where "sub_subscriber (resource_server_subscriptions st ! nid) = Sub_Notification k"
    using wf n nth_mem unfolding es_wf_def wf_subs_def by blast
  then show ?thesis
    by (intro subscription_wf [OF wf s st' subset_refl update_subscribers [OF n]]) auto
qed

lemma resource_server_unsubscribe_wf:
  assumes h: "resource_server_unsubscribe nid host_nid st = Some st'" and wf: "es_wf st"
  shows "es_wf st'"
proof -
  obtain s where s: "s < length (st_spaces st)" and n: "nid < length (resource_server_subscriptions st)"
    and st': "st' = (set_slot (sp_slot (st_spaces st ! s)) None st)
      \<lparr>host_subscriptions := host_subscriptions st, resource_server_subscriptions :=
        (resource_server_subscriptions st)[nid := (resource_server_subscriptions st ! nid)\<lparr>sub_slot := None\<rparr>]\<rparr>"
    using h by (auto simp: resource_server_unsubscribe_def Let_def vec_get_Some set_slot_def split: Option.bind_splits)
  show ?thesis
    by (intro subscription_wf [OF wf s st' subset_refl update_subscribers [OF n]]) auto
qed

text \<open>
  A node of the host can subscribe to a realm only once: after a subscription, and however many
  signals have used it up since, every further subscription of that node panics, because nothing resets
  the node's \<^verbatim>\<open>slot\<close>.
\<close>

lemma host_subscribe_once:
  assumes "host_subscribe nid rid realm_nid st = Some st'" "sig_rel st' st''"
  shows "host_subscribe nid rid' realm_nid' st'' = None"
proof -
  have "\<exists>x. vec_get (host_subscriptions st') nid = Some x \<and> sub_slot x \<noteq> None"
    using assms(1) by (auto simp: host_subscribe_def Let_def vec_get_Some set_slot_def split: Option.bind_splits)
  moreover have "host_subscriptions st'' = host_subscriptions st'" using sig_rel_fields [OF assms(2)] by simp
  ultimately show ?thesis
    by (auto simp: host_subscribe_def Let_def rust_assert_def split: Option.bind_splits)
qed

section \<open>Destruction of realms\<close>

lemma destroy_views:
  assumes "\<forall>e. Some e \<in> set es \<longrightarrow> e < length (st_events st)"
  shows "\<exists>st'. for_each es (\<lambda>entry st. case entry of None \<Rightarrow> Some st | Some e \<Rightarrow> disconnect e st) st = Some st'
    \<and> frame_rel st st' \<and> target_of st' = (\<lambda>e. if Some e \<in> set es then None else target_of st e) \<and> entry_of st' = entry_of st"
  using assms
proof (induction es arbitrary: st)
  case Nil
  then show ?case by (simp add: frame_rel_refl)
next
  case (Cons x es)
  show ?case
  proof (cases x)
    case None
    then show ?thesis using Cons by simp
  next
    case (Some e)
    then have e: "e < length (st_events st)" using Cons.prems by auto
    let ?st = "set_event e ((st_events st ! e)\<lparr>ev_target := None\<rparr>) st"
    note v = set_event_views [OF e, where ev = "(st_events st ! e)\<lparr>ev_target := None\<rparr>"]
    have "disconnect e st = Some ?st" using e by (simp add: disconnect_def)
    moreover have "\<forall>e. Some e \<in> set es \<longrightarrow> e < length (st_events ?st)" using Cons.prems by (simp add: set_event_def)
    from Cons.IH [OF this] obtain st' where st': "for_each es (\<lambda>entry st. case entry of None \<Rightarrow> Some st | Some e \<Rightarrow> disconnect e st) ?st = Some st'"
      "frame_rel ?st st'" "target_of st' = (\<lambda>e. if Some e \<in> set es then None else target_of ?st e)" "entry_of st' = entry_of ?st" by blast
    ultimately show ?thesis
      using Some frame_rel_trans [OF v(1) st'(2)] v(2,3) by (intro exI [of _ st']) (auto simp: fun_eq_iff)
  qed
qed

text \<open>Taking a realm out of the table, with its input events disconnected.\<close>

lemma remove_realm_wf:
  assumes wf: "es_wf st" and r: "frame_rel (st\<lparr>realms := (realms st)(rid := None)\<rparr>) st'"
    and v: "target_of st' = (\<lambda>e. if realm_input st rid e then None else target_of st e)" "entry_of st' = entry_of st"
  shows "es_wf st'"
proof -
  let ?st = "st\<lparr>realms := (realms st)(rid := None)\<rparr>"
  note f = frame_rel_fields [OF r] and w = frame_rel_views [OF r]
  have o: "host_spaces ?st = host_spaces st" "realm_spaces ?st r = (if r = rid then {} else realm_spaces st r)"
    "realm_input ?st = realm_input st" for r
    by (simp_all add: host_spaces_def realm_spaces_def realm_input_def fun_eq_iff)
  then have l: "live ?st s \<longleftrightarrow> s \<in> host_spaces st \<or> (\<exists>r. r \<noteq> rid \<and> s \<in> realm_spaces st r)" for s
    by (auto simp: live_def)
  then have ll: "live ?st s \<Longrightarrow> live st s" for s by (auto simp: live_def)
  have d: "\<And>r. host_spaces st \<inter> realm_spaces st r = {}"
    "\<And>r r'. r \<noteq> r' \<Longrightarrow> realm_spaces st r \<inter> realm_spaces st r' = {}"
    using wf unfolding es_wf_def wf_clients_def by blast+
  have own: "(\<forall>r. realm_input st r e \<longrightarrow> fst p \<in> realm_spaces st r) \<and> ((\<forall>r. \<not> realm_input st r e) \<longrightarrow> fst p \<in> host_spaces st)"
    if "target_of st e = Some p" for e p using wf that unfolding es_wf_def wf_owner_def by blast
  have "wf_cells st'" by (rule frame_rel_cells [OF r]) (use wf in \<open>simp add: es_wf_def wf_cells_def\<close>)
  moreover have "wf_routes st'"
    unfolding wf_routes_def w v
  proof (intro conjI allI impI)
    fix e p
    assume a: "(if realm_input st rid e then None else target_of st e) = Some p"
    then have t: "target_of st e = Some p" "\<not> realm_input st rid e" by (auto split: if_splits)
    show "live ?st (fst p)" using own [OF t(1)] t(2) unfolding l by metis
    show "entry_of st p = Some e" using es_wf_target [OF wf t(1)] by simp
  next
    fix p e
    assume a: "live ?st (fst p)" "entry_of st p = Some e"
    then have t: "target_of st e = Some p" using es_wf_entry [OF wf ll] by blast
    have "\<not> realm_input st rid e" using own [OF t] a(1) d unfolding l by (metis IntI empty_iff)
    then show "(if realm_input st rid e then None else target_of st e) = Some p" using t by simp
  qed
  moreover have "wf_clients st'"
    using wf ll unfolding es_wf_def wf_clients_def f w o by (auto split: if_splits)
  moreover have "wf_outs st'"
    using wf unfolding es_wf_def wf_outs_def f by (auto simp: ran_def split: if_splits)
  moreover have "wf_owner st'"
    unfolding wf_owner_def w v o using own by (auto split: if_splits)
  moreover have "wf_inputs st'" using wf unfolding es_wf_def wf_inputs_def f w o by simp
  moreover have "wf_subs st'"
    unfolding wf_subs_def f w o
  proof (intro conjI allI impI)
    fix s e
    assume s: "s < length (st_spaces ?st)" "slot_of st' s = Some (Sub_Event e)"
    then have "slot_of st s = Some (Sub_Event e)" using frame_rel_slot [OF r, of s] by (simp add: slot_of_def)
    with s(1) wf show "s \<notin> host_spaces st" "e < length (st_events ?st)" "\<not> realm_input st r e" for r
      by (auto simp: es_wf_def wf_subs_def)
  qed (use wf in \<open>auto simp: es_wf_def wf_subs_def\<close>)
  ultimately show ?thesis by (simp add: es_wf_def)
qed

lemma destroy_realm_wf:
  assumes wf: "es_wf st" and rid: "rid \<in> dom (realms st)"
  obtains st' where "destroy_realm rid st = Some st'" "es_wf st'" "realms st' = (realms st)(rid := None)"
proof -
  obtain ir where ir: "inactive_realms st rid = Some ir" using wf rid unfolding es_wf_def wf_clients_def by blast
  let ?st = "st\<lparr>realms := (realms st)(rid := None)\<rparr>"
  have "\<forall>e. Some e \<in> set (in_entries ir) \<longrightarrow> e < length (st_events ?st)" using wf ir by (simp add: es_wf_def wf_inputs_def)
  from destroy_views [OF this] obtain st' where d: "destroy ir ?st = Some st'" "frame_rel ?st st'"
    "target_of st' = (\<lambda>e. if Some e \<in> set (in_entries ir) then None else target_of ?st e)" "entry_of st' = entry_of ?st"
    unfolding destroy_def by blast
  have "es_wf st'"
    by (rule remove_realm_wf [OF wf d(2)])
      (use d(3,4) ir in \<open>simp_all add: fun_eq_iff realm_input_def target_of_def entry_of_def get_entry_def\<close>)
  moreover have "destroy_realm rid st = Some st'" using rid ir d(1) by (simp add: destroy_realm_def rust_assert_def)
  moreover have "realms st' = (realms st)(rid := None)" using frame_rel_fields [OF d(2)] by simp
  ultimately show ?thesis by (intro that)
qed

section \<open>Creation of realms\<close>

text \<open>New input spaces are appended to the store, each with an empty slot of its own.\<close>

lemma create_in_spaces_eq:
  "create_in_spaces n nodes st = ([length (st_spaces st)..<length (st_spaces st) + length nodes],
     st\<lparr>st_slots := st_slots st @ replicate (length nodes) None,
        st_spaces := st_spaces st @ map (\<lambda>(k, node). \<lparr>sp_entries = replicate n None, sp_notification = node, sp_slot = k\<rparr>)
          (enumerate (length (st_slots st)) nodes)\<rparr>)"
proof (induction nodes arbitrary: st)
  case Nil
  then show ?case by simp
next
  case (Cons node nodes)
  show ?case
    by (simp add: Cons.IH create_in_space_def new_slot_def new_space_def Let_def upt_conv_Cons del: upt_Suc)
qed

lemma length_create_spaces [simp]: "length (st_spaces (snd (create_in_spaces n nodes st))) = length (st_spaces st) + length nodes"
  by (simp add: create_in_spaces_eq)

lemma create_in_spaces_nth:
  assumes "k < length nodes"
  shows "st_spaces (snd (create_in_spaces n nodes st)) ! (length (st_spaces st) + k) =
    \<lparr>sp_entries = replicate n None, sp_notification = nodes ! k, sp_slot = length (st_slots st) + k\<rparr>"
  using assms by (simp add: create_in_spaces_eq nth_append nth_enumerate_eq)

lemma create_in_spaces_old:
  "s < length (st_spaces st) \<Longrightarrow> st_spaces (snd (create_in_spaces n nodes st)) ! s = st_spaces st ! s"
  by (simp add: create_in_spaces_eq nth_append)

lemma create_in_spaces_entry:
  "entry_of (snd (create_in_spaces n nodes st)) = entry_of st"
proof
  fix p :: "nat \<times> nat"
  let ?st = "snd (create_in_spaces n nodes st)"
  consider "fst p < length (st_spaces st)" | k where "fst p = length (st_spaces st) + k" "k < length nodes"
    | "length (st_spaces st) + length nodes \<le> fst p" by (metis le_add_diff_inverse less_diff_conv2 not_le add.commute)
  then show "entry_of ?st p = entry_of st p"
  proof cases
    case 1
    then show ?thesis using create_in_spaces_old [OF 1] by (simp add: entry_of_def get_entry_def vec_get_def)
  next
    case (2 k)
    then show ?thesis using create_in_spaces_nth [OF 2(2), of n st] by (simp add: entry_of_def get_entry_def vec_get_def)
  next
    case 3
    then show ?thesis by (simp add: entry_of_def get_entry_def vec_get_def)
  qed
qed

lemma create_in_spaces_cells:
  assumes c: "wf_cells st" and n: "\<forall>node\<in>set nodes. n \<le> 64 * length (cn_nfn node)" "n \<le> 2 ^ 32"
  shows "wf_cells (snd (create_in_spaces n nodes st))"
proof -
  let ?st = "snd (create_in_spaces n nodes st)"
  have sl: "st_slots ?st = st_slots st @ replicate (length nodes) None" by (simp add: create_in_spaces_eq)
  have "map sp_slot (st_spaces ?st) = map sp_slot (st_spaces st) @ [length (st_slots st)..<length (st_slots st) + length nodes]"
    by (rule nth_equalityI) (auto simp: create_in_spaces_eq nth_append nth_enumerate_eq)
  moreover have "\<forall>x\<in>set (map sp_slot (st_spaces st)). x < length (st_slots st)"
    using c by (auto simp: wf_cells_def Let_def in_set_conv_nth)
  ultimately have d: "distinct (map sp_slot (st_spaces ?st))" using c by (auto simp: wf_cells_def)
  show ?thesis
    unfolding wf_cells_def Let_def
  proof (intro conjI d allI impI)
    fix s
    assume s: "s < length (st_spaces ?st)"
    show "length (sp_entries (st_spaces ?st ! s)) \<le> 64 * length (cn_nfn (sp_notification (st_spaces ?st ! s)))"
      "length (sp_entries (st_spaces ?st ! s)) \<le> 2 ^ 32" "sp_slot (st_spaces ?st ! s) < length (st_slots ?st)"
    proof (atomize (full), cases "s < length (st_spaces st)")
      case True
      then show "length (sp_entries (st_spaces ?st ! s)) \<le> 64 * length (cn_nfn (sp_notification (st_spaces ?st ! s)))
        \<and> length (sp_entries (st_spaces ?st ! s)) \<le> 2 ^ 32 \<and> sp_slot (st_spaces ?st ! s) < length (st_slots ?st)"
        using c sl create_in_spaces_old [OF True, of n nodes] by (auto simp: wf_cells_def Let_def)
    next
      case False
      define k where "k = s - length (st_spaces st)"
      have k: "s = length (st_spaces st) + k" "k < length nodes" using False s by (auto simp: k_def)
      then show "length (sp_entries (st_spaces ?st ! s)) \<le> 64 * length (cn_nfn (sp_notification (st_spaces ?st ! s)))
        \<and> length (sp_entries (st_spaces ?st ! s)) \<le> 2 ^ 32 \<and> sp_slot (st_spaces ?st ! s) < length (st_slots ?st)"
        using sl n create_in_spaces_nth [OF k(2), of n st] by simp
    qed
  qed
qed

text \<open>The table with the new realm, before its events are connected.\<close>

lemma add_realm_wf:
  assumes wf: "es_wf st" and ir: "inactive_realms st rid = Some ir" and new: "rid \<notin> dom (realms st)"
    and nodes: "set nodes \<subseteq> set (in_notifications ir)"
  defines "st1 \<equiv> snd (create_in_spaces RealmIn_CARDINALITY nodes st)"
  defines "c \<equiv> \<lparr>out_space = ir_out_space ir, in_spaces = [length (st_spaces st)..<length (st_spaces st) + length nodes]\<rparr>"
  shows "es_wf (st1\<lparr>realms := (realms st)(rid \<mapsto> c)\<rparr>)" (is "es_wf ?st")
proof -
  have f: "st_events ?st = st_events st" "host ?st = host st" "realms ?st = (realms st)(rid \<mapsto> c)" "inactive_realms ?st = inactive_realms st"
    "resource_server ?st = resource_server st" "serial_server ?st = serial_server st" "irq_events ?st = irq_events st"
    "host_subscriptions ?st = host_subscriptions st" "resource_server_subscriptions ?st = resource_server_subscriptions st"
    "st_spaces ?st = st_spaces st1" "st_slots ?st = st_slots st @ replicate (length nodes) None"
    by (simp_all add: st1_def create_in_spaces_eq)
  have len: "length (st_spaces st1) = length (st_spaces st) + length nodes" by (simp add: st1_def)
  have rid: "realm_spaces st rid = {}" using new by (auto simp: realm_spaces_def split: option.splits)
  have v: "host_spaces ?st = host_spaces st" "realm_input ?st = realm_input st" "target_of ?st = target_of st"
    "entry_of ?st = entry_of st" "realm_spaces ?st r = (if r = rid then set (in_spaces c) else realm_spaces st r)" for r
    using create_in_spaces_entry [of RealmIn_CARDINALITY nodes st] f
    by (auto simp: fun_eq_iff host_spaces_def realm_input_def target_of_def realm_spaces_def entry_of_def get_entry_def st1_def)
  have l: "live ?st s \<longleftrightarrow> live st s \<or> s \<in> set (in_spaces c)" for s
    using rid unfolding live_def v by (metis empty_iff)
  have fresh: "s \<in> set (in_spaces c) \<Longrightarrow> \<not> s < length (st_spaces st)" for s by (auto simp: c_def)
  have en: "entry_of st p = None" if "fst p \<in> set (in_spaces c)" for p
    using fresh [OF that] by (simp add: entry_of_def get_entry_def vec_get_def)
  have lb: "live st s \<Longrightarrow> s < length (st_spaces st)" for s by (rule live_bound [OF wf])
  have d: "\<And>r. host_spaces st \<inter> realm_spaces st r = {}" "\<And>r r'. r \<noteq> r' \<Longrightarrow> realm_spaces st r \<inter> realm_spaces st r' = {}"
    using wf unfolding es_wf_def wf_clients_def by blast+
  have "wf_cells st1"
    unfolding st1_def using wf ir nodes
    by (intro create_in_spaces_cells) (auto simp: es_wf_def wf_inputs_def RealmIn_CARDINALITY_def RealmIn_shape_def
        RealmRingBufferIn_CARDINALITY_def RealmRingBufferIn_shape_def RealmRingBufferId_CARDINALITY_def RealmRingBufferId_shape_def
        cardinality_of_structure_eq)
  then have "wf_cells ?st" by (simp add: wf_cells_def)
  moreover have "wf_routes ?st"
    unfolding wf_routes_def v l
  proof (intro conjI allI impI)
    fix e p
    assume "target_of st e = Some p"
    from es_wf_target [OF wf this] show "live st (fst p) \<or> fst p \<in> set (in_spaces c)" "entry_of st p = Some e" by simp_all
  next
    fix p e
    assume "live st (fst p) \<or> fst p \<in> set (in_spaces c)" "entry_of st p = Some e"
    then show "target_of st e = Some p" using es_wf_entry [OF wf, of p e] en [of p] by auto
  qed
  moreover have "wf_clients ?st"
    unfolding wf_clients_def
  proof (intro conjI allI impI)
    show "s < length (st_spaces ?st)" if "live ?st s" for s
      using that lb len unfolding l f by (fastforce simp: c_def)
    show "host_spaces ?st \<inter> realm_spaces ?st r = {}" for r
      using d(1) fresh lb unfolding v live_def by (auto split: if_splits)
    show "realm_spaces ?st r \<inter> realm_spaces ?st r' = {}" if "r \<noteq> r'" for r r'
      using that d(2) [OF that] fresh lb unfolding v live_def by (auto split: if_splits)
  qed (use wf ir in \<open>auto simp: es_wf_def wf_clients_def c_def st1_def create_in_spaces_eq split: if_splits\<close>)
  moreover have "wf_outs ?st"
    using wf ir unfolding es_wf_def wf_outs_def f by (auto simp: ran_def c_def split: if_splits)
  moreover have "(\<forall>r. realm_input st r e \<longrightarrow> fst p \<in> realm_spaces st r) \<and> ((\<forall>r. \<not> realm_input st r e) \<longrightarrow> fst p \<in> host_spaces st)"
    if "target_of st e = Some p" for e p using wf that unfolding es_wf_def wf_owner_def by blast
  then have "wf_owner ?st" unfolding wf_owner_def v using rid by (metis empty_iff)
  moreover have "wf_inputs ?st" using wf unfolding es_wf_def wf_inputs_def f v by blast
  moreover have "wf_subs ?st"
    unfolding wf_subs_def f v
  proof (intro conjI allI impI)
    fix s e
    assume s: "s < length (st_spaces st1)" "slot_of ?st s = Some (Sub_Event e)"
    have old: "s < length (st_spaces st)"
    proof (rule ccontr)
      assume "\<not> s < length (st_spaces st)"
      then obtain k where k: "s = length (st_spaces st) + k" "k < length nodes"
        using s(1) len by (metis add_less_cancel_left le_Suc_ex not_less)
      then have "sp_slot (st_spaces st1 ! s) = length (st_slots st) + k"
        using create_in_spaces_nth [OF k(2), of RealmIn_CARDINALITY st] by (simp add: st1_def)
      then show False using s(2) k(2) unfolding slot_of_def f by (simp add: nth_append)
    qed
    have "sp_slot (st_spaces st ! s) < length (st_slots st)" using wf old by (simp add: es_wf_def wf_cells_def Let_def)
    then have "slot_of st s = Some (Sub_Event e)"
      using s(2) create_in_spaces_old [OF old, of RealmIn_CARDINALITY nodes] unfolding slot_of_def f by (simp add: st1_def nth_append)
    with old wf show "s \<notin> host_spaces st" "e < length (st_events st)" "\<not> realm_input st r e" for r
      by (auto simp: es_wf_def wf_subs_def)
  qed (use wf in \<open>auto simp: es_wf_def wf_subs_def\<close>)
  ultimately show ?thesis by (simp add: es_wf_def)
qed

text \<open>Connecting the waiting events of a realm to the entries of its first node.\<close>

lemma connect_loop:
  assumes wf: "es_wf st" and s: "s \<in> realm_spaces st rid"
    and room: "\<forall>j<length es. get_entry s (k + j) st = Some None"
    and ev: "\<forall>e. Some e \<in> set es \<longrightarrow> realm_input st rid e \<and> target_of st e = None \<and> e < length (st_events st)"
    and d: "distinct (filter (\<lambda>x. x \<noteq> None) es)"
  shows "\<exists>st'. for_each (enumerate k es) (\<lambda>(i, entry) st. case entry of None \<Rightarrow> Some st | Some e \<Rightarrow> connect e s i st) st = Some st'
    \<and> es_wf st' \<and> frame_rel st st'"
  using assms
proof (induction es arbitrary: k st)
  case Nil
  then show ?case by (auto simp: frame_rel_refl)
next
  case (Cons x es)
  have room': "\<forall>j<length es. get_entry s (Suc k + j) st = Some None" using Cons.prems(3) by (metis Suc_less_eq add_Suc_shift length_Cons)
  show ?case
  proof (cases x)
    case None
    then show ?thesis using Cons.IH [OF Cons.prems(1,2) room'] Cons.prems(4,5) by simp
  next
    case (Some e)
    have e: "e < length (st_events st)" "target_of st e = None" "realm_input st rid e" using Cons.prems(4) Some by auto
    have g: "get_entry s k st = Some None" using Cons.prems(3) by force
    obtain st1 where c: "connect e s k st = Some st1" "frame_rel st st1" "target_of st1 = (target_of st)(e := Some (s, k))"
      "entry_of st1 = (entry_of st)((s, k) := Some e)" "\<forall>p. p \<noteq> (s, k) \<longrightarrow> get_entry (fst p) (snd p) st1 = get_entry (fst p) (snd p) st"
      by (rule connect_views [OF e(1,2) g]) blast
    note v = frame_rel_views [OF c(2)] and f = frame_rel_fields [OF c(2)]
    have u: "r = rid" if "realm_input st r e" for r
      using Cons.prems(1) that e(3) unfolding es_wf_def wf_inputs_def by blast
    have wf1: "es_wf st1"
    proof (rule connect_wf [OF Cons.prems(1) c(2-4) e(2)])
      show "entry_of st (s, k) = None" using g by (simp add: entry_of_def)
      show "live st s" using Cons.prems(2) by (auto simp: live_def)
      show "s \<in> realm_spaces st r" if "realm_input st r e" for r using u [OF that] Cons.prems(2) by simp
      show "s \<in> host_spaces st" if "\<And>r. \<not> realm_input st r e" using that e(3) by blast
    qed
    have "\<forall>j<length es. get_entry s (Suc k + j) st1 = Some None"
    proof (intro allI impI)
      fix j
      assume "j < length es"
      then show "get_entry s (Suc k + j) st1 = Some None" using room' spec [OF c(5), of "(s, Suc k + j)"] by simp
    qed
    moreover have "\<forall>e'. Some e' \<in> set es \<longrightarrow> realm_input st1 rid e' \<and> target_of st1 e' = None \<and> e' < length (st_events st1)"
      using Cons.prems(4,5) Some unfolding v f c(3) by auto
    ultimately obtain st' where "for_each (enumerate (Suc k) es) (\<lambda>(i, entry) st. case entry of None \<Rightarrow> Some st | Some e \<Rightarrow> connect e s i st) st1 = Some st'"
      "es_wf st'" "frame_rel st1 st'"
      using Cons.IH [OF wf1, of "Suc k"] Cons.prems(2,5) Some v by (auto split: if_splits)
    then show ?thesis using Some c(1) frame_rel_trans [OF c(2)] by auto
  qed
qed

lemma for_each_cong: "(\<And>x s. x \<in> set xs \<Longrightarrow> f x s = g x s) \<Longrightarrow> for_each xs f s = for_each xs g s"
  by (induction xs arbitrary: s) (auto split: option.splits)

text \<open>Connecting does not read the table of realms.\<close>

lemma connect_realms: "connect e s i (st\<lparr>realms := r\<rparr>) = map_option (\<lambda>st. st\<lparr>realms := r\<rparr>) (connect e s i st)"
  by (cases "get_entry s i st"; cases "vec_get (st_events st) e")
    (auto simp: connect_def get_entry_def set_entry_def set_event_def rust_assert_def vec_get_def vec_set_def split: Option.bind_splits)

lemma connect_entries_realms:
  "connect_entries c es (st\<lparr>realms := r\<rparr>) = map_option (\<lambda>st. st\<lparr>realms := r\<rparr>) (connect_entries c es st)"
proof -
  have "for_each xs (\<lambda>(i, entry) st. case entry of None \<Rightarrow> Some st | Some e \<Rightarrow> do { s \<leftarrow> vec_get (in_spaces c) 0; connect e s i st }) (st\<lparr>realms := r\<rparr>)
    = map_option (\<lambda>st. st\<lparr>realms := r\<rparr>) (for_each xs (\<lambda>(i, entry) st. case entry of None \<Rightarrow> Some st | Some e \<Rightarrow> do { s \<leftarrow> vec_get (in_spaces c) 0; connect e s i st }) st)" for xs
  proof (induction xs arbitrary: st)
    case Nil
    then show ?case by simp
  next
    case (Cons x xs)
    show ?case
      by (cases x; cases "snd x"; cases "vec_get (in_spaces c) 0")
        (auto simp: Cons.IH connect_realms split: option.splits)
  qed
  then show ?thesis by (simp add: connect_entries_def)
qed

lemma connect_entries_same: "connect_entries c es st = Some st' \<Longrightarrow> realms st' = realms st"
  unfolding connect_entries_def
  by (rule for_each_inv [where P = "\<lambda>t. realms t = realms st"])
    (auto simp: connect_def set_entry_def set_event_def split: option.splits Option.bind_splits)

lemma create_realm_ok:
  assumes wf: "es_wf st" and a: "rid \<notin> dom (realms st) \<and> inactive_realms st rid = Some ir \<and> 0 < n \<and> n \<le> length (in_notifications ir)"
  shows "\<exists>st'. create_realm rid n st = Some st' \<and> es_wf st' \<and> rid \<in> dom (realms st')"
proof -
  let ?nodes = "take n (in_notifications ir)" and ?len = "length (st_spaces st)"
  define st1 where "st1 = snd (create_in_spaces RealmIn_CARDINALITY ?nodes st)"
  define c where "c = \<lparr>out_space = ir_out_space ir, in_spaces = [?len..<?len + length ?nodes]\<rparr>"
  let ?st = "st1\<lparr>realms := (realms st)(rid \<mapsto> c)\<rparr>"
  have wf1: "es_wf ?st"
    unfolding st1_def c_def by (rule add_realm_wf [OF wf _ _ set_take_subset]) (use a in auto)
  have i: "inactive_realms ?st = inactive_realms st" "realms st1 = realms st" by (simp_all add: st1_def create_in_spaces_eq)
  have s: "?len \<in> realm_spaces ?st rid" "vec_get (in_spaces c) 0 = Some ?len" using a by (auto simp: realm_spaces_def c_def vec_get_def)
  have "get_entry ?len j ?st = Some None" if "j < RealmIn_CARDINALITY" for j
    using create_in_spaces_nth [of 0 ?nodes RealmIn_CARDINALITY st] that a by (simp add: get_entry_def st1_def)
  moreover have len: "length (in_entries ir) = RealmIn_CARDINALITY" "distinct (filter (\<lambda>x. x \<noteq> None) (in_entries ir))"
    using wf a by (auto simp: es_wf_def wf_inputs_def)
  ultimately have room: "\<forall>j<length (in_entries ir). get_entry ?len (0 + j) ?st = Some None" by simp
  have "target_of st e = None" if "Some e \<in> set (in_entries ir)" for e
  proof (rule ccontr)
    assume "target_of st e \<noteq> None"
    then obtain p where "target_of st e = Some p" by blast
    moreover have "realm_input st rid e" using that a by (auto simp: realm_input_def)
    ultimately have "fst p \<in> realm_spaces st rid" using wf unfolding es_wf_def wf_owner_def by blast
    then show False using a by (auto simp: realm_spaces_def split: option.splits)
  qed
  then have ev: "\<forall>e. Some e \<in> set (in_entries ir) \<longrightarrow> realm_input ?st rid e \<and> target_of ?st e = None \<and> e < length (st_events ?st)"
    using wf a by (auto simp: realm_input_def i st1_def create_in_spaces_eq target_of_def es_wf_def wf_inputs_def)
  obtain st2 where st2: "connect_entries c (in_entries ir) ?st = Some st2" "es_wf st2" "frame_rel ?st st2"
    using connect_loop [OF wf1 s(1) room ev len(2)] unfolding connect_entries_def s(2) bind.bind_lunit by blast
  then obtain st3 where st3: "connect_entries c (in_entries ir) st1 = Some st3" "st2 = st3\<lparr>realms := (realms st)(rid \<mapsto> c)\<rparr>"
    unfolding connect_entries_realms by auto
  have "create_client ir n st = Some (c, st3)"
    using a st3(1) unfolding create_client_def c_def st1_def by (simp add: create_in_spaces_eq rust_assert_def)
  moreover have "realms st3 = realms st" using connect_entries_same [OF st3(1)] i(2) by simp
  ultimately have "create_realm rid n st = Some st2" using a st3(2) by (simp add: create_realm_def rust_assert_def)
  moreover have "rid \<in> dom (realms st2)" using st3(2) by simp
  ultimately show "\<exists>st'. create_realm rid n st = Some st' \<and> es_wf st' \<and> rid \<in> dom (realms st')" using st2(2) by blast
qed

text \<open>A realm without nodes has no input spaces; it can only be created if no event waits for it.\<close>

lemma create_realm_wf:
  assumes wf: "es_wf st" and r: "create_realm rid n st = Some st'"
  shows "es_wf st'"
proof -
  obtain ir c st1 where ir: "rid \<notin> dom (realms st)" "inactive_realms st rid = Some ir" "create_client ir n st = Some (c, st1)"
    "st' = st1\<lparr>realms := (realms st1)(rid \<mapsto> c)\<rparr>"
    using r by (auto simp: create_realm_def split: Option.bind_splits)
  show ?thesis
  proof (cases "n = 0")
    case True
    then have c: "c = \<lparr>out_space = ir_out_space ir, in_spaces = []\<rparr>" and e: "connect_entries c (in_entries ir) st = Some st1"
      using ir(3) by (auto simp: create_client_def Let_def split: Option.bind_splits)
    have "st1 = st"
      using e unfolding connect_entries_def
      by (rule for_each_inv [where P = "\<lambda>t. t = st"]) (auto simp: c vec_get_def split: option.splits)
    then show ?thesis using add_realm_wf [OF wf ir(2,1), of "[]"] ir(4) c by simp
  next
    case False
    moreover have "n \<le> length (in_notifications ir)" using ir(3) by (auto simp: create_client_def split: Option.bind_splits)
    ultimately show ?thesis using create_realm_ok [OF wf, of rid ir n] ir(1,2) r by auto
  qed
qed

text \<open>
  C5. Creating a realm that does not exist, with at least one node and no more than it has notifications,
  never panics and keeps the routing invariant, whatever happened to earlier realms of that identifier;
  so does destroying a realm that exists.
\<close>

theorem create_destroy_realm:
  assumes wf: "es_wf st"
  shows "(rid \<notin> dom (realms st) \<and> inactive_realms st rid = Some ir \<and> 0 < n \<and> n \<le> length (in_notifications ir) \<longrightarrow>
      (\<exists>st'. create_realm rid n st = Some st' \<and> es_wf st' \<and> rid \<in> dom (realms st')))
    \<and> (rid \<in> dom (realms st) \<longrightarrow> (\<exists>st'. destroy_realm rid st = Some st' \<and> es_wf st' \<and> rid \<notin> dom (realms st')))"
proof (intro conjI impI)
  assume "rid \<in> dom (realms st)"
  then obtain st' where "destroy_realm rid st = Some st'" "es_wf st'" "realms st' = (realms st)(rid := None)"
    by (rule destroy_realm_wf [OF wf])
  then show "\<exists>st'. destroy_realm rid st = Some st' \<and> es_wf st' \<and> rid \<notin> dom (realms st')" by auto
qed (rule create_realm_ok [OF wf])

end
