(* ===== verification/EventServerInit.thy ===== *)
theory EventServerInit
  imports EventServerOps
begin

text \<open>
  Start-up of the event server: \<^verbatim>\<open>EventServerConfig::realize\<close> never panics on a configuration that
  covers the platform's cores and realms, establishes the routing invariant, and connects every output
  to the input that names its peer. The four loops that wire outputs are one loop over a list of wires.
\<close>

section \<open>The numbers of the event spaces\<close>

lemmas event_number_defs = derive_to_nat_def cardinality_of_structure_eq EventSPI_CARDINALITY_def SPI_START_def SPI_END_def
  HostIn_to_nat_def HostIn_CARDINALITY_def HostIn_shape_def HostRingBufferIn_to_nat_def HostRingBufferIn_CARDINALITY_def
  HostRingBufferIn_shape_def EventRealmId_CARDINALITY_def NUM_REALMS_def RealmRingBufferId_CARDINALITY_def RealmRingBufferId_shape_def
  RealmRingBufferId_to_nat_def RealmIn_to_nat_def RealmIn_CARDINALITY_def RealmIn_shape_def RealmRingBufferIn_to_nat_def
  RealmRingBufferIn_CARDINALITY_def RealmRingBufferIn_shape_def HostOut_CARDINALITY_def HostOut_shape_def HostRingBufferOut_CARDINALITY_def
  HostRingBufferOut_shape_def RealmOut_CARDINALITY_def RealmOut_shape_def RealmRingBufferOut_CARDINALITY_def RealmRingBufferOut_shape_def
  SerialServerOut_CARDINALITY_def SerialServerOut_shape_def SerialServerRingBuffer_CARDINALITY_def SerialServerRingBuffer_shape_def
  ResourceServerOut_CARDINALITY_def ResourceServerOut_shape_def

lemma event_cardinalities:
  "HostIn_CARDINALITY = 995" "RealmIn_CARDINALITY = 3" "HostOut_CARDINALITY = 4" "RealmOut_CARDINALITY = 2"
  "SerialServerOut_CARDINALITY = 3" "ResourceServerOut_CARDINALITY = 1"
  by (simp_all add: event_number_defs)

lemma event_numbers:
  "HostIn_to_nat HostIn_RealmEvent = 0"
  "HostIn_to_nat (HostIn_RingBuffer HostRB_ResourceServer) = 989" "HostIn_to_nat (HostIn_RingBuffer HostRB_SerialServer) = 990"
  "HostIn_to_nat (HostIn_RingBuffer (HostRB_Realm (EventRealmId r) Net)) = 991 + r"
  "HostIn_to_nat (HostIn_RingBuffer (HostRB_Realm (EventRealmId r) Channel)) = 993 + r"
  "RealmIn_to_nat (RealmIn_RingBuffer RealmRB_SerialServer) = 2"
  "RealmIn_to_nat (RealmIn_RingBuffer (RealmRB_Host Net)) = 0" "RealmIn_to_nat (RealmIn_RingBuffer (RealmRB_Host Channel)) = 1"
  by (simp_all add: event_number_defs)

lemma spi_number: "irq < 956 \<Longrightarrow> HostIn_to_nat (HostIn_SPI (EventSPI irq)) = irq + 33"
  by (simp add: event_number_defs)

section \<open>A server before it is wired\<close>

lemma blank_wf:
  assumes ev: "\<forall>ev\<in>set (st_events st). ev_target ev = None" and sp: "\<forall>sp\<in>set (st_spaces st). \<forall>x\<in>set (sp_entries sp). x = None"
    and cells: "wf_cells st" and sl: "\<forall>x\<in>set (st_slots st). x = None"
    and cl: "distinct (in_spaces (host st))" "\<forall>s\<in>set (in_spaces (host st)). s < length (st_spaces st)"
      "in_spaces (resource_server st) = []" "in_spaces (serial_server st) = []" "realms st = Map.empty"
    and outs: "wf_outs st"
    and ir: "\<forall>rid ir. inactive_realms st rid = Some ir \<longrightarrow> in_entries ir = replicate RealmIn_CARDINALITY None
       \<and> (\<forall>node\<in>set (in_notifications ir). RealmIn_CARDINALITY \<le> 64 * length (cn_nfn node))"
    and subs: "host_subscriptions st = []" "resource_server_subscriptions st = []"
  shows "es_wf st"
proof -
  have t: "target_of st e = None" for e using ev nth_mem by (auto simp: target_of_def)
  have n: "entry_of st p = None" for p
  proof (rule ccontr)
    assume "entry_of st p \<noteq> None"
    then obtain e where "entry_of st (fst p, snd p) = Some e" by auto
    then obtain ent where x: "fst p < length (st_spaces st)" "snd p < length (sp_entries (st_spaces st ! fst p))"
      "sp_entries (st_spaces st ! fst p) ! snd p = Some ent" using entry_of_bound by blast
    show False using sp nth_mem [OF x(1)] nth_mem [OF x(2)] x(3) by fastforce
  qed
  have r: "realm_spaces st rid = {}" "\<not> realm_input st rid e" for rid e
    using cl(5) ir by (auto simp: realm_spaces_def realm_input_def)
  have "slot_of st s = None" if "s < length (st_spaces st)" for s
    using that cells sl nth_mem by (auto simp: slot_of_def wf_cells_def Let_def)
  then have "wf_subs st" using subs r by (simp add: wf_subs_def)
  moreover have "wf_clients st" using cl r by (auto simp: wf_clients_def live_def host_spaces_def)
  moreover have "wf_inputs st" using ir r by (auto simp: wf_inputs_def)
  ultimately show ?thesis using t n cells outs by (simp add: es_wf_def wf_routes_def wf_owner_def)
qed

section \<open>Wires\<close>

text \<open>
  What the wiring loops do with an output: \<open>Inl i\<close> connects it to entry \<open>i\<close> of the host's primary
  node, \<open>Inr (rid, i)\<close> leaves it with a realm that is yet to be created.
\<close>

fun wire_one :: "nat \<times> (nat + nat \<times> nat) \<Rightarrow> 'w EventServer \<Rightarrow> 'w EventServer option" where
  "wire_one (e, Inl i) st = do { s \<leftarrow> vec_get (in_spaces (host st)) PRIMARY_HOST_NODE; connect e s i st }"
| "wire_one (e, Inr (rid, i)) st = set_in_entry rid i e st"

definition wiring :: "nat \<Rightarrow> 'w EventServer \<Rightarrow> bool" where
  "wiring h st \<longleftrightarrow> es_wf st \<and> realms st = Map.empty \<and> host_subscriptions st = [] \<and> resource_server_subscriptions st = []
     \<and> irq_events st = Map.empty \<and> (\<forall>s<length (st_spaces st). slot_of st s = None)
     \<and> vec_get (in_spaces (host st)) PRIMARY_HOST_NODE = Some h"

definition unwired :: "'w EventServer \<Rightarrow> nat \<Rightarrow> bool" where
  "unwired st e \<longleftrightarrow> e < length (st_events st) \<and> target_of st e = None \<and> (\<forall>rid. \<not> realm_input st rid e)"

definition in_entry :: "'w EventServer \<Rightarrow> nat \<Rightarrow> nat \<Rightarrow> nat option option" where
  "in_entry st rid i = do { ir \<leftarrow> inactive_realms st rid; vec_get (in_entries ir) i }"

fun free_end :: "nat \<Rightarrow> 'w EventServer \<Rightarrow> nat + nat \<times> nat \<Rightarrow> bool" where
  "free_end h st (Inl i) \<longleftrightarrow> get_entry h i st = Some None"
| "free_end h st (Inr (rid, i)) \<longleftrightarrow> in_entry st rid i = Some None"

fun wired :: "nat \<Rightarrow> 'w EventServer \<Rightarrow> nat \<times> (nat + nat \<times> nat) \<Rightarrow> bool" where
  "wired h st (e, Inl i) \<longleftrightarrow> target_of st e = Some (h, i)"
| "wired h st (e, Inr (rid, i)) \<longleftrightarrow> in_entry st rid i = Some (Some e)"

definition same_clients :: "'w EventServer \<Rightarrow> 'w EventServer \<Rightarrow> bool" where
  "same_clients st st' \<longleftrightarrow> resource_server st' = resource_server st \<and> serial_server st' = serial_server st \<and> host st' = host st
     \<and> length (st_events st') = length (st_events st) \<and> length (st_spaces st') = length (st_spaces st)
     \<and> (\<forall>rid. map_option ir_out_space (inactive_realms st' rid) = map_option ir_out_space (inactive_realms st rid)
          \<and> map_option in_notifications (inactive_realms st' rid) = map_option in_notifications (inactive_realms st rid))
     \<and> (\<forall>s i. s \<noteq> hd (in_spaces (host st)) \<longrightarrow> get_entry s i st' = get_entry s i st)"

lemma same_clients_refl: "same_clients st st"
  by (simp add: same_clients_def)

lemma same_clients_trans: "same_clients a b \<Longrightarrow> same_clients b c \<Longrightarrow> same_clients a c"
  by (simp add: same_clients_def)

lemma wire_host_step:
  assumes w: "wiring h st" and e: "unwired st e" and g: "get_entry h i st = Some None"
  obtains st' where "wire_one (e, Inl i) st = Some st'" "wiring h st'" "same_clients st st'"
    "target_of st' = (target_of st)(e := Some (h, i))" "realm_input st' = realm_input st" "in_entry st' = in_entry st"
    "\<forall>p. p \<noteq> (h, i) \<longrightarrow> get_entry (fst p) (snd p) st' = get_entry (fst p) (snd p) st"
proof -
  have wf: "es_wf st" and h: "vec_get (in_spaces (host st)) PRIMARY_HOST_NODE = Some h" using w by (auto simp: wiring_def)
  obtain st' where c: "connect e h i st = Some st'" "frame_rel st st'" "target_of st' = (target_of st)(e := Some (h, i))"
    "entry_of st' = (entry_of st)((h, i) := Some e)" "\<forall>p. p \<noteq> (h, i) \<longrightarrow> get_entry (fst p) (snd p) st' = get_entry (fst p) (snd p) st"
    using e g by (auto simp: unwired_def elim!: connect_views)
  note f = frame_rel_fields [OF c(2)]
  have hh: "h \<in> host_spaces st" "h = hd (in_spaces (host st))"
    using h by (auto simp: host_spaces_def vec_get_Some PRIMARY_HOST_NODE_def hd_conv_nth)
  have "es_wf st'"
    by (rule connect_wf [OF wf c(2-4)]) (use e g hh in \<open>auto simp: unwired_def entry_of_def live_def\<close>)
  then have "wiring h st'" using w f frame_rel_slot [OF c(2)] by (simp add: wiring_def)
  moreover have "same_clients st st'" using f hh(2) c(5) by (auto simp: same_clients_def)
  ultimately show ?thesis
    using that c(1,3,5) h f frame_rel_views(4) [OF c(2)] by (auto simp: in_entry_def fun_eq_iff)
qed

lemma wire_realm_step:
  assumes w: "wiring h st" and e: "unwired st e" and g: "in_entry st rid i = Some None"
  obtains st' where "wire_one (e, Inr (rid, i)) st = Some st'" "wiring h st'" "same_clients st st'"
    "target_of st' = target_of st" "realm_input st' = (\<lambda>r e'. realm_input st r e' \<or> r = rid \<and> e' = e)"
    "\<forall>r j. in_entry st' r j = (if r = rid \<and> j = i then Some (Some e) else in_entry st r j)"
    "\<forall>s j. get_entry s j st' = get_entry s j st"
proof -
  obtain ir where ir: "inactive_realms st rid = Some ir" "i < length (in_entries ir)" "in_entries ir ! i = None"
    using g by (auto simp: in_entry_def vec_get_def split: Option.bind_splits if_splits)
  define st' where "st' = st\<lparr>inactive_realms := (inactive_realms st)(rid \<mapsto> ir\<lparr>in_entries := (in_entries ir)[i := Some e]\<rparr>)\<rparr>"
  have wf: "es_wf st" and r: "realms st = Map.empty" "host_subscriptions st = []" "\<forall>s<length (st_spaces st). slot_of st s = None"
    using w by (auto simp: wiring_def)
  have sl: "slot_of st' = slot_of st" by (simp add: fun_eq_iff slot_of_def st'_def)
  have v: "host_spaces st' = host_spaces st" "realm_spaces st' = realm_spaces st" "live st' = live st"
    "target_of st' = target_of st" "entry_of st' = entry_of st" "\<forall>s j. get_entry s j st' = get_entry s j st"
    by (simp_all add: fun_eq_iff st'_def host_spaces_def realm_spaces_def live_def target_of_def entry_of_def get_entry_def)
  have ins: "set ((in_entries ir)[i := Some e]) - {None} = insert (Some e) (set (in_entries ir)) - {None}"
    using ir by (auto simp: set_conv_nth nth_list_update split: if_splits) (metis option.distinct(1))+
  then have mem: "Some x \<in> set ((in_entries ir)[i := Some e]) \<longleftrightarrow> x = e \<or> Some x \<in> set (in_entries ir)" for x
    by (metis Diff_iff insert_iff option.distinct(1) option.inject singletonD)
  have ri: "realm_input st' = (\<lambda>r e'. realm_input st r e' \<or> r = rid \<and> e' = e)"
    using ir(1) mem by (auto simp: fun_eq_iff realm_input_def st'_def)
  have dist: "distinct (filter (\<lambda>x. x \<noteq> None) ((in_entries ir)[i := Some e]))"
  proof -
    have "distinct (filter (\<lambda>x. x \<noteq> None) (in_entries ir))" "Some e \<notin> set (in_entries ir)"
      using wf ir(1) e by (auto simp: es_wf_def wf_inputs_def unwired_def realm_input_def)
    then show ?thesis
      using ir(2,3) id_take_nth_drop [OF ir(2)] by (subst (asm) (1 2) id_take_nth_drop [OF ir(2)]) (auto simp: upd_conv_take_nth_drop dest: in_set_takeD in_set_dropD)
  qed
  have "wf_cells st'" using wf by (simp add: es_wf_def wf_cells_def st'_def)
  moreover have "wf_routes st" using wf by (simp add: es_wf_def)
  then have "wf_routes st'" unfolding wf_routes_def v .
  moreover have "wf_clients st'" using wf r(1) unfolding es_wf_def wf_clients_def v by (simp add: st'_def)
  moreover have "wf_outs st'" using wf ir(1) unfolding es_wf_def wf_outs_def by (auto simp: st'_def ran_def split: if_splits)
  moreover have "wf_owner st'" using wf e unfolding es_wf_def wf_owner_def v ri unwired_def by auto
  moreover have "wf_inputs st'"
    unfolding wf_inputs_def ri
  proof (intro conjI allI impI)
    show "r = r'" if "realm_input st r x \<or> r = rid \<and> x = e" "realm_input st r' x \<or> r' = rid \<and> x = e" for r r' x
      using that e wf unfolding unwired_def es_wf_def wf_inputs_def by blast
  qed (use wf ir(1) dist mem e in \<open>auto simp: st'_def es_wf_def wf_inputs_def unwired_def split: if_splits\<close>)
  moreover have "wf_subs st'"
    using wf r(2,3) sl unfolding es_wf_def wf_subs_def by (simp add: st'_def)
  ultimately have "es_wf st'" by (simp add: es_wf_def)
  then have "wiring h st'" using w sl by (simp add: wiring_def st'_def)
  moreover have "same_clients st st'" using ir(1) v(6) by (auto simp: same_clients_def st'_def)
  moreover have "wire_one (e, Inr (rid, i)) st = Some st'" using ir by (simp add: set_in_entry_def st'_def)
  moreover have "\<forall>r j. in_entry st' r j = (if r = rid \<and> j = i then Some (Some e) else in_entry st r j)"
    using ir by (auto simp: in_entry_def st'_def vec_get_def nth_list_update)
  ultimately show ?thesis using that ri v by blast
qed

text \<open>What wiring leaves alone, outside the outputs \<open>E\<close> and the ends \<open>D\<close> it uses.\<close>

definition wire_frame :: "nat \<Rightarrow> nat set \<Rightarrow> (nat + nat \<times> nat) set \<Rightarrow> 'w EventServer \<Rightarrow> 'w EventServer \<Rightarrow> bool" where
  "wire_frame h E D st st' \<longleftrightarrow> same_clients st st'
     \<and> (\<forall>e. e \<notin> E \<longrightarrow> unwired st e \<longrightarrow> unwired st' e)
     \<and> (\<forall>d. d \<notin> D \<longrightarrow> free_end h st d \<longrightarrow> free_end h st' d)
     \<and> (\<forall>e d. e \<notin> E \<longrightarrow> d \<notin> D \<longrightarrow> wired h st (e, d) \<longrightarrow> wired h st' (e, d))"

lemma wire_frame_trans: "wire_frame h E D a b \<Longrightarrow> wire_frame h E' D' b c \<Longrightarrow> wire_frame h (E \<union> E') (D \<union> D') a c"
  unfolding wire_frame_def using same_clients_trans by blast

lemma wire_step:
  assumes w: "wiring h st" and e: "unwired st e" and g: "free_end h st d"
  shows "\<exists>st'. wire_one (e, d) st = Some st' \<and> wiring h st' \<and> wired h st' (e, d) \<and> wire_frame h {e} {d} st st'"
proof (cases d)
  case (Inl i)
  then have gi: "get_entry h i st = Some None" using g by simp
  obtain st' where s: "wire_one (e, Inl i) st = Some st'" "wiring h st'" "same_clients st st'"
    and t: "target_of st' = (target_of st)(e := Some (h, i))" "realm_input st' = realm_input st" "in_entry st' = in_entry st"
    and k: "\<forall>p. p \<noteq> (h, i) \<longrightarrow> get_entry (fst p) (snd p) st' = get_entry (fst p) (snd p) st"
    by (rule wire_host_step [OF w e gi])
  have "wired h st' (e', d')" if "wired h st (e', d')" "e' \<noteq> e" for e' d'
    using that t by (cases d') auto
  moreover have "free_end h st' d'" if "free_end h st d'" "d' \<noteq> d" for d'
    using that t(3) k Inl by (cases d') auto
  moreover have "unwired st' e'" if "unwired st e'" "e' \<noteq> e" for e'
    using that t s(3) by (simp add: unwired_def same_clients_def)
  ultimately show ?thesis using Inl s t(1) by (auto simp: wire_frame_def)
next
  case (Inr q)
  then obtain rid i where d: "d = Inr (rid, i)" by (cases q) auto
  then have gi: "in_entry st rid i = Some None" using g by simp
  obtain st' where s: "wire_one (e, Inr (rid, i)) st = Some st'" "wiring h st'" "same_clients st st'"
    and t: "target_of st' = target_of st" "realm_input st' = (\<lambda>r e'. realm_input st r e' \<or> r = rid \<and> e' = e)"
      "\<forall>r j. in_entry st' r j = (if r = rid \<and> j = i then Some (Some e) else in_entry st r j)"
      "\<forall>s j. get_entry s j st' = get_entry s j st"
    by (rule wire_realm_step [OF w e gi])
  have "wired h st' (e', d')" if "wired h st (e', d')" "d' \<noteq> d" for e' d'
    using that by (cases d') (auto simp: t(1) t(3) [rule_format] d split: if_splits)
  moreover have "free_end h st' d'" if "free_end h st d'" "d' \<noteq> d" for d'
    using that by (cases d') (auto simp: t(3,4) [rule_format] d split: if_splits)
  moreover have "unwired st' e'" if "unwired st e'" "e' \<noteq> e" for e'
    using that t(1,2) s(3) by (simp add: unwired_def same_clients_def)
  ultimately show ?thesis using d s t(3) by (auto simp: wire_frame_def)
qed

lemma wire_loop:
  assumes "wiring h st" "distinct (map fst ws)" "distinct (map snd ws)" "\<forall>w\<in>set ws. unwired st (fst w) \<and> free_end h st (snd w)"
  shows "\<exists>st'. for_each ws wire_one st = Some st' \<and> wiring h st' \<and> (\<forall>w\<in>set ws. wired h st' w)
    \<and> wire_frame h (fst ` set ws) (snd ` set ws) st st'"
  using assms
proof (induction ws arbitrary: st)
  case Nil
  then show ?case by (simp add: wire_frame_def same_clients_refl)
next
  case (Cons w ws)
  obtain e d where ed: "w = (e, d)" by (cases w)
  have "unwired st e" "free_end h st d" using Cons.prems(4) ed by auto
  from wire_step [OF Cons.prems(1) this] obtain st1 where
    s1: "wire_one (e, d) st = Some st1" "wiring h st1" "wired h st1 (e, d)" and fr: "wire_frame h {e} {d} st st1" by blast
  have x: "e \<notin> fst ` set ws" "d \<notin> snd ` set ws" using Cons.prems(2,3) ed by auto
  then have rest: "\<forall>w\<in>set ws. unwired st1 (fst w) \<and> free_end h st1 (snd w)"
    using Cons.prems(4) fr unfolding wire_frame_def by (metis image_eqI list.set_intros(2) singletonD)
  from Cons.prems(2,3) have "distinct (map fst ws)" "distinct (map snd ws)" by simp_all
  from Cons.IH [OF s1(2) this rest] obtain st' where st': "for_each ws wire_one st1 = Some st'" "wiring h st'"
    "\<forall>w\<in>set ws. wired h st' w" and fr': "wire_frame h (fst ` set ws) (snd ` set ws) st1 st'" by blast
  have "wired h st' (e, d)" using fr' s1(3) x unfolding wire_frame_def by blast
  then show ?case
    using wire_frame_trans [OF fr fr'] st' s1(1) ed by auto
qed

section \<open>The wiring loops\<close>

lemma output_names:
  "ResourceServerOut_from_nat 0 = Some ResourceOut_HostRingBuffer"
  "SerialServerOut_from_nat 0 = Some (SerialOut_RingBuffer SerialRB_Host)"
  "SerialServerOut_from_nat (Suc 0) = Some (SerialOut_RingBuffer (SerialRB_Realm (EventRealmId 0)))"
  "SerialServerOut_from_nat (Suc (Suc 0)) = Some (SerialOut_RingBuffer (SerialRB_Realm (EventRealmId 1)))"
  "HostOut_from_nat 0 = Some (HostOut_RingBuffer (HostOutRB_Realm (EventRealmId 0) Net))"
  "HostOut_from_nat (Suc 0) = Some (HostOut_RingBuffer (HostOutRB_Realm (EventRealmId 1) Net))"
  "HostOut_from_nat (Suc (Suc 0)) = Some (HostOut_RingBuffer (HostOutRB_Realm (EventRealmId 0) Channel))"
  "HostOut_from_nat (Suc (Suc (Suc 0))) = Some (HostOut_RingBuffer (HostOutRB_Realm (EventRealmId 1) Channel))"
  "RealmOut_from_nat 0 = Some (RealmOut_RingBuffer (RealmOutRB_Host Net))"
  "RealmOut_from_nat (Suc 0) = Some (RealmOut_RingBuffer (RealmOutRB_Host Channel))"
  using ResourceServerOut_laws(2) [of ResourceOut_HostRingBuffer]
    SerialServerOut_laws(2) [of "SerialOut_RingBuffer SerialRB_Host"]
    SerialServerOut_laws(2) [of "SerialOut_RingBuffer (SerialRB_Realm (EventRealmId 0))"]
    SerialServerOut_laws(2) [of "SerialOut_RingBuffer (SerialRB_Realm (EventRealmId 1))"]
    HostOut_laws(2) [of "HostOut_RingBuffer (HostOutRB_Realm (EventRealmId 0) Net)"]
    HostOut_laws(2) [of "HostOut_RingBuffer (HostOutRB_Realm (EventRealmId 1) Net)"]
    HostOut_laws(2) [of "HostOut_RingBuffer (HostOutRB_Realm (EventRealmId 0) Channel)"]
    HostOut_laws(2) [of "HostOut_RingBuffer (HostOutRB_Realm (EventRealmId 1) Channel)"]
    RealmOut_laws(2) [of "RealmOut_RingBuffer (RealmOutRB_Host Net)"]
    RealmOut_laws(2) [of "RealmOut_RingBuffer (RealmOutRB_Host Channel)"]
  by (simp_all add: event_number_defs ResourceServerOut_to_nat_def SerialServerOut_to_nat_def SerialServerRingBuffer_to_nat_def
      HostOut_to_nat_def HostRingBufferOut_to_nat_def RealmOut_to_nat_def RealmRingBufferOut_to_nat_def)

lemma connect_host_wire: "connect_host e x st = wire_one (e, Inl (HostIn_to_nat x)) st"
  by (simp add: connect_host_def)

lemma wire_resource_server_eq:
  "out_space (resource_server st) = [a] \<Longrightarrow> wire_resource_server st = for_each [(a, Inl 989)] wire_one st"
  by (simp add: wire_resource_server_def output_names connect_host_wire event_numbers split: option.split del: wire_one.simps)

lemma wire_serial_server_eq:
  "out_space (serial_server st) = [a, b, c] \<Longrightarrow>
     wire_serial_server st = for_each [(a, Inl 990), (b, Inr (0, 2)), (c, Inr (1, 2))] wire_one st"
  by (simp add: wire_serial_server_def output_names connect_host_wire event_numbers split: option.split)

lemma wire_host_eq:
  "out_space (host st) = [a, b, c, d] \<Longrightarrow>
     wire_host st = for_each [(a, Inr (0, 0)), (b, Inr (1, 0)), (c, Inr (0, 1)), (d, Inr (1, 1))] wire_one st"
  by (simp add: wire_host_def output_names event_numbers split: option.split)

lemma wire_realm_eq:
  "inactive_realms st rid = Some ir \<Longrightarrow> rid < NUM_REALMS \<Longrightarrow> ir_out_space ir = [a, b] \<Longrightarrow>
     wire_realm rid st = for_each [(a, Inl (991 + rid)), (b, Inl (993 + rid))] wire_one st"
  by (simp add: wire_realm_def output_names connect_host_wire event_numbers EventRealmId_from_nat_def split: option.split del: wire_one.simps)

section \<open>Before the wiring\<close>

lemma mk_out_space_eq: "mk_out_space n st = ([length (st_events st)..<length (st_events st) + n],
    st\<lparr>st_events := st_events st @ replicate n \<lparr>ev_target = None, ev_irq = None\<rparr>\<rparr>)"
proof (induction n arbitrary: st)
  case 0
  then show ?case by simp
next
  case (Suc n)
  show ?case by (simp add: Suc.IH new_event_def Let_def upt_conv_Cons del: upt_Suc)
qed

text \<open>The server when all events, spaces and realms exist and nothing is connected.\<close>

definition unwired_server :: "nat \<Rightarrow> EventServerConfig \<Rightarrow> 'w \<Rightarrow> (nat \<Rightarrow> bitfield) \<Rightarrow> 'w EventServer" where
  "unwired_server cores cfg w bfs = (empty_server w bfs)\<lparr>
     st_events := replicate 12 \<lparr>ev_target = None, ev_irq = None\<rparr>,
     st_slots := replicate cores None,
     st_spaces := map (\<lambda>(k, node). \<lparr>sp_entries = replicate 995 None, sp_notification = node, sp_slot = k\<rparr>)
       (enumerate 0 (take cores (cfg_host_notifications cfg))),
     resource_server := \<lparr>out_space = [0], in_spaces = []\<rparr>,
     serial_server := \<lparr>out_space = [1, 2, 3], in_spaces = []\<rparr>,
     host := \<lparr>out_space = [4, 5, 6, 7], in_spaces = [0..<cores]\<rparr>,
     inactive_realms := [0 \<mapsto> \<lparr>ir_out_space = [8, 9], in_notifications = cfg_realm_notifications cfg ! 0, in_entries = replicate 3 None\<rparr>,
       1 \<mapsto> \<lparr>ir_out_space = [10, 11], in_notifications = cfg_realm_notifications cfg ! 1, in_entries = replicate 3 None\<rparr>]\<rparr>"

definition cfg_ok :: "nat \<Rightarrow> EventServerConfig \<Rightarrow> bool" where
  "cfg_ok cores cfg \<longleftrightarrow> 0 < cores \<and> cores \<le> length (cfg_host_notifications cfg) \<and> NUM_REALMS \<le> length (cfg_realm_notifications cfg)
     \<and> (\<forall>node\<in>set (cfg_host_notifications cfg). HostIn_CARDINALITY \<le> 64 * length (cn_nfn node))
     \<and> (\<forall>nodes\<in>set (cfg_realm_notifications cfg). \<forall>node\<in>set nodes. RealmIn_CARDINALITY \<le> 64 * length (cn_nfn node))
     \<and> distinct (map fst (cfg_irqs cfg)) \<and> (\<forall>x\<in>set (cfg_irqs cfg). fst x < 956)"

lemma realize_unwired:
  assumes "cfg_ok cores cfg"
  shows "realize K cores cfg (empty_server w bfs) = do {
     st \<leftarrow> wire_resource_server (unwired_server cores cfg w bfs);
     st \<leftarrow> wire_serial_server st;
     st \<leftarrow> wire_host st;
     st \<leftarrow> for_each [0..<NUM_REALMS] wire_realm st;
     let st = st\<lparr>resource_server_subscriptions :=
       map (\<lambda>n. \<lparr>sub_subscriber = Sub_Notification n, sub_slot = None\<rparr>) (cfg_resource_server_subscriptions cfg)\<rparr>;
     st \<leftarrow> for_each [0..<cores] mk_host_subscription st;
     for_each (cfg_irqs cfg) (mk_irq K) st }"
proof -
  have n: "cores \<le> length (cfg_host_notifications cfg)" "0 < length (cfg_realm_notifications cfg)" "1 < length (cfg_realm_notifications cfg)"
    using assms by (auto simp: cfg_ok_def NUM_REALMS_def)
  have l: "[0..<NUM_REALMS] = [0, 1]" by (simp add: NUM_REALMS_def upt_rec)
  have r: "replicate 12 x = replicate 1 x @ replicate 3 x @ replicate 4 x @ replicate 2 x @ replicate 2 x" for x :: Event
    using replicate_add [of 1 11 x] replicate_add [of 3 8 x] replicate_add [of 4 4 x] replicate_add [of 2 2 x] by simp
  have u: "[0..<Suc 0] = [0]" "[Suc 0..<4] = [1, 2, 3]" "[4..<8::nat] = [4, 5, 6, 7]" "[8..<10::nat] = [8, 9]" "[10..<12::nat] = [10, 11]"
    by (simp_all add: upt_rec)
  let ?blank = "unwired_server cores cfg w bfs"
  have "realize K cores cfg (empty_server w bfs) = do {
     st \<leftarrow> Some ?blank; st \<leftarrow> wire_resource_server st; st \<leftarrow> wire_serial_server st; st \<leftarrow> wire_host st;
     st \<leftarrow> for_each [0..<NUM_REALMS] wire_realm st;
     let st = st\<lparr>resource_server_subscriptions :=
       map (\<lambda>n. \<lparr>sub_subscriber = Sub_Notification n, sub_slot = None\<rparr>) (cfg_resource_server_subscriptions cfg)\<rparr>;
     st \<leftarrow> for_each [0..<cores] mk_host_subscription st;
     for_each (cfg_irqs cfg) (mk_irq K) st }"
    unfolding realize_def mk_out_space_eq create_in_spaces_eq event_cardinalities
    using n by (simp add: empty_server_def l rust_assert_def mk_inactive_def mk_out_space_eq event_cardinalities unwired_server_def r
        u min_def Let_def fun_upd_twist)
  then show ?thesis by simp
qed

lemma unwired_server_cells:
  assumes "cfg_ok cores cfg"
  shows "wf_cells (unwired_server cores cfg w bfs)"
proof -
  let ?st = "unwired_server cores cfg w bfs" and ?nodes = "take cores (cfg_host_notifications cfg)"
  have len: "length ?nodes = cores" using assms by (simp add: cfg_ok_def min_def)
  have "map sp_slot (st_spaces ?st) = [0..<cores]"
    using len by (intro nth_equalityI) (auto simp: unwired_server_def nth_enumerate_eq)
  moreover have "995 \<le> 64 * length (cn_nfn (?nodes ! s))" if "s < cores" for s
    using assms that by (simp add: cfg_ok_def event_cardinalities)
  ultimately show ?thesis
    using len by (auto simp: wf_cells_def Let_def unwired_server_def nth_enumerate_eq)
qed

lemma unwired_server_wiring:
  assumes ok: "cfg_ok cores cfg"
  shows "wiring 0 (unwired_server cores cfg w bfs)"
proof -
  let ?st = "unwired_server cores cfg w bfs"
  note cells = unwired_server_cells [OF ok, of w bfs]
  have len: "length (st_spaces ?st) = cores" using ok by (simp add: cfg_ok_def min_def unwired_server_def)
  have r: "0 < length (cfg_realm_notifications cfg)" "1 < length (cfg_realm_notifications cfg)"
    "\<forall>nodes\<in>set (cfg_realm_notifications cfg). \<forall>node\<in>set nodes. 3 \<le> 64 * length (cn_nfn node)"
    using ok by (auto simp: cfg_ok_def NUM_REALMS_def event_cardinalities)
  have "\<forall>x\<in>set (st_slots ?st). x = None" by (simp add: unwired_server_def)
  moreover have "es_wf ?st"
  proof (rule blank_wf [OF _ _ cells])
    show "\<forall>s\<in>set (in_spaces (host ?st)). s < length (st_spaces ?st)" unfolding len by (simp add: unwired_server_def)
    show "\<forall>rid ir. inactive_realms ?st rid = Some ir \<longrightarrow> in_entries ir = replicate RealmIn_CARDINALITY None
       \<and> (\<forall>node\<in>set (in_notifications ir). RealmIn_CARDINALITY \<le> 64 * length (cn_nfn node))"
      using r nth_mem [OF r(1)] nth_mem [OF r(2)] by (auto simp: unwired_server_def event_cardinalities split: if_splits)
    show "wf_outs ?st" by (auto simp: wf_outs_def unwired_server_def empty_server_def ran_def split: if_splits)
  qed (auto simp: unwired_server_def empty_server_def)
  moreover have "\<forall>s<length (st_spaces ?st). slot_of ?st s = None"
    using cells by (auto simp: wf_cells_def Let_def slot_of_def unwired_server_def)
  moreover have "0 < cores" using ok by (simp add: cfg_ok_def)
  ultimately show ?thesis by (simp add: wiring_def unwired_server_def empty_server_def PRIMARY_HOST_NODE_def vec_get_def)
qed

lemma unwired_server_free:
  assumes ok: "cfg_ok cores cfg"
  shows "e < 12 \<Longrightarrow> unwired (unwired_server cores cfg w bfs) e"
    "s < cores \<Longrightarrow> i < 995 \<Longrightarrow> get_entry s i (unwired_server cores cfg w bfs) = Some None"
    "rid < 2 \<Longrightarrow> i < 3 \<Longrightarrow> in_entry (unwired_server cores cfg w bfs) rid i = Some None"
proof -
  have len: "cores \<le> length (cfg_host_notifications cfg)" using ok by (simp add: cfg_ok_def)
  show "e < 12 \<Longrightarrow> unwired (unwired_server cores cfg w bfs) e"
    by (auto simp: unwired_def target_of_def realm_input_def unwired_server_def split: if_splits)
  show "s < cores \<Longrightarrow> i < 995 \<Longrightarrow> get_entry s i (unwired_server cores cfg w bfs) = Some None"
    using len by (simp add: get_entry_def unwired_server_def nth_enumerate_eq vec_get_def)
  show "rid < 2 \<Longrightarrow> i < 3 \<Longrightarrow> in_entry (unwired_server cores cfg w bfs) rid i = Some None"
    by (auto simp: in_entry_def unwired_server_def vec_get_def less_2_cases_iff)
qed

section \<open>The wired server\<close>

definition wires :: "(nat \<times> (nat + nat \<times> nat)) list" where
  "wires = [(0, Inl 989), (1, Inl 990), (2, Inr (0, 2)), (3, Inr (1, 2)),
     (4, Inr (0, 0)), (5, Inr (1, 0)), (6, Inr (0, 1)), (7, Inr (1, 1)),
     (8, Inl 991), (9, Inl 993), (10, Inl 992), (11, Inl 994)]"

lemma wire_one_clients: "wire_one w st = Some st' \<Longrightarrow>
    resource_server st' = resource_server st \<and> serial_server st' = serial_server st \<and> host st' = host st
    \<and> (\<forall>rid. map_option ir_out_space (inactive_realms st' rid) = map_option ir_out_space (inactive_realms st rid))"
  by (induction w st rule: wire_one.induct)
    (auto simp: connect_def set_entry_def set_event_def set_in_entry_def split: Option.bind_splits)

lemma wire_loop_clients:
  assumes "for_each ws wire_one st = Some st'"
  shows "resource_server st' = resource_server st" "serial_server st' = serial_server st" "host st' = host st"
    "map_option ir_out_space (inactive_realms st' rid) = map_option ir_out_space (inactive_realms st rid)"
proof -
  have "resource_server st' = resource_server st \<and> serial_server st' = serial_server st \<and> host st' = host st
    \<and> (\<forall>rid. map_option ir_out_space (inactive_realms st' rid) = map_option ir_out_space (inactive_realms st rid))"
    by (rule for_each_inv [OF assms, where P = "\<lambda>t. resource_server t = resource_server st \<and> serial_server t = serial_server st
      \<and> host t = host st \<and> (\<forall>rid. map_option ir_out_space (inactive_realms t rid) = map_option ir_out_space (inactive_realms st rid))"])
      (use wire_one_clients in \<open>simp, metis\<close>)
  then show "resource_server st' = resource_server st" "serial_server st' = serial_server st" "host st' = host st"
    "map_option ir_out_space (inactive_realms st' rid) = map_option ir_out_space (inactive_realms st rid)" by simp_all
qed

text \<open>The four wiring loops are one loop over \<open>wires\<close>.\<close>

lemma wiring_loops_eq:
  assumes o: "out_space (resource_server st) = [0]" "out_space (serial_server st) = [1, 2, 3]" "out_space (host st) = [4, 5, 6, 7]"
    "map_option ir_out_space (inactive_realms st 0) = Some [8, 9]" "map_option ir_out_space (inactive_realms st 1) = Some [10, 11]"
  shows "do { st \<leftarrow> wire_resource_server st; st \<leftarrow> wire_serial_server st; st \<leftarrow> wire_host st; for_each [0..<NUM_REALMS] wire_realm st }
    = for_each wires wire_one st"
proof -
  have w: "wires = [(0, Inl 989)] @ [(1, Inl 990), (2, Inr (0, 2)), (3, Inr (1, 2))] @ [(4, Inr (0, 0)), (5, Inr (1, 0)), (6, Inr (0, 1)), (7, Inr (1, 1))]
      @ [(8, Inl (991 + 0)), (9, Inl (993 + 0))] @ [(10, Inl (991 + 1)), (11, Inl (993 + 1))]" by (simp add: wires_def)
  have l: "for_each [0..<NUM_REALMS] wire_realm = (\<lambda>s. do { s \<leftarrow> wire_realm 0 s; wire_realm 1 s })"
    by (rule ext) (auto simp: NUM_REALMS_def upt_rec split: option.split)
  have chain: "for_each (xs @ ys) wire_one s = do { s \<leftarrow> for_each xs wire_one s; for_each ys wire_one s }" for xs ys and s :: "'a EventServer"
    by (simp add: for_each_append split: option.split)
  have realm: "wire_realm r s = for_each [(a, Inl (991 + r)), (b, Inl (993 + r))] wire_one s"
    if "map_option ir_out_space (inactive_realms s r) = Some [a, b]" "r < NUM_REALMS" for s :: "'a EventServer" and r a b
    using that wire_realm_eq [of s r _ a b] by auto
  show ?thesis
    unfolding w l chain wire_resource_server_eq [OF o(1)]
  proof (rule Option.bind_cong [OF refl])
    fix s1
    assume "for_each [(0, Inl 989)] wire_one st = Some s1"
    note c1 = wire_loop_clients [OF this]
    have e1: "wire_serial_server s1 = for_each [(1, Inl 990), (2, Inr (0, 2)), (3, Inr (1, 2))] wire_one s1"
      by (rule wire_serial_server_eq) (simp add: c1 o)
    show "do { s \<leftarrow> wire_serial_server s1; s \<leftarrow> wire_host s; s \<leftarrow> wire_realm 0 s; wire_realm 1 s } =
      do { s \<leftarrow> for_each [(1, Inl 990), (2, Inr (0, 2)), (3, Inr (1, 2))] wire_one s1;
        s \<leftarrow> for_each [(4, Inr (0, 0)), (5, Inr (1, 0)), (6, Inr (0, 1)), (7, Inr (1, 1))] wire_one s;
        s \<leftarrow> for_each [(8, Inl (991 + 0)), (9, Inl (993 + 0))] wire_one s;
        for_each [(10, Inl (991 + 1)), (11, Inl (993 + 1))] wire_one s }"
      unfolding e1
    proof (rule Option.bind_cong [OF refl])
      fix s2
      assume "for_each [(1, Inl 990), (2, Inr (0, 2)), (3, Inr (1, 2))] wire_one s1 = Some s2"
      note c2 = wire_loop_clients [OF this]
      have e2: "wire_host s2 = for_each [(4, Inr (0, 0)), (5, Inr (1, 0)), (6, Inr (0, 1)), (7, Inr (1, 1))] wire_one s2"
        by (rule wire_host_eq) (simp add: c1 c2 o)
      have e3: "wire_realm r s = for_each [(a, Inl (991 + r)), (b, Inl (993 + r))] wire_one s"
        if "for_each ws wire_one s2 = Some s" "map_option ir_out_space (inactive_realms st r) = Some [a, b]" "r < NUM_REALMS" for s ws r a b
        using that wire_loop_clients(4) [OF that(1), of r] c1(4) [of r] c2(4) [of r] by (intro realm) simp_all
      show "do { s \<leftarrow> wire_host s2; s \<leftarrow> wire_realm 0 s; wire_realm 1 s } =
        do { s \<leftarrow> for_each [(4, Inr (0, 0)), (5, Inr (1, 0)), (6, Inr (0, 1)), (7, Inr (1, 1))] wire_one s2;
          s \<leftarrow> for_each [(8, Inl (991 + 0)), (9, Inl (993 + 0))] wire_one s;
          for_each [(10, Inl (991 + 1)), (11, Inl (993 + 1))] wire_one s }"
        unfolding e2
      proof (rule Option.bind_cong [OF refl])
        fix s3
        assume 3: "for_each [(4, Inr (0, 0)), (5, Inr (1, 0)), (6, Inr (0, 1)), (7, Inr (1, 1))] wire_one s2 = Some s3"
        have e4: "wire_realm 0 s3 = for_each [(8, Inl (991 + 0)), (9, Inl (993 + 0))] wire_one s3"
          by (rule e3 [OF 3 o(4)]) (simp add: NUM_REALMS_def)
        show "do { s \<leftarrow> wire_realm 0 s3; wire_realm 1 s } = do { s \<leftarrow> for_each [(8, Inl (991 + 0)), (9, Inl (993 + 0))] wire_one s3;
            for_each [(10, Inl (991 + 1)), (11, Inl (993 + 1))] wire_one s }"
          unfolding e4
        proof (rule Option.bind_cong [OF refl])
          fix s4
          assume "for_each [(8, Inl (991 + 0)), (9, Inl (993 + 0))] wire_one s3 = Some s4"
          then have 4: "for_each ([(4, Inr (0, 0)), (5, Inr (1, 0)), (6, Inr (0, 1)), (7, Inr (1, 1))] @ [(8, Inl (991 + 0)), (9, Inl (993 + 0))]) wire_one s2 = Some s4"
            unfolding chain 3 by simp
          show "wire_realm 1 s4 = for_each [(10, Inl (991 + 1)), (11, Inl (993 + 1))] wire_one s4"
            by (rule e3 [OF 4 o(5)]) (simp add: NUM_REALMS_def)
        qed
      qed
    qed
  qed
qed

section \<open>Subscriptions and interrupts\<close>

lemma for_each_prefix:
  assumes "P [] s" and step: "\<And>ys y zs s. xs = ys @ y # zs \<Longrightarrow> P ys s \<Longrightarrow> \<exists>s'. f y s = Some s' \<and> P (ys @ [y]) s'"
  shows "\<exists>s'. for_each xs f s = Some s' \<and> P xs s'"
proof -
  have "\<exists>s'. for_each ys f s = Some s' \<and> P ys s'" if "xs = ys @ zs" for ys zs
    using that
  proof (induction ys arbitrary: zs rule: rev_induct)
    case Nil
    then show ?case using assms(1) by simp
  next
    case (snoc y ys)
    then obtain s1 where "for_each ys f s = Some s1" "P ys s1" by fastforce
    moreover have "\<exists>s'. f y s1 = Some s' \<and> P (ys @ [y]) s'" using step [of ys y zs s1] snoc.prems calculation(2) by simp
    ultimately show ?case by (auto simp: for_each_append)
  qed
  then show ?thesis by simp
qed

definition extends :: "'w EventServer \<Rightarrow> 'w EventServer \<Rightarrow> bool" where
  "extends st st' \<longleftrightarrow> resource_server st' = resource_server st \<and> serial_server st' = serial_server st \<and> host st' = host st
     \<and> realms st' = realms st \<and> inactive_realms st' = inactive_realms st
     \<and> resource_server_subscriptions st' = resource_server_subscriptions st
     \<and> length (st_events st) \<le> length (st_events st')
     \<and> (\<forall>e<length (st_events st). ev_irq (st_events st' ! e) = ev_irq (st_events st ! e))
     \<and> (\<forall>e p. target_of st e = Some p \<longrightarrow> target_of st' e = Some p)"

lemma extends_refl: "extends st st"
  by (simp add: extends_def)

lemma extends_trans: "extends a b \<Longrightarrow> extends b c \<Longrightarrow> extends a c"
  by (simp add: extends_def)

lemma connect_keeps_irq: "connect e s i st = Some st' \<Longrightarrow> map ev_irq (st_events st') = map ev_irq (st_events st)"
  by (auto simp: connect_def set_entry_def set_event_def vec_get_Some map_update list_update_id split: Option.bind_splits)
    (metis list_update_id map_update)

text \<open>A new event, connected to a free entry of the host.\<close>

lemma attach_step:
  assumes wf: "es_wf st" and s: "s \<in> host_spaces st" and g: "get_entry s i st = Some None" and ev: "ev_target ev = None"
  shows "\<exists>st'. connect (length (st_events st)) s i (snd (new_event ev st)) = Some st' \<and> es_wf st' \<and> extends st st'
    \<and> length (st_events st') = Suc (length (st_events st)) \<and> target_of st' (length (st_events st)) = Some (s, i)
    \<and> ev_irq (st_events st' ! length (st_events st)) = ev_irq ev
    \<and> (\<forall>rid. \<not> realm_input st' rid (length (st_events st)))
    \<and> (\<forall>p. p \<noteq> (s, i) \<longrightarrow> get_entry (fst p) (snd p) st' = get_entry (fst p) (snd p) st)
    \<and> host_subscriptions st' = host_subscriptions st \<and> irq_events st' = irq_events st"
proof -
  let ?e = "length (st_events st)"
  define st1 where "st1 = snd (new_event ev st)"
  have f1: "st1 = st\<lparr>st_events := st_events st @ [ev]\<rparr>" by (simp add: st1_def new_event_def)
  have v: "host_spaces st1 = host_spaces st" "realm_spaces st1 = realm_spaces st" "live st1 = live st" "realm_input st1 = realm_input st"
    "target_of st1 = target_of st" "entry_of st1 = entry_of st" "slot_of st1 = slot_of st" "get_entry a b st1 = get_entry a b st" for a b
    using ev by (auto simp: fun_eq_iff f1 host_spaces_def realm_spaces_def live_def realm_input_def target_of_def entry_of_def
        get_entry_def slot_of_def nth_append)
  have "wf_routes st" "wf_owner st" using wf by (simp_all add: es_wf_def)
  then have "wf_routes st1" "wf_owner st1" unfolding wf_routes_def wf_owner_def v .
  moreover have "wf_clients st1" using wf unfolding es_wf_def wf_clients_def v by (simp add: f1)
  moreover have "wf_outs st1" using wf unfolding es_wf_def wf_outs_def by (auto simp: f1 less_Suc_eq)
  moreover have "wf_inputs st1" using wf unfolding es_wf_def wf_inputs_def v by (auto simp: f1 less_Suc_eq)
  moreover have "wf_subs st1" using wf unfolding es_wf_def wf_subs_def v by (force simp: f1 less_Suc_eq)
  moreover have "wf_cells st1" using wf unfolding es_wf_def wf_cells_def by (simp add: f1)
  ultimately have wf1: "es_wf st1" by (simp add: es_wf_def)
  have new: "\<not> realm_input st rid ?e" for rid
    using wf unfolding es_wf_def wf_inputs_def realm_input_def by (metis less_irrefl)
  then have n: "?e < length (st_events st1)" "target_of st1 ?e = None" "get_entry s i st1 = Some None" "\<not> realm_input st1 rid ?e" for rid
    unfolding v using g by (simp_all add: f1 target_of_def)
  obtain st' where c: "connect ?e s i st1 = Some st'" "frame_rel st1 st'" "target_of st' = (target_of st1)(?e := Some (s, i))"
    "entry_of st' = (entry_of st1)((s, i) := Some ?e)" "\<forall>p. p \<noteq> (s, i) \<longrightarrow> get_entry (fst p) (snd p) st' = get_entry (fst p) (snd p) st1"
    by (rule connect_views [OF n(1-3)]) blast
  note f = frame_rel_fields [OF c(2)] and w = frame_rel_views [OF c(2)]
  have wf': "es_wf st'"
    by (rule connect_wf [OF wf1 c(2-4) n(2)]) (use n s v in \<open>auto simp: entry_of_def live_def\<close>)
  have m: "map ev_irq (st_events st') = map ev_irq (st_events st) @ [ev_irq ev]"
    using connect_keeps_irq [OF c(1)] by (simp add: f1)
  have l: "length (st_events st') = Suc ?e" using f by (simp add: f1)
  have irq: "ev_irq (st_events st' ! e) = (if e < ?e then ev_irq (st_events st ! e) else ev_irq ev)" if "e < Suc ?e" for e
    using arg_cong [OF m, of "\<lambda>xs. xs ! e"] that l by (auto simp: nth_append split: if_splits)
  have "extends st st'"
    unfolding extends_def using f irq l v(5) c(3) by (auto simp: f1 target_of_def split: if_splits)
  then show ?thesis
    using c(1,3,5) wf' l irq n(4) w f v(8) by (auto simp: f1 st1_def [symmetric])
qed

lemma rebind_wf:
  assumes wf: "es_wf st"
    and st': "st' = st\<lparr>st_world := w, irq_events := q, host_subscriptions := hs, resource_server_subscriptions := rs\<rparr>"
    and q: "\<forall>e\<in>ran q. e < length (st_events st)"
    and hs: "\<forall>x\<in>set hs. \<exists>e<length (st_events st). sub_subscriber x = Sub_Event e \<and> (\<forall>rid. \<not> realm_input st rid e)"
    and rs: "\<forall>x\<in>set rs. \<exists>n. sub_subscriber x = Sub_Notification n"
  shows "es_wf st'" "target_of st' = target_of st" "get_entry s i st' = get_entry s i st"
proof -
  have v: "host_spaces st' = host_spaces st" "realm_spaces st' = realm_spaces st" "live st' = live st" "realm_input st' = realm_input st"
    "target_of st' = target_of st" "entry_of st' = entry_of st" "slot_of st' = slot_of st" "get_entry a b st' = get_entry a b st" for a b
    by (auto simp: fun_eq_iff st' host_spaces_def realm_spaces_def live_def realm_input_def target_of_def entry_of_def get_entry_def slot_of_def)
  have "wf_routes st" "wf_owner st" using wf by (simp_all add: es_wf_def)
  then have "wf_routes st'" "wf_owner st'" unfolding wf_routes_def wf_owner_def v .
  then show "es_wf st'" using wf q hs rs unfolding es_wf_def wf_cells_def wf_clients_def wf_outs_def wf_inputs_def wf_subs_def v
    by (simp add: st')
  show "target_of st' = target_of st" "get_entry s i st' = get_entry s i st" by (simp_all add: v)
qed

definition subs_inv :: "nat \<Rightarrow> 'w EventServer \<Rightarrow> nat \<Rightarrow> 'w EventServer \<Rightarrow> bool" where
  "subs_inv cores base n st \<longleftrightarrow> es_wf st \<and> extends base st \<and> irq_events st = Map.empty \<and> length (host_subscriptions st) = n
     \<and> (\<forall>k<n. \<exists>e. host_subscriptions st ! k = \<lparr>sub_subscriber = Sub_Event e, sub_slot = None\<rparr> \<and> target_of st e = Some (k, 0))
     \<and> (\<forall>s. n \<le> s \<longrightarrow> s < cores \<longrightarrow> get_entry s 0 st = Some None)
     \<and> (\<forall>i. 0 < i \<longrightarrow> i < 989 \<longrightarrow> get_entry 0 i st = Some None)"

lemma subs_step:
  assumes i: "subs_inv cores base n st" and n: "n < cores" and h: "in_spaces (host base) = [0..<cores]"
  shows "\<exists>st'. mk_host_subscription n st = Some st' \<and> subs_inv cores base (Suc n) st'"
proof -
  have wf: "es_wf st" and ex: "extends base st" and g: "get_entry n 0 st = Some None" using i n by (auto simp: subs_inv_def)
  have hs: "in_spaces (host st) = [0..<cores]" using ex h by (simp add: extends_def)
  then have m: "n \<in> host_spaces st" using n by (simp add: host_spaces_def)
  let ?e = "length (st_events st)" and ?ev = "\<lparr>ev_target = None, ev_irq = None\<rparr>"
  obtain st1 where c: "connect ?e n 0 (snd (new_event ?ev st)) = Some st1" "es_wf st1" "extends st st1"
    "length (st_events st1) = Suc ?e" "target_of st1 ?e = Some (n, 0)" "\<forall>rid. \<not> realm_input st1 rid ?e"
    "\<forall>p. p \<noteq> (n, 0) \<longrightarrow> get_entry (fst p) (snd p) st1 = get_entry (fst p) (snd p) st"
    "host_subscriptions st1 = host_subscriptions st" "irq_events st1 = irq_events st"
    using attach_step [OF wf m g, of ?ev] by auto
  define st2 where "st2 = st1\<lparr>host_subscriptions := host_subscriptions st1 @ [\<lparr>sub_subscriber = Sub_Event ?e, sub_slot = None\<rparr>]\<rparr>"
  have run: "mk_host_subscription n st = Some st2"
    using c(1) hs n by (simp add: mk_host_subscription_def new_event_def event_numbers st2_def)
  have subs: "\<forall>x\<in>set (host_subscriptions st2). \<exists>e<length (st_events st1). sub_subscriber x = Sub_Event e \<and> (\<forall>rid. \<not> realm_input st1 rid e)"
    "\<forall>x\<in>set (resource_server_subscriptions st1). \<exists>n. sub_subscriber x = Sub_Notification n" "\<forall>e\<in>ran (irq_events st1). e < length (st_events st1)"
    using c(2,4,6) by (auto simp: st2_def es_wf_def wf_subs_def wf_outs_def)
  have eq: "st2 = st1\<lparr>st_world := st_world st1, irq_events := irq_events st1, host_subscriptions := host_subscriptions st2,
      resource_server_subscriptions := resource_server_subscriptions st1\<rparr>" by (simp add: st2_def)
  note r = rebind_wf [OF c(2) eq subs(3,1,2)]
  have "extends base st2" using extends_trans [OF ex c(3)] r(2) by (simp add: extends_def st2_def)
  moreover have "\<forall>k<Suc n. \<exists>e. host_subscriptions st2 ! k = \<lparr>sub_subscriber = Sub_Event e, sub_slot = None\<rparr> \<and> target_of st2 e = Some (k, 0)"
  proof (intro allI impI)
    fix k
    assume "k < Suc n"
    then consider "k = n" | "k < n" by linarith
    then show "\<exists>e. host_subscriptions st2 ! k = \<lparr>sub_subscriber = Sub_Event e, sub_slot = None\<rparr> \<and> target_of st2 e = Some (k, 0)"
    proof cases
      case 1
      then show ?thesis using i c(5,8) by (simp add: r(2)) (simp add: st2_def subs_inv_def nth_append)
    next
      case 2
      then obtain e where e: "host_subscriptions st ! k = \<lparr>sub_subscriber = Sub_Event e, sub_slot = None\<rparr>" "target_of st e = Some (k, 0)"
        using i by (auto simp: subs_inv_def)
      have "target_of st1 e = Some (k, 0)" using c(3) e(2) by (simp add: extends_def)
      moreover have "length (host_subscriptions st) = n" using i by (simp add: subs_inv_def)
      ultimately show ?thesis using e(1) 2 c(8) by (simp add: r(2)) (simp add: st2_def nth_append)
    qed
  qed
  moreover have "get_entry s 0 st2 = Some None" if "Suc n \<le> s" "s < cores" for s
    using that i spec [OF c(7), of "(s, 0)"] r(3) by (simp add: subs_inv_def)
  moreover have "get_entry 0 j st2 = Some None" if "0 < j" "j < 989" for j
    using that i spec [OF c(7), of "(0, j)"] r(3) by (simp add: subs_inv_def)
  moreover have "irq_events st2 = Map.empty" "length (host_subscriptions st2) = Suc n"
    using i c(8,9) by (simp_all add: st2_def subs_inv_def)
  ultimately show ?thesis using run r(1) unfolding subs_inv_def by blast
qed

definition irqs_inv :: "'w EventServer \<Rightarrow> (nat \<times> nat \<times> nat list) list \<Rightarrow> 'w EventServer \<Rightarrow> bool" where
  "irqs_inv base ys st \<longleftrightarrow> es_wf st \<and> extends base st \<and> host_subscriptions st = host_subscriptions base
     \<and> (\<forall>irq handler nfns. (irq, handler, nfns) \<in> set ys \<longrightarrow> (\<exists>e<length (st_events st). irq_events st irq = Some e \<and> target_of st e = Some (0, irq + 33)
          \<and> ev_irq (st_events st ! e) = Some \<lparr>irq_handler = handler, irq_notifications = nfns\<rparr>))
     \<and> (\<forall>i. 0 < i \<longrightarrow> i < 989 \<longrightarrow> i \<notin> (\<lambda>y. fst y + 33) ` set ys \<longrightarrow> get_entry 0 i st = Some None)"

lemma irqs_step:
  assumes i: "irqs_inv base ys st" and x: "irq \<notin> fst ` set ys" "irq < 956"
    and ack: "\<forall>w. \<exists>w'. k_irq_ack K w handler = (Inr (), w')" and h: "vec_get (in_spaces (host base)) PRIMARY_HOST_NODE = Some 0"
  shows "\<exists>st'. mk_irq K (irq, handler, nfns) st = Some st' \<and> irqs_inv base (ys @ [(irq, handler, nfns)]) st'"
proof -
  have "irq + 33 \<notin> (\<lambda>y. fst y + 33) ` set ys" using x(1) by force
  then have g: "get_entry 0 (irq + 33) st = Some None" using i x(2) by (simp add: irqs_inv_def)
  have wf: "es_wf st" and ex: "extends base st" using i by (simp_all add: irqs_inv_def)
  obtain w where w: "k_irq_ack K (st_world st) handler = (Inr (), w)" using ack by blast
  define st0 where "st0 = st\<lparr>st_world := w\<rparr>"
  have eq0: "st0 = st\<lparr>st_world := w, irq_events := irq_events st, host_subscriptions := host_subscriptions st,
      resource_server_subscriptions := resource_server_subscriptions st\<rparr>" by (simp add: st0_def)
  note r0 = rebind_wf [OF wf eq0]
  have wf0: "es_wf st0" using wf by (intro r0(1)) (auto simp: es_wf_def wf_outs_def wf_subs_def)
  have v0: "target_of st0 = target_of st" "get_entry a b st0 = get_entry a b st" for a b
    by (simp_all add: st0_def fun_eq_iff target_of_def get_entry_def)
  have hs: "vec_get (in_spaces (host st0)) PRIMARY_HOST_NODE = Some 0" using ex h by (simp add: extends_def st0_def)
  then have m: "0 \<in> host_spaces st0" unfolding host_spaces_def vec_get_Some by (metis nth_mem)
  have g0: "get_entry 0 (irq + 33) st0 = Some None" using g by (simp add: v0)
  let ?e = "length (st_events st0)" and ?ev = "\<lparr>ev_target = None, ev_irq = Some \<lparr>irq_handler = handler, irq_notifications = nfns\<rparr>\<rparr>"
  obtain st1 where c: "connect ?e 0 (irq + 33) (snd (new_event ?ev st0)) = Some st1" "es_wf st1" "extends st0 st1"
    "length (st_events st1) = Suc ?e" "target_of st1 ?e = Some (0, irq + 33)" "ev_irq (st_events st1 ! ?e) = ev_irq ?ev"
    "\<forall>p. p \<noteq> (0, irq + 33) \<longrightarrow> get_entry (fst p) (snd p) st1 = get_entry (fst p) (snd p) st0"
    "host_subscriptions st1 = host_subscriptions st0" "irq_events st1 = irq_events st0"
    using attach_step [OF wf0 m g0, of ?ev] by auto
  define st2 where "st2 = st1\<lparr>irq_events := (irq_events st1)(irq \<mapsto> ?e)\<rparr>"
  have run: "mk_irq K (irq, handler, nfns) st = Some st2"
    using c(1) hs w x(2) by (simp add: mk_irq_def new_event_def connect_host_def spi_number st2_def st0_def)
  have q: "\<forall>e\<in>ran (irq_events st2). e < length (st_events st1)"
    using c(2,4) by (auto simp: st2_def es_wf_def wf_outs_def ran_def)
  have subs: "\<forall>x\<in>set (host_subscriptions st1). \<exists>e<length (st_events st1). sub_subscriber x = Sub_Event e \<and> (\<forall>rid. \<not> realm_input st1 rid e)"
    "\<forall>x\<in>set (resource_server_subscriptions st1). \<exists>n. sub_subscriber x = Sub_Notification n" using c(2) by (auto simp: es_wf_def wf_subs_def)
  have eq: "st2 = st1\<lparr>st_world := st_world st1, irq_events := irq_events st2, host_subscriptions := host_subscriptions st1,
      resource_server_subscriptions := resource_server_subscriptions st1\<rparr>" by (simp add: st2_def)
  note r = rebind_wf [OF c(2) eq q subs]
  have e01: "extends st st1" using c(3) v0(1) by (simp add: extends_def st0_def)
  then have "extends base st2" using extends_trans [OF ex e01] r(2) by (simp add: extends_def st2_def)
  moreover have "\<exists>e<length (st_events st2). irq_events st2 a = Some e \<and> target_of st2 e = Some (0, a + 33)
      \<and> ev_irq (st_events st2 ! e) = Some \<lparr>irq_handler = b, irq_notifications = d\<rparr>"
    if "(a, b, d) \<in> set (ys @ [(irq, handler, nfns)])" for a b d
  proof (cases "(a, b, d) \<in> set ys")
    case True
    then obtain e where e: "e < length (st_events st)" "irq_events st a = Some e" "target_of st e = Some (0, a + 33)"
      "ev_irq (st_events st ! e) = Some \<lparr>irq_handler = b, irq_notifications = d\<rparr>" using i unfolding irqs_inv_def by blast
    have "a \<noteq> irq" using True x(1) by force
    moreover have "target_of st1 e = Some (0, a + 33)" "ev_irq (st_events st1 ! e) = ev_irq (st_events st ! e)" "e < length (st_events st1)"
      using e01 e(1,3) by (simp_all add: extends_def)
    ultimately show ?thesis using e(2,4) c(9) by (intro exI [of _ e]) (simp add: r(2), simp add: st2_def st0_def)
  next
    case False
    then show ?thesis using that c(4-6) by (intro exI [of _ ?e]) (simp add: r(2), simp add: st2_def)
  qed
  moreover have "get_entry 0 j st2 = Some None" if "0 < j" "j < 989" "j \<notin> (\<lambda>y. fst y + 33) ` set (ys @ [(irq, handler, nfns)])" for j
    using that i spec [OF c(7), of "(0, j)"] r(3) v0(2) by (auto simp: irqs_inv_def)
  moreover have "host_subscriptions st2 = host_subscriptions base" using i c(8) by (simp add: st2_def st0_def irqs_inv_def)
  ultimately show ?thesis using run r(1) unfolding irqs_inv_def by blast
qed

section \<open>Start-up succeeds\<close>

lemma wires_ok:
  assumes ok: "cfg_ok cores cfg"
  obtains st where "for_each wires wire_one (unwired_server cores cfg w bfs) = Some st" "wiring 0 st" "\<forall>x\<in>set wires. wired 0 st x"
    "wire_frame 0 (fst ` set wires) (snd ` set wires) (unwired_server cores cfg w bfs) st"
proof -
  have c: "0 < cores" using ok by (simp add: cfg_ok_def)
  have d: "distinct (map fst wires)" "distinct (map snd wires)" by (simp_all add: wires_def)
  define b where "b = unwired_server cores cfg w bfs"
  have u: "e < 12 \<Longrightarrow> unwired b e" "i < 995 \<Longrightarrow> get_entry 0 i b = Some None" "rid < 2 \<Longrightarrow> i < 3 \<Longrightarrow> in_entry b rid i = Some None" for e i rid
    unfolding b_def using unwired_server_free [OF ok, where w = w and bfs = bfs] c by blast+
  have f: "\<forall>x\<in>set wires. unwired b (fst x) \<and> free_end 0 b (snd x)"
    by (simp add: wires_def u)
  from wire_loop [OF unwired_server_wiring [OF ok] d f [unfolded b_def]] show ?thesis by (elim exE conjE) (rule that)
qed

text \<open>What start-up leaves: the invariant and all connections.\<close>

definition es_started :: "nat \<Rightarrow> EventServerConfig \<Rightarrow> 'w EventServer \<Rightarrow> bool" where
  "es_started cores cfg st \<longleftrightarrow> es_wf st \<and> realms st = Map.empty \<and> in_spaces (host st) = [0..<cores]
     \<and> out_space (resource_server st) = [0] \<and> out_space (serial_server st) = [1, 2, 3] \<and> out_space (host st) = [4, 5, 6, 7]
     \<and> map_option ir_out_space (inactive_realms st 0) = Some [8, 9] \<and> map_option ir_out_space (inactive_realms st 1) = Some [10, 11]
     \<and> map_option in_notifications (inactive_realms st 0) = Some (cfg_realm_notifications cfg ! 0)
     \<and> map_option in_notifications (inactive_realms st 1) = Some (cfg_realm_notifications cfg ! 1)
     \<and> (\<forall>x\<in>set wires. wired 0 st x)
     \<and> resource_server_subscriptions st = map (\<lambda>n. \<lparr>sub_subscriber = Sub_Notification n, sub_slot = None\<rparr>) (cfg_resource_server_subscriptions cfg)
     \<and> length (host_subscriptions st) = cores
     \<and> (\<forall>k<cores. \<exists>e. host_subscriptions st ! k = \<lparr>sub_subscriber = Sub_Event e, sub_slot = None\<rparr> \<and> target_of st e = Some (k, 0))
     \<and> (\<forall>irq handler nfns. (irq, handler, nfns) \<in> set (cfg_irqs cfg) \<longrightarrow> (\<exists>e<length (st_events st). irq_events st irq = Some e
          \<and> target_of st e = Some (0, irq + 33) \<and> ev_irq (st_events st ! e) = Some \<lparr>irq_handler = handler, irq_notifications = nfns\<rparr>))
     \<and> (\<forall>i. 0 < i \<longrightarrow> i < 989 \<longrightarrow> i \<notin> (\<lambda>y. fst y + 33) ` set (cfg_irqs cfg) \<longrightarrow> get_entry 0 i st = Some None)"

lemma realize_ok:
  assumes ok: "cfg_ok cores cfg"
    and ack: "\<forall>irq handler nfns. (irq, handler, nfns) \<in> set (cfg_irqs cfg) \<longrightarrow> (\<forall>w. \<exists>w'. k_irq_ack K w handler = (Inr (), w'))"
  shows "\<exists>st. realize K cores cfg (empty_server w bfs) = Some st \<and> es_started cores cfg st"
proof -
  let ?blank = "unwired_server cores cfg w bfs"
  obtain st1 where s1: "for_each wires wire_one ?blank = Some st1" "wiring 0 st1" "\<forall>x\<in>set wires. wired 0 st1 x"
    and fr: "wire_frame 0 (fst ` set wires) (snd ` set wires) ?blank st1" by (rule wires_ok [OF ok])
  have sc: "same_clients ?blank st1" using fr by (simp add: wire_frame_def)
  have cl: "in_spaces (host st1) = [0..<cores]" "out_space (resource_server st1) = [0]" "out_space (serial_server st1) = [1, 2, 3]"
    "out_space (host st1) = [4, 5, 6, 7]" "map_option ir_out_space (inactive_realms st1 0) = Some [8, 9]"
    "map_option ir_out_space (inactive_realms st1 1) = Some [10, 11]"
    "map_option in_notifications (inactive_realms st1 0) = Some (cfg_realm_notifications cfg ! 0)"
    "map_option in_notifications (inactive_realms st1 1) = Some (cfg_realm_notifications cfg ! 1)"
    using sc unfolding same_clients_def by (simp_all add: unwired_server_def)
  define st2 where "st2 = st1\<lparr>resource_server_subscriptions :=
       map (\<lambda>n. \<lparr>sub_subscriber = Sub_Notification n, sub_slot = None\<rparr>) (cfg_resource_server_subscriptions cfg)\<rparr>"
  have w1: "es_wf st1" "realms st1 = Map.empty" "host_subscriptions st1 = []" "irq_events st1 = Map.empty" using s1(2) by (auto simp: wiring_def)
  have eq2: "st2 = st1\<lparr>st_world := st_world st1, irq_events := irq_events st1, host_subscriptions := host_subscriptions st1,
      resource_server_subscriptions := resource_server_subscriptions st2\<rparr>" by (simp add: st2_def)
  note r2 = rebind_wf [OF w1(1) eq2, unfolded w1(3,4)]
  have free: "get_entry s i st1 = Some None" if "s < cores" "i < 989" for s i
  proof -
    have b: "get_entry s i ?blank = Some None" using that by (intro unwired_server_free [OF ok]) auto
    show ?thesis
    proof (cases "s = 0")
      case True
      have "Inl i \<notin> snd ` set wires" using that by (simp add: wires_def)
      then show ?thesis using fr b True unfolding wire_frame_def by (metis free_end.simps(1))
    next
      case False
      have "hd (in_spaces (host ?blank)) = 0" using that by (simp add: unwired_server_def upt_rec)
      then show ?thesis using sc b False by (simp add: same_clients_def)
    qed
  qed
  have "0 < cores" using ok by (simp add: cfg_ok_def)
  then have inv0: "subs_inv cores st2 (length []) st2"
    using r2 free w1(3,4) by (auto simp: subs_inv_def extends_refl st2_def)
  have "\<exists>st3. for_each [0..<cores] mk_host_subscription st2 = Some st3 \<and> subs_inv cores st2 (length [0..<cores]) st3"
  proof (rule for_each_prefix [where P = "\<lambda>ys. subs_inv cores st2 (length ys)", OF inv0])
    fix ys y zs s
    assume a: "[0..<cores] = ys @ y # zs" "subs_inv cores st2 (length ys) s"
    have "[0..<cores] ! length ys = y" unfolding a(1) by simp
    moreover have "length ys < cores" using arg_cong [OF a(1), of length] by simp
    ultimately have "y = length ys" by simp
    then show "\<exists>s'. mk_host_subscription y s = Some s' \<and> subs_inv cores st2 (length (ys @ [y])) s'"
      using subs_step [OF a(2) \<open>length ys < cores\<close>] cl(1) by (simp add: st2_def)
  qed
  then obtain st3 where s3: "for_each [0..<cores] mk_host_subscription st2 = Some st3" "subs_inv cores st2 cores st3" by auto
  have x3: "extends st2 st3" using s3(2) by (simp add: subs_inv_def)
  have h3: "vec_get (in_spaces (host st3)) PRIMARY_HOST_NODE = Some 0"
    using x3 cl(1) \<open>0 < cores\<close> by (simp add: extends_def st2_def PRIMARY_HOST_NODE_def vec_get_def)
  have "irqs_inv st3 [] st3" using s3(2) by (simp add: subs_inv_def irqs_inv_def extends_refl)
  then have "\<exists>st4. for_each (cfg_irqs cfg) (mk_irq K) st3 = Some st4 \<and> irqs_inv st3 (cfg_irqs cfg) st4"
  proof (rule for_each_prefix)
    fix ys y zs s
    assume a: "cfg_irqs cfg = ys @ y # zs" "irqs_inv st3 ys s"
    obtain irq handler nfns where y: "y = (irq, handler, nfns)" by (cases y)
    have "irq \<notin> fst ` set ys" "irq < 956" using ok a(1) y by (auto simp: cfg_ok_def)
    moreover have "\<forall>w. \<exists>w'. k_irq_ack K w handler = (Inr (), w')" using ack a(1) y by simp
    ultimately show "\<exists>s'. mk_irq K y s = Some s' \<and> irqs_inv st3 (ys @ [y]) s'" using irqs_step [OF a(2) _ _ _ h3] y by blast
  qed
  then obtain st4 where s4: "for_each (cfg_irqs cfg) (mk_irq K) st3 = Some st4" "irqs_inv st3 (cfg_irqs cfg) st4" by blast
  have "do { st \<leftarrow> wire_resource_server ?blank; st \<leftarrow> wire_serial_server st; st \<leftarrow> wire_host st; for_each [0..<NUM_REALMS] wire_realm st } = Some st1"
    unfolding s1(1) [symmetric] by (rule wiring_loops_eq) (simp_all add: unwired_server_def)
  then have run: "realize K cores cfg (empty_server w bfs) = Some st4"
    unfolding realize_unwired [OF ok] using s3(1) s4(1) by (auto simp: st2_def split: Option.bind_splits)
  have x4: "extends st2 st4" "extends st3 st4" using extends_trans [OF x3] s4(2) by (simp_all add: irqs_inv_def)
  have "wired 0 st4 x" if "x \<in> set wires" for x
  proof -
    have "target_of st2 = target_of st1" by (simp add: st2_def fun_eq_iff target_of_def)
    then have "wired 0 st2 x"
      using bspec [OF s1(3) that] by (cases x; cases "snd x") (auto simp: in_entry_def st2_def)
    then show ?thesis using x4(1) by (cases x; cases "snd x") (auto simp: extends_def in_entry_def)
  qed
  moreover have "\<exists>e. host_subscriptions st4 ! k = \<lparr>sub_subscriber = Sub_Event e, sub_slot = None\<rparr> \<and> target_of st4 e = Some (k, 0)"
    if k: "k < cores" for k
  proof -
    obtain e where "host_subscriptions st3 ! k = \<lparr>sub_subscriber = Sub_Event e, sub_slot = None\<rparr>" "target_of st3 e = Some (k, 0)"
      using k s3(2) unfolding subs_inv_def by blast
    then show ?thesis using x4(2) s4(2) by (auto simp: extends_def irqs_inv_def)
  qed
  moreover have "length (host_subscriptions st4) = cores" using s3(2) s4(2) by (simp add: subs_inv_def irqs_inv_def)
  ultimately have "es_started cores cfg st4"
    using s4(2) x4(1) cl w1(2) unfolding es_started_def irqs_inv_def by (simp add: extends_def st2_def)
  with run show ?thesis by blast
qed

end
