(* ===== verification/EventServerReach.thy ===== *)
theory EventServerReach
  imports EventServerInit
begin

text \<open>
  The event server from start-up on: what start-up connects, and the routing invariant of every state
  that messages, interrupts and the clients' reads of their bitfields lead to. The last section applies
  the theorems on a server that was started from a small configuration.
\<close>

section \<open>Start-up\<close>

text \<open>
  C3. Start-up of the event server never panics on a configuration with a notification per core and
  realm, enough of them for the event spaces, and distinct interrupts below 956, and it connects every
  output to the input that names its peer: the ring buffers of the servers and of the realms to the
  host's primary node, those towards a realm to the entries the realm will have, each node's
  subscription to its realm event, and each interrupt to its shared interrupt.
\<close>

theorem realize_wires:
  assumes ok: "cfg_ok cores cfg"
    and ack: "\<forall>irq handler nfns. (irq, handler, nfns) \<in> set (cfg_irqs cfg) \<longrightarrow> (\<forall>w. \<exists>w'. k_irq_ack K w handler = (Inr (), w'))"
  shows "\<exists>st. realize K cores cfg (empty_server w bfs) = Some st \<and> es_wf st \<and> realms st = Map.empty
    \<and> target_of st (out_space (resource_server st) ! ResourceServerOut_to_nat ResourceOut_HostRingBuffer)
        = Some (0, HostIn_to_nat (HostIn_RingBuffer HostRB_ResourceServer))
    \<and> target_of st (out_space (serial_server st) ! SerialServerOut_to_nat (SerialOut_RingBuffer SerialRB_Host))
        = Some (0, HostIn_to_nat (HostIn_RingBuffer HostRB_SerialServer))
    \<and> (\<forall>r<NUM_REALMS. in_entry st r (RealmIn_to_nat (RealmIn_RingBuffer RealmRB_SerialServer))
        = Some (Some (out_space (serial_server st) ! SerialServerOut_to_nat (SerialOut_RingBuffer (SerialRB_Realm (EventRealmId r))))))
    \<and> (\<forall>r<NUM_REALMS. \<forall>rb. in_entry st r (RealmIn_to_nat (RealmIn_RingBuffer (RealmRB_Host rb)))
        = Some (Some (out_space (host st) ! HostOut_to_nat (HostOut_RingBuffer (HostOutRB_Realm (EventRealmId r) rb)))))
    \<and> (\<forall>r<NUM_REALMS. \<forall>rb. \<exists>ir. inactive_realms st r = Some ir \<and> target_of st (ir_out_space ir ! RealmOut_to_nat (RealmOut_RingBuffer (RealmOutRB_Host rb)))
        = Some (0, HostIn_to_nat (HostIn_RingBuffer (HostRB_Realm (EventRealmId r) rb))))
    \<and> (\<forall>k<cores. \<exists>e. host_subscriptions st ! k = \<lparr>sub_subscriber = Sub_Event e, sub_slot = None\<rparr>
        \<and> target_of st e = Some (k, HostIn_to_nat HostIn_RealmEvent))
    \<and> (\<forall>irq handler nfns. (irq, handler, nfns) \<in> set (cfg_irqs cfg) \<longrightarrow> (\<exists>e. irq_events st irq = Some e
        \<and> target_of st e = Some (0, HostIn_to_nat (HostIn_SPI (EventSPI irq)))))"
proof -
  obtain st where run: "realize K cores cfg (empty_server w bfs) = Some st" and s: "es_started cores cfg st"
    using realize_ok [OF ok ack] by blast
  have w: "\<forall>x\<in>set wires. wired 0 st x" and o: "out_space (resource_server st) = [0]" "out_space (serial_server st) = [1, 2, 3]"
    "out_space (host st) = [4, 5, 6, 7]" using s by (simp_all add: es_started_def)
  obtain i0 i1 where ir: "inactive_realms st 0 = Some i0" "inactive_realms st (Suc 0) = Some i1" "ir_out_space i0 = [8, 9]" "ir_out_space i1 = [10, 11]"
    using s by (auto simp: es_started_def)
  have n: "ResourceServerOut_to_nat ResourceOut_HostRingBuffer = 0" "SerialServerOut_to_nat (SerialOut_RingBuffer SerialRB_Host) = 0"
    "SerialServerOut_to_nat (SerialOut_RingBuffer (SerialRB_Realm (EventRealmId r))) = Suc r"
    "HostOut_to_nat (HostOut_RingBuffer (HostOutRB_Realm (EventRealmId r) Net)) = r"
    "HostOut_to_nat (HostOut_RingBuffer (HostOutRB_Realm (EventRealmId r) Channel)) = r + 2"
    "RealmOut_to_nat (RealmOut_RingBuffer (RealmOutRB_Host Net)) = 0" "RealmOut_to_nat (RealmOut_RingBuffer (RealmOutRB_Host Channel)) = 1" for r
    by (simp_all add: event_number_defs ResourceServerOut_to_nat_def SerialServerOut_to_nat_def SerialServerRingBuffer_to_nat_def
      HostOut_to_nat_def HostRingBufferOut_to_nat_def RealmOut_to_nat_def RealmRingBufferOut_to_nat_def)
  have "in_entry st r (RealmIn_to_nat (RealmIn_RingBuffer (RealmRB_Host rb)))
      = Some (Some ([4, 5, 6, 7] ! HostOut_to_nat (HostOut_RingBuffer (HostOutRB_Realm (EventRealmId r) rb))))"
    "\<exists>ir. inactive_realms st r = Some ir \<and> target_of st (ir_out_space ir ! RealmOut_to_nat (RealmOut_RingBuffer (RealmOutRB_Host rb)))
      = Some (0, HostIn_to_nat (HostIn_RingBuffer (HostRB_Realm (EventRealmId r) rb)))"
    "in_entry st r 2 = Some (Some ([1, 2, 3] ! Suc r))" if "r < NUM_REALMS" for r rb
    using that w ir by (cases rb; auto simp: NUM_REALMS_def less_2_cases_iff n event_numbers wires_def)+
  moreover have "irq < 956" if "(irq, handler, nfns) \<in> set (cfg_irqs cfg)" for irq handler nfns using ok that by (auto simp: cfg_ok_def)
  then have "\<exists>e. irq_events st irq = Some e \<and> target_of st e = Some (0, HostIn_to_nat (HostIn_SPI (EventSPI irq)))"
    if "(irq, handler, nfns) \<in> set (cfg_irqs cfg)" for irq handler nfns
    using s that by (fastforce simp: es_started_def spi_number)
  ultimately show ?thesis
    using run s w unfolding es_started_def by (intro exI [of _ st]) (simp add: n event_numbers wires_def o)
qed

section \<open>Reachable servers\<close>

text \<open>The moves that the invariant needs to exclude: onto an entry that is in use.\<close>

definition move_free :: "Badges \<Rightarrow> u64 \<Rightarrow> es_message \<Rightarrow> 'w EventServer \<Rightarrow> bool" where
  "move_free badges badge msg st \<longleftrightarrow> (case msg_client msg of
     Client_Move src_nid src_index dst_nid dst_index \<Rightarrow>
       \<forall>cid c dst. vec_get (client_badges badges) (unat (badge AND NOT BADGE_TYPE_MASK)) = Some cid \<longrightarrow> client_of cid st = Some c \<longrightarrow>
         vec_get (in_spaces c) dst_nid = Some dst \<longrightarrow> get_entry dst dst_index st = Some None
   | _ \<Rightarrow> True)"

inductive es_reach :: "('w, 'e) es_kernel \<Rightarrow> Badges \<Rightarrow> nat list \<Rightarrow> 'w EventServer \<Rightarrow> bool" for K badges irqs where
  start: "cfg_ok cores cfg \<Longrightarrow>
    \<forall>irq handler nfns. (irq, handler, nfns) \<in> set (cfg_irqs cfg) \<longrightarrow> (\<forall>w. \<exists>w'. k_irq_ack K w handler = (Inr (), w')) \<Longrightarrow>
    realize K cores cfg (empty_server w bfs) = Some st \<Longrightarrow> es_reach K badges irqs st"
| message: "es_reach K badges irqs st \<Longrightarrow> move_free badges badge msg st \<Longrightarrow>
    es_run_step K badges badge msg st = Some (r, st') \<Longrightarrow> es_reach K badges irqs st'"
| interrupt: "es_reach K badges irqs st \<Longrightarrow> irq_thread_step K irqs badge st = Some st' \<Longrightarrow> es_reach K badges irqs st'"
| collect: "es_reach K badges irqs st \<Longrightarrow> es_reach K badges irqs (st\<lparr>st_bitfields := bfs, st_world := w\<rparr>)"

lemma event_signal_rel: "event_signal K e st = Some st' \<Longrightarrow> sig_rel st st'"
  by (auto simp: event_signal_def sig_rel_refl split: Option.bind_splits option.splits intro: in_space_signal_rel)

lemma event_signal_wf: "event_signal K e st = Some st' \<Longrightarrow> es_wf st \<Longrightarrow> es_wf st'"
  by (rule sig_rel_wf [OF event_signal_rel])

lemma event_signal_total:
  assumes wf: "es_wf st" and e: "e < length (st_events st)"
  shows "\<exists>st'. event_signal K e st = Some st'"
proof (cases "target_of st e")
  case None
  then show ?thesis using e by (simp add: event_signal_def target_of_def)
next
  case (Some p)
  then show ?thesis using event_signal_in [OF wf, of e "fst p" "snd p" K] by auto
qed

lemma client_of_is_client: "client_of cid st = Some c \<Longrightarrow> es_wf st \<Longrightarrow> is_client st c \<or> in_spaces c = []"
  by (cases cid) (auto simp: is_client_def es_wf_def wf_clients_def)

lemma handle_client_wf:
  assumes wf: "es_wf st" and c: "client_of cid st = Some c" and h: "handle_client K c call st = Some (r, st')"
    and f: "\<And>a b d i dst. call = Client_Move a b d i \<Longrightarrow> vec_get (in_spaces c) d = Some dst \<Longrightarrow> get_entry dst i st = Some None"
  shows "es_wf st'"
proof (cases call)
  case (Client_Signal index)
  then show ?thesis
    using h event_signal_wf [OF _ wf] by (auto simp: es_ok_unit_def client_signal_def split: Option.bind_splits)
next
  case (Client_End nid index)
  then show ?thesis using h sig_rel_wf [OF in_space_end_rel wf] by (auto simp: client_end_def split: Option.bind_splits)
next
  case (Client_Configure nid index action)
  then show ?thesis
    using h configure_wf [OF _ wf] by (auto simp: es_ok_unit_def client_configure_def split: Option.bind_splits)
next
  case (Client_Move a b d i)
  then have m: "client_move K c a b d i st = Some (r, st')" using h by simp
  show ?thesis
  proof (cases "(a, b) = (d, i)")
    case True
    then show ?thesis using m wf by (simp add: client_move_def)
  next
    case False
    then obtain dst where d: "vec_get (in_spaces c) d = Some dst"
      using m by (auto simp: client_move_def split: Option.bind_splits if_splits)
    then have "is_client st c" using client_of_is_client [OF c wf] by (auto simp: vec_get_def)
    then show ?thesis using client_move_empty [OF wf _ d f [OF Client_Move d] False m] by blast
  qed
qed (use h in simp_all)

lemma es_run_step_wf:
  assumes wf: "es_wf st" and m: "move_free badges badge msg st" and h: "es_run_step K badges badge msg st = Some (r, st')"
  shows "es_wf st'"
proof -
  let ?v = "badge AND NOT BADGE_TYPE_MASK"
  consider (signal) cid c where "client_of cid st = Some c" "client_signal K c (unat (msg_mr0 msg)) st = Some st'"
    | (client) cid c where "vec_get (client_badges badges) (unat ?v) = Some cid" "client_of cid st = Some c"
        "handle_client K c (msg_client msg) st = Some (r, st')"
    | (resource_server) "handle_resource_server (msg_resource_server msg) st = Some st'"
    | (host) "handle_host (msg_host msg) st = Some st'"
    using h by (auto simp: es_run_step_def es_ok_unit_def Let_def split: if_splits Option.bind_splits)
  then show ?thesis
  proof cases
    case (signal cid c)
    then show ?thesis using event_signal_wf [OF _ wf] by (auto simp: client_signal_def split: Option.bind_splits)
  next
    case (client cid c)
    have "get_entry dst i st = Some None" if "msg_client msg = Client_Move a b d i" "vec_get (in_spaces c) d = Some dst" for a b d i dst
      using m client(1,2) that by (simp add: move_free_def)
    then show ?thesis by (rule handle_client_wf [OF wf client(2,3)])
  next
    case resource_server
    then show ?thesis
    proof (cases "msg_resource_server msg")
      case (RS_DestroyRealm rid)
      then have d: "destroy_realm rid st = Some st'" using resource_server by simp
      then have "rid \<in> dom (realms st)" by (auto simp: destroy_realm_def split: Option.bind_splits)
      from destroy_realm_wf [OF wf this] d show ?thesis by (metis option.inject)
    qed (use resource_server resource_server_subscribe_wf [OF _ wf] resource_server_unsubscribe_wf [OF _ wf] create_realm_wf [OF wf] in auto)
  next
    case host
    then show ?thesis using host_subscribe_wf [OF _ wf] by (cases "msg_host msg") auto
  qed
qed

lemma es_reach_wf: "es_reach K badges irqs st \<Longrightarrow> es_wf st"
proof (induction rule: es_reach.induct)
  case (start cores cfg w bfs st)
  then show ?case using realize_ok [OF start(1,2), of w bfs] by (auto simp: es_started_def)
next
  case (message st badge msg r st')
  then show ?case using es_run_step_wf by blast
next
  case (interrupt st badge st')
  from interrupt(2) show ?case
    unfolding irq_thread_step_def
    by (rule for_each_inv [where P = es_wf]) (use interrupt(3) event_signal_wf in \<open>auto split: Option.bind_splits\<close>)
next
  case (collect st w bfs)
  have "sig_rel st (st\<lparr>st_bitfields := bfs, st_world := w\<rparr>)" by (simp add: sig_rel_def)
  then show ?case using collect(2) by (rule sig_rel_wf)
qed


section \<open>A concrete server\<close>

text \<open>One core, one node per realm, one interrupt; the world is the list of notifications signalled so far.\<close>

definition sample_cfg :: EventServerConfig where
  "sample_cfg = \<lparr>cfg_host_notifications = [\<lparr>cn_nfn = [0..<16], cn_bitfield = 0\<rparr>],
     cfg_realm_notifications = [[\<lparr>cn_nfn = [100], cn_bitfield = 1\<rparr>], [\<lparr>cn_nfn = [101], cn_bitfield = 2\<rparr>]],
     cfg_resource_server_subscriptions = [200], cfg_irqs = [(40, 7, [300])]\<rparr>"

definition sample_kernel :: "(nat list, unit) es_kernel" where
  "sample_kernel = \<lparr>k_signal = (\<lambda>w n. w @ [n]), k_irq_ack = (\<lambda>w h. (Inr (), w)), k_irq_set_notification = (\<lambda>w h n. (Inr (), w))\<rparr>"

definition sample_server :: "nat list EventServer" where
  "sample_server = the (realize sample_kernel 1 sample_cfg (empty_server [] (\<lambda>_ _. 0)))"

lemma sample_ok: "cfg_ok 1 sample_cfg"
  "\<forall>irq handler nfns. (irq, handler, nfns) \<in> set (cfg_irqs sample_cfg) \<longrightarrow> (\<forall>w. \<exists>w'. k_irq_ack sample_kernel w handler = (Inr (), w'))"
  by (simp_all add: cfg_ok_def sample_cfg_def sample_kernel_def event_cardinalities NUM_REALMS_def)

lemma sample_started:
  "realize sample_kernel 1 sample_cfg (empty_server [] (\<lambda>_ _. 0)) = Some sample_server" "es_started 1 sample_cfg sample_server"
  using realize_ok [OF sample_ok, of "[]" "\<lambda>_ _. 0"] by (auto simp: sample_server_def)

lemma sample_server_facts:
  "es_wf sample_server" "realms sample_server = Map.empty" "in_spaces (host sample_server) = [0]" "out_space (host sample_server) = [4, 5, 6, 7]"
  "target_of sample_server 0 = Some (0, 989)" "get_entry 0 1 sample_server = Some None"
  "\<exists>ir. inactive_realms sample_server 0 = Some ir \<and> in_notifications ir = [\<lparr>cn_nfn = [100], cn_bitfield = 1\<rparr>]"
  using sample_started(2) by (auto simp: es_started_def wires_def sample_cfg_def)

theorem realize_wires_witness:
  "\<exists>st. realize sample_kernel 1 sample_cfg (empty_server [] (\<lambda>_ _. 0)) = Some st \<and> es_wf st
    \<and> (\<exists>e. irq_events st 40 = Some e \<and> target_of st e = Some (0, HostIn_to_nat (HostIn_SPI (EventSPI 40))))"
proof -
  have m: "(40, 7, [300]) \<in> set (cfg_irqs sample_cfg)" by (simp add: sample_cfg_def)
  show ?thesis
    apply (rule exE [OF realize_wires [OF sample_ok, of "[]" "\<lambda>_ _. 0"]])
    subgoal premises p for st
      using p [THEN conjunct1] p [THEN conjunct2, THEN conjunct1] p [THEN conjunct2, THEN conjunct2, THEN conjunct2, THEN conjunct2, THEN conjunct2, THEN conjunct2, THEN conjunct2, THEN conjunct2, THEN conjunct2, rule_format, OF m] by blast
    done
qed

theorem event_signal_delivers_witness:
  "\<exists>st'. event_signal sample_kernel 0 sample_server = Some st' \<and> es_wf st' \<and> event_bit st' 0 989"
  using event_signal_delivers [OF sample_server_facts(1,5), of sample_kernel] by blast

theorem move_empty_then_signal_panics_witness:
  "\<exists>st'. client_move sample_kernel (host sample_server) 0 1 0 989 sample_server = Some (Inr (), st') \<and> event_signal sample_kernel 0 st' = None"
proof (rule move_empty_then_signal_panics [where src = 0 and dst = 0])
  show "entry_of sample_server (0, 989) = Some 0" using es_wf_target [OF sample_server_facts(1,5)] by simp
qed (use sample_server_facts in \<open>simp_all add: is_client_def\<close>)

theorem create_destroy_realm_witness:
  "\<exists>st'. create_realm 0 1 sample_server = Some st' \<and> es_wf st' \<and> 0 \<in> dom (realms st')"
proof -
  obtain ir where "inactive_realms sample_server 0 = Some ir" "in_notifications ir = [\<lparr>cn_nfn = [100], cn_bitfield = 1\<rparr>]"
    using sample_server_facts(7) by blast
  then show ?thesis
    using create_destroy_realm [OF sample_server_facts(1), of 0 ir 1] by (simp add: sample_server_facts(2))
qed


definition sample_realm_server :: "unit EventServer" where
  "sample_realm_server = (empty_server () (\<lambda>_ _. 0))\<lparr>
     st_spaces := [\<lparr>sp_entries = [], sp_notification = \<lparr>cn_nfn = [], cn_bitfield = 0\<rparr>, sp_slot = 0\<rparr>], st_slots := [None],
     realms := [0 \<mapsto> \<lparr>out_space = [], in_spaces = [0]\<rparr>], host_subscriptions := [\<lparr>sub_subscriber = Sub_Event 0, sub_slot = None\<rparr>]\<rparr>"

lemma host_subscribe_once_witness:
  "\<exists>st'. host_subscribe 0 0 0 sample_realm_server = Some st' \<and> host_subscribe 0 0 0 st' = None"
proof -
  have "host_subscribe 0 0 0 sample_realm_server = Some (the (host_subscribe 0 0 0 sample_realm_server))"
    by (simp add: host_subscribe_def sample_realm_server_def set_slot_def rust_assert_def)
  then show ?thesis using host_subscribe_once [OF _ sig_rel_refl] by blast
qed

end
