(* ===== verification/BTree.thy ===== *)
theory BTree
  imports Prelude
begin

text \<open>
  \<^verbatim>\<open>BTreeMap\<close> as an association list in ascending order of its keys: that is the order its iterators
  follow, and lookups are \<open>map_of\<close>.
\<close>

type_synonym ('k, 'v) btree = "('k \<times> 'v) list"

fun btree_insert :: "'k::linorder \<Rightarrow> 'v \<Rightarrow> ('k, 'v) btree \<Rightarrow> ('k, 'v) btree" where
  "btree_insert k v [] = [(k, v)]"
| "btree_insert k v ((k', v') # t) =
     (if k < k' then (k, v) # (k', v') # t else if k = k' then (k, v) # t else (k', v') # btree_insert k v t)"

definition btree_remove :: "'k \<Rightarrow> ('k, 'v) btree \<Rightarrow> ('k, 'v) btree" where
  "btree_remove k t = filter (\<lambda>p. fst p \<noteq> k) t"

definition btree_ok :: "('k::linorder, 'v) btree \<Rightarrow> bool" where
  "btree_ok t \<longleftrightarrow> sorted_wrt (<) (map fst t)"

lemma btree_ok_simps [simp]:
  "btree_ok []" "btree_ok (p # t) \<longleftrightarrow> (\<forall>q\<in>set t. fst p < fst q) \<and> btree_ok t"
  by (auto simp: btree_ok_def)

lemma btree_ok_distinct: "btree_ok t \<Longrightarrow> distinct (map fst t)"
  using strict_sorted_iff by (auto simp: btree_ok_def)

lemma fst_btree_insert [simp]: "fst ` set (btree_insert k v t) = insert k (fst ` set t)"
  by (induction k v t rule: btree_insert.induct) auto

lemma set_btree_insert: "q \<in> set (btree_insert k v t) \<Longrightarrow> q = (k, v) \<or> q \<in> set t"
  by (induction k v t rule: btree_insert.induct) (auto split: if_splits)

lemma btree_insert_ok [simp]: "btree_ok t \<Longrightarrow> btree_ok (btree_insert k v t)"
  by (induction k v t rule: btree_insert.induct) (auto dest!: set_btree_insert)

lemma btree_remove_ok [simp]: "btree_ok t \<Longrightarrow> btree_ok (btree_remove k t)"
  by (induction t) (auto simp: btree_remove_def)

lemma map_of_btree_insert [simp]: "btree_ok t \<Longrightarrow> map_of (btree_insert k v t) = (map_of t)(k \<mapsto> v)"
  by (induction k v t rule: btree_insert.induct) (auto simp: fun_eq_iff)

lemma map_of_btree_remove [simp]: "map_of (btree_remove k t) = (map_of t)(k := None)"
  by (induction t) (auto simp: btree_remove_def fun_eq_iff)

lemma btree_set_iff: "btree_ok t \<Longrightarrow> (k, v) \<in> set t \<longleftrightarrow> map_of t k = Some v"
  using btree_ok_distinct by (metis map_of_SomeD map_of_eq_Some_iff)

text \<open>Two maps with the same lookups are the same map.\<close>

lemma btree_eqI:
  assumes "btree_ok s" "btree_ok t" "map_of s = map_of t"
  shows "s = t"
proof -
  have "set s = set t" using assms btree_set_iff by (metis subrelI subset_antisym)
  moreover have "inj_on fst (set s \<union> set t)"
    using calculation btree_ok_distinct [OF assms(1)] by (simp add: distinct_map)
  moreover from calculation(1) have "map fst s = map fst t"
    using assms(1,2) strict_sorted_equal [of "map fst s" "map fst t"] by (auto simp: btree_ok_def)
  ultimately show ?thesis by (metis inj_on_map_eq_map)
qed

end
