(* ===== verification/CSpace.thy ===== *)
theory CSpace
  imports Prelude
begin

text \<open>
  Capability pointers and object blueprints (\<^verbatim>\<open>icecap-sel4/src/cspace.rs\<close>) and the kernel invocations
  the object allocator makes. The kernel and the size constants of its generated bindings are
  parameters (\<open>cap_kernel\<close>): an invocation acts on a world \<open>'w\<close> and answers with an error or not.
  \<^verbatim>\<open>usize\<close> values are naturals, with the wrap-around of the release profile written out.
\<close>

section \<open>Machine arithmetic on \<^verbatim>\<open>usize\<close>\<close>

definition usize_add :: "nat \<Rightarrow> nat \<Rightarrow> nat" where
  "usize_add a b = (a + b) mod 2 ^ 64"

definition usize_sub :: "nat \<Rightarrow> nat \<Rightarrow> nat" where
  "usize_sub a b = nat ((int a - int b) mod 2 ^ 64)"

definition usize_mul :: "nat \<Rightarrow> nat \<Rightarrow> nat" where
  "usize_mul a b = (a * b) mod 2 ^ 64"

text \<open>\<^verbatim>\<open>1 << n\<close>\<close>

definition usize_bit :: "nat \<Rightarrow> nat" where
  "usize_bit n = 2 ^ (n mod 64)"

lemma usize_add_small [simp]: "a + b < 2 ^ 64 \<Longrightarrow> usize_add a b = a + b"
  by (simp add: usize_add_def)

lemma usize_sub_le [simp]: "b \<le> a \<Longrightarrow> a < 2 ^ 64 \<Longrightarrow> usize_sub a b = a - b"
  by (simp add: usize_sub_def of_nat_diff nat_mod_distrib flip: of_nat_diff)

lemma usize_bit_small [simp]: "n < 64 \<Longrightarrow> usize_bit n = 2 ^ n"
  by (simp add: usize_bit_def)

section \<open>Capability pointers\<close>

type_synonym CPtr = u64

record CPtrWithDepth =
  cp_cptr :: CPtr
  cp_depth :: nat

definition CPtr_deep :: "CPtr \<Rightarrow> CPtrWithDepth" where
  "CPtr_deep c = \<lparr>cp_cptr = c, cp_depth = 64\<rparr>"

definition local_cptr :: "CPtrWithDepth \<Rightarrow> CPtr option" where
  "local_cptr p = do { rust_assert (cp_depth p = 64); Some (cp_cptr p) }"

definition local_cptr_hack :: "CPtrWithDepth \<Rightarrow> CPtr" where
  "local_cptr_hack p = shl (cp_cptr p) (usize_sub 64 (cp_depth p))"

record RelativeCPtr =
  rc_root :: CPtr
  rc_path :: CPtrWithDepth

text \<open>\<^verbatim>\<open>CNode::relative\<close>, on a pointer with a depth and on a local pointer.\<close>

definition CNode_relative_path :: "CPtr \<Rightarrow> CPtrWithDepth \<Rightarrow> RelativeCPtr" where
  "CNode_relative_path c p = \<lparr>rc_root = c, rc_path = p\<rparr>"

definition CNode_relative :: "CPtr \<Rightarrow> CPtr \<Rightarrow> RelativeCPtr" where
  "CNode_relative c p = CNode_relative_path c (CPtr_deep p)"

definition CNode_relative_cptr :: "CPtr \<Rightarrow> CPtr \<Rightarrow> nat \<Rightarrow> RelativeCPtr" where
  "CNode_relative_cptr c p d = CNode_relative_path c \<lparr>cp_cptr = p, cp_depth = d\<rparr>"

section \<open>Object blueprints\<close>

datatype ObjectBlueprint =
    BP_Untyped nat | BP_Endpoint | BP_Notification | BP_CNode nat | BP_TCB | BP_VCPU
  | BP_SmallPage | BP_LargePage | BP_HugePage | BP_PT | BP_PD | BP_PUD | BP_PGD

record sel4_sizes =
  seL4_EndpointBits :: nat
  seL4_NotificationBits :: nat
  seL4_SlotBits :: nat
  seL4_TCBBits :: nat
  seL4_VCPUBits :: nat
  seL4_PageBits :: nat
  seL4_LargePageBits :: nat
  seL4_HugePageBits :: nat
  seL4_PageTableBits :: nat
  seL4_PageDirBits :: nat
  seL4_PUDBits :: nat
  seL4_PGDBits :: nat

definition raw_size_bits :: "ObjectBlueprint \<Rightarrow> nat option" where
  "raw_size_bits bp = (case bp of BP_Untyped n \<Rightarrow> Some n | BP_CNode n \<Rightarrow> Some n | _ \<Rightarrow> None)"

text \<open>The match is in \<^verbatim>\<open>u32\<close>: \<^verbatim>\<open>size_bits as u32\<close> truncates and the addition wraps.\<close>

definition physical_size_bits :: "sel4_sizes \<Rightarrow> ObjectBlueprint \<Rightarrow> nat" where
  "physical_size_bits Z bp = (case bp of
     BP_Untyped n \<Rightarrow> n mod 2 ^ 32
   | BP_Endpoint \<Rightarrow> seL4_EndpointBits Z
   | BP_Notification \<Rightarrow> seL4_NotificationBits Z
   | BP_CNode n \<Rightarrow> (seL4_SlotBits Z + n mod 2 ^ 32) mod 2 ^ 32
   | BP_TCB \<Rightarrow> seL4_TCBBits Z
   | BP_VCPU \<Rightarrow> seL4_VCPUBits Z
   | BP_SmallPage \<Rightarrow> seL4_PageBits Z
   | BP_LargePage \<Rightarrow> seL4_LargePageBits Z
   | BP_HugePage \<Rightarrow> seL4_HugePageBits Z
   | BP_PT \<Rightarrow> seL4_PageTableBits Z
   | BP_PD \<Rightarrow> seL4_PageDirBits Z
   | BP_PUD \<Rightarrow> seL4_PUDBits Z
   | BP_PGD \<Rightarrow> seL4_PGDBits Z)"

text \<open>
  \<^verbatim>\<open>ObjectBlueprint\<close> derives \<^verbatim>\<open>Ord\<close>: by the position of the variant, then by the size. The key below is
  that order.
\<close>

definition bp_key :: "ObjectBlueprint \<Rightarrow> nat \<times> nat" where
  "bp_key bp = (case bp of
     BP_Untyped n \<Rightarrow> (0, n) | BP_Endpoint \<Rightarrow> (1, 0) | BP_Notification \<Rightarrow> (2, 0) | BP_CNode n \<Rightarrow> (3, n)
   | BP_TCB \<Rightarrow> (4, 0) | BP_VCPU \<Rightarrow> (5, 0) | BP_SmallPage \<Rightarrow> (6, 0) | BP_LargePage \<Rightarrow> (7, 0)
   | BP_HugePage \<Rightarrow> (8, 0) | BP_PT \<Rightarrow> (9, 0) | BP_PD \<Rightarrow> (10, 0) | BP_PUD \<Rightarrow> (11, 0) | BP_PGD \<Rightarrow> (12, 0))"

lemma bp_key_inj: "bp_key a = bp_key b \<Longrightarrow> a = b"
  by (cases a; cases b) (simp_all add: bp_key_def)

instantiation ObjectBlueprint :: linorder
begin

definition less_eq_ObjectBlueprint :: "ObjectBlueprint \<Rightarrow> ObjectBlueprint \<Rightarrow> bool" where
  "a \<le> b \<longleftrightarrow> fst (bp_key a) < fst (bp_key b) \<or> fst (bp_key a) = fst (bp_key b) \<and> snd (bp_key a) \<le> snd (bp_key b)"

definition less_ObjectBlueprint :: "ObjectBlueprint \<Rightarrow> ObjectBlueprint \<Rightarrow> bool" where
  "(a :: ObjectBlueprint) < b \<longleftrightarrow> a \<le> b \<and> \<not> b \<le> a"

instance
  by standard (auto simp: less_eq_ObjectBlueprint_def less_ObjectBlueprint_def prod_eq_iff intro!: bp_key_inj)

end

section \<open>Kernel invocations\<close>

text \<open>
  \<^verbatim>\<open>Untyped::retype\<close>, \<^verbatim>\<open>RelativeCPtr::mutate\<close>, \<^verbatim>\<open>delete\<close> and \<^verbatim>\<open>revoke\<close>: wrappers of system calls.
  \<open>k_cap_data\<close> is the word \<^verbatim>\<open>CNodeCapData::new(guard, guard_size).raw()\<close> of the bindings.
\<close>

record ('w, 'e) cap_kernel =
  k_sizes :: sel4_sizes
  k_cap_data :: "u64 \<Rightarrow> u64 \<Rightarrow> u64"
  k_retype :: "'w \<Rightarrow> CPtr \<Rightarrow> ObjectBlueprint \<Rightarrow> RelativeCPtr \<Rightarrow> nat \<Rightarrow> nat \<Rightarrow> ('e + unit) \<times> 'w"
  k_mutate :: "'w \<Rightarrow> RelativeCPtr \<Rightarrow> RelativeCPtr \<Rightarrow> u64 \<Rightarrow> ('e + unit) \<times> 'w"
  k_delete :: "'w \<Rightarrow> RelativeCPtr \<Rightarrow> ('e + unit) \<times> 'w"
  k_revoke :: "'w \<Rightarrow> RelativeCPtr \<Rightarrow> ('e + unit) \<times> 'w"

end
