(* ===== verification/CRegion.thy ===== *)
theory CRegion
  imports BTree CSpace
begin

text \<open>
  A CNode with the bookkeeping of its slots (\<^verbatim>\<open>dyndl/realize/src/cregion\<close>): \<^verbatim>\<open>Set\<close> records for each
  slot whether it is in use, \<^verbatim>\<open>CRegion\<close> hands slots out and turns them into capability pointers.
  The contract of a pool of slots is the locale \<open>slot_pool\<close>, interpreted below on \<open>CRegion\<close>.
\<close>

section \<open>\<^verbatim>\<open>Set\<close>\<close>

type_synonym SlotSet = "(nat, bool) btree"

definition deposit_one :: "nat \<Rightarrow> SlotSet \<Rightarrow> SlotSet option" where
  "deposit_one key t = (if map_of t key = Some False then None else Some (btree_insert key False t))"

definition deposit :: "nat \<Rightarrow> nat \<Rightarrow> SlotSet \<Rightarrow> SlotSet option" where
  "deposit a b t = for_each [a..<b] deposit_one t"

text \<open>The search: the number found so far, the start of the range and whether one is being built.\<close>

fun withdraw_scan :: "nat \<Rightarrow> (nat \<times> bool) list \<Rightarrow> nat \<Rightarrow> nat \<Rightarrow> bool \<Rightarrow> (nat \<times> nat) option" where
  "withdraw_scan n [] num_found low building = None"
| "withdraw_scan n ((key, used) # t) num_found low building =
     (if \<not> used then
        let low = (if building then low else key); num_found = num_found + 1 in
        if num_found = n then Some (low, key) else withdraw_scan n t num_found low True
      else withdraw_scan n t 0 0 False)"

definition withdraw_one :: "nat \<Rightarrow> SlotSet \<Rightarrow> SlotSet option" where
  "withdraw_one key t = (if map_of t key = Some True then None else Some (btree_insert key True t))"

definition withdraw :: "nat \<Rightarrow> SlotSet \<Rightarrow> ((nat \<times> nat) option \<times> SlotSet) option" where
  "withdraw n t = (case withdraw_scan n t 0 0 False of
     None \<Rightarrow> Some (None, t)
   | Some (low, high) \<Rightarrow> do {
       t \<leftarrow> for_each [low..<high + 1] withdraw_one t;
       Some (Some (low, high + 1), t) })"

section \<open>\<^verbatim>\<open>CRegion\<close>\<close>

record CRegion =
  cr_root :: RelativeCPtr
  cr_guard :: u64
  cr_guard_size :: u64
  cr_radix :: nat
  cr_set :: SlotSet

definition CRegion_new :: "RelativeCPtr \<Rightarrow> u64 \<Rightarrow> u64 \<Rightarrow> nat \<Rightarrow> CRegion option" where
  "CRegion_new root guard guard_size radix = do {
     s \<leftarrow> deposit 0 (usize_bit radix) [];
     Some \<lparr>cr_root = root, cr_guard = guard, cr_guard_size = guard_size, cr_radix = radix, cr_set = s\<rparr> }"

definition slot_alloc :: "CRegion \<Rightarrow> (nat option \<times> CRegion) option" where
  "slot_alloc c = do {
     (r, s) \<leftarrow> withdraw 1 (cr_set c);
     Some (map_option fst r, c\<lparr>cr_set := s\<rparr>) }"

definition slot_free :: "nat \<Rightarrow> CRegion \<Rightarrow> CRegion option" where
  "slot_free slot c = do {
     s \<leftarrow> deposit slot (slot + 1) (cr_set c);
     Some (c\<lparr>cr_set := s\<rparr>) }"

definition cptr_with_depth :: "CRegion \<Rightarrow> nat \<Rightarrow> CPtrWithDepth" where
  "cptr_with_depth c slot =
     (let cptr = cp_cptr (rc_path (cr_root c));
          cptr = shl cptr (unat (cr_guard_size c)) OR cr_guard c;
          cptr = shl cptr (cr_radix c) OR of_nat slot
      in \<lparr>cp_cptr = cptr,
          cp_depth = usize_add (usize_add (cp_depth (rc_path (cr_root c))) (unat (cr_guard_size c))) (cr_radix c)\<rparr>)"

definition cr_context :: "CRegion \<Rightarrow> CPtr" where
  "cr_context c = rc_root (cr_root c)"

definition cr_relative_cptr :: "CRegion \<Rightarrow> nat \<Rightarrow> RelativeCPtr" where
  "cr_relative_cptr c slot = \<lparr>rc_root = cr_context c, rc_path = cptr_with_depth c slot\<rparr>"

text \<open>\<^verbatim>\<open>alloc().unwrap()\<close>, which every caller writes.\<close>

definition alloc_unwrap :: "CRegion \<Rightarrow> (nat \<times> CRegion) option" where
  "alloc_unwrap c = do { (r, c) \<leftarrow> slot_alloc c; s \<leftarrow> r; Some (s, c) }"

section \<open>The contract of a pool of slots\<close>

text \<open>
  Slots are free or in use. Allocation gives a free slot whenever there is one and marks it, freeing
  gives a slot in use back; neither touches another slot.
\<close>

locale slot_pool =
  fixes inv :: "'r \<Rightarrow> bool" and free_of used_of :: "'r \<Rightarrow> nat set"
    and alloc :: "'r \<Rightarrow> (nat \<times> 'r) option" and dealloc :: "nat \<Rightarrow> 'r \<Rightarrow> 'r option"
  assumes finite_free: "inv r \<Longrightarrow> finite (free_of r)" and finite_used: "inv r \<Longrightarrow> finite (used_of r)"
    and disjoint: "inv r \<Longrightarrow> free_of r \<inter> used_of r = {}"
    and alloc_law: "inv r \<Longrightarrow> free_of r \<noteq> {} \<Longrightarrow>
      \<exists>s r'. alloc r = Some (s, r') \<and> s \<in> free_of r \<and> inv r' \<and>
        free_of r' = free_of r - {s} \<and> used_of r' = insert s (used_of r)"
    and alloc_exhausted: "inv r \<Longrightarrow> free_of r = {} \<Longrightarrow> alloc r = None"
    and dealloc_law: "inv r \<Longrightarrow> s \<in> used_of r \<Longrightarrow>
      \<exists>r'. dealloc s r = Some r' \<and> inv r' \<and>
        free_of r' = insert s (free_of r) \<and> used_of r' = used_of r - {s}"
begin

lemma alloc_Some:
  assumes "inv r" "alloc r = Some (s, r')"
  shows "s \<in> free_of r" "s \<notin> used_of r" "inv r'" "free_of r' = free_of r - {s}" "used_of r' = insert s (used_of r)"
proof -
  have "free_of r \<noteq> {}" using assms alloc_exhausted by fastforce
  from alloc_law [OF assms(1) this] assms(2)
  show "s \<in> free_of r" "inv r'" "free_of r' = free_of r - {s}" "used_of r' = insert s (used_of r)" by auto
  with disjoint [OF assms(1)] show "s \<notin> used_of r" by auto
qed

lemma alloc_card: "inv r \<Longrightarrow> alloc r = Some (s, r') \<Longrightarrow> card (free_of r) = Suc (card (free_of r'))"
  using alloc_Some [of r s r'] finite_free [of r] by (metis card_Suc_Diff1)

lemma alloc_two:
  assumes "inv r" "2 \<le> card (free_of r)"
  shows "\<exists>s r1 t r2. alloc r = Some (s, r1) \<and> alloc r1 = Some (t, r2) \<and> inv r2 \<and> s \<noteq> t \<and>
    s \<in> free_of r \<and> t \<in> free_of r \<and> free_of r2 = free_of r - {s, t} \<and> used_of r2 = insert s (insert t (used_of r))"
proof -
  have "free_of r \<noteq> {}" using assms(2) by auto
  from alloc_law [OF assms(1) this] obtain s r1 where 1: "alloc r = Some (s, r1)" by blast
  note a = alloc_Some [OF assms(1) 1]
  have "free_of r1 \<noteq> {}" using alloc_card [OF assms(1) 1] assms(2) by auto
  from alloc_law [OF a(3) this] obtain t r2 where 2: "alloc r1 = Some (t, r2)" by blast
  note b = alloc_Some [OF a(3) 2]
  from 1 2 a b show ?thesis by auto
qed

lemma alloc_dealloc:
  assumes "inv r" "alloc r = Some (s, r')"
  shows "\<exists>r''. dealloc s r' = Some r'' \<and> inv r'' \<and> free_of r'' = free_of r \<and> used_of r'' = used_of r"
  using alloc_Some [OF assms] dealloc_law [of r' s] by (auto simp: insert_absorb)

end

section \<open>\<^verbatim>\<open>CRegion\<close> is a pool of slots\<close>

definition cr_ok :: "CRegion \<Rightarrow> bool" where
  "cr_ok c \<longleftrightarrow> btree_ok (cr_set c)"

definition cr_free :: "CRegion \<Rightarrow> nat set" where
  "cr_free c = {k. map_of (cr_set c) k = Some False}"

definition cr_used :: "CRegion \<Rightarrow> nat set" where
  "cr_used c = {k. map_of (cr_set c) k = Some True}"

lemma withdraw_scan_1:
  "withdraw_scan (Suc 0) t 0 0 False = map_option (\<lambda>p. (fst p, fst p)) (find (\<lambda>p. \<not> snd p) t)"
  by (induction t) auto

lemma slot_alloc_cases:
  assumes "btree_ok (cr_set c)"
  shows "(\<exists>k. map_of (cr_set c) k = Some False \<and> alloc_unwrap c = Some (k, c\<lparr>cr_set := btree_insert k True (cr_set c)\<rparr>))
    \<or> (\<forall>k. map_of (cr_set c) k \<noteq> Some False) \<and> alloc_unwrap c = None"
proof (cases "find (\<lambda>p. \<not> snd p) (cr_set c)")
  case None
  then have "\<forall>k. map_of (cr_set c) k \<noteq> Some False" by (auto simp: find_None_iff dest: map_of_SomeD)
  with None show ?thesis
    by (simp add: alloc_unwrap_def slot_alloc_def withdraw_def withdraw_scan_1)
next
  case (Some p)
  then have "p \<in> set (cr_set c)" "\<not> snd p" by (auto simp: find_Some_iff)
  then have "map_of (cr_set c) (fst p) = Some False"
    using btree_set_iff [OF assms, of "fst p" "snd p"] by (metis (full_types) prod.collapse)
  moreover from this Some have "alloc_unwrap c = Some (fst p, c\<lparr>cr_set := btree_insert (fst p) True (cr_set c)\<rparr>)"
    by (simp add: alloc_unwrap_def slot_alloc_def withdraw_def withdraw_scan_1 withdraw_one_def)
  ultimately show ?thesis by blast
qed

lemma cr_ok_insert:
  assumes "cr_ok c"
  shows "cr_ok (c\<lparr>cr_set := btree_insert k b (cr_set c)\<rparr>)"
    "cr_free (c\<lparr>cr_set := btree_insert k b (cr_set c)\<rparr>) = (if b then cr_free c - {k} else insert k (cr_free c))"
    "cr_used (c\<lparr>cr_set := btree_insert k b (cr_set c)\<rparr>) = (if b then insert k (cr_used c) else cr_used c - {k})"
  using assms by (auto simp: cr_ok_def cr_free_def cr_used_def)

lemma finite_lookups: "finite {k. map_of t k = Some v}"
  by (rule finite_subset [OF _ finite_dom_map_of [of t]]) auto

interpretation pool: slot_pool cr_ok cr_free cr_used alloc_unwrap slot_free
proof unfold_locales
  fix r assume r: "cr_ok r"
  show "finite (cr_free r)" "finite (cr_used r)" by (simp_all add: cr_free_def cr_used_def finite_lookups)
  show "cr_free r \<inter> cr_used r = {}" by (auto simp: cr_free_def cr_used_def)
  from r have t: "btree_ok (cr_set r)" by (simp add: cr_ok_def)
  show "cr_free r = {} \<Longrightarrow> alloc_unwrap r = None" using slot_alloc_cases [OF t] by (auto simp: cr_free_def)
  assume "cr_free r \<noteq> {}"
  then obtain k where "map_of (cr_set r) k = Some False"
    "alloc_unwrap r = Some (k, r\<lparr>cr_set := btree_insert k True (cr_set r)\<rparr>)"
    using slot_alloc_cases [OF t] by (auto simp: cr_free_def)
  with cr_ok_insert [OF r, of k True]
  show "\<exists>s r'. alloc_unwrap r = Some (s, r') \<and> s \<in> cr_free r \<and> cr_ok r' \<and>
      cr_free r' = cr_free r - {s} \<and> cr_used r' = insert s (cr_used r)"
    by (intro exI [of _ k] exI) (auto simp: cr_free_def)
next
  fix r s assume r: "cr_ok r" and s: "s \<in> cr_used r"
  then have "slot_free s r = Some (r\<lparr>cr_set := btree_insert s False (cr_set r)\<rparr>)"
    by (simp add: slot_free_def deposit_def deposit_one_def cr_used_def)
  with cr_ok_insert [OF r, of s False]
  show "\<exists>r'. slot_free s r = Some r' \<and> cr_ok r' \<and> cr_free r' = insert s (cr_free r) \<and> cr_used r' = cr_used r - {s}"
    by auto
qed

section \<open>Capability pointers of the slots\<close>

lemma unat_shl_or:
  fixes w x :: u64
  assumes n: "n \<le> 64" and x: "unat x < 2 ^ n" and w: "unat w < 2 ^ (64 - n)"
  shows "unat (shl w n OR x) = unat w * 2 ^ n + unat x"
proof (cases "n = 64")
  case True
  then show ?thesis using w by (simp add: unat_eq_zero shl_def)
next
  case False
  with n have n': "n < 64" by simp
  have p: "unat w * 2 ^ n < 2 ^ 64"
  proof -
    have "unat w * 2 ^ n < 2 ^ (64 - n) * 2 ^ n" using w by simp
    also have "\<dots> = 2 ^ 64" using n by (simp flip: power_add)
    finally show ?thesis .
  qed
  have u: "unat (push_bit n w) = unat w * 2 ^ n"
    using p by (subst unsigned_push_bit_eq) (simp add: push_bit_eq_mult take_bit_nat_eq_self)
  have "take_bit n (unat x) = unat x" using x by (simp add: take_bit_nat_eq_self)
  then have hi: "\<not> bit x i" if "n \<le> i" for i
    using that by (metis bit_take_bit_iff bit_unsigned_iff possible_bit_nat linorder_not_less)
  have "shl w n OR x = push_bit n w + x"
    using n' hi by (subst disjunctive_add) (auto simp: shl_in bit_push_bit_iff not_le)
  moreover have "unat w * 2 ^ n + unat x < 2 ^ 64"
  proof -
    have "unat w * 2 ^ n + unat x < (unat w + 1) * 2 ^ n" using x by simp
    also have "\<dots> \<le> 2 ^ (64 - n) * 2 ^ n" using w by (intro mult_right_mono) auto
    also have "\<dots> = 2 ^ 64" using n by (simp flip: power_add)
    finally show ?thesis .
  qed
  ultimately show ?thesis using u by (simp add: unat_add_lem [THEN iffD1])
qed

text \<open>
  A region fits its address space when the depth of its root, the guard and the radix add up to at most
  64 bits and the root's path and the guard have no bits beyond their sizes.
\<close>

definition cr_depth :: "CRegion \<Rightarrow> nat" where
  "cr_depth c = cp_depth (rc_path (cr_root c)) + unat (cr_guard_size c) + cr_radix c"

definition cr_fits :: "CRegion \<Rightarrow> bool" where
  "cr_fits c \<longleftrightarrow> cr_depth c \<le> 64 \<and> unat (cp_cptr (rc_path (cr_root c))) < 2 ^ cp_depth (rc_path (cr_root c))
     \<and> unat (cr_guard c) < 2 ^ unat (cr_guard_size c)"

lemma mult_add_less: "(a::nat) < 2 ^ k \<Longrightarrow> b < 2 ^ n \<Longrightarrow> a * 2 ^ n + b < 2 ^ (k + n)"
proof -
  assume a: "a < 2 ^ k" and b: "b < 2 ^ n"
  from b have "a * 2 ^ n + b < (a + 1) * 2 ^ n" by simp
  also from a have "\<dots> \<le> 2 ^ k * 2 ^ n" by (intro mult_right_mono) auto
  finally show ?thesis by (simp add: power_add)
qed

lemma power_le_mono: "a < 2 ^ m \<Longrightarrow> m \<le> n \<Longrightarrow> (a::nat) < 2 ^ n"
  by (meson less_le_trans one_le_numeral power_increasing)

lemma cptr_with_depth_value:
  assumes c: "cr_fits c" and s: "slot < 2 ^ cr_radix c"
  shows "unat (cp_cptr (cptr_with_depth c slot)) =
      (unat (cp_cptr (rc_path (cr_root c))) * 2 ^ unat (cr_guard_size c) + unat (cr_guard c)) * 2 ^ cr_radix c + slot"
    "unat (cp_cptr (cptr_with_depth c slot)) < 2 ^ cr_depth c"
    "cp_depth (cptr_with_depth c slot) = cr_depth c"
proof -
  define p where "p = cp_cptr (rc_path (cr_root c))"
  define d where "d = cp_depth (rc_path (cr_root c))"
  define g where "g = unat (cr_guard_size c)"
  define r where "r = cr_radix c"
  note defs = p_def [symmetric] d_def [symmetric] g_def [symmetric] r_def [symmetric]
  have h: "d + g + r \<le> 64" "unat p < 2 ^ d" "unat (cr_guard c) < 2 ^ g" "slot < 2 ^ r"
    using c s by (simp_all add: cr_fits_def cr_depth_def defs)
  have 1: "unat (shl p g OR cr_guard c) = unat p * 2 ^ g + unat (cr_guard c)"
    using h by (intro unat_shl_or) (auto intro: power_le_mono)
  have l: "unat p * 2 ^ g + unat (cr_guard c) < 2 ^ (d + g)" using h(2,3) by (rule mult_add_less)
  have sl: "unat (of_nat slot :: u64) = slot"
    using power_le_mono [OF h(4), of 64] h(1) by (simp add: unat_of_nat)
  have 2: "unat (shl (shl p g OR cr_guard c) r OR of_nat slot) = (unat p * 2 ^ g + unat (cr_guard c)) * 2 ^ r + slot"
    using h l sl 1 by (subst unat_shl_or) (auto intro: power_le_mono)
  from 2 show "unat (cp_cptr (cptr_with_depth c slot)) =
      (unat (cp_cptr (rc_path (cr_root c))) * 2 ^ unat (cr_guard_size c) + unat (cr_guard c)) * 2 ^ cr_radix c + slot"
    by (simp add: cptr_with_depth_def Let_def defs)
  with l h(4) show "unat (cp_cptr (cptr_with_depth c slot)) < 2 ^ cr_depth c"
    by (simp add: cr_depth_def defs mult_add_less)
  show "cp_depth (cptr_with_depth c slot) = cr_depth c"
    using h(1) by (simp add: cptr_with_depth_def Let_def defs cr_depth_def)
qed

text \<open>\<^verbatim>\<open>local_cptr_hack\<close> left-justifies the pointer, which keeps different slots apart.\<close>

lemma local_cptr_value:
  assumes c: "cr_fits c" and s: "slot < 2 ^ cr_radix c" and pos: "0 < cr_depth c"
  shows "unat (local_cptr_hack (cptr_with_depth c slot)) =
    unat (cp_cptr (cptr_with_depth c slot)) * 2 ^ (64 - cr_depth c)"
proof -
  have d: "cr_depth c \<le> 64" using c by (simp add: cr_fits_def)
  have "unat (local_cptr_hack (cptr_with_depth c slot)) =
      unat (shl (cp_cptr (cptr_with_depth c slot)) (64 - cr_depth c) OR 0)"
    using d by (simp add: local_cptr_hack_def cptr_with_depth_value(3) [OF c s])
  also have "\<dots> = unat (cp_cptr (cptr_with_depth c slot)) * 2 ^ (64 - cr_depth c) + unat (0 :: u64)"
    using d cptr_with_depth_value(2) [OF c s] by (intro unat_shl_or) auto
  finally show ?thesis by simp
qed

lemma local_cptr_inj:
  assumes "cr_fits c" "s < 2 ^ cr_radix c" "t < 2 ^ cr_radix c" "0 < cr_depth c"
    and "local_cptr_hack (cptr_with_depth c s) = local_cptr_hack (cptr_with_depth c t)"
  shows "s = t"
proof -
  have "unat (cp_cptr (cptr_with_depth c s)) * 2 ^ (64 - cr_depth c) =
      unat (cp_cptr (cptr_with_depth c t)) * 2 ^ (64 - cr_depth c)"
    using assms local_cptr_value [of c s] local_cptr_value [of c t] by simp
  then show ?thesis using assms cptr_with_depth_value(1) [of c s] cptr_with_depth_value(1) [of c t] by simp
qed

section \<open>A new region\<close>

lemma deposit_fresh:
  assumes "btree_ok t" "\<And>k. a \<le> k \<Longrightarrow> k < b \<Longrightarrow> map_of t k = None"
  shows "\<exists>t'. deposit a b t = Some t' \<and> btree_ok t' \<and>
    map_of t' = (\<lambda>k. if a \<le> k \<and> k < b then Some False else map_of t k)"
  using assms
proof (induction "b - a" arbitrary: a t)
  case 0
  then show ?case by (auto simp: deposit_def fun_eq_iff)
next
  case (Suc n)
  then have ab: "a < b" by simp
  define t1 where "t1 = btree_insert a False t"
  have "\<exists>t'. deposit (Suc a) b t1 = Some t' \<and> btree_ok t' \<and>
      map_of t' = (\<lambda>k. if Suc a \<le> k \<and> k < b then Some False else map_of t1 k)"
    using Suc by (intro Suc.hyps(1)) (auto simp: t1_def)
  moreover have "deposit a b t = deposit (Suc a) b t1"
    using ab Suc.prems(2) by (simp add: deposit_def upt_conv_Cons deposit_one_def t1_def)
  ultimately show ?case using ab Suc.prems(1) by (auto simp: t1_def fun_eq_iff)
qed

lemma CRegion_new_spec:
  assumes "radix < 64"
  shows "\<exists>c. CRegion_new root g gs radix = Some c \<and> cr_ok c \<and> cr_free c = {..<2 ^ radix} \<and> cr_used c = {} \<and>
    cr_root c = root \<and> cr_guard c = g \<and> cr_guard_size c = gs \<and> cr_radix c = radix"
  using deposit_fresh [of "[]" 0 "2 ^ radix"] assms
  by (auto simp: CRegion_new_def cr_ok_def cr_free_def cr_used_def)

end
