(* ===== verification/AllocNode.thy ===== *)
theory AllocNode
  imports CRegion "HOL-Library.Multiset"
begin

text \<open>
  The capability derivation tree and the index of its consumable leaves
  (\<^verbatim>\<open>dyndl/realize/src/allocator/node.rs\<close>). The tree covers the 64-bit physical address space; a node at
  depth \<open>d\<close> stands for a block of \<open>64 - d\<close> bits. Proofs name a node by its path from the root:
  \<open>node_at\<close> and \<open>put_at\<close> follow a path, and the walks by address of the source are shown to do the same.
\<close>

section \<open>Nodes\<close>

record UntypedId =
  paddr :: nat
  size_bits :: nat

datatype AccessibleNodeType = BuiltIn CPtr | Managed nat

datatype NodeType = Inaccessible | Accessible bool AccessibleNodeType

datatype Node = Node (node_type: NodeType) (left: "Node option") (right: "Node option")

definition Node_new :: Node where
  "Node_new = Node Inaccessible None None"

definition is_accessible :: "Node \<Rightarrow> bool" where
  "is_accessible n = (case node_type n of Accessible _ _ \<Rightarrow> True | _ \<Rightarrow> False)"

definition get_accessible_node_type :: "Node \<Rightarrow> AccessibleNodeType option" where
  "get_accessible_node_type n = (case node_type n of Inaccessible \<Rightarrow> None | Accessible _ t \<Rightarrow> Some t)"

definition is_managed :: "Node \<Rightarrow> bool" where
  "is_managed n = (case node_type n of Accessible _ (Managed _) \<Rightarrow> True | _ \<Rightarrow> False)"

definition get_slot :: "Node \<Rightarrow> nat option" where
  "get_slot n = do {
     rust_assert (is_managed n);
     t \<leftarrow> get_accessible_node_type n;
     (case t of Managed slot \<Rightarrow> Some slot | _ \<Rightarrow> None) }"

definition is_consumed :: "Node \<Rightarrow> bool" where
  "is_consumed n = (case node_type n of Accessible consumed _ \<Rightarrow> consumed | _ \<Rightarrow> False)"

definition set_consumed :: "bool \<Rightarrow> Node \<Rightarrow> Node option" where
  "set_consumed b n = (case n of
     Node (Accessible _ t) l r \<Rightarrow> Some (Node (Accessible b t) l r)
   | _ \<Rightarrow> None)"

definition is_deletable :: "Node \<Rightarrow> bool" where
  "is_deletable n \<longleftrightarrow> is_accessible n \<and> \<not> is_consumed n \<and> left n = None \<and> right n = None"

definition node_local_cptr :: "CRegion \<Rightarrow> Node \<Rightarrow> CPtr option" where
  "node_local_cptr c n = do {
     rust_assert (is_accessible n);
     t \<leftarrow> get_accessible_node_type n;
     Some (case t of BuiltIn p \<Rightarrow> p | Managed slot \<Rightarrow> local_cptr_hack (cptr_with_depth c slot)) }"

definition node_relative_cptr :: "CRegion \<Rightarrow> Node \<Rightarrow> RelativeCPtr option" where
  "node_relative_cptr c n = do {
     rust_assert (is_accessible n);
     t \<leftarrow> get_accessible_node_type n;
     Some (case t of BuiltIn p \<Rightarrow> CNode_relative (cr_context c) p | Managed slot \<Rightarrow> cr_relative_cptr c slot) }"

text \<open>\<^verbatim>\<open>low_addr + ((high_addr - low_addr) >> 1) + 1\<close>\<close>

definition half_addr :: "nat \<Rightarrow> nat \<Rightarrow> nat" where
  "half_addr low high = usize_add (usize_add low (usize_sub high low div 2)) 1"

text \<open>
  The loop of \<^verbatim>\<open>get_node\<close>, and of \<^verbatim>\<open>get_node_mut\<close>, whose reference is written through at once: the second
  replaces the node it ends at.
\<close>

fun get_node_from :: "nat \<Rightarrow> nat \<Rightarrow> nat \<Rightarrow> Node \<Rightarrow> UntypedId \<Rightarrow> Node option" where
  "get_node_from depth low high n u =
     (if size_bits u < depth then
        let half = half_addr low high in
        if paddr u < half then
          do { l \<leftarrow> left n; get_node_from (depth - 1) low (usize_sub half 1) l u }
        else
          do { r \<leftarrow> right n; get_node_from (depth - 1) half high r u }
      else do { rust_assert (depth = size_bits u); Some n })"

fun set_node_from :: "nat \<Rightarrow> nat \<Rightarrow> nat \<Rightarrow> Node \<Rightarrow> UntypedId \<Rightarrow> Node \<Rightarrow> Node option" where
  "set_node_from depth low high n u m =
     (if size_bits u < depth then
        let half = half_addr low high in
        if paddr u < half then
          do { l \<leftarrow> left n; l \<leftarrow> set_node_from (depth - 1) low (usize_sub half 1) l u m;
               Some (Node (node_type n) (Some l) (right n)) }
        else
          do { r \<leftarrow> right n; r \<leftarrow> set_node_from (depth - 1) half high r u m;
               Some (Node (node_type n) (left n) (Some r)) }
      else do { rust_assert (depth = size_bits u); Some m })"

declare get_node_from.simps [simp del] set_node_from.simps [simp del]

definition MAX_ADDR :: nat where "MAX_ADDR = 0xFFFFFFFFFFFFFFFF"

definition get_node :: "Node \<Rightarrow> UntypedId \<Rightarrow> Node option" where
  "get_node root u = do {
     rust_assert (paddr u \<le> MAX_ADDR);
     get_node_from 64 0 MAX_ADDR root u }"

definition set_node :: "Node \<Rightarrow> UntypedId \<Rightarrow> Node \<Rightarrow> Node option" where
  "set_node root u m = do {
     rust_assert (paddr u \<le> MAX_ADDR);
     set_node_from 64 0 MAX_ADDR root u m }"

section \<open>\<^verbatim>\<open>LeafNodes\<close>\<close>

type_synonym LeafNodes = "(nat, UntypedId list) btree"

definition add_leaf :: "UntypedId \<Rightarrow> LeafNodes \<Rightarrow> LeafNodes" where
  "add_leaf u lv = (case map_of lv (size_bits u) of
     Some ids \<Rightarrow> btree_insert (size_bits u) (ids @ [u]) lv
   | None \<Rightarrow> btree_insert (size_bits u) [u] lv)"

text \<open>\<^verbatim>\<open>pop\<close> the last id of a size and drop the size if it was the last.\<close>

definition pop_leaf :: "nat \<Rightarrow> LeafNodes \<Rightarrow> (UntypedId \<times> LeafNodes) option" where
  "pop_leaf k lv = do {
     ids \<leftarrow> map_of lv k;
     rust_assert (ids \<noteq> []);
     let rest = butlast ids;
     Some (last ids, if length rest = 0 then btree_remove k lv else btree_insert k rest lv) }"

definition get_leaf :: "nat \<Rightarrow> LeafNodes \<Rightarrow> (UntypedId \<times> LeafNodes) option" where
  "get_leaf k lv = (case map_of lv k of
     Some _ \<Rightarrow> pop_leaf k lv
   | None \<Rightarrow> do {
       let next_smallest_size = (case find (\<lambda>s. k < s) (map fst lv) of Some s \<Rightarrow> s | None \<Rightarrow> 0);
       rust_assert (next_smallest_size \<noteq> 0);
       pop_leaf next_smallest_size lv })"

text \<open>The loop that removes the first id with the same address.\<close>

fun remove_paddr :: "nat \<Rightarrow> UntypedId list \<Rightarrow> UntypedId list" where
  "remove_paddr a [] = []"
| "remove_paddr a (u # us) = (if paddr u = a then us else u # remove_paddr a us)"

definition remove_leaf :: "UntypedId \<Rightarrow> LeafNodes \<Rightarrow> LeafNodes option" where
  "remove_leaf u lv = do {
     ids \<leftarrow> map_of lv (size_bits u);
     let ids = remove_paddr (paddr u) ids;
     Some (if length ids = 0 then btree_remove (size_bits u) lv else btree_insert (size_bits u) ids lv) }"

definition consumable_space :: "LeafNodes \<Rightarrow> nat" where
  "consumable_space lv =
     foldl (\<lambda>acc (k, ids). usize_add acc (usize_mul (usize_bit k) (length ids))) 0 lv"

section \<open>Paths\<close>

fun node_at :: "bool list \<Rightarrow> Node \<Rightarrow> Node option" where
  "node_at [] n = Some n"
| "node_at (b # p) n = (case (if b then right n else left n) of None \<Rightarrow> None | Some c \<Rightarrow> node_at p c)"

fun put_at :: "bool list \<Rightarrow> Node \<Rightarrow> Node \<Rightarrow> Node" where
  "put_at [] m n = m"
| "put_at (b # p) m n =
     (if b then Node (node_type n) (left n) (map_option (put_at p m) (right n))
      else Node (node_type n) (map_option (put_at p m) (left n)) (right n))"

lemma node_at_append: "node_at (p @ q) n = Option.bind (node_at p n) (node_at q)"
  by (induction p n rule: node_at.induct) (auto split: option.splits)

lemma node_at_put: "node_at p n = Some x \<Longrightarrow> node_at p (put_at p m n) = Some m"
  by (induction p n rule: node_at.induct) (auto split: option.splits if_splits)

lemma put_at_append:
  "node_at p n = Some x \<Longrightarrow> put_at (p @ q) m (put_at p y n) = put_at p (put_at q m y) n"
  by (induction p n rule: node_at.induct) (auto split: option.splits if_splits)

lemma put_at_same: "node_at p n = Some x \<Longrightarrow> put_at p x n = n"
  by (induction p n rule: node_at.induct) (auto split: option.splits if_splits simp: Node.expand)

text \<open>The block at a path below a node that stands for the block of \<open>b\<close> bits at \<open>low\<close>.\<close>

fun block_at :: "bool list \<Rightarrow> nat \<Rightarrow> nat \<Rightarrow> UntypedId" where
  "block_at [] low b = \<lparr>paddr = low, size_bits = b\<rparr>"
| "block_at (x # p) low b = block_at p (if x then low + 2 ^ (b - 1) else low) (b - 1)"

lemma size_bits_block_at [simp]: "size_bits (block_at p low b) = b - length p"
  by (induction p low b rule: block_at.induct) auto

lemma block_at_range:
  assumes "length p \<le> b"
  shows "low \<le> paddr (block_at p low b) \<and> paddr (block_at p low b) + 2 ^ (b - length p) \<le> low + 2 ^ b"
  using assms
proof (induction p low b rule: block_at.induct)
  case (2 x p low b)
  then obtain k where b: "b = Suc k" by (cases b) auto
  with 2 show ?case by auto
qed auto

lemma block_at_append: "block_at (p @ q) low b = block_at q (paddr (block_at p low b)) (b - length p)"
  by (induction p low b rule: block_at.induct) auto

text \<open>The walks of the source go where the path goes.\<close>

lemma half_addr_mid:
  assumes "low + 2 ^ Suc k \<le> 2 ^ 64"
  shows "half_addr low (low + 2 ^ Suc k - 1) = low + 2 ^ k"
    "half_addr low (low + 2 ^ k + 2 ^ k - 1) = low + 2 ^ k"
    "usize_sub (low + 2 ^ k) 1 = low + 2 ^ k - 1"
proof -
  define w where "w = (2::nat) ^ k"
  have w: "1 \<le> w" "low + 2 * w \<le> 2 ^ 64" using assms by (simp_all add: w_def)
  have "usize_sub (low + 2 * w - 1) low = 2 * w - 1" using w by (subst usize_sub_le) auto
  moreover have "(2 * w - 1) div 2 = w - 1" using w(1) by simp
  ultimately have h: "half_addr low (low + 2 * w - 1) = low + w" using w by (simp add: half_addr_def)
  from h show "half_addr low (low + 2 ^ Suc k - 1) = low + 2 ^ k" by (simp add: w_def)
  from h show "half_addr low (low + 2 ^ k + 2 ^ k - 1) = low + 2 ^ k" by (simp add: w_def mult_2 add.assoc)
  show "usize_sub (low + 2 ^ k) 1 = low + 2 ^ k - 1" using w unfolding w_def [symmetric] by (intro usize_sub_le) auto
qed

lemma paddr_left:
  assumes "length p \<le> k"
  shows "paddr (block_at p (if x then low + 2 ^ k else low) k) < low + 2 ^ k \<longleftrightarrow> \<not> x"
proof (cases x)
  case True
  then show ?thesis using block_at_range [OF assms, of "low + 2 ^ k"] by simp
next
  case False
  have "0 < (2::nat) ^ (k - length p)" by simp
  with block_at_range [OF assms, of low] have "paddr (block_at p low k) < low + 2 ^ k" by linarith
  with False show ?thesis by simp
qed

abbreviation child :: "bool \<Rightarrow> Node \<Rightarrow> Node option" where
  "child x n \<equiv> (if x then right n else left n)"

abbreviation low_of :: "bool \<Rightarrow> nat \<Rightarrow> nat \<Rightarrow> nat" where
  "low_of x low k \<equiv> (if x then low + 2 ^ k else low)"

lemma walk_facts:
  assumes "low + 2 ^ Suc k \<le> 2 ^ 64" "length p \<le> k"
  shows "size_bits (block_at (x # p) low (Suc k)) < Suc k"
    "paddr (block_at (x # p) low (Suc k)) < low + 2 ^ k \<longleftrightarrow> \<not> x"
    "low_of x low k + 2 ^ k \<le> 2 ^ 64"
  using paddr_left [OF assms(2), of x low] assms by (cases x; simp)+

lemma high_split: "low + 2 ^ Suc k - 1 = low + 2 ^ k + 2 ^ k - (1::nat)"
  by simp

lemma get_node_from_step:
  assumes "low + 2 ^ Suc k \<le> 2 ^ 64" "length p \<le> k"
  shows "get_node_from (Suc k) low (low + 2 ^ Suc k - 1) n (block_at (x # p) low (Suc k)) =
    Option.bind (child x n) (\<lambda>c. get_node_from k (low_of x low k) (low_of x low k + 2 ^ k - 1) c (block_at p (low_of x low k) k))"
proof -
  note w = walk_facts [OF assms, of x]
  have b: "block_at (x # p) low (Suc k) = block_at p (low_of x low k) k" by simp
  show ?thesis
    unfolding get_node_from.simps [of "Suc k" _ _ _ "block_at (x # p) low (Suc k)"] Let_def half_addr_mid [OF assms(1)]
    using w(1,2) unfolding high_split b by (cases x) simp_all
qed

lemma set_node_from_step:
  assumes "low + 2 ^ Suc k \<le> 2 ^ 64" "length p \<le> k"
  shows "set_node_from (Suc k) low (low + 2 ^ Suc k - 1) n (block_at (x # p) low (Suc k)) m =
    Option.bind (child x n) (\<lambda>c. Option.bind
      (set_node_from k (low_of x low k) (low_of x low k + 2 ^ k - 1) c (block_at p (low_of x low k) k) m)
      (\<lambda>c. Some (if x then Node (node_type n) (left n) (Some c) else Node (node_type n) (Some c) (right n))))"
proof -
  note w = walk_facts [OF assms, of x]
  have b: "block_at (x # p) low (Suc k) = block_at p (low_of x low k) k" by simp
  show ?thesis
    unfolding set_node_from.simps [of "Suc k" _ _ _ "block_at (x # p) low (Suc k)"] Let_def half_addr_mid [OF assms(1)]
    using w(1,2) unfolding high_split b by (cases x) simp_all
qed

lemma get_node_from_path:
  assumes "length p \<le> b" "low + 2 ^ b \<le> 2 ^ 64"
  shows "get_node_from b low (low + 2 ^ b - 1) n (block_at p low b) = node_at p n"
  using assms
proof (induction p arbitrary: b low n)
  case Nil
  then show ?case by (simp add: get_node_from.simps rust_assert_def)
next
  case (Cons x p)
  then obtain k where b: "b = Suc k" by (cases b) auto
  with Cons.prems have k: "low + 2 ^ Suc k \<le> 2 ^ 64" "length p \<le> k" by auto
  note IH = Cons.IH [OF k(2) walk_facts(3) [OF k, of x]]
  show ?case unfolding b get_node_from_step [OF k] IH by (simp split: option.splits)
qed

lemma set_node_from_path:
  assumes "length p \<le> b" "low + 2 ^ b \<le> 2 ^ 64" "node_at p n = Some y"
  shows "set_node_from b low (low + 2 ^ b - 1) n (block_at p low b) m = Some (put_at p m n)"
  using assms
proof (induction p arbitrary: b low n)
  case Nil
  then show ?case by (simp add: set_node_from.simps rust_assert_def)
next
  case (Cons x p)
  then obtain k where b: "b = Suc k" by (cases b) auto
  with Cons.prems have k: "low + 2 ^ Suc k \<le> 2 ^ 64" "length p \<le> k" by auto
  from Cons.prems(3) obtain c where c: "child x n = Some c" "node_at p c = Some y" by (auto split: option.splits)
  note IH = Cons.IH [OF k(2) walk_facts(3) [OF k, of x] c(2)]
  show ?case unfolding b set_node_from_step [OF k] c(1) using c IH by (auto split: if_splits)
qed

abbreviation root_block :: "bool list \<Rightarrow> UntypedId" where
  "root_block p \<equiv> block_at p 0 64"

lemma paddr_root_block: "length p \<le> 64 \<Longrightarrow> paddr (root_block p) \<le> MAX_ADDR"
proof -
  assume p: "length p \<le> 64"
  have "0 < (2::nat) ^ (64 - length p)" by simp
  moreover have "paddr (root_block p) + 2 ^ (64 - length p) \<le> 18446744073709551616"
    using block_at_range [OF p, of 0] by simp
  ultimately show ?thesis unfolding MAX_ADDR_def by linarith
qed

lemma get_node_path: "length p \<le> 64 \<Longrightarrow> get_node n (root_block p) = node_at p n"
  using get_node_from_path [of p 64 0 n] paddr_root_block [of p] by (simp add: get_node_def MAX_ADDR_def rust_assert_def)

lemma set_node_path: "length p \<le> 64 \<Longrightarrow> node_at p n = Some y \<Longrightarrow> set_node n (root_block p) m = Some (put_at p m n)"
  using set_node_from_path [of p 64 0 n y m] paddr_root_block [of p] by (simp add: set_node_def MAX_ADDR_def rust_assert_def)

end
