(* ===== verification/Allocator.thy ===== *)
theory Allocator
  imports AllocNode
begin

text \<open>
  The object allocator (\<^verbatim>\<open>dyndl/realize/src/allocator/mod.rs\<close>): it retypes blocks of untyped memory into
  kernel objects, splitting larger blocks on demand, and takes the blocks back when a realm is destroyed,
  merging halves that have become free. The state carries the world the kernel invocations act on.
\<close>

record ElaboratedUntyped =
  eu_cptr :: CPtr
  eu_untyped_id :: UntypedId

record AllocatorBuilder =
  ab_cregion :: CRegion
  ab_fragmentation_threshold_size_bits :: nat
  ab_untyped :: "ElaboratedUntyped list"

record 'w Allocator =
  al_cregion :: CRegion
  al_fragmentation_threshold_size_bits :: nat
  al_tree :: Node
  al_leaves :: LeafNodes
  al_world :: 'w

section \<open>Building\<close>

definition AllocatorBuilder_new :: "CRegion \<Rightarrow> AllocatorBuilder" where
  "AllocatorBuilder_new c = \<lparr>ab_cregion = c, ab_fragmentation_threshold_size_bits = 0, ab_untyped = []\<rparr>"

definition add_untyped :: "ElaboratedUntyped \<Rightarrow> AllocatorBuilder \<Rightarrow> AllocatorBuilder" where
  "add_untyped u b = b\<lparr>ab_untyped := ab_untyped b @ [u]\<rparr>"

definition set_fragmentation_threshold :: "nat \<Rightarrow> AllocatorBuilder \<Rightarrow> AllocatorBuilder" where
  "set_fragmentation_threshold n b = b\<lparr>ab_fragmentation_threshold_size_bits := n\<rparr>"

text \<open>The walk of \<^verbatim>\<open>build\<close>: missing nodes are created inaccessible, the node it ends at is replaced.\<close>

fun insert_builtin :: "nat \<Rightarrow> nat \<Rightarrow> nat \<Rightarrow> Node \<Rightarrow> UntypedId \<Rightarrow> Node \<Rightarrow> Node option" where
  "insert_builtin depth low high n u m =
     (if size_bits u < depth then
        let half = half_addr low high in
        if paddr u < half then
          do { l \<leftarrow> insert_builtin (depth - 1) low (usize_sub half 1)
                 (case left n of None \<Rightarrow> Node Inaccessible None None | Some l \<Rightarrow> l) u m;
               Some (Node (node_type n) (Some l) (right n)) }
        else
          do { r \<leftarrow> insert_builtin (depth - 1) half high
                 (case right n of None \<Rightarrow> Node Inaccessible None None | Some r \<Rightarrow> r) u m;
               Some (Node (node_type n) (left n) (Some r)) }
      else do { rust_assert (depth = size_bits u); Some m })"

declare insert_builtin.simps [simp del]

definition add_builtin :: "ElaboratedUntyped \<Rightarrow> 'w Allocator \<Rightarrow> 'w Allocator option" where
  "add_builtin eu al = do {
     let u = eu_untyped_id eu;
     rust_assert (\<not> (paddr u = 0 \<and> size_bits u = 64));
     rust_assert (paddr u \<le> MAX_ADDR);
     t \<leftarrow> insert_builtin 64 0 MAX_ADDR (al_tree al) u (Node (Accessible False (BuiltIn (eu_cptr eu))) None None);
     Some (al\<lparr>al_tree := t, al_leaves := add_leaf u (al_leaves al)\<rparr>) }"

definition build :: "AllocatorBuilder \<Rightarrow> 'w \<Rightarrow> 'w Allocator option" where
  "build b w = for_each (ab_untyped b) add_builtin
     \<lparr>al_cregion = ab_cregion b,
      al_fragmentation_threshold_size_bits = ab_fragmentation_threshold_size_bits b,
      al_tree = Node_new, al_leaves = [], al_world = w\<rparr>"

section \<open>Space\<close>

definition required_space :: "nat list \<Rightarrow> nat" where
  "required_space counts =
     foldl (\<lambda>acc (k, c). usize_add acc (usize_mul (usize_bit k) c)) 0 (enumerate 0 counts)"

definition peek_space :: "'w Allocator \<Rightarrow> nat list \<Rightarrow> bool" where
  "peek_space al counts \<longleftrightarrow> required_space counts \<le> consumable_space (al_leaves al)"

section \<open>Kernel invocations\<close>

text \<open>\<^verbatim>\<open>retype(..).unwrap()\<close>, and the invocations whose errors are passed on.\<close>

definition al_retype ::
  "('w, 'e) cap_kernel \<Rightarrow> CPtr \<Rightarrow> ObjectBlueprint \<Rightarrow> RelativeCPtr \<Rightarrow> nat \<Rightarrow> 'w Allocator \<Rightarrow> 'w Allocator option" where
  "al_retype K p bp dst slot al = (case k_retype K (al_world al) p bp dst slot 1 of
     (Inr _, w) \<Rightarrow> Some (al\<lparr>al_world := w\<rparr>)
   | (Inl _, w) \<Rightarrow> None)"

definition al_mutate ::
  "('w, 'e) cap_kernel \<Rightarrow> RelativeCPtr \<Rightarrow> RelativeCPtr \<Rightarrow> u64 \<Rightarrow> 'w Allocator \<Rightarrow> ('e, unit, 'w Allocator) fallible" where
  "al_mutate K dst src data al =
     (let (r, w) = k_mutate K (al_world al) dst src data in Some (r, al\<lparr>al_world := w\<rparr>))"

definition al_delete :: "('w, 'e) cap_kernel \<Rightarrow> RelativeCPtr \<Rightarrow> 'w Allocator \<Rightarrow> ('e, unit, 'w Allocator) fallible" where
  "al_delete K p al = (let (r, w) = k_delete K (al_world al) p in Some (r, al\<lparr>al_world := w\<rparr>))"

definition al_revoke :: "('w, 'e) cap_kernel \<Rightarrow> RelativeCPtr \<Rightarrow> 'w Allocator \<Rightarrow> ('e, unit, 'w Allocator) fallible" where
  "al_revoke K p al = (let (r, w) = k_revoke K (al_world al) p in Some (r, al\<lparr>al_world := w\<rparr>))"

section \<open>Creating objects\<close>

definition split_untyped ::
  "('w, 'e) cap_kernel \<Rightarrow> UntypedId \<Rightarrow> 'w Allocator \<Rightarrow> (UntypedId \<times> UntypedId \<times> 'w Allocator) option" where
  "split_untyped K u al = do {
     let new_size_bits = usize_sub (size_bits u) 1;
     let blueprint = BP_Untyped new_size_bits;
     (left_slot, c) \<leftarrow> alloc_unwrap (al_cregion al);
     (right_slot, c) \<leftarrow> alloc_unwrap c;
     node \<leftarrow> get_node (al_tree al) u;
     rust_assert (\<not> is_consumed node);
     p \<leftarrow> node_local_cptr c node;
     al \<leftarrow> al_retype K p blueprint (cr_root c) left_slot (al\<lparr>al_cregion := c\<rparr>);
     al \<leftarrow> al_retype K p blueprint (cr_root c) right_slot al;
     t \<leftarrow> set_node (al_tree al) u
       (Node (node_type node)
         (Some (Node (Accessible False (Managed left_slot)) None None))
         (Some (Node (Accessible False (Managed right_slot)) None None)));
     let l = \<lparr>paddr = paddr u, size_bits = new_size_bits\<rparr>;
     let lv = add_leaf l (al_leaves al);
     let r = \<lparr>paddr = usize_add (paddr u) (usize_bit new_size_bits), size_bits = new_size_bits\<rparr>;
     let lv = add_leaf r lv;
     Some (l, r, al\<lparr>al_tree := t, al_leaves := lv\<rparr>) }"

text \<open>The loop of \<^verbatim>\<open>create_object\<close>: down the right side, once per bit of difference.\<close>

fun split_loop ::
  "nat \<Rightarrow> ('w, 'e) cap_kernel \<Rightarrow> UntypedId \<Rightarrow> 'w Allocator \<Rightarrow> (UntypedId \<times> 'w Allocator) option" where
  "split_loop 0 K u al = Some (u, al)"
| "split_loop (Suc n) K u al = do {
     (l, r, al) \<leftarrow> split_untyped K u al;
     lv \<leftarrow> remove_leaf r (al_leaves al);
     split_loop n K r (al\<lparr>al_leaves := lv\<rparr>) }"

definition create_object ::
  "('w, 'e) cap_kernel \<Rightarrow> RelativeCPtr \<Rightarrow> nat \<Rightarrow> ObjectBlueprint \<Rightarrow> 'w Allocator \<Rightarrow> (UntypedId \<times> 'w Allocator) option" where
  "create_object K destination_cnode slot blueprint al = do {
     let phys_size_bits = physical_size_bits (k_sizes K) blueprint;
     (u, lv) \<leftarrow> get_leaf phys_size_bits (al_leaves al);
     let al = al\<lparr>al_leaves := lv\<rparr>;
     (u, al) \<leftarrow> (if phys_size_bits < size_bits u then split_loop (size_bits u - phys_size_bits) K u al else Some (u, al));
     node \<leftarrow> get_node (al_tree al) u;
     node \<leftarrow> set_consumed True node;
     t \<leftarrow> set_node (al_tree al) u node;
     p \<leftarrow> node_local_cptr (al_cregion al) node;
     al \<leftarrow> al_retype K p blueprint destination_cnode slot (al\<lparr>al_tree := t\<rparr>);
     Some (u, al) }"

definition create_cnode ::
  "('w, 'e) cap_kernel \<Rightarrow> nat \<Rightarrow> 'w Allocator \<Rightarrow> ('e, CRegion \<times> UntypedId \<times> nat, 'w Allocator) fallible" where
  "create_cnode K radix al = do {
     (realm_slot, c) \<leftarrow> alloc_unwrap (al_cregion al);
     let realm_cnode = cr_relative_cptr c realm_slot;
     let guard = 0;
     let guard_size = of_nat (usize_sub (usize_sub 64 (cp_depth (rc_path realm_cnode))) radix);
     realm_cregion \<leftarrow> CRegion_new realm_cnode guard guard_size radix;
     let destination_cnode = cr_root c;
     (temp_slot, c) \<leftarrow> alloc_unwrap c;
     let temp_rel_cptr = cr_relative_cptr c temp_slot;
     (u, al) \<leftarrow> create_object K destination_cnode temp_slot (BP_CNode radix) (al\<lparr>al_cregion := c\<rparr>);
     try_method (al_mutate K (cr_root realm_cregion) temp_rel_cptr (k_cap_data K guard guard_size) al) (\<lambda>_ al.
     try_method (al_delete K temp_rel_cptr al) (\<lambda>_ al. do {
       c \<leftarrow> slot_free temp_slot (al_cregion al);
       Some (Inr (realm_cregion, u, realm_slot), al\<lparr>al_cregion := c\<rparr>) })) }"

fun create_objects ::
  "('w, 'e) cap_kernel \<Rightarrow> ObjectBlueprint list \<Rightarrow> CRegion \<Rightarrow> 'w Allocator \<Rightarrow>
     (nat list \<times> UntypedId list \<times> CRegion \<times> 'w Allocator) option" where
  "create_objects K [] c al = Some ([], [], c, al)"
| "create_objects K (bp # bps) c al = do {
     (slot, c) \<leftarrow> alloc_unwrap c;
     (u, al) \<leftarrow> create_object K (cr_root c) slot bp al;
     (slots, us, c, al) \<leftarrow> create_objects K bps c al;
     Some (slot # slots, u # us, c, al) }"

section \<open>Revoking\<close>

text \<open>The clean-up of one child: its slot is freed and it leaves the leaf index.\<close>

definition drop_child :: "Node option \<Rightarrow> UntypedId \<Rightarrow> 'w Allocator \<Rightarrow> 'w Allocator option" where
  "drop_child ch u al = (case ch of
     None \<Rightarrow> Some al
   | Some n \<Rightarrow> do {
       s \<leftarrow> get_slot n;
       c \<leftarrow> slot_free s (al_cregion al);
       lv \<leftarrow> remove_leaf u (al_leaves al);
       Some (al\<lparr>al_cregion := c, al_leaves := lv\<rparr>) })"

text \<open>The part of the helper after the recursive call: merge the children of an accessible node.\<close>

definition merge_children ::
  "('w, 'e) cap_kernel \<Rightarrow> Node \<Rightarrow> nat \<Rightarrow> nat \<Rightarrow> nat \<Rightarrow> 'w Allocator \<Rightarrow> ('e, Node, 'w Allocator) fallible" where
  "merge_children K n low high depth al =
     (if is_accessible n \<and> (left n = None \<or> is_deletable (the (left n))) \<and> (right n = None \<or> is_deletable (the (right n)))
      then do {
        let child_bits = usize_sub 64 (usize_add depth 1);
        al \<leftarrow> drop_child (left n) \<lparr>paddr = low, size_bits = child_bits\<rparr> al;
        al \<leftarrow> drop_child (right n) \<lparr>paddr = half_addr low high, size_bits = child_bits\<rparr> al;
        let n = Node (node_type n) None None;
        p \<leftarrow> node_relative_cptr (al_cregion al) n;
        try_method (al_revoke K p al) (\<lambda>_ al.
          Some (Inr n, al\<lparr>al_leaves := add_leaf \<lparr>paddr = low, size_bits = usize_sub 64 depth\<rparr> (al_leaves al)\<rparr>)) }
      else Some (Inr n, al))"

fun revoke_and_free_helper ::
  "('w, 'e) cap_kernel \<Rightarrow> UntypedId \<Rightarrow> Node \<Rightarrow> nat \<Rightarrow> nat \<Rightarrow> nat \<Rightarrow> 'w Allocator \<Rightarrow> ('e, Node, 'w Allocator) fallible" where
  "revoke_and_free_helper K u (Node ty l r) low high depth al =
     (if usize_sub 64 depth = size_bits u then do {
        rust_assert (is_accessible (Node ty l r));
        rust_assert (is_consumed (Node ty l r));
        rust_assert (l = None \<and> r = None);
        rust_assert (low = paddr u);
        p \<leftarrow> node_relative_cptr (al_cregion al) (Node ty l r);
        try_method (al_revoke K p al) (\<lambda>_ al. do {
          n \<leftarrow> set_consumed False (Node ty l r);
          Some (Inr n, al\<lparr>al_leaves := add_leaf u (al_leaves al)\<rparr>) }) }
      else do {
        rust_assert (low \<le> paddr u \<and> paddr u \<le> high);
        let half = half_addr low high;
        if paddr u < half then (case l of
          None \<Rightarrow> None
        | Some n \<Rightarrow> try_method (revoke_and_free_helper K u n low (usize_sub half 1) (usize_add depth 1) al)
            (\<lambda>n al. merge_children K (Node ty (Some n) r) low high depth al))
        else (case r of
          None \<Rightarrow> None
        | Some n \<Rightarrow> try_method (revoke_and_free_helper K u n half high (usize_add depth 1) al)
            (\<lambda>n al. merge_children K (Node ty l (Some n)) low high depth al)) })"

declare revoke_and_free_helper.simps [simp del]

text \<open>The helper works on a clone of the tree, which replaces the tree only if it succeeds.\<close>

definition revoke_and_free :: "('w, 'e) cap_kernel \<Rightarrow> UntypedId \<Rightarrow> 'w Allocator \<Rightarrow> ('e, unit, 'w Allocator) fallible" where
  "revoke_and_free K u al =
     try_method (revoke_and_free_helper K u (al_tree al) 0 MAX_ADDR 0 al) (\<lambda>n al. Some (Inr (), al\<lparr>al_tree := n\<rparr>))"

end
