(* ===== verification/AllocTree.thy ===== *)
theory AllocTree
  imports AllocNode
begin

text \<open>
  What the derivation tree means: its free blocks, its consumed blocks and the slots it holds, as
  multisets, the invariant \<open>tree_ok\<close> of the comments in \<^verbatim>\<open>node.rs\<close>, and how replacing a subtree changes
  them. The last sections describe the two changes the allocator makes: carving a block out of a leaf,
  and freeing a block with the merging that follows.
\<close>

section \<open>Observations\<close>

fun free_blocks :: "Node \<Rightarrow> nat \<Rightarrow> nat \<Rightarrow> UntypedId multiset" where
  "free_blocks (Node ty l r) low b =
     (if is_deletable (Node ty l r) then {#\<lparr>paddr = low, size_bits = b\<rparr>#} else {#})
     + (case l of None \<Rightarrow> {#} | Some n \<Rightarrow> free_blocks n low (b - 1))
     + (case r of None \<Rightarrow> {#} | Some n \<Rightarrow> free_blocks n (low + 2 ^ (b - 1)) (b - 1))"

fun used_blocks :: "Node \<Rightarrow> nat \<Rightarrow> nat \<Rightarrow> UntypedId multiset" where
  "used_blocks (Node ty l r) low b =
     (if is_consumed (Node ty l r) then {#\<lparr>paddr = low, size_bits = b\<rparr>#} else {#})
     + (case l of None \<Rightarrow> {#} | Some n \<Rightarrow> used_blocks n low (b - 1))
     + (case r of None \<Rightarrow> {#} | Some n \<Rightarrow> used_blocks n (low + 2 ^ (b - 1)) (b - 1))"

definition own_slots :: "NodeType \<Rightarrow> nat multiset" where
  "own_slots ty = (case ty of Accessible _ (Managed s) \<Rightarrow> {#s#} | _ \<Rightarrow> {#})"

fun tree_slots :: "Node \<Rightarrow> nat multiset" where
  "tree_slots (Node ty l r) = own_slots ty
     + (case l of None \<Rightarrow> {#} | Some n \<Rightarrow> tree_slots n) + (case r of None \<Rightarrow> {#} | Some n \<Rightarrow> tree_slots n)"

text \<open>
  A node is managed exactly when its parent is accessible. A consumed node has no children. An accessible
  node has two children or none, and not two free leaves, which would have been merged.
\<close>

fun tree_ok :: "bool \<Rightarrow> nat \<Rightarrow> Node \<Rightarrow> bool" where
  "tree_ok acc b (Node ty l r) \<longleftrightarrow> (case ty of
     Inaccessible \<Rightarrow> \<not> acc \<and>
       (case l of None \<Rightarrow> True | Some n \<Rightarrow> 0 < b \<and> tree_ok False (b - 1) n) \<and>
       (case r of None \<Rightarrow> True | Some n \<Rightarrow> 0 < b \<and> tree_ok False (b - 1) n)
   | Accessible c t \<Rightarrow> (case t of Managed _ \<Rightarrow> acc | BuiltIn _ \<Rightarrow> \<not> acc) \<and>
       (case l of None \<Rightarrow> r = None | Some n \<Rightarrow> (case r of None \<Rightarrow> False | Some m \<Rightarrow>
          \<not> c \<and> 0 < b \<and> tree_ok True (b - 1) n \<and> tree_ok True (b - 1) m \<and> \<not> (is_deletable n \<and> is_deletable m))))"

declare free_blocks.simps [simp del] used_blocks.simps [simp del] tree_slots.simps [simp del] tree_ok.simps [simp del]

definition opt_mset :: "('a \<Rightarrow> 'b multiset) \<Rightarrow> 'a option \<Rightarrow> 'b multiset" where
  "opt_mset f x = (case x of None \<Rightarrow> {#} | Some n \<Rightarrow> f n)"

lemma opt_mset_simps [simp]: "opt_mset f None = {#}" "opt_mset f (Some n) = f n"
  by (simp_all add: opt_mset_def)

lemma free_blocks_eq:
  "free_blocks n low b = (if is_deletable n then {#\<lparr>paddr = low, size_bits = b\<rparr>#} else {#})
     + opt_mset (\<lambda>n. free_blocks n low (b - 1)) (left n) + opt_mset (\<lambda>n. free_blocks n (low + 2 ^ (b - 1)) (b - 1)) (right n)"
  by (cases n) (simp add: free_blocks.simps opt_mset_def split: option.split)

lemma used_blocks_eq:
  "used_blocks n low b = (if is_consumed n then {#\<lparr>paddr = low, size_bits = b\<rparr>#} else {#})
     + opt_mset (\<lambda>n. used_blocks n low (b - 1)) (left n) + opt_mset (\<lambda>n. used_blocks n (low + 2 ^ (b - 1)) (b - 1)) (right n)"
  by (cases n) (simp add: used_blocks.simps opt_mset_def split: option.split)

lemma tree_slots_eq:
  "tree_slots n = own_slots (node_type n) + opt_mset tree_slots (left n) + opt_mset tree_slots (right n)"
  by (cases n) (simp add: tree_slots.simps opt_mset_def split: option.split)

lemmas observe = free_blocks_eq used_blocks_eq tree_slots_eq

lemma node_predicates [simp]:
  "is_accessible (Node (Accessible c t) l r)" "\<not> is_accessible (Node Inaccessible l r)"
  "is_consumed (Node (Accessible c t) l r) = c" "\<not> is_consumed (Node Inaccessible l r)"
  "is_managed (Node (Accessible c (Managed s)) l r)" "\<not> is_managed (Node (Accessible c (BuiltIn p)) l r)"
  "is_deletable (Node (Accessible c t) l r) \<longleftrightarrow> \<not> c \<and> l = None \<and> r = None"
  "\<not> is_deletable (Node Inaccessible l r)"
  "get_accessible_node_type (Node (Accessible c t) l r) = Some t"
  by (auto simp: is_accessible_def is_consumed_def is_managed_def is_deletable_def get_accessible_node_type_def)

lemma node_predicates_more [simp]:
  "\<not> is_deletable (Node ty (Some c) r)" "\<not> is_deletable (Node ty l (Some c))"
  "is_consumed (Node (node_type n) l r) = is_consumed n" "is_accessible (Node (node_type n) l r) = is_accessible n"
  by (auto simp: is_deletable_def is_consumed_def is_accessible_def)

lemma deletable_not_consumed: "is_deletable n \<Longrightarrow> \<not> is_consumed n" "is_deletable n \<Longrightarrow> is_accessible n"
  by (simp_all add: is_deletable_def)

section \<open>Replacing a subtree\<close>

text \<open>
  A node reached through a child is not a leaf, so replacing something below leaves what it contributes
  itself unchanged: every observation of the tree is a context plus the observation of the subtree.
\<close>

lemma put_context:
  assumes "node_at p n = Some m" "length p \<le> b"
  shows "\<exists>F U S. \<forall>m'.
    free_blocks (put_at p m' n) low b = F + free_blocks m' (paddr (block_at p low b)) (b - length p) \<and>
    used_blocks (put_at p m' n) low b = U + used_blocks m' (paddr (block_at p low b)) (b - length p) \<and>
    tree_slots (put_at p m' n) = S + tree_slots m'"
  using assms
proof (induction p arbitrary: n b low)
  case Nil
  show ?case by (intro exI [of _ "{#}"]) simp
next
  case (Cons x p)
  then obtain k where b: "b = Suc k" by (cases b) auto
  from Cons.prems obtain c where c: "child x n = Some c" "node_at p c = Some m" by (auto split: option.splits)
  from Cons.IH [OF c(2), of k "low_of x low k"] Cons.prems(2) b obtain F U S where
    *: "\<And>m'. free_blocks (put_at p m' c) (low_of x low k) k = F + free_blocks m' (paddr (block_at p (low_of x low k) k)) (k - length p)"
       "\<And>m'. used_blocks (put_at p m' c) (low_of x low k) k = U + used_blocks m' (paddr (block_at p (low_of x low k) k)) (k - length p)"
       "\<And>m'. tree_slots (put_at p m' c) = S + tree_slots m'"
    by auto
  define F' where "F' = F + opt_mset (\<lambda>n. free_blocks n (low_of (\<not> x) low k) k) (child (\<not> x) n)"
  define U' where "U' = (if is_consumed n then {#\<lparr>paddr = low, size_bits = b\<rparr>#} else {#}) + U
      + opt_mset (\<lambda>n. used_blocks n (low_of (\<not> x) low k) k) (child (\<not> x) n)"
  define S' where "S' = own_slots (node_type n) + S + opt_mset tree_slots (child (\<not> x) n)"
  show ?case
  proof (rule exI [of _ F'], rule exI [of _ U'], rule exI [of _ S'], intro allI conjI)
    fix m'
    show "free_blocks (put_at (x # p) m' n) low b = F' + free_blocks m' (paddr (block_at (x # p) low b)) (b - length (x # p))"
      using c * (1) [of m'] b by (subst free_blocks_eq) (auto simp: F'_def is_deletable_def split: if_splits)
    show "used_blocks (put_at (x # p) m' n) low b = U' + used_blocks m' (paddr (block_at (x # p) low b)) (b - length (x # p))"
      using c * (2) [of m'] b by (subst used_blocks_eq) (auto simp: U'_def is_consumed_def split: if_splits)
    show "tree_slots (put_at (x # p) m' n) = S' + tree_slots m'"
      using c * (3) [of m'] by (subst tree_slots_eq) (auto simp: S'_def split: if_splits)
  qed
qed


text \<open>The invariant survives a replacement that does not turn a node into a free leaf.\<close>

abbreviation with_child :: "bool \<Rightarrow> Node \<Rightarrow> Node \<Rightarrow> Node" where
  "with_child x c n \<equiv> (if x then Node (node_type n) (left n) (Some c) else Node (node_type n) (Some c) (right n))"

lemma tree_ok_child:
  assumes "tree_ok acc b n" "child x n = Some c"
  shows "0 < b" "tree_ok (is_accessible n) (b - 1) c" "\<not> is_consumed n"
    and "tree_ok (is_accessible n) (b - 1) c' \<Longrightarrow> (is_deletable c' \<longrightarrow> is_deletable c) \<Longrightarrow> tree_ok acc b (with_child x c' n)"
  using assms by (cases n; auto simp: tree_ok.simps split: NodeType.splits option.splits if_splits)+

lemma tree_ok_put:
  assumes "tree_ok acc b n" "node_at p n = Some m"
  shows "length p \<le> b \<and> (\<exists>acc'. tree_ok acc' (b - length p) m \<and>
    (\<forall>m'. tree_ok acc' (b - length p) m' \<longrightarrow> (is_deletable m' \<longrightarrow> is_deletable m) \<longrightarrow> tree_ok acc b (put_at p m' n)))"
  using assms
proof (induction p arbitrary: n b acc)
  case Nil
  then show ?case by auto
next
  case (Cons x p)
  from Cons.prems(2) obtain c where c: "child x n = Some c" "node_at p c = Some m" by (auto split: option.splits)
  note t = tree_ok_child [OF Cons.prems(1) c(1)]
  from Cons.IH [OF t(2) c(2)] obtain acc' where l: "length p \<le> b - 1" and a: "tree_ok acc' (b - 1 - length p) m"
    and IH: "\<And>m'. tree_ok acc' (b - 1 - length p) m' \<Longrightarrow> (is_deletable m' \<longrightarrow> is_deletable m) \<Longrightarrow>
      tree_ok (is_accessible n) (b - 1) (put_at p m' c)"
    by auto
  have "put_at (x # p) m' n = with_child x (put_at p m' c) n" for m' using c(1) by auto
  moreover have "is_deletable (put_at p m' c) \<longrightarrow> is_deletable c" if "is_deletable m' \<longrightarrow> is_deletable m" for m'
    using that c(2) by (cases p) (auto simp: is_deletable_def is_accessible_def split: if_splits)
  ultimately show ?case using l t(1) a IH t(4) by (intro conjI exI [of _ acc']) auto
qed

section \<open>Blocks and paths\<close>

lemma free_block_path:
  assumes "u \<in># free_blocks n low b"
  shows "\<exists>p m. node_at p n = Some m \<and> is_deletable m \<and> u = block_at p low b"
  using assms
proof (induction n low b rule: free_blocks.induct)
  case (1 ty l r low b)
  from "1.prems" consider "is_deletable (Node ty l r)" "u = \<lparr>paddr = low, size_bits = b\<rparr>"
    | n where "l = Some n" "u \<in># free_blocks n low (b - 1)"
    | n where "r = Some n" "u \<in># free_blocks n (low + 2 ^ (b - 1)) (b - 1)"
    by (auto simp: free_blocks.simps split: if_splits option.splits)
  then show ?case
  proof cases
    case 1
    then show ?thesis by (intro exI [of _ "[]"]) auto
  next
    case (2 n)
    from "1.IH"(1) [OF 2] obtain p m where "node_at p n = Some m" "is_deletable m" "u = block_at p low (b - 1)" by blast
    with 2 show ?thesis by (intro exI [of _ "False # p"]) auto
  next
    case (3 n)
    from "1.IH"(2) [OF 3] obtain p m where "node_at p n = Some m" "is_deletable m"
      "u = block_at p (low + 2 ^ (b - 1)) (b - 1)" by blast
    with 3 show ?thesis by (intro exI [of _ "True # p"]) auto
  qed
qed

lemma used_block_path:
  assumes "u \<in># used_blocks n low b"
  shows "\<exists>p m. node_at p n = Some m \<and> is_consumed m \<and> u = block_at p low b"
  using assms
proof (induction n low b rule: used_blocks.induct)
  case (1 ty l r low b)
  from "1.prems" consider "is_consumed (Node ty l r)" "u = \<lparr>paddr = low, size_bits = b\<rparr>"
    | n where "l = Some n" "u \<in># used_blocks n low (b - 1)"
    | n where "r = Some n" "u \<in># used_blocks n (low + 2 ^ (b - 1)) (b - 1)"
    by (auto simp: used_blocks.simps split: if_splits option.splits)
  then show ?case
  proof cases
    case 1
    then show ?thesis by (intro exI [of _ "[]"]) auto
  next
    case (2 n)
    from "1.IH"(1) [OF 2] obtain p m where "node_at p n = Some m" "is_consumed m" "u = block_at p low (b - 1)" by blast
    with 2 show ?thesis by (intro exI [of _ "False # p"]) auto
  next
    case (3 n)
    from "1.IH"(2) [OF 3] obtain p m where "node_at p n = Some m" "is_consumed m"
      "u = block_at p (low + 2 ^ (b - 1)) (b - 1)" by blast
    with 3 show ?thesis by (intro exI [of _ "True # p"]) auto
  qed
qed

text \<open>The addresses of a block. No address belongs to two blocks of a tree.\<close>

definition block_range :: "UntypedId \<Rightarrow> nat set" where
  "block_range u = {paddr u..<paddr u + 2 ^ size_bits u}"

definition covering :: "nat \<Rightarrow> UntypedId multiset \<Rightarrow> nat" where
  "covering a M = size (filter_mset (\<lambda>u. a \<in> block_range u) M)"

lemma covering_simps [simp]:
  "covering a {#} = 0" "covering a (M + N) = covering a M + covering a N"
  "covering a (add_mset u M) = (if a \<in> block_range u then 1 else 0) + covering a M"
  by (simp_all add: covering_def)

abbreviation all_blocks :: "Node \<Rightarrow> nat \<Rightarrow> nat \<Rightarrow> UntypedId multiset" where
  "all_blocks n low b \<equiv> free_blocks n low b + used_blocks n low b"

lemma block_range_split:
  "a \<in> block_range \<lparr>paddr = low, size_bits = Suc k\<rparr> \<longleftrightarrow>
    a \<in> block_range \<lparr>paddr = low, size_bits = k\<rparr> \<or> a \<in> block_range \<lparr>paddr = low + 2 ^ k, size_bits = k\<rparr>"
  "\<not> (a \<in> block_range \<lparr>paddr = low, size_bits = k\<rparr> \<and> a \<in> block_range \<lparr>paddr = low + 2 ^ k, size_bits = k\<rparr>)"
  by (auto simp: block_range_def)

lemma covering_at_most:
  "tree_ok acc b n \<Longrightarrow>
    covering a (all_blocks n low b) \<le> (if a \<in> block_range \<lparr>paddr = low, size_bits = b\<rparr> then 1 else 0)"
proof (induction n low b arbitrary: acc rule: free_blocks.induct)
  case (1 ty l r low b)
  let ?n = "Node ty l r"
  show ?case
  proof (cases "l = None \<and> r = None")
    case True
    then show ?thesis unfolding free_blocks_eq [of ?n] used_blocks_eq [of ?n] by (simp add: is_deletable_def)
  next
    case False
    then obtain x c where x: "child x ?n = Some c" by (metis Node.sel(2,3) option.exhaust)
    from tree_ok_child [OF "1.prems" x] have b: "0 < b" and cons: "\<not> is_consumed ?n" by auto
    from b obtain k where k: "b = Suc k" by (cases b) auto
    have del: "\<not> is_deletable ?n" using False by (auto simp: is_deletable_def)
    have L: "covering a (opt_mset (\<lambda>n. free_blocks n low k) l) + covering a (opt_mset (\<lambda>n. used_blocks n low k) l)
        \<le> (if a \<in> block_range \<lparr>paddr = low, size_bits = k\<rparr> then 1 else 0)"
      using "1.IH"(1) tree_ok_child(2) [OF "1.prems", of False] k by (cases l) auto
    have R: "covering a (opt_mset (\<lambda>n. free_blocks n (low + 2 ^ k) k) r) + covering a (opt_mset (\<lambda>n. used_blocks n (low + 2 ^ k) k) r)
        \<le> (if a \<in> block_range \<lparr>paddr = low + 2 ^ k, size_bits = k\<rparr> then 1 else 0)"
      using "1.IH"(2) tree_ok_child(2) [OF "1.prems", of True] k by (cases r) auto
    show ?thesis
      unfolding free_blocks_eq [of ?n] used_blocks_eq [of ?n] using cons del L R k block_range_split [of a low k] by (simp split: if_splits)
  qed
qed


section \<open>Carving a block\<close>

text \<open>
  \<open>carve\<close> splits a leaf once for each pair of slots, always going on with the right half, and consumes
  what it ends at.
\<close>

definition managed_leaf :: "nat \<Rightarrow> Node" where
  "managed_leaf s = Node (Accessible False (Managed s)) None None"

definition consume :: "Node \<Rightarrow> Node" where
  "consume n = (case n of Node (Accessible _ t) l r \<Rightarrow> Node (Accessible True t) l r | _ \<Rightarrow> n)"

fun carve :: "(nat \<times> nat) list \<Rightarrow> Node \<Rightarrow> Node" where
  "carve [] n = consume n"
| "carve ((s, t) # q) n = Node (node_type n) (Some (managed_leaf s)) (Some (carve q (managed_leaf t)))"

abbreviation right_path :: "nat \<Rightarrow> bool list" where
  "right_path k \<equiv> replicate k True"

lemma deletable_iff: "is_deletable n \<longleftrightarrow> (\<exists>t. n = Node (Accessible False t) None None)"
  by (cases n; cases "node_type n") (auto simp: is_deletable_def is_accessible_def is_consumed_def split: NodeType.splits)

lemma managed_leaf_deletable [simp]: "is_deletable (managed_leaf s)" "node_type (managed_leaf s) = Accessible False (Managed s)"
  by (auto simp: managed_leaf_def)

lemma tree_ok_leaf [simp]: "tree_ok True b (managed_leaf s)"
  by (simp add: managed_leaf_def tree_ok.simps)

lemma carve_not_deletable: "is_deletable n \<Longrightarrow> \<not> is_deletable (carve q n)"
  by (cases q) (auto simp: deletable_iff consume_def)

lemma carve_ok: "is_deletable n \<Longrightarrow> tree_ok acc b n \<Longrightarrow> length q \<le> b \<Longrightarrow> tree_ok acc b (carve q n)"
proof (induction q arbitrary: n b acc)
  case Nil
  then show ?case by (auto simp: deletable_iff consume_def tree_ok.simps)
next
  case (Cons st q)
  obtain s t where st: "st = (s, t)" by fastforce
  have "tree_ok True (b - 1) (carve q (managed_leaf t))" using Cons by (intro Cons.IH) auto
  moreover obtain ty where "n = Node (Accessible False ty) None None" using Cons.prems(1) deletable_iff by blast
  ultimately show ?case using Cons.prems by (simp add: st tree_ok.simps carve_not_deletable)
qed

fun left_blocks :: "nat \<Rightarrow> nat \<Rightarrow> nat \<Rightarrow> UntypedId multiset" where
  "left_blocks 0 low b = {#}"
| "left_blocks (Suc k) low b = add_mset \<lparr>paddr = low, size_bits = b - 1\<rparr> (left_blocks k (low + 2 ^ (b - 1)) (b - 1))"

lemma blocks_of_leaf:
  "is_deletable n \<Longrightarrow> free_blocks n low b = {#\<lparr>paddr = low, size_bits = b\<rparr>#}"
  "is_deletable n \<Longrightarrow> used_blocks n low b = {#}"
  "is_deletable n \<Longrightarrow> tree_slots n = own_slots (node_type n)"
  by (auto simp: deletable_iff free_blocks.simps used_blocks.simps tree_slots.simps)

fun slots_of_pairs :: "(nat \<times> nat) list \<Rightarrow> nat multiset" where
  "slots_of_pairs [] = {#}"
| "slots_of_pairs ((s, t) # q) = add_mset s (add_mset t (slots_of_pairs q))"

lemma carve_blocks:
  assumes "is_deletable n"
  shows "free_blocks (carve q n) low b = left_blocks (length q) low b"
    "used_blocks (carve q n) low b = {#block_at (right_path (length q)) low b#}"
    "tree_slots (carve q n) = tree_slots n + slots_of_pairs q"
  using assms
proof (induction q arbitrary: n low b)
  case Nil
  { case 1 then show ?case by (auto simp: deletable_iff consume_def free_blocks.simps) }
  { case 2 then show ?case by (auto simp: deletable_iff consume_def used_blocks.simps) }
  { case 3 then show ?case by (auto simp: deletable_iff consume_def tree_slots.simps own_slots_def) }
next
  case (Cons st q)
  obtain s t where st: "st = (s, t)" by fastforce
  note IH = Cons.IH(1) [OF managed_leaf_deletable(1)] Cons.IH(2) [OF managed_leaf_deletable(1)] Cons.IH(3) [OF managed_leaf_deletable(1)]
  { case 1 then show ?case
      by (subst free_blocks_eq) (simp add: st IH blocks_of_leaf deletable_not_consumed) }
  { case 2 then show ?case
      by (subst used_blocks_eq) (simp add: st IH blocks_of_leaf deletable_not_consumed) }
  { case 3 then show ?case
      by (subst tree_slots_eq) (auto simp: st IH blocks_of_leaf own_slots_def) }
qed

lemma carve_end: "is_deletable n \<Longrightarrow> \<exists>e. node_at (right_path (length q)) (carve q n) = Some e \<and> is_consumed e"
proof (induction q arbitrary: n)
  case Nil
  then show ?case by (auto simp: deletable_iff consume_def)
next
  case (Cons st q)
  obtain s t where st: "st = (s, t)" by fastforce
  from Cons.IH [of "managed_leaf t"] show ?case by (simp add: st)
qed

text \<open>Where the blocks are.\<close>

lemma right_block: "k \<le> b \<Longrightarrow> block_at (right_path k) low b = \<lparr>paddr = low + 2 ^ b - 2 ^ (b - k), size_bits = b - k\<rparr>"
proof (induction k arbitrary: low b)
  case (Suc k)
  then obtain j where b: "b = Suc j" by (cases b) auto
  with Suc show ?case by (simp add: mult_2 add.assoc)
qed simp

lemma left_blocks_eq:
  "k \<le> b \<Longrightarrow> left_blocks k low b =
    image_mset (\<lambda>i. \<lparr>paddr = low + 2 ^ b - 2 ^ Suc i, size_bits = i\<rparr>) (mset [b - k..<b])"
proof (induction k arbitrary: low b)
  case (Suc k)
  then obtain j where b: "b = Suc j" by (cases b) auto
  with Suc.prems have "j - k \<le> j" "k \<le> j" by auto
  with Suc.IH [of j "low + 2 ^ j"] b show ?case by (simp add: mult_2 add.assoc)
qed simp

section \<open>Freeing a block\<close>

text \<open>
  \<open>free_at\<close> makes the node at a path unconsumed; on the way back each accessible node whose children are
  all free leaves loses them.
\<close>

definition mergeable :: "Node \<Rightarrow> bool" where
  "mergeable n \<longleftrightarrow> is_accessible n \<and> (left n = None \<or> is_deletable (the (left n))) \<and> (right n = None \<or> is_deletable (the (right n)))"

definition merge :: "Node \<Rightarrow> Node" where
  "merge n = (if mergeable n then Node (node_type n) None None else n)"

definition release :: "Node \<Rightarrow> Node" where
  "release n = (case n of Node (Accessible _ t) l r \<Rightarrow> Node (Accessible False t) l r | _ \<Rightarrow> n)"

fun free_at :: "bool list \<Rightarrow> Node \<Rightarrow> Node" where
  "free_at [] n = release n"
| "free_at (x # p) n = (case child x n of None \<Rightarrow> n | Some c \<Rightarrow> merge (with_child x (free_at p c) n))"


lemma with_child_same: "child x n = Some c \<Longrightarrow> with_child x c n = n"
  by (cases n) auto

lemma tree_ok_accessible:
  assumes "tree_ok acc b n" "child x n = Some c" "is_accessible n"
  obtains l r where "left n = Some l" "right n = Some r" "\<not> (is_deletable l \<and> is_deletable r)"
    "tree_ok True (b - 1) l" "tree_ok True (b - 1) r"
proof -
  from assms(3) obtain k t l r where n: "n = Node (Accessible k t) l r"
    by (cases n; cases "node_type n") (auto simp: is_accessible_def)
  from assms(2) have "l \<noteq> None \<or> r \<noteq> None" by (cases x) (auto simp: n)
  with assms(1) that show ?thesis by (auto simp: n tree_ok.simps split: option.splits)
qed

lemma tree_ok_prune: "tree_ok acc b n \<Longrightarrow> tree_ok acc b (Node (node_type n) None None)"
  by (cases n; cases "node_type n") (auto simp: tree_ok.simps)

lemma merge_ok:
  assumes "tree_ok acc b n" "child x n = Some c"
  shows "merge n = n"
proof (cases "is_accessible n")
  case True
  obtain l r where "left n = Some l" "right n = Some r" "\<not> (is_deletable l \<and> is_deletable r)"
    by (rule tree_ok_accessible [OF assms True])
  then show ?thesis by (auto simp: merge_def mergeable_def)
next
  case False
  then show ?thesis by (simp add: merge_def mergeable_def)
qed

lemma merge_keeps [simp]: "node_type (merge n) = node_type n" "is_accessible (merge n) = is_accessible n"
  by (auto simp: merge_def)

text \<open>An ok tree stays ok when a child is replaced by any ok child and the node is merged.\<close>

lemma tree_ok_merge:
  assumes "tree_ok acc b n" "child x n = Some c" "tree_ok (is_accessible n) (b - 1) c'"
  shows "tree_ok acc b (merge (with_child x c' n))"
proof (cases "mergeable (with_child x c' n)")
  case True
  then show ?thesis using tree_ok_prune [OF assms(1)] by (auto simp: merge_def)
next
  case False
  note b = tree_ok_child(1,3) [OF assms(1,2)]
  have "tree_ok acc b (with_child x c' n)"
  proof (cases "is_accessible n")
    case True
    obtain l r where lr: "left n = Some l" "right n = Some r" "tree_ok True (b - 1) l" "tree_ok True (b - 1) r"
      by (rule tree_ok_accessible [OF assms(1,2) True])
    from True obtain k t where ty: "node_type n = Accessible k t"
      by (cases "node_type n") (auto simp: is_accessible_def)
    with assms(1) have "case t of Managed _ \<Rightarrow> acc | BuiltIn _ \<Rightarrow> \<not> acc" by (cases n) (simp add: tree_ok.simps)
    then show ?thesis using lr False True assms(3) b ty
      by (cases x) (simp_all add: tree_ok.simps mergeable_def is_consumed_def)
  next
    case F: False
    then obtain l r where n: "n = Node Inaccessible l r"
      by (cases n; cases "node_type n") (auto simp: is_accessible_def)
    show ?thesis using assms(1,3) b F by (cases x) (simp_all add: n tree_ok.simps)
  qed
  with False show ?thesis by (simp add: merge_def)
qed

lemma free_at_type:
  assumes "node_at p n = Some m"
  shows "is_accessible (free_at p n) = is_accessible n" "own_slots (node_type (free_at p n)) = own_slots (node_type n)"
proof -
  have "is_accessible (free_at p n) = is_accessible n \<and> own_slots (node_type (free_at p n)) = own_slots (node_type n)"
  proof (cases p)
    case Nil
    then show ?thesis by (cases n; cases "node_type n") (auto simp: release_def own_slots_def split: AccessibleNodeType.splits)
  next
    case (Cons x q)
    with assms obtain c where "child x n = Some c" by (auto split: option.splits)
    with Cons show ?thesis by (cases x) simp_all
  qed
  then show "is_accessible (free_at p n) = is_accessible n" "own_slots (node_type (free_at p n)) = own_slots (node_type n)"
    by auto
qed

lemma free_at_ok:
  "tree_ok acc b n \<Longrightarrow> node_at p n = Some m \<Longrightarrow> is_consumed m \<Longrightarrow> tree_ok acc b (free_at p n)"
proof (induction p arbitrary: n b acc)
  case Nil
  then show ?case by (cases n) (auto simp: release_def is_consumed_def tree_ok.simps split: NodeType.splits option.splits)
next
  case (Cons x p)
  from Cons.prems(2) obtain c where c: "child x n = Some c" "node_at p c = Some m" by (auto split: option.splits)
  note t = tree_ok_child [OF Cons.prems(1) c(1)]
  show ?case using Cons.IH [OF t(2) c(2) Cons.prems(3)] tree_ok_merge [OF Cons.prems(1) c(1)] c(1) by auto
qed

text \<open>Merging changes neither the consumed blocks nor the free memory.\<close>

lemma merge_blocks:
  assumes "tree_ok acc b n" "child x n = Some c" "tree_ok (is_accessible n) (b - 1) c'"
  shows "used_blocks (merge (with_child x c' n)) low b = used_blocks (with_child x c' n) low b"
    "covering a (free_blocks (merge (with_child x c' n)) low b) = covering a (free_blocks (with_child x c' n) low b)"
    "tree_slots (merge (with_child x c' n)) \<subseteq># tree_slots (with_child x c' n)"
proof -
  let ?n = "with_child x c' n"
  have "used_blocks (merge ?n) low b = used_blocks ?n low b \<and>
      covering a (free_blocks (merge ?n) low b) = covering a (free_blocks ?n low b) \<and> tree_slots (merge ?n) \<subseteq># tree_slots ?n"
  proof (cases "mergeable ?n")
    case False
    then show ?thesis by (simp add: merge_def)
  next
    case True
    note b = tree_ok_child(1,3) [OF assms(1,2)]
    then obtain k where k: "b = Suc k" by (cases b) auto
    from True have acc: "is_accessible n" by (auto simp: mergeable_def split: if_splits)
    obtain l r where n: "left n = Some l" "right n = Some r" by (rule tree_ok_accessible [OF assms(1,2) acc])
    define l' r' where "l' = (if x then l else c')" and "r' = (if x then c' else r)"
    have w: "?n = Node (node_type n) (Some l') (Some r')" using n by (auto simp: l'_def r'_def)
    with True have d: "is_deletable l'" "is_deletable r'" by (auto simp: mergeable_def)
    have m: "merge ?n = Node (node_type n) None None" using True w by (simp add: merge_def)
    have "is_deletable (Node (node_type n) None None)"
      using acc b(2) by (auto simp: is_deletable_def)
    moreover have "own_slots (node_type n) \<subseteq># own_slots (node_type n) + s + t" for s t by (simp add: add.assoc)
    ultimately show ?thesis using d b(2) block_range_split [of a low k] unfolding m [unfolded w] w
      by (simp add: observe [of "Node _ _ _"] blocks_of_leaf k)
  qed
  then show "used_blocks (merge ?n) low b = used_blocks ?n low b"
    "covering a (free_blocks (merge ?n) low b) = covering a (free_blocks ?n low b)"
    "tree_slots (merge ?n) \<subseteq># tree_slots ?n" by auto
qed

lemma free_at_blocks:
  assumes "tree_ok acc b n" "node_at p n = Some m" "is_consumed m"
  shows "used_blocks n low b = add_mset (block_at p low b) (used_blocks (free_at p n) low b)"
    "covering a (free_blocks (free_at p n) low b) =
       covering a (free_blocks n low b) + (if a \<in> block_range (block_at p low b) then 1 else 0)"
    "tree_slots (free_at p n) \<subseteq># tree_slots n"
proof -
  have "used_blocks n low b = add_mset (block_at p low b) (used_blocks (free_at p n) low b) \<and>
    covering a (free_blocks (free_at p n) low b) =
       covering a (free_blocks n low b) + (if a \<in> block_range (block_at p low b) then 1 else 0) \<and>
    tree_slots (free_at p n) \<subseteq># tree_slots n"
    using assms
  proof (induction p arbitrary: n b acc low)
    case Nil
    then obtain t where n: "n = Node (Accessible True t) None None"
      by (cases n) (auto simp: is_consumed_def tree_ok.simps split: NodeType.splits option.splits)
    show ?case by (auto simp: n release_def free_blocks.simps used_blocks.simps tree_slots.simps own_slots_def
        split: AccessibleNodeType.splits)
  next
    case (Cons x p)
    from Cons.prems(2) obtain c where c: "child x n = Some c" "node_at p c = Some m" by (auto split: option.splits)
    note t = tree_ok_child [OF Cons.prems(1) c(1)]
    obtain k where k: "b = Suc k" using t(1) by (cases b) auto
    define c' where "c' = free_at p c"
    note IH = Cons.IH [OF t(2) c(2) Cons.prems(3), of "low_of x low k", folded c'_def, unfolded k diff_Suc_1]
    have ok: "tree_ok (is_accessible n) (b - 1) c'" unfolding c'_def by (rule free_at_ok [OF t(2) c(2) Cons.prems(3)])
    have f: "free_at (x # p) n = merge (with_child x c' n)" using c(1) by (auto simp: c'_def)
    have "used_blocks n low b = add_mset (block_at (x # p) low b) (used_blocks (with_child x c' n) low b)"
      using c(1) IH k by (cases x) (auto simp: used_blocks_eq [of n] used_blocks_eq [of "Node _ _ _"])
    moreover have "covering a (free_blocks (with_child x c' n) low b) =
       covering a (free_blocks n low b) + (if a \<in> block_range (block_at (x # p) low b) then 1 else 0)"
      using c(1) IH k by (cases x) (auto simp: free_blocks_eq [of n] free_blocks_eq [of "Node _ _ _"] is_deletable_def)
    moreover have "tree_slots (with_child x c' n) \<subseteq># tree_slots n"
      using c(1) IH by (cases x) (auto simp: tree_slots_eq [of n] tree_slots_eq [of "Node _ _ _"] intro: subset_mset.add_mono)
    ultimately show ?case unfolding f using merge_blocks(1) [OF Cons.prems(1) c(1) ok, of low]
        merge_blocks(2) [OF Cons.prems(1) c(1) ok, of a low] merge_blocks(3) [OF Cons.prems(1) c(1) ok] by auto
  qed
  then show "used_blocks n low b = add_mset (block_at p low b) (used_blocks (free_at p n) low b)"
    "covering a (free_blocks (free_at p n) low b) =
       covering a (free_blocks n low b) + (if a \<in> block_range (block_at p low b) then 1 else 0)"
    "tree_slots (free_at p n) \<subseteq># tree_slots n" by blast+
qed

text \<open>Freeing what was carved out of a leaf gives the tree back.\<close>

lemma free_carve: "is_deletable n \<Longrightarrow> free_at (right_path (length q)) (carve q n) = n"
proof (induction q arbitrary: n)
  case Nil
  then show ?case by (auto simp: deletable_iff consume_def release_def)
next
  case (Cons st q)
  obtain s t where st: "st = (s, t)" by fastforce
  from Cons.prems obtain ty where n: "n = Node (Accessible False ty) None None" using deletable_iff by blast
  show ?case using Cons.IH [of "managed_leaf t"] by (simp add: n st merge_def mergeable_def)
qed

lemma free_put_carve:
  "tree_ok acc b n \<Longrightarrow> node_at p n = Some m \<Longrightarrow> is_deletable m \<Longrightarrow>
    free_at (p @ right_path (length q)) (put_at p (carve q m) n) = n"
proof (induction p arbitrary: n b acc)
  case Nil
  then show ?case by (simp add: free_carve)
next
  case (Cons x p)
  from Cons.prems(2) obtain c where c: "child x n = Some c" "node_at p c = Some m" by (auto split: option.splits)
  note t = tree_ok_child [OF Cons.prems(1) c(1)]
  have "put_at (x # p) (carve q m) n = with_child x (put_at p (carve q m) c) n" using c(1) by auto
  then have "free_at ((x # p) @ right_path (length q)) (put_at (x # p) (carve q m) n) = merge (with_child x c n)"
    using Cons.IH [OF t(2) c(2) Cons.prems(3)] by auto
  then show ?case using merge_ok [OF Cons.prems(1) c(1)] with_child_same [OF c(1)] by simp
qed

end
