(* ===== verification/LeafIndex.thy ===== *)
theory LeafIndex
  imports AllocNode
begin

text \<open>
  \<^verbatim>\<open>LeafNodes\<close> as an index of blocks: its contract is the locale \<open>block_index\<close>, a multiset of blocks from
  which the smallest block that is large enough can be taken, interpreted on the operations of
  \<^verbatim>\<open>node.rs\<close>.
\<close>

section \<open>The contract\<close>

locale block_index =
  fixes inv :: "'i \<Rightarrow> bool" and contents :: "'i \<Rightarrow> UntypedId multiset"
    and add :: "UntypedId \<Rightarrow> 'i \<Rightarrow> 'i" and take :: "nat \<Rightarrow> 'i \<Rightarrow> (UntypedId \<times> 'i) option"
    and remove :: "UntypedId \<Rightarrow> 'i \<Rightarrow> 'i option"
  assumes add_law: "inv i \<Longrightarrow> inv (add u i) \<and> contents (add u i) = add_mset u (contents i)"
    and take_law: "inv i \<Longrightarrow> v \<in># contents i \<Longrightarrow> k \<le> size_bits v \<Longrightarrow>
      \<exists>u i'. take k i = Some (u, i') \<and> inv i' \<and> contents i = add_mset u (contents i') \<and> k \<le> size_bits u \<and>
        (\<forall>w\<in>#contents i. k \<le> size_bits w \<longrightarrow> size_bits u \<le> size_bits w)"
    and take_fails: "inv i \<Longrightarrow> \<forall>v\<in>#contents i. size_bits v < k \<Longrightarrow> take k i = None"
    and remove_law: "inv i \<Longrightarrow> u \<in># contents i \<Longrightarrow>
      \<exists>i'. remove u i = Some i' \<and> inv i' \<and> contents i = add_mset u (contents i')"
begin

lemma take_Some:
  assumes "inv i" "take k i = Some (u, i')"
  shows "inv i'" "contents i = add_mset u (contents i')" "k \<le> size_bits u"
    "w \<in># contents i \<Longrightarrow> k \<le> size_bits w \<Longrightarrow> size_bits u \<le> size_bits w"
proof -
  from assms take_fails obtain v where "v \<in># contents i" "k \<le> size_bits v"
    by (metis not_le option.distinct(1))
  from take_law [OF assms(1) this] assms(2)
  show "inv i'" "contents i = add_mset u (contents i')" "k \<le> size_bits u"
    "w \<in># contents i \<Longrightarrow> k \<le> size_bits w \<Longrightarrow> size_bits u \<le> size_bits w" by auto
qed

lemma add_remove: "inv i \<Longrightarrow> \<exists>i'. remove u (add u i) = Some i' \<and> inv i' \<and> contents i' = contents i"
  using add_law [of i u] remove_law [of "add u i" u] by auto

end

section \<open>\<^verbatim>\<open>LeafNodes\<close> is a block index\<close>

definition leaves_mset :: "LeafNodes \<Rightarrow> UntypedId multiset" where
  "leaves_mset lv = mset (concat (map snd lv))"

definition leaves_ok :: "LeafNodes \<Rightarrow> bool" where
  "leaves_ok lv \<longleftrightarrow> btree_ok lv \<and> (\<forall>(k, ids)\<in>set lv. ids \<noteq> [] \<and> (\<forall>u\<in>set ids. size_bits u = k))"

definition leaves_at :: "nat \<Rightarrow> LeafNodes \<Rightarrow> UntypedId list" where
  "leaves_at k lv = (case map_of lv k of Some ids \<Rightarrow> ids | None \<Rightarrow> [])"

lemma leaves_at_absent: "k \<notin> fst ` set lv \<Longrightarrow> leaves_at k lv = []"
  by (simp add: leaves_at_def map_of_eq_None_iff [THEN iffD2])

lemma leaves_insert:
  "btree_ok lv \<Longrightarrow> leaves_mset (btree_insert k ids lv) + mset (leaves_at k lv) = leaves_mset lv + mset ids"
proof (induction k ids lv rule: btree_insert.induct)
  case (2 k ids k' ids' t)
  show ?case
  proof (cases "k < k'")
    case True
    with "2.prems" have "k \<notin> fst ` set ((k', ids') # t)" by force
    with True show ?thesis by (simp add: leaves_mset_def leaves_at_absent)
  next
    case False
    then show ?thesis using 2 by (auto simp: leaves_mset_def leaves_at_def ac_simps)
  qed
qed (simp add: leaves_mset_def leaves_at_def)

lemma leaves_remove:
  "btree_ok lv \<Longrightarrow> leaves_mset (btree_remove k lv) + mset (leaves_at k lv) = leaves_mset lv"
proof (induction lv)
  case (Cons p lv)
  then show ?case
  proof (cases "fst p = k")
    case True
    with Cons.prems have a: "k \<notin> fst ` set lv" by force
    then have "btree_remove k lv = lv" unfolding btree_remove_def by (intro filter_True) force
    with True a show ?thesis by (cases p) (simp add: leaves_mset_def leaves_at_def btree_remove_def)
  next
    case False
    with Cons show ?thesis by (cases p) (simp add: leaves_mset_def leaves_at_def btree_remove_def)
  qed
qed (simp add: leaves_mset_def leaves_at_def btree_remove_def)

lemma leaves_at_member: "u \<in> set (leaves_at k lv) \<Longrightarrow> \<exists>ids. (k, ids) \<in> set lv \<and> u \<in> set ids"
  by (cases "map_of lv k") (auto simp: leaves_at_def dest: map_of_SomeD)

lemma leaves_at_in: "leaves_ok lv \<Longrightarrow> u \<in># leaves_mset lv \<longleftrightarrow> u \<in> set (leaves_at (size_bits u) lv)"
proof -
  assume ok: "leaves_ok lv"
  then have b: "btree_ok lv" by (simp add: leaves_ok_def)
  show ?thesis
  proof
    assume "u \<in># leaves_mset lv"
    then obtain k ids where k: "(k, ids) \<in> set lv" "u \<in> set ids" by (auto simp: leaves_mset_def)
    with ok have "k = size_bits u" by (force simp: leaves_ok_def)
    with k btree_set_iff [OF b] show "u \<in> set (leaves_at (size_bits u) lv)" by (simp add: leaves_at_def)
  next
    assume "u \<in> set (leaves_at (size_bits u) lv)"
    from leaves_at_member [OF this] show "u \<in># leaves_mset lv" by (force simp: leaves_mset_def)
  qed
qed

lemma leaves_at_sizes: "leaves_ok lv \<Longrightarrow> u \<in> set (leaves_at k lv) \<Longrightarrow> size_bits u = k"
  using leaves_at_member by (fastforce simp: leaves_ok_def)

text \<open>Replacing the list of one size, dropping the size when the list is empty.\<close>

definition set_leaves :: "nat \<Rightarrow> UntypedId list \<Rightarrow> LeafNodes \<Rightarrow> LeafNodes" where
  "set_leaves k ids lv = (if length ids = 0 then btree_remove k lv else btree_insert k ids lv)"

lemma set_leaves_ok:
  assumes "leaves_ok lv" "\<forall>u\<in>set ids. size_bits u = k"
  shows "leaves_ok (set_leaves k ids lv)" "leaves_mset (set_leaves k ids lv) + mset (leaves_at k lv) = leaves_mset lv + mset ids"
proof -
  have b: "btree_ok lv" using assms(1) by (simp add: leaves_ok_def)
  show "leaves_mset (set_leaves k ids lv) + mset (leaves_at k lv) = leaves_mset lv + mset ids"
    using leaves_insert [OF b] leaves_remove [OF b] by (auto simp: set_leaves_def)
  have "set (btree_remove k lv) \<subseteq> set lv" by (auto simp: btree_remove_def)
  with assms b show "leaves_ok (set_leaves k ids lv)"
    by (auto simp: set_leaves_def leaves_ok_def dest!: set_btree_insert)
qed

lemma add_leaf_eq: "add_leaf u lv = set_leaves (size_bits u) (leaves_at (size_bits u) lv @ [u]) lv"
  by (auto simp: add_leaf_def set_leaves_def leaves_at_def split: option.splits)

lemma leaves_at_nonempty: "leaves_ok lv \<Longrightarrow> map_of lv k = Some ids \<Longrightarrow> ids \<noteq> []"
  by (auto simp: leaves_ok_def dest!: map_of_SomeD)

lemma pop_leaf_spec:
  assumes ok: "leaves_ok lv" and k: "map_of lv k = Some ids"
  shows "\<exists>u lv'. pop_leaf k lv = Some (u, lv') \<and> leaves_ok lv' \<and> leaves_mset lv = add_mset u (leaves_mset lv') \<and> size_bits u = k"
proof -
  have ne: "ids \<noteq> []" using leaves_at_nonempty [OF ok k] .
  have at: "leaves_at k lv = ids" using k by (simp add: leaves_at_def)
  then have s: "\<forall>u\<in>set ids. size_bits u = k" using leaves_at_sizes [OF ok] by blast
  have "\<forall>u\<in>set (butlast ids). size_bits u = k" using s by (auto dest: in_set_butlastD)
  note r = set_leaves_ok [OF ok this]
  have "mset ids = add_mset (last ids) (mset (butlast ids))" using ne by (metis append_butlast_last_id mset.simps mset_append add_mset_add_single)
  then have "leaves_mset lv = add_mset (last ids) (leaves_mset (set_leaves k (butlast ids) lv))"
    using r(2) at by simp
  moreover have "pop_leaf k lv = Some (last ids, set_leaves k (butlast ids) lv)"
    using ne unfolding pop_leaf_def set_leaves_def Let_def by (simp add: k rust_assert_def)
  ultimately show ?thesis using r(1) s ne by auto
qed

lemma remove_paddr_mset:
  "u \<in> set ids \<Longrightarrow> \<forall>v\<in>set ids. size_bits v = size_bits u \<Longrightarrow> mset ids = add_mset u (mset (remove_paddr (paddr u) ids))"
proof (induction ids)
  case (Cons v ids)
  show ?case
  proof (cases "paddr v = paddr u")
    case True
    moreover have "size_bits v = size_bits u" using Cons.prems(2) by (meson list.set_intros(1))
    ultimately show ?thesis by (simp add: UntypedId.equality)
  next
    case False
    with Cons.prems(1) have "u \<in> set ids" by auto
    moreover have "\<forall>w\<in>set ids. size_bits w = size_bits u" using Cons.prems(2) by (meson list.set_intros(2))
    ultimately have "mset ids = add_mset u (mset (remove_paddr (paddr u) ids))" by (rule Cons.IH)
    with False show ?thesis by (simp add: add_mset_commute [of v u])
  qed
qed simp

lemma remove_paddr_subset: "set (remove_paddr a ids) \<subseteq> set ids"
  by (induction ids) auto

lemma remove_leaf_spec:
  assumes ok: "leaves_ok lv" and u: "u \<in># leaves_mset lv"
  shows "\<exists>lv'. remove_leaf u lv = Some lv' \<and> leaves_ok lv' \<and> leaves_mset lv = add_mset u (leaves_mset lv')"
proof -
  from u have at: "u \<in> set (leaves_at (size_bits u) lv)" using leaves_at_in [OF ok] by simp
  then obtain ids where k: "map_of lv (size_bits u) = Some ids" and l: "leaves_at (size_bits u) lv = ids"
    by (cases "map_of lv (size_bits u)") (auto simp: leaves_at_def)
  have s: "\<forall>v\<in>set ids. size_bits v = size_bits u" using leaves_at_sizes [OF ok, of _ "size_bits u"] l by blast
  then have "\<forall>v\<in>set (remove_paddr (paddr u) ids). size_bits v = size_bits u" using remove_paddr_subset by blast
  note r = set_leaves_ok [OF ok this]
  have "leaves_mset lv = add_mset u (leaves_mset (set_leaves (size_bits u) (remove_paddr (paddr u) ids) lv))"
    using r(2) remove_paddr_mset [OF _ s] at l by simp
  moreover have "remove_leaf u lv = Some (set_leaves (size_bits u) (remove_paddr (paddr u) ids) lv)"
    by (simp add: remove_leaf_def k set_leaves_def Let_def)
  ultimately show ?thesis using r(1) by auto
qed

text \<open>The first key above a bound is the least one.\<close>

lemma find_first_above:
  assumes "btree_ok lv" "find (\<lambda>s. k < s) (map fst lv) = Some s"
  shows "k < s" "s \<in> fst ` set lv" "t \<in> fst ` set lv \<Longrightarrow> k < t \<Longrightarrow> s \<le> t"
  using assms by (induction lv) (auto split: if_splits)

lemma get_leaf_spec:
  assumes ok: "leaves_ok lv" and v: "v \<in># leaves_mset lv" "k \<le> size_bits v"
  shows "\<exists>u lv'. get_leaf k lv = Some (u, lv') \<and> leaves_ok lv' \<and> leaves_mset lv = add_mset u (leaves_mset lv') \<and>
    k \<le> size_bits u \<and> (\<forall>w\<in>#leaves_mset lv. k \<le> size_bits w \<longrightarrow> size_bits u \<le> size_bits w)"
proof -
  have b: "btree_ok lv" using ok by (simp add: leaves_ok_def)
  have key: "size_bits w \<in> fst ` set lv" if "w \<in># leaves_mset lv" for w
    using that leaves_at_member leaves_at_in [OF ok] by force
  show ?thesis
  proof (cases "map_of lv k")
    case (Some ids)
    with pop_leaf_spec [OF ok Some] show ?thesis by (auto simp: get_leaf_def)
  next
    case None
    then have nk: "k \<notin> fst ` set lv" by (simp add: map_of_eq_None_iff)
    with key [OF v(1)] v(2) have "k < size_bits v" by (metis le_neq_implies_less)
    with key [OF v(1)] obtain s where s: "find (\<lambda>s. k < s) (map fst lv) = Some s"
      by (cases "find (\<lambda>s. k < s) (map fst lv)") (auto simp: find_None_iff)
    note f = find_first_above [OF b s]
    from f(2) obtain ids where "map_of lv s = Some ids" by (metis map_of_eq_None_iff option.exhaust)
    from pop_leaf_spec [OF ok this] obtain u lv' where
      p: "pop_leaf s lv = Some (u, lv')" "leaves_ok lv'" "leaves_mset lv = add_mset u (leaves_mset lv')" "size_bits u = s" by blast
    have "s \<le> size_bits w" if "w \<in># leaves_mset lv" "k \<le> size_bits w" for w
      using f(3) key [OF that(1)] that(2) nk by (metis le_neq_implies_less)
    with p s f(1) None show ?thesis by (auto simp: get_leaf_def rust_assert_def)
  qed
qed

lemma get_leaf_fails:
  assumes ok: "leaves_ok lv" and v: "\<forall>v\<in>#leaves_mset lv. size_bits v < k"
  shows "get_leaf k lv = None"
proof -
  have small: "s < k" if "s \<in> fst ` set lv" for s
  proof -
    from that obtain ids where "(s, ids) \<in> set lv" by auto
    with ok obtain u where "u \<in> set ids" "size_bits u = s" "(s, ids) \<in> set lv"
      by (fastforce simp: leaves_ok_def neq_Nil_conv)
    then show "s < k" using v by (force simp: leaves_mset_def)
  qed
  then have "map_of lv k = None" by (metis less_irrefl map_of_eq_None_iff)
  moreover have "find (\<lambda>s. k < s) (map fst lv) = None" using small by (fastforce simp: find_None_iff)
  ultimately show ?thesis by (simp add: get_leaf_def rust_assert_def)
qed

interpretation idx: block_index leaves_ok leaves_mset add_leaf get_leaf remove_leaf
proof unfold_locales
  fix i u assume i: "leaves_ok i"
  have "\<forall>v\<in>set (leaves_at (size_bits u) i @ [u]). size_bits v = size_bits u" using leaves_at_sizes [OF i] by auto
  from set_leaves_ok [OF i this]
  show "leaves_ok (add_leaf u i) \<and> leaves_mset (add_leaf u i) = add_mset u (leaves_mset i)"
    by (simp add: add_leaf_eq)
qed (use get_leaf_spec get_leaf_fails remove_leaf_spec in blast)+

section \<open>Free space\<close>

lemma consumable_fold:
  assumes "\<forall>(k, ids)\<in>set lv. k < 64 \<and> (\<forall>u\<in>set ids. size_bits u = k)"
  shows "foldl (\<lambda>acc (k, ids). usize_add acc (usize_mul (usize_bit k) (length ids))) a lv mod 2 ^ 64 =
    (a + (\<Sum>u\<in>#leaves_mset lv. 2 ^ size_bits u)) mod 2 ^ 64"
  using assms
proof (induction lv arbitrary: a)
  case Nil
  then show ?case by (simp add: leaves_mset_def)
next
  case (Cons p lv)
  obtain k ids where p: "p = (k, ids)" by fastforce
  with Cons.prems have k: "k < 64" "\<forall>u\<in>set ids. size_bits u = k" by auto
  then have "(\<Sum>u\<in>#mset ids. 2 ^ size_bits u) = 2 ^ k * length ids"
    by (induction ids) (auto simp: algebra_simps)
  then show ?case using Cons k(1) by (auto simp: p leaves_mset_def usize_add_def usize_mul_def mod_simps add.assoc)
qed

text \<open>\<^verbatim>\<open>consumable_space\<close> is the sum of the sizes of the free blocks, as a \<^verbatim>\<open>usize\<close>.\<close>

lemma consumable_space_sum:
  assumes "leaves_ok lv" "\<forall>u\<in>#leaves_mset lv. size_bits u < 64"
  shows "consumable_space lv = (\<Sum>u\<in>#leaves_mset lv. 2 ^ size_bits u) mod 2 ^ 64"
proof -
  have "\<forall>(k, ids)\<in>set lv. k < 64 \<and> (\<forall>u\<in>set ids. size_bits u = k)"
  proof clarify
    fix k ids assume k: "(k, ids) \<in> set lv"
    with assms(1) have "ids \<noteq> []" "\<forall>u\<in>set ids. size_bits u = k" by (auto simp: leaves_ok_def)
    moreover from this k have "size_bits (hd ids) < 64" using assms(2) by (force simp: leaves_mset_def)
    ultimately show "k < 64 \<and> (\<forall>u\<in>set ids. size_bits u = k)" by auto
  qed
  from consumable_fold [OF this, of 0] show ?thesis
    by (cases lv rule: rev_cases) (auto simp: consumable_space_def usize_add_def leaves_mset_def split: prod.splits)
qed

end
