(* ===== verification/AllocatorProps.thy ===== *)
theory AllocatorProps
  imports Allocator AllocTree LeafIndex
begin

text \<open>
  The allocator against its specification. The invariant \<open>alloc_ok\<close> ties the derivation tree, the leaf
  index and the slots of the allocator's CNode together; \<open>create_object\<close> and \<open>revoke_and_free\<close> keep it and
  act on the free and the consumed blocks as an allocator of memory does.
\<close>

section \<open>The invariant\<close>

definition al_free :: "'w Allocator \<Rightarrow> UntypedId multiset" where
  "al_free al = free_blocks (al_tree al) 0 64"

definition al_used :: "'w Allocator \<Rightarrow> UntypedId multiset" where
  "al_used al = used_blocks (al_tree al) 0 64"

definition alloc_ok :: "'w Allocator \<Rightarrow> bool" where
  "alloc_ok al \<longleftrightarrow> tree_ok False 64 (al_tree al) \<and> \<not> is_accessible (al_tree al)
     \<and> leaves_ok (al_leaves al) \<and> leaves_mset (al_leaves al) = al_free al
     \<and> cr_ok (al_cregion al) \<and> tree_slots (al_tree al) \<subseteq># mset_set (cr_used (al_cregion al))"

text \<open>The kernel accepts the allocator's retypes, and its revocations.\<close>

definition retype_accepts :: "('w, 'e) cap_kernel \<Rightarrow> bool" where
  "retype_accepts K \<longleftrightarrow> (\<forall>w p bp dst s n. fst (k_retype K w p bp dst s n) = Inr ())"

definition revoke_accepts :: "('w, 'e) cap_kernel \<Rightarrow> bool" where
  "revoke_accepts K \<longleftrightarrow> (\<forall>w p. fst (k_revoke K w p) = Inr ())"

lemma al_retype_accepts: "retype_accepts K \<Longrightarrow> \<exists>w. al_retype K p bp dst s al = Some (al\<lparr>al_world := w\<rparr>)"
proof -
  assume "retype_accepts K"
  then have "fst (k_retype K (al_world al) p bp dst s 1) = Inr ()" by (simp add: retype_accepts_def)
  then obtain w where "k_retype K (al_world al) p bp dst s 1 = (Inr (), w)" by (metis prod.collapse)
  then show ?thesis by (auto simp: al_retype_def)
qed

lemma al_revoke_accepts: "revoke_accepts K \<Longrightarrow> \<exists>w. al_revoke K p al = Some (Inr (), al\<lparr>al_world := w\<rparr>)"
proof -
  assume "revoke_accepts K"
  then have "fst (k_revoke K (al_world al) p) = Inr ()" by (simp add: revoke_accepts_def)
  then obtain w where "k_revoke K (al_world al) p = (Inr (), w)" by (metis prod.collapse)
  then show ?thesis by (auto simp: al_revoke_def)
qed

lemma accessible_cptr:
  assumes "is_accessible n"
  shows "\<exists>p. node_local_cptr c n = Some p" "\<exists>p. node_relative_cptr c n = Some p"
proof -
  from assms obtain k t where "node_type n = Accessible k t"
    by (cases "node_type n") (auto simp: is_accessible_def)
  then show "\<exists>p. node_local_cptr c n = Some p" "\<exists>p. node_relative_cptr c n = Some p"
    using assms by (simp_all add: node_local_cptr_def node_relative_cptr_def get_accessible_node_type_def rust_assert_def)
qed

section \<open>Splitting\<close>

lemma left_half: "root_block (p @ [False]) = \<lparr>paddr = paddr (root_block p), size_bits = 63 - length p\<rparr>"
  by (simp add: block_at_append)

lemma right_half:
  assumes "length p < 64"
  shows "root_block (p @ [True]) =
    \<lparr>paddr = usize_add (paddr (root_block p)) (usize_bit (63 - length p)), size_bits = 63 - length p\<rparr>"
proof -
  obtain k where k: "64 - length p = Suc k" "63 - length p = k" using assms that [of "63 - length p"] by simp
  have "paddr (root_block p) + 2 ^ Suc k \<le> 2 ^ 64" using block_at_range [of p 64 0] assms k by simp
  then have "paddr (root_block p) + 2 ^ k < 2 ^ 64"
    by (rule less_le_trans [rotated]) simp
  moreover have "k < 64" using k assms by linarith
  ultimately show ?thesis by (simp add: block_at_append k)
qed

lemma alloc_pair:
  assumes "cr_ok c" "2 \<le> card (cr_free c)"
  shows "\<exists>s c1 t c2. alloc_unwrap c = Some (s, c1) \<and> alloc_unwrap c1 = Some (t, c2) \<and> cr_ok c2 \<and>
    mset_set (cr_used c2) = add_mset s (add_mset t (mset_set (cr_used c))) \<and>
    s \<noteq> t \<and> s \<in> cr_free c \<and> t \<in> cr_free c \<and> cr_free c2 = cr_free c - {s, t}"
proof -
  from pool.alloc_two [OF assms] obtain s c1 t c2 where
    a: "alloc_unwrap c = Some (s, c1)" "alloc_unwrap c1 = Some (t, c2)" "cr_ok c2" "s \<noteq> t" "s \<in> cr_free c" "t \<in> cr_free c"
      "cr_free c2 = cr_free c - {s, t}" "cr_used c2 = insert s (insert t (cr_used c))" by blast
  have n: "s \<notin> cr_used c" "t \<notin> cr_used c" using pool.disjoint [OF assms(1)] a(5,6) by auto
  have "mset_set (cr_used c2) = add_mset s (add_mset t (mset_set (cr_used c)))"
    using n a(4) pool.finite_used [OF assms(1)] by (simp add: a(8))
  with a show ?thesis by (intro exI [of _ s] exI [of _ c1] exI [of _ t] exI [of _ c2]) simp
qed

lemma split_untyped_spec:
  assumes K: "retype_accepts K" and p: "node_at p (al_tree al) = Some m" "is_deletable m" "length p < 64"
    and c: "cr_ok (al_cregion al)" "2 \<le> card (cr_free (al_cregion al))"
  shows "\<exists>s t c w. split_untyped K (root_block p) al = Some (root_block (p @ [False]), root_block (p @ [True]),
      al\<lparr>al_cregion := c, al_world := w,
        al_tree := put_at p (Node (node_type m) (Some (managed_leaf s)) (Some (managed_leaf t))) (al_tree al),
        al_leaves := add_leaf (root_block (p @ [True])) (add_leaf (root_block (p @ [False])) (al_leaves al))\<rparr>) \<and>
    cr_ok c \<and> mset_set (cr_used c) = add_mset s (add_mset t (mset_set (cr_used (al_cregion al)))) \<and>
    s \<noteq> t \<and> {s, t} \<subseteq> cr_free (al_cregion al) \<and> cr_free c = cr_free (al_cregion al) - {s, t}"
proof -
  from alloc_pair [OF c] obtain s c1 t c2 where
    a: "alloc_unwrap (al_cregion al) = Some (s, c1)" "alloc_unwrap c1 = Some (t, c2)" and
    r: "cr_ok c2" "mset_set (cr_used c2) = add_mset s (add_mset t (mset_set (cr_used (al_cregion al))))" "s \<noteq> t"
      "s \<in> cr_free (al_cregion al)" "t \<in> cr_free (al_cregion al)" "cr_free c2 = cr_free (al_cregion al) - {s, t}" by blast
  obtain cp where cp: "node_local_cptr c2 m = Some cp" using accessible_cptr(1) p(2) deletable_not_consumed(2) by blast
  define nb where "nb = usize_sub (size_bits (root_block p)) 1"
  have nb: "nb = 63 - length p" using p(3) by (simp add: nb_def)
  obtain w1 where w1: "al_retype K cp (BP_Untyped nb) (cr_root c2) s (al\<lparr>al_cregion := c2\<rparr>) = Some (al\<lparr>al_cregion := c2, al_world := w1\<rparr>)"
    using al_retype_accepts [OF K] by fastforce
  obtain w where w: "al_retype K cp (BP_Untyped nb) (cr_root c2) t (al\<lparr>al_cregion := c2, al_world := w1\<rparr>) = Some (al\<lparr>al_cregion := c2, al_world := w\<rparr>)"
    using al_retype_accepts [OF K, of cp "BP_Untyped nb" "cr_root c2" t "al\<lparr>al_cregion := c2, al_world := w1\<rparr>"] by auto
  have "split_untyped K (root_block p) al = Some (root_block (p @ [False]), root_block (p @ [True]),
      al\<lparr>al_cregion := c2, al_world := w,
        al_tree := put_at p (Node (node_type m) (Some (managed_leaf s)) (Some (managed_leaf t))) (al_tree al),
        al_leaves := add_leaf (root_block (p @ [True])) (add_leaf (root_block (p @ [False])) (al_leaves al))\<rparr>)"
    using p cp w1 w
    by (simp add: split_untyped_def a nb_def [symmetric] get_node_path set_node_path [OF _ p(1)] deletable_not_consumed rust_assert_def
        left_half right_half [OF p(3)] managed_leaf_def nb Let_def)
  with r show ?thesis by auto
qed


text \<open>The chain of splits, before the block at its end is consumed.\<close>

fun opened :: "(nat \<times> nat) list \<Rightarrow> Node \<Rightarrow> Node" where
  "opened [] n = n"
| "opened ((s, t) # q) n = Node (node_type n) (Some (managed_leaf s)) (Some (opened q (managed_leaf t)))"

lemma opened_end: "is_deletable n \<Longrightarrow> \<exists>m. node_at (right_path (length q)) (opened q n) = Some m \<and> is_deletable m \<and>
    put_at (right_path (length q)) (consume m) (opened q n) = carve q n"
proof (induction q arbitrary: n)
  case (Cons st q)
  obtain s t where st: "st = (s, t)" by fastforce
  from Cons.IH [of "managed_leaf t"] show ?case by (auto simp: st)
qed simp

lemma split_loop_spec:
  assumes "retype_accepts K" "node_at p (al_tree al) = Some m" "is_deletable m" "length p + n \<le> 64"
    "cr_ok (al_cregion al)" "2 * n \<le> card (cr_free (al_cregion al))" "leaves_ok (al_leaves al)"
  shows "\<exists>q c w lv. split_loop n K (root_block p) al = Some (root_block (p @ right_path n),
      al\<lparr>al_cregion := c, al_world := w, al_tree := put_at p (opened q m) (al_tree al), al_leaves := lv\<rparr>) \<and>
    length q = n \<and> leaves_ok lv \<and>
    leaves_mset lv = leaves_mset (al_leaves al) + left_blocks n (paddr (root_block p)) (64 - length p) \<and>
    cr_ok c \<and> mset_set (cr_used c) = mset_set (cr_used (al_cregion al)) + slots_of_pairs q \<and>
    mset_set (cr_free (al_cregion al)) = mset_set (cr_free c) + slots_of_pairs q"
  using assms
proof (induction n arbitrary: p al m)
  case 0
  then show ?case using put_at_same [OF "0.prems"(2)]
    by (intro exI [of _ "[]"] exI [of _ "al_cregion al"] exI [of _ "al_world al"] exI [of _ "al_leaves al"]) simp
next
  case (Suc n)
  let ?c = "al_cregion al" and ?T = "al_tree al"
  have l: "length p < 64" "2 \<le> card (cr_free ?c)" using Suc.prems(4,6) by auto
  from split_untyped_spec [OF Suc.prems(1-3) l(1) Suc.prems(5) l(2)] obtain s t c w where
    sp: "split_untyped K (root_block p) al = Some (root_block (p @ [False]), root_block (p @ [True]),
      al\<lparr>al_cregion := c, al_world := w,
        al_tree := put_at p (Node (node_type m) (Some (managed_leaf s)) (Some (managed_leaf t))) ?T,
        al_leaves := add_leaf (root_block (p @ [True])) (add_leaf (root_block (p @ [False])) (al_leaves al))\<rparr>)" and
    c: "cr_ok c" "mset_set (cr_used c) = add_mset s (add_mset t (mset_set (cr_used ?c)))" "s \<noteq> t" "{s, t} \<subseteq> cr_free ?c"
      "cr_free c = cr_free ?c - {s, t}" by blast
  define lv where "lv = add_leaf (root_block (p @ [False])) (al_leaves al)"
  have lv: "leaves_ok lv" "leaves_mset lv = add_mset (root_block (p @ [False])) (leaves_mset (al_leaves al))"
    using idx.add_law [OF Suc.prems(7)] by (simp_all add: lv_def)
  from idx.add_remove [OF lv(1), of "root_block (p @ [True])"] obtain lv' where
    rm: "remove_leaf (root_block (p @ [True])) (add_leaf (root_block (p @ [True])) lv) = Some lv'" "leaves_ok lv'"
      "leaves_mset lv' = leaves_mset lv" by blast
  define T1 where "T1 = put_at p (Node (node_type m) (Some (managed_leaf s)) (Some (managed_leaf t))) ?T"
  define al1 where "al1 = al\<lparr>al_cregion := c, al_world := w, al_tree := T1, al_leaves := lv'\<rparr>"
  have fin: "finite (cr_free ?c)" by (rule pool.finite_free [OF Suc.prems(5)])
  have card: "2 * n \<le> card (cr_free (al_cregion al1))"
    using Suc.prems(6) c(3-5) fin by (simp add: al1_def card_Diff_subset)
  have at: "node_at (p @ [True]) (al_tree al1) = Some (managed_leaf t)"
    by (simp add: al1_def T1_def node_at_append node_at_put [OF Suc.prems(2)])
  have len: "length (p @ [True]) + n \<le> 64" "64 - length p = Suc (63 - length p)" using Suc.prems(4) by auto
  have "cr_ok (al_cregion al1)" "leaves_ok (al_leaves al1)" using c(1) rm(2) by (simp_all add: al1_def)
  from Suc.IH [OF Suc.prems(1) at managed_leaf_deletable(1) len(1) this(1) card this(2)] obtain q c' w' lv'' where
    IH: "split_loop n K (root_block (p @ [True])) al1 = Some (root_block ((p @ [True]) @ right_path n),
      al1\<lparr>al_cregion := c', al_world := w', al_tree := put_at (p @ [True]) (opened q (managed_leaf t)) (al_tree al1), al_leaves := lv''\<rparr>)"
      "length q = n" "leaves_ok lv''"
      "leaves_mset lv'' = leaves_mset (al_leaves al1) + left_blocks n (paddr (root_block (p @ [True]))) (64 - length (p @ [True]))"
      "cr_ok c'" "mset_set (cr_used c') = mset_set (cr_used (al_cregion al1)) + slots_of_pairs q"
      "mset_set (cr_free (al_cregion al1)) = mset_set (cr_free c') + slots_of_pairs q" by blast
  have tree: "put_at (p @ [True]) (opened q (managed_leaf t)) (al_tree al1) = put_at p (opened ((s, t) # q) m) ?T"
    using put_at_append [OF Suc.prems(2)] by (simp add: al1_def T1_def)
  have run: "split_loop (Suc n) K (root_block p) al = Some (root_block (p @ right_path (Suc n)),
      al\<lparr>al_cregion := c', al_world := w', al_tree := put_at p (opened ((s, t) # q) m) ?T, al_leaves := lv''\<rparr>)"
    using IH(1) unfolding tree by (simp add: sp lv_def [symmetric] rm(1) T1_def [symmetric]) (simp add: al1_def)
  have leaves: "leaves_mset lv'' = leaves_mset (al_leaves al) + left_blocks (Suc n) (paddr (root_block p)) (64 - length p)"
    using IH(4) rm(3) lv(2) len(2) by (simp add: al1_def left_half block_at_append)
  have ins: "cr_free ?c = insert s (insert t (cr_free c))" using c(4,5) by auto
  have "finite (cr_free c)" "s \<notin> cr_free c" "t \<notin> cr_free c" using c(5) fin by auto
  with c(3) have free: "mset_set (cr_free ?c) = add_mset s (add_mset t (mset_set (cr_free c)))"
    unfolding ins by simp
  show ?case
    using run leaves IH(2,3,5-7) c(2) free
    by (intro exI [of _ "(s, t) # q"] exI [of _ c'] exI [of _ w'] exI [of _ lv'']) (simp add: al1_def)
qed


section \<open>Creating an object\<close>

lemma set_consumed_accessible: "is_deletable m \<Longrightarrow> set_consumed True m = Some (consume m)"
  by (auto simp: deletable_iff set_consumed_def consume_def)

lemma consume_accessible: "is_deletable m \<Longrightarrow> is_accessible (consume m)"
  by (auto simp: deletable_iff consume_def)

text \<open>
  What \<open>create_object\<close> does to the state: the leaf it takes is carved, and the result is the block at the
  end of the carving.
\<close>

lemma create_object_path:
  assumes ok: "alloc_ok al" and K: "retype_accepts K"
    and v: "v \<in># al_free al" "physical_size_bits (k_sizes K) bp \<le> size_bits v"
      "2 * (size_bits v - physical_size_bits (k_sizes K) bp) \<le> card (cr_free (al_cregion al))"
  shows "\<exists>p m q al' n. create_object K dst slot bp al = Some (root_block (p @ right_path n), al') \<and>
    node_at p (al_tree al) = Some m \<and> is_deletable m \<and> length q = n \<and> n + physical_size_bits (k_sizes K) bp = 64 - length p \<and>
    (\<forall>w\<in>#al_free al. physical_size_bits (k_sizes K) bp \<le> size_bits w \<longrightarrow> 64 - length p \<le> size_bits w) \<and>
    al_tree al' = put_at p (carve q m) (al_tree al) \<and> leaves_ok (al_leaves al') \<and>
    add_mset (root_block p) (leaves_mset (al_leaves al')) = leaves_mset (al_leaves al) + left_blocks n (paddr (root_block p)) (64 - length p) \<and>
    cr_ok (al_cregion al') \<and> mset_set (cr_used (al_cregion al')) = mset_set (cr_used (al_cregion al)) + slots_of_pairs q \<and>
    mset_set (cr_free (al_cregion al)) = mset_set (cr_free (al_cregion al')) + slots_of_pairs q"
proof -
  define k where "k = physical_size_bits (k_sizes K) bp"
  note o = ok [unfolded alloc_ok_def]
  have lv: "leaves_ok (al_leaves al)" and free: "leaves_mset (al_leaves al) = al_free al" and cr: "cr_ok (al_cregion al)"
    and tree: "tree_ok False 64 (al_tree al)" using o by auto
  from idx.take_law [OF lv] v(1,2) obtain u lv1 where
    g: "get_leaf k (al_leaves al) = Some (u, lv1)" "leaves_ok lv1" "leaves_mset (al_leaves al) = add_mset u (leaves_mset lv1)"
      "k \<le> size_bits u" and min: "\<forall>w\<in>#al_free al. k \<le> size_bits w \<longrightarrow> size_bits u \<le> size_bits w"
    unfolding free k_def by blast
  have "u \<in># al_free al" using g(3) free by simp
  then obtain p m where p: "node_at p (al_tree al) = Some m" "is_deletable m" "u = root_block p"
    using free_block_path unfolding al_free_def by blast
  have len: "length p \<le> 64" using tree_ok_put [OF tree p(1)] by blast
  have su: "size_bits u = 64 - length p" by (simp add: p(3))
  define n where "n = size_bits u - k"
  have n: "length p + n \<le> 64" "n + k = 64 - length p" using len g(4) su by (simp_all add: n_def)
  have slots: "2 * n \<le> card (cr_free (al_cregion al))" using v min k_def n_def by (metis diff_le_mono le_trans mult_le_mono2)
  have "\<exists>q c w lv. split_loop n K (root_block p) (al\<lparr>al_leaves := lv1\<rparr>) = Some (root_block (p @ right_path n),
      (al\<lparr>al_leaves := lv1\<rparr>)\<lparr>al_cregion := c, al_world := w, al_tree := put_at p (opened q m) (al_tree al), al_leaves := lv\<rparr>) \<and>
    length q = n \<and> leaves_ok lv \<and> leaves_mset lv = leaves_mset lv1 + left_blocks n (paddr (root_block p)) (64 - length p) \<and>
    cr_ok c \<and> mset_set (cr_used c) = mset_set (cr_used (al_cregion al)) + slots_of_pairs q \<and>
    mset_set (cr_free (al_cregion al)) = mset_set (cr_free c) + slots_of_pairs q"
    using split_loop_spec [OF K, of p "al\<lparr>al_leaves := lv1\<rparr>" m n] p n(1) cr slots g(2) by simp
  then obtain q c w lv2 where
    s: "split_loop n K (root_block p) (al\<lparr>al_leaves := lv1\<rparr>) = Some (root_block (p @ right_path n),
      (al\<lparr>al_leaves := lv1\<rparr>)\<lparr>al_cregion := c, al_world := w, al_tree := put_at p (opened q m) (al_tree al), al_leaves := lv2\<rparr>)"
      "length q = n" "leaves_ok lv2" "leaves_mset lv2 = leaves_mset lv1 + left_blocks n (paddr (root_block p)) (64 - length p)"
      "cr_ok c" "mset_set (cr_used c) = mset_set (cr_used (al_cregion al)) + slots_of_pairs q"
      "mset_set (cr_free (al_cregion al)) = mset_set (cr_free c) + slots_of_pairs q" by blast
  define al1 where "al1 = al\<lparr>al_cregion := c, al_world := w, al_tree := put_at p (opened q m) (al_tree al), al_leaves := lv2\<rparr>"
  have loop: "(if k < size_bits u then split_loop (size_bits u - k) K u (al\<lparr>al_leaves := lv1\<rparr>) else Some (u, al\<lparr>al_leaves := lv1\<rparr>))
      = Some (root_block (p @ right_path n), al1)"
  proof (cases "k < size_bits u")
    case True
    then show ?thesis using s(1) [folded p(3)] unfolding n_def al1_def by simp
  next
    case False
    then have "n = 0" by (simp add: n_def)
    then show ?thesis using s(1) False by (simp add: p(3) al1_def)
  qed
  from opened_end [OF p(2), of q] obtain e where e: "node_at (right_path n) (opened q m) = Some e" "is_deletable e"
    "put_at (right_path n) (consume e) (opened q m) = carve q m" using s(2) by blast
  have len': "length (p @ right_path n) \<le> 64" using n(1) by simp
  have at: "node_at (p @ right_path n) (al_tree al1) = Some e"
    using e(1) by (simp add: al1_def node_at_append node_at_put [OF p(1)])
  have put: "put_at (p @ right_path n) (consume e) (al_tree al1) = put_at p (carve q m) (al_tree al)"
    using put_at_append [OF p(1), of "right_path n" "consume e" "opened q m"] e(3) by (simp add: al1_def)
  obtain cp where cp: "node_local_cptr (al_cregion al1) (consume e) = Some cp"
    using accessible_cptr(1) [OF consume_accessible [OF e(2)]] by blast
  obtain w' where w': "al_retype K cp bp dst slot (al1\<lparr>al_tree := put_at p (carve q m) (al_tree al)\<rparr>) =
      Some (al1\<lparr>al_tree := put_at p (carve q m) (al_tree al), al_world := w'\<rparr>)"
    using al_retype_accepts [OF K, of cp bp dst slot "al1\<lparr>al_tree := put_at p (carve q m) (al_tree al)\<rparr>"] by auto
  have run: "create_object K dst slot bp al = Some (root_block (p @ right_path n), al1\<lparr>al_tree := put_at p (carve q m) (al_tree al), al_world := w'\<rparr>)"
    using loop cp w' get_node_path [OF len', of "al_tree al1"] set_node_path [OF len' at, of "consume e"] at put set_consumed_accessible [OF e(2)]
    by (simp add: create_object_def k_def [symmetric] g(1) Let_def)
  show ?thesis unfolding k_def [symmetric]
    using run p(1,2) s(2,3,4-7) n(2) min su g(3) p(3)
    by (intro exI [of _ p] exI [of _ m] exI [of _ q] exI [of _ "al1\<lparr>al_tree := put_at p (carve q m) (al_tree al), al_world := w'\<rparr>"] exI [of _ n])
      (simp add: al1_def)
qed


lemma put_at_type: "p \<noteq> [] \<Longrightarrow> node_type (put_at p m n) = node_type n"
  by (cases p) auto

text \<open>Carving keeps the invariant.\<close>

lemma carve_alloc_ok:
  assumes ok: "alloc_ok al" and p: "node_at p (al_tree al) = Some m" "is_deletable m"
    and q: "length q \<le> 64 - length p" and t: "al_tree al' = put_at p (carve q m) (al_tree al)"
    and lv: "leaves_ok (al_leaves al')" "add_mset (root_block p) (leaves_mset (al_leaves al')) =
      leaves_mset (al_leaves al) + left_blocks (length q) (paddr (root_block p)) (64 - length p)"
    and c: "cr_ok (al_cregion al')" "mset_set (cr_used (al_cregion al')) = mset_set (cr_used (al_cregion al)) + slots_of_pairs q"
  shows "alloc_ok al'" "al_used al' = add_mset (block_at (right_path (length q)) (paddr (root_block p)) (64 - length p)) (al_used al)"
    "add_mset (root_block p) (al_free al') = al_free al + left_blocks (length q) (paddr (root_block p)) (64 - length p)"
proof -
  note o = ok [unfolded alloc_ok_def]
  have tree: "tree_ok False 64 (al_tree al)" using o by simp
  from tree_ok_put [OF tree p(1)] obtain acc where l: "length p \<le> 64" and
    m: "tree_ok acc (64 - length p) m" and
    put: "\<And>m'. tree_ok acc (64 - length p) m' \<Longrightarrow> (is_deletable m' \<longrightarrow> is_deletable m) \<Longrightarrow> tree_ok False 64 (put_at p m' (al_tree al))"
    by blast
  have 1: "tree_ok False 64 (al_tree al')" unfolding t
    using put [OF carve_ok [OF p(2) m q]] carve_not_deletable [OF p(2)] by blast
  have "p \<noteq> []" using p o deletable_not_consumed(2) by auto
  then have 2: "\<not> is_accessible (al_tree al')" using o put_at_type [of p] by (simp add: t is_accessible_def)
  from put_context [OF p(1) l, of 0] obtain F U S where
    ctx: "\<And>m'. free_blocks (put_at p m' (al_tree al)) 0 64 = F + free_blocks m' (paddr (root_block p)) (64 - length p)"
      "\<And>m'. used_blocks (put_at p m' (al_tree al)) 0 64 = U + used_blocks m' (paddr (root_block p)) (64 - length p)"
      "\<And>m'. tree_slots (put_at p m' (al_tree al)) = S + tree_slots m'" by blast
  have self: "put_at p m (al_tree al) = al_tree al" by (rule put_at_same [OF p(1)])
  have rb: "\<lparr>paddr = paddr (root_block p), size_bits = 64 - length p\<rparr> = root_block p"
    by (rule UntypedId.equality) simp_all
  have f: "al_free al = F + {#root_block p#}" "al_free al' = F + left_blocks (length q) (paddr (root_block p)) (64 - length p)"
    using ctx(1) [of m] ctx(1) [of "carve q m"] by (simp_all add: al_free_def t self blocks_of_leaf [OF p(2)] carve_blocks [OF p(2)] rb)
  show u: "al_used al' = add_mset (block_at (right_path (length q)) (paddr (root_block p)) (64 - length p)) (al_used al)"
    using ctx(2) [of m] ctx(2) [of "carve q m"] by (simp add: al_used_def t self blocks_of_leaf [OF p(2)] carve_blocks [OF p(2)])
  show "add_mset (root_block p) (al_free al') = al_free al + left_blocks (length q) (paddr (root_block p)) (64 - length p)"
    using f by simp
  have "tree_slots (al_tree al') = tree_slots (al_tree al) + slots_of_pairs q"
    using ctx(3) [of m] ctx(3) [of "carve q m"] by (simp add: t self carve_blocks [OF p(2)])
  moreover have "leaves_mset (al_leaves al') = al_free al'" using lv(2) o f by simp
  ultimately show "alloc_ok al'" using 1 2 lv(1) c o unfolding alloc_ok_def by simp
qed

lemma create_object_refines_lemma:
  assumes ok: "alloc_ok al" and K: "retype_accepts K" and k: "k = physical_size_bits (k_sizes K) bp"
    and v: "v \<in># al_free al" "k \<le> size_bits v" "2 * (size_bits v - k) \<le> card (cr_free (al_cregion al))"
  shows "\<exists>u al'. create_object K dst slot bp al =
      Some (\<lparr>paddr = paddr u + 2 ^ size_bits u - 2 ^ k, size_bits = k\<rparr>, al') \<and> alloc_ok al' \<and>
    u \<in># al_free al \<and> k \<le> size_bits u \<and> (\<forall>w\<in>#al_free al. k \<le> size_bits w \<longrightarrow> size_bits u \<le> size_bits w) \<and>
    al_used al' = add_mset \<lparr>paddr = paddr u + 2 ^ size_bits u - 2 ^ k, size_bits = k\<rparr> (al_used al) \<and>
    al_free al' = al_free al - {#u#} +
      image_mset (\<lambda>i. \<lparr>paddr = paddr u + 2 ^ size_bits u - 2 ^ Suc i, size_bits = i\<rparr>) (mset [k..<size_bits u])"
proof -
  from create_object_path [OF ok K v(1) v(2,3) [unfolded k], of dst slot] obtain p m q al' n where
    r: "create_object K dst slot bp al = Some (root_block (p @ right_path n), al')"
    and p: "node_at p (al_tree al) = Some m" "is_deletable m" and n: "length q = n" "n + k = 64 - length p"
    and min: "\<forall>w\<in>#al_free al. k \<le> size_bits w \<longrightarrow> 64 - length p \<le> size_bits w"
    and t: "al_tree al' = put_at p (carve q m) (al_tree al)" and lv: "leaves_ok (al_leaves al')"
      "add_mset (root_block p) (leaves_mset (al_leaves al')) = leaves_mset (al_leaves al) + left_blocks n (paddr (root_block p)) (64 - length p)"
    and c: "cr_ok (al_cregion al')" "mset_set (cr_used (al_cregion al')) = mset_set (cr_used (al_cregion al)) + slots_of_pairs q"
    unfolding k [symmetric] by blast
  define u where "u = root_block p"
  have su: "size_bits u = n + k" using n(2) by (simp add: u_def)
  have q: "length q \<le> 64 - length p" using n by simp
  note a = carve_alloc_ok [OF ok p q t lv(1) lv(2) [folded n(1)] c, unfolded n(1)]
  have rb: "block_at (right_path n) (paddr (root_block p)) (64 - length p) = \<lparr>paddr = paddr u + 2 ^ size_bits u - 2 ^ k, size_bits = k\<rparr>"
    using right_block [of n "n + k" "paddr u"] unfolding su n(2) [symmetric] u_def [symmetric] by simp
  have "left_blocks n (paddr (root_block p)) (64 - length p) =
      image_mset (\<lambda>i. \<lparr>paddr = paddr u + 2 ^ size_bits u - 2 ^ Suc i, size_bits = i\<rparr>) (mset [k..<size_bits u])"
    using left_blocks_eq [of n "n + k" "paddr u"] unfolding su n(2) [symmetric] u_def [symmetric] by simp
  with a(3) have f: "add_mset u (al_free al') = al_free al +
      image_mset (\<lambda>i. \<lparr>paddr = paddr u + 2 ^ size_bits u - 2 ^ Suc i, size_bits = i\<rparr>) (mset [k..<size_bits u])"
    by (simp only: u_def)
  have uf: "u \<in># al_free al"
  proof -
    have "leaves_mset (al_leaves al) = al_free al" using ok by (simp add: alloc_ok_def)
    moreover have "root_block p \<in># free_blocks (al_tree al) 0 64"
    proof -
      from put_context [OF p(1), of 64 0] tree_ok_put [of False 64 "al_tree al" p m] p(1) ok obtain F where
        "free_blocks (put_at p m (al_tree al)) 0 64 = F + free_blocks m (paddr (root_block p)) (64 - length p)"
        unfolding alloc_ok_def by blast
      moreover have "\<lparr>paddr = paddr (root_block p), size_bits = 64 - length p\<rparr> = root_block p" by (rule UntypedId.equality) simp_all
      ultimately show ?thesis by (simp add: put_at_same [OF p(1)] blocks_of_leaf [OF p(2)])
    qed
    ultimately show ?thesis by (simp add: al_free_def u_def)
  qed
  have f': "al_free al' = al_free al - {#u#} +
      image_mset (\<lambda>i. \<lparr>paddr = paddr u + 2 ^ size_bits u - 2 ^ Suc i, size_bits = i\<rparr>) (mset [k..<size_bits u])"
  proof -
    from uf obtain B where B: "al_free al = add_mset u B" by (metis insert_DiffM)
    with f show ?thesis by simp
  qed
  show ?thesis
    using r a(1,2) rb uf f' su min n(2)
    by (intro exI [of _ u] exI [of _ al']) (simp add: block_at_append u_def)
qed


section \<open>Revoking\<close>

lemma slot_free_mset:
  assumes "cr_ok c" "s \<in># mset_set (cr_used c)"
  shows "\<exists>c'. slot_free s c = Some c' \<and> cr_ok c' \<and> mset_set (cr_used c) = add_mset s (mset_set (cr_used c')) \<and>
    mset_set (cr_free c') = add_mset s (mset_set (cr_free c))"
proof -
  note fin = pool.finite_free [OF assms(1)] pool.finite_used [OF assms(1)]
  from assms(2) fin have s: "s \<in> cr_used c" by simp
  from pool.dealloc_law [OF assms(1) s] obtain c' where
    c: "slot_free s c = Some c'" "cr_ok c'" "cr_free c' = insert s (cr_free c)" "cr_used c' = cr_used c - {s}" by blast
  moreover have "s \<notin> cr_free c" using pool.disjoint [OF assms(1)] s by blast
  ultimately show ?thesis using fin s by (simp add: mset_set.remove)
qed

lemma drop_child_spec:
  assumes "cr_ok (al_cregion al)" "s \<in># mset_set (cr_used (al_cregion al))" "leaves_ok (al_leaves al)" "u \<in># leaves_mset (al_leaves al)"
  shows "\<exists>c lv. drop_child (Some (managed_leaf s)) u al = Some (al\<lparr>al_cregion := c, al_leaves := lv\<rparr>) \<and>
    cr_ok c \<and> mset_set (cr_used (al_cregion al)) = add_mset s (mset_set (cr_used c)) \<and>
    mset_set (cr_free c) = add_mset s (mset_set (cr_free (al_cregion al))) \<and>
    leaves_ok lv \<and> leaves_mset (al_leaves al) = add_mset u (leaves_mset lv)"
proof -
  from slot_free_mset [OF assms(1,2)] obtain c where c: "slot_free s (al_cregion al) = Some c" "cr_ok c"
    "mset_set (cr_used (al_cregion al)) = add_mset s (mset_set (cr_used c))"
    "mset_set (cr_free c) = add_mset s (mset_set (cr_free (al_cregion al)))" by blast
  from idx.remove_law [OF assms(3,4)] obtain lv where "remove_leaf u (al_leaves al) = Some lv" "leaves_ok lv"
    "leaves_mset (al_leaves al) = add_mset u (leaves_mset lv)" by blast
  with c show ?thesis
    by (intro exI [of _ c] exI [of _ lv]) (simp add: drop_child_def managed_leaf_def get_slot_def rust_assert_def)
qed

text \<open>
  What a part of the revocation does, in one relation: on a subtree that changes from \<open>n\<close> to \<open>n'\<close>, the
  leaf index and the slots follow.
\<close>

definition follows :: "Node \<Rightarrow> Node \<Rightarrow> nat \<Rightarrow> nat \<Rightarrow> 'w Allocator \<Rightarrow> 'w Allocator \<Rightarrow> bool" where
  "follows n n' low b al al' \<longleftrightarrow> leaves_ok (al_leaves al') \<and> cr_ok (al_cregion al') \<and> al_tree al' = al_tree al \<and>
     leaves_mset (al_leaves al') + free_blocks n low b = leaves_mset (al_leaves al) + free_blocks n' low b \<and>
     mset_set (cr_used (al_cregion al')) + tree_slots n = mset_set (cr_used (al_cregion al)) + tree_slots n' \<and>
     mset_set (cr_free (al_cregion al')) + tree_slots n' = mset_set (cr_free (al_cregion al)) + tree_slots n"

definition holds_all :: "Node \<Rightarrow> nat \<Rightarrow> nat \<Rightarrow> 'w Allocator \<Rightarrow> bool" where
  "holds_all n low b al \<longleftrightarrow> leaves_ok (al_leaves al) \<and> cr_ok (al_cregion al) \<and>
     free_blocks n low b \<subseteq># leaves_mset (al_leaves al) \<and> tree_slots n \<subseteq># mset_set (cr_used (al_cregion al))"

lemma mset_exchange: "(L' :: 'a multiset) + A = L + A' \<Longrightarrow> A \<subseteq># L \<Longrightarrow> A' \<subseteq># L'"
  by (metis add.commute add_left_cancel subset_mset.le_iff_add union_assoc)

lemma follows_holds: "follows n n' low b al al' \<Longrightarrow> holds_all n low b al \<Longrightarrow> holds_all n' low b al'"
  unfolding follows_def holds_all_def by (meson mset_exchange)

lemma mset_chain: "(L' :: 'a multiset) + A = L + A' \<Longrightarrow> L'' + A' = L' + A'' \<Longrightarrow> L'' + A = L + A''"
proof -
  assume 1: "L' + A = L + A'" and 2: "L'' + A' = L' + A''"
  have "(L'' + A) + A' = (L'' + A') + A" by (simp add: ac_simps)
  also have "\<dots> = (L' + A) + A''" unfolding 2 by (simp add: ac_simps)
  also have "\<dots> = (L + A'') + A'" unfolding 1 by (simp add: ac_simps)
  finally show ?thesis by simp
qed

lemma followsD:
  assumes "follows n n' low b al al'"
  shows "leaves_ok (al_leaves al')" "cr_ok (al_cregion al')" "al_tree al' = al_tree al"
    "leaves_mset (al_leaves al') + free_blocks n low b = leaves_mset (al_leaves al) + free_blocks n' low b"
    "mset_set (cr_used (al_cregion al')) + tree_slots n = mset_set (cr_used (al_cregion al)) + tree_slots n'"
    "mset_set (cr_free (al_cregion al')) + tree_slots n' = mset_set (cr_free (al_cregion al)) + tree_slots n"
  using assms unfolding follows_def by blast+

lemma follows_trans:
  assumes "follows n n' low b al al'" "follows n' n'' low b al' al''"
  shows "follows n n'' low b al al''"
proof -
  note 1 = followsD [OF assms(1)] and 2 = followsD [OF assms(2)]
  show ?thesis unfolding follows_def
    using 2(1-3) 1(3) mset_chain [OF 1(4) 2(4)] mset_chain [OF 1(5) 2(5)] trans [OF 2(6) 1(6)] by simp
qed

text \<open>A change below a child is a change of the node.\<close>

lemma follows_child:
  assumes "follows c c' (low_of x low k) k al al'" "child x n = Some c"
  shows "follows n (with_child x c' n) low (Suc k) al al'"
proof -
  note 1 = followsD [OF assms(1)]
  define sib where "sib = opt_mset (\<lambda>n. free_blocks n (low_of (\<not> x) low k) k) (child (\<not> x) n)"
  define oth where "oth = own_slots (node_type n) + opt_mset tree_slots (child (\<not> x) n)"
  have d: "\<not> is_deletable n" using assms(2) by (cases x) (auto simp: is_deletable_def)
  have f: "free_blocks n low (Suc k) = free_blocks c (low_of x low k) k + sib"
    "free_blocks (with_child x c' n) low (Suc k) = free_blocks c' (low_of x low k) k + sib"
    using assms(2) d by (cases x; simp add: free_blocks_eq [of n] free_blocks_eq [of "Node _ _ _"] sib_def)+
  have t: "tree_slots n = tree_slots c + oth" "tree_slots (with_child x c' n) = tree_slots c' + oth"
    using assms(2) by (cases x; simp add: tree_slots_eq [of n] tree_slots_eq [of "Node _ _ _"] oth_def)+
  show ?thesis unfolding follows_def f t using 1 by (simp flip: add.assoc)
qed

section \<open>Merging\<close>

lemma merge_children_spec:
  assumes K: "revoke_accepts K" and b: "low + 2 ^ Suc k \<le> 2 ^ 64" "depth + Suc k = 64"
    and h: "holds_all n low (Suc k) al"
    and m: "mergeable n \<Longrightarrow> \<exists>ty s t. n = Node (Accessible False ty) (Some (managed_leaf s)) (Some (managed_leaf t))"
  shows "\<exists>al'. merge_children K n low (low + 2 ^ Suc k - 1) depth al = Some (Inr (merge n), al') \<and>
    follows n (merge n) low (Suc k) al al'"
proof (cases "mergeable n")
  case False
  then show ?thesis unfolding mergeable_def [symmetric]
    using h by (simp add: merge_children_def mergeable_def [symmetric] merge_def follows_def holds_all_def)
next
  case True
  from m [OF True] obtain ty s t where n: "n = Node (Accessible False ty) (Some (managed_leaf s)) (Some (managed_leaf t))" by blast
  have d: "usize_sub 64 (usize_add depth 1) = k" "usize_sub 64 depth = Suc k" using b(2) by auto
  note half = half_addr_mid(1) [OF b(1)]
  have fb: "free_blocks n low (Suc k) = {#\<lparr>paddr = low, size_bits = k\<rparr>, \<lparr>paddr = low + 2 ^ k, size_bits = k\<rparr>#}"
    by (simp add: n free_blocks_eq [of "Node _ _ _"] blocks_of_leaf)
  have ts: "tree_slots n = add_mset s (add_mset t (own_slots (Accessible False ty)))"
    by (simp add: n tree_slots_eq [of "Node _ _ _"] blocks_of_leaf own_slots_def)
  have mg: "merge n = Node (Accessible False ty) None None" using True by (simp add: merge_def n)
  have h': "leaves_ok (al_leaves al)" "cr_ok (al_cregion al)" "free_blocks n low (Suc k) \<subseteq># leaves_mset (al_leaves al)"
    "tree_slots n \<subseteq># mset_set (cr_used (al_cregion al))" using h by (simp_all add: holds_all_def)
  have "s \<in># mset_set (cr_used (al_cregion al))" "\<lparr>paddr = low, size_bits = k\<rparr> \<in># leaves_mset (al_leaves al)"
    using h'(3,4) unfolding fb ts by (auto dest: mset_subset_eqD simp del: elem_mset_set)
  from drop_child_spec [OF h'(2) this(1) h'(1) this(2)] obtain c1 lv1 where
    d1: "drop_child (Some (managed_leaf s)) \<lparr>paddr = low, size_bits = k\<rparr> al = Some (al\<lparr>al_cregion := c1, al_leaves := lv1\<rparr>)"
      "cr_ok c1" "mset_set (cr_used (al_cregion al)) = add_mset s (mset_set (cr_used c1))"
      "mset_set (cr_free c1) = add_mset s (mset_set (cr_free (al_cregion al)))"
      "leaves_ok lv1" "leaves_mset (al_leaves al) = add_mset \<lparr>paddr = low, size_bits = k\<rparr> (leaves_mset lv1)" by blast
  define al1 where "al1 = al\<lparr>al_cregion := c1, al_leaves := lv1\<rparr>"
  have "t \<in># mset_set (cr_used (al_cregion al1))" "\<lparr>paddr = low + 2 ^ k, size_bits = k\<rparr> \<in># leaves_mset (al_leaves al1)"
    using h'(3,4) unfolding fb ts d1(3) d1(6) by (auto dest: mset_subset_eqD simp: al1_def simp del: elem_mset_set)
  from drop_child_spec [OF _ this(1) _ this(2)] d1(2,5) obtain c2 lv2 where
    d2: "drop_child (Some (managed_leaf t)) \<lparr>paddr = low + 2 ^ k, size_bits = k\<rparr> al1 = Some (al1\<lparr>al_cregion := c2, al_leaves := lv2\<rparr>)"
      "cr_ok c2" "mset_set (cr_used c1) = add_mset t (mset_set (cr_used c2))"
      "mset_set (cr_free c2) = add_mset t (mset_set (cr_free c1))"
      "leaves_ok lv2" "leaves_mset lv1 = add_mset \<lparr>paddr = low + 2 ^ k, size_bits = k\<rparr> (leaves_mset lv2)"
    unfolding al1_def by auto
  obtain p where p: "node_relative_cptr c2 (merge n) = Some p" using accessible_cptr(2) [of "merge n"] by (auto simp: mg)
  obtain w where w: "al_revoke K p (al1\<lparr>al_cregion := c2, al_leaves := lv2\<rparr>) = Some (Inr (), al1\<lparr>al_cregion := c2, al_leaves := lv2, al_world := w\<rparr>)"
    using al_revoke_accepts [OF K, of p "al1\<lparr>al_cregion := c2, al_leaves := lv2\<rparr>"] by auto
  define al' where "al' = al1\<lparr>al_cregion := c2, al_leaves := add_leaf \<lparr>paddr = low, size_bits = Suc k\<rparr> lv2, al_world := w\<rparr>"
  have "merge_children K n low (low + 2 ^ Suc k - 1) depth al = Some (Inr (merge n), al')"
    using True d1(1) [folded al1_def] d2(1) p [unfolded mg] w
    unfolding merge_children_def mergeable_def [symmetric] half d mg al'_def Let_def by (simp add: n)
  moreover have "follows n (merge n) low (Suc k) al al'"
    using idx.add_law [OF d2(5)] d2 d1 unfolding follows_def fb ts mg
    by (simp add: al'_def al1_def blocks_of_leaf)
  ultimately show ?thesis by blast
qed


section \<open>The helper follows the path\<close>

text \<open>The two ways the helper goes, by path.\<close>

lemma helper_base:
  assumes K: "revoke_accepts K" and n: "n = Node (Accessible True t) None None" and d: "depth + b = 64"
    and h: "holds_all n low b al"
  shows "\<exists>al'. revoke_and_free_helper K \<lparr>paddr = low, size_bits = b\<rparr> n low high depth al = Some (Inr (release n), al') \<and>
    follows n (release n) low b al al'"
proof -
  have b: "usize_sub 64 depth = b" using d by auto
  obtain p where p: "node_relative_cptr (al_cregion al) n = Some p" using accessible_cptr(2) [of n] by (auto simp: n)
  obtain w where w: "al_revoke K p al = Some (Inr (), al\<lparr>al_world := w\<rparr>)" using al_revoke_accepts [OF K] by blast
  define al' where "al' = al\<lparr>al_world := w, al_leaves := add_leaf \<lparr>paddr = low, size_bits = b\<rparr> (al_leaves al)\<rparr>"
  have "revoke_and_free_helper K \<lparr>paddr = low, size_bits = b\<rparr> n low high depth al = Some (Inr (release n), al')"
    using b p w unfolding n
    by (simp add: revoke_and_free_helper.simps rust_assert_def set_consumed_def release_def al'_def)
  moreover have "follows n (release n) low b al al'"
  proof -
    have lv: "leaves_ok (al_leaves al)" "cr_ok (al_cregion al)" using h by (auto simp: holds_all_def)
    show ?thesis using idx.add_law [OF lv(1)] lv(2)
      by (simp add: follows_def al'_def n release_def free_blocks.simps tree_slots.simps own_slots_def
          split: AccessibleNodeType.split)
  qed
  ultimately show ?thesis by blast
qed

lemma helper_step:
  assumes "low + 2 ^ Suc k \<le> 2 ^ 64" "length p \<le> k" "depth + Suc k = 64" "child x n = Some c"
  shows "revoke_and_free_helper K (block_at (x # p) low (Suc k)) n low (low + 2 ^ Suc k - 1) depth al =
    try_method (revoke_and_free_helper K (block_at p (low_of x low k) k) c (low_of x low k) (low_of x low k + 2 ^ k - 1) (Suc depth) al)
      (\<lambda>c al. merge_children K (with_child x c n) low (low + 2 ^ Suc k - 1) depth al)"
proof -
  obtain ty l r where n: "n = Node ty l r" by (cases n)
  note w = walk_facts [OF assms(1,2), of x] and half = half_addr_mid [OF assms(1)]
  have b: "block_at (x # p) low (Suc k) = block_at p (low_of x low k) k" by simp
  have ne: "usize_sub 64 depth \<noteq> size_bits (block_at (x # p) low (Suc k))" using assms(2,3) by simp
  have "low \<le> paddr (block_at (x # p) low (Suc k)) \<and> paddr (block_at (x # p) low (Suc k)) \<le> low + 2 ^ Suc k - 1"
  proof -
    have "0 < (2::nat) ^ (Suc k - length (x # p))" by simp
    moreover have "length (x # p) \<le> Suc k" using assms(2) by simp
    note block_at_range [OF this, of low]
    ultimately show ?thesis by (intro conjI) linarith+
  qed
  moreover have "usize_add depth 1 = Suc depth" using assms(3) by simp
  ultimately show ?thesis using ne w(2) assms(4)
    unfolding n revoke_and_free_helper.simps [of K "block_at (x # p) low (Suc k)"] half Let_def
    by (cases x) (simp_all only: b rust_assert_def if_True if_False simp_thms Option.bind.simps Node.sel option.case high_split, simp_all)
qed


lemma managed_deletable: "tree_ok True b n \<Longrightarrow> is_deletable n \<Longrightarrow> \<exists>s. n = managed_leaf s"
  by (auto simp: deletable_iff tree_ok.simps managed_leaf_def split: AccessibleNodeType.splits)

lemma mergeable_shape:
  assumes "tree_ok acc b n" "child x n = Some c" "tree_ok (is_accessible n) (b - 1) c'" "mergeable (with_child x c' n)"
  shows "\<exists>ty s t. with_child x c' n = Node (Accessible False ty) (Some (managed_leaf s)) (Some (managed_leaf t))"
proof -
  have acc: "is_accessible n" using assms(4) by (auto simp: mergeable_def split: if_splits)
  obtain l r where lr: "left n = Some l" "right n = Some r" "tree_ok True (b - 1) l" "tree_ok True (b - 1) r"
    by (rule tree_ok_accessible [OF assms(1,2) acc])
  obtain ty where ty: "node_type n = Accessible False ty"
    using acc tree_ok_child(3) [OF assms(1,2)] by (cases "node_type n") (auto simp: is_accessible_def is_consumed_def)
  have c': "tree_ok True (b - 1) c'" using assms(3) acc by simp
  show ?thesis
  proof (cases x)
    case True
    with assms(4) lr have "is_deletable l" "is_deletable c'" by (auto simp: mergeable_def)
    with managed_deletable [OF lr(3)] managed_deletable [OF c'] True lr ty show ?thesis by auto
  next
    case False
    with assms(4) lr have "is_deletable c'" "is_deletable r" by (auto simp: mergeable_def)
    with managed_deletable [OF lr(4)] managed_deletable [OF c'] False lr ty show ?thesis by auto
  qed
qed

lemma holds_child:
  assumes "holds_all n low (Suc k) al" "child x n = Some c"
  shows "holds_all c (low_of x low k) k al"
proof -
  have "free_blocks c (low_of x low k) k \<subseteq># free_blocks n low (Suc k)" "tree_slots c \<subseteq># tree_slots n"
    using assms(2) by (cases x; simp add: free_blocks_eq [of n] tree_slots_eq [of n] subset_mset.add_increasing)+
  with assms(1) show ?thesis unfolding holds_all_def by (meson subset_mset.order_trans)
qed

lemma helper_spec:
  assumes K: "revoke_accepts K"
  shows "tree_ok acc b n \<Longrightarrow> node_at p n = Some m \<Longrightarrow> is_consumed m \<Longrightarrow> depth + b = 64 \<Longrightarrow> low + 2 ^ b \<le> 2 ^ 64 \<Longrightarrow>
    holds_all n low b al \<Longrightarrow>
    \<exists>al'. revoke_and_free_helper K (block_at p low b) n low (low + 2 ^ b - 1) depth al = Some (Inr (free_at p n), al') \<and>
      follows n (free_at p n) low b al al'"
proof (induction p arbitrary: n acc b depth low al)
  case Nil
  then obtain t where n: "n = Node (Accessible True t) None None"
    by (cases n) (auto simp: is_consumed_def tree_ok.simps split: NodeType.splits option.splits)
  show ?case using helper_base [OF K n Nil.prems(4,6)] by simp
next
  case (Cons x p)
  from Cons.prems(2) obtain c where c: "child x n = Some c" "node_at p c = Some m" by (auto split: option.splits)
  note t = tree_ok_child [OF Cons.prems(1) c(1)]
  obtain k where b: "b = Suc k" using t(1) by (cases b) auto
  have tc: "tree_ok (is_accessible n) k c" using t(2) b by simp
  have len: "length p \<le> k" using tree_ok_put [OF tc c(2)] by blast
  have bb: "low + 2 ^ Suc k \<le> 2 ^ 64" "depth + Suc k = 64" "Suc depth + k = 64" using Cons.prems(4,5) b by auto
  note w = walk_facts(3) [OF bb(1) len, of x]
  from Cons.IH [OF tc c(2) Cons.prems(3) bb(3) w holds_child [OF Cons.prems(6) [unfolded b] c(1)]] obtain al1 where
    r: "revoke_and_free_helper K (block_at p (low_of x low k) k) c (low_of x low k) (low_of x low k + 2 ^ k - 1) (Suc depth) al = Some (Inr (free_at p c), al1)"
    and f: "follows c (free_at p c) (low_of x low k) k al al1" by blast
  let ?n = "with_child x (free_at p c) n"
  note fn = follows_child [OF f c(1)]
  have h1: "holds_all ?n low (Suc k) al1" by (rule follows_holds [OF fn Cons.prems(6) [unfolded b]])
  have okc: "tree_ok (is_accessible n) (b - 1) (free_at p c)" using free_at_ok [OF tc c(2) Cons.prems(3)] b by simp
  from merge_children_spec [OF K bb(1,2) h1 mergeable_shape [OF Cons.prems(1) c(1) okc]] obtain al2 where
    m: "merge_children K ?n low (low + 2 ^ Suc k - 1) depth al1 = Some (Inr (merge ?n), al2)" "follows ?n (merge ?n) low (Suc k) al1 al2"
    by blast
  have fa: "free_at (x # p) n = merge ?n" using c(1) by (cases x) simp_all
  show ?case unfolding fa b helper_step [OF bb(1) len bb(2) c(1)] r using m(1) follows_trans [OF fn m(2)] by simp
qed

lemma revoke_path:
  assumes "alloc_ok al" "revoke_accepts K" "node_at p (al_tree al) = Some m" "is_consumed m"
  shows "\<exists>al'. revoke_and_free K (root_block p) al = Some (Inr (), al') \<and> alloc_ok al' \<and>
    al_tree al' = free_at p (al_tree al) \<and>
    mset_set (cr_free (al_cregion al')) + tree_slots (al_tree al') = mset_set (cr_free (al_cregion al)) + tree_slots (al_tree al)"
proof -
  note o = assms(1) [unfolded alloc_ok_def]
  have tree: "tree_ok False 64 (al_tree al)" and h: "holds_all (al_tree al) 0 64 al"
    using o by (auto simp: holds_all_def al_free_def)
  have m64: "0 + 2 ^ 64 - 1 = MAX_ADDR" by (simp add: MAX_ADDR_def)
  from helper_spec [OF assms(2) tree assms(3,4) _ _ h, of 0] obtain al1 where
    r: "revoke_and_free_helper K (root_block p) (al_tree al) 0 MAX_ADDR 0 al = Some (Inr (free_at p (al_tree al)), al1)"
    and f: "follows (al_tree al) (free_at p (al_tree al)) 0 64 al al1" unfolding m64 by auto
  define al' where "al' = al1\<lparr>al_tree := free_at p (al_tree al)\<rparr>"
  have run: "revoke_and_free K (root_block p) al = Some (Inr (), al')" by (simp add: revoke_and_free_def r al'_def)
  note fd = followsD [OF f]
  have "leaves_mset (al_leaves al1) = free_blocks (free_at p (al_tree al)) 0 64" using fd(4) o by (simp add: al_free_def)
  moreover have "tree_slots (free_at p (al_tree al)) \<subseteq># mset_set (cr_used (al_cregion al1))"
    using follows_holds [OF f h] by (simp add: holds_all_def)
  ultimately have "alloc_ok al'" using fd(1,2) free_at_ok [OF tree assms(3,4)] free_at_type(1) [OF assms(3)] o
    by (simp add: alloc_ok_def al'_def al_free_def)
  with run fd(6) show ?thesis by (simp add: al'_def)
qed

end
