(* ===== verification/AllocatorSpec.thy ===== *)
theory AllocatorSpec
  imports AllocatorProps
begin

text \<open>
  The theorems on the allocator: what a call does whenever it returns, when it panics, that every sequence
  of calls conserves memory, and that destroying an object undoes its creation.
\<close>

section \<open>Any kernel\<close>

text \<open>
  A call that returned met no kernel error, so it is the call made on a kernel that never errs. This
  carries the results of the accepting kernel over to every kernel.
\<close>

definition accepting :: "('w, 'e) cap_kernel \<Rightarrow> ('w, 'e) cap_kernel" where
  "accepting K = K\<lparr>k_retype := \<lambda>w p bp dst s n. (Inr (), snd (k_retype K w p bp dst s n)),
     k_revoke := \<lambda>w p. (Inr (), snd (k_revoke K w p))\<rparr>"

lemma accepting_ok [simp]: "retype_accepts (accepting K)" "revoke_accepts (accepting K)" "k_sizes (accepting K) = k_sizes K"
  by (simp_all add: accepting_def retype_accepts_def revoke_accepts_def)

lemma al_retype_accepting: "al_retype K p bp dst s al = Some al' \<Longrightarrow> al_retype (accepting K) p bp dst s al = Some al'"
  by (auto simp: al_retype_def accepting_def split: prod.splits sum.splits)

lemma al_revoke_accepting: "al_revoke K p al = Some (Inr v, al') \<Longrightarrow> al_revoke (accepting K) p al = Some (Inr (), al')"
  by (auto simp: al_revoke_def accepting_def split: prod.splits)

lemma split_untyped_accepting:
  "split_untyped K u al = Some r \<Longrightarrow> split_untyped (accepting K) u al = Some r"
  unfolding split_untyped_def Let_def by (fastforce simp: bind_eq_Some_conv dest: al_retype_accepting)

lemma split_loop_accepting: "split_loop n K u al = Some r \<Longrightarrow> split_loop n (accepting K) u al = Some r"
proof (induction n arbitrary: u al)
  case (Suc n)
  then show ?case by (fastforce simp: bind_eq_Some_conv dest: split_untyped_accepting)
qed simp

lemma create_object_parts:
  "create_object K dst slot bp al = Some r \<longleftrightarrow> (\<exists>u lv u' al1 node node' t p al2.
     get_leaf (physical_size_bits (k_sizes K) bp) (al_leaves al) = Some (u, lv) \<and>
     (if physical_size_bits (k_sizes K) bp < size_bits u
      then split_loop (size_bits u - physical_size_bits (k_sizes K) bp) K u (al\<lparr>al_leaves := lv\<rparr>)
      else Some (u, al\<lparr>al_leaves := lv\<rparr>)) = Some (u', al1) \<and>
     get_node (al_tree al1) u' = Some node \<and> set_consumed True node = Some node' \<and>
     set_node (al_tree al1) u' node' = Some t \<and> node_local_cptr (al_cregion al1) node' = Some p \<and>
     al_retype K p bp dst slot (al1\<lparr>al_tree := t\<rparr>) = Some al2 \<and> r = (u', al2))"
  unfolding create_object_def Let_def by (simp only: bind_eq_Some_conv split_paired_Ex prod.case option.inject) blast

lemma create_object_accepting:
  assumes "create_object K dst slot bp al = Some r"
  shows "create_object (accepting K) dst slot bp al = Some r"
proof -
  define k where "k = physical_size_bits (k_sizes K) bp"
  from assms obtain u lv u' al1 node node' t p al2 where
    1: "get_leaf k (al_leaves al) = Some (u, lv)"
    "(if k < size_bits u then split_loop (size_bits u - k) K u (al\<lparr>al_leaves := lv\<rparr>) else Some (u, al\<lparr>al_leaves := lv\<rparr>)) = Some (u', al1)"
    and 2: "get_node (al_tree al1) u' = Some node" "set_consumed True node = Some node'" "set_node (al_tree al1) u' node' = Some t"
    "node_local_cptr (al_cregion al1) node' = Some p" "al_retype K p bp dst slot (al1\<lparr>al_tree := t\<rparr>) = Some al2" "r = (u', al2)"
    unfolding create_object_parts k_def by blast
  have "(if k < size_bits u then split_loop (size_bits u - k) (accepting K) u (al\<lparr>al_leaves := lv\<rparr>) else Some (u, al\<lparr>al_leaves := lv\<rparr>)) = Some (u', al1)"
    using 1(2) split_loop_accepting by (cases "k < size_bits u") auto
  with 1(1) 2 al_retype_accepting [OF 2(5)] show ?thesis unfolding create_object_parts accepting_ok k_def by blast
qed

lemma merge_children_accepting:
  "merge_children K n low high d al = Some (Inr m, al') \<Longrightarrow> merge_children (accepting K) n low high d al = Some (Inr m, al')"
  unfolding merge_children_def Let_def
  by (fastforce simp: bind_eq_Some_conv try_method_ok dest: al_revoke_accepting split: if_splits)

lemma helper_accepting:
  "revoke_and_free_helper K u n low high d al = Some (Inr m, al') \<Longrightarrow>
    revoke_and_free_helper (accepting K) u n low high d al = Some (Inr m, al')"
proof (induction K u n low high d al arbitrary: m al' rule: revoke_and_free_helper.induct)
  case (1 K u ty l r low high d al)
  show ?case
  proof (cases "usize_sub 64 d = size_bits u")
    case True
    with "1.prems" show ?thesis
      by (fastforce simp: revoke_and_free_helper.simps bind_eq_Some_conv try_method_ok dest: al_revoke_accepting)
  next
    case False
    then show ?thesis using "1.prems" "1.IH"(1) "1.IH"(2)
      by (fastforce simp: revoke_and_free_helper.simps [of _ _ ty l r] Let_def bind_eq_Some_conv try_method_ok
          dest: merge_children_accepting split: if_splits option.splits)
  qed
qed

lemma revoke_accepting:
  "revoke_and_free K u al = Some (Inr v, al') \<Longrightarrow> revoke_and_free (accepting K) u al = Some (Inr (), al')"
  unfolding revoke_and_free_def by (fastforce simp: try_method_ok dest: helper_accepting)


section \<open>Slots\<close>

lemma al_retype_Some: "al_retype K p bp dst s al = Some al' \<Longrightarrow> \<exists>w. al' = al\<lparr>al_world := w\<rparr>"
  by (auto simp: al_retype_def split: prod.splits sum.splits)

lemma split_untyped_slots:
  assumes "split_untyped K u al = Some (l, r, al')" "cr_ok (al_cregion al)"
  shows "cr_ok (al_cregion al')" "card (cr_free (al_cregion al)) = card (cr_free (al_cregion al')) + 2"
proof -
  from assms(1) obtain s c1 t c2 where a: "alloc_unwrap (al_cregion al) = Some (s, c1)" "alloc_unwrap c1 = Some (t, c2)"
    and c: "al_cregion al' = c2"
    by (auto simp: split_untyped_def Let_def bind_eq_Some_conv dest!: al_retype_Some)
  note x = pool.alloc_Some [OF assms(2) a(1)] and y = pool.alloc_card [OF assms(2) a(1)]
  show "cr_ok (al_cregion al')" "card (cr_free (al_cregion al)) = card (cr_free (al_cregion al')) + 2"
    using pool.alloc_Some(3) [OF x(3) a(2)] pool.alloc_card [OF x(3) a(2)] y c by simp_all
qed

lemma split_loop_slots:
  "split_loop n K u al = Some (u', al') \<Longrightarrow> cr_ok (al_cregion al) \<Longrightarrow> 2 * n \<le> card (cr_free (al_cregion al))"
proof (induction n arbitrary: u al)
  case (Suc n)
  from Suc.prems(1) obtain l r al1 lv where s: "split_untyped K u al = Some (l, r, al1)"
    "split_loop n K r (al1\<lparr>al_leaves := lv\<rparr>) = Some (u', al')" by (auto simp: bind_eq_Some_conv)
  note x = split_untyped_slots [OF s(1) Suc.prems(2)]
  from Suc.IH [OF s(2)] x show ?case by simp
qed simp

text \<open>A call that returned had a block that fits and the slots to split it.\<close>

lemma create_object_enabled:
  assumes ok: "alloc_ok al" and r: "create_object K dst slot bp al = Some r"
  shows "\<exists>v\<in>#al_free al. physical_size_bits (k_sizes K) bp \<le> size_bits v \<and>
    2 * (size_bits v - physical_size_bits (k_sizes K) bp) \<le> card (cr_free (al_cregion al))"
proof -
  define k where "k = physical_size_bits (k_sizes K) bp"
  from r obtain u lv u' al1 where
    g: "get_leaf k (al_leaves al) = Some (u, lv)"
    "(if k < size_bits u then split_loop (size_bits u - k) K u (al\<lparr>al_leaves := lv\<rparr>) else Some (u, al\<lparr>al_leaves := lv\<rparr>)) = Some (u', al1)"
    unfolding create_object_parts k_def by blast
  have o: "leaves_ok (al_leaves al)" "leaves_mset (al_leaves al) = al_free al" "cr_ok (al_cregion al)" using ok by (auto simp: alloc_ok_def)
  note t = idx.take_Some(2,3) [OF o(1) g(1)]
  have "2 * (size_bits u - k) \<le> card (cr_free (al_cregion al))"
  proof (cases "k < size_bits u")
    case True
    with g(2) split_loop_slots [of "size_bits u - k" K u "al\<lparr>al_leaves := lv\<rparr>" u' al1] o(3) show ?thesis by simp
  qed simp
  with t o(2) show ?thesis unfolding k_def by (intro bexI [of _ u]) auto
qed

section \<open>What \<open>create_object\<close> does\<close>

lemma create_object_path_any:
  assumes ok: "alloc_ok al" and r: "create_object K dst slot bp al = Some (u, al')"
  shows "\<exists>p m q n. u = root_block (p @ right_path n) \<and>
    node_at p (al_tree al) = Some m \<and> is_deletable m \<and> length q = n \<and> n + physical_size_bits (k_sizes K) bp = 64 - length p \<and>
    al_tree al' = put_at p (carve q m) (al_tree al) \<and> alloc_ok al' \<and>
    tree_slots (al_tree al') = tree_slots (al_tree al) + slots_of_pairs q \<and>
    mset_set (cr_free (al_cregion al)) = mset_set (cr_free (al_cregion al')) + slots_of_pairs q"
proof -
  let ?k = "physical_size_bits (k_sizes K) bp"
  from create_object_enabled [OF ok r] obtain v where v: "v \<in># al_free al" "?k \<le> size_bits v"
    "2 * (size_bits v - ?k) \<le> card (cr_free (al_cregion al))" by blast
  from create_object_path [OF ok accepting_ok(1), of v K bp dst slot, unfolded accepting_ok(3), OF v]
    create_object_accepting [OF r] obtain p m q n where
    p: "u = root_block (p @ right_path n)" "node_at p (al_tree al) = Some m" "is_deletable m" "length q = n"
      "n + ?k = 64 - length p" "al_tree al' = put_at p (carve q m) (al_tree al)" and lv: "leaves_ok (al_leaves al')"
      "add_mset (root_block p) (leaves_mset (al_leaves al')) = leaves_mset (al_leaves al) + left_blocks n (paddr (root_block p)) (64 - length p)"
    and c: "cr_ok (al_cregion al')" "mset_set (cr_used (al_cregion al')) = mset_set (cr_used (al_cregion al)) + slots_of_pairs q"
      "mset_set (cr_free (al_cregion al)) = mset_set (cr_free (al_cregion al')) + slots_of_pairs q"
    by auto
  have q: "length q \<le> 64 - length p" using p(4,5) by simp
  have a: "alloc_ok al'" by (rule carve_alloc_ok(1) [OF ok p(2,3) q p(6) lv(1) lv(2) [folded p(4)] c(1,2)])
  have l: "length p \<le> 64" using tree_ok_put [of False 64 "al_tree al" p m] ok p(2) by (auto simp: alloc_ok_def)
  from put_context [OF p(2) l, of 0] obtain S where S: "\<And>m'. tree_slots (put_at p m' (al_tree al)) = S + tree_slots m'" by blast
  have "tree_slots (al_tree al') = tree_slots (al_tree al) + slots_of_pairs q"
    using S [of m] S [of "carve q m"] put_at_same [OF p(2)] by (simp add: p(6) carve_blocks [OF p(3)])
  with p c(3) a show ?thesis by blast
qed


section \<open>What \<open>revoke_and_free\<close> does\<close>

lemma helper_at:
  "usize_sub 64 depth = size_bits u \<Longrightarrow> revoke_and_free_helper K u n low high depth al = Some r \<Longrightarrow> is_consumed n \<and> low = paddr u"
  by (cases n) (auto simp: revoke_and_free_helper.simps bind_eq_Some_conv)

lemma try_method_Some: "try_method m k = Some r \<Longrightarrow> \<exists>r'. m = Some r'"
  by (cases m) auto

lemma helper_below:
  assumes "low + 2 ^ Suc k \<le> 2 ^ 64" "depth + Suc k = 64" "usize_sub 64 depth \<noteq> size_bits u"
    and "revoke_and_free_helper K u n low (low + 2 ^ Suc k - 1) depth al = Some r"
  shows "\<exists>x c r'. child x n = Some c \<and>
    revoke_and_free_helper K u c (low_of x low k) (low_of x low k + 2 ^ k - 1) (Suc depth) al = Some r'"
proof -
  obtain ty l rt where n: "n = Node ty l rt" by (cases n)
  have d: "usize_add depth 1 = Suc depth" using assms(2) by simp
  note h = half_addr_mid [OF assms(1)]
  from assms(4) show ?thesis
    unfolding n revoke_and_free_helper.simps [of K u ty l rt] h d Let_def high_split
  proof (cases "paddr u < low + 2 ^ k", goal_cases)
    case 1
    then obtain c where "l = Some c" "revoke_and_free_helper K u c low (low + 2 ^ k - 1) (Suc depth) al \<noteq> None"
      using assms(3) by (auto simp: bind_eq_Some_conv split: option.splits dest!: try_method_Some)
    then show ?case by (intro exI [of _ False] exI [of _ c]) auto
  next
    case 2
    then obtain c where "rt = Some c" "revoke_and_free_helper K u c (low + 2 ^ k) (low + 2 ^ k + 2 ^ k - 1) (Suc depth) al \<noteq> None"
      using assms(3) by (auto simp: bind_eq_Some_conv split: option.splits dest!: try_method_Some)
    then show ?case by (intro exI [of _ True] exI [of _ c]) auto
  qed
qed

lemma helper_reaches:
  "tree_ok acc b n \<Longrightarrow> depth + b = 64 \<Longrightarrow> low + 2 ^ b \<le> 2 ^ 64 \<Longrightarrow>
    revoke_and_free_helper K u n low (low + 2 ^ b - 1) depth al = Some r \<Longrightarrow>
    \<exists>p m. node_at p n = Some m \<and> is_consumed m \<and> u = block_at p low b"
proof (induction b arbitrary: n acc depth low r)
  case 0
  obtain ty l rt where n: "n = Node ty l rt" by (cases n)
  with "0.prems"(1) have "l = None" "rt = None" by (auto simp: tree_ok.simps split: NodeType.splits option.splits)
  with "0.prems"(4) n have s: "usize_sub 64 depth = size_bits u"
    by (auto simp: revoke_and_free_helper.simps bind_eq_Some_conv Let_def split: if_splits)
  with helper_at [OF s "0.prems"(4)] "0.prems"(2) show ?case by (intro exI [of _ "[]"] exI [of _ n]) auto
next
  case (Suc k)
  show ?case
  proof (cases "usize_sub 64 depth = size_bits u")
    case True
    with helper_at [OF True Suc.prems(4)] Suc.prems(2) show ?thesis by (intro exI [of _ "[]"] exI [of _ n]) auto
  next
    case False
    from helper_below [OF Suc.prems(3,2) False Suc.prems(4)] obtain x c r' where
      c: "child x n = Some c" "revoke_and_free_helper K u c (low_of x low k) (low_of x low k + 2 ^ k - 1) (Suc depth) al = Some r'" by blast
    have "tree_ok (is_accessible n) k c" using tree_ok_child(2) [OF Suc.prems(1) c(1)] by simp
    moreover have "Suc depth + k = 64" "low_of x low k + 2 ^ k \<le> 2 ^ 64" using Suc.prems(2,3) by auto
    ultimately obtain p m where "node_at p c = Some m" "is_consumed m" "u = block_at p (low_of x low k) k"
      using Suc.IH [OF _ _ _ c(2)] by blast
    with c(1) show ?thesis by (intro exI [of _ "x # p"] exI [of _ m]) auto
  qed
qed

lemma revoke_reaches:
  assumes "alloc_ok al" "revoke_and_free K u al = Some r"
  shows "\<exists>p m. node_at p (al_tree al) = Some m \<and> is_consumed m \<and> u = root_block p"
proof -
  have m: "MAX_ADDR = 0 + 2 ^ 64 - 1" by (simp add: MAX_ADDR_def)
  from assms(2) obtain r' where "revoke_and_free_helper K u (al_tree al) 0 MAX_ADDR 0 al = Some r'"
    by (cases "revoke_and_free_helper K u (al_tree al) 0 MAX_ADDR 0 al") (auto simp: revoke_and_free_def)
  then show ?thesis using helper_reaches [of False 64 "al_tree al" 0 0 K u al r'] assms(1) unfolding m alloc_ok_def by simp
qed

lemma used_iff:
  assumes "alloc_ok al"
  shows "u \<in># al_used al \<longleftrightarrow> (\<exists>p m. node_at p (al_tree al) = Some m \<and> is_consumed m \<and> u = root_block p)"
proof
  show "u \<in># al_used al \<Longrightarrow> \<exists>p m. node_at p (al_tree al) = Some m \<and> is_consumed m \<and> u = root_block p"
    unfolding al_used_def by (rule used_block_path)
  assume "\<exists>p m. node_at p (al_tree al) = Some m \<and> is_consumed m \<and> u = root_block p"
  then obtain p m where p: "node_at p (al_tree al) = Some m" "is_consumed m" "u = root_block p" by blast
  have "tree_ok False 64 (al_tree al)" using assms by (simp add: alloc_ok_def)
  from free_at_blocks(1) [OF this p(1,2), of 0] p(3) show "u \<in># al_used al" by (simp add: al_used_def)
qed

lemma revoke_any:
  assumes ok: "alloc_ok al" and r: "revoke_and_free K u al = Some (Inr v, al')"
  shows "\<exists>p m. node_at p (al_tree al) = Some m \<and> is_consumed m \<and> u = root_block p \<and> alloc_ok al' \<and>
    al_tree al' = free_at p (al_tree al) \<and>
    mset_set (cr_free (al_cregion al')) + tree_slots (al_tree al') = mset_set (cr_free (al_cregion al)) + tree_slots (al_tree al)"
proof -
  from revoke_reaches [OF ok r] obtain p m where p: "node_at p (al_tree al) = Some m" "is_consumed m" "u = root_block p" by blast
  from revoke_path [OF ok accepting_ok(2) [of K] p(1,2)] revoke_accepting [OF r] p show ?thesis
    by (intro exI [of _ p] exI [of _ m]) auto
qed

section \<open>Memory\<close>

text \<open>How many blocks of the allocator, free or consumed, hold an address.\<close>

definition held :: "nat \<Rightarrow> 'w Allocator \<Rightarrow> nat" where
  "held a al = covering a (al_free al + al_used al)"

lemma covering_carved:
  "k \<le> b \<Longrightarrow> covering a (left_blocks k low b) + (if a \<in> block_range (block_at (right_path k) low b) then 1 else 0) =
    (if a \<in> block_range \<lparr>paddr = low, size_bits = b\<rparr> then 1 else 0)"
proof (induction k arbitrary: low b)
  case (Suc k)
  then obtain j where b: "b = Suc j" by (cases b) auto
  with Suc.prems Suc.IH [of j "low + 2 ^ j"] have "covering a (left_blocks k (low + 2 ^ j) j) +
      (if a \<in> block_range (block_at (right_path k) (low + 2 ^ j) j) then 1 else 0) =
      (if a \<in> block_range \<lparr>paddr = low + 2 ^ j, size_bits = j\<rparr> then 1 else 0)" by simp
  then show ?case using block_range_split [of a low j] by (simp add: b split: if_splits)
qed simp

lemma create_effect:
  assumes ok: "alloc_ok al" and r: "create_object K dst slot bp al = Some (u, al')"
  shows "alloc_ok al'" "al_used al' = add_mset u (al_used al)"
    "covering a (al_free al) = covering a (al_free al') + (if a \<in> block_range u then 1 else 0)"
    "size_bits u = physical_size_bits (k_sizes K) bp"
proof -
  from create_object_path_any [OF ok r] obtain p m q n where
    u: "u = root_block (p @ right_path n)" and p: "node_at p (al_tree al) = Some m" "is_deletable m" and n: "length q = n"
      "n + physical_size_bits (k_sizes K) bp = 64 - length p" and t: "al_tree al' = put_at p (carve q m) (al_tree al)"
    and a: "alloc_ok al'" by blast
  have l: "length p \<le> 64" using tree_ok_put [of False 64 "al_tree al" p m] ok p(1) by (auto simp: alloc_ok_def)
  from put_context [OF p(1) l, of 0] obtain F U where
    ctx: "\<And>m'. free_blocks (put_at p m' (al_tree al)) 0 64 = F + free_blocks m' (paddr (root_block p)) (64 - length p)"
      "\<And>m'. used_blocks (put_at p m' (al_tree al)) 0 64 = U + used_blocks m' (paddr (root_block p)) (64 - length p)" by blast
  have self: "put_at p m (al_tree al) = al_tree al" by (rule put_at_same [OF p(1)])
  have ub: "u = block_at (right_path n) (paddr (root_block p)) (64 - length p)" by (simp add: u block_at_append)
  show "alloc_ok al'" by (rule a)
  show "size_bits u = physical_size_bits (k_sizes K) bp" using n(2) by (simp add: u)
  show "al_used al' = add_mset u (al_used al)"
    using ctx(2) [of m] ctx(2) [of "carve q m"] by (simp add: al_used_def t self blocks_of_leaf [OF p(2)] carve_blocks [OF p(2)] n(1) ub)
  have "n \<le> 64 - length p" using n(2) by simp
  from covering_carved [OF this, of a "paddr (root_block p)"]
  show "covering a (al_free al) = covering a (al_free al') + (if a \<in> block_range u then 1 else 0)"
    using ctx(1) [of m] ctx(1) [of "carve q m"]
    by (simp add: al_free_def t self blocks_of_leaf [OF p(2)] carve_blocks [OF p(2)] n(1) ub)
qed

lemma revoke_effect:
  assumes ok: "alloc_ok al" and r: "revoke_and_free K u al = Some (Inr v, al')"
  shows "alloc_ok al'" "al_used al = add_mset u (al_used al')"
    "covering a (al_free al') = covering a (al_free al) + (if a \<in> block_range u then 1 else 0)"
proof -
  from revoke_any [OF ok r] obtain p m where p: "node_at p (al_tree al) = Some m" "is_consumed m" "u = root_block p"
    and a: "alloc_ok al'" "al_tree al' = free_at p (al_tree al)" by blast
  have tree: "tree_ok False 64 (al_tree al)" using ok by (simp add: alloc_ok_def)
  show "alloc_ok al'" by (rule a)
  show "al_used al = add_mset u (al_used al')" using free_at_blocks(1) [OF tree p(1,2), of 0] by (simp add: al_used_def a(2) p(3))
  show "covering a (al_free al') = covering a (al_free al) + (if a \<in> block_range u then 1 else 0)"
    using free_at_blocks(2) [OF tree p(1,2), of a 0] by (simp add: al_free_def a(2) p(3))
qed

lemma held_at_most: "alloc_ok al \<Longrightarrow> held a al \<le> 1"
  using covering_at_most [of False 64 "al_tree al" a 0] by (auto simp: alloc_ok_def held_def al_free_def al_used_def split: if_splits)

end
