(* ===== verification/AllocatorBuild.thy ===== *)
theory AllocatorBuild
  imports AllocatorSpec
begin

text \<open>
  \<^verbatim>\<open>AllocatorBuilder::build\<close> establishes the invariant of the allocator for untyped blocks that are aligned
  and do not overlap, which the source assumes (\<^verbatim>\<open>TODO: Verify that the untyped are disjoint\<close>).
\<close>

section \<open>Inserting at a path\<close>

fun ins_at :: "bool list \<Rightarrow> Node \<Rightarrow> Node \<Rightarrow> Node" where
  "ins_at [] m n = m"
| "ins_at (x # p) m n = with_child x (ins_at p m (case child x n of None \<Rightarrow> Node Inaccessible None None | Some c \<Rightarrow> c)) n"

lemma insert_builtin_path:
  assumes "length p \<le> b" "low + 2 ^ b \<le> 2 ^ 64"
  shows "insert_builtin b low (low + 2 ^ b - 1) n (block_at p low b) m = Some (ins_at p m n)"
  using assms
proof (induction p arbitrary: b low n)
  case Nil
  then show ?case by (simp add: insert_builtin.simps rust_assert_def)
next
  case (Cons x p)
  then obtain k where b: "b = Suc k" by (cases b) auto
  with Cons.prems have k: "low + 2 ^ Suc k \<le> 2 ^ 64" "length p \<le> k" by auto
  note w = walk_facts [OF k, of x]
  have bl: "block_at (x # p) low (Suc k) = block_at p (low_of x low k) k" by simp
  note IH = Cons.IH [OF k(2) w(3)]
  show ?case
    unfolding b insert_builtin.simps [of "Suc k" _ _ _ "block_at (x # p) low (Suc k)"] Let_def half_addr_mid [OF k(1)]
    using w(1,2) IH unfolding high_split bl by (cases x) simp_all
qed

definition builtin_leaf :: "CPtr \<Rightarrow> Node" where
  "builtin_leaf c = Node (Accessible False (BuiltIn c)) None None"

text \<open>A tree of built-in blocks only, none of them consumed.\<close>

definition fresh_tree :: "Node \<Rightarrow> nat \<Rightarrow> nat \<Rightarrow> bool" where
  "fresh_tree n low b \<longleftrightarrow> tree_ok False b n \<and> tree_slots n = {#} \<and> used_blocks n low b = {#}"

lemma block_start: "paddr u \<in> block_range u"
  by (simp add: block_range_def)

lemma block_at_inside: "length p \<le> b \<Longrightarrow> block_range (block_at p low b) \<subseteq> block_range \<lparr>paddr = low, size_bits = b\<rparr>"
  using block_at_range [of p b low] by (auto simp: block_range_def)

lemma covering_pos: "u \<in># M \<Longrightarrow> a \<in> block_range u \<Longrightarrow> 0 < covering a M"
  by (auto simp: covering_def dest!: multi_member_split)

lemma fresh_accessible:
  assumes "fresh_tree n low b" "is_accessible n"
  shows "free_blocks n low b = {#\<lparr>paddr = low, size_bits = b\<rparr>#}"
proof -
  from assms(2) obtain k t l r where n: "n = Node (Accessible k t) l r"
    by (cases n; cases "node_type n") (auto simp: is_accessible_def)
  have tk: "tree_ok False b n" "tree_slots n = {#}" "used_blocks n low b = {#}" using assms(1) by (auto simp: fresh_tree_def)
  have "\<not> k" using tk(3) by (auto simp: n used_blocks.simps)
  moreover have "l = None"
  proof (rule ccontr)
    assume "l \<noteq> None"
    then obtain c where "l = Some c" "tree_ok True (b - 1) c" using tk(1) by (auto simp: n tree_ok.simps split: option.splits)
    moreover from this(2) have "own_slots (node_type c) \<noteq> {#}"
      by (cases c) (auto simp: tree_ok.simps own_slots_def split: NodeType.splits AccessibleNodeType.splits)
    ultimately show False using tk(2) by (simp add: n tree_slots_eq [of "Node _ _ _"] tree_slots_eq [of c])
  qed
  moreover from this tk(1) have "r = None" by (simp add: n tree_ok.simps)
  ultimately show ?thesis by (simp add: n free_blocks.simps)
qed

lemma ins_at_spec:
  assumes "fresh_tree n low b" "length p \<le> b" "\<And>a. a \<in> block_range (block_at p low b) \<Longrightarrow> covering a (free_blocks n low b) = 0"
  shows "fresh_tree (ins_at p (builtin_leaf c) n) low b \<and>
    free_blocks (ins_at p (builtin_leaf c) n) low b = add_mset (block_at p low b) (free_blocks n low b)"
  using assms
proof (induction p arbitrary: n low b)
  case Nil
  have "free_blocks n low b = {#}"
  proof (rule ccontr)
    assume "free_blocks n low b \<noteq> {#}"
    then obtain u where u: "u \<in># free_blocks n low b" by blast
    then obtain q m where q: "node_at q n = Some m" "u = block_at q low b" using free_block_path by blast
    have "length q \<le> b" using tree_ok_put [of False b n q m] Nil.prems(1) q(1) by (auto simp: fresh_tree_def)
    with q(2) block_at_inside have "paddr u \<in> block_range (block_at [] low b)" using block_start by fastforce
    with Nil.prems(3) covering_pos [OF u block_start] show False by simp
  qed
  then show ?case
    by (simp add: builtin_leaf_def fresh_tree_def tree_ok.simps tree_slots.simps used_blocks.simps free_blocks.simps own_slots_def)
next
  case (Cons x p)
  from Cons.prems(2) obtain k where b: "b = Suc k" by (cases b) auto
  have pk: "length p \<le> k" using Cons.prems(2) b by simp
  have "\<not> is_accessible n"
  proof
    assume "is_accessible n"
    from fresh_accessible [OF Cons.prems(1) this]
    have "0 < covering (paddr (block_at (x # p) low b)) (free_blocks n low b)"
      using block_at_inside [OF Cons.prems(2), of low] block_start by (intro covering_pos) auto
    with Cons.prems(3) block_start show False by fastforce
  qed
  then obtain l r where n: "n = Node Inaccessible l r" by (cases n; cases "node_type n") (auto simp: is_accessible_def)
  define c0 where "c0 = (case child x n of None \<Rightarrow> Node Inaccessible None None | Some c \<Rightarrow> c)"
  define sib where "sib = opt_mset (\<lambda>n. free_blocks n (low_of (\<not> x) low k) k) (child (\<not> x) n)"
  define c1 where "c1 = ins_at p (builtin_leaf c) c0"
  have f: "free_blocks n low b = free_blocks c0 (low_of x low k) k + sib"
    "free_blocks (with_child x c1 n) low b = free_blocks c1 (low_of x low k) k + sib"
    by (cases x; cases l; cases r; simp add: n b c0_def sib_def free_blocks.simps)+
  have fr: "fresh_tree c0 (low_of x low k) k"
    using Cons.prems(1) by (cases x; cases l; cases r) (simp_all add: fresh_tree_def n b c0_def tree_ok.simps tree_slots.simps used_blocks.simps own_slots_def)
  have "covering a (free_blocks c0 (low_of x low k) k) = 0" if "a \<in> block_range (block_at p (low_of x low k) k)" for a
    using Cons.prems(3) [of a] that f(1) b by (cases x) simp_all
  from Cons.IH [OF fr pk this] have IH: "fresh_tree c1 (low_of x low k) k"
    "free_blocks c1 (low_of x low k) k = add_mset (block_at p (low_of x low k) k) (free_blocks c0 (low_of x low k) k)"
    unfolding c1_def by blast+
  have "fresh_tree (with_child x c1 n) low b"
    using Cons.prems(1) IH(1) by (cases x; cases l; cases r) (simp_all add: fresh_tree_def n b tree_ok.simps tree_slots.simps used_blocks.simps own_slots_def)
  moreover have "ins_at (x # p) (builtin_leaf c) n = with_child x c1 n" by (simp add: c1_def c0_def)
  ultimately show ?case using f IH(2) b by simp
qed

section \<open>Building\<close>

text \<open>A block that is not the whole address space and is aligned to its size.\<close>

definition block_wf :: "UntypedId \<Rightarrow> bool" where
  "block_wf u \<longleftrightarrow> size_bits u < 64 \<and> paddr u + 2 ^ size_bits u \<le> 2 ^ 64 \<and> 2 ^ size_bits u dvd paddr u"

lemma aligned_path:
  assumes "size_bits u \<le> b" "2 ^ size_bits u dvd paddr u - low" "low \<le> paddr u" "paddr u + 2 ^ size_bits u \<le> low + 2 ^ b"
  shows "\<exists>p. u = block_at p low b \<and> length p = b - size_bits u"
  using assms
proof (induction "b - size_bits u" arbitrary: b low)
  case 0
  then have "size_bits u = b" by simp
  moreover from this 0 have "paddr u = low" by simp
  ultimately show ?case by (intro exI [of _ "[]"]) (auto intro: UntypedId.equality)
next
  case (Suc d)
  then obtain k where b: "b = Suc k" "size_bits u \<le> k" by (cases b) auto
  define s where "s = (2::nat) ^ size_bits u"
  have sk: "s dvd 2 ^ k" using b(2) by (simp add: s_def le_imp_power_dvd)
  define x where "x = (low + 2 ^ k \<le> paddr u)"
  have c: "2 ^ size_bits u dvd paddr u - low_of x low k" "low_of x low k \<le> paddr u"
  proof -
    show "low_of x low k \<le> paddr u" using Suc.prems(3) by (auto simp: x_def)
    show "2 ^ size_bits u dvd paddr u - low_of x low k"
      using Suc.prems(2) sk by (auto simp: x_def s_def dvd_diff_nat simp flip: diff_diff_left)
  qed
  have d: "paddr u + 2 ^ size_bits u \<le> low_of x low k + 2 ^ k"
  proof (cases x)
    case True
    then show ?thesis using Suc.prems(4) b by simp
  next
    case False
    obtain i where i: "paddr u - low = s * i" using Suc.prems(2) by (auto simp: s_def)
    obtain j where j: "2 ^ k = s * j" using sk by blast
    have "paddr u - low < 2 ^ k" using False Suc.prems(3) by (simp add: x_def)
    then have "s * i < s * j" by (simp only: i j)
    then have "i + 1 \<le> j" by simp
    then have "s * (i + 1) \<le> s * j" by (rule mult_le_mono2)
    then show ?thesis using False i j Suc.prems(3) by (simp add: s_def)
  qed
  have "d = k - size_bits u" using Suc.hyps(2) b by simp
  from Suc.hyps(1) [OF this b(2) c d] obtain p where "u = block_at p (low_of x low k) k" "length p = k - size_bits u" by blast
  then show ?case using b by (intro exI [of _ "x # p"]) auto
qed


lemma block_wf_path:
  assumes "block_wf u"
  shows "\<exists>p. u = root_block p \<and> p \<noteq> [] \<and> length p \<le> 64"
proof -
  have "size_bits u \<le> 64" "2 ^ size_bits u dvd paddr u - 0" "0 \<le> paddr u" "paddr u + 2 ^ size_bits u \<le> 0 + 2 ^ 64"
    using assms by (simp_all add: block_wf_def)
  from aligned_path [OF this] obtain p where p: "u = root_block p" "length p = 64 - size_bits u" by blast
  moreover have "size_bits u < 64" using assms by (simp add: block_wf_def)
  ultimately have "p \<noteq> []" by auto
  with p show ?thesis by (intro exI [of _ p]) simp
qed

definition build_ok :: "UntypedId multiset \<Rightarrow> CRegion \<Rightarrow> 'w Allocator \<Rightarrow> bool" where
  "build_ok M c al \<longleftrightarrow> fresh_tree (al_tree al) 0 64 \<and> \<not> is_accessible (al_tree al) \<and> leaves_ok (al_leaves al) \<and>
     leaves_mset (al_leaves al) = M \<and> al_free al = M \<and> al_cregion al = c"

lemma add_builtin_spec:
  assumes ok: "build_ok M c al" and w: "block_wf (eu_untyped_id eu)"
    and dj: "\<And>v. v \<in># M \<Longrightarrow> block_range v \<inter> block_range (eu_untyped_id eu) = {}"
  shows "\<exists>al'. add_builtin eu al = Some al' \<and> build_ok (add_mset (eu_untyped_id eu) M) c al' \<and> al_world al' = al_world al"
proof -
  let ?u = "eu_untyped_id eu"
  note o = ok [unfolded build_ok_def]
  from block_wf_path [OF w] obtain p where p: "?u = root_block p" "p \<noteq> []" "length p \<le> 64" by blast
  have cov: "covering a (free_blocks (al_tree al) 0 64) = 0" if "a \<in> block_range (root_block p)" for a
    using dj that o p(1) by (auto simp: covering_def al_free_def)
  have ins: "insert_builtin 64 0 MAX_ADDR (al_tree al) ?u (builtin_leaf (eu_cptr eu)) = Some (ins_at p (builtin_leaf (eu_cptr eu)) (al_tree al))"
    using insert_builtin_path [OF p(3), of 0] by (simp add: p(1) MAX_ADDR_def)
  have "\<not> (paddr ?u = 0 \<and> size_bits ?u = 64)" using w by (auto simp: block_wf_def)
  moreover have "paddr ?u \<le> MAX_ADDR" using paddr_root_block [OF p(3)] p(1) by simp
  ultimately have run: "add_builtin eu al = Some (al\<lparr>al_tree := ins_at p (builtin_leaf (eu_cptr eu)) (al_tree al), al_leaves := add_leaf ?u (al_leaves al)\<rparr>)"
    using ins by (simp add: add_builtin_def Let_def rust_assert_def builtin_leaf_def)
  have "fresh_tree (al_tree al) 0 64" using o by simp
  from ins_at_spec [OF this p(3) cov] have
    "fresh_tree (ins_at p (builtin_leaf (eu_cptr eu)) (al_tree al)) 0 64"
    "free_blocks (ins_at p (builtin_leaf (eu_cptr eu)) (al_tree al)) 0 64 = add_mset ?u M"
    using o p(1) by (simp_all add: al_free_def)
  moreover have "is_accessible (ins_at p (builtin_leaf (eu_cptr eu)) (al_tree al)) = is_accessible (al_tree al)"
    using p(2) by (cases p) auto
  ultimately show ?thesis using run o idx.add_law [of "al_leaves al" ?u]
    by (simp add: build_ok_def al_free_def)
qed

text \<open>The blocks given to the builder: each aligned, no two overlapping.\<close>

definition untypeds_wf :: "UntypedId list \<Rightarrow> bool" where
  "untypeds_wf us \<longleftrightarrow> (\<forall>u\<in>set us. block_wf u) \<and>
     sorted_wrt (\<lambda>u v. block_range u \<inter> block_range v = {}) us"

lemma build_loop:
  "untypeds_wf (vs @ map eu_untyped_id eus) \<Longrightarrow> build_ok (mset vs) c al \<Longrightarrow>
    \<exists>al'. for_each eus add_builtin al = Some al' \<and> build_ok (mset (vs @ map eu_untyped_id eus)) c al' \<and> al_world al' = al_world al"
proof (induction eus arbitrary: vs al)
  case (Cons eu eus)
  have "block_wf (eu_untyped_id eu)" "\<And>v. v \<in># mset vs \<Longrightarrow> block_range v \<inter> block_range (eu_untyped_id eu) = {}"
    using Cons.prems(1) by (auto simp: untypeds_wf_def sorted_wrt_append)
  from add_builtin_spec [OF Cons.prems(2) this] obtain al1 where
    a: "add_builtin eu al = Some al1" "build_ok (add_mset (eu_untyped_id eu) (mset vs)) c al1" "al_world al1 = al_world al" by blast
  have "untypeds_wf ((vs @ [eu_untyped_id eu]) @ map eu_untyped_id eus)" using Cons.prems(1) by simp
  from Cons.IH [OF this, of al1] a show ?case by simp
qed auto

lemma build_spec:
  assumes "untypeds_wf (map eu_untyped_id (ab_untyped b))" "cr_ok (ab_cregion b)"
  shows "\<exists>al. build b w = Some al \<and> alloc_ok al \<and> al_free al = mset (map eu_untyped_id (ab_untyped b)) \<and> al_used al = {#} \<and>
    al_cregion al = ab_cregion b \<and> al_world al = w"
proof -
  let ?al = "\<lparr>al_cregion = ab_cregion b, al_fragmentation_threshold_size_bits = ab_fragmentation_threshold_size_bits b,
      al_tree = Node_new, al_leaves = [], al_world = w\<rparr>"
  have "build_ok {#} (ab_cregion b) ?al"
    by (simp add: build_ok_def fresh_tree_def Node_new_def tree_ok.simps tree_slots.simps used_blocks.simps free_blocks.simps
        own_slots_def leaves_ok_def leaves_mset_def al_free_def)
  with build_loop [of "[]" "ab_untyped b" "ab_cregion b" ?al] assms(1) obtain al where
    "build b w = Some al" "build_ok (mset (map eu_untyped_id (ab_untyped b))) (ab_cregion b) al" "al_world al = w"
    by (auto simp: build_def)
  with assms(2) show ?thesis by (auto simp: build_ok_def alloc_ok_def fresh_tree_def al_used_def)
qed

end
