(* ===== verification/AllocatorRun.thy ===== *)
theory AllocatorRun
  imports AllocatorBuild
begin

text \<open>
  The properties of the allocator: on single calls, and on every sequence of successful calls from a freshly
  built allocator.
\<close>

section \<open>CNodes\<close>

lemma alloc_ok_cregion:
  assumes "alloc_ok al" "cr_ok c" "cr_used (al_cregion al) \<subseteq> cr_used c"
  shows "alloc_ok (al\<lparr>al_cregion := c\<rparr>)"
proof -
  have "tree_slots (al_tree al) \<subseteq># mset_set (cr_used (al_cregion al))" using assms(1) by (simp add: alloc_ok_def)
  also have "\<dots> \<subseteq># mset_set (cr_used c)" using assms(3) pool.finite_used [OF assms(2)] by (simp add: subset_imp_msubset_mset_set)
  finally show ?thesis using assms(1,2) by (simp add: alloc_ok_def al_free_def)
qed

lemma kernel_calls_alloc_ok:
  "al_mutate K d s x al = Some (r, al') \<Longrightarrow> \<exists>w. al' = al\<lparr>al_world := w\<rparr>"
  "al_delete K p al = Some (r, al') \<Longrightarrow> \<exists>w. al' = al\<lparr>al_world := w\<rparr>"
  by (auto simp: al_mutate_def al_delete_def split: prod.splits)

lemma world_irrelevant [simp]: "alloc_ok (al\<lparr>al_world := w\<rparr>) = alloc_ok al" "al_used (al\<lparr>al_world := w\<rparr>) = al_used al"
  "al_free (al\<lparr>al_world := w\<rparr>) = al_free al"
  by (simp_all add: alloc_ok_def al_free_def al_used_def)

lemma cregion_irrelevant [simp]: "al_used (al\<lparr>al_cregion := c\<rparr>) = al_used al" "al_free (al\<lparr>al_cregion := c\<rparr>) = al_free al"
  by (simp_all add: al_free_def al_used_def)

text \<open>A call of \<open>create_cnode\<close> that returns, with or without a kernel error, in pieces.\<close>

lemma create_cnode_pieces:
  assumes r: "create_cnode K radix al = Some (res, al')" and ok: "alloc_ok al"
  obtains realm_slot c1 temp_slot c2 rel u al1 w where
    "alloc_unwrap (al_cregion al) = Some (realm_slot, c1)" "alloc_unwrap c1 = Some (temp_slot, c2)"
    "create_object K (cr_root c1) temp_slot (BP_CNode radix) (al\<lparr>al_cregion := c2\<rparr>) = Some (u, al1)"
    "(\<exists>e. res = Inl e \<and> al' = al1\<lparr>al_world := w\<rparr>) \<or>
     (\<exists>c3. res = Inr (rel, u, realm_slot) \<and> slot_free temp_slot (al_cregion al1) = Some c3 \<and> al' = al1\<lparr>al_world := w, al_cregion := c3\<rparr>)"
proof -
  from r obtain realm_slot c1 rel temp_slot c2 u al1 where
    a: "alloc_unwrap (al_cregion al) = Some (realm_slot, c1)" "alloc_unwrap c1 = Some (temp_slot, c2)"
      "create_object K (cr_root c1) temp_slot (BP_CNode radix) (al\<lparr>al_cregion := c2\<rparr>) = Some (u, al1)" and
    b: "try_method (al_mutate K (cr_root rel) (cr_relative_cptr c2 temp_slot)
          (k_cap_data K 0 (of_nat (usize_sub (usize_sub 64 (cp_depth (rc_path (cr_relative_cptr c1 realm_slot)))) radix))) al1)
        (\<lambda>_ al. try_method (al_delete K (cr_relative_cptr c2 temp_slot) al) (\<lambda>_ al. do {
          c \<leftarrow> slot_free temp_slot (al_cregion al);
          Some (Inr (rel, u, realm_slot), al\<lparr>al_cregion := c\<rparr>) })) = Some (res, al')"
    unfolding create_cnode_def Let_def by (simp only: bind_eq_Some_conv split_paired_Ex prod.case) blast
  from b have "\<exists>w. (\<exists>e. res = Inl e \<and> al' = al1\<lparr>al_world := w\<rparr>) \<or>
     (\<exists>c3. res = Inr (rel, u, realm_slot) \<and> slot_free temp_slot (al_cregion al1) = Some c3 \<and> al' = al1\<lparr>al_world := w, al_cregion := c3\<rparr>)"
    by (auto simp: try_method_result bind_eq_Some_conv dest!: kernel_calls_alloc_ok)
  then show ?thesis by (elim exE) (rule that [OF a])
qed


lemma create_object_tree_slots:
  assumes ok: "alloc_ok al" and r: "create_object K dst slot bp al = Some (u, al')"
  shows "\<exists>q. tree_slots (al_tree al') = tree_slots (al_tree al) + slots_of_pairs q \<and>
    mset_set (cr_free (al_cregion al)) = mset_set (cr_free (al_cregion al')) + slots_of_pairs q"
  using create_object_path_any [OF ok r] by blast

text \<open>The slots the call took are free or in use, and a slot in use before stays in use.\<close>

lemma create_object_used_slots:
  assumes ok: "alloc_ok al" and r: "create_object K dst slot bp al = Some (u, al')"
  shows "\<exists>q. tree_slots (al_tree al') = tree_slots (al_tree al) + slots_of_pairs q \<and>
    mset_set (cr_used (al_cregion al')) = mset_set (cr_used (al_cregion al)) + slots_of_pairs q"
proof -
  let ?k = "physical_size_bits (k_sizes K) bp"
  from create_object_enabled [OF ok r] obtain v where v: "v \<in># al_free al" "?k \<le> size_bits v"
    "2 * (size_bits v - ?k) \<le> card (cr_free (al_cregion al))" by blast
  from create_object_path [OF ok accepting_ok(1), of v K bp dst slot, unfolded accepting_ok(3), OF v]
    create_object_accepting [OF r] obtain p m q n where
    p: "node_at p (al_tree al) = Some m" "is_deletable m" "al_tree al' = put_at p (carve q m) (al_tree al)"
      "mset_set (cr_used (al_cregion al')) = mset_set (cr_used (al_cregion al)) + slots_of_pairs q"
    by auto
  have l: "length p \<le> 64" using tree_ok_put [of False 64 "al_tree al" p m] ok p(1) by (auto simp: alloc_ok_def)
  from put_context [OF p(1) l, of 0] obtain S where S: "\<And>m'. tree_slots (put_at p m' (al_tree al)) = S + tree_slots m'" by blast
  have "tree_slots (al_tree al') = tree_slots (al_tree al) + slots_of_pairs q"
    using S [of m] S [of "carve q m"] put_at_same [OF p(1)] by (simp add: p(3) carve_blocks [OF p(2)])
  with p(4) show ?thesis by blast
qed

lemma create_cnode_effect:
  assumes ok: "alloc_ok al" and r: "create_cnode K radix al = Some (res, al')"
  shows "alloc_ok al' \<and> held a al' = held a al"
proof -
  from r ok obtain realm_slot c1 temp_slot c2 rel u al1 w where
    a: "alloc_unwrap (al_cregion al) = Some (realm_slot, c1)" "alloc_unwrap c1 = Some (temp_slot, c2)"
      "create_object K (cr_root c1) temp_slot (BP_CNode radix) (al\<lparr>al_cregion := c2\<rparr>) = Some (u, al1)" and
    e: "(\<exists>e. res = Inl e \<and> al' = al1\<lparr>al_world := w\<rparr>) \<or>
     (\<exists>c3. res = Inr (rel, u, realm_slot) \<and> slot_free temp_slot (al_cregion al1) = Some c3 \<and> al' = al1\<lparr>al_world := w, al_cregion := c3\<rparr>)"
    by (rule create_cnode_pieces)
  have cr: "cr_ok (al_cregion al)" and ts: "tree_slots (al_tree al) \<subseteq># mset_set (cr_used (al_cregion al))" using ok by (auto simp: alloc_ok_def)
  note c1 = pool.alloc_Some [OF cr a(1)]
  note c2 = pool.alloc_Some [OF c1(3) a(2)]
  have ok2: "alloc_ok (al\<lparr>al_cregion := c2\<rparr>)" using c1(5) c2(5) by (intro alloc_ok_cregion [OF ok c2(3)]) auto
  note ce = create_effect [OF ok2 a(3)]
  have h1: "held a al1 = held a al" using ce(2) ce(3) [of a] by (simp add: held_def)
  show ?thesis
  proof (cases res)
    case (Inl x)
    with e have "al' = al1\<lparr>al_world := w\<rparr>" by auto
    with ce(1) h1 show ?thesis by (simp add: held_def)
  next
    case (Inr x)
    with e obtain c3 where c3: "slot_free temp_slot (al_cregion al1) = Some c3" "al' = al1\<lparr>al_world := w, al_cregion := c3\<rparr>" by auto
    have cr1: "cr_ok (al_cregion al1)" using ce(1) by (simp add: alloc_ok_def)
    from create_object_used_slots [OF ok2 a(3)] obtain q where
      q: "tree_slots (al_tree al1) = tree_slots (al_tree al) + slots_of_pairs q"
        "mset_set (cr_used (al_cregion al1)) = mset_set (cr_used c2) + slots_of_pairs q" by auto
    have u2: "mset_set (cr_used c2) = add_mset temp_slot (mset_set (cr_used c1))"
      using c2(2,5) pool.finite_used [OF c1(3)] by simp
    have "temp_slot \<in># mset_set (cr_used (al_cregion al1))" by (simp only: q(2) u2) simp
    from slot_free_mset [OF cr1 this] c3(1) have f: "cr_ok c3"
      "mset_set (cr_used (al_cregion al1)) = add_mset temp_slot (mset_set (cr_used c3))" by auto
    have "mset_set (cr_used c3) = mset_set (cr_used c1) + slots_of_pairs q" using f(2) q(2) u2 by simp
    moreover have "mset_set (cr_used (al_cregion al)) \<subseteq># mset_set (cr_used c1)"
      using c1(5) pool.finite_used [OF c1(3)] by (auto intro: subset_imp_msubset_mset_set)
    ultimately have "tree_slots (al_tree al1) \<subseteq># mset_set (cr_used c3)"
      using ts q(1) by (metis subset_mset.add_right_mono subset_mset.order_trans)
    with ce(1) f(1) have "alloc_ok al'" by (simp add: c3(2) alloc_ok_def al_free_def)
    with h1 c3(2) show ?thesis by (simp add: held_def)
  qed
qed

section \<open>Sequences of calls\<close>

inductive alloc_step :: "('w, 'e) cap_kernel \<Rightarrow> 'w Allocator \<Rightarrow> 'w Allocator \<Rightarrow> bool" for K where
  step_create: "create_object K dst slot bp al = Some (u, al') \<Longrightarrow> alloc_step K al al'"
| step_cnode: "create_cnode K radix al = Some (res, al') \<Longrightarrow> alloc_step K al al'"
| step_revoke: "revoke_and_free K u al = Some (Inr (), al') \<Longrightarrow> alloc_step K al al'"

inductive alloc_reach :: "('w, 'e) cap_kernel \<Rightarrow> 'w Allocator \<Rightarrow> 'w Allocator \<Rightarrow> bool" for K where
  reach_refl: "alloc_reach K al al"
| reach_step: "alloc_reach K al0 al \<Longrightarrow> alloc_step K al al' \<Longrightarrow> alloc_reach K al0 al'"

lemma alloc_step_effect: "alloc_step K al al' \<Longrightarrow> alloc_ok al \<Longrightarrow> alloc_ok al' \<and> held a al' = held a al"
proof (induction rule: alloc_step.induct)
  case (step_create dst slot bp al u al')
  from create_effect(1,2) [OF step_create(2,1)] create_effect(3) [OF step_create(2,1), of a] show ?case by (simp add: held_def)
next
  case (step_cnode radix al res al')
  from create_cnode_effect [OF step_cnode(2,1)] show ?case .
next
  case (step_revoke u al al')
  from revoke_effect(1,2) [OF step_revoke(2,1)] revoke_effect(3) [OF step_revoke(2,1), of a] show ?case by (simp add: held_def)
qed

lemma alloc_reach_effect: "alloc_reach K al0 al \<Longrightarrow> alloc_ok al0 \<Longrightarrow> alloc_ok al \<and> held a al = held a al0"
  by (induction rule: alloc_reach.induct) (simp, metis alloc_step_effect)

lemma covering_list:
  "untypeds_wf us \<Longrightarrow> covering a (mset us) = (if \<exists>u\<in>set us. a \<in> block_range u then 1 else 0)"
proof (induction us)
  case (Cons u us)
  then have "untypeds_wf us" "\<forall>v\<in>set us. block_range u \<inter> block_range v = {}" by (auto simp: untypeds_wf_def)
  with Cons.IH show ?case by auto
qed simp


section \<open>A concrete allocator\<close>

text \<open>One untyped block of 62 bits, a CNode of eight slots and a kernel that accepts every invocation.\<close>

definition ex_sizes :: sel4_sizes where
  "ex_sizes = \<lparr>seL4_EndpointBits = 4, seL4_NotificationBits = 5, seL4_SlotBits = 5, seL4_TCBBits = 11, seL4_VCPUBits = 12,
     seL4_PageBits = 12, seL4_LargePageBits = 21, seL4_HugePageBits = 30, seL4_PageTableBits = 12, seL4_PageDirBits = 12,
     seL4_PUDBits = 12, seL4_PGDBits = 12\<rparr>"

definition ex_kernel :: "(unit, unit) cap_kernel" where
  "ex_kernel = \<lparr>k_sizes = ex_sizes, k_cap_data = \<lambda>g s. s, k_retype = \<lambda>w p bp d s n. (Inr (), ()),
     k_mutate = \<lambda>w d s x. (Inr (), ()), k_delete = \<lambda>w p. (Inr (), ()), k_revoke = \<lambda>w p. (Inr (), ())\<rparr>"

definition ex_root :: RelativeCPtr where
  "ex_root = \<lparr>rc_root = 2, rc_path = \<lparr>cp_cptr = 0, cp_depth = 0\<rparr>\<rparr>"

definition ex_cregion :: CRegion where
  "ex_cregion = \<lparr>cr_root = ex_root, cr_guard = 0, cr_guard_size = 10, cr_radix = 3,
     cr_set = map (\<lambda>k. (k, False)) [0..<8]\<rparr>"

definition ex_block :: UntypedId where
  "ex_block = \<lparr>paddr = 0, size_bits = 62\<rparr>"

definition ex_builder :: AllocatorBuilder where
  "ex_builder = add_untyped \<lparr>eu_cptr = 7, eu_untyped_id = ex_block\<rparr> (AllocatorBuilder_new ex_cregion)"

definition ex_alloc :: "unit Allocator" where
  "ex_alloc = the (build ex_builder ())"

lemma ex_untypeds: "untypeds_wf (map eu_untyped_id (ab_untyped ex_builder))" "ab_cregion ex_builder = ex_cregion"
  "map eu_untyped_id (ab_untyped ex_builder) = [ex_block]"
  by (simp_all add: ex_builder_def add_untyped_def AllocatorBuilder_new_def untypeds_wf_def block_wf_def ex_block_def)

lemma ex_cregion_ok: "cr_ok ex_cregion" "cr_free ex_cregion = {..<8}"
proof -
  show "cr_ok ex_cregion" by (simp add: cr_ok_def ex_cregion_def upt_rec)
  show "cr_free ex_cregion = {..<8}" by (auto simp: cr_free_def ex_cregion_def map_of_map_restrict [symmetric] upt_rec split: if_splits)
qed

lemma ex_alloc_ok: "build ex_builder () = Some ex_alloc" "alloc_ok ex_alloc" "al_free ex_alloc = {#ex_block#}" "al_used ex_alloc = {#}"
  "al_cregion ex_alloc = ex_cregion"
  using build_spec [OF ex_untypeds(1), of "()"] ex_cregion_ok(1) by (auto simp: ex_untypeds ex_alloc_def)

lemma ex_accepts: "retype_accepts ex_kernel" "revoke_accepts ex_kernel"
  by (simp_all add: retype_accepts_def revoke_accepts_def ex_kernel_def)

lemma ex_create:
  "\<exists>al. create_object ex_kernel ex_root 0 (BP_Untyped 60) ex_alloc = Some (\<lparr>paddr = 2 ^ 62 - 2 ^ 60, size_bits = 60\<rparr>, al) \<and> alloc_ok al"
proof -
  have k: "60 = physical_size_bits (k_sizes ex_kernel) (BP_Untyped 60)" by (simp add: physical_size_bits_def)
  have "\<exists>u al'. create_object ex_kernel ex_root 0 (BP_Untyped 60) ex_alloc = Some (\<lparr>paddr = paddr u + 2 ^ size_bits u - 2 ^ 60, size_bits = 60\<rparr>, al') \<and>
      alloc_ok al' \<and> u \<in># al_free ex_alloc"
    using create_object_refines_lemma [OF ex_alloc_ok(2) ex_accepts(1) k, of ex_block ex_root 0] ex_alloc_ok(3,5) ex_cregion_ok(2)
    by (auto simp: ex_block_def)
  then show ?thesis by (auto simp: ex_alloc_ok(3) ex_block_def)
qed


section \<open>Properties\<close>

text \<open>
  The abstract allocator: a set of free addresses and the live blocks. Creating takes the addresses of the
  new block from the free ones, revoking gives them back.
\<close>

definition al_abs :: "'w Allocator \<Rightarrow> nat set \<times> UntypedId multiset" where
  "al_abs al = (\<Union>(block_range ` set_mset (al_free al)), al_used al)"

definition abs_create :: "nat \<Rightarrow> UntypedId \<Rightarrow> nat set \<times> UntypedId multiset \<Rightarrow> nat set \<times> UntypedId multiset \<Rightarrow> bool" where
  "abs_create k u s s' \<longleftrightarrow> size_bits u = k \<and> block_range u \<subseteq> fst s \<and> s' = (fst s - block_range u, add_mset u (snd s))"

definition abs_revoke :: "UntypedId \<Rightarrow> nat set \<times> UntypedId multiset \<Rightarrow> nat set \<times> UntypedId multiset \<Rightarrow> bool" where
  "abs_revoke u s s' \<longleftrightarrow> u \<in># snd s \<and> s' = (fst s \<union> block_range u, snd s - {#u#})"

lemma covering_mem: "a \<in> \<Union>(block_range ` set_mset M) \<longleftrightarrow> 0 < covering a M"
proof -
  have "0 < covering a M \<longleftrightarrow> (\<exists>u. u \<in># filter_mset (\<lambda>u. a \<in> block_range u) M)"
    by (simp add: covering_def nonempty_has_size [symmetric] multiset_nonemptyE)
  then show ?thesis by auto
qed

lemma free_at_most: "alloc_ok al \<Longrightarrow> covering a (al_free al) \<le> 1"
  using held_at_most [of al a] by (simp add: held_def)

text \<open>
  C10. A call of \<^verbatim>\<open>create_object\<close> that returns refines the abstract allocator, whatever the kernel does: the
  block it returns has the physical size of the blueprint, lies in free memory, leaves the free memory and
  joins the live blocks, and the invariant of the derivation tree, the leaf index and the slots is kept.
\<close>

theorem create_object_refines:
  assumes ok: "alloc_ok al" and r: "create_object K dst slot bp al = Some (u, al')"
  shows "alloc_ok al' \<and> abs_create (physical_size_bits (k_sizes K) bp) u (al_abs al) (al_abs al')"
proof -
  note e = create_effect(1,2,4) [OF ok r] and c = create_effect(3) [OF ok r]
  have "block_range u \<subseteq> \<Union>(block_range ` set_mset (al_free al))"
    using c unfolding subset_iff covering_mem by simp
  moreover have "a \<in> \<Union>(block_range ` set_mset (al_free al')) \<longleftrightarrow>
      a \<in> \<Union>(block_range ` set_mset (al_free al)) \<and> a \<notin> block_range u" for a
    using c [of a] free_at_most [OF ok, of a] unfolding covering_mem by (simp split: if_splits)
  then have "\<Union>(block_range ` set_mset (al_free al')) = \<Union>(block_range ` set_mset (al_free al)) - block_range u" by blast
  ultimately show ?thesis using e by (simp add: abs_create_def al_abs_def)
qed

theorem create_object_refines_witness:
  "\<exists>al u. create_object ex_kernel ex_root 0 (BP_Untyped 60) ex_alloc = Some (u, al) \<and> alloc_ok al \<and>
    abs_create 60 u (al_abs ex_alloc) (al_abs al)"
proof -
  from ex_create obtain al u where r: "create_object ex_kernel ex_root 0 (BP_Untyped 60) ex_alloc = Some (u, al)" by blast
  from create_object_refines [OF ex_alloc_ok(2) r] have "alloc_ok al \<and> abs_create 60 u (al_abs ex_alloc) (al_abs al)"
    by (simp add: physical_size_bits_def)
  with r show ?thesis by blast
qed

text \<open>
  C11. A successful \<^verbatim>\<open>revoke_and_free\<close> refines the abstract allocator: it was called on a live block, whose
  addresses become free again, and the invariant is kept through all the merging.
\<close>

theorem revoke_and_free_refines:
  assumes ok: "alloc_ok al" and r: "revoke_and_free K u al = Some (Inr (), al')"
  shows "alloc_ok al' \<and> abs_revoke u (al_abs al) (al_abs al')"
proof -
  note e = revoke_effect(1,2) [OF ok r] and c = revoke_effect(3) [OF ok r]
  have "a \<in> \<Union>(block_range ` set_mset (al_free al')) \<longleftrightarrow>
      a \<in> \<Union>(block_range ` set_mset (al_free al)) \<or> a \<in> block_range u" for a
    using c [of a] unfolding covering_mem by (simp split: if_splits)
  then have "\<Union>(block_range ` set_mset (al_free al')) = \<Union>(block_range ` set_mset (al_free al)) \<union> block_range u" by blast
  then show ?thesis using e by (simp add: abs_revoke_def al_abs_def)
qed

lemma ex_used: "create_object ex_kernel ex_root 0 (BP_Untyped 60) ex_alloc = Some (u, al) \<Longrightarrow> u \<in># al_used al"
  using create_effect(2) [OF ex_alloc_ok(2)] by fastforce

theorem revoke_and_free_refines_witness:
  "\<exists>u al al'. create_object ex_kernel ex_root 0 (BP_Untyped 60) ex_alloc = Some (u, al) \<and>
    revoke_and_free ex_kernel u al = Some (Inr (), al') \<and> alloc_ok al' \<and> abs_revoke u (al_abs al) (al_abs al')"
proof -
  from ex_create obtain al u where r: "create_object ex_kernel ex_root 0 (BP_Untyped 60) ex_alloc = Some (u, al)" "alloc_ok al" by blast
  from ex_used [OF r(1)] used_iff [OF r(2)] obtain p m where "node_at p (al_tree al) = Some m" "is_consumed m" "u = root_block p" by blast
  from revoke_path [OF r(2) ex_accepts(2) this(1,2)] this(3) obtain al' where q: "revoke_and_free ex_kernel u al = Some (Inr (), al')" by blast
  from revoke_and_free_refines [OF r(2) q] r(1) q show ?thesis by blast
qed

text \<open>
  C12. Every state reached from a freshly built allocator by any sequence of \<^verbatim>\<open>create_object\<close>, \<^verbatim>\<open>create_cnode\<close>
  and successful \<^verbatim>\<open>revoke_and_free\<close> calls satisfies the invariant, and every address of the memory given to
  the builder lies in exactly one block, free or live, every other address in none: no memory is lost,
  invented or handed out twice.
\<close>

theorem alloc_reach_conserves:
  assumes "untypeds_wf (map eu_untyped_id (ab_untyped b))" "cr_ok (ab_cregion b)" "build b w = Some al0" "alloc_reach K al0 al"
  shows "alloc_ok al \<and> held a al = (if \<exists>eu\<in>set (ab_untyped b). a \<in> block_range (eu_untyped_id eu) then 1 else 0)"
proof -
  from build_spec [OF assms(1,2), of w] assms(3) have b: "alloc_ok al0" "al_free al0 = mset (map eu_untyped_id (ab_untyped b))" "al_used al0 = {#}"
    by auto
  have "held a al0 = (if \<exists>eu\<in>set (ab_untyped b). a \<in> block_range (eu_untyped_id eu) then 1 else 0)"
    using covering_list [OF assms(1), of a] by (simp add: held_def b)
  with alloc_reach_effect [OF assms(4) b(1)] show ?thesis by simp
qed

theorem alloc_reach_conserves_witness:
  "\<exists>u al. create_object ex_kernel ex_root 0 (BP_Untyped 60) ex_alloc = Some (u, al) \<and> alloc_ok al \<and> held 5 al = 1 \<and> held (2 ^ 62) al = 0"
proof -
  from ex_create obtain al u where r: "create_object ex_kernel ex_root 0 (BP_Untyped 60) ex_alloc = Some (u, al)" by blast
  have reach: "alloc_reach ex_kernel ex_alloc al" by (rule reach_step [OF reach_refl step_create [OF r]])
  have us: "ab_untyped ex_builder = [\<lparr>eu_cptr = 7, eu_untyped_id = ex_block\<rparr>]"
    by (simp add: ex_builder_def add_untyped_def AllocatorBuilder_new_def)
  note t = alloc_reach_conserves [OF ex_untypeds(1) _ ex_alloc_ok(1) reach]
  have "alloc_ok al" "held 5 al = 1" "held (2 ^ 62) al = 0"
    using t [of 5] t [of "2 ^ 62"] ex_cregion_ok(1) by (auto simp: ex_untypeds(2) us ex_block_def block_range_def)
  with r show ?thesis by blast
qed


text \<open>
  C26. When the kernel accepts the retypes, \<^verbatim>\<open>create_object\<close> panics exactly if no free block is large enough
  and splits down to the size with the slots that are left: each split takes two slots of the allocator's
  CNode.
\<close>

theorem create_object_panics_iff:
  assumes "alloc_ok al" "retype_accepts K"
  shows "create_object K dst slot bp al = None \<longleftrightarrow>
    \<not> (\<exists>v\<in>#al_free al. physical_size_bits (k_sizes K) bp \<le> size_bits v \<and>
         2 * (size_bits v - physical_size_bits (k_sizes K) bp) \<le> card (cr_free (al_cregion al)))"
proof
  assume n: "create_object K dst slot bp al = None"
  show "\<not> (\<exists>v\<in>#al_free al. physical_size_bits (k_sizes K) bp \<le> size_bits v \<and>
         2 * (size_bits v - physical_size_bits (k_sizes K) bp) \<le> card (cr_free (al_cregion al)))"
    using create_object_path [OF assms, of _ bp dst slot] n by fastforce
next
  assume n: "\<not> (\<exists>v\<in>#al_free al. physical_size_bits (k_sizes K) bp \<le> size_bits v \<and>
         2 * (size_bits v - physical_size_bits (k_sizes K) bp) \<le> card (cr_free (al_cregion al)))"
  show "create_object K dst slot bp al = None"
  proof (rule ccontr)
    assume "create_object K dst slot bp al \<noteq> None"
    then obtain r where "create_object K dst slot bp al = Some r" by blast
    from create_object_enabled [OF assms(1) this] n show False by blast
  qed
qed

theorem create_object_panics_iff_witness:
  "create_object ex_kernel ex_root 0 (BP_Untyped 63) ex_alloc = None \<and> create_object ex_kernel ex_root 0 (BP_Untyped 57) ex_alloc = None"
  using create_object_panics_iff [OF ex_alloc_ok(2) ex_accepts(1), of ex_root 0 "BP_Untyped 63"]
    create_object_panics_iff [OF ex_alloc_ok(2) ex_accepts(1), of ex_root 0 "BP_Untyped 57"]
  by (simp add: ex_alloc_ok(3,5) ex_cregion_ok(2) physical_size_bits_def ex_block_def)

text \<open>
  \<^verbatim>\<open>create_object\<close> is a best fit: of the free blocks that are large enough it takes one of the smallest,
  the object is the upper end of it, and what remains are the lower halves of the splits, one block for
  each size from the object's up to just below that of the block taken.
\<close>

lemma create_object_best_fit:
  assumes "alloc_ok al" "retype_accepts K" "k = physical_size_bits (k_sizes K) bp"
    and "v \<in># al_free al" "k \<le> size_bits v" "2 * (size_bits v - k) \<le> card (cr_free (al_cregion al))"
  shows "\<exists>u al'. create_object K dst slot bp al =
      Some (\<lparr>paddr = paddr u + 2 ^ size_bits u - 2 ^ k, size_bits = k\<rparr>, al') \<and>
    u \<in># al_free al \<and> k \<le> size_bits u \<and> (\<forall>w\<in>#al_free al. k \<le> size_bits w \<longrightarrow> size_bits u \<le> size_bits w) \<and>
    al_free al' = al_free al - {#u#} +
      image_mset (\<lambda>i. \<lparr>paddr = paddr u + 2 ^ size_bits u - 2 ^ Suc i, size_bits = i\<rparr>) (mset [k..<size_bits u])"
  using create_object_refines_lemma [OF assms, of dst slot] by blast

lemma create_object_best_fit_witness:
  "\<exists>al. create_object ex_kernel ex_root 0 (BP_Untyped 60) ex_alloc = Some (\<lparr>paddr = 2 ^ 62 - 2 ^ 60, size_bits = 60\<rparr>, al) \<and>
    al_free al = {#\<lparr>paddr = 0, size_bits = 61\<rparr>, \<lparr>paddr = 2 ^ 61, size_bits = 60\<rparr>#}"
proof -
  have k: "60 = physical_size_bits (k_sizes ex_kernel) (BP_Untyped 60)" by (simp add: physical_size_bits_def)
  have u: "[60..<62] = [60, 61::nat]" by (simp add: upt_rec)
  from create_object_best_fit [OF ex_alloc_ok(2) ex_accepts(1) k, of ex_block ex_root 0] show ?thesis
    using u by (simp add: ex_alloc_ok(3,5) ex_cregion_ok(2) ex_block_def upt_rec add_mset_commute)
qed

text \<open>
  \<^verbatim>\<open>revoke_and_free\<close> panics exactly on a block that is not live, when the kernel accepts the
  revocations: the assertions it makes on the way never fail on a live block, whatever has to be merged.
\<close>

lemma revoke_and_free_panics_iff:
  assumes "alloc_ok al" "revoke_accepts K"
  shows "revoke_and_free K u al = None \<longleftrightarrow> u \<notin># al_used al"
proof (cases "u \<in># al_used al")
  case True
  with used_iff [OF assms(1)] obtain p m where p: "node_at p (al_tree al) = Some m" "is_consumed m" "u = root_block p" by blast
  from revoke_path [OF assms p(1,2)] p(3) True show ?thesis by auto
next
  case False
  then show ?thesis using revoke_reaches [OF assms(1), of K u] used_iff [OF assms(1), of u]
    by (cases "revoke_and_free K u al") blast+
qed

lemma revoke_and_free_panics_iff_witness: "revoke_and_free ex_kernel ex_block ex_alloc = None"
  using revoke_and_free_panics_iff [OF ex_alloc_ok(2) ex_accepts(2), of ex_block] by (simp add: ex_alloc_ok(4))

text \<open>
  Destroying an object right after its creation restores the allocator: the derivation tree, the free
  blocks, the index of them and the free slots are those before, every split having been merged again.
\<close>

lemma create_revoke_roundtrip:
  assumes ok: "alloc_ok al" and c: "create_object K dst slot bp al = Some (u, al1)" and r: "revoke_and_free K u al1 = Some (Inr (), al2)"
  shows "al_tree al2 = al_tree al \<and> leaves_mset (al_leaves al2) = leaves_mset (al_leaves al) \<and>
    cr_free (al_cregion al2) = cr_free (al_cregion al)"
proof -
  from create_object_path_any [OF ok c] obtain p m q where
    u: "u = root_block (p @ right_path (length q))" and p: "node_at p (al_tree al) = Some m" "is_deletable m"
    and t: "al_tree al1 = put_at p (carve q m) (al_tree al)" and ok1: "alloc_ok al1"
    and s: "tree_slots (al_tree al1) = tree_slots (al_tree al) + slots_of_pairs q"
      "mset_set (cr_free (al_cregion al)) = mset_set (cr_free (al_cregion al1)) + slots_of_pairs q" by blast
  from carve_end [OF p(2), of q] obtain e where e: "node_at (p @ right_path (length q)) (al_tree al1) = Some e" "is_consumed e"
    by (auto simp: t node_at_append node_at_put [OF p(1)])
  from revoke_path [OF ok1 accepting_ok(2) [of K] e] revoke_accepting [OF r] u have
    r2: "alloc_ok al2" "al_tree al2 = free_at (p @ right_path (length q)) (al_tree al1)"
      "mset_set (cr_free (al_cregion al2)) + tree_slots (al_tree al2) = mset_set (cr_free (al_cregion al1)) + tree_slots (al_tree al1)"
    by auto
  have tree: "al_tree al2 = al_tree al" using free_put_carve [of False 64 "al_tree al" p m q] ok p r2(2) t by (simp add: alloc_ok_def)
  moreover have "mset_set (cr_free (al_cregion al2)) = mset_set (cr_free (al_cregion al))"
    using r2(3) s tree by (simp add: ac_simps)
  then have "cr_free (al_cregion al2) = cr_free (al_cregion al)"
    using ok r2(1) pool.finite_free by (metis alloc_ok_def finite_set_mset_mset_set)
  ultimately show ?thesis using ok r2(1) by (simp add: alloc_ok_def al_free_def)
qed

lemma create_revoke_roundtrip_witness:
  "\<exists>u al1 al2. create_object ex_kernel ex_root 0 (BP_Untyped 60) ex_alloc = Some (u, al1) \<and>
    revoke_and_free ex_kernel u al1 = Some (Inr (), al2) \<and> al_tree al2 = al_tree ex_alloc \<and> cr_free (al_cregion al2) = {..<8}"
proof -
  from ex_create obtain al u where r: "create_object ex_kernel ex_root 0 (BP_Untyped 60) ex_alloc = Some (u, al)" "alloc_ok al" by blast
  from ex_used [OF r(1)] used_iff [OF r(2)] obtain p m where "node_at p (al_tree al) = Some m" "is_consumed m" "u = root_block p" by blast
  from revoke_path [OF r(2) ex_accepts(2) this(1,2)] this(3) obtain al' where q: "revoke_and_free ex_kernel u al = Some (Inr (), al')" by blast
  from create_revoke_roundtrip [OF ex_alloc_ok(2) r(1) q] r(1) q show ?thesis by (auto simp: ex_alloc_ok(5) ex_cregion_ok(2))
qed


text \<open>
  \<^verbatim>\<open>create_cnode\<close> takes a slot of the allocator's CNode for the new CNode and returns it, but the
  realizer drops it: revoking the CNode's block gives back the memory and every other slot, and not this
  one.
\<close>

lemma create_cnode_leaks_slot:
  assumes ok: "alloc_ok al" and c: "create_cnode K radix al = Some (Inr (rel, u, slot), al1)"
    and r: "revoke_and_free K u al1 = Some (Inr (), al2)"
  shows "al_tree al2 = al_tree al \<and> slot \<in> cr_free (al_cregion al) \<and> cr_free (al_cregion al2) = cr_free (al_cregion al) - {slot}"
proof -
  from c ok obtain realm_slot c1 temp_slot c2 u' alx w c3 where
    a: "alloc_unwrap (al_cregion al) = Some (realm_slot, c1)" "alloc_unwrap c1 = Some (temp_slot, c2)"
      "create_object K (cr_root c1) temp_slot (BP_CNode radix) (al\<lparr>al_cregion := c2\<rparr>) = Some (u', alx)" and
    s: "slot = realm_slot" "u = u'" and
    c3: "slot_free temp_slot (al_cregion alx) = Some c3" "al1 = alx\<lparr>al_world := w, al_cregion := c3\<rparr>"
    by (elim create_cnode_pieces) auto
  have cr: "cr_ok (al_cregion al)" using ok by (simp add: alloc_ok_def)
  note c1 = pool.alloc_Some [OF cr a(1)]
  note c2 = pool.alloc_Some [OF c1(3) a(2)]
  have ok2: "alloc_ok (al\<lparr>al_cregion := c2\<rparr>)" using c1(5) c2(5) by (intro alloc_ok_cregion [OF ok c2(3)]) auto
  from create_object_path_any [OF ok2 a(3)] obtain p m q where
    u: "u' = root_block (p @ right_path (length q))" and p: "node_at p (al_tree al) = Some m" "is_deletable m"
    and t: "al_tree alx = put_at p (carve q m) (al_tree al)" and okx: "alloc_ok alx"
    and sl: "tree_slots (al_tree alx) = tree_slots (al_tree al) + slots_of_pairs q"
      "mset_set (cr_free c2) = mset_set (cr_free (al_cregion alx)) + slots_of_pairs q" by auto
  from carve_end [OF p(2), of q] obtain e where e: "node_at (p @ right_path (length q)) (al_tree al1) = Some e" "is_consumed e"
    by (auto simp: c3(2) t node_at_append node_at_put [OF p(1)])
  have ok1: "alloc_ok al1" using create_cnode_effect [OF ok c] by blast
  from revoke_path [OF ok1 accepting_ok(2) [of K] e] revoke_accepting [OF r] u s have
    r2: "alloc_ok al2" "al_tree al2 = free_at (p @ right_path (length q)) (al_tree al1)"
      "mset_set (cr_free (al_cregion al2)) + tree_slots (al_tree al2) = mset_set (cr_free c3) + tree_slots (al_tree alx)"
    by (auto simp: c3(2))
  have tree: "al_tree al2 = al_tree al"
    using free_put_carve [of False 64 "al_tree al" p m q] ok p r2(2) t c3(2) by (simp add: alloc_ok_def)
  have crx: "cr_ok (al_cregion alx)" using okx by (simp add: alloc_ok_def)
  have "temp_slot \<in># mset_set (cr_used (al_cregion alx))"
  proof -
    from create_object_used_slots [OF ok2 a(3)] obtain q' where "mset_set (cr_used (al_cregion alx)) = mset_set (cr_used c2) + slots_of_pairs q'" by auto
    moreover have "temp_slot \<in># mset_set (cr_used c2)" using c2(5) pool.finite_used [OF c2(3)] by simp
    ultimately show ?thesis by (simp only: union_iff simp_thms)
  qed
  from slot_free_mset [OF crx this] c3(1) have "mset_set (cr_free c3) = add_mset temp_slot (mset_set (cr_free (al_cregion alx)))" by auto
  then have "mset_set (cr_free (al_cregion al2)) = add_mset temp_slot (mset_set (cr_free c2))" using r2(3) sl tree by (simp add: ac_simps)
  also have "\<dots> = mset_set (cr_free c1)" using c2(1,4) pool.finite_free [OF c1(3)] by (simp add: mset_set.remove)
  finally have "cr_free (al_cregion al2) = cr_free c1"
    using r2(1) c1(3) pool.finite_free by (metis alloc_ok_def finite_set_mset_mset_set)
  with tree c1(1,4) s(1) show ?thesis by simp
qed


lemma create_cnode_total:
  assumes ok: "alloc_ok al" and K: "retype_accepts K" "\<And>w d s x. fst (k_mutate K w d s x) = Inr ()" "\<And>w p. fst (k_delete K w p) = Inr ()"
    and radix: "radix < 64" and k: "k = physical_size_bits (k_sizes K) (BP_CNode radix)"
    and v: "v \<in># al_free al" "k \<le> size_bits v" "2 + 2 * (size_bits v - k) \<le> card (cr_free (al_cregion al))"
  shows "\<exists>rel u slot al'. create_cnode K radix al = Some (Inr (rel, u, slot), al') \<and> u \<in># al_used al' \<and> alloc_ok al'"
proof -
  have cr: "cr_ok (al_cregion al)" using ok by (simp add: alloc_ok_def)
  have two: "2 \<le> card (cr_free (al_cregion al))" using v(3) by simp
  from pool.alloc_two [OF cr two] obtain s c1 t c2 where
    a: "alloc_unwrap (al_cregion al) = Some (s, c1)" "alloc_unwrap c1 = Some (t, c2)" "cr_ok c2" "s \<noteq> t" "s \<in> cr_free (al_cregion al)" "t \<in> cr_free (al_cregion al)"
      "cr_free c2 = cr_free (al_cregion al) - {s, t}" "cr_used c2 = insert s (insert t (cr_used (al_cregion al)))" by blast
  have ok2: "alloc_ok (al\<lparr>al_cregion := c2\<rparr>)" using a(8) by (intro alloc_ok_cregion [OF ok a(3)]) auto
  have card: "2 * (size_bits v - k) \<le> card (cr_free c2)"
    using v(3) a(4-7) pool.finite_free [OF cr] by (simp add: card_Diff_subset)
  from create_object_refines_lemma [OF ok2 K(1) k _ v(2), of "cr_root c1" t] v(1) card obtain u al1 where
    o: "create_object K (cr_root c1) t (BP_CNode radix) (al\<lparr>al_cregion := c2\<rparr>) = Some (u, al1)" by auto
  note ce = create_effect(1,2) [OF ok2 o]
  from CRegion_new_spec [OF radix] obtain rel where
    rel: "CRegion_new (cr_relative_cptr c1 s) 0 (of_nat (usize_sub (usize_sub 64 (cp_depth (rc_path (cr_relative_cptr c1 s)))) radix)) radix = Some rel" by blast
  obtain w1 where m: "al_mutate K (cr_root rel) (cr_relative_cptr c2 t)
      (k_cap_data K 0 (of_nat (usize_sub (usize_sub 64 (cp_depth (rc_path (cr_relative_cptr c1 s)))) radix))) al1 = Some (Inr (), al1\<lparr>al_world := w1\<rparr>)"
    using K(2) unfolding al_mutate_def by (metis (no_types, lifting) case_prod_conv prod.collapse)
  obtain w2 where d: "al_delete K (cr_relative_cptr c2 t) (al1\<lparr>al_world := w1\<rparr>) = Some (Inr (), al1\<lparr>al_world := w2\<rparr>)"
    using K(3) [of w1 "cr_relative_cptr c2 t"] by (cases "k_delete K w1 (cr_relative_cptr c2 t)") (auto simp: al_delete_def)
  have cr1: "cr_ok (al_cregion al1)" using ce(1) by (simp add: alloc_ok_def)
  have "t \<in># mset_set (cr_used (al_cregion al1))"
  proof -
    from create_object_used_slots [OF ok2 o] obtain q' where "mset_set (cr_used (al_cregion al1)) = mset_set (cr_used c2) + slots_of_pairs q'" by auto
    moreover have "t \<in># mset_set (cr_used c2)" using a(8) pool.finite_used [OF a(3)] by simp
    ultimately show ?thesis by (simp only: union_iff simp_thms)
  qed
  from slot_free_mset [OF cr1 this] obtain c3 where c3: "slot_free t (al_cregion al1) = Some c3" by blast
  have run: "create_cnode K radix al = Some (Inr (rel, u, s), al1\<lparr>al_world := w2, al_cregion := c3\<rparr>)"
    using m d c3 by (simp add: create_cnode_def a(1,2) Let_def rel o)
  with create_cnode_effect [OF ok run] ce(2) show ?thesis by auto
qed

lemma create_cnode_leaks_slot_witness:
  "\<exists>rel u slot al1 al2. create_cnode ex_kernel 57 ex_alloc = Some (Inr (rel, u, slot), al1) \<and>
    revoke_and_free ex_kernel u al1 = Some (Inr (), al2) \<and> slot < 8 \<and> cr_free (al_cregion al2) = {..<8} - {slot}"
proof -
  have k: "62 = physical_size_bits (k_sizes ex_kernel) (BP_CNode 57)" by (simp add: physical_size_bits_def ex_kernel_def ex_sizes_def)
  have acc: "fst (k_mutate ex_kernel w d s x) = Inr ()" "fst (k_delete ex_kernel w p) = Inr ()" for w d s x p by (simp_all add: ex_kernel_def)
  from create_cnode_total [OF ex_alloc_ok(2) ex_accepts(1) acc _ k, of ex_block] obtain rel u slot al1 where
    c: "create_cnode ex_kernel 57 ex_alloc = Some (Inr (rel, u, slot), al1)" "u \<in># al_used al1" "alloc_ok al1"
    by (auto simp: ex_alloc_ok(3,5) ex_cregion_ok(2) ex_block_def)
  from c(2) used_iff [OF c(3)] obtain p m where "node_at p (al_tree al1) = Some m" "is_consumed m" "u = root_block p" by blast
  from revoke_path [OF c(3) ex_accepts(2) this(1,2)] this(3) obtain al2 where q: "revoke_and_free ex_kernel u al1 = Some (Inr (), al2)" by blast
  from create_cnode_leaks_slot [OF ex_alloc_ok(2) c(1) q] c(1) q show ?thesis by (auto simp: ex_alloc_ok(5) ex_cregion_ok(2))
qed

section \<open>A revocation that fails\<close>

lemma try_method_err:
  "try_method m k = Some (Inl e, s) \<longleftrightarrow> m = Some (Inl e, s) \<or> (\<exists>a t. m = Some (Inr a, t) \<and> k a t = Some (Inl e, s))"
  by (auto simp: try_method_result)

lemma al_revoke_world: "al_revoke K p al = Some (r, al') \<Longrightarrow> al' = al\<lparr>al_world := al_world al'\<rparr>"
  by (auto simp: al_revoke_def split: prod.splits)

text \<open>
  When the revocation of a merged node fails, its children have already left the leaf index.
\<close>

lemma merge_children_error:
  assumes e: "merge_children K n low (low + 2 ^ Suc k - 1) depth al = Some (Inl x, al')"
    and b: "low + 2 ^ Suc k \<le> 2 ^ 64" "depth + Suc k = 64" and h: "holds_all n low (Suc k) al"
    and m: "mergeable n \<Longrightarrow> \<exists>ty s t. n = Node (Accessible False ty) (Some (managed_leaf s)) (Some (managed_leaf t))"
  shows "leaves_mset (al_leaves al) = leaves_mset (al_leaves al') + free_blocks n low (Suc k) \<and> al_tree al' = al_tree al"
proof -
  have mg: "mergeable n" using e by (auto simp: merge_children_def mergeable_def split: if_splits)
  from m [OF mg] obtain ty s t where n: "n = Node (Accessible False ty) (Some (managed_leaf s)) (Some (managed_leaf t))" by blast
  have d: "usize_sub 64 (usize_add depth 1) = k" using b(2) by auto
  note half = half_addr_mid(1) [OF b(1)]
  have fb: "free_blocks n low (Suc k) = {#\<lparr>paddr = low, size_bits = k\<rparr>, \<lparr>paddr = low + 2 ^ k, size_bits = k\<rparr>#}"
    by (simp add: n free_blocks_eq [of "Node _ _ _"] blocks_of_leaf)
  from e mg obtain al1 al2 p where
    d1: "drop_child (Some (managed_leaf s)) \<lparr>paddr = low, size_bits = k\<rparr> al = Some al1" and
    d2: "drop_child (Some (managed_leaf t)) \<lparr>paddr = low + 2 ^ k, size_bits = k\<rparr> al1 = Some al2" and
    r: "al_revoke K p al2 = Some (Inl x, al')"
    unfolding merge_children_def mergeable_def [symmetric] half d Let_def
    by (auto simp: n bind_eq_Some_conv try_method_err)
  have h': "leaves_ok (al_leaves al)" "free_blocks n low (Suc k) \<subseteq># leaves_mset (al_leaves al)" using h by (simp_all add: holds_all_def)
  have "\<lparr>paddr = low, size_bits = k\<rparr> \<in># leaves_mset (al_leaves al)" using h'(2) unfolding fb by (auto dest: mset_subset_eqD)
  from idx.remove_law [OF h'(1) this] d1 have 1: "leaves_ok (al_leaves al1)" "al_tree al1 = al_tree al"
    "leaves_mset (al_leaves al) = add_mset \<lparr>paddr = low, size_bits = k\<rparr> (leaves_mset (al_leaves al1))"
    by (auto simp: drop_child_def bind_eq_Some_conv)
  have "\<lparr>paddr = low + 2 ^ k, size_bits = k\<rparr> \<in># leaves_mset (al_leaves al1)"
    using h'(2) unfolding fb 1(3) by (auto dest: mset_subset_eqD)
  from idx.remove_law [OF 1(1) this] d2 have "al_tree al2 = al_tree al1"
    "leaves_mset (al_leaves al1) = add_mset \<lparr>paddr = low + 2 ^ k, size_bits = k\<rparr> (leaves_mset (al_leaves al2))"
    by (auto simp: drop_child_def bind_eq_Some_conv)
  with 1 al_revoke_world [OF r] show ?thesis unfolding fb
    by (cases al'; cases al2) simp
qed


lemma helper_error:
  "tree_ok acc b n \<Longrightarrow> node_at p n = Some m \<Longrightarrow> is_consumed m \<Longrightarrow> depth + b = 64 \<Longrightarrow> low + 2 ^ b \<le> 2 ^ 64 \<Longrightarrow>
    holds_all n low b al \<Longrightarrow>
    revoke_and_free_helper K (block_at p low b) n low (low + 2 ^ b - 1) depth al = Some (Inl e, al') \<Longrightarrow>
    al_tree al' = al_tree al \<and> (al' = al\<lparr>al_world := al_world al'\<rparr> \<or>
      (\<exists>A. A \<noteq> {#} \<and> leaves_mset (al_leaves al) = leaves_mset (al_leaves al') + A))"
proof (induction p arbitrary: n acc b depth low)
  case Nil
  have d: "usize_sub 64 depth = b" "64 - depth = b" using Nil.prems(4) by auto
  obtain ty l r where n: "n = Node ty l r" by (cases n)
  from Nil.prems(7) obtain q where "al_revoke K q al = Some (Inl e, al')"
    unfolding n revoke_and_free_helper.simps d by (auto simp: d bind_eq_Some_conv try_method_err)
  from al_revoke_world [OF this] show ?case by (metis Allocator.select_convs(3) Allocator.surjective Allocator.update_convs(5))
next
  case (Cons x p)
  from Cons.prems(2) obtain c where c: "child x n = Some c" "node_at p c = Some m" by (auto split: option.splits)
  note t = tree_ok_child [OF Cons.prems(1) c(1)]
  obtain k where b: "b = Suc k" using t(1) by (cases b) auto
  have tc: "tree_ok (is_accessible n) k c" using t(2) b by simp
  have len: "length p \<le> k" using tree_ok_put [OF tc c(2)] by blast
  have bb: "low + 2 ^ Suc k \<le> 2 ^ 64" "depth + Suc k = 64" "Suc depth + k = 64" using Cons.prems(4,5) b by auto
  note w = walk_facts(3) [OF bb(1) len, of x] and hc = holds_child [OF Cons.prems(6) [unfolded b] c(1)]
  let ?h = "revoke_and_free_helper K (block_at p (low_of x low k) k) c (low_of x low k) (low_of x low k + 2 ^ k - 1) (Suc depth) al"
  from Cons.prems(7) [unfolded b helper_step [OF bb(1) len bb(2) c(1)]] consider "?h = Some (Inl e, al')"
    | c' al1 where "?h = Some (Inr c', al1)" "merge_children K (with_child x c' n) low (low + 2 ^ Suc k - 1) depth al1 = Some (Inl e, al')"
    unfolding try_method_err by blast
  then show ?case
  proof cases
    case 1
    show ?thesis by (rule Cons.IH [OF tc c(2) Cons.prems(3) bb(3) w hc 1])
  next
    case (2 c' al1)
    from helper_spec [OF accepting_ok(2) [of K] tc c(2) Cons.prems(3) bb(3) w hc] helper_accepting [OF 2(1)]
    have f: "c' = free_at p c" "follows c c' (low_of x low k) k al al1" by auto
    let ?n = "with_child x c' n"
    note fn = follows_child [OF f(2) c(1)]
    have h1: "holds_all ?n low (Suc k) al1" by (rule follows_holds [OF fn Cons.prems(6) [unfolded b]])
    have okc: "tree_ok (is_accessible n) (b - 1) c'" using free_at_ok [OF tc c(2) Cons.prems(3)] b f(1) by simp
    note sh = mergeable_shape [OF Cons.prems(1) c(1) okc]
    from merge_children_error [OF 2(2) bb(1,2) h1 sh] have me:
      "leaves_mset (al_leaves al1) = leaves_mset (al_leaves al') + free_blocks ?n low (Suc k)" "al_tree al' = al_tree al1" by auto
    have "leaves_mset (al_leaves al') + free_blocks n low (Suc k) = leaves_mset (al_leaves al)"
    proof -
      have "(leaves_mset (al_leaves al') + free_blocks n low (Suc k)) + free_blocks ?n low (Suc k) = leaves_mset (al_leaves al) + free_blocks ?n low (Suc k)"
        using followsD(4) [OF fn] me(1) by (simp add: ac_simps)
      then show ?thesis by simp
    qed
    moreover have "free_blocks n low (Suc k) \<noteq> {#}"
    proof -
      have "mergeable ?n" using 2(2) unfolding merge_children_def mergeable_def [symmetric] by (simp split: if_splits)
      from sh [OF this] obtain s where "child (\<not> x) n = Some (managed_leaf s)" by (cases x) auto
      then show ?thesis by (cases x) (simp_all add: free_blocks_eq [of n] blocks_of_leaf)
    qed
    ultimately show ?thesis using me(2) followsD(3) [OF fn] by metis
  qed
qed

text \<open>
  C27. \<^verbatim>\<open>revoke_and_free\<close> writes the tree back only on success, but the leaf index and the slots change as it
  goes. If it returns an error, either only the kernel was reached, or free blocks of the tree have left the
  index: the allocator no longer knows of memory its tree says is free, and its invariant is broken.
\<close>

theorem revoke_error_loses_blocks:
  assumes ok: "alloc_ok al" and r: "revoke_and_free K u al = Some (Inl e, al')"
  shows "al_tree al' = al_tree al \<and> (al' = al\<lparr>al_world := al_world al'\<rparr> \<or>
    (\<exists>A. A \<noteq> {#} \<and> al_free al' = leaves_mset (al_leaves al') + A \<and> \<not> alloc_ok al'))"
proof -
  from revoke_reaches [OF ok r] obtain p m where p: "node_at p (al_tree al) = Some m" "is_consumed m" "u = root_block p" by blast
  note o = ok [unfolded alloc_ok_def]
  have tree: "tree_ok False 64 (al_tree al)" and h: "holds_all (al_tree al) 0 64 al" using o by (auto simp: holds_all_def al_free_def)
  have m64: "MAX_ADDR = 0 + 2 ^ 64 - 1" by (simp add: MAX_ADDR_def)
  have "revoke_and_free_helper K (root_block p) (al_tree al) 0 (0 + 2 ^ 64 - 1) 0 al = Some (Inl e, al')"
    using r unfolding revoke_and_free_def try_method_err m64 p(3) by auto
  from helper_error [OF tree p(1,2) _ _ h this] have
    *: "al_tree al' = al_tree al" "al' = al\<lparr>al_world := al_world al'\<rparr> \<or> (\<exists>A. A \<noteq> {#} \<and> leaves_mset (al_leaves al) = leaves_mset (al_leaves al') + A)"
    by auto
  then show ?thesis using o by (auto simp: al_free_def alloc_ok_def)
qed

definition faulty_kernel :: "(unit, unit) cap_kernel" where
  "faulty_kernel = ex_kernel\<lparr>k_revoke := \<lambda>w p. if cp_cptr (rc_path p) = 7 then (Inl (), ()) else (Inr (), ())\<rparr>"

lemma ex_alloc_value: "ex_alloc = \<lparr>al_cregion = ex_cregion, al_fragmentation_threshold_size_bits = 0,
  al_tree = Node Inaccessible (Some (Node Inaccessible (Some (Node (Accessible False (BuiltIn 7)) None None)) None)) None,
  al_leaves = [(62, [ex_block])], al_world = ()\<rparr>"
  by (simp add: ex_alloc_def ex_builder_def build_def add_untyped_def AllocatorBuilder_new_def add_builtin_def Let_def
      rust_assert_def ex_block_def MAX_ADDR_def insert_builtin.simps half_addr_def usize_sub_def usize_add_def Node_new_def add_leaf_def)

lemmas alloc_eval = split_untyped_def create_object_def get_leaf_def pop_leaf_def alloc_unwrap_def slot_alloc_def withdraw_def
  get_node_def get_node_from.simps set_node_def set_node_from.simps Let_def rust_assert_def MAX_ADDR_def half_addr_def usize_sub_def
  usize_add_def node_local_cptr_def al_retype_def add_leaf_def remove_leaf_def set_consumed_def withdraw_one_def physical_size_bits_def
  btree_remove_def is_accessible_def usize_bit_def

definition ex_split :: "unit Allocator" where
  "ex_split = \<lparr>al_cregion = ex_cregion\<lparr>cr_set := [(0, True), (1, True)] @ map (\<lambda>k. (k, False)) [2..<8]\<rparr>,
    al_fragmentation_threshold_size_bits = 0,
    al_tree = Node Inaccessible (Some (Node Inaccessible (Some (Node (Accessible False (BuiltIn 7))
      (Some (Node (Accessible False (Managed 0)) None None)) (Some (Node (Accessible True (Managed 1)) None None)))) None)) None,
    al_leaves = [(61, [\<lparr>paddr = 0, size_bits = 61\<rparr>])], al_world = ()\<rparr>"

lemma ex_split_created: "create_object faulty_kernel ex_root 0 (BP_Untyped 61) ex_alloc = Some (\<lparr>paddr = 2 ^ 61, size_bits = 61\<rparr>, ex_split)"
  by (simp add: ex_alloc_value faulty_kernel_def ex_kernel_def alloc_eval ex_block_def ex_cregion_def ex_split_def upt_rec)

lemma ex_split_error: "\<exists>al'. revoke_and_free faulty_kernel \<lparr>paddr = 2 ^ 61, size_bits = 61\<rparr> ex_split = Some (Inl (), al') \<and> al_leaves al' = []"
  by (simp add: revoke_and_free_def revoke_and_free_helper.simps ex_split_def faulty_kernel_def ex_kernel_def alloc_eval upt_rec
      node_relative_cptr_def cr_relative_cptr_def cptr_with_depth_def al_revoke_def merge_children_def drop_child_def get_slot_def
      slot_free_def deposit_def deposit_one_def ex_cregion_def ex_root_def shl_def CNode_relative_def CNode_relative_path_def CPtr_deep_def
      cr_context_def is_deletable_def)

theorem revoke_error_loses_blocks_witness:
  "\<exists>al'. revoke_and_free faulty_kernel \<lparr>paddr = 2 ^ 61, size_bits = 61\<rparr> ex_split = Some (Inl (), al') \<and> \<not> alloc_ok al'"
proof -
  have ok: "alloc_ok ex_split" using create_effect(1) [OF ex_alloc_ok(2) ex_split_created] .
  from ex_split_error obtain al' where r: "revoke_and_free faulty_kernel \<lparr>paddr = 2 ^ 61, size_bits = 61\<rparr> ex_split = Some (Inl (), al')" "al_leaves al' = []" by blast
  from revoke_error_loses_blocks [OF ok r(1)] have "\<not> alloc_ok al'"
    using r(2) by (auto simp: ex_split_def dest: arg_cong [of _ _ al_leaves])
  with r(1) show ?thesis by blast
qed

end
