(* ===== verification/DyndlTypes.thy ===== *)
theory DyndlTypes
  imports BTree CSpace
begin

text \<open>
  The description of a realm's kernel objects (\<^verbatim>\<open>dyndl/types/src/lib.rs\<close>): objects, the capabilities that
  refer to them by index, and the model the host sends. Tables are \<^verbatim>\<open>BTreeMap\<close>s keyed by slot or entry.
\<close>

type_synonym ObjId = nat
type_synonym Badge = u64
type_synonym 'a Table = "(nat, 'a) btree"

record Rights =
  rt_read :: bool
  rt_write :: bool
  rt_grant :: bool
  rt_grant_reply :: bool

record FillEntry =
  fe_offset :: nat
  fe_length :: nat
  fe_file :: string
  fe_file_offset :: nat
  fe_content_digest :: "u8 list"

type_synonym Fill = "FillEntry list"

section \<open>Capabilities\<close>

record cap_Endpoint =
  ce_obj :: ObjId
  ce_badge :: Badge
  ce_rights :: Rights

record cap_Notification =
  cnf_obj :: ObjId
  cnf_badge :: Badge
  cnf_rights :: Rights

record cap_CNode =
  cc_obj :: ObjId
  cc_guard :: u64
  cc_guard_size :: u64

record cap_SmallPage =
  csp_obj :: ObjId
  csp_rights :: Rights
  csp_cached :: bool

record cap_LargePage =
  clp_obj :: ObjId
  clp_rights :: Rights
  clp_cached :: bool

text \<open>The capabilities that only name an object are that object's index.\<close>

datatype Cap =
    Cap_Untyped ObjId | Cap_Endpoint cap_Endpoint | Cap_Notification cap_Notification | Cap_CNode cap_CNode
  | Cap_TCB ObjId | Cap_VCPU ObjId | Cap_SmallPage cap_SmallPage | Cap_LargePage cap_LargePage
  | Cap_PT ObjId | Cap_PD ObjId | Cap_PUD ObjId | Cap_PGD ObjId

datatype PDEntry = PDE_PT ObjId | PDE_LargePage cap_LargePage

section \<open>Objects\<close>

record obj_CNode =
  oc_size_bits :: nat
  oc_entries :: "Cap Table"

record obj_TCB =
  ot_fault_ep :: u64
  ot_cspace :: cap_CNode
  ot_vspace :: ObjId
  ot_ipc_buffer :: cap_SmallPage
  ot_ipc_buffer_addr :: u64
  ot_vcpu :: "ObjId option"
  ot_bound_notification :: "cap_Notification option"
  ot_affinity :: u64
  ot_prio :: u8
  ot_max_prio :: u8
  ot_resume :: bool
  ot_ip :: u64
  ot_sp :: u64
  ot_spsr :: u64
  ot_gprs :: "u64 list"

datatype Obj =
    Obj_Untyped nat | Obj_Endpoint | Obj_Notification | Obj_CNode obj_CNode | Obj_TCB obj_TCB | Obj_VCPU
  | Obj_SmallPage Fill | Obj_LargePage Fill
  | Obj_PT "cap_SmallPage Table" | Obj_PD "PDEntry Table" | Obj_PUD "ObjId Table" | Obj_PGD "ObjId Table"

datatype ExternObj = Ext_Endpoint | Ext_Notification | Ext_SmallPage | Ext_LargePage

datatype AnyObj = Local Obj | Extern ExternObj

record TopObj =
  to_object :: AnyObj
  to_name :: string

record Model =
  md_num_nodes :: nat
  md_objects :: "TopObj list"

section \<open>Conversions\<close>

definition blueprint_of :: "Obj \<Rightarrow> ObjectBlueprint" where
  "blueprint_of obj = (case obj of
     Obj_Untyped n \<Rightarrow> BP_Untyped n
   | Obj_Endpoint \<Rightarrow> BP_Endpoint
   | Obj_Notification \<Rightarrow> BP_Notification
   | Obj_CNode c \<Rightarrow> BP_CNode (oc_size_bits c)
   | Obj_TCB _ \<Rightarrow> BP_TCB
   | Obj_VCPU \<Rightarrow> BP_VCPU
   | Obj_SmallPage _ \<Rightarrow> BP_SmallPage
   | Obj_LargePage _ \<Rightarrow> BP_LargePage
   | Obj_PT _ \<Rightarrow> BP_PT
   | Obj_PD _ \<Rightarrow> BP_PD
   | Obj_PUD _ \<Rightarrow> BP_PUD
   | Obj_PGD _ \<Rightarrow> BP_PGD)"

text \<open>\<^verbatim>\<open>rights_of\<close> passes the four rights to the kernel's constructor in its order.\<close>

datatype CapRights = CapRights (grant_reply: bool) (grant: bool) (can_read: bool) (can_write: bool)

definition rights_of :: "Rights \<Rightarrow> CapRights" where
  "rights_of r = CapRights (rt_grant_reply r) (rt_grant r) (rt_read r) (rt_write r)"

definition all_rights :: CapRights where "all_rights = CapRights True True True True"

definition read_write :: CapRights where "read_write = CapRights False False True True"

text \<open>\<^verbatim>\<open>leading_zeros\<close> of a \<^verbatim>\<open>usize\<close>\<close>

fun bit_length :: "nat \<Rightarrow> nat" where
  "bit_length n = (if n = 0 then 0 else Suc (bit_length (n div 2)))"

declare bit_length.simps [simp del]

definition leading_zeros :: "nat \<Rightarrow> nat" where
  "leading_zeros x = 64 - bit_length x"

definition size_bits_to_contain :: "nat \<Rightarrow> nat" where
  "size_bits_to_contain x = 64 - leading_zeros x"

lemma bit_length_bounds: "x < 2 ^ bit_length x" "x < 2 ^ k \<Longrightarrow> bit_length x \<le> k"
proof -
  show "x < 2 ^ bit_length x"
  proof (induction x rule: bit_length.induct)
    case (1 n)
    then show ?case by (subst bit_length.simps) auto
  qed
  show "x < 2 ^ k \<Longrightarrow> bit_length x \<le> k"
  proof (induction k arbitrary: x)
    case 0
    then show ?case by (simp add: bit_length.simps)
  next
    case (Suc k)
    then have "x div 2 < 2 ^ k" by auto
    with Suc.IH show ?case by (subst bit_length.simps) auto
  qed
qed

text \<open>The radix chosen for \<open>x\<close> slots has room for them.\<close>

lemma size_bits_to_contain_spec: "x < 2 ^ 64 \<Longrightarrow> x < 2 ^ size_bits_to_contain x"
  using bit_length_bounds(1) [of x] bit_length_bounds(2) [of x 64] by (simp add: size_bits_to_contain_def leading_zeros_def)

lemma size_bits_to_contain_less: "x < 2 ^ k \<Longrightarrow> k \<le> 64 \<Longrightarrow> size_bits_to_contain x \<le> k"
  using bit_length_bounds(2) [of x k] by (simp add: size_bits_to_contain_def leading_zeros_def)

end
