(* ===== verification/ModelView.thy ===== *)
theory ModelView
  imports DyndlTypes "HOL-Library.Product_Lexorder" "HOL-Library.Multiset"
begin

text \<open>
  The two lists of a model's objects (\<^verbatim>\<open>dyndl/realize/src/model_view.rs\<close>): the local ones by size and type,
  the extern ones in order, and for every object its position in its list.
\<close>

record ModelView =
  mv_local_objects :: "nat list"
  mv_extern_objects :: "nat list"
  mv_reverse :: "nat list"

text \<open>The key of \<^verbatim>\<open>sort_by_key\<close>; it panics on an extern object.\<close>

definition object_key :: "sel4_sizes \<Rightarrow> Model \<Rightarrow> nat \<Rightarrow> (nat \<times> ObjectBlueprint) option" where
  "object_key Z m i = do {
     t \<leftarrow> vec_get (md_objects m) i;
     (case to_object t of
        Local obj \<Rightarrow> Some (physical_size_bits Z (blueprint_of obj), blueprint_of obj)
      | Extern _ \<Rightarrow> None) }"

definition sort_local :: "sel4_sizes \<Rightarrow> Model \<Rightarrow> nat list \<Rightarrow> nat list option" where
  "sort_local Z m xs = do {
     rust_assert (list_all (\<lambda>i. object_key Z m i \<noteq> None) xs);
     Some (sort_key (\<lambda>i. the (object_key Z m i)) xs) }"

definition set_reverse :: "nat list \<Rightarrow> nat list \<Rightarrow> nat list option" where
  "set_reverse xs rv = for_each (enumerate 0 xs) (\<lambda>(i, j) rv. vec_set rv j i) rv"

text \<open>One round of the loop over the model's objects.\<close>

definition view_step :: "sel4_sizes \<Rightarrow> Model \<Rightarrow> nat \<times> TopObj \<Rightarrow> ModelView \<Rightarrow> ModelView option" where
  "view_step Z m it v = (case it of (i, t) \<Rightarrow> do {
     v \<leftarrow> (case to_object t of
        Local _ \<Rightarrow> Some (v\<lparr>mv_local_objects := mv_local_objects v @ [i]\<rparr>)
      | Extern _ \<Rightarrow> do {
          rv \<leftarrow> vec_set (mv_reverse v) i (length (mv_extern_objects v));
          Some (v\<lparr>mv_reverse := rv, mv_extern_objects := mv_extern_objects v @ [i]\<rparr>) });
     ls \<leftarrow> sort_local Z m (mv_local_objects v);
     rv \<leftarrow> set_reverse ls (mv_reverse v);
     Some (v\<lparr>mv_local_objects := ls, mv_reverse := rv\<rparr>) })"

definition ModelView_new :: "sel4_sizes \<Rightarrow> Model \<Rightarrow> ModelView option" where
  "ModelView_new Z m = for_each (enumerate 0 (md_objects m)) (view_step Z m)
     \<lparr>mv_local_objects = [], mv_extern_objects = [], mv_reverse = replicate (length (md_objects m)) 0\<rparr>"

section \<open>The view is an index\<close>

definition is_local :: "Model \<Rightarrow> nat \<Rightarrow> bool" where
  "is_local m i \<longleftrightarrow> i < length (md_objects m) \<and> (case to_object (md_objects m ! i) of Local _ \<Rightarrow> True | Extern _ \<Rightarrow> False)"

abbreviation key_of :: "sel4_sizes \<Rightarrow> Model \<Rightarrow> nat \<Rightarrow> nat \<times> ObjectBlueprint" where
  "key_of Z m i \<equiv> the (object_key Z m i)"

text \<open>The view of the first \<open>k\<close> objects.\<close>

definition view_ok :: "sel4_sizes \<Rightarrow> Model \<Rightarrow> nat \<Rightarrow> ModelView \<Rightarrow> bool" where
  "view_ok Z m k v \<longleftrightarrow>
     mset (mv_local_objects v) = mset (filter (is_local m) [0..<k]) \<and> sorted (map (key_of Z m) (mv_local_objects v)) \<and>
     mv_extern_objects v = filter (\<lambda>i. \<not> is_local m i) [0..<k] \<and>
     length (mv_reverse v) = length (md_objects m) \<and>
     (\<forall>j < length (mv_local_objects v). mv_reverse v ! (mv_local_objects v ! j) = j) \<and>
     (\<forall>j < length (mv_extern_objects v). mv_reverse v ! (mv_extern_objects v ! j) = j)"

lemma object_key_local: "is_local m i \<Longrightarrow> object_key Z m i \<noteq> None"
  by (auto simp: is_local_def object_key_def split: AnyObj.splits)

lemma set_reverse_spec:
  assumes "distinct xs" "\<forall>x\<in>set xs. x < length rv"
  shows "\<exists>rv'. set_reverse xs rv = Some rv' \<and> length rv' = length rv \<and>
    (\<forall>j < length xs. rv' ! (xs ! j) = j) \<and> (\<forall>x. x \<notin> set xs \<longrightarrow> rv' ! x = rv ! x)"
proof -
  have "\<exists>rv'. for_each (enumerate n xs) (\<lambda>(i, j) rv. vec_set rv j i) rv = Some rv' \<and> length rv' = length rv \<and>
      (\<forall>j < length xs. rv' ! (xs ! j) = n + j) \<and> (\<forall>x. x \<notin> set xs \<longrightarrow> rv' ! x = rv ! x)" for n
    using assms
  proof (induction xs arbitrary: n rv)
    case (Cons x xs)
    then have "distinct xs" "\<forall>y\<in>set xs. y < length (rv[x := n])" "x \<notin> set xs" "x < length rv" by auto
    from Cons.IH [OF this(1,2), of "Suc n"] this(3,4) obtain rv' where
      r: "for_each (enumerate (Suc n) xs) (\<lambda>(i, j) rv. vec_set rv j i) (rv[x := n]) = Some rv'" "length rv' = length rv"
        "\<forall>j < length xs. rv' ! (xs ! j) = Suc n + j" "\<forall>y. y \<notin> set xs \<longrightarrow> rv' ! y = rv[x := n] ! y" by auto
    have "rv' ! ((x # xs) ! j) = n + j" if "j < length (x # xs)" for j
      using that r(3,4) \<open>x \<notin> set xs\<close> \<open>x < length rv\<close> by (cases j) auto
    with r \<open>x < length rv\<close> show ?case by (intro exI [of _ rv']) auto
  qed simp
  from this [of 0] show ?thesis by (simp add: set_reverse_def)
qed

lemma view_step_ok:
  assumes v: "view_ok Z m k v" and k: "k < length (md_objects m)"
  shows "\<exists>v'. view_step Z m (k, md_objects m ! k) v = Some v' \<and> view_ok Z m (Suc k) v'"
proof -
  note o = v [unfolded view_ok_def]
  define ext where "ext = (if is_local m k then mv_extern_objects v else mv_extern_objects v @ [k])"
  define rv1 where "rv1 = (if is_local m k then mv_reverse v else (mv_reverse v)[k := length (mv_extern_objects v)])"
  define ls0 where "ls0 = (if is_local m k then mv_local_objects v @ [k] else mv_local_objects v)"
  define ls where "ls = sort_key (key_of Z m) ls0"
  have ms: "mset ls = mset (filter (is_local m) [0..<Suc k])" using o by (simp add: ls_def ls0_def)
  then have set: "set ls = set (filter (is_local m) [0..<Suc k])" by (metis set_mset_mset)
  have dist: "distinct ls" using ms by (metis distinct_filter distinct_upt mset_eq_imp_distinct_iff)
  have srt: "sort_local Z m ls0 = Some ls"
  proof -
    have "set ls0 = set ls" by (simp add: ls_def)
    then have "list_all (\<lambda>i. object_key Z m i \<noteq> None) ls0" using set object_key_local by (auto simp: list_all_iff)
    then show ?thesis by (simp add: sort_local_def ls_def rust_assert_def)
  qed
  have l1: "length rv1 = length (md_objects m)" using o by (simp add: rv1_def)
  have "\<forall>x\<in>set ls. x < length rv1" using set k l1 by auto
  from set_reverse_spec [OF dist this] obtain rv' where
    r: "set_reverse ls rv1 = Some rv'" "length rv' = length rv1" "\<forall>j < length ls. rv' ! (ls ! j) = j"
      "\<forall>x. x \<notin> set ls \<longrightarrow> rv' ! x = rv1 ! x" by blast
  have e: "ext = filter (\<lambda>i. \<not> is_local m i) [0..<Suc k]" using o by (simp add: ext_def)
  have "rv1 ! (ext ! j) = j" if "j < length ext" for j
  proof (cases "is_local m k \<or> j < length (mv_extern_objects v)")
    case True
    have "mv_extern_objects v ! j \<noteq> k" if "j < length (mv_extern_objects v)"
    proof -
      from that have "mv_extern_objects v ! j \<in> set (mv_extern_objects v)" by simp
      with o show ?thesis by auto
    qed
    with True that o show ?thesis by (auto simp: rv1_def ext_def nth_append)
  next
    case False
    with that have "j = length (mv_extern_objects v)" by (auto simp: ext_def split: if_splits)
    with False o k show ?thesis by (simp add: rv1_def ext_def)
  qed
  moreover have "ext ! j \<notin> set ls" if "j < length ext" for j
    using that e set nth_mem [of j ext] by (auto simp del: upt_Suc)
  ultimately have ex: "\<forall>j < length ext. rv' ! (ext ! j) = j" using r(4) by simp
  have "view_step Z m (k, md_objects m ! k) v = Some (v\<lparr>mv_extern_objects := ext, mv_reverse := rv', mv_local_objects := ls\<rparr>)"
    using srt r(1) o k
    by (cases "to_object (md_objects m ! k)") (simp_all add: view_step_def ext_def rv1_def ls0_def is_local_def)
  moreover have "view_ok Z m (Suc k) (v\<lparr>mv_extern_objects := ext, mv_reverse := rv', mv_local_objects := ls\<rparr>)"
    using ms e r(2,3) l1 ex by (simp add: view_ok_def ls_def del: upt_Suc)
  ultimately show ?thesis by blast
qed

lemma view_loop:
  "k \<le> length (md_objects m) \<Longrightarrow>
    \<exists>v. for_each (take k (enumerate 0 (md_objects m))) (view_step Z m)
      \<lparr>mv_local_objects = [], mv_extern_objects = [], mv_reverse = replicate (length (md_objects m)) 0\<rparr> = Some v \<and> view_ok Z m k v"
proof (induction k)
  case 0
  show ?case by (simp add: view_ok_def)
next
  case (Suc k)
  then obtain v where v: "for_each (take k (enumerate 0 (md_objects m))) (view_step Z m)
      \<lparr>mv_local_objects = [], mv_extern_objects = [], mv_reverse = replicate (length (md_objects m)) 0\<rparr> = Some v" "view_ok Z m k v" by auto
  have "take (Suc k) (enumerate 0 (md_objects m)) = take k (enumerate 0 (md_objects m)) @ [(k, md_objects m ! k)]"
    using Suc.prems by (simp add: take_Suc_conv_app_nth nth_enumerate_eq)
  with v view_step_ok [OF v(2)] Suc.prems show ?case by (auto simp: for_each_append)
qed

lemma ModelView_new_spec: "\<exists>v. ModelView_new Z m = Some v \<and> view_ok Z m (length (md_objects m)) v"
  using view_loop [of "length (md_objects m)" m Z] by (simp add: ModelView_new_def)

text \<open>Every object is found through the view, at its own position.\<close>

lemma view_ok_local:
  assumes "view_ok Z m (length (md_objects m)) v" "is_local m i"
  shows "mv_reverse v ! i < length (mv_local_objects v)" "mv_local_objects v ! (mv_reverse v ! i) = i"
proof -
  note o = assms(1) [unfolded view_ok_def]
  have "set (mv_local_objects v) = set (filter (is_local m) [0..<length (md_objects m)])" using o by (metis set_mset_mset)
  with assms(2) have "i \<in> set (mv_local_objects v)" by (auto simp: is_local_def)
  then obtain j where j: "j < length (mv_local_objects v)" "mv_local_objects v ! j = i" by (auto simp: in_set_conv_nth)
  with o have "mv_reverse v ! i = j" by auto
  with j show "mv_reverse v ! i < length (mv_local_objects v)" "mv_local_objects v ! (mv_reverse v ! i) = i" by auto
qed

lemma view_ok_extern:
  assumes "view_ok Z m (length (md_objects m)) v" "\<not> is_local m i" "i < length (md_objects m)"
  shows "mv_reverse v ! i < length (mv_extern_objects v)" "mv_extern_objects v ! (mv_reverse v ! i) = i"
proof -
  note o = assms(1) [unfolded view_ok_def]
  have "i \<in> set (mv_extern_objects v)" using o assms(2,3) by auto
  then obtain j where j: "j < length (mv_extern_objects v)" "mv_extern_objects v ! j = i" by (auto simp: in_set_conv_nth)
  with o have "mv_reverse v ! i = j" by auto
  with j show "mv_reverse v ! i < length (mv_extern_objects v)" "mv_extern_objects v ! (mv_reverse v ! i) = i" by auto
qed

end
