(* ===== verification/Realizer.thy ===== *)
theory Realizer
  imports ModelView Allocator
begin

text \<open>
  Turning a model into kernel objects (\<^verbatim>\<open>dyndl/realize/src\<close>): \<^verbatim>\<open>realize_start\<close> allocates the objects,
  \<^verbatim>\<open>realize_continue\<close> fills a frame, \<^verbatim>\<open>realize_finish\<close> initialises address spaces, capability spaces and
  threads, and \<^verbatim>\<open>destroy\<close> gives the memory back. The kernel's invocations are values of the type
  \<open>invocation\<close>; what the kernel does with one, the stores to a mapped frame and SHA-256 are parameters.
\<close>

section \<open>Kernel\<close>

datatype vm_attrs = Attrs_default | Attrs_uncached

datatype invocation =
    Inv_asid_assign CPtr CPtr
  | Inv_map_pud CPtr CPtr nat
  | Inv_map_pd CPtr CPtr nat
  | Inv_map_pt CPtr CPtr nat
  | Inv_map_page CPtr CPtr nat CapRights vm_attrs
  | Inv_unmap_page CPtr
  | Inv_copy RelativeCPtr RelativeCPtr CapRights
  | Inv_mint RelativeCPtr RelativeCPtr CapRights u64
  | Inv_vcpu_set_tcb CPtr CPtr
  | Inv_bind_notification CPtr CPtr
  | Inv_configure CPtr CPtr CPtr u64 CPtr u64 CPtr
  | Inv_set_sched_params CPtr CPtr u64 u64
  | Inv_write_registers CPtr u64 u64 u64 u64 u64
  | Inv_set_affinity CPtr u64
  | Inv_resume CPtr

record ('w, 'e) rz_kernel =
  rk_cap :: "('w, 'e) cap_kernel"
  rk_invoke :: "'w \<Rightarrow> invocation \<Rightarrow> ('e + unit) \<times> 'w"
  rk_store :: "'w \<Rightarrow> nat \<Rightarrow> u8 list \<Rightarrow> 'w"
  rk_sha256 :: "u8 list \<Rightarrow> u8 list"

text \<open>The errors of \<^verbatim>\<open>Fallible\<close>: one of the kernel's, a failed \<^verbatim>\<open>ensure!\<close> or a \<^verbatim>\<open>bail!\<close>.\<close>

datatype 'e dyndl_error = Kernel 'e | Ensure | Bail

definition lift_err :: "('e, 'a, 's) fallible \<Rightarrow> ('e dyndl_error, 'a, 's) fallible" where
  "lift_err m = map_option (map_prod (map_sum Kernel id) id) m"

definition ensure :: "bool \<Rightarrow> 's \<Rightarrow> ('e dyndl_error, unit, 's) fallible" where
  "ensure b s = Some (if b then Inr () else Inl Ensure, s)"

section \<open>Initialisation of the objects\<close>

record Resources =
  rs_pgd :: CPtr
  rs_asid_pool :: CPtr
  rs_tcb_authority :: CPtr
  rs_small_page_addr :: nat
  rs_large_page_addr :: nat

record 'w init_state =
  is_cregion :: CRegion
  is_world :: 'w

type_synonym ('w, 'e, 'a) init_method = "'w init_state \<Rightarrow> ('e dyndl_error, 'a, 'w init_state) fallible"

definition invoke :: "('w, 'e) rz_kernel \<Rightarrow> invocation \<Rightarrow> ('w, 'e, unit) init_method" where
  "invoke K iv st = (let (r, w) = rk_invoke K (is_world st) iv in Some (map_sum Kernel id r, st\<lparr>is_world := w\<rparr>))"

text \<open>\<^verbatim>\<open>copy\<close>: a copy of a frame's capability in a fresh slot of the realm's CNode.\<close>

definition copy_cap :: "('w, 'e) rz_kernel \<Rightarrow> CPtr \<Rightarrow> ('w, 'e, CPtr) init_method" where
  "copy_cap K cap st = do {
     (slot, c) \<leftarrow> alloc_unwrap (is_cregion st);
     let src = CNode_relative (cr_context c) cap;
     try_method (invoke K (Inv_copy (cr_relative_cptr c slot) src all_rights) (st\<lparr>is_cregion := c\<rparr>)) (\<lambda>_ st. do {
       p \<leftarrow> local_cptr (cptr_with_depth (is_cregion st) slot);
       Some (Inr p, st) }) }"

text \<open>\<^verbatim>\<open>obj::<T>(i)\<close>: a local object of the wrong type panics, an extern one is an error.\<close>

definition get_obj :: "Model \<Rightarrow> (Obj \<Rightarrow> 'a option) \<Rightarrow> nat \<Rightarrow> ('w, 'e, 'a) init_method" where
  "get_obj m as_type i st = do {
     t \<leftarrow> vec_get (md_objects m) i;
     (case to_object t of
        Local obj \<Rightarrow> do { x \<leftarrow> as_type obj; Some (Inr x, st) }
      | Extern _ \<Rightarrow> Some (Inl Bail, st)) }"

definition as_PUD :: "Obj \<Rightarrow> ObjId Table option" where
  "as_PUD obj = (case obj of Obj_PUD es \<Rightarrow> Some es | _ \<Rightarrow> None)"

definition as_PD :: "Obj \<Rightarrow> PDEntry Table option" where
  "as_PD obj = (case obj of Obj_PD es \<Rightarrow> Some es | _ \<Rightarrow> None)"

definition as_PT :: "Obj \<Rightarrow> cap_SmallPage Table option" where
  "as_PT obj = (case obj of Obj_PT es \<Rightarrow> Some es | _ \<Rightarrow> None)"

definition frame_attrs :: "bool \<Rightarrow> vm_attrs" where
  "frame_attrs cached = (if \<not> cached then Attrs_uncached else Attrs_default)"

definition usize_shl :: "nat \<Rightarrow> nat \<Rightarrow> nat" where
  "usize_shl i n = usize_mul i (usize_bit n)"

definition map_frame :: "('w, 'e) rz_kernel \<Rightarrow> CPtr list \<Rightarrow> CPtr \<Rightarrow> nat \<Rightarrow> nat \<Rightarrow> Rights \<Rightarrow> bool \<Rightarrow> ('w, 'e, unit) init_method" where
  "map_frame K caps pgd vaddr i rights cached st = do {
     orig_frame \<leftarrow> vec_get caps i;
     try_method (copy_cap K orig_frame st) (\<lambda>frame st.
       invoke K (Inv_map_page frame pgd vaddr (rights_of rights) (frame_attrs cached)) st) }"

definition init_pt :: "('w, 'e) rz_kernel \<Rightarrow> CPtr list \<Rightarrow> CPtr \<Rightarrow> nat \<Rightarrow> cap_SmallPage Table \<Rightarrow> ('w, 'e, unit) init_method" where
  "init_pt K caps pgd vaddr entries st =
     try_for_each entries (\<lambda>(i, cap) st.
       map_frame K caps pgd (usize_add vaddr (usize_shl i 12)) (csp_obj cap) (csp_rights cap) (csp_cached cap) st) st"

definition init_pd_entry :: "('w, 'e) rz_kernel \<Rightarrow> Model \<Rightarrow> CPtr list \<Rightarrow> CPtr \<Rightarrow> nat \<Rightarrow> PDEntry \<Rightarrow> ('w, 'e, unit) init_method" where
  "init_pd_entry K m caps pgd vaddr e st = (case e of
     PDE_LargePage cap \<Rightarrow> map_frame K caps pgd vaddr (clp_obj cap) (clp_rights cap) (clp_cached cap) st
   | PDE_PT i \<Rightarrow>
       try_method (get_obj m as_PT i st) (\<lambda>entries st. do {
         pt \<leftarrow> vec_get caps i;
         try_method (invoke K (Inv_map_pt pt pgd vaddr) st) (\<lambda>_ st. init_pt K caps pgd vaddr entries st) }))"

definition init_pud_entry :: "('w, 'e) rz_kernel \<Rightarrow> Model \<Rightarrow> CPtr list \<Rightarrow> CPtr \<Rightarrow> nat \<Rightarrow> ObjId \<Rightarrow> ('w, 'e, unit) init_method" where
  "init_pud_entry K m caps pgd vaddr i st =
     try_method (get_obj m as_PD i st) (\<lambda>entries st. do {
       pd \<leftarrow> vec_get caps i;
       try_method (invoke K (Inv_map_pd pd pgd vaddr) st) (\<lambda>_ st.
         try_for_each entries (\<lambda>(j, e) st. init_pd_entry K m caps pgd (usize_add vaddr (usize_shl j (9 + 12))) e st) st) })"

definition init_pgd_entry :: "('w, 'e) rz_kernel \<Rightarrow> Model \<Rightarrow> CPtr list \<Rightarrow> CPtr \<Rightarrow> nat \<Rightarrow> ObjId \<Rightarrow> ('w, 'e, unit) init_method" where
  "init_pgd_entry K m caps pgd vaddr i st =
     try_method (get_obj m as_PUD i st) (\<lambda>entries st. do {
       pud \<leftarrow> vec_get caps i;
       try_method (invoke K (Inv_map_pud pud pgd vaddr) st) (\<lambda>_ st.
         try_for_each entries (\<lambda>(j, o') st. init_pud_entry K m caps pgd (usize_add vaddr (usize_shl j (9 + 9 + 12))) o' st) st) })"

text \<open>\<^verbatim>\<open>it_i\<close>: the local objects of one type, with their indices.\<close>

definition objects_of :: "Model \<Rightarrow> (Obj \<Rightarrow> 'a option) \<Rightarrow> (nat \<times> 'a) list" where
  "objects_of m as_type = List.map_filter
     (\<lambda>(i, t). case to_object t of Local obj \<Rightarrow> map_option (Pair i) (as_type obj) | Extern _ \<Rightarrow> None)
     (enumerate 0 (md_objects m))"

definition as_PGD :: "Obj \<Rightarrow> ObjId Table option" where
  "as_PGD obj = (case obj of Obj_PGD es \<Rightarrow> Some es | _ \<Rightarrow> None)"

definition as_CNode :: "Obj \<Rightarrow> obj_CNode option" where
  "as_CNode obj = (case obj of Obj_CNode c \<Rightarrow> Some c | _ \<Rightarrow> None)"

definition as_TCB :: "Obj \<Rightarrow> obj_TCB option" where
  "as_TCB obj = (case obj of Obj_TCB t \<Rightarrow> Some t | _ \<Rightarrow> None)"

definition init_vspaces :: "('w, 'e) rz_kernel \<Rightarrow> Resources \<Rightarrow> Model \<Rightarrow> CPtr list \<Rightarrow> ('w, 'e, unit) init_method" where
  "init_vspaces K R m caps st =
     try_for_each (objects_of m as_PGD) (\<lambda>(p, entries) st. do {
       pgd \<leftarrow> vec_get caps p;
       try_method (invoke K (Inv_asid_assign (rs_asid_pool R) pgd) st) (\<lambda>_ st.
         try_for_each entries (\<lambda>(i, o') st. init_pgd_entry K m caps pgd (usize_shl i (9 + 9 + 9 + 12)) o' st) st) }) st"

text \<open>The rights, the badge and the object of a capability that may stand in a CNode.\<close>

definition cap_parts :: "(u64 \<Rightarrow> u64 \<Rightarrow> u64) \<Rightarrow> Cap \<Rightarrow> (CapRights \<times> u64 option \<times> ObjId) option" where
  "cap_parts cap_data cap = (case cap of
     Cap_Untyped i \<Rightarrow> Some (all_rights, None, i)
   | Cap_Endpoint c \<Rightarrow> Some (rights_of (ce_rights c), Some (ce_badge c), ce_obj c)
   | Cap_Notification c \<Rightarrow> Some (rights_of (cnf_rights c), Some (cnf_badge c), cnf_obj c)
   | Cap_CNode c \<Rightarrow> Some (all_rights, Some (cap_data (cc_guard c) (cc_guard_size c)), cc_obj c)
   | Cap_TCB i \<Rightarrow> Some (all_rights, None, i)
   | Cap_VCPU i \<Rightarrow> Some (all_rights, None, i)
   | Cap_PGD i \<Rightarrow> Some (all_rights, None, i)
   | Cap_LargePage c \<Rightarrow> Some (rights_of (clp_rights c), None, clp_obj c)
   | _ \<Rightarrow> None)"

definition init_cspace_entry ::
  "('w, 'e) rz_kernel \<Rightarrow> CPtr list \<Rightarrow> CPtr \<Rightarrow> nat \<Rightarrow> nat \<Rightarrow> Cap \<Rightarrow> ('w, 'e, unit) init_method" where
  "init_cspace_entry K caps cnode bits i cap st =
     (let dst = CNode_relative_path cnode \<lparr>cp_cptr = of_nat i, cp_depth = bits\<rparr> in
      case cap_parts (k_cap_data (rk_cap K)) cap of
        None \<Rightarrow> Some (Inl Bail, st)
      | Some (rights, badge, ptr) \<Rightarrow> do {
          p \<leftarrow> vec_get caps ptr;
          let src = CNode_relative (rc_root (cr_root (is_cregion st))) p;
          (case badge of
             None \<Rightarrow> invoke K (Inv_copy dst src rights) st
           | Some b \<Rightarrow> if b = 0 then invoke K (Inv_copy dst src rights) st else invoke K (Inv_mint dst src rights b) st) })"

definition init_cspaces :: "('w, 'e) rz_kernel \<Rightarrow> Model \<Rightarrow> CPtr list \<Rightarrow> ('w, 'e, unit) init_method" where
  "init_cspaces K m caps st =
     try_for_each (objects_of m as_CNode) (\<lambda>(n, obj) st. do {
       cnode \<leftarrow> vec_get caps n;
       try_for_each (oc_entries obj) (\<lambda>(i, cap) st. init_cspace_entry K caps cnode (oc_size_bits obj) i cap st) st }) st"

definition gpr_or_0 :: "u64 list \<Rightarrow> nat \<Rightarrow> u64" where
  "gpr_or_0 gprs i = (if i < length gprs then gprs ! i else 0)"

definition init_tcb :: "('w, 'e) rz_kernel \<Rightarrow> Resources \<Rightarrow> CPtr list \<Rightarrow> CPtr \<Rightarrow> obj_TCB \<Rightarrow> ('w, 'e, unit) init_method" where
  "init_tcb K R caps tcb obj st = do {
     cspace \<leftarrow> vec_get caps (cc_obj (ot_cspace obj));
     let cspace_root_data = k_cap_data (rk_cap K) (cc_guard (ot_cspace obj)) (cc_guard_size (ot_cspace obj));
     vspace \<leftarrow> vec_get caps (ot_vspace obj);
     ipc_buffer_frame \<leftarrow> vec_get caps (csp_obj (ot_ipc_buffer obj));
     try_method (case ot_vcpu obj of None \<Rightarrow> Some (Inr (), st)
       | Some v \<Rightarrow> do { vcpu \<leftarrow> vec_get caps v; invoke K (Inv_vcpu_set_tcb vcpu tcb) st }) (\<lambda>_ st.
     try_method (case ot_bound_notification obj of None \<Rightarrow> Some (Inr (), st)
       | Some n \<Rightarrow> do { nfn \<leftarrow> vec_get caps (cnf_obj n); invoke K (Inv_bind_notification tcb nfn) st }) (\<lambda>_ st.
     try_method (invoke K (Inv_configure tcb (ot_fault_ep obj) cspace cspace_root_data vspace (ot_ipc_buffer_addr obj) ipc_buffer_frame) st) (\<lambda>_ st.
     try_method (invoke K (Inv_set_sched_params tcb (rs_tcb_authority R) (ucast (ot_max_prio obj)) (ucast (ot_prio obj))) st) (\<lambda>_ st.
     try_method (ensure (length (ot_gprs obj) \<le> 2) st) (\<lambda>_ st.
       invoke K (Inv_write_registers tcb (ot_ip obj) (ot_sp obj) (ot_spsr obj) (gpr_or_0 (ot_gprs obj) 0) (gpr_or_0 (ot_gprs obj) 1)) st))))) }"

record VirtualCoreTCB =
  vt_cap :: CPtr
  vt_resume :: bool

type_synonym VirtualCores = "VirtualCoreTCB list list"

text \<open>The loop over the TCBs, with the virtual cores collected so far.\<close>

fun init_tcbs :: "('w, 'e) rz_kernel \<Rightarrow> Resources \<Rightarrow> CPtr list \<Rightarrow> (nat \<times> obj_TCB) list \<Rightarrow> VirtualCores \<Rightarrow> ('w, 'e, VirtualCores) init_method" where
  "init_tcbs K R caps [] vcs st = Some (Inr vcs, st)"
| "init_tcbs K R caps ((i, obj) # ts) vcs st = do {
     tcb \<leftarrow> vec_get caps i;
     try_method (init_tcb K R caps tcb obj st) (\<lambda>_ st. do {
       vc \<leftarrow> vec_get vcs (unat (ot_affinity obj));
       vcs \<leftarrow> vec_set vcs (unat (ot_affinity obj)) (vc @ [\<lparr>vt_cap = tcb, vt_resume = ot_resume obj\<rparr>]);
       init_tcbs K R caps ts vcs st }) }"

definition initialize :: "('w, 'e) rz_kernel \<Rightarrow> Resources \<Rightarrow> nat \<Rightarrow> Model \<Rightarrow> CPtr list \<Rightarrow> ('w, 'e, VirtualCores) init_method" where
  "initialize K R num_nodes m caps st =
     try_method (init_vspaces K R m caps st) (\<lambda>_ st.
     try_method (init_cspaces K m caps st) (\<lambda>_ st.
       init_tcbs K R caps (objects_of m as_TCB) (replicate num_nodes []) st))"

section \<open>Filling a frame\<close>

datatype FrameSize = Frame_Small | Frame_Large | Frame_Huge

definition frame_bytes :: "FrameSize \<Rightarrow> nat" where
  "frame_bytes fs = (case fs of Frame_Small \<Rightarrow> 2 ^ 12 | Frame_Large \<Rightarrow> 2 ^ 21 | Frame_Huge \<Rightarrow> 2 ^ 30)"

text \<open>
  The frame is mapped into the realizer, written and hashed in place, and unmapped. A wrong digest is an
  error that leaves it mapped and written. A huge frame panics.
\<close>

definition fill_frame ::
  "('w, 'e) rz_kernel \<Rightarrow> Resources \<Rightarrow> FrameSize \<Rightarrow> CPtr \<Rightarrow> nat \<Rightarrow> u8 list \<Rightarrow> u8 list \<Rightarrow> ('w, 'e, unit) init_method" where
  "fill_frame K R fs frame offset expected_content_digest untrusted_content st =
     do {
      vaddr \<leftarrow> (case fs of Frame_Small \<Rightarrow> Some (rs_small_page_addr R) | Frame_Large \<Rightarrow> Some (rs_large_page_addr R) | Frame_Huge \<Rightarrow> None);
      try_method (invoke K (Inv_map_page frame (rs_pgd R) vaddr read_write Attrs_uncached) st) (\<lambda>_ st. do {
        let last = usize_add offset (length untrusted_content);
        rust_assert (offset \<le> last \<and> last \<le> frame_bytes fs);
        rust_assert (last - offset = length untrusted_content);
        let st = st\<lparr>is_world := rk_store K (is_world st) (vaddr + offset) untrusted_content\<rparr>;
        try_method (ensure (rk_sha256 K untrusted_content = expected_content_digest) st) (\<lambda>_ st.
          invoke K (Inv_unmap_page frame) st) }) }"

section \<open>The realizer\<close>

record Extern =
  ex_ty :: ExternObj
  ex_cptr :: CPtr

type_synonym Externs = "string \<rightharpoonup> Extern"

record 'w Realizer =
  rz_initialization_resources :: Resources
  rz_allocator :: "'w Allocator"
  rz_externs :: Externs

record Subsystem =
  ss_virtual_cores :: VirtualCores
  ss_cnode_untyped_id :: UntypedId
  ss_object_untyped_ids :: "UntypedId list"
  ss_externs :: Externs

record PartialSubsystem =
  ps_model :: Model
  ps_model_view :: ModelView
  ps_cregion :: CRegion
  ps_cnode_untyped_id :: UntypedId
  ps_local_object_slots :: "nat list"
  ps_local_object_untyped_ids :: "UntypedId list"

type_synonym ('w, 'e, 'a) rz_method = "'w Realizer \<Rightarrow> ('e dyndl_error, 'a, 'w Realizer) fallible"

text \<open>Calls of the allocator's methods, and of the initialiser on the world the allocator carries.\<close>

definition on_allocator :: "('w Allocator \<Rightarrow> ('e, 'a, 'w Allocator) fallible) \<Rightarrow> ('w, 'e, 'a) rz_method" where
  "on_allocator f rz = (case f (rz_allocator rz) of
     None \<Rightarrow> None
   | Some (r, al) \<Rightarrow> Some (map_sum Kernel id r, rz\<lparr>rz_allocator := al\<rparr>))"

definition on_world :: "CRegion \<Rightarrow> ('w, 'e, 'a) init_method \<Rightarrow> ('w, 'e, 'a) rz_method" where
  "on_world c f rz = (case f \<lparr>is_cregion = c, is_world = al_world (rz_allocator rz)\<rparr> of
     None \<Rightarrow> None
   | Some (r, st) \<Rightarrow> Some (r, rz\<lparr>rz_allocator := (rz_allocator rz)\<lparr>al_world := is_world st\<rparr>\<rparr>))"

definition Realizer_new :: "Resources \<Rightarrow> 'w Allocator \<Rightarrow> Externs \<Rightarrow> 'w Realizer" where
  "Realizer_new R al ex = \<lparr>rz_initialization_resources = R, rz_allocator = al, rz_externs = ex\<rparr>"

definition rz_destroy :: "('w, 'e) rz_kernel \<Rightarrow> Subsystem \<Rightarrow> ('w, 'e, unit) rz_method" where
  "rz_destroy K s rz =
     try_method (on_allocator (revoke_and_free (rk_cap K) (ss_cnode_untyped_id s)) rz) (\<lambda>_ rz.
     try_method (try_for_each (ss_object_untyped_ids s) (\<lambda>u. on_allocator (revoke_and_free (rk_cap K) u)) rz) (\<lambda>_ rz.
       Some (Inr (), rz\<lparr>rz_externs := rz_externs rz ++ ss_externs s\<rparr>)))"

text \<open>The frame mappings an object needs: every entry of a page table, the large pages of a directory.\<close>

definition frame_mappings :: "Obj \<Rightarrow> nat" where
  "frame_mappings obj = (case obj of
     Obj_PT es \<Rightarrow> length es
   | Obj_PD es \<Rightarrow> length (filter (\<lambda>(i, e). case e of PDE_LargePage _ \<Rightarrow> True | _ \<Rightarrow> False) es)
   | _ \<Rightarrow> 0)"

text \<open>\<^verbatim>\<open>model.objects[*i].object\<close>, which must be local.\<close>

definition local_obj :: "Model \<Rightarrow> nat \<Rightarrow> Obj option" where
  "local_obj m i = do {
     t \<leftarrow> vec_get (md_objects m) i;
     (case to_object t of Local obj \<Rightarrow> Some obj | Extern _ \<Rightarrow> None) }"

definition count_mappings :: "Model \<Rightarrow> nat list \<Rightarrow> nat option" where
  "count_mappings m xs = for_each xs (\<lambda>i n. do {
     t \<leftarrow> vec_get (md_objects m) i;
     Some (case to_object t of Local obj \<Rightarrow> usize_add n (frame_mappings obj) | Extern _ \<Rightarrow> n) }) 0"

fun blueprints_of :: "Model \<Rightarrow> nat list \<Rightarrow> ObjectBlueprint list option" where
  "blueprints_of m [] = Some []"
| "blueprints_of m (i # is) = do {
     obj \<leftarrow> local_obj m i;
     bps \<leftarrow> blueprints_of m is;
     Some (blueprint_of obj # bps) }"

definition count_size :: "sel4_sizes \<Rightarrow> ObjectBlueprint \<Rightarrow> nat list \<Rightarrow> nat list option" where
  "count_size Z bp v = do {
     n \<leftarrow> vec_get v (physical_size_bits Z bp);
     vec_set v (physical_size_bits Z bp) (usize_add n 1) }"

definition untyped_requirements :: "sel4_sizes \<Rightarrow> nat \<Rightarrow> ObjectBlueprint list \<Rightarrow> nat list option" where
  "untyped_requirements Z radix bps = do {
     v \<leftarrow> count_size Z (BP_CNode radix) (replicate 64 0);
     for_each bps (count_size Z) v }"

definition realize_start :: "('w, 'e) rz_kernel \<Rightarrow> Model \<Rightarrow> ('w, 'e, PartialSubsystem) rz_method" where
  "realize_start K m rz = do {
     let Z = k_sizes (rk_cap K);
     view \<leftarrow> ModelView_new Z m;
     num_frame_mappings \<leftarrow> count_mappings m (mv_local_objects view);
     let radix = size_bits_to_contain (usize_add (length (mv_local_objects view)) num_frame_mappings);
     bps \<leftarrow> blueprints_of m (mv_local_objects view);
     reqs \<leftarrow> untyped_requirements Z radix bps;
     try_method (ensure (peek_space (rz_allocator rz) reqs) rz) (\<lambda>_ rz.
     try_method (on_allocator (create_cnode (rk_cap K) radix) rz) (\<lambda>(c, cnode_untyped_id, _) rz. do {
       (slots, us, c, al) \<leftarrow> create_objects (rk_cap K) bps c (rz_allocator rz);
       model_view \<leftarrow> ModelView_new Z m;
       Some (Inr \<lparr>ps_model = m, ps_model_view = model_view, ps_cregion = c, ps_cnode_untyped_id = cnode_untyped_id,
         ps_local_object_slots = slots, ps_local_object_untyped_ids = us\<rparr>, rz\<lparr>rz_allocator := al\<rparr>) })) }"

definition realize_continue ::
  "('w, 'e) rz_kernel \<Rightarrow> PartialSubsystem \<Rightarrow> ObjId \<Rightarrow> nat \<Rightarrow> u8 list \<Rightarrow> ('w, 'e, unit) rz_method" where
  "realize_continue K ps obj_id fill_entry_index untrusted_content rz = do {
     obj \<leftarrow> local_obj (ps_model ps) obj_id;
     j \<leftarrow> vec_get (mv_reverse (ps_model_view ps)) obj_id;
     slot \<leftarrow> vec_get (ps_local_object_slots ps) j;
     let p = cptr_with_depth (ps_cregion ps) slot;
     (fs, fill) \<leftarrow> (case obj of
        Obj_SmallPage fill \<Rightarrow> Some (Frame_Small, fill)
      | Obj_LargePage fill \<Rightarrow> Some (Frame_Large, fill)
      | _ \<Rightarrow> None);
     frame \<leftarrow> local_cptr p;
     entry \<leftarrow> vec_get fill fill_entry_index;
     on_world (ps_cregion ps)
       (fill_frame K (rz_initialization_resources rz) fs frame (fe_offset entry) (fe_content_digest entry) untrusted_content) rz }"

text \<open>The externs move from the realizer into the subsystem, with a type check.\<close>

fun take_externs :: "Model \<Rightarrow> nat list \<Rightarrow> Externs \<Rightarrow> Externs \<Rightarrow> (CPtr list \<times> Externs \<times> Externs) option" where
  "take_externs m [] from to = Some ([], from, to)"
| "take_externs m (i # is) from to = do {
     t \<leftarrow> vec_get (md_objects m) i;
     obj \<leftarrow> (case to_object t of Extern obj \<Rightarrow> Some obj | Local _ \<Rightarrow> None);
     ext \<leftarrow> from (to_name t);
     rust_assert (ex_ty ext = obj);
     (caps, from, to) \<leftarrow> take_externs m is (from(to_name t := None)) (to(to_name t \<mapsto> ext));
     Some (ex_cptr ext # caps, from, to) }"

fun collect_caps :: "PartialSubsystem \<Rightarrow> CPtr list \<Rightarrow> (nat \<times> TopObj) list \<Rightarrow> CPtr list option" where
  "collect_caps ps extern_caps [] = Some []"
| "collect_caps ps extern_caps ((i, t) # its) = do {
     j \<leftarrow> vec_get (mv_reverse (ps_model_view ps)) i;
     p \<leftarrow> (case to_object t of
        Local _ \<Rightarrow> do { slot \<leftarrow> vec_get (ps_local_object_slots ps) j; local_cptr (cptr_with_depth (ps_cregion ps) slot) }
      | Extern _ \<Rightarrow> vec_get extern_caps j);
     ps' \<leftarrow> collect_caps ps extern_caps its;
     Some (p # ps') }"

definition realize_finish :: "('w, 'e) rz_kernel \<Rightarrow> PartialSubsystem \<Rightarrow> ('w, 'e, Subsystem) rz_method" where
  "realize_finish K ps rz = do {
     (extern_caps, from, externs) \<leftarrow> take_externs (ps_model ps) (mv_extern_objects (ps_model_view ps)) (rz_externs rz) Map.empty;
     let rz = rz\<lparr>rz_externs := from\<rparr>;
     all_caps \<leftarrow> collect_caps ps extern_caps (enumerate 0 (md_objects (ps_model ps)));
     try_method (on_world (ps_cregion ps)
         (initialize K (rz_initialization_resources rz) (md_num_nodes (ps_model ps)) (ps_model ps) all_caps) rz) (\<lambda>virtual_cores rz.
       Some (Inr \<lparr>ss_virtual_cores = virtual_cores, ss_cnode_untyped_id = ps_cnode_untyped_id ps,
         ss_object_untyped_ids = ps_local_object_untyped_ids ps, ss_externs = externs\<rparr>, rz)) }"

end
