(* ===== verification/RealizerProps.thy ===== *)
theory RealizerProps
  imports Realizer AllocatorRun
begin

text \<open>
  The life of a realm's objects: what \<^verbatim>\<open>realize_start\<close> allocates, \<^verbatim>\<open>destroy\<close> gives back; the capabilities
  of the objects are where \<^verbatim>\<open>realize_finish\<close> looks for them; frames hold only content with the digest of
  the model.
\<close>

section \<open>Creating the objects\<close>

lemma alloc_unwrap_fields:
  "alloc_unwrap c = Some (s, c') \<Longrightarrow> cr_root c' = cr_root c \<and> cr_guard c' = cr_guard c \<and> cr_guard_size c' = cr_guard_size c \<and> cr_radix c' = cr_radix c"
  by (auto simp: alloc_unwrap_def slot_alloc_def bind_eq_Some_conv)

lemma covering_mset_Cons: "covering a (mset (u # us)) = (if a \<in> block_range u then 1 else 0) + covering a (mset us)"
  by simp

lemma create_objects_effect:
  "create_objects K bps c al = Some (slots, us, c', al') \<Longrightarrow> alloc_ok al \<Longrightarrow> cr_ok c \<Longrightarrow>
    alloc_ok al' \<and> al_used al' = al_used al + mset us \<and>
    (\<forall>a. covering a (al_free al) = covering a (al_free al') + covering a (mset us)) \<and>
    map size_bits us = map (physical_size_bits (k_sizes K)) bps \<and>
    length slots = length bps \<and> distinct slots \<and> set slots \<subseteq> cr_free c \<and> cr_ok c' \<and> cr_free c' = cr_free c - set slots \<and>
    cr_used c' = cr_used c \<union> set slots \<and>
    cr_root c' = cr_root c \<and> cr_guard c' = cr_guard c \<and> cr_guard_size c' = cr_guard_size c \<and> cr_radix c' = cr_radix c"
proof (induction bps arbitrary: c al slots us)
  case Nil
  then show ?case by auto
next
  case (Cons bp bps)
  from Cons.prems(1) obtain slot c1 u al1 slots' us' where
    a: "alloc_unwrap c = Some (slot, c1)" "create_object K (cr_root c1) slot bp al = Some (u, al1)"
      "create_objects K bps c1 al1 = Some (slots', us', c', al')" "slots = slot # slots'" "us = u # us'"
    by (auto simp: bind_eq_Some_conv)
  note s = pool.alloc_Some [OF Cons.prems(3) a(1)] and f = alloc_unwrap_fields [OF a(1)]
  note e = create_effect(1,2,4) [OF Cons.prems(2) a(2)] and e3 = create_effect(3) [OF Cons.prems(2) a(2)]
  note IH = Cons.IH [OF a(3) e(1) s(3)]
  from IH e e3 s f show ?case unfolding a(4,5) by (intro conjI) auto
qed

section \<open>The realm's CNode\<close>

text \<open>
  The new CNode is addressed with the full depth of 64 bits: the guard takes up what its path and its radix
  leave.
\<close>

lemma create_cnode_region:
  assumes r: "create_cnode K radix al = Some (Inr (c, u, s), al')" and ok: "alloc_ok al"
    and fits: "cr_fits (al_cregion al)" "cr_free (al_cregion al) \<subseteq> {..<2 ^ cr_radix (al_cregion al)}"
    and depth: "0 < cr_depth (al_cregion al)" "cr_depth (al_cregion al) + radix \<le> 64"
  shows "cr_fits c \<and> cr_depth c = 64 \<and> cr_radix c = radix \<and> cr_ok c \<and> cr_free c = {..<2 ^ radix} \<and> cr_used c = {}"
proof -
  from r obtain slot c1 where
    a: "alloc_unwrap (al_cregion al) = Some (slot, c1)"
      "CRegion_new (cr_relative_cptr c1 slot) 0 (of_nat (usize_sub (usize_sub 64 (cp_depth (rc_path (cr_relative_cptr c1 slot)))) radix)) radix = Some c"
    unfolding create_cnode_def Let_def
    by (auto simp: bind_eq_Some_conv try_method_ok)
  have cr: "cr_ok (al_cregion al)" using ok by (simp add: alloc_ok_def)
  note f = alloc_unwrap_fields [OF a(1)] and s = pool.alloc_Some(1) [OF cr a(1)]
  have f1: "cr_fits c1" "cr_depth c1 = cr_depth (al_cregion al)" "cr_radix c1 = cr_radix (al_cregion al)"
    using fits(1) f by (simp_all add: cr_fits_def cr_depth_def)
  have sl: "slot < 2 ^ cr_radix c1" using s fits(2) f1(3) by auto
  note v = cptr_with_depth_value [OF f1(1) sl]
  define d where "d = cr_depth c1"
  have d: "0 < d" "d + radix \<le> 64" using depth f1(2) by (simp_all add: d_def)
  have gs: "usize_sub (usize_sub 64 d) radix = 64 - d - radix" using d by simp
  have u: "unat (of_nat (64 - d - radix) :: u64) = 64 - d - radix"
    by (simp add: unat_of_nat order.strict_trans1 [OF diff_le_self])
  have rd: "radix < 64" using d by simp
  have new: "CRegion_new (cr_relative_cptr c1 slot) 0 (of_nat (64 - d - radix)) radix = Some c"
    using a(2) v(3) gs by (simp add: cr_relative_cptr_def d_def)
  from CRegion_new_spec [OF rd, of "cr_relative_cptr c1 slot" 0 "of_nat (64 - d - radix)"] new have c: "cr_ok c" "cr_free c = {..<2 ^ radix}" "cr_used c = {}" "cr_root c = cr_relative_cptr c1 slot"
    "cr_guard c = 0" "cr_guard_size c = of_nat (64 - d - radix)" "cr_radix c = radix"
    by auto
  have cd: "cp_depth (rc_path (cr_relative_cptr c1 slot)) = d" using v(3) by (simp add: cr_relative_cptr_def d_def)
  have "cr_depth c = 64" using d unfolding cr_depth_def c(4,6,7) cd u by simp
  moreover have "cr_fits c" using c v(2,3) calculation by (simp add: cr_fits_def cr_relative_cptr_def)
  ultimately show ?thesis using c by simp
qed

section \<open>Destroying\<close>

lemma on_allocator_ok:
  "on_allocator f rz = Some (Inr x, rz') \<longleftrightarrow> (\<exists>al. f (rz_allocator rz) = Some (Inr x, al) \<and> rz' = rz\<lparr>rz_allocator := al\<rparr>)"
  by (auto simp: on_allocator_def map_sum_def split: option.splits prod.splits sum.splits)

lemma revoke_all_effect:
  "try_for_each us (\<lambda>u. on_allocator (revoke_and_free K u)) rz = Some (Inr (), rz') \<Longrightarrow> alloc_ok (rz_allocator rz) \<Longrightarrow>
    alloc_ok (rz_allocator rz') \<and> al_used (rz_allocator rz) = al_used (rz_allocator rz') + mset us \<and>
    (\<forall>a. covering a (al_free (rz_allocator rz')) = covering a (al_free (rz_allocator rz)) + covering a (mset us)) \<and>
    rz_externs rz' = rz_externs rz"
proof (induction us arbitrary: rz)
  case Nil
  then show ?case by auto
next
  case (Cons u us)
  from Cons.prems(1) obtain al where
    a: "revoke_and_free K u (rz_allocator rz) = Some (Inr (), al)"
      "try_for_each us (\<lambda>u. on_allocator (revoke_and_free K u)) (rz\<lparr>rz_allocator := al\<rparr>) = Some (Inr (), rz')"
    by (auto simp: try_method_ok on_allocator_ok)
  note e = revoke_effect(1,2) [OF Cons.prems(2) a(1)] and e3 = revoke_effect(3) [OF Cons.prems(2) a(1)]
  from Cons.IH [OF a(2)] e e3 show ?case by auto
qed

lemma destroy_effect:
  assumes "rz_destroy K s rz = Some (Inr (), rz')" "alloc_ok (rz_allocator rz)"
  shows "alloc_ok (rz_allocator rz')"
    "al_used (rz_allocator rz) = al_used (rz_allocator rz') + mset (ss_cnode_untyped_id s # ss_object_untyped_ids s)"
    "covering a (al_free (rz_allocator rz')) =
       covering a (al_free (rz_allocator rz)) + covering a (mset (ss_cnode_untyped_id s # ss_object_untyped_ids s))"
    "rz_externs rz' = rz_externs rz ++ ss_externs s"
proof -
  have "try_for_each (ss_cnode_untyped_id s # ss_object_untyped_ids s) (\<lambda>u. on_allocator (revoke_and_free (rk_cap K) u)) rz =
      Some (Inr (), rz'\<lparr>rz_externs := rz_externs rz\<rparr>) \<and> rz_externs rz' = rz_externs rz ++ ss_externs s"
  proof -
    from assms(1) obtain rz1 rz2 where
      r: "on_allocator (revoke_and_free (rk_cap K) (ss_cnode_untyped_id s)) rz = Some (Inr (), rz1)"
        "try_for_each (ss_object_untyped_ids s) (\<lambda>u. on_allocator (revoke_and_free (rk_cap K) u)) rz1 = Some (Inr (), rz2)"
        "rz' = rz2\<lparr>rz_externs := rz_externs rz2 ++ ss_externs s\<rparr>"
      by (auto simp: rz_destroy_def try_method_ok)
    have ex: "rz_externs rz2 = rz_externs rz"
    proof (rule try_for_each_inv [OF r(2)])
      show "rz_externs rz1 = rz_externs rz" using r(1) by (auto simp: on_allocator_ok)
    qed (auto simp: on_allocator_def split: option.splits prod.splits)
    then have "rz'\<lparr>rz_externs := rz_externs rz\<rparr> = rz2" by (simp add: r(3))
    with r ex show ?thesis by simp
  qed
  then have t: "try_for_each (ss_cnode_untyped_id s # ss_object_untyped_ids s) (\<lambda>u. on_allocator (revoke_and_free (rk_cap K) u)) rz =
      Some (Inr (), rz'\<lparr>rz_externs := rz_externs rz\<rparr>)" and x: "rz_externs rz' = rz_externs rz ++ ss_externs s" by auto
  note e = revoke_all_effect [OF t assms(2)]
  from e show "alloc_ok (rz_allocator rz')"
    "al_used (rz_allocator rz) = al_used (rz_allocator rz') + mset (ss_cnode_untyped_id s # ss_object_untyped_ids s)"
    "covering a (al_free (rz_allocator rz')) =
       covering a (al_free (rz_allocator rz)) + covering a (mset (ss_cnode_untyped_id s # ss_object_untyped_ids s))"
    by auto
  show "rz_externs rz' = rz_externs rz ++ ss_externs s" by (rule x)
qed

section \<open>Realizing\<close>

lemma realize_start_parts:
  assumes "realize_start K m rz = Some (Inr ps, rz')"
  obtains view n bps radix c u s al c' slots us al' where
    "ModelView_new (k_sizes (rk_cap K)) m = Some view" "count_mappings m (mv_local_objects view) = Some n"
    "radix = size_bits_to_contain (usize_add (length (mv_local_objects view)) n)"
    "blueprints_of m (mv_local_objects view) = Some bps"
    "create_cnode (rk_cap K) radix (rz_allocator rz) = Some (Inr (c, u, s), al)"
    "create_objects (rk_cap K) bps c al = Some (slots, us, c', al')"
    "ps = \<lparr>ps_model = m, ps_model_view = view, ps_cregion = c', ps_cnode_untyped_id = u, ps_local_object_slots = slots,
      ps_local_object_untyped_ids = us\<rparr>" "rz' = rz\<lparr>rz_allocator := al'\<rparr>"
proof -
  from assms obtain view n bps c u s al slots us c' al' where
    "ModelView_new (k_sizes (rk_cap K)) m = Some view" "count_mappings m (mv_local_objects view) = Some n"
    "blueprints_of m (mv_local_objects view) = Some bps"
    "create_cnode (rk_cap K) (size_bits_to_contain (usize_add (length (mv_local_objects view)) n)) (rz_allocator rz) = Some (Inr (c, u, s), al)"
    "create_objects (rk_cap K) bps c al = Some (slots, us, c', al')"
    "ps = \<lparr>ps_model = m, ps_model_view = view, ps_cregion = c', ps_cnode_untyped_id = u, ps_local_object_slots = slots,
      ps_local_object_untyped_ids = us\<rparr>" "rz' = rz\<lparr>rz_allocator := al'\<rparr>"
    unfolding realize_start_def Let_def
    by (auto simp: bind_eq_Some_conv try_method_ok on_allocator_ok ensure_def split: if_splits)
  then show ?thesis by (intro that) auto
qed

text \<open>A call of \<open>create_cnode\<close> that succeeds, on the blocks.\<close>

lemma create_cnode_blocks:
  assumes ok: "alloc_ok al" and r: "create_cnode K radix al = Some (Inr (c, u, s), al')"
  shows "alloc_ok al'" "al_used al' = add_mset u (al_used al)"
    "covering a (al_free al) = covering a (al_free al') + (if a \<in> block_range u then 1 else 0)"
proof -
  from r ok obtain realm_slot c1 temp_slot c2 u' alx w c3 where
    a: "alloc_unwrap (al_cregion al) = Some (realm_slot, c1)" "alloc_unwrap c1 = Some (temp_slot, c2)"
      "create_object K (cr_root c1) temp_slot (BP_CNode radix) (al\<lparr>al_cregion := c2\<rparr>) = Some (u', alx)" and
    s: "u = u'" and c3: "al' = alx\<lparr>al_world := w, al_cregion := c3\<rparr>"
    by (elim create_cnode_pieces) auto
  have cr: "cr_ok (al_cregion al)" using ok by (simp add: alloc_ok_def)
  note c1 = pool.alloc_Some [OF cr a(1)]
  note c2 = pool.alloc_Some [OF c1(3) a(2)]
  have ok2: "alloc_ok (al\<lparr>al_cregion := c2\<rparr>)" using c1(5) c2(5) by (intro alloc_ok_cregion [OF ok c2(3)]) auto
  note e = create_effect(2) [OF ok2 a(3)] create_effect(3) [OF ok2 a(3), of a]
  show "alloc_ok al'" using create_cnode_effect [OF ok r] by blast
  show "al_used al' = add_mset u (al_used al)"
    "covering a (al_free al) = covering a (al_free al') + (if a \<in> block_range u then 1 else 0)" using e s c3 by simp_all
qed

lemma realize_start_effect:
  assumes r: "realize_start K m rz = Some (Inr ps, rz')" and ok: "alloc_ok (rz_allocator rz)"
  shows "alloc_ok (rz_allocator rz')"
    "al_used (rz_allocator rz') = al_used (rz_allocator rz) + mset (ps_cnode_untyped_id ps # ps_local_object_untyped_ids ps)"
    "covering a (al_free (rz_allocator rz)) =
       covering a (al_free (rz_allocator rz')) + covering a (mset (ps_cnode_untyped_id ps # ps_local_object_untyped_ids ps))"
    "rz_externs rz' = rz_externs rz"
proof -
  from r obtain view n bps radix c u s al c' slots us al' where
    a: "create_cnode (rk_cap K) radix (rz_allocator rz) = Some (Inr (c, u, s), al)"
      "create_objects (rk_cap K) bps c al = Some (slots, us, c', al')"
    and p: "ps = \<lparr>ps_model = m, ps_model_view = view, ps_cregion = c', ps_cnode_untyped_id = u, ps_local_object_slots = slots,
      ps_local_object_untyped_ids = us\<rparr>" "rz' = rz\<lparr>rz_allocator := al'\<rparr>"
    by (rule realize_start_parts)
  have crc: "cr_ok c"
  proof -
    from a(1) obtain root g where "CRegion_new root 0 g radix = Some c"
      unfolding create_cnode_def Let_def by (auto simp: bind_eq_Some_conv try_method_ok)
    then show ?thesis using deposit_fresh [of "[]" 0 "usize_bit radix"] by (auto simp: CRegion_new_def cr_ok_def bind_eq_Some_conv)
  qed
  note e1 = create_cnode_blocks(1,2) [OF ok a(1)] create_cnode_blocks(3) [OF ok a(1), of a]
  note e2 = create_objects_effect [OF a(2) e1(1) crc]
  from e1 e2 p show "alloc_ok (rz_allocator rz')"
    "al_used (rz_allocator rz') = al_used (rz_allocator rz) + mset (ps_cnode_untyped_id ps # ps_local_object_untyped_ids ps)"
    "covering a (al_free (rz_allocator rz)) =
       covering a (al_free (rz_allocator rz')) + covering a (mset (ps_cnode_untyped_id ps # ps_local_object_untyped_ids ps))"
    "rz_externs rz' = rz_externs rz"
    by simp_all
qed

section \<open>Externs\<close>

lemma take_externs_moves:
  "take_externs m xs from to = Some (caps, from', to') \<Longrightarrow> dom from \<inter> dom to = {} \<Longrightarrow>
    from' ++ to' = from ++ to \<and> dom from' \<inter> dom to' = {}"
proof (induction m xs "from" to arbitrary: caps from' to' rule: take_externs.induct)
  case (2 m i "is" "from" to)
  from "2.prems"(1) obtain t ext caps1 where
    t: "vec_get (md_objects m) i = Some t" "from (to_name t) = Some ext" and
    r: "take_externs m is (from(to_name t := None)) (to(to_name t \<mapsto> ext)) = Some (caps1, from', to')"
    by (auto simp: bind_eq_Some_conv)
  have d: "dom (from(to_name t := None)) \<inter> dom (to(to_name t \<mapsto> ext)) = {}" using "2.prems"(2) by auto
  from "2.prems"(1) t obtain obj where o: "(case to_object t of Extern obj \<Rightarrow> Some obj | Local _ \<Rightarrow> None) = Some obj" "ex_ty ext = obj"
    by (auto simp: bind_eq_Some_conv)
  have "from' ++ to' = from(to_name t := None) ++ to(to_name t \<mapsto> ext) \<and> dom from' \<inter> dom to' = {}"
    by (rule "2.IH" [OF t(1) o(1) t(2) _ r d]) (use o(2) in \<open>simp add: rust_assert_def\<close>)
  moreover have "from(to_name t := None) ++ to(to_name t \<mapsto> ext) = from ++ to"
    using "2.prems"(2) t(2) by (auto simp: fun_eq_iff map_add_def dom_def split: option.splits)
  ultimately show ?case by simp
qed auto

lemma on_world_keeps:
  assumes "on_world c f rz = Some (r, rz')"
  shows "\<exists>w. rz' = rz\<lparr>rz_allocator := (rz_allocator rz)\<lparr>al_world := w\<rparr>\<rparr>"
  using assms by (auto simp: on_world_def split: option.splits)

lemma realize_finish_effect:
  assumes "realize_finish K ps rz = Some (Inr s, rz')"
  shows "ss_cnode_untyped_id s = ps_cnode_untyped_id ps" "ss_object_untyped_ids s = ps_local_object_untyped_ids ps"
    "rz_externs rz' ++ ss_externs s = rz_externs rz" "\<exists>w. rz_allocator rz' = (rz_allocator rz)\<lparr>al_world := w\<rparr>"
proof -
  from assms obtain caps "from" externs all_caps where
    t: "take_externs (ps_model ps) (mv_extern_objects (ps_model_view ps)) (rz_externs rz) Map.empty = Some (caps, from, externs)" and
    r: "try_method (on_world (ps_cregion ps) (initialize K (rz_initialization_resources rz) (md_num_nodes (ps_model ps)) (ps_model ps) all_caps)
        (rz\<lparr>rz_externs := from\<rparr>)) (\<lambda>virtual_cores rz.
       Some (Inr \<lparr>ss_virtual_cores = virtual_cores, ss_cnode_untyped_id = ps_cnode_untyped_id ps,
         ss_object_untyped_ids = ps_local_object_untyped_ids ps, ss_externs = externs\<rparr>, rz)) = Some (Inr s, rz')"
    unfolding realize_finish_def Let_def by (auto simp: bind_eq_Some_conv)
  from r obtain v where w: "on_world (ps_cregion ps) (initialize K (rz_initialization_resources rz) (md_num_nodes (ps_model ps)) (ps_model ps) all_caps)
        (rz\<lparr>rz_externs := from\<rparr>) = Some (Inr v, rz')" and
    s: "s = \<lparr>ss_virtual_cores = v, ss_cnode_untyped_id = ps_cnode_untyped_id ps,
         ss_object_untyped_ids = ps_local_object_untyped_ids ps, ss_externs = externs\<rparr>"
    by (auto simp: try_method_ok)
  from on_world_keeps [OF w] take_externs_moves [OF t] s
  show "ss_cnode_untyped_id s = ps_cnode_untyped_id ps" "ss_object_untyped_ids s = ps_local_object_untyped_ids ps"
    "rz_externs rz' ++ ss_externs s = rz_externs rz" "\<exists>w. rz_allocator rz' = (rz_allocator rz)\<lparr>al_world := w\<rparr>" by auto
qed

text \<open>Filling frames changes nothing but the kernel's state.\<close>

lemma realize_continue_keeps:
  assumes "realize_continue K ps i j content rz = Some (r, rz')"
  shows "\<exists>w. rz' = rz\<lparr>rz_allocator := (rz_allocator rz)\<lparr>al_world := w\<rparr>\<rparr>"
  using assms on_world_keeps unfolding realize_continue_def Let_def
  by (fastforce simp: bind_eq_Some_conv split: prod.splits)

definition fill_all :: "('w, 'e) rz_kernel \<Rightarrow> PartialSubsystem \<Rightarrow> (ObjId \<times> nat \<times> u8 list) list \<Rightarrow> ('w, 'e, unit) rz_method" where
  "fill_all K ps fills = try_for_each fills (\<lambda>(i, j, content). realize_continue K ps i j content)"

lemma fill_all_keeps:
  assumes "fill_all K ps fills rz = Some (r, rz')"
  shows "\<exists>w. rz' = rz\<lparr>rz_allocator := (rz_allocator rz)\<lparr>al_world := w\<rparr>\<rparr>"
proof (rule try_for_each_inv [OF assms [unfolded fill_all_def]])
  show "\<exists>w. rz = rz\<lparr>rz_allocator := (rz_allocator rz)\<lparr>al_world := w\<rparr>\<rparr>" by (rule exI [of _ "al_world (rz_allocator rz)"]) simp
next
  fix x s r s' assume "\<exists>w. s = rz\<lparr>rz_allocator := (rz_allocator rz)\<lparr>al_world := w\<rparr>\<rparr>" and "(case x of (i, j, content) \<Rightarrow> realize_continue K ps i j content) s = Some (r, s')"
  then show "\<exists>w. s' = rz\<lparr>rz_allocator := (rz_allocator rz)\<lparr>al_world := w\<rparr>\<rparr>"
    by (cases x) (auto dest!: realize_continue_keeps)
qed

lemma revoke_enabled:
  assumes ok: "alloc_ok al" and K: "revoke_accepts K" and u: "u \<in># al_used al"
  shows "\<exists>al'. revoke_and_free K u al = Some (Inr (), al')"
proof -
  from u used_iff [OF ok] obtain p m where "node_at p (al_tree al) = Some m" "is_consumed m" "u = root_block p" by blast
  from revoke_path [OF ok K this(1,2)] this(3) show ?thesis by blast
qed

lemma revoke_all_enabled:
  "alloc_ok (rz_allocator rz) \<Longrightarrow> revoke_accepts K \<Longrightarrow> mset us \<subseteq># al_used (rz_allocator rz) \<Longrightarrow>
    \<exists>rz'. try_for_each us (\<lambda>u. on_allocator (revoke_and_free K u)) rz = Some (Inr (), rz')"
proof (induction us arbitrary: rz)
  case (Cons u us)
  then have "u \<in># al_used (rz_allocator rz)" by (auto dest: mset_subset_eqD)
  from revoke_enabled [OF Cons.prems(1,2) this] obtain al where a: "revoke_and_free K u (rz_allocator rz) = Some (Inr (), al)" by blast
  note e = revoke_effect(1,2) [OF Cons.prems(1) a]
  have "mset us \<subseteq># al_used (rz_allocator (rz\<lparr>rz_allocator := al\<rparr>))" using Cons.prems(3) e(2) by simp
  from Cons.IH [OF _ Cons.prems(2) this] e(1) a show ?case by (auto simp: on_allocator_ok try_method_ok)
qed simp

lemma destroy_enabled:
  assumes "alloc_ok (rz_allocator rz)" "revoke_accepts (rk_cap K)"
    "mset (ss_cnode_untyped_id s # ss_object_untyped_ids s) \<subseteq># al_used (rz_allocator rz)"
  shows "\<exists>rz'. rz_destroy K s rz = Some (Inr (), rz')"
  using revoke_all_enabled [OF assms] by (auto simp: rz_destroy_def try_method_ok)

section \<open>Filling\<close>

lemma fill_frame_ok:
  assumes "fill_frame K R fs frame offset digest content st = Some (Inr (), st')"
  shows "rk_sha256 K content = digest" "offset + length content \<le> frame_bytes fs"
proof -
  from assms obtain v where v: "v = usize_add offset (length content)" "offset \<le> v" "v \<le> frame_bytes fs" "v - offset = length content"
    and "rk_sha256 K content = digest"
    unfolding fill_frame_def Let_def by (auto simp: try_method_ok bind_eq_Some_conv ensure_def split: if_splits)
  then show "rk_sha256 K content = digest" "offset + length content \<le> frame_bytes fs" by auto
qed

lemma realize_continue_ok:
  assumes "realize_continue K ps i j content rz = Some (Inr (), rz')"
  shows "\<exists>fs fill. (local_obj (ps_model ps) i = Some (Obj_SmallPage fill) \<and> fs = Frame_Small \<or>
      local_obj (ps_model ps) i = Some (Obj_LargePage fill) \<and> fs = Frame_Large) \<and> j < length fill \<and>
    rk_sha256 K content = fe_content_digest (fill ! j) \<and> fe_offset (fill ! j) + length content \<le> frame_bytes fs"
proof -
  from assms obtain obj frame entry fs fill where
    a: "local_obj (ps_model ps) i = Some obj"
      "(case obj of Obj_SmallPage fill \<Rightarrow> Some (Frame_Small, fill) | Obj_LargePage fill \<Rightarrow> Some (Frame_Large, fill) | _ \<Rightarrow> None) = Some (fs, fill)"
      "vec_get fill j = Some entry"
      "on_world (ps_cregion ps) (fill_frame K (rz_initialization_resources rz) fs frame (fe_offset entry) (fe_content_digest entry) content) rz =
        Some (Inr (), rz')"
    unfolding realize_continue_def Let_def by (auto simp: bind_eq_Some_conv)
  from a(3) have e: "j < length fill" "entry = fill ! j" by (auto simp: vec_get_def split: if_splits)
  from a(4) obtain st st' where
    "fill_frame K (rz_initialization_resources rz) fs frame (fe_offset entry) (fe_content_digest entry) content st = Some (Inr (), st')"
    by (auto simp: on_world_def split: option.splits)
  from fill_frame_ok [OF this] a(1,2) e show ?thesis by (auto split: Obj.splits)
qed

text \<open>
  Content with another digest is refused, but the frame has been written by then and stays mapped: the kernel's
  state is the one after the stores, without the invocation that unmaps.
\<close>

lemma refused_content_stays:
  assumes map: "rk_invoke K (is_world st) (Inv_map_page frame (rs_pgd R) (rs_large_page_addr R) read_write Attrs_uncached) = (Inr (), w)"
    and fits: "offset + length content \<le> frame_bytes Frame_Large" and other: "rk_sha256 K content \<noteq> digest"
  shows "fill_frame K R Frame_Large frame offset digest content st =
    Some (Inl Ensure, st\<lparr>is_world := rk_store K w (rs_large_page_addr R + offset) content\<rparr>)"
  using assms by (simp add: fill_frame_def invoke_def usize_add_def frame_bytes_def rust_assert_def ensure_def try_method_def Let_def)

section \<open>A concrete realm\<close>

text \<open>
  A realm of one frame with one entry to fill and one extern; the sizes of the kernel's objects are chosen so
  that the realm's CNode and the frame are the two halves of the concrete allocator's block.
\<close>

definition rx_fill :: FillEntry where
  "rx_fill = \<lparr>fe_offset = 0, fe_length = 1, fe_file = ''a'', fe_file_offset = 0, fe_content_digest = [7]\<rparr>"

definition rx_model :: Model where
  "rx_model = \<lparr>md_num_nodes = 1, md_objects = [\<lparr>to_object = Local (Obj_LargePage [rx_fill]), to_name = ''frame''\<rparr>,
     \<lparr>to_object = Extern Ext_Endpoint, to_name = ''ep''\<rparr>]\<rparr>"

definition rx_kernel :: "(unit, unit) rz_kernel" where
  "rx_kernel = \<lparr>rk_cap = ex_kernel\<lparr>k_sizes := ex_sizes\<lparr>seL4_SlotBits := 60, seL4_LargePageBits := 61\<rparr>\<rparr>,
     rk_invoke = \<lambda>w iv. (Inr (), w), rk_store = \<lambda>w a bs. w, rk_sha256 = \<lambda>bs. bs\<rparr>"

definition rx_realizer :: "unit Realizer" where
  "rx_realizer = Realizer_new \<lparr>rs_pgd = 1, rs_asid_pool = 2, rs_tcb_authority = 3, rs_small_page_addr = 0, rs_large_page_addr = 0\<rparr>
     ex_alloc [''ep'' \<mapsto> \<lparr>ex_ty = Ext_Endpoint, ex_cptr = 9\<rparr>]"

lemma rx_view: "ModelView_new Z rx_model = Some \<lparr>mv_local_objects = [0], mv_extern_objects = [1], mv_reverse = [0, 0]\<rparr>"
  by (simp add: ModelView_new_def rx_model_def view_step_def sort_local_def object_key_def rust_assert_def set_reverse_def vec_set_def)

lemma rx_view_m: "count_mappings rx_model [0] = Some 0" "blueprints_of rx_model [0] = Some [BP_LargePage]" "size_bits_to_contain 1 = 1"
  by (simp_all add: count_mappings_def rx_model_def frame_mappings_def local_obj_def blueprint_of_def size_bits_to_contain_def leading_zeros_def bit_length.simps usize_add_def)

lemma zeros_space: "acc < 2 ^ 64 \<Longrightarrow> foldl (\<lambda>acc (k, c). usize_add acc (usize_mul (usize_bit k) c)) acc (enumerate n (replicate k 0)) = acc"
  by (induction k arbitrary: n) (simp_all add: usize_add_def usize_mul_def)

lemma rx_reqs: "untyped_requirements (k_sizes (rk_cap rx_kernel)) 1 [BP_LargePage] = Some (replicate 61 0 @ [2] @ replicate 2 0)"
proof -
  have "(replicate 64 0)[61 := Suc 1] = replicate 61 0 @ [2 :: nat] @ replicate 2 0"
    by (simp add: list_eq_iff_nth_eq nth_list_update nth_append nth_Cons')
  then show ?thesis
    by (simp add: untyped_requirements_def count_size_def rx_kernel_def ex_kernel_def ex_sizes_def physical_size_bits_def usize_add_def vec_set_def)
qed

lemma rx_peek: "peek_space ex_alloc (replicate 61 0 @ [2] @ replicate 2 0)"
proof -
  have s: "usize_add 0 (usize_mul (usize_bit 61) 2) = 2 ^ 62" by (simp add: usize_add_def usize_mul_def usize_bit_def)
  have "required_space (replicate 61 0 @ [2] @ replicate 2 0) = 2 ^ 62"
    unfolding required_space_def by (simp only: enumerate_append_eq foldl_append zeros_space zero_less_power zero_less_numeral length_replicate list.size enumerate_simps foldl.simps case_prod_conv s add_0)
      (rule zeros_space, simp)
  then show ?thesis by (simp add: peek_space_def consumable_space_def ex_alloc_value ex_block_def usize_add_def usize_mul_def usize_bit_def)
qed

definition rx_region :: CRegion where
  "rx_region = \<lparr>cr_root = \<lparr>rc_root = 2, rc_path = \<lparr>cp_cptr = 0, cp_depth = 13\<rparr>\<rparr>, cr_guard = 0, cr_guard_size = 50, cr_radix = 1,
     cr_set = [(0, False), (1, False)]\<rparr>"

definition rx_alloc :: "bool \<Rightarrow> unit Allocator" where
  "rx_alloc both = \<lparr>al_cregion = ex_cregion\<lparr>cr_set := [(0, True), (1, False), (2, True), (3, True)] @ map (\<lambda>k. (k, False)) [4..<8]\<rparr>,
    al_fragmentation_threshold_size_bits = 0,
    al_tree = Node Inaccessible (Some (Node Inaccessible (Some (Node (Accessible False (BuiltIn 7))
      (Some (Node (Accessible both (Managed 2)) None None)) (Some (Node (Accessible True (Managed 3)) None None)))) None)) None,
    al_leaves = (if both then [] else [(61, [\<lparr>paddr = 0, size_bits = 61\<rparr>])]), al_world = ()\<rparr>"

lemma rx_cnode: "create_cnode (rk_cap rx_kernel) 1 ex_alloc = Some (Inr (rx_region, \<lparr>paddr = 2 ^ 61, size_bits = 61\<rparr>, 0), rx_alloc False)"
  by (simp add: create_cnode_def ex_alloc_value rx_kernel_def ex_kernel_def ex_sizes_def alloc_eval ex_block_def ex_cregion_def upt_rec
    al_mutate_def al_delete_def CRegion_new_def deposit_def deposit_one_def slot_free_def rx_region_def rx_alloc_def
    cr_relative_cptr_def cptr_with_depth_def ex_root_def shl_def cr_context_def)

lemma rx_objects: "create_objects (rk_cap rx_kernel) [BP_LargePage] rx_region (rx_alloc False) =
    Some ([0], [\<lparr>paddr = 0, size_bits = 61\<rparr>], rx_region\<lparr>cr_set := [(0, True), (1, False)]\<rparr>, rx_alloc True)"
  by (simp add: rx_kernel_def ex_kernel_def ex_sizes_def alloc_eval rx_region_def rx_alloc_def ex_cregion_def upt_rec)

definition rx_partial :: PartialSubsystem where
  "rx_partial = \<lparr>ps_model = rx_model, ps_model_view = \<lparr>mv_local_objects = [0], mv_extern_objects = [1], mv_reverse = [0, 0]\<rparr>,
     ps_cregion = rx_region\<lparr>cr_set := [(0, True), (1, False)]\<rparr>, ps_cnode_untyped_id = \<lparr>paddr = 2 ^ 61, size_bits = 61\<rparr>,
     ps_local_object_slots = [0], ps_local_object_untyped_ids = [\<lparr>paddr = 0, size_bits = 61\<rparr>]\<rparr>"

lemma rx_start: "realize_start rx_kernel rx_model rx_realizer = Some (Inr rx_partial, rx_realizer\<lparr>rz_allocator := rx_alloc True\<rparr>)"
proof -
  have a: "rz_allocator rx_realizer = ex_alloc" by (simp add: rx_realizer_def Realizer_new_def)
  have l: "usize_add (Suc 0) 0 = 1" by (simp add: usize_add_def)
  show ?thesis
    by (simp add: realize_start_def rx_view rx_view_m l rx_reqs rx_peek [simplified] ensure_def on_allocator_def a rx_cnode rx_objects rx_partial_def Let_def
       del: create_objects.simps blueprints_of.simps One_nat_def)
qed

lemma rx_fills: "fill_all rx_kernel rx_partial [(0, 0, [7])] (rx_realizer\<lparr>rz_allocator := rx_alloc True\<rparr>) =
    Some (Inr (), rx_realizer\<lparr>rz_allocator := rx_alloc True\<rparr>)"
  by (simp add: fill_all_def realize_continue_def local_obj_def rx_partial_def rx_model_def rx_fill_def on_world_def fill_frame_def invoke_def
    rx_kernel_def local_cptr_def cptr_with_depth_def rx_region_def shl_def rust_assert_def usize_add_def frame_bytes_def ensure_def Let_def)

lemma rx_finish: "\<exists>s rz. realize_finish rx_kernel rx_partial (rx_realizer\<lparr>rz_allocator := rx_alloc True\<rparr>) = Some (Inr s, rz)"
  by (simp add: realize_finish_def rx_partial_def rx_model_def rx_realizer_def Realizer_new_def rust_assert_def collect_caps.simps initialize_def
    init_vspaces_def init_cspaces_def objects_of_def map_filter_simps as_PGD_def as_CNode_def as_TCB_def on_world_def
    local_cptr_def cptr_with_depth_def rx_region_def shl_def Let_def)
section \<open>Properties\<close>

text \<open>
  C8. The life of a realm gives everything back: whatever frames were filled in between, a realm that
  \<^verbatim>\<open>realize_start\<close> and \<^verbatim>\<open>realize_finish\<close> built is destroyed without an error or a panic when the kernel accepts the
  revocations, and then the free memory, the live blocks and the externs of the realizer are those from before
  \<^verbatim>\<open>realize_start\<close>, with the invariant of the allocator.
\<close>

theorem realm_memory_roundtrip:
  assumes ok: "alloc_ok (rz_allocator rz)" and K: "revoke_accepts (rk_cap K)"
    and start: "realize_start K m rz = Some (Inr ps, rz1)" and fill: "fill_all K ps fills rz1 = Some (Inr (), rz2)"
    and finish: "realize_finish K ps rz2 = Some (Inr s, rz3)"
  shows "\<exists>rz4. rz_destroy K s rz3 = Some (Inr (), rz4) \<and> alloc_ok (rz_allocator rz4) \<and>
    al_abs (rz_allocator rz4) = al_abs (rz_allocator rz) \<and> rz_externs rz4 = rz_externs rz"
proof -
  let ?us = "mset (ps_cnode_untyped_id ps # ps_local_object_untyped_ids ps)"
  note s = realize_start_effect(1,2,4) [OF start ok] and sc = realize_start_effect(3) [OF start ok]
  from fill_all_keeps [OF fill] obtain w where w: "rz2 = rz1\<lparr>rz_allocator := (rz_allocator rz1)\<lparr>al_world := w\<rparr>\<rparr>" by blast
  note f = realize_finish_effect(1-3) [OF finish]
  from realize_finish_effect(4) [OF finish] w obtain w' where w': "rz_allocator rz3 = (rz_allocator rz1)\<lparr>al_world := w'\<rparr>" by auto
  have ok3: "alloc_ok (rz_allocator rz3)" using s(1) by (simp add: w')
  have "mset (ss_cnode_untyped_id s # ss_object_untyped_ids s) \<subseteq># al_used (rz_allocator rz3)" using s(2) f(1,2) by (simp add: w')
  from destroy_enabled [OF ok3 K this] obtain rz4 where d: "rz_destroy K s rz3 = Some (Inr (), rz4)" by blast
  note e = destroy_effect(1,2,4) [OF d ok3] and ec = destroy_effect(3) [OF d ok3]
  have "al_used (rz_allocator rz4) = al_used (rz_allocator rz)" using e(2) s(2) f(1,2) by (simp add: w')
  moreover have "covering a (al_free (rz_allocator rz4)) = covering a (al_free (rz_allocator rz))" for a
    using sc [of a] ec [of a] f(1,2) by (simp add: w')
  then have "\<Union>(block_range ` set_mset (al_free (rz_allocator rz4))) = \<Union>(block_range ` set_mset (al_free (rz_allocator rz)))"
    by (intro set_eqI) (simp only: covering_mem)
  ultimately show ?thesis using d e(1,3) f(3) w s(3) by (auto simp: al_abs_def)
qed

theorem realm_memory_roundtrip_witness:
  "\<exists>s rz3 rz4. realize_finish rx_kernel rx_partial (rx_realizer\<lparr>rz_allocator := rx_alloc True\<rparr>) = Some (Inr s, rz3) \<and>
    rz_destroy rx_kernel s rz3 = Some (Inr (), rz4) \<and> al_abs (rz_allocator rz4) = al_abs ex_alloc \<and>
    rz_externs rz4 ''ep'' = Some \<lparr>ex_ty = Ext_Endpoint, ex_cptr = 9\<rparr>"
proof -
  have K: "revoke_accepts (rk_cap rx_kernel)" by (simp add: revoke_accepts_def rx_kernel_def ex_kernel_def)
  have a: "rz_allocator rx_realizer = ex_alloc" "rz_externs rx_realizer ''ep'' = Some \<lparr>ex_ty = Ext_Endpoint, ex_cptr = 9\<rparr>"
    by (simp_all add: rx_realizer_def Realizer_new_def)
  from rx_finish obtain s rz3 where f: "realize_finish rx_kernel rx_partial (rx_realizer\<lparr>rz_allocator := rx_alloc True\<rparr>) = Some (Inr s, rz3)" by blast
  from realm_memory_roundtrip [OF _ K rx_start rx_fills f] ex_alloc_ok(2) a f show ?thesis by fastforce
qed

text \<open>
  C9. Frames are measured: when a sequence of \<^verbatim>\<open>realize_continue\<close> calls succeeds, every piece of content the host sent
  has the SHA-256 digest that the model gives for the fill entry it was sent for, and it lies within the frame.
\<close>

theorem fills_are_measured:
  assumes r: "fill_all K ps fills rz = Some (Inr (), rz')" and m: "(i, j, content) \<in> set fills"
  shows "\<exists>fs fill. (local_obj (ps_model ps) i = Some (Obj_SmallPage fill) \<and> fs = Frame_Small \<or>
      local_obj (ps_model ps) i = Some (Obj_LargePage fill) \<and> fs = Frame_Large) \<and> j < length fill \<and>
    rk_sha256 K content = fe_content_digest (fill ! j) \<and> fe_offset (fill ! j) + length content \<le> frame_bytes fs"
  using assms
proof (induction fills arbitrary: rz)
  case (Cons x fills)
  obtain i' j' content' where x: "x = (i', j', content')" by (cases x)
  from Cons.prems(1) obtain rz1 where
    h: "realize_continue K ps i' j' content' rz = Some (Inr (), rz1)" and t: "fill_all K ps fills rz1 = Some (Inr (), rz')"
    by (auto simp: fill_all_def x try_method_ok)
  show ?case
  proof (cases "(i, j, content) \<in> set fills")
    case True
    from Cons.IH [OF t True] show ?thesis .
  next
    case False
    with Cons.prems(2) x have e: "i' = i" "j' = j" "content' = content" by auto
    from realize_continue_ok [OF h] show ?thesis unfolding e .
  qed
qed simp

theorem fills_are_measured_witness: "rk_sha256 rx_kernel [7] = fe_content_digest rx_fill \<and> fe_offset rx_fill + 1 \<le> frame_bytes Frame_Large"
  using fills_are_measured [OF rx_fills, of 0 0 "[7]"] by (simp add: local_obj_def rx_partial_def rx_model_def)

lemma collect_caps_map:
  assumes "\<And>i. i < length (md_objects m) \<Longrightarrow> i < length (mv_reverse (ps_model_view ps))"
    and "\<And>i. is_local m i \<Longrightarrow> mv_reverse (ps_model_view ps) ! i < length (ps_local_object_slots ps) \<and>
      local_cptr (cptr_with_depth (ps_cregion ps) (ps_local_object_slots ps ! (mv_reverse (ps_model_view ps) ! i))) = Some (f i)"
    and "\<And>i. i < length (md_objects m) \<Longrightarrow> \<not> is_local m i \<Longrightarrow> mv_reverse (ps_model_view ps) ! i < length ec \<and> ec ! (mv_reverse (ps_model_view ps) ! i) = f i"
  shows "n \<le> length (md_objects m) \<Longrightarrow> collect_caps ps ec (enumerate n (drop n (md_objects m))) = Some (map f [n..<length (md_objects m)])"
proof (induction "length (md_objects m) - n" arbitrary: n)
  case (Suc k)
  then have n: "n < length (md_objects m)" by simp
  then have d: "drop n (md_objects m) = md_objects m ! n # drop (Suc n) (md_objects m)" by (rule Cons_nth_drop_Suc [symmetric])
  from Suc n have IH: "collect_caps ps ec (enumerate (Suc n) (drop (Suc n) (md_objects m))) = Some (map f [Suc n..<length (md_objects m)])" by simp
  show ?case
  proof (cases "to_object (md_objects m ! n)")
    case (Local obj)
    with n have "is_local m n" by (simp add: is_local_def)
    with assms(1,2) n IH Local show ?thesis by (simp add: d upt_conv_Cons)
  next
    case (Extern obj)
    with n have "\<not> is_local m n" by (simp add: is_local_def)
    with assms(1,3) n IH Extern show ?thesis by (simp add: d upt_conv_Cons)
  qed
qed simp

lemma blueprints_of_length: "blueprints_of m is = Some bps \<Longrightarrow> length bps = length is"
  by (induction "is" arbitrary: bps) (auto simp: bind_eq_Some_conv)

lemma cr_fits_cong: "cr_root c' = cr_root c \<Longrightarrow> cr_guard c' = cr_guard c \<Longrightarrow> cr_guard_size c' = cr_guard_size c \<Longrightarrow> cr_radix c' = cr_radix c \<Longrightarrow>
    cr_fits c' = cr_fits c \<and> cr_depth c' = cr_depth c"
  by (simp add: cr_fits_def cr_depth_def)

text \<open>The realm's region after \<^verbatim>\<open>realize_start\<close>: addressed with 64 bits, a slot for every local object.\<close>

lemma realize_start_region:
  assumes r: "realize_start K m rz = Some (Inr ps, rz')" and ok: "alloc_ok (rz_allocator rz)"
    and fits: "cr_fits (al_cregion (rz_allocator rz))" "cr_free (al_cregion (rz_allocator rz)) \<subseteq> {..<2 ^ cr_radix (al_cregion (rz_allocator rz))}"
    and depth: "0 < cr_depth (al_cregion (rz_allocator rz))" "cr_depth (al_cregion (rz_allocator rz)) + cr_radix (ps_cregion ps) \<le> 64"
  shows "cr_fits (ps_cregion ps)" "cr_depth (ps_cregion ps) = 64" "set (ps_local_object_slots ps) \<subseteq> {..<2 ^ cr_radix (ps_cregion ps)}"
    "distinct (ps_local_object_slots ps)" "length (ps_local_object_slots ps) = length (mv_local_objects (ps_model_view ps))"
    "view_ok (k_sizes (rk_cap K)) m (length (md_objects m)) (ps_model_view ps)"
proof -
  from r obtain view n bps radix c u s al c' slots us al' where
    v: "ModelView_new (k_sizes (rk_cap K)) m = Some view" and b: "blueprints_of m (mv_local_objects view) = Some bps" and
    a: "create_cnode (rk_cap K) radix (rz_allocator rz) = Some (Inr (c, u, s), al)"
      "create_objects (rk_cap K) bps c al = Some (slots, us, c', al')"
    and p: "ps = \<lparr>ps_model = m, ps_model_view = view, ps_cregion = c', ps_cnode_untyped_id = u, ps_local_object_slots = slots,
      ps_local_object_untyped_ids = us\<rparr>"
    by (rule realize_start_parts)
  from a(1) obtain root g where new: "CRegion_new root 0 g radix = Some c"
    unfolding create_cnode_def Let_def by (auto simp: bind_eq_Some_conv try_method_ok)
  then have crc: "cr_ok c" "cr_radix c = radix"
    using deposit_fresh [of "[]" 0 "usize_bit radix"] by (auto simp: CRegion_new_def cr_ok_def bind_eq_Some_conv)
  note e = create_objects_effect [OF a(2) create_cnode_blocks(1) [OF ok a(1)] crc(1)]
  have radix: "cr_radix (ps_cregion ps) = radix" using e crc(2) p by simp
  note g = create_cnode_region [OF a(1) ok fits depth [unfolded radix]]
  have c': "cr_fits c' = cr_fits c \<and> cr_depth c' = cr_depth c" using e by (intro cr_fits_cong) auto
  show "cr_fits (ps_cregion ps)" "cr_depth (ps_cregion ps) = 64" "set (ps_local_object_slots ps) \<subseteq> {..<2 ^ cr_radix (ps_cregion ps)}"
    "distinct (ps_local_object_slots ps)" "length (ps_local_object_slots ps) = length (mv_local_objects (ps_model_view ps))"
    using e c' g p radix blueprints_of_length [OF b] by auto
  show "view_ok (k_sizes (rk_cap K)) m (length (md_objects m)) (ps_model_view ps)"
    using ModelView_new_spec [of "k_sizes (rk_cap K)" m] v p by simp
qed

text \<open>
  C22. The table of capabilities that \<^verbatim>\<open>realize_finish\<close> hands to the initialiser exists and is right: no panic, one entry
  per object of the model, different local objects at different addresses of the realm's CNode, and for an extern
  the capability that was taken for it. The allocator's region must lie in the address space and leave room for
  the radix of the realm's CNode.
\<close>

theorem realm_caps_distinct:
  assumes r: "realize_start K m rz = Some (Inr ps, rz')" and ok: "alloc_ok (rz_allocator rz)"
    and fits: "cr_fits (al_cregion (rz_allocator rz))" "cr_free (al_cregion (rz_allocator rz)) \<subseteq> {..<2 ^ cr_radix (al_cregion (rz_allocator rz))}"
    and depth: "0 < cr_depth (al_cregion (rz_allocator rz))" "cr_depth (al_cregion (rz_allocator rz)) + cr_radix (ps_cregion ps) \<le> 64"
    and ec: "length extern_caps = length (mv_extern_objects (ps_model_view ps))"
  shows "\<exists>caps. collect_caps ps extern_caps (enumerate 0 (md_objects m)) = Some caps \<and> length caps = length (md_objects m) \<and>
    inj_on (\<lambda>i. caps ! i) {i. is_local m i} \<and>
    (\<forall>j < length extern_caps. caps ! (mv_extern_objects (ps_model_view ps) ! j) = extern_caps ! j)"
proof -
  note g = realize_start_region [OF assms(1-6)]
  let ?rv = "mv_reverse (ps_model_view ps)" and ?slots = "ps_local_object_slots ps"
  define f where "f i = (if is_local m i then cp_cptr (cptr_with_depth (ps_cregion ps) (?slots ! (?rv ! i))) else extern_caps ! (?rv ! i))" for i
  have loc: "?rv ! i < length ?slots" "?slots ! (?rv ! i) < 2 ^ cr_radix (ps_cregion ps)" if "is_local m i" for i
  proof -
    show l: "?rv ! i < length ?slots" using view_ok_local(1) [OF g(6) that] g(5) by simp
    show "?slots ! (?rv ! i) < 2 ^ cr_radix (ps_cregion ps)" using subsetD [OF g(3) nth_mem [OF l]] by simp
  qed
  have cptr: "local_cptr (cptr_with_depth (ps_cregion ps) (?slots ! (?rv ! i))) = Some (f i)" if "is_local m i" for i
    using cptr_with_depth_value(3) [OF g(1) loc(2) [OF that]] g(2) that by (simp add: local_cptr_def f_def rust_assert_def)
  have len: "length ?rv = length (md_objects m)" using g(6) by (simp add: view_ok_def)
  have "collect_caps ps extern_caps (enumerate 0 (drop 0 (md_objects m))) = Some (map f [0..<length (md_objects m)])"
    using loc(1) cptr len view_ok_extern(1) [OF g(6)] ec by (intro collect_caps_map) (auto simp: f_def)
  moreover have "inj_on f {i. is_local m i}"
  proof (rule inj_onI)
    fix i i' assume l: "i \<in> {i. is_local m i}" "i' \<in> {i. is_local m i}" and eq: "f i = f i'"
    then have li: "is_local m i" "is_local m i'" by auto
    have "cp_cptr (cptr_with_depth (ps_cregion ps) (?slots ! (?rv ! i))) = cp_cptr (cptr_with_depth (ps_cregion ps) (?slots ! (?rv ! i')))"
      using eq li by (simp only: f_def if_True)
    then have "unat (cp_cptr (cptr_with_depth (ps_cregion ps) (?slots ! (?rv ! i)))) =
        unat (cp_cptr (cptr_with_depth (ps_cregion ps) (?slots ! (?rv ! i'))))" by (rule arg_cong)
    then have "?slots ! (?rv ! i) = ?slots ! (?rv ! i')"
      unfolding cptr_with_depth_value(1) [OF g(1) loc(2) [OF li(1)]] cptr_with_depth_value(1) [OF g(1) loc(2) [OF li(2)]]
      by (rule add_left_imp_eq)
    then have "?rv ! i = ?rv ! i'" using g(4) loc(1) li by (simp add: nth_eq_iff_index_eq)
    then show "i = i'" using view_ok_local(2) [OF g(6)] li by metis
  qed
  moreover have "f (mv_extern_objects (ps_model_view ps) ! j) = extern_caps ! j \<and> mv_extern_objects (ps_model_view ps) ! j < length (md_objects m)"
    if "j < length extern_caps" for j
  proof -
    have "mv_extern_objects (ps_model_view ps) ! j \<in> set (mv_extern_objects (ps_model_view ps))" using that ec by simp
    with g(6) that ec show ?thesis by (auto simp: view_ok_def f_def)
  qed
  moreover have "inj_on (\<lambda>i. map f [0..<length (md_objects m)] ! i) {i. is_local m i} = inj_on f {i. is_local m i}"
    by (rule inj_on_cong) (simp add: is_local_def)
  ultimately show ?thesis by (intro exI [of _ "map f [0..<length (md_objects m)]"]) simp
qed

theorem realm_caps_distinct_witness:
  "\<exists>caps. collect_caps rx_partial [9] (enumerate 0 (md_objects rx_model)) = Some caps \<and> length caps = 2 \<and> caps ! 1 = 9"
proof -
  have a: "rz_allocator rx_realizer = ex_alloc" by (simp add: rx_realizer_def Realizer_new_def)
  have f: "cr_fits ex_cregion" "cr_free ex_cregion \<subseteq> {..<2 ^ cr_radix ex_cregion}" "0 < cr_depth ex_cregion" "cr_depth ex_cregion + cr_radix (ps_cregion rx_partial) \<le> 64"
    by (simp_all add: ex_cregion_ok(2)) (simp_all add: cr_fits_def cr_depth_def ex_cregion_def ex_root_def rx_partial_def rx_region_def)
  from realm_caps_distinct [OF rx_start, unfolded a ex_alloc_ok(5), OF ex_alloc_ok(2) f, of "[9]"]
  show ?thesis by (fastforce simp: rx_partial_def rx_model_def)
qed

end
