(* ===== verification/ResourceServer.thy ===== *)
theory ResourceServer
  imports Realizer EventTypes
begin

text \<open>
  The resource server (\<^verbatim>\<open>resource-server/core/src/lib.rs\<close>, \<^verbatim>\<open>cpu.rs\<close>, \<^verbatim>\<open>types/src/lib.rs\<close> and the request loop of
  \<^verbatim>\<open>main.rs\<close>). It owns the realizer, receives the description of a realm in chunks, realizes and destroys realms, and
  lends physical nodes to the virtual nodes of realms. The lock of \<^verbatim>\<open>main.rs\<close> is taken for a whole request, so a run
  of the threads of all nodes is a sequence of requests. Parameters are the kernel, the other servers it calls, the
  memory shared with the host and the decoders of the \<^verbatim>\<open>postcard\<close> crate.
\<close>

section \<open>Messages\<close>

datatype Request =
    Declare nat nat
  | SpecChunk nat nat nat nat
  | FillChunks nat nat nat
  | RealizeStart nat
  | RealizeFinish nat
  | Destroy nat
  | HackRun nat

record FillChunkHeader =
  fh_object_index :: nat
  fh_fill_entry_index :: nat
  fh_size :: nat

record Yield =
  y_physical_node :: nat
  y_realm_id :: nat
  y_virtual_node :: nat
  y_timeout :: "nat option"

datatype YieldBackCondition = WFE nat

datatype ResumeHostCondition = RH_Timeout | RH_HostEvent | RH_RealmYieldedBack YieldBackCondition

definition get_field :: "u64 \<Rightarrow> nat \<Rightarrow> nat" where
  "get_field reg i = unat (shr reg (i * 16) AND 0xffff)"

definition decode_option :: "u64 \<Rightarrow> nat option" where
  "decode_option reg = (if reg = 0 then None else Some (unat (reg AND NOT (shl 1 63))))"

text \<open>\<^verbatim>\<open>Yield::recv\<close> on the message registers of the call; reading past them panics.\<close>

definition Yield_recv :: "u64 list \<Rightarrow> Yield option" where
  "Yield_recv ws = do {
     swap \<leftarrow> vec_get ws 0;
     timeout \<leftarrow> vec_get ws 1;
     Some \<lparr>y_physical_node = get_field swap 0, y_realm_id = get_field swap 1, y_virtual_node = get_field swap 2,
       y_timeout = decode_option timeout\<rparr> }"

text \<open>\<^verbatim>\<open>ResumeHostCondition::send\<close>: the third condition is a \<^verbatim>\<open>todo!()\<close>.\<close>

definition ResumeHostCondition_send :: "ResumeHostCondition \<Rightarrow> u64 list option" where
  "ResumeHostCondition_send c = (case c of
     RH_Timeout \<Rightarrow> Some [1]
   | RH_HostEvent \<Rightarrow> Some [2]
   | RH_RealmYieldedBack _ \<Rightarrow> None)"

section \<open>Environment\<close>

text \<open>The requests of the timer server.\<close>

datatype TimerRequest =
    Timer_Completed
  | Timer_Periodic int u64
  | Timer_OneshotAbsolute int u64
  | Timer_OneshotRelative int u64
  | Timer_Stop int
  | Timer_Time

record ('w, 'e) rs_env =
  re_kernel :: "('w, 'e) rz_kernel"
  re_num_active_cores :: nat
  re_save_caller :: "'w \<Rightarrow> CPtr \<Rightarrow> CPtr \<Rightarrow> ('e + unit) \<times> 'w"
  re_event_call :: "'w \<Rightarrow> CPtr \<Rightarrow> ResourceServerCall \<Rightarrow> 'w"
  re_timer_call :: "'w \<Rightarrow> CPtr \<Rightarrow> TimerRequest \<Rightarrow> (unit + unit) \<times> 'w"
  re_send :: "'w \<Rightarrow> CPtr \<Rightarrow> u64 list \<Rightarrow> 'w"
  re_memory :: "'w \<Rightarrow> nat \<Rightarrow> nat \<Rightarrow> u8 list"
  re_model :: "u8 list \<Rightarrow> Model option"
  re_header :: "u8 list \<Rightarrow> (FillChunkHeader \<times> u8 list) option"
  re_bulk_region :: nat
  re_bulk_region_size :: nat

section \<open>State\<close>

record NodeLocal =
  nl_reply_slot :: CPtr
  nl_timer_server_client :: CPtr
  nl_event_server_control :: CPtr

record VirtualNode =
  vn_tcbs :: "CPtr list"
  vn_physical_node :: "nat option"

record Realm =
  rm_virtual_nodes :: "VirtualNode list"
  rm_subsystem :: Subsystem

record 'w ResourceServer =
  rs_realizer :: "'w Realizer"
  rs_realms :: "nat \<rightharpoonup> Realm"
  rs_partial_specs :: "nat \<rightharpoonup> u8 list"
  rs_partial_realms :: "nat \<rightharpoonup> PartialSubsystem"
  rs_physical_nodes :: "(nat \<times> nat) option list"
  rs_cnode :: CPtr
  rs_node_local :: "NodeLocal list"

type_synonym ('w, 'e, 'a) rs_method = "'w ResourceServer \<Rightarrow> ('e dyndl_error, 'a, 'w ResourceServer) fallible"

definition ResourceServer_new :: "('w, 'e) rs_env \<Rightarrow> 'w Realizer \<Rightarrow> CPtr \<Rightarrow> NodeLocal list \<Rightarrow> 'w ResourceServer" where
  "ResourceServer_new E rz cnode locals = \<lparr>rs_realizer = rz, rs_realms = Map.empty, rs_partial_specs = Map.empty,
     rs_partial_realms = Map.empty, rs_physical_nodes = replicate (re_num_active_cores E) None, rs_cnode = cnode, rs_node_local = locals\<rparr>"

text \<open>The kernel's state is carried by the allocator of the realizer.\<close>

definition rs_world :: "'w ResourceServer \<Rightarrow> 'w" where
  "rs_world rs = al_world (rz_allocator (rs_realizer rs))"

definition set_world :: "'w \<Rightarrow> 'w ResourceServer \<Rightarrow> 'w ResourceServer" where
  "set_world w rs = rs\<lparr>rs_realizer := (rs_realizer rs)\<lparr>rz_allocator := (rz_allocator (rs_realizer rs))\<lparr>al_world := w\<rparr>\<rparr>\<rparr>"

definition on_realizer :: "('w, 'e, 'a) rz_method \<Rightarrow> ('w, 'e, 'a) rs_method" where
  "on_realizer f rs = (case f (rs_realizer rs) of
     None \<Rightarrow> None
   | Some (r, rz) \<Rightarrow> Some (r, rs\<lparr>rs_realizer := rz\<rparr>))"

definition rs_invoke :: "('w, 'e) rs_env \<Rightarrow> invocation \<Rightarrow> ('w, 'e, unit) rs_method" where
  "rs_invoke E iv rs = (let (r, w) = rk_invoke (re_kernel E) (rs_world rs) iv in Some (map_sum Kernel id r, set_world w rs))"

definition schedule :: "('w, 'e) rs_env \<Rightarrow> CPtr \<Rightarrow> nat option \<Rightarrow> ('w, 'e, unit) rs_method" where
  "schedule E tcb node = rs_invoke E (Inv_set_affinity tcb (of_nat (case node of None \<Rightarrow> re_num_active_cores E | Some n \<Rightarrow> n)))"

section \<open>Kernel object resources\<close>

definition rs_declare :: "nat \<Rightarrow> nat \<Rightarrow> ('w, 'e, unit) rs_method" where
  "rs_declare realm_id spec_size rs = do {
     rust_assert (rs_partial_specs rs realm_id = None);
     rust_assert (rs_realms rs realm_id = None);
     Some (Inr (), rs\<lparr>rs_partial_specs := (rs_partial_specs rs)(realm_id \<mapsto> replicate spec_size 0)\<rparr>) }"

text \<open>\<^verbatim>\<open>partial[range].copy_from_slice(chunk)\<close>: a range outside the vector or of another length panics.\<close>

definition copy_chunk :: "u8 list \<Rightarrow> nat \<Rightarrow> u8 list \<Rightarrow> u8 list option" where
  "copy_chunk partial offset chunk = do {
     let last = usize_add offset (length chunk);
     rust_assert (offset \<le> last \<and> last \<le> length partial);
     rust_assert (last - offset = length chunk);
     Some (take offset partial @ chunk @ drop last partial) }"

definition incorporate_spec_chunk :: "nat \<Rightarrow> nat \<Rightarrow> u8 list \<Rightarrow> ('w, 'e, unit) rs_method" where
  "incorporate_spec_chunk realm_id offset chunk rs = do {
     partial \<leftarrow> rs_partial_specs rs realm_id;
     partial \<leftarrow> copy_chunk partial offset chunk;
     Some (Inr (), rs\<lparr>rs_partial_specs := (rs_partial_specs rs)(realm_id \<mapsto> partial)\<rparr>) }"

definition rs_realize_start :: "('w, 'e) rs_env \<Rightarrow> nat \<Rightarrow> ('w, 'e, unit) rs_method" where
  "rs_realize_start E realm_id rs = do {
     raw \<leftarrow> rs_partial_specs rs realm_id;
     let rs = rs\<lparr>rs_partial_specs := (rs_partial_specs rs)(realm_id := None)\<rparr>;
     model \<leftarrow> re_model E raw;
     try_method (on_realizer (realize_start (re_kernel E) model) rs) (\<lambda>ps rs.
       Some (Inr (), rs\<lparr>rs_partial_realms := (rs_partial_realms rs)(realm_id \<mapsto> ps)\<rparr>)) }"

definition rs_realize_continue :: "('w, 'e) rs_env \<Rightarrow> nat \<Rightarrow> nat \<Rightarrow> nat \<Rightarrow> u8 list \<Rightarrow> ('w, 'e, unit) rs_method" where
  "rs_realize_continue E realm_id object_index fill_entry_index content rs = do {
     ps \<leftarrow> rs_partial_realms rs realm_id;
     on_realizer (realize_continue (re_kernel E) ps object_index fill_entry_index content) rs }"

text \<open>\<^verbatim>\<open>node_local[node].event_server_control.call(..)\<close>\<close>

definition event_call :: "('w, 'e) rs_env \<Rightarrow> nat \<Rightarrow> ResourceServerCall \<Rightarrow> ('w, 'e, unit) rs_method" where
  "event_call E node c rs = do {
     nl \<leftarrow> vec_get (rs_node_local rs) node;
     Some (Inr (), set_world (re_event_call E (rs_world rs) (nl_event_server_control nl) c) rs) }"

text \<open>The threads of the new realm are parked, and resumed if the model says so.\<close>

definition start_tcb :: "('w, 'e) rs_env \<Rightarrow> VirtualCoreTCB \<Rightarrow> ('w, 'e, unit) rs_method" where
  "start_tcb E t rs = try_method (schedule E (vt_cap t) None rs) (\<lambda>_ rs.
     if vt_resume t then rs_invoke E (Inv_resume (vt_cap t)) rs else Some (Inr (), rs))"

definition rs_realize_finish :: "('w, 'e) rs_env \<Rightarrow> nat \<Rightarrow> nat \<Rightarrow> ('w, 'e, unit) rs_method" where
  "rs_realize_finish E node_index realm_id rs = do {
     ps \<leftarrow> rs_partial_realms rs realm_id;
     let rs = rs\<lparr>rs_partial_realms := (rs_partial_realms rs)(realm_id := None)\<rparr>;
     try_method (on_realizer (realize_finish (re_kernel E) ps) rs) (\<lambda>subsystem rs.
     try_method (try_for_each (ss_virtual_cores subsystem) (\<lambda>core. try_for_each core (start_tcb E)) rs) (\<lambda>_ rs.
       let virtual_nodes = map (\<lambda>core. \<lparr>vn_tcbs = map vt_cap core, vn_physical_node = None\<rparr>) (ss_virtual_cores subsystem);
           rs = rs\<lparr>rs_realms := (rs_realms rs)(realm_id \<mapsto> \<lparr>rm_virtual_nodes = virtual_nodes, rm_subsystem = subsystem\<rparr>)\<rparr>
       in event_call E node_index (RS_CreateRealm realm_id 1) rs)) }"

definition rs_destroy :: "('w, 'e) rs_env \<Rightarrow> nat \<Rightarrow> nat \<Rightarrow> ('w, 'e, unit) rs_method" where
  "rs_destroy E node_index realm_id rs = (case rs_realms rs realm_id of
     None \<Rightarrow> Some (Inr (), rs)
   | Some realm \<Rightarrow>
       let rs = rs\<lparr>rs_realms := (rs_realms rs)(realm_id := None)\<rparr> in
       try_method (try_for_each (rm_virtual_nodes realm) (\<lambda>vn rs. do {
           rust_assert (vn_physical_node vn = None);
           try_for_each (rm_virtual_nodes realm) (\<lambda>vn. try_for_each (vn_tcbs vn) (\<lambda>tcb. schedule E tcb None)) rs }) rs) (\<lambda>_ rs.
       try_method (on_realizer (rz_destroy (re_kernel E) (rm_subsystem realm)) rs) (\<lambda>_ rs.
         event_call E node_index (RS_DestroyRealm realm_id) rs)))"

section \<open>CPU resources\<close>

definition timer_call :: "('w, 'e) rs_env \<Rightarrow> nat \<Rightarrow> TimerRequest \<Rightarrow> ('w, 'e, unit) rs_method" where
  "timer_call E node req rs = do {
     nl \<leftarrow> vec_get (rs_node_local rs) node;
     let (r, w) = re_timer_call E (rs_world rs) (nl_timer_server_client nl) req;
     (case r of Inl _ \<Rightarrow> None | Inr _ \<Rightarrow> Some (Inr (), set_world w rs)) }"

definition set_timeout :: "('w, 'e) rs_env \<Rightarrow> nat \<Rightarrow> nat \<Rightarrow> ('w, 'e, unit) rs_method" where
  "set_timeout E physical_node ns = timer_call E physical_node (Timer_OneshotRelative 0 (of_nat ns))"

definition cancel_timeout :: "('w, 'e) rs_env \<Rightarrow> nat \<Rightarrow> ('w, 'e, unit) rs_method" where
  "cancel_timeout E physical_node = timer_call E physical_node (Timer_Stop 0)"

definition set_notify_host_event :: "('w, 'e) rs_env \<Rightarrow> nat \<Rightarrow> ('w, 'e, unit) rs_method" where
  "set_notify_host_event E physical_node = event_call E physical_node (RS_Subscribe physical_node physical_node)"

definition cancel_notify_host_event :: "('w, 'e) rs_env \<Rightarrow> nat \<Rightarrow> ('w, 'e, unit) rs_method" where
  "cancel_notify_host_event E physical_node = event_call E physical_node (RS_Unsubscribe physical_node physical_node)"

definition resume_host :: "('w, 'e) rs_env \<Rightarrow> nat \<Rightarrow> ResumeHostCondition \<Rightarrow> ('w, 'e, unit) rs_method" where
  "resume_host E physical_node c rs = do {
     nl \<leftarrow> vec_get (rs_node_local rs) physical_node;
     ws \<leftarrow> ResumeHostCondition_send c;
     Some (Inr (), set_world (re_send E (rs_world rs) (nl_reply_slot nl) ws) rs) }"

definition save_caller :: "('w, 'e) rs_env \<Rightarrow> nat \<Rightarrow> ('w, 'e, unit) rs_method" where
  "save_caller E physical_node rs = do {
     nl \<leftarrow> vec_get (rs_node_local rs) physical_node;
     let (r, w) = re_save_caller E (rs_world rs) (rs_cnode rs) (nl_reply_slot nl);
     Some (map_sum Kernel id r, set_world w rs) }"

text \<open>The virtual node of a realm, and the server with its physical node changed.\<close>

definition virtual_node :: "nat \<Rightarrow> nat \<Rightarrow> 'w ResourceServer \<Rightarrow> (Realm \<times> VirtualNode) option" where
  "virtual_node realm_id v rs = do {
     realm \<leftarrow> rs_realms rs realm_id;
     vn \<leftarrow> vec_get (rm_virtual_nodes realm) v;
     Some (realm, vn) }"

definition set_physical_node :: "nat \<Rightarrow> nat \<Rightarrow> nat option \<Rightarrow> 'w ResourceServer \<Rightarrow> 'w ResourceServer" where
  "set_physical_node realm_id v p rs = (case virtual_node realm_id v rs of
     None \<Rightarrow> rs
   | Some (realm, vn) \<Rightarrow> rs\<lparr>rs_realms := (rs_realms rs)(realm_id \<mapsto>
       realm\<lparr>rm_virtual_nodes := (rm_virtual_nodes realm)[v := vn\<lparr>vn_physical_node := p\<rparr>]\<rparr>)\<rparr>)"

definition yield_to :: "('w, 'e) rs_env \<Rightarrow> nat \<Rightarrow> nat \<Rightarrow> nat \<Rightarrow> nat option \<Rightarrow> ('w, 'e, unit) rs_method" where
  "yield_to E physical_node realm_id v timeout rs =
     try_method (save_caller E physical_node rs) (\<lambda>_ rs. do {
       current \<leftarrow> vec_get (rs_physical_nodes rs) physical_node;
       rust_assert (current = None);
       let rs = rs\<lparr>rs_physical_nodes := (rs_physical_nodes rs)[physical_node := Some (realm_id, v)]\<rparr>;
       (_, vn) \<leftarrow> virtual_node realm_id v rs;
       rust_assert (vn_physical_node vn = None);
       let rs = set_physical_node realm_id v (Some physical_node) rs;
       try_method (try_for_each (vn_tcbs vn) (\<lambda>tcb. schedule E tcb (Some physical_node)) rs) (\<lambda>_ rs.
       try_method (set_notify_host_event E physical_node rs) (\<lambda>_ rs.
         case timeout of None \<Rightarrow> Some (Inr (), rs) | Some ns \<Rightarrow> set_timeout E physical_node ns rs)) })"

definition yield_back :: "('w, 'e) rs_env \<Rightarrow> nat \<Rightarrow> nat \<Rightarrow> YieldBackCondition \<Rightarrow> ('w, 'e, unit) rs_method" where
  "yield_back E realm_id v c rs = do {
     (_, vn) \<leftarrow> virtual_node realm_id v rs;
     physical_node \<leftarrow> vn_physical_node vn;
     let rs = set_physical_node realm_id v None rs;
     try_method (try_for_each (vn_tcbs vn) (\<lambda>tcb. schedule E tcb None) rs) (\<lambda>_ rs.
     try_method (cancel_notify_host_event E physical_node rs) (\<lambda>_ rs.
     try_method (cancel_timeout E physical_node rs) (\<lambda>_ rs.
       resume_host E physical_node (RH_RealmYieldedBack c) rs))) }"

text \<open>
  \<^verbatim>\<open>host_event\<close> and \<^verbatim>\<open>timeout\<close> take the node from its realm; they differ in the condition they resume the host with,
  and only \<^verbatim>\<open>host_event\<close> stops the timer.
\<close>

definition host_event :: "('w, 'e) rs_env \<Rightarrow> nat \<Rightarrow> ('w, 'e, unit) rs_method" where
  "host_event E physical_node rs = do {
     current \<leftarrow> vec_get (rs_physical_nodes rs) physical_node;
     let rs = rs\<lparr>rs_physical_nodes := (rs_physical_nodes rs)[physical_node := None]\<rparr>;
     (case current of
        None \<Rightarrow> Some (Inr (), rs)
      | Some (realm_id, v) \<Rightarrow> do {
          (_, vn) \<leftarrow> virtual_node realm_id v rs;
          let rs = set_physical_node realm_id v None rs;
          try_method (try_for_each (vn_tcbs vn) (\<lambda>tcb. schedule E tcb None) rs) (\<lambda>_ rs.
          try_method (cancel_notify_host_event E physical_node rs) (\<lambda>_ rs.
          try_method (cancel_timeout E physical_node rs) (\<lambda>_ rs.
            resume_host E physical_node RH_HostEvent rs))) }) }"

definition timeout :: "('w, 'e) rs_env \<Rightarrow> nat \<Rightarrow> ('w, 'e, unit) rs_method" where
  "timeout E physical_node rs = do {
     current \<leftarrow> vec_get (rs_physical_nodes rs) physical_node;
     let rs = rs\<lparr>rs_physical_nodes := (rs_physical_nodes rs)[physical_node := None]\<rparr>;
     (case current of
        None \<Rightarrow> Some (Inr (), rs)
      | Some (realm_id, v) \<Rightarrow> do {
          (_, vn) \<leftarrow> virtual_node realm_id v rs;
          let rs = set_physical_node realm_id v None rs;
          try_method (try_for_each (vn_tcbs vn) (\<lambda>tcb. schedule E tcb None) rs) (\<lambda>_ rs.
          try_method (cancel_notify_host_event E physical_node rs) (\<lambda>_ rs.
            resume_host E physical_node RH_Timeout rs)) }) }"

definition hack_run :: "('w, 'e) rs_env \<Rightarrow> nat \<Rightarrow> ('w, 'e, unit) rs_method" where
  "hack_run E realm_id rs = do {
     realm \<leftarrow> rs_realms rs realm_id;
     try_for_each (enumerate 0 (rm_virtual_nodes realm)) (\<lambda>(i, vn). try_for_each (vn_tcbs vn) (\<lambda>tcb. schedule E tcb (Some i))) rs }"

section \<open>The request loop\<close>

text \<open>
  The slice of the bulk region a request names. The bound is checked on a sum that wraps; the address is
  computed with \<^verbatim>\<open>offset\<close>, which wraps too.
\<close>

definition bulk_slice :: "('w, 'e) rs_env \<Rightarrow> nat \<Rightarrow> nat \<Rightarrow> 'w ResourceServer \<Rightarrow> u8 list option" where
  "bulk_slice E off sz rs = do {
     rust_assert (usize_add off sz \<le> re_bulk_region_size E);
     Some (re_memory E (rs_world rs) (usize_add (re_bulk_region E) off) sz) }"

text \<open>
  The loop over the chunks of a \<^verbatim>\<open>FillChunks\<close> request. A header that consumes nothing would repeat for ever; the
  recursion ends there with \<open>None\<close>, and the properties assume a decoder that consumes.
\<close>

function fill_chunks :: "('w, 'e) rs_env \<Rightarrow> nat \<Rightarrow> u8 list \<Rightarrow> ('w, 'e, unit) rs_method" where
  "fill_chunks E realm_id aggregate rs = (if aggregate = [] then Some (Inr (), rs) else do {
     (header, rest) \<leftarrow> re_header E aggregate;
     rust_assert (fh_size header \<le> length rest);
     let rest' = drop (fh_size header) rest;
     try_method (rs_realize_continue E realm_id (fh_object_index header) (fh_fill_entry_index header) (take (fh_size header) rest) rs)
       (\<lambda>_ rs. if length rest' < length aggregate then fill_chunks E realm_id rest' rs else None) })"
  by pat_completeness auto
termination by (relation "measure (\<lambda>(E, realm_id, aggregate, rs). length aggregate)") auto

declare fill_chunks.simps [simp del]

definition handle_request :: "('w, 'e) rs_env \<Rightarrow> nat \<Rightarrow> Request \<Rightarrow> ('w, 'e, unit) rs_method" where
  "handle_request E node_index req rs = (case req of
     Declare realm_id spec_size \<Rightarrow> rs_declare realm_id spec_size rs
   | SpecChunk realm_id off sz offset \<Rightarrow> do {
       content \<leftarrow> bulk_slice E off sz rs;
       incorporate_spec_chunk realm_id offset content rs }
   | FillChunks realm_id off sz \<Rightarrow> do {
       content \<leftarrow> bulk_slice E off sz rs;
       fill_chunks E realm_id content rs }
   | RealizeStart realm_id \<Rightarrow> rs_realize_start E realm_id rs
   | RealizeFinish realm_id \<Rightarrow> rs_realize_finish E node_index realm_id rs
   | Destroy realm_id \<Rightarrow> rs_destroy E node_index realm_id rs
   | HackRun realm_id \<Rightarrow> hack_run E realm_id rs)"

text \<open>A received message: its badge decides how the registers are read.\<close>

definition BADGE_HOST_CONTROL :: u64 where "BADGE_HOST_CONTROL = 0x0"
definition BADGE_HOST_YIELD :: u64 where "BADGE_HOST_YIELD = 0x1"
definition BADGE_HOST_EVENT :: u64 where "BADGE_HOST_EVENT = 0x101"
definition BADGE_TIMEOUT :: u64 where "BADGE_TIMEOUT = 0x100"

definition rs_handle :: "('w, 'e) rs_env \<Rightarrow> (u64 list \<Rightarrow> Request option) \<Rightarrow> nat \<Rightarrow> u64 \<Rightarrow> u64 list \<Rightarrow> ('w, 'e, unit) rs_method" where
  "rs_handle E recv node_index badge ws rs =
     (if badge = BADGE_HOST_CONTROL then do { req \<leftarrow> recv ws; handle_request E node_index req rs }
      else if badge = BADGE_HOST_YIELD then do {
        y \<leftarrow> Yield_recv ws;
        yield_to E (y_physical_node y) (y_realm_id y) (y_virtual_node y) (y_timeout y) rs }
      else if badge = BADGE_HOST_EVENT then host_event E node_index rs
      else if badge = BADGE_TIMEOUT then timeout E node_index rs
      else None)"

end
