(* ===== verification/ResourceServerProps.thy ===== *)
theory ResourceServerProps
  imports ResourceServer RealizerProps
begin

text \<open>
  The invariant of the resource server: the table of physical nodes and the virtual nodes of the realms agree, and
  the live blocks of the allocator are those of the realms, finished or not.
\<close>

section \<open>Methods that touch only the kernel's state\<close>

named_theorems world_only_intros "methods that change nothing but the kernel's state"

definition world_only :: "('w, 'e, 'a) rs_method \<Rightarrow> bool" where
  "world_only f \<longleftrightarrow> (\<forall>rs r rs'. f rs = Some (r, rs') \<longrightarrow> (\<exists>w. rs' = set_world w rs))"

lemma set_world_simps [simp]:
  "rs_realms (set_world w rs) = rs_realms rs" "rs_partial_specs (set_world w rs) = rs_partial_specs rs"
  "rs_partial_realms (set_world w rs) = rs_partial_realms rs" "rs_physical_nodes (set_world w rs) = rs_physical_nodes rs"
  "rs_node_local (set_world w rs) = rs_node_local rs" "rs_cnode (set_world w rs) = rs_cnode rs"
  "rs_realizer (set_world w rs) = (rs_realizer rs)\<lparr>rz_allocator := (rz_allocator (rs_realizer rs))\<lparr>al_world := w\<rparr>\<rparr>"
  "set_world w (set_world w' rs) = set_world w rs"
  by (simp_all add: set_world_def)

lemma set_world_id: "set_world (rs_world rs) rs = rs"
  by (simp add: set_world_def rs_world_def)

lemma world_onlyD: "world_only f \<Longrightarrow> f rs = Some (r, rs') \<Longrightarrow> \<exists>w. rs' = set_world w rs"
  by (auto simp: world_only_def)

lemma world_only_return [world_only_intros]: "world_only (\<lambda>rs. Some (r, rs))"
  unfolding world_only_def by (metis option.inject prod.inject set_world_id)

lemma world_only_try [world_only_intros]:
  assumes "world_only f" "\<And>a. world_only (k a)"
  shows "world_only (\<lambda>rs. try_method (f rs) k)"
  unfolding world_only_def
proof (intro allI impI)
  fix rs r rs' assume "try_method (f rs) k = Some (r, rs')"
  then consider e where "f rs = Some (Inl e, rs')" | a rs1 where "f rs = Some (Inr a, rs1)" "k a rs1 = Some (r, rs')"
    by (auto simp: try_method_result)
  then show "\<exists>w. rs' = set_world w rs"
  proof cases
    case 1
    with assms(1) show ?thesis by (auto dest: world_onlyD)
  next
    case (2 a rs1)
    from world_onlyD [OF assms(1) 2(1)] world_onlyD [OF assms(2) 2(2)] show ?thesis by auto
  qed
qed

lemma world_only_for [world_only_intros]:
  assumes "\<And>x. world_only (f x)"
  shows "world_only (try_for_each xs f)"
proof (induction xs)
  case Nil
  then show ?case using world_only_return [of "Inr ()"] by (simp add: world_only_def)
next
  case (Cons x xs)
  have "world_only (\<lambda>rs. try_method (f x rs) (\<lambda>_. try_for_each xs f))" by (intro world_only_try assms Cons.IH)
  then show ?case by (simp add: world_only_def)
qed

lemma world_only_invoke [world_only_intros]: "world_only (rs_invoke E iv)"
  by (auto simp: world_only_def rs_invoke_def split: prod.splits)

lemma world_only_schedule [world_only_intros]: "world_only (schedule E tcb n)"
  unfolding schedule_def by (rule world_only_invoke)

lemma world_only_event_call [world_only_intros]: "world_only (event_call E n c)"
  by (auto simp: world_only_def event_call_def bind_eq_Some_conv)

lemma world_only_timer_call [world_only_intros]: "world_only (timer_call E n c)"
  by (auto simp: world_only_def timer_call_def bind_eq_Some_conv Let_def case_prod_beta split: sum.split_asm)

lemma world_only_resume_host [world_only_intros]: "world_only (resume_host E n c)"
  by (auto simp: world_only_def resume_host_def bind_eq_Some_conv)

lemma world_only_save_caller [world_only_intros]: "world_only (save_caller E n)"
  by (auto simp: world_only_def save_caller_def bind_eq_Some_conv Let_def case_prod_beta)

lemma world_only_timeouts [world_only_intros]:
  "world_only (set_timeout E n ns)" "world_only (cancel_timeout E n)"
  "world_only (set_notify_host_event E n)" "world_only (cancel_notify_host_event E n)"
  by (simp_all add: set_timeout_def cancel_timeout_def set_notify_host_event_def cancel_notify_host_event_def world_only_intros)

lemma world_only_start_tcb [world_only_intros]: "world_only (start_tcb E t)"
  unfolding start_tcb_def by (cases "vt_resume t") (simp_all add: world_only_intros)

section \<open>Lending nodes\<close>

text \<open>What \<open>yield_to\<close>, \<open>host_event\<close> and \<open>timeout\<close> do to the two tables, on every path that does not panic.\<close>

definition lend :: "nat \<Rightarrow> nat \<Rightarrow> nat \<Rightarrow> 'w ResourceServer \<Rightarrow> 'w ResourceServer" where
  "lend p r v rs = set_physical_node r v (Some p) (rs\<lparr>rs_physical_nodes := (rs_physical_nodes rs)[p := Some (r, v)]\<rparr>)"

definition take_back :: "nat \<Rightarrow> nat \<Rightarrow> nat \<Rightarrow> 'w ResourceServer \<Rightarrow> 'w ResourceServer" where
  "take_back p r v rs = set_physical_node r v None (rs\<lparr>rs_physical_nodes := (rs_physical_nodes rs)[p := None]\<rparr>)"

lemma virtual_node_cong [simp]:
  "virtual_node r v (set_world w rs) = virtual_node r v rs"
  "virtual_node r v (rs\<lparr>rs_physical_nodes := pn\<rparr>) = virtual_node r v rs"
  by (simp_all add: virtual_node_def)

lemma virtual_node_Some:
  "virtual_node r v rs = Some (realm, vn) \<longleftrightarrow> rs_realms rs r = Some realm \<and> v < length (rm_virtual_nodes realm) \<and> vn = rm_virtual_nodes realm ! v"
  by (auto simp: virtual_node_def bind_eq_Some_conv vec_get_def split: if_splits)

lemma yield_to_effect:
  assumes "yield_to E p r v t rs = Some (res, rs')"
  obtains (refused) e w where "res = Inl e" "rs' = set_world w rs"
  | (lent) realm vn w where "p < length (rs_physical_nodes rs)" "rs_physical_nodes rs ! p = None"
      "virtual_node r v rs = Some (realm, vn)" "vn_physical_node vn = None" "rs' = set_world w (lend p r v rs)"
proof -
  from assms consider e where "save_caller E p rs = Some (Inl e, rs')" "res = Inl e"
    | rs1 realm vn where "save_caller E p rs = Some (Inr (), rs1)" "vec_get (rs_physical_nodes rs1) p = Some None"
      "virtual_node r v rs1 = Some (realm, vn)" "vn_physical_node vn = None"
      "try_method (try_for_each (vn_tcbs vn) (\<lambda>tcb. schedule E tcb (Some p)) (lend p r v rs1)) (\<lambda>_ rs.
        try_method (set_notify_host_event E p rs) (\<lambda>_ rs. case t of None \<Rightarrow> Some (Inr (), rs) | Some ns \<Rightarrow> set_timeout E p ns rs)) = Some (res, rs')"
    by (auto simp: yield_to_def try_method_result [of "save_caller E p rs"] bind_eq_Some_conv Let_def lend_def)
  then show ?thesis
  proof cases
    case 1
    then show ?thesis using world_onlyD [OF world_only_save_caller] refused by blast
  next
    case 2
    from world_onlyD [OF world_only_save_caller 2(1)] obtain w1 where w1: "rs1 = set_world w1 rs" by blast
    have "world_only (\<lambda>rs. try_method (try_for_each (vn_tcbs vn) (\<lambda>tcb. schedule E tcb (Some p)) rs) (\<lambda>_ rs.
        try_method (set_notify_host_event E p rs) (\<lambda>_ rs. case t of None \<Rightarrow> Some (Inr (), rs) | Some ns \<Rightarrow> set_timeout E p ns rs)))"
      by (cases t) (simp_all add: world_only_intros)
    from world_onlyD [OF this 2(5)] obtain w where "rs' = set_world w (lend p r v rs1)" by blast
    moreover have "set_world w (lend p r v rs1) = set_world w (lend p r v rs)"
      by (simp add: w1 lend_def set_physical_node_def set_world_def virtual_node_def split: option.splits)
    ultimately show ?thesis using 2(2-4) w1 by (intro lent) (auto simp: vec_get_def split: if_splits)
  qed
qed

lemma take_back_effect:
  assumes "host_event E p rs = Some (res, rs') \<or> timeout E p rs = Some (res, rs')"
  obtains (idle) "p < length (rs_physical_nodes rs)" "rs_physical_nodes rs ! p = None" "rs' = rs" "res = Inr ()"
  | (taken) r v realm vn w where "p < length (rs_physical_nodes rs)" "rs_physical_nodes rs ! p = Some (r, v)"
      "virtual_node r v rs = Some (realm, vn)" "rs' = set_world w (take_back p r v rs)"
proof -
  define H where "H vn = (\<lambda>rs. try_method (try_for_each (vn_tcbs vn) (\<lambda>tcb. schedule E tcb None) rs) (\<lambda>_ rs.
          try_method (cancel_notify_host_event E p rs) (\<lambda>_ rs.
          try_method (cancel_timeout E p rs) (\<lambda>_ rs. resume_host E p RH_HostEvent rs))))" for vn :: VirtualNode
  define T where "T vn = (\<lambda>rs. try_method (try_for_each (vn_tcbs vn) (\<lambda>tcb. schedule E tcb None) rs) (\<lambda>_ rs.
          try_method (cancel_notify_host_event E p rs) (\<lambda>_ rs. resume_host E p RH_Timeout rs)))" for vn :: VirtualNode
  have w: "world_only (H vn)" "world_only (T vn)" for vn unfolding H_def T_def by (simp_all add: world_only_intros)
  from assms consider "p < length (rs_physical_nodes rs)" "rs_physical_nodes rs ! p = None"
      "rs' = rs\<lparr>rs_physical_nodes := (rs_physical_nodes rs)[p := None]\<rparr>" "res = Inr ()"
    | r v realm vn where "p < length (rs_physical_nodes rs)" "rs_physical_nodes rs ! p = Some (r, v)"
      "virtual_node r v rs = Some (realm, vn)" "H vn (take_back p r v rs) = Some (res, rs') \<or> T vn (take_back p r v rs) = Some (res, rs')"
    unfolding host_event_def timeout_def H_def T_def
    by (auto simp: bind_eq_Some_conv vec_get_def take_back_def Let_def split: if_splits option.splits)
  then show ?thesis
  proof cases
    case 1
    then have "(rs_physical_nodes rs)[p := None] = rs_physical_nodes rs" by (simp add: list_update_same_conv)
    with 1 have "rs' = rs" by simp
    with 1 show ?thesis by (intro idle) auto
  next
    case 2
    from 2(4) world_onlyD [OF w(1)] world_onlyD [OF w(2)] obtain x where "rs' = set_world x (take_back p r v rs)" by blast
    with 2(1-3) show ?thesis by (rule taken)
  qed
qed

section \<open>The two tables agree\<close>

text \<open>
  The abstract state of the CPU resources: which virtual node, if any, each physical node is lent to. The realms keep
  the inverse.
\<close>

definition lent_to :: "'w ResourceServer \<Rightarrow> nat \<rightharpoonup> nat \<times> nat" where
  "lent_to rs p = (if p < length (rs_physical_nodes rs) then rs_physical_nodes rs ! p else None)"

definition node_of :: "'w ResourceServer \<Rightarrow> nat \<Rightarrow> nat \<Rightarrow> nat option" where
  "node_of rs r v = Option.bind (virtual_node r v rs) (\<lambda>(_, vn). vn_physical_node vn)"

definition nodes_ok :: "'w ResourceServer \<Rightarrow> bool" where
  "nodes_ok rs \<longleftrightarrow> (\<forall>p r v. lent_to rs p = Some (r, v) \<longleftrightarrow> node_of rs r v = Some p)"

lemma set_world_nodes [simp]: "lent_to (set_world w rs) = lent_to rs" "node_of (set_world w rs) = node_of rs" "nodes_ok (set_world w rs) = nodes_ok rs"
  by (simp_all add: lent_to_def node_of_def nodes_ok_def fun_eq_iff)

lemma set_physical_node_simps [simp]:
  "rs_physical_nodes (set_physical_node r v x rs) = rs_physical_nodes rs"
  "rs_realizer (set_physical_node r v x rs) = rs_realizer rs" "rs_partial_specs (set_physical_node r v x rs) = rs_partial_specs rs"
  "rs_partial_realms (set_physical_node r v x rs) = rs_partial_realms rs" "rs_node_local (set_physical_node r v x rs) = rs_node_local rs"
  by (simp_all add: set_physical_node_def split: option.splits)

lemma node_of_set:
  "node_of (set_physical_node r v x rs) r' v' = (if r' = r \<and> v' = v \<and> virtual_node r v rs \<noteq> None then x else node_of rs r' v')"
  by (auto simp: node_of_def set_physical_node_def virtual_node_def vec_get_def nth_list_update bind_eq_None_conv
      split: option.splits if_splits bind_splits)

lemma lend_nodes:
  assumes "p < length (rs_physical_nodes rs)" "virtual_node r v rs = Some x"
  shows "lent_to (lend p r v rs) = (lent_to rs)(p \<mapsto> (r, v))"
    "node_of (lend p r v rs) r' v' = (if r' = r \<and> v' = v then Some p else node_of rs r' v')"
  using assms by (auto simp: lend_def lent_to_def node_of_set fun_eq_iff) (simp_all add: node_of_def)

lemma take_back_nodes:
  assumes "virtual_node r v rs = Some x"
  shows "lent_to (take_back p r v rs) = (lent_to rs)(p := None)"
    "node_of (take_back p r v rs) r' v' = (if r' = r \<and> v' = v then None else node_of rs r' v')"
  using assms by (auto simp: take_back_def lent_to_def node_of_set fun_eq_iff nth_list_update) (simp_all add: node_of_def)

lemma lend_ok:
  assumes "nodes_ok rs" "p < length (rs_physical_nodes rs)" "rs_physical_nodes rs ! p = None" "virtual_node r v rs = Some (realm, vn)"
    "vn_physical_node vn = None"
  shows "nodes_ok (lend p r v rs)"
proof -
  have "node_of rs r v = None" "lent_to rs p = None" using assms by (simp_all add: node_of_def lent_to_def)
  moreover have "node_of rs r' v' \<noteq> Some p" for r' v' using assms(1) \<open>lent_to rs p = None\<close> by (metis nodes_ok_def option.distinct(1))
  ultimately show ?thesis using assms(1) unfolding nodes_ok_def lend_nodes [OF assms(2,4)] by simp
qed

lemma take_back_ok:
  assumes "nodes_ok rs" "p < length (rs_physical_nodes rs)" "rs_physical_nodes rs ! p = Some (r, v)" "virtual_node r v rs = Some x"
  shows "nodes_ok (take_back p r v rs)"
proof -
  have "lent_to rs p = Some (r, v)" using assms by (simp add: lent_to_def)
  note l = this
  have n1: "node_of rs r v = Some p" using l assms(1) by (simp add: nodes_ok_def)
  have n2: "r' = r \<and> v' = v" if "node_of rs r' v' = Some p" for r' v'
  proof -
    from that assms(1) have "lent_to rs p = Some (r', v')" by (simp add: nodes_ok_def)
    with l show "r' = r \<and> v' = v" by simp
  qed
  have "(((lent_to rs)(p := None)) p' = Some (r', v')) = ((if r' = r \<and> v' = v then None else node_of rs r' v') = Some p')" for p' r' v'
  proof (cases "p' = p")
    case True
    then show ?thesis using n2 [of r' v'] by auto
  next
    case False
    have "lent_to rs p' = Some (r', v') \<longleftrightarrow> node_of rs r' v' = Some p'" using assms(1) by (simp add: nodes_ok_def)
    then show ?thesis using n1 False by auto
  qed
  then show ?thesis unfolding nodes_ok_def take_back_nodes [OF assms(4)] by blast
qed

lemma yield_to_nodes_ok: "yield_to E p r v t rs = Some (res, rs') \<Longrightarrow> nodes_ok rs \<Longrightarrow> nodes_ok rs'"
  by (erule yield_to_effect) (auto intro: lend_ok)

lemma take_back_nodes_ok: "host_event E p rs = Some (res, rs') \<or> timeout E p rs = Some (res, rs') \<Longrightarrow> nodes_ok rs \<Longrightarrow> nodes_ok rs'"
  by (erule take_back_effect) (auto intro: take_back_ok)

section \<open>Blocks of the realms\<close>

definition blocks_of :: "('a \<Rightarrow> UntypedId list) \<Rightarrow> (nat \<rightharpoonup> 'a) \<Rightarrow> UntypedId multiset" where
  "blocks_of f m = (\<Sum>r\<in>dom m. mset (f (the (m r))))"

lemma blocks_of_empty [simp]: "blocks_of f Map.empty = {#}"
  by (simp add: blocks_of_def)

lemma blocks_of_insert [simp]:
  assumes "finite (dom m)" "m r = None"
  shows "blocks_of f (m(r \<mapsto> x)) = blocks_of f m + mset (f x)"
proof -
  have "r \<notin> dom m" using assms(2) by auto
  then have "(\<Sum>s\<in>dom m. mset (f (the ((m(r \<mapsto> x)) s)))) = blocks_of f m" unfolding blocks_of_def by (intro sum.cong) auto
  with assms \<open>r \<notin> dom m\<close> show ?thesis by (simp add: blocks_of_def add.commute)
qed

lemma blocks_of_remove:
  assumes "finite (dom m)" "m r = Some x"
  shows "blocks_of f m = blocks_of f (m(r := None)) + mset (f x)"
proof -
  have "blocks_of f ((m(r := None))(r \<mapsto> x)) = blocks_of f (m(r := None)) + mset (f x)" using assms by (intro blocks_of_insert) auto
  moreover have "(m(r := None))(r \<mapsto> x) = m" using assms(2) by auto
  ultimately show ?thesis by simp
qed

abbreviation partial_ids :: "PartialSubsystem \<Rightarrow> UntypedId list" where
  "partial_ids ps \<equiv> ps_cnode_untyped_id ps # ps_local_object_untyped_ids ps"

abbreviation subsystem_ids :: "Subsystem \<Rightarrow> UntypedId list" where
  "subsystem_ids s \<equiv> ss_cnode_untyped_id s # ss_object_untyped_ids s"

definition subsystems :: "'w ResourceServer \<Rightarrow> nat \<rightharpoonup> Subsystem" where
  "subsystems rs r = map_option rm_subsystem (rs_realms rs r)"

definition rs_blocks :: "'w ResourceServer \<Rightarrow> UntypedId multiset" where
  "rs_blocks rs = blocks_of partial_ids (rs_partial_realms rs) + blocks_of subsystem_ids (subsystems rs)"

abbreviation rs_alloc :: "'w ResourceServer \<Rightarrow> 'w Allocator" where
  "rs_alloc rs \<equiv> rz_allocator (rs_realizer rs)"

text \<open>
  The invariant: the tables agree, an identifier is in one stage of its life, and the allocator's live blocks are those
  that were live at the start and those of the realms.
\<close>

definition rs_inv :: "UntypedId multiset \<Rightarrow> 'w ResourceServer \<Rightarrow> bool" where
  "rs_inv base rs \<longleftrightarrow> nodes_ok rs \<and> finite (dom (rs_partial_realms rs)) \<and> finite (dom (rs_realms rs)) \<and>
     dom (rs_partial_specs rs) \<inter> dom (rs_partial_realms rs) = {} \<and> dom (rs_partial_specs rs) \<inter> dom (rs_realms rs) = {} \<and>
     dom (rs_partial_realms rs) \<inter> dom (rs_realms rs) = {} \<and>
     alloc_ok (rs_alloc rs) \<and> al_used (rs_alloc rs) = base + rs_blocks rs"

lemma rs_inv_set_world [simp]: "rs_inv base (set_world w rs) = rs_inv base rs"
  by (simp add: rs_inv_def rs_blocks_def subsystems_def [abs_def])

section \<open>Every request keeps the invariant\<close>

lemma blocks_of_cong_lend [simp]:
  "subsystems (set_physical_node r v x rs) = subsystems rs" "dom (rs_realms (set_physical_node r v x rs)) = dom (rs_realms rs)"
  by (auto simp: set_physical_node_def subsystems_def fun_eq_iff virtual_node_Some split: option.splits)

lemma rs_inv_nodes:
  assumes "rs_inv base rs" "nodes_ok rs'" "rs_realizer rs' = rs_realizer rs" "rs_partial_specs rs' = rs_partial_specs rs"
    "rs_partial_realms rs' = rs_partial_realms rs" "subsystems rs' = subsystems rs" "dom (rs_realms rs') = dom (rs_realms rs)"
  shows "rs_inv base rs'"
  using assms by (simp add: rs_inv_def rs_blocks_def)

lemma subsystems_physical [simp]: "subsystems (rs\<lparr>rs_physical_nodes := pn\<rparr>) = subsystems rs"
  by (simp add: subsystems_def fun_eq_iff)

lemma lend_inv: "rs_inv base rs \<Longrightarrow> nodes_ok (lend p r v rs) \<Longrightarrow> rs_inv base (lend p r v rs)"
  by (erule rs_inv_nodes) (simp_all add: lend_def)

lemma take_back_inv: "rs_inv base rs \<Longrightarrow> nodes_ok (take_back p r v rs) \<Longrightarrow> rs_inv base (take_back p r v rs)"
  by (erule rs_inv_nodes) (simp_all add: take_back_def)

lemma yield_to_inv: "yield_to E p r v t rs = Some (res, rs') \<Longrightarrow> rs_inv base rs \<Longrightarrow> rs_inv base rs'"
  by (erule yield_to_effect) (auto intro!: lend_inv intro: lend_ok simp: rs_inv_def [of base rs])

lemma take_back_event_inv: "host_event E p rs = Some (res, rs') \<or> timeout E p rs = Some (res, rs') \<Longrightarrow> rs_inv base rs \<Longrightarrow> rs_inv base rs'"
  by (erule take_back_effect) (auto intro!: take_back_inv intro: take_back_ok simp: rs_inv_def [of base rs])

lemma nodes_ok_cong: "rs_physical_nodes rs' = rs_physical_nodes rs \<Longrightarrow> rs_realms rs' = rs_realms rs \<Longrightarrow> nodes_ok rs' = nodes_ok rs"
  by (simp add: nodes_ok_def lent_to_def node_of_def virtual_node_def)

lemma specs_inv:
  assumes "rs_inv base rs" "\<And>r. m r \<noteq> None \<Longrightarrow> rs_partial_realms rs r = None \<and> rs_realms rs r = None"
  shows "rs_inv base (rs\<lparr>rs_partial_specs := m\<rparr>)"
proof -
  have "dom m \<inter> dom (rs_partial_realms rs) = {}" "dom m \<inter> dom (rs_realms rs) = {}" using assms(2) by (auto simp: dom_def)
  moreover have "subsystems (rs\<lparr>rs_partial_specs := m\<rparr>) = subsystems rs" by (simp add: subsystems_def fun_eq_iff)
  ultimately show ?thesis using assms(1) nodes_ok_cong [of "rs\<lparr>rs_partial_specs := m\<rparr>" rs] by (simp add: rs_inv_def rs_blocks_def)
qed

lemma specs_disjoint: "rs_inv base rs \<Longrightarrow> rs_partial_specs rs r = Some x \<Longrightarrow> rs_partial_realms rs r = None \<and> rs_realms rs r = None"
  by (force simp: rs_inv_def dom_def)

lemma declare_inv:
  "rs_declare r n rs = Some (res, rs') \<Longrightarrow> rs_partial_realms rs r = None \<Longrightarrow> rs_inv base rs \<Longrightarrow> rs_inv base rs'"
  by (auto simp: rs_declare_def bind_eq_Some_conv intro!: specs_inv dest: specs_disjoint split: if_splits)

lemma chunk_inv: "incorporate_spec_chunk r n c rs = Some (res, rs') \<Longrightarrow> rs_inv base rs \<Longrightarrow> rs_inv base rs'"
  by (auto simp: incorporate_spec_chunk_def bind_eq_Some_conv intro!: specs_inv dest: specs_disjoint split: if_splits)

lemma chunk_realizer: "incorporate_spec_chunk r n c rs = Some (res, rs') \<Longrightarrow> rs_realizer rs' = rs_realizer rs"
  by (auto simp: incorporate_spec_chunk_def bind_eq_Some_conv)

lemma on_realizer_Some: "on_realizer f rs = Some (res, rs') \<longleftrightarrow> (\<exists>rz. f (rs_realizer rs) = Some (res, rz) \<and> rs' = rs\<lparr>rs_realizer := rz\<rparr>)"
  by (auto simp: on_realizer_def split: option.splits)

lemma continue_inv:
  assumes "rs_realize_continue E r i j c rs = Some (res, rs')" "rs_inv base rs"
  shows "rs_inv base rs'"
proof -
  from assms(1) obtain ps rz where r: "realize_continue (re_kernel E) ps i j c (rs_realizer rs) = Some (res, rz)" "rs' = rs\<lparr>rs_realizer := rz\<rparr>"
    by (auto simp: rs_realize_continue_def bind_eq_Some_conv on_realizer_Some)
  from realize_continue_keeps [OF r(1)] r(2) obtain w where "rs' = set_world w rs" by (auto simp: set_world_def)
  with assms(2) show ?thesis by simp
qed

lemma fill_chunks_keeps:
  assumes "fill_chunks E r bs rs = Some (res, rs')" "P rs"
    and step: "\<And>i j c rs res rs'. rs_realize_continue E r i j c rs = Some (res, rs') \<Longrightarrow> P rs \<Longrightarrow> P rs'"
  shows "P rs'"
  using assms
proof (induction E r bs rs rule: fill_chunks.induct)
  case (1 E r bs rs)
  show ?case
  proof (cases "bs = []")
    case True
    with "1.prems" show ?thesis by (simp add: fill_chunks.simps)
  next
    case False
    with "1.prems"(1) obtain h rest where h: "re_header E bs = Some (h, rest)" "fh_size h \<le> length rest" and
      t: "try_method (rs_realize_continue E r (fh_object_index h) (fh_fill_entry_index h) (take (fh_size h) rest) rs)
        (\<lambda>_ rs. if length (drop (fh_size h) rest) < length bs then fill_chunks E r (drop (fh_size h) rest) rs else None) = Some (res, rs')"
      by (subst (asm) fill_chunks.simps) (auto simp: bind_eq_Some_conv Let_def)
    from t consider e where "rs_realize_continue E r (fh_object_index h) (fh_fill_entry_index h) (take (fh_size h) rest) rs = Some (Inl e, rs')"
      | rs1 where "rs_realize_continue E r (fh_object_index h) (fh_fill_entry_index h) (take (fh_size h) rest) rs = Some (Inr (), rs1)"
        "length (drop (fh_size h) rest) < length bs" "fill_chunks E r (drop (fh_size h) rest) rs1 = Some (res, rs')"
      by (auto simp: try_method_result split: if_splits)
    then show ?thesis
    proof cases
      case 1
      with "1.prems"(2,3) show ?thesis by blast
    next
      case (2 rs1)
      from "1.prems"(3) [OF 2(1) "1.prems"(2)] have i: "P rs1" .
      show ?thesis by (rule "1.IH" [OF False h(1) refl _ refl 2(2) 2(3) i]) (use "1.prems"(3) in \<open>simp_all add: h(2) rust_assert_def\<close>)
    qed
  qed
qed

lemma fill_chunks_inv:
  assumes "fill_chunks E r bs rs = Some (res, rs')" "rs_inv base rs"
  shows "rs_inv base rs'"
  using assms continue_inv by (rule fill_chunks_keeps [where P = "rs_inv base"])

lemma hack_run_world: "hack_run E r rs = Some (res, rs') \<Longrightarrow> \<exists>w. rs' = set_world w rs"
proof -
  assume a: "hack_run E r rs = Some (res, rs')"
  then obtain realm :: Realm where "try_for_each (enumerate 0 (rm_virtual_nodes realm)) (\<lambda>(i, vn). try_for_each (vn_tcbs vn) (\<lambda>tcb. schedule E tcb (Some i))) rs = Some (res, rs')"
    by (auto simp: hack_run_def bind_eq_Some_conv)
  moreover have "world_only (try_for_each (enumerate 0 (rm_virtual_nodes realm)) (\<lambda>(i, vn). try_for_each (vn_tcbs vn) (\<lambda>tcb. schedule E tcb (Some i))))"
    by (rule world_only_for) (simp add: case_prod_beta world_only_intros)
  ultimately show ?thesis by (auto dest: world_onlyD)
qed

lemma start_inv:
  assumes "rs_realize_start E r rs = Some (Inr (), rs')" "rs_inv base rs"
  shows "rs_inv base rs'" "held a (rs_alloc rs') = held a (rs_alloc rs)"
proof -
  from assms(1) obtain raw m ps rz where p: "rs_partial_specs rs r = Some raw"
    and s: "realize_start (re_kernel E) m (rs_realizer rs) = Some (Inr ps, rz)"
    and rs': "rs' = rs\<lparr>rs_partial_specs := (rs_partial_specs rs)(r := None), rs_realizer := rz, rs_partial_realms := (rs_partial_realms rs)(r \<mapsto> ps)\<rparr>"
    by (auto simp: rs_realize_start_def bind_eq_Some_conv try_method_ok on_realizer_Some)
  have i: "alloc_ok (rs_alloc rs)" "al_used (rs_alloc rs) = base + rs_blocks rs" "finite (dom (rs_partial_realms rs))" using assms(2) by (auto simp: rs_inv_def)
  note e = realize_start_effect(1,2) [OF s i(1)] and c = realize_start_effect(3) [OF s i(1)]
  have n: "rs_partial_realms rs r = None" "rs_realms rs r = None" using specs_disjoint [OF assms(2) p] by auto
  have "subsystems rs' = subsystems rs" by (simp add: subsystems_def rs' fun_eq_iff)
  moreover have "nodes_ok rs' = nodes_ok rs" by (rule nodes_ok_cong) (simp_all add: rs')
  ultimately show "rs_inv base rs'" using assms(2) e n i(3) by (auto simp: rs_inv_def rs_blocks_def rs' ac_simps)
  show "held a (rs_alloc rs') = held a (rs_alloc rs)" using c [of a] e(2) by (simp add: held_def rs')
qed

lemma finish_inv:
  assumes "rs_realize_finish E n r rs = Some (Inr (), rs')" "rs_inv base rs"
  shows "rs_inv base rs'" "held a (rs_alloc rs') = held a (rs_alloc rs)"
proof -
  from assms(1) obtain ps s rz rs1 rs2 where p: "rs_partial_realms rs r = Some ps"
    and f: "realize_finish (re_kernel E) ps (rs_realizer rs) = Some (Inr s, rz)"
    and l: "try_for_each (ss_virtual_cores s) (\<lambda>core. try_for_each core (start_tcb E))
        (rs\<lparr>rs_partial_realms := (rs_partial_realms rs)(r := None), rs_realizer := rz\<rparr>) = Some (Inr (), rs1)"
    and c: "event_call E n (RS_CreateRealm r 1) (rs1\<lparr>rs_realms := (rs_realms rs1)(r \<mapsto>
        \<lparr>rm_virtual_nodes = map (\<lambda>core. \<lparr>vn_tcbs = map vt_cap core, vn_physical_node = None\<rparr>) (ss_virtual_cores s), rm_subsystem = s\<rparr>)\<rparr>) = Some (Inr (), rs')"
    by (auto simp: rs_realize_finish_def bind_eq_Some_conv try_method_ok on_realizer_Some Let_def)
  have "world_only (try_for_each (ss_virtual_cores s) (\<lambda>core. try_for_each core (start_tcb E)))" by (simp add: world_only_intros)
  from world_onlyD [OF this l] obtain w where
    rs1: "rs1 = set_world w (rs\<lparr>rs_partial_realms := (rs_partial_realms rs)(r := None), rs_realizer := rz\<rparr>)" by blast
  from world_onlyD [OF world_only_event_call c] obtain w' where rs': "rs' = set_world w' (rs1\<lparr>rs_realms := (rs_realms rs1)(r \<mapsto>
        \<lparr>rm_virtual_nodes = map (\<lambda>core. \<lparr>vn_tcbs = map vt_cap core, vn_physical_node = None\<rparr>) (ss_virtual_cores s), rm_subsystem = s\<rparr>)\<rparr>)" by blast
  note i = assms(2) [unfolded rs_inv_def]
  have n: "rs_realms rs r = None" "rs_partial_specs rs r = None" using i p by (force simp: dom_def)+
  note fe = realize_finish_effect(1,2) [OF f]
  from realize_finish_effect(4) [OF f] obtain x where x: "rz_allocator rz = (rs_alloc rs)\<lparr>al_world := x\<rparr>" by blast
  have al: "alloc_ok (rs_alloc rs') = alloc_ok (rs_alloc rs)" "al_used (rs_alloc rs') = al_used (rs_alloc rs)" "al_free (rs_alloc rs') = al_free (rs_alloc rs)"
    by (simp_all add: rs' rs1 x)
  have sub: "subsystems rs' = (subsystems rs)(r \<mapsto> s)" "subsystems rs r = None" "finite (dom (subsystems rs))"
    using i n by (auto simp: subsystems_def rs' rs1 fun_eq_iff dom_def)
  have b: "rs_blocks rs' = rs_blocks rs"
    using sub i p fe blocks_of_remove [of "rs_partial_realms rs" r ps partial_ids] by (simp add: rs_blocks_def rs' rs1)
  have nodes: "node_of rs' r' v' = node_of rs r' v'" "lent_to rs' = lent_to rs" for r' v'
    using n by (auto simp: node_of_def virtual_node_def vec_get_def rs' rs1 lent_to_def fun_eq_iff)
  then have "nodes_ok rs'" using i by (simp add: nodes_ok_def)
  with i al b n p show "rs_inv base rs'" by (auto simp: rs_inv_def rs' rs1)
  show "held a (rs_alloc rs') = held a (rs_alloc rs)" by (simp add: held_def al)
qed

lemma world_only_assert [world_only_intros]: "world_only f \<Longrightarrow> world_only (\<lambda>rs. Option.bind (rust_assert b) (\<lambda>_. f rs))"
  by (cases b) (simp_all add: world_only_def rust_assert_def)

lemma try_for_each_asserts:
  "try_for_each xs (\<lambda>x rs. Option.bind (rust_assert (P x)) (\<lambda>_. g rs)) rs = Some (Inr (), rs') \<Longrightarrow> x \<in> set xs \<Longrightarrow> P x"
  by (induction xs arbitrary: rs) (auto simp: try_method_ok bind_eq_Some_conv)

lemma destroy_inv:
  assumes "rs_destroy E n r rs = Some (Inr (), rs')" "rs_inv base rs"
  shows "rs_inv base rs'" "held a (rs_alloc rs') = held a (rs_alloc rs)"
proof -
  have "rs_inv base rs' \<and> held a (rs_alloc rs') = held a (rs_alloc rs)"
  proof (cases "rs_realms rs r")
    case None
    with assms show ?thesis by (simp add: rs_destroy_def)
  next
    case (Some realm)
    define g where
      "g = try_for_each (rm_virtual_nodes realm) (\<lambda>vn. try_for_each (vn_tcbs vn) (\<lambda>tcb. schedule E tcb None))"
    from assms(1) Some obtain rs1 rz where
      l: "try_for_each (rm_virtual_nodes realm) (\<lambda>vn rs. Option.bind (rust_assert (vn_physical_node vn = None)) (\<lambda>_. g rs))
        (rs\<lparr>rs_realms := (rs_realms rs)(r := None)\<rparr>) = Some (Inr (), rs1)"
      and d: "rz_destroy (re_kernel E) (rm_subsystem realm) (rs_realizer rs1) = Some (Inr (), rz)"
      and c: "event_call E n (RS_DestroyRealm r) (rs1\<lparr>rs_realizer := rz\<rparr>) = Some (Inr (), rs')"
      unfolding g_def by (auto simp: rs_destroy_def try_method_ok on_realizer_Some Let_def)
    have "world_only g" by (simp add: g_def world_only_intros)
    then have "world_only (try_for_each (rm_virtual_nodes realm) (\<lambda>vn rs. Option.bind (rust_assert (vn_physical_node vn = None)) (\<lambda>_. g rs)))"
      by (simp add: world_only_intros)
    from world_onlyD [OF this l] obtain w where rs1: "rs1 = set_world w (rs\<lparr>rs_realms := (rs_realms rs)(r := None)\<rparr>)" by blast
    from world_onlyD [OF world_only_event_call c] obtain w' where rs': "rs' = set_world w' (rs1\<lparr>rs_realizer := rz\<rparr>)" by blast
    note i = assms(2) [unfolded rs_inv_def]
    have ok: "alloc_ok (rz_allocator (rs_realizer rs1))" using i by (simp add: rs1)
    note e = destroy_effect(1,2) [OF d ok] and ec = destroy_effect(3) [OF d ok, of a]
    have sub: "subsystems rs' = (subsystems rs)(r := None)" "subsystems rs r = Some (rm_subsystem realm)" "finite (dom (subsystems rs))"
      using i Some by (auto simp: subsystems_def rs' rs1 fun_eq_iff dom_def)
    have b: "rs_blocks rs = rs_blocks rs' + mset (subsystem_ids (rm_subsystem realm))"
      using blocks_of_remove [OF sub(3,2), of subsystem_ids] by (simp add: rs_blocks_def sub(1)) (simp add: rs' rs1)
    have "vn_physical_node vn = None" if "vn \<in> set (rm_virtual_nodes realm)" for vn by (rule try_for_each_asserts [OF l that])
    then have no: "node_of rs r v = None" for v using Some by (auto simp: node_of_def virtual_node_def vec_get_def)
    have "node_of rs' r' v' = node_of rs r' v'" for r' v'
    proof (cases "r' = r")
      case True
      then show ?thesis using no by (simp add: rs' rs1) (simp add: node_of_def virtual_node_def)
    qed (simp add: rs' rs1 node_of_def virtual_node_def)
    moreover have "lent_to rs' = lent_to rs" by (simp add: rs' rs1 lent_to_def fun_eq_iff)
    ultimately have "nodes_ok rs'" using i by (simp add: nodes_ok_def)
    moreover have "al_used (rs_alloc rs') = base + rs_blocks rs'" using e(2) i b by (simp add: rs' rs1)
    moreover have "rs_partial_realms rs' = rs_partial_realms rs" "rs_partial_specs rs' = rs_partial_specs rs" "rs_realms rs' = (rs_realms rs)(r := None)"
      "alloc_ok (rs_alloc rs')" using e(1) by (simp_all add: rs' rs1)
    ultimately have "rs_inv base rs'" using i by (auto simp: rs_inv_def)
    moreover have "held a (rs_alloc rs') = held a (rs_alloc rs)" using ec e(2) by (simp add: held_def rs' rs1)
    ultimately show ?thesis by simp
  qed
  then show "rs_inv base rs'" "held a (rs_alloc rs') = held a (rs_alloc rs)" by auto
qed

section \<open>Runs\<close>

text \<open>
  A run of the server from its start, over the requests it completes: an error ends the thread that received the request,
  and a panic the server. The host follows its protocol in one point: it declares no realm that has been started and not
  finished.
\<close>

inductive rs_reach :: "('w, 'e) rs_env \<Rightarrow> (u64 list \<Rightarrow> Request option) \<Rightarrow> 'w ResourceServer \<Rightarrow> 'w ResourceServer \<Rightarrow> bool"
  for E recv rs0 where
  reach_start: "rs_reach E recv rs0 rs0"
| reach_handle: "rs_reach E recv rs0 rs \<Longrightarrow> rs_handle E recv n badge ws rs = Some (Inr (), rs') \<Longrightarrow>
    (\<And>r k. badge = BADGE_HOST_CONTROL \<Longrightarrow> recv ws = Some (Declare r k) \<Longrightarrow> rs_partial_realms rs r = None) \<Longrightarrow> rs_reach E recv rs0 rs'"

text \<open>The methods that only change the tables keep the allocator's blocks.\<close>

lemma yield_to_alloc: "yield_to E p r v t rs = Some (res, rs') \<Longrightarrow> \<exists>w. rs_alloc rs' = (rs_alloc rs)\<lparr>al_world := w\<rparr>"
  by (erule yield_to_effect) (auto simp: lend_def)

lemma take_back_alloc: "host_event E p rs = Some (res, rs') \<or> timeout E p rs = Some (res, rs') \<Longrightarrow> \<exists>w. rs_alloc rs' = (rs_alloc rs)\<lparr>al_world := w\<rparr>"
  by (erule take_back_effect) (auto simp: take_back_def intro: exI [of _ "al_world (rs_alloc rs)"])

lemma continue_alloc: "rs_realize_continue E r i j c rs = Some (res, rs') \<Longrightarrow> \<exists>w. rs_alloc rs' = (rs_alloc rs)\<lparr>al_world := w\<rparr>"
  by (auto simp: rs_realize_continue_def bind_eq_Some_conv on_realizer_Some dest!: realize_continue_keeps)

lemma held_world [simp]: "held a (al\<lparr>al_world := w\<rparr>) = held a al"
  by (simp add: held_def)

lemma fill_chunks_held:
  assumes "fill_chunks E r bs rs = Some (res, rs')"
  shows "held a (rs_alloc rs') = held a (rs_alloc rs)"
  using assms refl by (rule fill_chunks_keeps [where P = "\<lambda>x. held a (rs_alloc x) = held a (rs_alloc rs)"]) (auto dest!: continue_alloc)

lemma request_step:
  assumes r: "handle_request E n req rs = Some (Inr (), rs')" and i: "rs_inv base rs"
    and d: "\<And>r k. req = Declare r k \<Longrightarrow> rs_partial_realms rs r = None"
  shows "rs_inv base rs' \<and> held a (rs_alloc rs') = held a (rs_alloc rs)"
proof (cases req)
  case (Declare x k)
  with r d [OF Declare] i show ?thesis by (auto simp: handle_request_def dest: declare_inv) (auto simp: rs_declare_def bind_eq_Some_conv split: if_splits)
next
  case (SpecChunk x off sz ofs)
  with r i chunk_realizer show ?thesis by (fastforce simp: handle_request_def bind_eq_Some_conv dest: chunk_inv)
next
  case (FillChunks x off sz)
  with r obtain c where "fill_chunks E x c rs = Some (Inr (), rs')" by (auto simp: handle_request_def bind_eq_Some_conv)
  with i show ?thesis using fill_chunks_inv fill_chunks_held by blast
next
  case (RealizeStart x)
  with r i show ?thesis using start_inv by (simp add: handle_request_def) blast
next
  case (RealizeFinish x)
  with r i show ?thesis using finish_inv by (simp add: handle_request_def) blast
next
  case (Destroy x)
  with r i show ?thesis using destroy_inv by (simp add: handle_request_def) blast
next
  case (HackRun x)
  with r have "hack_run E x rs = Some (Inr (), rs')" by (simp add: handle_request_def)
  from hack_run_world [OF this] i show ?thesis by auto
qed

lemma handle_step:
  assumes r: "rs_handle E recv n badge ws rs = Some (Inr (), rs')" and i: "rs_inv base rs"
    and d: "\<And>r k. badge = BADGE_HOST_CONTROL \<Longrightarrow> recv ws = Some (Declare r k) \<Longrightarrow> rs_partial_realms rs r = None"
  shows "rs_inv base rs' \<and> held a (rs_alloc rs') = held a (rs_alloc rs)"
proof -
  from r consider req where "badge = BADGE_HOST_CONTROL" "recv ws = Some req" "handle_request E n req rs = Some (Inr (), rs')"
    | p x v t where "yield_to E p x v t rs = Some (Inr (), rs')"
    | "host_event E n rs = Some (Inr (), rs') \<or> timeout E n rs = Some (Inr (), rs')"
    by (auto simp: rs_handle_def bind_eq_Some_conv split: if_splits)
  then show ?thesis
  proof cases
    case 1
    with d show ?thesis by (intro request_step [OF 1(3) i]) auto
  next
    case 2
    from yield_to_inv [OF 2 i] yield_to_alloc [OF 2] show ?thesis by auto
  next
    case 3
    from take_back_event_inv [OF 3 i] take_back_alloc [OF 3] show ?thesis by auto
  qed
qed

lemma rs_reach_inv: "rs_reach E recv rs0 rs \<Longrightarrow> rs_inv base rs0 \<Longrightarrow> rs_inv base rs \<and> held a (rs_alloc rs) = held a (rs_alloc rs0)"
proof (induction rule: rs_reach.induct)
  case (reach_handle rs n badge ws rs')
  then have IH: "rs_inv base rs" "held a (rs_alloc rs) = held a (rs_alloc rs0)" by auto
  from handle_step [OF reach_handle.hyps(2) IH(1) reach_handle.hyps(3)] IH(2) show ?case by simp
qed simp

lemma new_inv: "alloc_ok (rz_allocator rz) \<Longrightarrow> rs_inv (al_used (rz_allocator rz)) (ResourceServer_new E rz c ls)"
  by (auto simp: rs_inv_def ResourceServer_new_def nodes_ok_def lent_to_def node_of_def virtual_node_def rs_blocks_def subsystems_def [abs_def])

end
