(* ===== verification/ResourceServerRun.thy ===== *)
theory ResourceServerRun
  imports ResourceServerProps "HOL-Library.Disjoint_Sets"
begin

text \<open>
  The properties of the resource server: the invariant over its runs, the lending of physical nodes against an abstract
  specification, and the points where the code does not do what it means to.
\<close>

section \<open>Events return\<close>

text \<open>What the server relies on in an event: the kernel accepts \<^verbatim>\<open>set_affinity\<close> and the timer server a \<^verbatim>\<open>Stop\<close>.\<close>

definition accepts_parking :: "('w, 'e) rs_env \<Rightarrow> bool" where
  "accepts_parking E \<longleftrightarrow> (\<forall>w tcb n. fst (rk_invoke (re_kernel E) w (Inv_set_affinity tcb n)) = Inr ()) \<and>
     (\<forall>w p. fst (re_timer_call E w p (Timer_Stop 0)) = Inr ())"

lemma schedule_accepted: "accepts_parking E \<Longrightarrow> \<exists>w. schedule E tcb n rs = Some (Inr (), set_world w rs)"
  by (auto simp: schedule_def rs_invoke_def accepts_parking_def case_prod_beta Let_def)

lemma schedule_all_accepted: "accepts_parking E \<Longrightarrow> \<exists>w. try_for_each tcbs (\<lambda>tcb. schedule E tcb n) rs = Some (Inr (), set_world w rs)"
proof (induction tcbs arbitrary: rs)
  case Nil
  show ?case by (auto intro: exI [of _ "rs_world rs"] simp: set_world_id)
next
  case (Cons tcb tcbs)
  from schedule_accepted [OF Cons.prems] obtain w where "schedule E tcb n rs = Some (Inr (), set_world w rs)" by blast
  with Cons.IH [OF Cons.prems, of "set_world w rs"] show ?case by auto
qed

lemma park_returns:
  assumes E: "accepts_parking E" and p: "p < length (rs_node_local rs)" and c: "c \<in> {RH_HostEvent, RH_Timeout}"
  shows "\<exists>w. try_method (try_for_each tcbs (\<lambda>tcb. schedule E tcb None) rs) (\<lambda>_ rs.
      try_method (cancel_notify_host_event E p rs) (\<lambda>_ rs. resume_host E p c rs)) = Some (Inr (), set_world w rs)"
    "\<exists>w. try_method (try_for_each tcbs (\<lambda>tcb. schedule E tcb None) rs) (\<lambda>_ rs.
      try_method (cancel_notify_host_event E p rs) (\<lambda>_ rs.
      try_method (cancel_timeout E p rs) (\<lambda>_ rs. resume_host E p c rs))) = Some (Inr (), set_world w rs)"
proof -
  from schedule_all_accepted [OF E] obtain w where w: "try_for_each tcbs (\<lambda>tcb. schedule E tcb None) rs = Some (Inr (), set_world w rs)" by blast
  have t: "fst (re_timer_call E w p (Timer_Stop 0)) = Inr ()" for w p using E by (simp add: accepts_parking_def)
  show "\<exists>w. try_method (try_for_each tcbs (\<lambda>tcb. schedule E tcb None) rs) (\<lambda>_ rs.
      try_method (cancel_notify_host_event E p rs) (\<lambda>_ rs. resume_host E p c rs)) = Some (Inr (), set_world w rs)"
    using p c by (auto simp: w cancel_notify_host_event_def event_call_def resume_host_def ResumeHostCondition_send_def)
  show "\<exists>w. try_method (try_for_each tcbs (\<lambda>tcb. schedule E tcb None) rs) (\<lambda>_ rs.
      try_method (cancel_notify_host_event E p rs) (\<lambda>_ rs.
      try_method (cancel_timeout E p rs) (\<lambda>_ rs. resume_host E p c rs))) = Some (Inr (), set_world w rs)"
    using p c t by (auto simp: w cancel_notify_host_event_def event_call_def cancel_timeout_def timer_call_def case_prod_beta resume_host_def
      ResumeHostCondition_send_def Let_def split: sum.splits)
qed

lemma events_return:
  assumes ok: "nodes_ok rs" and E: "accepts_parking E" and p: "p < length (rs_physical_nodes rs)" "p < length (rs_node_local rs)"
  shows "\<exists>rs'. host_event E p rs = Some (Inr (), rs')" "\<exists>rs'. timeout E p rs = Some (Inr (), rs')"
proof -
  have "(\<exists>rs'. host_event E p rs = Some (Inr (), rs')) \<and> (\<exists>rs'. timeout E p rs = Some (Inr (), rs'))"
  proof (cases "rs_physical_nodes rs ! p")
    case None
    with p(1) show ?thesis by (simp add: host_event_def timeout_def)
  next
    case (Some x)
    obtain r v where x: "x = (r, v)" by (cases x)
    with Some p(1) have "lent_to rs p = Some (r, v)" by (simp add: lent_to_def)
    with ok have "node_of rs r v = Some p" by (simp add: nodes_ok_def)
    then obtain realm vn where vn: "virtual_node r v rs = Some (realm, vn)" by (auto simp: node_of_def bind_eq_Some_conv)
    let ?rs = "take_back p r v rs"
    have "p < length (rs_node_local ?rs)" using p(2) by (simp add: take_back_def)
    from park_returns(2) [OF E this, of RH_HostEvent "vn_tcbs vn"] park_returns(1) [OF E this, of RH_Timeout "vn_tcbs vn"] p(1) Some x vn
    show ?thesis by (auto simp: host_event_def timeout_def take_back_def)
  qed
  then show "\<exists>rs'. host_event E p rs = Some (Inr (), rs')" "\<exists>rs'. timeout E p rs = Some (Inr (), rs')" by auto
qed

section \<open>A concrete server\<close>

text \<open>
  Two nodes. A description is decoded to a realm with no object of its own, one virtual node per byte; a request is one
  register that numbers it. The kernel's slot size is chosen so that the CNode of such a realm is half of the
  allocator's block.
\<close>

definition sx_kernel :: "(unit, unit) rz_kernel" where
  "sx_kernel = rx_kernel\<lparr>rk_cap := ex_kernel\<lparr>k_sizes := ex_sizes\<lparr>seL4_SlotBits := 61\<rparr>\<rparr>\<rparr>"

definition sx_model :: Model where
  "sx_model = \<lparr>md_num_nodes = 1, md_objects = []\<rparr>"

definition sx_env :: "(unit, unit) rs_env" where
  "sx_env = \<lparr>re_kernel = sx_kernel, re_num_active_cores = 2, re_save_caller = \<lambda>w c s. (Inr (), w), re_event_call = \<lambda>w p c. w,
     re_timer_call = \<lambda>w p c. (Inr (), w), re_send = \<lambda>w p ws. w, re_memory = \<lambda>w a n. replicate n 0,
     re_model = \<lambda>bs. Some sx_model, re_header = \<lambda>bs. None, re_bulk_region = 4096, re_bulk_region_size = 4096\<rparr>"

definition sx_recv :: "u64 list \<Rightarrow> Request option" where
  "sx_recv ws = (if ws = [0] then Some (Declare 5 1) else if ws = [1] then Some (RealizeStart 5) else
     if ws = [2] then Some (RealizeFinish 5) else None)"

definition sx_local :: "NodeLocal list" where
  "sx_local = [\<lparr>nl_reply_slot = 1, nl_timer_server_client = 2, nl_event_server_control = 3\<rparr>,
     \<lparr>nl_reply_slot = 4, nl_timer_server_client = 5, nl_event_server_control = 6\<rparr>]"

definition sx_server :: "unit ResourceServer" where
  "sx_server = ResourceServer_new sx_env rx_realizer 8 sx_local"

definition sx_region :: "RelativeCPtr \<Rightarrow> CRegion" where
  "sx_region root = \<lparr>cr_root = root, cr_guard = 0, cr_guard_size = 51, cr_radix = 0, cr_set = [(0, False)]\<rparr>"

definition sx_alloc :: "bool \<Rightarrow> unit Allocator" where
  "sx_alloc both = (rx_alloc both)\<lparr>al_cregion := ex_cregion\<lparr>cr_set := [(0, True), (1, both), (2, True), (3, True)] @ map (\<lambda>k. (k, False)) [4..<8]\<rparr>\<rparr>"

lemma sx_view: "ModelView_new Z sx_model = Some \<lparr>mv_local_objects = [], mv_extern_objects = [], mv_reverse = []\<rparr>"
  by (simp add: ModelView_new_def sx_model_def)

lemma sx_reqs: "untyped_requirements (k_sizes (rk_cap sx_kernel)) 0 [] = Some (replicate 61 0 @ [1] @ replicate 2 0)"
proof -
  have "(replicate 64 0)[61 := Suc 0] = replicate 61 0 @ [1 :: nat] @ replicate 2 0"
    by (simp add: list_eq_iff_nth_eq nth_list_update nth_append nth_Cons')
  then show ?thesis
    by (simp add: untyped_requirements_def count_size_def sx_kernel_def rx_kernel_def ex_kernel_def ex_sizes_def physical_size_bits_def usize_add_def vec_set_def)
qed

lemma required_one: "required_space (replicate 61 0 @ [1] @ replicate 2 0) = 2 ^ 61"
proof -
  have s: "usize_add 0 (usize_mul (usize_bit 61) 1) = 2 ^ 61" by (simp add: usize_add_def usize_mul_def usize_bit_def)
  show ?thesis
    unfolding required_space_def by (simp only: enumerate_append_eq foldl_append zeros_space zero_less_power zero_less_numeral length_replicate list.size enumerate_simps foldl.simps case_prod_conv s add_0)
      (rule zeros_space, simp)
qed

lemma sx_peek: "peek_space ex_alloc (replicate 61 0 @ [1] @ replicate 2 0)" "peek_space (sx_alloc False) (replicate 61 0 @ [1] @ replicate 2 0)"
  unfolding peek_space_def required_one
  by (simp_all add: consumable_space_def ex_alloc_value sx_alloc_def rx_alloc_def ex_block_def usize_add_def usize_mul_def usize_bit_def)

definition sx_root :: "u64 \<Rightarrow> RelativeCPtr" where
  "sx_root slot = \<lparr>rc_root = 2, rc_path = \<lparr>cp_cptr = slot, cp_depth = 13\<rparr>\<rparr>"

lemma sx_cnode:
  "create_cnode (rk_cap sx_kernel) 0 ex_alloc = Some (Inr (sx_region (sx_root 0), \<lparr>paddr = 2 ^ 61, size_bits = 61\<rparr>, 0), sx_alloc False)"
  "create_cnode (rk_cap sx_kernel) 0 (sx_alloc False) = Some (Inr (sx_region (sx_root 1), \<lparr>paddr = 0, size_bits = 61\<rparr>, 1), sx_alloc True)"
  by (simp_all add: create_cnode_def ex_alloc_value sx_kernel_def rx_kernel_def ex_kernel_def ex_sizes_def alloc_eval ex_block_def ex_cregion_def upt_rec
    al_mutate_def al_delete_def CRegion_new_def deposit_def deposit_one_def slot_free_def sx_region_def rx_alloc_def sx_alloc_def sx_root_def
    cr_relative_cptr_def cptr_with_depth_def ex_root_def shl_def cr_context_def)

definition sx_partial :: "u64 \<Rightarrow> nat \<Rightarrow> PartialSubsystem" where
  "sx_partial slot a = \<lparr>ps_model = sx_model, ps_model_view = \<lparr>mv_local_objects = [], mv_extern_objects = [], mv_reverse = []\<rparr>,
     ps_cregion = sx_region (sx_root slot), ps_cnode_untyped_id = \<lparr>paddr = a, size_bits = 61\<rparr>,
     ps_local_object_slots = [], ps_local_object_untyped_ids = []\<rparr>"

lemma sx_start:
  "rz_allocator rz = ex_alloc \<Longrightarrow> realize_start sx_kernel sx_model rz = Some (Inr (sx_partial 0 (2 ^ 61)), rz\<lparr>rz_allocator := sx_alloc False\<rparr>)"
  "rz_allocator rz = sx_alloc False \<Longrightarrow> realize_start sx_kernel sx_model rz = Some (Inr (sx_partial 1 0), rz\<lparr>rz_allocator := sx_alloc True\<rparr>)"
proof -
  have s: "size_bits_to_contain 0 = 0" "count_mappings sx_model [] = Some 0" "usize_add 0 0 = 0"
    by (simp_all add: size_bits_to_contain_def leading_zeros_def bit_length.simps count_mappings_def usize_add_def)
  show "rz_allocator rz = ex_alloc \<Longrightarrow> realize_start sx_kernel sx_model rz = Some (Inr (sx_partial 0 (2 ^ 61)), rz\<lparr>rz_allocator := sx_alloc False\<rparr>)"
    "rz_allocator rz = sx_alloc False \<Longrightarrow> realize_start sx_kernel sx_model rz = Some (Inr (sx_partial 1 0), rz\<lparr>rz_allocator := sx_alloc True\<rparr>)"
    using sx_peek by (simp_all add: realize_start_def sx_view s sx_reqs ensure_def on_allocator_def sx_cnode sx_partial_def Let_def)
qed

text \<open>The server after a realm has been declared and started, and after it has been finished.\<close>

definition sx_started :: "unit ResourceServer" where
  "sx_started = sx_server\<lparr>rs_realizer := rx_realizer\<lparr>rz_allocator := sx_alloc False\<rparr>, rs_partial_realms := [5 \<mapsto> sx_partial 0 (2 ^ 61)]\<rparr>"

lemma sx_run:
  "rs_handle sx_env sx_recv 0 0 [0] sx_server = Some (Inr (), sx_server\<lparr>rs_partial_specs := [5 \<mapsto> [0]]\<rparr>)"
  "rs_handle sx_env sx_recv 0 0 [1] (sx_server\<lparr>rs_partial_specs := [5 \<mapsto> [0]]\<rparr>) = Some (Inr (), sx_started)"
proof -
  have a: "rz_allocator rx_realizer = ex_alloc" by (simp add: rx_realizer_def Realizer_new_def)
  show "rs_handle sx_env sx_recv 0 0 [0] sx_server = Some (Inr (), sx_server\<lparr>rs_partial_specs := [5 \<mapsto> [0]]\<rparr>)"
    by (simp add: rs_handle_def BADGE_HOST_CONTROL_def sx_recv_def handle_request_def rs_declare_def sx_server_def ResourceServer_new_def rust_assert_def)
  show "rs_handle sx_env sx_recv 0 0 [1] (sx_server\<lparr>rs_partial_specs := [5 \<mapsto> [0]]\<rparr>) = Some (Inr (), sx_started)"
    using sx_start(1) [OF a] by (simp add: rs_handle_def BADGE_HOST_CONTROL_def sx_recv_def handle_request_def rs_realize_start_def sx_server_def ResourceServer_new_def
      sx_env_def on_realizer_def sx_started_def)
qed

lemma sx_reach: "rs_reach sx_env sx_recv sx_server sx_started"
proof -
  have "rs_reach sx_env sx_recv sx_server (sx_server\<lparr>rs_partial_specs := [5 \<mapsto> [0]]\<rparr>)"
    by (rule reach_handle [OF reach_start sx_run(1)]) (simp add: sx_server_def ResourceServer_new_def)
  from reach_handle [OF this sx_run(2)] show ?thesis by (simp add: sx_recv_def)
qed

lemma rx_alloc_ok: "alloc_ok (rz_allocator rx_realizer)"
  using ex_alloc_ok(2) by (simp add: rx_realizer_def Realizer_new_def)

section \<open>Properties\<close>



text \<open>
  C13. The lending of physical nodes refines its abstract specification, a partial map from physical to virtual nodes:
  \<^verbatim>\<open>yield_to\<close> that succeeds lends a free node to a virtual node that has none, an event or a timeout takes exactly its
  node back, and both keep the two tables of the code in agreement.
\<close>

theorem lending_refines:
  assumes ok: "nodes_ok rs"
  shows "(yield_to E p r v t rs = Some (Inr (), rs') \<longrightarrow>
      lent_to rs p = None \<and> (r, v) \<notin> ran (lent_to rs) \<and> lent_to rs' = (lent_to rs)(p \<mapsto> (r, v)) \<and> nodes_ok rs') \<and>
    (host_event E p rs = Some (Inr (), rs') \<or> timeout E p rs = Some (Inr (), rs') \<longrightarrow>
      lent_to rs' = (lent_to rs)(p := None) \<and> nodes_ok rs')"
proof (intro conjI impI)
  assume y: "yield_to E p r v t rs = Some (Inr (), rs')"
  then show "nodes_ok rs'" using ok by (rule yield_to_nodes_ok)
  from y show "lent_to rs p = None" by (rule yield_to_effect) (auto simp: lent_to_def)
  from y have "node_of rs r v = None" by (rule yield_to_effect) (auto simp: node_of_def)
  with ok show "(r, v) \<notin> ran (lent_to rs)" by (auto simp: ran_def nodes_ok_def)
  from y show "lent_to rs' = (lent_to rs)(p \<mapsto> (r, v))" by (rule yield_to_effect) (auto simp: lend_nodes(1))
next
  assume h: "host_event E p rs = Some (Inr (), rs') \<or> timeout E p rs = Some (Inr (), rs')"
  then show "nodes_ok rs'" using ok by (rule take_back_nodes_ok)
  from h show "lent_to rs' = (lent_to rs)(p := None)"
  proof (rule take_back_effect)
    assume "p < length (rs_physical_nodes rs)" "rs_physical_nodes rs ! p = None" "rs' = rs"
    then show ?thesis by (auto simp: lent_to_def fun_eq_iff)
  qed (auto simp: take_back_nodes(1))
qed

text \<open>The concrete server with a realm of one virtual node.\<close>

definition sx_realm :: Realm where
  "sx_realm = \<lparr>rm_virtual_nodes = [\<lparr>vn_tcbs = [7], vn_physical_node = None\<rparr>],
     rm_subsystem = \<lparr>ss_virtual_cores = [], ss_cnode_untyped_id = ex_block, ss_object_untyped_ids = [], ss_externs = Map.empty\<rparr>\<rparr>"

definition sx_running :: "unit ResourceServer" where
  "sx_running = sx_server\<lparr>rs_realms := [5 \<mapsto> sx_realm]\<rparr>"

lemma sx_running_ok: "nodes_ok sx_running" "rs_physical_nodes sx_running = [None, None]" "rs_node_local sx_running = sx_local" "rs_realms sx_running = [5 \<mapsto> sx_realm]"
  by (auto simp: nodes_ok_def lent_to_def node_of_def virtual_node_def vec_get_def sx_running_def sx_server_def ResourceServer_new_def sx_env_def sx_realm_def
      numeral_2_eq_2 less_Suc_eq bind_eq_Some_conv split: if_splits)

lemma sx_yield: "\<exists>rs'. yield_to sx_env 1 5 0 None sx_running = Some (Inr (), rs')"
  by (simp add: yield_to_def save_caller_def sx_running_ok sx_local_def virtual_node_def sx_realm_def set_physical_node_def schedule_def rs_invoke_def
      set_notify_host_event_def event_call_def set_world_def rs_world_def sx_env_def sx_kernel_def rx_kernel_def rust_assert_def Let_def)

theorem lending_refines_witness:
  "\<exists>rs'. yield_to sx_env 1 5 0 None sx_running = Some (Inr (), rs') \<and> lent_to rs' 1 = Some (5, 0) \<and> nodes_ok rs'"
proof -
  from sx_yield obtain rs' where y: "yield_to sx_env 1 5 0 None sx_running = Some (Inr (), rs')" by blast
  from lending_refines [OF sx_running_ok(1), of sx_env 1 5 0 None rs'] y show ?thesis by auto
qed

text \<open>
  C16. In a state where the tables agree, and so in every state of a run, a host event or a timeout on a node of the
  server returns, with the node free afterwards: the realm and the virtual node its entry names exist. The kernel must
  accept the change of affinity and the timer server the stop.
\<close>

theorem events_free_the_node:
  assumes ok: "nodes_ok rs" and E: "accepts_parking E" and p: "p < length (rs_physical_nodes rs)" "p < length (rs_node_local rs)"
  shows "(\<exists>rs'. host_event E p rs = Some (Inr (), rs') \<and> lent_to rs' p = None \<and> (\<forall>q. q \<noteq> p \<longrightarrow> lent_to rs' q = lent_to rs q)) \<and>
    (\<exists>rs'. timeout E p rs = Some (Inr (), rs') \<and> lent_to rs' p = None \<and> (\<forall>q. q \<noteq> p \<longrightarrow> lent_to rs' q = lent_to rs q))"
proof -
  have "lent_to rs' p = None \<and> (\<forall>q. q \<noteq> p \<longrightarrow> lent_to rs' q = lent_to rs q)" if "host_event E p rs = Some (Inr (), rs') \<or> timeout E p rs = Some (Inr (), rs')" for rs'
    using that by (rule take_back_effect) (auto simp: take_back_nodes(1) lent_to_def [of rs p])
  with events_return [OF assms] show ?thesis by blast
qed

theorem events_free_the_node_witness: "\<exists>rs' rs''. yield_to sx_env 1 5 0 None sx_running = Some (Inr (), rs') \<and>
    host_event sx_env 1 rs' = Some (Inr (), rs'') \<and> lent_to rs'' 1 = None"
proof -
  from sx_yield obtain rs' where y: "yield_to sx_env 1 5 0 None sx_running = Some (Inr (), rs')" by blast
  then have l: "length (rs_physical_nodes rs') = 2" "length (rs_node_local rs') = 2"
    by (auto elim!: yield_to_effect simp: lend_def sx_running_ok sx_local_def)
  have E: "accepts_parking sx_env" by (simp add: accepts_parking_def sx_env_def sx_kernel_def rx_kernel_def)
  from events_free_the_node [OF yield_to_nodes_ok [OF y sx_running_ok(1)] E, of 1] l y show ?thesis by auto
qed

text \<open>
  A realm that yields back never gets its host resumed: \<^verbatim>\<open>yield_back\<close> does not return \<^verbatim>\<open>Ok\<close> in any state. It parks the
  realm and cancels its notifications, and then the reply it sends to the host is a \<^verbatim>\<open>todo!()\<close>.
\<close>

lemma yield_back_never_ok: "yield_back E r v c rs \<noteq> Some (Inr x, rs')"
  by (auto simp: yield_back_def bind_eq_Some_conv try_method_ok resume_host_def ResumeHostCondition_send_def)

text \<open>
  C28. \<^verbatim>\<open>declare\<close> checks the descriptions and the realms and not the realms that have been started: a second declaration and
  start of such a realm succeed, and the blocks of the first start then belong to no realm and stay live.
\<close>

theorem declare_forgets_started_realm:
  assumes i: "rs_inv base rs" and ps: "rs_partial_realms rs r = Some ps"
  shows "\<exists>rs1. handle_request E k (Declare r n) rs = Some (Inr (), rs1) \<and>
    (\<forall>rs2. handle_request E k (RealizeStart r) rs1 = Some (Inr (), rs2) \<longrightarrow>
      al_used (rs_alloc rs2) = base + rs_blocks rs2 + mset (ps_cnode_untyped_id ps # ps_local_object_untyped_ids ps))"
proof -
  have n: "rs_partial_specs rs r = None" "rs_realms rs r = None" using i ps by (force simp: rs_inv_def dom_def)+
  define rs1 where "rs1 = rs\<lparr>rs_partial_specs := (rs_partial_specs rs)(r \<mapsto> replicate n 0)\<rparr>"
  have d: "handle_request E k (Declare r n) rs = Some (Inr (), rs1)" using n by (simp add: handle_request_def rs_declare_def rs1_def rust_assert_def)
  have "al_used (rs_alloc rs2) = base + rs_blocks rs2 + mset (ps_cnode_untyped_id ps # ps_local_object_untyped_ids ps)"
    if s: "handle_request E k (RealizeStart r) rs1 = Some (Inr (), rs2)" for rs2
  proof -
    from s obtain m ps' rz where
      a: "realize_start (re_kernel E) m (rs_realizer rs) = Some (Inr ps', rz)"
      and rs2: "rs2 = rs1\<lparr>rs_partial_specs := (rs_partial_specs rs1)(r := None), rs_realizer := rz, rs_partial_realms := (rs_partial_realms rs)(r \<mapsto> ps')\<rparr>"
      by (auto simp: handle_request_def rs_realize_start_def bind_eq_Some_conv try_method_ok on_realizer_Some rs1_def)
    note i' = i [unfolded rs_inv_def]
    have "al_used (rs_alloc rs2) = al_used (rs_alloc rs) + mset (partial_ids ps')" using realize_start_effect(2) [OF a] i' by (simp add: rs2)
    moreover have "subsystems rs2 = subsystems rs" by (simp add: subsystems_def rs2 rs1_def fun_eq_iff)
    moreover have "blocks_of partial_ids ((rs_partial_realms rs)(r \<mapsto> ps')) = blocks_of partial_ids ((rs_partial_realms rs)(r := None)) + mset (partial_ids ps')"
      using blocks_of_insert [of "(rs_partial_realms rs)(r := None)" r partial_ids ps'] i' by simp
    ultimately show ?thesis using i' ps blocks_of_remove [of "rs_partial_realms rs" r ps partial_ids] by (simp add: rs_blocks_def rs2)
  qed
  with d show ?thesis by blast
qed

theorem declare_forgets_started_realm_witness:
  "\<exists>rs1 rs2. handle_request sx_env 0 (Declare 5 1) sx_started = Some (Inr (), rs1) \<and> handle_request sx_env 0 (RealizeStart 5) rs1 = Some (Inr (), rs2) \<and>
    \<lparr>paddr = 2 ^ 61, size_bits = 61\<rparr> \<in># al_used (rs_alloc rs2) - rs_blocks rs2"
proof -
  have i: "rs_inv {#} sx_started"
    using conjunct1 [OF rs_reach_inv [OF sx_reach [unfolded sx_server_def] new_inv [OF rx_alloc_ok]]] ex_alloc_ok(4)
    by (simp add: rx_realizer_def Realizer_new_def)
  have ps: "rs_partial_realms sx_started 5 = Some (sx_partial 0 (2 ^ 61))" by (simp add: sx_started_def)
  from declare_forgets_started_realm [OF i ps, of sx_env 0 1] obtain rs1 where
    d: "handle_request sx_env 0 (Declare 5 1) sx_started = Some (Inr (), rs1)"
      "\<And>rs2. handle_request sx_env 0 (RealizeStart 5) rs1 = Some (Inr (), rs2) \<Longrightarrow> al_used (rs_alloc rs2) = rs_blocks rs2 + {#\<lparr>paddr = 2 ^ 61, size_bits = 61\<rparr>#}"
    by (auto simp: sx_partial_def)
  obtain rs2 where r: "handle_request sx_env 0 (RealizeStart 5) rs1 = Some (Inr (), rs2)"
    using d(1) sx_start(2) [of "rx_realizer\<lparr>rz_allocator := sx_alloc False\<rparr>"]
    by (auto simp: handle_request_def rs_declare_def bind_eq_Some_conv rs_realize_start_def sx_env_def on_realizer_def sx_started_def sx_server_def split: if_splits)
  have "\<lparr>paddr = 2 ^ 61, size_bits = 61\<rparr> \<in># al_used (rs_alloc rs2) - rs_blocks rs2" by (simp add: d(2) [OF r])
  with d(1) r show ?thesis by blast
qed

text \<open>
  The bound of the bulk region is checked on a sum that wraps: for values of \<^verbatim>\<open>usize\<close> the check passes exactly for the
  slices inside the region and for those whose end wraps around to an address inside it, whose start is not.
\<close>

lemma bulk_slice_checked_sum:
  assumes "off < 2 ^ 64" "sz < 2 ^ 64"
  shows "bulk_slice E off sz rs \<noteq> None \<longleftrightarrow>
    off + sz \<le> re_bulk_region_size E \<and> off + sz < 2 ^ 64 \<or> 2 ^ 64 \<le> off + sz \<and> off + sz \<le> 2 ^ 64 + re_bulk_region_size E"
proof (cases "off + sz < 2 ^ 64")
  case False
  with assms have "(off + sz) mod 2 ^ 64 = off + sz - 2 ^ 64" by (simp add: mod_if)
  with False show ?thesis by (auto simp: bulk_slice_def usize_add_def rust_assert_def)
qed (auto simp: bulk_slice_def usize_add_def rust_assert_def)

lemma bulk_slice_checked_sum_witness: "bulk_slice sx_env (2 ^ 64 - 4096) 4096 sx_server \<noteq> None \<and> bulk_slice sx_env 4096 1 sx_server = None"
  using bulk_slice_checked_sum [of "2 ^ 64 - 4096" 4096 sx_env sx_server] bulk_slice_checked_sum [of 4096 1 sx_env sx_server]
  by (simp add: sx_env_def)

end
