(* ===== verification/TimerServer.thy ===== *)
theory TimerServer
  imports ResourceServer
begin

text \<open>
  The timer server (\<^verbatim>\<open>timer-server/src/server.rs\<close> and the request loop of \<^verbatim>\<open>main.rs\<close>). Ticks, timer identifiers and
  nanoseconds are \<^verbatim>\<open>i64\<close>, integers here, with the wrap-around of the additions and casts written out. Its loops may run
  for ever: a result \<open>None\<close> is a call that does not return, \<open>Some None\<close> a panic. Parameters are the timer device, the
  kernel's notifications and the position \<^verbatim>\<open>binary_search\<close> finds, which the standard library leaves open among equal
  elements.
\<close>

section \<open>Integers\<close>

text \<open>Division of \<^verbatim>\<open>i128\<close> by a positive number, towards zero.\<close>

definition quot_int :: "int \<Rightarrow> int \<Rightarrow> int" where
  "quot_int a b = (if a < 0 then - ((- a) div b) else a div b)"

definition NS_IN_S :: int where "NS_IN_S = 1000000000"

section \<open>State\<close>

record Timer =
  tm_client :: nat
  tm_timer :: int
  tm_compare :: int
  tm_period :: "int option"

record 'd timer_env =
  te_get_freq :: "'d \<Rightarrow> nat"
  te_get_count :: "'d \<Rightarrow> u64 \<times> 'd"
  te_set_enable :: "bool \<Rightarrow> 'd \<Rightarrow> 'd"
  te_set_compare :: "u64 \<Rightarrow> 'd \<Rightarrow> bool \<times> 'd"
  te_clear_interrupt :: "'d \<Rightarrow> 'd"
  te_signal :: "CPtr \<Rightarrow> 'd \<Rightarrow> 'd"
  te_irq_ack :: "'d \<Rightarrow> (unit + unit) \<times> 'd"
  te_binary_search :: "Timer list \<Rightarrow> int \<Rightarrow> nat"

record 'd TimerServer =
  ts_clients :: "CPtr list"
  ts_timers_per_client :: int
  ts_completed :: "nat \<rightharpoonup> int set"
  ts_outstanding :: "Timer list"
  ts_device :: 'd
  ts_freq :: nat

type_synonym 'a runs = "'a option option"

definition TimerServer_new :: "'d timer_env \<Rightarrow> CPtr list \<Rightarrow> int \<Rightarrow> 'd \<Rightarrow> 'd TimerServer option" where
  "TimerServer_new D clients timers_per_client device = do {
     rust_assert (length clients \<le> 64);
     rust_assert (timers_per_client \<le> 64);
     Some \<lparr>ts_clients = clients, ts_timers_per_client = timers_per_client,
       ts_completed = (\<lambda>c. if c < length clients then Some {} else None), ts_outstanding = [], ts_device = device,
       ts_freq = te_get_freq D device\<rparr> }"

section \<open>Queue\<close>

definition Timers_insert :: "'d timer_env \<Rightarrow> Timer \<Rightarrow> Timer list \<Rightarrow> Timer list option" where
  "Timers_insert D t ts = do {
     let pos = te_binary_search D ts (tm_compare t);
     rust_assert (pos \<le> length ts);
     Some (take pos ts @ t # drop pos ts) }"

section \<open>Time\<close>

definition ns_to_tick :: "'d TimerServer \<Rightarrow> int \<Rightarrow> int" where
  "ns_to_tick ts ns = i64 (quot_int (ns * int (ts_freq ts)) NS_IN_S)"

definition tick_to_ns :: "'d TimerServer \<Rightarrow> int \<Rightarrow> int option" where
  "tick_to_ns ts tick = do {
     rust_assert (ts_freq ts \<noteq> 0);
     Some (i64 (quot_int (tick * NS_IN_S) (int (ts_freq ts)))) }"

definition now_tick :: "'d timer_env \<Rightarrow> 'd TimerServer \<Rightarrow> int \<times> 'd TimerServer" where
  "now_tick D ts = (let (c, d) = te_get_count D (ts_device ts) in (i64 (uint c), ts\<lparr>ts_device := d\<rparr>))"

definition now_ns :: "'d timer_env \<Rightarrow> 'd TimerServer \<Rightarrow> (int \<times> 'd TimerServer) option" where
  "now_ns D ts = (let (t, ts) = now_tick D ts in map_option (\<lambda>ns. (ns, ts)) (tick_to_ns ts t))"

definition ts_signal :: "'d timer_env \<Rightarrow> nat \<Rightarrow> 'd TimerServer \<Rightarrow> 'd TimerServer option" where
  "ts_signal D client ts = do {
     nfn \<leftarrow> vec_get (ts_clients ts) client;
     Some (ts\<lparr>ts_device := te_signal D nfn (ts_device ts)\<rparr>) }"

section \<open>Expiry\<close>

text \<open>One round of the loop of \<^verbatim>\<open>update_timers\<close>: the first timer of the queue expires.\<close>

definition expire :: "'d timer_env \<Rightarrow> Timer \<Rightarrow> Timer list \<Rightarrow> 'd TimerServer \<Rightarrow> 'd TimerServer option" where
  "expire D t rest ts = do {
     done' \<leftarrow> ts_completed ts (tm_client t);
     let ts = ts\<lparr>ts_completed := (ts_completed ts)(tm_client t \<mapsto> insert (tm_timer t) done')\<rparr>;
     rest \<leftarrow> (case tm_period t of
        None \<Rightarrow> Some rest
      | Some p \<Rightarrow> Timers_insert D (t\<lparr>tm_compare := i64 (tm_compare t + p)\<rparr>) rest);
     ts_signal D (tm_client t) (ts\<lparr>ts_outstanding := rest\<rparr>) }"

partial_function (option) update_timers :: "'d timer_env \<Rightarrow> int \<Rightarrow> 'd TimerServer \<Rightarrow> 'd TimerServer runs" where
  "update_timers D now ts = (case ts_outstanding ts of
     [] \<Rightarrow> Some (Some ts)
   | t # rest \<Rightarrow>
       if tm_compare t \<le> now then
         (case expire D t rest ts of None \<Rightarrow> Some None | Some ts \<Rightarrow> update_timers D now ts)
       else Some (Some ts))"

text \<open>\<^verbatim>\<open>update\<close>, with \<^verbatim>\<open>update_device\<close> in its body: a device that finds the compare value in the past starts it again.\<close>

partial_function (option) ts_update :: "'d timer_env \<Rightarrow> int \<Rightarrow> 'd TimerServer \<Rightarrow> 'd TimerServer runs" where
  "ts_update D now ts = Option.bind (update_timers D now ts) (\<lambda>r. case r of
     None \<Rightarrow> Some None
   | Some ts \<Rightarrow> (case ts_outstanding ts of
       [] \<Rightarrow> Some (Some (ts\<lparr>ts_device := te_set_enable D False (ts_device ts)\<rparr>))
     | t # _ \<Rightarrow>
         if fst (te_set_compare D (word_of_int (tm_compare t)) (ts_device ts)) then
           Some (Some (ts\<lparr>ts_device := te_set_enable D True (snd (te_set_compare D (word_of_int (tm_compare t)) (ts_device ts)))\<rparr>))
         else
           ts_update D (fst (now_tick D (ts\<lparr>ts_device := snd (te_set_compare D (word_of_int (tm_compare t)) (ts_device ts))\<rparr>)))
             (snd (now_tick D (ts\<lparr>ts_device := snd (te_set_compare D (word_of_int (tm_compare t)) (ts_device ts))\<rparr>)))))"

definition handle_interrupt :: "'d timer_env \<Rightarrow> 'd TimerServer \<Rightarrow> 'd TimerServer runs" where
  "handle_interrupt D ts =
     (let (now, ts) = now_tick D (ts\<lparr>ts_device := te_clear_interrupt D (ts_device ts)\<rparr>) in ts_update D now ts)"

section \<open>Requests\<close>

definition guard_tid :: "int \<Rightarrow> 'd TimerServer \<Rightarrow> bool" where
  "guard_tid tid ts \<longleftrightarrow> \<not> tid > ts_timers_per_client ts"

definition remove_timer :: "nat \<Rightarrow> int \<Rightarrow> 'd TimerServer \<Rightarrow> 'd TimerServer option" where
  "remove_timer cid tid ts =
     (let (gone, kept) = partition (\<lambda>t. tm_client t = cid \<and> tm_timer t = tid) (ts_outstanding ts);
          ts = ts\<lparr>ts_outstanding := kept\<rparr> in
      for_each gone (\<lambda>_ ts. do {
        done' \<leftarrow> ts_completed ts cid;
        Some (ts\<lparr>ts_completed := (ts_completed ts)(cid \<mapsto> done' - {tid})\<rparr>) }) ts)"

definition set_timer :: "'d timer_env \<Rightarrow> Timer \<Rightarrow> 'd TimerServer \<Rightarrow> 'd TimerServer option" where
  "set_timer D t ts = do {
     ts \<leftarrow> remove_timer (tm_client t) (tm_timer t) ts;
     out \<leftarrow> Timers_insert D t (ts_outstanding ts);
     Some (ts\<lparr>ts_outstanding := out\<rparr>) }"

text \<open>
  The three ways to set a timer differ in the compare value and the period. An \<^verbatim>\<open>Err(())\<close> of the guard leaves the
  server as it is.
\<close>

definition arm :: "'d timer_env \<Rightarrow> nat \<Rightarrow> int \<Rightarrow> (int \<Rightarrow> int) \<Rightarrow> int option \<Rightarrow> 'd TimerServer \<Rightarrow> ((unit + unit) \<times> 'd TimerServer) runs" where
  "arm D cid tid compare period ts =
     (if \<not> guard_tid tid ts then Some (Some (Inl (), ts))
      else let (now, ts) = now_tick D ts in
        (case set_timer D \<lparr>tm_client = cid, tm_timer = tid, tm_compare = compare now, tm_period = period\<rparr> ts of
           None \<Rightarrow> Some None
         | Some ts \<Rightarrow> map_option (map_option (Pair (Inr ()))) (ts_update D now ts)))"

definition oneshot_relative :: "'d timer_env \<Rightarrow> nat \<Rightarrow> int \<Rightarrow> int \<Rightarrow> 'd TimerServer \<Rightarrow> ((unit + unit) \<times> 'd TimerServer) runs" where
  "oneshot_relative D cid tid ns ts = arm D cid tid (\<lambda>now. i64 (now + ns_to_tick ts ns)) None ts"

definition oneshot_absolute :: "'d timer_env \<Rightarrow> nat \<Rightarrow> int \<Rightarrow> int \<Rightarrow> 'd TimerServer \<Rightarrow> ((unit + unit) \<times> 'd TimerServer) runs" where
  "oneshot_absolute D cid tid ns ts = arm D cid tid (\<lambda>now. ns_to_tick ts ns) None ts"

definition periodic :: "'d timer_env \<Rightarrow> nat \<Rightarrow> int \<Rightarrow> int \<Rightarrow> 'd TimerServer \<Rightarrow> ((unit + unit) \<times> 'd TimerServer) runs" where
  "periodic D cid tid ns ts = arm D cid tid (\<lambda>now. i64 (now + ns_to_tick ts ns)) (Some (ns_to_tick ts ns)) ts"

definition stop_timer :: "nat \<Rightarrow> int \<Rightarrow> 'd TimerServer \<Rightarrow> ((unit + unit) \<times> 'd TimerServer) option" where
  "stop_timer cid tid ts =
     (if \<not> guard_tid tid ts then Some (Inl (), ts) else map_option (Pair (Inr ())) (remove_timer cid tid ts))"

text \<open>\<^verbatim>\<open>completed\<close>: the mask of the expired timers of a client; the shift takes its amount modulo 64.\<close>

definition completed :: "nat \<Rightarrow> 'd TimerServer \<Rightarrow> (u64 \<times> 'd TimerServer) option" where
  "completed cid ts = do {
     done' \<leftarrow> ts_completed ts cid;
     Some (fold (\<lambda>tid mask. mask OR shl 1 (nat (tid mod 64))) (sorted_list_of_set done') 0,
       ts\<lparr>ts_completed := (ts_completed ts)(cid \<mapsto> {})\<rparr>) }"

section \<open>The request loop\<close>

definition TIMERS_PER_CLIENT :: int where "TIMERS_PER_CLIENT = 1"
definition INTERRUPT_BADGE :: u64 where "INTERRUPT_BADGE = 1"
definition CLIENT_BADGE_START :: u64 where "CLIENT_BADGE_START = INTERRUPT_BADGE + 1"

datatype timer_reply = Reply_result "unit + unit" | Reply_time u64 | No_reply

definition ts_handle_request ::
  "'d timer_env \<Rightarrow> nat \<Rightarrow> TimerRequest \<Rightarrow> 'd TimerServer \<Rightarrow> (timer_reply \<times> 'd TimerServer) runs" where
  "ts_handle_request D cid req ts = (case req of
     Timer_Completed \<Rightarrow> Some None
   | Timer_Periodic tid ns \<Rightarrow> map_option (map_option (map_prod Reply_result id)) (periodic D cid tid (sint ns) ts)
   | Timer_OneshotAbsolute tid ns \<Rightarrow> map_option (map_option (map_prod Reply_result id)) (oneshot_absolute D cid tid (sint ns) ts)
   | Timer_OneshotRelative tid ns \<Rightarrow> map_option (map_option (map_prod Reply_result id)) (oneshot_relative D cid tid (sint ns) ts)
   | Timer_Stop tid \<Rightarrow> Some (map_option (map_prod Reply_result id) (stop_timer cid tid ts))
   | Timer_Time \<Rightarrow> Some (map_option (map_prod (\<lambda>ns. Reply_time (word_of_int ns)) id) (now_ns D ts)))"

definition ts_handle ::
  "'d timer_env \<Rightarrow> u64 \<Rightarrow> TimerRequest \<Rightarrow> 'd TimerServer \<Rightarrow> (timer_reply \<times> 'd TimerServer) runs" where
  "ts_handle D badge req ts =
     (if badge = INTERRUPT_BADGE then
        Option.bind (handle_interrupt D ts) (\<lambda>r. Some (do {
          ts \<leftarrow> r;
          let (a, d) = te_irq_ack D (ts_device ts);
          (case a of Inl _ \<Rightarrow> None | Inr _ \<Rightarrow> Some (No_reply, ts\<lparr>ts_device := d\<rparr>)) }))
      else ts_handle_request D (unat (badge - CLIENT_BADGE_START)) req ts)"

end
