(* ===== verification/TimerServerProps.thy ===== *)
theory TimerServerProps
  imports TimerServer "HOL-Library.Multiset"
begin

text \<open>
  The timer server keeps its queue sorted with one entry per timer; expiry returns when every period is positive, with
  nothing due left; a period of zero ticks never returns.
\<close>

section \<open>Queue\<close>

text \<open>What the standard library documents of \<^verbatim>\<open>binary_search\<close>: the position found is between the smaller and the larger elements.\<close>

definition search_ok :: "'d timer_env \<Rightarrow> bool" where
  "search_ok D \<longleftrightarrow> (\<forall>ts c. sorted (map tm_compare ts) \<longrightarrow> te_binary_search D ts c \<le> length ts \<and>
     (\<forall>t\<in>set (take (te_binary_search D ts c) ts). tm_compare t \<le> c) \<and> (\<forall>t\<in>set (drop (te_binary_search D ts c) ts). c \<le> tm_compare t))"

abbreviation tm_key :: "Timer \<Rightarrow> nat \<times> int" where
  "tm_key t \<equiv> (tm_client t, tm_timer t)"

lemma Timers_insert_spec:
  assumes "search_ok D" "sorted (map tm_compare ts)"
  shows "\<exists>ts'. Timers_insert D t ts = Some ts' \<and> sorted (map tm_compare ts') \<and> mset ts' = add_mset t (mset ts)"
proof -
  define p where "p = te_binary_search D ts (tm_compare t)"
  have p: "p \<le> length ts" "\<forall>u\<in>set (take p ts). tm_compare u \<le> tm_compare t" "\<forall>u\<in>set (drop p ts). tm_compare t \<le> tm_compare u"
    using assms by (auto simp: search_ok_def p_def)
  have s: "sorted (map tm_compare (take p ts @ drop p ts))" using assms(2) by simp
  then have "sorted (map tm_compare (take p ts @ t # drop p ts))"
    using p(2,3) unfolding map_append sorted_append by (auto intro: order_trans)
  moreover have "mset (take p ts @ t # drop p ts) = add_mset t (mset (take p ts @ drop p ts))" by (simp only: mset.simps mset_append) simp
  moreover have "Timers_insert D t ts = Some (take p ts @ t # drop p ts)" using p(1) by (simp add: Timers_insert_def p_def rust_assert_def Let_def)
  ultimately show ?thesis by simp
qed

section \<open>Invariant\<close>

definition timer_inv :: "'d TimerServer \<Rightarrow> bool" where
  "timer_inv ts \<longleftrightarrow> sorted (map tm_compare (ts_outstanding ts)) \<and> distinct (map tm_key (ts_outstanding ts)) \<and>
     (\<forall>t\<in>set (ts_outstanding ts). tm_client t < length (ts_clients ts) \<and> i64_ok (tm_compare t)) \<and>
     dom (ts_completed ts) = {..<length (ts_clients ts)}"

text \<open>The parts of the server that expiry does not touch.\<close>

definition same_config :: "'d TimerServer \<Rightarrow> 'd TimerServer \<Rightarrow> bool" where
  "same_config ts ts' \<longleftrightarrow> ts_clients ts' = ts_clients ts \<and> ts_timers_per_client ts' = ts_timers_per_client ts \<and> ts_freq ts' = ts_freq ts"

lemma same_config_refl [simp]: "same_config ts ts" by (simp add: same_config_def)

lemma same_config_trans: "same_config a b \<Longrightarrow> same_config b c \<Longrightarrow> same_config a c"
  by (simp add: same_config_def)

text \<open>A timer after its expiry: a periodic one is due again.\<close>

definition again :: "Timer \<Rightarrow> Timer multiset" where
  "again t = (case tm_period t of None \<Rightarrow> {#} | Some p \<Rightarrow> {#t\<lparr>tm_compare := i64 (tm_compare t + p)\<rparr>#})"

lemma mset_keys: "mset (map tm_key ts) = image_mset tm_key (mset ts)"
  by simp

lemma distinct_keys_mset: "mset ts' = add_mset u (mset rest) \<Longrightarrow> tm_key u = tm_key t \<Longrightarrow> distinct (map tm_key (t # rest)) \<Longrightarrow> distinct (map tm_key ts')"
proof -
  assume a: "mset ts' = add_mset u (mset rest)" "tm_key u = tm_key t" "distinct (map tm_key (t # rest))"
  have "mset (map tm_key ts') = mset (map tm_key (t # rest))" using a(1,2) by (simp add: mset_keys)
  then show ?thesis using a(3) by (metis mset_eq_imp_distinct_iff)
qed

lemma expire_spec:
  assumes i: "timer_inv ts" and o: "ts_outstanding ts = t # rest" and D: "search_ok D"
  obtains ts' s where "expire D t rest ts = Some ts'" "timer_inv ts'" "same_config ts ts'" "mset (ts_outstanding ts') = again t + mset rest"
    "ts_completed ts (tm_client t) = Some s" "ts_completed ts' = (ts_completed ts)(tm_client t \<mapsto> insert (tm_timer t) s)"
proof -
  note i' = i [unfolded timer_inv_def o]
  have c: "tm_client t < length (ts_clients ts)" using i' by simp
  then obtain s where s: "ts_completed ts (tm_client t) = Some s" using i' by blast
  have sr: "sorted (map tm_compare rest)" using i' by simp
  have "\<exists>out. (case tm_period t of None \<Rightarrow> Some rest | Some p \<Rightarrow> Timers_insert D (t\<lparr>tm_compare := i64 (tm_compare t + p)\<rparr>) rest) = Some out \<and>
      sorted (map tm_compare out) \<and> mset out = again t + mset rest \<and> distinct (map tm_key out) \<and>
      (\<forall>u\<in>set out. tm_client u < length (ts_clients ts) \<and> i64_ok (tm_compare u))"
  proof (cases "tm_period t")
    case None
    with sr i' show ?thesis by (simp add: again_def)
  next
    case (Some p)
    let ?u = "t\<lparr>tm_compare := i64 (tm_compare t + p)\<rparr>"
    from Timers_insert_spec [OF D sr, of ?u] obtain out where
      x: "Timers_insert D ?u rest = Some out" "sorted (map tm_compare out)" "mset out = add_mset ?u (mset rest)" by blast
    have "distinct (map tm_key out)" using i' by (intro distinct_keys_mset [OF x(3)]) auto
    moreover have "set out = insert ?u (set rest)" using x(3) by (metis set_mset_mset set_mset_add_mset_insert)
    ultimately show ?thesis using x i' Some by (auto simp: again_def)
  qed
  then obtain out where out: "(case tm_period t of None \<Rightarrow> Some rest | Some p \<Rightarrow> Timers_insert D (t\<lparr>tm_compare := i64 (tm_compare t + p)\<rparr>) rest) = Some out"
      "sorted (map tm_compare out)" "mset out = again t + mset rest" "distinct (map tm_key out)"
      "\<forall>u\<in>set out. tm_client u < length (ts_clients ts) \<and> i64_ok (tm_compare u)" by blast
  define ts' where "ts' = ts\<lparr>ts_completed := (ts_completed ts)(tm_client t \<mapsto> insert (tm_timer t) s), ts_outstanding := out,
      ts_device := te_signal D (ts_clients ts ! tm_client t) (ts_device ts)\<rparr>"
  have "expire D t rest ts = Some ts'"
    using out(1) c by (simp add: expire_def s ts_signal_def Let_def ts'_def)
  moreover have "insert (tm_client t) (dom (ts_completed ts)) = {..<length (ts_clients ts)}" using i' c by auto
  ultimately show ?thesis using out i' c s by (intro that [of ts' s]) (auto simp: timer_inv_def same_config_def ts'_def)
qed

section \<open>Expiry\<close>

definition due :: "int \<Rightarrow> nat \<Rightarrow> Timer list \<Rightarrow> int set" where
  "due now c ts = {tm_timer t |t. t \<in> set ts \<and> tm_client t = c \<and> tm_compare t \<le> now}"

definition expired :: "int \<Rightarrow> 'd TimerServer \<Rightarrow> 'd TimerServer \<Rightarrow> bool" where
  "expired now ts ts' \<longleftrightarrow> timer_inv ts' \<and> same_config ts ts' \<and> (\<forall>t\<in>set (ts_outstanding ts'). now < tm_compare t) \<and>
     (\<forall>c. ts_completed ts' c = map_option (\<lambda>s. s \<union> due now c (ts_outstanding ts)) (ts_completed ts c))"

lemma due_step:
  assumes "mset out = again t + mset rest" "tm_compare t \<le> now"
  shows "due now c (t # rest) = (if c = tm_client t then insert (tm_timer t) (due now c out) else due now c out)"
proof -
  have "set out = set_mset (again t) \<union> set rest" using assms(1) by (metis set_mset_mset set_mset_union)
  then show ?thesis using assms(2) by (auto simp: due_def again_def split: option.splits)
qed

lemma expired_step:
  assumes "expired now ts1 ts'" "same_config ts ts1" "mset (ts_outstanding ts1) = again t + mset rest" "ts_outstanding ts = t # rest" "tm_compare t \<le> now"
    "ts_completed ts (tm_client t) = Some s" "ts_completed ts1 = (ts_completed ts)(tm_client t \<mapsto> insert (tm_timer t) s)"
  shows "expired now ts ts'"
proof -
  have "ts_completed ts' c = map_option (\<lambda>s. s \<union> due now c (ts_outstanding ts)) (ts_completed ts c)" for c
    using assms(1,4,6,7) unfolding due_step [OF assms(3,5)] assms(4) by (auto simp: expired_def fun_upd_def)
  with assms(1,2) show ?thesis by (auto simp: expired_def dest: same_config_trans)
qed

lemma expired_done:
  assumes "timer_inv ts" "case ts_outstanding ts of [] \<Rightarrow> True | t # _ \<Rightarrow> now < tm_compare t"
  shows "expired now ts ts"
proof -
  have "\<forall>t\<in>set (ts_outstanding ts). now < tm_compare t" using assms by (fastforce simp: timer_inv_def split: list.splits)
  moreover from this have "due now c (ts_outstanding ts) = {}" for c by (auto simp: due_def)
  ultimately show ?thesis using assms(1) by (simp add: expired_def option.map_ident)
qed

text \<open>A call that returns has not panicked and has expired the due timers.\<close>

lemma update_timers_result:
  assumes "update_timers D now ts = Some r" "timer_inv ts" "search_ok D"
  shows "\<exists>ts'. r = Some ts' \<and> expired now ts ts'"
  using assms
proof (induction rule: update_timers.raw_induct [rotated, consumes 1])
  case (1 upd D now ts r)
  show ?case
  proof (cases "ts_outstanding ts")
    case Nil
    with 1(2,3) show ?thesis using expired_done [of ts now] by auto
  next
    case (Cons t rest)
    show ?thesis
    proof (cases "tm_compare t \<le> now")
      case True
      from 1(3) Cons 1(4) obtain ts1 s where
        e: "expire D t rest ts = Some ts1" "timer_inv ts1" "same_config ts ts1" "mset (ts_outstanding ts1) = again t + mset rest"
          "ts_completed ts (tm_client t) = Some s" "ts_completed ts1 = (ts_completed ts)(tm_client t \<mapsto> insert (tm_timer t) s)"
        by (rule expire_spec)
      have "upd D now ts1 = Some r" using 1(2) Cons True e(1) by simp
      from 1(1) [OF this e(2) 1(4)] expired_step [OF _ e(3,4) Cons True e(5,6)] show ?thesis by blast
    next
      case False
      with 1(2,3) Cons show ?thesis using expired_done [of ts now] by auto
    qed
  qed
qed

text \<open>Positive periods make it return: every round brings the due timers closer to the present.\<close>

definition periods_ok :: "int \<Rightarrow> Timer list \<Rightarrow> bool" where
  "periods_ok now ts \<longleftrightarrow> (\<forall>t\<in>set ts. \<forall>p. tm_period t = Some p \<longrightarrow> 0 < p \<and> now + p < 2 ^ 63)"

definition backlog :: "int \<Rightarrow> Timer multiset \<Rightarrow> nat" where
  "backlog now M = sum_mset (image_mset (\<lambda>t. nat (now - tm_compare t + 1)) M)"

lemma again_backlog:
  assumes "tm_compare t \<le> now" "periods_ok now (t # rest)" "i64_ok (tm_compare t)"
  shows "backlog now (again t) < nat (now - tm_compare t + 1)"
proof (cases "tm_period t")
  case (Some p)
  then have p: "0 < p" "now + p < 2 ^ 63" using assms(2) by (auto simp: periods_ok_def)
  have "i64_ok (tm_compare t + p)" using p assms(1,3) by (simp add: i64_ok_def)
  then show ?thesis using Some p assms(1) by (simp add: again_def backlog_def)
qed (use assms(1) in \<open>simp add: again_def backlog_def\<close>)

lemma again_periods: "mset out = again t + mset rest \<Longrightarrow> periods_ok now (t # rest) \<Longrightarrow> periods_ok now out"
proof -
  assume a: "mset out = again t + mset rest" "periods_ok now (t # rest)"
  have "set out = set_mset (again t) \<union> set rest" using a(1) by (metis set_mset_mset set_mset_union)
  with a(2) show ?thesis by (auto simp: periods_ok_def again_def split: option.splits)
qed

lemma update_timers_returns:
  assumes "timer_inv ts" "search_ok D" "periods_ok now (ts_outstanding ts)"
  shows "\<exists>r. update_timers D now ts = Some r"
  using assms
proof (induction "backlog now (mset (ts_outstanding ts))" arbitrary: ts rule: less_induct)
  case less
  show ?case
  proof (cases "ts_outstanding ts")
    case Nil
    then show ?thesis by (subst update_timers.simps) simp
  next
    case (Cons t rest)
    show ?thesis
    proof (cases "tm_compare t \<le> now")
      case True
      from less.prems(1) Cons less.prems(2) obtain ts1 s where
        e: "expire D t rest ts = Some ts1" "timer_inv ts1" "mset (ts_outstanding ts1) = again t + mset rest"
        by (rule expire_spec)
      note per = less.prems(3) [unfolded Cons]
      have c: "i64_ok (tm_compare t)" using less.prems(1) Cons by (simp add: timer_inv_def)
      have "backlog now (mset (ts_outstanding ts1)) < backlog now (mset (ts_outstanding ts))"
        using again_backlog [OF True per c] by (simp add: e(3) Cons backlog_def)
      from less.hyps [OF this e(2) less.prems(2) again_periods [OF e(3) per]] show ?thesis
        using Cons True e(1) by (subst update_timers.simps) simp
    next
      case False
      with Cons show ?thesis by (subst update_timers.simps) simp
    qed
  qed
qed

text \<open>A due timer with a period of zero is due again at once.\<close>

lemma zero_period_loops:
  assumes "update_timers D now ts = Some r" "timer_inv ts" "search_ok D"
    "t \<in> set (ts_outstanding ts)" "tm_compare t \<le> now" "tm_period t = Some 0"
  shows False
  using assms
proof (induction arbitrary: t rule: update_timers.raw_induct [rotated, consumes 1])
  case (1 upd D now ts r)
  from 1(5) obtain h rest where o: "ts_outstanding ts = h # rest" by (cases "ts_outstanding ts") auto
  have "tm_compare h \<le> tm_compare t" using 1(3,5) o by (auto simp: timer_inv_def)
  with 1(6) have h: "tm_compare h \<le> now" by simp
  from 1(3) o 1(4) obtain ts1 s where e: "expire D h rest ts = Some ts1" "timer_inv ts1" "mset (ts_outstanding ts1) = again h + mset rest"
    by (rule expire_spec)
  have "upd D now ts1 = Some r" using 1(2) o h e(1) by simp
  moreover have "t \<in> set (ts_outstanding ts1)"
  proof -
    have s: "set (ts_outstanding ts1) = set_mset (again h) \<union> set rest" using e(3) by (metis set_mset_mset set_mset_union)
    have "h \<in># again h" if "h = t" using that 1(3,7) o by (simp add: again_def timer_inv_def)
    with s 1(5) o show ?thesis by auto
  qed
  ultimately show ?case using 1(1) [OF _ e(2) 1(4) _ 1(6,7)] by blast
qed

section \<open>Requests\<close>

lemma timer_inv_device [simp]: "timer_inv (ts\<lparr>ts_device := d\<rparr>) = timer_inv ts" "same_config ts (ts\<lparr>ts_device := d\<rparr>)"
  "same_config (ts\<lparr>ts_device := d\<rparr>) ts' = same_config ts ts'" "expired now (ts\<lparr>ts_device := d\<rparr>) ts' = expired now ts ts'"
  by (simp_all add: timer_inv_def same_config_def expired_def)

lemma now_tick_keeps: "now_tick D ts = (now, ts') \<Longrightarrow> \<exists>d. ts' = ts\<lparr>ts_device := d\<rparr>"
  by (auto simp: now_tick_def case_prod_beta)

lemma update_keeps:
  assumes "ts_update D now ts = Some r" "timer_inv ts" "search_ok D"
  shows "\<exists>ts'. r = Some ts' \<and> timer_inv ts' \<and> same_config ts ts'"
  using assms
proof (induction rule: ts_update.raw_induct [rotated, consumes 1])
  case (1 upd D now ts r)
  from 1(2) obtain q where q: "update_timers D now ts = Some q" by (auto simp: bind_eq_Some_conv)
  from update_timers_result [OF q 1(3,4)] obtain ts1 where ts1: "q = Some ts1" "timer_inv ts1" "same_config ts ts1" by (auto simp: expired_def)
  show ?case
  proof (cases "ts_outstanding ts1")
    case Nil
    then have "r = Some (ts1\<lparr>ts_device := te_set_enable D False (ts_device ts1)\<rparr>)" using 1(2) q ts1(1) by simp
    with ts1 show ?thesis by (auto simp: same_config_def)
  next
    case (Cons t rest)
    define d where "d = te_set_compare D (word_of_int (tm_compare t)) (ts_device ts1)"
    show ?thesis
    proof (cases "fst d")
      case True
      then have "r = Some (ts1\<lparr>ts_device := te_set_enable D True (snd d)\<rparr>)" using 1(2) q ts1(1) Cons by (simp add: d_def)
      with ts1 show ?thesis by (auto simp: same_config_def)
    next
      case False
      obtain now' ts2 where n: "now_tick D (ts1\<lparr>ts_device := snd d\<rparr>) = (now', ts2)" by (cases "now_tick D (ts1\<lparr>ts_device := snd d\<rparr>)")
      from now_tick_keeps [OF n] obtain d' where ts2: "ts2 = ts1\<lparr>ts_device := d'\<rparr>" by auto
      have "upd D now' ts2 = Some r" using 1(2) q ts1(1) Cons False n by (simp add: d_def)
      from 1(1) [OF this _ 1(4)] ts1 ts2 show ?thesis by (auto dest: same_config_trans)
    qed
  qed
qed

lemma for_each_remove:
  "cid \<in> dom (ts_completed ts) \<Longrightarrow> \<exists>m. for_each gone (\<lambda>_ ts. do {
        done' \<leftarrow> ts_completed ts cid;
        Some (ts\<lparr>ts_completed := (ts_completed ts)(cid \<mapsto> done' - {tid})\<rparr>) }) ts = Some (ts\<lparr>ts_completed := m\<rparr>) \<and> dom m = dom (ts_completed ts)"
proof (induction gone arbitrary: ts)
  case Nil
  show ?case by (rule exI [of _ "ts_completed ts"]) simp
next
  case (Cons x gone)
  from Cons.prems obtain s where s: "ts_completed ts cid = Some s" by blast
  let ?ts = "ts\<lparr>ts_completed := (ts_completed ts)(cid \<mapsto> s - {tid})\<rparr>"
  have d: "dom (ts_completed ?ts) = dom (ts_completed ts)" using Cons.prems by auto
  have "cid \<in> dom (ts_completed ?ts)" by simp
  from Cons.IH [OF this] obtain m where "for_each gone (\<lambda>_ ts. do {
        done' \<leftarrow> ts_completed ts cid;
        Some (ts\<lparr>ts_completed := (ts_completed ts)(cid \<mapsto> done' - {tid})\<rparr>) }) ?ts = Some (?ts\<lparr>ts_completed := m\<rparr>)" "dom m = dom (ts_completed ?ts)" by blast
  then show ?case using d by (intro exI [of _ m]) (simp only: for_each.simps s bind.simps option.case, simp)
qed

lemma remove_timer_spec:
  assumes i: "timer_inv ts" and c: "cid < length (ts_clients ts)"
  obtains ts' where "remove_timer cid tid ts = Some ts'" "timer_inv ts'" "same_config ts ts'"
    "ts_outstanding ts' = filter (\<lambda>t. tm_key t \<noteq> (cid, tid)) (ts_outstanding ts)"
proof -
  let ?kept = "filter (\<lambda>t. tm_key t \<noteq> (cid, tid)) (ts_outstanding ts)" and ?ts = "ts\<lparr>ts_outstanding := filter (\<lambda>t. tm_key t \<noteq> (cid, tid)) (ts_outstanding ts)\<rparr>"
  note i' = i [unfolded timer_inv_def]
  have s: "cid \<in> dom (ts_completed ?ts)" using i' c by simp
  from for_each_remove [OF s, of "filter (\<lambda>t. tm_client t = cid \<and> tm_timer t = tid) (ts_outstanding ts)" tid] obtain m where
    r: "remove_timer cid tid ts = Some (?ts\<lparr>ts_completed := m\<rparr>)" and m: "dom m = dom (ts_completed ts)"
    by (auto simp: remove_timer_def partition_filter_conv o_def Let_def)
  have "sorted (map tm_compare ?kept)" "distinct (map tm_key ?kept)" using i' by (auto intro: sorted_filter simp: distinct_map inj_on_def)
  then have "timer_inv (?ts\<lparr>ts_completed := m\<rparr>)" using i' m by (auto simp: timer_inv_def)
  from that [OF r this] show ?thesis by (simp add: same_config_def)
qed

lemma set_timer_spec:
  assumes i: "timer_inv ts" and c: "tm_client t < length (ts_clients ts)" and D: "search_ok D" and ok: "i64_ok (tm_compare t)"
  obtains ts' where "set_timer D t ts = Some ts'" "timer_inv ts'" "same_config ts ts'"
    "mset (ts_outstanding ts') = add_mset t (mset (filter (\<lambda>u. tm_key u \<noteq> tm_key t) (ts_outstanding ts)))"
proof -
  from i c obtain ts1 where r: "remove_timer (tm_client t) (tm_timer t) ts = Some ts1" "timer_inv ts1" "same_config ts ts1"
    "ts_outstanding ts1 = filter (\<lambda>u. tm_key u \<noteq> tm_key t) (ts_outstanding ts)" by (rule remove_timer_spec)
  note i1 = r(2) [unfolded timer_inv_def]
  from i1 Timers_insert_spec [OF D, of "ts_outstanding ts1" t] obtain out where
    o: "Timers_insert D t (ts_outstanding ts1) = Some out" "sorted (map tm_compare out)" "mset out = add_mset t (mset (ts_outstanding ts1))" by auto
  have "distinct (map tm_key out)" using i1 by (intro distinct_keys_mset [OF o(3), of t]) (auto simp: r(4))
  moreover have "set out = insert t (set (ts_outstanding ts1))" using o(3) by (metis set_mset_mset set_mset_add_mset_insert)
  ultimately have "timer_inv (ts1\<lparr>ts_outstanding := out\<rparr>)" using i1 o(2) c ok r(3) by (auto simp: timer_inv_def same_config_def)
  then show ?thesis using r o by (intro that [of "ts1\<lparr>ts_outstanding := out\<rparr>"]) (auto simp: set_timer_def same_config_def)
qed

lemma arm_keeps:
  assumes "arm D cid tid f p ts = Some (Some (x, ts'))" "timer_inv ts" "search_ok D" "cid < length (ts_clients ts)" "\<And>now. i64_ok (f now)"
  shows "timer_inv ts' \<and> same_config ts ts'"
proof (cases "guard_tid tid ts")
  case True
  obtain now ts1 where n: "now_tick D ts = (now, ts1)" by (cases "now_tick D ts")
  from now_tick_keeps [OF n] obtain d where ts1: "ts1 = ts\<lparr>ts_device := d\<rparr>" by auto
  have p: "timer_inv ts1" "tm_client \<lparr>tm_client = cid, tm_timer = tid, tm_compare = f now, tm_period = p\<rparr> < length (ts_clients ts1)"
    "i64_ok (tm_compare \<lparr>tm_client = cid, tm_timer = tid, tm_compare = f now, tm_period = p\<rparr>)" using assms(2,4,5) by (simp_all add: ts1)
  from p(1,2) assms(3) p(3) obtain ts2 where s: "set_timer D \<lparr>tm_client = cid, tm_timer = tid, tm_compare = f now, tm_period = p\<rparr> ts1 = Some ts2"
    "timer_inv ts2" "same_config ts1 ts2" by (rule set_timer_spec)
  from assms(1) True n s(1) have "ts_update D now ts2 = Some (Some ts')" by (auto simp: arm_def)
  from update_keeps [OF this s(2) assms(3)] s(3) show ?thesis by (auto simp: ts1 dest: same_config_trans)
qed (use assms in \<open>simp add: arm_def\<close>)

lemma request_keeps:
  assumes "ts_handle_request D cid req ts = Some (Some (x, ts'))" "timer_inv ts" "search_ok D" "cid < length (ts_clients ts)"
  shows "timer_inv ts' \<and> same_config ts ts'"
proof -
  have t: "i64_ok (ns_to_tick ts ns)" for ns by (simp add: ns_to_tick_def)
  from assms(1) consider f p y tid where "arm D cid tid f p ts = Some (Some (y, ts'))" "\<And>now. i64_ok (f now)"
    | tid y where "stop_timer cid tid ts = Some (y, ts')" | ns where "now_ns D ts = Some (ns, ts')"
    by (cases req) (auto simp: ts_handle_request_def periodic_def oneshot_absolute_def oneshot_relative_def t intro: t)
  then show ?thesis
  proof cases
    case 1
    with arm_keeps assms show ?thesis by blast
  next
    case 2
    show ?thesis
    proof (cases "guard_tid tid ts")
      case True
      from assms(2,4) obtain ts1 where "remove_timer cid tid ts = Some ts1" "timer_inv ts1" "same_config ts ts1" by (rule remove_timer_spec)
      with 2 True show ?thesis by (simp add: stop_timer_def)
    qed (use 2 assms(2) in \<open>simp add: stop_timer_def\<close>)
  next
    case 3
    then show ?thesis using assms(2) by (auto simp: now_ns_def now_tick_def case_prod_beta)
  qed
qed

section \<open>Runs\<close>

text \<open>The server from its start, over the interrupts and requests it completes; the badges name its clients.\<close>

inductive ts_reach :: "'d timer_env \<Rightarrow> 'd TimerServer \<Rightarrow> 'd TimerServer \<Rightarrow> bool" for D ts0 where
  ts_start: "ts_reach D ts0 ts0"
| ts_serve: "ts_reach D ts0 ts \<Longrightarrow> ts_handle D badge req ts = Some (Some (x, ts')) \<Longrightarrow>
    (badge \<noteq> INTERRUPT_BADGE \<Longrightarrow> unat (badge - CLIENT_BADGE_START) < length (ts_clients ts)) \<Longrightarrow> ts_reach D ts0 ts'"

lemma case_unit_sum: "(case (a :: unit + unit) of Inl _ \<Rightarrow> x | Inr _ \<Rightarrow> y) = (if a = Inr () then y else x)"
  by (cases a) simp_all

lemma handle_keeps:
  assumes "ts_handle D badge req ts = Some (Some (x, ts'))" "timer_inv ts" "search_ok D"
    and c: "badge \<noteq> INTERRUPT_BADGE \<Longrightarrow> unat (badge - CLIENT_BADGE_START) < length (ts_clients ts)"
  shows "timer_inv ts' \<and> same_config ts ts'"
proof (cases "badge = INTERRUPT_BADGE")
  case True
  from assms(1) True obtain ts1 where h: "handle_interrupt D ts = Some (Some ts1)" and ts': "\<exists>d. ts' = ts1\<lparr>ts_device := d\<rparr>"
    by (auto simp: ts_handle_def bind_eq_Some_conv case_prod_beta case_unit_sum split: if_splits)
  obtain now ts2 where n: "now_tick D (ts\<lparr>ts_device := te_clear_interrupt D (ts_device ts)\<rparr>) = (now, ts2)"
    by (cases "now_tick D (ts\<lparr>ts_device := te_clear_interrupt D (ts_device ts)\<rparr>)")
  from now_tick_keeps [OF n] have ts2: "timer_inv ts2" "same_config ts ts2" using assms(2) by auto
  have "ts_update D now ts2 = Some (Some ts1)" using h n by (simp add: handle_interrupt_def)
  from update_keeps [OF this ts2(1) assms(3)] ts2(2) ts' show ?thesis by (auto dest: same_config_trans simp: same_config_def)
next
  case False
  with assms(1) c [OF False] show ?thesis using request_keeps [OF _ assms(2,3)] by (auto simp: ts_handle_def)
qed

lemma ts_reach_keeps: "ts_reach D ts0 ts \<Longrightarrow> timer_inv ts0 \<Longrightarrow> search_ok D \<Longrightarrow> timer_inv ts \<and> same_config ts0 ts"
proof (induction rule: ts_reach.induct)
  case (ts_serve ts badge req x ts')
  then show ?case using handle_keeps [OF ts_serve.hyps(2) _ _ ts_serve.hyps(3)] same_config_trans by blast
qed simp

lemma new_timer_inv: "TimerServer_new D clients n d = Some ts \<Longrightarrow> timer_inv ts"
  by (auto simp: TimerServer_new_def timer_inv_def bind_eq_Some_conv split: if_splits)

section \<open>A concrete server\<close>

definition tx_env :: "unit timer_env" where
  "tx_env = \<lparr>te_get_freq = \<lambda>_. 1000000000, te_get_count = \<lambda>_. (100, ()), te_set_enable = \<lambda>_ _. (), te_set_compare = \<lambda>_ _. (True, ()),
     te_clear_interrupt = \<lambda>_. (), te_signal = \<lambda>_ _. (), te_irq_ack = \<lambda>_. (Inr (), ()),
     te_binary_search = \<lambda>ts c. length (takeWhile (\<lambda>t. tm_compare t \<le> c) ts)\<rparr>"

lemma sorted_dropWhile_above: "sorted (map tm_compare ts) \<Longrightarrow> t \<in> set (dropWhile (\<lambda>t. tm_compare t \<le> c) ts) \<Longrightarrow> c \<le> tm_compare t"
  by (induction ts) (fastforce split: if_splits)+

lemma tx_search: "search_ok tx_env"
proof -
  have s: "te_binary_search tx_env ts c = length (takeWhile (\<lambda>t. tm_compare t \<le> c) ts)" for ts c by (simp add: tx_env_def)
  show ?thesis
    unfolding search_ok_def s takeWhile_eq_take [symmetric] dropWhile_eq_drop [symmetric]
    by (auto dest: set_takeWhileD sorted_dropWhile_above simp: length_takeWhile_le)
qed

definition tx_server :: "unit TimerServer" where
  "tx_server = the (TimerServer_new tx_env [7] TIMERS_PER_CLIENT ())"

lemma tx_new: "TimerServer_new tx_env [7] TIMERS_PER_CLIENT () = Some tx_server" "timer_inv tx_server" "ts_clients tx_server = [7]"
  "ts_timers_per_client tx_server = 1" "ts_freq tx_server = 1000000000" "ts_outstanding tx_server = []"
  "ts_completed tx_server = (\<lambda>c. if c < 1 then Some {} else None)"
proof -
  show n: "TimerServer_new tx_env [7] TIMERS_PER_CLIENT () = Some tx_server"
    by (simp add: tx_server_def TimerServer_new_def TIMERS_PER_CLIENT_def rust_assert_def)
  show "timer_inv tx_server" by (rule new_timer_inv [OF n])
  show "ts_clients tx_server = [7]" "ts_timers_per_client tx_server = 1" "ts_freq tx_server = 1000000000" "ts_outstanding tx_server = []"
    "ts_completed tx_server = (\<lambda>c. if c < 1 then Some {} else None)"
    by (simp_all add: tx_server_def TimerServer_new_def TIMERS_PER_CLIENT_def rust_assert_def tx_env_def)
qed

text \<open>The server with a timer that is due and a periodic one that is due too.\<close>

definition tx_busy :: "unit TimerServer" where
  "tx_busy = tx_server\<lparr>ts_outstanding := [\<lparr>tm_client = 0, tm_timer = 0, tm_compare = 40, tm_period = None\<rparr>,
     \<lparr>tm_client = 0, tm_timer = 1, tm_compare = 90, tm_period = Some 7\<rparr>]\<rparr>"

lemma tx_busy_ok: "timer_inv tx_busy" "periods_ok 100 (ts_outstanding tx_busy)"
  using tx_new(2) by (auto simp: tx_busy_def timer_inv_def periods_ok_def i64_ok_def tx_new)

section \<open>Properties\<close>

text \<open>
  C17. Expiry returns and is complete: when every period is positive and the next due times fit \<^verbatim>\<open>i64\<close>, \<^verbatim>\<open>update\<close> returns without a
  panic, no timer is due afterwards, the completed sets have grown by exactly the timers that were due, and the queue
  is sorted with one entry per timer. The device must accept the compare value, as the virtual timer does.
\<close>

theorem expiry_complete:
  assumes i: "timer_inv ts" and D: "search_ok D" "\<And>c d. fst (te_set_compare D c d)" and p: "periods_ok now (ts_outstanding ts)"
  shows "\<exists>ts'. ts_update D now ts = Some (Some ts') \<and> sorted (map tm_compare (ts_outstanding ts')) \<and> distinct (map tm_key (ts_outstanding ts')) \<and>
    (\<forall>t\<in>set (ts_outstanding ts'). now < tm_compare t) \<and>
    (\<forall>c. ts_completed ts' c = map_option (\<lambda>s. s \<union> {tm_timer t |t. t \<in> set (ts_outstanding ts) \<and> tm_client t = c \<and> tm_compare t \<le> now}) (ts_completed ts c))"
proof -
  from update_timers_returns [OF i D(1) p] update_timers_result [OF _ i D(1)] obtain ts1 where
    u: "update_timers D now ts = Some (Some ts1)" "expired now ts ts1" by blast
  have "\<exists>d. ts_update D now ts = Some (Some (ts1\<lparr>ts_device := d\<rparr>))"
    using D(2) by (subst ts_update.simps) (auto simp: u(1) split: list.split)
  with u(2) show ?thesis by (auto simp: expired_def timer_inv_def due_def)
qed

theorem expiry_complete_witness:
  "\<exists>ts'. ts_update tx_env 100 tx_busy = Some (Some ts') \<and> ts_completed ts' 0 = Some {0, 1} \<and> (\<forall>t\<in>set (ts_outstanding ts'). 100 < tm_compare t)"
proof -
  have "fst (te_set_compare tx_env c d)" for c d by (simp add: tx_env_def)
  from expiry_complete [OF tx_busy_ok(1) tx_search this tx_busy_ok(2)] obtain ts' where
    t: "ts_update tx_env 100 tx_busy = Some (Some ts')" "\<forall>t\<in>set (ts_outstanding ts'). 100 < tm_compare t"
      "ts_completed ts' 0 = map_option (\<lambda>s. s \<union> {tm_timer t |t. t \<in> set (ts_outstanding tx_busy) \<and> tm_client t = 0 \<and> tm_compare t \<le> 100}) (ts_completed tx_busy 0)" by blast
  have "{tm_timer t |t. t \<in> set (ts_outstanding tx_busy) \<and> tm_client t = 0 \<and> tm_compare t \<le> 100} = {0, 1}"
    by (force simp: tx_busy_def)
  with t show ?thesis by (auto simp: tx_busy_def tx_new)
qed

text \<open>
  C29. A periodic timer whose period is shorter than a tick hangs the timer server: the request never returns, with the
  lock of the server held.
\<close>

theorem zero_period_never_returns:
  assumes i: "timer_inv ts" and D: "search_ok D" and c: "cid < length (ts_clients ts)" and g: "tid \<le> ts_timers_per_client ts"
    and z: "ns_to_tick ts ns = 0"
  shows "periodic D cid tid ns ts = None"
proof -
  obtain now ts1 where n: "now_tick D ts = (now, ts1)" by (cases "now_tick D ts")
  from now_tick_keeps [OF n] obtain d where ts1: "ts1 = ts\<lparr>ts_device := d\<rparr>" by auto
  have now: "i64_ok now" using n by (auto simp: now_tick_def case_prod_beta)
  define t where "t = \<lparr>tm_client = cid, tm_timer = tid, tm_compare = now, tm_period = Some 0\<rparr>"
  have p: "timer_inv ts1" "tm_client t < length (ts_clients ts1)" "i64_ok (tm_compare t)" using i c now by (simp_all add: ts1 t_def)
  from p(1,2) D p(3) obtain ts2 where s: "set_timer D t ts1 = Some ts2" "timer_inv ts2"
    "mset (ts_outstanding ts2) = add_mset t (mset (filter (\<lambda>u. tm_key u \<noteq> tm_key t) (ts_outstanding ts1)))" by (rule set_timer_spec)
  have "t \<in> set (ts_outstanding ts2)" using s(3) by (metis union_single_eq_member set_mset_mset)
  then have "update_timers D now ts2 = None"
    using zero_period_loops [OF _ s(2) D, of now _ t] by (cases "update_timers D now ts2") (auto simp: t_def)
  then have "ts_update D now ts2 = None" by (subst ts_update.simps) simp
  then show ?thesis using s(1) g n z now by (simp add: periodic_def arm_def guard_tid_def t_def)
qed

theorem zero_period_never_returns_witness: "periodic tx_env 0 0 0 tx_server = None"
  using zero_period_never_returns [OF tx_new(2) tx_search, of 0 0 0] by (simp add: tx_new ns_to_tick_def quot_int_def i64_def)

text \<open>
  C18. The invariant of the timer server over every sequence of interrupts and requests it completes: the queue is sorted
  by due time, a timer of a client is in it at most once, and every entry belongs to a client of the server.
\<close>

theorem timer_reach_invariant:
  assumes "TimerServer_new D clients n d = Some ts0" "ts_reach D ts0 ts" "search_ok D"
  shows "sorted (map tm_compare (ts_outstanding ts)) \<and> distinct (map tm_key (ts_outstanding ts)) \<and>
    (\<forall>t\<in>set (ts_outstanding ts). tm_client t < length clients) \<and> dom (ts_completed ts) = {..<length clients}"
proof -
  have "ts_clients ts0 = clients" using assms(1) by (auto simp: TimerServer_new_def bind_eq_Some_conv split: if_splits)
  with ts_reach_keeps [OF assms(2) new_timer_inv [OF assms(1)] assms(3)] show ?thesis by (auto simp: timer_inv_def same_config_def)
qed

theorem timer_reach_invariant_witness:
  "\<exists>x ts. ts_handle tx_env 2 (Timer_Stop 0) tx_server = Some (Some (x, ts)) \<and> distinct (map tm_key (ts_outstanding ts)) \<and> dom (ts_completed ts) = {..<1}"
proof -
  from tx_new(2) obtain ts where r: "remove_timer 0 0 tx_server = Some ts" using remove_timer_spec [of tx_server 0 0] by (metis tx_new(3) length_0_conv less_one list.distinct(1) list.size(3) length_greater_0_conv)
  then have h: "ts_handle tx_env 2 (Timer_Stop 0) tx_server = Some (Some (Reply_result (Inr ()), ts))"
    by (simp add: ts_handle_def INTERRUPT_BADGE_def CLIENT_BADGE_START_def ts_handle_request_def stop_timer_def guard_tid_def tx_new)
  have "ts_reach tx_env tx_server ts" by (rule ts_serve [OF ts_start h]) (simp add: INTERRUPT_BADGE_def CLIENT_BADGE_START_def tx_new)
  from timer_reach_invariant [OF tx_new(1) this tx_search] h show ?thesis by auto
qed

end
