(* ===== verification/TimerDrivers.thy ===== *)
theory TimerDrivers
  imports TimerServerProps
begin

text \<open>
  The two timer devices behind the timer server (\<^verbatim>\<open>framework/drivers/devices/virt-timer\<close> and \<^verbatim>\<open>bcm-system-timer\<close>). The
  memory mapped registers are parameters: a read may change the state of the device, because time passes.
\<close>

section \<open>The virtual timer\<close>

record 'd virt_regs =
  vr_freq :: "'d \<Rightarrow> u32"
  vr_count :: "'d \<Rightarrow> u64 \<times> 'd"
  vr_set_enable :: "u32 \<Rightarrow> 'd \<Rightarrow> 'd"
  vr_set_compare :: "u64 \<Rightarrow> 'd \<Rightarrow> 'd"

definition VirtTimerDevice :: "'d virt_regs \<Rightarrow> 'd timer_env \<Rightarrow> 'd timer_env" where
  "VirtTimerDevice R D = D\<lparr>te_get_freq := \<lambda>d. unat (vr_freq R d),
     te_set_enable := \<lambda>enabled. vr_set_enable R (if enabled then 1 else 0),
     te_get_count := vr_count R,
     te_set_compare := \<lambda>compare d. (True, vr_set_compare R compare d),
     te_clear_interrupt := \<lambda>d. d\<rparr>"

section \<open>The system timer of the BCM2835\<close>

definition KHZ :: u64 where "KHZ = 1000"
definition MHZ :: u64 where "MHZ = 1000 * KHZ"
definition BCM_FREQ :: u64 where "BCM_FREQ = 1 * MHZ"

definition BCM_MATCH_IX :: nat where "BCM_MATCH_IX = 1"

record 'd bcm_regs =
  br_counter_hi :: "'d \<Rightarrow> u32 \<times> 'd"
  br_counter_lo :: "'d \<Rightarrow> u32 \<times> 'd"
  br_set_compare :: "nat \<Rightarrow> u32 \<Rightarrow> 'd \<Rightarrow> 'd"
  br_set_ctrl :: "u32 \<Rightarrow> 'd \<Rightarrow> 'd"

definition split_reg :: "u64 \<Rightarrow> u32 \<times> u32" where
  "split_reg whole = (ucast (shr whole 32), ucast (whole AND (shl 1 32 - 1)))"

definition join_reg :: "u32 \<Rightarrow> u32 \<Rightarrow> u64" where
  "join_reg hi lo = shl (ucast hi) 32 OR ucast lo"

text \<open>The high word is read before and after the low word; when it has moved on, the low word is read again.\<close>

definition get_count_split :: "'d bcm_regs \<Rightarrow> 'd \<Rightarrow> (u32 \<times> u32) \<times> 'd" where
  "get_count_split R d =
     (let (hi_0, d) = br_counter_hi R d; (lo_0, d) = br_counter_lo R d; (hi, d) = br_counter_hi R d;
          (lo, d) = (if hi_0 = hi then (lo_0, d) else br_counter_lo R d)
      in ((hi, lo), d))"

definition bcm_get_count :: "'d bcm_regs \<Rightarrow> 'd \<Rightarrow> u64 \<times> 'd" where
  "bcm_get_count R d = (let ((hi, lo), d) = get_count_split R d in (join_reg hi lo, d))"

text \<open>Only the low word can be set; the first reading of the counter is for a debug message.\<close>

definition bcm_set_compare :: "'d bcm_regs \<Rightarrow> u64 \<Rightarrow> 'd \<Rightarrow> bool \<times> 'd" where
  "bcm_set_compare R compare d =
     (let (compare_hi, compare_lo) = split_reg compare; (_, d) = get_count_split R d;
          d = br_set_compare R BCM_MATCH_IX compare_lo d; (count, d) = bcm_get_count R d
      in (compare \<ge> count, d))"

definition BcmSystemTimerDevice :: "'d bcm_regs \<Rightarrow> 'd timer_env \<Rightarrow> 'd timer_env" where
  "BcmSystemTimerDevice R D = D\<lparr>te_get_freq := \<lambda>d. unat (ucast BCM_FREQ :: u32),
     te_set_enable := \<lambda>_ d. d,
     te_get_count := bcm_get_count R,
     te_set_compare := bcm_set_compare R,
     te_clear_interrupt := br_set_ctrl R (shl 1 BCM_MATCH_IX)\<rparr>"

section \<open>The counter\<close>

text \<open>The registers show the two halves of a counter that moves forward between reads.\<close>

definition shows_counter :: "'d bcm_regs \<Rightarrow> ('d \<Rightarrow> nat) \<Rightarrow> bool" where
  "shows_counter R clock \<longleftrightarrow> (\<forall>d.
     fst (br_counter_hi R d) = of_nat (clock d div 2 ^ 32) \<and> fst (br_counter_lo R d) = of_nat (clock d mod 2 ^ 32) \<and>
     clock d \<le> clock (snd (br_counter_hi R d)) \<and> clock d \<le> clock (snd (br_counter_lo R d)) \<and> clock d < 2 ^ 64)"

lemma join_reg_halves:
  assumes "h < 2 ^ 32" "l < 2 ^ 32"
  shows "unat (join_reg (of_nat h) (of_nat l)) = h * 2 ^ 32 + l"
proof -
  have d: "push_bit 32 (ucast (of_nat h :: u32) :: u64) AND ucast (of_nat l :: u32) = 0"
    by (rule bit_word_eqI) (auto simp: bit_and_iff bit_push_bit_iff bit_ucast_iff dest: bit_word_lt)
  have u: "ucast (of_nat n :: u32) = (of_nat n :: u64)" if "n < 2 ^ 32" for n
    using that by (simp add: word_unat_eq_iff unsigned_ucast_eq unat_of_nat take_bit_nat_eq_self)
  have "join_reg (of_nat h) (of_nat l) = push_bit 32 (of_nat h) + of_nat l"
    using d assms by (simp add: join_reg_def shl_in disjunctive_add_eq_or u)
  also have "\<dots> = (of_nat (h * 2 ^ 32 + l) :: u64)" by (simp add: push_bit_eq_mult)
  finally have "join_reg (of_nat h) (of_nat l) = of_nat (h * 2 ^ 32 + l)" .
  moreover have "h * 2 ^ 32 + l < 2 ^ 64" using assms by simp
  ultimately show ?thesis by (simp only: unat_of_nat) simp
qed

lemma join_counter: "c < 2 ^ 64 \<Longrightarrow> unat (join_reg (of_nat (c div 2 ^ 32)) (of_nat (c mod 2 ^ 32))) = c"
  using join_reg_halves [of "c div 2 ^ 32" "c mod 2 ^ 32"] by (simp add: less_mult_imp_div_less)

lemma of_nat_u32_eq: "a < 2 ^ 32 \<Longrightarrow> b < 2 ^ 32 \<Longrightarrow> (of_nat a :: u32) = of_nat b \<longleftrightarrow> a = b"
  by (simp add: word_unat_eq_iff unat_of_nat)

section \<open>Properties\<close>

text \<open>
  C30. Reading the 64 bit counter through its two 32 bit halves is safe: when fewer than \<open>2\<^sup>3\<^sup>2\<close> ticks pass during a
  reading, the result is a value the counter had between the start and the end of the reading, also when the low half
  overflows in between.
\<close>

theorem bcm_count_in_window:
  assumes R: "shows_counter R clock" and c: "bcm_get_count R d = (n, d')" and w: "clock d' < clock d + 2 ^ 32"
  shows "clock d \<le> unat n \<and> unat n \<le> clock d'"
proof -
  obtain hi0 d1 where 1: "br_counter_hi R d = (hi0, d1)" by (cases "br_counter_hi R d")
  obtain lo0 d2 where 2: "br_counter_lo R d1 = (lo0, d2)" by (cases "br_counter_lo R d1")
  obtain hi d3 where 3: "br_counter_hi R d2 = (hi, d3)" by (cases "br_counter_hi R d2")
  obtain lo d4 where 4: "br_counter_lo R d3 = (lo, d4)" by (cases "br_counter_lo R d3")
  have v: "hi0 = of_nat (clock d div 2 ^ 32)" "lo0 = of_nat (clock d1 mod 2 ^ 32)" "hi = of_nat (clock d2 div 2 ^ 32)" "lo = of_nat (clock d3 mod 2 ^ 32)"
    "clock d \<le> clock d1" "clock d1 \<le> clock d2" "clock d2 \<le> clock d3" "clock d3 \<le> clock d4" "clock d < 2 ^ 64" "clock d1 < 2 ^ 64" "clock d2 < 2 ^ 64" "clock d3 < 2 ^ 64"
    using R 1 2 3 4 unfolding shows_counter_def by (metis fst_conv snd_conv)+
  have q: "clock x div 2 ^ 32 < 2 ^ 32" if "clock x < 2 ^ 64" for x using that by (simp add: less_mult_imp_div_less)
  show ?thesis
  proof (cases "hi0 = hi")
    case True
    then have "clock d div 2 ^ 32 = clock d2 div 2 ^ 32" using v q of_nat_u32_eq by metis
    then have "clock d1 div 2 ^ 32 = clock d2 div 2 ^ 32" using v(5,6) div_le_mono [of "clock d" "clock d1" "2 ^ 32"] div_le_mono [of "clock d1" "clock d2" "2 ^ 32"] by linarith
    moreover from True c 1 2 3 have "n = join_reg hi lo0" "d' = d3" by (simp_all add: bcm_get_count_def get_count_split_def)
    ultimately have "unat n = clock d1" using join_counter [OF v(10)] v(2,3) by simp
    with v \<open>d' = d3\<close> show ?thesis by simp
  next
    case False
    from False c 1 2 3 4 have n: "n = join_reg hi lo" "d' = d4" by (simp_all add: bcm_get_count_def get_count_split_def)
    have "clock d div 2 ^ 32 \<noteq> clock d2 div 2 ^ 32" using False v(1,3) by auto
    then have "clock d div 2 ^ 32 < clock d2 div 2 ^ 32" using div_le_mono [of "clock d" "clock d2" "2 ^ 32"] v(5,6) by linarith
    moreover have "clock d3 div 2 ^ 32 \<le> Suc (clock d div 2 ^ 32)"
      using div_le_mono [of "clock d3" "clock d + 2 ^ 32" "2 ^ 32"] w v(8) n(2) by (simp add: div_add_self2)
    moreover have "clock d2 div 2 ^ 32 \<le> clock d3 div 2 ^ 32" using v(7) by (rule div_le_mono)
    ultimately have "clock d3 div 2 ^ 32 = clock d2 div 2 ^ 32" by linarith
    then have "unat n = clock d3" using join_counter [OF v(12)] v(3,4) n(1) by simp
    with v n(2) show ?thesis by simp
  qed
qed

text \<open>A counter that is about to overflow its low half; every read takes a tick.\<close>

definition tick_regs :: "nat bcm_regs" where
  "tick_regs = \<lparr>br_counter_hi = \<lambda>d. (of_nat (min d (2 ^ 64 - 1) div 2 ^ 32), if d < 2 ^ 64 - 1 then d + 1 else d),
     br_counter_lo = \<lambda>d. (of_nat (min d (2 ^ 64 - 1) mod 2 ^ 32), if d < 2 ^ 64 - 1 then d + 1 else d), br_set_compare = \<lambda>i c d. d, br_set_ctrl = \<lambda>c d. d\<rparr>"

lemma tick_shows: "shows_counter tick_regs (\<lambda>d. min d (2 ^ 64 - 1))"
  by (auto simp: shows_counter_def tick_regs_def)

theorem bcm_count_in_window_witness:
  "2 ^ 32 - 2 \<le> unat (fst (bcm_get_count tick_regs (2 ^ 32 - 2))) \<and> unat (fst (bcm_get_count tick_regs (2 ^ 32 - 2))) \<le> 2 ^ 32 + 2"
proof -
  have s: "snd (bcm_get_count tick_regs (2 ^ 32 - 2)) = 2 ^ 32 + 2"
    by (simp add: bcm_get_count_def get_count_split_def tick_regs_def)
  obtain n where c: "bcm_get_count tick_regs (2 ^ 32 - 2) = (n, 2 ^ 32 + 2)" using s by (metis prod.collapse)
  from bcm_count_in_window [OF tick_shows c] show ?thesis unfolding c by simp
qed

end
