(* ===== verification/SerialServer.thy ===== *)
theory SerialServer
  imports RingBuffer CSpace
begin

text \<open>
  The serial server (\<^verbatim>\<open>generic-components/serial-server/core/src\<close>): the output of its clients is collected line by line
  and written to one serial device in the client's colour, and the input of the device goes to one client, which an
  escape sequence selects. The device is a parameter. A result \<open>None\<close> is a call that does not return, \<open>Some None\<close> a panic.
\<close>

type_synonym 'a serial_run = "'a option option"

definition run_bind :: "'a serial_run \<Rightarrow> ('a \<Rightarrow> 'b serial_run) \<Rightarrow> 'b serial_run" where
  "run_bind m f = (case m of None \<Rightarrow> None | Some None \<Rightarrow> Some None | Some (Some a) \<Rightarrow> f a)"

primrec run_for_each :: "'a list \<Rightarrow> ('a \<Rightarrow> 's \<Rightarrow> 's serial_run) \<Rightarrow> 's \<Rightarrow> 's serial_run" where
  "run_for_each [] f s = Some (Some s)"
| "run_for_each (x # xs) f s = run_bind (f x s) (run_for_each xs f)"

record 'd serial_env =
  sd_put_char :: "u8 \<Rightarrow> 'd \<Rightarrow> 'd"
  sd_get_char :: "'d \<Rightarrow> u8 option \<times> 'd"
  sd_handle_interrupt :: "'d \<Rightarrow> 'd"

section \<open>Text\<close>

definition out :: "'d serial_env \<Rightarrow> u8 list \<Rightarrow> 'd \<Rightarrow> 'd" where
  "out D bs d = fold (sd_put_char D) bs d"

definition ascii :: "string \<Rightarrow> u8 list" where
  "ascii cs = map of_char cs"

fun decimal :: "nat \<Rightarrow> u8 list" where
  "decimal n = (if n < 10 then [0x30 + of_nat n] else decimal (n div 10) @ [0x30 + of_nat (n mod 10)])"

declare decimal.simps [simp del]

datatype BaseColor = C_Black | C_Red | C_Green | C_Yellow | C_Blue | C_Magenta | C_Cyan | C_White

datatype Style = S_Normal | S_Bold

datatype Color = Color BaseColor Style

definition base_code :: "BaseColor \<Rightarrow> nat" where
  "base_code b = (case b of C_Black \<Rightarrow> 0 | C_Red \<Rightarrow> 1 | C_Green \<Rightarrow> 2 | C_Yellow \<Rightarrow> 3 | C_Blue \<Rightarrow> 4 | C_Magenta \<Rightarrow> 5 | C_Cyan \<Rightarrow> 6 | C_White \<Rightarrow> 7)"

definition Color_set :: "Color \<Rightarrow> u8 list" where
  "Color_set c = (case c of Color b s \<Rightarrow>
     [0x1B] @ ascii ''[3'' @ decimal (base_code b) @ (case s of S_Bold \<Rightarrow> ascii '';1'' | S_Normal \<Rightarrow> []) @ ascii ''m'')"

definition Color_clear :: "u8 list" where
  "Color_clear = [0x1B] @ ascii ''[0m''"

definition COLORS :: "Color list" where
  "COLORS = [Color C_Red S_Normal, Color C_Green S_Normal, Color C_Blue S_Normal, Color C_Magenta S_Normal, Color C_Yellow S_Normal, Color C_Cyan S_Normal,
     Color C_Red S_Bold, Color C_Green S_Bold, Color C_Blue S_Bold, Color C_Magenta S_Bold, Color C_Yellow S_Bold, Color C_Cyan S_Bold]"

section \<open>State\<close>

record SerialClient =
  cl_driver :: BufferedRingBuffer
  cl_buffer :: "u8 list"
  cl_color :: Color

datatype InputState = Start | NewLine | Escape

record 'd SerialServer =
  sv_clients :: "SerialClient list"
  sv_active_input_client :: "nat option"
  sv_last_output_client :: "nat option"
  sv_output_since_last_timeout :: bool
  sv_input_state :: InputState
  sv_dev :: 'd

definition ESCAPE :: u8 where "ESCAPE = 0x40"
definition NEWLINE :: u8 where "NEWLINE = 0x0A"
definition MAX_NUM_CLIENTS :: nat where "MAX_NUM_CLIENTS = length COLORS"
definition BUFFER_LIMIT :: nat where "BUFFER_LIMIT = 0x1000"

definition SerialServer_new :: "'d \<Rightarrow> RingBuffer list \<Rightarrow> 'd SerialServer option" where
  "SerialServer_new dev clients = do {
     rust_assert (length clients \<le> MAX_NUM_CLIENTS);
     Some \<lparr>sv_clients = map (\<lambda>(i, rb). \<lparr>cl_driver = \<lparr>brb = rb, brb_q = []\<rparr>, cl_buffer = [], cl_color = COLORS ! i\<rparr>) (enumerate 0 clients),
       sv_active_input_client = (if clients = [] then None else Some 0), sv_last_output_client = None,
       sv_output_since_last_timeout = False, sv_input_state = Start, sv_dev = dev\<rparr> }"

definition set_client :: "nat \<Rightarrow> SerialClient \<Rightarrow> 'd SerialServer \<Rightarrow> 'd SerialServer" where
  "set_client i c s = s\<lparr>sv_clients := (sv_clients s)[i := c]\<rparr>"

definition out_dev :: "'d serial_env \<Rightarrow> u8 list \<Rightarrow> 'd SerialServer \<Rightarrow> 'd SerialServer" where
  "out_dev D bs s = s\<lparr>sv_dev := out D bs (sv_dev s)\<rparr>"

section \<open>Output\<close>

definition set_output_client :: "'d serial_env \<Rightarrow> nat \<Rightarrow> 'd SerialServer \<Rightarrow> 'd SerialServer option" where
  "set_output_client D i s =
     (if sv_last_output_client s \<noteq> Some i then do {
        c \<leftarrow> vec_get (sv_clients s) i;
        Some (out_dev D (Color_set (cl_color c)) (s\<lparr>sv_last_output_client := Some i\<rparr>)) }
      else Some s)"

definition clear_output_client :: "'d serial_env \<Rightarrow> 'd SerialServer \<Rightarrow> 'd SerialServer" where
  "clear_output_client D s =
     (case sv_last_output_client s of
        None \<Rightarrow> s
      | Some _ \<Rightarrow> out_dev D Color_clear (s\<lparr>sv_last_output_client := None\<rparr>))"

text \<open>\<^verbatim>\<open>buffer.drain(..n)\<close> onto the device.\<close>

definition drain :: "'d serial_env \<Rightarrow> nat \<Rightarrow> nat \<Rightarrow> 'd SerialServer \<Rightarrow> 'd SerialServer option" where
  "drain D i n s = do {
     s \<leftarrow> set_output_client D i s;
     c \<leftarrow> vec_get (sv_clients s) i;
     let s = set_client i (c\<lparr>cl_buffer := drop n (cl_buffer c)\<rparr>) s;
     Some ((out_dev D (take n (cl_buffer c)) s)\<lparr>sv_output_since_last_timeout := True\<rparr>) }"

definition flush :: "'d serial_env \<Rightarrow> nat \<Rightarrow> 'd SerialServer \<Rightarrow> 'd SerialServer option" where
  "flush D i s = do {
     c \<leftarrow> vec_get (sv_clients s) i;
     if cl_buffer c = [] then Some s else drain D i (length (cl_buffer c)) s }"

definition flush_line :: "'d serial_env \<Rightarrow> nat \<Rightarrow> 'd SerialServer \<Rightarrow> (bool \<times> 'd SerialServer) option" where
  "flush_line D i s = do {
     c \<leftarrow> vec_get (sv_clients s) i;
     if NEWLINE \<notin> set (cl_buffer c) then Some (False, s)
     else map_option (Pair True) (drain D i (Suc (length (takeWhile (\<lambda>x. x \<noteq> NEWLINE) (cl_buffer c)))) s) }"

text \<open>One round over the clients, and the loop that repeats it until no line is left; it reports whether there was one.\<close>

definition flush_round :: "'d serial_env \<Rightarrow> 'd SerialServer \<Rightarrow> (bool \<times> 'd SerialServer) option" where
  "flush_round D s = for_each [0..<length (sv_clients s)] (\<lambda>i (any, s). do {
     (b, s) \<leftarrow> flush_line D i s;
     Some (any \<or> b, s) }) (False, s)"

partial_function (option) flush_lines :: "'d serial_env \<Rightarrow> bool \<Rightarrow> 'd SerialServer \<Rightarrow> (bool \<times> 'd SerialServer) serial_run" where
  "flush_lines D any s = (case flush_round D s of
     None \<Rightarrow> Some None
   | Some (b, s) \<Rightarrow> if b then flush_lines D True s else Some (Some (any, s)))"

definition flush_all :: "'d serial_env \<Rightarrow> 'd SerialServer \<Rightarrow> 'd SerialServer option" where
  "flush_all D s = for_each [0..<length (sv_clients s)] (flush D) s"

definition handle_timeout :: "'d serial_env \<Rightarrow> 'd SerialServer \<Rightarrow> 'd SerialServer serial_run" where
  "handle_timeout D s =
     (if sv_output_since_last_timeout s then Some (Some (s\<lparr>sv_output_since_last_timeout := False\<rparr>))
      else run_bind (flush_lines D False s) (\<lambda>(flushed, s). Some (if \<not> flushed then flush_all D s else Some s)))"

definition handle_client_char :: "'d serial_env \<Rightarrow> nat \<Rightarrow> u8 \<Rightarrow> 'd SerialServer \<Rightarrow> 'd SerialServer serial_run" where
  "handle_client_char D i c s =
     run_bind (Some (do {
       cl \<leftarrow> vec_get (sv_clients s) i;
       let cl = cl\<lparr>cl_buffer := cl_buffer cl @ [c]\<rparr>;
       Some (length (cl_buffer cl), set_client i cl s) })) (\<lambda>(len, s).
     if len = BUFFER_LIMIT then
       run_bind (Some (do {
         s \<leftarrow> flush D i s;
         (case sv_last_output_client s of None \<Rightarrow> Some s | Some j \<Rightarrow> map_option snd (flush_line D j s)) })) (\<lambda>s.
       run_bind (flush_lines D False s) (\<lambda>(_, s). Some (do {
         cl \<leftarrow> vec_get (sv_clients s) i;
         s \<leftarrow> (if length (cl_buffer cl) = BUFFER_LIMIT then flush_all D s else Some s);
         set_output_client D i s })))
     else
       (let any_else = (\<exists>j<length (sv_clients s). j \<noteq> i \<and> cl_buffer (sv_clients s ! j) \<noteq> []) in
        Some (if c = NEWLINE \<or> (sv_last_output_client s = Some i \<and> \<not> any_else) then flush D i s else Some s)))"

text \<open>The bytes that were in the ring at the start of \<^verbatim>\<open>handle_rx\<close>, one at a time; the byte read last stays in the buffer.\<close>

definition rx_byte :: "'d serial_env \<Rightarrow> nat \<Rightarrow> u8 \<times> 'd SerialServer \<Rightarrow> (u8 \<times> 'd SerialServer) serial_run" where
  "rx_byte D i = (\<lambda>(c, s).
     run_bind (Some (do {
       cl \<leftarrow> vec_get (sv_clients s) i;
       (xs, b) \<leftarrow> brb_rx_into (cl_driver cl) 1;
       Some ((if xs = [] then c else hd xs), set_client i (cl\<lparr>cl_driver := b\<rparr>) s) })) (\<lambda>(c, s).
     run_bind (handle_client_char D i c s) (\<lambda>s. Some (Some (c, s)))))"

definition handle_rx :: "'d serial_env \<Rightarrow> nat \<Rightarrow> 'd SerialServer \<Rightarrow> 'd SerialServer serial_run" where
  "handle_rx D i s =
     run_bind (Some (do {
       cl \<leftarrow> vec_get (sv_clients s) i;
       poll_read (brb (cl_driver cl)) })) (\<lambda>n.
     run_bind (run_for_each [0..<n] (\<lambda>_. rx_byte D i) (0, s)) (\<lambda>(_, s).
     Some (do {
       cl \<leftarrow> vec_get (sv_clients s) i;
       Some (set_client i (cl\<lparr>cl_driver := (cl_driver cl)\<lparr>brb := enable_notify_read (brb (cl_driver cl))\<rparr>\<rparr>) s) })))"

definition handle_tx :: "nat \<Rightarrow> 'd SerialServer \<Rightarrow> 'd SerialServer option" where
  "handle_tx i s = do {
     cl \<leftarrow> vec_get (sv_clients s) i;
     (_, b) \<leftarrow> brb_tx_callback (cl_driver cl);
     Some (set_client i (cl\<lparr>cl_driver := b\<lparr>brb := enable_notify_write (brb b)\<rparr>\<rparr>) s) }"

section \<open>Input\<close>

definition forward :: "u8 \<Rightarrow> 'd SerialServer \<Rightarrow> 'd SerialServer option" where
  "forward c s = (case sv_active_input_client s of
     None \<Rightarrow> Some s
   | Some i \<Rightarrow> do {
       cl \<leftarrow> vec_get (sv_clients s) i;
       (_, b) \<leftarrow> brb_tx (cl_driver cl) [c];
       Some (set_client i (cl\<lparr>cl_driver := b\<rparr>) s) })"

definition set_input_client :: "'d serial_env \<Rightarrow> nat \<Rightarrow> 'd SerialServer \<Rightarrow> 'd SerialServer" where
  "set_input_client D i s =
     (out_dev D (ascii ''Switching input to '' @ decimal i @ [NEWLINE]) (clear_output_client D s))\<lparr>sv_active_input_client := Some i\<rparr>"

definition help_text :: "nat \<Rightarrow> u8 list" where
  "help_text n = ascii ''--- SerialServer help ---'' @ [NEWLINE] @ ascii ''Escape char: '' @ decimal (unat ESCAPE) @ [NEWLINE] @
     ascii ''0 - '' @ decimal (usize_sub n 1) @ ascii '' switches input to that client'' @ [NEWLINE] @ ascii ''?      shows this help'' @ [NEWLINE]"

definition raw :: "u8 \<Rightarrow> InputState" where
  "raw c = (if c = 0x0D \<or> c = 0x0A then NewLine else Start)"

definition handle_char :: "'d serial_env \<Rightarrow> u8 \<Rightarrow> 'd SerialServer \<Rightarrow> 'd SerialServer option" where
  "handle_char D c s = do {
     (st, s) \<leftarrow> (case sv_input_state s of
        Start \<Rightarrow> map_option (Pair (raw c)) (forward c s)
      | NewLine \<Rightarrow> (if c = ESCAPE then Some (Escape, s) else map_option (Pair (raw c)) (forward c s))
      | Escape \<Rightarrow>
          if c = ESCAPE then map_option (Pair Start) (forward c s)
          else if c = 0x3F then Some (NewLine, out_dev D (help_text (length (sv_clients s))) (clear_output_client D s))
          else (let client_id = usize_sub (unat c) 0x30 in
            if client_id < length (sv_clients s) then Some (NewLine, set_input_client D client_id s)
            else do { s \<leftarrow> forward ESCAPE s; map_option (Pair Start) (forward c s) }));
     Some (s\<lparr>sv_input_state := st\<rparr>) }"

section \<open>Events\<close>

datatype SerialEvent = Ev_Interrupt | Ev_Timeout | Ev_Con nat

partial_function (option) read_chars :: "'d serial_env \<Rightarrow> 'd SerialServer \<Rightarrow> 'd SerialServer serial_run" where
  "read_chars D s = (case sd_get_char D (sv_dev s) of
     (None, d) \<Rightarrow> Some (Some (s\<lparr>sv_dev := d\<rparr>))
   | (Some c, d) \<Rightarrow> (case handle_char D c (s\<lparr>sv_dev := d\<rparr>) of None \<Rightarrow> Some None | Some s \<Rightarrow> read_chars D s))"

definition serial_event :: "'d serial_env \<Rightarrow> SerialEvent \<Rightarrow> 'd SerialServer \<Rightarrow> 'd SerialServer serial_run" where
  "serial_event D ev s = (case ev of
     Ev_Interrupt \<Rightarrow> read_chars D (s\<lparr>sv_dev := sd_handle_interrupt D (sv_dev s)\<rparr>)
   | Ev_Timeout \<Rightarrow> handle_timeout D s
   | Ev_Con i \<Rightarrow> run_bind (handle_rx D i s) (\<lambda>s. Some (handle_tx i s)))"

text \<open>What \<^verbatim>\<open>run\<close> does before its loop.\<close>

definition serial_start :: "'d serial_env \<Rightarrow> 'd SerialServer \<Rightarrow> 'd SerialServer serial_run" where
  "serial_start D s = run_for_each [0..<length (sv_clients s)] (\<lambda>i s.
     run_bind (Some (do {
       cl \<leftarrow> vec_get (sv_clients s) i;
       Some (set_client i (cl\<lparr>cl_driver := (cl_driver cl)\<lparr>brb := enable_notify_write (enable_notify_read (brb (cl_driver cl)))\<rparr>\<rparr>) s) })) (\<lambda>s.
     run_bind (handle_rx D i s) (\<lambda>s. Some (handle_tx i s)))) s"

end
