(* ===== verification/SerialServerProps.thy ===== *)
theory SerialServerProps
  imports SerialServer RingBufferProps
begin

text \<open>
  The console: what the serial server writes is made of segments, each of them a part of one client's output in that
  client's colour. For every client, the segments together with what is still buffered are exactly what it sent.
\<close>

section \<open>Segments\<close>

datatype seg = Data nat "u8 list" | Colour nat | Clear | Message "u8 list"

fun seg_bytes :: "Color list \<Rightarrow> seg \<Rightarrow> u8 list" where
  "seg_bytes cs (Data i bs) = bs"
| "seg_bytes cs (Colour i) = Color_set (cs ! i)"
| "seg_bytes cs Clear = Color_clear"
| "seg_bytes cs (Message m) = m"

text \<open>The colour after some segments, if every part of a client's output is in its colour and messages are in none.\<close>

fun coloured :: "nat option \<Rightarrow> seg list \<Rightarrow> nat option option" where
  "coloured l [] = Some l"
| "coloured l (Data i bs # r) = (if l = Some i then coloured l r else None)"
| "coloured l (Colour i # r) = coloured (Some i) r"
| "coloured l (Clear # r) = coloured None r"
| "coloured l (Message m # r) = (if l = None then coloured l r else None)"

fun data_of :: "nat \<Rightarrow> seg list \<Rightarrow> u8 list" where
  "data_of i [] = []"
| "data_of i (Data j bs # r) = (if j = i then bs else []) @ data_of i r"
| "data_of i (_ # r) = data_of i r"

lemma coloured_append: "coloured l a = Some l' \<Longrightarrow> coloured l (a @ b) = coloured l' b"
  by (induction l a rule: coloured.induct) (auto split: if_splits)

lemma data_of_append [simp]: "data_of i (a @ b) = data_of i a @ data_of i b"
  by (induction i a rule: data_of.induct) auto

lemma out_append: "out D (a @ b) d = out D b (out D a d)"
  by (simp add: out_def)

abbreviation bufs :: "'d SerialServer \<Rightarrow> u8 list list" where "bufs s \<equiv> map cl_buffer (sv_clients s)"
abbreviation colors :: "'d SerialServer \<Rightarrow> Color list" where "colors s \<equiv> map cl_color (sv_clients s)"
abbreviation drivers :: "'d SerialServer \<Rightarrow> BufferedRingBuffer list" where "drivers s \<equiv> map cl_driver (sv_clients s)"

definition pending :: "'d SerialServer \<Rightarrow> nat \<Rightarrow> u8 list" where
  "pending s i = (if i < length (sv_clients s) then bufs s ! i else [])"

definition written_as :: "'d serial_env \<Rightarrow> seg list \<Rightarrow> 'd SerialServer \<Rightarrow> 'd SerialServer \<Rightarrow> bool" where
  "written_as D segs s s' \<longleftrightarrow> sv_dev s' = out D (concat (map (seg_bytes (colors s)) segs)) (sv_dev s) \<and>
     coloured (sv_last_output_client s) segs = Some (sv_last_output_client s')"

text \<open>From \<open>s\<close> to \<open>s'\<close> the clients sent \<open>inp\<close>, and what went to the device is accounted for.\<close>

definition accounted :: "'d serial_env \<Rightarrow> (nat \<Rightarrow> u8 list) \<Rightarrow> 'd SerialServer \<Rightarrow> 'd SerialServer \<Rightarrow> bool" where
  "accounted D inp s s' \<longleftrightarrow> colors s' = colors s \<and>
     (\<exists>segs. written_as D segs s s' \<and> (\<forall>i. data_of i segs @ pending s' i = pending s i @ inp i))"

text \<open>One client sends, the others do not.\<close>

definition from_client :: "nat \<Rightarrow> u8 list \<Rightarrow> nat \<Rightarrow> u8 list" where
  "from_client i bs j = (if j = i then bs else [])"

lemma from_client_Nil: "from_client i [] = (\<lambda>_. [])"
  by (simp add: from_client_def fun_eq_iff)

lemma from_client_append: "(\<lambda>j. from_client i (x # []) j @ from_client i bs j) = from_client i (x # bs)"
  by (simp add: from_client_def fun_eq_iff)

lemma accounted_refl [simp]: "accounted D (\<lambda>_. []) s s"
  unfolding accounted_def written_as_def by (intro conjI exI [of _ "[]"]) (simp_all add: out_def)

lemma accounted_trans:
  assumes "accounted D a s s1" "accounted D b s1 s2"
  shows "accounted D (\<lambda>i. a i @ b i) s s2"
proof -
  from assms obtain x y where x: "written_as D x s s1" "\<And>i. data_of i x @ pending s1 i = pending s i @ a i"
    and y: "written_as D y s1 s2" "\<And>i. data_of i y @ pending s2 i = pending s1 i @ b i" and c: "colors s1 = colors s" "colors s2 = colors s1"
    unfolding accounted_def by blast
  have "written_as D (x @ y) s s2" using x(1) y(1) c(1) by (simp add: written_as_def coloured_append out_append)
  moreover have "data_of i (x @ y) @ pending s2 i = pending s i @ a i @ b i" for i
  proof -
    have "data_of i (x @ y) @ pending s2 i = data_of i x @ pending s1 i @ b i" using y(2) [of i] by simp
    also have "\<dots> = pending s i @ a i @ b i" using x(2) [of i] by (metis append.assoc)
    finally show ?thesis .
  qed
  ultimately show ?thesis using c unfolding accounted_def by auto
qed

lemma accounted_then: "accounted D a s s1 \<Longrightarrow> accounted D (\<lambda>_. []) s1 s2 \<Longrightarrow> accounted D a s s2"
  using accounted_trans [of D a s s1 "\<lambda>_. []" s2] by simp

section \<open>Invariant\<close>

definition serial_ok :: "'d SerialServer \<Rightarrow> bool" where
  "serial_ok s \<longleftrightarrow> (\<forall>i. sv_last_output_client s = Some i \<or> sv_active_input_client s = Some i \<longrightarrow> i < length (sv_clients s)) \<and>
     (\<forall>b\<in>set (bufs s). length b < BUFFER_LIMIT)"

text \<open>What flushing keeps.\<close>

definition same_input :: "'d SerialServer \<Rightarrow> 'd SerialServer \<Rightarrow> bool" where
  "same_input s s' \<longleftrightarrow> drivers s' = drivers s \<and> sv_active_input_client s' = sv_active_input_client s \<and> sv_input_state s' = sv_input_state s"

lemma same_input_refl [simp]: "same_input s s"
  by (simp add: same_input_def)

lemma same_input_trans: "same_input a b \<Longrightarrow> same_input b c \<Longrightarrow> same_input a c"
  by (simp add: same_input_def)

lemma same_input_length: "same_input s s' \<Longrightarrow> length (sv_clients s') = length (sv_clients s)"
  unfolding same_input_def by (metis length_map)

lemma set_output_client_spec:
  assumes "i < length (sv_clients s)"
  shows "\<exists>s' segs. set_output_client D i s = Some s' \<and> written_as D segs s s' \<and> (\<forall>j. data_of j segs = []) \<and> sv_clients s' = sv_clients s \<and>
    sv_last_output_client s' = Some i \<and> same_input s s' \<and> sv_output_since_last_timeout s' = sv_output_since_last_timeout s"
proof (cases "sv_last_output_client s = Some i")
  case True
  then show ?thesis by (intro exI [of _ s] exI [of _ "[]"]) (simp add: set_output_client_def written_as_def out_def)
next
  case False
  then show ?thesis using assms
    by (intro exI [of _ "out_dev D (Color_set (cl_color (sv_clients s ! i))) (s\<lparr>sv_last_output_client := Some i\<rparr>)"] exI [of _ "[Colour i]"])
      (simp add: set_output_client_def written_as_def out_dev_def same_input_def)
qed

lemma pending_update:
  assumes "i < length (sv_clients s)" "sv_clients s' = (sv_clients s)[i := c]"
  shows "pending s' j = (if j = i then cl_buffer c else pending s j)"
  using assms by (auto simp: pending_def nth_list_update)

lemma drain_spec:
  assumes "i < length (sv_clients s)"
  shows "\<exists>s'. drain D i n s = Some s' \<and> accounted D (\<lambda>_. []) s s' \<and> same_input s s' \<and> bufs s' = (bufs s)[i := drop n (bufs s ! i)] \<and>
    sv_last_output_client s' = Some i \<and> sv_output_since_last_timeout s'"
proof -
  from set_output_client_spec [OF assms, of D] obtain s1 segs where
    s1: "set_output_client D i s = Some s1" "written_as D segs s s1" "\<And>j. data_of j segs = []" "sv_clients s1 = sv_clients s"
      "sv_last_output_client s1 = Some i" "same_input s s1" by blast
  define c where "c = sv_clients s ! i"
  define s' where "s' = (out_dev D (take n (cl_buffer c)) (set_client i (c\<lparr>cl_buffer := drop n (cl_buffer c)\<rparr>) s1))\<lparr>sv_output_since_last_timeout := True\<rparr>"
  have d: "drain D i n s = Some s'" using s1(1,4) assms by (simp add: drain_def s'_def c_def)
  have cl: "sv_clients s' = (sv_clients s)[i := c\<lparr>cl_buffer := drop n (cl_buffer c)\<rparr>]" by (simp add: s'_def out_dev_def set_client_def s1(4))
  have "written_as D (segs @ [Data i (take n (cl_buffer c))]) s s'"
    using s1(2,5) by (auto simp: written_as_def s'_def out_dev_def set_client_def out_append coloured_append)
  moreover have "data_of j (segs @ [Data i (take n (cl_buffer c))]) @ pending s' j = pending s j @ []" for j
    using assms by (auto simp: s1(3) pending_update [OF assms cl]) (simp_all add: pending_def c_def)
  moreover have "colors s' = colors s" "drivers s' = drivers s"
    unfolding cl map_update using assms by (simp_all add: c_def list_update_same_conv)
  ultimately have "accounted D (\<lambda>_. []) s s'" "same_input s s'"
    using s1(6) unfolding accounted_def by (auto simp: same_input_def s'_def out_dev_def set_client_def)
  moreover have "bufs s' = (bufs s)[i := drop n (bufs s ! i)]" using assms by (simp add: cl map_update c_def)
  ultimately show ?thesis using d by (auto simp: s'_def out_dev_def set_client_def s1(5))
qed

lemma flush_spec:
  assumes "i < length (sv_clients s)"
  shows "\<exists>s'. flush D i s = Some s' \<and> accounted D (\<lambda>_. []) s s' \<and> same_input s s' \<and> bufs s' = (bufs s)[i := []] \<and>
    (sv_last_output_client s' = sv_last_output_client s \<or> sv_last_output_client s' = Some i)"
proof (cases "cl_buffer (sv_clients s ! i) = []")
  case True
  then have "(bufs s)[i := []] = bufs s" using assms by (simp add: list_update_same_conv)
  with True assms show ?thesis by (intro exI [of _ s]) (simp add: flush_def)
next
  case False
  with drain_spec [OF assms, of D "length (cl_buffer (sv_clients s ! i))"] assms show ?thesis by (auto simp: flush_def)
qed

definition newlines :: "u8 list list \<Rightarrow> nat" where
  "newlines bs = length (filter (\<lambda>c. c = NEWLINE) (concat bs))"

lemma newlines_update:
  assumes "i < length bs"
  shows "newlines (bs[i := b]) + length (filter (\<lambda>c. c = NEWLINE) (bs ! i)) = newlines bs + length (filter (\<lambda>c. c = NEWLINE) b)"
proof -
  have "bs = take i bs @ bs ! i # drop (Suc i) bs" using assms by (simp add: id_take_nth_drop)
  then have "newlines bs = newlines (take i bs) + length (filter (\<lambda>c. c = NEWLINE) (bs ! i)) + newlines (drop (Suc i) bs)"
    by (metis (no_types, lifting) newlines_def concat.simps(2) concat_append filter_append length_append add.assoc)
  moreover have "newlines (bs[i := b]) = newlines (take i bs) + length (filter (\<lambda>c. c = NEWLINE) b) + newlines (drop (Suc i) bs)"
    using assms by (simp add: upd_conv_take_nth_drop newlines_def)
  ultimately show ?thesis by simp
qed

lemma count_after_line:
  assumes "NEWLINE \<in> set b"
  shows "Suc (length (filter (\<lambda>c. c = NEWLINE) (drop (Suc (length (takeWhile (\<lambda>x. x \<noteq> NEWLINE) b))) b))) = length (filter (\<lambda>c. c = NEWLINE) b)"
  using assms by (induction b) auto

lemma flush_line_spec:
  assumes "i < length (sv_clients s)"
  shows "\<exists>b s'. flush_line D i s = Some (b, s') \<and> accounted D (\<lambda>_. []) s s' \<and> same_input s s' \<and> (b \<longleftrightarrow> NEWLINE \<in> set (bufs s ! i)) \<and>
    (\<not> b \<longrightarrow> s' = s) \<and> (b \<longrightarrow> newlines (bufs s') < newlines (bufs s) \<and> sv_output_since_last_timeout s') \<and>
    list_all2 (\<lambda>x y. length x \<le> length y) (bufs s') (bufs s) \<and>
    (sv_last_output_client s' = sv_last_output_client s \<or> sv_last_output_client s' = Some i)"
proof (cases "NEWLINE \<in> set (bufs s ! i)")
  case True
  define n where "n = Suc (length (takeWhile (\<lambda>x. x \<noteq> NEWLINE) (bufs s ! i)))"
  from drain_spec [OF assms, of D n] obtain s' where
    s': "drain D i n s = Some s'" "accounted D (\<lambda>_. []) s s'" "same_input s s'" "bufs s' = (bufs s)[i := drop n (bufs s ! i)]"
      "sv_last_output_client s' = Some i" "sv_output_since_last_timeout s'" by blast
  have "newlines (bufs s') < newlines (bufs s)"
    using newlines_update [of i "bufs s" "drop n (bufs s ! i)"] count_after_line [OF True] assms by (simp add: s'(4) n_def)
  moreover have "list_all2 (\<lambda>x y. length x \<le> length y) (bufs s') (bufs s)"
    unfolding s'(4) list_all2_conv_all_nth using assms by (auto simp: nth_list_update)
  ultimately show ?thesis using s' True assms by (auto simp: flush_line_def n_def)
next
  case False
  then show ?thesis using assms by (intro exI [of _ False] exI [of _ s]) (simp add: flush_line_def list_all2_refl)
qed

text \<open>The common part: output is accounted for, no buffer grows, and the colour is that of a client.\<close>

definition flushed :: "'d serial_env \<Rightarrow> 'd SerialServer \<Rightarrow> 'd SerialServer \<Rightarrow> bool" where
  "flushed D s s' \<longleftrightarrow> accounted D (\<lambda>_. []) s s' \<and> same_input s s' \<and> list_all2 (\<lambda>x y. length x \<le> length y) (bufs s') (bufs s) \<and>
     (sv_last_output_client s' = sv_last_output_client s \<or> (\<exists>i<length (sv_clients s). sv_last_output_client s' = Some i))"

lemma flushed_refl [simp]: "flushed D s s"
  by (simp add: flushed_def list_all2_refl)

lemma flushed_trans: "flushed D a b \<Longrightarrow> flushed D b c \<Longrightarrow> flushed D a c"
proof -
  assume a: "flushed D a b" "flushed D b c"
  have l: "list_all2 (\<lambda>x y. length x \<le> length y) (bufs c) (bufs b)" "list_all2 (\<lambda>x y. length x \<le> length y) (bufs b) (bufs a)"
    using a unfolding flushed_def by blast+
  have "list_all2 (\<lambda>x y. length x \<le> length y) (bufs c) (bufs a)" by (rule list_all2_trans [OF _ l]) simp
  moreover have "accounted D (\<lambda>_. []) a c" using a accounted_then unfolding flushed_def by blast
  moreover have "same_input a c" using a same_input_trans unfolding flushed_def by blast
  moreover have "length (sv_clients b) = length (sv_clients a)" using a(1) same_input_length unfolding flushed_def by blast
  ultimately show "flushed D a c" using a unfolding flushed_def by metis
qed

lemma flushed_gives_ok:
  assumes f: "flushed D s s'" and l: "\<And>j. sv_last_output_client s = Some j \<or> sv_active_input_client s = Some j \<Longrightarrow> j < length (sv_clients s)"
    and b: "\<And>j. j < length (sv_clients s) \<Longrightarrow> length (bufs s ! j) < BUFFER_LIMIT \<or> bufs s' ! j = []"
  shows "serial_ok s'"
proof -
  have n: "length (sv_clients s') = length (sv_clients s)" using f same_input_length unfolding flushed_def by blast
  have "length (bufs s' ! j) < BUFFER_LIMIT" if "j < length (sv_clients s)" for j
  proof -
    have "list_all2 (\<lambda>x y. length x \<le> length y) (bufs s') (bufs s)" using f unfolding flushed_def by blast
    then have "length (bufs s' ! j) \<le> length (bufs s ! j)" using that n by (simp add: list_all2_conv_all_nth)
    with b [OF that] show ?thesis by (auto simp: BUFFER_LIMIT_def)
  qed
  then have "\<forall>b\<in>set (bufs s'). length b < BUFFER_LIMIT" using n by (auto simp: in_set_conv_nth)
  with f l show ?thesis unfolding serial_ok_def flushed_def same_input_def n by auto
qed

lemma flushed_ok: "flushed D s s' \<Longrightarrow> serial_ok s \<Longrightarrow> serial_ok s'"
  by (rule flushed_gives_ok) (auto simp: serial_ok_def)

lemma flush_flushed: "i < length (sv_clients s) \<Longrightarrow> \<exists>s'. flush D i s = Some s' \<and> flushed D s s' \<and> bufs s' = (bufs s)[i := []]"
  using flush_spec [of i s D] unfolding flushed_def list_all2_conv_all_nth by (fastforce simp: nth_list_update)

lemma flush_line_flushed:
  "i < length (sv_clients s) \<Longrightarrow> \<exists>b s'. flush_line D i s = Some (b, s') \<and> flushed D s s' \<and> (b \<longleftrightarrow> NEWLINE \<in> set (bufs s ! i)) \<and>
    (\<not> b \<longrightarrow> s' = s) \<and> (b \<longrightarrow> newlines (bufs s') < newlines (bufs s) \<and> sv_output_since_last_timeout s')"
  using flush_line_spec [of i s D] unfolding flushed_def by blast

section \<open>The loops end\<close>

lemma flush_some_lines:
  assumes "\<forall>i\<in>set is. i < length (sv_clients s)"
  shows "\<exists>b s'. for_each is (\<lambda>i (any, s). do { (b, s) \<leftarrow> flush_line D i s; Some (any \<or> b, s) }) (any, s) = Some (any \<or> b, s') \<and> flushed D s s' \<and>
    (\<not> b \<longrightarrow> s' = s \<and> (\<forall>i\<in>set is. NEWLINE \<notin> set (bufs s ! i))) \<and>
    (b \<longrightarrow> newlines (bufs s') < newlines (bufs s)) \<and> (b \<longrightarrow> sv_output_since_last_timeout s')"
  using assms
proof (induction "is" arbitrary: any s)
  case (Cons i "is")
  from flush_line_flushed [of i s D] Cons.prems obtain b s1 where
    s1: "flush_line D i s = Some (b, s1)" "flushed D s s1" "b \<longleftrightarrow> NEWLINE \<in> set (bufs s ! i)" "\<not> b \<longrightarrow> s1 = s"
      "b \<longrightarrow> newlines (bufs s1) < newlines (bufs s) \<and> sv_output_since_last_timeout s1" by auto
  have "length (sv_clients s1) = length (sv_clients s)" using s1(2) same_input_length by (auto simp: flushed_def)
  with Cons.IH [of s1 "any \<or> b"] Cons.prems obtain b' s' where
    s': "for_each is (\<lambda>i (any, s). do { (b, s) \<leftarrow> flush_line D i s; Some (any \<or> b, s) }) (any \<or> b, s1) = Some ((any \<or> b) \<or> b', s')" "flushed D s1 s'"
      "\<not> b' \<longrightarrow> s' = s1 \<and> (\<forall>i\<in>set is. NEWLINE \<notin> set (bufs s1 ! i))" "b' \<longrightarrow> newlines (bufs s') < newlines (bufs s1)" "b' \<longrightarrow> sv_output_since_last_timeout s'" by auto
  have "for_each (i # is) (\<lambda>i (any, s). do { (b, s) \<leftarrow> flush_line D i s; Some (any \<or> b, s) }) (any, s) = Some (any \<or> (b \<or> b'), s')"
    using s1(1) s'(1) by simp
  moreover have "newlines (bufs s') < newlines (bufs s)" if "b \<or> b'" using that s1(4,5) s'(3,4) by (cases b; cases b') auto
  moreover have "sv_output_since_last_timeout s'" if "b \<or> b'" using that s1(5) s'(3,5) by (cases b') auto
  moreover have "s' = s \<and> (\<forall>j\<in>set (i # is). NEWLINE \<notin> set (bufs s ! j))" if "\<not> (b \<or> b')" using that s1(3,4) s'(3) by auto
  ultimately show ?case using flushed_trans [OF s1(2) s'(2)] by (intro exI [of _ "b \<or> b'"] exI [of _ s']) blast
qed auto

lemma no_newlines: "newlines bs = 0 \<longleftrightarrow> (\<forall>b\<in>set bs. NEWLINE \<notin> set b)"
  by (auto simp: newlines_def filter_empty_conv)

lemma flush_lines_spec:
  "\<exists>b s'. flush_lines D any s = Some (Some (any \<or> b, s')) \<and> flushed D s s' \<and> newlines (bufs s') = 0 \<and> (\<not> b \<longrightarrow> s' = s) \<and> (b \<longrightarrow> newlines (bufs s) \<noteq> 0 \<and> sv_output_since_last_timeout s')"
proof (induction "newlines (bufs s)" arbitrary: s any rule: less_induct)
  case less
  have "\<forall>i\<in>set [0..<length (sv_clients s)]. i < length (sv_clients s)" by simp
  from flush_some_lines [OF this, of D False] obtain b s1 where
    s1: "flush_round D s = Some (False \<or> b, s1)" "flushed D s s1" "\<not> b \<longrightarrow> s1 = s \<and> (\<forall>i\<in>set [0..<length (sv_clients s)]. NEWLINE \<notin> set (bufs s ! i))"
      "b \<longrightarrow> newlines (bufs s1) < newlines (bufs s)" "b \<longrightarrow> sv_output_since_last_timeout s1" unfolding flush_round_def by blast
  show ?case
  proof (cases b)
    case True
    with less [of s1 True] s1(4) obtain b' s' where
      "flush_lines D True s1 = Some (Some (True, s'))" "flushed D s1 s'" "newlines (bufs s') = 0" "\<not> b' \<longrightarrow> s' = s1" "b' \<longrightarrow> sv_output_since_last_timeout s'" by auto
    moreover from this(4,5) s1(5) True have "sv_output_since_last_timeout s'" by (cases b') auto
    moreover have "flush_lines D any s = flush_lines D True s1" by (subst flush_lines.simps) (simp add: s1(1) True)
    moreover have "newlines (bufs s) \<noteq> 0" using s1(4) True by simp
    ultimately show ?thesis using flushed_trans [OF s1(2)] by (intro exI [of _ True] exI [of _ s']) auto
  next
    case False
    then have "newlines (bufs s) = 0" using s1(3) by (auto simp: no_newlines in_set_conv_nth)
    moreover have "flush_lines D any s = Some (Some (any, s))" using False s1(1,3) by (subst flush_lines.simps) simp
    ultimately show ?thesis by (intro exI [of _ False] exI [of _ s]) simp
  qed
qed

lemma flush_some:
  assumes "\<forall>i\<in>set is. i < length (sv_clients s)"
  shows "\<exists>s'. for_each is (flush D) s = Some s' \<and> flushed D s s' \<and> (\<forall>i<length (sv_clients s). bufs s' ! i = (if i \<in> set is then [] else bufs s ! i))"
  using assms
proof (induction "is" arbitrary: s)
  case (Cons i "is")
  from flush_flushed [of i s D] Cons.prems obtain s1 where s1: "flush D i s = Some s1" "flushed D s s1" "bufs s1 = (bufs s)[i := []]" by auto
  have l: "length (sv_clients s1) = length (sv_clients s)" using s1(2) same_input_length by (auto simp: flushed_def)
  with Cons.IH [of s1] Cons.prems obtain s' where
    s': "for_each is (flush D) s1 = Some s'" "flushed D s1 s'" "\<forall>i<length (sv_clients s). bufs s' ! i = (if i \<in> set is then [] else bufs s1 ! i)" by auto
  have "bufs s' ! j = (if j \<in> set (i # is) then [] else bufs s ! j)" if "j < length (sv_clients s)" for j
    using s'(3) that s1(3) by (auto simp: nth_list_update simp del: nth_map)
  with s1 s' show ?case using flushed_trans [OF s1(2) s'(2)] by auto
qed auto

lemma flush_all_spec: "\<exists>s'. flush_all D s = Some s' \<and> flushed D s s' \<and> (\<forall>b\<in>set (bufs s'). b = [])"
proof -
  from flush_some [of "[0..<length (sv_clients s)]" s D] obtain s' where
    s': "flush_all D s = Some s'" "flushed D s s'" "\<forall>i<length (sv_clients s). bufs s' ! i = []" by (auto simp: flush_all_def)
  have "length (bufs s') = length (sv_clients s)" using s'(2) same_input_length by (auto simp: flushed_def)
  then have "\<forall>b\<in>set (bufs s'). b = []" using s'(3) by (metis in_set_conv_nth)
  with s'(1,2) show ?thesis by blast
qed

section \<open>Events\<close>

lemma run_bind_simps [simp]: "run_bind (Some (Some a)) f = f a" "run_bind (Some None) f = Some None" "run_bind None f = None"
  by (simp_all add: run_bind_def)

lemma set_output_client_flushed:
  assumes "i < length (sv_clients s)"
  shows "\<exists>s'. set_output_client D i s = Some s' \<and> flushed D s s'"
proof -
  from set_output_client_spec [OF assms, of D] obtain s' segs where
    s': "set_output_client D i s = Some s'" "written_as D segs s s'" "\<forall>j. data_of j segs = []" "sv_clients s' = sv_clients s"
      "sv_last_output_client s' = Some i" "same_input s s'" by blast
  moreover have "pending s' = pending s" using s'(4) by (simp add: pending_def fun_eq_iff)
  ultimately have "accounted D (\<lambda>_. []) s s'" unfolding accounted_def by (intro conjI exI [of _ segs]) auto
  with s' assms show ?thesis unfolding flushed_def by (auto simp: list_all2_refl)
qed

lemma flushed_length: "flushed D s s' \<Longrightarrow> length (sv_clients s') = length (sv_clients s)"
  using same_input_length unfolding flushed_def by blast

text \<open>A byte is put into the buffer of its client.\<close>

lemma push_byte:
  fixes c :: u8
  assumes "i < length (sv_clients s)"
  defines "s1 \<equiv> set_client i ((sv_clients s ! i)\<lparr>cl_buffer := cl_buffer (sv_clients s ! i) @ [c]\<rparr>) s"
  shows "accounted D (from_client i [c]) s s1" "same_input s s1" "bufs s1 = (bufs s)[i := bufs s ! i @ [c]]"
    "sv_last_output_client s1 = sv_last_output_client s" "length (sv_clients s1) = length (sv_clients s)"
proof -
  have cl: "sv_clients s1 = (sv_clients s)[i := (sv_clients s ! i)\<lparr>cl_buffer := cl_buffer (sv_clients s ! i) @ [c]\<rparr>]" by (simp add: s1_def set_client_def)
  have k: "colors s1 = colors s" "drivers s1 = drivers s" unfolding cl map_update using assms(1) by (simp_all add: list_update_same_conv)
  have "written_as D [] s s1" by (simp add: written_as_def s1_def set_client_def out_def)
  moreover have "data_of j [] @ pending s1 j = pending s j @ from_client i [c] j" for j
    using assms(1) by (auto simp: pending_update [OF assms(1) cl] from_client_def) (simp add: pending_def)
  ultimately show "accounted D (from_client i [c]) s s1" using k(1) unfolding accounted_def by blast
  show "same_input s s1" using k(2) by (simp add: same_input_def s1_def set_client_def)
  show "bufs s1 = (bufs s)[i := bufs s ! i @ [c]]" using assms(1) by (simp add: cl map_update)
  show "sv_last_output_client s1 = sv_last_output_client s" "length (sv_clients s1) = length (sv_clients s)" by (simp_all add: s1_def set_client_def)
qed

text \<open>The long branch of \<^verbatim>\<open>handle_client_char\<close>, from the flush of the full buffer on.\<close>

lemma full_buffer:
  assumes i: "i < length (sv_clients s)" and l: "\<And>j. sv_last_output_client s = Some j \<Longrightarrow> j < length (sv_clients s)"
  shows "\<exists>s'. run_bind (Some (do {
         s \<leftarrow> flush D i s;
         (case sv_last_output_client s of None \<Rightarrow> Some s | Some j \<Rightarrow> map_option snd (flush_line D j s)) })) (\<lambda>s.
       run_bind (flush_lines D False s) (\<lambda>(_, s). Some (do {
         cl \<leftarrow> vec_get (sv_clients s) i;
         s \<leftarrow> (if length (cl_buffer cl) = BUFFER_LIMIT then flush_all D s else Some s);
         set_output_client D i s }))) = Some (Some s') \<and> flushed D s s' \<and> bufs s' ! i = []"
proof -
  from flush_flushed [OF i, of D] obtain s2 where s2: "flush D i s = Some s2" "flushed D s s2" "bufs s2 = (bufs s)[i := []]" by blast
  have b2: "bufs s2 ! i = []" using i by (simp add: s2(3))
  have l2: "j < length (sv_clients s2)" if "sv_last_output_client s2 = Some j" for j
    using that l [of j] s2(2) flushed_length [OF s2(2)] by (auto simp: flushed_def)
  obtain s3 where s3: "(case sv_last_output_client s2 of None \<Rightarrow> Some s2 | Some j \<Rightarrow> map_option snd (flush_line D j s2)) = Some s3" "flushed D s2 s3"
  proof (cases "sv_last_output_client s2")
    case None
    then show ?thesis using that [of s2] by simp
  next
    case (Some j)
    with flush_line_flushed [OF l2 [OF Some], of D] that show ?thesis by auto
  qed
  from flush_lines_spec [of D False s3] obtain b s4 where s4: "flush_lines D False s3 = Some (Some (False \<or> b, s4))" "flushed D s3 s4" by blast
  have f4: "flushed D s s4" using flushed_trans [OF flushed_trans [OF s2(2) s3(2)] s4(2)] .
  have i4: "i < length (sv_clients s4)" using i flushed_length [OF f4] by simp
  from set_output_client_flushed [OF this, of D] obtain s' where s': "set_output_client D i s4 = Some s'" "flushed D s4 s'" by blast
  have sh: "bufs t' ! i = []" if "flushed D t t'" "bufs t ! i = []" "i < length (sv_clients t)" for t t' :: "'a SerialServer"
  proof -
    have "list_all2 (\<lambda>x y. length x \<le> length y) (bufs t') (bufs t)" using that(1) unfolding flushed_def by blast
    then have "length (bufs t' ! i) \<le> length (bufs t ! i)" using that(3) by (auto simp: list_all2_conv_all_nth simp del: nth_map)
    then show ?thesis using that(2) by simp
  qed
  have b4: "bufs s4 ! i = []" using sh [OF flushed_trans [OF s3(2) s4(2)] b2] i flushed_length [OF s2(2)] by simp
  then have "length (cl_buffer (sv_clients s4 ! i)) \<noteq> BUFFER_LIMIT" using i4 by (simp add: BUFFER_LIMIT_def)
  then show ?thesis using s2(1) s3(1) s4(1) s' i4 flushed_trans [OF f4 s'(2)] sh [OF s'(2) b4 i4] by simp
qed

lemma handle_client_char_spec:
  assumes ok: "serial_ok s" and i: "i < length (sv_clients s)"
  shows "\<exists>s'. handle_client_char D i c s = Some (Some s') \<and> accounted D (from_client i [c]) s s' \<and> same_input s s' \<and> serial_ok s'"
proof -
  define s1 where "s1 = set_client i ((sv_clients s ! i)\<lparr>cl_buffer := cl_buffer (sv_clients s ! i) @ [c]\<rparr>) s"
  note p = push_byte [OF i, where c = c, folded s1_def]
  have i1: "i < length (sv_clients s1)" using i p(5) by simp
  have l1: "\<And>j. sv_last_output_client s1 = Some j \<Longrightarrow> j < length (sv_clients s1)" using ok p(4,5) by (simp add: serial_ok_def)
  have act: "\<And>j. sv_active_input_client s1 = Some j \<Longrightarrow> j < length (sv_clients s1)" using ok p(2,5) by (simp add: serial_ok_def same_input_def)
  have bj: "length (bufs s ! j) < BUFFER_LIMIT" if "j < length (sv_clients s)" for j using ok that by (simp add: serial_ok_def)
  show ?thesis
  proof (cases "Suc (length (cl_buffer (sv_clients s ! i))) = BUFFER_LIMIT")
    case True
    from full_buffer [OF i1 l1, of D] obtain s' where s': "flushed D s1 s'" "bufs s' ! i = []" "handle_client_char D i c s = Some (Some s')"
      using True i by (auto simp: handle_client_char_def s1_def)
    have "serial_ok s'"
    proof (rule flushed_gives_ok [OF s'(1)])
      fix j assume "j < length (sv_clients s1)"
      then show "length (bufs s1 ! j) < BUFFER_LIMIT \<or> bufs s' ! j = []"
        using s'(2) bj p(5) by (cases "j = i") (auto simp: p(3) simp del: nth_map)
    qed (use l1 act in blast)
    moreover have "accounted D (from_client i [c]) s s'" "same_input s s'"
      using s'(1) p(1) [of D] p(2) accounted_then same_input_trans unfolding flushed_def by blast+
    ultimately show ?thesis using s'(3) by blast
  next
    case False
    have ok1: "serial_ok s1"
    proof (rule flushed_gives_ok [OF flushed_refl])
      fix j assume "j < length (sv_clients s1)"
      then show "length (bufs s1 ! j) < BUFFER_LIMIT \<or> bufs s1 ! j = []"
        using False bj [of j] p(5) i by (cases "j = i") (simp_all add: p(3))
    qed (use l1 act in blast)
    from flush_flushed [OF i1, of D] obtain s2 where s2: "flush D i s1 = Some s2" "flushed D s1 s2" by blast
    define P where "P \<longleftrightarrow> c = NEWLINE \<or> (sv_last_output_client s1 = Some i \<and> \<not> (\<exists>j<length (sv_clients s1). j \<noteq> i \<and> cl_buffer (sv_clients s1 ! j) \<noteq> []))"
    have "handle_client_char D i c s = Some (if P then flush D i s1 else Some s1)"
      using False i by (auto simp: handle_client_char_def s1_def P_def Let_def)
    then obtain s' where "handle_client_char D i c s = Some (Some s')" "s' = s1 \<or> s' = s2" using s2(1) by (cases P) auto
    moreover have "flushed D s1 s'" using calculation(2) s2(2) by auto
    moreover have "serial_ok s'" "accounted D (from_client i [c]) s s'" "same_input s s'"
      using calculation(3) ok1 p(1) [of D] p(2) flushed_ok accounted_then same_input_trans unfolding flushed_def by blast+
    ultimately show ?thesis by blast
  qed
qed

lemma handle_timeout_spec:
  assumes "serial_ok s"
  shows "\<exists>s'. handle_timeout D s = Some (Some s') \<and> flushed D s s' \<and> serial_ok s' \<and>
    (if sv_output_since_last_timeout s then sv_clients s' = sv_clients s \<and> \<not> sv_output_since_last_timeout s'
     else newlines (bufs s') = 0 \<and> (newlines (bufs s) = 0 \<longrightarrow> (\<forall>b\<in>set (bufs s'). b = [])))"
proof (cases "sv_output_since_last_timeout s")
  case True
  define s' where "s' = s\<lparr>sv_output_since_last_timeout := False\<rparr>"
  have "accounted D (\<lambda>_. []) s s'" unfolding accounted_def written_as_def
    by (intro conjI exI [of _ "[]"]) (simp_all add: s'_def out_def pending_def)
  then have "flushed D s s'" by (simp add: flushed_def s'_def same_input_def list_all2_refl)
  then show ?thesis using True flushed_ok [OF _ assms] by (auto simp: handle_timeout_def s'_def)
next
  case False
  from flush_lines_spec [of D False s] obtain b s1 where
    s1: "flush_lines D False s = Some (Some (b, s1))" "flushed D s s1" "newlines (bufs s1) = 0" "\<not> b \<longrightarrow> s1 = s" "b \<longrightarrow> newlines (bufs s) \<noteq> 0" by auto
  show ?thesis
  proof (cases b)
    case True
    with False s1 show ?thesis using flushed_ok [OF s1(2) assms] by (auto simp: handle_timeout_def)
  next
    case b: False
    from flush_all_spec [of D s1] obtain s' where s': "flush_all D s1 = Some s'" "flushed D s1 s'" "\<forall>b\<in>set (bufs s'). b = []" by blast
    have f: "flushed D s s'" by (rule flushed_trans [OF s1(2) s'(2)])
    have "newlines (bufs s') = 0" using s'(3) by (auto simp: no_newlines)
    with False b s1(1) s' f flushed_ok [OF f assms] show ?thesis by (auto simp: handle_timeout_def)
  qed
qed

lemma rx_one:
  assumes "in_ok (brb b)" "in_bytes (brb b) = c # bs"
  shows "\<exists>b'. brb_rx_into b 1 = Some ([c], b') \<and> in_ok (brb b') \<and> in_bytes (brb b') = bs"
proof -
  have k: "in_ok (notify_read rb) = in_ok rb" "in_bytes (notify_read rb) = in_bytes rb" for rb
    by (simp_all add: notify_read_def map_write_ctrl_def map_read_ctrl_def status_modify_def kick_read_def in_ok_def in_bytes_def Let_def)
  have l: "Suc 0 \<le> length (in_bytes (brb b))" using assms(2) by (simp del: length_in_bytes)
  have "rb_read_bytes (brb b) 1 = Some ([c], skip (brb b) 1)" using peek_eq [OF assms(1), of 1] l by (simp add: rb_read_bytes_def assms(2))
  moreover have "in_ok (skip (brb b) 1)" "in_bytes (skip (brb b) 1) = bs" using skip_eq [OF assms(1), of 1] l by (simp_all add: assms(2))
  moreover have "min 1 (length (in_bytes (brb b))) = 1" using l by linarith
  ultimately show ?thesis using k poll_read_eq [OF assms(1)] by (auto simp: brb_rx_into_def Let_def)
qed

lemma drive_client:
  fixes b :: BufferedRingBuffer
  assumes "i < length (sv_clients s)" "serial_ok s"
  defines "s1 \<equiv> set_client i ((sv_clients s ! i)\<lparr>cl_driver := b\<rparr>) s"
  shows "accounted D (\<lambda>_. []) s s1" "serial_ok s1" "length (sv_clients s1) = length (sv_clients s)" "cl_driver (sv_clients s1 ! i) = b"
proof -
  have cl: "sv_clients s1 = (sv_clients s)[i := (sv_clients s ! i)\<lparr>cl_driver := b\<rparr>]" by (simp add: s1_def set_client_def)
  have k: "colors s1 = colors s" "bufs s1 = bufs s" unfolding cl map_update using assms(1) by (simp_all add: list_update_same_conv)
  show n: "length (sv_clients s1) = length (sv_clients s)" by (simp add: cl)
  then have "pending s1 = pending s" using k(2) by (simp only: pending_def fun_eq_iff) simp
  moreover have "written_as D [] s s1" by (simp add: written_as_def s1_def set_client_def out_def)
  ultimately show "accounted D (\<lambda>_. []) s s1" using k(1) unfolding accounted_def by (intro conjI exI [of _ "[]"]) auto
  show "serial_ok s1" using assms(2) n k(2) unfolding serial_ok_def by (simp only: k(2) n) (simp add: s1_def set_client_def)
  show "cl_driver (sv_clients s1 ! i) = b" using assms(1) by (simp add: cl)
qed

lemma handle_rx_bytes:
  assumes "serial_ok s" "i < length (sv_clients s)" "in_ok (brb (cl_driver (sv_clients s ! i)))" "in_bytes (brb (cl_driver (sv_clients s ! i))) = bs" "length is = length bs"
  shows "\<exists>c' s'. run_for_each is (\<lambda>_. rx_byte D i) (c, s) = Some (Some (c', s')) \<and>
    accounted D (from_client i bs) s s' \<and> serial_ok s' \<and> length (sv_clients s') = length (sv_clients s)"
  using assms
proof (induction bs arbitrary: s c "is")
  case Nil
  then show ?case by (auto simp: from_client_Nil)
next
  case (Cons x bs)
  obtain k is' where k: "is = k # is'" using Cons.prems(5) by (cases "is") auto
  from rx_one [OF Cons.prems(3,4)] obtain b where b: "brb_rx_into (cl_driver (sv_clients s ! i)) 1 = Some ([x], b)" "in_ok (brb b)" "in_bytes (brb b) = bs" by blast
  define s1 where "s1 = set_client i ((sv_clients s ! i)\<lparr>cl_driver := b\<rparr>) s"
  note d = drive_client [OF Cons.prems(2,1), where b = b, folded s1_def]
  have i1: "i < length (sv_clients s1)" using Cons.prems(2) d(3) by simp
  from handle_client_char_spec [OF d(2) i1, of D x] obtain s2 where
    s2: "handle_client_char D i x s1 = Some (Some s2)" "accounted D (from_client i [x]) s1 s2" "same_input s1 s2" "serial_ok s2" by blast
  have n2: "length (sv_clients s2) = length (sv_clients s)" using same_input_length [OF s2(3)] d(3) by simp
  have "drivers s2 ! i = drivers s1 ! i" using s2(3) by (simp add: same_input_def)
  then have dr: "cl_driver (sv_clients s2 ! i) = b" using d(4) i1 n2 Cons.prems(2) by simp
  have q: "i < length (sv_clients s2)" "in_ok (brb (cl_driver (sv_clients s2 ! i)))" "in_bytes (brb (cl_driver (sv_clients s2 ! i))) = bs" "length is' = length bs"
    using n2 dr b(2,3) k Cons.prems(2,5) by simp_all
  from Cons.IH [OF s2(4) q, of x] obtain c' s' where
    s': "run_for_each is' (\<lambda>_. rx_byte D i) (x, s2) = Some (Some (c', s'))"
      "accounted D (from_client i bs) s2 s'" "serial_ok s'" "length (sv_clients s') = length (sv_clients s2)" by blast
  have "rx_byte D i (c, s) = Some (Some (x, s2))" using Cons.prems(2) b(1) s2(1) by (simp add: rx_byte_def s1_def)
  moreover have "accounted D (from_client i (x # bs)) s s'"
    using accounted_trans [OF d(1) accounted_trans [OF s2(2) s'(2)]] by (simp add: from_client_append)
  ultimately show ?case using s' n2 by (simp add: k)
qed

lemma handle_rx_spec:
  assumes "serial_ok s" "i < length (sv_clients s)" "in_ok (brb (cl_driver (sv_clients s ! i)))"
  shows "\<exists>s'. handle_rx D i s = Some (Some s') \<and> accounted D (from_client i (in_bytes (brb (cl_driver (sv_clients s ! i))))) s s' \<and> serial_ok s'"
proof -
  define rb where "rb = brb (cl_driver (sv_clients s ! i))"
  have p: "poll_read rb = Some (length (in_bytes rb))" using poll_read_eq assms(3) by (simp add: rb_def)
  have "length [0..<length (in_bytes rb)] = length (in_bytes rb)" by (simp del: length_in_bytes)
  from handle_rx_bytes [OF assms refl this [unfolded rb_def], of D 0] obtain c' s1 where
    s1: "run_for_each [0..<length (in_bytes rb)] (\<lambda>_. rx_byte D i) (0, s) = Some (Some (c', s1))"
      "accounted D (from_client i (in_bytes rb)) s s1" "serial_ok s1" "length (sv_clients s1) = length (sv_clients s)"
    unfolding rb_def by blast
  have i1: "i < length (sv_clients s1)" using assms(2) s1(4) by simp
  note d = drive_client [OF i1 s1(3), where b = "(cl_driver (sv_clients s1 ! i))\<lparr>brb := enable_notify_read (brb (cl_driver (sv_clients s1 ! i)))\<rparr>"]
  show ?thesis using s1(1) i1 d(2) accounted_then [OF s1(2) d(1)] assms(2) p
    by (simp add: handle_rx_def rb_def [symmetric] del: length_in_bytes)
qed

lemma flushed_empty: "flushed D s s' \<Longrightarrow> \<forall>b\<in>set (bufs s). b = [] \<Longrightarrow> \<forall>b\<in>set (bufs s'). b = []"
proof
  fix b assume f: "flushed D s s'" and e: "\<forall>b\<in>set (bufs s). b = []" and b: "b \<in> set (bufs s')"
  have l: "list_all2 (\<lambda>x y. length x \<le> length y) (bufs s') (bufs s)" using f unfolding flushed_def by blast
  from b obtain i where i: "i < length (bufs s')" "b = bufs s' ! i" by (metis in_set_conv_nth)
  with l have "length b \<le> length (bufs s ! i)" "i < length (bufs s)" by (auto simp: list_all2_conv_all_nth simp del: nth_map)
  with e show "b = []" by (metis le_zero_eq length_0_conv nth_mem)
qed

lemma empty_no_newlines: "\<forall>b\<in>set bs. b = [] \<Longrightarrow> newlines bs = 0"
  by (auto simp: no_newlines)

section \<open>A concrete console\<close>

text \<open>The device is the text written to it; the ring of the first client holds a line and the start of another.\<close>

definition cx_dev :: "u8 list serial_env" where
  "cx_dev = \<lparr>sd_put_char = \<lambda>c d. d @ [c], sd_get_char = \<lambda>d. (None, d), sd_handle_interrupt = \<lambda>d. d\<rparr>"

definition cx_ring :: "u8 list \<Rightarrow> RingBuffer" where
  "cx_ring bs = RingBuffer_new \<lparr>rbs_size = 8, ctrl = \<lparr>offset_r = 0, offset_w = of_nat (length bs), status = 0\<rparr>, buf = bs @ replicate (8 - length bs) 0\<rparr>
     \<lparr>rbs_size = 8, ctrl = \<lparr>offset_r = 0, offset_w = 0, status = 0\<rparr>, buf = replicate 8 0\<rparr>"

definition cx_server :: "u8 list SerialServer" where
  "cx_server = the (SerialServer_new [] [cx_ring [104, 105, 10, 33], cx_ring []])"

lemma cx_server: "serial_ok cx_server" "length (sv_clients cx_server) = 2" "in_ok (brb (cl_driver (sv_clients cx_server ! 0)))"
  "in_bytes (brb (cl_driver (sv_clients cx_server ! 0))) = [104, 105, 10, 33]" "pending cx_server i = []" "sv_last_output_client cx_server = None"
proof -
  have c: "cx_server = \<lparr>sv_clients = [\<lparr>cl_driver = \<lparr>brb = cx_ring [104, 105, 10, 33], brb_q = []\<rparr>, cl_buffer = [], cl_color = COLORS ! 0\<rparr>,
      \<lparr>cl_driver = \<lparr>brb = cx_ring [], brb_q = []\<rparr>, cl_buffer = [], cl_color = COLORS ! 1\<rparr>],
      sv_active_input_client = Some 0, sv_last_output_client = None, sv_output_since_last_timeout = False, sv_input_state = Start, sv_dev = []\<rparr>"
    by (simp add: cx_server_def SerialServer_new_def rust_assert_def MAX_NUM_CLIENTS_def COLORS_def)
  show "serial_ok cx_server" "length (sv_clients cx_server) = 2" "sv_last_output_client cx_server = None"
    by (simp_all add: c serial_ok_def BUFFER_LIMIT_def)
  show "pending cx_server i = []" by (simp add: c pending_def less_Suc_eq)
  show "in_ok (brb (cl_driver (sv_clients cx_server ! 0)))" by (simp add: c in_ok_def cx_ring_def RingBuffer_new_def)
  have u: "[0..<4] = [0, 1, 2, 3 :: nat]" by code_simp
  show "in_bytes (brb (cl_driver (sv_clients cx_server ! 0))) = [104, 105, 10, 33]"
    by (simp add: c in_bytes_def cx_ring_def RingBuffer_new_def ring_slice_def u)
qed

section \<open>Properties\<close>

text \<open>
  C19. The console neither loses nor mixes output. When a client's ring holds some bytes, handling its notification
  returns, and what was written to the device is a sequence of segments, every one with output of one client in that
  client's colour; for every client, its segments and what is still buffered are what was buffered before and, for the
  client that sent, the bytes of the ring, in order.
\<close>

theorem console_accounted:
  assumes "serial_ok s" "i < length (sv_clients s)" "in_ok (brb (cl_driver (sv_clients s ! i)))"
  shows "\<exists>s' segs. handle_rx D i s = Some (Some s') \<and> serial_ok s' \<and>
    sv_dev s' = out D (concat (map (seg_bytes (map cl_color (sv_clients s))) segs)) (sv_dev s) \<and>
    coloured (sv_last_output_client s) segs = Some (sv_last_output_client s') \<and>
    (\<forall>j. data_of j segs @ pending s' j = pending s j @ (if j = i then in_bytes (brb (cl_driver (sv_clients s ! i))) else []))"
proof -
  from handle_rx_spec [OF assms, of D] obtain s' where
    s': "handle_rx D i s = Some (Some s')" "accounted D (from_client i (in_bytes (brb (cl_driver (sv_clients s ! i))))) s s'" "serial_ok s'" by blast
  from s'(2) obtain segs where "written_as D segs s s'"
    "\<And>j. data_of j segs @ pending s' j = pending s j @ from_client i (in_bytes (brb (cl_driver (sv_clients s ! i)))) j"
    unfolding accounted_def by blast
  then show ?thesis using s'(1,3) unfolding written_as_def from_client_def by blast
qed

theorem console_accounted_witness:
  "\<exists>s' segs. handle_rx cx_dev 0 cx_server = Some (Some s') \<and> data_of 0 segs @ pending s' 0 = [104, 105, 10, 33] \<and> data_of 1 segs @ pending s' 1 = [] \<and>
    coloured None segs = Some (sv_last_output_client s')"
proof -
  have "0 < length (sv_clients cx_server)" by (simp add: cx_server(2))
  from console_accounted [OF cx_server(1) this cx_server(3), of cx_dev] obtain s' segs where
    "handle_rx cx_dev 0 cx_server = Some (Some s')" "coloured None segs = Some (sv_last_output_client s')"
    "\<And>j. data_of j segs @ pending s' j = (if j = 0 then [104, 105, 10, 33] else [])"
    unfolding cx_server(4-6) by auto
  from this(1,2) this(3) [of 0] this(3) [of 1] show ?thesis by auto
qed

text \<open>
  C20. Buffered output comes out: with no new input, four timeouts in a row return and leave every buffer empty, partial
  lines included. The first may only note that there was output, the second writes the complete lines, and the same
  once more for the rest.
\<close>

theorem console_drains:
  assumes "serial_ok s"
  shows "\<exists>s1 s2 s3 s4. handle_timeout D s = Some (Some s1) \<and> handle_timeout D s1 = Some (Some s2) \<and> handle_timeout D s2 = Some (Some s3) \<and>
    handle_timeout D s3 = Some (Some s4) \<and> (\<forall>c\<in>set (sv_clients s4). cl_buffer c = [])"
proof -
  from handle_timeout_spec [OF assms, of D] obtain s1 where s1: "handle_timeout D s = Some (Some s1)" "flushed D s s1" "serial_ok s1"
    "if sv_output_since_last_timeout s then sv_clients s1 = sv_clients s \<and> \<not> sv_output_since_last_timeout s1
     else newlines (bufs s1) = 0 \<and> (newlines (bufs s) = 0 \<longrightarrow> (\<forall>b\<in>set (bufs s1). b = []))" by blast
  from handle_timeout_spec [OF s1(3), of D] obtain s2 where s2: "handle_timeout D s1 = Some (Some s2)" "flushed D s1 s2" "serial_ok s2"
    "if sv_output_since_last_timeout s1 then sv_clients s2 = sv_clients s1 \<and> \<not> sv_output_since_last_timeout s2
     else newlines (bufs s2) = 0 \<and> (newlines (bufs s1) = 0 \<longrightarrow> (\<forall>b\<in>set (bufs s2). b = []))" by blast
  from handle_timeout_spec [OF s2(3), of D] obtain s3 where s3: "handle_timeout D s2 = Some (Some s3)" "flushed D s2 s3" "serial_ok s3"
    "if sv_output_since_last_timeout s2 then sv_clients s3 = sv_clients s2 \<and> \<not> sv_output_since_last_timeout s3
     else newlines (bufs s3) = 0 \<and> (newlines (bufs s2) = 0 \<longrightarrow> (\<forall>b\<in>set (bufs s3). b = []))" by blast
  from handle_timeout_spec [OF s3(3), of D] obtain s4 where s4: "handle_timeout D s3 = Some (Some s4)" "flushed D s3 s4"
    "if sv_output_since_last_timeout s3 then sv_clients s4 = sv_clients s3 \<and> \<not> sv_output_since_last_timeout s4
     else newlines (bufs s4) = 0 \<and> (newlines (bufs s3) = 0 \<longrightarrow> (\<forall>b\<in>set (bufs s4). b = []))" by blast
  consider (flag) "sv_output_since_last_timeout s" | (lines) "\<not> sv_output_since_last_timeout s" "sv_output_since_last_timeout s1"
    | (rest) "\<not> sv_output_since_last_timeout s" "\<not> sv_output_since_last_timeout s1" by blast
  then have "\<forall>b\<in>set (bufs s4). b = []"
  proof cases
    case flag
    then have "newlines (bufs s2) = 0" using s1(4) s2(4) by simp
    note n2 = this
    show ?thesis
    proof (cases "sv_output_since_last_timeout s2")
      case True
      then show ?thesis using s3(4) s4(3) n2 by simp
    next
      case False
      then have "\<forall>b\<in>set (bufs s3). b = []" using s3(4) n2 by simp
      then show ?thesis by (rule flushed_empty [OF s4(2)])
    qed
  next
    case lines
    then have "\<forall>b\<in>set (bufs s3). b = []" using s1(4) s2(4) s3(4) by simp
    then show ?thesis by (rule flushed_empty [OF s4(2)])
  next
    case rest
    then have "\<forall>b\<in>set (bufs s2). b = []" using s1(4) s2(4) by simp
    then show ?thesis by (rule flushed_empty [OF s4(2) flushed_empty [OF s3(2)]])
  qed
  with s1(1) s2(1) s3(1) s4(1) show ?thesis by auto
qed

theorem console_drains_witness:
  "\<exists>s s1 s2 s3 s4. handle_rx cx_dev 0 cx_server = Some (Some s) \<and> handle_timeout cx_dev s = Some (Some s1) \<and> handle_timeout cx_dev s1 = Some (Some s2) \<and>
    handle_timeout cx_dev s2 = Some (Some s3) \<and> handle_timeout cx_dev s3 = Some (Some s4) \<and> (\<forall>c\<in>set (sv_clients s4). cl_buffer c = [])"
proof -
  have "0 < length (sv_clients cx_server)" by (simp add: cx_server(2))
  from handle_rx_spec [OF cx_server(1) this cx_server(3), of cx_dev] obtain s where "handle_rx cx_dev 0 cx_server = Some (Some s)" "serial_ok s" by blast
  with console_drains [of s cx_dev] show ?thesis by blast
qed

end
