(* ===== verification/Sync.thy ===== *)
theory Sync
  imports Prelude
begin

text \<open>
  The mutex the servers share their state with (\<^verbatim>\<open>framework/base/icecap-sync/src/mutex.rs\<close>): an atomic counter, and a
  notification of the kernel for the threads that have to wait. Threads interleave between the atomic operations of
  \<^verbatim>\<open>lock\<close> and \<^verbatim>\<open>unlock\<close> and between the loads and stores of the data; memory is sequentially consistent here, which the
  acquire and release orderings of the code give for data accessed under the lock. The kernel is a parameter.
\<close>

section \<open>Notifications\<close>

text \<open>
  The implementations of \<^verbatim>\<open>MutexNotification\<close>: given at construction, set later, or a static of the component that is
  patched in; the last two panic while they are zero.
\<close>

datatype MutexNotification = ExplicitMutexNotification u64 | DeferredMutexNotification u64 | StaticMutexNotification u64

definition mn_get :: "MutexNotification \<Rightarrow> u64 option" where
  "mn_get n = (case n of
     ExplicitMutexNotification cap \<Rightarrow> Some cap
   | DeferredMutexNotification cap \<Rightarrow> do { rust_assert (cap \<noteq> 0); Some cap }
   | StaticMutexNotification raw \<Rightarrow> do { rust_assert (raw \<noteq> 0); Some raw })"

text \<open>\<^verbatim>\<open>set\<close> exists for deferred notifications only: the others take a value of the empty type.\<close>

definition mn_set :: "u64 \<Rightarrow> MutexNotification \<Rightarrow> MutexNotification" where
  "mn_set cap n = (case n of DeferredMutexNotification _ \<Rightarrow> DeferredMutexNotification cap | _ \<Rightarrow> n)"

text \<open>The kernel: \<^verbatim>\<open>wait\<close> returns or blocks.\<close>

record 'k ntfn_kernel =
  nk_signal :: "u64 \<Rightarrow> 'k \<Rightarrow> 'k"
  nk_wait :: "u64 \<Rightarrow> 'k \<Rightarrow> 'k option"

section \<open>State\<close>

text \<open>
  Where a thread is: outside, waiting in \<^verbatim>\<open>lock\<close>, holding the guard with what it has loaded from the data, or about to
  signal in \<^verbatim>\<open>unlock\<close>.
\<close>

datatype 'd at = Outside | Waiting u64 | Holding "'d option" | Signalling u64

record 'd GenericMutex =
  gm_notification :: MutexNotification
  gm_value :: int
  gm_data :: 'd

record ('d, 'k) system =
  sy_mutex :: "'d GenericMutex"
  sy_kernel :: 'k
  sy_at :: "nat \<Rightarrow> 'd at"

definition GenericMutex_new :: "MutexNotification \<Rightarrow> 'd \<Rightarrow> 'd GenericMutex" where
  "GenericMutex_new n d = \<lparr>gm_notification = n, gm_value = 1, gm_data = d\<rparr>"

definition fetch_add_value :: "int \<Rightarrow> 'd GenericMutex \<Rightarrow> int \<times> 'd GenericMutex" where
  "fetch_add_value n m = (gm_value m, m\<lparr>gm_value := i64 (gm_value m + n)\<rparr>)"

section \<open>Operations\<close>

text \<open>The two halves of \<^verbatim>\<open>lock\<close> and of \<^verbatim>\<open>unlock\<close>, for the thread that calls them.\<close>

definition lock_enter :: "'d GenericMutex \<Rightarrow> ('d at \<times> 'd GenericMutex) option" where
  "lock_enter m = (let (old_value, m) = fetch_add_value (- 1) m in
     if old_value \<le> 0 then do { cap \<leftarrow> mn_get (gm_notification m); Some (Waiting cap, m) }
     else Some (Holding None, m))"

definition lock_wait :: "'k ntfn_kernel \<Rightarrow> u64 \<Rightarrow> 'k \<Rightarrow> ('d at \<times> 'k) option" where
  "lock_wait K cap k = map_option (Pair (Holding None)) (nk_wait K cap k)"

definition unlock_leave :: "'d GenericMutex \<Rightarrow> ('d at \<times> 'd GenericMutex) option" where
  "unlock_leave m = (let (old_value, m) = fetch_add_value 1 m in
     if old_value < 0 then do { cap \<leftarrow> mn_get (gm_notification m); Some (Signalling cap, m) }
     else Some (Outside, m))"

definition unlock_signal :: "'k ntfn_kernel \<Rightarrow> u64 \<Rightarrow> 'k \<Rightarrow> 'd at \<times> 'k" where
  "unlock_signal K cap k = (Outside, nk_signal K cap k)"

text \<open>One step of thread \<open>t\<close>. The guard's \<^verbatim>\<open>deref\<close> and \<^verbatim>\<open>deref_mut\<close> are a load and a store of what \<open>f\<close> makes of it.\<close>

inductive mutex_step :: "'k ntfn_kernel \<Rightarrow> nat \<Rightarrow> ('d, 'k) system \<Rightarrow> ('d, 'k) system \<Rightarrow> bool" for K t where
  step_enter: "sy_at s t = Outside \<Longrightarrow> lock_enter (sy_mutex s) = Some (a, m) \<Longrightarrow>
    mutex_step K t s (s\<lparr>sy_mutex := m, sy_at := (sy_at s)(t := a)\<rparr>)"
| step_wait: "sy_at s t = Waiting cap \<Longrightarrow> lock_wait K cap (sy_kernel s) = Some (a, k) \<Longrightarrow>
    mutex_step K t s (s\<lparr>sy_kernel := k, sy_at := (sy_at s)(t := a)\<rparr>)"
| step_deref: "sy_at s t = Holding x \<Longrightarrow>
    mutex_step K t s (s\<lparr>sy_at := (sy_at s)(t := Holding (Some (gm_data (sy_mutex s))))\<rparr>)"
| step_deref_mut: "sy_at s t = Holding (Some d) \<Longrightarrow>
    mutex_step K t s (s\<lparr>sy_mutex := (sy_mutex s)\<lparr>gm_data := f d\<rparr>, sy_at := (sy_at s)(t := Holding (Some (f d)))\<rparr>)"
| step_leave: "sy_at s t = Holding x \<Longrightarrow> unlock_leave (sy_mutex s) = Some (a, m) \<Longrightarrow>
    mutex_step K t s (s\<lparr>sy_mutex := m, sy_at := (sy_at s)(t := a)\<rparr>)"
| step_signal: "sy_at s t = Signalling cap \<Longrightarrow> unlock_signal K cap (sy_kernel s) = (a, k) \<Longrightarrow>
    mutex_step K t s (s\<lparr>sy_kernel := k, sy_at := (sy_at s)(t := a)\<rparr>)"

inductive mutex_reach :: "'k ntfn_kernel \<Rightarrow> nat \<Rightarrow> ('d, 'k) system \<Rightarrow> ('d, 'k) system \<Rightarrow> bool" for K n s0 where
  mutex_start: "mutex_reach K n s0 s0"
| mutex_next: "mutex_reach K n s0 s \<Longrightarrow> t < n \<Longrightarrow> mutex_step K t s s' \<Longrightarrow> mutex_reach K n s0 s'"

definition system_start :: "MutexNotification \<Rightarrow> 'd \<Rightarrow> 'k \<Rightarrow> ('d, 'k) system" where
  "system_start N d k = \<lparr>sy_mutex = GenericMutex_new N d, sy_kernel = k, sy_at = \<lambda>_. Outside\<rparr>"

inductive_cases mutex_step_cases: "mutex_step K t s s'"

section \<open>The kernel's contract\<close>

text \<open>
  A notification is a flag: \<^verbatim>\<open>signal\<close> raises it, \<^verbatim>\<open>wait\<close> returns exactly when it is raised, and lowers it. A signal that
  finds it raised is lost.
\<close>

definition ntfn_law :: "'k ntfn_kernel \<Rightarrow> u64 \<Rightarrow> ('k \<Rightarrow> bool) \<Rightarrow> bool" where
  "ntfn_law K cap raised \<longleftrightarrow>
     (\<forall>k. raised (nk_signal K cap k)) \<and>
     (\<forall>k. nk_wait K cap k \<noteq> None \<longleftrightarrow> raised k) \<and>
     (\<forall>k k'. nk_wait K cap k = Some k' \<longrightarrow> \<not> raised k')"

section \<open>Invariant\<close>

definition is_holding :: "'d at \<Rightarrow> bool" where "is_holding a \<longleftrightarrow> (\<exists>x. a = Holding x)"
definition is_waiting :: "'d at \<Rightarrow> bool" where "is_waiting a \<longleftrightarrow> (\<exists>c. a = Waiting c)"
definition is_signalling :: "'d at \<Rightarrow> bool" where "is_signalling a \<longleftrightarrow> (\<exists>c. a = Signalling c)"

lemma at_tests [simp]:
  "is_holding (Holding x)" "\<not> is_holding Outside" "\<not> is_holding (Waiting c)" "\<not> is_holding (Signalling c)"
  "is_waiting (Waiting c)" "\<not> is_waiting Outside" "\<not> is_waiting (Holding x)" "\<not> is_waiting (Signalling c)"
  "is_signalling (Signalling c)" "\<not> is_signalling Outside" "\<not> is_signalling (Holding x)" "\<not> is_signalling (Waiting c)"
  by (simp_all add: is_holding_def is_waiting_def is_signalling_def)

text \<open>How many of the threads are at a place.\<close>

definition threads_at :: "('d at \<Rightarrow> bool) \<Rightarrow> nat \<Rightarrow> (nat \<Rightarrow> 'd at) \<Rightarrow> int" where
  "threads_at P n f = (\<Sum>t<n. of_bool (P (f t)))"

lemma threads_at_upd:
  "t < n \<Longrightarrow> threads_at P n (f(t := a)) = threads_at P n f - of_bool (P (f t)) + of_bool (P a)"
proof -
  assume "t < n"
  have s: "sum g {..<n} = g t + sum g ({..<n} - {t})" for g :: "nat \<Rightarrow> int" using \<open>t < n\<close> by (simp add: sum.remove)
  have "(\<Sum>u\<in>{..<n} - {t}. of_bool (P ((f(t := a)) u)) :: int) = (\<Sum>u\<in>{..<n} - {t}. of_bool (P (f u)))" by (intro sum.cong) auto
  then show ?thesis unfolding threads_at_def s [of "\<lambda>u. of_bool (P ((f(t := a)) u))"] s [of "\<lambda>u. of_bool (P (f u))"] by simp
qed

lemma threads_at_bounds: "0 \<le> threads_at P n f" "threads_at P n f \<le> int n"
proof -
  show "0 \<le> threads_at P n f" by (simp add: threads_at_def sum_nonneg)
  have "threads_at P n f \<le> (\<Sum>t<n. 1)" unfolding threads_at_def by (intro sum_mono) simp
  then show "threads_at P n f \<le> int n" by simp
qed

lemma threads_at_pos: "t < n \<Longrightarrow> P (f t) \<Longrightarrow> 1 \<le> threads_at P n f"
  using threads_at_upd [of t n P f "f t"] member_le_sum [of t "{..<n}" "\<lambda>t. of_bool (P (f t)) :: int"] by (simp add: threads_at_def)

lemma threads_at_witness: "1 \<le> threads_at P n f \<Longrightarrow> \<exists>t<n. P (f t)"
proof (rule ccontr)
  assume "1 \<le> threads_at P n f" "\<not> (\<exists>t<n. P (f t))"
  moreover from this(2) have "threads_at P n f = 0" unfolding threads_at_def by (intro sum.neutral) auto
  ultimately show False by simp
qed

lemma threads_at_one: "threads_at P n f \<le> 1 \<Longrightarrow> t < n \<Longrightarrow> u < n \<Longrightarrow> P (f t) \<Longrightarrow> P (f u) \<Longrightarrow> t = u"
proof (rule ccontr)
  assume a: "threads_at P n f \<le> 1" "t < n" "u < n" "P (f t)" "P (f u)" "t \<noteq> u"
  have "(\<Sum>x\<in>{t, u}. of_bool (P (f x)) :: int) \<le> (\<Sum>x<n. of_bool (P (f x)))" using a by (intro sum_mono2) auto
  with a show False by (simp add: threads_at_def)
qed

text \<open>
  The counter is one less the threads that hold or wait; while it is not one, there is exactly one token, which is a
  holder, a thread about to signal, or the raised notification; what a holder has loaded is the data.
\<close>

definition mutex_inv :: "u64 \<Rightarrow> ('k \<Rightarrow> bool) \<Rightarrow> nat \<Rightarrow> ('d, 'k) system \<Rightarrow> bool" where
  "mutex_inv cap raised n s \<longleftrightarrow>
     mn_get (gm_notification (sy_mutex s)) = Some cap \<and>
     gm_value (sy_mutex s) = 1 - threads_at is_holding n (sy_at s) - threads_at is_waiting n (sy_at s) \<and>
     threads_at is_holding n (sy_at s) + threads_at is_signalling n (sy_at s) + of_bool (raised (sy_kernel s)) =
       of_bool (gm_value (sy_mutex s) \<noteq> 1) \<and>
     (\<forall>t<n. (\<forall>c. sy_at s t = Waiting c \<or> sy_at s t = Signalling c \<longrightarrow> c = cap) \<and>
       (\<forall>d. sy_at s t = Holding (Some d) \<longrightarrow> d = gm_data (sy_mutex s)))"

lemma holder_alone:
  assumes "mutex_inv cap raised n s" "t < n" "sy_at s t = Holding x"
  shows "threads_at is_holding n (sy_at s) = 1" "threads_at is_signalling n (sy_at s) = 0" "\<not> raised (sy_kernel s)" "gm_value (sy_mutex s) \<noteq> 1"
    "\<And>u. u < n \<Longrightarrow> is_holding (sy_at s u) \<Longrightarrow> u = t"
proof -
  have h: "1 \<le> threads_at is_holding n (sy_at s)" using threads_at_pos [of t n is_holding "sy_at s"] assms by simp
  note b = threads_at_bounds(1) [of is_signalling n "sy_at s"]
  have "threads_at is_holding n (sy_at s) + threads_at is_signalling n (sy_at s) + of_bool (raised (sy_kernel s)) \<le> 1" using assms(1) by (simp add: mutex_inv_def)
  note l = this h b
  show one: "threads_at is_holding n (sy_at s) = 1" using l by (cases "raised (sy_kernel s)") simp_all
  show "threads_at is_signalling n (sy_at s) = 0" using l by (cases "raised (sy_kernel s)") simp_all
  show "\<not> raised (sy_kernel s)" using l by (cases "raised (sy_kernel s)") simp_all
  show "gm_value (sy_mutex s) \<noteq> 1" using assms(1) one l by (cases "raised (sy_kernel s)") (auto simp: mutex_inv_def)
  show "u = t" if "u < n" "is_holding (sy_at s u)" for u using threads_at_one [of is_holding n "sy_at s" u t] one that assms by simp
qed

lemma inv_parts:
  assumes "mutex_inv cap raised n s"
  shows "mn_get (gm_notification (sy_mutex s)) = Some cap"
    "gm_value (sy_mutex s) = 1 - threads_at is_holding n (sy_at s) - threads_at is_waiting n (sy_at s)"
    "threads_at is_holding n (sy_at s) + threads_at is_signalling n (sy_at s) + of_bool (raised (sy_kernel s)) = of_bool (gm_value (sy_mutex s) \<noteq> 1)"
    "t < n \<Longrightarrow> sy_at s t = Waiting c \<or> sy_at s t = Signalling c \<Longrightarrow> c = cap"
    "t < n \<Longrightarrow> sy_at s t = Holding (Some d) \<Longrightarrow> d = gm_data (sy_mutex s)"
  using assms by (simp_all only: mutex_inv_def)

text \<open>A step moves one thread from a place to another.\<close>

lemma inv_upd:
  assumes i: "mutex_inv cap raised n s" "t < n" and m: "gm_notification m = gm_notification (sy_mutex s)"
    "gm_data m = gm_data (sy_mutex s) \<or> (\<forall>u<n. u \<noteq> t \<longrightarrow> \<not> is_holding (sy_at s u))"
    and v: "gm_value m = gm_value (sy_mutex s) + of_bool (is_holding (sy_at s t)) + of_bool (is_waiting (sy_at s t)) - of_bool (is_holding a) - of_bool (is_waiting a)"
    and tok: "of_bool (is_holding a) + of_bool (is_signalling a) + of_bool (raised k) + of_bool (gm_value (sy_mutex s) \<noteq> 1) =
      of_bool (is_holding (sy_at s t)) + of_bool (is_signalling (sy_at s t)) + of_bool (raised (sy_kernel s)) + (of_bool (gm_value m \<noteq> 1) :: int)"
    and a: "\<And>c. a = Waiting c \<or> a = Signalling c \<Longrightarrow> c = cap" "\<And>d. a = Holding (Some d) \<Longrightarrow> d = gm_data m"
  shows "mutex_inv cap raised n (s\<lparr>sy_mutex := m, sy_kernel := k, sy_at := (sy_at s)(t := a)\<rparr>)"
proof -
  note p = inv_parts [OF i(1)]
  have "threads_at is_holding n ((sy_at s)(t := a)) + threads_at is_signalling n ((sy_at s)(t := a)) + of_bool (raised k) = of_bool (gm_value m \<noteq> 1)"
    using p(3) tok i(2) by (simp only: threads_at_upd)
  moreover have "gm_value m = 1 - threads_at is_holding n ((sy_at s)(t := a)) - threads_at is_waiting n ((sy_at s)(t := a))"
    using p(2) v i(2) by (simp only: threads_at_upd)
  moreover have "d = gm_data m" if "u < n" "u \<noteq> t" "sy_at s u = Holding (Some d)" for u d using m(2) p(5) [OF that(1,3)] that by auto
  ultimately show ?thesis using p(1) p(4) a unfolding mutex_inv_def by (auto simp: m(1))
qed

lemma enter_inv:
  assumes i: "mutex_inv cap raised n s" "t < n" "int n < 2 ^ 62" and a: "sy_at s t = Outside" "lock_enter (sy_mutex s) = Some (a, m)"
  shows "mutex_inv cap raised n (s\<lparr>sy_mutex := m, sy_at := (sy_at s)(t := a)\<rparr>)"
proof -
  note p = inv_parts [OF i(1)] and b = threads_at_bounds [of is_holding n "sy_at s"] threads_at_bounds [of is_waiting n "sy_at s"]
  have v: "i64 (gm_value (sy_mutex s) - 1) = gm_value (sy_mutex s) - 1" using p(2) i(3) b by (intro i64_id) (simp add: i64_ok_def)
  from a(2) have m: "m = (sy_mutex s)\<lparr>gm_value := gm_value (sy_mutex s) - 1\<rparr>" "a = (if gm_value (sy_mutex s) \<le> 0 then Waiting cap else Holding None)"
    using p(1) by (auto simp: lock_enter_def fetch_add_value_def v split: if_splits)
  have "gm_value (sy_mutex s) \<le> 1" using p(2) b by linarith
  then have "mutex_inv cap raised n (s\<lparr>sy_mutex := m, sy_kernel := sy_kernel s, sy_at := (sy_at s)(t := a)\<rparr>)"
    using i(1,2) by (intro inv_upd) (auto simp: m a(1) split: if_splits)
  then show ?thesis by simp
qed

lemma wait_inv:
  assumes i: "mutex_inv cap raised n s" "t < n" "ntfn_law K cap raised" and a: "sy_at s t = Waiting c" "lock_wait K c (sy_kernel s) = Some (a, k)"
  shows "mutex_inv cap raised n (s\<lparr>sy_kernel := k, sy_at := (sy_at s)(t := a)\<rparr>)"
proof -
  have "c = cap" using inv_parts(4) [OF i(1,2)] a(1) by blast
  with a(2) i(3) have k: "raised (sy_kernel s)" "\<not> raised k" "a = Holding None" by (auto simp: lock_wait_def ntfn_law_def)
  have "mutex_inv cap raised n (s\<lparr>sy_mutex := sy_mutex s, sy_kernel := k, sy_at := (sy_at s)(t := a)\<rparr>)"
    using i(1,2) by (rule inv_upd) (simp_all add: k a(1))
  then show ?thesis by simp
qed

lemma deref_inv:
  assumes i: "mutex_inv cap raised n s" "t < n" and a: "sy_at s t = Holding x"
  shows "mutex_inv cap raised n (s\<lparr>sy_at := (sy_at s)(t := Holding (Some (gm_data (sy_mutex s))))\<rparr>)"
proof -
  have "mutex_inv cap raised n (s\<lparr>sy_mutex := sy_mutex s, sy_kernel := sy_kernel s, sy_at := (sy_at s)(t := Holding (Some (gm_data (sy_mutex s))))\<rparr>)"
    using i by (rule inv_upd) (simp_all add: a)
  then show ?thesis by simp
qed

lemma deref_mut_inv:
  assumes i: "mutex_inv cap raised n s" "t < n" and a: "sy_at s t = Holding (Some d)"
  shows "mutex_inv cap raised n (s\<lparr>sy_mutex := (sy_mutex s)\<lparr>gm_data := f d\<rparr>, sy_at := (sy_at s)(t := Holding (Some (f d)))\<rparr>)"
proof -
  have "\<forall>u<n. u \<noteq> t \<longrightarrow> \<not> is_holding (sy_at s u)" using holder_alone(5) [OF i a] by blast
  then have "mutex_inv cap raised n (s\<lparr>sy_mutex := (sy_mutex s)\<lparr>gm_data := f d\<rparr>, sy_kernel := sy_kernel s, sy_at := (sy_at s)(t := Holding (Some (f d)))\<rparr>)"
    using i by (intro inv_upd) (simp_all add: a)
  then show ?thesis by simp
qed

lemma leave_inv:
  assumes i: "mutex_inv cap raised n s" "t < n" "int n < 2 ^ 62" and a: "sy_at s t = Holding x" "unlock_leave (sy_mutex s) = Some (a, m)"
  shows "mutex_inv cap raised n (s\<lparr>sy_mutex := m, sy_at := (sy_at s)(t := a)\<rparr>)"
proof -
  note p = inv_parts [OF i(1)] and h = holder_alone [OF i(1,2) a(1)] and b = threads_at_bounds [of is_waiting n "sy_at s"]
  have val: "gm_value (sy_mutex s) = - threads_at is_waiting n (sy_at s)" using p(2) h(1) by simp
  have v: "i64 (gm_value (sy_mutex s) + 1) = gm_value (sy_mutex s) + 1" using val i(3) b by (intro i64_id) (simp add: i64_ok_def)
  from a(2) have m: "m = (sy_mutex s)\<lparr>gm_value := gm_value (sy_mutex s) + 1\<rparr>" "a = (if gm_value (sy_mutex s) < 0 then Signalling cap else Outside)"
    using p(1) by (auto simp: unlock_leave_def fetch_add_value_def v split: if_splits)
  have "gm_value (sy_mutex s) \<le> 0" using val b by simp
  then have "mutex_inv cap raised n (s\<lparr>sy_mutex := m, sy_kernel := sy_kernel s, sy_at := (sy_at s)(t := a)\<rparr>)"
    using i(1,2) by (intro inv_upd) (auto simp: m a(1) split: if_splits)
  then show ?thesis by simp
qed

lemma signal_inv:
  assumes i: "mutex_inv cap raised n s" "t < n" "ntfn_law K cap raised" and a: "sy_at s t = Signalling c" "unlock_signal K c (sy_kernel s) = (a, k)"
  shows "mutex_inv cap raised n (s\<lparr>sy_kernel := k, sy_at := (sy_at s)(t := a)\<rparr>)"
proof -
  have "c = cap" using inv_parts(4) [OF i(1,2)] a(1) by blast
  with a(2) i(3) have k: "raised k" "a = Outside" by (auto simp: unlock_signal_def ntfn_law_def)
  have "1 \<le> threads_at is_signalling n (sy_at s)" using threads_at_pos [of t n is_signalling "sy_at s"] i(2) a(1) by simp
  moreover have "threads_at is_holding n (sy_at s) + threads_at is_signalling n (sy_at s) + of_bool (raised (sy_kernel s)) \<le> 1"
    using inv_parts(3) [OF i(1)] by simp
  ultimately have "\<not> raised (sy_kernel s)" using threads_at_bounds(1) [of is_holding n "sy_at s"] by (cases "raised (sy_kernel s)") simp_all
  then have "mutex_inv cap raised n (s\<lparr>sy_mutex := sy_mutex s, sy_kernel := k, sy_at := (sy_at s)(t := a)\<rparr>)"
    using i(1,2) by (intro inv_upd) (simp_all add: k a(1))
  then show ?thesis by simp
qed

lemma step_inv: "mutex_step K t s s' \<Longrightarrow> t < n \<Longrightarrow> int n < 2 ^ 62 \<Longrightarrow> ntfn_law K cap raised \<Longrightarrow> mutex_inv cap raised n s \<Longrightarrow> mutex_inv cap raised n s'"
  by (erule mutex_step_cases) (auto intro: enter_inv wait_inv deref_inv deref_mut_inv leave_inv signal_inv)

lemma system_start_inv: "mn_get N = Some cap \<Longrightarrow> \<not> raised k \<Longrightarrow> mutex_inv cap raised n (system_start N d k)"
  by (simp add: mutex_inv_def system_start_def GenericMutex_new_def threads_at_def)

lemma reach_inv: "mutex_reach K n s0 s \<Longrightarrow> int n < 2 ^ 62 \<Longrightarrow> ntfn_law K cap raised \<Longrightarrow> mutex_inv cap raised n s0 \<Longrightarrow> mutex_inv cap raised n s"
  by (induction rule: mutex_reach.induct) (auto intro: step_inv)

section \<open>A concrete kernel\<close>

definition flag_kernel :: "bool ntfn_kernel" where
  "flag_kernel = \<lparr>nk_signal = \<lambda>_ _. True, nk_wait = \<lambda>_ k. if k then Some False else None\<rparr>"

lemma flag_law: "ntfn_law flag_kernel cap (\<lambda>k. k)"
  unfolding ntfn_law_def flag_kernel_def by auto

text \<open>Two threads: the first holds the lock, the second waits.\<close>

definition contended :: "(nat, bool) system" where
  "contended = \<lparr>sy_mutex = \<lparr>gm_notification = ExplicitMutexNotification 9, gm_value = - 1, gm_data = 40\<rparr>, sy_kernel = False,
     sy_at = (\<lambda>_. Outside)(0 := Holding (Some 40), 1 := Waiting 9)\<rparr>"

lemma contended_reach: "mutex_reach flag_kernel 2 (system_start (ExplicitMutexNotification 9) 40 False) contended"
proof -
  define s0 :: "(nat, bool) system" where "s0 = system_start (ExplicitMutexNotification 9) 40 False"
  define s1 where "s1 = s0\<lparr>sy_mutex := (sy_mutex s0)\<lparr>gm_value := 0\<rparr>, sy_at := (sy_at s0)(0 := Holding None)\<rparr>"
  define s2 where "s2 = s1\<lparr>sy_at := (sy_at s1)(0 := Holding (Some (gm_data (sy_mutex s1))))\<rparr>"
  have "mutex_step flag_kernel 0 s0 s1" unfolding s1_def
    by (rule step_enter) (simp_all add: s0_def system_start_def lock_enter_def fetch_add_value_def GenericMutex_new_def i64_def)
  moreover have "mutex_step flag_kernel 0 s1 s2" unfolding s2_def by (rule step_deref [where x = None]) (simp add: s1_def)
  moreover have "mutex_step flag_kernel 1 s2 (s2\<lparr>sy_mutex := (sy_mutex s2)\<lparr>gm_value := - 1\<rparr>, sy_at := (sy_at s2)(1 := Waiting 9)\<rparr>)"
    by (rule step_enter) (simp_all add: s2_def s1_def s0_def system_start_def lock_enter_def fetch_add_value_def GenericMutex_new_def i64_def mn_get_def)
  moreover have "s2\<lparr>sy_mutex := (sy_mutex s2)\<lparr>gm_value := - 1\<rparr>, sy_at := (sy_at s2)(1 := Waiting 9)\<rparr> = contended"
    by (simp add: s2_def s1_def s0_def contended_def system_start_def GenericMutex_new_def fun_eq_iff)
  ultimately show ?thesis unfolding s0_def [symmetric] by (metis mutex_start mutex_next one_less_numeral_iff semiring_norm(76) zero_less_numeral)
qed

section \<open>Properties\<close>

text \<open>
  C14. Mutual exclusion: over every interleaving of fewer than \<open>2\<^sup>6\<^sup>2\<close> threads, two different threads are never both
  inside; and so a load followed by a store under the guard is atomic: what a thread inside has loaded is the data
  until it stores.
\<close>

theorem mutex_excludes:
  assumes K: "ntfn_law K cap raised" and N: "mn_get N = Some cap" "\<not> raised k" "int n < 2 ^ 62" and r: "mutex_reach K n (system_start N d0 k) s"
  shows "(\<forall>t<n. \<forall>u<n. is_holding (sy_at s t) \<and> is_holding (sy_at s u) \<longrightarrow> t = u) \<and>
    (\<forall>t<n. \<forall>d. sy_at s t = Holding (Some d) \<longrightarrow> d = gm_data (sy_mutex s))"
proof -
  have i: "mutex_inv cap raised n s" by (rule reach_inv [OF r N(3) K system_start_inv [where raised = raised, OF N(1,2)]])
  have "t = u" if "t < n" "u < n" "is_holding (sy_at s t)" "is_holding (sy_at s u)" for t u
    using that holder_alone(5) [OF i] by (auto simp: is_holding_def)
  moreover have "d = gm_data (sy_mutex s)" if "t < n" "sy_at s t = Holding (Some d)" for t d using that i by (auto simp: mutex_inv_def)
  ultimately show ?thesis by blast
qed

theorem mutex_excludes_witness: "is_holding (sy_at contended 0) \<and> \<not> is_holding (sy_at contended 1)"
proof -
  have "mn_get (ExplicitMutexNotification 9) = Some 9" by (simp add: mn_get_def)
  from mutex_excludes [OF flag_law this _ _ contended_reach]
  have "\<forall>t<2. \<forall>u<2. is_holding (sy_at contended t) \<and> is_holding (sy_at contended u) \<longrightarrow> t = u" by simp
  from this [rule_format, of 0 1] have "\<not> (is_holding (sy_at contended 0) \<and> is_holding (sy_at contended 1))" by auto
  then show ?thesis by (simp add: contended_def)
qed

text \<open>
  C15. No wake-up is lost: whenever a thread waits for the lock, some thread is inside, or is about to signal, or the wait
  returns; and no step of the mutex panics. A signal that found the notification raised would be lost; the counter
  makes sure that this does not happen.
\<close>

theorem mutex_progress:
  assumes K: "ntfn_law K cap raised" and N: "mn_get N = Some cap" "\<not> raised k" "int n < 2 ^ 62" and r: "mutex_reach K n (system_start N d0 k) s"
    and t: "t < n" "sy_at s t = Waiting c"
  shows "((\<exists>u<n. is_holding (sy_at s u)) \<or> (\<exists>u<n. is_signalling (sy_at s u)) \<or> lock_wait K c (sy_kernel s) \<noteq> None) \<and>
    lock_enter (sy_mutex s) \<noteq> None \<and> unlock_leave (sy_mutex s) \<noteq> None"
proof -
  have i: "mutex_inv cap raised n s" by (rule reach_inv [OF r N(3) K system_start_inv [where raised = raised, OF N(1,2)]])
  note i' = i [unfolded mutex_inv_def]
  have c: "c = cap" using i' t by blast
  have "1 \<le> threads_at is_waiting n (sy_at s)" using threads_at_pos [of t n is_waiting "sy_at s"] t by simp
  then have "gm_value (sy_mutex s) \<noteq> 1" using i' threads_at_bounds(1) [of is_holding n "sy_at s"] by linarith
  then have "1 \<le> threads_at is_holding n (sy_at s) \<or> 1 \<le> threads_at is_signalling n (sy_at s) \<or> raised (sy_kernel s)"
    using i' threads_at_bounds(1) [of is_holding n "sy_at s"] threads_at_bounds(1) [of is_signalling n "sy_at s"] by (auto split: if_splits)
  moreover have "lock_wait K c (sy_kernel s) \<noteq> None" if "raised (sy_kernel s)" using K that by (simp add: c lock_wait_def ntfn_law_def)
  ultimately show ?thesis using i' threads_at_witness [of is_holding n "sy_at s"] threads_at_witness [of is_signalling n "sy_at s"]
    by (auto simp: lock_enter_def unlock_leave_def fetch_add_value_def)
qed

theorem mutex_progress_witness: "(\<exists>u<2. is_holding (sy_at contended u)) \<and> unlock_leave (sy_mutex contended) \<noteq> None"
proof -
  have "mn_get (ExplicitMutexNotification 9) = Some 9" by (simp add: mn_get_def)
  from mutex_progress [OF flag_law this _ _ contended_reach, of 1 9] show ?thesis
    by (auto simp: contended_def less_Suc_eq numeral_2_eq_2 lock_wait_def flag_kernel_def)
qed

end
