(* ===== verification/Rpc.thy ===== *)
theory Rpc
  imports Fault CSpace
begin

text \<open>
  Remote calls (\<^verbatim>\<open>framework/base/icecap-rpc\<close> and its \<^verbatim>\<open>types\<close>): a message is encoded by the \<^verbatim>\<open>postcard\<close> crate, padded to
  words, and written to a vector or to the message registers of the kernel; the other end reads the words and decodes
  them. The encoder, the decoder and the number of message registers are parameters. Both carriers meet the contract
  of the locale \<open>rpc_transport\<close>, in which the round trip is proved once.
\<close>

section \<open>Bytes and words\<close>

definition u64_to_le_bytes :: "u64 \<Rightarrow> u8 list" where
  "u64_to_le_bytes w = map (\<lambda>i. ucast (drop_bit (8 * i) w)) [0..<8]"

fun u64_from_le_bytes :: "u8 list \<Rightarrow> u64" where
  "u64_from_le_bytes [] = 0"
| "u64_from_le_bytes (b # bs) = ucast b OR push_bit 8 (u64_from_le_bytes bs)"

text \<open>\<^verbatim>\<open>resize_with(n, || 0)\<close>, and the consecutive pieces of a slice, of which the last may be shorter.\<close>

definition resize :: "nat \<Rightarrow> 'a::zero list \<Rightarrow> 'a list" where
  "resize n xs = take n xs @ replicate (n - length xs) 0"

function chunks :: "nat \<Rightarrow> 'a list \<Rightarrow> 'a list list" where
  "chunks n xs = (if n = 0 \<or> xs = [] then [] else take n xs # chunks n (drop n xs))"
  by pat_completeness auto
termination by (relation "measure (\<lambda>(n, xs). length xs)") auto

declare chunks.simps [simp del]

section \<open>Messages\<close>

definition RPC_send :: "(u64 \<Rightarrow> 's \<Rightarrow> 's option) \<Rightarrow> ('a \<Rightarrow> u8 list) \<Rightarrow> 'a \<Rightarrow> 's \<Rightarrow> 's option" where
  "RPC_send write_value to_allocvec x s = do {
     let bytes = to_allocvec x;
     let num_parameters = (length bytes + 8 - 1) div 8;
     let bytes = resize (num_parameters * 8) bytes;
     rust_assert (length bytes mod 8 = 0);
     for_each (chunks 8 bytes) (\<lambda>chunk. write_value (u64_from_le_bytes chunk)) s }"

definition RPC_recv :: "('r \<Rightarrow> (u64 \<times> 'r) option) \<Rightarrow> ('r \<Rightarrow> nat) \<Rightarrow> (u8 list \<Rightarrow> 'a option) \<Rightarrow> 'r \<Rightarrow> 'a option" where
  "RPC_recv read_value remaining from_bytes r = do {
     (bytes, _) \<leftarrow> for_each [0..<remaining r] (\<lambda>_ (bytes, r). do {
       (v, r) \<leftarrow> read_value r;
       Some (bytes @ u64_to_le_bytes v, r) }) ([], r);
     from_bytes bytes }"

section \<open>Vectors\<close>

definition Vec_write_value :: "u64 \<Rightarrow> u64 list \<Rightarrow> u64 list option" where
  "Vec_write_value v vs = Some (vs @ [v])"

definition SliceReader_read_value :: "u64 list \<Rightarrow> (u64 \<times> u64 list) option" where
  "SliceReader_read_value unread = do {
     v \<leftarrow> vec_get unread 0;
     Some (v, drop 1 unread) }"

definition send_to_vec :: "('a \<Rightarrow> u8 list) \<Rightarrow> 'a \<Rightarrow> u64 list option" where
  "send_to_vec to_allocvec x = RPC_send Vec_write_value to_allocvec x []"

definition recv_from_slice :: "(u8 list \<Rightarrow> 'a option) \<Rightarrow> u64 list \<Rightarrow> 'a option" where
  "recv_from_slice from_bytes parameters = RPC_recv SliceReader_read_value length from_bytes parameters"

section \<open>Message registers\<close>

text \<open>
  \<^verbatim>\<open>MessageRegister::new\<close> panics for an index of \<^verbatim>\<open>MSG_MAX_LENGTH\<close> or more, the parameter \<open>M\<close>. The registers are
  state the two cursors range over.
\<close>

definition MessageRegister_new :: "u32 \<Rightarrow> nat \<Rightarrow> nat option" where
  "MessageRegister_new M i = (if i < unat M then Some i else None)"

record SendingImpl =
  si_cursor :: nat
  si_mrs :: message_registers

record ReceivingImpl =
  ri_length :: nat
  ri_cursor :: nat
  ri_mrs :: message_registers

definition SendingImpl_new :: "message_registers \<Rightarrow> SendingImpl" where
  "SendingImpl_new mrs = \<lparr>si_cursor = 0, si_mrs = mrs\<rparr>"

definition SendingImpl_write_value :: "u32 \<Rightarrow> u64 \<Rightarrow> SendingImpl \<Rightarrow> SendingImpl option" where
  "SendingImpl_write_value M v s = do {
     r \<leftarrow> MessageRegister_new M (si_cursor s);
     Some (s\<lparr>si_mrs := (si_mrs s)(r := v), si_cursor := si_cursor s + 1\<rparr>) }"

text \<open>\<^verbatim>\<open>SendingImpl::complete\<close>: the length for the message info, and the registers.\<close>

definition SendingImpl_complete :: "u32 \<Rightarrow> ('a \<Rightarrow> u8 list) \<Rightarrow> 'a \<Rightarrow> message_registers \<Rightarrow> (nat \<times> message_registers) option" where
  "SendingImpl_complete M to_allocvec x mrs = do {
     s \<leftarrow> RPC_send (SendingImpl_write_value M) to_allocvec x (SendingImpl_new mrs);
     Some (si_cursor s, si_mrs s) }"

definition ReceivingImpl_new :: "nat \<Rightarrow> message_registers \<Rightarrow> ReceivingImpl" where
  "ReceivingImpl_new n mrs = \<lparr>ri_length = n, ri_cursor = 0, ri_mrs = mrs\<rparr>"

definition ReceivingImpl_read_value :: "u32 \<Rightarrow> ReceivingImpl \<Rightarrow> (u64 \<times> ReceivingImpl) option" where
  "ReceivingImpl_read_value M r = do {
     rust_assert (ri_cursor r \<noteq> ri_length r);
     i \<leftarrow> MessageRegister_new M (ri_cursor r);
     Some (ri_mrs r i, r\<lparr>ri_cursor := ri_cursor r + 1\<rparr>) }"

definition ReceivingImpl_remaining :: "ReceivingImpl \<Rightarrow> nat" where
  "ReceivingImpl_remaining r = usize_sub (ri_length r) (ri_cursor r)"

definition ReceivingImpl_complete :: "u32 \<Rightarrow> (u8 list \<Rightarrow> 'a option) \<Rightarrow> nat \<Rightarrow> message_registers \<Rightarrow> 'a option" where
  "ReceivingImpl_complete M from_bytes n mrs = RPC_recv (ReceivingImpl_read_value M) ReceivingImpl_remaining from_bytes (ReceivingImpl_new n mrs)"

section \<open>Proxies\<close>

definition proxy_down :: "u32 \<Rightarrow> nat \<Rightarrow> message_registers \<Rightarrow> u64 list option" where
  "proxy_down M n mrs = do {
     (parameters, _) \<leftarrow> for_each [0..<n] (\<lambda>_ (parameters, r). do {
       (v, r) \<leftarrow> ReceivingImpl_read_value M r;
       Some (parameters @ [v], r) }) ([], ReceivingImpl_new n mrs);
     Some parameters }"

definition proxy_up :: "u32 \<Rightarrow> u64 list \<Rightarrow> message_registers \<Rightarrow> (nat \<times> message_registers) option" where
  "proxy_up M parameters mrs = do {
     s \<leftarrow> for_each parameters (SendingImpl_write_value M) (SendingImpl_new mrs);
     Some (length parameters, si_mrs s) }"

section \<open>Lemmas on bytes and words\<close>

lemma bit_from_le_bytes:
  "bit (u64_from_le_bytes bs) n \<longleftrightarrow> n < 64 \<and> n div 8 < length bs \<and> bit (bs ! (n div 8)) (n mod 8)"
proof (induction bs arbitrary: n)
  case (Cons b bs)
  show ?case
  proof (cases "n < 8")
    case True
    then show ?thesis by (auto simp: bit_or_iff bit_push_bit_iff bit_ucast_iff)
  next
    case False
    then obtain k where k: "n = k + 8" by (metis le_add_diff_inverse2 not_less)
    have "\<not> bit b n" using bit_word_lt [of b n] False by auto
    moreover have "(k + 8) div 8 = Suc (k div 8)" by simp
    ultimately show ?thesis using Cons [of k] by (auto simp: bit_or_iff bit_push_bit_iff bit_ucast_iff k simp del: div_add_self2)
  qed
qed simp

lemma le_bytes_inverse: "length bs = 8 \<Longrightarrow> u64_to_le_bytes (u64_from_le_bytes bs) = bs"
proof (rule nth_equalityI)
  fix i assume l: "length bs = 8" and "i < length (u64_to_le_bytes (u64_from_le_bytes bs))"
  then have i: "i < 8" by (simp add: u64_to_le_bytes_def)
  have "bit (u64_to_le_bytes (u64_from_le_bytes bs) ! i) k \<longleftrightarrow> bit (bs ! i) k" for k
    using i l bit_word_lt [of "bs ! i" k] by (auto simp: u64_to_le_bytes_def bit_ucast_iff bit_drop_bit_eq bit_from_le_bytes)
  then show "u64_to_le_bytes (u64_from_le_bytes bs) ! i = bs ! i" by (rule bit_word_eqI)
qed (simp add: u64_to_le_bytes_def)

lemma length_resize [simp]: "length (resize n xs) = n"
  by (simp add: resize_def)

lemma resize_pads: "length xs \<le> n \<Longrightarrow> resize n xs = xs @ replicate (n - length xs) 0"
  by (simp add: resize_def)

lemma concat_chunks: "0 < n \<Longrightarrow> concat (chunks n xs) = xs"
  by (induction n xs rule: chunks.induct) (subst chunks.simps, simp)

lemma chunks_size: "c \<in> set (chunks n xs) \<Longrightarrow> c \<noteq> [] \<and> length c \<le> n"
  by (induction n xs rule: chunks.induct) (subst (asm) (2) chunks.simps, auto split: if_splits)

lemma chunks_exact: "n dvd length xs \<Longrightarrow> c \<in> set (chunks n xs) \<Longrightarrow> length c = n"
proof (induction n xs rule: chunks.induct)
  case (1 n xs)
  from "1.prems" have n: "\<not> (n = 0 \<or> xs = [])" by (subst (asm) chunks.simps) (auto split: if_splits)
  then have l: "n \<le> length xs" using "1.prems"(1) by (simp add: dvd_imp_le)
  from "1.prems"(2) n have "c = take n xs \<or> c \<in> set (chunks n (drop n xs))" by (subst (asm) chunks.simps) simp
  with l 1(1) [OF n] "1.prems"(1) show ?case by (auto simp: dvd_minus_self)
qed

lemma length_chunks_exact: "n dvd length xs \<Longrightarrow> 0 < n \<Longrightarrow> length (chunks n xs) = length xs div n"
proof (induction n xs rule: chunks.induct)
  case (1 n xs)
  show ?case
  proof (cases "xs = []")
    case False
    then have l: "n \<le> length xs" using "1.prems"(1) by (simp add: dvd_imp_le)
    have "length (chunks n (drop n xs)) = (length xs - n) div n" using 1 False l by (simp add: dvd_minus_self)
    with l False "1.prems"(2) show ?thesis by (subst chunks.simps) (simp add: le_div_geq)
  qed (simp add: chunks.simps)
qed

text \<open>The words of a message, and that decoding their bytes gives the message with its padding.\<close>

definition message_words :: "u8 list \<Rightarrow> u64 list" where
  "message_words bytes = map u64_from_le_bytes (chunks 8 (resize ((length bytes + 7) div 8 * 8) bytes))"

lemma message_words_bytes: "concat (map u64_to_le_bytes (message_words bytes)) = bytes @ replicate ((length bytes + 7) div 8 * 8 - length bytes) 0"
proof -
  have "map (u64_to_le_bytes \<circ> u64_from_le_bytes) (chunks 8 (resize ((length bytes + 7) div 8 * 8) bytes)) = chunks 8 (resize ((length bytes + 7) div 8 * 8) bytes)"
    by (intro map_idI) (auto intro!: le_bytes_inverse chunks_exact [of 8 "resize ((length bytes + 7) div 8 * 8) bytes"])
  then have "concat (map u64_to_le_bytes (message_words bytes)) = resize ((length bytes + 7) div 8 * 8) bytes"
    by (simp add: message_words_def concat_chunks)
  then show ?thesis by (simp add: resize_def)
qed

lemma length_message_words: "length (message_words bytes) = (length bytes + 7) div 8"
  by (simp add: message_words_def length_chunks_exact)

lemma for_each_map: "for_each (map f xs) g s = for_each xs (\<lambda>x. g (f x)) s"
  by (induction xs arbitrary: s) (auto split: option.split)

lemma RPC_send_words: "RPC_send write_value to_allocvec x s = for_each (message_words (to_allocvec x)) write_value s"
  by (simp add: RPC_send_def message_words_def Let_def for_each_map rust_assert_def add.commute)

section \<open>The contract of a carrier\<close>

text \<open>
  A carrier accepts words one by one as long as they fit, and hands them to the reader in order. What the sender has
  written and the receiver has not read are lists.
\<close>

locale rpc_transport =
  fixes fresh :: 's and write_value :: "u64 \<Rightarrow> 's \<Rightarrow> 's option" and deliver :: "'s \<Rightarrow> 'r"
    and read_value :: "'r \<Rightarrow> (u64 \<times> 'r) option" and remaining :: "'r \<Rightarrow> nat"
    and written :: "'s \<Rightarrow> u64 list" and unread :: "'r \<Rightarrow> u64 list" and fits :: "nat \<Rightarrow> bool" and sound :: "'r \<Rightarrow> bool"
  assumes fresh_law: "written fresh = []"
    and fits_law: "fits n \<Longrightarrow> m \<le> n \<Longrightarrow> fits m"
    and write_law: "fits (Suc (length (written s))) \<Longrightarrow> \<exists>s'. write_value v s = Some s' \<and> written s' = written s @ [v]"
    and full_law: "\<not> fits (Suc (length (written s))) \<Longrightarrow> write_value v s = None"
    and deliver_law: "fits (length (written s)) \<Longrightarrow> unread (deliver s) = written s \<and> sound (deliver s)"
    and remaining_law: "sound r \<Longrightarrow> remaining r = length (unread r)"
    and read_law: "sound r \<Longrightarrow> unread r = v # vs \<Longrightarrow> \<exists>r'. read_value r = Some (v, r') \<and> unread r' = vs \<and> sound r'"
begin

lemma write_all: "fits (length (written s) + length vs) \<Longrightarrow> \<exists>s'. for_each vs write_value s = Some s' \<and> written s' = written s @ vs"
proof (induction vs arbitrary: s)
  case (Cons v vs)
  from Cons.prems have "fits (Suc (length (written s)))" by (rule fits_law) simp
  from write_law [OF this] obtain s1 where s1: "write_value v s = Some s1" "written s1 = written s @ [v]" by blast
  with Cons.IH [of s1] Cons.prems show ?case by auto
qed simp

lemma read_all:
  assumes "sound r"
  shows "\<exists>r'. for_each [0..<length (unread r)] (\<lambda>_ (bytes, r). do { (v, r) \<leftarrow> read_value r; Some (bytes @ u64_to_le_bytes v, r) }) (acc, r) =
      Some (acc @ concat (map u64_to_le_bytes (unread r)), r')"
proof -
  have "\<exists>r'. for_each is (\<lambda>_ (bytes, r). do { (v, r) \<leftarrow> read_value r; Some (bytes @ u64_to_le_bytes v, r) }) (acc, r) =
      Some (acc @ concat (map u64_to_le_bytes vs), r')" if "unread r = vs" "length is = length vs" "sound r" for vs and "is" :: "nat list" and acc r
    using that
  proof (induction vs arbitrary: r acc "is")
    case (Cons v vs)
    then obtain i is' where i: "is = i # is'" by (cases "is") auto
    from Cons.prems read_law [of r v vs] obtain r1 where r1: "read_value r = Some (v, r1)" "unread r1 = vs" "sound r1" by auto
    with Cons.IH [OF r1(2), of is' "acc @ u64_to_le_bytes v"] Cons.prems(2) show ?case by (simp add: i)
  qed simp
  from this [OF refl _ assms] show ?thesis by simp
qed

lemma round_trip:
  assumes fit: "fits ((length (to_allocvec x) + 7) div 8)" and codec: "\<And>k. k < 8 \<Longrightarrow> from_bytes (to_allocvec x @ replicate k 0) = Some x"
  shows "\<exists>s. RPC_send write_value to_allocvec x fresh = Some s \<and> written s = message_words (to_allocvec x) \<and>
    RPC_recv read_value remaining from_bytes (deliver s) = Some x"
proof -
  define vs where "vs = message_words (to_allocvec x)"
  have f: "fits (length vs)" using fit by (simp add: vs_def length_message_words)
  with write_all [of fresh vs] obtain s where s: "for_each vs write_value fresh = Some s" "written s = vs" by (auto simp: fresh_law)
  have u: "unread (deliver s) = vs" "sound (deliver s)" using deliver_law [of s] f by (simp_all add: s)
  from read_all [OF u(2), of "[]"] obtain r where
    r: "for_each [0..<length vs] (\<lambda>_ (bytes, r). do { (v, r) \<leftarrow> read_value r; Some (bytes @ u64_to_le_bytes v, r) }) ([], deliver s) =
      Some (concat (map u64_to_le_bytes vs), r)" by (auto simp: u)
  have k: "(length (to_allocvec x) + 7) div 8 * 8 - length (to_allocvec x) < 8" by linarith
  have "remaining (deliver s) = length vs" using remaining_law [OF u(2)] by (simp add: u)
  then have "RPC_recv read_value remaining from_bytes (deliver s) = from_bytes (concat (map u64_to_le_bytes vs))" by (simp add: RPC_recv_def r)
  also have "\<dots> = Some x" using codec [OF k] by (simp add: vs_def message_words_bytes)
  finally show ?thesis using s by (simp add: RPC_send_words vs_def)
qed

lemma too_long: "\<not> fits (length (written s) + length vs) \<Longrightarrow> vs \<noteq> [] \<Longrightarrow> for_each vs write_value s = None"
proof (induction vs arbitrary: s)
  case (Cons v vs)
  show ?case
  proof (cases "fits (Suc (length (written s)))")
    case True
    from write_law [OF this] obtain s1 where s1: "write_value v s = Some s1" "written s1 = written s @ [v]" by blast
    show ?thesis
    proof (cases "vs = []")
      case True
      with Cons.prems(1) \<open>fits (Suc _)\<close> show ?thesis by simp
    qed (use Cons.IH [of s1] Cons.prems(1) s1 in simp)
  qed (simp add: full_law)
qed simp

end

interpretation vec: rpc_transport "[]" Vec_write_value "\<lambda>vs. vs" SliceReader_read_value length "\<lambda>vs. vs" "\<lambda>vs. vs" "\<lambda>_. True" "\<lambda>_. True"
  by unfold_locales (auto simp: Vec_write_value_def SliceReader_read_value_def)

text \<open>
  Message registers: the kernel copies the registers of the message; what the receiver's others hold is open.
\<close>

definition kernel_copy :: "message_registers \<Rightarrow> SendingImpl \<Rightarrow> ReceivingImpl" where
  "kernel_copy junk s = ReceivingImpl_new (si_cursor s) (\<lambda>i. if i < si_cursor s then si_mrs s i else junk i)"

definition mr_written :: "SendingImpl \<Rightarrow> u64 list" where
  "mr_written s = map (si_mrs s) [0..<si_cursor s]"

definition mr_unread :: "ReceivingImpl \<Rightarrow> u64 list" where
  "mr_unread r = map (ri_mrs r) [ri_cursor r..<ri_length r]"

definition mr_sound :: "u32 \<Rightarrow> ReceivingImpl \<Rightarrow> bool" where
  "mr_sound M r \<longleftrightarrow> ri_cursor r \<le> ri_length r \<and> ri_length r \<le> unat M"

interpretation mr: rpc_transport "SendingImpl_new mrs" "SendingImpl_write_value M" "kernel_copy junk" "ReceivingImpl_read_value M" ReceivingImpl_remaining
    mr_written mr_unread "\<lambda>n. n \<le> unat M" "mr_sound M" for mrs M junk
proof unfold_locales
  fix r assume r: "mr_sound M r"
  have "unat M < 2 ^ LENGTH(32)" by (rule unsigned_less)
  then have "unat M < 2 ^ 64" by simp
  with r show "ReceivingImpl_remaining r = length (mr_unread r)"
    by (simp add: mr_sound_def ReceivingImpl_remaining_def mr_unread_def usize_sub_def)
qed (auto simp: SendingImpl_new_def mr_written_def mr_unread_def SendingImpl_write_value_def MessageRegister_new_def kernel_copy_def ReceivingImpl_new_def
    mr_sound_def ReceivingImpl_read_value_def rust_assert_def upt_eq_Cons_conv)

end
