(* ===== verification/Host.thy ===== *)
theory Host
  imports VmmExt ResourceServer Rpc
begin

text \<open>
  The library of the host's command line tool (\<^verbatim>\<open>hypervisor/host-tools/icecap-host/core/src\<close>): it sends the description of
  a realm to the resource server in pieces of the bulk region, starts the realm, sends the content of its frames, and
  finishes it. Requests go through an \<^verbatim>\<open>ioctl\<close> of the host's kernel, which traps into the monitor. Parameters are the
  host's files and \<^verbatim>\<open>ioctl\<close>s, acting on a state \<open>'h\<close>, and the \<^verbatim>\<open>postcard\<close> encoders. An \<^verbatim>\<open>ioctl\<close> that fails or does not
  return gives \<open>None\<close>: the caller asserts that it succeeds.
\<close>

datatype DirectRequest = BenchmarkUtilisationStart | BenchmarkUtilisationFinish

record 'h host_env =
  he_ioctl_passthru :: "u64 \<Rightarrow> u64 list \<Rightarrow> 'h \<Rightarrow> (u64 list \<times> 'h) option"
  he_ioctl_yield_to :: "u64 \<Rightarrow> u64 \<Rightarrow> 'h \<Rightarrow> 'h option"
  he_open :: "'h \<Rightarrow> (unit + unit) \<times> 'h"
  he_write_all :: "u8 list \<Rightarrow> 'h \<Rightarrow> (unit + unit) \<times> 'h"
  he_flush :: "'h \<Rightarrow> (unit + unit) \<times> 'h"
  he_request :: "Request \<Rightarrow> u8 list"
  he_direct :: "DirectRequest \<Rightarrow> u8 list"
  he_header :: "FillChunkHeader \<Rightarrow> u8 list"
  he_take_model :: "u8 list \<Rightarrow> (Model \<times> u8 list) option"

type_synonym 'h host_method = "'h \<Rightarrow> (unit, unit, 'h) fallible"

section \<open>System calls\<close>

text \<open>The registers of the call are a length and six words. The answers are unit values, which decode from nothing.\<close>

definition call_passthru :: "'h host_env \<Rightarrow> ('a \<Rightarrow> u8 list) \<Rightarrow> u64 \<Rightarrow> 'a \<Rightarrow> 'h \<Rightarrow> 'h option" where
  "call_passthru H to_allocvec sys_id input h = do {
     v_in \<leftarrow> send_to_vec to_allocvec input;
     rust_assert (length v_in \<le> 6);
     (regs, h) \<leftarrow> he_ioctl_passthru H sys_id (of_nat (length v_in) # resize 6 v_in) h;
     n \<leftarrow> vec_get regs 0;
     rust_assert (unat n \<le> length (drop 1 regs));
     _ \<leftarrow> recv_from_slice (\<lambda>_. Some ()) (take (unat n) (drop 1 regs));
     Some h }"

definition direct :: "'h host_env \<Rightarrow> DirectRequest \<Rightarrow> 'h \<Rightarrow> 'h option" where
  "direct H request = call_passthru H (he_direct H) SYS_DIRECT request"

definition resource_server_passthru :: "'h host_env \<Rightarrow> Request \<Rightarrow> 'h \<Rightarrow> 'h option" where
  "resource_server_passthru H request = call_passthru H (he_request H) RESOURCE_SERVER_PASSTHRU request"

definition sc_declare :: "'h host_env \<Rightarrow> nat \<Rightarrow> nat \<Rightarrow> 'h \<Rightarrow> 'h option" where
  "sc_declare H realm_id spec_size = resource_server_passthru H (Declare realm_id spec_size)"

definition sc_spec_chunk :: "'h host_env \<Rightarrow> nat \<Rightarrow> nat \<Rightarrow> nat \<Rightarrow> nat \<Rightarrow> 'h \<Rightarrow> 'h option" where
  "sc_spec_chunk H realm_id bulk_data_offset bulk_data_size offset =
     resource_server_passthru H (SpecChunk realm_id bulk_data_offset bulk_data_size offset)"

definition sc_fill_chunks :: "'h host_env \<Rightarrow> nat \<Rightarrow> nat \<Rightarrow> nat \<Rightarrow> 'h \<Rightarrow> 'h option" where
  "sc_fill_chunks H realm_id bulk_data_offset bulk_data_size = resource_server_passthru H (FillChunks realm_id bulk_data_offset bulk_data_size)"

definition sc_realize_start :: "'h host_env \<Rightarrow> nat \<Rightarrow> 'h \<Rightarrow> 'h option" where
  "sc_realize_start H realm_id = resource_server_passthru H (RealizeStart realm_id)"

definition sc_realize_finish :: "'h host_env \<Rightarrow> nat \<Rightarrow> 'h \<Rightarrow> 'h option" where
  "sc_realize_finish H realm_id = resource_server_passthru H (RealizeFinish realm_id)"

definition sc_destroy :: "'h host_env \<Rightarrow> nat \<Rightarrow> 'h \<Rightarrow> 'h option" where
  "sc_destroy H realm_id = resource_server_passthru H (Destroy realm_id)"

definition sc_hack_run :: "'h host_env \<Rightarrow> nat \<Rightarrow> 'h \<Rightarrow> 'h option" where
  "sc_hack_run H realm_id = resource_server_passthru H (HackRun realm_id)"

definition sc_yield_to :: "'h host_env \<Rightarrow> nat \<Rightarrow> nat \<Rightarrow> 'h \<Rightarrow> 'h option" where
  "sc_yield_to H realm_id v = he_ioctl_yield_to H (of_nat realm_id) (of_nat v)"

section \<open>Bulk transport\<close>

definition BulkTransport_send :: "'h host_env \<Rightarrow> u8 list \<Rightarrow> 'h host_method" where
  "BulkTransport_send H bytes h = try_method (Some (he_write_all H bytes h)) (\<lambda>_ h. Some (he_flush H h))"

definition send_spec :: "'h host_env \<Rightarrow> nat \<Rightarrow> u8 list \<Rightarrow> nat \<Rightarrow> 'h host_method" where
  "send_spec H realm_id spec chunk_size h = do {
     rust_assert (chunk_size \<noteq> 0);
     try_for_each (enumerate 0 (chunks chunk_size spec)) (\<lambda>(i, chunk) h.
       try_method (BulkTransport_send H chunk h) (\<lambda>_ h. do {
         h \<leftarrow> sc_spec_chunk H realm_id 0 (length chunk) (usize_mul i chunk_size) h;
         Some (Inr (), h) })) h }"

definition send_fill :: "'h host_env \<Rightarrow> nat \<Rightarrow> u8 list \<Rightarrow> 'h host_method" where
  "send_fill H realm_id content h = try_method (BulkTransport_send H content h) (\<lambda>_ h. do {
     h \<leftarrow> sc_fill_chunks H realm_id 0 (length content) h;
     Some (Inr (), h) })"

section \<open>Realms\<close>

text \<open>The entries the two nested loops of \<^verbatim>\<open>create_realm\<close> visit: object index, entry index and length.\<close>

definition fill_entries :: "Model \<Rightarrow> (nat \<times> nat \<times> nat) list" where
  "fill_entries m = concat (map (\<lambda>(i, t). case to_object t of
       Local (Obj_SmallPage fill) \<Rightarrow> map (\<lambda>(j, e). (i, j, fe_length e)) (enumerate 0 fill)
     | Local (Obj_LargePage fill) \<Rightarrow> map (\<lambda>(j, e). (i, j, fe_length e)) (enumerate 0 fill)
     | _ \<Rightarrow> []) (enumerate 0 (md_objects m)))"

text \<open>The body of the loops, on the chunk collected so far, the offset into the content and the host.\<close>

definition push_fill :: "'h host_env \<Rightarrow> nat \<Rightarrow> u8 list \<Rightarrow> nat \<Rightarrow> nat \<times> nat \<times> nat \<Rightarrow> (u8 list \<times> nat) \<times> 'h \<Rightarrow> (unit, unit, (u8 list \<times> nat) \<times> 'h) fallible" where
  "push_fill H realm_id fill_content chunk_size = (\<lambda>(i, j, len) ((acc, offset), h). do {
     let last = usize_add offset len;
     rust_assert (offset \<le> last \<and> last \<le> length fill_content);
     let content = take (last - offset) (drop offset fill_content);
     let header = he_header H \<lparr>fh_object_index = i, fh_fill_entry_index = j, fh_size = length content\<rparr>;
     let size' = usize_add (length header) (length content);
     (r, h) \<leftarrow> (if usize_add (length acc) size' > chunk_size then send_fill H realm_id acc h else Some (Inr (), h));
     (case r of
        Inl e \<Rightarrow> Some (Inl e, (acc, offset), h)
      | Inr _ \<Rightarrow> (let acc = (if usize_add (length acc) size' > chunk_size then [] else acc)
                   in Some (Inr (), (acc @ header @ content, usize_add offset len), h))) })"

definition send_fills :: "'h host_env \<Rightarrow> nat \<Rightarrow> u8 list \<Rightarrow> nat \<Rightarrow> (nat \<times> nat \<times> nat) list \<Rightarrow> 'h host_method" where
  "send_fills H realm_id fill_content chunk_size entries h = do {
     (r, (acc, _), h) \<leftarrow> try_for_each entries (push_fill H realm_id fill_content chunk_size) (([], 0), h);
     (case r of
        Inl e \<Rightarrow> Some (Inl e, h)
      | Inr _ \<Rightarrow> do {
          rust_assert (length acc \<le> chunk_size);
          send_fill H realm_id acc h }) }"

definition Host_create_realm :: "'h host_env \<Rightarrow> nat \<Rightarrow> u8 list \<Rightarrow> nat \<Rightarrow> 'h host_method" where
  "Host_create_realm H realm_id spec chunk_size h = do {
     (model, fill_content) \<leftarrow> he_take_model H spec;
     let model_size = usize_sub (length spec) (length fill_content);
     h \<leftarrow> sc_declare H realm_id model_size h;
     try_method (Some (he_open H h)) (\<lambda>_ h. do {
       rust_assert (model_size \<le> length spec);
       try_method (send_spec H realm_id (take model_size spec) chunk_size h) (\<lambda>_ h. do {
         h \<leftarrow> sc_realize_start H realm_id h;
         try_method (send_fills H realm_id fill_content chunk_size (fill_entries model) h) (\<lambda>_ h. do {
           h \<leftarrow> sc_realize_finish H realm_id h;
           Some (Inr (), h) }) }) }) }"

definition Host_destroy_realm :: "'h host_env \<Rightarrow> nat \<Rightarrow> 'h host_method" where
  "Host_destroy_realm H realm_id h = do { h \<leftarrow> sc_destroy H realm_id h; Some (Inr (), h) }"

definition hack_run_realm :: "'h host_env \<Rightarrow> nat \<Rightarrow> 'h host_method" where
  "hack_run_realm H realm_id h = do { h \<leftarrow> sc_hack_run H realm_id h; Some (Inr (), h) }"

text \<open>\<^verbatim>\<open>run_realm_node\<close> yields for ever; this is its loop for a number of rounds.\<close>

primrec run_realm_node :: "'h host_env \<Rightarrow> nat \<Rightarrow> nat \<Rightarrow> nat \<Rightarrow> 'h \<Rightarrow> 'h option" where
  "run_realm_node H realm_id v 0 h = Some h"
| "run_realm_node H realm_id v (Suc n) h = do { h \<leftarrow> sc_yield_to H realm_id v h; run_realm_node H realm_id v n h }"

end
