(* ===== verification/HostProps.thy ===== *)
theory HostProps
  imports Host ResourceServerRun
begin

text \<open>
  The host's tool against the resource server: a request arrives as it was sent, through the registers of the trap, the
  monitor's proxy and the message registers; the pieces of a description make up the description again; and the content
  of the frames reaches the realizer entry by entry.
\<close>

section \<open>Requests\<close>

lemma Vec_write_all: "for_each vs Vec_write_value s = Some (s @ vs)"
  by (induction vs arbitrary: s) (simp_all add: Vec_write_value_def)

lemma send_to_vec_words: "send_to_vec to_allocvec x = Some (message_words (to_allocvec x))"
  by (simp add: send_to_vec_def RPC_send_words Vec_write_all)

lemma recv_from_slice_words:
  assumes "\<And>k. k < 8 \<Longrightarrow> from_bytes (to_allocvec x @ replicate k 0) = Some x"
  shows "recv_from_slice from_bytes (message_words (to_allocvec x)) = Some x"
  using vec.round_trip [where to_allocvec = to_allocvec and x = x and from_bytes = from_bytes] assms
  by (auto simp: recv_from_slice_def)

lemma recv_from_slice_unit [simp]: "recv_from_slice (\<lambda>_. Some ()) vs = Some ()"
proof -
  from vec.read_all [of vs "[]"] obtain r where
    "for_each [0..<length vs] (\<lambda>_ (bytes, r). do { (v, r) \<leftarrow> SliceReader_read_value r; Some (bytes @ u64_to_le_bytes v, r) }) ([], vs) =
      Some (concat (map u64_to_le_bytes vs), r)" by auto
  then show ?thesis by (simp add: recv_from_slice_def RPC_recv_def)
qed

text \<open>The fields of a request are \<^verbatim>\<open>usize\<close> values.\<close>

definition usize_request :: "Request \<Rightarrow> bool" where
  "usize_request req = (case req of
     Declare a b \<Rightarrow> a < 2 ^ 64 \<and> b < 2 ^ 64
   | SpecChunk a b c d \<Rightarrow> a < 2 ^ 64 \<and> b < 2 ^ 64 \<and> c < 2 ^ 64 \<and> d < 2 ^ 64
   | FillChunks a b c \<Rightarrow> a < 2 ^ 64 \<and> b < 2 ^ 64 \<and> c < 2 ^ 64
   | RealizeStart a \<Rightarrow> a < 2 ^ 64
   | RealizeFinish a \<Rightarrow> a < 2 ^ 64
   | Destroy a \<Rightarrow> a < 2 ^ 64
   | HackRun a \<Rightarrow> a < 2 ^ 64)"

definition usize_header :: "FillChunkHeader \<Rightarrow> bool" where
  "usize_header h \<longleftrightarrow> fh_object_index h < 2 ^ 64 \<and> fh_fill_entry_index h < 2 ^ 64 \<and> fh_size h < 2 ^ 64"

text \<open>
  The encoders: decoding inverts encoding whatever follows, a header is not empty, and a request fits the six words of
  the call.
\<close>

definition host_codec :: "'h host_env \<Rightarrow> ('w, 'e) rs_env \<Rightarrow> (u8 list \<Rightarrow> Request option) \<Rightarrow> bool" where
  "host_codec H E dec \<longleftrightarrow>
     (\<forall>req k. usize_request req \<longrightarrow> dec (he_request H req @ replicate k 0) = Some req \<and> length (he_request H req) \<le> 48) \<and>
     (\<forall>h rest. usize_header h \<longrightarrow> re_header E (he_header H h @ rest) = Some (h, rest) \<and> he_header H h \<noteq> [])"

text \<open>
  The way to the resource server: the words of the call arrive at the thread of node \<open>k\<close> and a request that succeeds is
  answered with no words; what is written to the device is at the start of the bulk region.
\<close>

definition host_link :: "'w ResourceServer host_env \<Rightarrow> ('w, 'e) rs_env \<Rightarrow> (u8 list \<Rightarrow> Request option) \<Rightarrow> nat \<Rightarrow> (u8 list \<Rightarrow> 'w \<Rightarrow> 'w) \<Rightarrow> bool" where
  "host_link H E dec k put \<longleftrightarrow>
     (\<forall>n vs rs. he_ioctl_passthru H RESOURCE_SERVER_PASSTHRU (n # vs) rs =
       (case rs_handle E (recv_from_slice dec) k BADGE_HOST_CONTROL (take (unat n) vs) rs of
          Some (Inr _, rs') \<Rightarrow> Some (replicate 7 0, rs')
        | _ \<Rightarrow> None)) \<and>
     (\<forall>rs. he_open H rs = (Inr (), rs)) \<and>
     (\<forall>bs rs. he_write_all H bs rs = (Inr (), set_world (put bs (rs_world rs)) rs)) \<and>
     (\<forall>rs. he_flush H rs = (Inr (), rs)) \<and>
     (\<forall>bs w. length bs \<le> re_bulk_region_size E \<longrightarrow> re_memory E (put bs w) (re_bulk_region E) (length bs) = bs) \<and>
     re_bulk_region E < 2 ^ 64 \<and> re_bulk_region_size E < 2 ^ 64"

lemma request_words:
  assumes "host_codec H E dec" "usize_request req"
  shows "length (message_words (he_request H req)) \<le> 6" "recv_from_slice dec (message_words (he_request H req)) = Some req"
proof -
  have "length (he_request H req) \<le> 48" "\<And>k. dec (he_request H req @ replicate k 0) = Some req" using assms by (auto simp: host_codec_def)
  then show "length (message_words (he_request H req)) \<le> 6" "recv_from_slice dec (message_words (he_request H req)) = Some req"
    by (simp_all add: length_message_words recv_from_slice_words)
qed

definition ok_state :: "('e, unit, 's) fallible \<Rightarrow> 's option" where
  "ok_state m = (case m of Some (Inr _, s) \<Rightarrow> Some s | _ \<Rightarrow> None)"

lemma ok_state_simps [simp]: "ok_state None = None" "ok_state (Some (Inl e, s)) = None" "ok_state (Some (Inr u, s)) = Some s"
  by (simp_all add: ok_state_def)

lemma ok_state_Some: "ok_state m = Some s \<longleftrightarrow> m = Some (Inr (), s)"
  by (auto simp: ok_state_def split: option.split sum.split)

lemma passthru_request:
  assumes "host_link H E dec k put" "host_codec H E dec" "usize_request req"
  shows "resource_server_passthru H req rs = ok_state (handle_request E k req rs)"
proof -
  define ws where "ws = message_words (he_request H req)"
  note w = request_words [OF assms(2,3), folded ws_def]
  have n: "unat (of_nat (length ws) :: u64) = length ws" using w(1) by (simp add: unat_of_nat)
  have "take (length ws) (resize 6 ws) = ws" using w(1) by (simp add: resize_def)
  then have "rs_handle E (recv_from_slice dec) k BADGE_HOST_CONTROL (take (unat (of_nat (length ws) :: u64)) (resize 6 ws)) rs = handle_request E k req rs"
    using w(2) by (simp add: n rs_handle_def)
  with assms(1) have "he_ioctl_passthru H RESOURCE_SERVER_PASSTHRU (of_nat (length ws) # resize 6 ws) rs =
      map_option (Pair (replicate 7 0)) (ok_state (handle_request E k req rs))"
    by (auto simp: host_link_def ok_state_def split: option.split sum.split prod.split)
  then show ?thesis using w(1)
    by (cases "ok_state (handle_request E k req rs)") (simp_all add: resource_server_passthru_def call_passthru_def send_to_vec_words ws_def [symmetric] rust_assert_def)
qed

section \<open>The description\<close>

lemma send_effect:
  assumes "host_link H E dec k put"
  shows "BulkTransport_send H bs rs = Some (Inr (), set_world (put bs (rs_world rs)) rs)"
  using assms by (simp add: host_link_def BulkTransport_send_def)

lemma bulk_slice_put:
  assumes "host_link H E dec k put" "length bs \<le> re_bulk_region_size E"
  shows "bulk_slice E 0 (length bs) (set_world (put bs w) rs) = Some bs"
  using assms by (simp add: host_link_def bulk_slice_def rust_assert_def usize_add_def rs_world_def)

lemma set_world_specs: "(set_world w rs)\<lparr>rs_partial_specs := x\<rparr> = set_world w (rs\<lparr>rs_partial_specs := x\<rparr>)"
  by (simp add: set_world_def)

lemma spec_chunk_step:
  assumes "host_link H E dec k put" "host_codec H E dec" "length c \<le> re_bulk_region_size E" "r < 2 ^ 64"
    and p: "rs_partial_specs rs r = Some (pre @ mid @ post)" "length mid = length c" "length (pre @ mid @ post) < 2 ^ 64"
  shows "\<exists>w. try_method (BulkTransport_send H c rs) (\<lambda>_ h. do { h \<leftarrow> sc_spec_chunk H r 0 (length c) (length pre) h; Some (Inr (), h) }) =
    Some (Inr (), set_world w (rs\<lparr>rs_partial_specs := (rs_partial_specs rs)(r \<mapsto> pre @ c @ post)\<rparr>))"
proof -
  define rs1 where "rs1 = set_world (put c (rs_world rs)) rs"
  have s: "re_bulk_region_size E < 2 ^ 64" using assms(1) by (simp add: host_link_def)
  have "copy_chunk (pre @ mid @ post) (length pre) c = Some (pre @ c @ post)" using p(2,3) by (simp add: copy_chunk_def rust_assert_def usize_add_def)
  then have "handle_request E k (SpecChunk r 0 (length c) (length pre)) rs1 =
      Some (Inr (), rs1\<lparr>rs_partial_specs := (rs_partial_specs rs)(r \<mapsto> pre @ c @ post)\<rparr>)"
    using bulk_slice_put [OF assms(1,3), of "rs_world rs" rs] p(1) by (simp add: handle_request_def rs1_def incorporate_spec_chunk_def)
  moreover have "usize_request (SpecChunk r 0 (length c) (length pre))" using assms(3,4) p(3) s by (simp add: usize_request_def)
  ultimately have "sc_spec_chunk H r 0 (length c) (length pre) rs1 = Some (rs1\<lparr>rs_partial_specs := (rs_partial_specs rs)(r \<mapsto> pre @ c @ post)\<rparr>)"
    using passthru_request [OF assms(1,2)] by (simp add: sc_spec_chunk_def)
  then show ?thesis using send_effect [OF assms(1), of c rs]
    by (intro exI [of _ "put c (rs_world rs)"]) (simp add: rs1_def set_world_specs)
qed

lemma send_spec_steps:
  assumes "host_link H E dec k put" "host_codec H E dec" "r < 2 ^ 64"
    and "n \<le> re_bulk_region_size E" "rs_partial_specs rs r = Some (pre @ rest)" "length rest = length xs" "length (pre @ rest) < 2 ^ 64" "length pre = i * n \<or> xs = []" "0 < n"
  shows "\<exists>w. try_for_each (enumerate i (chunks n xs)) (\<lambda>(i, chunk) h. try_method (BulkTransport_send H chunk h) (\<lambda>_ h. do {
         h \<leftarrow> sc_spec_chunk H r 0 (length chunk) (usize_mul i n) h; Some (Inr (), h) })) rs =
    Some (Inr (), set_world w (rs\<lparr>rs_partial_specs := (rs_partial_specs rs)(r \<mapsto> pre @ xs)\<rparr>))"
  using assms(4-9)
proof (induction n xs arbitrary: i pre rest rs rule: chunks.induct)
  case (1 n xs)
  show ?case
  proof (cases "xs = []")
    case True
    with 1 show ?thesis
      by (intro exI [of _ "rs_world rs"]) (simp add: chunks.simps set_world_def rs_world_def fun_upd_idem)
  next
    case False
    define c where "c = take n xs"
    define rs1 where "rs1 = (\<lambda>w. set_world w (rs\<lparr>rs_partial_specs := (rs_partial_specs rs)(r \<mapsto> pre @ c @ drop (length c) rest)\<rparr>))"
    have c: "chunks n xs = c # chunks n (drop n xs)" using False "1.prems"(6) by (subst chunks.simps) (simp add: c_def)
    have um: "usize_mul i n = length pre" using "1.prems" False by (simp add: usize_mul_def)
    have l: "length c \<le> re_bulk_region_size E" using "1.prems"(1) by (simp add: c_def)
    have m: "rs_partial_specs rs r = Some (pre @ take (length c) rest @ drop (length c) rest)" "length (take (length c) rest) = length c"
      "length (pre @ take (length c) rest @ drop (length c) rest) < 2 ^ 64" using "1.prems" by (simp_all add: c_def)
    from spec_chunk_step [OF assms(1,2) l assms(3) m] obtain w1 where
      w1: "try_method (BulkTransport_send H c rs) (\<lambda>_ h. do { h \<leftarrow> sc_spec_chunk H r 0 (length c) (length pre) h; Some (Inr (), h) }) = Some (Inr (), rs1 w1)"
      unfolding rs1_def by blast
    have "\<exists>w. try_for_each (enumerate (Suc i) (chunks n (drop n xs))) (\<lambda>(i, chunk) h. try_method (BulkTransport_send H chunk h) (\<lambda>_ h. do {
         h \<leftarrow> sc_spec_chunk H r 0 (length chunk) (usize_mul i n) h; Some (Inr (), h) })) (rs1 w1) =
      Some (Inr (), set_world w ((rs1 w1)\<lparr>rs_partial_specs := (rs_partial_specs (rs1 w1))(r \<mapsto> (pre @ c) @ drop n xs)\<rparr>))"
      using "1.prems" False by (intro "1.IH" [where rest = "drop (length c) rest"]) (auto simp: rs1_def c_def)
    moreover have "set_world w ((rs1 w1)\<lparr>rs_partial_specs := (rs_partial_specs (rs1 w1))(r \<mapsto> (pre @ c) @ drop n xs)\<rparr>) =
      set_world w (rs\<lparr>rs_partial_specs := (rs_partial_specs rs)(r \<mapsto> pre @ xs)\<rparr>)" for w by (simp add: rs1_def c_def set_world_def)
    ultimately obtain w where w: "try_for_each (enumerate (Suc i) (chunks n (drop n xs))) (\<lambda>(i, chunk) h. try_method (BulkTransport_send H chunk h) (\<lambda>_ h. do {
         h \<leftarrow> sc_spec_chunk H r 0 (length chunk) (usize_mul i n) h; Some (Inr (), h) })) (rs1 w1) =
      Some (Inr (), set_world w (rs\<lparr>rs_partial_specs := (rs_partial_specs rs)(r \<mapsto> pre @ xs)\<rparr>))" by metis
    show ?thesis unfolding c enumerate_simps try_for_each.simps prod.case um w1 try_method_simps w by blast
  qed
qed

lemma host_methods:
  assumes "host_link H E dec k put" "host_codec H E dec"
  shows "r < 2 ^ 64 \<Longrightarrow> n < 2 ^ 64 \<Longrightarrow> sc_declare H r n rs = ok_state (handle_request E k (Declare r n) rs)"
    "r < 2 ^ 64 \<Longrightarrow> sc_realize_start H r rs = ok_state (handle_request E k (RealizeStart r) rs)"
    "r < 2 ^ 64 \<Longrightarrow> sc_realize_finish H r rs = ok_state (handle_request E k (RealizeFinish r) rs)"
    "r < 2 ^ 64 \<Longrightarrow> n < 2 ^ 64 \<Longrightarrow> sc_fill_chunks H r 0 n rs = ok_state (handle_request E k (FillChunks r 0 n) rs)"
  by (simp_all add: sc_declare_def sc_realize_start_def sc_realize_finish_def sc_fill_chunks_def usize_request_def passthru_request [OF assms])

lemma declare_and_send:
  assumes "host_link H E dec k put" "host_codec H E dec" "r < 2 ^ 64" "length spec < 2 ^ 64" "0 < n" "n \<le> re_bulk_region_size E"
    "rs_partial_specs rs r = None" "rs_realms rs r = None"
  shows "\<exists>rs1 w. sc_declare H r (length spec) rs = Some rs1 \<and>
    send_spec H r spec n rs1 = Some (Inr (), set_world w (rs\<lparr>rs_partial_specs := (rs_partial_specs rs)(r \<mapsto> spec)\<rparr>))"
proof -
  define rs1 where "rs1 = rs\<lparr>rs_partial_specs := (rs_partial_specs rs)(r \<mapsto> replicate (length spec) 0)\<rparr>"
  have "sc_declare H r (length spec) rs = Some rs1"
    using assms by (simp add: host_methods [OF assms(1,2)] handle_request_def rs_declare_def rs1_def rust_assert_def)
  moreover from send_spec_steps [OF assms(1-3,6), of rs1 "[]" "replicate (length spec) 0" spec 0] assms(4,5) obtain w where
    "send_spec H r spec n rs1 = Some (Inr (), set_world w (rs1\<lparr>rs_partial_specs := (rs_partial_specs rs1)(r \<mapsto> spec)\<rparr>))"
    by (auto simp: send_spec_def rs1_def rust_assert_def fun_upd_def)
  ultimately show ?thesis by (auto simp: rs1_def)
qed

lemma finish_has_realm:
  assumes "handle_request E k (RealizeFinish r) rs = Some (Inr (), rs')"
  shows "rs_realms rs' r \<noteq> None"
proof -
  from assms obtain rs1 x where "event_call E k (RS_CreateRealm r 1) rs1 = Some (Inr (), rs')" "rs_realms rs1 r = Some x"
    by (auto simp: handle_request_def rs_realize_finish_def bind_eq_Some_conv try_method_ok Let_def)
  then show ?thesis by (auto dest: world_onlyD [OF world_only_event_call])
qed

section \<open>The content of the frames\<close>

text \<open>The content each entry gets, and the bytes a group of entries is sent as.\<close>

fun slices :: "(nat \<times> nat \<times> nat) list \<Rightarrow> u8 list \<Rightarrow> (nat \<times> nat \<times> u8 list) list" where
  "slices [] content = []"
| "slices ((i, j, n) # es) content = (i, j, take n content) # slices es (drop n content)"

definition item_bytes :: "'h host_env \<Rightarrow> nat \<times> nat \<times> u8 list \<Rightarrow> u8 list" where
  "item_bytes H = (\<lambda>(i, j, c). he_header H \<lparr>fh_object_index = i, fh_fill_entry_index = j, fh_size = length c\<rparr> @ c)"

definition aggregate :: "'h host_env \<Rightarrow> (nat \<times> nat \<times> u8 list) list \<Rightarrow> u8 list" where
  "aggregate H g = concat (map (item_bytes H) g)"

lemma aggregate_simps [simp]: "aggregate H [] = []" "aggregate H (x # g) = item_bytes H x @ aggregate H g" "aggregate H (g @ g') = aggregate H g @ aggregate H g'"
  by (simp_all add: aggregate_def)

definition usize_item :: "nat \<times> nat \<times> u8 list \<Rightarrow> bool" where
  "usize_item = (\<lambda>(i, j, c). i < 2 ^ 64 \<and> j < 2 ^ 64 \<and> length c < 2 ^ 64)"

text \<open>The server's loop takes an aggregate apart again.\<close>

lemma fill_chunks_aggregate:
  assumes "host_codec H E dec"
  shows "\<forall>x\<in>set g. usize_item x \<Longrightarrow> fill_chunks E r (aggregate H g) rs = try_for_each g (\<lambda>(i, j, c). rs_realize_continue E r i j c) rs"
proof (induction g arbitrary: rs)
  case (Cons x g)
  obtain i j c where x: "x = (i, j, c)" by (cases x)
  define h where "h = \<lparr>fh_object_index = i, fh_fill_entry_index = j, fh_size = length c\<rparr>"
  have hf: "fh_object_index h = i" "fh_fill_entry_index h = j" "fh_size h = length c" by (simp_all add: h_def)
  have "usize_header h" using Cons.prems by (simp add: h_def usize_header_def x usize_item_def)
  with assms have h: "re_header E (he_header H h @ rest) = Some (h, rest)" "he_header H h \<noteq> []" for rest by (auto simp: host_codec_def)
  have a: "aggregate H (x # g) = he_header H h @ c @ aggregate H g" by (simp add: item_bytes_def x h_def)
  have "length (aggregate H g) < length (he_header H h @ c @ aggregate H g)" using h(2) by simp
  moreover have "fill_chunks E r (aggregate H g) rs' = try_for_each g (\<lambda>(i, j, c). rs_realize_continue E r i j c) rs'" for rs' using Cons by simp
  ultimately show ?case unfolding a
    by (subst fill_chunks.simps) (simp add: h hf x rust_assert_def)
qed (simp add: fill_chunks.simps)

text \<open>The server's answer to one aggregate, and the grouping the host's loop makes.\<close>

definition serve_group :: "'w ResourceServer host_env \<Rightarrow> ('w, 'e) rs_env \<Rightarrow> (u8 list \<Rightarrow> 'w \<Rightarrow> 'w) \<Rightarrow> nat \<Rightarrow> (nat \<times> nat \<times> u8 list) list \<Rightarrow> 'w ResourceServer \<Rightarrow> 'w ResourceServer option" where
  "serve_group H E put r g rs = ok_state (try_for_each g (\<lambda>(i, j, c). rs_realize_continue E r i j c) (set_world (put (aggregate H g) (rs_world rs)) rs))"

lemma send_fill_group:
  assumes "host_link H E dec k put" "host_codec H E dec" "r < 2 ^ 64" "length (aggregate H g) \<le> re_bulk_region_size E" "\<forall>x\<in>set g. usize_item x"
  shows "send_fill H r (aggregate H g) rs = map_option (Pair (Inr ())) (serve_group H E put r g rs)"
proof -
  have "length (aggregate H g) < 2 ^ 64" using assms(1,4) by (simp add: host_link_def)
  then have "sc_fill_chunks H r 0 (length (aggregate H g)) (set_world (put (aggregate H g) (rs_world rs)) rs) = serve_group H E put r g rs"
    using assms(3) bulk_slice_put [OF assms(1,4)] fill_chunks_aggregate [OF assms(2,5)]
    by (simp add: host_methods [OF assms(1,2)] handle_request_def serve_group_def)
  then show ?thesis by (simp add: send_fill_def send_effect [OF assms(1)]) (cases "serve_group H E put r g rs"; simp)
qed

definition item_size :: "'h host_env \<Rightarrow> nat \<times> nat \<times> nat \<Rightarrow> nat" where
  "item_size H = (\<lambda>(i, j, n). length (he_header H \<lparr>fh_object_index = i, fh_fill_entry_index = j, fh_size = n\<rparr>) + n)"

lemma push_fill_step:
  assumes "offset + n \<le> length content" "length content < 2 ^ 64" "length (aggregate H g) + item_size H (i, j, n) < 2 ^ 64"
  shows "push_fill H r content cs (i, j, n) ((aggregate H g, offset), h) =
    (if cs < length (aggregate H g) + item_size H (i, j, n) then
       (case send_fill H r (aggregate H g) h of None \<Rightarrow> None | Some (Inl e, h) \<Rightarrow> Some (Inl e, (aggregate H g, offset), h)
        | Some (Inr _, h) \<Rightarrow> Some (Inr (), (aggregate H [(i, j, take n (drop offset content))], offset + n), h))
     else Some (Inr (), (aggregate H (g @ [(i, j, take n (drop offset content))]), offset + n), h))"
proof -
  have l: "length (take n (drop offset content)) = n" using assms(1) by simp
  have o: "usize_add offset n = offset + n" using assms by (simp add: usize_add_def)
  have s: "usize_add (length (aggregate H g)) (usize_add (length (he_header H \<lparr>fh_object_index = i, fh_fill_entry_index = j, fh_size = n\<rparr>)) n) =
      length (aggregate H g) + item_size H (i, j, n)" using assms(3) by (simp add: item_size_def usize_add_def)
  show ?thesis using assms(1)
    by (auto simp: push_fill_def Let_def l o s rust_assert_def item_bytes_def split: option.split sum.split prod.split)
qed

lemma send_fills_groups:
  assumes L: "host_link H E dec k put" "host_codec H E dec" "r < 2 ^ 64" and cs: "cs \<le> re_bulk_region_size E" "length content < 2 ^ 64" "cs < 2 ^ 63"
    and es: "\<forall>(i, j, n)\<in>set es. i < 2 ^ 64 \<and> j < 2 ^ 64 \<and> item_size H (i, j, n) \<le> cs" "offset + (\<Sum>(i, j, n)\<leftarrow>es. n) \<le> length content"
    and g: "length (aggregate H g) \<le> cs" "\<forall>x\<in>set g. usize_item x"
  shows "\<exists>gs. concat gs = g @ slices es (drop offset content) \<and> (\<forall>g\<in>set gs. length (aggregate H g) \<le> cs) \<and>
    (do { (x, (acc, _), rs) \<leftarrow> try_for_each es (push_fill H r content cs) ((aggregate H g, offset), rs);
       (case x of Inl e \<Rightarrow> Some (Inl e, rs) | Inr _ \<Rightarrow> do { rust_assert (length acc \<le> cs); send_fill H r acc rs }) }) =
    map_option (Pair (Inr ())) (for_each gs (serve_group H E put r) rs)"
  using es g
proof (induction es arbitrary: offset g rs)
  case Nil
  have "length (aggregate H g) \<le> re_bulk_region_size E" using Nil.prems(3) cs(1) by simp
  from send_fill_group [OF L this Nil.prems(4)] Nil.prems(3) show ?case
    by (intro exI [of _ "[g]"]) (auto simp: rust_assert_def split: option.split)
next
  case (Cons e es)
  obtain i j n where e: "e = (i, j, n)" by (cases e)
  define x where "x = (i, j, take n (drop offset content))"
  have b: "i < 2 ^ 64" "j < 2 ^ 64" "item_size H (i, j, n) \<le> cs" "offset + n \<le> length content" using Cons.prems(1,2) by (auto simp: e)
  have x: "usize_item x" "length (aggregate H [x]) \<le> cs" using b cs(2) by (auto simp: x_def usize_item_def item_bytes_def item_size_def)
  have sl: "slices (e # es) (drop offset content) = x # slices es (drop (offset + n) content)" by (simp add: e x_def add.commute)
  have nx: "\<forall>(i, j, n)\<in>set es. i < 2 ^ 64 \<and> j < 2 ^ 64 \<and> item_size H (i, j, n) \<le> cs" "(offset + n) + (\<Sum>(i, j, n)\<leftarrow>es. n) \<le> length content"
    using Cons.prems(1,2) by (auto simp: e)
  have "length (aggregate H g) + item_size H (i, j, n) < 2 ^ 64" using Cons.prems(3) b(3) cs(3) by simp
  note p = push_fill_step [OF b(4) cs(2) this, folded x_def, folded e]
  show ?case
  proof (cases "cs < length (aggregate H g) + item_size H e")
    case True
    have "length (aggregate H g) \<le> re_bulk_region_size E" using Cons.prems(3) cs(1) by simp
    note f = send_fill_group [OF L this Cons.prems(4), of rs]
    define rs1 where "rs1 = (case serve_group H E put r g rs of None \<Rightarrow> rs | Some rs1 \<Rightarrow> rs1)"
    from Cons.IH [OF nx x(2), of rs1] x(1) obtain gs where
      gs: "concat gs = x # slices es (drop (offset + n) content)" "\<forall>g\<in>set gs. length (aggregate H g) \<le> cs"
      "(do { (x, (acc, _), rs) \<leftarrow> try_for_each es (push_fill H r content cs) ((aggregate H [x], offset + n), rs1);
       (case x of Inl e \<Rightarrow> Some (Inl e, rs) | Inr _ \<Rightarrow> do { rust_assert (length acc \<le> cs); send_fill H r acc rs }) }) =
      map_option (Pair (Inr ())) (for_each gs (serve_group H E put r) rs1)" by auto
    show ?thesis using True Cons.prems(3) gs f by (intro exI [of _ "g # gs"]) (cases "serve_group H E put r g rs"; simp add: p sl rs1_def)
  next
    case False
    have "length (aggregate H (g @ [x])) \<le> cs" using False b(4) by (simp add: e x_def item_bytes_def item_size_def)
    from Cons.IH [OF nx this, of rs] x(1) Cons.prems(4) obtain gs where
      gs: "concat gs = (g @ [x]) @ slices es (drop (offset + n) content)" "\<forall>g\<in>set gs. length (aggregate H g) \<le> cs"
      "(do { (x, (acc, _), rs) \<leftarrow> try_for_each es (push_fill H r content cs) ((aggregate H (g @ [x]), offset + n), rs);
       (case x of Inl e \<Rightarrow> Some (Inl e, rs) | Inr _ \<Rightarrow> do { rust_assert (length acc \<le> cs); send_fill H r acc rs }) }) =
      map_option (Pair (Inr ())) (for_each gs (serve_group H E put r) rs)" by auto
    show ?thesis using False gs by (intro exI [of _ gs]) (simp add: p sl)
  qed
qed

section \<open>The trap\<close>

text \<open>The registers of the call as the monitor sees them.\<close>

definition trap_regs :: "UnknownSyscall \<Rightarrow> u64 list" where
  "trap_regs f = [x0 f, x1 f, x2 f, x3 f, x4 f, x5 f, x6 f]"

lemma collect_gprs_nth:
  assumes "i + n \<le> 6"
  shows "collect_gprs f i n = Some (take n (drop (Suc i) (trap_regs f)))"
  using assms
proof (induction n arbitrary: i)
  case (Suc n)
  have "length (trap_regs f) = 7" by (simp add: trap_regs_def)
  moreover have "syscall_gpr f (i + 1) = Some (trap_regs f ! Suc i)"
  proof -
    have "i < 6" using Suc.prems by simp
    then consider "i = 0" | "i = 1" | "i = 2" | "i = 3" | "i = 4" | "i = 5" by linarith
    then show ?thesis by cases (simp_all add: syscall_gpr_def trap_regs_def)
  qed
  ultimately show ?case using Suc by (simp add: Cons_nth_drop_Suc [symmetric])
qed simp

lemma proxy_up_words:
  assumes "length ws \<le> unat M"
  shows "\<exists>mrs'. proxy_up M ws mrs = Some (length ws, mrs') \<and> map mrs' [0..<length ws] = ws"
proof -
  from assms have "length (mr_written (SendingImpl_new mrs)) + length ws \<le> unat M" by (simp add: mr.fresh_law)
  from mr.write_all [OF this] obtain s where s: "for_each ws (SendingImpl_write_value M) (SendingImpl_new mrs) = Some s" "mr_written s = ws"
    by (auto simp: mr.fresh_law)
  then have "si_cursor s = length ws" by (auto simp: mr_written_def)
  with s show ?thesis by (auto simp: proxy_up_def mr_written_def)
qed

lemma receive_words:
  assumes "\<And>k. k < 8 \<Longrightarrow> from_bytes (bytes @ replicate k 0) = Some x" "length (message_words bytes) = n" "map mrs [0..<n] = message_words bytes" "n \<le> unat M"
  shows "ReceivingImpl_complete M from_bytes n mrs = Some x"
proof -
  define r where "r = ReceivingImpl_new n mrs"
  have r: "mr_sound M r" "mr_unread r = message_words bytes" "ReceivingImpl_remaining r = n"
    using assms(2-4) mr.remaining_law [of M r] by (auto simp: r_def ReceivingImpl_new_def mr_sound_def mr_unread_def)
  from mr.read_all [OF r(1), of "[]"] obtain r' where
    "for_each [0..<n] (\<lambda>_ (bs, r). do { (v, r) \<leftarrow> ReceivingImpl_read_value M r; Some (bs @ u64_to_le_bytes v, r) }) ([], r) =
      Some (concat (map u64_to_le_bytes (message_words bytes)), r')" by (auto simp: r assms(2))
  moreover have "from_bytes (concat (map u64_to_le_bytes (message_words bytes))) = Some x"
    unfolding message_words_bytes by (rule assms(1)) linarith
  ultimately show ?thesis by (simp add: ReceivingImpl_complete_def RPC_recv_def r_def [symmetric] r(3))
qed

section \<open>A concrete host\<close>

text \<open>The bytes of the bulk region are the state of the kernel; a field is eight bytes.\<close>

definition field_bytes :: "nat \<Rightarrow> u8 list" where
  "field_bytes n = u64_to_le_bytes (of_nat n)"

definition field :: "nat \<Rightarrow> u8 list \<Rightarrow> nat" where
  "field i bs = unat (u64_from_le_bytes (take 8 (drop (8 * i) bs)))"

definition hx_request :: "Request \<Rightarrow> u8 list" where
  "hx_request req = (case req of
     Declare a b \<Rightarrow> 0 # field_bytes a @ field_bytes b
   | SpecChunk a b c d \<Rightarrow> 1 # field_bytes a @ field_bytes b @ field_bytes c @ field_bytes d
   | FillChunks a b c \<Rightarrow> 2 # field_bytes a @ field_bytes b @ field_bytes c
   | RealizeStart a \<Rightarrow> 3 # field_bytes a
   | RealizeFinish a \<Rightarrow> 4 # field_bytes a
   | Destroy a \<Rightarrow> 5 # field_bytes a
   | HackRun a \<Rightarrow> 6 # field_bytes a)"

definition hx_dec :: "u8 list \<Rightarrow> Request option" where
  "hx_dec bs = (case bs of
     [] \<Rightarrow> None
   | t # bs \<Rightarrow>
       if t = 0 then Some (Declare (field 0 bs) (field 1 bs))
       else if t = 1 then Some (SpecChunk (field 0 bs) (field 1 bs) (field 2 bs) (field 3 bs))
       else if t = 2 then Some (FillChunks (field 0 bs) (field 1 bs) (field 2 bs))
       else if t = 3 then Some (RealizeStart (field 0 bs))
       else if t = 4 then Some (RealizeFinish (field 0 bs))
       else if t = 5 then Some (Destroy (field 0 bs))
       else if t = 6 then Some (HackRun (field 0 bs)) else None)"

definition hx_header :: "FillChunkHeader \<Rightarrow> u8 list" where
  "hx_header h = field_bytes (fh_object_index h) @ field_bytes (fh_fill_entry_index h) @ field_bytes (fh_size h)"

definition hx_model :: Model where
  "hx_model = \<lparr>md_num_nodes = 1, md_objects = [\<lparr>to_object = Local (Obj_SmallPage [\<lparr>fe_offset = 0, fe_length = 2, fe_file = [],
     fe_file_offset = 0, fe_content_digest = [5, 6]\<rparr>]), to_name = []\<rparr>]\<rparr>"

definition hx_kernel :: "(u8 list, unit) rz_kernel" where
  "hx_kernel = \<lparr>rk_cap = \<lparr>k_sizes = ex_sizes, k_cap_data = \<lambda>g s. s, k_retype = \<lambda>w p bp d s n. (Inr (), w),
     k_mutate = \<lambda>w d s x. (Inr (), w), k_delete = \<lambda>w p. (Inr (), w), k_revoke = \<lambda>w p. (Inr (), w)\<rparr>,
     rk_invoke = \<lambda>w iv. (Inr (), w), rk_store = \<lambda>w a bs. w, rk_sha256 = \<lambda>bs. bs\<rparr>"

definition hx_env :: "(u8 list, unit) rs_env" where
  "hx_env = \<lparr>re_kernel = hx_kernel, re_num_active_cores = 2, re_save_caller = \<lambda>w c s. (Inr (), w), re_event_call = \<lambda>w p c. w,
     re_timer_call = \<lambda>w p c. (Inr (), w), re_send = \<lambda>w p ws. w, re_memory = \<lambda>w a n. take n (drop (a - 4096) w),
     re_model = \<lambda>bs. Some hx_model,
     re_header = \<lambda>bs. Some (\<lparr>fh_object_index = field 0 bs, fh_fill_entry_index = field 1 bs, fh_size = field 2 bs\<rparr>, drop 24 bs),
     re_bulk_region = 4096, re_bulk_region_size = 4096\<rparr>"

definition hx_host :: "u8 list ResourceServer host_env" where
  "hx_host = \<lparr>he_ioctl_passthru = \<lambda>sys regs rs. (case rs_handle hx_env (recv_from_slice hx_dec) 0 BADGE_HOST_CONTROL (take (unat (hd regs)) (tl regs)) rs of
       Some (Inr _, rs') \<Rightarrow> Some (replicate 7 0, rs') | _ \<Rightarrow> None),
     he_ioctl_yield_to = \<lambda>r v rs. None, he_open = \<lambda>rs. (Inr (), rs),
     he_write_all = \<lambda>bs rs. (Inr (), set_world bs rs), he_flush = \<lambda>rs. (Inr (), rs),
     he_request = hx_request, he_direct = \<lambda>_. [], he_header = hx_header, he_take_model = \<lambda>bs. Some (hx_model, drop 3 bs)\<rparr>"

lemma u64_from_to_le_bytes: "u64_from_le_bytes (u64_to_le_bytes w) = w"
proof (rule bit_word_eqI)
  fix n assume "n < LENGTH(64)"
  then show "bit (u64_from_le_bytes (u64_to_le_bytes w)) n \<longleftrightarrow> bit w n"
    by (auto simp: bit_from_le_bytes u64_to_le_bytes_def bit_ucast_iff bit_drop_bit_eq less_mult_imp_div_less)
qed

lemma length_field_bytes [simp]: "length (field_bytes n) = 8"
  by (simp add: field_bytes_def u64_to_le_bytes_def)

lemma field_of_bytes: "n < 2 ^ 64 \<Longrightarrow> unat (u64_from_le_bytes (field_bytes n)) = n"
  by (simp add: field_bytes_def u64_from_to_le_bytes unat_of_nat)

lemma hx_codec: "host_codec hx_host hx_env hx_dec"
proof -
  have "hx_dec (hx_request req @ replicate k 0) = Some req \<and> length (hx_request req) \<le> 48" if "usize_request req" for req k
    using that by (cases req) (simp_all add: hx_request_def hx_dec_def field_def field_of_bytes usize_request_def)
  moreover have "re_header hx_env (hx_header h @ rest) = Some (h, rest) \<and> hx_header h \<noteq> []" if "usize_header h" for h rest
    using that length_field_bytes [of "fh_object_index h"]
    by (auto simp: hx_env_def hx_header_def field_def field_of_bytes usize_header_def simp del: length_field_bytes) (simp_all add: field_of_bytes)
  ultimately show ?thesis by (simp add: host_codec_def hx_host_def)
qed

lemma hx_link: "host_link hx_host hx_env hx_dec 0 (\<lambda>bs w. bs)"
  by (simp add: host_link_def hx_host_def hx_env_def)

lemma hx_entries: "fill_entries hx_model = [(0, 0, 2)]"
  by (simp add: fill_entries_def hx_model_def)

section \<open>Properties\<close>

text \<open>
  C21. A request of the host's tool arrives: the words of the call are the words the monitor collects from the trap; its
  proxy writes them to message registers; and whatever else the registers of the resource server's thread hold after
  the kernel has copied the message, decoding them gives the request.
\<close>

theorem passthru_message_roundtrip:
  assumes codec: "host_codec H E dec" "usize_request req" and M: "6 \<le> unat M"
    and ws: "send_to_vec (he_request H) req = Some ws" and trap: "trap_regs f = of_nat (length ws) # resize 6 ws"
  shows "collect_gprs f 0 (unat (x0 f)) = Some ws \<and>
    (\<exists>mrs'. proxy_up M ws mrs = Some (length ws, mrs') \<and>
      (\<forall>mrs''. (\<forall>i<length ws. mrs'' i = mrs' i) \<longrightarrow> ReceivingImpl_complete M dec (length ws) mrs'' = Some req))"
proof -
  have ws: "ws = message_words (he_request H req)" using ws by (simp add: send_to_vec_words)
  note l = request_words(1) [OF codec, folded ws]
  have "x0 f = of_nat (length ws)" using trap by (simp add: trap_regs_def)
  then have x0: "unat (x0 f) = length ws" using l by (simp add: unat_of_nat)
  have "take (length ws) (drop (Suc 0) (trap_regs f)) = ws" using l by (simp add: trap resize_def)
  then have c: "collect_gprs f 0 (unat (x0 f)) = Some ws" using collect_gprs_nth [of 0 "length ws" f] l by (simp add: x0)
  from l M have "length ws \<le> unat M" by simp
  from proxy_up_words [OF this] obtain mrs' where p: "proxy_up M ws mrs = Some (length ws, mrs')" "map mrs' [0..<length ws] = ws" by blast
  have "ReceivingImpl_complete M dec (length ws) mrs'' = Some req" if "\<forall>i<length ws. mrs'' i = mrs' i" for mrs''
  proof (rule receive_words [where bytes = "he_request H req"])
    show "dec (he_request H req @ replicate k 0) = Some req" for k using codec by (simp add: host_codec_def)
    have "map mrs'' [0..<length ws] = map mrs' [0..<length ws]" using that by simp
    then show "map mrs'' [0..<length ws] = message_words (he_request H req)" using p(2) ws by metis
  qed (use ws \<open>length ws \<le> unat M\<close> in simp_all)
  with c p(1) show ?thesis by blast
qed

text \<open>A trap with given registers.\<close>

definition trap_of :: "u64 list \<Rightarrow> UnknownSyscall" where
  "trap_of r = \<lparr>x0 = r ! 0, x1 = r ! 1, x2 = r ! 2, x3 = r ! 3, x4 = r ! 4, x5 = r ! 5, x6 = r ! 6, x7 = 0,
     us_fault_ip = 0, us_sp = 0, us_lr = 0, us_spsr = 0, us_syscall = RESOURCE_SERVER_PASSTHRU\<rparr>"

theorem passthru_message_roundtrip_witness:
  "\<exists>ws. send_to_vec hx_request (Destroy 5) = Some ws \<and> collect_gprs (trap_of (of_nat (length ws) # resize 6 ws)) 0 (length ws) = Some ws"
proof -
  have r: "trap_regs (trap_of (n # resize 6 ws)) = n # resize 6 ws" for n :: u64 and ws
  proof -
    have "length (n # resize 6 ws) = 7" by simp
    then show ?thesis unfolding trap_regs_def trap_of_def by (intro nth_equalityI) (auto simp: less_Suc_eq numeral_eq_Suc)
  qed
  have u: "usize_request (Destroy 5)" by (simp add: usize_request_def)
  have s: "send_to_vec (he_request hx_host) (Destroy 5) = Some (message_words (hx_request (Destroy 5)))" by (simp add: send_to_vec_words hx_host_def)
  have "length (message_words (hx_request (Destroy 5))) = 2" by (simp add: length_message_words hx_request_def)
  then show ?thesis using passthru_message_roundtrip [OF hx_codec u _ s r, of 120] s by (simp add: hx_host_def trap_of_def)
qed

text \<open>
  C7. Creating a realm hands it over as the file has it. When every entry fits a chunk with its header, and the chunks
  fit the bulk region, \<^verbatim>\<open>create_realm\<close> amounts to three steps of the resource server: the realm is started from exactly the
  bytes of its model, however they were cut up; every frame entry is filled with exactly its part of the content, in
  the order of the model; and the realm is finished. If it returns, the resource server has the realm.
\<close>

theorem create_realm_hands_over:
  assumes L: "host_link H E dec k put" "host_codec H E dec" and r: "r < 2 ^ 64" "rs_partial_specs rs r = None" "rs_realms rs r = None"
    and spec: "he_take_model H (bytes @ content) = Some (model, content)" "length (bytes @ content) < 2 ^ 64"
    and cs: "0 < cs" "cs \<le> re_bulk_region_size E" "cs < 2 ^ 63"
    and fits: "\<forall>(i, j, n)\<in>set (fill_entries model). i < 2 ^ 64 \<and> j < 2 ^ 64 \<and> item_size H (i, j, n) \<le> cs"
      "(\<Sum>(i, j, n)\<leftarrow>fill_entries model. n) \<le> length content"
  shows "\<exists>w gs. concat gs = slices (fill_entries model) content \<and>
    Host_create_realm H r (bytes @ content) cs rs = (do {
      rs \<leftarrow> ok_state (handle_request E k (RealizeStart r) (set_world w (rs\<lparr>rs_partial_specs := (rs_partial_specs rs)(r \<mapsto> bytes)\<rparr>)));
      rs \<leftarrow> for_each gs (serve_group H E put r) rs;
      rs \<leftarrow> ok_state (handle_request E k (RealizeFinish r) rs);
      Some (Inr (), rs) }) \<and>
    (\<forall>rs'. Host_create_realm H r (bytes @ content) cs rs = Some (Inr (), rs') \<longrightarrow> rs_realms rs' r \<noteq> None)"
proof -
  from spec(2) have sz: "usize_sub (length bytes + length content) (length content) = length bytes" "length bytes < 2 ^ 64" by (simp_all add: usize_sub_def)
  from declare_and_send [OF L r(1) sz(2) cs(1,2) r(2,3)] obtain rs1 w where
    d: "sc_declare H r (length bytes) rs = Some rs1"
      "send_spec H r bytes cs rs1 = Some (Inr (), set_world w (rs\<lparr>rs_partial_specs := (rs_partial_specs rs)(r \<mapsto> bytes)\<rparr>))" by blast
  define start where "start = ok_state (handle_request E k (RealizeStart r) (set_world w (rs\<lparr>rs_partial_specs := (rs_partial_specs rs)(r \<mapsto> bytes)\<rparr>)))"
  have "length content < 2 ^ 64" using spec(2) by simp
  from send_fills_groups [OF L r(1) cs(2) this cs(3) fits(1), of 0 "[]" "case start of None \<Rightarrow> rs | Some rs \<Rightarrow> rs"] fits(2) obtain gs where
    g: "concat gs = slices (fill_entries model) content"
      "send_fills H r content cs (fill_entries model) (case start of None \<Rightarrow> rs | Some rs \<Rightarrow> rs) =
        map_option (Pair (Inr ())) (for_each gs (serve_group H E put r) (case start of None \<Rightarrow> rs | Some rs \<Rightarrow> rs))"
    by (auto simp: send_fills_def)
  have o: "he_open H x = (Inr (), x)" for x using L(1) by (simp add: host_link_def)
  have c: "Host_create_realm H r (bytes @ content) cs rs = (do {
      rs \<leftarrow> start;
      rs \<leftarrow> for_each gs (serve_group H E put r) rs;
      rs \<leftarrow> ok_state (handle_request E k (RealizeFinish r) rs);
      Some (Inr (), rs) })"
    using g(2) r(1) host_methods(2,3) [OF L]
    by (cases start; cases "for_each gs (serve_group H E put r) (the start)") (simp_all add: Host_create_realm_def spec(1) sz d o rust_assert_def start_def)
  have "rs_realms rs' r \<noteq> None" if "Host_create_realm H r (bytes @ content) cs rs = Some (Inr (), rs')" for rs'
    using that by (auto simp: c bind_eq_Some_conv ok_state_Some dest: finish_has_realm)
  with g(1) c show ?thesis unfolding start_def by blast
qed

theorem create_realm_hands_over_witness:
  "\<forall>rz. \<exists>w gs. concat gs = [(0, 0, [5, 6])] \<and>
    Host_create_realm hx_host 7 [1, 2, 3, 5, 6] 32 (ResourceServer_new hx_env rz 8 []) = (do {
      rs \<leftarrow> ok_state (handle_request hx_env 0 (RealizeStart 7) (set_world w ((ResourceServer_new hx_env rz 8 [])\<lparr>rs_partial_specs := [7 \<mapsto> [1, 2, 3]]\<rparr>)));
      rs \<leftarrow> for_each gs (serve_group hx_host hx_env (\<lambda>bs w. bs) 7) rs;
      rs \<leftarrow> ok_state (handle_request hx_env 0 (RealizeFinish 7) rs);
      Some (Inr (), rs) })"
proof
  fix rz
  have n: "rs_partial_specs (ResourceServer_new hx_env rz 8 []) = Map.empty" "rs_realms (ResourceServer_new hx_env rz 8 []) = Map.empty"
    by (simp_all add: ResourceServer_new_def)
  have m: "he_take_model hx_host ([1, 2, 3] @ [5, 6]) = Some (hx_model, [5, 6])" by (simp add: hx_host_def)
  have i: "item_size hx_host (0, 0, 2) = 26" by (simp add: item_size_def hx_host_def hx_header_def)
  have e: "re_bulk_region_size hx_env = 4096" by (simp add: hx_env_def)
  show "\<exists>w gs. concat gs = [(0, 0, [5, 6])] \<and>
    Host_create_realm hx_host 7 [1, 2, 3, 5, 6] 32 (ResourceServer_new hx_env rz 8 []) = (do {
      rs \<leftarrow> ok_state (handle_request hx_env 0 (RealizeStart 7) (set_world w ((ResourceServer_new hx_env rz 8 [])\<lparr>rs_partial_specs := [7 \<mapsto> [1, 2, 3]]\<rparr>)));
      rs \<leftarrow> for_each gs (serve_group hx_host hx_env (\<lambda>bs w. bs) 7) rs;
      rs \<leftarrow> ok_state (handle_request hx_env 0 (RealizeFinish 7) rs);
      Some (Inr (), rs) })"
    using create_realm_hands_over [OF hx_link hx_codec, of 7 "ResourceServer_new hx_env rz 8 []" "[1, 2, 3]" "[5, 6]" hx_model 32] m
    by (simp add: n i e hx_entries) blast
qed

end
