(* ===== verification/Fdt.thy ===== *)
theory Fdt
  imports BTree "HOL-Library.List_Lexorder"
begin

text \<open>
  Flattened device trees (\<^verbatim>\<open>framework/base/icecap-fdt/src\<close>: \<^verbatim>\<open>types.rs\<close>, \<^verbatim>\<open>read.rs\<close>, \<^verbatim>\<open>write.rs\<close>, \<^verbatim>\<open>utils.rs\<close>). A
  string is its bytes in UTF-8, a \<^verbatim>\<open>BTreeMap\<close> of \<^verbatim>\<open>String\<close> keys is ordered by those bytes. Errors carry
  text only, a unit here. A result \<open>None\<close> of a reader is a call that does not return; a panic, of a slice out of bounds, is
  \<open>Some None\<close>.
\<close>

section \<open>Types\<close>

definition MAGIC :: u32 where "MAGIC = 0xd00dfeed"
definition FDT_HEADER_SIZE :: nat where "FDT_HEADER_SIZE = 10 * 4"
definition VERSION :: u32 where "VERSION = 17"
definition LAST_COMP_VERSION :: u32 where "LAST_COMP_VERSION = 16"
definition TOK_BEGIN_NODE :: u32 where "TOK_BEGIN_NODE = 1"
definition TOK_END_NODE :: u32 where "TOK_END_NODE = 2"
definition TOK_PROP :: u32 where "TOK_PROP = 3"
definition TOK_NOP :: u32 where "TOK_NOP = 4"
definition TOK_END :: u32 where "TOK_END = 9"

record FdtHeader =
  fd_magic :: u32
  fd_totalsize :: u32
  fd_off_dt_struct :: u32
  fd_off_dt_strings :: u32
  fd_off_mem_rsvmap :: u32
  fd_version :: u32
  fd_last_comp_version :: u32
  fd_boot_cpuid_phys :: u32
  fd_size_dt_strings :: u32
  fd_size_dt_struct :: u32

record PropHeader =
  ph_len :: u32
  ph_name_off :: u32

record ReserveEntry =
  rv_address :: u64
  rv_size :: u64

datatype DtNode = DtNode (dt_properties: "(u8 list \<times> u8 list) list") (dt_children: "(u8 list \<times> DtNode) list")

record DeviceTree =
  dt_mem_rsvmap :: "ReserveEntry list"
  dt_root :: DtNode
  dt_boot_cpuid_phys :: u32

definition align_up :: "nat \<Rightarrow> nat \<Rightarrow> nat" where
  "align_up x n = (if x = 0 then 0 else ((x - 1) OR (n - 1)) + 1)"

definition to_be_bytes :: "nat \<Rightarrow> 'a::len word \<Rightarrow> u8 list" where
  "to_be_bytes n w = map (\<lambda>k. ucast (drop_bit (8 * (n - Suc k)) w)) [0..<n]"

definition from_be_bytes :: "u8 list \<Rightarrow> 'a::len word" where
  "from_be_bytes bs = fold (\<lambda>b w. push_bit 8 w OR ucast b) bs 0"

abbreviation be32 :: "u32 \<Rightarrow> u8 list" where "be32 \<equiv> to_be_bytes 4"
abbreviation be64 :: "u64 \<Rightarrow> u8 list" where "be64 \<equiv> to_be_bytes 8"

text \<open>\<^verbatim>\<open>core::str::from_utf8\<close>: which bytes are UTF-8, the well-formed sequences of the Unicode standard.\<close>

definition is_cont :: "u8 \<Rightarrow> bool" where "is_cont b \<longleftrightarrow> 0x80 \<le> b \<and> b \<le> 0xBF"

definition lead_len :: "u8 \<Rightarrow> nat" where
  "lead_len b = (if b \<le> 0x7F then 0 else if 0xC2 \<le> b \<and> b \<le> 0xDF then 1 else if 0xE0 \<le> b \<and> b \<le> 0xEF then 2
     else if 0xF0 \<le> b \<and> b \<le> 0xF4 then 3 else 4)"

definition second_ok :: "u8 \<Rightarrow> u8 \<Rightarrow> bool" where
  "second_ok b c \<longleftrightarrow> (b = 0xE0 \<longrightarrow> 0xA0 \<le> c) \<and> (b = 0xED \<longrightarrow> c \<le> 0x9F) \<and> (b = 0xF0 \<longrightarrow> 0x90 \<le> c) \<and> (b = 0xF4 \<longrightarrow> c \<le> 0x8F)"

function from_utf8 :: "u8 list \<Rightarrow> bool" where
  "from_utf8 [] \<longleftrightarrow> True"
| "from_utf8 (b # bs) \<longleftrightarrow>
     lead_len b \<noteq> 4 \<and> lead_len b \<le> length bs \<and> list_all is_cont (take (lead_len b) bs) \<and>
     (lead_len b = 0 \<or> second_ok b (hd bs)) \<and> from_utf8 (drop (lead_len b) bs)"
  by pat_completeness auto

termination from_utf8
  by (relation "measure length") auto

section \<open>Writing\<close>

text \<open>The writer's buffer, and the table of strings.\<close>

definition fdt_align :: "nat \<Rightarrow> u8 list \<Rightarrow> u8 list" where
  "fdt_align n w = w @ replicate (align_up (length w) n - length w) 0"

definition Strings_insert :: "u8 list \<Rightarrow> u8 list \<Rightarrow> u32 \<times> u8 list" where
  "Strings_insert s strs = (of_nat (length strs), strs @ s @ [0])"

definition write_header :: "FdtHeader \<Rightarrow> u8 list" where
  "write_header h = be32 (fd_magic h) @ be32 (fd_totalsize h) @ be32 (fd_off_dt_struct h) @ be32 (fd_off_dt_strings h) @ be32 (fd_off_mem_rsvmap h) @
     be32 (fd_version h) @ be32 (fd_last_comp_version h) @ be32 (fd_boot_cpuid_phys h) @ be32 (fd_size_dt_strings h) @ be32 (fd_size_dt_struct h)"

definition write_mem_rsvmap :: "ReserveEntry list \<Rightarrow> u8 list" where
  "write_mem_rsvmap es = concat (map (\<lambda>e. be64 (rv_address e) @ be64 (rv_size e)) es) @ be64 0 @ be64 0"

definition write_prop :: "u8 list \<times> u8 list \<Rightarrow> u8 list \<times> u8 list \<Rightarrow> u8 list \<times> u8 list" where
  "write_prop = (\<lambda>(k, v) (strs, w).
     let (off, strs) = Strings_insert k strs
     in (strs, fdt_align 4 (w @ be32 TOK_PROP @ be32 (of_nat (length v)) @ be32 off @ v)))"

definition begin_node :: "u8 list \<Rightarrow> u8 list \<Rightarrow> u8 list" where
  "begin_node name w = fdt_align 4 (w @ be32 TOK_BEGIN_NODE @ name @ [0])"

text \<open>A call of the writer takes and answers the table of strings and its buffer.\<close>

fun write_node :: "u8 list \<Rightarrow> DtNode \<Rightarrow> u8 list \<times> u8 list \<Rightarrow> u8 list \<times> u8 list"
and write_children :: "(u8 list \<times> DtNode) list \<Rightarrow> u8 list \<times> u8 list \<Rightarrow> u8 list \<times> u8 list" where
  "write_node name (DtNode ps cs) st =
     apsnd (\<lambda>w. w @ be32 TOK_END_NODE) (write_children cs (fold write_prop ps (apsnd (begin_node name) st)))"
| "write_children [] st = st"
| "write_children ((k, c) # cs) st = write_children cs (write_node k c st)"

definition DeviceTree_write :: "DeviceTree \<Rightarrow> u8 list" where
  "DeviceTree_write dt =
     (let mem_rsvmap = write_mem_rsvmap (dt_mem_rsvmap dt);
          (strings, root) = write_node [] (dt_root dt) ([], []);
          root = root @ be32 TOK_END;
          w = fdt_align 8 (replicate FDT_HEADER_SIZE 0);
          off_mem_rsvmap = of_nat (length w);
          w = fdt_align 4 (w @ mem_rsvmap);
          off_dt_struct = of_nat (length w);
          w = fdt_align 4 (w @ root);
          off_dt_strings = of_nat (length w);
          w = w @ strings;
          header = write_header \<lparr>fd_magic = MAGIC, fd_totalsize = of_nat (length w), fd_off_dt_struct = off_dt_struct, fd_off_dt_strings = off_dt_strings,
            fd_off_mem_rsvmap = off_mem_rsvmap, fd_version = VERSION, fd_last_comp_version = LAST_COMP_VERSION,
            fd_boot_cpuid_phys = dt_boot_cpuid_phys dt, fd_size_dt_strings = of_nat (length strings), fd_size_dt_struct = of_nat (length root)\<rparr>
      in header @ drop FDT_HEADER_SIZE w)"

section \<open>Reading\<close>

type_synonym 'a fdt_result = "unit + 'a"

definition res_bind :: "'a fdt_result \<Rightarrow> ('a \<Rightarrow> 'b fdt_result) \<Rightarrow> 'b fdt_result" where
  "res_bind m f = (case m of Inl e \<Rightarrow> Inl e | Inr a \<Rightarrow> f a)"

definition res_ensure :: "bool \<Rightarrow> unit fdt_result" where
  "res_ensure b = (if b then Inr () else Inl ())"

text \<open>A cursor is a position; the buffer is fixed. Reads answer with the position after them.\<close>

definition cur_read :: "u8 list \<Rightarrow> nat \<Rightarrow> nat \<Rightarrow> (u8 list \<times> nat) fdt_result" where
  "cur_read b n i = (if i + n \<le> length b then Inr (take n (drop i b), i + n) else Inl ())"

definition read_value :: "u8 list \<Rightarrow> nat \<Rightarrow> nat \<Rightarrow> (u8 list \<times> nat) fdt_result" where
  "read_value b n i = res_bind (cur_read b n i) (\<lambda>(v, i). Inr (v, align_up i 4))"

definition cstring_at :: "u8 list \<Rightarrow> nat \<Rightarrow> u8 list fdt_result" where
  "cstring_at b offset =
     res_bind (res_ensure (offset \<le> length b)) (\<lambda>_.
     res_bind (res_ensure (0 \<in> set (drop offset b))) (\<lambda>_.
     let s = takeWhile (\<lambda>c. c \<noteq> 0) (drop offset b) in res_bind (res_ensure (from_utf8 s)) (\<lambda>_. Inr s)))"

definition read_unit_name :: "u8 list \<Rightarrow> nat \<Rightarrow> (u8 list \<times> nat) fdt_result" where
  "read_unit_name b i = res_bind (cstring_at b i) (\<lambda>s. Inr (s, align_up (i + length s + 1) 4))"

definition read_be_u32 :: "u8 list \<Rightarrow> nat \<Rightarrow> (u32 \<times> nat) fdt_result" where
  "read_be_u32 b i = res_bind (cur_read b 4 i) (\<lambda>(raw, i). Inr (from_be_bytes raw, i))"

definition read_be_u64 :: "u8 list \<Rightarrow> nat \<Rightarrow> (u64 \<times> nat) fdt_result" where
  "read_be_u64 b i = res_bind (cur_read b 8 i) (\<lambda>(raw, i). Inr (from_be_bytes raw, i))"

definition read_header :: "u8 list \<Rightarrow> nat \<Rightarrow> (FdtHeader \<times> nat) fdt_result" where
  "read_header b i =
     res_bind (read_be_u32 b i) (\<lambda>(magic, i). res_bind (read_be_u32 b i) (\<lambda>(totalsize, i).
     res_bind (read_be_u32 b i) (\<lambda>(off_dt_struct, i). res_bind (read_be_u32 b i) (\<lambda>(off_dt_strings, i).
     res_bind (read_be_u32 b i) (\<lambda>(off_mem_rsvmap, i). res_bind (read_be_u32 b i) (\<lambda>(version, i).
     res_bind (read_be_u32 b i) (\<lambda>(last_comp_version, i). res_bind (read_be_u32 b i) (\<lambda>(boot_cpuid_phys, i).
     res_bind (read_be_u32 b i) (\<lambda>(size_dt_strings, i). res_bind (read_be_u32 b i) (\<lambda>(size_dt_struct, i).
     Inr (\<lparr>fd_magic = magic, fd_totalsize = totalsize, fd_off_dt_struct = off_dt_struct, fd_off_dt_strings = off_dt_strings,
       fd_off_mem_rsvmap = off_mem_rsvmap, fd_version = version, fd_last_comp_version = last_comp_version,
       fd_boot_cpuid_phys = boot_cpuid_phys, fd_size_dt_strings = size_dt_strings, fd_size_dt_struct = size_dt_struct\<rparr>, i)))))))))))"

definition read_reserve_entry :: "u8 list \<Rightarrow> nat \<Rightarrow> (ReserveEntry \<times> nat) fdt_result" where
  "read_reserve_entry b i = res_bind (read_be_u64 b i) (\<lambda>(address, i). res_bind (read_be_u64 b i) (\<lambda>(sz, i).
     Inr (\<lparr>rv_address = address, rv_size = sz\<rparr>, i)))"

definition read_prop_header :: "u8 list \<Rightarrow> nat \<Rightarrow> (PropHeader \<times> nat) fdt_result" where
  "read_prop_header b i = res_bind (read_be_u32 b i) (\<lambda>(len, i). res_bind (read_be_u32 b i) (\<lambda>(name_off, i).
     Inr (\<lparr>ph_len = len, ph_name_off = name_off\<rparr>, i)))"

text \<open>The arm of \<^verbatim>\<open>TOK_PROP\<close>: the name, from the table of strings, and the value.\<close>

definition read_prop :: "u8 list \<Rightarrow> u8 list \<Rightarrow> nat \<Rightarrow> ((u8 list \<times> u8 list) \<times> nat) fdt_result" where
  "read_prop strings b i =
     res_bind (read_prop_header b i) (\<lambda>(prop, i).
     res_bind (cstring_at strings (unat (ph_name_off prop))) (\<lambda>name.
     res_bind (read_value b (unat (ph_len prop)) i) (\<lambda>(v, i). Inr ((name, v), i))))"

partial_function (option) read_node :: "u8 list \<Rightarrow> u8 list \<Rightarrow> (u8 list \<times> u8 list) list \<Rightarrow> (u8 list \<times> DtNode) list \<Rightarrow> nat \<Rightarrow>
    (DtNode \<times> nat) fdt_result option" where
  "read_node strings b ps cs i = (case read_be_u32 b i of
     Inl e \<Rightarrow> Some (Inl e)
   | Inr ti \<Rightarrow>
       if fst ti = TOK_NOP then read_node strings b ps cs (snd ti)
       else if fst ti = TOK_PROP then
         (case read_prop strings b (snd ti) of
            Inl e \<Rightarrow> Some (Inl e)
          | Inr p \<Rightarrow> read_node strings b (btree_insert (fst (fst p)) (snd (fst p)) ps) cs (snd p))
       else if fst ti = TOK_BEGIN_NODE then
         (case read_unit_name b (snd ti) of
            Inl e \<Rightarrow> Some (Inl e)
          | Inr n \<Rightarrow> Option.bind (read_node strings b [] [] (snd n)) (\<lambda>r. case r of
              Inl e \<Rightarrow> Some (Inl e)
            | Inr c \<Rightarrow> read_node strings b ps (btree_insert (fst n) (fst c) cs) (snd c)))
       else if fst ti = TOK_END_NODE then Some (Inr (DtNode ps cs, snd ti))
       else Some (Inl ()))"

partial_function (option) read_mem_rsvmap :: "u8 list \<Rightarrow> ReserveEntry list \<Rightarrow> nat \<Rightarrow> ReserveEntry list fdt_result option" where
  "read_mem_rsvmap b v i = (case read_reserve_entry b i of
     Inl e \<Rightarrow> Some (Inl e)
   | Inr ei \<Rightarrow>
       if rv_address (fst ei) = 0 \<and> rv_size (fst ei) = 0 then Some (Inr v)
       else read_mem_rsvmap b (v @ [fst ei]) (snd ei))"

definition dtb_slice :: "u8 list \<Rightarrow> nat \<Rightarrow> nat \<Rightarrow> u8 list option" where
  "dtb_slice b from to = (if from \<le> to \<and> to \<le> length b then Some (take (to - from) (drop from b)) else None)"

text \<open>
  The ends of the slices are sums of \<^verbatim>\<open>u32\<close>s: one that wraps is below the start, so the slice panics as the checked sum does.
\<close>

text \<open>The layers of a result of \<^verbatim>\<open>DeviceTree::read\<close>: returns or not, panics or not, error or not.\<close>

definition read_root :: "u8 list \<Rightarrow> u8 list \<Rightarrow> DtNode fdt_result option" where
  "read_root strings b =
     (case res_bind (read_be_u32 b 0) (\<lambda>(tok, i).
        res_bind (res_ensure (tok = TOK_BEGIN_NODE)) (\<lambda>_.
        res_bind (read_unit_name b i) (\<lambda>(name, i).
        res_bind (res_ensure (length name = 0)) (\<lambda>_. Inr i)))) of
        Inl e \<Rightarrow> Some (Inl e)
      | Inr i \<Rightarrow> Option.bind (read_node strings b [] [] i) (\<lambda>r.
          Some (res_bind r (\<lambda>(root, i). res_bind (read_be_u32 b i) (\<lambda>(tok, i).
            res_bind (res_ensure (tok = TOK_END)) (\<lambda>_. Inr root))))))"

definition DeviceTree_read :: "u8 list \<Rightarrow> DeviceTree fdt_result option option" where
  "DeviceTree_read dtb =
     (case res_bind (read_header dtb 0) (\<lambda>(h, _).
        res_bind (res_ensure (fd_magic h = MAGIC)) (\<lambda>_.
        res_bind (res_ensure (fd_version h = VERSION)) (\<lambda>_.
        res_bind (res_ensure (fd_last_comp_version h = LAST_COMP_VERSION)) (\<lambda>_. Inr h)))) of
        Inl e \<Rightarrow> Some (Some (Inl e))
      | Inr h \<Rightarrow> (case dtb_slice dtb (unat (fd_off_mem_rsvmap h)) (length dtb) of
          None \<Rightarrow> Some None
        | Some rsv \<Rightarrow> Option.bind (read_mem_rsvmap rsv [] 0) (\<lambda>r. case r of
            Inl e \<Rightarrow> Some (Some (Inl e))
          | Inr mem_rsvmap \<Rightarrow>
              (case (dtb_slice dtb (unat (fd_off_dt_strings h)) (unat (fd_off_dt_strings h + fd_size_dt_strings h)),
                     dtb_slice dtb (unat (fd_off_dt_struct h)) (unat (fd_off_dt_struct h + fd_size_dt_struct h))) of
                 (Some strings, Some struct) \<Rightarrow> Option.bind (read_root strings struct) (\<lambda>r.
                   Some (Some (res_bind r (\<lambda>root.
                     Inr \<lparr>dt_mem_rsvmap = mem_rsvmap, dt_root = root, dt_boot_cpuid_phys = fd_boot_cpuid_phys h\<rparr>))))
               | _ \<Rightarrow> Some None))))"

end
