(* ===== verification/FdtProps.thy ===== *)
theory FdtProps
  imports Fdt "HOL-Library.Sublist"
begin

text \<open>
  Flattened device trees: the reader returns on every input, and reads back what the writer wrote. A write only grown_to the
  buffer and the table of strings, so what is read at a position the writer has passed is decided by a prefix of the final buffers.
\<close>

section \<open>The reader returns\<close>

lemma or_nat_ge: "x \<le> x OR (y :: nat)"
proof -
  have "int x \<le> int x OR int y" by (rule or_greater_eq) simp
  then show ?thesis by (simp flip: of_nat_or_eq)
qed

lemma align_up_ge [simp]: "x \<le> align_up x n"
proof (cases "x = 0")
  case False
  with or_nat_ge [of "x - 1" "n - 1"] have "x \<le> ((x - 1) OR (n - 1)) + 1" by linarith
  with False show ?thesis by (simp add: align_up_def)
qed (simp add: align_up_def)

lemma less_align_up: "i < x \<Longrightarrow> i < align_up x n"
  using align_up_ge [of x n] by linarith

lemma res_bind_simps [simp]: "res_bind (Inl e) f = Inl e" "res_bind (Inr a) f = f a"
  by (simp_all add: res_bind_def)

lemma res_bind_InrE: "res_bind m f = Inr b \<Longrightarrow> (\<And>a. m = Inr a \<Longrightarrow> f a = Inr b \<Longrightarrow> P) \<Longrightarrow> P"
  by (cases m) (auto simp: res_bind_def)

lemma cur_read_Inr: "cur_read b n i = Inr (x, j) \<Longrightarrow> j = i + n \<and> j \<le> length b \<and> x = take n (drop i b)"
  by (auto simp: cur_read_def split: if_splits)

lemma read_be_u32_Inr: "read_be_u32 b i = Inr (t, j) \<Longrightarrow> j = i + 4 \<and> j \<le> length b"
  by (auto simp: read_be_u32_def elim!: res_bind_InrE dest: cur_read_Inr)

lemma read_be_u64_Inr: "read_be_u64 b i = Inr (t, j) \<Longrightarrow> j = i + 8 \<and> j \<le> length b"
  by (auto simp: read_be_u64_def elim!: res_bind_InrE dest: cur_read_Inr)

lemma read_prop_Inr: "read_prop s b i = Inr (p, j) \<Longrightarrow> i < j"
  by (auto simp: read_prop_def read_prop_header_def read_value_def less_align_up elim!: res_bind_InrE dest!: read_be_u32_Inr cur_read_Inr)

lemma read_unit_name_Inr: "read_unit_name b i = Inr (n, j) \<Longrightarrow> i < j"
  by (auto simp: read_unit_name_def less_align_up elim!: res_bind_InrE)

lemma read_node_returns: "\<exists>r. read_node s b ps cs i = Some r \<and> (\<forall>n j. r = Inr (n, j) \<longrightarrow> i < j \<and> j \<le> length b)"
proof (induction "length b - i" arbitrary: i ps cs rule: less_induct)
  case less
  show ?case
  proof (cases "read_be_u32 b i")
    case (Inl e)
    then show ?thesis by (subst read_node.simps) simp
  next
    case (Inr ti)
    obtain t j where ti: "ti = (t, j)" by (cases ti)
    have j: "j = i + 4" "j \<le> length b" using read_be_u32_Inr Inr ti by auto
    have step: "\<exists>r. read_node s b ps' cs' k = Some r \<and> (\<forall>n l. r = Inr (n, l) \<longrightarrow> i < l \<and> l \<le> length b)" if "j \<le> k" for ps' cs' k
    proof -
      have "length b - k < length b - i" using that j by linarith
      from less.hyps [OF this, of ps' cs'] show ?thesis using that j by (auto dest: less_trans)
    qed
    consider (nop) "t = TOK_NOP" | (val) "t = TOK_PROP" | (sub) "t = TOK_BEGIN_NODE" | (other) "t \<notin> {TOK_NOP, TOK_PROP, TOK_BEGIN_NODE}" by blast
    then show ?thesis
    proof cases
      case nop
      then show ?thesis using Inr ti step [of j] by (subst read_node.simps) simp
    next
      case val
      then show ?thesis using Inr ti step less_imp_le [OF read_prop_Inr]
        by (subst read_node.simps) (auto simp: TOK_NOP_def TOK_PROP_def split: sum.splits)
    next
      case sub
      show ?thesis
      proof (cases "read_unit_name b j")
        case (Inl e)
        then show ?thesis using sub Inr ti by (subst read_node.simps) (simp add: TOK_NOP_def TOK_PROP_def TOK_BEGIN_NODE_def)
      next
        case (Inr n)
        have n: "j \<le> snd n" using read_unit_name_Inr [of b j "fst n" "snd n"] Inr by simp
        obtain r where r: "read_node s b [] [] (snd n) = Some r" "\<forall>m l. r = Inr (m, l) \<longrightarrow> i < l \<and> l \<le> length b"
          using step [OF n] by blast
        have "length b - snd n < length b - i" using n j by linarith
        from less.hyps [OF this, of "[]" "[]"] r(1) have l: "j \<le> l" if "r = Inr (m, l)" for m l using n that by auto
        show ?thesis using sub \<open>read_be_u32 b i = Inr ti\<close> ti Inr r l step
          by (subst read_node.simps) (cases r; auto simp: TOK_NOP_def TOK_PROP_def TOK_BEGIN_NODE_def)
      qed
    next
      case other
      then show ?thesis using Inr ti j by (subst read_node.simps) (simp split: if_splits)
    qed
  qed
qed

lemma read_mem_rsvmap_returns: "\<exists>r. read_mem_rsvmap b v i = Some r"
proof (induction "length b - i" arbitrary: i v rule: less_induct)
  case less
  show ?case
  proof (cases "read_reserve_entry b i")
    case (Inr ei)
    obtain e j where ei: "ei = (e, j)" by (cases ei)
    have "length b - j < length b - i" using Inr ei
      by (auto simp: read_reserve_entry_def elim!: res_bind_InrE dest!: read_be_u64_Inr)
    then show ?thesis using less.hyps Inr ei by (subst read_mem_rsvmap.simps) simp
  qed (subst read_mem_rsvmap.simps, simp)
qed

lemma read_root_returns: "\<exists>r. read_root s b = Some r"
  using read_node_returns [of s b "[]" "[]"] by (auto simp: read_root_def split: sum.splits) (metis bind.bind_lunit)

section \<open>The reader reads what the writer wrote\<close>

lemma length_to_be_bytes [simp]: "length (to_be_bytes n w) = n"
  by (simp add: to_be_bytes_def)

lemma upt_4_8: "[0..<4] = [0, 1, 2, 3 :: nat]" "[0..<8] = [0, 1, 2, 3, 4, 5, 6, 7 :: nat]"
  by (simp_all add: upt_rec)

lemma from_to_be32 [simp]: "from_be_bytes (be32 w) = w"
proof (rule bit_word_eqI)
  fix n assume "n < LENGTH(32)"
  then have n: "n < 32" by simp
  have "n < 8 \<or> 8 \<le> n \<and> n < 16 \<or> 16 \<le> n \<and> n < 24 \<or> 24 \<le> n" by linarith
  then show "bit (from_be_bytes (be32 w) :: u32) n = bit w n"
    using n by (auto simp: from_be_bytes_def to_be_bytes_def upt_4_8 bit_simps)
qed

lemma from_to_be64 [simp]: "from_be_bytes (be64 w) = w"
proof (rule bit_word_eqI)
  fix n assume "n < LENGTH(64)"
  then have n: "n < 64" by simp
  have "n < 8 \<or> 8 \<le> n \<and> n < 16 \<or> 16 \<le> n \<and> n < 24 \<or> 24 \<le> n \<and> n < 32 \<or> 32 \<le> n \<and> n < 40 \<or> 40 \<le> n \<and> n < 48 \<or> 48 \<le> n \<and> n < 56 \<or> 56 \<le> n"
    by linarith
  then show "bit (from_be_bytes (be64 w) :: u64) n = bit w n"
    using n by (elim disjE) (auto simp: from_be_bytes_def to_be_bytes_def upt_4_8 bit_simps)
qed

lemma prefix_app: "prefix (x @ y) z \<Longrightarrow> prefix x z"
  by (auto simp: prefix_def)

lemma cur_read_at: "prefix (w @ x) b \<Longrightarrow> i = length w \<Longrightarrow> n = length x \<Longrightarrow> cur_read b n i = Inr (x, i + n)"
  by (auto simp: prefix_def cur_read_def)

lemma read_be_u32_at: "prefix (w @ be32 v) b \<Longrightarrow> i = length w \<Longrightarrow> read_be_u32 b i = Inr (v, i + 4)"
  using cur_read_at [of w "be32 v" b i 4] by (simp add: read_be_u32_def)

lemma read_be_u64_at: "prefix (w @ be64 v) b \<Longrightarrow> i = length w \<Longrightarrow> read_be_u64 b i = Inr (v, i + 8)"
  using cur_read_at [of w "be64 v" b i 8] by (simp add: read_be_u64_def)

lemma takeWhile_to_zero: "0 \<notin> set s \<Longrightarrow> takeWhile (\<lambda>c. c \<noteq> 0) (s @ 0 # r) = (s :: u8 list)"
  by (induction s) auto

lemma cstring_at_at:
  assumes "prefix (w @ s @ [0]) b" "i = length w" "0 \<notin> set s" "from_utf8 s"
  shows "cstring_at b i = Inr s"
  using assms by (auto simp: prefix_def cstring_at_def res_ensure_def takeWhile_to_zero)

lemma length_fdt_align [simp]: "length (fdt_align n w) = align_up (length w) n"
  by (simp add: fdt_align_def)

lemma prefix_fdt_align: "prefix w (fdt_align n w)"
  by (simp add: fdt_align_def)

subsection \<open>Nodes\<close>

text \<open>
  The trees that can be represented: maps in key order, which is what a \<^verbatim>\<open>BTreeMap\<close> iterates in, and names that are strings
  without a zero byte, which would end them early.
\<close>

definition fdt_name :: "u8 list \<Rightarrow> bool" where
  "fdt_name s \<longleftrightarrow> 0 \<notin> set s \<and> from_utf8 s"

fun node_ok :: "DtNode \<Rightarrow> bool" and children_ok :: "(u8 list \<times> DtNode) list \<Rightarrow> bool" where
  "node_ok (DtNode ps cs) \<longleftrightarrow> btree_ok ps \<and> btree_ok cs \<and> list_all (\<lambda>p. fdt_name (fst p)) ps \<and> children_ok cs"
| "children_ok [] \<longleftrightarrow> True"
| "children_ok ((k, c) # cs) \<longleftrightarrow> fdt_name k \<and> node_ok c \<and> children_ok cs"

definition fdt_inserts :: "(u8 list \<times> 'v) list \<Rightarrow> (u8 list, 'v) btree \<Rightarrow> (u8 list, 'v) btree" where
  "fdt_inserts = fold (\<lambda>p. btree_insert (fst p) (snd p))"

lemma fdt_inserts_simps [simp]: "fdt_inserts [] t = t" "fdt_inserts (p # ps) t = fdt_inserts ps (btree_insert (fst p) (snd p) t)"
  by (simp_all add: fdt_inserts_def)

lemma btree_insert_last: "\<forall>q\<in>set t. fst q < k \<Longrightarrow> btree_insert k v t = t @ [(k, v)]"
  by (induction k v t rule: btree_insert.induct) (auto dest: less_asym)

lemma fdt_inserts_app: "btree_ok (acc @ ps) \<Longrightarrow> fdt_inserts ps acc = acc @ ps"
proof (induction ps arbitrary: acc)
  case (Cons p ps)
  then have "btree_insert (fst p) (snd p) acc = acc @ [p]"
    by (subst btree_insert_last) (auto simp: btree_ok_def sorted_wrt_append)
  with Cons.IH [of "acc @ [p]"] Cons.prems show ?case by simp
qed simp

lemma begin_node_eq: "begin_node name w = fdt_align 4 (w @ be32 TOK_BEGIN_NODE @ name @ [0])"
  by (simp add: begin_node_def)

lemma write_prop_eq:
  "write_prop (k, v) (strs, w) = (strs @ k @ [0], fdt_align 4 (w @ be32 TOK_PROP @ be32 (of_nat (length v)) @ be32 (of_nat (length strs)) @ v))"
  by (simp add: write_prop_def Strings_insert_def)

text \<open>Writing grown_to both buffers.\<close>

definition grown_to :: "u8 list \<times> u8 list \<Rightarrow> u8 list \<times> u8 list \<Rightarrow> bool" where
  "grown_to st st' \<longleftrightarrow> prefix (fst st) (fst st') \<and> prefix (snd st) (snd st')"

lemma grown_refl [simp]: "grown_to st st"
  by (simp add: grown_to_def)

lemma grown_trans [trans]: "grown_to a b \<Longrightarrow> grown_to b c \<Longrightarrow> grown_to a c"
  by (auto simp: grown_to_def)

lemma write_prop_grown: "grown_to st (write_prop p st)"
  using prefix_fdt_align prefix_app by (cases p; cases st) (fastforce simp: write_prop_eq grown_to_def)

lemma write_props_grown: "grown_to st (fold write_prop ps st)"
proof (induction ps arbitrary: st)
  case (Cons p ps)
  from grown_trans [OF write_prop_grown this] show ?case by simp
qed simp

lemma begin_node_grown: "grown_to st (apsnd (begin_node name) st)"
  using prefix_fdt_align [of "snd st @ be32 TOK_BEGIN_NODE @ name @ [0]" 4] prefix_app by (cases st) (auto simp: begin_node_eq grown_to_def)

lemma end_node_grown: "grown_to st (apsnd (\<lambda>w. w @ x) st)"
  by (cases st) (simp add: grown_to_def)

lemma write_grown: "grown_to st (write_node name n st)" "grown_to st (write_children cs st)"
proof (induction name n st and cs st rule: write_node_write_children.induct)
  case (1 name ps cs st)
  from grown_trans [OF grown_trans [OF grown_trans [OF begin_node_grown write_props_grown] 1] end_node_grown]
  show ?case by simp
next
  case (3 k c cs st)
  from grown_trans [OF 3] show ?case by simp
qed simp

text \<open>\<open>written st fin\<close>: the buffers that are read, \<open>fin\<close>, begin with those that are written; their offsets fit a \<^verbatim>\<open>u32\<close>.\<close>

definition written :: "u8 list \<times> u8 list \<Rightarrow> u8 list \<times> u8 list \<Rightarrow> bool" where
  "written st fin \<longleftrightarrow> grown_to st fin \<and> length (fst fin) < 2 ^ 32 \<and> length (snd fin) < 2 ^ 32"

lemma written_grown: "written st' fin \<Longrightarrow> grown_to st st' \<Longrightarrow> written st fin"
  using grown_trans by (auto simp: written_def)

lemma written_fold: "written (fold write_prop ps st) fin \<Longrightarrow> written st fin"
  using written_grown write_props_grown by blast

lemma written_children: "written (write_children cs st) fin \<Longrightarrow> written st fin"
  using written_grown write_grown(2) by blast

lemma read_prop_at:
  assumes "written (write_prop (k, v) (strs, w)) fin" and "fdt_name k"
  shows "read_be_u32 (snd fin) (length w) = Inr (TOK_PROP, length w + 4)"
    and "read_prop (fst fin) (snd fin) (length w + 4) = Inr ((k, v), length (snd (write_prop (k, v) (strs, w))))"
proof -
  let ?l = "be32 (of_nat (length v))" and ?o = "be32 (of_nat (length strs))"
  have f: "prefix (w @ be32 TOK_PROP @ ?l @ ?o @ v) (snd fin)" and s: "prefix (strs @ k @ [0]) (fst fin)"
    using assms(1) prefix_fdt_align prefix_order.trans by (fastforce simp: written_def grown_to_def write_prop_eq)+
  have lt: "length v < 2 ^ 32" "length strs < 2 ^ 32" using prefix_length_le [OF f] prefix_length_le [OF s] assms(1) by (auto simp: written_def)
  show "read_be_u32 (snd fin) (length w) = Inr (TOK_PROP, length w + 4)"
    using f by (intro read_be_u32_at) (auto simp: prefix_def)
  have "prefix ((w @ be32 TOK_PROP) @ ?l) (snd fin)" "prefix ((w @ be32 TOK_PROP @ ?l) @ ?o) (snd fin)" "prefix ((w @ be32 TOK_PROP @ ?l @ ?o) @ v) (snd fin)"
    using f by (auto simp: prefix_def)
  from read_be_u32_at [OF this(1) refl] read_be_u32_at [OF this(2) refl] cur_read_at [OF this(3) refl refl]
  have at: "read_be_u32 (snd fin) (length w + 4) = Inr (of_nat (length v), length w + 8)"
      "read_be_u32 (snd fin) (length w + 8) = Inr (of_nat (length strs), length w + 12)"
      "cur_read (snd fin) (length v) (length w + 12) = Inr (v, length w + 12 + length v)"
    by simp_all
  have u: "unat (of_nat (length v) :: u32) = length v" "unat (of_nat (length strs) :: u32) = length strs"
    using lt by (simp_all add: unat_of_nat)
  have c: "cstring_at (fst fin) (length strs) = Inr k" using assms(2) cstring_at_at [OF s] by (simp add: fdt_name_def)
  show "read_prop (fst fin) (snd fin) (length w + 4) = Inr ((k, v), length (snd (write_prop (k, v) (strs, w))))"
    unfolding read_prop_def read_prop_header_def at res_bind_simps prod.case PropHeader.select_convs u c read_value_def
    by (simp add: write_prop_eq add.assoc)
qed

lemma read_props:
  assumes "written (fold write_prop ps st) fin" and "list_all (\<lambda>p. fdt_name (fst p)) ps"
  shows "read_node (fst fin) (snd fin) ps0 cs (length (snd st)) =
    read_node (fst fin) (snd fin) (fdt_inserts ps ps0) cs (length (snd (fold write_prop ps st)))"
  using assms
proof (induction ps arbitrary: st ps0)
  case (Cons p ps)
  obtain k v strs w where [simp]: "p = (k, v)" "st = (strs, w)" by (cases p; cases st)
  have "written (write_prop (k, v) (strs, w)) fin" using Cons.prems(1) written_fold by simp
  note at = read_prop_at [OF this]
  have "read_node (fst fin) (snd fin) ps0 cs (length w) =
      read_node (fst fin) (snd fin) (btree_insert k v ps0) cs (length (snd (write_prop (k, v) (strs, w))))"
    using at Cons.prems(2) by (subst read_node.simps) (simp add: TOK_NOP_def TOK_PROP_def)
  with Cons.IH [of "write_prop p st"] Cons.prems show ?case by simp
qed simp

lemma read_begin_at:
  assumes "written (apsnd (begin_node name) st) fin" and "fdt_name name"
  shows "read_be_u32 (snd fin) (length (snd st)) = Inr (TOK_BEGIN_NODE, length (snd st) + 4)"
    and "read_unit_name (snd fin) (length (snd st) + 4) = Inr (name, length (begin_node name (snd st)))"
proof -
  let ?w = "snd st"
  have f: "prefix (?w @ be32 TOK_BEGIN_NODE @ name @ [0]) (snd fin)"
    using assms(1) prefix_fdt_align prefix_order.trans by (fastforce simp: written_def grown_to_def begin_node_eq)
  then have "prefix (?w @ be32 TOK_BEGIN_NODE) (snd fin)" "prefix ((?w @ be32 TOK_BEGIN_NODE) @ name @ [0]) (snd fin)"
    by (auto simp: prefix_def)
  note at = read_be_u32_at [OF this(1)] cstring_at_at [OF this(2)]
  show "read_be_u32 (snd fin) (length ?w) = Inr (TOK_BEGIN_NODE, length ?w + 4)" by (rule at) simp
  show "read_unit_name (snd fin) (length ?w + 4) = Inr (name, length (begin_node name ?w))"
    using assms(2) by (simp add: read_unit_name_def at fdt_name_def begin_node_eq ac_simps)
qed

text \<open>A node's body is read to its end, and a list of children into the map of children.\<close>

lemma read_write_node:
  "written (write_node name n st) fin \<Longrightarrow> fdt_name name \<Longrightarrow> node_ok n \<Longrightarrow>
     read_node (fst fin) (snd fin) [] [] (length (begin_node name (snd st))) = Some (Inr (n, length (snd (write_node name n st))))"
  "written (write_children cs st) fin \<Longrightarrow> children_ok cs \<Longrightarrow>
     read_node (fst fin) (snd fin) ps cs0 (length (snd st)) =
     read_node (fst fin) (snd fin) ps (fdt_inserts cs cs0) (length (snd (write_children cs st)))"
proof (induction name n st and cs st arbitrary: and ps cs0 rule: write_node_write_children.induct)
  case (1 name ps cs st)
  let ?b = "apsnd (begin_node name) st"
  let ?p = "fold write_prop ps ?b"
  let ?c = "write_children cs ?p"
  have c: "written ?c fin" using 1(2) written_grown end_node_grown by simp
  have "prefix (snd ?c @ be32 TOK_END_NODE) (snd fin)" using 1(2) by (simp add: written_def grown_to_def)
  from read_be_u32_at [OF this] have e: "read_be_u32 (snd fin) (length (snd ?c)) = Inr (TOK_END_NODE, length (snd ?c) + 4)" by simp
  have "read_node (fst fin) (snd fin) [] [] (length (snd ?b)) = read_node (fst fin) (snd fin) ps cs (length (snd ?c))"
    using read_props [OF written_children [OF c], of "[]" "[]"] 1(1) [OF c, of ps "[]"] 1(4) by (simp add: fdt_inserts_app)
  also have "\<dots> = Some (Inr (DtNode ps cs, length (snd ?c) + 4))"
    using e by (subst read_node.simps) (simp add: TOK_NOP_def TOK_PROP_def TOK_BEGIN_NODE_def TOK_END_NODE_def)
  finally show ?case by simp
next
  case (3 k c cs st)
  have w: "written (write_node k c st) fin" using 3(3) written_children by simp
  obtain pp cc where c: "c = DtNode pp cc" by (cases c)
  have "written (apsnd (begin_node k) st) fin"
    using written_fold [OF written_children [OF written_grown [OF w [unfolded c write_node.simps] end_node_grown]]] .
  note b = read_begin_at [OF this]
  have "read_node (fst fin) (snd fin) ps cs0 (length (snd st)) =
      read_node (fst fin) (snd fin) ps (btree_insert k c cs0) (length (snd (write_node k c st)))"
    using b 3(1) [OF w] 3(4) by (subst read_node.simps) (simp add: TOK_NOP_def TOK_PROP_def TOK_BEGIN_NODE_def)
  with 3(2) [of ps "btree_insert k c cs0"] 3(3,4) show ?case by simp
qed simp

subsection \<open>The whole tree\<close>

lemma read_write_root:
  assumes "node_ok n" and strs: "strs = fst (write_node [] n ([], []))" and b: "b = snd (write_node [] n ([], [])) @ be32 TOK_END"
    and len: "length strs < 2 ^ 32" "length b < 2 ^ 32"
  shows "read_root strs b = Some (Inr n)"
proof -
  let ?st = "([], []) :: u8 list \<times> u8 list"
  have w: "written (write_node [] n ?st) (strs, b)" using len by (simp add: written_def grown_to_def strs b)
  obtain ps cs where n: "n = DtNode ps cs" by (cases n)
  have "written (apsnd (begin_node []) ?st) (strs, b)"
    using written_fold [OF written_children [OF written_grown [OF w [unfolded n write_node.simps] end_node_grown]]] .
  note r = read_begin_at [OF this, simplified]
  have e: "read_be_u32 b (length (snd (write_node [] n ?st))) = Inr (TOK_END, length b)"
    using read_be_u32_at [of "snd (write_node [] n ?st)" TOK_END b] b by simp
  have "read_node strs b [] [] (length (begin_node [] [])) = Some (Inr (n, length (snd (write_node [] n ?st))))"
    using read_write_node(1) [OF w _ assms(1)] by (simp add: fdt_name_def)
  then show ?thesis using r e by (simp add: read_root_def fdt_name_def res_ensure_def)
qed

definition reserve_ok :: "ReserveEntry \<Rightarrow> bool" where
  "reserve_ok e \<longleftrightarrow> rv_address e \<noteq> 0 \<or> rv_size e \<noteq> 0"

lemma read_reserve_entry_at:
  assumes "prefix (w @ be64 a @ be64 n) b" "i = length w"
  shows "read_reserve_entry b i = Inr (\<lparr>rv_address = a, rv_size = n\<rparr>, i + 16)"
proof -
  have "prefix (w @ be64 a) b" "prefix ((w @ be64 a) @ be64 n) b" using assms(1) by (auto simp: prefix_def)
  from read_be_u64_at [OF this(1) refl] read_be_u64_at [OF this(2) refl] assms(2) show ?thesis
    by (simp add: read_reserve_entry_def)
qed

lemma read_write_mem_rsvmap:
  "prefix (w @ write_mem_rsvmap es) b \<Longrightarrow> list_all reserve_ok es \<Longrightarrow> read_mem_rsvmap b v (length w) = Some (Inr (v @ es))"
proof (induction es arbitrary: w v)
  case Nil
  then have "read_reserve_entry b (length w) = Inr (\<lparr>rv_address = 0, rv_size = 0\<rparr>, length w + 16)"
    by (intro read_reserve_entry_at) (simp_all add: write_mem_rsvmap_def)
  then show ?case by (subst read_mem_rsvmap.simps) simp
next
  case (Cons e es)
  let ?e = "be64 (rv_address e) @ be64 (rv_size e)"
  have "prefix (w @ ?e) b" and p: "prefix ((w @ ?e) @ write_mem_rsvmap es) b"
    using Cons.prems(1) by (auto simp: write_mem_rsvmap_def prefix_def)
  then have "read_reserve_entry b (length w) = Inr (e, length (w @ ?e))" by (subst read_reserve_entry_at) auto
  then have "read_mem_rsvmap b v (length w) = read_mem_rsvmap b (v @ [e]) (length (w @ ?e))"
    using Cons.prems(2) by (subst read_mem_rsvmap.simps) (auto simp: reserve_ok_def)
  also have "\<dots> = Some (Inr ((v @ [e]) @ es))" using Cons.IH [OF p] Cons.prems(2) by simp
  finally show ?case by simp
qed

lemma length_write_header [simp]: "length (write_header h) = FDT_HEADER_SIZE"
  by (simp add: write_header_def FDT_HEADER_SIZE_def)

lemma read_be_u32_nth:
  assumes "k < length vs"
  shows "read_be_u32 (concat (map be32 vs) @ r) (4 * k) = Inr (vs ! k, 4 * k + 4)"
proof (rule read_be_u32_at)
  have "length (concat (map be32 us)) = 4 * length us" for us by (induction us) simp_all
  then show "4 * k = length (concat (map be32 (take k vs)))" using assms by simp
  have "concat (map be32 vs) = concat (map be32 (take k vs)) @ be32 (vs ! k) @ concat (map be32 (drop (Suc k) vs))"
    using assms by (subst id_take_nth_drop [OF assms]) simp
  then show "prefix (concat (map be32 (take k vs)) @ be32 (vs ! k)) (concat (map be32 vs) @ r)" by simp
qed

lemma read_write_header: "read_header (write_header h @ r) 0 = Inr (h, 40)"
proof -
  let ?vs = "[fd_magic h, fd_totalsize h, fd_off_dt_struct h, fd_off_dt_strings h, fd_off_mem_rsvmap h, fd_version h,
    fd_last_comp_version h, fd_boot_cpuid_phys h, fd_size_dt_strings h, fd_size_dt_struct h]"
  have w: "write_header h @ r = concat (map be32 ?vs) @ r" by (simp add: write_header_def)
  have at: "read_be_u32 (concat (map be32 ?vs) @ r) i = Inr (?vs ! (i div 4), i + 4)" if "4 * (i div 4) = i" "i < 40" for i
    using read_be_u32_nth [of "i div 4" ?vs r] that by simp
  show ?thesis unfolding w read_header_def by (simp add: at del: concat.simps list.map)
qed

text \<open>The parts of a written tree, and where its header says they are.\<close>

lemma DeviceTree_write_parts:
  assumes "length (DeviceTree_write dt) < 2 ^ 32"
  defines "st \<equiv> write_node [] (dt_root dt) ([], [])"
  defines "root \<equiv> snd st @ be32 TOK_END"
  obtains h p1 p2 where
    "DeviceTree_write dt = write_header h @ write_mem_rsvmap (dt_mem_rsvmap dt) @ p1 @ root @ p2 @ fst st"
    "fd_magic h = MAGIC" "fd_version h = VERSION" "fd_last_comp_version h = LAST_COMP_VERSION" "fd_boot_cpuid_phys h = dt_boot_cpuid_phys dt"
    "unat (fd_off_mem_rsvmap h) = 40" "unat (fd_size_dt_struct h) = length root" "unat (fd_size_dt_strings h) = length (fst st)"
    "unat (fd_off_dt_struct h) = 40 + length (write_mem_rsvmap (dt_mem_rsvmap dt) @ p1)"
    "unat (fd_off_dt_strings h) = 40 + length (write_mem_rsvmap (dt_mem_rsvmap dt) @ p1 @ root @ p2)"
proof -
  let ?z = "replicate 40 (0 :: u8)" and ?m = "write_mem_rsvmap (dt_mem_rsvmap dt)"
  have z: "fdt_align 8 (replicate FDT_HEADER_SIZE 0) = ?z" by (simp add: fdt_align_def align_up_def FDT_HEADER_SIZE_def)
  obtain p1 where p1: "fdt_align 4 (?z @ ?m) = ?z @ ?m @ p1" by (simp add: fdt_align_def)
  obtain p2 where p2: "fdt_align 4 (?z @ ?m @ p1 @ root) = ?z @ ?m @ p1 @ root @ p2" by (simp add: fdt_align_def)
  define h where "h = \<lparr>fd_magic = MAGIC, fd_totalsize = of_nat (length (?z @ ?m @ p1 @ root @ p2 @ fst st)), fd_off_dt_struct = of_nat (length (?z @ ?m @ p1)),
    fd_off_dt_strings = of_nat (length (?z @ ?m @ p1 @ root @ p2)), fd_off_mem_rsvmap = of_nat (length ?z), fd_version = VERSION, fd_last_comp_version = LAST_COMP_VERSION,
    fd_boot_cpuid_phys = dt_boot_cpuid_phys dt, fd_size_dt_strings = of_nat (length (fst st)), fd_size_dt_struct = of_nat (length root)\<rparr>"
  have e: "DeviceTree_write dt = write_header h @ ?m @ p1 @ root @ p2 @ fst st"
    using p1 p2 unfolding DeviceTree_write_def Let_def z h_def root_def st_def by (simp add: split_beta FDT_HEADER_SIZE_def add.assoc del: length_fdt_align)
  then have "40 + length (?m @ p1 @ root @ p2 @ fst st) < 2 ^ 32" using assms(1) by (simp add: FDT_HEADER_SIZE_def)
  then show thesis by (intro that [OF e]) (simp_all add: h_def unat_of_nat del: of_nat_add)
qed

definition dt_ok :: "DeviceTree \<Rightarrow> bool" where
  "dt_ok dt \<longleftrightarrow> node_ok (dt_root dt) \<and> list_all reserve_ok (dt_mem_rsvmap dt)"

lemma dtb_slice_app: "from = length a \<Longrightarrow> to = length a + length x \<Longrightarrow> dtb_slice (a @ x @ y) from to = Some x"
  by (simp add: dtb_slice_def)

lemma DeviceTree_read_parts:
  assumes h: "fd_magic h = MAGIC" "fd_version h = VERSION" "fd_last_comp_version h = LAST_COMP_VERSION"
    and o: "unat (fd_off_mem_rsvmap h) = 40" "unat (fd_size_dt_struct h) = length root" "unat (fd_size_dt_strings h) = length s"
      "unat (fd_off_dt_struct h) = 40 + length (m @ p1)" "unat (fd_off_dt_strings h) = 40 + length (m @ p1 @ root @ p2)"
    and len: "40 + length (m @ p1 @ root @ p2 @ s) < 2 ^ 32"
    and r: "read_mem_rsvmap (m @ p1 @ root @ p2 @ s) [] 0 = Some (Inr es)" "read_root s root = Some (Inr n)"
  shows "DeviceTree_read (write_header h @ m @ p1 @ root @ p2 @ s) =
    Some (Some (Inr \<lparr>dt_mem_rsvmap = es, dt_root = n, dt_boot_cpuid_phys = fd_boot_cpuid_phys h\<rparr>))"
proof -
  let ?b = "write_header h @ m @ p1 @ root @ p2 @ s"
  have e: "unat (fd_off_dt_struct h + fd_size_dt_struct h) = 40 + length (m @ p1) + length root"
    "unat (fd_off_dt_strings h + fd_size_dt_strings h) = 40 + length (m @ p1 @ root @ p2) + length s"
    using len o by (simp_all add: unat_word_ariths)
  have "dtb_slice ?b (unat (fd_off_mem_rsvmap h)) (length ?b) = Some (m @ p1 @ root @ p2 @ s)"
      "dtb_slice ?b (unat (fd_off_dt_struct h)) (unat (fd_off_dt_struct h + fd_size_dt_struct h)) = Some root"
      "dtb_slice ?b (unat (fd_off_dt_strings h)) (unat (fd_off_dt_strings h + fd_size_dt_strings h)) = Some s"
    using dtb_slice_app [of _ "write_header h" _ "m @ p1 @ root @ p2 @ s" "[]"]
      dtb_slice_app [of _ "write_header h @ m @ p1" _ root "p2 @ s"]
      dtb_slice_app [of _ "write_header h @ m @ p1 @ root @ p2" _ s "[]"]
    unfolding e o by (simp_all add: FDT_HEADER_SIZE_def)
  then show ?thesis using r h by (simp add: DeviceTree_read_def read_write_header res_ensure_def del: length_append)
qed

lemma read_DeviceTree_write:
  assumes "dt_ok dt" and "length (DeviceTree_write dt) < 2 ^ 32"
  shows "DeviceTree_read (DeviceTree_write dt) = Some (Some (Inr dt))"
proof -
  let ?m = "write_mem_rsvmap (dt_mem_rsvmap dt)" and ?st = "write_node [] (dt_root dt) ([], [])"
  let ?root = "snd ?st @ be32 TOK_END"
  obtain h p1 p2 where e: "DeviceTree_write dt = write_header h @ ?m @ p1 @ ?root @ p2 @ fst ?st"
    and h: "fd_magic h = MAGIC" "fd_version h = VERSION" "fd_last_comp_version h = LAST_COMP_VERSION" and c: "fd_boot_cpuid_phys h = dt_boot_cpuid_phys dt"
    and o: "unat (fd_off_mem_rsvmap h) = 40" "unat (fd_size_dt_struct h) = length ?root" "unat (fd_size_dt_strings h) = length (fst ?st)"
      "unat (fd_off_dt_struct h) = 40 + length (?m @ p1)" "unat (fd_off_dt_strings h) = 40 + length (?m @ p1 @ ?root @ p2)"
    by (rule DeviceTree_write_parts [OF assms(2)])
  have len: "40 + length (?m @ p1 @ ?root @ p2 @ fst ?st) < 2 ^ 32" using assms(2) e by (simp add: FDT_HEADER_SIZE_def)
  have m: "read_mem_rsvmap (?m @ p1 @ ?root @ p2 @ fst ?st) [] 0 = Some (Inr (dt_mem_rsvmap dt))"
    using read_write_mem_rsvmap [of "[]" "dt_mem_rsvmap dt"] assms(1) by (simp add: dt_ok_def)
  have r: "read_root (fst ?st) ?root = Some (Inr (dt_root dt))"
    using read_write_root [OF _ refl refl] assms(1) len by (simp add: dt_ok_def)
  from DeviceTree_read_parts [OF h o len m r] show ?thesis unfolding e c by simp
qed

text \<open>
  C23. A device tree that is written and fits is read back as it was: every representable tree whose flattened form is below 4 GiB
  survives \<^verbatim>\<open>write\<close> followed by \<^verbatim>\<open>read\<close>, its reserved ranges, its properties and its children in order.
\<close>

theorem fdt_roundtrip:
  assumes "dt_ok dt" and "length (DeviceTree_write dt) < 2 ^ 32"
  shows "DeviceTree_read (DeviceTree_write dt) = Some (Some (Inr dt))"
  using assms by (rule read_DeviceTree_write)

text \<open>Reading a tree with a nested node, an empty value and one that needs padding.\<close>

definition ex_dt :: DeviceTree where
  "ex_dt = \<lparr>dt_mem_rsvmap = [\<lparr>rv_address = 0x1000, rv_size = 0\<rparr>],
     dt_root = DtNode [([0x61], []), ([0x62], [1, 2, 3])] [([0x63, 0x64], DtNode [] [])], dt_boot_cpuid_phys = 0\<rparr>"

theorem fdt_roundtrip_witness:
  "dt_ok ex_dt \<and> length (DeviceTree_write ex_dt) < 2 ^ 32 \<and> DeviceTree_read (DeviceTree_write ex_dt) = Some (Some (Inr ex_dt))"
proof -
  have "dt_ok ex_dt"
    by (simp add: dt_ok_def ex_dt_def fdt_name_def lead_len_def reserve_ok_def)
  moreover have "length (DeviceTree_write ex_dt) < 2 ^ 32"
    by (simp add: DeviceTree_write_def ex_dt_def Let_def split_beta write_prop_eq begin_node_eq write_mem_rsvmap_def align_up_def FDT_HEADER_SIZE_def)
  ultimately show ?thesis using fdt_roundtrip [of ex_dt] by blast
qed

text \<open>The header that \<^verbatim>\<open>read\<close> goes on with, and the slices that it takes by the header's offsets.\<close>

definition accepted_header :: "u8 list \<Rightarrow> FdtHeader \<Rightarrow> bool" where
  "accepted_header dtb h \<longleftrightarrow> (\<exists>i. read_header dtb 0 = Inr (h, i)) \<and> fd_magic h = MAGIC \<and> fd_version h = VERSION \<and> fd_last_comp_version h = LAST_COMP_VERSION"

definition range_in :: "u8 list \<Rightarrow> u32 \<Rightarrow> u32 \<Rightarrow> bool" where
  "range_in dtb off n \<longleftrightarrow> unat off + unat n < 2 ^ 32 \<and> unat off + unat n \<le> length dtb"

lemma dtb_slice_None: "dtb_slice dtb (unat a) (unat (a + n)) = None \<longleftrightarrow> \<not> range_in dtb a n"
proof (cases "unat a + unat n < 2 ^ 32")
  case True
  then show ?thesis by (auto simp: dtb_slice_def range_in_def unat_word_ariths)
next
  case False
  have l: "unat a < 2 ^ 32" "unat n < 2 ^ 32" using unsigned_less [where ?'a = nat and w = a] unsigned_less [where ?'a = nat and w = n] by simp_all
  then have "unat (a + n) = unat a + unat n - 2 ^ 32" using False
    by (simp add: unat_word_ariths mod_if [of "unat a + unat n"])
  then have "unat (a + n) < unat a" using l False by simp
  with False show ?thesis by (simp add: dtb_slice_def range_in_def)
qed

lemma DeviceTree_read_accepted:
  assumes "accepted_header dtb h" "unat (fd_off_mem_rsvmap h) \<le> length dtb"
    "read_mem_rsvmap (drop (unat (fd_off_mem_rsvmap h)) dtb) [] 0 = Some (Inr es)"
  shows "\<exists>r. DeviceTree_read dtb = Some r \<and>
    (r = None \<longleftrightarrow> \<not> range_in dtb (fd_off_dt_strings h) (fd_size_dt_strings h) \<or> \<not> range_in dtb (fd_off_dt_struct h) (fd_size_dt_struct h))"
proof -
  have "dtb_slice dtb (unat (fd_off_mem_rsvmap h)) (length dtb) = Some (drop (unat (fd_off_mem_rsvmap h)) dtb)" using assms(2) by (simp add: dtb_slice_def)
  note e = this assms(1,3)
  let ?s = "dtb_slice dtb (unat (fd_off_dt_strings h)) (unat (fd_off_dt_strings h + fd_size_dt_strings h))"
  let ?r = "dtb_slice dtb (unat (fd_off_dt_struct h)) (unat (fd_off_dt_struct h + fd_size_dt_struct h))"
  show ?thesis
  proof (cases "?s = None \<or> ?r = None")
    case True
    with e have "DeviceTree_read dtb = Some None"
      by (auto simp: DeviceTree_read_def accepted_header_def res_ensure_def split: option.splits)
    with True show ?thesis by (simp add: dtb_slice_None)
  next
    case False
    then obtain s r where "?s = Some s" "?r = Some r" by auto
    moreover obtain x where "read_root s r = Some x" using read_root_returns by blast
    ultimately have "DeviceTree_read dtb = Some (Some (res_bind x (\<lambda>root. Inr \<lparr>dt_mem_rsvmap = es, dt_root = root, dt_boot_cpuid_phys = fd_boot_cpuid_phys h\<rparr>)))"
      using e by (auto simp: DeviceTree_read_def accepted_header_def res_ensure_def)
    with False show ?thesis by (simp add: dtb_slice_None)
  qed
qed

lemma DeviceTree_read_rejected: "\<nexists>h. accepted_header dtb h \<Longrightarrow> DeviceTree_read dtb = Some (Some (Inl ()))"
  by (cases "read_header dtb 0") (auto simp: DeviceTree_read_def accepted_header_def res_ensure_def split: if_splits)

lemma accepted_header_unique: "accepted_header dtb h \<Longrightarrow> accepted_header dtb h' \<Longrightarrow> h' = h"
  by (auto simp: accepted_header_def)

text \<open>
  C24. \<^verbatim>\<open>DeviceTree::read\<close> returns on every input, however malformed, the nested nodes and unterminated reserve maps included. It
  panics, instead of answering with an error, exactly when an accepted header's ranges leave the buffer: the start of the reserve map
  first, and the strings' and the structure's ranges once the reserve map has been read.
\<close>

theorem fdt_read_total:
  "DeviceTree_read dtb \<noteq> None \<and>
   (DeviceTree_read dtb = Some None \<longleftrightarrow>
     (\<exists>h. accepted_header dtb h \<and>
       (unat (fd_off_mem_rsvmap h) > length dtb \<or>
        (\<exists>es. read_mem_rsvmap (drop (unat (fd_off_mem_rsvmap h)) dtb) [] 0 = Some (Inr es)) \<and>
        \<not> (range_in dtb (fd_off_dt_strings h) (fd_size_dt_strings h) \<and> range_in dtb (fd_off_dt_struct h) (fd_size_dt_struct h)))))"
proof (cases "\<exists>h. accepted_header dtb h")
  case False
  then show ?thesis by (simp add: DeviceTree_read_rejected)
next
  case True
  then obtain h where h: "accepted_header dtb h" ..
  then have one: "(\<exists>h'. accepted_header dtb h' \<and> P h') \<longleftrightarrow> P h" for P using accepted_header_unique by blast
  let ?m = "drop (unat (fd_off_mem_rsvmap h)) dtb"
  consider (out) "unat (fd_off_mem_rsvmap h) > length dtb" | (err) "unat (fd_off_mem_rsvmap h) \<le> length dtb" "read_mem_rsvmap ?m [] 0 = Some (Inl ())"
    | (ok) es where "unat (fd_off_mem_rsvmap h) \<le> length dtb" "read_mem_rsvmap ?m [] 0 = Some (Inr es)"
    using read_mem_rsvmap_returns [of ?m "[]" 0] by (metis not_le old.unit.exhaust sum.exhaust)
  then show ?thesis
  proof cases
    case out
    then have "DeviceTree_read dtb = Some None" using h by (auto simp: DeviceTree_read_def dtb_slice_def accepted_header_def res_ensure_def)
    with out show ?thesis unfolding one by simp
  next
    case err
    then have "DeviceTree_read dtb = Some (Some (Inl ()))" using h by (auto simp: DeviceTree_read_def dtb_slice_def accepted_header_def res_ensure_def)
    with err show ?thesis unfolding one by simp
  next
    case (ok es)
    have "\<exists>es. read_mem_rsvmap ?m [] 0 = Some (Inr es)" "\<not> unat (fd_off_mem_rsvmap h) > length dtb" using ok by simp_all
    moreover from DeviceTree_read_accepted [OF h ok] obtain r where "DeviceTree_read dtb = Some r"
        "r = None \<longleftrightarrow> \<not> range_in dtb (fd_off_dt_strings h) (fd_size_dt_strings h) \<or> \<not> range_in dtb (fd_off_dt_struct h) (fd_size_dt_struct h)"
      by blast
    ultimately show ?thesis unfolding one by simp
  qed
qed

section \<open>What is read is a tree that can be written\<close>

lemma children_ok_iff: "children_ok cs \<longleftrightarrow> (\<forall>p\<in>set cs. fdt_name (fst p) \<and> node_ok (snd p))"
  by (induction cs) auto

lemma node_ok_insert:
  "node_ok (DtNode ps cs) \<Longrightarrow> fdt_name k \<Longrightarrow> node_ok (DtNode (btree_insert k v ps) cs)"
  "node_ok (DtNode ps cs) \<Longrightarrow> fdt_name k \<Longrightarrow> node_ok c \<Longrightarrow> node_ok (DtNode ps (btree_insert k c cs))"
  by (auto simp: children_ok_iff list_all_iff dest!: set_btree_insert)

lemma cstring_at_name: "cstring_at b i = Inr s \<Longrightarrow> fdt_name s"
  by (auto simp: cstring_at_def fdt_name_def res_ensure_def Let_def elim!: res_bind_InrE split: if_splits dest: set_takeWhileD)

lemma read_prop_name: "read_prop s b i = Inr (p, j) \<Longrightarrow> fdt_name (fst p)"
  by (auto simp: read_prop_def elim!: res_bind_InrE dest: cstring_at_name)

lemma read_unit_name_name: "read_unit_name b i = Inr (n, j) \<Longrightarrow> fdt_name n"
  by (auto simp: read_unit_name_def elim!: res_bind_InrE dest: cstring_at_name)

text \<open>One pass of the loop, for any reader of the rest that keeps trees well formed.\<close>

lemma read_node_step_ok:
  assumes IH: "\<And>ps cs i n j. f ps cs i = Some (Inr (n, j)) \<Longrightarrow> node_ok (DtNode ps cs) \<Longrightarrow> node_ok n"
    and ok: "node_ok (DtNode ps cs)"
    and ret: "(case read_be_u32 b i of
     Inl e \<Rightarrow> Some (Inl e)
   | Inr ti \<Rightarrow>
       if fst ti = TOK_NOP then f ps cs (snd ti)
       else if fst ti = TOK_PROP then
         (case read_prop s b (snd ti) of
            Inl e \<Rightarrow> Some (Inl e)
          | Inr p \<Rightarrow> f (btree_insert (fst (fst p)) (snd (fst p)) ps) cs (snd p))
       else if fst ti = TOK_BEGIN_NODE then
         (case read_unit_name b (snd ti) of
            Inl e \<Rightarrow> Some (Inl e)
          | Inr n \<Rightarrow> Option.bind (f [] [] (snd n)) (\<lambda>r. case r of
              Inl e \<Rightarrow> Some (Inl e)
            | Inr c \<Rightarrow> f ps (btree_insert (fst n) (fst c) cs) (snd c)))
       else if fst ti = TOK_END_NODE then Some (Inr (DtNode ps cs, snd ti))
       else Some (Inl ())) = Some (Inr (n, j))"
  shows "node_ok n"
proof -
  have p: "node_ok (DtNode (btree_insert (fst (fst p)) v ps) cs)" if "read_prop s b k = Inr p" for k p v
    using node_ok_insert(1) [OF ok] read_prop_name that by (metis prod.collapse)
  have c: "node_ok (DtNode ps (btree_insert (fst m) (fst c) cs))" if "read_unit_name b k = Inr m" "f [] [] l = Some (Inr c)" for k m c l
  proof -
    have "node_ok (fst c)" using IH [of "[]" "[]" l "fst c" "snd c"] that(2) by simp
    then show ?thesis using node_ok_insert(2) [OF ok] read_unit_name_name [of b k "fst m" "snd m"] that(1) by simp
  qed
  show ?thesis using ret ok
    by (auto split: sum.splits if_splits bind_splits intro: IH [OF _ ok] IH [OF _ p] IH [OF _ c])
qed

lemma read_node_ok:
  assumes ret: "read_node s b ps cs i = Some r" and "r = Inr (n, j)" "node_ok (DtNode ps cs)"
  shows "node_ok n"
proof -
  have "\<forall>n j. r = Inr (n, j) \<longrightarrow> node_ok (DtNode ps cs) \<longrightarrow> node_ok n"
  proof (rule read_node.raw_induct [where P = "\<lambda>s b ps cs i r. \<forall>n j. r = Inr (n, j) \<longrightarrow> node_ok (DtNode ps cs) \<longrightarrow> node_ok n", OF _ ret])
    fix f s b ps cs i r
    assume IH: "\<And>s b ps cs i r. f s b ps cs i = Some r \<Longrightarrow> \<forall>n j. r = Inr (n, j) \<longrightarrow> node_ok (DtNode ps cs) \<longrightarrow> node_ok n"
      and eq: "(case read_be_u32 b i of
     Inl e \<Rightarrow> Some (Inl e)
   | Inr ti \<Rightarrow>
       if fst ti = TOK_NOP then f s b ps cs (snd ti)
       else if fst ti = TOK_PROP then
         (case read_prop s b (snd ti) of
            Inl e \<Rightarrow> Some (Inl e)
          | Inr p \<Rightarrow> f s b (btree_insert (fst (fst p)) (snd (fst p)) ps) cs (snd p))
       else if fst ti = TOK_BEGIN_NODE then
         (case read_unit_name b (snd ti) of
            Inl e \<Rightarrow> Some (Inl e)
          | Inr n \<Rightarrow> Option.bind (f s b [] [] (snd n)) (\<lambda>r. case r of
              Inl e \<Rightarrow> Some (Inl e)
            | Inr c \<Rightarrow> f s b ps (btree_insert (fst n) (fst c) cs) (snd c)))
       else if fst ti = TOK_END_NODE then Some (Inr (DtNode ps cs, snd ti))
       else Some (Inl ())) = Some r"
    show "\<forall>n j. r = Inr (n, j) \<longrightarrow> node_ok (DtNode ps cs) \<longrightarrow> node_ok n"
    proof (intro allI impI)
      fix n j assume r: "r = Inr (n, j)" and ok: "node_ok (DtNode ps cs)"
      have "f s b ps cs i = Some (Inr (n, j)) \<Longrightarrow> node_ok (DtNode ps cs) \<Longrightarrow> node_ok n" for ps cs i n j using IH by blast
      from read_node_step_ok [of "f s b", OF this ok eq [unfolded r]] show "node_ok n" .
    qed
  qed
  with assms show ?thesis by blast
qed

lemma read_mem_rsvmap_ok:
  assumes ret: "read_mem_rsvmap b v i = Some r" and "r = Inr es" "list_all reserve_ok v"
  shows "list_all reserve_ok es"
proof -
  have "\<forall>es. r = Inr es \<longrightarrow> list_all reserve_ok v \<longrightarrow> list_all reserve_ok es"
  proof (rule read_mem_rsvmap.raw_induct [where P = "\<lambda>b v i r. \<forall>es. r = Inr es \<longrightarrow> list_all reserve_ok v \<longrightarrow> list_all reserve_ok es", OF _ ret])
    fix f b v i r
    assume IH: "\<And>b v i r. f b v i = Some r \<Longrightarrow> \<forall>es. r = Inr es \<longrightarrow> list_all reserve_ok v \<longrightarrow> list_all reserve_ok es"
      and eq: "(case read_reserve_entry b i of Inl e \<Rightarrow> Some (Inl e)
        | Inr ei \<Rightarrow> if rv_address (fst ei) = 0 \<and> rv_size (fst ei) = 0 then Some (Inr v) else f b (v @ [fst ei]) (snd ei)) = Some r"
    show "\<forall>es. r = Inr es \<longrightarrow> list_all reserve_ok v \<longrightarrow> list_all reserve_ok es"
      using eq by (auto simp: reserve_ok_def split: sum.splits if_splits dest!: IH)
  qed
  with assms show ?thesis by blast
qed

lemma DeviceTree_read_ok:
  assumes "DeviceTree_read dtb = Some (Some (Inr dt))"
  shows "dt_ok dt"
  using assms
  by (auto simp: DeviceTree_read_def read_root_def dt_ok_def split: sum.splits option.splits bind_splits elim!: res_bind_InrE
      intro: read_node_ok read_mem_rsvmap_ok)

end
