(* ===== verification/FdtBindings.thy ===== *)
theory FdtBindings
  imports FdtProps "HOL-Library.Monad_Syntax"
begin

text \<open>
  Building device trees: values and node operations (\<^verbatim>\<open>icecap-fdt/src/bindings.rs\<close>), the nodes of IceCap's devices and of a guest
  (\<^verbatim>\<open>icecap-fdt/bindings/src\<close>), and the build tool that appends them to a tree (\<^verbatim>\<open>hypervisor-fdt-append-devices\<close>). A \<^verbatim>\<open>Value\<close> is its
  bytes; a panic is \<open>None\<close>. The previous value that an insertion answers with is left out: no caller reads it.
\<close>

section \<open>Values and cells\<close>

definition dt_str :: "string \<Rightarrow> u8 list" where
  "dt_str = map of_char"

definition value_str :: "u8 list \<Rightarrow> u8 list" where
  "value_str s = s @ [0]"

definition value_from_iter :: "u8 list list \<Rightarrow> u8 list" where
  "value_from_iter vs = concat vs"

definition value_try_u32 :: "u8 list \<Rightarrow> u32 option" where
  "value_try_u32 v = (if length v \<noteq> 4 then None else Some (from_be_bytes v))"

definition value_try_u64 :: "u8 list \<Rightarrow> u64 option" where
  "value_try_u64 v = (if length v \<noteq> 8 then None else Some (from_be_bytes v))"

record SizeSpec =
  address_cells :: u32
  size_cells :: u32

datatype Cells = Address u64 | Size u64 | Raw32 u32 | Raw64 u64

definition spec_render :: "u32 \<Rightarrow> u64 \<Rightarrow> u8 list option" where
  "spec_render num_cells v = (if num_cells = 1 then Some (be32 (ucast v)) else if num_cells = 2 then Some (be64 v) else None)"

fun spec_cell :: "SizeSpec \<Rightarrow> Cells \<Rightarrow> u8 list option" where
  "spec_cell spec (Address v) = spec_render (address_cells spec) v"
| "spec_cell spec (Size v) = spec_render (size_cells spec) v"
| "spec_cell spec (Raw32 v) = Some (be32 v)"
| "spec_cell spec (Raw64 v) = Some (be64 v)"

section \<open>Nodes\<close>

definition DEFAULT_ADDRESS_CELLS :: u32 where "DEFAULT_ADDRESS_CELLS = 2"
definition DEFAULT_SIZE_CELLS :: u32 where "DEFAULT_SIZE_CELLS = 1"

definition DtNode_new :: DtNode where
  "DtNode_new = DtNode [] []"

definition get_property_u32 :: "u8 list \<Rightarrow> DtNode \<Rightarrow> u32 option" where
  "get_property_u32 name n = Option.bind (map_of (dt_properties n) name) value_try_u32"

definition remove_property :: "u8 list \<Rightarrow> DtNode \<Rightarrow> u8 list option \<times> DtNode" where
  "remove_property name n = (map_of (dt_properties n) name, DtNode (btree_remove name (dt_properties n)) (dt_children n))"

definition set_property :: "u8 list \<Rightarrow> u8 list \<Rightarrow> DtNode \<Rightarrow> DtNode" where
  "set_property name v n = DtNode (btree_insert name v (dt_properties n)) (dt_children n)"

definition set_property_iter :: "u8 list \<Rightarrow> u8 list list \<Rightarrow> DtNode \<Rightarrow> DtNode" where
  "set_property_iter name vs = set_property name (value_from_iter vs)"

definition set_property_cells :: "u8 list \<Rightarrow> SizeSpec \<Rightarrow> Cells list \<Rightarrow> DtNode \<Rightarrow> DtNode option" where
  "set_property_cells name spec vs n = map_option (\<lambda>vs. set_property_iter name vs n) (those (map (spec_cell spec) vs))"

definition set_property_cell :: "u8 list \<Rightarrow> SizeSpec \<Rightarrow> Cells \<Rightarrow> DtNode \<Rightarrow> DtNode option" where
  "set_property_cell name spec v n = map_option (\<lambda>v. set_property name v n) (spec_cell spec v)"

definition set_empty_property :: "u8 list \<Rightarrow> DtNode \<Rightarrow> DtNode" where
  "set_empty_property name = set_property name []"

definition get_child :: "u8 list \<Rightarrow> DtNode \<Rightarrow> DtNode option" where
  "get_child name n = map_of (dt_children n) name"

definition set_child :: "u8 list \<Rightarrow> DtNode \<Rightarrow> DtNode \<Rightarrow> DtNode" where
  "set_child name c n = DtNode (dt_properties n) (btree_insert name c (dt_children n))"

definition set_compatible :: "u8 list \<Rightarrow> DtNode \<Rightarrow> DtNode" where
  "set_compatible v = set_property (dt_str ''compatible'') (value_str v)"

definition set_compatible_iter :: "u8 list list \<Rightarrow> DtNode \<Rightarrow> DtNode" where
  "set_compatible_iter vs = set_property_iter (dt_str ''compatible'') (map value_str vs)"

definition set_address_cells :: "u32 \<Rightarrow> DtNode \<Rightarrow> DtNode" where
  "set_address_cells v = set_property (dt_str ''#address-cells'') (be32 v)"

definition set_size_cells :: "u32 \<Rightarrow> DtNode \<Rightarrow> DtNode" where
  "set_size_cells v = set_property (dt_str ''#size-cells'') (be32 v)"

definition set_size_spec :: "SizeSpec \<Rightarrow> DtNode \<Rightarrow> DtNode" where
  "set_size_spec spec n = set_size_cells (size_cells spec) (set_address_cells (address_cells spec) n)"

definition get_address_cells :: "DtNode \<Rightarrow> u32" where
  "get_address_cells n = (case get_property_u32 (dt_str ''#address-cells'') n of Some v \<Rightarrow> v | None \<Rightarrow> DEFAULT_ADDRESS_CELLS)"

definition get_size_cells :: "DtNode \<Rightarrow> u32" where
  "get_size_cells n = (case get_property_u32 (dt_str ''#size-cells'') n of Some v \<Rightarrow> v | None \<Rightarrow> DEFAULT_SIZE_CELLS)"

definition get_size_spec :: "DtNode \<Rightarrow> SizeSpec" where
  "get_size_spec n = \<lparr>address_cells = get_address_cells n, size_cells = get_size_cells n\<rparr>"

definition set_interrupt_cells :: "u32 \<Rightarrow> DtNode \<Rightarrow> DtNode" where
  "set_interrupt_cells v = set_property (dt_str ''#interrupt-cells'') (be32 v)"

definition set_phandle :: "u32 \<Rightarrow> DtNode \<Rightarrow> DtNode" where
  "set_phandle v = set_property (dt_str ''phandle'') (be32 v)"

text \<open>\<^verbatim>\<open>format!\<close> with \<^verbatim>\<open>{:x}\<close> and \<^verbatim>\<open>{}\<close>: a number to a base.\<close>

definition fmt_digit :: "nat \<Rightarrow> u8" where
  "fmt_digit d = of_nat (if d < 10 then 48 + d else 87 + d)"

fun fmt_base :: "nat \<Rightarrow> nat \<Rightarrow> u8 list" where
  "fmt_base b n = (if n < b \<or> b < 2 then [fmt_digit n] else fmt_base b (n div b) @ [fmt_digit (n mod b)])"

declare fmt_base.simps [simp del]

abbreviation fmt_hex :: "u64 \<Rightarrow> u8 list" where "fmt_hex v \<equiv> fmt_base 16 (unat v)"

section \<open>Devices\<close>

type_synonym usize_range = "u64 \<times> u64"

definition range_len :: "usize_range \<Rightarrow> u64" where
  "range_len r = (if fst r < snd r then snd r - fst r else 0)"

record DtRingBufferSide =
  rs_ctrl :: usize_range
  rs_data :: usize_range

datatype DtKick = Kick_Raw u64 | Kick_Managed "u64 list" u64

record DtRingBuffer =
  drb_read :: DtRingBufferSide
  drb_write :: DtRingBufferSide
  drb_kick :: DtKick

record DtChannel =
  ch_ring_buffer :: DtRingBuffer
  ch_irq :: u32
  ch_name :: "u8 list"
  ch_id :: u32

record DtCon =
  con_ring_buffer :: DtRingBuffer
  con_irq :: u32

record DtNet =
  net_ring_buffer :: DtRingBuffer
  net_mtu :: u32
  net_mac_address :: "u8 list"
  net_irq :: u32

datatype Device = Device_Channel DtChannel | Device_Net DtNet | Device_Con DtCon

definition ring_buffer_set_reg :: "DtRingBuffer \<Rightarrow> SizeSpec \<Rightarrow> DtNode \<Rightarrow> DtNode option" where
  "ring_buffer_set_reg rb spec node = do {
     node \<leftarrow> set_property_cells (dt_str ''reg'') spec
       [Address (fst (rs_ctrl (drb_read rb))), Size (range_len (rs_ctrl (drb_read rb))),
        Address (fst (rs_ctrl (drb_write rb))), Size (range_len (rs_ctrl (drb_write rb))),
        Address (fst (rs_data (drb_read rb))), Size (range_len (rs_data (drb_read rb))),
        Address (fst (rs_data (drb_write rb))), Size (range_len (rs_data (drb_write rb)))] node;
     case drb_kick rb of
       Kick_Raw notification \<Rightarrow>
         Some (set_property (dt_str ''kick-notification'') (be64 notification) (set_property (dt_str ''kick-type'') (value_str (dt_str ''unmanaged'')) node))
     | Kick_Managed endpoints message \<Rightarrow>
         set_property_cells (dt_str ''kick-endpoints'') spec (map Raw64 endpoints)
           (set_property (dt_str ''kick-message'') (be64 message) (set_property (dt_str ''kick-type'') (value_str (dt_str ''managed'')) node)) }"

definition interrupts_value :: "u32 list \<Rightarrow> DtNode \<Rightarrow> DtNode" where
  "interrupts_value vs = set_property_iter (dt_str ''interrupts'') (map be32 vs)"

fun device_node :: "SizeSpec \<Rightarrow> Device \<Rightarrow> DtNode option" where
  "device_node spec (Device_Channel d) =
     ring_buffer_set_reg (ch_ring_buffer d) spec (interrupts_value [0, ch_irq d, 1]
       (set_property (dt_str ''id'') (be32 (ch_id d)) (set_property (dt_str ''channel-name'') (value_str (ch_name d))
         (set_compatible (dt_str ''icecap,channel'') DtNode_new))))"
| "device_node spec (Device_Con d) =
     ring_buffer_set_reg (con_ring_buffer d) spec (interrupts_value [0, con_irq d, 1] (set_compatible (dt_str ''icecap,con'') DtNode_new))"
| "device_node spec (Device_Net d) =
     ring_buffer_set_reg (net_ring_buffer d) spec (interrupts_value [0, net_irq d, 1]
       (set_property (dt_str ''local-mac-address'') (net_mac_address d) (set_property (dt_str ''mtu'') (be32 (net_mtu d))
         (set_compatible (dt_str ''icecap,net'') DtNode_new))))"

fun device_name :: "Device \<Rightarrow> u8 list" where
  "device_name (Device_Channel d) = dt_str ''icecap_channel@'' @ fmt_hex (fst (rs_ctrl (drb_read (ch_ring_buffer d))))"
| "device_name (Device_Con d) = dt_str ''icecap_con@'' @ fmt_hex (fst (rs_ctrl (drb_read (con_ring_buffer d))))"
| "device_name (Device_Net d) = dt_str ''icecap_net@'' @ fmt_hex (fst (rs_ctrl (drb_read (net_ring_buffer d))))"

definition set_root_child :: "u8 list \<Rightarrow> DtNode \<Rightarrow> DeviceTree \<Rightarrow> DeviceTree" where
  "set_root_child name node dt = dt\<lparr>dt_root := set_child name node (dt_root dt)\<rparr>"

definition device_apply :: "Device \<Rightarrow> DeviceTree \<Rightarrow> DeviceTree option" where
  "device_apply d dt = do { node \<leftarrow> device_node (get_size_spec (dt_root dt)) d; Some (set_root_child (device_name d) node dt) }"

text \<open>The node \<^verbatim>\<open>/chosen\<close>.\<close>

record Chosen =
  ch_bootargs :: "u8 list list option"
  ch_initrd :: "usize_range option"
  ch_stdout_path :: "u8 list option"
  ch_kaslr_seed :: "u64 option"

definition set_bootargs :: "u8 list list \<Rightarrow> Chosen \<Rightarrow> Chosen" where "set_bootargs v c = c\<lparr>ch_bootargs := Some v\<rparr>"
definition set_initrd :: "usize_range \<Rightarrow> Chosen \<Rightarrow> Chosen" where "set_initrd v c = c\<lparr>ch_initrd := Some v\<rparr>"
definition set_stdout_path :: "u8 list \<Rightarrow> Chosen \<Rightarrow> Chosen" where "set_stdout_path v c = c\<lparr>ch_stdout_path := Some v\<rparr>"
definition set_kaslr_seed :: "u64 \<Rightarrow> Chosen \<Rightarrow> Chosen" where "set_kaslr_seed v c = c\<lparr>ch_kaslr_seed := Some v\<rparr>"

fun join_spaces :: "u8 list list \<Rightarrow> u8 list" where
  "join_spaces [] = []"
| "join_spaces [s] = s"
| "join_spaces (s # t # ss) = s @ dt_str '' '' @ join_spaces (t # ss)"

definition chosen_node :: "SizeSpec \<Rightarrow> Chosen \<Rightarrow> DtNode option" where
  "chosen_node spec c = do {
     let node = (case ch_bootargs c of None \<Rightarrow> DtNode_new | Some as \<Rightarrow> set_property (dt_str ''bootargs'') (value_str (join_spaces as)) DtNode_new);
     node \<leftarrow> (case ch_initrd c of
         None \<Rightarrow> Some node
       | Some r \<Rightarrow> do {
           s \<leftarrow> spec_render (address_cells spec) (fst r);
           e \<leftarrow> spec_render (address_cells spec) (snd r);
           Some (set_property (dt_str ''linux,initrd-end'') e (set_property (dt_str ''linux,initrd-start'') s node)) });
     let node = (case ch_stdout_path c of None \<Rightarrow> node | Some p \<Rightarrow> set_property (dt_str ''stdout-path'') (value_str p) node);
     Some (case ch_kaslr_seed c of None \<Rightarrow> node | Some v \<Rightarrow> set_property (dt_str ''kaslr-seed'') (be64 v) node) }"

definition chosen_apply :: "Chosen \<Rightarrow> DeviceTree \<Rightarrow> DeviceTree option" where
  "chosen_apply c dt = do { node \<leftarrow> chosen_node (get_size_spec (dt_root dt)) c; Some (set_root_child (dt_str ''chosen'') node dt) }"

text \<open>The node of the resource server, for the host's monitor.\<close>

record DtResourceServer =
  drs_bulk_region :: usize_range
  drs_endpoints :: "u64 list"

definition resource_server_node :: "SizeSpec \<Rightarrow> DtResourceServer \<Rightarrow> DtNode option" where
  "resource_server_node spec rs = do {
     node \<leftarrow> set_property_cells (dt_str ''reg'') spec [Address (fst (drs_bulk_region rs)), Size (range_len (drs_bulk_region rs))]
       (set_compatible (dt_str ''icecap,resource-server'') DtNode_new);
     set_property_cells (dt_str ''endpoints'') spec (map Raw64 (drs_endpoints rs)) node }"

definition resource_server_name :: "DtResourceServer \<Rightarrow> u8 list" where
  "resource_server_name rs = dt_str ''icecap_resource_server@'' @ fmt_hex (fst (drs_bulk_region rs))"

definition resource_server_apply :: "DtResourceServer \<Rightarrow> DeviceTree \<Rightarrow> DeviceTree option" where
  "resource_server_apply rs dt = do {
     node \<leftarrow> resource_server_node (get_size_spec (dt_root dt)) rs; Some (set_root_child (resource_server_name rs) node dt) }"

section \<open>Appending devices to a tree\<close>

record AppendInput =
  ai_chosen :: "Chosen option"
  ai_devices :: "Device list"
  ai_resource_server :: "DtResourceServer option"
  ai_num_cpus :: nat

fun apply_all :: "('a \<Rightarrow> DeviceTree \<Rightarrow> DeviceTree option) \<Rightarrow> 'a list \<Rightarrow> DeviceTree \<Rightarrow> DeviceTree option" where
  "apply_all f [] dt = Some dt"
| "apply_all f (x # xs) dt = do { dt \<leftarrow> f x dt; apply_all f xs dt }"

definition cpu_name :: "nat \<Rightarrow> u8 list" where
  "cpu_name i = dt_str ''cpu@'' @ fmt_base 10 i"

definition add_cpu :: "DtNode \<Rightarrow> nat \<Rightarrow> DtNode \<Rightarrow> DtNode" where
  "add_cpu cpu_0 i cpus = set_child (cpu_name i) (set_property (dt_str ''reg'') (be32 (of_nat i)) cpu_0) cpus"

definition append_cpus :: "nat \<Rightarrow> DeviceTree \<Rightarrow> DeviceTree option" where
  "append_cpus num_cpus dt = do {
     cpus \<leftarrow> get_child (dt_str ''cpus'') (dt_root dt);
     cpu_0 \<leftarrow> get_child (dt_str ''cpu@0'') cpus;
     Some (set_root_child (dt_str ''cpus'') (fold (add_cpu cpu_0) [1..<num_cpus] cpus) dt) }"

definition append_tree :: "AppendInput \<Rightarrow> DeviceTree \<Rightarrow> DeviceTree option" where
  "append_tree inp dt = do {
     dt \<leftarrow> (case ai_chosen inp of None \<Rightarrow> Some dt | Some c \<Rightarrow> chosen_apply c dt);
     dt \<leftarrow> apply_all device_apply (ai_devices inp) dt;
     dt \<leftarrow> (case ai_resource_server inp of None \<Rightarrow> Some dt | Some rs \<Rightarrow> resource_server_apply rs dt);
     append_cpus (ai_num_cpus inp) dt }"

text \<open>The tool on its two inputs, the bytes of the tree and the parsed description; the reader always returns.\<close>

definition append_main :: "AppendInput \<Rightarrow> u8 list \<Rightarrow> u8 list option" where
  "append_main inp dtb = (case DeviceTree_read dtb of
     Some (Some (Inr dt)) \<Rightarrow> map_option DeviceTree_write (append_tree inp dt)
   | _ \<Rightarrow> None)"

section \<open>The tree of a guest\<close>

record GuestConfig =
  gc_cpu_compatible :: "u8 list"
  gc_memory :: usize_range
  gc_gic_paddr_start :: u64

definition guest_cpus :: "u8 list \<Rightarrow> DtNode" where
  "guest_cpus cpu_compatible = set_child (dt_str ''cpu@0'')
     (set_property (dt_str ''reg'') (be32 0) (set_property (dt_str ''device_type'') (value_str (dt_str ''cpu'')) (set_compatible cpu_compatible DtNode_new)))
     (set_size_cells 0 (set_address_cells 1 DtNode_new))"

definition guest_timer :: DtNode where
  "guest_timer = interrupts_value [0x1, 0xd, 0x104, 0x1, 0xe, 0x104, 0x1, 0xb, 0x104, 0x1, 0xa, 0x104]
     (set_empty_property (dt_str ''always-on'') (set_compatible_iter [dt_str ''arm,armv8-timer'', dt_str ''arm,armv7-timer''] DtNode_new))"

definition guest_gic :: "SizeSpec \<Rightarrow> u64 \<Rightarrow> DtNode option" where
  "guest_gic spec paddr = set_property_cells (dt_str ''reg'') spec
     [Address paddr, Size 0x1000, Address (paddr + 0x1000), Size 0x2000, Address (paddr + 0x3000), Size 0x2000, Address (paddr + 0x5000), Size 0x2000]
     (interrupts_value [0x1, 0x9, 0xf04] (set_interrupt_cells 3 (set_empty_property (dt_str ''interrupt-controller'')
       (set_phandle 1 (set_compatible (dt_str ''arm,gic-400'') DtNode_new)))))"

definition GuestConfig_render :: "GuestConfig \<Rightarrow> DeviceTree option" where
  "GuestConfig_render c = do {
     let spec = \<lparr>address_cells = 2, size_cells = 2\<rparr>;
     let root = set_property (dt_str ''interrupt-parent'') (be32 1) (set_size_spec spec (set_compatible (dt_str ''linux,dummy-virt'') DtNode_new));
     memory \<leftarrow> set_property_cells (dt_str ''reg'') spec [Address (fst (gc_memory c)), Size (range_len (gc_memory c))]
       (set_property (dt_str ''device_type'') (value_str (dt_str ''memory'')) DtNode_new);
     let root = set_child (dt_str ''memory@'' @ fmt_hex (fst (gc_memory c))) memory root;
     let root = set_child (dt_str ''timer'') guest_timer (set_child (dt_str ''cpus'') (guest_cpus (gc_cpu_compatible c)) root);
     gic \<leftarrow> guest_gic spec (gc_gic_paddr_start c);
     let root = set_child (dt_str ''gic400@'' @ fmt_hex (gc_gic_paddr_start c)) gic root;
     Some \<lparr>dt_mem_rsvmap = [], dt_root = root, dt_boot_cpuid_phys = 0\<rparr> }"

end
