(* ===== verification/FdtBindingsProps.thy ===== *)
theory FdtBindingsProps
  imports FdtBindings
begin

text \<open>
  The build tool end to end: the tree that is read back from its output is the tree it was given, with the nodes it was asked for and
  nothing else changed. What is built from well formed parts is well formed, so that the writer's round trip applies to it.
\<close>

section \<open>Well formed nodes\<close>

lemma dt_str_simps [simp]: "dt_str [] = []" "dt_str (c # s) = of_char c # dt_str s"
  by (simp_all add: dt_str_def)

definition plain :: "u8 list \<Rightarrow> bool" where
  "plain s \<longleftrightarrow> (\<forall>c\<in>set s. 0 < c \<and> c \<le> 0x7F)"

lemma plain_simps [simp]: "plain []" "plain (c # s) \<longleftrightarrow> 0 < c \<and> c \<le> 0x7F \<and> plain s" "plain (s @ t) \<longleftrightarrow> plain s \<and> plain t"
  by (auto simp: plain_def)

lemma plain_name: "plain s \<Longrightarrow> fdt_name s"
  by (induction s) (auto simp: fdt_name_def lead_len_def)

lemma plain_fmt_digit: "d < 16 \<Longrightarrow> plain [fmt_digit d]"
  by (auto simp: fmt_digit_def word_less_nat_alt word_le_nat_alt unat_of_nat)

lemma plain_fmt_base: "2 \<le> b \<Longrightarrow> b \<le> 16 \<Longrightarrow> plain (fmt_base b n)"
proof (induction b n rule: fmt_base.induct)
  case (1 b n)
  have "n mod b < 16" using 1 mod_less_divisor [of b n] by linarith
  with 1 plain_fmt_digit show ?case by (subst fmt_base.simps) (auto simp del: plain_simps(2))
qed

lemma node_ok_new [simp]: "node_ok DtNode_new"
  by (simp add: DtNode_new_def)

lemma set_property_ok [simp]: "node_ok n \<Longrightarrow> plain k \<Longrightarrow> node_ok (set_property k v n)"
  by (cases n) (simp add: set_property_def node_ok_insert(1) plain_name del: node_ok.simps)

lemma set_child_ok: "node_ok n \<Longrightarrow> plain k \<Longrightarrow> node_ok c \<Longrightarrow> node_ok (set_child k c n)"
  by (cases n) (simp add: set_child_def node_ok_insert(2) plain_name del: node_ok.simps)

lemma set_property_cells_ok: "set_property_cells k spec vs n = Some n' \<Longrightarrow> node_ok n \<Longrightarrow> plain k \<Longrightarrow> node_ok n'"
  by (auto simp: set_property_cells_def set_property_iter_def)

lemmas node_builders = set_compatible_def interrupts_value_def set_property_iter_def

lemma ring_buffer_set_reg_ok: "ring_buffer_set_reg rb spec n = Some n' \<Longrightarrow> node_ok n \<Longrightarrow> node_ok n'"
  by (auto simp: ring_buffer_set_reg_def split: Option.bind_splits DtKick.splits dest!: set_property_cells_ok)

lemma device_node_ok: "device_node spec d = Some n \<Longrightarrow> node_ok n"
  by (cases d) (auto simp: node_builders dest!: ring_buffer_set_reg_ok)

lemma chosen_node_ok: "chosen_node spec c = Some n \<Longrightarrow> node_ok n"
  by (auto simp: chosen_node_def Let_def split: Option.bind_splits option.splits)

lemma resource_server_node_ok: "resource_server_node spec rs = Some n \<Longrightarrow> node_ok n"
  by (auto simp: resource_server_node_def node_builders split: Option.bind_splits dest!: set_property_cells_ok)

lemma plain_names:
  "plain (device_name d)" "plain (resource_server_name rs)" "plain (cpu_name i)"
  by (cases d) (simp_all add: resource_server_name_def cpu_name_def plain_fmt_base)

text \<open>The tree of a guest is built for every configuration, and can be written.\<close>

lemma guest_render_ok: "\<exists>dt. GuestConfig_render c = Some dt \<and> dt_ok dt"
  by (auto simp: GuestConfig_render_def Let_def guest_gic_def set_property_cells_def spec_render_def node_builders guest_timer_def guest_cpus_def dt_ok_def
      set_compatible_iter_def set_empty_property_def set_phandle_def set_interrupt_cells_def set_size_spec_def set_size_cells_def set_address_cells_def
      plain_fmt_base set_child_ok)

section \<open>What a step keeps\<close>

text \<open>\<open>adds ks dt dt'\<close>: only children of the root with names in \<open>ks\<close> have changed, and a well formed tree stays one.\<close>

definition adds :: "u8 list set \<Rightarrow> DeviceTree \<Rightarrow> DeviceTree \<Rightarrow> bool" where
  "adds ks dt dt' \<longleftrightarrow> dt_mem_rsvmap dt' = dt_mem_rsvmap dt \<and> dt_boot_cpuid_phys dt' = dt_boot_cpuid_phys dt \<and>
     dt_properties (dt_root dt') = dt_properties (dt_root dt) \<and>
     (dt_ok dt \<longrightarrow> dt_ok dt' \<and> (\<forall>k. k \<notin> ks \<longrightarrow> get_child k (dt_root dt') = get_child k (dt_root dt)))"

lemma adds_refl [simp]: "adds ks dt dt"
  by (simp add: adds_def)

lemma adds_trans: "adds ks a b \<Longrightarrow> adds ks' b c \<Longrightarrow> ks \<union> ks' \<subseteq> ks'' \<Longrightarrow> adds ks'' a c"
  unfolding adds_def by (metis UnCI subsetD)

lemma adds_size_spec: "adds ks dt dt' \<Longrightarrow> get_size_spec (dt_root dt') = get_size_spec (dt_root dt)"
  by (simp add: adds_def get_size_spec_def get_address_cells_def get_size_cells_def get_property_u32_def)

lemma dt_ok_children: "dt_ok dt \<Longrightarrow> btree_ok (dt_children (dt_root dt))"
  by (cases "dt_root dt") (simp add: dt_ok_def)

lemma get_set_child: "btree_ok (dt_children n) \<Longrightarrow> get_child k (set_child k' c n) = (if k = k' then Some c else get_child k n)"
  by (simp add: get_child_def set_child_def)

lemma set_root_child_adds: "plain k \<Longrightarrow> node_ok c \<Longrightarrow> adds {k} dt (set_root_child k c dt)"
  using dt_ok_children by (auto simp: adds_def set_root_child_def get_set_child dt_ok_def set_child_ok) (simp add: set_child_def)

lemma get_set_root_child: "dt_ok dt \<Longrightarrow> get_child k (dt_root (set_root_child k c dt)) = Some c"
  by (simp add: set_root_child_def get_set_child dt_ok_children)

lemma device_apply_adds:
  assumes "device_apply d dt = Some dt'"
  shows "adds {device_name d} dt dt'" and "dt_ok dt \<Longrightarrow> get_child (device_name d) (dt_root dt') = device_node (get_size_spec (dt_root dt)) d"
  using assms by (auto simp: device_apply_def get_set_root_child split: Option.bind_splits intro: set_root_child_adds plain_names dest: device_node_ok)

lemma apply_devices:
  assumes "apply_all device_apply ds dt = Some dt'"
  shows "adds (device_name ` set ds) dt dt' \<and>
    (dt_ok dt \<longrightarrow> distinct (map device_name ds) \<longrightarrow>
      (\<forall>d\<in>set ds. get_child (device_name d) (dt_root dt') = device_node (get_size_spec (dt_root dt)) d))"
  using assms
proof (induction ds arbitrary: dt)
  case (Cons d ds)
  then obtain dt1 where d: "device_apply d dt = Some dt1" and "apply_all device_apply ds dt1 = Some dt'" by (auto split: Option.bind_splits)
  note ds = Cons.IH [OF this(2)]
  note a = device_apply_adds [OF d]
  have "adds (device_name ` set (d # ds)) dt dt'" using a(1) ds by (auto intro: adds_trans)
  moreover have "get_child (device_name d') (dt_root dt') = device_node (get_size_spec (dt_root dt)) d'"
    if "dt_ok dt" "distinct (map device_name (d # ds))" "d' \<in> set (d # ds)" for d'
  proof -
    have "dt_ok dt1" using a(1) that(1) by (simp add: adds_def)
    with ds a that adds_size_spec [OF a(1)] show ?thesis by (cases "d' = d") (auto simp: adds_def)
  qed
  ultimately show ?case by blast
qed simp

section \<open>Processors\<close>

lemma fmt_digit_inj: "d < 16 \<Longrightarrow> e < 16 \<Longrightarrow> fmt_digit d = fmt_digit e \<Longrightarrow> d = e"
  by (auto simp: fmt_digit_def word_unat_eq_iff unat_of_nat split: if_splits)

lemma fmt_base_inj:
  assumes "2 \<le> b" "b \<le> 16" "fmt_base b m = fmt_base b n"
  shows "m = n"
  using assms(3)
proof (induction m arbitrary: n rule: less_induct)
  case (less m)
  have len: "0 < length (fmt_base b k)" for k by (subst fmt_base.simps) simp
  have last: "last (fmt_base b k) = fmt_digit (k mod b)" for k using assms(1) by (subst fmt_base.simps) simp
  have l: "m mod b = n mod b"
  proof (rule fmt_digit_inj)
    show "m mod b < 16" "n mod b < 16" using assms(1,2) mod_less_divisor [of b m] mod_less_divisor [of b n] by linarith+
    show "fmt_digit (m mod b) = fmt_digit (n mod b)" using less.prems last [of m] last [of n] by simp
  qed
  have bl: "butlast (fmt_base b k) = (if k < b then [] else fmt_base b (k div b))" for k using assms(1) by (subst fmt_base.simps) simp
  show ?case
  proof (cases "m < b")
    case True
    then have "n < b" using less.prems bl [of m] bl [of n] len [of "n div b"] by (auto split: if_splits)
    with True l show ?thesis by simp
  next
    case False
    then have "\<not> n < b" using less.prems bl [of m] bl [of n] len [of "m div b"] by (auto split: if_splits)
    moreover have "m div b < m" using False assms(1) by simp
    moreover have "fmt_base b (m div b) = fmt_base b (n div b)" using less.prems bl [of m] bl [of n] False calculation(1) by simp
    ultimately have "m div b = n div b" using less.IH by blast
    with l show ?thesis by (metis mult_div_mod_eq)
  qed
qed

lemma cpu_name_inj: "cpu_name i = cpu_name j \<Longrightarrow> i = j"
  using fmt_base_inj [of 10 i j] by (simp add: cpu_name_def)

definition has_cpus :: "DtNode \<Rightarrow> nat \<Rightarrow> DtNode \<Rightarrow> DtNode \<Rightarrow> bool" where
  "has_cpus cpu_0 n cpus cpus' \<longleftrightarrow> dt_properties cpus' = dt_properties cpus \<and>
     (\<forall>i\<in>{1..<n}. get_child (cpu_name i) cpus' = Some (set_property (dt_str ''reg'') (be32 (of_nat i)) cpu_0)) \<and>
     (\<forall>k. k \<notin> cpu_name ` {1..<n} \<longrightarrow> get_child k cpus' = get_child k cpus)"

lemma node_ok_children: "node_ok n \<Longrightarrow> btree_ok (dt_children n)"
  by (cases n) simp

lemma get_child_ok: "node_ok n \<Longrightarrow> get_child k n = Some c \<Longrightarrow> node_ok c"
  by (cases n) (fastforce simp: get_child_def children_ok_iff dest: map_of_SomeD)

lemma add_cpu_has:
  assumes c: "has_cpus cpu_0 n cpus c" and ok: "node_ok c" "node_ok cpu_0" and n: "1 \<le> n"
  shows "node_ok (add_cpu cpu_0 n c)" "has_cpus cpu_0 (Suc n) cpus (add_cpu cpu_0 n c)"
proof -
  show "node_ok (add_cpu cpu_0 n c)" using ok by (simp add: add_cpu_def set_child_ok plain_names)
  have g: "get_child k (add_cpu cpu_0 n c) = (if k = cpu_name n then Some (set_property (dt_str ''reg'') (be32 (of_nat n)) cpu_0) else get_child k c)" for k
    using ok by (simp add: add_cpu_def get_set_child node_ok_children)
  have p: "dt_properties (add_cpu cpu_0 n c) = dt_properties c" by (simp add: add_cpu_def set_child_def)
  have s: "{1..<Suc n} = insert n {1..<n}" using n by auto
  show "has_cpus cpu_0 (Suc n) cpus (add_cpu cpu_0 n c)"
    using c cpu_name_inj unfolding has_cpus_def s g p by (auto simp del: dt_str_simps)
qed

lemma add_cpus:
  assumes "node_ok cpus" "node_ok cpu_0"
  shows "node_ok (fold (add_cpu cpu_0) [1..<n] cpus) \<and> has_cpus cpu_0 n cpus (fold (add_cpu cpu_0) [1..<n] cpus)"
proof (induction n)
  case (Suc n)
  show ?case
  proof (cases "1 \<le> n")
    case True
    with add_cpu_has [OF conjunct2 [OF Suc] conjunct1 [OF Suc] assms(2)] show ?thesis by simp
  qed (use assms in \<open>simp add: has_cpus_def\<close>)
qed (use assms in \<open>simp add: has_cpus_def\<close>)

lemma append_cpus_adds:
  assumes "append_cpus n dt = Some dt'" "dt_ok dt"
  shows "adds {dt_str ''cpus''} dt dt'"
    and "\<exists>cpus cpu_0 cpus'. get_child (dt_str ''cpus'') (dt_root dt) = Some cpus \<and> get_child (dt_str ''cpu@0'') cpus = Some cpu_0 \<and>
      get_child (dt_str ''cpus'') (dt_root dt') = Some cpus' \<and> has_cpus cpu_0 n cpus cpus'"
proof -
  obtain cpus cpu_0 where c: "get_child (dt_str ''cpus'') (dt_root dt) = Some cpus" "get_child (dt_str ''cpu@0'') cpus = Some cpu_0"
    and dt': "dt' = set_root_child (dt_str ''cpus'') (fold (add_cpu cpu_0) [1..<n] cpus) dt"
    using assms(1) by (auto simp: append_cpus_def split: Option.bind_splits)
  have ok: "node_ok cpus" using get_child_ok [OF _ c(1)] assms(2) by (simp add: dt_ok_def)
  note a = add_cpus [OF ok get_child_ok [OF ok c(2)], of n]
  show "adds {dt_str ''cpus''} dt dt'" using a dt' set_root_child_adds by simp
  show "\<exists>cpus cpu_0 cpus'. get_child (dt_str ''cpus'') (dt_root dt) = Some cpus \<and> get_child (dt_str ''cpu@0'') cpus = Some cpu_0 \<and>
      get_child (dt_str ''cpus'') (dt_root dt') = Some cpus' \<and> has_cpus cpu_0 n cpus cpus'"
    using a c dt' get_set_root_child [OF assms(2)] by blast
qed

section \<open>The tool\<close>

definition appended :: "AppendInput \<Rightarrow> u8 list set" where
  "appended inp = (if ai_chosen inp = None then {} else {dt_str ''chosen''}) \<union> device_name ` set (ai_devices inp) \<union>
     (case ai_resource_server inp of None \<Rightarrow> {} | Some rs \<Rightarrow> {resource_server_name rs})"

lemma names_apart:
  "device_name d \<noteq> dt_str ''cpus''" "device_name d \<noteq> resource_server_name rs" "resource_server_name rs \<noteq> dt_str ''cpus''"
  by (cases d; simp add: resource_server_name_def)+

lemma cpus_not_appended: "dt_str ''cpus'' \<notin> appended inp"
proof -
  have "dt_str ''cpus'' \<noteq> dt_str ''chosen''" by simp
  with names_apart show ?thesis by (auto simp: appended_def split: option.splits simp del: dt_str_simps dest: sym)
qed

lemma chosen_apply_adds: "chosen_apply c dt = Some dt' \<Longrightarrow> adds {dt_str ''chosen''} dt dt'"
  by (auto simp: chosen_apply_def split: Option.bind_splits intro!: set_root_child_adds dest: chosen_node_ok)

lemma resource_server_apply_adds: "resource_server_apply rs dt = Some dt' \<Longrightarrow> adds {resource_server_name rs} dt dt'"
  by (auto simp: resource_server_apply_def split: Option.bind_splits intro!: set_root_child_adds plain_names dest: resource_server_node_ok)

text \<open>The steps before the processors.\<close>

lemma append_nodes:
  assumes "(case ai_chosen inp of None \<Rightarrow> Some dt | Some c \<Rightarrow> chosen_apply c dt) = Some dt1"
    and "apply_all device_apply (ai_devices inp) dt1 = Some dt2"
    and "(case ai_resource_server inp of None \<Rightarrow> Some dt2 | Some rs \<Rightarrow> resource_server_apply rs dt2) = Some dt3"
    and ok: "dt_ok dt"
  shows "adds (appended inp) dt dt3"
    and "distinct (map device_name (ai_devices inp)) \<Longrightarrow> d \<in> set (ai_devices inp) \<Longrightarrow>
      get_child (device_name d) (dt_root dt3) = device_node (get_size_spec (dt_root dt)) d"
proof -
  let ?c = "if ai_chosen inp = None then {} else {dt_str ''chosen''}"
    and ?r = "case ai_resource_server inp of None \<Rightarrow> {} | Some rs \<Rightarrow> {resource_server_name rs}"
  have a: "adds ?c dt dt1" using assms(1) by (auto split: option.splits dest: chosen_apply_adds)
  note d = apply_devices [OF assms(2)]
  have r: "adds ?r dt2 dt3" using assms(3) by (auto split: option.splits dest: resource_server_apply_adds)
  have "adds (?c \<union> device_name ` set (ai_devices inp)) dt dt2" using adds_trans [OF a] d by blast
  from adds_trans [OF this r subset_refl] show "adds (appended inp) dt dt3" by (simp only: appended_def)
  assume "distinct (map device_name (ai_devices inp))" "d \<in> set (ai_devices inp)"
  moreover have "dt_ok dt1" "dt_ok dt2" using a d ok by (auto simp: adds_def)
  moreover have "device_name d \<notin> ?r" using names_apart by (auto split: option.splits)
  ultimately show "get_child (device_name d) (dt_root dt3) = device_node (get_size_spec (dt_root dt)) d"
    using d r adds_size_spec [OF a] by (auto simp: adds_def)
qed

lemma append_tree_spec:
  assumes "append_tree inp dt = Some dt'" and ok: "dt_ok dt"
  shows "adds (insert (dt_str ''cpus'') (appended inp)) dt dt'"
    and "\<exists>cpus cpu_0 cpus'. get_child (dt_str ''cpus'') (dt_root dt) = Some cpus \<and> get_child (dt_str ''cpu@0'') cpus = Some cpu_0 \<and>
      get_child (dt_str ''cpus'') (dt_root dt') = Some cpus' \<and> has_cpus cpu_0 (ai_num_cpus inp) cpus cpus'"
    and "distinct (map device_name (ai_devices inp)) \<Longrightarrow> d \<in> set (ai_devices inp) \<Longrightarrow>
      get_child (device_name d) (dt_root dt') = device_node (get_size_spec (dt_root dt)) d"
proof -
  obtain dt1 dt2 dt3 where s: "(case ai_chosen inp of None \<Rightarrow> Some dt | Some c \<Rightarrow> chosen_apply c dt) = Some dt1"
      "apply_all device_apply (ai_devices inp) dt1 = Some dt2"
      "(case ai_resource_server inp of None \<Rightarrow> Some dt2 | Some rs \<Rightarrow> resource_server_apply rs dt2) = Some dt3"
    and c: "append_cpus (ai_num_cpus inp) dt3 = Some dt'"
    using assms(1) by (auto simp: append_tree_def split: Option.bind_splits)
  note n = append_nodes [OF s ok]
  have ok3: "dt_ok dt3" using n(1) ok by (simp add: adds_def)
  note p = append_cpus_adds [OF c ok3]
  show "adds (insert (dt_str ''cpus'') (appended inp)) dt dt'" using adds_trans [OF n(1) p(1)] by blast
  have "get_child (dt_str ''cpus'') (dt_root dt3) = get_child (dt_str ''cpus'') (dt_root dt)" using n(1) ok cpus_not_appended by (simp add: adds_def)
  with p(2) show "\<exists>cpus cpu_0 cpus'. get_child (dt_str ''cpus'') (dt_root dt) = Some cpus \<and> get_child (dt_str ''cpu@0'') cpus = Some cpu_0 \<and>
      get_child (dt_str ''cpus'') (dt_root dt') = Some cpus' \<and> has_cpus cpu_0 (ai_num_cpus inp) cpus cpus'" by simp
  assume "distinct (map device_name (ai_devices inp))" "d \<in> set (ai_devices inp)"
  then show "get_child (device_name d) (dt_root dt') = device_node (get_size_spec (dt_root dt)) d"
    using n(2) p(1) ok3 names_apart(1) by (simp add: adds_def)
qed

text \<open>
  C25. The build tool, end to end: whenever it writes a tree below 4 GiB, its input was a valid tree, and what is read back from its output
  has the same reserved ranges, boot processor and root properties, every child that was not asked for unchanged, the node of every
  device that was asked for (device names being distinct), and in \<^verbatim>\<open>/cpus\<close> a copy of \<^verbatim>\<open>cpu@0\<close> with its own \<^verbatim>\<open>reg\<close> for each further processor.
\<close>

theorem append_devices_correct:
  assumes "append_main inp dtb = Some out" and "length out < 2 ^ 32"
  shows "\<exists>dt dt' cpus cpu_0 cpus'. DeviceTree_read dtb = Some (Some (Inr dt)) \<and> DeviceTree_read out = Some (Some (Inr dt')) \<and>
    dt_mem_rsvmap dt' = dt_mem_rsvmap dt \<and> dt_boot_cpuid_phys dt' = dt_boot_cpuid_phys dt \<and>
    dt_properties (dt_root dt') = dt_properties (dt_root dt) \<and>
    (\<forall>k. k \<notin> insert (dt_str ''cpus'') (appended inp) \<longrightarrow> get_child k (dt_root dt') = get_child k (dt_root dt)) \<and>
    (distinct (map device_name (ai_devices inp)) \<longrightarrow>
      (\<forall>d\<in>set (ai_devices inp). get_child (device_name d) (dt_root dt') = device_node (get_size_spec (dt_root dt)) d)) \<and>
    get_child (dt_str ''cpus'') (dt_root dt) = Some cpus \<and> get_child (dt_str ''cpu@0'') cpus = Some cpu_0 \<and>
    get_child (dt_str ''cpus'') (dt_root dt') = Some cpus' \<and> dt_properties cpus' = dt_properties cpus \<and>
    (\<forall>i\<in>{1..<ai_num_cpus inp}. get_child (cpu_name i) cpus' = Some (set_property (dt_str ''reg'') (be32 (of_nat i)) cpu_0)) \<and>
    (\<forall>k. k \<notin> cpu_name ` {1..<ai_num_cpus inp} \<longrightarrow> get_child k cpus' = get_child k cpus)"
proof -
  obtain dt dt' where r: "DeviceTree_read dtb = Some (Some (Inr dt))" and t: "append_tree inp dt = Some dt'" and o: "out = DeviceTree_write dt'"
    using assms(1) by (auto simp: append_main_def split: option.splits sum.splits)
  have ok: "dt_ok dt" using r by (rule DeviceTree_read_ok)
  note s = append_tree_spec [OF t ok]
  have "dt_ok dt'" using s(1) ok by (simp add: adds_def)
  then have "DeviceTree_read out = Some (Some (Inr dt'))" using read_DeviceTree_write assms(2) o by simp
  moreover have "\<forall>k. k \<notin> insert (dt_str ''cpus'') (appended inp) \<longrightarrow> get_child k (dt_root dt') = get_child k (dt_root dt)"
    using s(1) ok unfolding adds_def by blast
  moreover have "distinct (map device_name (ai_devices inp)) \<longrightarrow>
      (\<forall>d\<in>set (ai_devices inp). get_child (device_name d) (dt_root dt') = device_node (get_size_spec (dt_root dt)) d)"
    using s(3) by blast
  moreover have "dt_mem_rsvmap dt' = dt_mem_rsvmap dt" "dt_boot_cpuid_phys dt' = dt_boot_cpuid_phys dt"
      "dt_properties (dt_root dt') = dt_properties (dt_root dt)" using s(1) by (simp_all add: adds_def)
  moreover note s(2) [unfolded has_cpus_def] r
  ultimately show ?thesis by blast
qed

text \<open>A tree with one processor, to which a console and a second processor are appended.\<close>

definition ex_cpus :: DeviceTree where
  "ex_cpus = \<lparr>dt_mem_rsvmap = [], dt_root = DtNode [] [(dt_str ''cpus'', DtNode [] [(dt_str ''cpu@0'', DtNode [] [])])], dt_boot_cpuid_phys = 0\<rparr>"

definition ex_append :: AppendInput where
  "ex_append = \<lparr>ai_chosen = None, ai_devices = [Device_Con \<lparr>con_ring_buffer =
     \<lparr>drb_read = \<lparr>rs_ctrl = (0x10, 0x20), rs_data = (0x20, 0x30)\<rparr>, drb_write = \<lparr>rs_ctrl = (0x30, 0x40), rs_data = (0x40, 0x50)\<rparr>, drb_kick = Kick_Raw 7\<rparr>,
     con_irq = 5\<rparr>], ai_resource_server = None, ai_num_cpus = 2\<rparr>"

lemma align_up_4_le: "align_up x 4 \<le> x + 3"
proof (cases "x = 0")
  case False
  have "0 \<le> int (x - 1) AND 3" by simp
  with plus_and_or [of "int (x - 1)" 3] have "int (x - 1) OR 3 \<le> int (x - 1) + 3" by linarith
  moreover have "int ((x - 1) OR 3) = int (x - 1) OR 3" by (simp add: of_nat_or_eq)
  ultimately have "(x - 1) OR 3 \<le> (x - 1) + 3" by linarith
  with False show ?thesis by (simp add: align_up_def)
qed (simp add: align_up_def)

lemma length_DeviceTree_write_le:
  "length (DeviceTree_write dt) \<le> 50 + length (write_mem_rsvmap (dt_mem_rsvmap dt)) + length (snd (write_node [] (dt_root dt) ([], []))) + length (fst (write_node [] (dt_root dt) ([], [])))"
proof -
  let ?a = "40 + length (write_mem_rsvmap (dt_mem_rsvmap dt))" and ?st = "write_node [] (dt_root dt) ([], [])"
  have "length (DeviceTree_write dt) = align_up (align_up ?a 4 + (length (snd ?st) + 4)) 4 + length (fst ?st)"
  proof -
    have "40 \<le> align_up (align_up ?a 4 + (length (snd ?st) + 4)) 4"
      using align_up_ge [of ?a 4] align_up_ge [of "align_up ?a 4 + (length (snd ?st) + 4)" 4] by linarith
    then show ?thesis by (simp add: DeviceTree_write_def Let_def split_beta FDT_HEADER_SIZE_def align_up_def [of 40])
  qed
  then show ?thesis using align_up_4_le [of ?a] align_up_4_le [of "align_up ?a 4 + (length (snd ?st) + 4)"] by linarith
qed

lemmas flatten_simps = write_prop_eq begin_node_eq write_mem_rsvmap_def align_up_def

lemma ex_cpus_ok: "dt_ok ex_cpus" "length (DeviceTree_write ex_cpus) < 2 ^ 32"
  using length_DeviceTree_write_le [of ex_cpus] by (simp_all add: dt_ok_def ex_cpus_def fdt_name_def lead_len_def flatten_simps)

lemma ex_append_tree: "\<exists>dt. append_tree ex_append ex_cpus = Some dt \<and> length (DeviceTree_write dt) < 2 ^ 32"
proof -
  have "get_size_spec (dt_root ex_cpus) = \<lparr>address_cells = 2, size_cells = 1\<rparr>"
    by (simp add: ex_cpus_def get_size_spec_def get_address_cells_def get_size_cells_def get_property_u32_def DEFAULT_ADDRESS_CELLS_def DEFAULT_SIZE_CELLS_def)
  note spec = this [unfolded ex_cpus_def, simplified]
  have "fmt_base 16 16 = [49, 48]" "fmt_base 10 (Suc 0) = [49]" by (simp_all add: fmt_base.simps fmt_digit_def)
  moreover have "[1..<2] = [Suc 0]" by (simp add: upt_rec)
  ultimately show ?thesis
    by (simp add: append_tree_def ex_append_def device_apply_def spec ring_buffer_set_reg_def set_property_cells_def spec_render_def node_builders
        value_from_iter_def value_str_def set_property_def DtNode_new_def range_len_def append_cpus_def set_root_child_def ex_cpus_def set_child_def
        get_child_def add_cpu_def cpu_name_def)
      (rule le_less_trans [OF length_DeviceTree_write_le], simp add: flatten_simps)
qed

theorem append_devices_correct_witness:
  "\<exists>dtb out dt' cpus'. append_main ex_append dtb = Some out \<and> length out < 2 ^ 32 \<and> DeviceTree_read out = Some (Some (Inr dt')) \<and>
     get_child (dt_str ''cpus'') (dt_root dt') = Some cpus' \<and> get_child (cpu_name 1) cpus' \<noteq> None"
proof -
  obtain dt where dt: "append_tree ex_append ex_cpus = Some dt" "length (DeviceTree_write dt) < 2 ^ 32" using ex_append_tree by blast
  let ?dtb = "DeviceTree_write ex_cpus"
  have m: "append_main ex_append ?dtb = Some (DeviceTree_write dt)"
    using dt(1) read_DeviceTree_write [OF ex_cpus_ok] by (simp add: append_main_def)
  from append_devices_correct [OF m dt(2)] obtain dt' cpus' cpu_0 where
    "DeviceTree_read (DeviceTree_write dt) = Some (Some (Inr dt'))" "get_child (dt_str ''cpus'') (dt_root dt') = Some cpus'"
    "\<forall>i\<in>{1..<ai_num_cpus ex_append}. get_child (cpu_name i) cpus' = Some (set_property (dt_str ''reg'') (be32 (of_nat i)) cpu_0)" by blast
  moreover from this(3) have "get_child (cpu_name 1) cpus' \<noteq> None" by (simp add: ex_append_def)
  ultimately show ?thesis using m dt(2) by blast
qed

end
