(* ===== verification/Spec2Isabelle.thy ===== *)
theory Spec2Isabelle
  imports VmmProps RingBufferLink EventServerReach AllocatorRun RealizerProps ResourceServerRun TimerDrivers SerialServerProps Sync HostProps FdtBindingsProps
begin

text \<open>
  IceCap is a hypervisor of untrusted hosts and confidential realms, built of small components on the seL4 kernel.
  This development models the components written in Rust that carry its logic, as HOL functions read off the
  source, and proves what they promise each other.

  \<^bold>\<open>The parts and how they interact.\<close> A \<^emph>\<open>host\<close> describes a realm to the \<^emph>\<open>resource server\<close>, which decodes the
  description and lets the \<^emph>\<open>realizer\<close> build the kernel objects of the realm out of untyped memory, handed out by
  its \<^emph>\<open>allocator\<close>; frames are filled with content whose digest the description gives. The resource server then
  lends physical nodes to the virtual nodes of realms. In every virtual machine a \<^emph>\<open>virtual machine monitor\<close> emulates
  the interrupt controller and PSCI. Components signal each other through the \<^emph>\<open>event server\<close>, whose bitfields the
  monitors turn into virtual interrupts, and exchange data through \<^emph>\<open>ring buffers\<close> in shared memory. A \<^emph>\<open>timer server\<close> and a
  \<^emph>\<open>serial server\<close> share the devices, and servers with a thread per node share their state under a \<^emph>\<open>mutex\<close>.

  \<^bold>\<open>Conventions\<close> (theory \<open>Prelude\<close>). A panic is \<open>None\<close>, an error \<open>Inl\<close>; a method returns its result with the new
  state, and an error keeps the writes made before it. The components are built without overflow checks, so
  arithmetic wraps: words have their width, and \<^verbatim>\<open>usize\<close> values that are natural numbers go through \<open>usize_add\<close>,
  \<open>usize_sub\<close> and \<open>usize_mul\<close>. \<^verbatim>\<open>BTreeMap\<close>s that are iterated are sorted association lists (theory \<open>BTree\<close>), those that
  are not are maps. The kernel, devices, SHA-256 and the \<^verbatim>\<open>postcard\<close> encoders are parameters, records of functions
  over an arbitrary world.

  \<^bold>\<open>Interrupt controller\<close> (\<^verbatim>\<open>framework/vmm/gic\<close>, \<^verbatim>\<open>framework/helpers/biterate\<close>). \<open>Biterate\<close>: iteration over set bits.
  \<open>GicRegisters\<close>: the register map. \<open>GicDistributor\<close>, \<open>GicLines\<close>: the state of the distributor and the predicates
  and updates of an interrupt line. \<open>GicWrite\<close>, \<open>GicWriteProps\<close>, \<open>GicRead\<close>, \<open>GicTotal\<close>: every arm of the guest's accesses, the shape
  they keep, when they panic or are refused, and that they return. \<open>Gic\<close>, \<open>GicDelivery\<close>: list registers, overflow
  queues and maintenance, with the invariant that the mirrors follow the active flags.

  \<^bold>\<open>Monitor\<close> (\<^verbatim>\<open>hypervisor/components/vmm\<close>, \<^verbatim>\<open>framework/vmm/psci\<close>, \<^verbatim>\<open>framework/vmm/utils\<close>, \<^verbatim>\<open>icecap-sel4/src/fault.rs\<close>). \<open>Fault\<close>: fault messages and the
  emulation of loads and stores. \<open>Psci\<close>: the call parser. \<open>Vmm\<close>, \<open>VmmExt\<close>, \<open>VmmProps\<close>: the event loop of a node with its system calls and the
  extensions of the two monitors, and the invariant of the whole monitor under every behaviour of its guest.

  \<^bold>\<open>Event server\<close> (\<^verbatim>\<open>hypervisor/components/event-server\<close>, \<^verbatim>\<open>framework/helpers/finite-set\<close>). \<open>FiniteSet\<close>: the numbering
  the derive macro generates, a bijection. \<open>EventTypes\<close>: the event spaces, calls and bitfields. \<open>EventServer\<close>, \<open>EventServerInit\<close>: routing,
  realms, dispatch and start-up. \<open>EventServerProps\<close>, \<open>EventServerOps\<close>, \<open>EventServerReach\<close>: the routing invariant over every reachable
  state, delivery of a signal, and that start-up wires every output to its peer.

  \<^bold>\<open>Ring buffers\<close> (\<^verbatim>\<open>framework/base/icecap-ring-buffer\<close>). \<open>RingBuffer\<close>, \<open>RingBufferProps\<close>, \<open>RingBufferLink\<close>: both ends, packets
  and buffered writers; over any interleaving of the two ends, two FIFO channels that make progress.

  \<^bold>\<open>Allocator\<close> (\<^verbatim>\<open>framework/dyndl/realize/src/{cregion,allocator}\<close>, \<^verbatim>\<open>icecap-sel4/src/cspace.rs\<close>). \<open>CSpace\<close>: capability
  addresses and blueprints. \<open>CRegion\<close>: slots of a CNode, behind the locale \<open>slot_pool\<close>. \<open>AllocNode\<close>, \<open>AllocTree\<close>: the derivation tree and
  its reading as free and used blocks. \<open>LeafIndex\<close>: the index of free leaves, behind the locale \<open>block_index\<close>. \<open>Allocator\<close>: the code.
  \<open>AllocatorProps\<close>, \<open>AllocatorSpec\<close>, \<open>AllocatorBuild\<close>, \<open>AllocatorRun\<close>: the invariant, the refinement of an abstract allocator of address
  sets, conservation of addresses, best fit, panics and two leaks.

  \<^bold>\<open>Realizer\<close> (\<^verbatim>\<open>framework/dyndl\<close>). \<open>DyndlTypes\<close>, \<open>ModelView\<close>: the description of a realm and the index of its objects. \<open>Realizer\<close>,
  \<open>RealizerProps\<close>: start, fill, finish and destroy; a realm's life gives everything back, frames are measured, and the
  capability table is right.

  \<^bold>\<open>Resource server\<close> (\<^verbatim>\<open>hypervisor/components/resource-server\<close>). \<open>ResourceServer\<close>, \<open>ResourceServerProps\<close>, \<open>ResourceServerRun\<close>: requests from
  declaration to destruction and the lending of nodes; the invariant over every run, its refinement of a partial map, and
  five defects.

  \<^bold>\<open>Host\<close> (\<^verbatim>\<open>hypervisor/host-tools/icecap-host/core\<close>, \<^verbatim>\<open>framework/base/icecap-rpc\<close>). \<open>Rpc\<close>: messages as words in vectors or message registers, both
  behind the locale \<open>rpc_transport\<close>, in which the round trip is proved. \<open>Host\<close>, \<open>HostProps\<close>: the host's tool; its requests arrive through the trap and
  the monitor's proxy, and creating a realm hands exactly its description and content to the resource server.

  \<^bold>\<open>Timer server\<close> (\<^verbatim>\<open>framework/generic-components/timer-server\<close>, \<^verbatim>\<open>framework/drivers\<close>). \<open>TimerServer\<close>, \<open>TimerServerProps\<close>: the queue of timers, expiry and requests;
  expiry is complete and returns when periods are positive, and a period of zero ticks never returns. \<open>TimerDrivers\<close>: the two devices.

  \<^bold>\<open>Serial server\<close> (\<^verbatim>\<open>framework/generic-components/serial-server\<close>). \<open>SerialServer\<close>, \<open>SerialServerProps\<close>: the shared console; output is neither lost nor mixed,
  its loops end, and timeouts drain it.

  \<^bold>\<open>Mutex\<close> (\<^verbatim>\<open>framework/base/icecap-sync\<close>). \<open>Sync\<close>: threads that interleave between the atomic operations of the lock; mutual exclusion and no lost wake-up.
  It is why the requests of the servers, which hold the lock throughout, are atomic steps elsewhere.

  \<^bold>\<open>Device trees\<close> (\<^verbatim>\<open>framework/base/icecap-fdt\<close>, \<^verbatim>\<open>hypervisor-fdt-append-devices\<close>). \<open>Fdt\<close>, \<open>FdtProps\<close>: the flattened format, its writer and its reader; the reader
  returns on every input, what it answers is well formed, and it reads back what the writer wrote. \<open>FdtBindings\<close>, \<open>FdtBindingsProps\<close>: values, cells, the nodes of
  IceCap's devices and of a guest, and the build tool that appends them to a tree, seen through the reader from its input to its output.

  \<^bold>\<open>Bounds and fuel.\<close> Loops are structural recursions or have a termination proof. The splitting loop of the allocator
  counts down the difference of two sizes, the descents of the derivation tree the remaining depth, so neither runs out.
  The loops of the timer server, the console and the device tree reader that may not end are partial functions, \<open>None\<close> when they do not return;
  that they return is a theorem.

  \<^bold>\<open>Not modelled.\<close> The 9P crates are a copy of a third-party server. The wrappers of kernel invocations
  (\<^verbatim>\<open>icecap-sel4/src/invoke.rs\<close>), runtime, start-up, memory allocator and logging crates and the drivers of serial devices are bindings to
  the kernel, to C or to registers, with no state of their own to reason about. Configuration crates are data. The error and
  failure crates, the printing of device trees, derive macros for tokens, host command lines, the set-up of servers from configuration,
  benchmarks and the OCaml runtime's system calls are glue.
\<close>

section \<open>From the event server to the guest\<close>

text \<open>The virtual line of an event: pending on a node, or waiting in the node's overflow queue.\<close>

definition line_at :: "'c GIC \<Rightarrow> IRQ \<Rightarrow> NodeIndex \<Rightarrow> bool" where
  "line_at g irq t \<longleftrightarrow> is_pending (dist g) irq t = Some True \<or> irq \<in> set (overflow (lrs g ! t))"

fun arrived :: "'c GIC \<Rightarrow> QualifiedIRQ \<Rightarrow> bool" where
  "arrived g (QualifiedPPI node irq) \<longleftrightarrow> node < gic_num_nodes g \<and> line_at g irq node"
| "arrived g (SPI irq) \<longleftrightarrow> (\<exists>t<gic_num_nodes g. line_at g irq t)"

definition lines_grow :: "'c GIC \<Rightarrow> 'c GIC \<Rightarrow> bool" where
  "lines_grow g g' \<longleftrightarrow> gic_num_nodes g' = gic_num_nodes g
     \<and> (\<forall>j<1024. \<forall>k<gic_num_nodes g. line_at g j k \<longrightarrow> line_at g' j k)"

lemma lines_grow_trans: "lines_grow a b \<Longrightarrow> lines_grow b c \<Longrightarrow> lines_grow a c"
  by (simp add: lines_grow_def)

lemma lines_grow_arrived: "lines_grow g g' \<Longrightarrow> qualified_ok q \<Longrightarrow> arrived g q \<Longrightarrow> arrived g' q"
  by (cases q) (auto simp: lines_grow_def)

lemma line_effect_grow:
  assumes "wf_gic g" "line_effect (dist g) d' irq t a" "irq < 1020" "t < gic_num_nodes g"
    and "dist g' = d'" "gic_num_nodes g' = gic_num_nodes g" "\<And>k. overflow (lrs g' ! k) = overflow (lrs g ! k)"
  shows "lines_grow g g'" "line_at g' irq t"
  using assms by (auto simp: line_effect_def lines_grow_def line_at_def wf_gic_def same_line_def)

lemma on_callback_fields:
  "on_callback g m = Some (r, g') \<Longrightarrow> dist g' = dist g \<and> gic_num_nodes g' = gic_num_nodes g \<and> lrs g' = lrs g"
  unfolding on_callback_def by (cases m) (auto split: sum.splits)

lemma overflow_with_slot [simp]: "overflow (lrs (with_slot g t i v) ! k) = overflow (lrs g ! k)"
  by (cases "t < length (lrs g)") (auto simp: with_slot_def nth_list_update list_update_beyond)

lemma forward_irq_arrives:
  assumes f: "forward_irq cb g c t irq = Some (r, g')" and g: "wf_gic g" and irq: "irq < 1020"
  shows "lines_grow g g' \<and> t < gic_num_nodes g \<and> line_at g' irq t"
proof -
  have t: "t < length (lrs g)" using f by (auto simp: forward_irq_def vec_get_Some split: Option.bind_splits)
  then have tn: "t < gic_num_nodes g" using g by (simp add: wf_gic_def)
  show ?thesis
  proof (cases "first_free 0 (mirror (lrs g ! t))")
    case None
    then have "g' = g \<and> irq \<in> set (overflow (lrs g ! t)) \<or> g' = with_queue g t (overflow (lrs g ! t) @ [irq])"
      using f t by (auto simp: forward_irq_def irq_in_lrs_overflow_def set_overflow_def with_queue_def list_ex_iff split: if_splits)
    moreover have "set (overflow (lrs g ! k)) \<subseteq> set (overflow (lrs (with_queue g t (overflow (lrs g ! t) @ [irq])) ! k))" for k
      using t by (cases "k = t") (auto simp: with_queue_def)
    ultimately show ?thesis using t tn by (auto simp: lines_grow_def line_at_def) (auto simp: with_queue_def)
  next
    case (Some i)
    have i: "i < NUM_LRS" using first_free_bound [OF Some] wf_lr_nth [OF g t] by (simp add: wf_lr_def)
    have j: "inject_irq cb g c t i irq = Some (r, g')" using f Some t by (simp add: forward_irq_def)
    show ?thesis
    proof (cases "due_if_pending (dist g) irq t")
      case True
      obtain d' where e: "line_effect (dist g) d' irq t True" and "inject_irq cb g c t i irq =
         on_callback (with_slot (g\<lparr>dist := d'\<rparr>) t i (Some irq)) (cb_vcpu_inject_irq cb (callbacks g) c t i irq (lr_priority (dist g) irq t))"
        by (rule inject_irq_due [OF g irq tn i True])
      then show ?thesis using line_effect_grow [OF g e irq tn, of g'] on_callback_fields [of "with_slot (g\<lparr>dist := d'\<rparr>) t i (Some irq)" _ r g'] j tn by simp
    next
      case False
      obtain d' where e: "line_effect (dist g) d' irq t False" and "inject_irq cb g c t i irq = Some (Inr (), g\<lparr>dist := d'\<rparr>)"
        by (rule inject_irq_not_due [OF g irq tn False])
      then show ?thesis using line_effect_grow [OF g e irq tn, of g'] j tn by simp
    qed
  qed
qed

lemma handle_irq_arrives:
  assumes h: "handle_irq cb g c q = Some (r, g')" and g: "wf_gic g" and q: "qualified_ok q"
  shows "lines_grow g g'" "arrived g' q \<or> (\<exists>irq. q = SPI irq \<and> get_spi_targets (dist g) irq = Some 0)"
proof -
  have "lines_grow g g' \<and> (arrived g' q \<or> (\<exists>irq. q = SPI irq \<and> get_spi_targets (dist g) irq = Some 0))"
  proof (cases q)
    case (QualifiedPPI node irq)
    then show ?thesis using forward_irq_arrives [of cb g c node irq r g'] h g q by (auto simp: lines_grow_def)
  next
    case (SPI irq)
    consider t where "forward_irq cb g c t irq = Some (r, g')" | ts where "get_spi_targets (dist g) irq = Some ts" "biterate ts = []" "g' = g"
      using h SPI by (auto split: Option.bind_splits if_splits list.splits)
    then show ?thesis
    proof cases
      case (1 t)
      then show ?thesis using forward_irq_arrives [OF 1 g] q SPI by (auto simp: lines_grow_def)
    next
      case 2
      have "ts = 0" using 2(2) set_biterate [of ts] by (auto intro!: bit_word_eqI)
      then show ?thesis using 2 SPI by (simp add: lines_grow_def)
    qed
  qed
  then show "lines_grow g g'" "arrived g' q \<or> (\<exists>irq. q = SPI irq \<and> get_spi_targets (dist g) irq = Some 0)" by auto
qed

text \<open>What delivery leaves alone: the targets of shared lines and the monitor's table of events.\<close>

lemma set_flags_targets:
  "set_pending d irq t = Some (r, d') \<Longrightarrow> targets d' = targets d" "set_active d irq t = Some (r, d') \<Longrightarrow> targets d' = targets d"
  by (auto simp: set_pending_def set_active_def split: if_splits Option.bind_splits)

lemma vmm_inject_map: "cb_vcpu_inject_irq (vmm_callbacks K) c calling t i irq p = Some (r, c') \<Longrightarrow> irq_map c' = irq_map c"
  by (auto simp: vmm_callbacks_def vmm_vcpu_inject_irq_def Let_def split: Option.bind_splits prod.splits)

lemma on_callback_map:
  assumes "on_callback g (cb_vcpu_inject_irq (vmm_callbacks K) (callbacks g) c t i irq p) = Some (r, g')"
  shows "irq_map (callbacks g') = irq_map (callbacks g) \<and> dist g' = dist g"
proof -
  obtain r' c' where m: "cb_vcpu_inject_irq (vmm_callbacks K) (callbacks g) c t i irq p = Some (r', c')"
    using assms by (auto simp: on_callback_def split: option.splits)
  show ?thesis using assms vmm_inject_map [OF m] unfolding m on_callback_def by (auto split: sum.splits)
qed

definition delivery_frame :: "'w VMMGICCallbacks GIC \<Rightarrow> 'w VMMGICCallbacks GIC \<Rightarrow> bool" where
  "delivery_frame g g' \<longleftrightarrow> targets (dist g') = targets (dist g) \<and> irq_map (callbacks g') = irq_map (callbacks g)"

lemma delivery_frame_step:
  assumes "try_method m k = Some (x, g3)" "\<And>x g2. m = Some (x, g2) \<Longrightarrow> delivery_frame g1 g2"
    "\<And>a g2. k a g2 = Some (x, g3) \<Longrightarrow> delivery_frame g2 g3"
  shows "delivery_frame g1 g3"
  using assms(1) unfolding try_method_result
proof (elim disjE exE conjE)
  fix e s
  assume "m = Some (Inl e, s)" "(x, g3) = (Inl e, s)"
  then show ?thesis using assms(2) by simp
next
  fix a s
  assume "m = Some (Inr a, s)" "k a s = Some (x, g3)"
  then show ?thesis using assms(2,3) by (fastforce simp: delivery_frame_def)
qed

lemma on_dist_frame:
  assumes "on_dist g1 m = Some (x, g2)" "\<And>r d. m = Some (r, d) \<Longrightarrow> targets d = targets (dist g1)"
  shows "delivery_frame g1 g2"
  using assms by (auto simp: on_dist_def delivery_frame_def split: option.splits sum.splits)

lemma set_mirror_inject_frame:
  assumes "do { g \<leftarrow> set_mirror g1 t i v; on_callback g (cb_vcpu_inject_irq (vmm_callbacks K) (callbacks g) c t i irq p) } = Some (x, g2)"
  shows "delivery_frame g1 g2"
proof -
  obtain g where g: "set_mirror g1 t i v = Some g"
    and c: "on_callback g (cb_vcpu_inject_irq (vmm_callbacks K) (callbacks g) c t i irq p) = Some (x, g2)"
    using assms by (auto split: Option.bind_splits)
  have "delivery_frame g1 g" using g by (auto simp: set_mirror_def delivery_frame_def split: Option.bind_splits)
  then show ?thesis using on_callback_map [OF c] by (simp add: delivery_frame_def)
qed

lemma inject_irq_frame:
  assumes "inject_irq (vmm_callbacks K) g c t i irq = Some (r, g')"
  shows "delivery_frame g g'"
proof -
  have tail: "delivery_frame g1 g2" if "do { b \<leftarrow> should_inject (dist g1) irq t;
      if b then try_method (on_dist g1 (set_active (dist g1) irq t)) (\<lambda>_ g. do {
        g \<leftarrow> set_mirror g t i (Some irq); on_callback g (cb_vcpu_inject_irq (vmm_callbacks K) (callbacks g) c t i irq p) })
      else Some (Inr (), g1) } = Some (r, g2)" for g1 g2 p
  proof (cases "should_inject (dist g1) irq t = Some True")
    case True
    with that have "try_method (on_dist g1 (set_active (dist g1) irq t)) (\<lambda>_ g. do {
        g \<leftarrow> set_mirror g t i (Some irq); on_callback g (cb_vcpu_inject_irq (vmm_callbacks K) (callbacks g) c t i irq p) }) = Some (r, g2)" by simp
    then show ?thesis
      by (rule delivery_frame_step) (auto intro: on_dist_frame set_flags_targets set_mirror_inject_frame)
  next
    case False
    then show ?thesis using that by (auto simp: delivery_frame_def split: Option.bind_splits if_splits)
  qed
  consider e where "get_priority (dist g) irq t = Some (Inl e)" "g' = g" | p where "get_priority (dist g) irq t = Some (Inr p)"
    using assms by (auto simp: inject_irq_def split: option.splits sum.splits)
  then show ?thesis
  proof cases
    case 1
    then show ?thesis by (simp add: delivery_frame_def)
  next
    case (2 p)
    with assms have "try_method (on_dist g (set_pending (dist g) irq t)) (\<lambda>_ g. do { b \<leftarrow> should_inject (dist g) irq t;
      if b then try_method (on_dist g (set_active (dist g) irq t)) (\<lambda>_ g. do {
        g \<leftarrow> set_mirror g t i (Some irq); on_callback g (cb_vcpu_inject_irq (vmm_callbacks K) (callbacks g) c t i irq (drop_bit 3 (unat p))) })
      else Some (Inr (), g) }) = Some (r, g')" by (simp add: inject_irq_def Let_def)
    then show ?thesis by (rule delivery_frame_step) (auto intro: on_dist_frame set_flags_targets tail)
  qed
qed

lemma handle_irq_frame:
  assumes "handle_irq (vmm_callbacks K) g c q = Some (r, g')"
  shows "delivery_frame g g'"
proof -
  have f: "delivery_frame g g'" if "forward_irq (vmm_callbacks K) g c t irq = Some (r, g')" for t irq
    using that inject_irq_frame [of K g c t _ irq r g']
    by (auto simp: forward_irq_def set_overflow_def delivery_frame_def split: option.splits Option.bind_splits if_splits)
  show ?thesis using assms f by (cases q) (auto simp: delivery_frame_def split: Option.bind_splits if_splits list.splits)
qed

text \<open>A loop that succeeds has run its body on every element.\<close>

lemma try_for_each_hits:
  assumes "try_for_each xs f s = Some (Inr (), s')" "x \<in> set xs" "P s"
    and P: "\<And>y s s'. P s \<Longrightarrow> f y s = Some (Inr (), s') \<Longrightarrow> P s'"
    and Q: "\<And>s s'. P s \<Longrightarrow> f x s = Some (Inr (), s') \<Longrightarrow> Q s'"
    and K: "\<And>y s s'. P s \<Longrightarrow> Q s \<Longrightarrow> f y s = Some (Inr (), s') \<Longrightarrow> Q s'"
  shows "Q s'"
proof -
  have keep: "Q s'" if "try_for_each ys f s = Some (Inr (), s')" "P s" "Q s" for ys s
    using that by (induction ys arbitrary: s) (auto simp: try_method_ok intro: P K)
  show ?thesis
    using assms(1-3)
  proof (induction xs arbitrary: s)
    case Nil
    then show ?case by simp
  next
    case (Cons y ys)
    then obtain s1 where "f y s = Some (Inr (), s1)" "try_for_each ys f s1 = Some (Inr (), s')" by (auto simp: try_method_ok)
    then show ?case using Cons P Q keep by (cases "x = y") auto
  qed
qed

lemma clear_groups_conv:
  assumes "distinct gs" "try_for_each gs (clear_group f) (bf, s) = Some (Inr (), (bf', s'))"
  shows "try_for_each (concat (map (\<lambda>g. map (\<lambda>m. g * GROUP_BITS + m) (biterate (bf g))) gs)) f s = Some (Inr (), s')
    \<and> bf' = (\<lambda>g. if g \<in> set gs then 0 else bf g)"
  using assms
proof (induction gs arbitrary: bf s)
  case Nil
  then show ?case by simp
next
  case (Cons g gs)
  then obtain s1 where s1: "try_for_each (biterate (bf g)) (\<lambda>m. f (g * GROUP_BITS + m)) s = Some (Inr (), s1)"
    and r: "try_for_each gs (clear_group f) (bf(g := 0), s1) = Some (Inr (), (bf', s'))"
    using clear_group_def [of f g] by (auto simp: Let_def try_method_ok split: option.splits)
  have e: "map (\<lambda>h. map (\<lambda>m. h * GROUP_BITS + m) (biterate ((bf(g := 0)) h))) gs = map (\<lambda>h. map (\<lambda>m. h * GROUP_BITS + m) (biterate (bf h))) gs"
    using Cons.prems(1) by (intro map_cong) auto
  have "distinct gs" using Cons.prems(1) by simp
  from Cons.IH [OF this r, unfolded e] s1 show ?case
    by (auto simp: try_for_each_append try_for_each_map fun_eq_iff)
qed

text \<open>
  C1. An event reaches the guest. When the event server signals an event whose target is entry \<open>i\<close> of
  an input space, and a monitor's node whose bitfield is that space's then handles a badge that names
  the bit's group, the virtual interrupt the monitor's table gives for \<open>i\<close> is afterwards pending in the
  guest's interrupt controller or waits in an overflow queue for a free list register. (The table's
  interrupts have to be below 1020, a shared one has to have a target, and the kernel has to accept
  the round's injections.)
\<close>

theorem event_reaches_guest:
  assumes es: "es_wf st" "target_of st e = Some (s, i)" "event_signal K e st = Some st'"
    and bf: "bitfields vmm (node_index node) = st_bitfields st' (cn_bitfield (sp_notification (st_spaces st ! s)))"
    and badge: "bit badge (i div 64)" and wf: "wf_gic (gic vmm)"
    and map: "\<forall>j q. event_irq (irq_map (callbacks (gic vmm))) (node_index node) j = Some q \<longrightarrow> qualified_ok q"
    and q: "event_irq (irq_map (callbacks (gic vmm))) (node_index node) i = Some q"
      "\<forall>irq. q = SPI irq \<longrightarrow> get_spi_targets (dist (gic vmm)) irq \<noteq> Some 0"
    and run: "handle_events KV node badge vmm = Some (Inr (), vmm')"
  shows "arrived (gic vmm') q \<and> \<not> bit (bitfields vmm' (node_index node) (i div 64)) (i mod 64)"
proof -
  let ?m = "irq_map (callbacks (gic vmm))" and ?bf = "bitfields vmm (node_index node)"
  have "event_bit st' s i" using event_signal_in [OF es(1,2), of K] unfolding es(3) option.inject by blast
  then have "bit (?bf (i div 64)) (i mod 64)" using sig_rel_fields(2) [OF event_signal_rel [OF es(3)]] by (simp add: bf event_bit_def)
  then have i: "i \<in> set (bitfield_bits badge ?bf)" using badge by (simp add: set_bitfield_bits)
  obtain bf' where c: "bitfield_clear badge (handle_event_bit KV node) (?bf, gic vmm) = Some (Inr (), (bf', gic vmm'))"
    and b: "bitfields vmm' = (bitfields vmm)(node_index node := bf')"
    using run by (auto simp: handle_events_def)
  from clear_groups_conv [OF distinct_biterate c [unfolded bitfield_clear_def]]
  have t: "try_for_each (bitfield_bits badge ?bf) (handle_event_bit KV node) (gic vmm) = Some (Inr (), gic vmm')"
    and bf': "bf' = (\<lambda>g. if bit badge g then 0 else ?bf g)" by (simp_all add: bitfield_bits_def)
  have "arrived (gic vmm') q"
    using t i
  proof (rule try_for_each_hits [where P = "\<lambda>g. wf_gic g \<and> delivery_frame (gic vmm) g"])
    show "wf_gic (gic vmm) \<and> delivery_frame (gic vmm) (gic vmm)" using wf by (simp add: delivery_frame_def)
  next
    fix j g g'
    assume p: "wf_gic g \<and> delivery_frame (gic vmm) g" "handle_event_bit KV node j g = Some (Inr (), g')"
    then obtain q' where h: "event_irq ?m (node_index node) j = Some q'" "handle_irq (vmm_callbacks KV) g (node_index node) q' = Some (Inr (), g')"
      by (auto simp: handle_event_bit_def delivery_frame_def split: Option.bind_splits)
    show "wf_gic g' \<and> delivery_frame (gic vmm) g'"
      using p(1) handle_irq_keeps [OF h(2)] handle_irq_frame [OF h(2)] by (auto simp: gkeeps_def delivery_frame_def)
    show "arrived g' q" if "arrived g q"
      using lines_grow_arrived [OF handle_irq_arrives(1) [OF h(2)]] p(1) map h(1) q(1) that by blast
  next
    fix g g'
    assume p: "wf_gic g \<and> delivery_frame (gic vmm) g" "handle_event_bit KV node i g = Some (Inr (), g')"
    then have h: "handle_irq (vmm_callbacks KV) g (node_index node) q = Some (Inr (), g')"
      using q(1) by (simp add: handle_event_bit_def delivery_frame_def)
    have "get_spi_targets (dist g) = get_spi_targets (dist (gic vmm))" using p(1) by (simp add: delivery_frame_def get_spi_targets_def fun_eq_iff)
    then show "arrived g' q" using handle_irq_arrives(2) [OF h] p(1) map q by auto
  qed
  moreover have "\<not> bit (bitfields vmm' (node_index node) (i div 64)) (i mod 64)" using badge by (simp add: b bf')
  ultimately show ?thesis by simp
qed

text \<open>One event, connected to the only entry of the host's only input space, and a monitor that maps it to a private interrupt.\<close>

definition small_server :: "nat list EventServer" where
  "small_server = (empty_server [] (\<lambda>_ _. 0))\<lparr>st_events := [\<lparr>ev_target = None, ev_irq = None\<rparr>],
     st_spaces := [\<lparr>sp_entries = [None], sp_notification = \<lparr>cn_nfn = [5], cn_bitfield = 0\<rparr>, sp_slot = 0\<rparr>], st_slots := [None],
     host := \<lparr>out_space = [0], in_spaces = [0]\<rparr>\<rparr>"

definition small_server_connected :: "nat list EventServer" where
  "small_server_connected = small_server\<lparr>st_events := [\<lparr>ev_target = Some \<lparr>et_in_space = 0, et_index = 0\<rparr>, ev_irq = None\<rparr>],
     st_spaces := [\<lparr>sp_entries = [Some \<lparr>ent_event = 0, ent_enabled = True\<rparr>], sp_notification = \<lparr>cn_nfn = [5], cn_bitfield = 0\<rparr>, sp_slot = 0\<rparr>]\<rparr>"

lemma small_server_ok: "es_wf small_server_connected" "target_of small_server_connected 0 = Some (0, 0)"
proof -
  have wf: "es_wf small_server"
    by (rule blank_wf) (auto simp: small_server_def empty_server_def empty_client_def wf_cells_def wf_outs_def)
  have c: "connect 0 0 0 small_server = Some small_server_connected"
    by (simp add: connect_def get_entry_def set_entry_def set_event_def small_server_def small_server_connected_def rust_assert_def)
  have p: "0 < length (st_events small_server)" "target_of small_server 0 = None" "get_entry 0 0 small_server = Some None"
    "\<not> realm_input small_server rid 0" for rid
    by (simp_all add: small_server_def empty_server_def target_of_def get_entry_def realm_input_def)
  obtain st' where v: "connect 0 0 0 small_server = Some st'" "frame_rel small_server st'" "target_of st' = (target_of small_server)(0 := Some (0, 0))"
    "entry_of st' = (entry_of small_server)((0, 0) := Some 0)" by (rule connect_views [OF p(1-3)])
  have "es_wf st'"
    by (rule connect_wf [OF wf v(2-4) p(2)])
      (use p(3,4) in \<open>auto simp: entry_of_def live_def host_spaces_def small_server_def\<close>)
  then show "es_wf small_server_connected" "target_of small_server_connected 0 = Some (0, 0)" using v(1,3) c by simp_all
qed

definition small_node :: "unit VMMNode" where
  "small_node = \<lparr>node_index = 0, tcb = 1, vcpu = 2, ep = 3, fault_reply_slot = 4, gic_dist_paddr = 0x8000000, extension = ()\<rparr>"

definition small_monitor :: "(UserContext, unit) VMM" where
  "small_monitor = \<lparr>gic = unit_gic\<lparr>callbacks := unit_callbacks\<lparr>irq_map := \<lparr>ppi_map = [(27, 0, False)], spi_map = []\<rparr>\<rparr>\<rparr>,
     nodes = [None], started = [], bitfields = (\<lambda>_. (\<lambda>_. 0)(0 := 1))\<rparr>"

theorem event_reaches_guest_witness:
  "\<exists>vmm'. handle_events unit_kernel small_node 1 small_monitor = Some (Inr (), vmm') \<and> arrived (gic vmm') (QualifiedPPI 0 27)"
proof -
  let ?st' = "small_server_connected\<lparr>st_bitfields := (\<lambda>_ _. 0)(0 := (\<lambda>_. 0)(0 := 1)), st_world := [5]\<rparr>"
  have sig: "event_signal sample_kernel 0 small_server_connected = Some ?st'"
    by (simp add: event_signal_def in_space_signal.simps post_event_def take_subscriber_def set_slot_def small_server_connected_def small_server_def
        empty_server_def bitfield_set_bit es_signal_def sample_kernel_def shl_def list_update_code)
  let ?g = "gic small_monitor"
  have wf: "wf_gic ?g" using wf_unit_gic(1) by (simp add: small_monitor_def wf_gic_def)
  have b: "biterate (1 :: u64) = [0]" by (simp add: biterate_eq_set_bits set_bits_upto_def upt_rec bit_1_iff)
  have due: "\<not> due_if_pending (dist ?g) 27 0"
    by (simp add: small_monitor_def unit_gic_def due_if_pending_def is_gic_enabled_def Distributor_zeroed_def)
  have free: "first_free 0 (mirror (lrs ?g ! 0)) = Some 0" "0 < length (lrs ?g)"
    by (simp_all add: small_monitor_def unit_gic_def NUM_LRS_def numeral_eq_Suc)
  obtain d' where "inject_irq (vmm_callbacks unit_kernel) ?g 0 0 0 27 = Some (Inr (), ?g\<lparr>dist := d'\<rparr>)"
    by (rule inject_irq_not_due [OF wf _ _ due, of "vmm_callbacks unit_kernel" 0 0]) (simp_all add: small_monitor_def unit_gic_def)
  then have h: "handle_irq (vmm_callbacks unit_kernel) ?g 0 (QualifiedPPI 0 27) = Some (Inr (), ?g\<lparr>dist := d'\<rparr>)"
    using free by (simp add: forward_irq_def)
  have map: "event_irq (irq_map (callbacks ?g)) 0 j = (if j = 0 then Some (QualifiedPPI 0 27) else None)" for j
    by (simp add: event_irq_def small_monitor_def)
  have e: "handle_event_bit unit_kernel small_node 0 ?g = Some (Inr (), ?g\<lparr>dist := d'\<rparr>)"
    by (simp add: handle_event_bit_def small_node_def map h del: handle_irq.simps)
  have "bitfields small_monitor 0 0 = 1" "node_index small_node = 0" by (simp_all add: small_monitor_def small_node_def)
  then obtain vmm' where run: "handle_events unit_kernel small_node 1 small_monitor = Some (Inr (), vmm')"
    by (simp add: handle_events_def bitfield_clear_def clear_group_def b e)
  have "arrived (gic vmm') (QualifiedPPI 0 27) \<and> \<not> bit (bitfields vmm' (node_index small_node) (0 div 64)) (0 mod 64)"
    by (rule event_reaches_guest [OF small_server_ok sig _ _ wf _ _ _ run])
      (simp_all add: small_node_def map, simp_all add: small_monitor_def small_server_connected_def small_server_def)
  then show ?thesis using run by blast
qed

end
